(* ===== verification/Prelude.thy ===== *)
theory Prelude
  imports Main "HOL-Library.Char_ord" "HOL-Library.List_Lexorder" "HOL-Library.AList"
    "HOL-Library.Sublist" "HOL-Library.Multiset"
begin

text \<open>
  What every component shares: Go strings as byte strings (\<open>string\<close>, one \<open>char\<close> per
  byte), Go maps as association lists with distinct keys (the order of the list stands for the
  order in which a \<open>range\<close> loop happens to visit the map), results as sums with the error on
  the left, and the functions of the packages \<open>strings\<close>, \<open>strconv\<close> and \<open>sort\<close> that
  the program uses.
\<close>

named_theorems go_simps \<open>equations of the modelled standard library\<close>

section \<open>Results\<close>

text \<open>
  An error is a package-level sentinel (\<open>errors.New\<close>), named by its variable; an error made
  on the spot by \<open>fmt.Errorf\<close>, named by what it reports and carrying the values it formats; or
  an error wrapped by another (\<open>%w\<close>). The rendered texts are not modelled.
\<close>

datatype error =
    Sentinel string
  | Errorf string "string list"
  | Wrapped string error

type_synonym 'a res = "error + 'a"

fun rbind :: "'e + 'a \<Rightarrow> ('a \<Rightarrow> 'e + 'b) \<Rightarrow> 'e + 'b" where
  "rbind (Inl e) f = Inl e"
| "rbind (Inr x) f = f x"

lemma rbind_Inr_iff: "rbind m f = Inr y \<longleftrightarrow> (\<exists>x. m = Inr x \<and> f x = Inr y)"
  by (cases m) auto

lemma rbind_Inl_iff: "rbind m f = Inl e \<longleftrightarrow> m = Inl e \<or> (\<exists>x. m = Inr x \<and> f x = Inl e)"
  by (cases m) auto

lemmas rbind_iffs = rbind_Inr_iff rbind_Inl_iff

fun mapM_res :: "('a \<Rightarrow> 'e + 'b) \<Rightarrow> 'a list \<Rightarrow> 'e + 'b list" where
  "mapM_res f [] = Inr []"
| "mapM_res f (x # xs) = rbind (f x) (\<lambda>y. rbind (mapM_res f xs) (\<lambda>ys. Inr (y # ys)))"

lemma mapM_res_Inr: "mapM_res f xs = Inr ys \<Longrightarrow> list_all2 (\<lambda>x y. f x = Inr y) xs ys"
  by (induction xs arbitrary: ys) (auto simp: rbind_iffs)

section \<open>Bytes, strings\<close>

abbreviation byte :: "char \<Rightarrow> nat" where
  "byte c \<equiv> of_char c"

lemma byte_less_256: "byte c < 256"
  using of_char_of [of 0] by (metis of_char_eq_iff of_char_mod_256 mod_less_divisor zero_less_numeral)

text \<open>The character \<open>\\\<close>, which string literals cannot hold plainly.\<close>

abbreviation bslash :: char where
  "bslash \<equiv> CHR 0x5C"

abbreviation newline :: char where
  "newline \<equiv> CHR 0x0A"

definition has_prefix :: "string \<Rightarrow> string \<Rightarrow> bool" where
  "has_prefix s p \<longleftrightarrow> prefix p s"

definition has_suffix :: "string \<Rightarrow> string \<Rightarrow> bool" where
  "has_suffix s p \<longleftrightarrow> suffix p s"

definition trim_prefix :: "string \<Rightarrow> string \<Rightarrow> string" where
  "trim_prefix s p = (if prefix p s then drop (length p) s else s)"

definition trim_suffix :: "string \<Rightarrow> string \<Rightarrow> string" where
  "trim_suffix s p = (if suffix p s then take (length s - length p) s else s)"

definition cut_prefix :: "string \<Rightarrow> string \<Rightarrow> string option" where
  "cut_prefix s p = (if prefix p s then Some (drop (length p) s) else None)"

lemma cut_prefix_iff: "cut_prefix s p = Some t \<longleftrightarrow> s = p @ t"
  by (auto simp: cut_prefix_def prefix_def)

lemma cut_prefix_append [simp]: "cut_prefix (p @ t) p = Some t"
  by (simp add: cut_prefix_iff)

lemma append_at_first: "c \<notin> set a \<Longrightarrow> c \<notin> set b \<Longrightarrow> a @ c # s = b @ c # t \<Longrightarrow> a = b \<and> s = t"
  by (induction a arbitrary: b) (auto simp: Cons_eq_append_conv)

definition str_contains :: "string \<Rightarrow> string \<Rightarrow> bool" where
  "str_contains s p \<longleftrightarrow> sublist p s"

lemma sublist_code_rec: "sublist p s = (prefix p s \<or> (case s of [] \<Rightarrow> False | _ # t \<Rightarrow> sublist p t))"
  by (cases s) (auto simp: sublist_Cons_right)

text \<open>\<open>strings.ReplaceAll\<close> for a non-empty \<open>old\<close>: leftmost matches, not overlapping.\<close>

function replace_all :: "string \<Rightarrow> string \<Rightarrow> string \<Rightarrow> string" where
  "replace_all [] old new = []"
| "replace_all (c # s) old new =
     (if old \<noteq> [] \<and> prefix old (c # s) then new @ replace_all (drop (length old) (c # s)) old new
      else c # replace_all s old new)"
  by pat_completeness auto
termination
  by (relation "measure (\<lambda>(s, old, new). length s)") (auto simp: neq_Nil_conv)

fun str_join :: "string list \<Rightarrow> string \<Rightarrow> string" where
  "str_join [] sep = []"
| "str_join [w] sep = w"
| "str_join (w # ws) sep = w @ sep @ str_join ws sep"

lemma str_join_Cons: "str_join (w # ws) sep = (if ws = [] then w else w @ sep @ str_join ws sep)"
  by (cases ws) auto

text \<open>\<open>strings.IndexByte\<close>; \<open>None\<close> is -1.\<close>

fun index_byte :: "string \<Rightarrow> char \<Rightarrow> nat option" where
  "index_byte [] c = None"
| "index_byte (x # s) c = (if x = c then Some 0 else map_option Suc (index_byte s c))"

lemma index_byte_None: "index_byte s c = None \<longleftrightarrow> c \<notin> set s"
  by (induction s) auto

lemma index_byte_Some:
  "index_byte s c = Some i \<Longrightarrow> i < length s \<and> s ! i = c \<and> c \<notin> set (take i s)"
  by (induction s arbitrary: i) (auto split: if_splits)

text \<open>Decimal numerals (\<open>%d\<close>).\<close>

fun nat_dec :: "nat \<Rightarrow> string" where
  "nat_dec n = (if n < 10 then [char_of (48 + n)] else nat_dec (n div 10) @ [char_of (48 + n mod 10)])"

declare nat_dec.simps [simp del]

definition int_dec :: "int \<Rightarrow> string" where
  "int_dec i = (if i < 0 then CHR ''-'' # nat_dec (nat (- i)) else nat_dec (nat i))"

section \<open>Maps\<close>

type_synonym 'v gomap = "(string \<times> 'v) list"

abbreviation keys :: "'v gomap \<Rightarrow> string list" where
  "keys m \<equiv> map fst m"

definition wf_map :: "'v gomap \<Rightarrow> bool" where
  "wf_map m \<longleftrightarrow> distinct (keys m)"

abbreviation gget :: "'v gomap \<Rightarrow> string \<Rightarrow> 'v option" where
  "gget m k \<equiv> map_of m k"

definition ghas :: "'v gomap \<Rightarrow> string \<Rightarrow> bool" where
  "ghas m k \<longleftrightarrow> map_of m k \<noteq> None"

abbreviation gput :: "string \<Rightarrow> 'v \<Rightarrow> 'v gomap \<Rightarrow> 'v gomap" where
  "gput k v m \<equiv> AList.update k v m"

abbreviation gdel :: "string \<Rightarrow> 'v gomap \<Rightarrow> 'v gomap" where
  "gdel k m \<equiv> AList.delete k m"

lemma ghas_iff: "ghas m k \<longleftrightarrow> k \<in> set (keys m)"
  by (auto simp: ghas_def map_of_eq_None_iff)

lemma gget_gput [simp]: "gget (gput k v m) k' = (if k' = k then Some v else gget m k')"
  by (simp add: update_conv')

lemma gget_gdel [simp]: "gget (gdel k m) k' = (if k' = k then None else gget m k')"
  by (simp add: delete_conv')

lemma wf_map_gput [intro]: "wf_map m \<Longrightarrow> wf_map (gput k v m)"
  by (simp add: wf_map_def distinct_update)

lemma wf_map_gdel [intro]: "wf_map m \<Longrightarrow> wf_map (gdel k m)"
  by (simp add: wf_map_def distinct_delete)

lemma wf_map_Nil [simp]: "wf_map []"
  by (simp add: wf_map_def)

lemma wf_map_mem: "wf_map m \<Longrightarrow> (k, v) \<in> set m \<longleftrightarrow> gget m k = Some v"
  by (simp add: wf_map_def)

definition gmap :: "('v \<Rightarrow> 'w) \<Rightarrow> 'v gomap \<Rightarrow> 'w gomap" where
  "gmap f m = map (\<lambda>(k, v). (k, f v)) m"

lemma gget_gmap [simp]: "gget (gmap f m) k = map_option f (gget m k)"
  by (induction m) (auto simp: gmap_def)

lemma keys_gmap [simp]: "keys (gmap f m) = keys m"
  by (induction m) (auto simp: gmap_def)

lemma wf_map_gmap [simp]: "wf_map (gmap f m) = wf_map m"
  by (simp add: wf_map_def)

lemma set_update_subset: "set (AList.update k v xs) \<subseteq> insert (k, v) (set xs)"
  by (induction xs) auto

lemma delete_set_subset: "set (AList.delete k xs) \<subseteq> set xs"
  by (auto simp: AList.delete_eq)

section \<open>Sorting\<close>

text \<open>
  \<open>sort.Strings\<close> is \<open>sort\<close> over the bytewise lexicographic order; \<open>sort.SliceStable\<close> by
  decreasing priority is \<open>sort_key\<close> on the negated key, which is stable.
\<close>

lemma sort_perm_eq: "mset xs = mset ys \<Longrightarrow> sort xs = sort (ys :: 'a::linorder list)"
  by (metis mset_sort properties_for_sort sorted_sort)

lemma sort_set_eq: "distinct xs \<Longrightarrow> distinct ys \<Longrightarrow> set xs = set ys \<Longrightarrow> sort xs = sort (ys :: 'a::linorder list)"
  by (metis sort_perm_eq set_eq_iff_mset_eq_distinct)

lemma sort_key_filter_stable: "filter (\<lambda>y. f y = f x) (sort_key f xs) = filter (\<lambda>y. f y = f x) xs"
  by (rule sort_key_stable)

end
