(* ===== verification/Utf8.thy ===== *)
theory Utf8
  imports Prelude
begin

text \<open>
  The package \<open>unicode/utf8\<close> and the conversion \<open>[]rune(s)\<close>. A rune is a \<open>nat\<close>. Decoding
  follows the table of well-formed sequences; any other byte decodes to \<open>RuneError\<close> with size 1,
  as in Go. Also here: \<open>unicode.IsSpace\<close>, \<open>strings.TrimSpace\<close> and \<open>strings.ToLower\<close>.
\<close>

section \<open>Decoding and encoding\<close>

definition RuneError :: nat where
  "RuneError = 0xFFFD"

definition cont :: "nat \<Rightarrow> bool" where
  "cont b \<longleftrightarrow> 0x80 \<le> b \<and> b \<le> 0xBF"

text \<open>The first rune of a non-empty byte sequence, whether it is well formed, and its size.\<close>

fun dec2 :: "nat \<Rightarrow> nat list \<Rightarrow> nat \<times> bool \<times> nat" where
  "dec2 b0 (b1 # _) =
     (if cont b1 then ((b0 - 0xC0) * 64 + (b1 - 0x80), True, 2) else (RuneError, False, 1))"
| "dec2 b0 [] = (RuneError, False, 1)"

fun dec3 :: "nat \<Rightarrow> nat list \<Rightarrow> nat \<times> bool \<times> nat" where
  "dec3 b0 (b1 # b2 # _) =
     (if cont b1 \<and> cont b2 \<and> (b0 = 0xE0 \<longrightarrow> 0xA0 \<le> b1) \<and> (b0 = 0xED \<longrightarrow> b1 \<le> 0x9F)
      then ((b0 - 0xE0) * 4096 + (b1 - 0x80) * 64 + (b2 - 0x80), True, 3)
      else (RuneError, False, 1))"
| "dec3 b0 _ = (RuneError, False, 1)"

fun dec4 :: "nat \<Rightarrow> nat list \<Rightarrow> nat \<times> bool \<times> nat" where
  "dec4 b0 (b1 # b2 # b3 # _) =
     (if cont b1 \<and> cont b2 \<and> cont b3 \<and> (b0 = 0xF0 \<longrightarrow> 0x90 \<le> b1) \<and> (b0 = 0xF4 \<longrightarrow> b1 \<le> 0x8F)
      then ((b0 - 0xF0) * 262144 + (b1 - 0x80) * 4096 + (b2 - 0x80) * 64 + (b3 - 0x80), True, 4)
      else (RuneError, False, 1))"
| "dec4 b0 _ = (RuneError, False, 1)"

fun next_rune :: "nat list \<Rightarrow> nat \<times> bool \<times> nat" where
  "next_rune [] = (RuneError, False, 0)"
| "next_rune (b0 # bs) =
     (if b0 < 0x80 then (b0, True, 1)
      else if 0xC2 \<le> b0 \<and> b0 \<le> 0xDF then dec2 b0 bs
      else if 0xE0 \<le> b0 \<and> b0 \<le> 0xEF then dec3 b0 bs
      else if 0xF0 \<le> b0 \<and> b0 \<le> 0xF4 then dec4 b0 bs
      else (RuneError, False, 1))"

lemma next_rune_size: "bs \<noteq> [] \<Longrightarrow> next_rune bs = (r, ok, n) \<Longrightarrow> 0 < n \<and> n \<le> length bs"
  by (cases bs) (auto split: if_splits elim!: dec2.elims dec3.elims dec4.elims)

text \<open>A string as its runes, each with the flag that tells well-formed from invalid.\<close>

function rune_list :: "nat list \<Rightarrow> (nat \<times> bool \<times> nat) list" where
  "rune_list bs =
     (if bs = [] then []
      else next_rune bs # rune_list (drop (snd (snd (next_rune bs))) bs))"
  by pat_completeness auto
termination
  by (relation "measure length") (auto dest!: next_rune_size simp: prod_eq_iff intro!: diff_less split: prod.splits)

declare rune_list.simps [simp del]

definition bytes_runes :: "nat list \<Rightarrow> nat list" where
  "bytes_runes bs = map fst (rune_list bs)"

definition bytes_valid :: "nat list \<Rightarrow> bool" where
  "bytes_valid bs = list_all (\<lambda>(_, ok, _). ok) (rune_list bs)"

definition bytes :: "string \<Rightarrow> nat list" where
  "bytes s = map byte s"

definition unbytes :: "nat list \<Rightarrow> string" where
  "unbytes bs = map char_of bs"

text \<open>\<open>[]rune(s)\<close> and \<open>utf8.ValidString(s)\<close>.\<close>

definition runes :: "string \<Rightarrow> nat list" where
  "runes s = bytes_runes (bytes s)"

definition valid_string :: "string \<Rightarrow> bool" where
  "valid_string s = bytes_valid (bytes s)"

text \<open>\<open>utf8.EncodeRune\<close>; a value that is not a scalar is written as \<open>RuneError\<close>.\<close>

definition scalar :: "nat \<Rightarrow> bool" where
  "scalar r \<longleftrightarrow> r < 0xD800 \<or> 0xDFFF < r \<and> r < 0x110000"

definition encode_rune :: "nat \<Rightarrow> nat list" where
  "encode_rune r0 = (let r = (if scalar r0 then r0 else RuneError) in
     if r < 0x80 then [r]
     else if r < 0x800 then [0xC0 + r div 64, 0x80 + r mod 64]
     else if r < 0x10000 then [0xE0 + r div 4096, 0x80 + r div 64 mod 64, 0x80 + r mod 64]
     else [0xF0 + r div 262144, 0x80 + r div 4096 mod 64, 0x80 + r div 64 mod 64, 0x80 + r mod 64])"

definition encode_runes :: "nat list \<Rightarrow> string" where
  "encode_runes rs = unbytes (concat (map encode_rune rs))"

section \<open>Round trips\<close>

lemma bytes_unbytes: "\<forall>b \<in> set bs. b < 256 \<Longrightarrow> bytes (unbytes bs) = bs"
  by (induction bs) (auto simp: bytes_def unbytes_def)

lemma unbytes_bytes [simp]: "unbytes (bytes s) = s"
  by (induction s) (auto simp: bytes_def unbytes_def)

lemma bytes_append [simp]: "bytes (a @ b) = bytes a @ bytes b"
  by (simp add: bytes_def)

lemma bytes_inj [simp]: "bytes a = bytes b \<longleftrightarrow> a = b"
  by (metis unbytes_bytes)

lemma bytes_less: "b \<in> set (bytes s) \<Longrightarrow> b < 256"
  by (auto simp: bytes_def byte_less_256)

lemma split_div_64_3: "(r::nat) = r div 4096 * 4096 + r div 64 mod 64 * 64 + r mod 64"
proof -
  have "r div 4096 = r div 64 div 64"
    using div_mult2_eq [of r 64 64] by simp
  then show ?thesis
    using div_mult_mod_eq [of "r div 64" 64] div_mult_mod_eq [of r 64] by linarith
qed

lemma split_div_64_4: "(r::nat) = r div 262144 * 262144 + r div 4096 mod 64 * 4096 + r div 64 mod 64 * 64 + r mod 64"
proof -
  have "r div 262144 = r div 4096 div 64"
    using div_mult2_eq [of r 4096 64] by simp
  then show ?thesis
    using div_mult_mod_eq [of "r div 4096" 64] split_div_64_3 [of r] by linarith
qed

lemma next_rune_encode:
  assumes "scalar r"
  shows "next_rune (encode_rune r @ t) = (r, True, length (encode_rune r))"
proof -
  consider "r < 0x80" | "0x80 \<le> r" "r < 0x800" | "0x800 \<le> r" "r < 0x10000" | "0x10000 \<le> r" "r < 0x110000"
    using assms unfolding scalar_def by linarith
  then show ?thesis
  proof cases
    case 1
    then show ?thesis using assms by (simp add: encode_rune_def)
  next
    case 2
    define a b where "a = r div 64" and "b = r mod 64"
    have "2 \<le> a" "a \<le> 31" "b < 64" "r = a * 64 + b"
      using 2 by (auto simp: a_def b_def)
    moreover have "encode_rune r = [0xC0 + a, 0x80 + b]"
      using assms 2 by (simp add: encode_rune_def a_def b_def)
    ultimately show ?thesis by (simp add: cont_def)
  next
    case 3
    define a b c where "a = r div 4096" and "b = r div 64 mod 64" and "c = r mod 64"
    have r: "r = a * 4096 + b * 64 + c"
      unfolding a_def b_def c_def by (rule split_div_64_3)
    have bd: "a \<le> 15" "b < 64" "c < 64"
      using 3 by (auto simp: a_def b_def c_def)
    have lo: "a = 0 \<Longrightarrow> 32 \<le> b" using 3 r bd by linarith
    have hi: "a = 13 \<Longrightarrow> b \<le> 31" using assms r bd by (auto simp: scalar_def)
    have "encode_rune r = [0xE0 + a, 0x80 + b, 0x80 + c]"
      using assms 3 by (simp add: encode_rune_def a_def b_def c_def)
    then show ?thesis using bd lo hi r by (simp add: cont_def)
  next
    case 4
    define a b c d where "a = r div 262144" and "b = r div 4096 mod 64" and "c = r div 64 mod 64"
      and "d = r mod 64"
    have r: "r = a * 262144 + b * 4096 + c * 64 + d"
      unfolding a_def b_def c_def d_def by (rule split_div_64_4)
    have bd: "b < 64" "c < 64" "d < 64"
      by (auto simp: b_def c_def d_def)
    have a4: "a \<le> 4" using 4 by (auto simp: a_def)
    have lo: "a = 0 \<Longrightarrow> 16 \<le> b" using 4 r bd by linarith
    have hi: "a = 4 \<Longrightarrow> b \<le> 15" using 4 r bd by linarith
    have "encode_rune r = [0xF0 + a, 0x80 + b, 0x80 + c, 0x80 + d]"
      using assms 4 by (simp add: encode_rune_def a_def b_def c_def d_def)
    then show ?thesis using bd a4 lo hi r by (simp add: cont_def)
  qed
qed

lemma encode_rune_nonempty [simp]: "encode_rune r \<noteq> []"
  by (simp add: encode_rune_def Let_def)

lemma encode_rune_less: "b \<in> set (encode_rune r) \<Longrightarrow> b < 256"
  by (auto simp: encode_rune_def Let_def RuneError_def scalar_def split: if_splits)

lemma next_rune_decode:
  assumes "next_rune bs = (r, True, n)"
  shows "scalar r \<and> encode_rune r = take n bs"
proof -
  obtain b0 bs' where bs: "bs = b0 # bs'" using assms by (cases bs) auto
  consider (one) "b0 < 0x80"
    | (two) "0xC2 \<le> b0" "b0 \<le> 0xDF" "dec2 b0 bs' = (r, True, n)"
    | (three) "0xE0 \<le> b0" "b0 \<le> 0xEF" "dec3 b0 bs' = (r, True, n)"
    | (four) "0xF0 \<le> b0" "b0 \<le> 0xF4" "dec4 b0 bs' = (r, True, n)"
    using assms bs by (auto split: if_splits)
  then show ?thesis
  proof cases
    case one
    then show ?thesis using assms bs by (auto simp: encode_rune_def scalar_def)
  next
    case two
    then obtain b1 t where b1: "bs' = b1 # t" "cont b1" "r = (b0 - 0xC0) * 64 + (b1 - 0x80)" "n = 2"
      by (auto elim!: dec2.elims split: if_splits)
    define a b where "a = b0 - 0xC0" and "b = b1 - 0x80"
    have eqs: "b0 = 0xC0 + a" "b1 = 0x80 + b" "2 \<le> a" "a \<le> 31" "b < 64" "r = a * 64 + b"
      using two b1 by (auto simp: a_def b_def cont_def)
    then have "r div 64 = a" "r mod 64 = b" "0x80 \<le> r" "r < 0x800" by auto
    then show ?thesis using bs b1 eqs by (simp add: encode_rune_def scalar_def)
  next
    case three
    then obtain b1 b2 t where b1: "bs' = b1 # b2 # t" "cont b1" "cont b2"
        "b0 = 0xE0 \<longrightarrow> 0xA0 \<le> b1" "b0 = 0xED \<longrightarrow> b1 \<le> 0x9F"
        "r = (b0 - 0xE0) * 4096 + (b1 - 0x80) * 64 + (b2 - 0x80)" "n = 3"
      by (auto elim!: dec3.elims split: if_splits)
    define a b c where "a = b0 - 0xE0" and "b = b1 - 0x80" and "c = b2 - 0x80"
    have eqs: "b0 = 0xE0 + a" "b1 = 0x80 + b" "b2 = 0x80 + c" "a \<le> 15" "b < 64" "c < 64"
        "r = a * 4096 + b * 64 + c" "a = 0 \<Longrightarrow> 32 \<le> b" "a = 13 \<Longrightarrow> b \<le> 31"
      using three b1 by (auto simp: a_def b_def c_def cont_def)
    have d64: "r div 64 = a * 64 + b" using eqs(6,7) by simp
    have q: "r div 4096 = a" using eqs(5-7) by simp
    have qb: "r div 64 mod 64 = b" using d64 eqs(5) by simp
    have qc: "r mod 64 = c"
      using eqs(6,7) mod_mult_self3 [of "a * 64 + b" 64 c] by (simp add: algebra_simps)
    have lo: "0x800 \<le> r" using eqs(4-8) by (cases "a = 0") auto
    have hi: "r < 0x10000" using eqs(4-7) by simp
    have sc: "scalar r"
      using eqs(4-9) by (cases "a < 13"; cases "a = 13"; auto simp: scalar_def)
    have "encode_rune r = [0xE0 + a, 0x80 + b, 0x80 + c]"
      using sc lo hi by (simp add: encode_rune_def q qb qc)
    then show ?thesis using sc bs b1(1) b1(7) eqs(1-3) by simp
  next
    case four
    then obtain b1 b2 b3 t where b1: "bs' = b1 # b2 # b3 # t" "cont b1" "cont b2" "cont b3"
        "b0 = 0xF0 \<longrightarrow> 0x90 \<le> b1" "b0 = 0xF4 \<longrightarrow> b1 \<le> 0x8F"
        "r = (b0 - 0xF0) * 262144 + (b1 - 0x80) * 4096 + (b2 - 0x80) * 64 + (b3 - 0x80)" "n = 4"
      by (auto elim!: dec4.elims split: if_splits)
    define a b c d where "a = b0 - 0xF0" and "b = b1 - 0x80" and "c = b2 - 0x80" and "d = b3 - 0x80"
    have eqs: "b0 = 0xF0 + a" "b1 = 0x80 + b" "b2 = 0x80 + c" "b3 = 0x80 + d" "a \<le> 4"
        "b < 64" "c < 64" "d < 64" "r = a * 262144 + b * 4096 + c * 64 + d"
        "a = 0 \<Longrightarrow> 16 \<le> b" "a = 4 \<Longrightarrow> b \<le> 15"
      using four b1 by (auto simp: a_def b_def c_def d_def cont_def)
    have d64: "r div 64 = a * 4096 + b * 64 + c" using eqs(6-9) by simp
    have d4096: "r div 4096 = a * 64 + b" using eqs(6-9) by simp
    have q: "r div 262144 = a" using eqs(6-9) by simp
    have qb: "r div 4096 mod 64 = b" using d4096 eqs(6) by simp
    have qc: "r div 64 mod 64 = c"
      using d64 eqs(7) mod_mult_self3 [of "a * 64 + b" 64 c] by (simp add: algebra_simps)
    have qd: "r mod 64 = d"
      using eqs(8,9) mod_mult_self3 [of "a * 4096 + b * 64 + c" 64 d] by (simp add: algebra_simps)
    have lo: "0x10000 \<le> r" using eqs(6-10) by (cases "a = 0") auto
    have hi: "r < 0x110000" using eqs(5-9,11) by (cases "a = 4") auto
    have sc: "scalar r" using lo hi by (simp add: scalar_def)
    have "encode_rune r = [0xF0 + a, 0x80 + b, 0x80 + c, 0x80 + d]"
      using sc lo by (simp add: encode_rune_def q qb qc qd)
    then show ?thesis using sc bs b1(1) b1(8) eqs(1-4) by simp
  qed
qed

lemma rune_list_Nil [simp]: "rune_list [] = []"
  by (simp add: rune_list.simps)

lemma rune_list_encode: "scalar r \<Longrightarrow>
  rune_list (encode_rune r @ t) = (r, True, length (encode_rune r)) # rune_list t"
  by (subst rune_list.simps) (simp add: next_rune_encode)

lemma rune_list_encodes: "\<forall>r \<in> set rs. scalar r \<Longrightarrow>
  rune_list (concat (map encode_rune rs) @ t) =
    map (\<lambda>r. (r, True, length (encode_rune r))) rs @ rune_list t"
  by (induction rs) (auto simp: rune_list_encode)

text \<open>A valid string is the encoding of its runes.\<close>

lemma bytes_valid_encodes: "bytes_valid bs \<Longrightarrow>
  (\<forall>r \<in> set (bytes_runes bs). scalar r) \<and> concat (map encode_rune (bytes_runes bs)) = bs"
proof (induction bs rule: rune_list.induct)
  case (1 bs)
  show ?case
  proof (cases "bs = []")
    case True
    then show ?thesis by (simp add: bytes_runes_def)
  next
    case False
    obtain r ok n where nr: "next_rune bs = (r, ok, n)" by (cases "next_rune bs") auto
    have rl: "rune_list bs = (r, ok, n) # rune_list (drop n bs)"
      using False nr by (subst rune_list.simps) simp
    then have ok: "ok" and v: "bytes_valid (drop n bs)"
      using "1.prems" by (auto simp: bytes_valid_def)
    from "1.IH" [OF False] v nr
    have ih: "\<forall>r \<in> set (bytes_runes (drop n bs)). scalar r"
        "concat (map encode_rune (bytes_runes (drop n bs))) = drop n bs"
      by auto
    from next_rune_decode [of bs r n] nr ok
    have dec: "scalar r" "encode_rune r = take n bs" by auto
    have "bytes_runes bs = r # bytes_runes (drop n bs)"
      by (simp add: bytes_runes_def rl)
    then show ?thesis using ih dec by simp
  qed
qed

lemma valid_string_encode: "valid_string s \<Longrightarrow> encode_runes (runes s) = s"
  using bytes_valid_encodes [of "bytes s"]
  by (simp add: valid_string_def runes_def encode_runes_def)

lemma valid_string_scalar: "valid_string s \<Longrightarrow> r \<in> set (runes s) \<Longrightarrow> scalar r"
  using bytes_valid_encodes [of "bytes s"] by (simp add: valid_string_def runes_def)

lemma runes_encode: "\<forall>r \<in> set rs. scalar r \<Longrightarrow> runes (encode_runes rs) = rs"
proof -
  assume sc: "\<forall>r \<in> set rs. scalar r"
  have "bytes (encode_runes rs) = concat (map encode_rune rs)"
    unfolding encode_runes_def by (rule bytes_unbytes) (auto dest: encode_rune_less)
  then show ?thesis
    using rune_list_encodes [OF sc, of "[]"] by (simp add: runes_def bytes_runes_def comp_def)
qed

lemma valid_encode_runes: "\<forall>r \<in> set rs. scalar r \<Longrightarrow> valid_string (encode_runes rs)"
proof -
  assume sc: "\<forall>r \<in> set rs. scalar r"
  have "bytes (encode_runes rs) = concat (map encode_rune rs)"
    unfolding encode_runes_def by (rule bytes_unbytes) (auto dest: encode_rune_less)
  then show ?thesis
    using rune_list_encodes [OF sc, of "[]"]
    by (simp add: valid_string_def bytes_valid_def list_all_iff)
qed

text \<open>On valid strings the runes determine the string.\<close>

lemma runes_inj: "valid_string a \<Longrightarrow> valid_string b \<Longrightarrow> runes a = runes b \<longleftrightarrow> a = b"
  by (metis valid_string_encode)

lemma encode_runes_append: "encode_runes (a @ b) = encode_runes a @ encode_runes b"
  by (simp add: encode_runes_def unbytes_def)

lemma unbytes_append [simp]: "unbytes (a @ b) = unbytes a @ unbytes b"
  by (simp add: unbytes_def)

lemma encode_runes_Cons: "encode_runes (r # rs) = unbytes (encode_rune r) @ encode_runes rs"
  by (simp add: encode_runes_def)

lemma encode_runes_Nil [simp]: "encode_runes [] = []"
  by (simp add: encode_runes_def unbytes_def)

lemma valid_string_iff: "valid_string s \<longleftrightarrow> (\<exists>rs. (\<forall>r \<in> set rs. scalar r) \<and> s = encode_runes rs)"
  by (metis valid_encode_runes valid_string_encode valid_string_scalar)

lemma valid_string_append: "valid_string a \<Longrightarrow> valid_string b \<Longrightarrow> valid_string (a @ b)"
  unfolding valid_string_iff by (metis encode_runes_append set_append UnE)

lemma runes_append: "valid_string a \<Longrightarrow> valid_string b \<Longrightarrow> runes (a @ b) = runes a @ runes b"
  unfolding valid_string_iff by (metis (no_types, lifting) encode_runes_append runes_encode set_append UnE)

lemma runes_Nil [simp]: "runes [] = []"
  by (simp add: runes_def bytes_def bytes_runes_def)

lemma valid_string_Nil [simp]: "valid_string []"
  by (simp add: valid_string_def bytes_def bytes_valid_def)

section \<open>ASCII\<close>

definition ascii :: "string \<Rightarrow> bool" where
  "ascii s = list_all (\<lambda>c. byte c < 128) s"

lemma rune_list_ascii: "list_all (\<lambda>b. b < 128) bs \<Longrightarrow> rune_list (bs @ t) = map (\<lambda>b. (b, True, 1)) bs @ rune_list t"
proof (induction bs)
  case (Cons b bs)
  then show ?case by (subst rune_list.simps) simp
qed simp

lemma runes_ascii: "ascii s \<Longrightarrow> runes s = map byte s"
  using rune_list_ascii [of "bytes s" "[]"]
  by (simp add: runes_def bytes_runes_def ascii_def bytes_def list_all_iff comp_def)

lemma valid_ascii: "ascii s \<Longrightarrow> valid_string s"
  using rune_list_ascii [of "bytes s" "[]"]
  by (simp add: valid_string_def bytes_valid_def ascii_def bytes_def list_all_iff)

lemma runes_Cons_ascii: "byte c < 128 \<Longrightarrow> runes (c # s) = byte c # runes s"
  using rune_list_ascii [of "[byte c]" "bytes s"] by (simp add: runes_def bytes_runes_def bytes_def)

lemma valid_Cons_ascii: "byte c < 128 \<Longrightarrow> valid_string (c # s) = valid_string s"
  using rune_list_ascii [of "[byte c]" "bytes s"] by (simp add: valid_string_def bytes_valid_def bytes_def)

lemma encode_ascii: "r < 128 \<Longrightarrow> encode_rune r = [r]"
  by (simp add: encode_rune_def scalar_def)

section \<open>White space\<close>

text \<open>\<open>unicode.IsSpace\<close>: the White_Space property.\<close>

definition is_space :: "nat \<Rightarrow> bool" where
  "is_space r \<longleftrightarrow> r \<in> {9, 10, 11, 12, 13, 32, 0x85, 0xA0, 0x1680, 0x2028, 0x2029, 0x202F, 0x205F, 0x3000}
     \<or> 0x2000 \<le> r \<and> r \<le> 0x200A"

text \<open>Each rune with the bytes it was decoded from.\<close>

fun attach :: "(nat \<times> bool \<times> nat) list \<Rightarrow> nat list \<Rightarrow> (nat \<times> nat list) list" where
  "attach [] bs = []"
| "attach ((r, _, n) # rs) bs = (r, take n bs) # attach rs (drop n bs)"

definition rune_segs :: "nat list \<Rightarrow> (nat \<times> nat list) list" where
  "rune_segs bs = attach (rune_list bs) bs"

definition trim_ends :: "('a \<Rightarrow> bool) \<Rightarrow> 'a list \<Rightarrow> 'a list" where
  "trim_ends p xs = rev (dropWhile p (rev (dropWhile p xs)))"

text \<open>\<open>strings.TrimSpace\<close>\<close>

definition trim_space :: "string \<Rightarrow> string" where
  "trim_space s = unbytes (concat (map snd (trim_ends (is_space \<circ> fst) (rune_segs (bytes s)))))"

lemma next_rune_invalid: "bs \<noteq> [] \<Longrightarrow> next_rune bs = (r, False, n) \<Longrightarrow> r = RuneError \<and> n = 1"
  by (cases bs) (auto split: if_splits elim!: dec2.elims dec3.elims dec4.elims)

lemma next_rune_append_valid: "next_rune bs = (r, True, n) \<Longrightarrow> next_rune (bs @ t) = (r, True, n)"
  by (cases bs) (auto split: if_splits elim!: dec2.elims dec3.elims dec4.elims)

lemma next_rune_take:
  assumes "next_rune bs = (r, ok, n)" and "n \<le> k" and "bs \<noteq> []" and "0 < k"
  shows "next_rune (take k bs) = (r, ok, n)"
proof (cases ok)
  case True
  with assms(1) next_rune_decode [of bs r n] have d: "scalar r" "encode_rune r = take n bs" by auto
  have "length (encode_rune r) = n"
    using d(2) next_rune_size [of bs r ok n] assms by simp
  moreover have "take k bs = encode_rune r @ take (k - n) (drop n bs)"
  proof -
    have "take k bs = take n (take k bs) @ drop n (take k bs)" by (rule append_take_drop_id [symmetric])
    then show ?thesis using d(2) assms(2) by (simp add: min_def drop_take)
  qed
  ultimately show ?thesis using next_rune_encode [OF d(1)] True by simp
next
  case False
  obtain r' ok' n' where t: "next_rune (take k bs) = (r', ok', n')"
    by (cases "next_rune (take k bs)") auto
  have ne: "take k bs \<noteq> []" using assms by (cases bs; cases k) auto
  have "\<not> ok'"
    using t False assms(1) next_rune_append_valid [of "take k bs" r' n' "drop k bs"] by (cases ok') auto
  then show ?thesis
    using t False assms(1,3) ne next_rune_invalid by (metis (full_types))
qed

text \<open>Segments partition the bytes, and any run of segments is segmented the same way on its own.\<close>

lemma rune_segs_Nil [simp]: "rune_segs [] = []"
  by (simp add: rune_segs_def)

lemma rune_segs_step:
  assumes "bs \<noteq> []" and "next_rune bs = (r, ok, n)"
  shows "rune_segs bs = (r, take n bs) # rune_segs (drop n bs)"
  using assms unfolding rune_segs_def by (subst rune_list.simps) simp

lemma concat_rune_segs: "concat (map snd (rune_segs bs)) = bs"
proof (induction bs rule: rune_list.induct)
  case (1 bs)
  show ?case
  proof (cases "bs = []")
    case False
    obtain r ok n where nr: "next_rune bs = (r, ok, n)" by (cases "next_rune bs") auto
    with "1.IH" [OF False] have "concat (map snd (rune_segs (drop n bs))) = drop n bs" by simp
    then show ?thesis using rune_segs_step [OF False nr] by simp
  qed simp
qed

lemma rune_segs_suffix: "rune_segs bs = xs @ ys \<Longrightarrow> rune_segs (concat (map snd ys)) = ys"
proof (induction xs arbitrary: bs)
  case Nil
  then show ?case using concat_rune_segs [of bs] by simp
next
  case (Cons x xs)
  then have ne: "bs \<noteq> []" by auto
  obtain r ok n where nr: "next_rune bs = (r, ok, n)" by (cases "next_rune bs") auto
  from rune_segs_step [OF ne nr] Cons.prems have "rune_segs (drop n bs) = xs @ ys" by simp
  then show ?case by (rule Cons.IH)
qed

lemma rune_segs_prefix: "rune_segs bs = xs @ ys \<Longrightarrow> rune_segs (concat (map snd xs)) = xs"
proof (induction xs arbitrary: bs)
  case (Cons x xs)
  then have ne: "bs \<noteq> []" by auto
  obtain r ok n where nr: "next_rune bs = (r, ok, n)" by (cases "next_rune bs") auto
  from next_rune_size [OF ne nr] have n: "0 < n" "n \<le> length bs" by auto
  from rune_segs_step [OF ne nr] Cons.prems
  have x: "x = (r, take n bs)" and rest: "rune_segs (drop n bs) = xs @ ys" by auto
  define c where "c = concat (map snd xs)"
  have "bs = take n bs @ c @ concat (map snd ys)"
    using concat_rune_segs [of "drop n bs"] rest by (simp add: c_def)
  then have tk: "take n bs @ c = take (n + length c) bs"
    using n by (metis append.assoc append_eq_conv_conj length_append length_take min.absorb2)
  have "next_rune (take n bs @ c) = (r, ok, n)"
    unfolding tk by (rule next_rune_take [OF nr]) (use n ne in auto)
  moreover have "take n bs @ c \<noteq> []" using n ne by auto
  ultimately have "rune_segs (take n bs @ c) = (r, take n (take n bs @ c)) # rune_segs (drop n (take n bs @ c))"
    by (intro rune_segs_step)
  moreover have "drop n (take n bs @ c) = c" "take n (take n bs @ c) = take n bs" using n by auto
  moreover have "rune_segs c = xs" unfolding c_def by (rule Cons.IH [OF rest])
  ultimately show ?case by (simp add: x c_def)
qed simp

lemma trim_ends_split: "\<exists>a b. xs = a @ trim_ends p xs @ b"
proof -
  have "xs = takeWhile p xs @ dropWhile p xs" by simp
  moreover have "dropWhile p xs = trim_ends p xs @ rev (takeWhile p (rev (dropWhile p xs)))"
    unfolding trim_ends_def by (metis rev_append rev_rev_ident takeWhile_dropWhile_id)
  ultimately show ?thesis by metis
qed

lemma dropWhile_eq_self: "dropWhile p xs = xs \<longleftrightarrow> xs = [] \<or> \<not> p (hd xs)"
  by (cases xs) (auto dest: arg_cong [where f = length] simp: impossible_Cons length_dropWhile_le)

lemma trim_ends_idem: "trim_ends p (trim_ends p xs) = trim_ends p xs"
proof -
  define d where "d = dropWhile p xs"
  define t where "t = rev (dropWhile p (rev d))"
  have t: "trim_ends p xs = t" by (simp add: trim_ends_def t_def d_def)
  obtain z where z: "d = t @ z"
    unfolding t_def by (metis rev_append rev_rev_ident takeWhile_dropWhile_id)
  have "d = [] \<or> \<not> p (hd d)"
    unfolding d_def by (metis hd_dropWhile)
  then have "t = [] \<or> \<not> p (hd t)" using z by (metis append_is_Nil_conv hd_append2)
  then have "dropWhile p t = t" by (simp add: dropWhile_eq_self)
  moreover have "rev t = [] \<or> \<not> p (hd (rev t))"
    unfolding t_def by (metis hd_dropWhile rev_rev_ident)
  then have "dropWhile p (rev t) = rev t" by (simp add: dropWhile_eq_self)
  ultimately show ?thesis unfolding t by (simp add: trim_ends_def)
qed

lemma rune_segs_less: "x \<in> set (concat (map snd (rune_segs (bytes s)))) \<Longrightarrow> x < 256"
  by (simp only: concat_rune_segs bytes_less)

lemma trim_space_idem [simp]: "trim_space (trim_space s) = trim_space s"
proof -
  define p where "p = is_space \<circ> (fst :: nat \<times> nat list \<Rightarrow> nat)"
  define t where "t = trim_ends p (rune_segs (bytes s))"
  obtain a b where ab: "rune_segs (bytes s) = a @ t @ b"
    using trim_ends_split unfolding t_def by blast
  have "rune_segs (concat (map snd (t @ b))) = t @ b" by (rule rune_segs_suffix [OF ab])
  then have seg: "rune_segs (concat (map snd t)) = t" by (rule rune_segs_prefix)
  have "\<forall>x \<in> set (concat (map snd t)). x < 256"
    using rune_segs_less [of _ s] by (simp only: ab) auto
  then have "bytes (trim_space s) = concat (map snd t)"
    unfolding trim_space_def p_def [symmetric] t_def [symmetric] by (rule bytes_unbytes)
  then have "trim_space (trim_space s) = unbytes (concat (map snd (trim_ends p t)))"
    unfolding trim_space_def [of "trim_space s"] by (simp add: seg p_def)
  then show ?thesis
    by (simp add: t_def trim_ends_idem) (simp add: trim_space_def p_def)
qed

lemma trim_space_Nil [simp]: "trim_space [] = []"
  by (simp add: trim_space_def bytes_def unbytes_def trim_ends_def)

lemma rune_segs_ascii: "list_all (\<lambda>b. b < 128) bs \<Longrightarrow> rune_segs bs = map (\<lambda>b. (b, [b])) bs"
proof (induction bs)
  case (Cons b bs)
  then have "next_rune (b # bs) = (b, True, 1)" by simp
  with Cons rune_segs_step [of "b # bs" b True 1] show ?case by simp
qed simp

lemma dropWhile_id: "xs = [] \<or> \<not> p (hd xs) \<Longrightarrow> dropWhile p xs = xs"
  by (cases xs) auto

lemma trim_ends_id: "xs = [] \<or> \<not> p (hd xs) \<and> \<not> p (last xs) \<Longrightarrow> trim_ends p xs = xs"
  unfolding trim_ends_def by (auto simp: dropWhile_id hd_rev)

text \<open>An ASCII string with no space at either end is left alone.\<close>

lemma trim_space_ascii:
  assumes "ascii s" and "s = [] \<or> \<not> is_space (byte (hd s)) \<and> \<not> is_space (byte (last s))"
  shows "trim_space s = s"
proof (cases "s = []")
  case False
  let ?g = "map (\<lambda>b. (b, [b])) (bytes s)"
  have segs: "rune_segs (bytes s) = ?g"
    using assms(1) by (intro rune_segs_ascii) (simp add: ascii_def bytes_def list_all_iff)
  have ne: "?g \<noteq> []" "bytes s \<noteq> []" using False by (simp_all add: bytes_def)
  have "hd ?g = (byte (hd s), [byte (hd s)])" "last ?g = (byte (last s), [byte (last s)])"
    using False by (simp_all add: bytes_def hd_map last_map)
  then have "trim_ends (is_space \<circ> fst) ?g = ?g"
    using assms(2) False by (intro trim_ends_id) simp
  moreover have "concat (map snd ?g) = bytes s" by (induction s) (simp_all add: bytes_def)
  ultimately show ?thesis by (simp add: trim_space_def segs)
qed simp

section \<open>Lower case\<close>

text \<open>
  \<open>strings.ToLower\<close>. ASCII letters are folded, and so are the two other characters whose lower
  case is an ASCII letter (U+0130 and U+212A). The remaining letters are left as they are: the
  program compares the result with ASCII words only, where that makes no difference.
\<close>

definition lower_rune :: "nat \<Rightarrow> nat" where
  "lower_rune r = (if 65 \<le> r \<and> r \<le> 90 then r + 32 else if r = 0x130 then 105 else if r = 0x212A then 107 else r)"

definition to_lower :: "string \<Rightarrow> string" where
  "to_lower s = encode_runes (map lower_rune (runes s))"

end
