(* ===== verification/Inventory.thy ===== *)
theory Inventory
  imports Utf8
begin

text \<open>
  \<open>internal/inventory/inventory.go\<close>: the parsed \<open>inventory.yaml\<close>, the resolver that turns
  a host or group name into SSH targets, and the credential-free projection shown to agents.
  The properties: a group resolves to exactly the hosts that carry all its tags, in name order;
  the public projection does not depend on any address or credential; and an inventory rebuilt
  from the projection resolves every name to the same targets.
\<close>

section \<open>The document\<close>

record SSHConfig =
  Multiplexing :: string
  ControlPersist :: string
  KeepAliveInterval :: string

record Host =
  Addr :: string
  User :: string
  Port :: int
  SSHConfigAlias :: string
  IdentityFile :: string
  Identity :: string
  Host_Tags :: "string list"
  OS :: string

record Group =
  Group_Tags :: "string list"

record Inventory =
  Inv_Version :: int
  Transport :: string
  HostKeyPolicy :: string
  SSH :: SSHConfig
  Hosts :: "Host gomap"
  Groups :: "Group gomap"

definition ssh_IsZero :: "SSHConfig \<Rightarrow> bool" where
  "ssh_IsZero c \<longleftrightarrow> trim_space (Multiplexing c) = [] \<and> trim_space (ControlPersist c) = [] \<and>
     trim_space (KeepAliveInterval c) = []"

definition zeroSSH :: SSHConfig where
  "zeroSSH = \<lparr>Multiplexing = [], ControlPersist = [], KeepAliveInterval = []\<rparr>"

definition zeroHost :: Host where
  "zeroHost = \<lparr>Addr = [], User = [], Port = 0, SSHConfigAlias = [], IdentityFile = [],
     Identity = [], Host_Tags = [], OS = []\<rparr>"

record Target =
  Target_Name :: string
  Target_Host :: Host

datatype TargetKind = TargetKindHost | TargetKindGroup

record ResolvedTarget =
  Kind :: TargetKind
  Targets :: "Target list"

record PublicHost =
  PublicHost_Name :: string
  PublicHost_Tags :: "string list"

record PublicGroup =
  PublicGroup_Name :: string
  PublicGroup_Tags :: "string list"

record PublicInventory =
  PublicHosts :: "PublicHost list"
  PublicGroups :: "PublicGroup list"

text \<open>
  The two resolver errors. \<open>UnknownTargetError\<close> carries the name and the known names, hosts
  before groups; the code's \<open>HostNames\<close> and \<open>GroupNames\<close> are the two parts of that list.
\<close>

datatype resolve_error =
    UnknownTargetError (ute_Name: string) (ute_Known: "string list")
      (ute_HostNames: "string list") (ute_GroupNames: "string list")
  | EmptyGroupError string

section \<open>Resolution\<close>

definition sortedStrings :: "string list \<Rightarrow> string list" where
  "sortedStrings values = sort values"

definition sortedHostNames :: "Host gomap \<Rightarrow> string list" where
  "sortedHostNames hosts = sort (keys hosts)"

definition sortedGroupNames :: "Group gomap \<Rightarrow> string list" where
  "sortedGroupNames groups = sort (keys groups)"

definition inv_names :: "Inventory \<Rightarrow> string list \<times> string list" where
  "inv_names iv = (sortedHostNames (Hosts iv), sortedGroupNames (Groups iv))"

definition normalizeHost :: "Host \<Rightarrow> Host" where
  "normalizeHost host = (let host = (if Port host = 0 then host\<lparr>Port := 22\<rparr> else host)
     in host\<lparr>Host_Tags := sortedStrings (Host_Tags host)\<rparr>)"

definition matchesTags :: "string list \<Rightarrow> string list \<Rightarrow> bool" where
  "matchesTags hostTags groupTags =
     (if length groupTags = 0 then False else list_all (\<lambda>tag. tag \<in> set hostTags) groupTags)"

fun groupTargets :: "Host gomap \<Rightarrow> string list \<Rightarrow> string list \<Rightarrow> Target list" where
  "groupTargets hosts tags [] = []"
| "groupTargets hosts tags (hostName # names) =
     (case gget hosts hostName of
        None \<Rightarrow> groupTargets hosts tags names
      | Some host \<Rightarrow>
          if matchesTags (Host_Tags host) tags
          then \<lparr>Target_Name = hostName, Target_Host = normalizeHost host\<rparr> # groupTargets hosts tags names
          else groupTargets hosts tags names)"

definition Resolve :: "Inventory \<Rightarrow> string \<Rightarrow> resolve_error + ResolvedTarget" where
  "Resolve iv name =
     (case gget (Hosts iv) name of
        Some host \<Rightarrow> Inr \<lparr>Kind = TargetKindHost,
           Targets = [\<lparr>Target_Name = name, Target_Host = normalizeHost host\<rparr>]\<rparr>
      | None \<Rightarrow>
          (case gget (Groups iv) name of
             None \<Rightarrow> (let (hosts, groups) = inv_names iv in
               Inl (UnknownTargetError name (hosts @ groups) hosts groups))
           | Some grp \<Rightarrow>
               (let targets = groupTargets (Hosts iv) (Group_Tags grp) (sortedHostNames (Hosts iv))
                in if length targets = 0 then Inl (EmptyGroupError name)
                   else Inr \<lparr>Kind = TargetKindGroup, Targets = targets\<rparr>)))"

definition IsUnknown :: "resolve_error \<Rightarrow> bool" where
  "IsUnknown e = (case e of UnknownTargetError _ _ _ _ \<Rightarrow> True | EmptyGroupError _ \<Rightarrow> False)"

section \<open>The public projection\<close>

definition publicHost :: "Host gomap \<Rightarrow> string \<Rightarrow> PublicHost" where
  "publicHost hosts hostName =
     \<lparr>PublicHost_Name = hostName,
      PublicHost_Tags = sortedStrings (case gget hosts hostName of Some h \<Rightarrow> Host_Tags h | None \<Rightarrow> [])\<rparr>"

definition publicGroup :: "Group gomap \<Rightarrow> string \<Rightarrow> PublicGroup" where
  "publicGroup groups groupName =
     \<lparr>PublicGroup_Name = groupName,
      PublicGroup_Tags = sortedStrings (case gget groups groupName of Some g \<Rightarrow> Group_Tags g | None \<Rightarrow> [])\<rparr>"

definition Public :: "Inventory \<Rightarrow> PublicInventory" where
  "Public iv =
     \<lparr>PublicHosts = map (publicHost (Hosts iv)) (sortedHostNames (Hosts iv)),
      PublicGroups = map (publicGroup (Groups iv)) (sortedGroupNames (Groups iv))\<rparr>"

definition FromPublic :: "PublicInventory \<Rightarrow> Inventory" where
  "FromPublic pub =
     \<lparr>Inv_Version = 0, Transport = [], HostKeyPolicy = [], SSH = zeroSSH,
      Hosts = fold (\<lambda>h m. gput (PublicHost_Name h) (zeroHost\<lparr>Host_Tags := PublicHost_Tags h\<rparr>) m)
        (PublicHosts pub) [],
      Groups = fold (\<lambda>g m. gput (PublicGroup_Name g) \<lparr>Group_Tags = PublicGroup_Tags g\<rparr> m)
        (PublicGroups pub) []\<rparr>"

definition wf_inv :: "Inventory \<Rightarrow> bool" where
  "wf_inv iv \<longleftrightarrow> wf_map (Hosts iv) \<and> wf_map (Groups iv)"

text \<open>What is left of a resolution when addresses and credentials are dropped.\<close>

definition public_targets :: "ResolvedTarget \<Rightarrow> TargetKind \<times> (string \<times> string list) list" where
  "public_targets r = (Kind r, map (\<lambda>t. (Target_Name t, Host_Tags (Target_Host t))) (Targets r))"

section \<open>Lemmas\<close>

lemma sort_sort [simp]: "sort (sort xs) = sort (xs :: 'a::linorder list)"
  by (simp add: sorted_sort_id)

lemma matchesTags_set: "matchesTags h g \<longleftrightarrow> g \<noteq> [] \<and> set g \<subseteq> set h"
  by (auto simp: matchesTags_def list_all_iff)

lemma matchesTags_sorted [simp]:
  "matchesTags (sort h) g = matchesTags h g" "matchesTags h (sort g) = matchesTags h g"
  by (auto simp: matchesTags_set dest: arg_cong [where f = set])

lemma Host_Tags_normalizeHost [simp]: "Host_Tags (normalizeHost h) = sort (Host_Tags h)"
  by (simp add: normalizeHost_def Let_def sortedStrings_def)

lemma groupTargets_filter: "groupTargets hosts tags ns =
  map (\<lambda>n. \<lparr>Target_Name = n, Target_Host = normalizeHost (the (gget hosts n))\<rparr>)
    (filter (\<lambda>n. \<exists>h. gget hosts n = Some h \<and> matchesTags (Host_Tags h) tags) ns)"
  by (induction ns) (auto split: option.splits)

lemma fold_gput_get: "distinct (map f xs) \<Longrightarrow>
  gget (fold (\<lambda>x m. gput (f x) (g x) m) xs m0) k =
    (case find (\<lambda>x. f x = k) xs of Some x \<Rightarrow> Some (g x) | None \<Rightarrow> gget m0 k)"
proof (induction xs arbitrary: m0)
  case (Cons x xs)
  then have "f x = k \<Longrightarrow> find (\<lambda>x. f x = k) xs = None"
    by (simp add: find_None_iff) (metis image_eqI)
  with Cons show ?case by (auto split: option.splits)
qed simp

lemma find_map_key: "find (\<lambda>x. f x = k) (map g ns) =
   (if k \<in> set ns then Some (g k) else None)" if "\<And>n. f (g n) = n"
  using that by (induction ns) auto

lemma FromPublic_Hosts: "wf_inv iv \<Longrightarrow> gget (Hosts (FromPublic (Public iv))) k =
  map_option (\<lambda>h. zeroHost\<lparr>Host_Tags := sort (Host_Tags h)\<rparr>) (gget (Hosts iv) k)"
  unfolding FromPublic_def Public_def
  by (simp, subst fold_gput_get)
     (auto simp: find_map_key publicHost_def comp_def sortedHostNames_def sortedStrings_def
        wf_inv_def wf_map_def split: option.splits dest: map_of_SomeD intro: rev_image_eqI)

lemma FromPublic_Groups: "wf_inv iv \<Longrightarrow> gget (Groups (FromPublic (Public iv))) k =
  map_option (\<lambda>g. \<lparr>Group_Tags = sort (Group_Tags g)\<rparr>) (gget (Groups iv) k)"
  unfolding FromPublic_def Public_def
  by (simp, subst fold_gput_get)
     (auto simp: find_map_key publicGroup_def comp_def sortedGroupNames_def sortedStrings_def
        wf_inv_def wf_map_def split: option.splits dest: map_of_SomeD intro: rev_image_eqI)

lemma fold_gput_wf: "wf_map m0 \<Longrightarrow> wf_map (fold (\<lambda>x m. gput (f x) (g x) m) xs m0)"
  by (induction xs arbitrary: m0) auto

lemma wf_FromPublic: "wf_inv (FromPublic pub)"
  by (auto simp: wf_inv_def FromPublic_def intro!: fold_gput_wf)

lemma same_dom_sorted_keys:
  "wf_map m \<Longrightarrow> wf_map m' \<Longrightarrow> dom (map_of m) = dom (map_of m') \<Longrightarrow> sort (keys m) = sort (keys m')"
  by (rule sort_set_eq) (auto simp: wf_map_def dom_map_of_conv_image_fst)

lemma FromPublic_names: "wf_inv iv \<Longrightarrow> sortedHostNames (Hosts (FromPublic (Public iv))) = sortedHostNames (Hosts iv)"
  unfolding sortedHostNames_def using wf_FromPublic [of "Public iv"]
  by (intro same_dom_sorted_keys) (auto simp: wf_inv_def FromPublic_Hosts dom_def)

lemma FromPublic_group_names: "wf_inv iv \<Longrightarrow> sortedGroupNames (Groups (FromPublic (Public iv))) = sortedGroupNames (Groups iv)"
  unfolding sortedGroupNames_def using wf_FromPublic [of "Public iv"]
  by (intro same_dom_sorted_keys) (auto simp: wf_inv_def FromPublic_Groups dom_def)

lemma public_groupTargets:
  assumes "\<And>n. map_option (\<lambda>h. sort (Host_Tags h)) (gget hs n) = map_option (\<lambda>h. sort (Host_Tags h)) (gget hs' n)"
    and "sort tags = sort tags'"
  shows "map (\<lambda>t. (Target_Name t, Host_Tags (Target_Host t))) (groupTargets hs tags ns) =
         map (\<lambda>t. (Target_Name t, Host_Tags (Target_Host t))) (groupTargets hs' tags' ns)"
proof (induction ns)
  case (Cons n ns)
  have tg: "matchesTags h tags = matchesTags h tags'" for h
    by (metis assms(2) matchesTags_sorted(2))
  have "matchesTags (Host_Tags h) tags = matchesTags (Host_Tags h') tags'"
    if "sort (Host_Tags h) = sort (Host_Tags h')" for h h' :: Host
    using that tg by (metis matchesTags_sorted(1))
  then show ?case using Cons assms(1) [of n] by (cases "gget hs n"; cases "gget hs' n") auto
qed simp

lemma groupTargets_Nil_public: "map f ts = map f' ts' \<Longrightarrow> ts = [] \<longleftrightarrow> ts' = []"
  by (metis map_is_Nil_conv)

lemma resolve_group_public:
  assumes "wf_inv iv"
  shows "map (\<lambda>t. (Target_Name t, Host_Tags (Target_Host t))) (groupTargets (Hosts (FromPublic (Public iv))) (sort tags) ns) =
         map (\<lambda>t. (Target_Name t, Host_Tags (Target_Host t))) (groupTargets (Hosts iv) tags ns)"
  by (rule public_groupTargets) (simp_all add: FromPublic_Hosts [OF assms] option.map_comp comp_def sort_sort)

section \<open>Properties\<close>

text \<open>
  The published inventory resolves like the one it was published from. Rebuilding an inventory
  from its public projection and resolving any name there gives the same error, or the same kind
  and the same hosts in the same order with the same (sorted) tags, as resolving the original.
\<close>
theorem resolve_from_public:
  assumes "wf_inv iv"
  shows "map_sum id public_targets (Resolve (FromPublic (Public iv)) name) =
         map_sum id public_targets (Resolve iv name)"
proof -
  let ?pub = "FromPublic (Public iv)"
  note get = FromPublic_Hosts [OF assms, of name] FromPublic_Groups [OF assms, of name]
  show ?thesis
  proof (cases "gget (Hosts iv) name")
    case (Some h)
    then show ?thesis using get
      by (simp add: Resolve_def public_targets_def normalizeHost_def Let_def sortedStrings_def zeroHost_def)
  next
    case no_host: None
    show ?thesis
    proof (cases "gget (Groups iv) name")
      case None
      then show ?thesis using get no_host assms
        by (simp add: Resolve_def inv_names_def FromPublic_names FromPublic_group_names)
    next
      case (Some grp)
      note same = resolve_group_public [OF assms, of "Group_Tags grp" "sortedHostNames (Hosts iv)"]
      have "groupTargets (Hosts ?pub) (sort (Group_Tags grp)) (sortedHostNames (Hosts iv)) = [] \<longleftrightarrow>
            groupTargets (Hosts iv) (Group_Tags grp) (sortedHostNames (Hosts iv)) = []"
        by (rule groupTargets_Nil_public [OF same])
      then show ?thesis using get no_host Some same
        by (simp add: Resolve_def FromPublic_names [OF assms] public_targets_def Let_def)
    qed
  qed
qed

definition witness_inventory :: Inventory where
  "witness_inventory = \<lparr>Inv_Version = 1, Transport = [], HostKeyPolicy = [], SSH = zeroSSH,
     Hosts = [(''b'', zeroHost\<lparr>Host_Tags := [''web'', ''prod'']\<rparr>), (''a'', zeroHost\<lparr>Host_Tags := [''web'']\<rparr>)],
     Groups = [(''w'', \<lparr>Group_Tags = [''web'']\<rparr>)]\<rparr>"

lemma wf_witness_inventory: "wf_inv witness_inventory"
  by (simp add: witness_inventory_def wf_inv_def wf_map_def)

theorem resolve_from_public_witness:
  "map_sum id public_targets (Resolve (FromPublic (Public witness_inventory)) ''w'') =
   map_sum id public_targets (Resolve witness_inventory ''w'')"
  by (rule resolve_from_public [OF wf_witness_inventory])

text \<open>
  A group resolves to exactly the hosts that carry all of its tags, once each and in name
  order, and a group without tags to no host: then the result is the empty-group error. A host of
  the same name shadows the group.
\<close>
theorem group_resolves_exactly:
  assumes "wf_inv iv" and "gget (Hosts iv) name = None" and "gget (Groups iv) name = Some grp"
  shows "(case Resolve iv name of
      Inr r \<Rightarrow> Kind r = TargetKindGroup \<and> sorted (map Target_Name (Targets r)) \<and> distinct (map Target_Name (Targets r)) \<and>
        set (map Target_Name (Targets r)) = {n. \<exists>h. gget (Hosts iv) n = Some h \<and> set (Group_Tags grp) \<subseteq> set (Host_Tags h)}
    | Inl e \<Rightarrow> e = EmptyGroupError name \<and>
        (Group_Tags grp = [] \<or> (\<forall>n h. gget (Hosts iv) n = Some h \<longrightarrow> \<not> set (Group_Tags grp) \<subseteq> set (Host_Tags h))))"
proof -
  let ?p = "\<lambda>n. \<exists>h. gget (Hosts iv) n = Some h \<and> matchesTags (Host_Tags h) (Group_Tags grp)"
  let ?ts = "groupTargets (Hosts iv) (Group_Tags grp) (sortedHostNames (Hosts iv))"
  have names: "map Target_Name ?ts = filter ?p (sortedHostNames (Hosts iv))"
    by (simp add: groupTargets_filter comp_def)
  have mem: "set (map Target_Name ?ts) = {n. ?p n}"
    unfolding names by (force simp: sortedHostNames_def image_iff dest: map_of_SomeD)
  have "distinct (map Target_Name ?ts)" "sorted (map Target_Name ?ts)"
    unfolding names using assms(1)
    by (simp_all add: sortedHostNames_def wf_inv_def wf_map_def sorted_filter [of id, simplified])
  moreover have "?ts = [] \<longleftrightarrow> {n. ?p n} = {}" using mem by (metis list.map_disc_iff set_empty)
  ultimately show ?thesis using assms(2,3) mem
    by (auto simp: Resolve_def Let_def matchesTags_set)
qed

theorem group_resolves_exactly_witness:
  "case Resolve witness_inventory ''w'' of
      Inr r \<Rightarrow> sorted (map Target_Name (Targets r))
    | Inl e \<Rightarrow> e = EmptyGroupError ''w''"
  using group_resolves_exactly [OF wf_witness_inventory, of "''w''" "\<lparr>Group_Tags = [''web'']\<rparr>"]
  by (simp add: witness_inventory_def split: sum.splits)

end
