(* ===== verification/Policy.thy ===== *)
theory Policy
  imports Inventory
begin

text \<open>
  \<open>internal/policy/policy.go\<close>: the parsed \<open>policy.yaml\<close>, the compiled engine and its
  first-match evaluation, the display projection \<open>EffectiveRules\<close> and the deny-only overlay of
  remote mode. \<open>regexp.Compile\<close> is the argument \<open>rx\<close>: \<open>None\<close> is a compile error and
  \<open>Some m\<close> a compiled expression whose \<open>MatchString\<close> is \<open>m\<close>; the theory \<open>Regex\<close> gives a
  concrete one. The YAML encoding is not modelled, and nil and empty maps are not told apart.
  The properties: evaluation is first match over \<open>EffectiveRules\<close>, does not depend on the order
  in which Go visits a map, denies by default, and an overlay only ever tightens it.
\<close>

section \<open>The document\<close>

type_synonym regexp = "string \<Rightarrow> (string \<Rightarrow> bool) option"

definition ActionAllow :: string where "ActionAllow = ''allow''"
definition ActionDeny :: string where "ActionDeny = ''deny''"
definition RuleDefaultDeny :: string where "RuleDefaultDeny = ''default-deny''"
definition ApprovalGroup :: string where "ApprovalGroup = ''__agentssh_approval''"
definition OverlayRulePrefix :: string where "OverlayRulePrefix = ''local:''"

lemmas policy_consts = ActionAllow_def ActionDeny_def RuleDefaultDeny_def ApprovalGroup_def
  OverlayRulePrefix_def

record Decision =
  Dec_Action :: string
  Dec_Rule :: string

record Match =
  CmdRegex :: string

record Rule =
  Rule_Name :: string
  Priority :: int
  Rule_Match :: Match
  Rule_Action :: string
  Rule_Group :: string

record RuleGroup =
  RuleGroup_Rules :: "Rule list"

record HostOverride =
  Override_Rules :: "Rule list"

record Output =
  MaxBytes :: int
  Redact :: "string list"

record Approval =
  Approval_Enabled :: bool
  Approval_HostGrantMode :: string
  Approval_SessionTTL :: string
  Approval_WaitTimeout :: string
  Approval_TaskTTL :: string

text \<open>
  \<open>Config\<close> is recursive through its overlay, so it is a record of its other fields with the
  overlay beside it.
\<close>

record ConfigBody =
  Version :: int
  Rules :: "Rule list"
  RuleGroups :: "RuleGroup gomap"
  HostOverrides :: "HostOverride gomap"
  ConfigOutput :: Output
  ConfigApproval :: Approval
  hostOrder :: "string list"

datatype Config = Config (body: ConfigBody) (Overlay: "Config option")

definition upd :: "(ConfigBody \<Rightarrow> ConfigBody) \<Rightarrow> Config \<Rightarrow> Config" where
  "upd f c = Config (f (body c)) (Overlay c)"

lemma body_upd [simp]: "body (upd f c) = f (body c)"
  by (simp add: upd_def)

lemma Overlay_upd [simp]: "Overlay (upd f c) = Overlay c"
  by (simp add: upd_def)

abbreviation cRules :: "Config \<Rightarrow> Rule list" where "cRules c \<equiv> Rules (body c)"
abbreviation cOverrides :: "Config \<Rightarrow> HostOverride gomap" where "cOverrides c \<equiv> HostOverrides (body c)"
abbreviation cGroups :: "Config \<Rightarrow> RuleGroup gomap" where "cGroups c \<equiv> RuleGroups (body c)"

definition approvalZero :: "Approval \<Rightarrow> bool" where
  "approvalZero v \<longleftrightarrow> \<not> Approval_Enabled v \<and> Approval_HostGrantMode v = [] \<and>
     Approval_SessionTTL v = [] \<and> Approval_WaitTimeout v = [] \<and> Approval_TaskTTL v = []"

definition zeroOutput :: Output where
  "zeroOutput = \<lparr>MaxBytes = 0, Redact = []\<rparr>"

definition zeroApproval :: Approval where
  "zeroApproval = \<lparr>Approval_Enabled = False, Approval_HostGrantMode = [], Approval_SessionTTL = [],
     Approval_WaitTimeout = [], Approval_TaskTTL = []\<rparr>"

definition wf_config :: "Config \<Rightarrow> bool" where
  "wf_config c \<longleftrightarrow> wf_map (cOverrides c) \<and> wf_map (cGroups c)"

section \<open>Helpers of the engine\<close>

definition HostRulesKey :: "string \<Rightarrow> string" where
  "HostRulesKey host = ''host:'' @ trim_space host"

definition compileRegex :: "regexp \<Rightarrow> string \<Rightarrow> string \<Rightarrow> (string \<Rightarrow> bool) res" where
  "compileRegex rx pat src =
     (if pat = [] then Inl (Errorf ''empty cmd_regex'' [src])
      else case rx pat of
        None \<Rightarrow> Inl (Errorf ''invalid cmd_regex'' [src, pat])
      | Some m \<Rightarrow> Inr m)"

definition validateAction :: "string \<Rightarrow> string \<Rightarrow> string res" where
  "validateAction act src =
     (if act = ActionAllow \<or> act = ActionDeny then Inr act
      else if act = [] then Inr ActionAllow
      else Inl (Errorf ''invalid action'' [src, act]))"

definition hostHasAllTags :: "string list \<Rightarrow> string list \<Rightarrow> bool" where
  "hostHasAllTags hostTags groupTags =
     (if length groupTags = 0 then False else list_all (\<lambda>tag. tag \<in> set hostTags) groupTags)"

record compiledRule =
  cr_source :: string
  cr_priority :: int
  cr_action :: string
  cr_regex :: "string \<Rightarrow> bool"

definition sortRules :: "compiledRule list \<Rightarrow> compiledRule list" where
  "sortRules rules = sort_key (\<lambda>r. - cr_priority r) rules"

text \<open>The keys of \<open>hostOrder\<close> that the filter holds, each once, then the rest by name.\<close>

fun orderedKeysLoop :: "string list \<Rightarrow> string set \<Rightarrow> string list \<Rightarrow> string list" where
  "orderedKeysLoop [] flt acc = acc"
| "orderedKeysLoop (key # order) flt acc =
     (if key \<notin> flt then orderedKeysLoop order flt acc
      else if key \<in> set acc then orderedKeysLoop order flt acc
      else orderedKeysLoop order flt (acc @ [key]))"

definition orderedHostOverrideKeys :: "Config \<Rightarrow> string list \<Rightarrow> string list" where
  "orderedHostOverrideKeys c flt =
     (let ordered = orderedKeysLoop (hostOrder (body c)) (set flt) []
      in ordered @ sort (filter (\<lambda>key. key \<notin> set ordered) flt))"

text \<open>
  The override keys that apply to a host: its own key, and each group with an override whose tags
  the host carries. The code builds a set; here a list without repetitions.
\<close>

definition matchingKeys :: "Config \<Rightarrow> Inventory \<Rightarrow> string \<Rightarrow> string list" where
  "matchingKeys c iv hostName = remdups
     ((if ghas (cOverrides c) (HostRulesKey hostName) then [HostRulesKey hostName] else []) @
      (case gget (Hosts iv) hostName of
         None \<Rightarrow> []
       | Some host \<Rightarrow> map fst (filter (\<lambda>(groupName, grp).
           ghas (cOverrides c) groupName \<and> hostHasAllTags (Host_Tags host) (Group_Tags grp)) (Groups iv))))"

section \<open>The overlay\<close>

definition denyRules :: "Rule list \<Rightarrow> Rule list" where
  "denyRules rules = filter (\<lambda>rule. Rule_Action rule = ActionDeny) rules"

definition denyOnly :: "Config \<Rightarrow> Config" where
  "denyOnly cfg = Config
     \<lparr>Version = Version (body cfg),
      Rules = denyRules (cRules cfg),
      RuleGroups = [],
      HostOverrides = filter (\<lambda>(key, override). Override_Rules override \<noteq> [])
        (gmap (\<lambda>override. \<lparr>Override_Rules = denyRules (Override_Rules override)\<rparr>) (cOverrides cfg)),
      ConfigOutput = zeroOutput,
      ConfigApproval = zeroApproval,
      hostOrder = hostOrder (body cfg)\<rparr> None"

definition IgnoredOverlayRules :: "Config \<Rightarrow> nat" where
  "IgnoredOverlayRules cfg =
     length (filter (\<lambda>rule. Rule_Action rule \<noteq> ActionDeny) (cRules cfg)) +
     sum_list (map (\<lambda>(key, override).
       length (filter (\<lambda>rule. Rule_Action rule \<noteq> ActionDeny) (Override_Rules override))) (cOverrides cfg))"

section \<open>Compilation\<close>

definition globalSource :: "nat \<Rightarrow> string" where
  "globalSource i = ''rules['' @ nat_dec i @ '']''"

definition hostSource :: "string \<Rightarrow> nat \<Rightarrow> string" where
  "hostSource groupName i = groupName @ ''/rules['' @ nat_dec i @ '']''"

fun compileGlobal :: "regexp \<Rightarrow> nat \<Rightarrow> Rule list \<Rightarrow> compiledRule list res" where
  "compileGlobal rx i [] = Inr []"
| "compileGlobal rx i (rule # rules) =
     rbind (compileRegex rx (CmdRegex (Rule_Match rule)) (globalSource i)) (\<lambda>expr.
     rbind (validateAction (Rule_Action rule) (globalSource i)) (\<lambda>act.
     rbind (compileGlobal rx (Suc i) rules) (\<lambda>rest.
       Inr (\<lparr>cr_source = (if Rule_Name rule \<noteq> [] then ''rules:'' @ Rule_Name rule else globalSource i),
             cr_priority = Priority rule, cr_action = act, cr_regex = expr\<rparr> # rest))))"

fun compileHost :: "regexp \<Rightarrow> string \<Rightarrow> nat \<Rightarrow> Rule list \<Rightarrow> compiledRule list res" where
  "compileHost rx groupName i [] = Inr []"
| "compileHost rx groupName i (rule # rules) =
     rbind (compileRegex rx (CmdRegex (Rule_Match rule)) (hostSource groupName i)) (\<lambda>expr.
     rbind (validateAction (Rule_Action rule) (hostSource groupName i)) (\<lambda>act.
     rbind (compileHost rx groupName (Suc i) rules) (\<lambda>rest.
       Inr (\<lparr>cr_source = hostSource groupName i, cr_priority = Priority rule, cr_action = act,
             cr_regex = expr\<rparr> # rest))))"

fun compileOverrides :: "regexp \<Rightarrow> HostOverride gomap \<Rightarrow> compiledRule list gomap res" where
  "compileOverrides rx [] = Inr []"
| "compileOverrides rx ((groupName, override) # rest) =
     rbind (compileHost rx groupName 0 (Override_Rules override)) (\<lambda>rules.
     rbind (compileOverrides rx rest) (\<lambda>more. Inr ((groupName, rules) # more)))"

datatype compiledEngine = CompiledEngine
  (e_overlay: "compiledEngine option")
  (e_config: Config)
  (e_inventory: Inventory)
  (e_globalRules: "compiledRule list")
  (e_hostRules: "compiledRule list gomap")

fun overlay_depth :: "Config \<Rightarrow> nat" where
  "overlay_depth (Config b None) = 0"
| "overlay_depth (Config b (Some c)) = Suc (overlay_depth c)"

function NewEngine :: "regexp \<Rightarrow> Config \<Rightarrow> Inventory \<Rightarrow> compiledEngine res" where
  "NewEngine rx cfg iv =
     rbind (compileGlobal rx 0 (cRules cfg)) (\<lambda>glob.
     rbind (case Overlay cfg of
              None \<Rightarrow> Inr None
            | Some ov \<Rightarrow> (case NewEngine rx (denyOnly ov) iv of
                Inl e \<Rightarrow> Inl (Wrapped ''local overlay'' e)
              | Inr overlay \<Rightarrow> Inr (Some overlay))) (\<lambda>overlay.
     rbind (compileOverrides rx (cOverrides cfg)) (\<lambda>host.
       Inr (CompiledEngine overlay cfg iv (sortRules glob) host))))"
  by pat_completeness auto
termination
proof (relation "measure (\<lambda>(rx, cfg, iv). overlay_depth cfg)")
  fix cfg :: Config and ov
  assume "Overlay cfg = Some ov"
  then have "0 < overlay_depth cfg" by (cases cfg) auto
  then show "((rx, denyOnly ov, iv), rx, cfg, iv) \<in> measure (\<lambda>(rx, cfg, iv). overlay_depth cfg)"
    for rx :: regexp and iv :: Inventory
    by (simp add: denyOnly_def)
qed simp

declare NewEngine.simps [simp del]

section \<open>Evaluation\<close>

definition hostRulesFor :: "compiledEngine \<Rightarrow> string \<Rightarrow> compiledRule list" where
  "hostRulesFor e hostName =
     sortRules (concat (map (\<lambda>key. case gget (e_hostRules e) key of None \<Rightarrow> [] | Some rs \<Rightarrow> rs)
       (orderedHostOverrideKeys (e_config e) (matchingKeys (e_config e) (e_inventory e) hostName))))"

definition firstMatch :: "compiledRule list \<Rightarrow> string \<Rightarrow> compiledRule option" where
  "firstMatch rules command = find (\<lambda>rule. cr_regex rule command) rules"

definition evalRules :: "compiledEngine \<Rightarrow> string \<Rightarrow> string \<Rightarrow> Decision" where
  "evalRules e host command =
     (case firstMatch (hostRulesFor e host) command of
        Some rule \<Rightarrow> \<lparr>Dec_Action = cr_action rule, Dec_Rule = cr_source rule\<rparr>
      | None \<Rightarrow> (case firstMatch (e_globalRules e) command of
          Some rule \<Rightarrow> \<lparr>Dec_Action = cr_action rule, Dec_Rule = cr_source rule\<rparr>
        | None \<Rightarrow> \<lparr>Dec_Action = ActionDeny, Dec_Rule = RuleDefaultDeny\<rparr>))"

text \<open>\<open>Evaluate\<close> also has an error result, which no path of the code sets.\<close>

fun Evaluate :: "compiledEngine \<Rightarrow> string \<Rightarrow> string \<Rightarrow> Decision" where
  "Evaluate (CompiledEngine overlay cfg iv glob hostr) host command =
     (case overlay of
        Some ov \<Rightarrow>
          (let decision = Evaluate ov host command
           in if Dec_Action decision = ActionDeny \<and> Dec_Rule decision \<noteq> RuleDefaultDeny
              then decision\<lparr>Dec_Rule := OverlayRulePrefix @ Dec_Rule decision\<rparr>
              else evalRules (CompiledEngine overlay cfg iv glob hostr) host command)
      | None \<Rightarrow> evalRules (CompiledEngine overlay cfg iv glob hostr) host command)"

lemma Evaluate_eq: "Evaluate e host command =
  (case e_overlay e of
     Some ov \<Rightarrow>
       (let decision = Evaluate ov host command
        in if Dec_Action decision = ActionDeny \<and> Dec_Rule decision \<noteq> RuleDefaultDeny
           then decision\<lparr>Dec_Rule := OverlayRulePrefix @ Dec_Rule decision\<rparr>
           else evalRules e host command)
   | None \<Rightarrow> evalRules e host command)"
  by (cases e, hypsubst) simp

declare Evaluate.simps [simp del]

section \<open>The effective rules\<close>

record EffectiveRule =
  eff_Scope :: string
  eff_Source :: string
  eff_Index :: nat
  eff_Rule :: Rule

definition sortEffectiveRules :: "EffectiveRule list \<Rightarrow> EffectiveRule list" where
  "sortEffectiveRules rules = sort_key (\<lambda>r. - Priority (eff_Rule r)) rules"

fun effRows :: "string \<Rightarrow> string \<Rightarrow> nat \<Rightarrow> Rule list \<Rightarrow> EffectiveRule list" where
  "effRows scope src i [] = []"
| "effRows scope src i (rule # rules) =
     \<lparr>eff_Scope = scope, eff_Source = src, eff_Index = i, eff_Rule = rule\<rparr> # effRows scope src (Suc i) rules"

definition EffectiveRules :: "Config \<Rightarrow> Inventory \<Rightarrow> string \<Rightarrow> EffectiveRule list" where
  "EffectiveRules cfg iv hostName =
     (if trim_space hostName \<noteq> [] then
        sortEffectiveRules (concat (map (\<lambda>src. effRows ''host'' src 0
          (case gget (cOverrides cfg) src of None \<Rightarrow> [] | Some o' \<Rightarrow> Override_Rules o'))
          (orderedHostOverrideKeys cfg (matchingKeys cfg iv hostName))))
      else []) @
     sortEffectiveRules (effRows ''global'' ''global'' 0 (cRules cfg))"

section \<open>Lemmas: compilation\<close>

text \<open>The compiled form of a row of the effective rules.\<close>

definition effSource :: "EffectiveRule \<Rightarrow> string" where
  "effSource r =
     (if eff_Scope r = ''host'' then hostSource (eff_Source r) (eff_Index r)
      else if Rule_Name (eff_Rule r) \<noteq> [] then ''rules:'' @ Rule_Name (eff_Rule r)
      else globalSource (eff_Index r))"

definition effAction :: "Rule \<Rightarrow> string" where
  "effAction rule = (if Rule_Action rule = [] then ActionAllow else Rule_Action rule)"

definition ruleMatches :: "regexp \<Rightarrow> Rule \<Rightarrow> string \<Rightarrow> bool" where
  "ruleMatches rx rule command = (case rx (CmdRegex (Rule_Match rule)) of None \<Rightarrow> False | Some m \<Rightarrow> m command)"

definition effCompiled :: "regexp \<Rightarrow> EffectiveRule \<Rightarrow> compiledRule" where
  "effCompiled rx r = \<lparr>cr_source = effSource r, cr_priority = Priority (eff_Rule r),
     cr_action = effAction (eff_Rule r), cr_regex = ruleMatches rx (eff_Rule r)\<rparr>"

lemma compileRegex_Inr: "compileRegex rx pat src = Inr m \<longleftrightarrow> pat \<noteq> [] \<and> rx pat = Some m"
  by (auto simp: compileRegex_def split: option.splits)

lemma validateAction_Inr: "validateAction act src = Inr a \<longleftrightarrow>
    a = (if act = [] then ActionAllow else act) \<and> (act = [] \<or> act = ActionAllow \<or> act = ActionDeny)"
  by (auto simp: validateAction_def policy_consts)

definition rule_ok :: "regexp \<Rightarrow> Rule \<Rightarrow> bool" where
  "rule_ok rx rule \<longleftrightarrow> CmdRegex (Rule_Match rule) \<noteq> [] \<and> rx (CmdRegex (Rule_Match rule)) \<noteq> None \<and>
     (Rule_Action rule = [] \<or> Rule_Action rule = ActionAllow \<or> Rule_Action rule = ActionDeny)"

lemma ruleMatches_Some: "rx (CmdRegex (Rule_Match rule)) = Some m \<Longrightarrow> ruleMatches rx rule = m"
  by (auto simp: ruleMatches_def)

lemma compileGlobal_Inr: "compileGlobal rx i rules = Inr cs \<longleftrightarrow>
    list_all (rule_ok rx) rules \<and> cs = map (effCompiled rx) (effRows ''global'' ''global'' i rules)"
  by (induction rules arbitrary: i cs)
    (auto simp: rbind_iffs compileRegex_Inr validateAction_Inr effCompiled_def effSource_def
      effAction_def rule_ok_def ruleMatches_Some)

lemma compileHost_Inr: "compileHost rx g i rules = Inr cs \<longleftrightarrow>
    list_all (rule_ok rx) rules \<and> cs = map (effCompiled rx) (effRows ''host'' g i rules)"
  by (induction rules arbitrary: i cs)
    (auto simp: rbind_iffs compileRegex_Inr validateAction_Inr effCompiled_def effSource_def
      effAction_def rule_ok_def ruleMatches_Some)

lemma compileOverrides_Inr: "compileOverrides rx ovs = Inr hs \<longleftrightarrow>
    list_all (\<lambda>(k, o'). list_all (rule_ok rx) (Override_Rules o')) ovs \<and>
    hs = map (\<lambda>(k, o'). (k, map (effCompiled rx) (effRows ''host'' k 0 (Override_Rules o')))) ovs"
  by (induction rx ovs arbitrary: hs rule: compileOverrides.induct)
    (auto simp: rbind_iffs compileHost_Inr)

lemma map_of_map_key: "map_of (map (\<lambda>(k, v). (k, f k v)) xs) k = map_option (f k) (map_of xs k)"
  by (induction xs) auto

lemma insort_key_map: "insort_key f (g x) (map g xs) = map g (insort_key (\<lambda>y. f (g y)) x xs)"
  by (induction xs) auto

lemma sort_key_map: "sort_key f (map g xs) = map g (sort_key (\<lambda>y. f (g y)) xs)"
  by (induction xs) (auto simp: insort_key_map)

lemma find_map: "find p (map g xs) = map_option g (find (\<lambda>x. p (g x)) xs)"
  by (induction xs) auto

text \<open>The configuration of an engine compiles iff every rule does; then the engine is this one.\<close>

definition config_ok :: "regexp \<Rightarrow> Config \<Rightarrow> bool" where
  "config_ok rx cfg \<longleftrightarrow> list_all (rule_ok rx) (cRules cfg) \<and>
     list_all (\<lambda>(k, o'). list_all (rule_ok rx) (Override_Rules o')) (cOverrides cfg)"

definition baseEngine :: "regexp \<Rightarrow> compiledEngine option \<Rightarrow> Config \<Rightarrow> Inventory \<Rightarrow> compiledEngine" where
  "baseEngine rx ov cfg iv = CompiledEngine ov cfg iv
     (sortRules (map (effCompiled rx) (effRows ''global'' ''global'' 0 (cRules cfg))))
     (map (\<lambda>(k, o'). (k, map (effCompiled rx) (effRows ''host'' k 0 (Override_Rules o')))) (cOverrides cfg))"

lemma NewEngine_None: "Overlay cfg = None \<Longrightarrow> NewEngine rx cfg iv = Inr e \<longleftrightarrow>
    config_ok rx cfg \<and> e = baseEngine rx None cfg iv"
  by (subst NewEngine.simps)
    (auto simp: rbind_iffs compileGlobal_Inr compileOverrides_Inr config_ok_def baseEngine_def)

lemma Overlay_denyOnly [simp]: "Overlay (denyOnly ov) = None"
  by (simp add: denyOnly_def)

lemma NewEngine_Some:
  assumes "Overlay cfg = Some ov"
  shows "NewEngine rx cfg iv = Inr e \<longleftrightarrow> config_ok rx cfg \<and> config_ok rx (denyOnly ov) \<and>
    e = baseEngine rx (Some (baseEngine rx None (denyOnly ov) iv)) cfg iv"
proof -
  have inner: "NewEngine rx (denyOnly ov) iv = Inr e' \<longleftrightarrow>
      config_ok rx (denyOnly ov) \<and> e' = baseEngine rx None (denyOnly ov) iv" for e'
    by (rule NewEngine_None) simp
  show ?thesis
    using assms inner
    by (subst NewEngine.simps, cases "NewEngine rx (denyOnly ov) iv")
      (auto simp: rbind_iffs compileGlobal_Inr compileOverrides_Inr config_ok_def [of rx cfg]
        baseEngine_def [of rx "Some _"])
qed

section \<open>Lemmas: evaluation\<close>

text \<open>The host tier and the global tier of the effective rules.\<close>

definition hostTier :: "Config \<Rightarrow> Inventory \<Rightarrow> string \<Rightarrow> EffectiveRule list" where
  "hostTier cfg iv hostName = sortEffectiveRules (concat (map (\<lambda>src. effRows ''host'' src 0
     (case gget (cOverrides cfg) src of None \<Rightarrow> [] | Some o' \<Rightarrow> Override_Rules o'))
     (orderedHostOverrideKeys cfg (matchingKeys cfg iv hostName))))"

definition globalTier :: "Config \<Rightarrow> EffectiveRule list" where
  "globalTier cfg = sortEffectiveRules (effRows ''global'' ''global'' 0 (cRules cfg))"

lemma EffectiveRules_tiers:
  "EffectiveRules cfg iv h = (if trim_space h \<noteq> [] then hostTier cfg iv h else []) @ globalTier cfg"
  by (simp add: EffectiveRules_def hostTier_def globalTier_def)

lemma hostRulesFor_base: "hostRulesFor (baseEngine rx ov cfg iv) h = map (effCompiled rx) (hostTier cfg iv h)"
proof -
  have "(case gget (e_hostRules (baseEngine rx ov cfg iv)) k of None \<Rightarrow> [] | Some rs \<Rightarrow> rs) =
      map (effCompiled rx) (effRows ''host'' k 0
        (case gget (cOverrides cfg) k of None \<Rightarrow> [] | Some o' \<Rightarrow> Override_Rules o'))" for k
    by (cases "gget (cOverrides cfg) k") (simp_all add: baseEngine_def map_of_map_key)
  then have "hostRulesFor (baseEngine rx ov cfg iv) h = sortRules (map (effCompiled rx)
      (concat (map (\<lambda>src. effRows ''host'' src 0
        (case gget (cOverrides cfg) src of None \<Rightarrow> [] | Some o' \<Rightarrow> Override_Rules o'))
        (orderedHostOverrideKeys cfg (matchingKeys cfg iv h)))))"
    by (simp add: hostRulesFor_def map_concat comp_def) (simp add: baseEngine_def)
  then show ?thesis
    by (simp only: sortRules_def sort_key_map hostTier_def sortEffectiveRules_def)
      (simp add: effCompiled_def)
qed

lemma globalRules_base: "e_globalRules (baseEngine rx ov cfg iv) = map (effCompiled rx) (globalTier cfg)"
  by (simp only: baseEngine_def compiledEngine.sel sortRules_def sort_key_map globalTier_def sortEffectiveRules_def)
    (simp add: effCompiled_def)

text \<open>The decision a matching effective rule gives, and the one without a match.\<close>

definition decisionOf :: "EffectiveRule option \<Rightarrow> Decision" where
  "decisionOf r = (case r of
     Some r \<Rightarrow> \<lparr>Dec_Action = effAction (eff_Rule r), Dec_Rule = effSource r\<rparr>
   | None \<Rightarrow> \<lparr>Dec_Action = ActionDeny, Dec_Rule = RuleDefaultDeny\<rparr>)"

definition firstEffective :: "regexp \<Rightarrow> EffectiveRule list \<Rightarrow> string \<Rightarrow> EffectiveRule option" where
  "firstEffective rx rows command = find (\<lambda>r. ruleMatches rx (eff_Rule r) command) rows"

lemma find_append: "find p (xs @ ys) = (case find p xs of None \<Rightarrow> find p ys | Some x \<Rightarrow> Some x)"
  by (induction xs) auto

lemma evalRules_base: "evalRules (baseEngine rx ov cfg iv) h command =
    decisionOf (firstEffective rx (hostTier cfg iv h @ globalTier cfg) command)"
  by (simp add: evalRules_def firstMatch_def hostRulesFor_base globalRules_base find_map find_append
      firstEffective_def decisionOf_def effCompiled_def split: option.splits)

lemma e_overlay_base [simp]: "e_overlay (baseEngine rx ov cfg iv) = ov"
  by (simp add: baseEngine_def)

lemma Evaluate_base_None: "Evaluate (baseEngine rx None cfg iv) h command =
    decisionOf (firstEffective rx (hostTier cfg iv h @ globalTier cfg) command)"
  by (simp add: Evaluate_eq evalRules_base)

lemma Evaluate_base_Some: "Evaluate (baseEngine rx (Some ov) cfg iv) h command =
   (if Dec_Action (Evaluate ov h command) = ActionDeny \<and> Dec_Rule (Evaluate ov h command) \<noteq> RuleDefaultDeny
    then (Evaluate ov h command)\<lparr>Dec_Rule := OverlayRulePrefix @ Dec_Rule (Evaluate ov h command)\<rparr>
    else Evaluate (baseEngine rx None cfg iv) h command)"
  by (simp add: Evaluate_eq [of "baseEngine rx (Some ov) cfg iv"] Let_def evalRules_base Evaluate_base_None)

text \<open>No rule's source can be mistaken for the fallback's name.\<close>

lemma effSource_not_default: "effSource r \<noteq> RuleDefaultDeny"
proof (cases "eff_Scope r = ''host''")
  case True
  then have "last (effSource r) = CHR '']''" by (simp add: effSource_def hostSource_def)
  then show ?thesis by (auto simp: RuleDefaultDeny_def)
next
  case False
  then have "hd (effSource r) = CHR ''r''" by (simp add: effSource_def globalSource_def)
  then show ?thesis by (auto simp: RuleDefaultDeny_def)
qed

lemma decisionOf_default: "Dec_Rule (decisionOf r) = RuleDefaultDeny \<longleftrightarrow> r = None"
  using effSource_not_default by (cases r) (auto simp: decisionOf_def)

lemma firstEffective_Some: "firstEffective rx rows c = Some r \<Longrightarrow> r \<in> set rows \<and> ruleMatches rx (eff_Rule r) c"
  unfolding firstEffective_def by (auto simp: find_Some_iff)

lemma firstEffective_None: "firstEffective rx rows c = None \<longleftrightarrow> (\<forall>r \<in> set rows. \<not> ruleMatches rx (eff_Rule r) c)"
  unfolding firstEffective_def by (auto simp: find_None_iff)

lemma set_effRows_rule: "rule \<in> set rules \<Longrightarrow> \<exists>r \<in> set (effRows scope src i rules). eff_Rule r = rule"
  by (induction rules arbitrary: i) auto

lemma effRows_rule: "r \<in> set (effRows scope src i rules) \<Longrightarrow> eff_Rule r \<in> set rules"
  by (induction rules arbitrary: i) auto

section \<open>Lemmas: map order\<close>

text \<open>
  Two documents that differ only in the order in which their maps are visited: the same rules and
  host order, and the same maps up to permutation.
\<close>

definition same_config :: "Config \<Rightarrow> Config \<Rightarrow> bool" where
  "same_config c c' \<longleftrightarrow> cRules c = cRules c' \<and> hostOrder (body c) = hostOrder (body c') \<and>
     mset (cOverrides c) = mset (cOverrides c') \<and> wf_map (cOverrides c)"

definition same_inventory :: "Inventory \<Rightarrow> Inventory \<Rightarrow> bool" where
  "same_inventory i i' \<longleftrightarrow> mset (Hosts i) = mset (Hosts i') \<and> mset (Groups i) = mset (Groups i') \<and> wf_inv i"

lemma mset_wf_map: "mset m = mset m' \<Longrightarrow> wf_map m \<Longrightarrow> wf_map m'"
  unfolding wf_map_def by (metis mset_eq_imp_distinct_iff mset_map)

lemma mset_gget: "mset m = mset m' \<Longrightarrow> wf_map m \<Longrightarrow> gget m k = gget m' k"
proof -
  assume a: "mset m = mset m'" and w: "wf_map m"
  then have w': "wf_map m'" by (rule mset_wf_map)
  have "gget m k = Some v \<longleftrightarrow> gget m' k = Some v" for v
    using wf_map_mem [OF w, of k v] wf_map_mem [OF w', of k v] mset_eq_setD [OF a] by simp
  then show "gget m k = gget m' k" by (metis not_Some_eq)
qed

lemma orderedKeys_perm: "hostOrder (body c) = hostOrder (body c') \<Longrightarrow> distinct ks \<Longrightarrow> distinct ks' \<Longrightarrow>
   set ks = set ks' \<Longrightarrow> orderedHostOverrideKeys c ks = orderedHostOverrideKeys c' ks'"
  unfolding orderedHostOverrideKeys_def Let_def
  by (auto intro!: sort_set_eq)

lemma set_matchingKeys: "set (matchingKeys c iv h) =
   (if ghas (cOverrides c) (HostRulesKey h) then {HostRulesKey h} else {}) \<union>
   (case gget (Hosts iv) h of None \<Rightarrow> {} | Some host \<Rightarrow>
     {g. ghas (cOverrides c) g \<and> (\<exists>grp. (g, grp) \<in> set (Groups iv) \<and> hostHasAllTags (Host_Tags host) (Group_Tags grp))})"
  by (auto simp: matchingKeys_def split: option.splits intro: rev_image_eqI)

lemma matchingKeys_perm: "same_config c c' \<Longrightarrow> same_inventory i i' \<Longrightarrow>
   set (matchingKeys c i h) = set (matchingKeys c' i' h)"
  unfolding set_matchingKeys same_config_def same_inventory_def wf_inv_def
  by (auto simp: ghas_def mset_gget [of "cOverrides c" "cOverrides c'"] mset_gget [of "Hosts i" "Hosts i'"]
      dest: mset_eq_setD split: option.splits)

lemma hostTier_perm: "same_config c c' \<Longrightarrow> same_inventory i i' \<Longrightarrow> hostTier c i h = hostTier c' i' h"
proof -
  assume c: "same_config c c'" and i: "same_inventory i i'"
  have "orderedHostOverrideKeys c (matchingKeys c i h) = orderedHostOverrideKeys c' (matchingKeys c' i' h)"
    using c matchingKeys_perm [OF c i]
    by (intro orderedKeys_perm) (auto simp: same_config_def matchingKeys_def)
  moreover have "gget (cOverrides c) k = gget (cOverrides c') k" for k
    using c by (auto simp: same_config_def intro: mset_gget)
  ultimately show ?thesis by (simp add: hostTier_def)
qed

lemma globalTier_perm: "same_config c c' \<Longrightarrow> globalTier c = globalTier c'"
  by (simp add: same_config_def globalTier_def)

lemma config_ok_perm: "same_config c c' \<Longrightarrow> config_ok rx c = config_ok rx c'"
  using mset_eq_setD [of "cOverrides c" "cOverrides c'"]
  by (simp add: same_config_def config_ok_def list_all_iff)

section \<open>Lemmas: membership of the tiers\<close>

lemma orderedKeysLoop_set: "set (orderedKeysLoop order flt acc) = set acc \<union> (set order \<inter> flt)"
  by (induction order flt acc rule: orderedKeysLoop.induct) auto

lemma set_orderedHostOverrideKeys: "set (orderedHostOverrideKeys c ks) = set ks"
  by (auto simp: orderedHostOverrideKeys_def Let_def orderedKeysLoop_set)

lemma set_hostTier: "set (hostTier cfg iv h) = (\<Union>src \<in> set (matchingKeys cfg iv h).
   set (effRows ''host'' src 0 (case gget (cOverrides cfg) src of None \<Rightarrow> [] | Some o' \<Rightarrow> Override_Rules o')))"
  by (simp add: hostTier_def sortEffectiveRules_def set_orderedHostOverrideKeys)

lemma set_globalTier: "set (globalTier cfg) = set (effRows ''global'' ''global'' 0 (cRules cfg))"
  by (simp add: globalTier_def sortEffectiveRules_def)

lemma hostTier_none: "cOverrides cfg = [] \<Longrightarrow> hostTier cfg iv h = []"
proof -
  assume a: "cOverrides cfg = []"
  then have "matchingKeys cfg iv h = []"
    by (simp only: matchingKeys_def ghas_def) (simp split: option.split)
  then have "orderedHostOverrideKeys cfg (matchingKeys cfg iv h) = []"
    using set_orderedHostOverrideKeys [of cfg "[]"] by simp
  then show ?thesis by (simp add: hostTier_def sortEffectiveRules_def)
qed

lemma tiers_body: "body c = body c' \<Longrightarrow> hostTier c iv h = hostTier c' iv h \<and> globalTier c = globalTier c'"
  by (simp only: hostTier_def globalTier_def orderedHostOverrideKeys_def matchingKeys_def)

lemma denyOnly_deny: "rule \<in> set (cRules (denyOnly cfg)) \<Longrightarrow> Rule_Action rule = ActionDeny"
  by (simp add: denyOnly_def denyRules_def)

lemma denyOnly_override_deny: "gget (cOverrides (denyOnly cfg)) k = Some o' \<Longrightarrow> rule \<in> set (Override_Rules o') \<Longrightarrow>
    Rule_Action rule = ActionDeny"
  by (drule map_of_SomeD) (auto simp: denyOnly_def denyRules_def gmap_def)

lemma denyOnly_tiers: "x \<in> set (hostTier (denyOnly cfg) iv h @ globalTier (denyOnly cfg)) \<Longrightarrow>
    Rule_Action (eff_Rule x) = ActionDeny"
  by (auto simp: set_globalTier set_hostTier dest!: effRows_rule
      intro: denyOnly_deny denyOnly_override_deny split: option.splits)

section \<open>Properties\<close>

text \<open>The rows that the overlay of a policy adds in front: its effective deny rules.\<close>

definition overlayRows :: "Config \<Rightarrow> Inventory \<Rightarrow> string \<Rightarrow> EffectiveRule list" where
  "overlayRows cfg iv host = (case Overlay cfg of None \<Rightarrow> [] | Some ov \<Rightarrow> EffectiveRules (denyOnly ov) iv host)"

lemma overlay_decision:
  assumes "trim_space host \<noteq> []"
  shows "Evaluate (baseEngine rx None (denyOnly ov) iv) host command =
    (case firstEffective rx (EffectiveRules (denyOnly ov) iv host) command of
       None \<Rightarrow> \<lparr>Dec_Action = ActionDeny, Dec_Rule = RuleDefaultDeny\<rparr> | Some r \<Rightarrow> \<lparr>Dec_Action = ActionDeny, Dec_Rule = effSource r\<rparr>)"
proof -
  have "effAction (eff_Rule r) = ActionDeny" if "firstEffective rx (hostTier (denyOnly ov) iv host @ globalTier (denyOnly ov)) command = Some r" for r
    using denyOnly_tiers [of r ov iv host] firstEffective_Some [OF that] by (simp add: effAction_def policy_consts)
  then show ?thesis using assms by (auto simp: Evaluate_base_None EffectiveRules_tiers decisionOf_def split: option.splits)
qed

text \<open>
  C32. Evaluation is first match over the effective rules. The compiled engine decides any command on a named
  host (one that is not blank) like this: the first deny rule of the overlay, if there is an overlay and one
  matches, denies, with its source marked \<open>local:\<close>; otherwise the first rule of \<open>EffectiveRules\<close> (host tier,
  then global tier, each by decreasing priority) whose expression matches decides, with its action (\<open>allow\<close>
  when unset) and its source; with no match in either it is \<open>default-deny\<close>, and only then.
\<close>
theorem evaluate_first_effective:
  assumes "NewEngine rx cfg iv = Inr e" and "trim_space host \<noteq> []"
  shows "Evaluate e host command =
      (case firstEffective rx (overlayRows cfg iv host) command of
         Some r \<Rightarrow> \<lparr>Dec_Action = ActionDeny, Dec_Rule = OverlayRulePrefix @ effSource r\<rparr>
       | None \<Rightarrow> decisionOf (firstEffective rx (EffectiveRules cfg iv host) command)) \<and>
    (Dec_Rule (Evaluate e host command) = RuleDefaultDeny \<longleftrightarrow>
      (\<forall>r \<in> set (overlayRows cfg iv host @ EffectiveRules cfg iv host). \<not> ruleMatches rx (eff_Rule r) command))"
proof -
  have base: "Evaluate (baseEngine rx None cfg iv) host command = decisionOf (firstEffective rx (EffectiveRules cfg iv host) command)"
    using assms(2) by (simp add: Evaluate_base_None EffectiveRules_tiers)
  have eq: "Evaluate e host command = (case firstEffective rx (overlayRows cfg iv host) command of
      Some r \<Rightarrow> \<lparr>Dec_Action = ActionDeny, Dec_Rule = OverlayRulePrefix @ effSource r\<rparr>
    | None \<Rightarrow> decisionOf (firstEffective rx (EffectiveRules cfg iv host) command))"
  proof (cases "Overlay cfg")
    case None
    then show ?thesis using assms(1) base by (simp add: NewEngine_None overlayRows_def firstEffective_def)
  next
    case (Some ov)
    then have "e = baseEngine rx (Some (baseEngine rx None (denyOnly ov) iv)) cfg iv" using assms(1) NewEngine_Some by blast
    then show ?thesis
      using base effSource_not_default overlay_decision [OF assms(2), of rx ov iv command] Some
      by (auto simp: Evaluate_base_Some overlayRows_def split: option.splits)
  qed
  have "OverlayRulePrefix @ w \<noteq> RuleDefaultDeny" for w by (simp add: OverlayRulePrefix_def RuleDefaultDeny_def)
  then have "Dec_Rule (Evaluate e host command) = RuleDefaultDeny \<longleftrightarrow>
      firstEffective rx (overlayRows cfg iv host) command = None \<and> firstEffective rx (EffectiveRules cfg iv host) command = None"
    unfolding eq by (simp add: decisionOf_default split: option.split)
  then show ?thesis using eq by (auto simp: firstEffective_None)
qed

definition witness_rule :: "string \<Rightarrow> int \<Rightarrow> string \<Rightarrow> Rule" where
  "witness_rule pat prio act = \<lparr>Rule_Name = [], Priority = prio, Rule_Match = \<lparr>CmdRegex = pat\<rparr>,
     Rule_Action = act, Rule_Group = []\<rparr>"

definition witness_body :: "Rule list \<Rightarrow> HostOverride gomap \<Rightarrow> ConfigBody" where
  "witness_body rules ovs = \<lparr>Version = 1, Rules = rules, RuleGroups = [], HostOverrides = ovs,
     ConfigOutput = zeroOutput, ConfigApproval = zeroApproval, hostOrder = []\<rparr>"

definition witness_inv :: "Host gomap \<Rightarrow> Group gomap \<Rightarrow> Inventory" where
  "witness_inv hs gs = \<lparr>Inv_Version = 1, Transport = [], HostKeyPolicy = [], SSH = zeroSSH,
     Hosts = hs, Groups = gs\<rparr>"

text \<open>An expression that is a literal, for the witnesses.\<close>

definition literal_rx :: regexp where
  "literal_rx pat = Some (\<lambda>command. command = pat)"

lemma literal_rule [simp]:
  "rule_ok literal_rx (witness_rule pat n act) \<longleftrightarrow> pat \<noteq> [] \<and> act \<in> {[], ActionAllow, ActionDeny}"
  "ruleMatches literal_rx (witness_rule pat n act) command \<longleftrightarrow> command = pat"
  "Rule_Action (witness_rule pat n act) = act"
  by (simp_all add: rule_ok_def ruleMatches_def literal_rx_def witness_rule_def)

lemma witness_body_sel [simp]:
  "Rules (witness_body rules ovs) = rules" "HostOverrides (witness_body rules ovs) = ovs"
  "hostOrder (witness_body rules ovs) = []"
  by (simp_all add: witness_body_def)

lemma witness_inv_sel [simp]: "Hosts (witness_inv hs gs) = hs" "Groups (witness_inv hs gs) = gs"
  by (simp_all add: witness_inv_def)

lemma literal_engine: "list_all (rule_ok literal_rx) rules \<Longrightarrow>
   list_all (\<lambda>(k, o'). list_all (rule_ok literal_rx) (Override_Rules o')) ovs \<Longrightarrow>
   \<exists>e. NewEngine literal_rx (Config (witness_body rules ovs) None) iv = Inr e"
  using NewEngine_None [of "Config (witness_body rules ovs) None" literal_rx iv]
  by (simp add: config_ok_def)

lemma literal_overlay_engine: "list_all (rule_ok literal_rx) rules \<Longrightarrow> list_all (rule_ok literal_rx) ovrules \<Longrightarrow>
   \<exists>e. NewEngine literal_rx (Config (witness_body rules []) (Some (Config (witness_body ovrules []) None))) iv = Inr e"
  using NewEngine_Some [of "Config (witness_body rules []) (Some (Config (witness_body ovrules []) None))"
      "Config (witness_body ovrules []) None" literal_rx iv]
  by (simp add: config_ok_def denyOnly_def denyRules_def gmap_def list_all_iff)

lemma overlayRows_global: "trim_space host \<noteq> [] \<Longrightarrow> r \<in> set (overlayRows (Config b (Some (Config (witness_body rules []) None))) iv host) \<Longrightarrow>
    eff_Rule r \<in> set (denyRules rules)"
  using effRows_rule [of r "''global''" "''global''" 0 "denyRules rules"]
  by (simp add: overlayRows_def EffectiveRules_tiers set_globalTier hostTier_none denyOnly_def gmap_def)

theorem evaluate_first_effective_witness:
  "\<exists>e. NewEngine literal_rx (Config (witness_body [witness_rule ''ls'' 0 ''allow'', witness_rule ''ls'' 5 ''deny''] [])
      (Some (Config (witness_body [witness_rule ''id'' 0 ''deny''] []) None))) (witness_inv [] []) = Inr e \<and>
    Dec_Rule (Evaluate e ''web'' ''pwd'') = RuleDefaultDeny"
proof -
  let ?cfg = "Config (witness_body [witness_rule ''ls'' 0 ''allow'', witness_rule ''ls'' 5 ''deny''] [])
      (Some (Config (witness_body [witness_rule ''id'' 0 ''deny''] []) None))"
  let ?iv = "witness_inv [] []"
  have ne: "trim_space ''web'' \<noteq> []" by (simp add: trim_space_ascii ascii_def is_space_def)
  obtain e where e: "NewEngine literal_rx ?cfg ?iv = Inr e"
    using literal_overlay_engine by (force simp: policy_consts)
  have "eff_Rule r \<in> set (cRules ?cfg)" if "r \<in> set (EffectiveRules ?cfg ?iv ''web'')" for r
    using that ne effRows_rule [of r "''global''" "''global''" 0 "cRules ?cfg"]
    by (simp add: EffectiveRules_tiers set_globalTier hostTier_none)
  then have "\<not> ruleMatches literal_rx (eff_Rule r) ''pwd''" if "r \<in> set (EffectiveRules ?cfg ?iv ''web'')" for r
    using that by fastforce
  moreover have "\<not> ruleMatches literal_rx (eff_Rule r) ''pwd''" if "r \<in> set (overlayRows ?cfg ?iv ''web'')" for r
    using overlayRows_global [OF ne that] by (auto simp: denyRules_def split: if_splits)
  ultimately show ?thesis
    using e evaluate_first_effective [OF e ne, of "''pwd''"] by auto
qed

text \<open>
  The order in which Go visits a map never shows. Two policies and inventories that differ
  only in that order compile alike, to engines that decide every command on every host the same
  way, and their effective rules are equal.
\<close>
theorem map_order_irrelevant:
  assumes "same_config cfg cfg'" and "same_inventory iv iv'"
    and "Overlay cfg = None" and "Overlay cfg' = None" and "NewEngine rx cfg iv = Inr e"
  shows "EffectiveRules cfg iv host = EffectiveRules cfg' iv' host \<and>
    (\<exists>e'. NewEngine rx cfg' iv' = Inr e' \<and> (\<forall>h command. Evaluate e' h command = Evaluate e h command))"
proof
  show "EffectiveRules cfg iv host = EffectiveRules cfg' iv' host"
    using assms by (simp add: EffectiveRules_tiers hostTier_perm globalTier_perm)
  show "\<exists>e'. NewEngine rx cfg' iv' = Inr e' \<and> (\<forall>h command. Evaluate e' h command = Evaluate e h command)"
    using assms hostTier_perm [OF assms(1,2)] globalTier_perm [OF assms(1)] config_ok_perm [OF assms(1)]
    by (simp add: NewEngine_None Evaluate_base_None)
qed

theorem map_order_irrelevant_witness:
  "\<exists>e e'. NewEngine literal_rx (Config (witness_body [] [(''b'', \<lparr>Override_Rules = [witness_rule ''ls'' 1 ''deny'']\<rparr>), (''a'', \<lparr>Override_Rules = [witness_rule ''ls'' 1 ''allow'']\<rparr>)]) None)
       (witness_inv [(''web'', zeroHost\<lparr>Host_Tags := [''t'']\<rparr>)] [(''b'', \<lparr>Group_Tags = [''t'']\<rparr>), (''a'', \<lparr>Group_Tags = [''t'']\<rparr>)]) = Inr e \<and>
     NewEngine literal_rx (Config (witness_body [] [(''a'', \<lparr>Override_Rules = [witness_rule ''ls'' 1 ''allow'']\<rparr>), (''b'', \<lparr>Override_Rules = [witness_rule ''ls'' 1 ''deny'']\<rparr>)]) None)
       (witness_inv [(''web'', zeroHost\<lparr>Host_Tags := [''t'']\<rparr>)] [(''a'', \<lparr>Group_Tags = [''t'']\<rparr>), (''b'', \<lparr>Group_Tags = [''t'']\<rparr>)]) = Inr e' \<and>
     Evaluate e' ''web'' ''ls'' = Evaluate e ''web'' ''ls''"
proof -
  let ?o = "[(''b'', \<lparr>Override_Rules = [witness_rule ''ls'' 1 ''deny'']\<rparr>), (''a'', \<lparr>Override_Rules = [witness_rule ''ls'' 1 ''allow'']\<rparr>)]"
  let ?c = "Config (witness_body [] ?o) None" and ?c' = "Config (witness_body [] (rev ?o)) None"
  let ?g = "[(''b'', \<lparr>Group_Tags = [''t'']\<rparr>), (''a'', \<lparr>Group_Tags = [''t'']\<rparr>)]"
  let ?h = "[(''web'', zeroHost\<lparr>Host_Tags := [''t'']\<rparr>)]"
  have c: "same_config ?c ?c'" and i: "same_inventory (witness_inv ?h ?g) (witness_inv ?h (rev ?g))"
    by (simp_all add: same_config_def same_inventory_def wf_map_def wf_inv_def)
  obtain e where e: "NewEngine literal_rx ?c (witness_inv ?h ?g) = Inr e"
    using literal_engine [of "[]" ?o] by (force simp: policy_consts)
  have "\<exists>e'. NewEngine literal_rx ?c' (witness_inv ?h (rev ?g)) = Inr e' \<and> (\<forall>h command. Evaluate e' h command = Evaluate e h command)"
    by (rule conjunct2 [OF map_order_irrelevant [OF c i _ _ e, of "''web''"]]) simp_all
  then obtain e' where e': "NewEngine literal_rx ?c' (witness_inv ?h (rev ?g)) = Inr e'"
    and eq: "Evaluate e' ''web'' ''ls'' = Evaluate e ''web'' ''ls''" by blast
  have r: "rev ?o = [?o ! 1, ?o ! 0]" "rev ?g = [?g ! 1, ?g ! 0]" by simp_all
  show ?thesis
    by (rule exI [of _ e], rule exI [of _ e'], intro conjI)
      (rule e, rule e' [unfolded r nth_Cons_0 nth_Cons_Suc One_nat_def], rule eq)
qed

text \<open>
  C31. An overlay only tightens. If the policy with the overlay compiles, so does the policy without
  it, and every decision is either the one made without the overlay or a denial marked
  \<open>local:\<close>; in particular nothing is allowed that the policy alone does not allow.
\<close>
theorem overlay_only_tightens:
  assumes "NewEngine rx (Config b (Some ov)) iv = Inr e"
  shows "\<exists>e0. NewEngine rx (Config b None) iv = Inr e0 \<and> (\<forall>host command.
     Evaluate e host command = Evaluate e0 host command \<or>
     Dec_Action (Evaluate e host command) = ActionDeny \<and>
       prefix OverlayRulePrefix (Dec_Rule (Evaluate e host command)))"
proof -
  from assms NewEngine_Some [of "Config b (Some ov)" ov]
  have ok: "config_ok rx (Config b (Some ov))"
    and e: "e = baseEngine rx (Some (baseEngine rx None (denyOnly ov) iv)) (Config b (Some ov)) iv"
    by auto
  have same: "Evaluate (baseEngine rx None (Config b (Some ov)) iv) h c = Evaluate (baseEngine rx None (Config b None) iv) h c" for h c
    by (simp add: Evaluate_base_None tiers_body [of "Config b (Some ov)" "Config b None"])
  have "NewEngine rx (Config b None) iv = Inr (baseEngine rx None (Config b None) iv)"
    using ok NewEngine_None [of "Config b None" rx iv "baseEngine rx None (Config b None) iv"]
    by (simp add: config_ok_def)
  then show ?thesis
    by (intro exI [of _ "baseEngine rx None (Config b None) iv"])
      (auto simp: e Evaluate_base_Some same split: if_splits)
qed

theorem overlay_only_tightens_witness:
  "\<exists>e e0. NewEngine literal_rx (Config (witness_body [witness_rule ''ls'' 0 ''allow''] [])
       (Some (Config (witness_body [witness_rule ''ls'' 0 ''deny''] []) None))) (witness_inv [] []) = Inr e \<and>
     NewEngine literal_rx (Config (witness_body [witness_rule ''ls'' 0 ''allow''] []) None) (witness_inv [] []) = Inr e0 \<and>
     (Evaluate e ''web'' ''ls'' = Evaluate e0 ''web'' ''ls'' \<or>
      Dec_Action (Evaluate e ''web'' ''ls'') = ActionDeny)"
proof -
  let ?b = "witness_body [witness_rule ''ls'' 0 ''allow''] []"
  let ?ov = "Config (witness_body [witness_rule ''ls'' 0 ''deny''] []) None"
  obtain e where e: "NewEngine literal_rx (Config ?b (Some ?ov)) (witness_inv [] []) = Inr e"
    using literal_overlay_engine by (force simp: policy_consts)
  show ?thesis using overlay_only_tightens [OF e] e by blast
qed

text \<open>
  Every deny rule of the overlay is enforced. A global deny rule of the local policy that
  matches a command denies it on every host, whatever the control plane's policy says and whatever
  allow rules stand before it in the local file.
\<close>
theorem overlay_deny_enforced:
  assumes "NewEngine rx (Config b (Some ov)) iv = Inr e"
    and "rule \<in> set (cRules ov)" and "Rule_Action rule = ActionDeny" and "ruleMatches rx rule command"
  shows "Dec_Action (Evaluate e host command) = ActionDeny \<and>
    prefix OverlayRulePrefix (Dec_Rule (Evaluate e host command))"
proof -
  from assms(1) NewEngine_Some [of "Config b (Some ov)" ov]
  have e: "e = baseEngine rx (Some (baseEngine rx None (denyOnly ov) iv)) (Config b (Some ov)) iv"
    by auto
  define rows where "rows = hostTier (denyOnly ov) iv host @ globalTier (denyOnly ov)"
  have "rule \<in> set (cRules (denyOnly ov))"
    using assms by (simp add: denyOnly_def denyRules_def)
  then obtain row where "row \<in> set rows" "eff_Rule row = rule"
    using set_effRows_rule by (fastforce simp: rows_def set_globalTier)
  then obtain r where r: "firstEffective rx rows command = Some r"
    using assms(4) firstEffective_None [of rx rows command] by (cases "firstEffective rx rows command") auto
  have deny: "Rule_Action (eff_Rule x) = ActionDeny" if "x \<in> set rows" for x
    using that denyOnly_tiers by (simp only: rows_def)
  have "Dec_Action (Evaluate (baseEngine rx None (denyOnly ov) iv) host command) = ActionDeny"
       "Dec_Rule (Evaluate (baseEngine rx None (denyOnly ov) iv) host command) \<noteq> RuleDefaultDeny"
    using r deny [of r] firstEffective_Some [OF r] effSource_not_default [of r]
    by (auto simp: Evaluate_base_None rows_def [symmetric] decisionOf_def effAction_def policy_consts)
  then show ?thesis by (simp add: e Evaluate_base_Some)
qed

theorem overlay_deny_enforced_witness:
  "\<exists>e. NewEngine literal_rx (Config (witness_body [witness_rule ''ls'' 0 ''allow''] [])
       (Some (Config (witness_body [witness_rule ''ls'' 9 ''allow'', witness_rule ''ls'' 0 ''deny''] []) None))) (witness_inv [] []) = Inr e \<and>
     Dec_Action (Evaluate e ''web'' ''ls'') = ActionDeny"
proof -
  let ?b = "witness_body [witness_rule ''ls'' 0 ''allow''] []"
  let ?ov = "Config (witness_body [witness_rule ''ls'' 9 ''allow'', witness_rule ''ls'' 0 ''deny''] []) None"
  obtain e where e: "NewEngine literal_rx (Config ?b (Some ?ov)) (witness_inv [] []) = Inr e"
    using literal_overlay_engine by (force simp: policy_consts)
  show ?thesis
    using overlay_deny_enforced [OF e, of "witness_rule ''ls'' 0 ''deny''" "''ls''" "''web''"] e
    by (simp add: policy_consts)
qed

end
