(* ===== verification/PolicyStore.thy ===== *)
theory PolicyStore
  imports Policy
begin

text \<open>
  \<open>internal/policy/store.go\<close>: the edits of the policy document that the console and the CLI make.
  Each operation works on a copy (\<open>copyConfig\<close>, \<open>copyBundle\<close>), so it is a function from a
  bundle to an error or a new bundle. Reading and writing \<open>policy.yaml\<close> are not modelled. The
  rules of a host and the rules of an authoring group share one contract, the locale
  \<open>rule_container\<close>. The properties: what each edit changes and what it leaves alone, that
  stamping a group is idempotent and keeps the hand-made rules, and that the managed names of
  global rules stay unique.
\<close>

section \<open>Bundles\<close>

record HostRuleSet =
  hrs_Host :: string
  hrs_Key :: string
  hrs_Override :: HostOverride
  hrs_Managed :: bool
  hrs_Effective :: bool

record Bundle =
  bPolicy :: Config
  bInventory :: Inventory

definition ErrRuleExists :: error where "ErrRuleExists = Sentinel ''ErrRuleExists''"
definition ErrRuleNotFound :: error where "ErrRuleNotFound = Sentinel ''ErrRuleNotFound''"
definition ErrRuleAmbiguous :: error where "ErrRuleAmbiguous = Sentinel ''ErrRuleAmbiguous''"
definition ErrGroupExists :: error where "ErrGroupExists = Sentinel ''ErrGroupExists''"
definition ErrGroupNotFound :: error where "ErrGroupNotFound = Sentinel ''ErrGroupNotFound''"
definition ErrPolicyHostNotFound :: error where "ErrPolicyHostNotFound = Sentinel ''policy.ErrHostNotFound''"
definition ErrNoHostRules :: error where "ErrNoHostRules = Sentinel ''ErrNoHostRules''"
definition ErrReservedGroup :: error where "ErrReservedGroup = Sentinel ''ErrReservedGroup''"

lemmas store_errors = ErrRuleExists_def ErrRuleNotFound_def ErrRuleAmbiguous_def ErrGroupExists_def
  ErrGroupNotFound_def ErrPolicyHostNotFound_def ErrNoHostRules_def ErrReservedGroup_def

definition defaultVersion :: "Config \<Rightarrow> Config" where
  "defaultVersion c = upd (\<lambda>b. if Version b = 0 then b\<lparr>Version := 1\<rparr> else b) c"

abbreviation set_rules :: "(Rule list \<Rightarrow> Rule list) \<Rightarrow> Config \<Rightarrow> Config" where
  "set_rules f \<equiv> upd (\<lambda>b. b\<lparr>Rules := f (Rules b)\<rparr>)"

abbreviation set_overrides :: "(HostOverride gomap \<Rightarrow> HostOverride gomap) \<Rightarrow> Config \<Rightarrow> Config" where
  "set_overrides f \<equiv> upd (\<lambda>b. b\<lparr>HostOverrides := f (HostOverrides b)\<rparr>)"

abbreviation set_groups :: "(RuleGroup gomap \<Rightarrow> RuleGroup gomap) \<Rightarrow> Config \<Rightarrow> Config" where
  "set_groups f \<equiv> upd (\<lambda>b. b\<lparr>RuleGroups := f (RuleGroups b)\<rparr>)"

lemma defaultVersion_sel [simp]:
  "cRules (defaultVersion c) = cRules c" "cOverrides (defaultVersion c) = cOverrides c"
  "cGroups (defaultVersion c) = cGroups c" "hostOrder (body (defaultVersion c)) = hostOrder (body c)"
  "Overlay (defaultVersion c) = Overlay c"
  by (simp_all add: defaultVersion_def)

section \<open>Global rules\<close>

fun ruleIndexLoop :: "nat \<Rightarrow> nat option \<Rightarrow> Rule list \<Rightarrow> string \<Rightarrow> nat option res" where
  "ruleIndexLoop i found [] name = Inr found"
| "ruleIndexLoop i found (rule # rules) name =
     (if Rule_Name rule \<noteq> name then ruleIndexLoop (Suc i) found rules name
      else if found \<noteq> None then Inl ErrRuleAmbiguous
      else ruleIndexLoop (Suc i) (Some i) rules name)"

definition ruleIndex :: "Rule list \<Rightarrow> string \<Rightarrow> nat res" where
  "ruleIndex rules name = rbind (ruleIndexLoop 0 None rules name) (\<lambda>found.
     case found of None \<Rightarrow> Inl ErrRuleNotFound | Some i \<Rightarrow> Inr i)"

definition AddRule :: "Config \<Rightarrow> Rule \<Rightarrow> Config res" where
  "AddRule cfg rule =
     (if Rule_Name rule = [] then Inl (Errorf ''policy rule name is required'' [])
      else case ruleIndex (cRules cfg) (Rule_Name rule) of
        Inr _ \<Rightarrow> Inl ErrRuleExists
      | Inl e \<Rightarrow> if e = ErrRuleAmbiguous then Inl e
          else Inr (set_rules (\<lambda>rs. rs @ [rule]) (defaultVersion cfg)))"

definition UpdateRule :: "Config \<Rightarrow> string \<Rightarrow> Rule \<Rightarrow> Config res" where
  "UpdateRule cfg name rule = rbind (ruleIndex (cRules cfg) name) (\<lambda>index.
     if Rule_Name rule = [] then Inl (Errorf ''policy rule name is required'' [])
     else rbind (if Rule_Name rule \<noteq> name then
            (case ruleIndex (cRules cfg) (Rule_Name rule) of
               Inr _ \<Rightarrow> Inl ErrRuleExists
             | Inl e \<Rightarrow> if e = ErrRuleAmbiguous then Inl e else Inr ())
          else Inr ()) (\<lambda>_.
       Inr (set_rules (\<lambda>rs. rs[index := rule]) cfg)))"

definition RemoveRule :: "Config \<Rightarrow> string \<Rightarrow> Config res" where
  "RemoveRule cfg name = rbind (ruleIndex (cRules cfg) name) (\<lambda>index.
     Inr (set_rules (\<lambda>rs. take index rs @ drop (Suc index) rs) cfg))"

section \<open>Rules of a host\<close>

definition HostRuleSets :: "Bundle \<Rightarrow> HostRuleSet list" where
  "HostRuleSets bundle =
     (let names = keys (Hosts (bInventory bundle)) @
            concat (map (\<lambda>grp. case cut_prefix grp ''host:'' of
                Some host \<Rightarrow> if host \<noteq> [] then [host] else []
              | None \<Rightarrow> []) (keys (cOverrides (bPolicy bundle))));
          sorted = sort (filter (\<lambda>name. ghas (cOverrides (bPolicy bundle)) (HostRulesKey name)) (remdups names))
      in map (\<lambda>host.
           \<lparr>hrs_Host = host, hrs_Key = HostRulesKey host,
            hrs_Override = the (gget (cOverrides (bPolicy bundle)) (HostRulesKey host)),
            hrs_Managed = True, hrs_Effective = ghas (Hosts (bInventory bundle)) host\<rparr>) sorted)"

definition LookupHostRules :: "Bundle \<Rightarrow> string \<Rightarrow> HostRuleSet option" where
  "LookupHostRules bundle host0 =
     (let host = trim_space host0 in
      if host = [] then None
      else case gget (cOverrides (bPolicy bundle)) (HostRulesKey host) of
        None \<Rightarrow> None
      | Some override \<Rightarrow> Some
         \<lparr>hrs_Host = host, hrs_Key = HostRulesKey host, hrs_Override = override, hrs_Managed = True,
          hrs_Effective = ghas (Hosts (bInventory bundle)) host\<rparr>)"

definition SetHostRules :: "Bundle \<Rightarrow> string \<Rightarrow> HostOverride \<Rightarrow> Bundle res" where
  "SetHostRules bundle host0 override =
     (let host = trim_space host0 in
      if host = [] then Inl (Errorf ''policy host name is required'' [])
      else if \<not> ghas (Hosts (bInventory bundle)) host then Inl ErrPolicyHostNotFound
      else Inr (bundle\<lparr>bPolicy := set_overrides (gput (HostRulesKey host) override)
             (defaultVersion (bPolicy bundle))\<rparr>))"

definition ClearHostRules :: "Bundle \<Rightarrow> string \<Rightarrow> Bundle res" where
  "ClearHostRules bundle host0 =
     (let host = trim_space host0; key = HostRulesKey host in
      if host = [] then Inl (Errorf ''policy host name is required'' [])
      else if \<not> ghas (cOverrides (bPolicy bundle)) key then Inl ErrNoHostRules
      else Inr (bundle\<lparr>bPolicy := set_overrides (gdel key) (bPolicy bundle)\<rparr>))"

definition setExistingHostRules :: "Bundle \<Rightarrow> string \<Rightarrow> HostOverride \<Rightarrow> Bundle res" where
  "setExistingHostRules bundle host0 override =
     (let host = trim_space host0; key = HostRulesKey host in
      if host = [] then Inl (Errorf ''policy host name is required'' [])
      else if \<not> ghas (cOverrides (bPolicy bundle)) key then Inl ErrNoHostRules
      else Inr (bundle\<lparr>bPolicy := set_overrides (gput key override) (defaultVersion (bPolicy bundle))\<rparr>))"

definition AddHostRule :: "Bundle \<Rightarrow> string \<Rightarrow> Rule \<Rightarrow> Bundle res" where
  "AddHostRule bundle host0 rule =
     (let host = trim_space host0 in
      if host = [] then Inl (Errorf ''policy host name is required'' [])
      else if \<not> ghas (Hosts (bInventory bundle)) host then Inl ErrPolicyHostNotFound
      else let override = (case LookupHostRules bundle host of
               Some ruleSet \<Rightarrow> hrs_Override ruleSet | None \<Rightarrow> \<lparr>Override_Rules = []\<rparr>)
           in SetHostRules bundle host (override\<lparr>Override_Rules := Override_Rules override @ [rule]\<rparr>))"

definition RemoveHostRule :: "Bundle \<Rightarrow> string \<Rightarrow> int \<Rightarrow> Bundle res" where
  "RemoveHostRule bundle host index =
     (case LookupHostRules bundle host of
        None \<Rightarrow> Inl ErrNoHostRules
      | Some ruleSet \<Rightarrow>
          (let rules = Override_Rules (hrs_Override ruleSet) in
           if index < 0 \<or> index \<ge> int (length rules)
           then Inl (Errorf ''host rule index out of range'' [int_dec index])
           else setExistingHostRules bundle host ((hrs_Override ruleSet)
             \<lparr>Override_Rules := take (nat index) rules @ drop (Suc (nat index)) rules\<rparr>)))"

section \<open>Authoring groups\<close>

definition isReservedGroupName :: "string \<Rightarrow> bool" where
  "isReservedGroupName name \<longleftrightarrow> name = ApprovalGroup \<or> has_prefix name ''__agentssh_''"

definition CreateGroup :: "Bundle \<Rightarrow> string \<Rightarrow> Bundle res" where
  "CreateGroup bundle name0 =
     (let name = trim_space name0 in
      if name = [] then Inl (Errorf ''policy rule group name is required'' [])
      else if isReservedGroupName name then Inl ErrReservedGroup
      else if ghas (cGroups (bPolicy bundle)) name then Inl ErrGroupExists
      else Inr (bundle\<lparr>bPolicy := set_groups (gput name \<lparr>RuleGroup_Rules = []\<rparr>)
             (defaultVersion (bPolicy bundle))\<rparr>))"

definition DeleteGroup :: "Bundle \<Rightarrow> string \<Rightarrow> Bundle res" where
  "DeleteGroup bundle name0 =
     (let name = trim_space name0 in
      if name = [] then Inl (Errorf ''policy rule group name is required'' [])
      else if \<not> ghas (cGroups (bPolicy bundle)) name then Inl ErrGroupNotFound
      else Inr (bundle\<lparr>bPolicy := set_groups (gdel name) (bPolicy bundle)\<rparr>))"

definition AddGroupRule :: "Bundle \<Rightarrow> string \<Rightarrow> Rule \<Rightarrow> Bundle res" where
  "AddGroupRule bundle grp0 rule =
     (let grp = trim_space grp0 in
      case gget (cGroups (bPolicy bundle)) grp of
        None \<Rightarrow> Inl ErrGroupNotFound
      | Some current \<Rightarrow> Inr (bundle\<lparr>bPolicy := defaultVersion (set_groups
          (gput grp (current\<lparr>RuleGroup_Rules := RuleGroup_Rules current @ [rule]\<rparr>)) (bPolicy bundle))\<rparr>))"

definition UpdateGroupRule :: "Bundle \<Rightarrow> string \<Rightarrow> int \<Rightarrow> Rule \<Rightarrow> Bundle res" where
  "UpdateGroupRule bundle grp0 index rule =
     (let grp = trim_space grp0 in
      case gget (cGroups (bPolicy bundle)) grp of
        None \<Rightarrow> Inl ErrGroupNotFound
      | Some current \<Rightarrow>
          if index < 0 \<or> index \<ge> int (length (RuleGroup_Rules current))
          then Inl (Errorf ''rule group rule index out of range'' [grp, int_dec index])
          else Inr (bundle\<lparr>bPolicy := set_groups
            (gput grp (current\<lparr>RuleGroup_Rules := (RuleGroup_Rules current)[nat index := rule]\<rparr>))
            (bPolicy bundle)\<rparr>))"

definition RemoveGroupRule :: "Bundle \<Rightarrow> string \<Rightarrow> int \<Rightarrow> Bundle res" where
  "RemoveGroupRule bundle grp0 index =
     (let grp = trim_space grp0 in
      case gget (cGroups (bPolicy bundle)) grp of
        None \<Rightarrow> Inl ErrGroupNotFound
      | Some current \<Rightarrow>
          (let rules = RuleGroup_Rules current in
           if index < 0 \<or> index \<ge> int (length rules)
           then Inl (Errorf ''rule group rule index out of range'' [grp, int_dec index])
           else Inr (bundle\<lparr>bPolicy := set_groups
             (gput grp (current\<lparr>RuleGroup_Rules := take (nat index) rules @ drop (Suc (nat index)) rules\<rparr>))
             (bPolicy bundle)\<rparr>)))"

section \<open>Stamping a group onto a host\<close>

definition removeRulesFromGroup :: "Rule list \<Rightarrow> string \<Rightarrow> Rule list" where
  "removeRulesFromGroup rules groupName = filter (\<lambda>rule. Rule_Group rule \<noteq> groupName) rules"

definition StampGroupOntoHost :: "Bundle \<Rightarrow> string \<Rightarrow> string \<Rightarrow> Bundle res" where
  "StampGroupOntoHost bundle host0 groupName0 =
     (let host = trim_space host0; groupName = trim_space groupName0 in
      if host = [] then Inl (Errorf ''policy host name is required'' [])
      else if isReservedGroupName groupName then Inl ErrReservedGroup
      else if \<not> ghas (Hosts (bInventory bundle)) host then Inl ErrPolicyHostNotFound
      else case gget (cGroups (bPolicy bundle)) groupName of
        None \<Rightarrow> Inl ErrGroupNotFound
      | Some grp \<Rightarrow>
          (let override = (case LookupHostRules bundle host of
               Some ruleSet \<Rightarrow> hrs_Override ruleSet | None \<Rightarrow> \<lparr>Override_Rules = []\<rparr>)
           in SetHostRules bundle host (override\<lparr>Override_Rules :=
                removeRulesFromGroup (Override_Rules override) groupName @
                map (\<lambda>rule. rule\<lparr>Rule_Group := groupName\<rparr>) (RuleGroup_Rules grp)\<rparr>)))"

definition RemoveHostGroup :: "Bundle \<Rightarrow> string \<Rightarrow> string \<Rightarrow> Bundle res" where
  "RemoveHostGroup bundle host groupName0 =
     (let groupName = trim_space groupName0 in
      if groupName = [] then Inl (Errorf ''policy group name is required'' [])
      else case LookupHostRules bundle host of
        None \<Rightarrow> Inl ErrNoHostRules
      | Some ruleSet \<Rightarrow> setExistingHostRules bundle host
          \<lparr>Override_Rules = filter (\<lambda>rule. Rule_Group rule \<noteq> groupName) (Override_Rules (hrs_Override ruleSet))\<rparr>)"

section \<open>Lemmas: names of global rules\<close>

lemma ruleIndexLoop_found: "ruleIndexLoop i (Some j) rules name =
   (if name \<in> set (map Rule_Name rules) then Inl ErrRuleAmbiguous else Inr (Some j))"
  by (induction rules arbitrary: i) auto

text \<open>The named rules have different names; a rule without a name is never found by name.\<close>

definition unique_names :: "Rule list \<Rightarrow> bool" where
  "unique_names rules \<longleftrightarrow> distinct (filter (\<lambda>n. n \<noteq> []) (map Rule_Name rules))"

lemma ruleIndexLoop_skip: "name \<notin> set (map Rule_Name pre) \<Longrightarrow>
   ruleIndexLoop i f (pre @ rest) name = ruleIndexLoop (i + length pre) f rest name"
  by (induction pre arbitrary: i) auto

lemma ruleIndex_absent: "name \<notin> set (map Rule_Name rules) \<Longrightarrow> ruleIndex rules name = Inl ErrRuleNotFound"
  using ruleIndexLoop_skip [of name rules 0 None "[]"] by (simp add: ruleIndex_def)

lemma ruleIndex_split: "name \<notin> set (map Rule_Name pre) \<Longrightarrow> Rule_Name r = name \<Longrightarrow>
   ruleIndex (pre @ r # post) name =
     (if name \<in> set (map Rule_Name post) then Inl ErrRuleAmbiguous else Inr (length pre))"
  by (simp add: ruleIndex_def ruleIndexLoop_skip ruleIndexLoop_found)

lemma names_split: "name \<in> set (map Rule_Name rules) \<Longrightarrow>
   \<exists>pre r post. rules = pre @ r # post \<and> Rule_Name r = name \<and> name \<notin> set (map Rule_Name pre)"
  using split_list_first_prop [of rules "\<lambda>r. Rule_Name r = name"] by fastforce

text \<open>A lookup finds the only rule of that name; an ambiguous name is one that occurs twice.\<close>

lemma ruleIndex_Inr: "ruleIndex rules name = Inr i \<Longrightarrow>
   \<exists>pre r post. rules = pre @ r # post \<and> i = length pre \<and> Rule_Name r = name \<and>
     name \<notin> set (map Rule_Name (pre @ post))"
proof -
  assume a: "ruleIndex rules name = Inr i"
  then have "name \<in> set (map Rule_Name rules)" using ruleIndex_absent [of name rules] by fastforce
  then obtain pre r post where d: "rules = pre @ r # post" "Rule_Name r = name" "name \<notin> set (map Rule_Name pre)"
    using names_split by blast
  with a ruleIndex_split [of name pre r post] show ?thesis by (auto split: if_splits)
qed

lemma ruleIndex_unique: "ruleIndex rules name = Inl e \<Longrightarrow> e \<noteq> ErrRuleAmbiguous \<Longrightarrow> name \<notin> set (map Rule_Name rules)"
proof
  assume a: "ruleIndex rules name = Inl e" "e \<noteq> ErrRuleAmbiguous" and "name \<in> set (map Rule_Name rules)"
  then obtain pre r post where "rules = pre @ r # post" "Rule_Name r = name" "name \<notin> set (map Rule_Name pre)"
    using names_split by blast
  with a ruleIndex_split [of name pre r post] show False by (auto split: if_splits)
qed

lemma unique_names_append: "unique_names (xs @ ys) \<longleftrightarrow> unique_names xs \<and> unique_names ys \<and>
   (\<forall>n \<in> set (map Rule_Name xs) \<inter> set (map Rule_Name ys). n = [])"
  by (auto simp: unique_names_def)

lemma unique_names_Cons: "unique_names (r # rs) \<longleftrightarrow>
   (Rule_Name r = [] \<or> Rule_Name r \<notin> set (map Rule_Name rs)) \<and> unique_names rs"
  by (auto simp: unique_names_def)

lemma unique_names_Nil [simp]: "unique_names []"
  by (simp add: unique_names_def)

lemmas unique_names_simps = unique_names_append unique_names_Cons

lemma AddRule_Inr: "AddRule cfg rule = Inr cfg' \<longleftrightarrow> Rule_Name rule \<noteq> [] \<and>
   Rule_Name rule \<notin> set (map Rule_Name (cRules cfg)) \<and>
   cfg' = set_rules (\<lambda>rs. rs @ [rule]) (defaultVersion cfg)"
  using ruleIndex_absent [of "Rule_Name rule" "cRules cfg"] ruleIndex_unique [of "cRules cfg" "Rule_Name rule"]
  by (cases "ruleIndex (cRules cfg) (Rule_Name rule)")
    (auto simp: AddRule_def store_errors dest!: ruleIndex_Inr)

lemma UpdateRule_Inr:
  assumes "UpdateRule cfg name rule = Inr cfg'"
  shows "\<exists>pre r post. cRules cfg = pre @ r # post \<and> Rule_Name r = name \<and> Rule_Name rule \<noteq> [] \<and>
    Rule_Name rule \<notin> set (map Rule_Name (pre @ post)) \<and> cRules cfg' = pre @ rule # post"
proof -
  from assms obtain i where i: "ruleIndex (cRules cfg) name = Inr i" and n: "Rule_Name rule \<noteq> []"
    and c: "cfg' = set_rules (\<lambda>rs. rs[i := rule]) cfg"
    and f: "Rule_Name rule \<noteq> name \<longrightarrow> (\<exists>e. ruleIndex (cRules cfg) (Rule_Name rule) = Inl e \<and> e \<noteq> ErrRuleAmbiguous)"
    by (auto simp: UpdateRule_def rbind_iffs split: if_splits sum.splits)
  from ruleIndex_Inr [OF i] obtain pre r post where d: "cRules cfg = pre @ r # post" "i = length pre"
      "Rule_Name r = name" "name \<notin> set (map Rule_Name (pre @ post))" by blast
  moreover have "Rule_Name rule \<notin> set (map Rule_Name (pre @ post))"
    using f d ruleIndex_unique by (cases "Rule_Name rule = name") fastforce+
  ultimately show ?thesis using n c by auto
qed

lemma RemoveRule_Inr:
  assumes "RemoveRule cfg name = Inr cfg'"
  shows "\<exists>pre r post. cRules cfg = pre @ r # post \<and> Rule_Name r = name \<and> cRules cfg' = pre @ post"
  using assms ruleIndex_Inr [of "cRules cfg" name] by (fastforce simp: RemoveRule_def rbind_iffs)

section \<open>Lemmas: rules of a host\<close>

lemma HostRulesKey_trim [simp]: "HostRulesKey (trim_space h) = HostRulesKey h"
  by (simp add: HostRulesKey_def)

lemma HostRulesKey_inj: "HostRulesKey h = HostRulesKey h' \<longleftrightarrow> trim_space h = trim_space h'"
  by (simp add: HostRulesKey_def)

definition host_rules :: "Bundle \<Rightarrow> string \<Rightarrow> Rule list option" where
  "host_rules b h = (if trim_space h = [] then None else
     map_option Override_Rules (gget (cOverrides (bPolicy b)) (HostRulesKey h)))"

definition group_rules :: "Bundle \<Rightarrow> string \<Rightarrow> Rule list option" where
  "group_rules b g = map_option RuleGroup_Rules (gget (cGroups (bPolicy b)) (trim_space g))"

lemma LookupHostRules_rules: "map_option (Override_Rules \<circ> hrs_Override) (LookupHostRules b h) = host_rules b h"
  by (simp add: LookupHostRules_def host_rules_def Let_def split: option.split)

lemma LookupHostRules_Some: "LookupHostRules b h = Some hrs \<longleftrightarrow> trim_space h \<noteq> [] \<and>
   (\<exists>o'. gget (cOverrides (bPolicy b)) (HostRulesKey h) = Some o' \<and> hrs =
     \<lparr>hrs_Host = trim_space h, hrs_Key = HostRulesKey h, hrs_Override = o', hrs_Managed = True,
      hrs_Effective = ghas (Hosts (bInventory b)) (trim_space h)\<rparr>)"
  by (auto simp: LookupHostRules_def Let_def split: option.split)

lemma LookupHostRules_None: "LookupHostRules b h = None \<longleftrightarrow> trim_space h = [] \<or>
   gget (cOverrides (bPolicy b)) (HostRulesKey h) = None"
  by (auto simp: LookupHostRules_def Let_def split: option.split)

text \<open>Everything but the overrides, which is what an edit of a host's rules leaves alone.\<close>

definition same_but_overrides :: "Bundle \<Rightarrow> Bundle \<Rightarrow> bool" where
  "same_but_overrides b b' \<longleftrightarrow> bInventory b' = bInventory b \<and> cRules (bPolicy b') = cRules (bPolicy b) \<and>
     cGroups (bPolicy b') = cGroups (bPolicy b) \<and> hostOrder (body (bPolicy b')) = hostOrder (body (bPolicy b)) \<and>
     Overlay (bPolicy b') = Overlay (bPolicy b)"

definition put_rules :: "Bundle \<Rightarrow> string \<Rightarrow> Rule list \<Rightarrow> Bundle" where
  "put_rules b h rs = b\<lparr>bPolicy := set_overrides (gput (HostRulesKey h) \<lparr>Override_Rules = rs\<rparr>)
     (defaultVersion (bPolicy b))\<rparr>"

lemma override_eta: "(o' :: HostOverride)\<lparr>Override_Rules := rs\<rparr> = \<lparr>Override_Rules = rs\<rparr>"
  by (cases o') simp

lemma host_rules_put: "trim_space h \<noteq> [] \<Longrightarrow> host_rules (put_rules b h rs) h' =
   (if trim_space h' = trim_space h then Some rs else host_rules b h')"
  by (auto simp: host_rules_def put_rules_def HostRulesKey_inj)

lemma same_but_put: "same_but_overrides b (put_rules b h rs)"
  by (simp add: same_but_overrides_def put_rules_def)

lemma group_rules_put [simp]: "group_rules (put_rules b h rs) g = group_rules b g"
  by (simp add: group_rules_def put_rules_def)

lemma put_rules_again: "put_rules (put_rules b h rs) h rs = put_rules b h rs"
proof -
  have "gput k v (gput k v m) = gput k v m" for k and v :: HostOverride and m
    by (induction m) auto
  then show ?thesis
    by (simp add: put_rules_def defaultVersion_def upd_def)
qed

lemma SetHostRules_eq: "SetHostRules b h o' =
   (if trim_space h = [] then Inl (Errorf ''policy host name is required'' [])
    else if \<not> ghas (Hosts (bInventory b)) (trim_space h) then Inl ErrPolicyHostNotFound
    else Inr (put_rules b h (Override_Rules o')))"
  by (cases o') (simp add: SetHostRules_def put_rules_def Let_def)

lemma setExisting_eq: "setExistingHostRules b h o' =
   (if trim_space h = [] then Inl (Errorf ''policy host name is required'' [])
    else if host_rules b h = None then Inl ErrNoHostRules
    else Inr (put_rules b h (Override_Rules o')))"
  by (cases o') (simp add: setExistingHostRules_def put_rules_def host_rules_def ghas_def Let_def)

definition rules_or_none :: "Rule list option \<Rightarrow> Rule list" where
  "rules_or_none r = (case r of None \<Rightarrow> [] | Some rs \<Rightarrow> rs)"

lemma rules_or_none_simps [simp]: "rules_or_none None = []" "rules_or_none (Some rs) = rs"
  by (simp_all add: rules_or_none_def)

lemma lookup_rules: "Override_Rules (case LookupHostRules b h of Some ruleSet \<Rightarrow> hrs_Override ruleSet
    | None \<Rightarrow> \<lparr>Override_Rules = []\<rparr>) = rules_or_none (host_rules b h)"
  by (simp add: LookupHostRules_rules [symmetric] split: option.split)

lemma host_rules_trim [simp]: "host_rules b (trim_space h) = host_rules b h"
  by (simp add: host_rules_def)

lemma put_rules_trim [simp]: "put_rules b (trim_space h) rs = put_rules b h rs"
  by (simp add: put_rules_def)

lemma AddHostRule_Inr: "AddHostRule b h r = Inr b' \<longleftrightarrow> trim_space h \<noteq> [] \<and>
   ghas (Hosts (bInventory b)) (trim_space h) \<and> b' = put_rules b h (rules_or_none (host_rules b h) @ [r])"
  by (auto simp: AddHostRule_def Let_def SetHostRules_eq lookup_rules)

lemma RemoveHostRule_Inr: "RemoveHostRule b h i = Inr b' \<longleftrightarrow> (\<exists>rs. host_rules b h = Some rs \<and>
   0 \<le> i \<and> i < int (length rs) \<and> b' = put_rules b h (take (nat i) rs @ drop (Suc (nat i)) rs))"
proof (cases "LookupHostRules b h")
  case None
  then have "host_rules b h = None" using LookupHostRules_rules [of b h] by simp
  then show ?thesis using None by (simp add: RemoveHostRule_def)
next
  case (Some hrs)
  then have "host_rules b h = Some (Override_Rules (hrs_Override hrs))" "trim_space h \<noteq> []"
    using LookupHostRules_rules [of b h] LookupHostRules_Some [of b h hrs] by auto
  then show ?thesis using Some by (auto simp: RemoveHostRule_def setExisting_eq Let_def)
qed

lemma StampGroupOntoHost_Inr: "StampGroupOntoHost b h g = Inr b' \<longleftrightarrow> trim_space h \<noteq> [] \<and>
   \<not> isReservedGroupName (trim_space g) \<and> ghas (Hosts (bInventory b)) (trim_space h) \<and>
   (\<exists>rs. group_rules b g = Some rs \<and> b' = put_rules b h
     (filter (\<lambda>r. Rule_Group r \<noteq> trim_space g) (rules_or_none (host_rules b h)) @
      map (\<lambda>r. r\<lparr>Rule_Group := trim_space g\<rparr>) rs))"
  by (auto simp: StampGroupOntoHost_def Let_def SetHostRules_eq lookup_rules group_rules_def
      removeRulesFromGroup_def split: option.splits)

lemma RemoveHostGroup_Inr: "RemoveHostGroup b h g = Inr b' \<longleftrightarrow> trim_space g \<noteq> [] \<and>
   (\<exists>rs. host_rules b h = Some rs \<and> b' = put_rules b h (filter (\<lambda>r. Rule_Group r \<noteq> trim_space g) rs))"
proof (cases "LookupHostRules b h")
  case None
  then have "host_rules b h = None" using LookupHostRules_rules [of b h] by simp
  then show ?thesis using None by (simp add: RemoveHostGroup_def Let_def)
next
  case (Some hrs)
  then have "host_rules b h = Some (Override_Rules (hrs_Override hrs))" "trim_space h \<noteq> []"
    using LookupHostRules_rules [of b h] LookupHostRules_Some [of b h hrs] by auto
  then show ?thesis using Some by (auto simp: RemoveHostGroup_def setExisting_eq Let_def)
qed

section \<open>The contract of a list of rules\<close>

text \<open>
  A host's rules and an authoring group's rules are edited alike: by name, up to the white space
  around it, with an append and a removal by index that leave the other lists alone.
\<close>

locale rule_container =
  fixes rules_at :: "Bundle \<Rightarrow> string \<Rightarrow> Rule list option"
    and add_rule :: "Bundle \<Rightarrow> string \<Rightarrow> Rule \<Rightarrow> Bundle res"
    and remove_rule :: "Bundle \<Rightarrow> string \<Rightarrow> int \<Rightarrow> Bundle res"
  assumes add_at: "add_rule b k r = Inr b' \<Longrightarrow> rules_at b' k' =
      (if trim_space k' = trim_space k then Some (rules_or_none (rules_at b k) @ [r]) else rules_at b k')"
    and remove_ok: "rules_at b k = Some rs \<Longrightarrow> 0 \<le> i \<Longrightarrow> i < int (length rs) \<Longrightarrow>
      \<exists>b'. remove_rule b k i = Inr b' \<and> (\<forall>k'. rules_at b' k' =
        (if trim_space k' = trim_space k then Some (take (nat i) rs @ drop (Suc (nat i)) rs) else rules_at b k'))"
    and same_key: "trim_space k = trim_space k' \<Longrightarrow> rules_at b k = rules_at b k'"
begin

text \<open>Removing the rule that was just added gives every list back.\<close>

lemma remove_added:
  assumes "add_rule b k r = Inr b1" and "n = length (rules_or_none (rules_at b k))"
  shows "\<exists>b2. remove_rule b1 k (int n) = Inr b2 \<and>
    (\<forall>k'. rules_or_none (rules_at b2 k') = rules_or_none (rules_at b k'))"
proof -
  have "rules_at b1 k = Some (rules_or_none (rules_at b k) @ [r])"
    using add_at [OF assms(1), of k] by simp
  from remove_ok [OF this, of "int n"] obtain b2 where b2: "remove_rule b1 k (int n) = Inr b2"
    and at: "\<forall>k'. rules_at b2 k' = (if trim_space k' = trim_space k
      then Some (rules_or_none (rules_at b k)) else rules_at b1 k')"
    using assms(2) by auto
  have "rules_or_none (rules_at b2 k') = rules_or_none (rules_at b k')" for k'
    using at add_at [OF assms(1), of k'] same_key [of k' k b]
    by (cases "trim_space k' = trim_space k") simp_all
  with b2 show ?thesis by blast
qed

text \<open>Additions under different names commute.\<close>

lemma add_commute:
  assumes "add_rule b k r = Inr b1" and "add_rule b1 l s = Inr b2"
    and "add_rule b l s = Inr c1" and "add_rule c1 k r = Inr c2" and "trim_space k \<noteq> trim_space l"
  shows "rules_at b2 m = rules_at c2 m"
  using add_at [OF assms(1)] add_at [OF assms(2)] add_at [OF assms(3)] add_at [OF assms(4)] assms(5)
  by auto

end

interpretation host: rule_container host_rules AddHostRule RemoveHostRule
proof (unfold_locales, goal_cases)
  case (1 b k r b' k')
  then show ?case by (auto simp: AddHostRule_Inr host_rules_put)
next
  case (2 b k rs i)
  then have "trim_space k \<noteq> []" by (auto simp: host_rules_def split: if_splits)
  with 2 show ?case by (auto simp: RemoveHostRule_Inr host_rules_put)
next
  case (3 k k' b)
  then show ?case using host_rules_trim [of b k] host_rules_trim [of b k'] by simp
qed

lemma AddGroupRule_Inr: "AddGroupRule b g r = Inr b' \<longleftrightarrow> (\<exists>cur. gget (cGroups (bPolicy b)) (trim_space g) = Some cur \<and>
   b' = b\<lparr>bPolicy := defaultVersion (set_groups (gput (trim_space g)
     (cur\<lparr>RuleGroup_Rules := RuleGroup_Rules cur @ [r]\<rparr>)) (bPolicy b))\<rparr>)"
  by (auto simp: AddGroupRule_def Let_def split: option.splits)

interpretation grp: rule_container group_rules AddGroupRule RemoveGroupRule
proof (unfold_locales, goal_cases)
  case (1 b k r b' k')
  then show ?case by (auto simp: AddGroupRule_Inr group_rules_def)
next
  case (2 b k rs i)
  then show ?case by (auto simp: RemoveGroupRule_def group_rules_def Let_def)
next
  case (3 k k' b)
  then show ?case by (simp add: group_rules_def)
qed

section \<open>Lemmas: what other hosts see\<close>

text \<open>No group of the inventory has a name that looks like a host's key.\<close>

definition no_host_groups :: "Inventory \<Rightarrow> bool" where
  "no_host_groups iv \<longleftrightarrow> (\<forall>g \<in> set (keys (Groups iv)). \<not> prefix ''host:'' g)"

lemma put_rules_sel [simp]:
  "hostOrder (body (bPolicy (put_rules b h rs))) = hostOrder (body (bPolicy b))"
  "cRules (bPolicy (put_rules b h rs)) = cRules (bPolicy b)"
  "gget (cOverrides (bPolicy (put_rules b h rs))) k =
     (if k = HostRulesKey h then Some \<lparr>Override_Rules = rs\<rparr> else gget (cOverrides (bPolicy b)) k)"
  by (simp_all add: put_rules_def)

lemma set_matchingKeys_put:
  assumes "no_host_groups iv" and "trim_space h' \<noteq> trim_space h"
  shows "set (matchingKeys (bPolicy (put_rules b h rs)) iv h') = set (matchingKeys (bPolicy b) iv h')"
proof -
  have neq: "HostRulesKey h' \<noteq> HostRulesKey h" using assms(2) by (simp add: HostRulesKey_inj)
  have grp: "g \<noteq> HostRulesKey h" if "(g, grp) \<in> set (Groups iv)" for g grp
    using assms(1) that by (force simp: no_host_groups_def HostRulesKey_def)
  show ?thesis
    unfolding set_matchingKeys ghas_def
    using neq grp by (auto split: option.split)
qed

lemma hostTier_put:
  assumes "no_host_groups iv" and "trim_space h' \<noteq> trim_space h"
  shows "hostTier (bPolicy (put_rules b h rs)) iv h' = hostTier (bPolicy b) iv h'"
proof -
  let ?c' = "bPolicy (put_rules b h rs)"
  have keys: "orderedHostOverrideKeys ?c' (matchingKeys ?c' iv h') =
      orderedHostOverrideKeys (bPolicy b) (matchingKeys (bPolicy b) iv h')"
    by (rule orderedKeys_perm) (simp_all add: set_matchingKeys_put [OF assms], simp_all add: matchingKeys_def)
  have "src \<noteq> HostRulesKey h" if "src \<in> set (matchingKeys (bPolicy b) iv h')" for src
    using that assms by (auto simp: set_matchingKeys HostRulesKey_inj no_host_groups_def HostRulesKey_def
        split: if_splits option.splits)
  then have "map (\<lambda>src. effRows ''host'' src 0 (case gget (cOverrides ?c') src of None \<Rightarrow> [] | Some o' \<Rightarrow> Override_Rules o'))
        (orderedHostOverrideKeys (bPolicy b) (matchingKeys (bPolicy b) iv h')) =
      map (\<lambda>src. effRows ''host'' src 0 (case gget (cOverrides (bPolicy b)) src of None \<Rightarrow> [] | Some o' \<Rightarrow> Override_Rules o'))
        (orderedHostOverrideKeys (bPolicy b) (matchingKeys (bPolicy b) iv h'))"
    by (intro map_cong refl) (auto simp: set_orderedHostOverrideKeys)
  then show ?thesis unfolding hostTier_def keys by (simp only:)
qed

section \<open>Properties\<close>

text \<open>
  A rule added to a host goes to the end of that host's rules and concerns no other host. The
  edit leaves the global rules, the groups, the inventory and the overlay alone; unless an
  inventory group carries a name of the form \<open>host:...\<close>, the effective rules of every other
  host stay exactly as they were.
\<close>
theorem add_host_rule_local:
  assumes "AddHostRule b h r = Inr b'"
  shows "host_rules b' h = Some (rules_or_none (host_rules b h) @ [r]) \<and> same_but_overrides b b' \<and>
    (\<forall>h'. trim_space h' \<noteq> trim_space h \<longrightarrow> host_rules b' h' = host_rules b h' \<and>
      (no_host_groups iv \<longrightarrow> EffectiveRules (bPolicy b') iv h' = EffectiveRules (bPolicy b) iv h'))"
proof -
  from assms have "trim_space h \<noteq> []" and b': "b' = put_rules b h (rules_or_none (host_rules b h) @ [r])"
    by (auto simp: AddHostRule_Inr)
  then show ?thesis
    by (auto simp: host_rules_put same_but_put EffectiveRules_tiers hostTier_put globalTier_def)
qed

definition witness_bundle :: "HostOverride gomap \<Rightarrow> Bundle" where
  "witness_bundle ovs = \<lparr>bPolicy = Config ((witness_body [] ovs)\<lparr>RuleGroups := [(''g'', \<lparr>RuleGroup_Rules = [witness_rule ''ls'' 1 ''allow'']\<rparr>)]\<rparr>) None,
     bInventory = witness_inv [(''web'', zeroHost), (''db'', zeroHost)] []\<rparr>"

lemma trim_web [simp]: "trim_space ''web'' = ''web''" "trim_space ''db'' = ''db''" "trim_space ''g'' = ''g''"
  by (simp_all add: trim_space_ascii ascii_def is_space_def)

lemma witness_bundle_sel [simp]:
  "ghas (Hosts (bInventory (witness_bundle ovs))) ''web''"
  "group_rules (witness_bundle ovs) ''g'' = Some [witness_rule ''ls'' 1 ''allow'']"
  by (simp_all add: witness_bundle_def ghas_def group_rules_def)

theorem add_host_rule_local_witness:
  "\<exists>b'. AddHostRule (witness_bundle []) ''web'' (witness_rule ''ls'' 1 ''deny'') = Inr b' \<and>
     EffectiveRules (bPolicy b') (witness_inv [] []) ''db'' = EffectiveRules (bPolicy (witness_bundle [])) (witness_inv [] []) ''db''"
proof -
  obtain b' where b': "AddHostRule (witness_bundle []) ''web'' (witness_rule ''ls'' 1 ''deny'') = Inr b'"
    by (simp add: AddHostRule_Inr)
  show ?thesis using add_host_rule_local [OF b', of "witness_inv [] []"] b'
    by (auto simp: no_host_groups_def)
qed

text \<open>
  Removing by index the rule that was just added to a host gives back the rules of every host,
  and the same holds of an authoring group.
\<close>
theorem remove_added_rule:
  "(AddHostRule b h r = Inr b1 \<longrightarrow> (\<exists>b2. RemoveHostRule b1 h (int (length (rules_or_none (host_rules b h)))) = Inr b2 \<and>
      (\<forall>h'. rules_or_none (host_rules b2 h') = rules_or_none (host_rules b h')))) \<and>
   (AddGroupRule b h r = Inr b1 \<longrightarrow> (\<exists>b2. RemoveGroupRule b1 h (int (length (rules_or_none (group_rules b h)))) = Inr b2 \<and>
      (\<forall>h'. rules_or_none (group_rules b2 h') = rules_or_none (group_rules b h'))))"
  using host.remove_added [of b h r b1] grp.remove_added [of b h r b1] by blast

theorem remove_added_rule_witness:
  "\<exists>b1 b2. AddHostRule (witness_bundle []) ''web'' (witness_rule ''ls'' 1 ''deny'') = Inr b1 \<and>
     RemoveHostRule b1 ''web'' 0 = Inr b2 \<and> rules_or_none (host_rules b2 ''web'') = []"
proof -
  obtain b1 where b1: "AddHostRule (witness_bundle []) ''web'' (witness_rule ''ls'' 1 ''deny'') = Inr b1"
    by (simp add: AddHostRule_Inr)
  have "host_rules (witness_bundle []) ''web'' = None"
    by (simp add: host_rules_def witness_bundle_def)
  then show ?thesis
    using b1 remove_added_rule [of "witness_bundle []" "''web''" "witness_rule ''ls'' 1 ''deny''" b1]
    by (auto simp del: trim_web)
qed

text \<open>
  Stamping a group onto a host replaces what an earlier stamp of that group left there and keeps
  every other rule, in order. Stamping twice changes nothing more, and removing the group from the
  host afterwards leaves exactly the rules that did not come from it; the group itself is not
  touched.
\<close>
theorem stamp_group:
  assumes "StampGroupOntoHost b h g = Inr b1" and "trim_space g \<noteq> []"
  shows "StampGroupOntoHost b1 h g = Inr b1 \<and>
    filter (\<lambda>r. Rule_Group r \<noteq> trim_space g) (rules_or_none (host_rules b1 h)) =
      filter (\<lambda>r. Rule_Group r \<noteq> trim_space g) (rules_or_none (host_rules b h)) \<and>
    filter (\<lambda>r. Rule_Group r = trim_space g) (rules_or_none (host_rules b1 h)) =
      map (\<lambda>r. r\<lparr>Rule_Group := trim_space g\<rparr>) (rules_or_none (group_rules b g)) \<and>
    (\<exists>b2. RemoveHostGroup b1 h g = Inr b2 \<and> host_rules b2 h =
      Some (filter (\<lambda>r. Rule_Group r \<noteq> trim_space g) (rules_or_none (host_rules b h)))) \<and>
    same_but_overrides b b1"
proof -
  from assms obtain rs where h: "trim_space h \<noteq> []" "\<not> isReservedGroupName (trim_space g)"
      "ghas (Hosts (bInventory b)) (trim_space h)" and rs: "group_rules b g = Some rs"
    and b1: "b1 = put_rules b h (filter (\<lambda>r. Rule_Group r \<noteq> trim_space g) (rules_or_none (host_rules b h)) @
        map (\<lambda>r. r\<lparr>Rule_Group := trim_space g\<rparr>) rs)"
    by (auto simp: StampGroupOntoHost_Inr)
  have inv: "bInventory b1 = bInventory b" by (simp add: b1 put_rules_def)
  have none: "filter (\<lambda>r. Rule_Group r \<noteq> trim_space g) (map (\<lambda>r. r\<lparr>Rule_Group := trim_space g\<rparr>) rs) = []"
    by (simp add: filter_empty_conv)
  have all: "filter (\<lambda>r. Rule_Group r = trim_space g) (map (\<lambda>r. r\<lparr>Rule_Group := trim_space g\<rparr>) rs) =
      map (\<lambda>r. r\<lparr>Rule_Group := trim_space g\<rparr>) rs"
    by (rule filter_True) auto
  have off: "filter (\<lambda>r. Rule_Group r \<noteq> trim_space g) (rules_or_none (host_rules b1 h)) =
      filter (\<lambda>r. Rule_Group r \<noteq> trim_space g) (rules_or_none (host_rules b h))"
    using h none by (simp add: b1 host_rules_put)
  have "StampGroupOntoHost b1 h g = Inr b1"
    using h rs inv off by (simp add: StampGroupOntoHost_Inr) (simp add: b1 put_rules_again)
  moreover have "\<exists>b2. RemoveHostGroup b1 h g = Inr b2 \<and> host_rules b2 h =
      Some (filter (\<lambda>r. Rule_Group r \<noteq> trim_space g) (rules_or_none (host_rules b h)))"
    using h assms(2) off by (simp add: RemoveHostGroup_Inr b1 host_rules_put)
  ultimately show ?thesis
    using off all h rs by (simp add: b1 host_rules_put same_but_put)
qed

theorem stamp_group_witness:
  "\<exists>b1. StampGroupOntoHost (witness_bundle [(''host:web'', \<lparr>Override_Rules = [witness_rule ''rm'' 0 ''deny'']\<rparr>)]) ''web'' ''g'' = Inr b1 \<and>
     StampGroupOntoHost b1 ''web'' ''g'' = Inr b1"
proof -
  obtain b1 where b1: "StampGroupOntoHost (witness_bundle [(''host:web'', \<lparr>Override_Rules = [witness_rule ''rm'' 0 ''deny'']\<rparr>)]) ''web'' ''g'' = Inr b1"
    by (simp add: StampGroupOntoHost_Inr isReservedGroupName_def has_prefix_def policy_consts)
  show ?thesis using stamp_group [OF b1] b1 by auto
qed

text \<open>
  The names of global rules stay unique. Adding, updating and removing a rule by name keep the
  named rules distinct, so that a rule added under a new name is the one its name finds, and removing
  it by that name gives the rules back.
\<close>
theorem rule_names_unique:
  assumes "unique_names (cRules cfg)"
  shows "(AddRule cfg rule = Inr c1 \<longrightarrow> unique_names (cRules c1) \<and>
      ruleIndex (cRules c1) (Rule_Name rule) = Inr (length (cRules cfg)) \<and>
      (\<exists>c2. RemoveRule c1 (Rule_Name rule) = Inr c2 \<and> cRules c2 = cRules cfg)) \<and>
    (UpdateRule cfg name rule = Inr c1 \<longrightarrow> unique_names (cRules c1) \<and> length (cRules c1) = length (cRules cfg)) \<and>
    (RemoveRule cfg name = Inr c1 \<longrightarrow> unique_names (cRules c1) \<and> length (cRules cfg) = Suc (length (cRules c1)))"
proof (intro conjI impI)
  assume "AddRule cfg rule = Inr c1"
  then have n: "Rule_Name rule \<noteq> []" "Rule_Name rule \<notin> set (map Rule_Name (cRules cfg))"
    and c1: "cRules c1 = cRules cfg @ [rule]" by (auto simp: AddRule_Inr)
  then show "unique_names (cRules c1)" using assms by (auto simp: unique_names_simps)
  show i: "ruleIndex (cRules c1) (Rule_Name rule) = Inr (length (cRules cfg))"
    using n ruleIndex_split [of "Rule_Name rule" "cRules cfg" rule "[]"] by (simp add: c1)
  show "\<exists>c2. RemoveRule c1 (Rule_Name rule) = Inr c2 \<and> cRules c2 = cRules cfg"
    using i by (simp add: RemoveRule_def c1)
next
  assume "UpdateRule cfg name rule = Inr c1"
  from UpdateRule_Inr [OF this] assms
  show "unique_names (cRules c1)" "length (cRules c1) = length (cRules cfg)"
    by (auto simp: unique_names_simps)
next
  assume "RemoveRule cfg name = Inr c1"
  from RemoveRule_Inr [OF this] assms
  show "unique_names (cRules c1)" "length (cRules cfg) = Suc (length (cRules c1))"
    by (auto simp: unique_names_simps)
qed

theorem rule_names_unique_witness:
  "\<exists>c1. AddRule (Config (witness_body [] []) None) ((witness_rule ''ls'' 0 ''allow'')\<lparr>Rule_Name := ''n''\<rparr>) = Inr c1 \<and>
     unique_names (cRules c1)"
proof -
  let ?r = "(witness_rule ''ls'' 0 ''allow'')\<lparr>Rule_Name := ''n''\<rparr>"
  obtain c1 where c1: "AddRule (Config (witness_body [] []) None) ?r = Inr c1"
    by (simp add: AddRule_Inr)
  show ?thesis using rule_names_unique [of "Config (witness_body [] []) None" ?r c1] c1 by auto
qed

end
