(* ===== verification/Commandline.thy ===== *)
theory Commandline
  imports Utf8
begin

text \<open>
  \<open>internal/commandline/command.go\<close>: quoting and rendering of literal arguments, the optional
  working directory, and the recogniser of the small shell subset that task permissions accept.
  \<open>path.Clean\<close> and \<open>path.IsAbs\<close> are modelled on the path's elements. The properties: what
  is rendered is parsed back to the same arguments and the cleaned directory, and every accepted
  command has such a rendering.
\<close>

section \<open>Splitting and paths\<close>

text \<open>\<open>strings.Split\<close> at one byte, on any list.\<close>

fun split_on :: "'a \<Rightarrow> 'a list \<Rightarrow> 'a list list" where
  "split_on c [] = [[]]"
| "split_on c (x # xs) =
     (if x = c then [] # split_on c xs
      else (x # hd (split_on c xs)) # tl (split_on c xs))"

definition path_IsAbs :: "string \<Rightarrow> bool" where
  "path_IsAbs p \<longleftrightarrow> has_prefix p ''/''"

fun clean_elem :: "bool \<Rightarrow> string list \<Rightarrow> string \<Rightarrow> string list" where
  "clean_elem rooted out e =
     (if e = [] \<or> e = ''.'' then out
      else if e = ''..'' then
        (if out \<noteq> [] \<and> last out \<noteq> ''..'' then butlast out
         else if rooted then out else out @ [''..''])
      else out @ [e])"

definition path_Clean :: "string \<Rightarrow> string" where
  "path_Clean p =
     (if p = [] then ''.''
      else let out = foldl (clean_elem (path_IsAbs p)) [] (split_on CHR ''/'' p)
        in if path_IsAbs p then CHR ''/'' # str_join out ''/''
           else if out = [] then ''.'' else str_join out ''/'')"

section \<open>Rendering\<close>

definition safe_rune :: "nat \<Rightarrow> bool" where
  "safe_rune r \<longleftrightarrow> 97 \<le> r \<and> r \<le> 122 \<or> 65 \<le> r \<and> r \<le> 90 \<or> 48 \<le> r \<and> r \<le> 57 \<or>
     r \<in> set (map byte ''_@%+=:,./-'')"

text \<open>The three bytes \<open>'\<close>, \<open>"\<close> and the replacement \<open>'"'"'\<close> of a single quote.\<close>

abbreviation squote :: char where "squote \<equiv> CHR 0x27"
abbreviation dquote :: char where "dquote \<equiv> CHR 0x22"

definition quote_always :: "string \<Rightarrow> string" where
  "quote_always word = [squote] @ replace_all word [squote] [squote, dquote, squote, dquote, squote] @ [squote]"

definition Quote :: "string \<Rightarrow> string" where
  "Quote word = (if word \<noteq> [] \<and> list_all safe_rune (runes word) then word else quote_always word)"

definition reservedWords :: "string list" where
  "reservedWords = [''case'', ''do'', ''done'', ''elif'', ''else'', ''esac'', ''fi'', ''for'', ''if'', ''in'',
     ''then'', ''until'', ''while'', ''function'', ''select'', ''time'', ''coproc'']"

section \<open>Parsing\<close>

record ParseState =
  ps_words :: "string list"
  ps_word :: string
  ps_quote :: nat
  ps_started :: bool
  ps_cwd :: string

definition ps_init :: ParseState where
  "ps_init = \<lparr>ps_words = [], ps_word = [], ps_quote = 0, ps_started = False, ps_cwd = []\<rparr>"

lemma ps_init_sel [simp]: "ps_words ps_init = []" "ps_word ps_init = []" "ps_quote ps_init = 0"
  "\<not> ps_started ps_init" "ps_cwd ps_init = []"
  by (simp_all add: ps_init_def)

definition ps_flush :: "ParseState \<Rightarrow> ParseState" where
  "ps_flush st = (if ps_started st
     then st\<lparr>ps_words := ps_words st @ [ps_word st], ps_word := [], ps_started := False\<rparr> else st)"

definition write_rune :: "nat \<Rightarrow> ParseState \<Rightarrow> ParseState" where
  "write_rune r st = st\<lparr>ps_word := ps_word st @ unbytes (encode_rune r)\<rparr>"

definition control_rune :: "nat \<Rightarrow> bool" where
  "control_rune r \<longleftrightarrow> r < 32 \<and> r \<noteq> 9 \<or> r = 127"

text \<open>The runes \<open>; | < > ( ) { } ` $ \ * ? [ ] ~ ! #\<close>.\<close>

definition rejected_rune :: "nat \<Rightarrow> bool" where
  "rejected_rune r \<longleftrightarrow> r \<in> {59, 124, 60, 62, 40, 41, 123, 125, 96, 36, 92, 42, 63, 91, 93, 126, 33, 35}"

fun parseLoop :: "nat list \<Rightarrow> ParseState \<Rightarrow> ParseState res" where
  "parseLoop [] st = Inr st"
| "parseLoop (r # rs) st =
     (if control_rune r then Inl (Errorf ''control character'' [])
      else if ps_quote st = 39 then
        (if r = 39 then parseLoop rs (st\<lparr>ps_quote := 0\<rparr>) else parseLoop rs (write_rune r st))
      else if ps_quote st = 34 then
        (if r = 34 then parseLoop rs (st\<lparr>ps_quote := 0\<rparr>)
         else if r = 36 \<or> r = 96 \<or> r = 92 then Inl (Errorf ''shell expansion or escape'' [])
         else parseLoop rs (write_rune r st))
      else if r = 32 \<or> r = 9 then parseLoop rs (ps_flush st)
      else if r = 39 \<or> r = 34 then parseLoop rs (st\<lparr>ps_quote := r, ps_started := True\<rparr>)
      else if r = 38 then
        (case rs of
           r' # rs' \<Rightarrow>
             (let st' = ps_flush st; ws = ps_words st' in
              if r' \<noteq> 38 \<or> length ws \<noteq> 2 \<or> hd ws \<noteq> ''cd'' \<or> ps_cwd st' \<noteq> [] \<or> \<not> path_IsAbs (ws ! 1)
              then Inl (Errorf ''unsupported shell operator'' [])
              else parseLoop rs' (st'\<lparr>ps_cwd := path_Clean (ws ! 1), ps_words := []\<rparr>))
         | [] \<Rightarrow> Inl (Errorf ''unsupported shell operator'' []))
      else if rejected_rune r then Inl (Errorf ''unsupported shell syntax'' [])
      else parseLoop rs ((write_rune r st)\<lparr>ps_started := True\<rparr>))"

definition Parse :: "string \<Rightarrow> (string list \<times> string) res" where
  "Parse command =
     (if \<not> valid_string command then Inl (Errorf ''invalid UTF-8'' [])
      else rbind (parseLoop (runes command) ps_init) (\<lambda>st.
        if ps_quote st \<noteq> 0 then Inl (Errorf ''unclosed quote'' [])
        else let st = ps_flush st in
          if ps_words st = [] \<or> hd (ps_words st) = [] then Inl (Errorf ''empty command'' [])
          else Inr (ps_words st, ps_cwd st)))"

definition Shell :: "string \<Rightarrow> string \<Rightarrow> string res" where
  "Shell command cwd =
     (if trim_space command = [] \<or> \<not> valid_string command \<or> CHR 0x00 \<in> set command
      then Inl (Errorf ''command must be non-empty UTF-8 without NUL'' [])
      else if cwd = [] then Inr command
      else if \<not> path_IsAbs cwd \<or> \<not> valid_string cwd \<or> list_ex (\<lambda>c. c \<in> {CHR 0x00, CHR 0x0D, CHR 0x0A}) cwd
      then Inl (Errorf ''cwd must be an absolute remote path without NUL or newlines'' [])
      else let pre = ''cd '' @ Quote (path_Clean cwd) @ '' && '' in
        case Parse command of
          Inr (_, nestedCWD) \<Rightarrow>
            if nestedCWD = [] then Inr (pre @ command) else Inr (pre @ ''( '' @ command @ [newline] @ '')'')
        | Inl _ \<Rightarrow> Inr (pre @ ''( '' @ command @ [newline] @ '')''))"

fun render_words :: "nat \<Rightarrow> string list \<Rightarrow> string list res" where
  "render_words i [] = Inr []"
| "render_words i (word # argv) =
     (if \<not> valid_string word \<or> CHR 0x00 \<in> set word then Inl (Errorf ''argv must be valid UTF-8 without NUL'' [])
      else rbind (render_words (Suc i) argv) (\<lambda>ws.
        Inr ((if i = 0 \<and> (CHR ''='' \<in> set word \<or> word \<in> set reservedWords) then quote_always word
              else Quote word) # ws)))"

definition Render :: "string list \<Rightarrow> string \<Rightarrow> string res" where
  "Render argv cwd =
     (if argv = [] \<or> hd argv = [] then Inl (Errorf ''argv requires a non-empty executable'' [])
      else rbind (render_words 0 argv) (\<lambda>words. Shell (str_join words '' '') cwd))"

section \<open>Lemmas: paths\<close>

lemma split_on_ne [simp]: "split_on c xs \<noteq> []"
  by (cases xs) auto

lemma split_on_append: "c \<notin> set xs \<Longrightarrow> split_on c (xs @ ys) = (xs @ hd (split_on c ys)) # tl (split_on c ys)"
  by (induction xs) auto

lemma split_on_no: "c \<notin> set xs \<Longrightarrow> split_on c xs = [xs]"
  using split_on_append [of c xs "[]"] by simp

lemma split_on_sep: "c \<notin> set xs \<Longrightarrow> split_on c (xs @ c # ys) = xs # split_on c ys"
  by (simp add: split_on_append)

lemma split_on_parts: "e \<in> set (split_on c xs) \<Longrightarrow> c \<notin> set e \<and> set e \<subseteq> set xs"
proof (induction xs arbitrary: e)
  case (Cons x xs)
  have tl: "set (tl (split_on c xs)) \<subseteq> set (split_on c xs)"
    by (auto dest: list.set_sel(2) [rotated])
  have "c \<notin> set (hd (split_on c xs)) \<and> set (hd (split_on c xs)) \<subseteq> set xs"
    by (rule Cons.IH) simp
  moreover have "c \<notin> set e \<and> set e \<subseteq> set xs" if "e \<in> set (tl (split_on c xs))"
    using that tl by (intro Cons.IH) auto
  moreover have "c \<notin> set e \<and> set e \<subseteq> set xs" if "e \<in> set (split_on c xs)"
    using that by (rule Cons.IH)
  ultimately show ?case using Cons.prems by (cases "x = c") auto
qed simp

lemma split_on_join: "ws \<noteq> [] \<Longrightarrow> \<forall>w \<in> set ws. CHR ''/'' \<notin> set w \<Longrightarrow> split_on CHR ''/'' (str_join ws ''/'') = ws"
proof (induction ws)
  case (Cons w ws)
  then show ?case by (cases "ws = []") (simp_all add: str_join_Cons split_on_no split_on_sep)
qed simp

definition clean_out :: "string list \<Rightarrow> bool" where
  "clean_out out \<longleftrightarrow> (\<forall>e \<in> set out. e \<noteq> [] \<and> e \<noteq> ''.'' \<and> e \<noteq> ''..'' \<and> CHR ''/'' \<notin> set e)"

lemma clean_elem_keeps: "clean_out out \<Longrightarrow> CHR ''/'' \<notin> set e \<Longrightarrow> clean_out (clean_elem True out e)"
  by (auto simp: clean_out_def dest: in_set_butlastD)

lemma foldl_clean: "clean_out out \<Longrightarrow> \<forall>e \<in> set es. CHR ''/'' \<notin> set e \<Longrightarrow> clean_out (foldl (clean_elem True) out es)"
  by (induction es arbitrary: out) (simp_all del: clean_elem.simps add: clean_elem_keeps)

lemma foldl_clean_id: "clean_out es \<Longrightarrow> foldl (clean_elem True) out es = out @ es"
  by (induction es arbitrary: out) (auto simp: clean_out_def)

lemma path_Clean_abs: "path_IsAbs p \<Longrightarrow> \<exists>out. clean_out out \<and> path_Clean p = CHR ''/'' # str_join out ''/''
    \<and> out = foldl (clean_elem True) [] (split_on CHR ''/'' p)"
  using foldl_clean [of "[]" "split_on CHR ''/'' p"] split_on_parts [of _ "CHR ''/''" p]
  by (auto simp: path_Clean_def path_IsAbs_def has_prefix_def clean_out_def)

lemma path_Clean_idem: "path_IsAbs p \<Longrightarrow> path_IsAbs (path_Clean p) \<and> path_Clean (path_Clean p) = path_Clean p"
proof -
  assume "path_IsAbs p"
  then obtain out where out: "clean_out out" and p: "path_Clean p = CHR ''/'' # str_join out ''/''"
    using path_Clean_abs by blast
  have abs: "path_IsAbs (path_Clean p)" by (simp add: p path_IsAbs_def has_prefix_def)
  have "split_on CHR ''/'' (path_Clean p) = [] # (if out = [] then [[]] else out)"
    using out split_on_join [of out] by (auto simp: p clean_out_def)
  then have "foldl (clean_elem True) [] (split_on CHR ''/'' (path_Clean p)) = out"
    using foldl_clean_id [OF out, of "[]"] by (simp del: clean_elem.simps) (simp add: out)
  moreover have "path_Clean (path_Clean p) = CHR ''/'' # str_join (foldl (clean_elem True) [] (split_on CHR ''/'' (path_Clean p))) ''/''"
    using path_Clean_abs [OF abs] by blast
  ultimately show ?thesis using abs p by simp
qed

section \<open>Lemmas: quoting\<close>

lemma replace_all_char: "replace_all s [c] new = concat (map (\<lambda>x. if x = c then new else [x]) s)"
  by (induction s) auto

lemma encode_rune_high: "128 \<le> r \<Longrightarrow> b \<in> set (encode_rune r) \<Longrightarrow> 128 \<le> b"
  by (auto simp: encode_rune_def Let_def RuneError_def split: if_splits)

text \<open>An ASCII character occurs in the encoding of a rune only when it is the rune.\<close>

lemma ascii_in_encode:
  assumes "byte c < 128"
  shows "c \<in> set (unbytes (encode_rune r)) \<longleftrightarrow> r = byte c"
proof (cases "r < 128")
  case True
  then show ?thesis by (auto simp: encode_ascii unbytes_def of_char_of)
next
  case False
  have "byte c \<noteq> b" if "b \<in> set (encode_rune r)" for b
    using encode_rune_high [of r b] False that assms by auto
  moreover have "of_char (char_of b :: char) = b" if "b \<in> set (encode_rune r)" for b
    using encode_rune_less [OF that] by (simp add: of_char_of)
  ultimately have "c \<notin> set (unbytes (encode_rune r))"
    unfolding unbytes_def by (metis (no_types, lifting) imageE list.set_map)
  then show ?thesis using False assms by auto
qed

lemma encode_ascii_char: "byte c < 128 \<Longrightarrow> unbytes (encode_rune (byte c)) = [c]"
  by (simp add: encode_ascii unbytes_def)

lemma ascii_in_encodes: "byte c < 128 \<Longrightarrow> c \<in> set (encode_runes rs) \<longleftrightarrow> byte c \<in> set rs"
  by (induction rs) (auto simp: encode_runes_Cons ascii_in_encode)

text \<open>Replacing an ASCII character in a string replaces the rune.\<close>

lemma replace_all_encodes: "byte c < 128 \<Longrightarrow>
   replace_all (encode_runes rs) [c] (encode_runes new) =
     encode_runes (concat (map (\<lambda>r. if r = byte c then new else [r]) rs))"
proof (induction rs)
  case (Cons r rs)
  have "concat (map (\<lambda>x. if x = c then encode_runes new else [x]) (unbytes (encode_rune r))) =
      encode_runes (if r = byte c then new else [r])"
  proof (cases "r = byte c")
    case True
    then show ?thesis using encode_ascii_char [OF Cons.prems] by simp
  next
    case False
    then have "c \<notin> set (unbytes (encode_rune r))" using ascii_in_encode [OF Cons.prems] by simp
    then have "map (\<lambda>x. if x = c then encode_runes new else [x]) (unbytes (encode_rune r)) =
        map (\<lambda>x. [x]) (unbytes (encode_rune r))" by (intro map_cong) auto
    then show ?thesis using False by (simp only: concat_map_singleton map_ident) (simp add: encode_runes_Cons)
  qed
  with Cons show ?case by (simp add: replace_all_char encode_runes_Cons encode_runes_append)
qed simp

abbreviation requote :: "nat list \<Rightarrow> nat list" where
  "requote rs \<equiv> concat (map (\<lambda>r. if r = 39 then [39, 34, 39, 34, 39] else [r]) rs)"

lemma encode_quotes: "encode_runes [39, 34, 39, 34, 39] = [squote, dquote, squote, dquote, squote]"
  "encode_runes [39] = [squote]"
  using encode_ascii_char [of squote] encode_ascii_char [of dquote]
  by (simp_all add: encode_runes_Cons)

lemma quote_always_encodes: "quote_always (encode_runes rs) = encode_runes ([39] @ requote rs @ [39])"
proof -
  have q: "byte squote = 39" by simp
  have "replace_all (encode_runes rs) [squote] (encode_runes [39, 34, 39, 34, 39]) = encode_runes (requote rs)"
    by (subst replace_all_encodes, simp) (simp only: q)
  then show ?thesis
    by (simp only: quote_always_def encode_quotes encode_runes_append)
qed

definition printable :: "string \<Rightarrow> bool" where
  "printable s \<longleftrightarrow> list_all (\<lambda>r. \<not> control_rune r) (runes s)"

lemma write_rune_sel [simp]:
  "ps_words (write_rune r st) = ps_words st" "ps_quote (write_rune r st) = ps_quote st"
  "ps_started (write_rune r st) = ps_started st" "ps_cwd (write_rune r st) = ps_cwd st"
  "ps_word (write_rune r st) = ps_word st @ unbytes (encode_rune r)"
  by (simp_all add: write_rune_def)

text \<open>Appending to the word being read.\<close>

definition add_word :: "string \<Rightarrow> ParseState \<Rightarrow> ParseState" where
  "add_word w st = st\<lparr>ps_word := ps_word st @ w, ps_started := True\<rparr>"

lemma add_word_twice [simp]: "add_word v (add_word w st) = add_word (w @ v) st"
  by (simp add: add_word_def)

lemma add_word_sel [simp]:
  "ps_words (add_word w st) = ps_words st" "ps_quote (add_word w st) = ps_quote st"
  "ps_started (add_word w st)" "ps_cwd (add_word w st) = ps_cwd st" "ps_word (add_word w st) = ps_word st @ w"
  by (simp_all add: add_word_def)

lemma write_rune_add: "ps_started st \<Longrightarrow> write_rune r st = add_word (unbytes (encode_rune r)) st"
  by (simp add: write_rune_def add_word_def)

lemma encode_squote: "unbytes (encode_rune 39) = [squote]"
  using encode_quotes(2) by (simp add: encode_runes_def)

text \<open>The body of a quoted word.\<close>

lemma parse_requote: "ps_quote st = 39 \<Longrightarrow> ps_started st \<Longrightarrow> \<forall>r \<in> set rs. \<not> control_rune r \<Longrightarrow>
   parseLoop (requote rs @ rest) st = parseLoop rest (add_word (encode_runes rs) st)"
proof (induction rs arbitrary: st)
  case Nil
  then show ?case by (cases st) (simp add: add_word_def)
next
  case (Cons r rs)
  let ?st' = "add_word (unbytes (encode_rune r)) st"
  have ih: "parseLoop (requote rs @ rest) ?st' = parseLoop rest (add_word (encode_runes rs) ?st')"
    using Cons by simp
  have step: "parseLoop ((if r = 39 then [39, 34, 39, 34, 39] else [r]) @ requote rs @ rest) st =
      parseLoop (requote rs @ rest) ?st'"
  proof (cases "r = 39")
    case True
    have "parseLoop t (write_rune 39 (st\<lparr>ps_quote := 34, ps_started := True\<rparr>)\<lparr>ps_quote := 39, ps_started := True\<rparr>) =
        parseLoop t ?st'" for t
      using Cons.prems True by (cases st) (simp add: write_rune_def add_word_def)
    then show ?thesis using True Cons.prems
      by (simp add: control_rune_def)
  next
    case False
    then show ?thesis using Cons.prems by (simp add: write_rune_add)
  qed
  show ?case using ih step by (simp add: encode_runes_Cons)
qed

lemma valid_encodes_of: "valid_string w \<Longrightarrow> \<exists>rs. w = encode_runes rs \<and> rs = runes w \<and> (\<forall>r \<in> set rs. scalar r)"
  using valid_string_encode valid_string_scalar by auto

lemma scalar_requote: "\<forall>r \<in> set rs. scalar r \<Longrightarrow> \<forall>r \<in> set ([39] @ requote rs @ [39]). scalar r"
  by (auto simp: scalar_def)

lemma valid_quote_always: "valid_string w \<Longrightarrow> valid_string (quote_always w) \<and>
   runes (quote_always w) = [39] @ requote (runes w) @ [39]"
proof -
  assume "valid_string w"
  then obtain rs where rs: "w = encode_runes rs" "rs = runes w" "\<forall>r \<in> set rs. scalar r"
    using valid_encodes_of by blast
  show ?thesis
    unfolding rs(2) [symmetric] unfolding rs(1) quote_always_encodes
    by (rule conjI [OF valid_encode_runes [OF scalar_requote [OF rs(3)]] runes_encode [OF scalar_requote [OF rs(3)]]])
qed

lemma parse_quote_always:
  assumes "valid_string w" and "printable w" and "ps_quote st = 0"
  shows "parseLoop (runes (quote_always w) @ rest) st = parseLoop rest (add_word w st)"
proof -
  let ?st = "st\<lparr>ps_quote := 39, ps_started := True\<rparr>"
  have "parseLoop (requote (runes w) @ [39] @ rest) ?st = parseLoop ([39] @ rest) (add_word (encode_runes (runes w)) ?st)"
    using assms(2) by (intro parse_requote) (auto simp: printable_def list_all_iff)
  also have "\<dots> = parseLoop rest (add_word w st)"
    using assms(3) valid_string_encode [OF assms(1)]
    by (cases st) (simp add: add_word_def control_rune_def)
  finally show ?thesis
    using assms(3) valid_quote_always [OF assms(1)] by (simp add: control_rune_def)
qed

lemma safe_rune_plain: "safe_rune r \<Longrightarrow> \<not> control_rune r \<and> r \<notin> {32, 9, 39, 34, 38} \<and> \<not> rejected_rune r"
  by (auto simp: safe_rune_def control_rune_def rejected_rune_def)

lemma parse_safe: "\<forall>r \<in> set rs. safe_rune r \<Longrightarrow> ps_quote st = 0 \<Longrightarrow> rs \<noteq> [] \<Longrightarrow>
   parseLoop (rs @ rest) st = parseLoop rest (add_word (encode_runes rs) st)"
proof (induction rs arbitrary: st)
  case (Cons r rs)
  have eq: "parseLoop t ((write_rune r st)\<lparr>ps_started := True\<rparr>) = parseLoop t (add_word (unbytes (encode_rune r)) st)" for t
    by (simp add: write_rune_def add_word_def)
  have "parseLoop ((r # rs) @ rest) st = parseLoop (rs @ rest) (add_word (unbytes (encode_rune r)) st)"
    using Cons.prems safe_rune_plain [of r] eq by simp
  then show ?case
    using Cons by (cases "rs = []") (simp_all add: encode_runes_Cons)
qed simp

lemma valid_Quote: "valid_string w \<Longrightarrow> valid_string (Quote w)"
  using valid_quote_always by (simp add: Quote_def)

lemma parse_Quote:
  assumes "valid_string w" and "printable w" and "ps_quote st = 0"
  shows "parseLoop (runes (Quote w) @ rest) st = parseLoop rest (add_word w st)"
proof (cases "w \<noteq> [] \<and> list_all safe_rune (runes w)")
  case True
  then have "runes w \<noteq> []" using valid_string_encode [OF assms(1)] by auto
  then show ?thesis
    using True assms(3) parse_safe [of "runes w" st rest] valid_string_encode [OF assms(1)]
    by (simp add: Quote_def list_all_iff)
next
  case False
  then have "Quote w = quote_always w" by (auto simp: Quote_def)
  then show ?thesis using parse_quote_always [OF assms] by simp
qed

text \<open>A word as it is rendered, in any position.\<close>

definition quoted :: "string \<Rightarrow> string \<Rightarrow> bool" where
  "quoted q w \<longleftrightarrow> valid_string w \<and> printable w \<and> (q = Quote w \<or> q = quote_always w)"

lemma quoted_valid: "quoted q w \<Longrightarrow> valid_string q"
  using valid_Quote valid_quote_always by (auto simp: quoted_def)

lemma parse_quoted: "quoted q w \<Longrightarrow> ps_quote st = 0 \<Longrightarrow>
   parseLoop (runes q @ rest) st = parseLoop rest (add_word w st)"
  using parse_Quote parse_quote_always by (auto simp: quoted_def)

lemmas ascii_Cons = runes_Cons_ascii valid_Cons_ascii

lemma valid_join: "list_all2 quoted qs ws \<Longrightarrow> valid_string (str_join qs '' '')"
  by (induction rule: list_all2_induct)
    (auto simp: str_join_Cons quoted_valid ascii_Cons intro!: valid_string_append)

definition fresh :: "ParseState \<Rightarrow> bool" where
  "fresh st \<longleftrightarrow> ps_word st = [] \<and> \<not> ps_started st \<and> ps_quote st = 0"

lemma flush_add_word: "fresh st \<Longrightarrow> ps_flush (add_word w st) = st\<lparr>ps_words := ps_words st @ [w]\<rparr>"
  by (cases st) (simp add: fresh_def ps_flush_def add_word_def)

lemma parse_words:
  assumes "list_all2 quoted qs ws" and "ws \<noteq> []" and "fresh st"
  shows "\<exists>st'. parseLoop (runes (str_join qs '' '')) st = Inr st' \<and> ps_quote st' = 0 \<and>
    ps_flush st' = st\<lparr>ps_words := ps_words st @ ws\<rparr>"
  using assms
proof (induction qs ws arbitrary: st rule: list_all2_induct)
  case (Cons q qs w ws)
  show ?case
  proof (cases "ws = []")
    case True
    then have "qs = []" using Cons.hyps by auto
    then show ?thesis
      using parse_quoted [OF Cons.hyps(1), of st "[]"] Cons.prems(2) flush_add_word [of st w] True
      by (auto simp: fresh_def)
  next
    case False
    then have "qs \<noteq> []" using Cons.hyps by auto
    then have "runes (str_join (q # qs) '' '') = runes q @ 32 # runes (str_join qs '' '')"
      using quoted_valid [OF Cons.hyps(1)] valid_join [OF Cons.hyps(2)]
      by (simp add: str_join_Cons runes_append valid_string_append ascii_Cons)
    then have "parseLoop (runes (str_join (q # qs) '' '')) st =
        parseLoop (runes (str_join qs '' '')) (st\<lparr>ps_words := ps_words st @ [w]\<rparr>)"
      using parse_quoted [OF Cons.hyps(1), of st] Cons.prems(2) flush_add_word [of st w]
      by (simp add: fresh_def control_rune_def)
    then show ?thesis
      using Cons.IH [of "st\<lparr>ps_words := ps_words st @ [w]\<rparr>"] False Cons.prems(2)
      by (auto simp: fresh_def)
  qed
qed simp

lemma parse_cd:
  assumes "valid_string c" and "printable c" and "path_IsAbs c"
  shows "parseLoop (runes (''cd '' @ Quote c @ '' && '') @ rest) ps_init =
    parseLoop rest (ps_init\<lparr>ps_cwd := path_Clean c\<rparr>)"
proof -
  have "runes (''cd '' @ Quote c @ '' && '') = [99, 100] @ 32 # runes (Quote c) @ [32, 38, 38, 32]"
    using valid_Quote [OF assms(1)] by (simp add: runes_append valid_string_append ascii_Cons)
  moreover have "parseLoop ([99, 100] @ t) ps_init = parseLoop t (add_word ''cd'' ps_init)" for t
    using parse_safe [of "[99, 100]" ps_init t] encode_ascii_char [of "CHR ''c''"] encode_ascii_char [of "CHR ''d''"]
    by (simp del: parseLoop.simps add: safe_rune_def encode_runes_Cons)
  moreover have "fresh ps_init" by (simp add: fresh_def)
  moreover have "ps_flush (ps_init\<lparr>ps_words := [''cd'', c]\<rparr>) = ps_init\<lparr>ps_words := [''cd'', c]\<rparr>"
    by (simp add: ps_flush_def)
  moreover have "parseLoop rest (ps_flush (ps_init\<lparr>ps_cwd := p, ps_words := []\<rparr>)) = parseLoop rest (ps_init\<lparr>ps_cwd := p\<rparr>)" for p
    by (simp add: ps_init_def ps_flush_def)
  ultimately show ?thesis
    using parse_Quote [OF assms(1,2)] assms(3)
    by (simp add: control_rune_def flush_add_word fresh_def)
qed

section \<open>Lemmas: pieces of valid strings\<close>

text \<open>A valid string without control characters, by its runes.\<close>

definition plain :: "string \<Rightarrow> bool" where
  "plain s \<longleftrightarrow> valid_string s \<and> printable s"

lemma plain_iff: "plain s \<longleftrightarrow> (\<exists>rs. s = encode_runes rs \<and> (\<forall>r \<in> set rs. scalar r \<and> \<not> control_rune r))"
proof
  assume "plain s"
  then show "\<exists>rs. s = encode_runes rs \<and> (\<forall>r \<in> set rs. scalar r \<and> \<not> control_rune r)"
    using valid_string_encode [of s] valid_string_scalar [of s]
    by (intro exI [of _ "runes s"]) (auto simp: plain_def printable_def list_all_iff)
next
  assume "\<exists>rs. s = encode_runes rs \<and> (\<forall>r \<in> set rs. scalar r \<and> \<not> control_rune r)"
  then show "plain s"
    using valid_encode_runes runes_encode by (fastforce simp: plain_def printable_def list_all_iff)
qed

lemma plain_append: "plain a \<Longrightarrow> plain b \<Longrightarrow> plain (a @ b)"
  unfolding plain_iff by (metis (no_types, lifting) UnE encode_runes_append set_append)

lemma printable_Nil [simp]: "printable []"
  by (simp add: printable_def)

lemma plain_Nil [simp]: "plain []"
  by (simp add: plain_def)

lemma plain_rune: "scalar r \<Longrightarrow> \<not> control_rune r \<Longrightarrow> plain (unbytes (encode_rune r))"
  unfolding plain_iff by (intro exI [of _ "[r]"]) (simp add: encode_runes_Cons)

lemma plain_char: "byte c < 128 \<Longrightarrow> \<not> control_rune (byte c) \<Longrightarrow> plain [c]"
  using plain_rune [of "byte c"] encode_ascii_char [of c] by (simp add: scalar_def)

lemma plain_no_control: "plain s \<Longrightarrow> byte c < 128 \<Longrightarrow> control_rune (byte c) \<Longrightarrow> c \<notin> set s"
  unfolding plain_iff using ascii_in_encodes by auto

lemma split_on_encodes: "byte c < 128 \<Longrightarrow> split_on c (encode_runes rs) = map encode_runes (split_on (byte c) rs)"
proof (induction rs)
  case (Cons r rs)
  show ?case
  proof (cases "r = byte c")
    case True
    then show ?thesis using Cons encode_ascii_char [of c] by (simp add: encode_runes_Cons)
  next
    case False
    then have "c \<notin> set (unbytes (encode_rune r))" using ascii_in_encode [OF Cons.prems] by simp
    then show ?thesis using Cons False
      by (simp add: encode_runes_Cons split_on_append hd_map map_tl)
  qed
qed simp

lemma plain_split: "plain s \<Longrightarrow> byte c < 128 \<Longrightarrow> e \<in> set (split_on c s) \<Longrightarrow> plain e"
proof -
  assume "plain s" and c: "byte c < 128" and e: "e \<in> set (split_on c s)"
  then obtain rs where rs: "s = encode_runes rs" "\<forall>r \<in> set rs. scalar r \<and> \<not> control_rune r"
    by (auto simp: plain_iff)
  with e c obtain es where "e = encode_runes es" "es \<in> set (split_on (byte c) rs)"
    by (auto simp: split_on_encodes)
  then show ?thesis
    using rs(2) split_on_parts [of es "byte c" rs] by (auto simp: plain_iff)
qed

lemma foldl_clean_subset: "set (foldl (clean_elem True) out es) \<subseteq> set out \<union> set es"
proof (induction es arbitrary: out)
  case (Cons e es)
  have "set (clean_elem True out e) \<subseteq> set out \<union> {e}" by (auto dest: in_set_butlastD)
  then show ?case using Cons [of "clean_elem True out e"] by (simp del: clean_elem.simps) blast
qed simp

lemma plain_join: "\<forall>w \<in> set ws. plain w \<Longrightarrow> plain (str_join ws ''/'')"
  by (induction ws)
    (auto simp: str_join_Cons control_rune_def intro!: plain_append plain_append [of "[_]", simplified] plain_char)

lemma plain_Clean: "plain p \<Longrightarrow> path_IsAbs p \<Longrightarrow> plain (path_Clean p)"
proof -
  assume p: "plain p" and "path_IsAbs p"
  then obtain out where out: "path_Clean p = CHR ''/'' # str_join out ''/''"
      "out = foldl (clean_elem True) [] (split_on CHR ''/'' p)"
    using path_Clean_abs by blast
  have "plain e" if "e \<in> set out" for e
    using that foldl_clean_subset [of "[]" "split_on CHR ''/'' p"] plain_split [OF p, of "CHR ''/''" e]
    by (auto simp: out(2))
  then have "plain (str_join out ''/'')" using plain_join by blast
  moreover have "plain [CHR ''/'']" by (rule plain_char) (simp_all add: control_rune_def)
  ultimately show ?thesis
    unfolding out(1) using plain_append [of "[CHR ''/'']" "str_join out ''/''"] by (simp only: append.simps)
qed

lemma trim_space_nonspace:
  assumes "byte c < 128" and "\<not> is_space (byte c)"
  shows "trim_space (c # s) \<noteq> []"
proof -
  let ?x = "(byte c, [byte c])"
  have segs: "rune_segs (bytes (c # s)) = ?x # rune_segs (bytes s)"
    using assms(1) rune_segs_step [of "bytes (c # s)" "byte c" True 1] by (simp add: bytes_def)
  have keep: "x \<in> set (dropWhile p ys)" if "x \<in> set ys" "\<not> p x" for x p and ys :: "(nat \<times> nat list) list"
    using that by (induction ys) auto
  have "?x \<in> set (trim_ends (is_space \<circ> fst) (?x # rune_segs (bytes s)))"
    unfolding trim_ends_def using assms(2) keep by simp
  then show ?thesis
    by (auto simp: trim_space_def segs unbytes_def intro!: bexI [of _ ?x])
qed

section \<open>Lemmas: rendering\<close>

lemma render_words_quoted: "render_words i argv = Inr ws \<Longrightarrow> \<forall>w \<in> set argv. printable w \<Longrightarrow> list_all2 quoted ws argv"
  by (induction argv arbitrary: i ws) (auto simp: rbind_iffs quoted_def split: if_splits)

lemma Parse_words:
  assumes "list_all2 quoted qs ws" and "ws \<noteq> []" and "hd ws \<noteq> []"
  shows "Parse (str_join qs '' '') = Inr (ws, [])"
proof -
  have "fresh ps_init" by (simp add: fresh_def)
  from parse_words [OF assms(1,2) this] valid_join [OF assms(1)] assms(2,3)
  show ?thesis by (auto simp: Parse_def)
qed

lemma Parse_cd_words:
  assumes "list_all2 quoted qs ws" and "ws \<noteq> []" and "hd ws \<noteq> []" and "plain c" and "path_IsAbs c"
  shows "Parse ((''cd '' @ Quote c @ '' && '') @ str_join qs '' '') = Inr (ws, path_Clean c)"
proof -
  let ?pre = "''cd '' @ Quote c @ '' && ''"
  have c: "valid_string c" "printable c" using assms(4) by (simp_all add: plain_def)
  have v: "valid_string ?pre"
    using valid_Quote [OF c(1)] by (simp add: valid_string_append ascii_Cons)
  have "fresh (ps_init\<lparr>ps_cwd := path_Clean c\<rparr>)" by (simp add: fresh_def)
  from parse_words [OF assms(1,2) this] obtain st' where
    "parseLoop (runes (str_join qs '' '')) (ps_init\<lparr>ps_cwd := path_Clean c\<rparr>) = Inr st'" "ps_quote st' = 0"
    "ps_flush st' = ps_init\<lparr>ps_cwd := path_Clean c, ps_words := ws\<rparr>"
    by auto
  then show ?thesis
    using parse_cd [OF c assms(5)] assms(2,3) v valid_join [OF assms(1)]
    by (simp only: Parse_def runes_append valid_string_append rbind.simps) simp
qed

section \<open>Lemmas: what is parsed\<close>

definition ps_ok :: "ParseState \<Rightarrow> bool" where
  "ps_ok st \<longleftrightarrow> (\<forall>w \<in> set (ps_words st). plain w) \<and> plain (ps_word st) \<and>
     (ps_cwd st = [] \<or> plain (ps_cwd st) \<and> path_IsAbs (ps_cwd st) \<and> path_Clean (ps_cwd st) = ps_cwd st)"

lemma ps_ok_init: "ps_ok ps_init"
  by (simp add: ps_ok_def)

lemma ps_ok_flush: "ps_ok st \<Longrightarrow> ps_ok (ps_flush st)"
  by (auto simp: ps_ok_def ps_flush_def)

lemma ps_ok_quote: "ps_ok st \<Longrightarrow> ps_ok (st\<lparr>ps_quote := q\<rparr>) \<and> ps_ok (st\<lparr>ps_quote := q, ps_started := b\<rparr>)"
  by (simp add: ps_ok_def)

lemma ps_ok_write: "ps_ok st \<Longrightarrow> scalar r \<Longrightarrow> \<not> control_rune r \<Longrightarrow>
    ps_ok (write_rune r st) \<and> ps_ok ((write_rune r st)\<lparr>ps_started := b\<rparr>)"
  by (simp add: ps_ok_def plain_append plain_rune)

lemma ps_ok_cwd:
  assumes "ps_ok st" and "length (ps_words st) = 2" and "path_IsAbs (ps_words st ! 1)"
  shows "ps_ok (st\<lparr>ps_cwd := path_Clean (ps_words st ! 1), ps_words := []\<rparr>)"
proof -
  have "ps_words st ! 1 \<in> set (ps_words st)" using assms(2) by (intro nth_mem) simp
  then have "plain (ps_words st ! 1)" using assms(1) by (simp add: ps_ok_def)
  then show ?thesis
    using assms plain_Clean path_Clean_idem [OF assms(3)] by (simp add: ps_ok_def)
qed

lemma parseLoop_ok: "parseLoop rs st = Inr st' \<Longrightarrow> \<forall>r \<in> set rs. scalar r \<Longrightarrow> ps_ok st \<Longrightarrow> ps_ok st'"
proof (induction rs st rule: parseLoop.induct)
  case (2 r rs st)
  have r: "scalar r" "\<forall>r \<in> set rs. scalar r" "\<not> control_rune r" using "2.prems" by (auto split: if_splits)
  note keep = ps_ok_flush [OF "2.prems"(3)] ps_ok_quote [OF "2.prems"(3)] ps_ok_write [OF "2.prems"(3) r(1,3)]
  note p = "2.prems"(1)
  consider (q1) "ps_quote st = 39" "r = 39" | (q2) "ps_quote st = 39" "r \<noteq> 39"
    | (d1) "ps_quote st = 34" "r = 34" | (d2) "ps_quote st = 34" "r \<noteq> 34"
    | (sp) "ps_quote st \<noteq> 39" "ps_quote st \<noteq> 34" "r = 32 \<or> r = 9"
    | (qu) "ps_quote st \<noteq> 39" "ps_quote st \<noteq> 34" "r = 39 \<or> r = 34"
    | (amp) "ps_quote st \<noteq> 39" "ps_quote st \<noteq> 34" "r = 38"
    | (other) "ps_quote st \<noteq> 39" "ps_quote st \<noteq> 34" "\<not> (r = 32 \<or> r = 9)" "\<not> (r = 39 \<or> r = 34)" "r \<noteq> 38"
    by blast
  then show ?case
  proof cases
    case q1
    then show ?thesis using "2.IH"(1) [OF r(3)] p r keep by simp
  next
    case q2
    then show ?thesis using "2.IH"(2) [OF r(3)] p r keep by simp
  next
    case d1
    then show ?thesis using "2.IH"(3) [OF r(3)] p r keep by simp
  next
    case d2
    then show ?thesis using "2.IH"(4) [OF r(3)] p r keep by (simp split: if_splits)
  next
    case sp
    then show ?thesis using "2.IH"(5) [OF r(3) sp(1,2)] p r keep by (simp split: if_splits)
  next
    case qu
    then show ?thesis using "2.IH"(6) [OF r(3) qu(1,2)] p r keep by (auto split: if_splits)
  next
    case other
    then show ?thesis using "2.IH"(8) [OF r(3) other] p r keep by (simp split: if_splits)
  next
    case amp
    then obtain r' rs' where rs: "rs = r' # rs'" using "2.prems"(1) r(3) by (cases rs) auto
    let ?st = "ps_flush st"
    from amp p r(3) rs have c: "r' = 38" "length (ps_words ?st) = 2" "hd (ps_words ?st) = ''cd''"
        "ps_cwd ?st = []" "path_IsAbs (ps_words ?st ! 1)"
      and p: "parseLoop rs' (?st\<lparr>ps_cwd := path_Clean (ps_words ?st ! 1), ps_words := []\<rparr>) = Inr st'"
      by (auto simp: Let_def split: if_splits)
    show ?thesis
      using "2.IH"(7) [OF r(3) amp(1,2) _ _ amp(3) rs refl refl _ p] amp c rs r(2) ps_ok_cwd [OF keep(1) c(2,5)]
      by simp
  qed
qed simp

lemma render_words_ok: "\<forall>w \<in> set argv. plain w \<Longrightarrow> \<exists>ws. render_words i argv = Inr ws"
proof (induction argv arbitrary: i)
  case (Cons w argv)
  from Cons.IH [of "Suc i"] Cons.prems obtain ws where "render_words (Suc i) argv = Inr ws" by auto
  moreover have "valid_string w" "CHR 0x00 \<notin> set w"
    using Cons.prems plain_no_control [of w "CHR 0x00"] by (auto simp: plain_def control_rune_def)
  ultimately show ?case by simp
qed simp

text \<open>A rendered word starts with a character that is neither a space nor NUL.\<close>

lemma quoted_head:
  assumes "quoted q w" and "w \<noteq> []"
  shows "\<exists>c t. q = c # t \<and> byte c < 128 \<and> \<not> is_space (byte c)"
proof (cases "q = quote_always w")
  case True
  then show ?thesis by (auto simp: quote_always_def is_space_def)
next
  case False
  then have q: "q = w" "list_all safe_rune (runes w)" "valid_string w" using assms by (auto simp: quoted_def Quote_def split: if_splits)
  obtain c t where w: "w = c # t" using assms(2) by (cases w) auto
  obtain r rs where rs: "runes w = r # rs" using valid_string_encode [OF q(3)] w by (cases "runes w") auto
  then have r: "safe_rune r" using q(2) by simp
  then have "r < 128" by (auto simp: safe_rune_def)
  then have "w = char_of r # encode_runes rs"
    using valid_string_encode [OF q(3)] rs by (simp add: encode_runes_Cons encode_ascii unbytes_def)
  then have "c = char_of r" using w by simp
  then have "byte c = r" using \<open>r < 128\<close> by (simp add: of_char_of)
  then show ?thesis using q(1) w r \<open>r < 128\<close> by (auto simp: safe_rune_def is_space_def)
qed

lemma plain_quoted: "quoted q w \<Longrightarrow> plain q"
proof -
  assume q: "quoted q w"
  then have w: "valid_string w" "printable w" by (simp_all add: quoted_def)
  have "printable (quote_always w)"
    using valid_quote_always [OF w(1)] w(2) by (auto simp: printable_def list_all_iff control_rune_def)
  then show ?thesis
    using q w valid_quote_always [OF w(1)] by (auto simp: quoted_def Quote_def plain_def split: if_splits)
qed

lemma plain_words: "list_all2 quoted qs ws \<Longrightarrow> plain (str_join qs '' '')"
proof (induction rule: list_all2_induct)
  case (Cons q qs w ws)
  have "plain '' ''" by (rule plain_char) (simp_all add: control_rune_def)
  with Cons plain_quoted show ?case
    using plain_append [of "'' ''" "str_join qs '' ''"] by (auto simp: str_join_Cons intro!: plain_append)
qed simp

lemma Shell_ok:
  assumes "list_all2 quoted qs ws" and "ws \<noteq> []" and "hd ws \<noteq> []"
    and "cwd = [] \<or> plain cwd \<and> path_IsAbs cwd"
  shows "\<exists>command. Shell (str_join qs '' '') cwd = Inr command"
proof -
  have p: "plain (str_join qs '' '')" by (rule plain_words [OF assms(1)])
  obtain q qs' w ws' where qs: "qs = q # qs'" "ws = w # ws'" "quoted q w"
    using assms(1,2) by (cases ws) (auto simp: list_all2_Cons2)
  then obtain c t where c: "q = c # t" "byte c < 128" "\<not> is_space (byte c)"
    using quoted_head [OF qs(3)] assms(3) by auto
  then have "\<exists>t. str_join qs '' '' = c # t" using qs(1) by (simp add: str_join_Cons)
  then obtain t' where "str_join qs '' '' = c # t'" by blast
  then have "trim_space (str_join qs '' '') \<noteq> []" using trim_space_nonspace c by simp
  moreover have "\<not> list_ex (\<lambda>c. c \<in> {CHR 0x00, CHR 0x0D, CHR 0x0A}) cwd" if "plain cwd"
    using plain_no_control [OF that, of "CHR 0x00"] plain_no_control [OF that, of "CHR 0x0D"]
      plain_no_control [OF that, of "CHR 0x0A"] by (auto simp: list_ex_iff control_rune_def)
  moreover have "CHR 0x00 \<notin> set (str_join qs '' '')"
    using plain_no_control [OF p, of "CHR 0x00"] by (simp add: control_rune_def)
  ultimately show ?thesis
    using p assms(4) Parse_words [OF assms(1-3)] by (auto simp: Shell_def plain_def Let_def)
qed

lemma Render_ok: "\<forall>w \<in> set argv. plain w \<Longrightarrow> argv \<noteq> [] \<Longrightarrow> hd argv \<noteq> [] \<Longrightarrow>
   cwd = [] \<or> plain cwd \<and> path_IsAbs cwd \<Longrightarrow> \<exists>command. Render argv cwd = Inr command"
proof -
  assume ws: "\<forall>w \<in> set argv. plain w" and argv: "argv \<noteq> []" "hd argv \<noteq> []" and c: "cwd = [] \<or> plain cwd \<and> path_IsAbs cwd"
  obtain words where words: "render_words 0 argv = Inr words" using render_words_ok [OF ws] by blast
  have "list_all2 quoted words argv"
    by (rule render_words_quoted [OF words]) (use ws in \<open>auto simp: plain_def\<close>)
  from Shell_ok [OF this argv c] words argv show ?thesis by (auto simp: Render_def)
qed

section \<open>Properties\<close>

text \<open>
  C40. Rendered arguments come back exactly. Whatever \<open>Render\<close> makes of an argument vector without
  control characters, with or without a working directory, \<open>Parse\<close> accepts, and it returns the
  same vector and the cleaned directory; no argument can spill into another word or operator.
\<close>
theorem render_parse:
  assumes "Render argv cwd = Inr command" and "\<forall>w \<in> set argv. printable w" and "printable cwd"
  shows "Parse command = Inr (argv, if cwd = [] then [] else path_Clean cwd)"
proof -
  from assms(1) obtain words where argv: "argv \<noteq> []" "hd argv \<noteq> []"
    and words: "render_words 0 argv = Inr words" and sh: "Shell (str_join words '' '') cwd = Inr command"
    by (auto simp: Render_def rbind_iffs split: if_splits)
  have q: "list_all2 quoted words argv" by (rule render_words_quoted [OF words assms(2)])
  have plain: "Parse (str_join words '' '') = Inr (argv, [])" by (rule Parse_words [OF q argv])
  show ?thesis
  proof (cases "cwd = []")
    case True
    then show ?thesis using sh plain by (simp add: Shell_def split: if_splits)
  next
    case False
    then have cwd: "path_IsAbs cwd" "plain cwd"
      and command: "command = (''cd '' @ Quote (path_Clean cwd) @ '' && '') @ str_join words '' ''"
      using sh plain assms(3) by (auto simp: Shell_def plain_def Let_def split: if_splits)
    show ?thesis
      using Parse_cd_words [OF q argv plain_Clean [OF cwd(2,1)]] path_Clean_idem [OF cwd(1)] False
      by (simp add: command)
  qed
qed

theorem render_parse_witness:
  "\<exists>command. Render [''if'', ''x y''] ''/a/../b/'' = Inr command \<and> Parse command = Inr ([''if'', ''x y''], ''/b'')"
proof -
  have "\<exists>command. Render [''if'', ''x y''] ''/a/../b/'' = Inr command"
    by (rule Render_ok)
      (auto simp: plain_def printable_def valid_ascii runes_ascii ascii_def control_rune_def path_IsAbs_def has_prefix_def)
  then obtain command where r: "Render [''if'', ''x y''] ''/a/../b/'' = Inr command" by blast
  have "path_Clean ''/a/../b/'' = ''/b''"
    by (simp add: path_Clean_def path_IsAbs_def has_prefix_def)
  then show ?thesis
    using render_parse [OF r] r by (simp add: printable_def runes_ascii ascii_def control_rune_def)
qed

text \<open>
  What \<open>Parse\<close> accepts is only literal words. Every accepted command has a rendering, built
  from the parsed arguments and directory alone, that parses to the same result; so the arguments
  are valid UTF-8 without control characters, the first is not empty, and the directory is absolute
  and clean.
\<close>
theorem parse_has_rendering:
  assumes "Parse command = Inr (argv, cwd)"
  shows "\<exists>canonical. Render argv cwd = Inr canonical \<and> Parse canonical = Inr (argv, cwd) \<and>
    (\<forall>w \<in> set argv. valid_string w \<and> printable w) \<and> (cwd \<noteq> [] \<longrightarrow> path_IsAbs cwd \<and> path_Clean cwd = cwd)"
proof -
  from assms obtain st where v: "valid_string command" and st: "parseLoop (runes command) ps_init = Inr st"
    and argv: "argv = ps_words (ps_flush st)" "argv \<noteq> []" "hd argv \<noteq> []" and cwd: "cwd = ps_cwd (ps_flush st)"
    by (auto simp: Parse_def rbind_iffs Let_def split: if_splits)
  have "ps_ok (ps_flush st)"
    using parseLoop_ok [OF st _ ps_ok_init] valid_string_scalar [OF v] ps_ok_flush by blast
  then have ws: "\<forall>w \<in> set argv. plain w" and c: "cwd = [] \<or> plain cwd \<and> path_IsAbs cwd \<and> path_Clean cwd = cwd"
    by (auto simp: ps_ok_def argv(1) cwd)
  obtain canonical where can: "Render argv cwd = Inr canonical"
    using Render_ok [OF ws argv(2,3)] c by blast
  have "Parse canonical = Inr (argv, if cwd = [] then [] else path_Clean cwd)"
    by (rule render_parse [OF can]) (use ws c in \<open>auto simp: plain_def\<close>)
  then show ?thesis using can ws c by (auto simp: plain_def)
qed

theorem parse_has_rendering_witness:
  "\<exists>canonical. Render [''ls''] [] = Inr canonical \<and> Parse canonical = Inr ([''ls''], [])"
proof -
  have "Quote ''ls'' = ''ls''" by (simp add: Quote_def runes_ascii ascii_def safe_rune_def)
  then have "quoted ''ls'' ''ls''"
    by (simp add: quoted_def printable_def valid_ascii runes_ascii ascii_def control_rune_def)
  then have "Parse (str_join [''ls''] '' '') = Inr ([''ls''], [])" by (intro Parse_words) auto
  from parse_has_rendering [OF this] show ?thesis by blast
qed

end
