(* ===== verification/Output.thy ===== *)
theory Output
  imports Policy
begin

text \<open>
  \<open>internal/output/output.go\<close>: redaction and truncation of what a command printed, for the whole
  output (\<open>Apply\<close>) and line by line as it arrives (\<open>StreamWriter\<close>), and the checks of the
  redaction patterns. A compiled expression is its two operations, the number of its matches and
  the text with them replaced; parsing and compiling are the arguments \<open>parse\<close> and \<open>rx\<close>, and the
  statements hold for any of them. The writer behind a stream is an argument \<open>dst\<close> that sees what it
  was given before; \<open>sw_written\<close> keeps that history.
\<close>

section \<open>Patterns\<close>

text \<open>\<open>syntax.Regexp\<close>: the operators the code looks at, and the rest by name.\<close>

datatype syntax_op = OpBeginText | OpCapture | OpConcat | OpAlternate | OpAnyChar | OpOther string

datatype syntax_Regexp = Regexp (re_Op: syntax_op) (re_DotNL: bool) (re_Sub: "syntax_Regexp list")

fun containsDotNL :: "syntax_Regexp \<Rightarrow> bool" where
  "containsDotNL (Regexp op flag sub) = (flag \<or> op = OpAnyChar \<or> list_ex containsDotNL sub)"

fun containsBeginText :: "syntax_Regexp \<Rightarrow> bool" where
  "containsBeginText (Regexp op flag sub) = (op = OpBeginText \<or> list_ex containsBeginText sub)"

fun startsWithBeginText :: "syntax_Regexp \<Rightarrow> bool" where
  "startsWithBeginText (Regexp op flag sub) =
     (case op of
        OpBeginText \<Rightarrow> True
      | OpCapture \<Rightarrow> (case sub of [e] \<Rightarrow> startsWithBeginText e | _ \<Rightarrow> False)
      | OpConcat \<Rightarrow> (case sub of e # _ \<Rightarrow> startsWithBeginText e | [] \<Rightarrow> False)
      | OpAlternate \<Rightarrow> sub \<noteq> [] \<and> list_all startsWithBeginText sub
      | _ \<Rightarrow> False)"

definition beginTextMode :: "syntax_Regexp \<Rightarrow> bool \<times> bool" where
  "beginTextMode expr =
     (if \<not> containsBeginText expr then (False, True)
      else (startsWithBeginText expr, startsWithBeginText expr))"

definition validateRedactPattern :: "(string \<Rightarrow> syntax_Regexp option) \<Rightarrow> string \<Rightarrow> nat \<Rightarrow> syntax_Regexp option res" where
  "validateRedactPattern parse pat i =
     (if str_contains pat [newline] \<or> str_contains pat [bslash, CHR ''n'']
      then Inl (Errorf ''output.redact pattern spans lines'' [nat_dec i, pat])
      else (case parse pat of
        Some parsed \<Rightarrow> if containsDotNL parsed then Inl (Errorf ''output.redact pattern enables (?s)'' [nat_dec i, pat])
          else Inr (Some parsed)
      | None \<Rightarrow> Inr None))"

section \<open>Filters\<close>

text \<open>\<open>len(FindAllStringIndex(value, -1))\<close> and \<open>ReplaceAllString(value, redacted)\<close>.\<close>

record redact_expr =
  re_count :: "string \<Rightarrow> nat"
  re_replace :: "string \<Rightarrow> string"

record compiledRedact =
  cr_expr :: redact_expr
  cr_beginText :: bool

record compiledFilter =
  cf_maxBytes :: int
  cf_redact :: "compiledRedact list"

record FilterResult =
  fr_Stdout :: string
  fr_Stderr :: string
  fr_OutputTruncated :: bool
  fr_Redactions :: nat

definition DefaultMaxLineCap :: nat where
  "DefaultMaxLineCap = 2 ^ 20"

fun compileRedacts :: "(string \<Rightarrow> syntax_Regexp option) \<Rightarrow> (string \<Rightarrow> redact_expr option) \<Rightarrow> nat \<Rightarrow> string list \<Rightarrow> compiledRedact list res" where
  "compileRedacts parse rx i [] = Inr []"
| "compileRedacts parse rx i (pat # pats) =
     rbind (validateRedactPattern parse pat i) (\<lambda>parsed.
       case rx pat of
         None \<Rightarrow> Inl (Errorf ''output.redact invalid regex'' [nat_dec i, pat])
       | Some expr \<Rightarrow>
           (let (beginText, ok) = (case parsed of None \<Rightarrow> (False, True) | Some p \<Rightarrow> beginTextMode p) in
            if \<not> ok then Inl (Errorf ''output.redact pattern mixes whole-output anchors with unanchored matches'' [nat_dec i, pat])
            else rbind (compileRedacts parse rx (Suc i) pats) (\<lambda>rest.
              Inr (\<lparr>cr_expr = expr, cr_beginText = beginText\<rparr> # rest))))"

definition NewFilter :: "(string \<Rightarrow> syntax_Regexp option) \<Rightarrow> (string \<Rightarrow> redact_expr option) \<Rightarrow> Output \<Rightarrow> compiledFilter res" where
  "NewFilter parse rx config = rbind (compileRedacts parse rx 0 (Redact config)) (\<lambda>rules.
     Inr \<lparr>cf_maxBytes = MaxBytes config, cf_redact = rules\<rparr>)"

fun redactLoop :: "compiledRedact list \<Rightarrow> bool \<Rightarrow> string \<Rightarrow> nat \<Rightarrow> string \<times> nat" where
  "redactLoop [] atTextStart val n = (val, n)"
| "redactLoop (rule # rules) atTextStart val n =
     (if cr_beginText rule \<and> \<not> atTextStart then redactLoop rules atTextStart val n
      else let matches = re_count (cr_expr rule) val in
        redactLoop rules atTextStart (if matches > 0 then re_replace (cr_expr rule) val else val) (n + matches))"

definition redactValue :: "compiledFilter \<Rightarrow> string \<Rightarrow> bool \<Rightarrow> string \<times> nat" where
  "redactValue f val atTextStart = redactLoop (cf_redact f) atTextStart val 0"

text \<open>
  \<open>value[:cut]\<close> for the largest valid \<open>cut\<close> up to the bound; the callers pass a bound
  below the length, so no slice is out of range.
\<close>

fun utf8_cut :: "nat \<Rightarrow> string \<Rightarrow> nat" where
  "utf8_cut 0 val = 0"
| "utf8_cut (Suc n) val = (if valid_string (take (Suc n) val) then Suc n else utf8_cut n val)"

definition truncateUTF8Prefix :: "string \<Rightarrow> int \<Rightarrow> string" where
  "truncateUTF8Prefix val maxBytes =
     (if maxBytes \<le> 0 then [] else take (utf8_cut (nat maxBytes) val) val)"

definition truncateUTF8 :: "string \<Rightarrow> int \<Rightarrow> string \<times> bool" where
  "truncateUTF8 val maxBytes =
     (if maxBytes \<le> 0 \<or> int (length val) \<le> maxBytes then (val, False)
      else (truncateUTF8Prefix val maxBytes, True))"

definition Apply :: "compiledFilter \<Rightarrow> string \<Rightarrow> string \<Rightarrow> FilterResult" where
  "Apply f stdout stderr =
     (let (o1, n1) = redactValue f stdout True;
          (e1, n2) = redactValue f stderr True;
          (o2, t1) = truncateUTF8 o1 (cf_maxBytes f);
          (e2, t2) = truncateUTF8 e1 (cf_maxBytes f)
      in \<lparr>fr_Stdout = o2, fr_Stderr = e2, fr_OutputTruncated = (t1 \<or> t2), fr_Redactions = n1 + n2\<rparr>)"

section \<open>Streams\<close>

text \<open>
  \<open>dst.Write(p)\<close> after the writes \<open>hist\<close>: the number of bytes taken and an error. \<open>None\<close> is a nil
  writer.
\<close>

type_synonym writer = "(string list \<Rightarrow> string \<Rightarrow> nat \<times> error option) option"

record StreamWriter =
  sw_filter :: compiledFilter
  sw_maxLineCap :: nat
  sw_partial :: string
  sw_emitted :: string
  sw_redacts :: nat
  sw_truncated :: bool
  sw_processed :: bool
  sw_err :: "error option"
  sw_written :: "string list"

definition newStreamWriter :: "compiledFilter \<Rightarrow> int \<Rightarrow> StreamWriter" where
  "newStreamWriter f maxLineCap =
     \<lparr>sw_filter = f, sw_maxLineCap = (if maxLineCap \<le> 0 then DefaultMaxLineCap else nat maxLineCap),
      sw_partial = [], sw_emitted = [], sw_redacts = 0, sw_truncated = False, sw_processed = False,
      sw_err = None, sw_written = []\<rparr>"

definition ErrShortWrite :: error where "ErrShortWrite = Sentinel ''io.ErrShortWrite''"

definition emit :: "writer \<Rightarrow> string \<Rightarrow> StreamWriter \<Rightarrow> StreamWriter \<times> error option" where
  "emit dst p w =
     (if length p = 0 then (w, None)
      else let w = w\<lparr>sw_emitted := sw_emitted w @ p\<rparr> in
        case dst of
          None \<Rightarrow> (w, None)
        | Some wr \<Rightarrow>
            (let (n, err) = wr (sw_written w) p;
                 w = w\<lparr>sw_written := sw_written w @ [take n p]\<rparr>;
                 err = (if err = None \<and> n < length p then Some ErrShortWrite else err)
             in if err \<noteq> None then (w\<lparr>sw_err := err\<rparr>, err) else (w, None)))"

definition processLine :: "writer \<Rightarrow> string \<Rightarrow> StreamWriter \<Rightarrow> StreamWriter \<times> error option" where
  "processLine dst line w =
     (let (filtered, redactions) = redactValue (sw_filter w) line (\<not> sw_processed w);
          w = w\<lparr>sw_processed := True, sw_redacts := sw_redacts w + redactions\<rparr>
      in if sw_truncated w then (w, None)
         else if cf_maxBytes (sw_filter w) > 0 then
           (let remaining = cf_maxBytes (sw_filter w) - int (length (sw_emitted w)) in
            if remaining \<le> 0 then
              (if length filtered > 0 then w\<lparr>sw_truncated := True\<rparr> else w, None)
            else if int (length filtered) > remaining then
              emit dst (truncateUTF8Prefix filtered remaining) (w\<lparr>sw_truncated := True\<rparr>)
            else emit dst filtered w)
         else emit dst filtered w)"

lemma emit_keeps [simp]:
  "sw_partial (fst (emit dst p w)) = sw_partial w" "sw_filter (fst (emit dst p w)) = sw_filter w"
  "sw_maxLineCap (fst (emit dst p w)) = sw_maxLineCap w" "sw_truncated (fst (emit dst p w)) = sw_truncated w"
  "sw_redacts (fst (emit dst p w)) = sw_redacts w" "sw_processed (fst (emit dst p w)) = sw_processed w"
  "sw_emitted (fst (emit dst p w)) = sw_emitted w @ p"
  by (auto simp: emit_def Let_def split: option.splits prod.splits)

lemma processLine_keeps [simp]:
  "sw_partial (fst (processLine dst line w)) = sw_partial w"
  "sw_filter (fst (processLine dst line w)) = sw_filter w"
  "sw_maxLineCap (fst (processLine dst line w)) = sw_maxLineCap w"
  "sw_processed (fst (processLine dst line w))"
  by (simp_all add: processLine_def Let_def split: prod.splits)

text \<open>
  The loop of \<open>Write\<close>. \<open>newStreamWriter\<close> makes the cap positive; the guard \<open>0 < cap\<close> is only there
  for the termination of the model on other states.
\<close>

function writeLoop :: "writer \<Rightarrow> StreamWriter \<Rightarrow> StreamWriter \<times> error option" where
  "writeLoop dst w =
     (if sw_partial w = [] then (w, None)
      else case index_byte (sw_partial w) newline of
        Some idx \<Rightarrow>
          (let (w1, err) = processLine dst (take (Suc idx) (sw_partial w)) w;
               w2 = w1\<lparr>sw_partial := drop (Suc idx) (sw_partial w)\<rparr>
           in if err \<noteq> None then (w2, err) else writeLoop dst w2)
      | None \<Rightarrow>
          if length (sw_partial w) \<ge> sw_maxLineCap w \<and> 0 < sw_maxLineCap w then
            (let (w1, err) = processLine dst (take (sw_maxLineCap w) (sw_partial w)) w;
                 w2 = w1\<lparr>sw_partial := drop (sw_maxLineCap w) (sw_partial w)\<rparr>
             in if err \<noteq> None then (w2, err) else writeLoop dst w2)
          else (w, None))"
  by pat_completeness auto
termination
  by (relation "measure (\<lambda>(dst, w). length (sw_partial w))") auto

declare writeLoop.simps [simp del]

definition Write :: "writer \<Rightarrow> string \<Rightarrow> StreamWriter \<Rightarrow> StreamWriter \<times> nat \<times> error option" where
  "Write dst p w =
     (if length p = 0 then (w, 0, None)
      else if sw_err w \<noteq> None then (w, 0, sw_err w)
      else let (w', err) = writeLoop dst (w\<lparr>sw_partial := sw_partial w @ p\<rparr>)
        in if err \<noteq> None then (w', 0, err) else (w', length p, None))"

definition Flush :: "writer \<Rightarrow> StreamWriter \<Rightarrow> StreamWriter" where
  "Flush dst w =
     (if length (sw_partial w) = 0 then w
      else if sw_err w \<noteq> None then w\<lparr>sw_partial := []\<rparr>
      else (fst (processLine dst (sw_partial w) w))\<lparr>sw_partial := []\<rparr>)"

definition Emitted :: "StreamWriter \<Rightarrow> string" where "Emitted w = sw_emitted w"
definition Redactions :: "StreamWriter \<Rightarrow> nat" where "Redactions w = sw_redacts w"
definition Truncated :: "StreamWriter \<Rightarrow> bool" where "Truncated w = sw_truncated w"

section \<open>Lemmas: truncation\<close>

lemma utf8_cut_le: "utf8_cut n v \<le> n"
  by (induction n v rule: utf8_cut.induct) auto

lemma utf8_cut_valid: "valid_string (take (utf8_cut n v) v)"
  by (induction n v rule: utf8_cut.induct) auto

lemma utf8_cut_max: "valid_string (take k v) \<Longrightarrow> k \<le> n \<Longrightarrow> k \<le> utf8_cut n v"
  by (induction n v rule: utf8_cut.induct) (auto simp: le_Suc_eq)

lemma encode_rune_length: "0 < length (encode_rune r) \<and> length (encode_rune r) \<le> 4"
  by (simp add: encode_rune_def Let_def)

text \<open>A valid string has a rune boundary in every window of four positions.\<close>

lemma rune_boundary: "\<forall>r \<in> set rs. scalar r \<Longrightarrow> n \<le> length (encode_runes rs) \<Longrightarrow>
   \<exists>k \<le> n. n < k + 4 \<and> valid_string (take k (encode_runes rs))"
proof (induction rs arbitrary: n)
  case (Cons r rs)
  define m where "m = length (unbytes (encode_rune r))"
  have m: "0 < m" "m \<le> 4" using encode_rune_length [of r] by (simp_all add: m_def unbytes_def)
  show ?case
  proof (cases "n < m")
    case True
    then show ?thesis using m by (intro exI [of _ 0]) auto
  next
    case False
    have "n - m \<le> length (encode_runes rs)"
      using Cons.prems False by (simp add: encode_runes_Cons m_def)
    with Cons.IH [of "n - m"] Cons.prems obtain k where k: "k \<le> n - m" "n - m < k + 4"
        "valid_string (take k (encode_runes rs))" by auto
    have "take (m + k) (encode_runes (r # rs)) = encode_runes [r] @ take k (encode_runes rs)"
      by (simp add: encode_runes_Cons m_def)
    moreover have "valid_string (encode_runes [r])" using Cons.prems by (intro valid_encode_runes) auto
    ultimately show ?thesis
      using k False by (intro exI [of _ "m + k"]) (auto intro: valid_string_append)
  qed
qed simp

lemma truncateUTF8Prefix_eq: "truncateUTF8Prefix v n = take (utf8_cut (nat n) v) v"
  by (cases "nat n") (auto simp: truncateUTF8Prefix_def)

lemma truncateUTF8Prefix_prefix: "prefix (truncateUTF8Prefix v n) v"
  unfolding truncateUTF8Prefix_eq by (rule take_is_prefix)

lemma truncateUTF8Prefix_length: "0 \<le> n \<Longrightarrow> int (length (truncateUTF8Prefix v n)) \<le> n"
  unfolding truncateUTF8Prefix_eq using utf8_cut_le [of "nat n" v] by auto

lemma truncateUTF8_spec:
  "prefix (fst (truncateUTF8 v n)) v \<and> (snd (truncateUTF8 v n) \<longleftrightarrow> fst (truncateUTF8 v n) \<noteq> v) \<and>
   (0 < n \<longrightarrow> int (length (fst (truncateUTF8 v n))) \<le> n) \<and>
   (fst (truncateUTF8 v n) \<noteq> v \<and> valid_string v \<longrightarrow>
     valid_string (fst (truncateUTF8 v n)) \<and> n < int (length (fst (truncateUTF8 v n))) + 4)"
proof (cases "n \<le> 0 \<or> int (length v) \<le> n")
  case True
  then show ?thesis by (auto simp: truncateUTF8_def)
next
  case False
  let ?c = "truncateUTF8Prefix v n"
  have len: "int (length ?c) \<le> n" using False by (intro truncateUTF8Prefix_length) simp
  have "n < int (length ?c) + 4" if valid: "valid_string v"
  proof -
    have "nat n \<le> length v" using False by (simp add: nat_le_iff)
    then obtain k where k: "k \<le> nat n" "nat n < k + 4" "valid_string (take k v)"
      using rune_boundary [of "runes v" "nat n"] valid_string_encode [OF valid] valid_string_scalar [OF valid] by auto
    then have "k \<le> utf8_cut (nat n) v" by (intro utf8_cut_max) auto
    moreover have "length ?c = utf8_cut (nat n) v"
      using utf8_cut_le [of "nat n" v] \<open>nat n \<le> length v\<close> by (simp add: truncateUTF8Prefix_eq)
    moreover have "int (nat n) = n" using False by simp
    ultimately show ?thesis using k(2) by linarith
  qed
  moreover have "valid_string ?c" unfolding truncateUTF8Prefix_eq by (rule utf8_cut_valid)
  moreover have "?c \<noteq> v" using len False by auto
  ultimately show ?thesis using len False truncateUTF8Prefix_prefix by (simp add: truncateUTF8_def)
qed

section \<open>Lemmas: lines\<close>

text \<open>The lines of a text, each with its newline, and what follows the last newline.\<close>

function lines_of :: "string \<Rightarrow> string list \<times> string" where
  "lines_of s = (case index_byte s newline of
     None \<Rightarrow> ([], s)
   | Some i \<Rightarrow> (take (Suc i) s # fst (lines_of (drop (Suc i) s)), snd (lines_of (drop (Suc i) s))))"
  by pat_completeness auto
termination
  by (relation "measure length") (auto dest: index_byte_Some)

declare lines_of.simps [simp del]

lemma index_byte_append: "index_byte s c = Some i \<Longrightarrow> index_byte (s @ t) c = Some i"
  by (induction s arbitrary: i) (auto split: if_splits)

lemma lines_of_Nil [simp]: "lines_of [] = ([], [])"
  by (simp add: lines_of.simps)

text \<open>Lines can be cut from a text piece by piece.\<close>

lemma lines_of_append: "lines_of (s @ t) =
   (fst (lines_of s) @ fst (lines_of (snd (lines_of s) @ t)), snd (lines_of (snd (lines_of s) @ t)))"
proof (induction s rule: lines_of.induct)
  case (1 s)
  show ?case
  proof (cases "index_byte s newline")
    case None
    then show ?thesis by (simp add: lines_of.simps [of s])
  next
    case (Some i)
    then have i: "i < length s" by (auto dest: index_byte_Some)
    then have d: "drop (Suc i) (s @ t) = drop (Suc i) s @ t" "take (Suc i) (s @ t) = take (Suc i) s" by auto
    have "lines_of (s @ t) = (take (Suc i) s # fst (lines_of (drop (Suc i) s @ t)), snd (lines_of (drop (Suc i) s @ t)))"
      using Some d by (subst lines_of.simps) (simp add: index_byte_append)
    moreover have "lines_of s = (take (Suc i) s # fst (lines_of (drop (Suc i) s)), snd (lines_of (drop (Suc i) s)))"
      using Some by (subst lines_of.simps) simp
    ultimately show ?thesis using "1.IH" [OF Some] by simp
  qed
qed

lemma lines_of_rest: "newline \<notin> set (snd (lines_of s))"
proof (induction s rule: lines_of.induct)
  case (1 s)
  then show ?case by (subst lines_of.simps) (auto split: option.split simp: index_byte_None)
qed

lemma lines_of_concat: "concat (fst (lines_of s)) @ snd (lines_of s) = s"
proof (induction s rule: lines_of.induct)
  case (1 s)
  show ?case
  proof (cases "index_byte s newline")
    case None
    then show ?thesis by (subst (1 2) lines_of.simps) simp
  next
    case (Some i)
    then show ?thesis using "1.IH" [OF Some] by (subst (1 2) lines_of.simps) simp
  qed
qed

text \<open>No stretch of text without a newline reaches the cap.\<close>

definition short_lines :: "nat \<Rightarrow> string \<Rightarrow> bool" where
  "short_lines cap s \<longleftrightarrow> (\<forall>u. sublist u s \<longrightarrow> newline \<notin> set u \<longrightarrow> length u < cap)"

lemma short_lines_sublist: "short_lines cap s \<Longrightarrow> sublist t s \<Longrightarrow> short_lines cap t"
  unfolding short_lines_def using sublist_order.order.trans by blast

lemma short_lines_no_newline: "short_lines cap s \<Longrightarrow> index_byte s newline = None \<Longrightarrow> length s < cap"
  unfolding short_lines_def index_byte_None using sublist_order.order_refl by blast

section \<open>Lemmas: the stream\<close>

text \<open>A writer that takes everything it is given.\<close>

definition reliable :: "writer \<Rightarrow> bool" where
  "reliable dst \<longleftrightarrow> (case dst of None \<Rightarrow> True | Some wr \<Rightarrow> \<forall>hist p. wr hist p = (length p, None))"

lemma emit_reliable: "reliable dst \<Longrightarrow> snd (emit dst p w) = None \<and> sw_err (fst (emit dst p w)) = sw_err w \<and>
   concat (sw_written (fst (emit dst p w))) = concat (sw_written w) @ (if dst = None then [] else p)"
  by (auto simp: emit_def reliable_def Let_def split: option.splits)

lemma processLine_reliable: "reliable dst \<Longrightarrow> snd (processLine dst line w) = None \<and>
    sw_err (fst (processLine dst line w)) = sw_err w"
  using emit_reliable by (auto simp: processLine_def Let_def split: prod.splits)

lemma emit_partial: "emit dst p (w\<lparr>sw_partial := q\<rparr>) = ((fst (emit dst p w))\<lparr>sw_partial := q\<rparr>, snd (emit dst p w))"
  by (auto simp: emit_def Let_def split: option.splits prod.splits)

lemma processLine_partial: "processLine dst line (w\<lparr>sw_partial := q\<rparr>) =
    ((fst (processLine dst line w))\<lparr>sw_partial := q\<rparr>, snd (processLine dst line w))"
proof -
  have c1: "w\<lparr>sw_partial := q, sw_processed := b, sw_redacts := n\<rparr> =
      w\<lparr>sw_processed := b, sw_redacts := n, sw_partial := q\<rparr>" for n b by simp
  have c2: "w\<lparr>sw_partial := q, sw_processed := b, sw_redacts := n, sw_truncated := t\<rparr> =
      w\<lparr>sw_processed := b, sw_redacts := n, sw_truncated := t, sw_partial := q\<rparr>" for n b t by simp
  note 1 = emit_partial [of dst _ q "w\<lparr>sw_processed := _, sw_redacts := _\<rparr>", folded c1]
  note 2 = emit_partial [of dst _ q "w\<lparr>sw_processed := _, sw_redacts := _, sw_truncated := _\<rparr>", folded c2]
  show ?thesis
    by (simp add: processLine_def Let_def 1 2 split: prod.split)
qed

definition run_lines :: "writer \<Rightarrow> string list \<Rightarrow> StreamWriter \<Rightarrow> StreamWriter" where
  "run_lines dst ls w = foldl (\<lambda>w l. fst (processLine dst l w)) w ls"

lemma run_lines_simps [simp]:
  "run_lines dst [] w = w" "run_lines dst (l # ls) w = run_lines dst ls (fst (processLine dst l w))"
  "run_lines dst (ls @ ls') w = run_lines dst ls' (run_lines dst ls w)"
  by (simp_all add: run_lines_def)

lemma run_lines_keeps [simp]:
  "sw_partial (run_lines dst ls w) = sw_partial w" "sw_filter (run_lines dst ls w) = sw_filter w"
  "sw_maxLineCap (run_lines dst ls w) = sw_maxLineCap w"
  by (induction ls arbitrary: w) simp_all

lemma run_lines_partial: "run_lines dst ls (w\<lparr>sw_partial := q\<rparr>) = (run_lines dst ls w)\<lparr>sw_partial := q\<rparr>"
  by (induction ls arbitrary: w) (simp_all add: processLine_partial)

lemma run_lines_err: "reliable dst \<Longrightarrow> sw_err (run_lines dst ls w) = sw_err w"
  by (induction ls arbitrary: w) (simp_all add: processLine_reliable)

text \<open>The loop of \<open>Write\<close> processes exactly the complete lines of its buffer.\<close>

lemma writeLoop_lines:
  assumes "reliable dst" and "short_lines (sw_maxLineCap w) (sw_partial w)"
  shows "writeLoop dst w =
    ((run_lines dst (fst (lines_of (sw_partial w))) w)\<lparr>sw_partial := snd (lines_of (sw_partial w))\<rparr>, None)"
  using assms
proof (induction dst w rule: writeLoop.induct)
  case (1 dst w)
  show ?case
  proof (cases "sw_partial w = []")
    case True
    then show ?thesis by (subst writeLoop.simps) simp
  next
    case ne: False
    show ?thesis
    proof (cases "index_byte (sw_partial w) newline")
      case None
      then have "length (sw_partial w) < sw_maxLineCap w"
        using short_lines_no_newline [OF "1.prems"(2)] by simp
      then show ?thesis using None ne by (subst writeLoop.simps) (simp add: lines_of.simps [of "sw_partial w"])
    next
      case (Some i)
      let ?l = "take (Suc i) (sw_partial w)" and ?r = "drop (Suc i) (sw_partial w)"
      let ?w = "(fst (processLine dst ?l w))\<lparr>sw_partial := ?r\<rparr>"
      obtain w1 where pl: "processLine dst ?l w = (w1, None)"
        using processLine_reliable [OF "1.prems"(1), of ?l w] by (metis prod.collapse)
      have "short_lines (sw_maxLineCap ?w) (sw_partial ?w)"
        using short_lines_sublist [OF "1.prems"(2), of ?r] by simp
      then have "writeLoop dst ?w = ((run_lines dst (fst (lines_of ?r)) ?w)\<lparr>sw_partial := snd (lines_of ?r)\<rparr>, None)"
        using "1.IH"(2) [OF ne Some, of "(w1, None)" w1 None] pl "1.prems"(1) by simp
      moreover have "writeLoop dst w = writeLoop dst ?w"
        using Some ne pl by (subst writeLoop.simps) simp
      moreover have "lines_of (sw_partial w) = (?l # fst (lines_of ?r), snd (lines_of ?r))"
        using Some by (subst lines_of.simps) simp
      ultimately show ?thesis by (simp add: run_lines_partial)
    qed
  qed
qed

text \<open>Several writes and a flush.\<close>

definition Writes :: "writer \<Rightarrow> string list \<Rightarrow> StreamWriter \<Rightarrow> StreamWriter" where
  "Writes dst ps w = foldl (\<lambda>w p. fst (Write dst p w)) w ps"

lemma Writes_simps [simp]: "Writes dst [] w = w" "Writes dst (p # ps) w = Writes dst ps (fst (Write dst p w))"
  by (simp_all add: Writes_def)

lemma short_lines_rest: "short_lines cap (q @ p @ r) \<Longrightarrow> short_lines cap (snd (lines_of (q @ p)) @ r)"
proof -
  assume s: "short_lines cap (q @ p @ r)"
  have "q @ p @ r = concat (fst (lines_of (q @ p))) @ snd (lines_of (q @ p)) @ r"
    using lines_of_concat [of "q @ p"] by (metis append.assoc)
  then have "sublist (snd (lines_of (q @ p)) @ r) (q @ p @ r)" by (metis sublist_appendI append_Nil2)
  then show ?thesis by (rule short_lines_sublist [OF s])
qed

lemma Write_lines:
  assumes "reliable dst" and "sw_err w = None" and "short_lines (sw_maxLineCap w) (sw_partial w @ p)"
    and "newline \<notin> set (sw_partial w)"
  shows "fst (Write dst p w) = (run_lines dst (fst (lines_of (sw_partial w @ p))) w)
    \<lparr>sw_partial := snd (lines_of (sw_partial w @ p))\<rparr>"
proof (cases "p = []")
  case True
  have "lines_of (sw_partial w) = ([], sw_partial w)"
    using assms(4) by (subst lines_of.simps) (simp add: index_byte_None [THEN iffD2])
  then show ?thesis using True by (simp add: Write_def)
next
  case False
  then show ?thesis
    using assms(2) writeLoop_lines [OF assms(1), of "w\<lparr>sw_partial := sw_partial w @ p\<rparr>"] assms(3)
    by (simp add: Write_def run_lines_partial)
qed

lemma Writes_lines:
  assumes "reliable dst" and "sw_err w = None" and "short_lines (sw_maxLineCap w) (sw_partial w @ concat ps)"
    and "newline \<notin> set (sw_partial w)"
  shows "Writes dst ps w = (run_lines dst (fst (lines_of (sw_partial w @ concat ps))) w)
    \<lparr>sw_partial := snd (lines_of (sw_partial w @ concat ps))\<rparr>"
  using assms(2-)
proof (induction ps arbitrary: w)
  case Nil
  have "lines_of (sw_partial w) = ([], sw_partial w)"
    using Nil.prems(3) by (subst lines_of.simps) (simp add: index_byte_None [THEN iffD2])
  then show ?case by simp
next
  case (Cons p ps)
  let ?q = "sw_partial w" let ?w = "fst (Write dst p w)"
  have "short_lines (sw_maxLineCap w) (?q @ p)"
    using Cons.prems(2) by (rule short_lines_sublist) (metis append.assoc concat.simps(2) prefix_imp_sublist prefixI)
  from Write_lines [OF assms(1) Cons.prems(1) this Cons.prems(3)]
  have w: "?w = (run_lines dst (fst (lines_of (?q @ p))) w)\<lparr>sw_partial := snd (lines_of (?q @ p))\<rparr>" .
  have "Writes dst ps ?w = (run_lines dst (fst (lines_of (sw_partial ?w @ concat ps))) ?w)
      \<lparr>sw_partial := snd (lines_of (sw_partial ?w @ concat ps))\<rparr>"
  proof (rule Cons.IH)
    show "sw_err ?w = None" using Cons.prems(1) by (simp add: w run_lines_err [OF assms(1)])
    show "short_lines (sw_maxLineCap ?w) (sw_partial ?w @ concat ps)"
      using Cons.prems(2) short_lines_rest [of _ ?q p "concat ps"] by (simp add: w)
    show "newline \<notin> set (sw_partial ?w)" using lines_of_rest by (simp add: w)
  qed
  moreover have "lines_of (?q @ concat (p # ps)) = (fst (lines_of (?q @ p)) @ fst (lines_of (sw_partial ?w @ concat ps)),
      snd (lines_of (sw_partial ?w @ concat ps)))"
    using lines_of_append [of "?q @ p" "concat ps"] by (simp add: w)
  ultimately show ?case by (simp add: w run_lines_partial)
qed

text \<open>The redacted text of a sequence of lines, and the number of redactions.\<close>

fun redact_lines :: "compiledFilter \<Rightarrow> bool \<Rightarrow> string list \<Rightarrow> string \<times> nat" where
  "redact_lines f start [] = ([], 0)"
| "redact_lines f start (l # ls) =
     (fst (redactValue f l start) @ fst (redact_lines f False ls),
      snd (redactValue f l start) + snd (redact_lines f False ls))"

text \<open>What a stream has emitted of the redacted text \<open>t\<close> behind it.\<close>

definition emitted_of :: "string \<Rightarrow> StreamWriter \<Rightarrow> bool" where
  "emitted_of t w \<longleftrightarrow> prefix (sw_emitted w) t \<and> (sw_truncated w \<longleftrightarrow> sw_emitted w \<noteq> t) \<and>
     (0 < cf_maxBytes (sw_filter w) \<longrightarrow> int (length (sw_emitted w)) \<le> cf_maxBytes (sw_filter w))"

lemma emitted_of_processLine:
  assumes "emitted_of t w"
  shows "emitted_of (t @ fst (redactValue (sw_filter w) l (\<not> sw_processed w))) (fst (processLine dst l w)) \<and>
    sw_redacts (fst (processLine dst l w)) = sw_redacts w + snd (redactValue (sw_filter w) l (\<not> sw_processed w))"
proof -
  obtain x n where rx: "redactValue (sw_filter w) l (\<not> sw_processed w) = (x, n)" by fastforce
  let ?max = "cf_maxBytes (sw_filter w)" and ?rem = "cf_maxBytes (sw_filter w) - int (length (sw_emitted w))"
  let ?cut = "truncateUTF8Prefix x ?rem"
  consider (skip) "sw_truncated w" | (full) "\<not> sw_truncated w" "0 < ?max" "?rem \<le> 0"
    | (cut) "\<not> sw_truncated w" "0 < ?max" "0 < ?rem" "?rem < int (length x)"
    | (fits) "\<not> sw_truncated w" "?max \<le> 0 \<or> 0 < ?rem \<and> int (length x) \<le> ?rem"
    by (meson not_le)
  then show ?thesis
  proof cases
    case skip
    then have "sw_emitted w \<noteq> t @ x" using assms by (auto simp: emitted_of_def prefix_def)
    then show ?thesis using skip assms rx by (auto simp: processLine_def emitted_of_def)
  next
    case full
    moreover from this have "sw_emitted w = t" using assms by (simp add: emitted_of_def)
    ultimately show ?thesis using assms rx by (simp add: processLine_def emitted_of_def Let_def)
  next
    case cut
    have p: "prefix ?cut x" "int (length ?cut) \<le> ?rem"
      using truncateUTF8Prefix_prefix truncateUTF8Prefix_length cut(3) by auto
    then have "?cut \<noteq> x" using cut(4) by auto
    then show ?thesis using cut p assms rx
      by (auto simp: processLine_def emitted_of_def)
  next
    case fits
    then show ?thesis using assms rx
      by (cases "0 < ?max") (auto simp: processLine_def emitted_of_def)
  qed
qed

lemma run_lines_emitted: "emitted_of t w \<Longrightarrow>
   emitted_of (t @ fst (redact_lines (sw_filter w) (\<not> sw_processed w) ls)) (run_lines dst ls w) \<and>
   sw_redacts (run_lines dst ls w) = sw_redacts w + snd (redact_lines (sw_filter w) (\<not> sw_processed w) ls)"
proof (induction ls arbitrary: t w)
  case (Cons l ls)
  note one = emitted_of_processLine [OF Cons.prems, of l dst]
  from Cons.IH [OF conjunct1 [OF one]] conjunct2 [OF one]
  show ?case by (simp add: append_assoc add.assoc)
qed simp

lemma processLine_written: "reliable (Some wr) \<Longrightarrow> concat (sw_written w) = sw_emitted w \<Longrightarrow>
   concat (sw_written (fst (processLine (Some wr) l w))) = sw_emitted (fst (processLine (Some wr) l w))"
  using emit_reliable by (auto simp: processLine_def Let_def split: prod.splits)

lemma run_lines_written: "reliable (Some wr) \<Longrightarrow> concat (sw_written w) = sw_emitted w \<Longrightarrow>
   concat (sw_written (run_lines (Some wr) ls w)) = sw_emitted (run_lines (Some wr) ls w)"
  by (induction ls arbitrary: w) (simp_all add: processLine_written)

text \<open>The lines a text is cut into when the stream ends.\<close>

definition all_lines :: "string \<Rightarrow> string list" where
  "all_lines s = fst (lines_of s) @ (if snd (lines_of s) = [] then [] else [snd (lines_of s)])"

lemma Flush_lines: "reliable dst \<Longrightarrow> sw_err w = None \<Longrightarrow>
   Flush dst w = (run_lines dst (if sw_partial w = [] then [] else [sw_partial w]) w)\<lparr>sw_partial := []\<rparr>"
  by (simp add: Flush_def)

lemma stream_lines:
  assumes "reliable dst" and "0 < cap" and "short_lines (nat cap) (concat ps)"
  shows "Flush dst (Writes dst ps (newStreamWriter f cap)) =
    (run_lines dst (all_lines (concat ps)) (newStreamWriter f cap))"
proof -
  let ?w = "newStreamWriter f cap" and ?s = "concat ps"
  have init: "sw_partial ?w = []" "sw_err ?w = None" "sw_maxLineCap ?w = nat cap"
    using assms(2) by (simp_all add: newStreamWriter_def)
  have w: "Writes dst ps ?w = (run_lines dst (fst (lines_of ?s)) ?w)\<lparr>sw_partial := snd (lines_of ?s)\<rparr>"
    using Writes_lines [OF assms(1), of ?w ps] init assms(3) by simp
  have keep: "(run_lines dst ls ?w)\<lparr>sw_partial := []\<rparr> = run_lines dst ls ?w" for ls
    using init(1) run_lines_keeps(1) [of dst ls ?w] by simp
  show ?thesis
  proof (cases "snd (lines_of ?s) = []")
    case True
    then show ?thesis using keep init(1) by (simp add: w Flush_def all_lines_def)
  next
    case False
    then show ?thesis
      using keep init run_lines_err [OF assms(1)] keep [of "fst (lines_of ?s) @ [snd (lines_of ?s)]"]
      by (simp add: w Flush_def all_lines_def processLine_partial)
  qed
qed

lemma emitted_of_new: "emitted_of [] (newStreamWriter f cap)"
  by (simp add: emitted_of_def newStreamWriter_def)

text \<open>Every state a writer can be in, whatever is behind it.\<close>

inductive sw_reach :: "writer \<Rightarrow> compiledFilter \<Rightarrow> int \<Rightarrow> StreamWriter \<Rightarrow> bool" for dst f cap where
  sw_new: "sw_reach dst f cap (newStreamWriter f cap)"
| sw_write: "sw_reach dst f cap w \<Longrightarrow> sw_reach dst f cap (fst (Write dst p w))"
| sw_flush: "sw_reach dst f cap w \<Longrightarrow> sw_reach dst f cap (Flush dst w)"

inductive_cases sw_reachE: "sw_reach dst f cap w"

text \<open>What was emitted is bounded, and with a writer that takes all of it, is what was written.\<close>

definition sw_inv :: "compiledFilter \<Rightarrow> StreamWriter \<Rightarrow> bool" where
  "sw_inv f w \<longleftrightarrow> sw_filter w = f \<and> 0 < sw_maxLineCap w \<and>
     (0 < cf_maxBytes f \<longrightarrow> int (length (sw_emitted w)) \<le> cf_maxBytes f)"

lemma sw_inv_partial [simp]: "sw_inv f (w\<lparr>sw_partial := q\<rparr>) = sw_inv f w"
  by (simp add: sw_inv_def)

lemma sw_inv_new: "sw_inv f (newStreamWriter f cap)"
  by (simp add: sw_inv_def newStreamWriter_def DefaultMaxLineCap_def)

lemma sw_inv_processLine: "sw_inv f w \<Longrightarrow> sw_inv f (fst (processLine dst l w))"
proof -
  assume w: "sw_inv f w"
  let ?rem = "cf_maxBytes f - int (length (sw_emitted w))"
  have "0 < ?rem \<Longrightarrow> int (length (sw_emitted w)) + int (length (truncateUTF8Prefix x ?rem)) \<le> cf_maxBytes f" for x
    using truncateUTF8Prefix_length [of ?rem x] by simp
  with w show ?thesis
    by (auto simp: sw_inv_def processLine_def Let_def split: prod.split)
qed

lemma sw_inv_writeLoop: "sw_inv f w \<Longrightarrow> sw_inv f (fst (writeLoop dst w))"
proof (induction dst w rule: writeLoop.induct)
  case (1 dst w)
  have "sw_inv f (fst (processLine dst l w))" for l by (rule sw_inv_processLine [OF "1.prems"])
  then have step: "sw_inv f w1" if "processLine dst l w = (w1, e)" for l w1 e
    using that by (metis fst_conv)
  show ?case
    by (subst writeLoop.simps)
      (use 1 step in \<open>fastforce simp: Let_def split: option.split prod.split\<close>)
qed

lemma sw_reach_inv: "sw_reach dst f cap w \<Longrightarrow> sw_inv f w"
proof (induction rule: sw_reach.induct)
  case sw_new
  show ?case by (rule sw_inv_new)
next
  case (sw_write w p)
  have "sw_inv f (fst (writeLoop dst (w\<lparr>sw_partial := sw_partial w @ p\<rparr>)))"
    by (rule sw_inv_writeLoop) (simp add: sw_write.IH)
  then show ?case using sw_write.IH by (auto simp: Write_def Let_def split: prod.split)
next
  case (sw_flush w)
  then show ?case using sw_inv_processLine by (simp add: Flush_def)
qed

section \<open>Lemmas: the anchors\<close>

text \<open>
  The matches of a tree: from position \<open>i\<close> to \<open>j\<close> of a text. The operators the code does not look
  at match as \<open>other\<close> says.
\<close>

inductive re_match :: "(syntax_Regexp \<Rightarrow> string \<Rightarrow> nat \<Rightarrow> nat \<Rightarrow> bool) \<Rightarrow> syntax_Regexp \<Rightarrow> string \<Rightarrow> nat \<Rightarrow> nat \<Rightarrow> bool"
  for other where
  m_begin: "re_match other (Regexp OpBeginText flag sub) s 0 0"
| m_capture: "re_match other e s i j \<Longrightarrow> re_match other (Regexp OpCapture flag [e]) s i j"
| m_empty: "re_match other (Regexp OpConcat flag []) s i i"
| m_concat: "re_match other e s i k \<Longrightarrow> re_match other (Regexp OpConcat flag es) s k j \<Longrightarrow>
    re_match other (Regexp OpConcat flag (e # es)) s i j"
| m_alternate: "e \<in> set es \<Longrightarrow> re_match other e s i j \<Longrightarrow> re_match other (Regexp OpAlternate flag es) s i j"
| m_other: "op = OpAnyChar \<or> op = OpOther name \<Longrightarrow> other (Regexp op flag sub) s i j \<Longrightarrow>
    re_match other (Regexp op flag sub) s i j"

inductive_simps re_match_begin: "re_match other (Regexp OpBeginText flag sub) s i j"

lemma startsWith_match: "re_match other e s i j \<Longrightarrow> startsWithBeginText e \<Longrightarrow> i = 0"
  by (induction rule: re_match.induct) (auto simp: list_all_iff)

section \<open>Properties\<close>

text \<open>
  The whole output is redacted first and cut last. Each stream of the result is a prefix of its
  redacted text, equal to it unless the result is marked truncated, and never longer than a positive
  \<open>max_bytes\<close>. A redacted text that is valid UTF-8 stays valid and loses at most three bytes below
  the bound.
\<close>
theorem apply_truncates:
  assumes "r = Apply f stdout stderr" and "o1 = fst (redactValue f stdout True)"
    and "e1 = fst (redactValue f stderr True)"
  shows "prefix (fr_Stdout r) o1 \<and> prefix (fr_Stderr r) e1 \<and>
    (fr_OutputTruncated r \<longleftrightarrow> fr_Stdout r \<noteq> o1 \<or> fr_Stderr r \<noteq> e1) \<and>
    (0 < cf_maxBytes f \<longrightarrow> int (length (fr_Stdout r)) \<le> cf_maxBytes f \<and> int (length (fr_Stderr r)) \<le> cf_maxBytes f) \<and>
    (fr_Stdout r \<noteq> o1 \<and> valid_string o1 \<longrightarrow> valid_string (fr_Stdout r) \<and> cf_maxBytes f < int (length (fr_Stdout r)) + 4)"
proof -
  have t: "prefix (fst (truncateUTF8 v n)) v \<and> (snd (truncateUTF8 v n) \<longleftrightarrow> fst (truncateUTF8 v n) \<noteq> v) \<and>
      (0 < n \<longrightarrow> int (length (fst (truncateUTF8 v n))) \<le> n) \<and>
      (fst (truncateUTF8 v n) \<noteq> v \<and> valid_string v \<longrightarrow>
        valid_string (fst (truncateUTF8 v n)) \<and> n < int (length (fst (truncateUTF8 v n))) + 4)" for v n
    by (rule truncateUTF8_spec)
  have r: "fr_Stdout r = fst (truncateUTF8 o1 (cf_maxBytes f))" "fr_Stderr r = fst (truncateUTF8 e1 (cf_maxBytes f))"
      "fr_OutputTruncated r = (snd (truncateUTF8 o1 (cf_maxBytes f)) \<or> snd (truncateUTF8 e1 (cf_maxBytes f)))"
    using assms by (simp_all add: Apply_def Let_def split: prod.splits)
  show ?thesis using t [of o1 "cf_maxBytes f"] t [of e1 "cf_maxBytes f"] unfolding r by blast
qed

definition witness_filter :: "int \<Rightarrow> compiledFilter" where
  "witness_filter n = \<lparr>cf_maxBytes = n, cf_redact = []\<rparr>"

theorem apply_truncates_witness:
  "prefix (fr_Stdout (Apply (witness_filter 3) ''abcd'' [])) ''abcd''"
  using apply_truncates [OF refl refl refl, of "witness_filter 3" "''abcd''" "[]"]
  by (simp add: redactValue_def witness_filter_def)

text \<open>
  C39. The chunks in which output arrives do not matter. Two ways of cutting the same output into
  writes leave, after the flush, the same writer: the same emitted text, counts and truncation mark,
  as long as no line reaches the line cap and the writer behind takes what it is given.
\<close>
theorem stream_chunks:
  assumes "reliable dst" and "0 < cap" and "short_lines (nat cap) (concat ps)" and "concat ps = concat qs"
  shows "Flush dst (Writes dst ps (newStreamWriter f cap)) = Flush dst (Writes dst qs (newStreamWriter f cap))"
  using stream_lines [OF assms(1,2), of ps f] stream_lines [OF assms(1,2), of qs f] assms(3,4) by simp

lemma short_lines_ab: "short_lines 3 ''ab''"
  by (auto simp: short_lines_def dest: sublist_length_le)

theorem stream_chunks_witness:
  "Flush None (Writes None [''a'', ''b''] (newStreamWriter (witness_filter 1) 3)) = Flush None (Writes None [''ab''] (newStreamWriter (witness_filter 1) 3))"
  using short_lines_ab by (intro stream_chunks) (simp_all add: reliable_def)

text \<open>
  A stream emits the redacted text of its lines, the first with the text anchors in force and
  the others without, up to the bound: a prefix of it, all of it unless the truncation mark is set,
  no longer than a positive \<open>max_bytes\<close>. The redactions of the part that was cut off are counted
  too, and the writer behind has received exactly what was emitted.
\<close>
theorem stream_emits:
  assumes "reliable (Some wr)" and "0 < cap" and "short_lines (nat cap) (concat ps)"
    and "w = Flush (Some wr) (Writes (Some wr) ps (newStreamWriter f cap))"
    and "t = redact_lines f True (all_lines (concat ps))"
  shows "prefix (Emitted w) (fst t) \<and> (Truncated w \<longleftrightarrow> Emitted w \<noteq> fst t) \<and>
    (0 < cf_maxBytes f \<longrightarrow> int (length (Emitted w)) \<le> cf_maxBytes f) \<and>
    Redactions w = snd t \<and> concat (sw_written w) = Emitted w"
proof -
  let ?new = "newStreamWriter f cap"
  have new: "sw_filter ?new = f" "\<not> sw_processed ?new" "sw_redacts ?new = 0" "sw_written ?new = []" "sw_emitted ?new = []"
    by (simp_all add: newStreamWriter_def)
  have w: "w = run_lines (Some wr) (all_lines (concat ps)) ?new"
    using stream_lines [OF assms(1-3)] assms(4) by simp
  have "emitted_of (fst t) w" "sw_redacts w = snd t" "sw_filter w = f"
    using run_lines_emitted [OF emitted_of_new, of f cap "all_lines (concat ps)" "Some wr"] new
    by (simp_all add: w assms(5))
  moreover have "concat (sw_written w) = sw_emitted w"
    unfolding w by (rule run_lines_written [OF assms(1)]) (simp add: new)
  ultimately show ?thesis
    by (simp add: emitted_of_def Emitted_def Truncated_def Redactions_def)
qed

theorem stream_emits_witness:
  "concat (sw_written (Flush (Some (\<lambda>hist p. (length p, None)))
     (Writes (Some (\<lambda>hist p. (length p, None))) [''a'', ''b''] (newStreamWriter (witness_filter 1) 3)))) =
   Emitted (Flush (Some (\<lambda>hist p. (length p, None)))
     (Writes (Some (\<lambda>hist p. (length p, None))) [''a'', ''b''] (newStreamWriter (witness_filter 1) 3)))"
  using stream_emits [of "\<lambda>hist p. (length p, None)" 3 "[''a'', ''b'']", OF _ _ _ refl refl] short_lines_ab
  by (simp add: reliable_def)

text \<open>
  No sequence of writes and flushes, whatever their chunks and however the writer behind fails,
  emits more than a positive \<open>max_bytes\<close>.
\<close>
theorem stream_bounded:
  assumes "sw_reach dst f cap w" and "0 < cf_maxBytes f"
  shows "int (length (Emitted w)) \<le> cf_maxBytes f"
  using sw_reach_inv [OF assms(1)] assms(2) by (simp add: sw_inv_def Emitted_def)

theorem stream_bounded_witness:
  "int (length (Emitted (fst (Write None ''abc'' (newStreamWriter (witness_filter 2) 1))))) \<le> 2"
  using stream_bounded [OF sw_write [OF sw_new], of "witness_filter 2" None "''abc''" 1]
  by (simp add: witness_filter_def)

text \<open>
  Dropping an anchored pattern after the first line is sound. A pattern is accepted only if it has
  no text anchor at all or begins with one on every alternative, and one of the second kind can match
  only at the start of the text, whatever the other operators mean.
\<close>
theorem anchored_only_at_start:
  assumes "beginTextMode e = (b, True)"
  shows "b = containsBeginText e \<and> (b \<longrightarrow> (\<forall>other s i j. re_match other e s i j \<longrightarrow> i = 0))"
  using assms startsWith_match by (auto simp: beginTextMode_def split: if_splits)

theorem anchored_only_at_start_witness:
  "\<forall>i j. re_match (\<lambda>_ _ _ _. True) (Regexp OpConcat False [Regexp OpBeginText False [], Regexp (OpOther ''lit'') False []]) ''abc'' i j \<longrightarrow> i = 0"
  using anchored_only_at_start [of "Regexp OpConcat False [Regexp OpBeginText False [], Regexp (OpOther ''lit'') False []]" True]
  by (simp add: beginTextMode_def)

end
