(* ===== verification/Regex.thy ===== *)
theory Regex
  imports Utf8
begin

text \<open>
  The part of package \<open>regexp\<close> that the generated approval matchers are written in: the text
  anchors \<open>\A\<close> and \<open>\z\<close>, literal characters, \<open>\xHH\<close> and \<open>\x{H..}\<close>, classes of characters and ranges,
  groups \<open>(?:..)\<close> and the quantifiers \<open>*\<close>, \<open>+\<close> and \<open>?\<close>. A pattern outside this part is compiled by the
  argument \<open>other\<close>, so that every statement holds whatever such a pattern means. Matching is over
  runes, where a byte that is not UTF-8 counts as U+FFFD, as in Go.
\<close>

section \<open>Expressions\<close>

datatype rx =
    RBegin
  | REnd
  | RLit nat
  | RClass "(nat \<times> nat) list"
  | RStar rx
  | RPlus rx
  | RQuest rx
  | RCat "rx list"

definition in_class :: "(nat \<times> nat) list \<Rightarrow> nat \<Rightarrow> bool" where
  "in_class rs r = list_ex (\<lambda>(a, b). a \<le> r \<and> r \<le> b) rs"

text \<open>The matches of an expression in a text: from position \<open>i\<close> to position \<open>j\<close>.\<close>

inductive rmatch :: "nat list \<Rightarrow> rx \<Rightarrow> nat \<Rightarrow> nat \<Rightarrow> bool" for s where
  rm_begin: "rmatch s RBegin 0 0"
| rm_end: "i = length s \<Longrightarrow> rmatch s REnd i i"
| rm_lit: "i < length s \<Longrightarrow> s ! i = r \<Longrightarrow> rmatch s (RLit r) i (Suc i)"
| rm_class: "i < length s \<Longrightarrow> in_class c (s ! i) \<Longrightarrow> rmatch s (RClass c) i (Suc i)"
| rm_star_nil: "rmatch s (RStar e) i i"
| rm_star: "rmatch s e i k \<Longrightarrow> rmatch s (RStar e) k j \<Longrightarrow> rmatch s (RStar e) i j"
| rm_plus: "rmatch s e i k \<Longrightarrow> rmatch s (RStar e) k j \<Longrightarrow> rmatch s (RPlus e) i j"
| rm_quest_nil: "rmatch s (RQuest e) i i"
| rm_quest: "rmatch s e i j \<Longrightarrow> rmatch s (RQuest e) i j"
| rm_nil: "rmatch s (RCat []) i i"
| rm_cat: "rmatch s e i k \<Longrightarrow> rmatch s (RCat es) k j \<Longrightarrow> rmatch s (RCat (e # es)) i j"

inductive_simps rmatch_begin [simp]: "rmatch s RBegin i j"
inductive_simps rmatch_end [simp]: "rmatch s REnd i j"
inductive_simps rmatch_lit [simp]: "rmatch s (RLit r) i j"
inductive_simps rmatch_class [simp]: "rmatch s (RClass c) i j"
inductive_simps rmatch_plus [simp]: "rmatch s (RPlus e) i j"
inductive_simps rmatch_nil [simp]: "rmatch s (RCat []) i j"
inductive_simps rmatch_cat [simp]: "rmatch s (RCat (e # es)) i j"
inductive_cases rmatch_starE: "rmatch s (RStar e) i j"

text \<open>
  The executable matcher: the positions where a match from one of the given positions can end. A
  star is a closure; from \<open>n + 1\<close> positions it is reached in \<open>n + 1\<close> rounds.
\<close>

fun iterate :: "nat \<Rightarrow> ('a list \<Rightarrow> 'a list) \<Rightarrow> 'a list \<Rightarrow> 'a list" where
  "iterate 0 f xs = xs"
| "iterate (Suc n) f xs = iterate n f (remdups (xs @ f xs))"

fun ends :: "nat list \<Rightarrow> rx \<Rightarrow> nat list \<Rightarrow> nat list" and ends_list :: "nat list \<Rightarrow> rx list \<Rightarrow> nat list \<Rightarrow> nat list" where
  "ends s RBegin is = filter (\<lambda>i. i = 0) is"
| "ends s REnd is = filter (\<lambda>i. i = length s) is"
| "ends s (RLit r) is = map Suc (filter (\<lambda>i. i < length s \<and> s ! i = r) is)"
| "ends s (RClass c) is = map Suc (filter (\<lambda>i. i < length s \<and> in_class c (s ! i)) is)"
| "ends s (RStar e) is = iterate (Suc (length s)) (ends s e) is"
| "ends s (RPlus e) is = iterate (Suc (length s)) (ends s e) (ends s e is)"
| "ends s (RQuest e) is = is @ ends s e is"
| "ends s (RCat es) is = ends_list s es is"
| "ends_list s [] is = is"
| "ends_list s (e # es) is = ends_list s es (ends s e is)"

text \<open>\<open>MatchString\<close>: some match somewhere in the text.\<close>

definition rx_search :: "rx \<Rightarrow> nat list \<Rightarrow> bool" where
  "rx_search e s \<longleftrightarrow> ends s e [0..<Suc (length s)] \<noteq> []"

section \<open>Patterns\<close>

definition hex_value :: "char \<Rightarrow> nat option" where
  "hex_value c = (let b = byte c in
     if 48 \<le> b \<and> b \<le> 57 then Some (b - 48)
     else if 65 \<le> b \<and> b \<le> 70 then Some (b - 55)
     else if 97 \<le> b \<and> b \<le> 102 then Some (b - 87)
     else None)"

text \<open>The digits of \<open>\x{..}\<close> up to the closing brace, and what follows it.\<close>

fun hex_brace :: "nat \<Rightarrow> bool \<Rightarrow> string \<Rightarrow> (nat \<times> string) option" where
  "hex_brace n any [] = None"
| "hex_brace n any (c # s) =
     (if c = CHR ''}'' then (if any then Some (n, s) else None)
      else case hex_value c of
        None \<Rightarrow> None
      | Some v \<Rightarrow> if 16 * n + v > 0x10FFFF then None else hex_brace (16 * n + v) True s)"

text \<open>The rune after \<open>\x\<close>.\<close>

fun hex_escape :: "string \<Rightarrow> (nat \<times> string) option" where
  "hex_escape (c # s) =
     (if c = CHR ''{'' then hex_brace 0 False s
      else case s of
        d # t \<Rightarrow> (case (hex_value c, hex_value d) of
            (Some a, Some b) \<Rightarrow> Some (16 * a + b, t)
          | _ \<Rightarrow> None)
      | [] \<Rightarrow> None)"
| "hex_escape [] = None"

definition meta_char :: "char \<Rightarrow> bool" where
  "meta_char c \<longleftrightarrow> c \<in> set ''.+*?()|[]{}^$'' \<or> c = bslash"

text \<open>The members of a class up to its \<open>]\<close>: plain ASCII characters, ranges of them and \<open>\t\<close>.\<close>

definition class_entry :: "char \<Rightarrow> string \<Rightarrow> ((nat \<times> nat) \<times> string) option" where
  "class_entry c s =
     (if c = bslash then
        (case s of d # t \<Rightarrow> if d = CHR ''t'' then Some ((9, 9), t) else None | [] \<Rightarrow> None)
      else if 128 \<le> byte c \<or> c \<in> set ''[^'' \<or> c = CHR ''-'' \<and> \<not> prefix '']'' s then None
      else if 2 \<le> length s \<and> s ! 0 = CHR ''-'' \<and> s ! 1 \<noteq> CHR '']'' then
        (if s ! 1 = bslash \<or> 128 \<le> byte (s ! 1) \<or> s ! 1 \<in> set ''[-'' \<or> byte (s ! 1) < byte c then None
         else Some ((byte c, byte (s ! 1)), drop 2 s))
      else Some ((byte c, byte c), s))"

lemma class_entry_shorter: "class_entry c s = Some (r, t) \<Longrightarrow> length t \<le> length s"
  by (auto simp: class_entry_def split: if_splits list.splits)

function parse_class :: "string \<Rightarrow> ((nat \<times> nat) list \<times> string) option" where
  "parse_class [] = None"
| "parse_class (c # s) =
     (if c = CHR '']'' then Some ([], s)
      else case class_entry c s of
        None \<Rightarrow> None
      | Some (r, t) \<Rightarrow> (case parse_class t of None \<Rightarrow> None | Some (rs, u) \<Rightarrow> Some (r # rs, u)))"
  by pat_completeness auto
termination
  by (relation "measure length") (auto dest: class_entry_shorter)

text \<open>
  One item after another until the end of the pattern or, inside a group, its \<open>)\<close>. The first
  argument bounds the recursion; the length of the pattern is enough, since each item takes a
  character.
\<close>

definition quantify :: "rx \<Rightarrow> string \<Rightarrow> (rx \<times> string) option" where
  "quantify e s = (case s of
     c # t \<Rightarrow>
       if c = CHR ''*'' \<or> c = CHR ''+'' \<or> c = CHR ''?'' then
         (case t of
            d # _ \<Rightarrow> if d \<in> set ''*+?'' then None
              else Some (if c = CHR ''*'' then RStar e else if c = CHR ''+'' then RPlus e else RQuest e, t)
          | [] \<Rightarrow> Some (if c = CHR ''*'' then RStar e else if c = CHR ''+'' then RPlus e else RQuest e, t))
       else Some (e, s)
   | [] \<Rightarrow> Some (e, s))"

definition parse_atom :: "(string \<Rightarrow> (rx list \<times> string) option) \<Rightarrow> char \<Rightarrow> string \<Rightarrow> (rx \<times> string) option" where
  "parse_atom parse_group c s =
     (if c = bslash then
        (case s of
           [] \<Rightarrow> None
         | d # t \<Rightarrow>
             if d = CHR ''A'' then Some (RBegin, t)
             else if d = CHR ''z'' then Some (REnd, t)
             else if d = CHR ''x'' then map_option (\<lambda>(r, u). (RLit r, u)) (hex_escape t)
             else if byte d < 128 \<and> meta_char d then Some (RLit (byte d), t)
             else None)
      else if c = CHR ''['' then
        (if prefix '']'' s then None else map_option (\<lambda>(rs, u). (RClass rs, u)) (parse_class s))
      else if c = CHR ''('' then
        (if prefix ''?:'' s then map_option (\<lambda>(es, u). (RCat es, u)) (parse_group (drop 2 s)) else None)
      else if meta_char c \<or> 128 \<le> byte c then None
      else Some (RLit (byte c), s))"

fun parse_items :: "nat \<Rightarrow> bool \<Rightarrow> string \<Rightarrow> (rx list \<times> string) option" where
  "parse_items n grp [] = (if grp then None else Some ([], []))"
| "parse_items 0 grp s = None"
| "parse_items (Suc n) grp (c # s) =
     (if grp \<and> c = CHR '')'' then Some ([], s)
      else case parse_atom (parse_items n True) c s of
        None \<Rightarrow> None
      | Some (e, t) \<Rightarrow>
          (case quantify e t of
             None \<Rightarrow> None
           | Some (e', u) \<Rightarrow>
               (case parse_items n grp u of
                  None \<Rightarrow> None
                | Some (es, v) \<Rightarrow> Some (e' # es, v))))"

definition parse_rx :: "string \<Rightarrow> rx list option" where
  "parse_rx pat = map_option fst (parse_items (length pat) False pat)"

text \<open>\<open>regexp.Compile\<close> and \<open>MatchString\<close>.\<close>

definition go_regexp :: "(string \<Rightarrow> (string \<Rightarrow> bool) option) \<Rightarrow> string \<Rightarrow> (string \<Rightarrow> bool) option" where
  "go_regexp other pat = (case parse_rx pat of
     Some es \<Rightarrow> Some (\<lambda>text. rx_search (RCat es) (runes text))
   | None \<Rightarrow> other pat)"

section \<open>The matcher is right\<close>

lemma rmatch_bounds: "rmatch s e i j \<Longrightarrow> i \<le> length s \<Longrightarrow> i \<le> j \<and> j \<le> length s"
  by (induction rule: rmatch.induct) auto

definition reach :: "nat list \<Rightarrow> rx \<Rightarrow> nat set \<Rightarrow> nat set" where
  "reach s e X = {j. \<exists>i \<in> X. rmatch s e i j}"

lemma reach_bounded: "X \<subseteq> {..length s} \<Longrightarrow> reach s e X \<subseteq> {..length s}"
  using rmatch_bounds by (fastforce simp: reach_def)

lemma reach_mono: "X \<subseteq> Y \<Longrightarrow> reach s e X \<subseteq> reach s e Y"
  by (auto simp: reach_def)

fun rounds :: "nat list \<Rightarrow> rx \<Rightarrow> nat \<Rightarrow> nat set \<Rightarrow> nat set" where
  "rounds s e 0 X = X"
| "rounds s e (Suc n) X = rounds s e n (X \<union> reach s e X)"

lemma rounds_mono: "X \<subseteq> Y \<Longrightarrow> rounds s e n X \<subseteq> rounds s e n Y"
proof (induction n arbitrary: X Y)
  case (Suc n)
  have "X \<union> reach s e X \<subseteq> Y \<union> reach s e Y" using Suc.prems reach_mono by blast
  then show ?case using Suc.IH by simp
qed simp

lemma rounds_le: "n \<le> m \<Longrightarrow> rounds s e n X \<subseteq> rounds s e m X"
proof (induction m)
  case (Suc m)
  have "rounds s e m X \<subseteq> rounds s e (Suc m) X" by (simp add: rounds_mono)
  with Suc show ?case by (cases "n = Suc m") auto
qed simp

text \<open>A star needs at most one round for each position it advances.\<close>

lemma star_rounds: "rmatch s r i j \<Longrightarrow> r = RStar e \<Longrightarrow> i \<le> length s \<Longrightarrow> i \<le> j \<and> j \<in> rounds s e (j - i) {i}"
proof (induction rule: rmatch.induct)
  case (rm_star e' i k j)
  then have e: "e' = e" and ik: "i \<le> k" "k \<le> length s" using rmatch_bounds by auto
  with rm_star have j: "k \<le> j" "j \<in> rounds s e (j - k) {k}" by auto
  show ?case
  proof (cases "k = i")
    case True
    then show ?thesis using j by simp
  next
    case False
    have "{k} \<subseteq> {i} \<union> reach s e {i}" using rm_star.hyps(1) e by (auto simp: reach_def)
    then have "rounds s e (j - k) {k} \<subseteq> rounds s e (j - k) ({i} \<union> reach s e {i})" by (rule rounds_mono)
    then have "j \<in> rounds s e (Suc (j - k)) {i}" using j(2) by auto
    moreover have "Suc (j - k) \<le> j - i" using False ik j by arith
    ultimately have "j \<in> rounds s e (j - i) {i}" using rounds_le [of "Suc (j - k)" "j - i" s e "{i}"] by blast
    then show ?thesis using ik j(1) by simp
  qed
qed auto

lemma rounds_star: "j \<in> rounds s e n X \<Longrightarrow> \<exists>i \<in> X. rmatch s (RStar e) i j"
proof (induction n arbitrary: X)
  case 0
  then show ?case by (auto intro: rm_star_nil)
next
  case (Suc n)
  then obtain k where k: "k \<in> X \<union> reach s e X" "rmatch s (RStar e) k j" by fastforce
  then show ?case by (auto simp: reach_def intro: rm_star)
qed

lemma set_iterate:
  assumes "\<And>ys. set ys \<subseteq> {..length s} \<Longrightarrow> set (f ys) = reach s e (set ys)" and "set xs \<subseteq> {..length s}"
  shows "set (iterate n f xs) = rounds s e n (set xs)"
  using assms(2)
proof (induction n arbitrary: xs)
  case (Suc n)
  have "set (remdups (xs @ f xs)) = set xs \<union> reach s e (set xs)" using assms(1) Suc.prems by simp
  moreover have "\<dots> \<subseteq> {..length s}" using Suc.prems reach_bounded by simp
  ultimately show ?case using Suc.IH [of "remdups (xs @ f xs)"] by (simp del: set_remdups)
qed simp

lemma closure_star:
  assumes "X \<subseteq> {..length s}"
  shows "rounds s e (Suc (length s)) X = reach s (RStar e) X"
proof
  show "rounds s e (Suc (length s)) X \<subseteq> reach s (RStar e) X"
    using rounds_star by (auto simp: reach_def simp del: rounds.simps)
  show "reach s (RStar e) X \<subseteq> rounds s e (Suc (length s)) X"
  proof
    fix j assume "j \<in> reach s (RStar e) X"
    then obtain i where i: "i \<in> X" "rmatch s (RStar e) i j" by (auto simp: reach_def)
    then have len: "i \<le> length s" "j \<le> length s" using assms rmatch_bounds by auto
    from star_rounds [OF i(2) refl len(1)] have "j \<in> rounds s e (j - i) {i}" by simp
    then have "j \<in> rounds s e (j - i) X" using rounds_mono [of "{i}" X] i(1) by blast
    moreover have "j - i \<le> Suc (length s)" using len by simp
    ultimately show "j \<in> rounds s e (Suc (length s)) X" using rounds_le by blast
  qed
qed

text \<open>The executable matcher finds exactly the matches.\<close>

lemma ends_reach:
  "set is \<subseteq> {..length s} \<Longrightarrow> set (ends s e is) = reach s e (set is)"
  "set is \<subseteq> {..length s} \<Longrightarrow> set (ends_list s es is) = reach s (RCat es) (set is)"
proof (induction s e "is" and s es "is" rule: ends_ends_list.induct)
  case (5 s e "is")
  have "set (iterate (Suc (length s)) (ends s e) is) = rounds s e (Suc (length s)) (set is)"
    by (rule set_iterate) (use 5 in auto)
  then show ?case using closure_star [OF "5.prems"] by simp
next
  case (6 s e "is")
  have b: "set (ends s e is) = reach s e (set is)" "reach s e (set is) \<subseteq> {..length s}"
    using 6 reach_bounded by auto
  have "set (iterate (Suc (length s)) (ends s e) (ends s e is)) = rounds s e (Suc (length s)) (set (ends s e is))"
    by (rule set_iterate) (use 6 b in auto)
  then show ?case using closure_star [OF b(2), of e] b(1) by (auto simp: reach_def)
next
  case (10 s e es "is")
  then have "set (ends s e is) \<subseteq> {..length s}" using reach_bounded by simp
  with 10 show ?case by (auto simp: reach_def)
next
  case (7 s e "is")
  then show ?case by (auto simp: reach_def intro: rm_quest rm_quest_nil elim: rmatch.cases)
qed (auto simp: reach_def)

lemma rx_search_iff: "rx_search e s \<longleftrightarrow> (\<exists>i \<le> length s. \<exists>j. rmatch s e i j)"
proof -
  have "set (ends s e [0..<Suc (length s)]) = reach s e {..length s}"
    using ends_reach(1) [of "[0..<Suc (length s)]" s e] by (simp add: lessThan_Suc_atMost atLeast0LessThan del: upt_Suc)
  then have "rx_search e s \<longleftrightarrow> reach s e {..length s} \<noteq> {}"
    unfolding rx_search_def set_empty [symmetric] by (simp only:)
  then show ?thesis by (auto simp: reach_def)
qed

section \<open>The parser's fuel\<close>

lemma hex_brace_shorter: "hex_brace n any s = Some (r, t) \<Longrightarrow> length t < length s"
  by (induction n any s rule: hex_brace.induct) (auto split: if_splits option.splits)

lemma hex_escape_shorter: "hex_escape s = Some (r, t) \<Longrightarrow> length t < length s"
  by (cases s rule: hex_escape.cases) (auto split: if_splits option.splits list.splits dest: hex_brace_shorter)

lemma parse_class_shorter: "parse_class s = Some (rs, t) \<Longrightarrow> length t < length s"
proof (induction s arbitrary: rs t rule: parse_class.induct)
  case (2 c s)
  show ?case
  proof (cases "c = CHR '']''")
    case True
    then show ?thesis using "2.prems" by simp
  next
    case False
    with "2.prems" obtain r u rs' where *: "class_entry c s = Some (r, u)" "parse_class u = Some (rs', t)"
      by (auto split: option.splits prod.splits)
    from "2.IH" [OF False *(1) refl *(2)] class_entry_shorter [OF *(1)] show ?thesis by simp
  qed
qed simp

lemma quantify_shorter: "quantify e s = Some (e', t) \<Longrightarrow> length t \<le> length s"
  by (auto simp: quantify_def split: list.splits if_splits)

lemma parse_atom_shorter:
  assumes "parse_atom g c s = Some (e, t)"
    and "\<And>u es v. length u \<le> length s \<Longrightarrow> g u = Some (es, v) \<Longrightarrow> length v \<le> length u"
  shows "length t \<le> length s"
  using assms(1) assms(2) [of "drop 2 s"]
  by (auto simp: parse_atom_def split: if_splits list.splits dest!: hex_escape_shorter parse_class_shorter)

lemma parse_items_shorter: "parse_items n grp s = Some (es, t) \<Longrightarrow> length t \<le> length s"
proof (induction n arbitrary: grp s es t)
  case 0
  then show ?case by (cases s) (auto split: if_splits)
next
  case (Suc n)
  show ?case
  proof (cases s)
    case Nil
    then show ?thesis using Suc.prems by (auto split: if_splits)
  next
    case (Cons c s')
    show ?thesis
    proof (cases "grp \<and> c = CHR '')''")
      case True
      then show ?thesis using Suc.prems Cons by auto
    next
      case False
      with Suc.prems Cons obtain e u e' v es' where
        *: "parse_atom (parse_items n True) c s' = Some (e, u)" "quantify e u = Some (e', v)"
          "parse_items n grp v = Some (es', t)"
        by (auto split: option.splits prod.splits)
      have "length u \<le> length s'" using parse_atom_shorter [OF *(1)] Suc.IH by blast
      then show ?thesis using quantify_shorter [OF *(2)] Suc.IH [OF *(3)] Cons by simp
    qed
  qed
qed

lemma parse_atom_cong:
  assumes "\<And>u. length u \<le> length s \<Longrightarrow> g u = g' u"
  shows "parse_atom g c s = parse_atom g' c s"
  using assms [of "drop 2 s"] by (simp add: parse_atom_def)

lemma parse_items_Suc: "length s \<le> n \<Longrightarrow> parse_items (Suc n) grp s = parse_items n grp s"
proof (induction n arbitrary: grp s)
  case (Suc n)
  show ?case
  proof (cases s)
    case (Cons c s')
    have g: "parse_atom (parse_items (Suc n) True) c s' = parse_atom (parse_items n True) c s'"
      using Suc.prems Cons by (intro parse_atom_cong Suc.IH) simp
    have "parse_items (Suc n) grp v = parse_items n grp v"
      if "parse_atom (parse_items n True) c s' = Some (e, u)" "quantify e u = Some (e', v)" for e u e' v
    proof -
      have "length u \<le> length s'" using parse_atom_shorter [OF that(1)] parse_items_shorter by blast
      then show ?thesis using quantify_shorter [OF that(2)] Suc.prems Cons by (intro Suc.IH) simp
    qed
    then show ?thesis using Cons
      by (simp only: parse_items.simps g) (auto split: option.split prod.split)
  qed simp
qed simp

lemma parse_items_fuel: "length s \<le> n \<Longrightarrow> parse_items n grp s = parse_items (length s) grp s"
proof (induction rule: dec_induct)
  case (step n)
  then show ?case using parse_items_Suc [of s n grp] by (simp only:)
qed (rule refl)

text \<open>The items of a pattern and what follows a group, with enough fuel.\<close>

definition items :: "bool \<Rightarrow> string \<Rightarrow> (rx list \<times> string) option" where
  "items grp s = parse_items (length s) grp s"

lemma items_Nil [simp]: "items grp [] = (if grp then None else Some ([], []))"
  by (simp add: items_def)

lemma items_Cons: "items grp (c # s) =
     (if grp \<and> c = CHR '')'' then Some ([], s)
      else case parse_atom (items True) c s of
        None \<Rightarrow> None
      | Some (e, t) \<Rightarrow>
          (case quantify e t of
             None \<Rightarrow> None
           | Some (e', u) \<Rightarrow>
               (case items grp u of
                  None \<Rightarrow> None
                | Some (es, v) \<Rightarrow> Some (e' # es, v))))"
proof -
  have g: "parse_atom (parse_items (length s) True) c s = parse_atom (items True) c s"
    by (rule parse_atom_cong) (unfold items_def, rule parse_items_fuel)
  have "parse_items (length s) grp v = items grp v"
    if "parse_atom (items True) c s = Some (e, u)" "quantify e u = Some (e', v)" for e u e' v
  proof -
    have "length u \<le> length s"
      using parse_atom_shorter [OF that(1)] parse_items_shorter by (metis items_def)
    then have "length v \<le> length s" using quantify_shorter [OF that(2)] by simp
    then show ?thesis unfolding items_def by (rule parse_items_fuel)
  qed
  then show ?thesis
    unfolding items_def [of grp "c # s"] by (simp add: g split: option.split prod.split)
qed

lemma parse_rx_items: "parse_rx pat = map_option fst (items False pat)"
  by (simp add: parse_rx_def items_def)

text \<open>A literal item before something that is not a quantifier.\<close>

definition no_quantifier :: "string \<Rightarrow> bool" where
  "no_quantifier s \<longleftrightarrow> (case s of [] \<Rightarrow> True | c # _ \<Rightarrow> c \<notin> set ''*+?'')"

lemma quantify_none: "no_quantifier s \<Longrightarrow> quantify e s = Some (e, s)"
  by (auto simp: quantify_def no_quantifier_def split: list.splits)

lemma items_literal:
  assumes "byte c < 128" and "\<not> meta_char c" and "no_quantifier s"
  shows "items grp (c # s) = map_option (\<lambda>(es, v). (RLit (byte c) # es, v)) (items grp s)"
proof -
  have "c \<noteq> CHR '')''" "c \<noteq> bslash" "c \<noteq> CHR ''[''" "c \<noteq> CHR ''(''" using assms(2) by (auto simp: meta_char_def)
  then have "parse_atom (items True) c s = Some (RLit (byte c), s)" using assms by (simp add: parse_atom_def)
  then show ?thesis using \<open>c \<noteq> CHR '')''\<close> assms(3)
    by (simp add: items_Cons quantify_none split: option.split prod.split)
qed

lemma items_hex:
  assumes "hex_escape s = Some (r, t)" and "no_quantifier t"
  shows "items grp (bslash # CHR ''x'' # s) = map_option (\<lambda>(es, v). (RLit r # es, v)) (items grp t)"
  using assms by (simp add: items_Cons [of grp bslash] parse_atom_def quantify_none split: option.split prod.split)

section \<open>Literals\<close>

lemma rmatch_lits: "rmatch s (RCat (map RLit rs @ es)) i j \<longleftrightarrow>
   take (length rs) (drop i s) = rs \<and> rmatch s (RCat es) (i + length rs) j"
proof (induction rs arbitrary: i)
  case (Cons r rs)
  show ?case
  proof (cases "i < length s")
    case True
    then have "drop i s = s ! i # drop (Suc i) s" by (simp add: Cons_nth_drop_Suc)
    then show ?thesis using Cons True by auto
  next
    case False
    then show ?thesis by simp
  qed
qed simp

text \<open>A text between the two anchors matches only itself.\<close>

lemma search_exact: "rx_search (RCat (RBegin # map RLit rs @ [REnd])) s \<longleftrightarrow> s = rs"
  by (auto simp: rx_search_iff rmatch_lits)

section \<open>Languages\<close>

text \<open>The texts an expression without anchors matches as a whole.\<close>

fun anchor_free :: "rx \<Rightarrow> bool" where
  "anchor_free RBegin = False"
| "anchor_free REnd = False"
| "anchor_free (RLit r) = True"
| "anchor_free (RClass c) = True"
| "anchor_free (RStar e) = anchor_free e"
| "anchor_free (RPlus e) = anchor_free e"
| "anchor_free (RQuest e) = anchor_free e"
| "anchor_free (RCat es) = list_all anchor_free es"

inductive in_lang :: "rx \<Rightarrow> nat list \<Rightarrow> bool" where
  il_lit: "in_lang (RLit r) [r]"
| il_class: "in_class c r \<Longrightarrow> in_lang (RClass c) [r]"
| il_star_nil: "in_lang (RStar e) []"
| il_star: "in_lang e u \<Longrightarrow> in_lang (RStar e) v \<Longrightarrow> in_lang (RStar e) (u @ v)"
| il_plus: "in_lang e u \<Longrightarrow> in_lang (RStar e) v \<Longrightarrow> in_lang (RPlus e) (u @ v)"
| il_quest_nil: "in_lang (RQuest e) []"
| il_quest: "in_lang e u \<Longrightarrow> in_lang (RQuest e) u"
| il_nil: "in_lang (RCat []) []"
| il_cat: "in_lang e u \<Longrightarrow> in_lang (RCat es) v \<Longrightarrow> in_lang (RCat (e # es)) (u @ v)"

inductive_simps in_lang_lit [simp]: "in_lang (RLit r) w"
inductive_simps in_lang_class [simp]: "in_lang (RClass c) w"
inductive_simps in_lang_plus: "in_lang (RPlus e) w"
inductive_simps in_lang_nil [simp]: "in_lang (RCat []) w"
inductive_simps in_lang_cat [simp]: "in_lang (RCat (e # es)) w"
inductive_cases in_lang_starE: "in_lang (RStar e) w"

definition seg :: "'a list \<Rightarrow> nat \<Rightarrow> nat \<Rightarrow> 'a list" where
  "seg s i j = take (j - i) (drop i s)"

lemma seg_append: "i \<le> k \<Longrightarrow> k \<le> j \<Longrightarrow> j \<le> length s \<Longrightarrow> seg s i j = seg s i k @ seg s k j"
proof -
  assume a: "i \<le> k" "k \<le> j" "j \<le> length s"
  then have "j - i = (k - i) + (j - k)" by simp
  then have "seg s i j = take (k - i) (drop i s) @ take (j - k) (drop (k - i) (drop i s))"
    unfolding seg_def by (simp only: take_add)
  then show ?thesis using a by (simp add: seg_def)
qed

lemma seg_one: "i < length s \<Longrightarrow> seg s i (Suc i) = [s ! i]"
  by (simp add: seg_def Cons_nth_drop_Suc [symmetric])

lemma rmatch_lang: "rmatch s e i j \<Longrightarrow> i \<le> length s \<Longrightarrow> anchor_free e \<Longrightarrow> in_lang e (seg s i j)"
proof (induction rule: rmatch.induct)
  case (rm_lit i r)
  then show ?case by (simp add: seg_one)
next
  case (rm_class i c)
  then show ?case by (simp add: seg_one)
next
  case (rm_star e i k j)
  then have b: "i \<le> k" "k \<le> length s" "k \<le> j" "j \<le> length s" using rmatch_bounds by meson+
  then show ?case using rm_star in_lang.il_star [of e "seg s i k" "seg s k j"] by (simp add: seg_append [of i k j])
next
  case (rm_plus e i k j)
  then have b: "i \<le> k" "k \<le> length s" "k \<le> j" "j \<le> length s" using rmatch_bounds by meson+
  then show ?case using rm_plus in_lang.il_plus [of e "seg s i k" "seg s k j"] by (simp add: seg_append [of i k j])
next
  case (rm_cat e i k es j)
  then have b: "i \<le> k" "k \<le> length s" "k \<le> j" "j \<le> length s" using rmatch_bounds by meson+
  then show ?case using rm_cat in_lang.il_cat [of e "seg s i k" es "seg s k j"] by (simp add: seg_append [of i k j])
qed (auto simp: seg_def intro: in_lang.intros)

lemma lang_rmatch: "in_lang e w \<Longrightarrow> rmatch (p @ w @ q) e (length p) (length p + length w)"
proof (induction arbitrary: p q rule: in_lang.induct)
  case (il_star e u v)
  show ?case using il_star.IH(1) [of p "v @ q"] il_star.IH(2) [of "p @ u" q]
    by (auto intro: rm_star simp: add.assoc)
next
  case (il_plus e u v)
  show ?case using il_plus.IH(1) [of p "v @ q"] il_plus.IH(2) [of "p @ u" q]
    by (auto intro: rm_plus simp: add.assoc)
next
  case (il_cat e u es v)
  show ?case using il_cat.IH(1) [of p "v @ q"] il_cat.IH(2) [of "p @ u" q]
    by (auto intro: rm_cat simp: add.assoc)
qed (auto intro: rmatch.intros simp: nth_append)

lemma rmatch_end_snoc: "rmatch s (RCat (es @ [REnd])) i j \<longleftrightarrow> rmatch s (RCat es) i j \<and> j = length s"
  by (induction es arbitrary: i) auto

text \<open>Between the two anchors an expression matches whole texts.\<close>

lemma search_anchored:
  assumes "list_all anchor_free es"
  shows "rx_search (RCat (RBegin # es @ [REnd])) s \<longleftrightarrow> in_lang (RCat es) s"
proof
  assume "rx_search (RCat (RBegin # es @ [REnd])) s"
  then have "rmatch s (RCat es) 0 (length s)" by (auto simp: rx_search_iff rmatch_end_snoc)
  from rmatch_lang [OF this] assms show "in_lang (RCat es) s" by (simp add: seg_def)
next
  assume "in_lang (RCat es) s"
  from lang_rmatch [OF this, of "[]" "[]"] show "rx_search (RCat (RBegin # es @ [REnd])) s"
    by (auto simp: rx_search_iff rmatch_end_snoc)
qed

lemma in_lang_lits: "in_lang (RCat (map RLit rs @ es)) w \<longleftrightarrow> (\<exists>v. w = rs @ v \<and> in_lang (RCat es) v)"
  by (induction rs arbitrary: w) auto

lemma in_lang_append: "in_lang (RCat (es @ es')) w \<longleftrightarrow> (\<exists>u v. w = u @ v \<and> in_lang (RCat es) u \<and> in_lang (RCat es') v)"
proof (induction es arbitrary: w)
  case (Cons e es)
  then show ?case by (simp, metis append.assoc)
qed simp

lemma in_lang_star_class: "in_lang (RStar (RClass c)) w \<longleftrightarrow> list_all (in_class c) w"
proof
  assume "in_lang (RStar (RClass c)) w"
  then show "list_all (in_class c) w"
    by (induction "RStar (RClass c)" w rule: in_lang.induct) auto
next
  assume "list_all (in_class c) w"
  then show "in_lang (RStar (RClass c)) w"
  proof (induction w)
    case (Cons x w)
    then show ?case using il_star [of "RClass c" "[x]" w] by simp
  qed (rule il_star_nil)
qed

lemma in_lang_plus_class: "in_lang (RPlus (RClass c)) w \<longleftrightarrow> w \<noteq> [] \<and> list_all (in_class c) w"
proof (cases w)
  case Nil
  then show ?thesis by (simp add: in_lang_plus)
next
  case (Cons x v)
  have "in_lang (RPlus (RClass c)) (x # v)" if "in_class c x" "list_all (in_class c) v"
    using il_plus [of "RClass c" "[x]" v] that by (simp add: in_lang_star_class)
  then show ?thesis using Cons by (auto simp: in_lang_plus in_lang_star_class)
qed

end
