(* ===== verification/Generalize.thy ===== *)
theory Generalize
  imports Regex Commandline
begin

text \<open>
  \<open>internal/approval/matcher.go\<close> and \<open>internal/approval/generalize.go\<close>: the matchers an approval can
  mint, the gate every one of them passes (\<open>newMatcher\<close>), the exact matcher and the prefix
  generalisation. Regular expressions come from an engine: compiling and matching, and the shape
  \<open>regexp/syntax\<close> parses a pattern into. The locale \<open>regex_engine\<close> states what the matchers rely
  on; it is interpreted on the engine of \<open>Regex\<close>, so the properties hold outright. SHA-256 is the
  argument \<open>H\<close>.
\<close>

section \<open>Matchers\<close>

text \<open>\<open>MatcherKind\<close>, \<open>Scope\<close>, \<open>Verdict\<close> and the channels.\<close>

definition MatcherExact :: string where "MatcherExact = ''exact''"
definition MatcherPrefix :: string where "MatcherPrefix = ''prefix''"
definition MatcherTask :: string where "MatcherTask = ''task''"
definition ScopeOnce :: string where "ScopeOnce = ''once''"
definition ScopeSession :: string where "ScopeSession = ''session''"
definition ScopeHost :: string where "ScopeHost = ''host''"
definition ScopeTask :: string where "ScopeTask = ''task''"
definition VerdictApproved :: string where "VerdictApproved = ''approved''"
definition VerdictDenied :: string where "VerdictDenied = ''denied''"
definition ChannelCLI :: string where "ChannelCLI = ''cli''"
definition ChannelTUI :: string where "ChannelTUI = ''tui''"
definition ChannelExit :: string where "ChannelExit = ''exit''"
definition ChannelPlan :: string where "ChannelPlan = ''plan''"
definition ChannelGateway :: string where "ChannelGateway = ''gateway''"

lemmas matcher_kinds = MatcherExact_def MatcherPrefix_def MatcherTask_def
lemmas scopes = ScopeOnce_def ScopeSession_def ScopeHost_def ScopeTask_def

record TaskPermission =
  tp_Version :: int
  tp_Profile :: string
  tp_CWD :: string
  tp_Launcher :: "string list"
  tp_Resources :: "string list"
  tp_Compose :: "string list"

record Matcher =
  m_Kind :: string
  m_Regex :: string
  m_Prefix :: "string list"
  m_Promotable :: bool
  m_SourceCmd :: string
  m_Task :: "TaskPermission option"

definition matcher_SHA256 :: "(string \<Rightarrow> string) \<Rightarrow> Matcher \<Rightarrow> string" where
  "matcher_SHA256 H m = H (m_Kind m @ CHR 0x00 # m_Regex m @ CHR 0x00 # str_join (m_Prefix m) [CHR 0x00] @
     CHR 0x00 # m_SourceCmd m @ CHR 0x00 # (if m_Promotable m then ''true'' else ''false''))"

definition matcherSHA12 :: "(string \<Rightarrow> string) \<Rightarrow> Matcher \<Rightarrow> string" where
  "matcherSHA12 H m = (let sum = matcher_SHA256 H m in if length sum < 12 then sum else take 12 sum)"

section \<open>The engine\<close>

text \<open>The operands of a parsed concatenation, as far as the code looks at them.\<close>

datatype node = NBeginText | NEndText | NLiteral "nat list" | NOther

text \<open>
  \<open>eng_compile\<close> is \<open>regexp.Compile\<close> with \<open>MatchString\<close>; \<open>eng_parse\<close> is \<open>syntax.Parse\<close> with
  \<open>Simplify\<close>, giving the operands at the top (one operand when the top is not a concatenation).
\<close>

record engine =
  eng_compile :: "string \<Rightarrow> (string \<Rightarrow> bool) option"
  eng_parse :: "string \<Rightarrow> node list option"

text \<open>The parser folds adjacent literals into one.\<close>

fun nodes_of :: "rx list \<Rightarrow> node list" where
  "nodes_of [] = []"
| "nodes_of (RLit r # es) = (case nodes_of es of
     NLiteral rs # ns \<Rightarrow> NLiteral (r # rs) # ns
   | ns \<Rightarrow> NLiteral [r] # ns)"
| "nodes_of (RBegin # es) = NBeginText # nodes_of es"
| "nodes_of (REnd # es) = NEndText # nodes_of es"
| "nodes_of (e # es) = NOther # nodes_of es"

definition go_engine :: "engine \<Rightarrow> engine" where
  "go_engine other = \<lparr>eng_compile = go_regexp (eng_compile other),
     eng_parse = (\<lambda>pat. case parse_rx pat of Some es \<Rightarrow> Some (nodes_of es) | None \<Rightarrow> eng_parse other pat)\<rparr>"

section \<open>Checks on patterns\<close>

text \<open>The character class of a tail token, and the fixed pieces of a prefix pattern.\<close>

definition tailTokenClass :: string where
  "tailTokenClass = ''[A-Za-z0-9@%+=:,./_-]+''"

definition anchorA :: string where "anchorA = [bslash, CHR ''A'']"
definition anchorz :: string where "anchorz = [bslash, CHR ''z'']"
definition blanks :: string where "blanks = [CHR ''['', CHR '' '', bslash, CHR ''t'', CHR '']'']"
definition tailGroup :: string where "tailGroup = ''(?:'' @ blanks @ ''+'' @ tailTokenClass @ '')*''"

definition looksLegacyEscaped :: "string \<Rightarrow> bool" where
  "looksLegacyEscaped pat = str_contains
     (foldl (\<lambda>s fragment. replace_all s fragment []) pat
       [tailGroup, blanks @ ''+'', blanks @ ''*'', anchorA, anchorz]) ''+''"

definition validateMatcherInvariant :: "string \<Rightarrow> unit res" where
  "validateMatcherInvariant pat =
     (if \<not> has_prefix pat anchorA then Inl (Errorf ''approval matcher is missing A anchor'' [pat])
      else if \<not> has_suffix pat anchorz then Inl (Errorf ''approval matcher is missing z anchor'' [pat])
      else if str_contains pat [bslash, CHR ''s''] then Inl (Errorf ''approval matcher must not contain s class'' [pat])
      else if str_contains pat [newline] \<or> str_contains pat [CHR 0x0D] then
        Inl (Errorf ''approval matcher must not contain literal newlines'' [pat])
      else if str_contains pat ''.*'' then Inl (Errorf ''approval matcher must not contain .*'' [pat])
      else Inr ())"

definition compileMatcher :: "engine \<Rightarrow> string \<Rightarrow> (string \<Rightarrow> bool) res" where
  "compileMatcher E pat = rbind (validateMatcherInvariant pat) (\<lambda>_.
     case eng_compile E pat of
       None \<Rightarrow> Inl (Errorf ''approval matcher does not compile'' [pat])
     | Some expr \<Rightarrow> Inr expr)"

definition assertExactLiteral :: "engine \<Rightarrow> string \<Rightarrow> string \<Rightarrow> unit res" where
  "assertExactLiteral E pat source =
     (case eng_parse E pat of
        None \<Rightarrow> Inl (Errorf ''approval matcher does not parse'' [pat])
      | Some sub \<Rightarrow>
          (let widened = Errorf ''exact approval matcher is not a single anchored literal'' [pat] in
           if length sub < 2 then Inl widened
           else if hd sub \<noteq> NBeginText \<or> last sub \<noteq> NEndText then Inl widened
           else if length sub = 2 then (if source \<noteq> [] then Inl widened else Inr ())
           else if length sub = 3 then
             (case sub ! 1 of
                NLiteral rs \<Rightarrow> if encode_runes rs \<noteq> source then Inl widened else Inr ()
              | _ \<Rightarrow> Inl widened)
           else Inl widened))"

definition newMatcher :: "engine \<Rightarrow> Matcher \<Rightarrow> Matcher res" where
  "newMatcher E m = rbind (compileMatcher E (m_Regex m)) (\<lambda>expr.
     if \<not> expr (m_SourceCmd m) then Inl (Errorf ''approval matcher does not match the command it was generated from'' [m_Regex m])
     else if m_Kind m = MatcherExact then rbind (assertExactLiteral E (m_Regex m) (m_SourceCmd m)) (\<lambda>_. Inr m)
     else Inr m)"

section \<open>Quoting\<close>

definition literalSafePunct :: string where
  "literalSafePunct = ''@%=:,/_-''"

definition safe_literal :: "nat \<Rightarrow> bool" where
  "safe_literal b \<longleftrightarrow> 65 \<le> b \<and> b \<le> 90 \<or> 97 \<le> b \<and> b \<le> 122 \<or> 48 \<le> b \<and> b \<le> 57 \<or>
     b \<in> set (map byte literalSafePunct)"

text \<open>\<open>%X\<close>\<close>

definition hex_digit :: "nat \<Rightarrow> char" where
  "hex_digit n = char_of (if n < 10 then 48 + n else 55 + n)"

fun nat_hex :: "nat \<Rightarrow> string" where
  "nat_hex n = (if n < 16 then [hex_digit n] else nat_hex (n div 16) @ [hex_digit (n mod 16)])"

declare nat_hex.simps [simp del]

definition hex2 :: "nat \<Rightarrow> string" where
  "hex2 b = [hex_digit (b div 16), hex_digit (b mod 16)]"

text \<open>The bytes from one position: a safe byte, a decoded character or a single byte.\<close>

function quoteBytes :: "nat list \<Rightarrow> string" where
  "quoteBytes bs =
     (if bs = [] then []
      else if safe_literal (hd bs) then char_of (hd bs) # quoteBytes (tl bs)
      else let r = fst (next_rune bs); size = snd (snd (next_rune bs)) in
        if 128 \<le> hd bs \<and> (r \<noteq> RuneError \<or> 1 < size) then
          [bslash] @ ''x{'' @ nat_hex r @ ''}'' @ quoteBytes (drop size bs)
        else [bslash, CHR ''x''] @ hex2 (hd bs) @ quoteBytes (tl bs))"
  by pat_completeness auto
termination
  by (relation "measure length") (auto dest!: next_rune_size simp: prod_eq_iff intro!: diff_less split: prod.splits)

declare quoteBytes.simps [simp del]

definition quoteBytesForRegexp :: "string \<Rightarrow> string" where
  "quoteBytesForRegexp val = quoteBytes (bytes val)"

section \<open>Exact matchers\<close>

definition ErrNULCommand :: error where "ErrNULCommand = Sentinel ''ErrNULCommand''"
definition ErrInvalidUTF8Command :: error where "ErrInvalidUTF8Command = Sentinel ''ErrInvalidUTF8Command''"

definition exact_pattern :: "string \<Rightarrow> string" where
  "exact_pattern command = anchorA @ quoteBytesForRegexp command @ anchorz"

definition exactMatcher :: "engine \<Rightarrow> string \<Rightarrow> bool \<Rightarrow> Matcher res" where
  "exactMatcher E command promotable = newMatcher E
     \<lparr>m_Kind = MatcherExact, m_Regex = exact_pattern command, m_Prefix = [], m_Promotable = promotable,
      m_SourceCmd = command, m_Task = None\<rparr>"

definition Exact :: "engine \<Rightarrow> string \<Rightarrow> Matcher res" where
  "Exact E command =
     (if CHR 0x00 \<in> set command then Inl ErrNULCommand
      else if \<not> valid_string command then Inl ErrInvalidUTF8Command
      else exactMatcher E command True)"

section \<open>Prefix matchers\<close>

definition prefix_pattern :: "string list \<Rightarrow> string" where
  "prefix_pattern toks = anchorA @ str_join (map quoteBytesForRegexp toks) (blanks @ ''+'') @ tailGroup @ blanks @ ''*'' @ anchorz"

definition prefixMatcher :: "engine \<Rightarrow> string \<Rightarrow> string list \<Rightarrow> bool \<Rightarrow> Matcher res" where
  "prefixMatcher E command toks promotable = newMatcher E
     \<lparr>m_Kind = MatcherPrefix, m_Regex = prefix_pattern toks, m_Prefix = toks, m_Promotable = promotable,
      m_SourceCmd = command, m_Task = None\<rparr>"

section \<open>Generalisation\<close>

definition HostGrantExact :: string where "HostGrantExact = ''exact''"
definition HostGrantSafePrefix :: string where "HostGrantSafePrefix = ''safe-prefix''"
definition HostGrantPrefix :: string where "HostGrantPrefix = ''prefix''"

lemmas grant_modes = HostGrantExact_def HostGrantSafePrefix_def HostGrantPrefix_def

definition interpreterOrEscapable :: "string list" where
  "interpreterOrEscapable = [''sh'', ''bash'', ''dash'', ''zsh'', ''ksh'', ''env'', ''find'', ''xargs'',
     ''awk'', ''gawk'', ''sed'', ''perl'', ''ruby'', ''node'', ''php'',
     ''vi'', ''vim'', ''nano'', ''emacs'', ''less'', ''more'', ''man'',
     ''tar'', ''zip'', ''unzip'', ''ssh'', ''scp'', ''rsync'', ''nc'', ''socat'',
     ''tee'', ''watch'', ''flock'', ''setsid'', ''ionice'', ''nohup'']"

definition privilegedCommands :: "string list" where
  "privilegedCommands = [''sudo'', ''su'', ''doas'']"

definition destructiveLeafCommands :: "string list" where
  "destructiveLeafCommands = [''rm'', ''rmdir'', ''dd'', ''shred'', ''shutdown'', ''reboot'', ''halt'',
     ''poweroff'', ''kill'', ''pkill'', ''killall'', ''chmod'', ''chown'', ''mv'',
     ''truncate'', ''fdisk'', ''parted'']"

definition safeReadonlyLeaf :: "string list" where
  "safeReadonlyLeaf = [''ls'', ''df'', ''free'', ''uptime'', ''uname'', ''hostname'', ''ps'',
     ''whoami'', ''id'', ''date'']"

definition safeReadonlySubcommands :: "string list gomap" where
  "safeReadonlySubcommands =
     [(''systemctl'', [''status'', ''is-active'', ''is-enabled'', ''show'', ''cat'', ''list-units'']),
      (''git'', [''status'', ''log'', ''diff'', ''show'']),
      (''kubectl'', [''get'', ''describe'', ''logs''])]"

definition multiCommand :: "string list" where
  "multiCommand = [''systemctl'', ''git'', ''kubectl'', ''docker'', ''helm'', ''service'']"

text \<open>The characters \<open>;&|(){}`$<>'"\*?[]~!#\<close>.\<close>

definition shell_meta :: "nat \<Rightarrow> bool" where
  "shell_meta b \<longleftrightarrow> b \<in> {59, 38, 124, 40, 41, 123, 125, 96, 36, 60, 62, 39, 34, 92, 42, 63, 91, 93, 126, 33, 35}"

fun scanForExactOnly :: "string \<Rightarrow> bool" where
  "scanForExactOnly [] = False"
| "scanForExactOnly (c # s) =
     (if byte c < 0x20 \<or> byte c = 0x7F then True
      else if shell_meta (byte c) then True
      else if 0x80 \<le> byte c then list_ex is_space (runes (c # s))
      else scanForExactOnly s)"

text \<open>The maximal stretches without a separator.\<close>

function words_by :: "('a \<Rightarrow> bool) \<Rightarrow> 'a list \<Rightarrow> 'a list list" where
  "words_by p xs = (let ys = dropWhile p xs in
     if ys = [] then [] else takeWhile (\<lambda>x. \<not> p x) ys # words_by p (dropWhile (\<lambda>x. \<not> p x) ys))"
  by pat_completeness auto
termination
proof (relation "measure (\<lambda>(p, xs). length xs)", simp)
  fix p and xs ys :: "'a list"
  assume ys: "ys = dropWhile p xs" "ys \<noteq> []"
  then have "\<not> p (hd ys)" using hd_dropWhile by blast
  then have "length (dropWhile (\<lambda>x. \<not> p x) ys) < length ys"
    using ys(2) by (cases ys) (auto simp: le_imp_less_Suc length_dropWhile_le)
  also have "\<dots> \<le> length xs" using ys(1) length_dropWhile_le by simp
  finally show "((p, dropWhile (\<lambda>x. \<not> p x) ys), p, xs) \<in> measure (\<lambda>(p, xs). length xs)" by simp
qed

declare words_by.simps [simp del]

definition splitASCIIWords :: "string \<Rightarrow> string list" where
  "splitASCIIWords command = words_by (\<lambda>c. c = CHR '' '') command"

definition env_name_byte :: "char \<Rightarrow> bool" where
  "env_name_byte c \<longleftrightarrow> (let b = byte c in 65 \<le> b \<and> b \<le> 90 \<or> 97 \<le> b \<and> b \<le> 122 \<or> 48 \<le> b \<and> b \<le> 57 \<or> b = 95)"

definition hasEnvPrefix :: "string \<Rightarrow> bool" where
  "hasEnvPrefix command =
     (let trimmed = dropWhile (\<lambda>c. c = CHR '' '') command in
      if trimmed = [] then False
      else let first = (case index_byte trimmed CHR '' '' of Some idx \<Rightarrow> take idx trimmed | None \<Rightarrow> trimmed) in
        case index_byte first CHR ''='' of
          None \<Rightarrow> False
        | Some eq \<Rightarrow> if eq = 0 \<or> Suc eq = length first then False else list_all env_name_byte (take eq first))"

text \<open>The part of a word after its last slash.\<close>

definition after_slash :: "string \<Rightarrow> string" where
  "after_slash s = rev (takeWhile (\<lambda>c. c \<noteq> CHR ''/'') (rev s))"

definition commandBase :: "string \<Rightarrow> string" where
  "commandBase token = to_lower (after_slash (trim_space token))"

definition isInterpreterOrEscapable :: "string \<Rightarrow> bool" where
  "isInterpreterOrEscapable head \<longleftrightarrow> head \<in> set interpreterOrEscapable \<or> has_prefix head ''python''"

definition isDestructiveLeaf :: "string \<Rightarrow> bool" where
  "isDestructiveLeaf head \<longleftrightarrow> head \<in> set destructiveLeafCommands \<or> has_prefix head ''mkfs''"

definition prefixForMode :: "string list \<Rightarrow> string \<Rightarrow> string \<Rightarrow> string list" where
  "prefixForMode tokens head mode =
     (if mode = HostGrantSafePrefix then
        (if head \<in> set safeReadonlyLeaf then [tokens ! 0]
         else case gget safeReadonlySubcommands head of
           Some subcommands \<Rightarrow>
             if length tokens \<ge> 2 \<and> to_lower (tokens ! 1) \<in> set subcommands then
               (if (head = ''git'' \<or> head = ''kubectl'') \<and> length tokens \<ge> 3 \<and> \<not> has_prefix (tokens ! 2) ''-''
                then [tokens ! 0, tokens ! 1, tokens ! 2] else [tokens ! 0, tokens ! 1])
             else []
         | None \<Rightarrow> [])
      else if mode = HostGrantPrefix then
        (if head \<in> set multiCommand \<and> length tokens \<ge> 2 then [tokens ! 0, tokens ! 1] else [tokens ! 0])
      else [])"

definition tail_rune :: "nat \<Rightarrow> bool" where
  "tail_rune b \<longleftrightarrow> 65 \<le> b \<and> b \<le> 90 \<or> 97 \<le> b \<and> b \<le> 122 \<or> 48 \<le> b \<and> b \<le> 57 \<or>
     b \<in> set (map byte ''@%+=:,./_-'')"

definition isTailByte :: "char \<Rightarrow> bool" where
  "isTailByte c = tail_rune (byte c)"

definition tailTokensSafe :: "string list \<Rightarrow> bool" where
  "tailTokensSafe tokens = list_all (\<lambda>token. token \<noteq> [] \<and> list_all isTailByte token) tokens"

definition dangerousSafePrefixOptions :: "string \<Rightarrow> string list" where
  "dangerousSafePrefixOptions head =
     [''--output'', ''--as'', ''--as-group'', ''--token'', ''--kubeconfig'', ''--server'',
      ''--vacuum-time'', ''--vacuum-size'', ''--vacuum-files'', ''--rotate'', ''--flush''] @
     (if head = ''git'' then [''-o''] else [])"

definition dangerousSafePrefixOption :: "string \<Rightarrow> string \<Rightarrow> bool" where
  "dangerousSafePrefixOption head token =
     list_ex (\<lambda>opt. token = opt \<or> has_prefix token (opt @ ''='')) (dangerousSafePrefixOptions head)"

definition safePrefixTailTokensSafe :: "string \<Rightarrow> string list \<Rightarrow> bool" where
  "safePrefixTailTokensSafe head tokens = list_all (\<lambda>token.
     \<not> (has_prefix token ''-'' \<and> CHR ''='' \<in> set token) \<and> \<not> dangerousSafePrefixOption head token) tokens"

definition Generalize :: "engine \<Rightarrow> string \<Rightarrow> string \<Rightarrow> Matcher res" where
  "Generalize E command mode0 =
     (if CHR 0x00 \<in> set command then Inl ErrNULCommand
      else if \<not> valid_string command then Inl ErrInvalidUTF8Command
      else let mode = (if mode0 = [] then HostGrantSafePrefix else mode0);
               tokens = splitASCIIWords command
        in if tokens = [] then exactMatcher E command True
           else let head = commandBase (hd tokens);
                    promotable = (head \<notin> set privilegedCommands);
                    forceExact = (scanForExactOnly command \<or> head \<in> set privilegedCommands \<or>
                      isInterpreterOrEscapable head \<or> isDestructiveLeaf head \<or> hasEnvPrefix command \<or>
                      has_prefix command '' '')
             in if forceExact \<or> mode = HostGrantExact then exactMatcher E command promotable
                else let pre = prefixForMode tokens head mode; tail = drop (length pre) tokens
                  in if pre = [] \<or> \<not> tailTokensSafe tail \<or>
                        (mode = HostGrantSafePrefix \<and> \<not> safePrefixTailTokensSafe head tail)
                     then exactMatcher E command promotable
                     else prefixMatcher E command pre promotable)"

section \<open>Lemmas: quoting\<close>

lemma hex_value_digit: "n < 16 \<Longrightarrow> hex_value (hex_digit n) = Some n"
  by (auto simp: hex_value_def hex_digit_def Let_def of_char_of)

lemma hex_digit_not_brace: "n < 16 \<Longrightarrow> hex_digit n \<noteq> CHR ''}'' \<and> hex_digit n \<noteq> CHR ''{''"
proof -
  assume "n < 16"
  then have "byte (hex_digit n) \<le> 70" by (auto simp: hex_digit_def of_char_of)
  then show ?thesis by auto
qed

lemma hex_brace_nat: "r \<le> 0x10FFFF \<Longrightarrow> hex_brace 0 any (nat_hex r @ t) = hex_brace r True t"
proof (induction r arbitrary: any t rule: nat_hex.induct)
  case (1 r)
  show ?case
  proof (cases "r < 16")
    case True
    then show ?thesis using "1.prems" hex_digit_not_brace [of r]
      by (subst nat_hex.simps) (simp add: hex_value_digit)
  next
    case False
    have m: "r mod 16 < 16" by simp
    have "16 * (r div 16) + r mod 16 = r" by simp
    then show ?thesis using 1 False hex_digit_not_brace [OF m]
      by (subst nat_hex.simps) (simp add: hex_value_digit [OF m])
  qed
qed

lemma hex_escape_brace: "r \<le> 0x10FFFF \<Longrightarrow> hex_escape (CHR ''{'' # nat_hex r @ CHR ''}'' # t) = Some (r, t)"
  by (simp add: hex_brace_nat)

lemma hex_escape_2:
  assumes "b < 128"
  shows "hex_escape (hex2 b @ t) = Some (b, t)"
proof -
  have "b div 16 < 16" "b mod 16 < 16" "16 * (b div 16) + b mod 16 = b" using assms by auto
  then show ?thesis using hex_digit_not_brace [of "b div 16"]
    by (simp add: hex2_def hex_value_digit)
qed

text \<open>A rune as it is quoted.\<close>

definition quote_rune :: "nat \<Rightarrow> string" where
  "quote_rune r =
     (if safe_literal r then [char_of r]
      else if r < 128 then [bslash, CHR ''x''] @ hex2 r
      else [bslash] @ ''x{'' @ nat_hex r @ ''}'')"

lemma safe_literal_ascii: "safe_literal r \<Longrightarrow> r < 128"
  by (auto simp: safe_literal_def literalSafePunct_def)

lemma quoteBytes_Nil [simp]: "quoteBytes [] = []"
  by (simp add: quoteBytes.simps)

lemma quoteBytes_encode: "scalar r \<Longrightarrow> quoteBytes (encode_rune r @ bs) = quote_rune r @ quoteBytes bs"
proof -
  assume r: "scalar r"
  have nr: "next_rune (encode_rune r @ bs) = (r, True, length (encode_rune r))" by (rule next_rune_encode [OF r])
  show ?thesis
  proof (cases "r < 128")
    case True
    then show ?thesis
      by (subst quoteBytes.simps) (simp add: encode_ascii quote_rune_def)
  next
    case False
    have hd: "128 \<le> hd (encode_rune r)"
      using encode_rune_high [of r "hd (encode_rune r)"] False by simp
    then have ns: "\<not> safe_literal (hd (encode_rune r @ bs))" using safe_literal_ascii by fastforce
    have "r = RuneError \<Longrightarrow> 1 < length (encode_rune r)"
      by (simp add: encode_rune_def RuneError_def scalar_def)
    then show ?thesis using ns hd nr False safe_literal_ascii [of r]
      by (subst quoteBytes.simps) (auto simp: quote_rune_def)
  qed
qed

lemma quoteBytes_encodes: "\<forall>r \<in> set rs. scalar r \<Longrightarrow> quoteBytes (concat (map encode_rune rs)) = concat (map quote_rune rs)"
  by (induction rs) (simp_all add: quoteBytes_encode)

lemma quote_valid: "valid_string s \<Longrightarrow> quoteBytesForRegexp s = concat (map quote_rune (runes s))"
proof -
  assume v: "valid_string s"
  then have sc: "\<forall>r \<in> set (runes s). scalar r" using valid_string_scalar by blast
  have "bytes s = concat (map encode_rune (runes s))"
    using valid_string_encode [OF v] bytes_unbytes [of "concat (map encode_rune (runes s))"]
    by (auto simp: encode_runes_def dest: encode_rune_less)
  then show ?thesis using quoteBytes_encodes [OF sc] by (simp add: quoteBytesForRegexp_def)
qed

lemma safe_literal_plain: "safe_literal r \<Longrightarrow> \<not> meta_char (char_of r) \<and> char_of r \<notin> set ''*+?''"
proof -
  assume "safe_literal r"
  then have "r < 256" and nr: "r \<notin> {46, 43, 42, 63, 40, 41, 124, 91, 93, 123, 125, 94, 36, 92}"
    by (auto simp: safe_literal_def literalSafePunct_def)
  define c :: char where "c = char_of r"
  have "byte c = r" using \<open>r < 256\<close> by (simp add: c_def of_char_of)
  then show ?thesis using nr unfolding c_def [symmetric] by (auto simp: meta_char_def)
qed

lemma quote_rune_no_quantifier: "no_quantifier (quote_rune r @ t)"
  using safe_literal_plain [of r] by (auto simp: quote_rune_def no_quantifier_def)

lemma items_quote_rune:
  assumes "scalar r" and "no_quantifier t"
  shows "items grp (quote_rune r @ t) = map_option (\<lambda>(es, v). (RLit r # es, v)) (items grp t)"
proof -
  consider "safe_literal r" | "\<not> safe_literal r" "r < 128" | "\<not> safe_literal r" "128 \<le> r" by linarith
  then show ?thesis
  proof cases
    case 1
    then have "byte (char_of r :: char) = r" using safe_literal_ascii [of r] by (simp add: of_char_of)
    then show ?thesis
      using items_literal [of "char_of r" t grp] safe_literal_plain [OF 1] safe_literal_ascii [OF 1] assms(2) 1
      by (simp add: quote_rune_def)
  next
    case 2
    then show ?thesis using items_hex [OF hex_escape_2 [OF 2(2)] assms(2)] by (simp add: quote_rune_def)
  next
    case 3
    have "r \<le> 0x10FFFF" using assms(1) by (auto simp: scalar_def)
    then show ?thesis using items_hex [OF hex_escape_brace assms(2)] 3 by (simp add: quote_rune_def)
  qed
qed

lemma items_quote: "\<forall>r \<in> set rs. scalar r \<Longrightarrow> no_quantifier t \<Longrightarrow>
   items grp (concat (map quote_rune rs) @ t) = map_option (\<lambda>(es, v). (map RLit rs @ es, v)) (items grp t)"
proof (induction rs)
  case Nil
  then show ?case by (cases "items grp t") auto
next
  case (Cons r rs)
  have "no_quantifier (concat (map quote_rune rs) @ t)"
    using Cons.prems(2) quote_rune_no_quantifier by (cases rs) auto
  then show ?case using Cons by (simp add: items_quote_rune option.map_comp comp_def case_prod_beta)
qed

lemma items_anchorA: "no_quantifier t \<Longrightarrow> items grp (anchorA @ t) = map_option (\<lambda>(es, v). (RBegin # es, v)) (items grp t)"
  by (simp add: anchorA_def items_Cons [of grp bslash] parse_atom_def quantify_none split: option.split prod.split)

lemma items_anchorz: "items False anchorz = Some ([REnd], [])"
  by (simp add: anchorz_def items_Cons parse_atom_def quantify_def)

lemma no_quantifier_anchorz [simp]: "no_quantifier anchorz" "no_quantifier (anchorz @ t)"
  by (simp_all add: no_quantifier_def anchorz_def)

lemma parse_exact_pattern: "valid_string command \<Longrightarrow>
   parse_rx (exact_pattern command) = Some (RBegin # map RLit (runes command) @ [REnd])"
proof -
  assume v: "valid_string command"
  let ?q = "concat (map quote_rune (runes command))"
  have "no_quantifier (?q @ anchorz)"
    using quote_rune_no_quantifier by (cases "runes command") auto
  then have "items False (anchorA @ ?q @ anchorz) = Some (RBegin # map RLit (runes command) @ [REnd], [])"
    using valid_string_scalar [OF v] by (simp add: items_anchorA items_quote items_anchorz)
  then show ?thesis by (simp add: parse_rx_items exact_pattern_def quote_valid [OF v])
qed

lemma nodes_of_lits: "nodes_of (map RLit rs @ [REnd]) = (if rs = [] then [] else [NLiteral rs]) @ [NEndText]"
  by (induction rs) auto

end
