(* ===== verification/Matching.thy ===== *)
theory Matching
  imports Generalize
begin

text \<open>
  What the patterns of \<open>Generalize\<close> match: the lemmas on prefix patterns and on the shape of
  all patterns, the interface \<open>regex_engine\<close> between the matchers and the regular expressions,
  its interpretation on the engine of \<open>Regex\<close>, and the lemmas about minted matchers that rest
  on it.
\<close>

section \<open>Lemmas: parsing a prefix pattern\<close>

definition blank_class :: "(nat \<times> nat) list" where "blank_class = [(32, 32), (9, 9)]"

definition tail_class :: "(nat \<times> nat) list" where
  "tail_class = [(65, 90), (97, 122), (48, 57), (64, 64), (37, 37), (43, 43), (61, 61), (58, 58), (44, 44), (46, 46), (47, 47), (95, 95), (45, 45)]"

lemma in_blank_class [simp]: "in_class blank_class r \<longleftrightarrow> r = 32 \<or> r = 9"
  by (auto simp: blank_class_def in_class_def)

lemma in_tail_class [simp]: "in_class tail_class r \<longleftrightarrow> tail_rune r"
proof -
  have one: "a \<le> r \<and> r \<le> a \<longleftrightarrow> r = a" for a :: nat by auto
  show ?thesis by (simp add: tail_class_def in_class_def tail_rune_def one disj_ac)
qed

lemma quantified:
  assumes "no_quantifier t"
  shows "quantify e (CHR ''+'' # t) = Some (RPlus e, t)" and "quantify e (CHR ''*'' # t) = Some (RStar e, t)"
  using assms by (simp_all add: quantify_def no_quantifier_def split: list.splits)

definition tail_rx :: rx where
  "tail_rx = RStar (RCat [RPlus (RClass blank_class), RPlus (RClass tail_class)])"

lemma parse_blank_class: "parse_class (tl blanks @ t) = Some (blank_class, t)"
  by (simp add: blanks_def class_entry_def blank_class_def)

lemma items_blanks:
  assumes "no_quantifier t"
  shows "items grp (blanks @ ''+'' @ t) = map_option (\<lambda>(es, v). (RPlus (RClass blank_class) # es, v)) (items grp t)"
    and "items grp (blanks @ ''*'' @ t) = map_option (\<lambda>(es, v). (RStar (RClass blank_class) # es, v)) (items grp t)"
proof -
  have b: "blanks = CHR ''['' # tl blanks" "\<And>t. \<not> prefix '']'' (tl blanks @ t)" by (simp_all add: blanks_def)
  have a: "parse_atom g (CHR ''['') (tl blanks @ t) = Some (RClass blank_class, t)" for g t
    using b(2) [of t] by (simp add: parse_atom_def parse_blank_class)
  show "items grp (blanks @ ''+'' @ t) = map_option (\<lambda>(es, v). (RPlus (RClass blank_class) # es, v)) (items grp t)"
    using assms by (subst b(1)) (simp add: items_Cons [of grp] a quantified split: option.split prod.split)
  show "items grp (blanks @ ''*'' @ t) = map_option (\<lambda>(es, v). (RStar (RClass blank_class) # es, v)) (items grp t)"
    using assms by (subst b(1)) (simp add: items_Cons [of grp] a quantified split: option.split prod.split)
qed

lemma parse_tail_class: "parse_class (tl tailTokenClass @ t) = Some (tail_class, CHR ''+'' # t)"
  by (simp add: tailTokenClass_def class_entry_def tail_class_def)

lemma items_tail_token:
  "items True (tailTokenClass @ '')'' @ t) = Some ([RPlus (RClass tail_class)], t)"
proof -
  have b: "tailTokenClass = CHR ''['' # tl tailTokenClass" "\<And>t. \<not> prefix '']'' (tl tailTokenClass @ t)"
    by (simp_all add: tailTokenClass_def)
  have a: "parse_atom g (CHR ''['') (tl tailTokenClass @ t) = Some (RClass tail_class, CHR ''+'' # t)" for g t
    using b(2) [of t] by (simp add: parse_atom_def parse_tail_class)
  show ?thesis by (subst b(1)) (simp add: items_Cons a quantify_def)
qed

lemma no_quantifier_fixed [simp]:
  "no_quantifier (blanks @ t)" "no_quantifier (tailGroup @ t)" "no_quantifier (tailTokenClass @ t)"
  by (simp_all add: no_quantifier_def blanks_def tailGroup_def tailTokenClass_def)

lemma items_tail_group:
  assumes "no_quantifier t"
  shows "items grp (tailGroup @ t) = map_option (\<lambda>(es, v). (tail_rx # es, v)) (items grp t)"
proof -
  have "items True (blanks @ ''+'' @ tailTokenClass @ '')*'' @ t) =
      Some ([RPlus (RClass blank_class), RPlus (RClass tail_class)], CHR ''*'' # t)"
    using items_tail_token [of "CHR ''*'' # t"] by (simp add: items_blanks(1) [simplified])
  then show ?thesis using assms
    by (simp add: tailGroup_def items_Cons [of grp "CHR ''(''"] parse_atom_def quantified tail_rx_def
        split: option.split prod.split)
qed

text \<open>The words of a prefix with blanks between them.\<close>

fun joined_rx :: "nat list list \<Rightarrow> rx list" where
  "joined_rx [] = []"
| "joined_rx [w] = map RLit w"
| "joined_rx (w # ws) = map RLit w @ RPlus (RClass blank_class) # joined_rx ws"

lemma no_quantifier_quoted: "valid_string w \<Longrightarrow> no_quantifier t \<Longrightarrow> no_quantifier (quoteBytesForRegexp w @ t)"
  using quote_rune_no_quantifier by (cases "runes w") (auto simp: quote_valid)

lemma items_word: "valid_string w \<Longrightarrow> no_quantifier t \<Longrightarrow>
   items grp (quoteBytesForRegexp w @ t) = map_option (\<lambda>(es, v). (map RLit (runes w) @ es, v)) (items grp t)"
  using valid_string_scalar by (simp add: quote_valid items_quote)

lemma joined_rx_Cons: "ws \<noteq> [] \<Longrightarrow> joined_rx (w # ws) = map RLit w @ RPlus (RClass blank_class) # joined_rx ws"
  by (cases ws) simp_all

lemma items_joined:
  assumes "\<forall>w \<in> set toks. valid_string w" and "no_quantifier t"
  shows "no_quantifier (str_join (map quoteBytesForRegexp toks) (blanks @ ''+'') @ t) \<and>
    items grp (str_join (map quoteBytesForRegexp toks) (blanks @ ''+'') @ t) =
      map_option (\<lambda>(es, v). (joined_rx (map runes toks) @ es, v)) (items grp t)"
  using assms(1)
proof (induction toks)
  case Nil
  then show ?case using assms(2) by (cases "items grp t") auto
next
  case (Cons w toks)
  then show ?case using assms(2)
    by (cases "toks = []"; cases "items grp t") (simp_all add: joined_rx_Cons str_join_Cons items_word no_quantifier_quoted
      items_blanks(1) [simplified] option.map_comp comp_def case_prod_beta)
qed

lemma parse_prefix_pattern:
  assumes "\<forall>w \<in> set toks. valid_string w"
  shows "parse_rx (prefix_pattern toks) =
    Some (RBegin # (joined_rx (map runes toks) @ [tail_rx, RStar (RClass blank_class)]) @ [REnd])"
proof -
  let ?t = "tailGroup @ blanks @ ''*'' @ anchorz"
  have "items False ?t = Some ([tail_rx, RStar (RClass blank_class), REnd], [])"
    using items_blanks(2) [of anchorz False] by (simp add: items_tail_group items_anchorz)
  then show ?thesis using items_joined [OF assms, of ?t False]
    by (simp add: parse_rx_items prefix_pattern_def items_anchorA)
qed

section \<open>Lemmas: what a prefix pattern admits\<close>

text \<open>
  The reading of a prefix approval: the command starts without a blank, and its words are the
  approved ones followed by plain tail tokens.
\<close>

definition blank :: "nat \<Rightarrow> bool" where
  "blank r \<longleftrightarrow> r = 32 \<or> r = 9"

definition admits :: "nat list list \<Rightarrow> nat list \<Rightarrow> bool" where
  "admits ws cmd \<longleftrightarrow> \<not> (cmd \<noteq> [] \<and> blank (hd cmd)) \<and>
     prefix ws (words_by blank cmd) \<and> list_all (list_all tail_rune) (drop (length ws) (words_by blank cmd))"

lemma words_by_Nil [simp]: "words_by p [] = []"
  by (subst words_by.simps) simp

lemma words_by_skip: "p x \<Longrightarrow> words_by p (x # xs) = words_by p xs"
  by (subst (1 2) words_by.simps) simp

lemma words_by_drop: "words_by p (dropWhile p xs) = words_by p xs"
  by (induction xs) (simp_all add: words_by_skip)

lemma words_by_word: "xs \<noteq> [] \<Longrightarrow> \<not> p (hd xs) \<Longrightarrow>
   words_by p xs = takeWhile (\<lambda>x. \<not> p x) xs # words_by p (dropWhile (\<lambda>x. \<not> p x) xs)"
  by (cases xs; subst (1) words_by.simps) auto

lemma words_by_blanks: "list_all p b \<Longrightarrow> words_by p (b @ xs) = words_by p xs"
  by (induction b) (simp_all add: words_by_skip)

lemma takeWhile_boundary: "list_all (\<lambda>x. \<not> p x) t \<Longrightarrow> v = [] \<or> p (hd v) \<Longrightarrow>
   takeWhile (\<lambda>x. \<not> p x) (t @ v) = t \<and> dropWhile (\<lambda>x. \<not> p x) (t @ v) = v"
  by (induction t) (cases v; auto)+

lemma words_by_step: "t \<noteq> [] \<Longrightarrow> list_all (\<lambda>x. \<not> p x) t \<Longrightarrow> v = [] \<or> p (hd v) \<Longrightarrow> words_by p (t @ v) = t # words_by p v"
  using takeWhile_boundary [of p t v] by (cases t) (auto simp: words_by_word)

lemma drop_takeWhile_hd: "dropWhile p xs = [] \<or> \<not> p (hd (dropWhile p xs))"
  using hd_dropWhile by fast

lemma tail_rune_not_blank: "tail_rune r \<Longrightarrow> \<not> blank r"
  by (auto simp: tail_rune_def blank_def)

lemma tail_not_blank: "list_all tail_rune t \<Longrightarrow> list_all (\<lambda>x. \<not> blank x) t"
  by (auto simp: list_all_iff tail_rune_not_blank)

lemma in_blank_class_fun: "in_class blank_class = blank" "in_class tail_class = tail_rune"
  by (auto simp: blank_def)

text \<open>The tail: nothing, or blanks and plain tokens.\<close>

definition tail_text :: "nat list \<Rightarrow> bool" where
  "tail_text v \<longleftrightarrow> (v = [] \<or> blank (hd v)) \<and> list_all (list_all tail_rune) (words_by blank v)"

lemma tail_text_blanks: "list_all blank b \<Longrightarrow> tail_text b"
  using words_by_blanks [of blank b "[]"] by (cases b) (auto simp: tail_text_def)

lemma tail_text_step: "b \<noteq> [] \<Longrightarrow> list_all blank b \<Longrightarrow> t \<noteq> [] \<Longrightarrow> list_all tail_rune t \<Longrightarrow> tail_text v \<Longrightarrow> tail_text (b @ t @ v)"
  by (cases b) (auto simp: tail_text_def words_by_blanks words_by_skip words_by_step tail_not_blank)

lemma tail_lang_sound: "in_lang e u \<Longrightarrow> e = tail_rx \<Longrightarrow> list_all blank b \<Longrightarrow> tail_text (u @ b)"
proof (induction rule: in_lang.induct)
  case (il_star e u v)
  then obtain b' t where "u = b' @ t" "b' \<noteq> []" "list_all blank b'" "t \<noteq> []" "list_all tail_rune t"
    by (auto simp: tail_rx_def in_lang_plus_class in_blank_class_fun)
  then show ?case using il_star by (simp add: tail_text_step)
qed (auto simp: tail_rx_def tail_text_blanks)

lemma tail_lang_complete: "tail_text v \<Longrightarrow> \<exists>u b. v = u @ b \<and> in_lang tail_rx u \<and> list_all blank b"
proof (induction "length v" arbitrary: v rule: less_induct)
  case less
  define b where "b = takeWhile blank v"
  define ys where "ys = dropWhile blank v"
  have v: "v = b @ ys" and b: "list_all blank b" by (auto simp: b_def ys_def list_all_iff dest: set_takeWhileD)
  show ?case
  proof (cases "ys = []")
    case True
    then show ?thesis using v b unfolding tail_rx_def by (intro exI [of _ "[]"] exI [of _ b]) (auto intro: il_star_nil)
  next
    case False
    then have ny: "\<not> blank (hd ys)" using drop_takeWhile_hd [of blank v] unfolding ys_def by blast
    define t where "t = takeWhile (\<lambda>x. \<not> blank x) ys"
    define w where "w = dropWhile (\<lambda>x. \<not> blank x) ys"
    have y: "ys = t @ w" and t: "t \<noteq> []" using ny False by (auto simp: t_def w_def takeWhile_eq_Nil_iff)
    have wd: "words_by blank v = t # words_by blank w"
      using words_by_word [of ys blank, OF False ny] by (simp add: v words_by_blanks b t_def w_def)
    have wb: "w = [] \<or> blank (hd w)" using drop_takeWhile_hd [of "\<lambda>x. \<not> blank x" ys] by (simp add: w_def)
    have bn: "b \<noteq> []" using less.prems False ny v by (auto simp: tail_text_def)
    have tt: "list_all tail_rune t" and tw: "tail_text w" using less.prems wd wb by (auto simp: tail_text_def)
    obtain u b' where w: "w = u @ b'" "in_lang tail_rx u" "list_all blank b'"
      using less.hyps [OF _ tw] v y t by auto
    have "in_lang (RCat [RPlus (RClass blank_class), RPlus (RClass tail_class)]) (b @ t)"
      using b bn t tt by (auto simp: in_lang_plus_class in_blank_class_fun)
    from il_star [OF this w(2) [unfolded tail_rx_def]] have "in_lang tail_rx ((b @ t) @ u)" by (simp add: tail_rx_def)
    then show ?thesis using v y w by (intro exI [of _ "(b @ t) @ u"] exI [of _ b']) simp
  qed
qed

lemma tail_lang: "in_lang (RCat [tail_rx, RStar (RClass blank_class)]) v \<longleftrightarrow> tail_text v"
  using tail_lang_complete [of v] tail_lang_sound [OF _ refl]
  by (auto simp: in_lang_star_class in_blank_class_fun)

definition word :: "nat list \<Rightarrow> bool" where
  "word w \<longleftrightarrow> w \<noteq> [] \<and> list_all (\<lambda>r. \<not> blank r) w"

lemma admits_word: "word w \<Longrightarrow> admits (w # ws) cmd \<longleftrightarrow>
   (\<exists>v. cmd = w @ v \<and> (v = [] \<or> blank (hd v)) \<and> prefix ws (words_by blank v) \<and>
      list_all (list_all tail_rune) (drop (length ws) (words_by blank v)))" (is "_ \<Longrightarrow> ?l \<longleftrightarrow> ?r")
proof
  assume w: "word w" and l: ?l
  then have ne: "cmd \<noteq> []" by (auto simp: admits_def)
  with l have nb: "\<not> blank (hd cmd)" by (simp add: admits_def)
  let ?v = "dropWhile (\<lambda>x. \<not> blank x) cmd"
  have "takeWhile (\<lambda>x. \<not> blank x) cmd = w" using l words_by_word [of cmd blank, OF ne nb] by (simp add: admits_def)
  then have "cmd = w @ ?v" using takeWhile_dropWhile_id [of "\<lambda>x. \<not> blank x" cmd] by simp
  moreover have "?v = [] \<or> blank (hd ?v)" using drop_takeWhile_hd [of "\<lambda>x. \<not> blank x" cmd] by simp
  ultimately show ?r using l words_by_word [of cmd blank, OF ne nb] by (intro exI [of _ ?v]) (simp add: admits_def)
next
  assume w: "word w" and ?r
  then obtain v where v: "cmd = w @ v" "v = [] \<or> blank (hd v)" "prefix ws (words_by blank v)"
     "list_all (list_all tail_rune) (drop (length ws) (words_by blank v))" by blast
  have "words_by blank cmd = w # words_by blank v" "\<not> blank (hd cmd)"
    using w v(1,2) words_by_step [of w blank v] by (cases w; simp add: word_def)+
  then show ?l using v by (simp add: admits_def)
qed

lemma prefix_lang:
  assumes "ws \<noteq> []" and "\<forall>w \<in> set ws. word w"
  shows "in_lang (RCat (joined_rx ws @ [tail_rx, RStar (RClass blank_class)])) cmd \<longleftrightarrow> admits ws cmd"
  using assms
proof (induction ws arbitrary: cmd)
  case (Cons w ws)
  then have w: "word w" by simp
  show ?case
  proof (cases "ws = []")
    case True
    then show ?thesis using w by (simp del: in_lang_cat add: in_lang_lits tail_lang admits_word tail_text_def)
  next
    case False
    have "in_lang (RCat (RPlus (RClass blank_class) # joined_rx ws @ [tail_rx, RStar (RClass blank_class)])) v \<longleftrightarrow>
        (v = [] \<or> blank (hd v)) \<and> prefix ws (words_by blank v) \<and> list_all (list_all tail_rune) (drop (length ws) (words_by blank v))"
      (is "?l \<longleftrightarrow> ?r") for v
    proof
      assume ?l
      then obtain b t where v: "v = b @ t" "b \<noteq> []" "list_all blank b" "admits ws t"
        using Cons.IH False Cons.prems(2) by (auto simp: in_lang_plus_class in_blank_class_fun simp del: append_Cons)
      then show ?r by (cases b) (auto simp: admits_def words_by_blanks words_by_skip)
    next
      assume r: ?r
      let ?b = "takeWhile blank v" and ?t = "dropWhile blank v"
      have vn: "v \<noteq> []" using r False by auto
      have "admits ws ?t" using r drop_takeWhile_hd [of blank v] by (simp add: admits_def words_by_drop)
      moreover have "list_all blank ?b" by (auto simp: list_all_iff dest: set_takeWhileD)
      moreover have "?b \<noteq> []" using r vn by (simp add: takeWhile_eq_Nil_iff)
      moreover have "v = ?b @ ?t" by simp
      ultimately show ?l using Cons.IH [of ?t] False Cons.prems(2)
        by (simp only: in_lang_cat in_lang_plus_class in_blank_class_fun) (intro exI [of _ ?b] exI [of _ ?t], simp)
    qed
    then show ?thesis using w False
      by (simp del: in_lang_cat add: joined_rx_Cons in_lang_lits admits_word)
  qed
qed simp

section \<open>Lemmas: the shape of the patterns\<close>

text \<open>No \<open>\s\<close>, no \<open>.*\<close>, no line breaks, and nothing at the end that could complete one of them.\<close>

definition tame_pair :: "char \<Rightarrow> char \<Rightarrow> bool" where
  "tame_pair a b \<longleftrightarrow> \<not> (a = bslash \<and> b = CHR ''s'') \<and> \<not> (a = CHR ''.'' \<and> b = CHR ''*'')"

definition tame :: "string \<Rightarrow> bool" where
  "tame s \<longleftrightarrow> successively tame_pair s \<and> newline \<notin> set s \<and> CHR 0x0D \<notin> set s \<and>
     (s = [] \<or> last s \<noteq> bslash \<and> last s \<noteq> CHR ''.'')"

lemma tame_append: "tame s \<Longrightarrow> tame t \<Longrightarrow> tame (s @ t)"
  by (cases "t = []") (auto simp: tame_def successively_append_iff tame_pair_def)

lemma tame_concat: "\<forall>s \<in> set ss. tame s \<Longrightarrow> tame (concat ss)"
  by (induction ss) (simp_all add: tame_append, simp add: tame_def)

lemma tame_join: "\<forall>s \<in> set ss. tame s \<Longrightarrow> tame sep \<Longrightarrow> tame (str_join ss sep)"
proof (induction ss)
  case (Cons s ss)
  then show ?case by (cases "ss = []") (simp_all add: str_join_Cons tame_append)
qed (simp add: tame_def)

lemma sublist_pair: "sublist [a, b] s \<longleftrightarrow> \<not> successively (\<lambda>x y. \<not> (x = a \<and> y = b)) s"
proof (induction s)
  case (Cons x s)
  then show ?case by (cases s) (auto simp: sublist_Cons_right)
qed simp

lemma sublist_one: "sublist [a] s \<longleftrightarrow> a \<in> set s"
  by (induction s) (auto simp: sublist_Cons_right)

lemma tame_avoids:
  assumes "tame s"
  shows "\<not> str_contains s [bslash, CHR ''s'']" "\<not> str_contains s ''.*''"
    "\<not> str_contains s [newline]" "\<not> str_contains s [CHR 0x0D]"
  using assms successively_mono [of tame_pair s]
  by (auto simp: tame_def str_contains_def sublist_pair tame_pair_def sublist_one)

lemma tame_fixed: "tame anchorA" "tame anchorz" "tame blanks" "tame (blanks @ ''+'')" "tame (blanks @ ''*'')" "tame tailGroup"
  by (simp_all add: tame_def tame_pair_def anchorA_def anchorz_def blanks_def tailGroup_def tailTokenClass_def)

lemma hex_digit_tame: "n < 16 \<Longrightarrow> hex_digit n \<noteq> bslash \<and> hex_digit n \<noteq> CHR ''.'' \<and> hex_digit n \<noteq> newline \<and> hex_digit n \<noteq> CHR 0x0D"
proof -
  assume "n < 16"
  then have "byte (hex_digit n) \<le> 70" "48 \<le> byte (hex_digit n)" by (auto simp: hex_digit_def of_char_of)
  then show ?thesis by auto
qed

lemma plain_tame: "\<forall>c \<in> set s. c \<noteq> bslash \<and> c \<noteq> CHR ''.'' \<and> c \<noteq> newline \<and> c \<noteq> CHR 0x0D \<Longrightarrow> tame s"
proof (induction s)
  case (Cons c s)
  then show ?case by (cases s) (auto simp: tame_def tame_pair_def)
qed (simp add: tame_def)

lemma nat_hex_chars: "\<forall>c \<in> set (nat_hex n). c \<noteq> bslash \<and> c \<noteq> CHR ''.'' \<and> c \<noteq> newline \<and> c \<noteq> CHR 0x0D"
proof (induction n rule: nat_hex.induct)
  case (1 n)
  show ?case using 1 hex_digit_tame [of n] hex_digit_tame [of "n mod 16"]
    by (subst nat_hex.simps) auto
qed

lemma tame_quote_rune: "tame (quote_rune r)"
proof -
  have "tame (bslash # CHR ''x'' # s)" if "tame s" for s
    using tame_append [OF _ that, of "[bslash, CHR ''x'']"] by (simp add: tame_def tame_pair_def)
  moreover have "tame (CHR ''{'' # nat_hex r @ ''}'')" using nat_hex_chars [of r] by (intro plain_tame) auto
  moreover have "tame (hex2 r)" if "r < 128"
    using hex_digit_tame [of "r div 16"] hex_digit_tame [of "r mod 16"] that by (intro plain_tame) (auto simp: hex2_def)
  moreover have "tame [char_of r]" if "safe_literal r"
  proof -
    have nr: "r \<notin> {92, 46, 10, 13}" using that by (auto simp: safe_literal_def literalSafePunct_def)
    define c :: char where "c = char_of r"
    have "byte c = r" using safe_literal_ascii [OF that] by (simp add: c_def of_char_of)
    then have "c \<noteq> bslash \<and> c \<noteq> CHR ''.'' \<and> c \<noteq> newline \<and> c \<noteq> CHR 0x0D" using nr by auto
    then show ?thesis unfolding c_def [symmetric] by (intro plain_tame) auto
  qed
  ultimately show ?thesis by (simp add: quote_rune_def)
qed

lemma tame_quote: "valid_string s \<Longrightarrow> tame (quoteBytesForRegexp s)"
  by (simp add: quote_valid tame_concat tame_quote_rune)

lemma validate_tame: "tame s \<Longrightarrow> validateMatcherInvariant (anchorA @ s @ anchorz) = Inr ()"
  using tame_avoids [of "anchorA @ s @ anchorz"] tame_append tame_fixed
  by (simp add: validateMatcherInvariant_def has_prefix_def has_suffix_def suffix_def)

lemma validate_exact: "valid_string command \<Longrightarrow> validateMatcherInvariant (exact_pattern command) = Inr ()"
  by (simp add: exact_pattern_def validate_tame tame_quote)

lemma validate_prefix: "\<forall>w \<in> set toks. valid_string w \<Longrightarrow> validateMatcherInvariant (prefix_pattern toks) = Inr ()"
  using validate_tame [of "str_join (map quoteBytesForRegexp toks) (blanks @ ''+'') @ tailGroup @ blanks @ ''*''"]
    tame_join [of "map quoteBytesForRegexp toks" "blanks @ ''+''"]
  by (simp add: prefix_pattern_def tame_quote tame_fixed tame_append)

section \<open>Lemmas: words of a command\<close>

lemma ascii_unit: "b < 128 \<Longrightarrow> unbytes (encode_rune b) = [char_of b]"
  by (simp add: encode_ascii unbytes_def)

lemma space_not_high: "128 \<le> r \<Longrightarrow> c \<in> set (unbytes (encode_rune r)) \<Longrightarrow> 128 \<le> byte c"
  using encode_rune_high [of r] encode_rune_less [of _ r] by (auto simp: unbytes_def of_char_of)

lemma takeWhile_encode:
  assumes "byte c < 128"
  shows "takeWhile (\<lambda>x. x \<noteq> c) (encode_runes rs) = encode_runes (takeWhile (\<lambda>r. r \<noteq> byte c) rs) \<and>
    dropWhile (\<lambda>x. x \<noteq> c) (encode_runes rs) = encode_runes (dropWhile (\<lambda>r. r \<noteq> byte c) rs)"
proof (induction rs)
  case (Cons r rs)
  show ?case
  proof (cases "r = byte c")
    case True
    then show ?thesis using assms by (simp add: encode_runes_Cons ascii_unit)
  next
    case False
    then have "\<forall>x \<in> set (unbytes (encode_rune r)). x \<noteq> c" using ascii_in_encodes [OF assms, of "[r]"]
      by (auto simp: encode_runes_Cons)
    then show ?thesis using Cons False by (simp add: encode_runes_Cons)
  qed
qed simp

lemma dropWhile_encode:
  assumes "byte c < 128"
  shows "dropWhile (\<lambda>x. x = c) (encode_runes rs) = encode_runes (dropWhile (\<lambda>r. r = byte c) rs)"
proof (induction rs)
  case (Cons r rs)
  show ?case
  proof (cases "r = byte c")
    case True
    then show ?thesis using Cons assms by (simp add: encode_runes_Cons ascii_unit)
  next
    case False
    obtain x xs where x: "unbytes (encode_rune r) = x # xs" by (cases "unbytes (encode_rune r)") (auto simp: unbytes_def)
    then have "x \<noteq> c" using ascii_in_encodes [OF assms, of "[r]"] False by (auto simp: encode_runes_Cons)
    then show ?thesis using False x by (simp add: encode_runes_Cons)
  qed
qed simp

lemma encode_runes_empty: "encode_runes rs = [] \<longleftrightarrow> rs = []"
  by (cases rs) (auto simp: encode_runes_Cons unbytes_def)

lemma words_by_encode:
  assumes "byte c < 128"
  shows "words_by (\<lambda>x. x = c) (encode_runes rs) = map encode_runes (words_by (\<lambda>r. r = byte c) rs)"
proof (induction "length rs" arbitrary: rs rule: less_induct)
  case less
  let ?ys = "dropWhile (\<lambda>r. r = byte c) rs"
  show ?case
  proof (cases "?ys = []")
    case True
    then show ?thesis using dropWhile_encode [OF assms, of rs]
      by (subst (1 2) words_by.simps) (simp add: encode_runes_empty)
  next
    case False
    then have "hd ?ys \<noteq> byte c" using hd_dropWhile [OF False] by simp
    then have "length (dropWhile (\<lambda>r. r \<noteq> byte c) ?ys) < length ?ys"
      using False by (cases ?ys) (auto simp: le_imp_less_Suc length_dropWhile_le)
    then have "length (dropWhile (\<lambda>r. r \<noteq> byte c) ?ys) < length rs"
      using length_dropWhile_le [of "\<lambda>r. r = byte c" rs] by simp
    then show ?thesis using less [of "dropWhile (\<lambda>r. r \<noteq> byte c) ?ys"] False
        dropWhile_encode [OF assms, of rs] takeWhile_encode [OF assms, of ?ys]
      by (subst (1 2) words_by.simps) (simp add: encode_runes_empty Let_def)
  qed
qed

lemma set_words_by: "w \<in> set (words_by p xs) \<Longrightarrow> w \<noteq> [] \<and> (\<forall>x \<in> set w. \<not> p x \<and> x \<in> set xs)"
proof (induction p xs rule: words_by.induct)
  case (1 p xs)
  let ?ys = "dropWhile p xs"
  show ?case
  proof (cases "?ys = []")
    case True
    then show ?thesis using "1.prems" by (subst (asm) words_by.simps) simp
  next
    case False
    consider "w = takeWhile (\<lambda>x. \<not> p x) ?ys" | "w \<in> set (words_by p (dropWhile (\<lambda>x. \<not> p x) ?ys))"
      using "1.prems" False by (subst (asm) words_by.simps) (auto simp: Let_def split: if_splits)
    then show ?thesis
    proof cases
      case 1
      have "w \<noteq> []" using hd_dropWhile [OF False] False 1 by (cases ?ys) auto
      then show ?thesis using 1 by (auto dest!: set_takeWhileD dest: set_dropWhileD)
    next
      case 2
      from "1.IH" [OF refl False this] show ?thesis by (meson set_dropWhileD)
    qed
  qed
qed

lemma words_by_cong: "\<forall>x \<in> set xs. p x = q x \<Longrightarrow> words_by p xs = words_by q xs"
proof (induction p xs rule: words_by.induct)
  case (1 p xs)
  have e: "dropWhile p xs = dropWhile q xs" using "1.prems" by (auto intro: dropWhile_cong)
  let ?ys = "dropWhile q xs"
  have y: "\<forall>x \<in> set ?ys. p x = q x" using "1.prems" by (auto dest: set_dropWhileD)
  have t: "takeWhile (\<lambda>x. \<not> p x) ?ys = takeWhile (\<lambda>x. \<not> q x) ?ys"
    "dropWhile (\<lambda>x. \<not> p x) ?ys = dropWhile (\<lambda>x. \<not> q x) ?ys"
    using y by (auto intro: takeWhile_cong dropWhile_cong)
  have "?ys \<noteq> [] \<Longrightarrow> words_by p (dropWhile (\<lambda>x. \<not> p x) ?ys) = words_by q (dropWhile (\<lambda>x. \<not> q x) ?ys)"
    using "1.IH" [of ?ys] y e t by (auto dest: set_dropWhileD)
  then show ?case using e t by (subst (1 2) words_by.simps) (simp add: Let_def)
qed

text \<open>Past the scan there is no tab, so the two ways to cut words agree.\<close>

lemma scan_no_tab: "\<forall>r \<in> set rs. scalar r \<Longrightarrow> \<not> scanForExactOnly (encode_runes rs) \<Longrightarrow> 9 \<notin> set rs"
proof (induction rs)
  case (Cons r rs)
  show ?case
  proof (cases "r < 128")
    case True
    then have "byte (char_of r :: char) = r" by (simp add: of_char_of)
    then show ?thesis using Cons True by (auto simp: encode_runes_Cons ascii_unit split: if_splits)
  next
    case False
    obtain x xs where x: "encode_runes (r # rs) = x # xs" "128 \<le> byte x"
    proof (cases "unbytes (encode_rune r)")
      case (Cons x xs)
      then show ?thesis using that [of x "xs @ encode_runes rs"] space_not_high [of r x] False by (simp add: encode_runes_Cons)
    qed (simp add: unbytes_def)
    have "\<not> list_ex is_space (runes (encode_runes (r # rs)))"
      using Cons.prems(2) x by (auto split: if_splits)
    then have "\<not> list_ex is_space (r # rs)" using runes_encode [OF Cons.prems(1)] by simp
    then show ?thesis by (auto simp: list_ex_iff is_space_def)
  qed
qed simp

lemma split_words:
  assumes "valid_string command" and "\<not> scanForExactOnly command"
  shows "map runes (splitASCIIWords command) = words_by blank (runes command)"
    and "\<forall>w \<in> set (splitASCIIWords command). valid_string w \<and> word (runes w)"
proof -
  define rs where "rs = runes command"
  have sc: "\<forall>r \<in> set rs. scalar r" and c: "command = encode_runes rs"
    using valid_string_scalar [OF assms(1)] valid_string_encode [OF assms(1)] by (auto simp: rs_def)
  have nt: "9 \<notin> set rs" using scan_no_tab [OF sc] assms(2) c by simp
  have b: "words_by (\<lambda>r. r = 32) rs = words_by blank rs"
    using nt by (intro words_by_cong) (auto simp: blank_def)
  have s: "splitASCIIWords command = map encode_runes (words_by blank rs)"
    using words_by_encode [of "CHR '' ''" rs] b by (simp add: splitASCIIWords_def c)
  have ws: "w \<noteq> [] \<and> (\<forall>r \<in> set w. \<not> blank r \<and> scalar r)" if "w \<in> set (words_by blank rs)" for w
    using set_words_by [OF that] sc by auto
  have "map runes (map encode_runes (words_by blank rs)) = words_by blank rs"
    using ws by (simp add: map_idI runes_encode)
  then show "map runes (splitASCIIWords command) = words_by blank (runes command)" by (simp only: s rs_def)
  show "\<forall>w \<in> set (splitASCIIWords command). valid_string w \<and> word (runes w)"
    using ws by (auto simp: s valid_encode_runes runes_encode word_def list_all_iff)
qed

lemma tail_token: "list_all isTailByte w \<Longrightarrow> list_all tail_rune (runes w)"
proof -
  assume w: "list_all isTailByte w"
  then have "ascii w" by (auto simp: ascii_def list_all_iff isTailByte_def tail_rune_def)
  then show ?thesis using w by (simp add: runes_ascii list_all_iff isTailByte_def)
qed

section \<open>The interface to regular expressions\<close>

text \<open>
  What the matchers rely on: the patterns the program writes compile, match what they read as,
  and parse into the shape the exactness check looks for.
\<close>

locale regex_engine =
  fixes E :: engine
  assumes compile_exact: "valid_string c \<Longrightarrow> \<exists>f. eng_compile E (exact_pattern c) = Some f \<and> (\<forall>t. f t \<longleftrightarrow> runes t = runes c)"
    and parse_exact: "valid_string c \<Longrightarrow>
      eng_parse E (exact_pattern c) = Some (NBeginText # (if c = [] then [] else [NLiteral (runes c)]) @ [NEndText])"
    and compile_prefix: "ws \<noteq> [] \<Longrightarrow> \<forall>w \<in> set ws. valid_string w \<and> word (runes w) \<Longrightarrow>
      \<exists>f. eng_compile E (prefix_pattern ws) = Some f \<and> (\<forall>t. f t \<longleftrightarrow> admits (map runes ws) (runes t))"
begin

lemma compiled_exact: "valid_string c \<Longrightarrow> \<exists>f. compileMatcher E (exact_pattern c) = Inr f \<and> (\<forall>t. f t \<longleftrightarrow> runes t = runes c)"
  using compile_exact by (fastforce simp: compileMatcher_def validate_exact)

lemma compiled_prefix: "ws \<noteq> [] \<Longrightarrow> \<forall>w \<in> set ws. valid_string w \<and> word (runes w) \<Longrightarrow>
   \<exists>f. compileMatcher E (prefix_pattern ws) = Inr f \<and> (\<forall>t. f t \<longleftrightarrow> admits (map runes ws) (runes t))"
  using compile_prefix [of ws] by (auto simp: compileMatcher_def validate_prefix)

lemma exact_literal: "valid_string c \<Longrightarrow> assertExactLiteral E (exact_pattern c) c = Inr ()"
  by (simp add: assertExactLiteral_def parse_exact valid_string_encode)

lemma exactMatcher_total: "valid_string c \<Longrightarrow> exactMatcher E c p = Inr
   \<lparr>m_Kind = MatcherExact, m_Regex = exact_pattern c, m_Prefix = [], m_Promotable = p, m_SourceCmd = c, m_Task = None\<rparr>"
  using compiled_exact [of c] by (auto simp: exactMatcher_def newMatcher_def exact_literal)

lemma prefixMatcher_total: "ws \<noteq> [] \<Longrightarrow> \<forall>w \<in> set ws. valid_string w \<and> word (runes w) \<Longrightarrow>
   admits (map runes ws) (runes c) \<Longrightarrow> prefixMatcher E c ws p = Inr
   \<lparr>m_Kind = MatcherPrefix, m_Regex = prefix_pattern ws, m_Prefix = ws, m_Promotable = p, m_SourceCmd = c, m_Task = None\<rparr>"
  using compiled_prefix [of ws] by (auto simp: prefixMatcher_def newMatcher_def MatcherExact_def MatcherPrefix_def)

lemma Exact_cases: "Exact E c =
   (if CHR 0x00 \<in> set c then Inl ErrNULCommand else if \<not> valid_string c then Inl ErrInvalidUTF8Command
    else Inr \<lparr>m_Kind = MatcherExact, m_Regex = exact_pattern c, m_Prefix = [], m_Promotable = True, m_SourceCmd = c, m_Task = None\<rparr>)"
  by (simp add: Exact_def exactMatcher_total)

end

lemma empty_runes: "valid_string c \<Longrightarrow> runes c = [] \<longleftrightarrow> c = []"
  using valid_string_encode [of c] by (auto simp: encode_runes_empty)

lemma go_engine_laws: "regex_engine (go_engine other)"
proof
  fix c
  assume v: "valid_string c"
  show "\<exists>f. eng_compile (go_engine other) (exact_pattern c) = Some f \<and> (\<forall>t. f t \<longleftrightarrow> runes t = runes c)"
    by (simp add: go_engine_def go_regexp_def parse_exact_pattern [OF v] search_exact)
  show "eng_parse (go_engine other) (exact_pattern c) =
      Some (NBeginText # (if c = [] then [] else [NLiteral (runes c)]) @ [NEndText])"
    using empty_runes [OF v] by (simp add: go_engine_def parse_exact_pattern [OF v] nodes_of_lits)
next
  fix ws :: "string list"
  assume "ws \<noteq> []" and w: "\<forall>w \<in> set ws. valid_string w \<and> word (runes w)"
  then have "parse_rx (prefix_pattern ws) =
      Some (RBegin # (joined_rx (map runes ws) @ [tail_rx, RStar (RClass blank_class)]) @ [REnd])"
    by (simp add: parse_prefix_pattern)
  moreover have "anchor_free e" if "e \<in> set (joined_rx rs)" for e rs
    using that by (induction rs rule: joined_rx.induct) auto
  then have "list_all anchor_free (joined_rx (map runes ws) @ [tail_rx, RStar (RClass blank_class)])"
    by (auto simp: list_all_iff tail_rx_def)
  ultimately show "\<exists>f. eng_compile (go_engine other) (prefix_pattern ws) = Some f \<and> (\<forall>t. f t \<longleftrightarrow> admits (map runes ws) (runes t))"
    using \<open>ws \<noteq> []\<close> w search_anchored
    by (simp only: go_engine_def go_regexp_def engine.simps option.case) (simp add: prefix_lang)
qed

interpretation go: regex_engine "go_engine other" for other
  by (rule go_engine_laws)
end
