(* ===== verification/Task.thy ===== *)
theory Task
  imports Complex_Main Matching
begin

text \<open>
  \<open>internal/approval/task.go\<close>: the recogniser of the literal operations a task permission can
  cover, the permission it derives and the match of a command against a permission; and
  \<open>Matcher.Match\<close> of \<open>internal/approval/matcher.go\<close>. \<open>url.Parse\<close> and \<open>strconv.ParseFloat\<close> are
  the functions of a record \<open>libs\<close>. A failed recognition is \<open>None\<close>: every caller drops what the
  code returns beside \<open>false\<close>. A nil slice and an empty one are the same list.
\<close>

section \<open>Library values\<close>

record URL =
  url_Scheme :: string
  url_Host :: string
  url_User :: "string option"
  url_Fragment :: string

datatype float64 = NaN | Infinite bool | Finite rat

record libs =
  lib_url :: "string \<Rightarrow> URL option"
  lib_float :: "string \<Rightarrow> float64 option"

definition decimal_digit :: "char \<Rightarrow> bool" where
  "decimal_digit c \<longleftrightarrow> 48 \<le> byte c \<and> byte c \<le> 57"

text \<open>\<open>strconv.Atoi\<close> on 64 bits.\<close>

definition digits_value :: "string \<Rightarrow> nat" where
  "digits_value s = foldl (\<lambda>n c. 10 * n + (byte c - 48)) 0 s"

definition Atoi :: "string \<Rightarrow> int option" where
  "Atoi s =
     (let neg = prefix ''-'' s; body = (if prefix ''-'' s \<or> prefix ''+'' s then tl s else s);
          n = (if neg then - int (digits_value body) else int (digits_value body))
      in if body = [] \<or> \<not> list_all decimal_digit body then None
         else if n < - (2 ^ 63) \<or> 2 ^ 63 \<le> n then None else Some n)"

definition path_Join :: "string \<Rightarrow> string \<Rightarrow> string" where
  "path_Join a b =
     (if a = [] then (if b = [] then [] else path_Clean b)
      else path_Clean (if b = [] then a else a @ ''/'' @ b))"

section \<open>Values of options\<close>

definition resource_rune :: "nat \<Rightarrow> bool" where
  "resource_rune r \<longleftrightarrow> 97 \<le> r \<and> r \<le> 122 \<or> 65 \<le> r \<and> r \<le> 90 \<or> 48 \<le> r \<and> r \<le> 57 \<or>
     r \<in> set (map byte ''_@.:-'')"

definition resourceName :: "string \<Rightarrow> bool" where
  "resourceName s \<longleftrightarrow> s \<noteq> [] \<and> \<not> has_prefix s ''-'' \<and> list_all resource_rune (runes s)"

definition boundedInt :: "string \<Rightarrow> int \<Rightarrow> bool" where
  "boundedInt s limit = (case Atoi s of None \<Rightarrow> False | Some n \<Rightarrow> 0 \<le> n \<and> n \<le> limit)"

definition boundedSeconds :: "libs \<Rightarrow> string \<Rightarrow> rat \<Rightarrow> bool" where
  "boundedSeconds L s limit = (case lib_float L s of Some (Finite n) \<Rightarrow> 0 < n \<and> n \<le> limit | _ \<Rightarrow> False)"

definition timeValue :: "string \<Rightarrow> bool" where
  "timeValue s \<longleftrightarrow> s \<noteq> [] \<and> \<not> has_prefix s ''-'' \<and>
     \<not> list_ex (\<lambda>c. c \<in> {CHR 0x00, CHR 0x0D, newline}) s"

definition fixedHTTPURL :: "libs \<Rightarrow> string \<Rightarrow> bool" where
  "fixedHTTPURL L raw = (case lib_url L raw of
     None \<Rightarrow> False
   | Some u \<Rightarrow> (url_Scheme u = ''http'' \<or> url_Scheme u = ''https'') \<and>
       url_Host u \<noteq> [] \<and> url_User u = None \<and> url_Fragment u = [])"

definition fixedHashPath :: "string \<Rightarrow> string \<Rightarrow> string option" where
  "fixedHashPath cwd raw =
     (if raw = [] \<or> raw = ''-'' \<or> has_prefix raw ''-'' \<or> list_ex (\<lambda>c. c \<in> set ''*?[{'') raw \<or>
         list_ex (\<lambda>c. c \<in> {CHR 0x00, CHR 0x0D, newline}) raw \<or> has_suffix raw ''/'' then None
      else if path_IsAbs raw then
        (let clean = path_Clean raw in if clean = raw \<and> clean \<noteq> ''/'' then Some clean else None)
      else if cwd = [] \<or> \<not> path_IsAbs cwd \<or> path_Clean cwd \<noteq> cwd then None
      else let clean = path_Clean raw in
        if clean = ''.'' \<or> clean \<noteq> raw \<or> has_prefix clean ''../'' \<or> clean = ''..'' \<or> str_contains clean ''/../'' then None
        else Some (path_Join cwd clean))"

section \<open>Recognising an operation\<close>

definition service_reads :: "string list" where
  "service_reads = [''status'', ''show'', ''is-active'', ''is-enabled'']"

definition service_writes :: "string list" where
  "service_writes = [''restart'', ''reload'']"

definition compose_reads :: "string list" where
  "compose_reads = [''ps'', ''logs'']"

definition compose_writes :: "string list" where
  "compose_writes = [''build'', ''pull'', ''up'', ''restart'']"

definition systemctl_flags :: "string list" where
  "systemctl_flags = [''--no-pager'', ''--full'', ''-l'']"

text \<open>The loop over \<open>args[2:]\<close> of systemctl, collecting the units.\<close>

fun systemctl_args :: "string \<Rightarrow> string list \<Rightarrow> string list option" where
  "systemctl_args profile [] = Some []"
| "systemctl_args profile (arg # args) =
     (if arg \<in> set systemctl_flags then
        (if profile \<noteq> ''service-diagnostics'' then None else systemctl_args profile args)
      else if \<not> resourceName arg then None
      else map_option (\<lambda>rs. arg # rs) (systemctl_args profile args))"

definition journal_plain :: "string list" where
  "journal_plain = [''--no-pager'', ''--utc'', ''--reverse'', ''-r'']"
definition journal_unit :: "string list" where
  "journal_unit = [''-u'', ''--unit'']"
definition journal_lines :: "string list" where
  "journal_lines = [''-n'', ''--lines'']"
definition journal_times :: "string list" where
  "journal_times = [''--since'', ''--until'', ''-S'', ''-U'']"
definition journal_output :: "string list" where
  "journal_output = [''-o'', ''--output'']"
definition journal_formats :: "string list" where
  "journal_formats = [''short'', ''short-iso'', ''short-precise'', ''cat'', ''json'', ''json-pretty'']"

fun journalctl_args :: "string list \<Rightarrow> string list \<Rightarrow> bool \<Rightarrow> (string list \<times> bool) option" where
  "journalctl_args [] res bounded = Some (res, bounded)"
| "journalctl_args (arg # args) res bounded =
     (if arg \<in> set journal_plain then journalctl_args args res bounded
      else case args of
        [] \<Rightarrow> None
      | val # args' \<Rightarrow>
          if arg \<in> set journal_unit then
            (if \<not> resourceName val then None else journalctl_args args' (res @ [val]) bounded)
          else if arg \<in> set journal_lines then
            (if \<not> boundedInt val 1000 then None else journalctl_args args' res True)
          else if arg \<in> set journal_times then
            (if \<not> timeValue val then None else journalctl_args args' res bounded)
          else if arg \<in> set journal_output then
            (if val \<notin> set journal_formats then None
             else journalctl_args args' res bounded)
          else None)"

definition absolute_clean :: "string \<Rightarrow> bool" where
  "absolute_clean v \<longleftrightarrow> path_IsAbs v \<and> path_Clean v = v"

definition compose_file :: "string list" where
  "compose_file = [''-f'', ''--file'']"
definition compose_project :: "string list" where
  "compose_project = [''-p'', ''--project-name'']"
definition compose_directory :: "string list" where
  "compose_directory = [''--project-directory'']"

text \<open>The global options of docker compose: what is pinned, how many files, the rest.\<close>

fun compose_globals :: "string list \<Rightarrow> string list \<Rightarrow> nat \<Rightarrow> (string list \<times> nat \<times> string list) option" where
  "compose_globals [] pinned files = Some (pinned, files, [])"
| "compose_globals [flag] pinned files =
     (if has_prefix flag ''-'' then None else Some (pinned, files, [flag]))"
| "compose_globals (flag # val # args) pinned files =
     (if \<not> has_prefix flag ''-'' then Some (pinned, files, flag # val # args)
      else if flag \<in> set compose_file then
        (if \<not> absolute_clean val then None else compose_globals args (pinned @ [flag, val]) (Suc files))
      else if flag \<in> set compose_project then
        (if \<not> resourceName val then None else compose_globals args (pinned @ [flag, val]) files)
      else if flag \<in> set compose_directory then
        (if \<not> absolute_clean val then None else compose_globals args (pinned @ [flag, val]) files)
      else None)"

definition compose_flags :: "string \<Rightarrow> string list" where
  "compose_flags verb =
     (if verb = ''ps'' then [''-a'', ''--all'', ''-q'', ''--quiet'']
      else if verb = ''logs'' then [''-t'', ''--timestamps'', ''--no-color'', ''--no-log-prefix'']
      else if verb = ''build'' then [''--no-cache'', ''--pull'', ''-q'', ''--quiet'']
      else if verb = ''pull'' then [''-q'', ''--quiet'']
      else if verb = ''up'' then [''-d'', ''--detach'', ''--build'', ''--no-build'', ''--no-deps'', ''--force-recreate'', ''--wait'']
      else [])"

definition opt_tail :: string where "opt_tail = ''--tail''"
definition format_json :: string where "format_json = ''json''"

definition log_option :: "string \<Rightarrow> string \<Rightarrow> bool" where
  "log_option verb arg \<longleftrightarrow> verb = ''logs'' \<and> arg \<in> {''--tail'', ''--since'', ''--until''}"

definition timeout_option :: "string \<Rightarrow> string \<Rightarrow> bool" where
  "timeout_option verb arg \<longleftrightarrow>
     verb = ''restart'' \<and> arg \<in> {''--timeout'', ''-t''} \<or> verb = ''up'' \<and> arg = ''--wait-timeout''"

definition format_option :: "string \<Rightarrow> string \<Rightarrow> bool" where
  "format_option verb arg \<longleftrightarrow> verb = ''ps'' \<and> arg = ''--format''"

fun compose_args :: "string \<Rightarrow> string list \<Rightarrow> string list \<Rightarrow> bool \<Rightarrow> (string list \<times> bool) option" where
  "compose_args verb [] res bounded = Some (res, bounded)"
| "compose_args verb (arg # args) res bounded =
     (if \<not> has_prefix arg ''-'' then
        (if \<not> resourceName arg then None else compose_args verb args (res @ [arg]) bounded)
      else if arg \<in> set (compose_flags verb) then compose_args verb args res bounded
      else case args of
        [] \<Rightarrow> None
      | val # args' \<Rightarrow>
          if log_option verb arg then
            (if arg = opt_tail then
               (if \<not> boundedInt val 1000 then None else compose_args verb args' res True)
             else if \<not> timeValue val then None else compose_args verb args' res bounded)
          else if timeout_option verb arg then
            (if \<not> boundedInt val 600 then None else compose_args verb args' res bounded)
          else if format_option verb arg then
            (if val \<noteq> format_json then None else compose_args verb args' res bounded)
          else None)"

definition curl_flags :: "string list" where
  "curl_flags = [''--fail'', ''-f'', ''--silent'', ''-s'', ''--show-error'', ''-S'']"
definition curl_timeouts :: "string list" where
  "curl_timeouts = [''--max-time'', ''-m'', ''--connect-timeout'']"
definition curl_max_time :: string where "curl_max_time = ''--max-time=''"
definition curl_connect :: string where "curl_connect = ''--connect-timeout=''"

fun curl_args :: "libs \<Rightarrow> string list \<Rightarrow> string \<Rightarrow> bool \<Rightarrow> (string \<times> bool) option" where
  "curl_args L [] url maxTime = Some (url, maxTime)"
| "curl_args L (arg # args) url maxTime =
     (if arg \<in> set curl_flags then curl_args L args url maxTime
      else if arg \<in> set curl_timeouts then
        (case args of
           [] \<Rightarrow> None
         | val # args' \<Rightarrow> if \<not> boundedSeconds L val 30 then None
             else curl_args L args' url (maxTime \<or> arg \<noteq> last curl_timeouts))
      else if has_prefix arg curl_max_time then
        (if \<not> boundedSeconds L (trim_prefix arg curl_max_time) 30 then None else curl_args L args url True)
      else if has_prefix arg curl_connect then
        (if \<not> boundedSeconds L (trim_prefix arg curl_connect) 30 then None else curl_args L args url maxTime)
      else if has_prefix arg ''-'' \<or> url \<noteq> [] \<or> \<not> fixedHTTPURL L arg then None
      else curl_args L args arg maxTime)"

fun hash_args :: "string \<Rightarrow> string list \<Rightarrow> string list option" where
  "hash_args cwd [] = Some []"
| "hash_args cwd (arg # args) = (case fixedHashPath cwd arg of
     None \<Rightarrow> None
   | Some r \<Rightarrow> map_option (\<lambda>rs. r # rs) (hash_args cwd args))"

text \<open>The launcher in front of the tool, and the tool's name without its directory.\<close>

definition split_launcher :: "string list \<Rightarrow> string list \<times> string list" where
  "split_launcher args =
     (if hd args = ''sudo'' \<or> hd args = ''/usr/bin/sudo'' then
        (if tl args \<noteq> [] \<and> (args ! 1 = ''-n'' \<or> args ! 1 = ''--non-interactive'')
         then ([hd args, args ! 1], drop 2 args) else ([hd args], tl args))
      else ([], args))"

definition tool_name :: "string \<Rightarrow> string" where
  "tool_name arg =
     (if has_prefix arg ''/usr/bin/'' \<or> has_prefix arg ''/bin/''
      then trim_prefix (trim_prefix arg ''/usr/bin/'') ''/bin/'' else arg)"

definition service_op :: "TaskPermission \<Rightarrow> string list \<Rightarrow> (TaskPermission \<times> string) option" where
  "service_op p args =
     (let verb = args ! 1;
          profile = (if verb \<in> set service_writes then ''service-maintenance'' else ''service-diagnostics'')
      in if verb \<notin> set service_reads \<and> verb \<notin> set service_writes then None
         else case systemctl_args profile (drop 2 args) of
           None \<Rightarrow> None
         | Some res \<Rightarrow> if res = [] then None else Some (p\<lparr>tp_Profile := profile, tp_Resources := res\<rparr>, verb))"

definition journal_op :: "TaskPermission \<Rightarrow> string list \<Rightarrow> (TaskPermission \<times> string) option" where
  "journal_op p args =
     (case journalctl_args (tl args) [] False of
        None \<Rightarrow> None
      | Some (res, bounded) \<Rightarrow>
          if res \<noteq> [] \<and> bounded then Some (p\<lparr>tp_Profile := ''service-diagnostics'', tp_Resources := res\<rparr>, ''logs'') else None)"

definition compose_op :: "TaskPermission \<Rightarrow> string list \<Rightarrow> (TaskPermission \<times> string) option" where
  "compose_op p args =
     (if args ! 1 \<noteq> ''compose'' then None
      else case compose_globals (drop 2 args) [args ! 0, ''compose''] 0 of
        None \<Rightarrow> None
      | Some (pinned, files, rest) \<Rightarrow>
          (if files = 0 \<or> rest = [] then None
           else let verb = hd rest;
                    profile = (if verb \<in> set compose_reads then ''compose-diagnostics'' else ''compose-maintenance'')
             in if verb \<notin> set compose_reads \<and> verb \<notin> set compose_writes then None
                else case compose_args verb (tl rest) [] (verb \<noteq> ''logs'') of
                  None \<Rightarrow> None
                | Some (res, bounded) \<Rightarrow>
                    if bounded then Some (p\<lparr>tp_Profile := profile, tp_Compose := pinned, tp_Resources := res\<rparr>, verb) else None))"

definition curl_op :: "libs \<Rightarrow> TaskPermission \<Rightarrow> string list \<Rightarrow> (TaskPermission \<times> string) option" where
  "curl_op L p args =
     (if length args < 4 \<or> args ! 1 \<noteq> ''-q'' \<and> args ! 1 \<noteq> ''--disable'' then None
      else case curl_args L (drop 2 args) [] False of
        None \<Rightarrow> None
      | Some (url, maxTime) \<Rightarrow>
          if url = [] \<or> \<not> maxTime then None
          else Some (p\<lparr>tp_Profile := ''http-probe'', tp_Resources := [url]\<rparr>, ''get''))"

definition hash_op :: "TaskPermission \<Rightarrow> string list \<Rightarrow> (TaskPermission \<times> string) option" where
  "hash_op p args = (case hash_args (tp_CWD p) (tl args) of
     None \<Rightarrow> None
   | Some res \<Rightarrow> if res = [] then None else Some (p\<lparr>tp_Profile := ''file-checks'', tp_Resources := res\<rparr>, ''sha256sum''))"

definition args_operation :: "libs \<Rightarrow> string list \<Rightarrow> string \<Rightarrow> (TaskPermission \<times> string) option" where
  "args_operation L args0 cwd =
     (let (launcher, args) = split_launcher args0;
          p = \<lparr>tp_Version = 1, tp_Profile = [], tp_CWD = cwd, tp_Launcher = launcher, tp_Resources = [], tp_Compose = []\<rparr>
      in if length args < 2 then None
         else let tool = tool_name (hd args) in
           if tool = ''systemctl'' then service_op p args
           else if tool = ''journalctl'' then journal_op p args
           else if tool = ''docker'' then compose_op p args
           else if tool = ''curl'' then curl_op L p args
           else if tool = ''sha256sum'' then hash_op p args
           else None)"

definition taskOperation :: "libs \<Rightarrow> string \<Rightarrow> (TaskPermission \<times> string) option" where
  "taskOperation L command = (case Parse command of
     Inl _ \<Rightarrow> None
   | Inr (args, cwd) \<Rightarrow> args_operation L args cwd)"

section \<open>Permissions\<close>

definition TaskCandidate :: "libs \<Rightarrow> string \<Rightarrow> string \<Rightarrow> TaskPermission option" where
  "TaskCandidate L command stdinHash =
     (if stdinHash \<noteq> [] then None else map_option fst (taskOperation L command))"

definition profile_covers :: "string \<Rightarrow> string \<Rightarrow> bool" where
  "profile_covers p q \<longleftrightarrow> p = q \<or> p = ''service-maintenance'' \<and> q = ''service-diagnostics'' \<or>
     p = ''compose-maintenance'' \<and> q = ''compose-diagnostics''"

definition permission_Match :: "libs \<Rightarrow> TaskPermission \<Rightarrow> string \<Rightarrow> bool" where
  "permission_Match L p command = (case taskOperation L command of
     None \<Rightarrow> False
   | Some (q, _) \<Rightarrow>
       if tp_Version p \<noteq> 1 \<or> tp_CWD p \<noteq> tp_CWD q \<or> tp_Launcher p \<noteq> tp_Launcher q \<or> tp_Compose p \<noteq> tp_Compose q then False
       else if \<not> profile_covers (tp_Profile p) (tp_Profile q) then False
       else if tp_Resources p = [] then has_prefix (tp_Profile p) ''compose-''
       else if tp_Resources q = [] then False
       else list_all (\<lambda>r. r \<in> set (tp_Resources p)) (tp_Resources q))"

definition taskMatcher :: "engine \<Rightarrow> libs \<Rightarrow> string \<Rightarrow> Matcher res" where
  "taskMatcher E L command = (case TaskCandidate L command [] of
     None \<Rightarrow> Inl (Errorf ''this command has no bounded task profile'' [])
   | Some p \<Rightarrow> rbind (Exact E command) (\<lambda>m. Inr (m\<lparr>m_Kind := MatcherTask, m_Promotable := False, m_Task := Some p\<rparr>)))"

definition validTaskMatcher :: "libs \<Rightarrow> Matcher \<Rightarrow> bool" where
  "validTaskMatcher L m \<longleftrightarrow> (case TaskCandidate L (m_SourceCmd m) [] of
     None \<Rightarrow> False | Some p \<Rightarrow> m_Kind m = MatcherTask \<and> m_Task m = Some p)"

definition Matcher_Match :: "engine \<Rightarrow> libs \<Rightarrow> Matcher \<Rightarrow> string \<Rightarrow> bool res" where
  "Matcher_Match E L m command =
     (if m_Kind m = MatcherTask then
        (if \<not> validTaskMatcher L m then Inl (Errorf ''invalid task permission'' [])
         else Inr (case m_Task m of Some p \<Rightarrow> permission_Match L p command | None \<Rightarrow> False))
      else rbind (compileMatcher E (m_Regex m)) (\<lambda>expr. Inr (expr command)))"

definition permission_Summary :: "TaskPermission \<Rightarrow> string" where
  "permission_Summary p =
     (let resource = (if has_prefix (tp_Profile p) ''compose-'' then
            str_join (tp_Compose p) '' '' @
              (if tp_Resources p \<noteq> [] then '' services='' @ str_join (tp_Resources p) '','' else [])
          else str_join (tp_Resources p) '', '');
        actions =
          (if tp_Profile p = ''service-maintenance'' then ''status, show, is-active, is-enabled, bounded logs, restart, reload''
           else if tp_Profile p = ''compose-diagnostics'' then ''ps, bounded logs''
           else if tp_Profile p = ''compose-maintenance'' then ''ps, bounded logs, build, pull, up, restart''
           else if tp_Profile p = ''http-probe'' then ''fixed GET with curl -q and bounded timeouts''
           else if tp_Profile p = ''file-checks'' then ''sha256sum for explicit files''
           else ''status, show, is-active, is-enabled, bounded logs'')
      in tp_Profile p @ '' ['' @ resource @
         (if tp_CWD p \<noteq> [] then '' cwd='' @ tp_CWD p else []) @
         (if tp_Launcher p \<noteq> [] then '' via '' @ str_join (tp_Launcher p) '' '' else []) @ '']: '' @ actions)"


section \<open>Lemmas: parsed words\<close>

text \<open>Plain words with spaces between them parse as they stand.\<close>

definition plain_word :: "string \<Rightarrow> bool" where
  "plain_word w \<longleftrightarrow> w \<noteq> [] \<and> list_all (\<lambda>c. byte c < 128 \<and> safe_rune (byte c)) w"

lemma plain_word_quoted: "plain_word w \<Longrightarrow> quoted w w"
proof -
  assume w: "plain_word w"
  then have a: "ascii w" and s: "list_all safe_rune (map byte w)" by (auto simp: plain_word_def ascii_def list_all_iff)
  have "\<not> control_rune r" if "safe_rune r" for r using that by (auto simp: safe_rune_def control_rune_def)
  then show ?thesis using w a s
    by (auto simp: quoted_def valid_ascii printable_def runes_ascii Quote_def plain_word_def list_all_iff)
qed

lemma Parse_plain_words:
  assumes "ws \<noteq> []" and "list_all plain_word ws"
  shows "Parse (str_join ws '' '') = Inr (ws, [])"
proof -
  have q: "list_all2 quoted ws ws" using assms(2) by (auto simp: list_all2_same list_all_iff plain_word_quoted)
  have "fresh ps_init" by (simp add: fresh_def)
  from parse_words [OF q assms(1) this] obtain st where st: "parseLoop (runes (str_join ws '' '')) ps_init = Inr st"
    "ps_quote st = 0" "ps_flush st = ps_init\<lparr>ps_words := ps_words ps_init @ ws\<rparr>" by blast
  have "ps_words (ps_flush st) = ws" "ps_cwd (ps_flush st) = []" using st(3) by simp_all
  moreover have "hd ws \<noteq> []" using assms by (cases ws) (auto simp: plain_word_def)
  ultimately show ?thesis using st valid_join [OF q] assms(1) by (simp add: Parse_def)
qed

section \<open>Lemmas: operations\<close>

lemma split_launcher_append: "args \<noteq> [] \<Longrightarrow> fst (split_launcher args) @ snd (split_launcher args) = args"
  by (cases args; cases "tl args") (auto simp: split_launcher_def)

lemma compose_globals_pinned: "compose_globals args pinned files = Some (pinned', files', rest) \<Longrightarrow> pinned' @ rest = pinned @ args"
  by (induction args pinned files rule: compose_globals.induct) (auto split: if_splits)

lemma systemctl_args_units: "systemctl_args profile args = Some res \<Longrightarrow>
   res = filter (\<lambda>a. a \<notin> set systemctl_flags) args \<and> list_all resourceName res"
  by (induction profile args arbitrary: res rule: systemctl_args.induct) (auto split: if_splits)

text \<open>What a recognised operation looks like.\<close>

definition op_shape :: "TaskPermission \<Rightarrow> string \<Rightarrow> string list \<Rightarrow> bool" where
  "op_shape p verb args \<longleftrightarrow>
     (if tp_Profile p = ''service-diagnostics'' then
        tp_Resources p \<noteq> [] \<and> tp_Compose p = [] \<and>
        (tool_name (hd args) = ''systemctl'' \<and> verb \<in> set service_reads \<and> args ! 1 = verb \<and>
           tp_Resources p = filter (\<lambda>a. a \<notin> set systemctl_flags) (drop 2 args) \<or>
         tool_name (hd args) = ''journalctl'' \<and> verb = ''logs'' \<and> journalctl_args (tl args) [] False = Some (tp_Resources p, True))
      else if tp_Profile p = ''service-maintenance'' then
        tp_Resources p \<noteq> [] \<and> tp_Compose p = [] \<and> tool_name (hd args) = ''systemctl'' \<and> verb \<in> set service_writes \<and>
        args ! 1 = verb \<and> tp_Resources p = drop 2 args
      else if tp_Profile p = ''compose-diagnostics'' \<or> tp_Profile p = ''compose-maintenance'' then
        (\<exists>rest. args = tp_Compose p @ verb # rest \<and> compose_args verb rest [] (verb \<noteq> ''logs'') = Some (tp_Resources p, True)) \<and> length (tp_Compose p) \<ge> 4 \<and>
        (if tp_Profile p = ''compose-diagnostics'' then verb \<in> set compose_reads else verb \<in> set compose_writes)
      else if tp_Profile p = ''http-probe'' then
        tp_Resources p \<noteq> [] \<and> tp_Compose p = [] \<and> tool_name (hd args) = ''curl''
      else tp_Profile p = ''file-checks'' \<and> tp_Resources p \<noteq> [] \<and> tp_Compose p = [] \<and> tool_name (hd args) = ''sha256sum'' \<and>
        hash_args (tp_CWD p) (tl args) = Some (tp_Resources p))"

lemma systemctl_maintenance: "systemctl_args ''service-maintenance'' args = Some res \<Longrightarrow> res = args"
  by (induction "''service-maintenance''" args arbitrary: res rule: systemctl_args.induct) (auto split: if_splits)

lemma service_op_shape:
  assumes "service_op p args = Some (q, verb)" and "tool_name (hd args) = ''systemctl''" and "tp_Compose p = []"
  shows "op_shape q verb args"
proof -
  obtain res where v: "verb = args ! 1" "verb \<in> set service_reads \<or> verb \<in> set service_writes" and "res \<noteq> []"
    and a: "systemctl_args (if verb \<in> set service_writes then ''service-maintenance'' else ''service-diagnostics'') (drop 2 args) = Some res"
    and q: "q = p\<lparr>tp_Profile := if verb \<in> set service_writes then ''service-maintenance'' else ''service-diagnostics'', tp_Resources := res\<rparr>"
    using assms(1) by (auto simp: service_op_def Let_def split: if_splits option.splits)
  have "verb \<in> set service_writes \<Longrightarrow> verb \<notin> set service_reads" by (auto simp: service_reads_def service_writes_def)
  then show ?thesis
    using v a q \<open>res \<noteq> []\<close> assms(2,3) systemctl_args_units [OF a] systemctl_maintenance
    by (auto simp: op_shape_def)
qed

lemma journal_op_shape: "journal_op p args = Some (q, verb) \<Longrightarrow> tool_name (hd args) = ''journalctl'' \<Longrightarrow> tp_Compose p = [] \<Longrightarrow> op_shape q verb args"
  by (auto simp: journal_op_def op_shape_def split: if_splits option.splits)

lemma compose_globals_grow: "compose_globals args pinned files = Some (pinned', files', rest) \<Longrightarrow>
   length pinned' \<ge> length pinned + 2 * (files' - files) \<and> files \<le> files'"
  by (induction args pinned files rule: compose_globals.induct) (auto split: if_splits)

lemma compose_op_shape: "compose_op p args = Some (q, verb) \<Longrightarrow> 2 \<le> length args \<Longrightarrow> op_shape q verb args"
proof -
  assume op: "compose_op p args = Some (q, verb)" and "2 \<le> length args"
  then obtain pinned files rest res where a1: "args ! 1 = ''compose''"
    and g: "compose_globals (drop 2 args) [args ! 0, ''compose''] 0 = Some (pinned, files, rest)"
    and fr: "files \<noteq> 0" "rest \<noteq> []" and v: "verb = hd rest" "verb \<in> set compose_reads \<or> verb \<in> set compose_writes"
    and q: "q = p\<lparr>tp_Profile := if verb \<in> set compose_reads then ''compose-diagnostics'' else ''compose-maintenance'',
       tp_Compose := pinned, tp_Resources := res\<rparr>"
    and ca: "compose_args verb (tl rest) [] (verb \<noteq> ''logs'') = Some (res, True)"
    by (auto simp: compose_op_def Let_def split: if_splits option.splits prod.splits)
  have "args = args ! 0 # args ! 1 # drop 2 args" using \<open>2 \<le> length args\<close>
    by (cases args; cases "tl args") auto
  then have "pinned @ rest = args" using compose_globals_pinned [OF g] a1 by simp
  then have "args = pinned @ verb # tl rest" using fr v by simp
  moreover have "length pinned \<ge> 4" using compose_globals_grow [OF g] fr by simp
  ultimately show ?thesis using q v ca by (auto simp: op_shape_def)
qed

lemma operation_shape:
  assumes "args_operation L args cwd = Some (p, verb)" and "args \<noteq> []"
  shows "tp_Version p = 1 \<and> tp_CWD p = cwd \<and> tp_Launcher p = fst (split_launcher args) \<and> op_shape p verb (snd (split_launcher args))"
proof -
  obtain launcher rest where l: "split_launcher args = (launcher, rest)" by fastforce
  let ?p = "\<lparr>tp_Version = 1, tp_Profile = [], tp_CWD = cwd, tp_Launcher = launcher, tp_Resources = [], tp_Compose = []\<rparr>"
  from assms(1) l have len: "2 \<le> length rest" by (auto simp: args_operation_def Let_def split: if_splits)
  from assms(1) l consider "service_op ?p rest = Some (p, verb)" "tool_name (hd rest) = ''systemctl''"
    | "journal_op ?p rest = Some (p, verb)" "tool_name (hd rest) = ''journalctl''"
    | "compose_op ?p rest = Some (p, verb)"
    | "curl_op L ?p rest = Some (p, verb)" "tool_name (hd rest) = ''curl''"
    | "hash_op ?p rest = Some (p, verb)" "tool_name (hd rest) = ''sha256sum''"
    by (auto simp: args_operation_def Let_def split: if_splits)
  then show ?thesis
  proof cases
    case 1
    then show ?thesis using service_op_shape [OF 1] l
      by (auto simp: service_op_def Let_def split: if_splits option.splits)
  next
    case 2
    then show ?thesis using journal_op_shape [OF 2] l
      by (auto simp: journal_op_def split: if_splits option.splits)
  next
    case 3
    then show ?thesis using compose_op_shape [OF 3 len] l
      by (auto simp: compose_op_def Let_def split: if_splits option.splits prod.splits)
  next
    case 4
    then show ?thesis using l by (auto simp: curl_op_def op_shape_def split: if_splits option.splits prod.splits)
  next
    case 5
    then show ?thesis using l by (auto simp: hash_op_def op_shape_def split: if_splits option.splits)
  qed
qed

lemma Parse_nonempty: "Parse c = Inr (args, cwd) \<Longrightarrow> args \<noteq> []"
  by (auto simp: Parse_def rbind_iffs Let_def split: if_splits)

lemma taskOperation_shape:
  assumes "taskOperation L c = Some (p, verb)"
  shows "\<exists>args. Parse c = Inr (tp_Launcher p @ args, tp_CWD p) \<and> tp_Version p = 1 \<and> op_shape p verb args"
proof -
  obtain args cwd where p: "Parse c = Inr (args, cwd)" "args_operation L args cwd = Some (p, verb)"
    using assms by (auto simp: taskOperation_def split: sum.splits prod.splits)
  note ne = Parse_nonempty [OF p(1)]
  show ?thesis using operation_shape [OF p(2) ne] split_launcher_append [OF ne] p(1)
    by (intro exI [of _ "snd (split_launcher args)"]) auto
qed

lemma permission_MatchE:
  assumes "permission_Match L p c"
  obtains q verb where "taskOperation L c = Some (q, verb)" "tp_Version p = 1" "tp_CWD p = tp_CWD q" "tp_Launcher p = tp_Launcher q"
    "tp_Compose p = tp_Compose q" "profile_covers (tp_Profile p) (tp_Profile q)"
    "tp_Resources p = [] \<and> has_prefix (tp_Profile p) ''compose-'' \<or> tp_Resources q \<noteq> [] \<and> set (tp_Resources q) \<subseteq> set (tp_Resources p)"
  using assms by (auto simp: permission_Match_def list_all_iff split: option.splits prod.splits if_splits)


section \<open>Lemmas: what each tool's arguments are\<close>

lemma unit_dash: "a \<in> set journal_unit \<Longrightarrow> has_prefix a ''-'' \<and> Atoi a = None \<and> a \<notin> set journal_formats"
  by (auto simp: journal_unit_def journal_formats_def has_prefix_def Atoi_def decimal_digit_def)

lemma journal_options_disjoint: "a \<in> set journal_unit \<Longrightarrow> a \<notin> set journal_plain"
  by (auto simp: journal_unit_def journal_plain_def)

lemma zip_tl_Cons: "zip (x # xs) xs = (case xs of [] \<Rightarrow> [] | y # ys \<Rightarrow> (x, y) # zip xs (tl xs))"
  by (cases xs) auto

lemma journalctl_step:
  assumes "journalctl_args (arg # args) res b = Some r" and "arg \<notin> set journal_plain"
  shows "\<exists>v args'. args = v # args' \<and> v \<notin> set journal_unit \<and>
    ((\<exists>b'. journalctl_args args' (res @ [v]) b' = Some r) \<or>
     arg \<notin> set journal_unit \<and> (\<exists>b'. journalctl_args args' res b' = Some r))"
proof -
  obtain v args' where a: "args = v # args'" using assms by (cases args) auto
  have v: "v \<notin> set journal_unit"
    using assms unit_dash [of v]
    by (auto simp: a resourceName_def boundedInt_def timeValue_def split: if_splits)
  have "(\<exists>b'. journalctl_args args' (res @ [v]) b' = Some r) \<or> arg \<notin> set journal_unit \<and> (\<exists>b'. journalctl_args args' res b' = Some r)"
  proof (cases "arg \<in> set journal_unit")
    case True
    then show ?thesis using assms by (simp add: a split: if_splits) blast
  next
    case False
    then show ?thesis using assms by (simp add: a split: if_splits) blast+
  qed
  then show ?thesis using a v by blast
qed

lemma journalctl_units: "journalctl_args args res b = Some (res', b') \<Longrightarrow>
   set res \<subseteq> set res' \<and> (\<forall>(a, v) \<in> set (zip args (tl args)). a \<in> set journal_unit \<longrightarrow> v \<in> set res')"
proof (induction "length args" arbitrary: args res b rule: less_induct)
  case less
  show ?case
  proof (cases args)
    case Nil
    then show ?thesis using less.prems by simp
  next
    case (Cons arg rest)
    show ?thesis
    proof (cases "arg \<in> set journal_plain")
      case True
      then have "arg \<notin> set journal_unit" using journal_options_disjoint by blast
      then show ?thesis using less.prems less.hyps [of rest res b] True Cons
        by (auto simp: zip_tl_Cons split: list.splits)
    next
      case False
      from journalctl_step [OF less.prems [unfolded Cons] False] obtain v args' b2 r2 where a: "rest = v # args'"
        and v: "v \<notin> set journal_unit" and r: "journalctl_args args' r2 b2 = Some (res', b')"
        and r2: "r2 = res @ [v] \<or> r2 = res \<and> arg \<notin> set journal_unit" by blast
      have "set r2 \<subseteq> set res' \<and> (\<forall>(a, v) \<in> set (zip args' (tl args')). a \<in> set journal_unit \<longrightarrow> v \<in> set res')"
        by (rule less.hyps [OF _ r]) (simp add: Cons a)
      then show ?thesis using v r2 Cons a by (auto simp: zip_tl_Cons split: list.splits)
    qed
  qed
qed

lemma fixedHashPath_clean: "fixedHashPath cwd raw = Some r \<Longrightarrow> absolute_clean r"
proof -
  assume h: "fixedHashPath cwd raw = Some r"
  show ?thesis
  proof (cases "path_IsAbs raw")
    case True
    then show ?thesis using h by (auto simp: fixedHashPath_def absolute_clean_def Let_def split: if_splits)
  next
    case False
    then have "path_IsAbs cwd" "r = path_Join cwd raw" "cwd \<noteq> []" "raw \<noteq> []"
      using h by (auto simp: fixedHashPath_def Let_def split: if_splits)
    moreover have "path_IsAbs (cwd @ ''/'' @ raw)" using \<open>path_IsAbs cwd\<close> by (auto simp: path_IsAbs_def has_prefix_def)
    ultimately show ?thesis using path_Clean_idem by (simp add: path_Join_def absolute_clean_def)
  qed
qed

lemma hash_args_clean: "hash_args cwd args = Some rs \<Longrightarrow> list_all absolute_clean rs"
  by (induction args arbitrary: rs) (auto split: option.splits dest: fixedHashPath_clean)

lemma profile_names:
  assumes "has_prefix p ''service-''" and "profile_covers p q" and "q = ''service-diagnostics'' \<or> q = ''service-maintenance'' \<or> \<not> has_prefix q ''service-''"
  shows "q = ''service-diagnostics'' \<or> q = ''service-maintenance'' \<and> p = ''service-maintenance''"
proof -
  have n: "\<not> has_prefix ''compose-maintenance'' ''service-''" by (simp add: has_prefix_def)
  from assms(2) consider "p = q" | "q = ''service-diagnostics''" | "p = ''compose-maintenance''"
    unfolding profile_covers_def by blast
  then show ?thesis
  proof cases
    case 3
    then show ?thesis using n assms(1) by simp
  qed (use assms in auto)
qed

section \<open>Lemmas: minted matchers\<close>

lemma prefixForMode_take: "tokens \<noteq> [] \<Longrightarrow> \<exists>n. prefixForMode tokens head mode = take n tokens"
proof -
  assume t: "tokens \<noteq> []"
  have "[tokens ! 0] = take 1 tokens" using t by (cases tokens) auto
  moreover have "2 \<le> length tokens \<Longrightarrow> [tokens ! 0, tokens ! 1] = take 2 tokens" by (cases tokens; cases "tl tokens") auto
  moreover have "3 \<le> length tokens \<Longrightarrow> [tokens ! 0, tokens ! 1, tokens ! 2] = take 3 tokens"
    by (cases tokens; cases "tl tokens"; cases "tl (tl tokens)") (auto simp: numeral_3_eq_3)
  moreover have "[] = take 0 tokens" by simp
  moreover have "prefixForMode tokens head mode \<in> {[], [tokens ! 0]} \<or>
      2 \<le> length tokens \<and> prefixForMode tokens head mode = [tokens ! 0, tokens ! 1] \<or>
      3 \<le> length tokens \<and> prefixForMode tokens head mode = [tokens ! 0, tokens ! 1, tokens ! 2]"
    by (simp add: prefixForMode_def split: option.split)
  ultimately show ?thesis by (metis insertE singletonD)
qed

lemma generalized_words:
  assumes "valid_string c" and "\<not> scanForExactOnly c" and "\<not> has_prefix c '' ''" and "tailTokensSafe (drop n (splitASCIIWords c))"
  shows "admits (map runes (take n (splitASCIIWords c))) (runes c)"
proof -
  let ?ws = "splitASCIIWords c"
  have w: "words_by blank (runes c) = map runes ?ws" using split_words(1) [OF assms(1,2)] by simp
  have nt: "9 \<notin> set (runes c)"
    using scan_no_tab [of "runes c"] valid_string_scalar [OF assms(1)] valid_string_encode [OF assms(1)] assms(2) by auto
  have "\<not> (runes c \<noteq> [] \<and> blank (hd (runes c)))"
  proof
    assume b: "runes c \<noteq> [] \<and> blank (hd (runes c))"
    then have "hd (runes c) = 32" using nt by (cases "runes c") (auto simp: blank_def)
    then have "encode_runes (32 # tl (runes c)) = c" using valid_string_encode [OF assms(1)] b by (cases "runes c") auto
    moreover have "char_of (32 :: nat) = CHR '' ''" using char_of_char [of "CHR '' ''"] by simp
    ultimately have "CHR '' '' # encode_runes (tl (runes c)) = c" by (simp add: encode_runes_Cons ascii_unit)
    then show False using assms(3) by (metis has_prefix_def append_Cons append_Nil prefixI)
  qed
  moreover have "list_all (list_all tail_rune) (drop n (map runes ?ws))"
    using assms(4) tail_token by (auto simp: drop_map tailTokensSafe_def list_all_iff)
  moreover have "drop (length (take n xs)) xs = drop n xs" for xs :: "nat list list" by (cases "n \<le> length xs") auto
  ultimately show ?thesis by (simp add: admits_def w take_map [symmetric] take_is_prefix del: length_take)
qed


lemma prefix_words:
  assumes "valid_string c" and "splitASCIIWords c \<noteq> []" and "\<not> scanForExactOnly c" and "\<not> has_prefix c '' ''"
    and "tailTokensSafe (drop (length (prefixForMode (splitASCIIWords c) head mode)) (splitASCIIWords c))"
  shows "(\<exists>n. prefixForMode (splitASCIIWords c) head mode = take n (splitASCIIWords c)) \<and>
    (\<forall>w \<in> set (prefixForMode (splitASCIIWords c) head mode). valid_string w \<and> word (runes w)) \<and>
    admits (map runes (prefixForMode (splitASCIIWords c) head mode)) (runes c)"
proof -
  let ?ts = "splitASCIIWords c"
  obtain n where n: "prefixForMode ?ts head mode = take n ?ts" using prefixForMode_take [OF assms(2)] by blast
  have "\<forall>w \<in> set (take n ?ts). valid_string w \<and> word (runes w)"
    using split_words(2) [OF assms(1,3)] by (auto dest: in_set_takeD)
  moreover have "drop (length (take n ?ts)) ?ts = drop n ?ts" by (cases "n \<le> length ?ts") auto
  then have "admits (map runes (take n ?ts)) (runes c)"
    using generalized_words [OF assms(1,3,4), of n] assms(5) by (simp add: n del: length_take)
  ultimately show ?thesis using n by auto
qed

definition minted :: "Matcher \<Rightarrow> string \<Rightarrow> bool" where
  "minted m c \<longleftrightarrow> CHR 0x00 \<notin> set c \<and> valid_string c \<and> m_SourceCmd m = c \<and> m_Task m = None \<and>
    (m_Kind m = MatcherExact \<and> m_Regex m = exact_pattern c \<and> m_Prefix m = [] \<or>
     m_Kind m = MatcherPrefix \<and> m_Regex m = prefix_pattern (m_Prefix m) \<and> m_Prefix m \<noteq> [] \<and>
       (\<exists>n. m_Prefix m = take n (splitASCIIWords c)) \<and> (\<forall>w \<in> set (m_Prefix m). valid_string w \<and> word (runes w)) \<and>
       admits (map runes (m_Prefix m)) (runes c))"

lemma Generalize_cases:
  assumes "CHR 0x00 \<notin> set c" and "valid_string c"
  shows "\<exists>m. Generalize (go_engine other) c mode = Inr m \<and> minted m c \<and>
    (m_Kind m = MatcherPrefix \<longrightarrow> splitASCIIWords c \<noteq> [] \<and> commandBase (hd (splitASCIIWords c)) \<notin> set privilegedCommands \<and>
       \<not> isInterpreterOrEscapable (commandBase (hd (splitASCIIWords c))) \<and>
       \<not> isDestructiveLeaf (commandBase (hd (splitASCIIWords c))))"
proof -
  let ?ts = "splitASCIIWords c" and ?mode = "if mode = [] then HostGrantSafePrefix else mode"
  let ?head = "commandBase (hd ?ts)"
  let ?pre = "prefixForMode ?ts ?head ?mode"
  have k: "MatcherExact \<noteq> MatcherPrefix" by (simp add: matcher_kinds)
  let ?p = "?head \<notin> set privilegedCommands"
  have "Generalize (go_engine other) c mode = exactMatcher (go_engine other) c True \<or>
      Generalize (go_engine other) c mode = exactMatcher (go_engine other) c ?p \<or>
      Generalize (go_engine other) c mode = prefixMatcher (go_engine other) c ?pre ?p \<and> ?pre \<noteq> [] \<and> ?ts \<noteq> [] \<and>
      \<not> scanForExactOnly c \<and> \<not> has_prefix c '' '' \<and> tailTokensSafe (drop (length ?pre) ?ts) \<and> ?p \<and>
      \<not> isInterpreterOrEscapable ?head \<and> \<not> isDestructiveLeaf ?head"
    using assms by (simp add: Generalize_def Let_def)
  then consider (ex) p where "Generalize (go_engine other) c mode = exactMatcher (go_engine other) c p"
    | (pre) p where "Generalize (go_engine other) c mode = prefixMatcher (go_engine other) c ?pre p" "?pre \<noteq> []" "?ts \<noteq> []"
      "\<not> scanForExactOnly c" "\<not> has_prefix c '' ''" "tailTokensSafe (drop (length ?pre) ?ts)" "?head \<notin> set privilegedCommands"
      "\<not> isInterpreterOrEscapable ?head" "\<not> isDestructiveLeaf ?head"
    by blast
  then show ?thesis
  proof cases
    case ex
    then show ?thesis using go.exactMatcher_total [OF assms(2), of other] k assms by (simp add: minted_def)
  next
    case pre
    note w = prefix_words [OF assms(2) pre(3,4,5,6)]
    then show ?thesis using go.prefixMatcher_total [OF pre(2), of c other] pre assms by (simp add: minted_def)
  qed
qed

lemma Generalize_minted: "Generalize (go_engine other) c mode = Inr m \<Longrightarrow> minted m c \<and>
    (m_Kind m = MatcherPrefix \<longrightarrow> commandBase (hd (splitASCIIWords c)) \<notin> set privilegedCommands \<and>
       \<not> isInterpreterOrEscapable (commandBase (hd (splitASCIIWords c))) \<and>
       \<not> isDestructiveLeaf (commandBase (hd (splitASCIIWords c))))"
proof -
  assume m: "Generalize (go_engine other) c mode = Inr m"
  then have "CHR 0x00 \<notin> set c" "valid_string c" by (auto simp: Generalize_def split: if_splits)
  then show ?thesis using Generalize_cases [of c other mode] m by auto
qed

lemma Matcher_Match_exact: "m_Kind m = MatcherExact \<Longrightarrow> m_Regex m = exact_pattern c \<Longrightarrow> valid_string c \<Longrightarrow>
   Matcher_Match (go_engine other) L m t = Inr (runes t = runes c)"
  using go.compiled_exact [of c other] by (auto simp: Matcher_Match_def MatcherExact_def MatcherTask_def)

lemma Matcher_Match_prefix: "m_Kind m = MatcherPrefix \<Longrightarrow> m_Regex m = prefix_pattern ws \<Longrightarrow> ws \<noteq> [] \<Longrightarrow>
   \<forall>w \<in> set ws. valid_string w \<and> word (runes w) \<Longrightarrow>
   Matcher_Match (go_engine other) L m t = Inr (admits (map runes ws) (runes t))"
  using go.compiled_prefix [of ws other] by (auto simp: Matcher_Match_def MatcherPrefix_def MatcherTask_def)

text \<open>Every rune a prefix matcher lets through.\<close>

lemma set_takeWhile_or: "x \<in> set xs \<Longrightarrow> x \<in> set (takeWhile p xs) \<or> x \<in> set (dropWhile p xs)"
  by (metis Un_iff set_append takeWhile_dropWhile_id)

lemma runes_in_words: "x \<in> set xs \<Longrightarrow> p x \<or> (\<exists>w \<in> set (words_by p xs). x \<in> set w)"
proof (induction p xs rule: words_by.induct)
  case (1 p xs)
  let ?ys = "dropWhile p xs"
  show ?case
  proof (cases "x \<in> set ?ys")
    case False
    then have "x \<in> set (takeWhile p xs)" using set_takeWhile_or "1.prems" by fast
    then show ?thesis by (auto dest: set_takeWhileD)
  next
    case True
    then have ne: "?ys \<noteq> []" by fastforce
    have "words_by p xs = takeWhile (\<lambda>x. \<not> p x) ?ys # words_by p (dropWhile (\<lambda>x. \<not> p x) ?ys)"
      using ne by (subst words_by.simps) (simp add: Let_def)
    moreover have "x \<in> set (takeWhile (\<lambda>x. \<not> p x) ?ys) \<or> x \<in> set (dropWhile (\<lambda>x. \<not> p x) ?ys)"
      using True by (rule set_takeWhile_or)
    ultimately show ?thesis using "1.IH" [OF refl ne] by auto
  qed
qed

lemma admits_runes: "admits ws t \<Longrightarrow> r \<in> set t \<Longrightarrow> blank r \<or> tail_rune r \<or> (\<exists>w \<in> set ws. r \<in> set w)"
proof -
  assume a: "admits ws t" and "r \<in> set t"
  from runes_in_words [OF this(2), of blank]
  consider "blank r" | w where "w \<in> set (words_by blank t)" "r \<in> set w" by blast
  then show ?thesis
  proof cases
    case 2
    obtain ts where ts: "words_by blank t = ws @ ts" using a unfolding admits_def prefix_def by blast
    have "list_all (list_all tail_rune) ts" using a by (simp add: admits_def ts)
    then show ?thesis using 2 ts by (auto simp: list_all_iff)
  qed blast
qed

lemma minted_Match: "minted m c \<Longrightarrow> Matcher_Match (go_engine other) L m c = Inr True"
  using Matcher_Match_exact [of m c other L c] Matcher_Match_prefix [of m "m_Prefix m" other L c]
  by (auto simp: minted_def)

text \<open>Two approvals worked out.\<close>

lemma commandBase_lower:
  assumes "w \<noteq> []" and "list_all (\<lambda>c. 97 \<le> byte c \<and> byte c \<le> 122) w"
  shows "commandBase w = w" and "to_lower w = w"
proof -
  have as: "ascii w" and sp: "\<forall>c \<in> set w. \<not> is_space (byte c)"
    using assms(2) by (auto simp: ascii_def list_all_iff is_space_def)
  then have "\<not> is_space (byte (hd w))" "\<not> is_space (byte (last w))" using assms(1) by auto
  then have t: "trim_space w = w" using as by (simp add: trim_space_ascii)
  have "list_all (\<lambda>r. lower_rune r = r) (runes w)"
    using assms(2) by (auto simp: runes_ascii [OF as] list_all_iff lower_rune_def)
  then have "map lower_rune (runes w) = runes w" by (simp add: list_all_iff map_idI)
  then show l: "to_lower w = w" using valid_string_encode [OF valid_ascii [OF as]] by (simp add: to_lower_def)
  have "\<forall>c \<in> set (rev w). c \<noteq> CHR ''/''" using assms(2) by (auto simp: list_all_iff)
  then have "takeWhile (\<lambda>c. c \<noteq> CHR ''/'') (rev w) = rev w" by (simp only: takeWhile_eq_all_conv)
  then have "after_slash w = w" unfolding after_slash_def by (simp only: rev_rev_ident)
  then show "commandBase w = w" using t l by (simp add: commandBase_def)
qed

lemma generalize_git_diff: "\<exists>p. Generalize E ''git diff'' [] = prefixMatcher E ''git diff'' [''git'', ''diff''] p"
proof -
  have w: "splitASCIIWords ''git diff'' = [''git'', ''diff'']"
    by (simp add: splitASCIIWords_def words_by.simps)
  have c: "commandBase ''git'' = ''git''" "to_lower ''diff'' = ''diff''" by (simp_all add: commandBase_lower)
  have v: "valid_string ''git diff''" by (simp add: valid_ascii ascii_def)
  have s: "\<not> scanForExactOnly ''git diff''" by (simp add: shell_meta_def)
  have h: "''git'' \<notin> set privilegedCommands" "\<not> isInterpreterOrEscapable ''git''" "\<not> isDestructiveLeaf ''git''"
    "\<not> hasEnvPrefix ''git diff''" "\<not> has_prefix ''git diff'' '' ''"
    by (simp_all add: privilegedCommands_def isInterpreterOrEscapable_def interpreterOrEscapable_def isDestructiveLeaf_def
      destructiveLeafCommands_def hasEnvPrefix_def has_prefix_def)
  have p: "prefixForMode [''git'', ''diff''] ''git'' HostGrantSafePrefix = [''git'', ''diff'']"
    by (simp add: prefixForMode_def safeReadonlyLeaf_def safeReadonlySubcommands_def c)
  have m: "HostGrantSafePrefix \<noteq> HostGrantExact" by (simp add: grant_modes)
  show ?thesis using v s h m by (simp del: scanForExactOnly.simps add: Generalize_def w c p tailTokensSafe_def safePrefixTailTokensSafe_def) blast
qed

lemma words_git_diff: "words_by blank (runes ''git diff'') = [runes ''git'', runes ''diff'']"
  by (simp add: words_by.simps blank_def runes_ascii ascii_def)

lemma git_diff_approved: "\<exists>m. Generalize (go_engine other) ''git diff'' [] = Inr m \<and> m_Kind m = MatcherPrefix \<and>
   m_Prefix m = [''git'', ''diff''] \<and> m_Regex m = prefix_pattern [''git'', ''diff'']"
proof -
  have "valid_string ''git''" "valid_string ''diff''" "word (runes ''git'')" "word (runes ''diff'')"
    by (simp_all add: valid_ascii ascii_def runes_ascii word_def blank_def)
  moreover have "admits (map runes [''git'', ''diff'']) (runes ''git diff'')"
    by (simp add: admits_def words_git_diff) (simp add: runes_ascii ascii_def blank_def)
  ultimately show ?thesis using generalize_git_diff [of "go_engine other"] go.prefixMatcher_total [of "[''git'', ''diff'']" "''git diff''" other]
    by fastforce
qed

text \<open>
  The safe-prefix approval of \<open>git diff\<close> covers a command that writes a file, although that option
  in a source command keeps it from being generalised.
\<close>

lemma safe_prefix_admits_output:
  "\<exists>m. Generalize (go_engine other) ''git diff'' [] = Inr m \<and>
     Matcher_Match (go_engine other) L m ''git diff --output=/etc/x'' = Inr True"
  "dangerousSafePrefixOption ''git'' ''--output=/etc/x''"
proof -
  obtain m where m: "Generalize (go_engine other) ''git diff'' [] = Inr m" "m_Kind m = MatcherPrefix"
    "m_Regex m = prefix_pattern [''git'', ''diff'']" using git_diff_approved by blast
  have w: "\<forall>w \<in> set [''git'', ''diff'']. valid_string w \<and> word (runes w)"
    by (simp add: valid_ascii ascii_def runes_ascii word_def blank_def)
  have "admits (map runes [''git'', ''diff'']) (runes ''git diff --output=/etc/x'')"
    by (simp add: admits_def words_by.simps blank_def runes_ascii ascii_def tail_rune_def)
  then show "\<exists>m. Generalize (go_engine other) ''git diff'' [] = Inr m \<and>
     Matcher_Match (go_engine other) L m ''git diff --output=/etc/x'' = Inr True"
    using m Matcher_Match_prefix [OF m(2,3) _ w, of other L "''git diff --output=/etc/x''"] by auto
  show "dangerousSafePrefixOption ''git'' ''--output=/etc/x''"
    by (simp add: dangerousSafePrefixOption_def dangerousSafePrefixOptions_def has_prefix_def)
qed

text \<open>An engine and libraries for concrete inputs.\<close>

definition no_engine :: engine where
  "no_engine = \<lparr>eng_compile = (\<lambda>_. None), eng_parse = (\<lambda>_. None)\<rparr>"

definition no_libs :: libs where
  "no_libs = \<lparr>lib_url = (\<lambda>_. None), lib_float = (\<lambda>_. None)\<rparr>"

definition nginx_status :: string where
  "nginx_status = str_join [''systemctl'', ''status'', ''nginx''] '' ''"

definition nginx_permission :: TaskPermission where
  "nginx_permission = \<lparr>tp_Version = 1, tp_Profile = ''service-diagnostics'', tp_CWD = [], tp_Launcher = [],
     tp_Resources = [''nginx''], tp_Compose = []\<rparr>"

lemma nginx_operation: "taskOperation L nginx_status = Some (nginx_permission, ''status'')"
proof -
  have p: "Parse nginx_status = Inr ([''systemctl'', ''status'', ''nginx''], [])"
    unfolding nginx_status_def by (rule Parse_plain_words) (simp_all add: plain_word_def safe_rune_def)
  have r: "resourceName ''nginx''" by (simp add: resourceName_def has_prefix_def runes_ascii ascii_def resource_rune_def)
  show ?thesis
    by (simp add: taskOperation_def p args_operation_def split_launcher_def tool_name_def has_prefix_def service_op_def
      service_reads_def service_writes_def systemctl_flags_def r nginx_permission_def)
qed

lemma nginx_Match: "permission_Match L nginx_permission nginx_status"
  by (simp add: permission_Match_def nginx_operation) (simp add: nginx_permission_def profile_covers_def)

text \<open>More concrete commands.\<close>

lemma abs_Clean: "clean_out ws \<Longrightarrow> ws \<noteq> [] \<Longrightarrow> path_Clean (CHR ''/'' # str_join ws ''/'') = CHR ''/'' # str_join ws ''/''"
proof -
  assume c: "clean_out ws" and ne: "ws \<noteq> []"
  have "split_on CHR ''/'' (CHR ''/'' # str_join ws ''/'') = [] # ws"
    using split_on_join [OF ne] c by (simp add: clean_out_def)
  then have "foldl (clean_elem True) [] (split_on CHR ''/'' (CHR ''/'' # str_join ws ''/'')) = ws"
    using foldl_clean_id [OF c, of "[]"] by (simp del: clean_elem.simps) simp
  moreover have "path_IsAbs (CHR ''/'' # str_join ws ''/'')" by (simp add: path_IsAbs_def has_prefix_def)
  ultimately show ?thesis unfolding path_Clean_def by (simp only: Let_def if_True if_False list.distinct)
qed

lemma clean_hosts: "path_Clean ''/hosts'' = ''/hosts''"
  using abs_Clean [of "[''hosts'']"] by (simp add: clean_out_def)

definition compose_ps :: string where
  "compose_ps = str_join [''docker'', ''compose'', ''-f'', ''/hosts'', ''ps''] '' ''"

definition compose_permission :: TaskPermission where
  "compose_permission = \<lparr>tp_Version = 1, tp_Profile = ''compose-diagnostics'', tp_CWD = [], tp_Launcher = [],
     tp_Resources = [], tp_Compose = [''docker'', ''compose'', ''-f'', ''/hosts'']\<rparr>"

lemma compose_Match: "permission_Match L compose_permission compose_ps"
proof -
  have p: "Parse compose_ps = Inr ([''docker'', ''compose'', ''-f'', ''/hosts'', ''ps''], [])"
    unfolding compose_ps_def by (rule Parse_plain_words) (simp_all add: plain_word_def safe_rune_def)
  have "taskOperation L compose_ps = Some (compose_permission, ''ps'')"
    by (simp add: taskOperation_def p args_operation_def split_launcher_def tool_name_def has_prefix_def compose_op_def
      compose_file_def absolute_clean_def path_IsAbs_def clean_hosts compose_reads_def compose_permission_def)
  then show ?thesis
    by (simp add: permission_Match_def) (simp add: compose_permission_def profile_covers_def has_prefix_def)
qed

definition hash_hosts :: string where
  "hash_hosts = str_join [''sha256sum'', ''/hosts''] '' ''"

lemma hash_candidate: "TaskCandidate L hash_hosts [] = Some \<lparr>tp_Version = 1, tp_Profile = ''file-checks'', tp_CWD = [],
   tp_Launcher = [], tp_Resources = [''/hosts''], tp_Compose = []\<rparr>"
proof -
  have p: "Parse hash_hosts = Inr ([''sha256sum'', ''/hosts''], [])"
    unfolding hash_hosts_def by (rule Parse_plain_words) (simp_all add: plain_word_def safe_rune_def)
  have "fixedHashPath [] ''/hosts'' = Some ''/hosts''"
    by (simp add: fixedHashPath_def has_prefix_def has_suffix_def path_IsAbs_def clean_hosts suffix_def append_eq_Cons_conv)
  then show ?thesis
    by (simp add: TaskCandidate_def taskOperation_def p args_operation_def split_launcher_def tool_name_def has_prefix_def hash_op_def)
qed

text \<open>
  A tool below \<open>/usr/bin//bin/\<close> is another file than the one of that name in \<open>/usr/bin\<close>, and yet the
  permission for the one covers the other.
\<close>

lemma double_prefix_accepted:
  "permission_Match L nginx_permission (str_join [''/usr/bin//bin/systemctl'', ''status'', ''nginx''] '' '')"
proof -
  have p: "Parse (str_join [''/usr/bin//bin/systemctl'', ''status'', ''nginx''] '' '') =
      Inr ([''/usr/bin//bin/systemctl'', ''status'', ''nginx''], [])"
    by (rule Parse_plain_words) (simp_all add: plain_word_def safe_rune_def)
  have t: "tool_name ''/usr/bin//bin/systemctl'' = ''systemctl''"
    by (simp add: tool_name_def has_prefix_def trim_prefix_def)
  have r: "resourceName ''nginx''" by (simp add: resourceName_def has_prefix_def runes_ascii ascii_def resource_rune_def)
  have "taskOperation L (str_join [''/usr/bin//bin/systemctl'', ''status'', ''nginx''] '' '') = Some (nginx_permission, ''status'')"
    unfolding taskOperation_def p
    by (simp add: args_operation_def split_launcher_def t service_op_def service_reads_def service_writes_def
      systemctl_flags_def r nginx_permission_def)
  then show ?thesis unfolding permission_Match_def
    by (simp del: str_join.simps) (simp add: nginx_permission_def profile_covers_def)
qed

section \<open>Properties\<close>

text \<open>C30. An exact approval minted for a command covers, among the texts that are valid UTF-8,
  that command and nothing else.\<close>

theorem exact_covers_only_itself:
  assumes "Exact (go_engine other) c = Inr m" and "valid_string t"
  shows "Matcher_Match (go_engine other) L m t = Inr (t = c)"
proof -
  have "valid_string c" "m_Kind m = MatcherExact" "m_Regex m = exact_pattern c"
    using assms(1) by (auto simp: go.Exact_cases split: if_splits)
  then show ?thesis using Matcher_Match_exact [of m c other L t] runes_inj [OF assms(2)] by simp
qed

theorem exact_covers_only_itself_witness:
  "\<exists>m. Exact (go_engine no_engine) ''ls -l'' = Inr m \<and> Matcher_Match (go_engine no_engine) no_libs m ''ls -a'' = Inr False"
proof -
  have v: "valid_string ''ls -l''" "valid_string ''ls -a''" by (simp_all add: valid_ascii ascii_def)
  then obtain m where m: "Exact (go_engine no_engine) ''ls -l'' = Inr m" using go.Exact_cases [of no_engine "''ls -l''"] by simp
  show ?thesis using m exact_covers_only_itself [OF m v(2), of no_libs] by auto
qed

text \<open>A minted approval always covers the command it was minted for, in every mode, and
  minting fails only for a command with a NUL byte or invalid UTF-8.\<close>

theorem generalize_covers_source:
  "(if CHR 0x00 \<notin> set c \<and> valid_string c then
      \<exists>m. Generalize (go_engine other) c mode = Inr m \<and> m_SourceCmd m = c \<and> Matcher_Match (go_engine other) L m c = Inr True
    else \<exists>e. Generalize (go_engine other) c mode = Inl e)"
proof (cases "CHR 0x00 \<in> set c \<or> \<not> valid_string c")
  case True
  then show ?thesis by (auto simp: Generalize_def)
next
  case False
  then obtain m where "Generalize (go_engine other) c mode = Inr m" "minted m c" using Generalize_cases by blast
  then show ?thesis using False minted_Match [of m c other L] by (auto simp: minted_def)
qed

text \<open>C34. A prefix approval covers exactly the commands whose words are the approved prefix followed
  by plain tail tokens; the prefix is a non-empty beginning of the source command's words, and the
  command is neither privileged nor an interpreter nor destructive.\<close>

theorem prefix_covers_exactly:
  assumes "Generalize (go_engine other) c mode = Inr m" and "m_Kind m = MatcherPrefix"
  shows "m_Prefix m \<noteq> [] \<and> prefix (m_Prefix m) (splitASCIIWords c) \<and>
    commandBase (hd (splitASCIIWords c)) \<notin> set privilegedCommands \<and>
    \<not> isInterpreterOrEscapable (commandBase (hd (splitASCIIWords c))) \<and>
    \<not> isDestructiveLeaf (commandBase (hd (splitASCIIWords c))) \<and>
    Matcher_Match (go_engine other) L m t = Inr (admits (map runes (m_Prefix m)) (runes t))"
proof -
  have "m_Kind m \<noteq> MatcherExact" using assms(2) by (simp add: matcher_kinds)
  then have "m_Regex m = prefix_pattern (m_Prefix m)" "m_Prefix m \<noteq> []" "\<exists>n. m_Prefix m = take n (splitASCIIWords c)"
    "\<forall>w \<in> set (m_Prefix m). valid_string w \<and> word (runes w)"
    using Generalize_minted [OF assms(1)] by (auto simp: minted_def)
  then show ?thesis using Generalize_minted [OF assms(1)] assms(2) Matcher_Match_prefix [OF assms(2)] take_is_prefix by metis
qed

text \<open>A prefix approval lets no shell metacharacter in: every rune of a covered command is a blank,
  a plain tail rune, or one the operator saw in the source command.\<close>

theorem prefix_adds_no_metacharacters:
  assumes "Generalize (go_engine other) c mode = Inr m" and "m_Kind m = MatcherPrefix"
    and "Matcher_Match (go_engine other) L m t = Inr True" and "r \<in> set (runes t)"
  shows "blank r \<or> tail_rune r \<or> r \<in> set (runes c)"
proof -
  have mi: "minted m c" using Generalize_minted [OF assms(1)] by blast
  have k: "m_Kind m \<noteq> MatcherExact" using assms(2) by (simp add: matcher_kinds)
  with mi have p: "m_Regex m = prefix_pattern (m_Prefix m)" "m_Prefix m \<noteq> []"
    "\<forall>w \<in> set (m_Prefix m). valid_string w \<and> word (runes w)" "admits (map runes (m_Prefix m)) (runes c)"
    by (auto simp: minted_def)
  have "admits (map runes (m_Prefix m)) (runes t)"
    using Matcher_Match_prefix [OF assms(2) p(1-3), of other L t] assms(3) by simp
  from admits_runes [OF this assms(4)] consider "blank r" | "tail_rune r" | w where "w \<in> set (map runes (m_Prefix m))" "r \<in> set w" by blast
  then show ?thesis
  proof cases
    case 3
    then have "w \<in> set (words_by blank (runes c))" using p(4) unfolding admits_def by (metis set_mono_prefix subsetD)
    then show ?thesis using set_words_by 3(2) by blast
  qed blast+
qed



theorem prefix_covers_exactly_witness:
  "\<exists>m. Generalize (go_engine no_engine) ''git diff'' [] = Inr m \<and> m_Prefix m \<noteq> [] \<and>
     Matcher_Match (go_engine no_engine) no_libs m ''git diff'' = Inr (admits [runes ''git'', runes ''diff''] (runes ''git diff''))"
proof -
  obtain m where m: "Generalize (go_engine no_engine) ''git diff'' [] = Inr m" "m_Kind m = MatcherPrefix"
    "m_Prefix m = [''git'', ''diff'']" using git_diff_approved by blast
  show ?thesis using prefix_covers_exactly [OF m(1,2), of no_libs "''git diff''"] m by auto
qed

theorem prefix_adds_no_metacharacters_witness: "blank 32 \<or> tail_rune 32 \<or> 32 \<in> set (runes ''git diff'')"
proof -
  obtain m where m: "Generalize (go_engine no_engine) ''git diff'' [] = Inr m" "m_Kind m = MatcherPrefix"
    using git_diff_approved by blast
  have r: "32 \<in> set (runes ''git diff'')" by (simp add: runes_ascii ascii_def)
  have "Matcher_Match (go_engine no_engine) no_libs m ''git diff'' = Inr True"
    using Generalize_minted [OF m(1)] minted_Match by blast
  from prefix_adds_no_metacharacters [OF m this r] show ?thesis .
qed

text \<open>A task permission minted for a command is valid and covers that command.\<close>

theorem task_covers_source:
  assumes "taskMatcher E L c = Inr m"
  shows "m_Kind m = MatcherTask \<and> \<not> m_Promotable m \<and> Matcher_Match E L m c = Inr True"
proof -
  obtain p m0 where p: "TaskCandidate L c [] = Some p" "Exact E c = Inr m0"
    and m: "m = m0\<lparr>m_Kind := MatcherTask, m_Promotable := False, m_Task := Some p\<rparr>"
    using assms by (auto simp: taskMatcher_def rbind_iffs split: option.splits)
  have src: "m_SourceCmd m0 = c" using p(2) by (auto simp: Exact_def exactMatcher_def newMatcher_def rbind_iffs split: if_splits)
  obtain verb where op: "taskOperation L c = Some (p, verb)" using p(1) by (auto simp: TaskCandidate_def split: prod.splits)
  obtain args where sh: "tp_Version p = 1" "op_shape p verb args" using taskOperation_shape [OF op] by blast
  have "tp_Resources p \<noteq> [] \<or> has_prefix (tp_Profile p) ''compose-''"
    using sh(2) by (auto simp: op_shape_def has_prefix_def split: if_splits)
  then have "permission_Match L p c"
    using sh(1) by (auto simp: permission_Match_def op profile_covers_def list_all_iff)
  then show ?thesis using m src p(1) by (simp add: Matcher_Match_def validTaskMatcher_def)
qed

theorem task_covers_source_witness:
  "\<exists>m. taskMatcher (go_engine no_engine) no_libs nginx_status = Inr m \<and>
     Matcher_Match (go_engine no_engine) no_libs m nginx_status = Inr True"
proof -
  have "valid_string nginx_status \<and> CHR 0x00 \<notin> set nginx_status"
    by (simp add: nginx_status_def valid_ascii ascii_def)
  then obtain m0 where "Exact (go_engine no_engine) nginx_status = Inr m0" by (simp add: go.Exact_cases)
  then obtain m where m: "taskMatcher (go_engine no_engine) no_libs nginx_status = Inr m"
    by (simp add: taskMatcher_def TaskCandidate_def nginx_operation)
  from task_covers_source [OF m] m show ?thesis by blast
qed

text \<open>A service permission covers only literal systemctl and journalctl operations on its own
  units, from its own directory and launcher: every word after the systemctl verb is a display flag or
  one of the units, every unit journalctl is asked for is one of them, and a changing verb needs the
  maintenance profile.\<close>

theorem service_units_confined:
  assumes "permission_Match L p c" and "has_prefix (tp_Profile p) ''service-''"
  shows "\<exists>args. Parse c = Inr (tp_Launcher p @ args, tp_CWD p) \<and>
    (tool_name (hd args) = ''systemctl'' \<and>
       (args ! 1 \<in> set service_reads \<or> tp_Profile p = ''service-maintenance'' \<and> args ! 1 \<in> set service_writes) \<and>
       (\<forall>a \<in> set (drop 2 args). a \<in> set systemctl_flags \<or> a \<in> set (tp_Resources p)) \<or>
     tool_name (hd args) = ''journalctl'' \<and>
       (\<forall>(a, v) \<in> set (zip (tl args) (tl (tl args))). a \<in> set journal_unit \<longrightarrow> v \<in> set (tp_Resources p)))"
proof -
  obtain q verb where q: "taskOperation L c = Some (q, verb)" "tp_CWD p = tp_CWD q" "tp_Launcher p = tp_Launcher q"
    "profile_covers (tp_Profile p) (tp_Profile q)"
    and res: "set (tp_Resources q) \<subseteq> set (tp_Resources p)"
  proof (rule permission_MatchE [OF assms(1)])
    fix q verb
    assume "taskOperation L c = Some (q, verb)" "tp_CWD p = tp_CWD q" "tp_Launcher p = tp_Launcher q"
      "profile_covers (tp_Profile p) (tp_Profile q)"
      and r: "tp_Resources p = [] \<and> has_prefix (tp_Profile p) ''compose-'' \<or> tp_Resources q \<noteq> [] \<and> set (tp_Resources q) \<subseteq> set (tp_Resources p)"
    moreover have "\<not> has_prefix (tp_Profile p) ''compose-''" using assms(2) by (auto simp: has_prefix_def prefix_def)
    ultimately show thesis using that by blast
  qed
  obtain args where a: "Parse c = Inr (tp_Launcher q @ args, tp_CWD q)" "op_shape q verb args"
    using taskOperation_shape [OF q(1)] by blast
  have "tp_Profile q = ''service-diagnostics'' \<or> tp_Profile q = ''service-maintenance'' \<or> \<not> has_prefix (tp_Profile q) ''service-''"
    using a(2) by (auto simp: op_shape_def has_prefix_def split: if_splits)
  from profile_names [OF assms(2) q(4) this]
  consider "tp_Profile q = ''service-diagnostics''" | "tp_Profile q = ''service-maintenance''" "tp_Profile p = ''service-maintenance''" by blast
  then show ?thesis
  proof cases
    case 1
    then show ?thesis using a q(2,3) res journalctl_units [of "tl args" "[]" False "tp_Resources q" True]
      by (intro exI [of _ args]) (auto simp: op_shape_def)
  next
    case 2
    then show ?thesis using a q(2,3) res by (intro exI [of _ args]) (auto simp: op_shape_def)
  qed
qed


theorem service_units_confined_witness:
  "\<exists>args. Parse nginx_status = Inr (args, []) \<and> tool_name (hd args) \<in> {''systemctl'', ''journalctl''}"
proof -
  have "has_prefix (tp_Profile nginx_permission) ''service-''" by (simp add: nginx_permission_def has_prefix_def)
  from service_units_confined [OF nginx_Match [of no_libs] this] show ?thesis
    by (auto simp: nginx_permission_def)
qed


text \<open>A compose permission pins the executable, the global options and the files: a covered
  command repeats them word for word, from the same directory and launcher, before its verb; a changing
  verb needs the maintenance profile; and where the permission names services the command names some
  of them and no other.\<close>

theorem compose_pinned:
  assumes "permission_Match L p c" and "has_prefix (tp_Profile p) ''compose-''"
  shows "\<exists>verb rest res. Parse c = Inr (tp_Launcher p @ tp_Compose p @ verb # rest, tp_CWD p) \<and> 4 \<le> length (tp_Compose p) \<and>
    (verb \<in> set compose_reads \<or> tp_Profile p = ''compose-maintenance'' \<and> verb \<in> set compose_writes) \<and>
    compose_args verb rest [] (verb \<noteq> ''logs'') = Some (res, True) \<and>
    (tp_Resources p = [] \<or> res \<noteq> [] \<and> set res \<subseteq> set (tp_Resources p))"
proof (rule permission_MatchE [OF assms(1)])
  fix q verb
  assume q: "taskOperation L c = Some (q, verb)" "tp_CWD p = tp_CWD q" "tp_Launcher p = tp_Launcher q" "tp_Compose p = tp_Compose q"
    "profile_covers (tp_Profile p) (tp_Profile q)"
    "tp_Resources p = [] \<and> has_prefix (tp_Profile p) ''compose-'' \<or> tp_Resources q \<noteq> [] \<and> set (tp_Resources q) \<subseteq> set (tp_Resources p)"
  obtain args where a: "Parse c = Inr (tp_Launcher q @ args, tp_CWD q)" "op_shape q verb args"
    using taskOperation_shape [OF q(1)] by blast
  have n: "\<not> has_prefix ''service-maintenance'' ''compose-''" "\<not> has_prefix ''service-diagnostics'' ''compose-''"
    "\<not> has_prefix ''http-probe'' ''compose-''" "\<not> has_prefix ''file-checks'' ''compose-''"
    by (simp_all add: has_prefix_def)
  have "tp_Profile q = tp_Profile p \<or> tp_Profile p = ''compose-maintenance'' \<and> tp_Profile q = ''compose-diagnostics''"
    using q(5) n assms(2) unfolding profile_covers_def by metis
  then have pq: "tp_Profile q = ''compose-diagnostics'' \<or> tp_Profile q = ''compose-maintenance'' \<and> tp_Profile p = ''compose-maintenance''"
    using a(2) n assms(2) unfolding op_shape_def by metis
  have "''compose-diagnostics'' \<noteq> ''service-diagnostics''" "''compose-diagnostics'' \<noteq> ''service-maintenance''"
    "''compose-maintenance'' \<noteq> ''service-diagnostics''" "''compose-maintenance'' \<noteq> ''service-maintenance''"
    "''compose-maintenance'' \<noteq> ''compose-diagnostics''" by simp_all
  then obtain rest where r: "args = tp_Compose q @ verb # rest" "compose_args verb rest [] (verb \<noteq> ''logs'') = Some (tp_Resources q, True)"
    "4 \<le> length (tp_Compose q)"
    "if tp_Profile q = ''compose-diagnostics'' then verb \<in> set compose_reads else verb \<in> set compose_writes"
    using a(2) pq unfolding op_shape_def by metis
  then show ?thesis using a q pq
    by (intro exI [of _ verb] exI [of _ rest] exI [of _ "tp_Resources q"]) (auto split: if_splits)
qed

theorem compose_pinned_witness:
  "\<exists>verb rest. Parse compose_ps = Inr ([''docker'', ''compose'', ''-f'', ''/hosts''] @ verb # rest, []) \<and> verb \<in> set compose_reads"
proof -
  have "has_prefix (tp_Profile compose_permission) ''compose-''" by (simp add: compose_permission_def has_prefix_def)
  from compose_pinned [OF compose_Match [of no_libs] this] show ?thesis
    by (auto simp: compose_permission_def)
qed

text \<open>The files a checksum permission names are absolute, cleaned paths.\<close>

theorem checked_files_absolute:
  assumes "TaskCandidate L c stdin = Some p" and "tp_Profile p = ''file-checks''" and "r \<in> set (tp_Resources p)"
  shows "path_IsAbs r \<and> path_Clean r = r"
proof -
  obtain verb where "taskOperation L c = Some (p, verb)" using assms(1) by (auto simp: TaskCandidate_def split: if_splits)
  then obtain args where "op_shape p verb args" using taskOperation_shape by blast
  then have "hash_args (tp_CWD p) (tl args) = Some (tp_Resources p)" using assms(2) by (auto simp: op_shape_def)
  from hash_args_clean [OF this] assms(3) show ?thesis by (auto simp: list_all_iff absolute_clean_def)
qed


theorem checked_files_absolute_witness: "path_IsAbs ''/hosts'' \<and> path_Clean ''/hosts'' = ''/hosts''"
  using checked_files_absolute [OF hash_candidate [of no_libs], of "''/hosts''"] by simp

end
