(* ===== verification/Clock.thy ===== *)
theory Clock
  imports Prelude
begin

text \<open>
  The parts of package \<open>time\<close> the program stores: an instant is its number of nanoseconds since
  1970-01-01 (UTC), written as RFC 3339 with whole seconds and read back. The reader takes the
  strict form of the standard (an optional fraction, \<open>Z\<close> or a numeric zone) and rejects the looser
  spellings \<open>time.Parse\<close> also accepts; the program only reads what it wrote. Reading back an
  instant gives it rounded down to the second, for years below 10000.
\<close>

section \<open>The calendar\<close>

type_synonym instant = nat

definition leap_year :: "nat \<Rightarrow> bool" where
  "leap_year y \<longleftrightarrow> y mod 4 = 0 \<and> (y mod 100 \<noteq> 0 \<or> y mod 400 = 0)"

definition year_days :: "nat \<Rightarrow> nat" where
  "year_days y = (if leap_year y then 366 else 365)"

definition month_days :: "nat \<Rightarrow> nat list" where
  "month_days y = [31, if leap_year y then 29 else 28, 31, 30, 31, 30, 31, 31, 30, 31, 30, 31]"

lemma month_days_sum: "sum_list (month_days y) = year_days y" "length (month_days y) = 12"
  by (simp_all add: month_days_def year_days_def)

lemma year_days_pos [simp]: "0 < year_days y"
  by (simp add: year_days_def)

function civil_year :: "nat \<Rightarrow> nat \<Rightarrow> nat \<times> nat" where
  "civil_year y d = (if d < year_days y then (y, d) else civil_year (Suc y) (d - year_days y))"
  by pat_completeness auto
termination
  by (relation "measure snd") (auto simp: not_less dest: less_le_trans [OF year_days_pos])

declare civil_year.simps [simp del]

fun civil_month :: "nat \<Rightarrow> nat list \<Rightarrow> nat \<Rightarrow> nat \<times> nat" where
  "civil_month m [] d = (m, d)"
| "civil_month m (l # ls) d = (if d < l then (m, d) else civil_month (Suc m) ls (d - l))"

text \<open>The days before a year, from year 0.\<close>

definition days_before :: "nat \<Rightarrow> nat" where
  "days_before y = sum_list (map year_days [0..<y])"

lemma days_before_Suc: "days_before (Suc y) = days_before y + year_days y"
  by (simp add: days_before_def)

lemma civil_year_inverse: "civil_year y d = (y', d') \<Longrightarrow> days_before y + d = days_before y' + d' \<and> d' < year_days y'"
proof (induction y d rule: civil_year.induct)
  case (1 y d)
  show ?case
  proof (cases "d < year_days y")
    case True
    then show ?thesis using "1.prems" by (subst (asm) civil_year.simps) auto
  next
    case False
    then have "civil_year (Suc y) (d - year_days y) = (y', d')"
      using "1.prems" by (subst (asm) civil_year.simps) simp
    from "1.IH" [OF False this] False show ?thesis by (simp add: days_before_Suc)
  qed
qed

lemma civil_month_inverse: "civil_month m ls d = (m', d') \<Longrightarrow> d < sum_list ls \<Longrightarrow>
   m \<le> m' \<and> m' < m + length ls \<and> d = sum_list (take (m' - m) ls) + d' \<and> d' < ls ! (m' - m)"
proof (induction m ls d rule: civil_month.induct)
  case (2 m l ls d)
  show ?case
  proof (cases "d < l")
    case True
    then show ?thesis using 2 by simp
  next
    case False
    with 2 have ih: "Suc m \<le> m' \<and> m' < Suc m + length ls \<and> d - l = sum_list (take (m' - Suc m) ls) + d' \<and>
        d' < ls ! (m' - Suc m)" by simp
    then have "m' - m = Suc (m' - Suc m)" by arith
    moreover have "d = l + sum_list (take (m' - Suc m) ls) + d'" using ih False by linarith
    ultimately show ?thesis using ih by simp
  qed
qed simp

section \<open>Writing\<close>

definition digit :: "nat \<Rightarrow> char" where
  "digit n = char_of (48 + n)"

definition pad2 :: "nat \<Rightarrow> string" where
  "pad2 n = [digit (n div 10), digit (n mod 10)]"

definition pad4 :: "nat \<Rightarrow> string" where
  "pad4 n = (if n < 10000 then [digit (n div 1000), digit (n div 100 mod 10), digit (n div 10 mod 10), digit (n mod 10)]
     else nat_dec n)"

abbreviation second :: nat where "second \<equiv> 1000000000"

definition time_year :: "instant \<Rightarrow> nat" where
  "time_year t = fst (civil_year 1970 (t div second div 86400))"

text \<open>\<open>t.UTC().Format(time.RFC3339)\<close>\<close>

definition format_time :: "instant \<Rightarrow> string" where
  "format_time t =
     (let s = t div second; (y, yd) = civil_year 1970 (s div 86400); (m, d) = civil_month 1 (month_days y) yd;
          r = s mod 86400
      in pad4 y @ ''-'' @ pad2 m @ ''-'' @ pad2 (Suc d) @ ''T'' @
         pad2 (r div 3600) @ '':'' @ pad2 (r div 60 mod 60) @ '':'' @ pad2 (r mod 60) @ ''Z'')"

section \<open>Reading\<close>

definition is_digit :: "char \<Rightarrow> bool" where
  "is_digit c \<longleftrightarrow> 48 \<le> byte c \<and> byte c \<le> 57"

definition num_of :: "string \<Rightarrow> nat option" where
  "num_of s = (if s \<noteq> [] \<and> list_all is_digit s then Some (foldl (\<lambda>n c. 10 * n + (byte c - 48)) 0 s) else None)"

text \<open>The zone: its offset from UTC in seconds.\<close>

definition parse_zone :: "string \<Rightarrow> int option" where
  "parse_zone z =
     (if z = ''Z'' then Some 0
      else if length z = 6 \<and> z ! 3 = CHR '':'' \<and> (hd z = CHR ''+'' \<or> hd z = CHR ''-'') then
        (case (num_of (take 2 (drop 1 z)), num_of (drop 4 z)) of
           (Some h, Some m) \<Rightarrow> if h \<le> 24 \<and> m < 60
             then Some ((if hd z = CHR ''-'' then -1 else 1) * (int h * 3600 + int m * 60)) else None
         | _ \<Rightarrow> None)
      else None)"

text \<open>A fraction: its nanoseconds, digits after the ninth dropped, and the rest.\<close>

definition parse_fraction :: "string \<Rightarrow> (nat \<times> string) option" where
  "parse_fraction s = (case s of
     c # t \<Rightarrow> if c = CHR ''.'' then
         (let ds = takeWhile is_digit t in
          case num_of (take 9 (ds @ replicate 9 CHR ''0'')) of
            Some n \<Rightarrow> if ds = [] then None else Some (n, dropWhile is_digit t)
          | None \<Rightarrow> None)
       else Some (0, s)
   | [] \<Rightarrow> Some (0, s))"

text \<open>\<open>time.Parse(time.RFC3339, s)\<close>, as nanoseconds since the epoch.\<close>

definition parse_time :: "string \<Rightarrow> int option" where
  "parse_time s =
     (if length s < 20 \<or> s ! 4 \<noteq> CHR ''-'' \<or> s ! 7 \<noteq> CHR ''-'' \<or> s ! 10 \<noteq> CHR ''T'' \<or>
         s ! 13 \<noteq> CHR '':'' \<or> s ! 16 \<noteq> CHR '':'' then None
      else case (num_of (take 4 s), num_of (take 2 (drop 5 s)), num_of (take 2 (drop 8 s)),
             num_of (take 2 (drop 11 s)), num_of (take 2 (drop 14 s)), num_of (take 2 (drop 17 s)),
             parse_fraction (drop 19 s)) of
        (Some y, Some m, Some d, Some h, Some mi, Some sec, Some (ns, z)) \<Rightarrow>
          (case parse_zone z of
             None \<Rightarrow> None
           | Some off \<Rightarrow>
               if 1 \<le> m \<and> m \<le> 12 \<and> 1 \<le> d \<and> d \<le> month_days y ! (m - 1) \<and> h < 24 \<and> mi < 60 \<and> sec < 60
               then Some ((((int (days_before y) - int (days_before 1970) + int (sum_list (take (m - 1) (month_days y))) + int d - 1)
                   * 86400 + int (h * 3600 + mi * 60 + sec) - off) * int second) + int ns)
               else None)
      | _ \<Rightarrow> None)"

section \<open>Reading back\<close>

lemma byte_digit: "n < 10 \<Longrightarrow> byte (digit n) = 48 + n"
  by (simp add: digit_def of_char_of)

lemma is_digit_digit: "n < 10 \<Longrightarrow> is_digit (digit n)"
  by (simp add: is_digit_def byte_digit)

lemma num_pad2: "n < 100 \<Longrightarrow> num_of (pad2 n) = Some n"
  by (simp add: num_of_def pad2_def is_digit_digit byte_digit)

lemma num_pad4: "n < 10000 \<Longrightarrow> num_of (pad4 n) = Some n"
proof -
  assume n: "n < 10000"
  define a b c d where "a = n div 1000" and "b = n div 100 mod 10" and "c = n div 10 mod 10" and "d = n mod 10"
  have 1: "n = n div 10 * 10 + d" unfolding d_def by simp
  have "n div 100 = n div 10 div 10" using div_mult2_eq [of n 10 10] by simp
  then have 2: "n div 10 = n div 100 * 10 + c" unfolding c_def by simp
  have "n div 1000 = n div 100 div 10" using div_mult2_eq [of n 100 10] by simp
  then have 3: "n div 100 = a * 10 + b" unfolding a_def b_def by simp
  have bd: "a < 10" "b < 10" "c < 10" "d < 10" using n by (auto simp: a_def b_def c_def d_def)
  have p: "pad4 n = [digit a, digit b, digit c, digit d]" using n by (simp add: pad4_def a_def b_def c_def d_def)
  have "num_of (pad4 n) = Some (10 * (10 * (10 * a + b) + c) + d)"
    using bd by (simp add: p num_of_def is_digit_digit byte_digit)
  moreover have "10 * (10 * (10 * a + b) + c) + d = n"
    by (subst 1, subst 2, subst 3) simp
  ultimately show ?thesis by simp
qed

lemma pad_lengths: "length (pad2 n) = 2" "n < 10000 \<Longrightarrow> length (pad4 n) = 4"
  by (simp_all add: pad2_def pad4_def)

text \<open>A field of a known length at a known place.\<close>

lemma civil_month_date:
  assumes "civil_year 1970 days = (y, yd)" and "civil_month 1 (month_days y) yd = (m, d)"
  shows "1 \<le> m \<and> m \<le> 12 \<and> d < month_days y ! (m - 1) \<and>
    days_before 1970 + days = days_before y + sum_list (take (m - 1) (month_days y)) + d"
proof -
  from civil_year_inverse [OF assms(1)] have y: "days_before 1970 + days = days_before y + yd" "yd < year_days y" by auto
  from civil_month_inverse [OF assms(2)] y(2) month_days_sum
  have "1 \<le> m \<and> m < 1 + 12 \<and> yd = sum_list (take (m - 1) (month_days y)) + d \<and> d < month_days y ! (m - 1)" by simp
  with y show ?thesis by auto
qed

lemma month_days_31: "m \<le> 12 \<Longrightarrow> 1 \<le> m \<Longrightarrow> month_days y ! (m - 1) \<le> 31"
proof -
  assume "m \<le> 12" "1 \<le> m"
  then have "month_days y ! (m - 1) \<in> set (month_days y)" by (intro nth_mem) (simp add: month_days_sum)
  then show ?thesis by (auto simp: month_days_def split: if_splits)
qed

text \<open>The fields of the written form.\<close>

lemma parse_fields:
  assumes "y < 10000" and "m < 100" and "d < 100" and "h < 100" and "mi < 100" and "sec < 100"
    and "s = pad4 y @ ''-'' @ pad2 m @ ''-'' @ pad2 d @ ''T'' @ pad2 h @ '':'' @ pad2 mi @ '':'' @ pad2 sec @ ''Z''"
    and "1 \<le> m" "m \<le> 12" "1 \<le> d" "d \<le> month_days y ! (m - 1)" "h < 24" "mi < 60" "sec < 60"
  shows "parse_time s = Some (((int (days_before y) - int (days_before 1970) + int (sum_list (take (m - 1) (month_days y))) + int d - 1)
     * 86400 + int (h * 3600 + mi * 60 + sec)) * int second)"
proof -
  have l: "length (pad4 y) = 4" using assms(1) by (simp add: pad_lengths)
  obtain a1 a2 a3 a4 where p4: "pad4 y = [a1, a2, a3, a4]"
    using l by (auto simp: length_Suc_conv eval_nat_numeral)
  have nums: "num_of (pad4 y) = Some y" "num_of (pad2 m) = Some m" "num_of (pad2 d) = Some d"
      "num_of (pad2 h) = Some h" "num_of (pad2 mi) = Some mi" "num_of (pad2 sec) = Some sec"
    using assms(1-6) by (simp_all add: num_pad4 num_pad2)
  have slices: "take 4 s = pad4 y" "take 2 (drop 5 s) = pad2 m" "take 2 (drop 8 s) = pad2 d"
      "take 2 (drop 11 s) = pad2 h" "take 2 (drop 14 s) = pad2 mi" "take 2 (drop 17 s) = pad2 sec" "drop 19 s = ''Z''"
      "length s = 20" "s ! 4 = CHR ''-''" "s ! 7 = CHR ''-''" "s ! 10 = CHR ''T''" "s ! 13 = CHR '':''" "s ! 16 = CHR '':''"
    unfolding assms(7) p4 pad2_def by simp_all
  show ?thesis
    unfolding parse_time_def slices nums using assms(8-)
    by (simp add: parse_fraction_def parse_zone_def)
qed

text \<open>Reading what was written gives the instant rounded down to the second.\<close>

lemma parse_format:
  assumes "time_year t < 10000"
  shows "parse_time (format_time t) = Some (int (t div second) * int second)"
proof -
  define s where "s = t div second"
  define r where "r = s mod 86400"
  obtain y yd where y: "civil_year 1970 (s div 86400) = (y, yd)" by fastforce
  obtain m d where m: "civil_month 1 (month_days y) yd = (m, d)" by fastforce
  from civil_month_date [OF y m] have md: "1 \<le> m" "m \<le> 12" "d < month_days y ! (m - 1)"
    and days: "days_before 1970 + s div 86400 = days_before y + sum_list (take (m - 1) (month_days y)) + d" by auto
  have y4: "y < 10000" using assms y by (simp add: time_year_def s_def)
  have d31: "Suc d \<le> 31" using md month_days_31 [OF md(2,1), of y] by linarith
  have rb: "r div 3600 < 24" "r div 60 mod 60 < 60" "r mod 60 < 60" by (auto simp: r_def)
  have fmt: "format_time t = pad4 y @ ''-'' @ pad2 m @ ''-'' @ pad2 (Suc d) @ ''T'' @
      pad2 (r div 3600) @ '':'' @ pad2 (r div 60 mod 60) @ '':'' @ pad2 (r mod 60) @ ''Z''"
    using y m by (simp add: format_time_def Let_def s_def r_def)
  have p: "parse_time (format_time t) = Some (((int (days_before y) - int (days_before 1970) + int (sum_list (take (m - 1) (month_days y))) + int (Suc d) - 1)
     * 86400 + int (r div 3600 * 3600 + r div 60 mod 60 * 60 + r mod 60)) * int second)"
    by (rule parse_fields [OF y4 _ _ _ _ _ fmt]) (use md d31 rb in auto)
  have "r div 3600 = r div 60 div 60" using div_mult2_eq [of r 60 60] by simp
  then have hms: "r div 3600 * 3600 + r div 60 mod 60 * 60 + r mod 60 = r"
    using div_mult_mod_eq [of "r div 60" 60] div_mult_mod_eq [of r 60] by linarith
  have "int (days_before y) - int (days_before 1970) + int (sum_list (take (m - 1) (month_days y))) + int (Suc d) - 1 = int (s div 86400)"
    using days by linarith
  moreover have "int (s div 86400) * 86400 + int r = int s"
    unfolding r_def using div_mult_mod_eq [of s 86400] by linarith
  ultimately show ?thesis unfolding p hms s_def [symmetric] by simp
qed

end
