(* ===== verification/SessionStore.thy ===== *)
theory SessionStore
  imports Task Clock
begin

text \<open>
  \<open>internal/approval/session_store.go\<close>: the grants of the approval sessions and their two-phase
  consumption. The directory is a map from file names to contents; a content is a document or
  something that does not parse, and JSON gives back what was written (a nil slice and an empty one
  are the same list). Every operation but \<open>Preview\<close> and \<open>List\<close> runs under the file's lock, so
  operations are steps one after the other; failures of the file system itself are not modelled.
  SHA-256 in hexadecimal is the argument \<open>H\<close>, the clock reading the argument \<open>now\<close>.
\<close>

section \<open>Documents\<close>

record Grant =
  g_Scope :: string
  g_Kind :: string
  g_Regex :: string
  g_Prefix :: "string list"
  g_SourceCmd :: string
  g_Host :: string
  g_GrantedTS :: string
  g_ExpiresTS :: string
  g_ApprovalID :: string
  g_ReqID :: string
  g_Channel :: string
  g_Task :: "TaskPermission option"
  g_StdinSHA256 :: string
  g_StdinBytes :: int
  g_ClaimReqID :: string
  g_ClaimTS :: string

record sessionFile =
  sf_Version :: int
  sf_SessionID :: string
  sf_Host :: string
  sf_Updated :: string
  sf_Grants :: "Grant list"

definition sessionFileVersion :: int where
  "sessionFileVersion = 2"

definition no_session :: sessionFile where
  "no_session = \<lparr>sf_Version = 0, sf_SessionID = [], sf_Host = [], sf_Updated = [], sf_Grants = []\<rparr>"

datatype content = Doc sessionFile | Unparsable

type_synonym store = "content gomap"

definition sessionPath :: "(string \<Rightarrow> string) \<Rightarrow> string \<Rightarrow> string" where
  "sessionPath H sid = H sid @ ''.json''"

definition readSessionFile :: "store \<Rightarrow> string \<Rightarrow> sessionFile res" where
  "readSessionFile st path = (case gget st path of
     None \<Rightarrow> Inr no_session
   | Some (Doc d) \<Rightarrow> Inr d
   | Some Unparsable \<Rightarrow> Inl (Errorf ''parse approval session'' [path]))"

definition grant_matcher :: "Grant \<Rightarrow> Matcher" where
  "grant_matcher g = \<lparr>m_Kind = g_Kind g, m_Regex = g_Regex g, m_Prefix = g_Prefix g, m_Promotable = True,
     m_SourceCmd = g_SourceCmd g, m_Task = g_Task g\<rparr>"

text \<open>A grant without an expiry is live; one whose expiry does not parse is not.\<close>

definition live :: "instant \<Rightarrow> Grant \<Rightarrow> bool" where
  "live now g \<longleftrightarrow> g_ExpiresTS g = [] \<or>
     (case parse_time (g_ExpiresTS g) of None \<Rightarrow> False | Some expires \<Rightarrow> int now < expires)"

definition filterLiveGrants :: "Grant list \<Rightarrow> instant \<Rightarrow> Grant list" where
  "filterLiveGrants grants now = filter (live now) grants"

section \<open>Repair of old documents\<close>

datatype normalized = Kept Grant | Repaired Grant | Dropped

definition normalizeGrant :: "engine \<Rightarrow> Grant \<Rightarrow> normalized" where
  "normalizeGrant E g =
     (if g_Kind g \<noteq> MatcherExact \<or> g_SourceCmd g = [] then
        (case compileMatcher E (g_Regex g) of
           Inr expr \<Rightarrow> if \<not> looksLegacyEscaped (g_Regex g) \<and> (g_SourceCmd g = [] \<or> expr (g_SourceCmd g)) then Kept g else Dropped
         | Inl _ \<Rightarrow> Dropped)
      else case Exact E (g_SourceCmd g) of
        Inl _ \<Rightarrow> Dropped
      | Inr m \<Rightarrow> if m_Regex m = g_Regex g then Kept g
          else Repaired (g\<lparr>g_Regex := m_Regex m, g_Kind := m_Kind m, g_Prefix := m_Prefix m\<rparr>))"

fun kept_grant :: "normalized \<Rightarrow> Grant list" where
  "kept_grant (Kept g) = [g]"
| "kept_grant (Repaired g) = [g]"
| "kept_grant Dropped = []"

definition normalizeGrants :: "engine \<Rightarrow> sessionFile \<Rightarrow> sessionFile \<times> nat \<times> nat" where
  "normalizeGrants E doc =
     (let out = map (normalizeGrant E) (sf_Grants doc) in
      (doc\<lparr>sf_Grants := concat (map kept_grant out)\<rparr>,
       length (filter (\<lambda>n. case n of Repaired _ \<Rightarrow> True | _ \<Rightarrow> False) out),
       length (filter (\<lambda>n. n = Dropped) out)))"

section \<open>Locked access\<close>

definition upgrade :: "engine \<Rightarrow> sessionFile \<Rightarrow> sessionFile" where
  "upgrade E doc =
     (if sf_SessionID doc \<noteq> [] \<and> sf_Version doc < sessionFileVersion
      then (fst (normalizeGrants E doc))\<lparr>sf_Version := sessionFileVersion\<rparr> else doc)"

text \<open>The document is written back when the function changed it or it was upgraded.\<close>

definition withLockedSession :: "engine \<Rightarrow> (string \<Rightarrow> string) \<Rightarrow> store \<Rightarrow> string \<Rightarrow>
    (sessionFile \<Rightarrow> (sessionFile \<times> 'a) res) \<Rightarrow> store \<times> 'a res" where
  "withLockedSession E H st sid fn =
     (if sid = [] then (st, Inl (Errorf ''approval session id is required'' []))
      else case readSessionFile st (sessionPath H sid) of
        Inl e \<Rightarrow> (st, Inl e)
      | Inr doc \<Rightarrow>
          (case fn (upgrade E doc) of
             Inl e \<Rightarrow> (st, Inl e)
           | Inr (doc', r) \<Rightarrow> (if doc' = doc then st else gput (sessionPath H sid) (Doc doc') st, Inr r)))"

definition id_mismatch :: "string \<Rightarrow> string \<Rightarrow> error" where
  "id_mismatch got sid = Errorf ''session store file mismatch'' [got, sid]"

section \<open>Granting\<close>

definition new_grant :: "instant \<Rightarrow> string \<Rightarrow> string \<Rightarrow> Matcher \<Rightarrow> string \<Rightarrow> int \<Rightarrow> string \<Rightarrow> string \<Rightarrow> nat \<Rightarrow> string \<Rightarrow> Grant" where
  "new_grant now host scope m stdinSHA256 stdinBytes approvalID reqID ttl channel =
     \<lparr>g_Scope = scope, g_Kind = m_Kind m, g_Regex = m_Regex m, g_Prefix = m_Prefix m, g_SourceCmd = m_SourceCmd m,
      g_Host = host, g_GrantedTS = format_time now, g_ExpiresTS = format_time (now + ttl), g_ApprovalID = approvalID,
      g_ReqID = reqID, g_Channel = channel, g_Task = m_Task m, g_StdinSHA256 = stdinSHA256, g_StdinBytes = stdinBytes,
      g_ClaimReqID = [], g_ClaimTS = []\<rparr>"

definition insert_grant :: "instant \<Rightarrow> string \<Rightarrow> Grant \<Rightarrow> sessionFile \<Rightarrow> (sessionFile \<times> Grant) res" where
  "insert_grant now sid g doc0 =
     (let doc1 = (if sf_Version doc0 < sessionFileVersion then doc0\<lparr>sf_Version := sessionFileVersion\<rparr> else doc0);
          doc = (if sf_SessionID doc1 = [] then doc1\<lparr>sf_SessionID := sid\<rparr> else doc1)
      in if sf_SessionID doc \<noteq> sid then Inl (id_mismatch (sf_SessionID doc) sid)
         else Inr (doc\<lparr>sf_Grants := filter (\<lambda>x. \<not> (g_Host x = g_Host g \<and> g_Scope x = g_Scope g \<and> g_Regex x = g_Regex g \<and>
                       g_StdinSHA256 x = g_StdinSHA256 g)) (filterLiveGrants (sf_Grants doc) now) @ [g],
                     sf_Updated := format_time now\<rparr>, g))"

definition store_Grant :: "engine \<Rightarrow> libs \<Rightarrow> (string \<Rightarrow> string) \<Rightarrow> instant \<Rightarrow> store \<Rightarrow> string \<Rightarrow> string \<Rightarrow> string \<Rightarrow> Matcher \<Rightarrow>
    string \<Rightarrow> int \<Rightarrow> string \<Rightarrow> string \<Rightarrow> nat \<Rightarrow> string \<Rightarrow> store \<times> Grant res" where
  "store_Grant E L H now st sid host scope m stdinSHA256 stdinBytes approvalID reqID ttl channel =
     (if scope \<noteq> ScopeOnce \<and> scope \<noteq> ScopeSession \<and> scope \<noteq> ScopeTask then
        (st, Inl (Errorf ''session store cannot grant scope'' [scope]))
      else if scope = ScopeTask \<and> (stdinSHA256 \<noteq> [] \<or> \<not> validTaskMatcher L m) then
        (st, Inl (Errorf ''task grants require a valid bounded command without stdin'' []))
      else if scope \<noteq> ScopeTask \<and> m_Kind m = MatcherTask then
        (st, Inl (Errorf ''task matchers require task scope'' []))
      else withLockedSession E H st sid
        (insert_grant now sid (new_grant now host scope m stdinSHA256 stdinBytes approvalID reqID ttl channel)))"

section \<open>Matching and claiming\<close>

text \<open>A task grant without a task matcher or expiry, or a task matcher under another scope.\<close>

definition malformed :: "Grant \<Rightarrow> bool" where
  "malformed g \<longleftrightarrow> g_Scope g = ScopeTask \<and> (g_Kind g \<noteq> MatcherTask \<or> g_ExpiresTS g = []) \<or>
     g_Kind g = MatcherTask \<and> g_Scope g \<noteq> ScopeTask"

definition claim_grant :: "instant \<Rightarrow> string \<Rightarrow> Grant \<Rightarrow> Grant" where
  "claim_grant now claimReqID g =
     (if g_Scope g = ScopeOnce \<and> claimReqID \<noteq> [] \<and> g_ClaimReqID g \<noteq> claimReqID
      then g\<lparr>g_ClaimReqID := claimReqID, g_ClaimTS := format_time now\<rparr> else g)"

definition not_for :: "string \<Rightarrow> string \<Rightarrow> string \<Rightarrow> Grant \<Rightarrow> bool" where
  "not_for host stdinSHA256 claimReqID g \<longleftrightarrow> g_Host g \<noteq> host \<or> g_StdinSHA256 g \<noteq> stdinSHA256 \<or>
     g_Scope g = ScopeOnce \<and> g_ClaimReqID g \<noteq> [] \<and> g_ClaimReqID g \<noteq> claimReqID"

text \<open>The loop of \<open>match\<close>: what remains, whether anything changed, the grant that matched.\<close>

fun matchLoop :: "engine \<Rightarrow> libs \<Rightarrow> instant \<Rightarrow> string \<Rightarrow> string \<Rightarrow> string \<Rightarrow> string \<Rightarrow> Grant list \<Rightarrow>
    Grant list \<times> bool \<times> Grant option \<Rightarrow> Grant list \<times> bool \<times> Grant option" where
  "matchLoop E L now host command stdin claim [] acc = acc"
| "matchLoop E L now host command stdin claim (g # gs) (remaining, changed, matched) =
     (if malformed g then matchLoop E L now host command stdin claim gs (remaining, True, matched)
      else if matched \<noteq> None \<or> not_for host stdin claim g then
        matchLoop E L now host command stdin claim gs (remaining @ [g], changed, matched)
      else case Matcher_Match E L (grant_matcher g) command of
        Inl _ \<Rightarrow> matchLoop E L now host command stdin claim gs (remaining, True, matched)
      | Inr False \<Rightarrow> matchLoop E L now host command stdin claim gs (remaining @ [g], changed, matched)
      | Inr True \<Rightarrow>
          (let g' = claim_grant now claim g in
           matchLoop E L now host command stdin claim gs (remaining @ [g'], changed \<or> g' \<noteq> g, Some g')))"

definition match_doc :: "engine \<Rightarrow> libs \<Rightarrow> instant \<Rightarrow> string \<Rightarrow> string \<Rightarrow> string \<Rightarrow> string \<Rightarrow> string \<Rightarrow> sessionFile \<Rightarrow>
    (sessionFile \<times> Grant option) res" where
  "match_doc E L now sid host command stdin claim doc =
     (if sf_SessionID doc = [] then Inr (doc, None)
      else if sf_SessionID doc \<noteq> sid then Inl (id_mismatch (sf_SessionID doc) sid)
      else let live_grants = filterLiveGrants (sf_Grants doc) now;
               (remaining, changed, matched) = matchLoop E L now host command stdin claim live_grants
                 ([], length live_grants \<noteq> length (sf_Grants doc), None)
        in Inr (if changed then doc\<lparr>sf_Grants := remaining, sf_Updated := format_time now\<rparr> else doc, matched))"

definition store_match :: "engine \<Rightarrow> libs \<Rightarrow> (string \<Rightarrow> string) \<Rightarrow> instant \<Rightarrow> store \<Rightarrow> string \<Rightarrow> string \<Rightarrow> string \<Rightarrow> string \<Rightarrow> string \<Rightarrow>
    store \<times> Grant option res" where
  "store_match E L H now st sid host command stdin claim =
     (if sid = [] then (st, Inr None)
      else withLockedSession E H st sid (match_doc E L now sid host command stdin claim))"

definition store_Peek :: "engine \<Rightarrow> libs \<Rightarrow> (string \<Rightarrow> string) \<Rightarrow> instant \<Rightarrow> store \<Rightarrow> string \<Rightarrow> string \<Rightarrow> string \<Rightarrow> string \<Rightarrow>
    store \<times> Grant option res" where
  "store_Peek E L H now st sid host command stdin = store_match E L H now st sid host command stdin []"

definition store_Claim :: "engine \<Rightarrow> libs \<Rightarrow> (string \<Rightarrow> string) \<Rightarrow> instant \<Rightarrow> store \<Rightarrow> string \<Rightarrow> string \<Rightarrow> string \<Rightarrow> string \<Rightarrow> string \<Rightarrow>
    store \<times> Grant option res" where
  "store_Claim E L H now st sid host command stdin reqID =
     (if reqID = [] then (st, Inl (Errorf ''once-grant claim requires a request id'' []))
      else store_match E L H now st sid host command stdin reqID)"

text \<open>The loop of \<open>Preview\<close>.\<close>

fun previewLoop :: "engine \<Rightarrow> libs \<Rightarrow> string \<Rightarrow> string \<Rightarrow> string \<Rightarrow> Grant list \<Rightarrow> Grant option" where
  "previewLoop E L host command stdin [] = None"
| "previewLoop E L host command stdin (g # gs) =
     (if g_Host g \<noteq> host \<or> g_StdinSHA256 g \<noteq> stdin \<or> g_Scope g = ScopeOnce \<and> g_ClaimReqID g \<noteq> [] then
        previewLoop E L host command stdin gs
      else if malformed g then previewLoop E L host command stdin gs
      else if Matcher_Match E L (grant_matcher g) command = Inr True then Some g
      else previewLoop E L host command stdin gs)"

definition store_Preview :: "engine \<Rightarrow> libs \<Rightarrow> (string \<Rightarrow> string) \<Rightarrow> instant \<Rightarrow> store \<Rightarrow> string \<Rightarrow> string \<Rightarrow> string \<Rightarrow> string \<Rightarrow>
    Grant option res" where
  "store_Preview E L H now st sid host command stdin =
     (if sid = [] then Inr None
      else rbind (readSessionFile st (sessionPath H sid)) (\<lambda>doc.
        if sf_SessionID doc = [] then Inr None
        else if sf_SessionID doc \<noteq> sid then Inl (id_mismatch (sf_SessionID doc) sid)
        else let doc' = (if sf_Version doc < sessionFileVersion then fst (normalizeGrants E doc) else doc)
          in Inr (previewLoop E L host command stdin (filterLiveGrants (sf_Grants doc') now))))"

section \<open>Settling claims\<close>

definition claimed_by :: "string \<Rightarrow> Grant \<Rightarrow> bool" where
  "claimed_by reqID g \<longleftrightarrow> g_Scope g = ScopeOnce \<and> g_ClaimReqID g = reqID"

definition settle_doc :: "instant \<Rightarrow> string \<Rightarrow> string \<Rightarrow> bool \<Rightarrow> sessionFile \<Rightarrow> (sessionFile \<times> unit) res" where
  "settle_doc now sid reqID consume doc =
     (if sf_SessionID doc = [] then Inr (doc, ())
      else if sf_SessionID doc \<noteq> sid then Inl (id_mismatch (sf_SessionID doc) sid)
      else if list_ex (claimed_by reqID) (sf_Grants doc) then
        Inr (doc\<lparr>sf_Grants := concat (map (\<lambda>g.
               if \<not> claimed_by reqID g then [g]
               else if consume then [] else [g\<lparr>g_ClaimReqID := [], g_ClaimTS := []\<rparr>]) (sf_Grants doc)),
             sf_Updated := format_time now\<rparr>, ())
      else Inr (doc, ()))"

definition settleClaims :: "engine \<Rightarrow> (string \<Rightarrow> string) \<Rightarrow> instant \<Rightarrow> store \<Rightarrow> string \<Rightarrow> string \<Rightarrow> bool \<Rightarrow> store \<times> unit res" where
  "settleClaims E H now st sid reqID consume =
     (if sid = [] \<or> reqID = [] then (st, Inr ())
      else withLockedSession E H st sid (settle_doc now sid reqID consume))"

definition store_Commit :: "engine \<Rightarrow> (string \<Rightarrow> string) \<Rightarrow> instant \<Rightarrow> store \<Rightarrow> string \<Rightarrow> string \<Rightarrow> store \<times> unit res" where
  "store_Commit E H now st sid reqID = settleClaims E H now st sid reqID True"

definition store_Release :: "engine \<Rightarrow> (string \<Rightarrow> string) \<Rightarrow> instant \<Rightarrow> store \<Rightarrow> string \<Rightarrow> string \<Rightarrow> store \<times> unit res" where
  "store_Release E H now st sid reqID = settleClaims E H now st sid reqID False"

section \<open>Ending and listing\<close>

definition ends_with_session :: "string \<Rightarrow> sessionFile \<Rightarrow> bool" where
  "ends_with_session sid doc \<longleftrightarrow> sf_SessionID doc = sid \<or> has_prefix (sf_SessionID doc) (sid @ ''@'')"

text \<open>The loop of \<open>End\<close> over the directory; a document that does not parse stops it.\<close>

fun endLoop :: "string \<Rightarrow> string list \<Rightarrow> store \<Rightarrow> store \<times> unit res" where
  "endLoop sid [] st = (st, Inr ())"
| "endLoop sid (name # names) st =
     (if \<not> has_suffix name ''.json'' then endLoop sid names st
      else case readSessionFile st name of
        Inl e \<Rightarrow> (st, Inl e)
      | Inr doc \<Rightarrow> endLoop sid names (if ends_with_session sid doc then gdel name st else st))"

definition store_End :: "(string \<Rightarrow> string) \<Rightarrow> store \<Rightarrow> string \<Rightarrow> store \<times> unit res" where
  "store_End H st sid =
     (if sid = [] then (st, Inr ())
      else let st' = gdel (sessionPath H sid) st in endLoop sid (sort (keys st')) st')"

definition store_List :: "(string \<Rightarrow> string) \<Rightarrow> instant \<Rightarrow> store \<Rightarrow> string \<Rightarrow> Grant list res" where
  "store_List H now st sid = rbind (readSessionFile st (sessionPath H sid)) (\<lambda>doc.
     if sf_SessionID doc \<noteq> [] \<and> sf_SessionID doc \<noteq> sid then Inl (Errorf ''session id mismatch'' [])
     else Inr (filterLiveGrants (sf_Grants doc) now))"


section \<open>Lemmas: the matching loop\<close>

lemma claim_grant_sel [simp]:
  "g_Scope (claim_grant now r g) = g_Scope g" "g_Kind (claim_grant now r g) = g_Kind g"
  "g_Regex (claim_grant now r g) = g_Regex g" "g_Host (claim_grant now r g) = g_Host g"
  "g_ExpiresTS (claim_grant now r g) = g_ExpiresTS g" "g_ApprovalID (claim_grant now r g) = g_ApprovalID g"
  "g_StdinSHA256 (claim_grant now r g) = g_StdinSHA256 g" "g_Task (claim_grant now r g) = g_Task g"
  "live now' (claim_grant now r g) = live now' g" "malformed (claim_grant now r g) = malformed g"
  "grant_matcher (claim_grant now r g) = grant_matcher g"
  by (simp_all add: claim_grant_def live_def malformed_def grant_matcher_def)

lemma claim_grant_empty [simp]: "claim_grant now [] g = g"
  by (simp add: claim_grant_def)

lemma map_claim_empty [simp]: "map_option (claim_grant now []) x = x"
  by (cases x) simp_all

text \<open>A grant a request can use.\<close>

definition usable :: "engine \<Rightarrow> libs \<Rightarrow> string \<Rightarrow> string \<Rightarrow> string \<Rightarrow> string \<Rightarrow> Grant \<Rightarrow> bool" where
  "usable E L host command stdin claim g \<longleftrightarrow> \<not> malformed g \<and> \<not> not_for host stdin claim g \<and>
     Matcher_Match E L (grant_matcher g) command = Inr True"

lemma matchLoop_matched:
  "snd (snd (matchLoop E L now host command stdin claim gs (rem, ch, m))) =
     (case m of Some g \<Rightarrow> Some g | None \<Rightarrow> map_option (claim_grant now claim) (find (usable E L host command stdin claim) gs))"
  by (induction gs arbitrary: rem ch m)
    (auto simp: usable_def Let_def split: option.splits sum.splits bool.splits)

lemma matchLoop_ids:
  "subseq (map g_ApprovalID (fst (matchLoop E L now host command stdin claim gs (rem, ch, m)))) (map g_ApprovalID (rem @ gs))"
proof (induction gs arbitrary: rem ch m)
  case (Cons g gs)
  have drop: "subseq (map g_ApprovalID (rem @ gs)) (map g_ApprovalID (rem @ g # gs))" by (simp add: subseq_append' list_emb_Cons)
  have keep: "map g_ApprovalID ((rem @ [g']) @ gs) = map g_ApprovalID (rem @ g # gs)" if "g_ApprovalID g' = g_ApprovalID g" for g'
    using that by simp
  show ?case
    using Cons.IH [of rem True m] Cons.IH [of "rem @ [g]" ch m] Cons.IH [of "rem @ [claim_grant now claim g]" _ "Some (claim_grant now claim g)"]
      keep [of g] keep [of "claim_grant now claim g"] subseq_order.trans [OF _ drop]
    by (auto simp: Let_def split: sum.splits bool.splits)
qed simp

text \<open>What stays is what was there, at most with a claim put on it.\<close>

lemma matchLoop_members:
  "x \<in> set (fst (matchLoop E L now host command stdin claim gs (rem, ch, m))) \<Longrightarrow>
   x \<in> set rem \<or> (\<exists>g \<in> set gs. x = g \<or> x = claim_grant now claim g \<and> usable E L host command stdin claim g)"
proof (induction gs arbitrary: rem ch m)
  case (Cons g gs)
  consider "malformed g" | "\<not> malformed g" "m \<noteq> None \<or> not_for host stdin claim g"
    | e where "\<not> malformed g" "m = None" "\<not> not_for host stdin claim g" "Matcher_Match E L (grant_matcher g) command = Inl e"
    | "\<not> malformed g" "m = None" "\<not> not_for host stdin claim g" "Matcher_Match E L (grant_matcher g) command = Inr False"
    | "m = None" "usable E L host command stdin claim g"
    unfolding usable_def by (cases "Matcher_Match E L (grant_matcher g) command") auto
  then show ?case
  proof cases
    case 1
    then show ?thesis using Cons.prems Cons.IH [of rem True m] by auto
  next
    case 2
    then show ?thesis using Cons.prems Cons.IH [of "rem @ [g]" ch m] by auto
  next
    case 3
    then show ?thesis using Cons.prems Cons.IH [of rem True m] by auto
  next
    case 4
    then show ?thesis using Cons.prems Cons.IH [of "rem @ [g]" ch m] by auto
  next
    case 5
    let ?g = "claim_grant now claim g"
    have "x \<in> set (fst (matchLoop E L now host command stdin claim gs (rem @ [?g], ch \<or> ?g \<noteq> g, Some ?g)))"
      using Cons.prems 5 by (simp add: usable_def Let_def)
    from Cons.IH [OF this] 5 show ?thesis by auto
  qed
qed simp

text \<open>The claimed grant stays in the document.\<close>

lemma matchLoop_keeps_matched:
  "set rem \<subseteq> set (fst (matchLoop E L now host command stdin claim gs (rem, ch, m)))"
  by (induction gs arbitrary: rem ch m) (fastforce simp: Let_def split: sum.splits bool.splits)+

lemma matchLoop_stores_matched:
  "snd (snd (matchLoop E L now host command stdin claim gs (rem, ch, None))) = Some g \<Longrightarrow>
   g \<in> set (fst (matchLoop E L now host command stdin claim gs (rem, ch, None)))"
proof (induction gs arbitrary: rem ch)
  case (Cons x gs)
  show ?case
  proof (cases "usable E L host command stdin claim x")
    case True
    let ?g = "claim_grant now claim x"
    have eq: "matchLoop E L now host command stdin claim (x # gs) (rem, ch, None) =
        matchLoop E L now host command stdin claim gs (rem @ [?g], ch \<or> ?g \<noteq> x, Some ?g)"
      using True by (simp add: usable_def Let_def)
    have "g = ?g" using Cons.prems unfolding eq by (simp add: matchLoop_matched)
    then show ?thesis using matchLoop_keeps_matched [of "rem @ [?g]"] unfolding eq by auto
  next
    case False
    then show ?thesis using Cons by (auto simp: usable_def split: if_splits sum.splits bool.splits)
  qed
qed simp

lemma matchLoop_changed:
  "\<not> fst (snd (matchLoop E L now host command stdin claim gs (rem, ch, m))) \<Longrightarrow>
   \<not> ch \<and> fst (matchLoop E L now host command stdin claim gs (rem, ch, m)) = rem @ gs"
proof (induction gs arbitrary: rem ch m)
  case (Cons g gs)
  then show ?case by (auto simp: Let_def split: if_splits sum.splits bool.splits)
qed simp


section \<open>Lemmas: documents\<close>

lemma withLocked_cases:
  "withLockedSession E H st sid fn = (st', r) \<Longrightarrow> sid \<noteq> [] \<Longrightarrow>
   (\<exists>e. r = Inl e \<and> st' = st) \<or>
   (\<exists>doc doc' x. readSessionFile st (sessionPath H sid) = Inr doc \<and> fn (upgrade E doc) = Inr (doc', x) \<and> r = Inr x \<and>
      readSessionFile st' (sessionPath H sid) = Inr doc' \<and> (\<forall>p. p \<noteq> sessionPath H sid \<longrightarrow> gget st' p = gget st p))"
  by (auto simp: withLockedSession_def readSessionFile_def split: sum.splits option.splits content.splits if_splits)

lemma withLocked_Inr:
  "withLockedSession E H st sid fn = (st', r) \<Longrightarrow> sid \<noteq> [] \<Longrightarrow> readSessionFile st (sessionPath H sid) = Inr doc \<Longrightarrow>
   fn (upgrade E doc) = Inr (doc', x) \<Longrightarrow> r = Inr x \<and> readSessionFile st' (sessionPath H sid) = Inr doc'"
  by (auto simp: withLockedSession_def readSessionFile_def split: if_splits)

text \<open>A document every operation of the session accepts as it is.\<close>

definition doc_ok :: "string \<Rightarrow> sessionFile \<Rightarrow> bool" where
  "doc_ok sid doc \<longleftrightarrow> (if sf_SessionID doc = [] then doc = no_session else sf_SessionID doc = sid \<and> sf_Version doc \<ge> sessionFileVersion)"

lemma doc_ok_upgrade: "doc_ok sid doc \<Longrightarrow> upgrade E doc = doc"
  by (auto simp: doc_ok_def upgrade_def split: if_splits)

definition ids :: "sessionFile \<Rightarrow> string list" where
  "ids doc = map g_ApprovalID (sf_Grants doc)"

lemma ids_no_session [simp]: "ids no_session = []"
  by (simp add: ids_def no_session_def)

lemma subseq_set_distinct: "subseq xs ys \<Longrightarrow> distinct ys \<Longrightarrow> distinct xs \<and> set xs \<subseteq> set ys"
  by (induction rule: list_emb.induct) auto

lemma filter_subseq: "subseq (map f (filter P xs)) (map f xs)"
  by (rule subseq_map) simp

lemma insert_grant_ok:
  assumes "insert_grant now sid g doc = Inr (doc', x)" and "doc_ok sid doc" and "sid \<noteq> []"
  shows "doc_ok sid doc' \<and> x = g \<and> subseq (ids doc') (ids doc @ [g_ApprovalID g])"
proof -
  have "subseq (map g_ApprovalID (filter P (filterLiveGrants gs now))) (map g_ApprovalID gs)" for P gs
    unfolding filterLiveGrants_def by (rule subseq_map) (meson subseq_filter_left subseq_order.trans)
  then have "subseq (ids doc') (ids doc @ [g_ApprovalID g])"
    using assms(1) by (auto simp: insert_grant_def Let_def ids_def list_emb_append_mono split: if_splits)
  moreover have "doc_ok sid doc'" using assms by (auto simp: insert_grant_def Let_def doc_ok_def sessionFileVersion_def no_session_def split: if_splits)
  moreover have "x = g" using assms(1) by (auto simp: insert_grant_def Let_def split: if_splits)
  ultimately show ?thesis by blast
qed

lemma match_doc_ok:
  assumes "match_doc E L now sid host command stdin claim doc = Inr (doc', r)" and "doc_ok sid doc"
  shows "doc_ok sid doc' \<and> subseq (ids doc') (ids doc)"
proof -
  have s: "subseq (map g_ApprovalID (fst (matchLoop E L now host command stdin claim (filterLiveGrants gs now) ([], ch, None)))) (map g_ApprovalID gs)" for gs ch
    using matchLoop_ids [of E L now host command stdin claim "filterLiveGrants gs now" "[]" ch None] filter_subseq [of g_ApprovalID "live now" gs]
      subseq_order.trans unfolding filterLiveGrants_def by fastforce
  show ?thesis using assms s [of "sf_Grants doc"]
    by (auto simp: match_doc_def Let_def doc_ok_def ids_def no_session_def case_prod_beta split: if_splits)
qed

lemma settle_doc_ok:
  assumes "settle_doc now sid reqID consume doc = Inr (doc', r)" and "doc_ok sid doc"
  shows "doc_ok sid doc' \<and> subseq (ids doc') (ids doc) \<and>
    (consume \<longrightarrow> ids doc' = map g_ApprovalID (filter (\<lambda>g. \<not> claimed_by reqID g) (sf_Grants doc)))"
proof -
  let ?f = "\<lambda>g. if \<not> claimed_by reqID g then [g] else if consume then [] else [g\<lparr>g_ClaimReqID := [], g_ClaimTS := []\<rparr>]"
  have a: "subseq (map g_ApprovalID (concat (map ?f gs))) (map g_ApprovalID gs)" for gs
    by (induction gs) (auto split: if_splits)
  have b: "consume \<Longrightarrow> concat (map ?f gs) = filter (\<lambda>g. \<not> claimed_by reqID g) gs" for gs
    by (induction gs) auto
  have c: "\<not> list_ex (claimed_by reqID) gs \<Longrightarrow> filter (\<lambda>g. \<not> claimed_by reqID g) gs = gs" for gs
    by (auto simp: list_ex_iff intro: filter_True)
  show ?thesis
  proof (cases "sf_SessionID doc = [] \<or> \<not> list_ex (claimed_by reqID) (sf_Grants doc)")
    case True
    then have "doc' = doc" using assms(1) by (auto simp: settle_doc_def split: if_splits)
    moreover have "filter (\<lambda>g. \<not> claimed_by reqID g) (sf_Grants doc) = sf_Grants doc"
      using True assms(2) c by (auto simp: doc_ok_def no_session_def split: if_splits)
    ultimately show ?thesis using assms(2) by (simp add: ids_def)
  next
    case False
    then have "doc' = doc\<lparr>sf_Grants := concat (map ?f (sf_Grants doc)), sf_Updated := format_time now\<rparr>"
      using assms by (auto simp: settle_doc_def split: if_splits)
    then show ?thesis using a [of "sf_Grants doc"] b [of "sf_Grants doc"] assms(2) False
      by (auto simp: ids_def doc_ok_def)
  qed
qed


section \<open>Runs of a session\<close>

text \<open>
  Any sequence of operations on the session \<open>sid\<close>, from a directory without its file, with whatever
  happens to other files between them. \<open>issued\<close> are the approval identifiers granted so far, each
  granted once; \<open>consumed\<close> are those of the once grants commits have used up, with repetitions.
\<close>

definition session_doc :: "(string \<Rightarrow> string) \<Rightarrow> store \<Rightarrow> string \<Rightarrow> sessionFile" where
  "session_doc H st sid = (case readSessionFile st (sessionPath H sid) of Inr doc \<Rightarrow> doc | Inl _ \<Rightarrow> no_session)"

definition claimed_ids :: "(string \<Rightarrow> string) \<Rightarrow> store \<Rightarrow> string \<Rightarrow> string \<Rightarrow> string list" where
  "claimed_ids H st sid reqID = map g_ApprovalID (filter (claimed_by reqID) (sf_Grants (session_doc H st sid)))"

inductive session_run :: "engine \<Rightarrow> libs \<Rightarrow> (string \<Rightarrow> string) \<Rightarrow> string \<Rightarrow> store \<Rightarrow> string list \<Rightarrow> string list \<Rightarrow> bool"
  for E L H sid where
  run_start: "gget st (sessionPath H sid) = None \<Longrightarrow> session_run E L H sid st [] []"
| run_other: "session_run E L H sid st issued consumed \<Longrightarrow> gget st' (sessionPath H sid) = gget st (sessionPath H sid) \<Longrightarrow>
    session_run E L H sid st' issued consumed"
| run_grant: "session_run E L H sid st issued consumed \<Longrightarrow> approvalID \<notin> set issued \<Longrightarrow>
    store_Grant E L H now st sid host scope m stdin sz approvalID reqID ttl channel = (st', r) \<Longrightarrow>
    session_run E L H sid st' (approvalID # issued) consumed"
| run_peek: "session_run E L H sid st issued consumed \<Longrightarrow> store_Peek E L H now st sid host command stdin = (st', r) \<Longrightarrow>
    session_run E L H sid st' issued consumed"
| run_claim: "session_run E L H sid st issued consumed \<Longrightarrow> store_Claim E L H now st sid host command stdin reqID = (st', r) \<Longrightarrow>
    session_run E L H sid st' issued consumed"
| run_release: "session_run E L H sid st issued consumed \<Longrightarrow> store_Release E H now st sid reqID = (st', r) \<Longrightarrow>
    session_run E L H sid st' issued consumed"
| run_commit: "session_run E L H sid st issued consumed \<Longrightarrow> reqID \<noteq> [] \<Longrightarrow> store_Commit E H now st sid reqID = (st', Inr ()) \<Longrightarrow>
    session_run E L H sid st' issued (claimed_ids H st sid reqID @ consumed)"
| run_commit_failed: "session_run E L H sid st issued consumed \<Longrightarrow> store_Commit E H now st sid reqID = (st', r) \<Longrightarrow> reqID = [] \<or> r \<noteq> Inr () \<Longrightarrow>
    session_run E L H sid st' issued consumed"
| run_end: "session_run E L H sid st issued consumed \<Longrightarrow> store_End H st sid' = (st', r) \<Longrightarrow>
    session_run E L H sid st' issued consumed"

definition ledger_ok :: "(string \<Rightarrow> string) \<Rightarrow> string \<Rightarrow> store \<Rightarrow> string list \<Rightarrow> string list \<Rightarrow> bool" where
  "ledger_ok H sid st issued consumed \<longleftrightarrow>
     (\<exists>doc. readSessionFile st (sessionPath H sid) = Inr doc \<and> doc_ok sid doc \<and> distinct (ids doc) \<and>
        set (ids doc) \<subseteq> set issued \<and> set consumed \<subseteq> set issued \<and> set (ids doc) \<inter> set consumed = {} \<and> distinct consumed)"

lemma ledger_shrink:
  assumes "ledger_ok H sid st issued consumed" and "readSessionFile st (sessionPath H sid) = Inr doc"
    and "readSessionFile st' (sessionPath H sid) = Inr doc'" and "doc_ok sid doc'" and "subseq (ids doc') (ids doc)"
  shows "ledger_ok H sid st' issued consumed"
  using assms subseq_set_distinct [OF assms(5)] unfolding ledger_ok_def by fastforce

lemma ledger_match:
  assumes "ledger_ok H sid st issued consumed" and "store_match E L H now st sid host command stdin claim = (st', r)" and "sid \<noteq> []"
  shows "ledger_ok H sid st' issued consumed"
proof -
  obtain doc where doc: "readSessionFile st (sessionPath H sid) = Inr doc" "doc_ok sid doc"
    using assms(1) by (auto simp: ledger_ok_def)
  have "withLockedSession E H st sid (match_doc E L now sid host command stdin claim) = (st', r)"
    using assms(2,3) by (simp add: store_match_def)
  from withLocked_cases [OF this assms(3)] doc doc_ok_upgrade [OF doc(2)] consider "st' = st"
    | doc' x where "match_doc E L now sid host command stdin claim doc = Inr (doc', x)" "readSessionFile st' (sessionPath H sid) = Inr doc'"
    by auto
  then show ?thesis
  proof cases
    case 1
    then show ?thesis using assms(1) by simp
  next
    case 2
    from match_doc_ok [OF 2(1) doc(2)] ledger_shrink [OF assms(1) doc(1) 2(2)] show ?thesis by blast
  qed
qed

lemma settle_result:
  assumes "ledger_ok H sid st issued consumed" and "settleClaims E H now st sid reqID consume = (st', r)"
    and "sid \<noteq> []" and "reqID \<noteq> []"
  shows "(\<exists>e. r = Inl e \<and> st' = st) \<or>
    (\<exists>doc doc'. readSessionFile st (sessionPath H sid) = Inr doc \<and> readSessionFile st' (sessionPath H sid) = Inr doc' \<and> r = Inr () \<and>
       doc_ok sid doc' \<and> subseq (ids doc') (ids doc) \<and>
       (consume \<longrightarrow> ids doc' = map g_ApprovalID (filter (\<lambda>g. \<not> claimed_by reqID g) (sf_Grants doc))))"
proof -
  obtain doc where doc: "readSessionFile st (sessionPath H sid) = Inr doc" "doc_ok sid doc"
    using assms(1) by (auto simp: ledger_ok_def)
  have "withLockedSession E H st sid (settle_doc now sid reqID consume) = (st', r)"
    using assms(2-4) by (simp add: settleClaims_def)
  from withLocked_cases [OF this assms(3)] doc doc_ok_upgrade [OF doc(2)] consider e where "r = Inl e" "st' = st"
    | doc' x where "settle_doc now sid reqID consume doc = Inr (doc', x)" "readSessionFile st' (sessionPath H sid) = Inr doc'" "r = Inr x"
    by auto
  then show ?thesis
  proof cases
    case 2
    from settle_doc_ok [OF 2(1) doc(2)] doc 2 show ?thesis by auto
  qed blast
qed

lemma ledger_settle:
  assumes "ledger_ok H sid st issued consumed" and "settleClaims E H now st sid reqID consume = (st', r)" and "sid \<noteq> []"
  shows "ledger_ok H sid st' issued consumed"
proof (cases "reqID = []")
  case True
  then show ?thesis using assms by (simp add: settleClaims_def)
next
  case False
  from settle_result [OF assms False] show ?thesis
    using assms(1) ledger_shrink [OF assms(1)] by blast
qed

lemma store_Grant_cases:
  assumes "store_Grant E L H now st sid host scope m stdin sz aid reqID ttl channel = (st', r)" and "sid \<noteq> []"
    and "readSessionFile st (sessionPath H sid) = Inr doc" and "doc_ok sid doc"
  shows "st' = st \<and> (\<exists>e. r = Inl e) \<or>
    (\<exists>doc' x. insert_grant now sid (new_grant now host scope m stdin sz aid reqID ttl channel) doc = Inr (doc', x) \<and>
       readSessionFile st' (sessionPath H sid) = Inr doc' \<and> r = Inr x)"
proof -
  let ?g = "new_grant now host scope m stdin sz aid reqID ttl channel"
  consider (refused) "st' = st" "\<exists>e. r = Inl e" | (locked) "withLockedSession E H st sid (insert_grant now sid ?g) = (st', r)"
    using assms(1) unfolding store_Grant_def by (simp split: if_splits) auto
  then show ?thesis
  proof cases
    case locked
    from withLocked_cases [OF this assms(2)] show ?thesis
      unfolding assms(3) using doc_ok_upgrade [OF assms(4), of E] by auto
  qed blast
qed

text \<open>Ending a session, this one or another, leaves each file as it was or without its entry.\<close>

lemma endLoop_only_deletes:
  "endLoop sid names st = (st', r) \<Longrightarrow> gget st' k = None \<or> gget st' k = gget st k"
proof (induction names arbitrary: st)
  case (Cons name names)
  show ?case using Cons.prems Cons.IH [of st] Cons.IH [of "gdel name st"] by (auto split: if_splits sum.splits)
qed simp

lemma store_End_only_deletes: "store_End H st sid = (st', r) \<Longrightarrow> gget st' k = None \<or> gget st' k = gget st k"
  by (cases "sid = []") (auto simp: store_End_def Let_def dest!: endLoop_only_deletes [where k = k] split: if_splits)

lemma ledger_empty:
  assumes "ledger_ok H sid st issued consumed" and "gget st' (sessionPath H sid) = None"
  shows "ledger_ok H sid st' issued consumed"
proof -
  have "readSessionFile st' (sessionPath H sid) = Inr no_session" using assms(2) by (simp add: readSessionFile_def no_session_def)
  then show ?thesis using assms(1) by (auto simp: ledger_ok_def doc_ok_def no_session_def ids_def)
qed

lemma ledger_End:
  assumes "ledger_ok H sid st issued consumed" and "store_End H st sid' = (st', r)"
  shows "ledger_ok H sid st' issued consumed"
  using store_End_only_deletes [OF assms(2), of "sessionPath H sid"] ledger_empty [OF assms(1)] assms(1)
  by (auto simp: ledger_ok_def readSessionFile_def)

lemma session_run_ledger:
  assumes "sid \<noteq> []" and "session_run E L H sid st issued consumed"
  shows "ledger_ok H sid st issued consumed"
  using assms(2)
proof (induction rule: session_run.induct)
  case (run_start st)
  then show ?case by (simp add: ledger_ok_def readSessionFile_def doc_ok_def no_session_def ids_def)
next
  case (run_other st issued consumed st')
  then show ?case by (simp add: ledger_ok_def readSessionFile_def)
next
  case (run_grant st issued consumed aid now host scope m stdin sz reqID ttl channel st' r)
  obtain doc where doc: "readSessionFile st (sessionPath H sid) = Inr doc" "doc_ok sid doc"
    using run_grant.IH by (auto simp: ledger_ok_def)
  consider "st' = st" | doc' x where "insert_grant now sid (new_grant now host scope m stdin sz aid reqID ttl channel) doc = Inr (doc', x)"
      "readSessionFile st' (sessionPath H sid) = Inr doc'"
    using store_Grant_cases [OF run_grant.hyps(3) assms(1) doc] by blast
  then show ?case
  proof cases
    case 1
    then show ?thesis using run_grant.IH by (auto simp: ledger_ok_def)
  next
    case 2
    note ok = insert_grant_ok [OF 2(1) doc(2) assms(1)]
    have "subseq (ids doc') (ids doc @ [aid])" using ok by (simp add: new_grant_def)
    moreover have "distinct (ids doc @ [aid])" "set (ids doc) \<subseteq> set issued" "set (ids doc) \<inter> set consumed = {}"
      "set consumed \<subseteq> set issued" "distinct consumed"
      using run_grant.IH run_grant.hyps(2) doc by (auto simp: ledger_ok_def)
    ultimately have "distinct (ids doc')" "set (ids doc') \<subseteq> set (ids doc) \<union> {aid}"
      using subseq_set_distinct by fastforce+
    then show ?thesis using ok 2(2) \<open>set (ids doc) \<subseteq> set issued\<close> \<open>set (ids doc) \<inter> set consumed = {}\<close> \<open>set consumed \<subseteq> set issued\<close>
        \<open>distinct consumed\<close> run_grant.hyps(2) by (auto simp: ledger_ok_def)
  qed
next
  case (run_peek st issued consumed now host command stdin st' r)
  then show ?case using ledger_match assms(1) by (auto simp: store_Peek_def)
next
  case (run_claim st issued consumed now host command stdin reqID st' r)
  then show ?case using ledger_match [OF run_claim.IH _ assms(1)] by (auto simp: store_Claim_def split: if_splits)
next
  case (run_release st issued consumed now reqID st' r)
  then show ?case using ledger_settle assms(1) by (auto simp: store_Release_def)
next
  case (run_commit st issued consumed reqID now st')
  have l: "ledger_ok H sid st' issued consumed"
    using run_commit ledger_settle assms(1) by (auto simp: store_Commit_def)
  obtain doc doc' where d: "readSessionFile st (sessionPath H sid) = Inr doc" "readSessionFile st' (sessionPath H sid) = Inr doc'"
    "ids doc' = map g_ApprovalID (filter (\<lambda>g. \<not> claimed_by reqID g) (sf_Grants doc))"
    using settle_result [OF run_commit.IH run_commit.hyps(3) [unfolded store_Commit_def] assms(1) run_commit.hyps(2)] by auto
  have c: "claimed_ids H st sid reqID = map g_ApprovalID (filter (claimed_by reqID) (sf_Grants doc))"
    by (simp add: claimed_ids_def session_doc_def d(1))
  have "distinct (ids doc)" "set (ids doc) \<subseteq> set issued" "set (ids doc) \<inter> set consumed = {}"
    using run_commit.IH d(1) by (auto simp: ledger_ok_def)
  moreover have "set (claimed_ids H st sid reqID) \<subseteq> set (ids doc)" "distinct (ids doc) \<Longrightarrow> distinct (claimed_ids H st sid reqID)"
    unfolding c ids_def by (auto simp: distinct_map inj_on_def)
  moreover have "distinct (ids doc) \<Longrightarrow> set (ids doc') \<inter> set (claimed_ids H st sid reqID) = {}"
    unfolding c d(3) unfolding ids_def by (auto simp: distinct_map inj_on_def)
  ultimately show ?case using l d(2) by (auto simp: ledger_ok_def)
next
  case (run_commit_failed st issued consumed now reqID st' r)
  then show ?case using ledger_settle assms(1) by (auto simp: store_Commit_def)
next
  case (run_end st issued consumed sid' st' r)
  then show ?case using ledger_End by blast
qed


section \<open>Lemmas: what a match returns\<close>

lemma match_doc_SomeD:
  assumes "match_doc E L now sid host command stdin claim doc = Inr (doc', Some g)"
  shows "\<exists>g0. find (usable E L host command stdin claim) (filterLiveGrants (sf_Grants doc) now) = Some g0 \<and>
    g = claim_grant now claim g0 \<and> g \<in> set (sf_Grants doc')"
proof -
  let ?live = "filterLiveGrants (sf_Grants doc) now"
  let ?r = "matchLoop E L now host command stdin claim ?live ([], length ?live \<noteq> length (sf_Grants doc), None)"
  have m: "snd (snd ?r) = Some g" and d: "doc' = (if fst (snd ?r) then doc\<lparr>sf_Grants := fst ?r, sf_Updated := format_time now\<rparr> else doc)"
    using assms by (auto simp: match_doc_def Let_def case_prod_beta split: if_splits)
  have st: "g \<in> set (fst ?r)" using matchLoop_stores_matched [OF m] .
  have "g \<in> set (sf_Grants doc')"
  proof (cases "fst (snd ?r)")
    case False
    from matchLoop_changed [OF this] have "fst ?r = ?live" unfolding append_Nil by blast
    then show ?thesis using st d False by (auto simp: filterLiveGrants_def)
  qed (use st d in auto)
  then show ?thesis using m by (auto simp: matchLoop_matched)
qed

lemma store_match_SomeD:
  assumes "store_match E L H now st sid host command stdin claim = (st', Inr (Some g))"
  shows "sid \<noteq> [] \<and> (\<exists>doc doc' g0. readSessionFile st (sessionPath H sid) = Inr doc \<and> readSessionFile st' (sessionPath H sid) = Inr doc' \<and>
    match_doc E L now sid host command stdin claim (upgrade E doc) = Inr (doc', Some g) \<and>
    find (usable E L host command stdin claim) (filterLiveGrants (sf_Grants (upgrade E doc)) now) = Some g0 \<and>
    g = claim_grant now claim g0 \<and> g \<in> set (sf_Grants doc'))"
proof -
  have sid: "sid \<noteq> []" using assms by (auto simp: store_match_def)
  then have "withLockedSession E H st sid (match_doc E L now sid host command stdin claim) = (st', Inr (Some g))"
    using assms by (simp add: store_match_def)
  from withLocked_cases [OF this sid] show ?thesis using sid match_doc_SomeD by fastforce
qed

lemma store_Grant_value:
  assumes "store_Grant E L H now st sid host scope m stdin sz aid reqID ttl channel = (st', Inr g)"
  shows "g = new_grant now host scope m stdin sz aid reqID ttl channel"
proof -
  have w: "withLockedSession E H st sid (insert_grant now sid (new_grant now host scope m stdin sz aid reqID ttl channel)) = (st', Inr g)"
    using assms unfolding store_Grant_def by (simp split: if_splits)
  then have "sid \<noteq> []" by (auto simp: withLockedSession_def)
  from withLocked_cases [OF w this] show ?thesis by (auto simp: insert_grant_def Let_def split: if_splits)
qed

lemma find_SomeD: "find P xs = Some x \<Longrightarrow> P x \<and> x \<in> set xs"
  by (induction xs) (auto split: if_splits)

lemma previewLoop_find: "previewLoop E L host command stdin gs = find (usable E L host command stdin []) gs"
  by (induction gs) (auto simp: usable_def not_for_def)

lemma preview_peek:
  "store_Preview E L H now st sid host command stdin = snd (store_Peek E L H now st sid host command stdin)"
proof (cases "sid = []")
  case True
  then show ?thesis by (simp add: store_Preview_def store_Peek_def store_match_def)
next
  case False
  show ?thesis
  proof (cases "readSessionFile st (sessionPath H sid)")
    case (Inl e)
    then show ?thesis using False by (simp add: store_Preview_def store_Peek_def store_match_def withLockedSession_def)
  next
    case (Inr doc)
    have n: "sf_SessionID (fst (normalizeGrants E doc)) = sf_SessionID doc" by (simp add: normalizeGrants_def Let_def)
    then have "sf_SessionID (upgrade E doc) = sf_SessionID doc" by (simp add: upgrade_def)
    moreover have "sf_SessionID doc \<noteq> [] \<Longrightarrow>
        sf_Grants (upgrade E doc) = sf_Grants (if sf_Version doc < sessionFileVersion then fst (normalizeGrants E doc) else doc)"
      by (simp add: upgrade_def)
    ultimately show ?thesis using False Inr
      by (auto simp: store_Preview_def store_Peek_def store_match_def withLockedSession_def match_doc_def Let_def
        matchLoop_matched previewLoop_find case_prod_beta split: sum.splits if_splits)
  qed
qed

section \<open>Lemmas: releasing a claim\<close>

lemma find_split: "find P xs = Some x \<Longrightarrow> \<exists>pre post. xs = pre @ x # post \<and> (\<forall>y \<in> set pre. \<not> P y) \<and> P x"
proof (induction xs)
  case (Cons y xs)
  show ?case
  proof (cases "P y")
    case True
    then show ?thesis using Cons.prems by (intro exI [of _ "[]"] exI [of _ xs]) auto
  next
    case False
    then obtain pre post where "xs = pre @ x # post" "\<forall>y \<in> set pre. \<not> P y" "P x" using Cons by auto
    then show ?thesis using False by (intro exI [of _ "y # pre"] exI [of _ post]) auto
  qed
qed simp

lemma find_skip: "\<forall>y \<in> set pre. \<not> P y \<Longrightarrow> P x \<Longrightarrow> find P (pre @ x # post) = Some x"
  by (induction pre) auto

lemma matchLoop_rest: "\<exists>post'. fst (matchLoop E L now host command stdin claim gs (rem, ch, Some m)) = rem @ post' \<and> set post' \<subseteq> set gs \<and>
   (ch \<longrightarrow> fst (snd (matchLoop E L now host command stdin claim gs (rem, ch, Some m))))"
proof (induction gs arbitrary: rem ch)
  case (Cons g gs)
  show ?case using Cons [of rem True] Cons [of "rem @ [g]" ch] by (cases "malformed g") auto
qed simp

lemma matchLoop_step:
  assumes "\<not> usable E L host command stdin claim y"
  shows "\<exists>rem' ch'. matchLoop E L now host command stdin claim (y # gs) (rem, ch, None) = matchLoop E L now host command stdin claim gs (rem', ch', None) \<and>
    (rem' = rem \<or> rem' = rem @ [y])"
proof -
  consider "malformed y" | "\<not> malformed y" "not_for host stdin claim y"
    | "\<not> malformed y" "\<not> not_for host stdin claim y" "Matcher_Match E L (grant_matcher y) command \<noteq> Inr True"
    using assms by (auto simp: usable_def)
  then show ?thesis
  proof cases
    case 3
    then show ?thesis by (cases "Matcher_Match E L (grant_matcher y) command") auto
  qed auto
qed

lemma matchLoop_split:
  assumes "\<forall>y \<in> set pre. \<not> usable E L host command stdin claim y" and "usable E L host command stdin claim x"
  shows "\<exists>pre' post'. fst (matchLoop E L now host command stdin claim (pre @ x # post) (rem, ch, None)) = rem @ pre' @ claim_grant now claim x # post' \<and>
    set pre' \<subseteq> set pre \<and> set post' \<subseteq> set post \<and>
    (claim_grant now claim x \<noteq> x \<longrightarrow> fst (snd (matchLoop E L now host command stdin claim (pre @ x # post) (rem, ch, None))))"
  using assms(1)
proof (induction pre arbitrary: rem ch)
  case Nil
  then show ?case using assms(2) matchLoop_rest [of E L now host command stdin claim post "rem @ [claim_grant now claim x]" "ch \<or> claim_grant now claim x \<noteq> x" "claim_grant now claim x"]
    by (auto simp: usable_def Let_def)
next
  case (Cons y pre)
  from Cons.prems obtain rem' ch' where e: "matchLoop E L now host command stdin claim ((y # pre) @ x # post) (rem, ch, None) =
      matchLoop E L now host command stdin claim (pre @ x # post) (rem', ch', None)" "rem' = rem \<or> rem' = rem @ [y]"
    using matchLoop_step [of E L host command stdin claim y now "pre @ x # post" rem ch] by auto
  obtain pre' post' where r: "fst (matchLoop E L now host command stdin claim (pre @ x # post) (rem', ch', None)) = rem' @ pre' @ claim_grant now claim x # post'"
    "set pre' \<subseteq> set pre" "set post' \<subseteq> set post"
    "claim_grant now claim x \<noteq> x \<longrightarrow> fst (snd (matchLoop E L now host command stdin claim (pre @ x # post) (rem', ch', None)))"
    using Cons.IH [of rem' ch'] Cons.prems by auto
  from e(2) show ?case
  proof
    assume "rem' = rem"
    then show ?thesis using r e(1) by (intro exI [of _ pre'] exI [of _ post']) auto
  next
    assume "rem' = rem @ [y]"
    then show ?thesis using r e(1) by (intro exI [of _ "y # pre'"] exI [of _ post']) auto
  qed
qed

lemma upgrade_version: "sf_SessionID (upgrade E doc) \<noteq> [] \<Longrightarrow> sessionFileVersion \<le> sf_Version (upgrade E doc)"
  by (auto simp: upgrade_def normalizeGrants_def Let_def split: if_splits)

lemma upgrade_current: "sessionFileVersion \<le> sf_Version doc \<Longrightarrow> upgrade E doc = doc"
  by (simp add: upgrade_def)

definition unclaimed :: "Grant \<Rightarrow> Grant" where
  "unclaimed g = g\<lparr>g_ClaimReqID := [], g_ClaimTS := []\<rparr>"

text \<open>A document after a claim, and after its release.\<close>

lemma claimed_doc:
  assumes "match_doc E L now sid host command stdin reqID doc = Inr (doc', Some g)" and "g_Scope g = ScopeOnce" and "reqID \<noteq> []"
    and "\<forall>x \<in> set (sf_Grants doc). g_ClaimReqID x \<noteq> reqID"
  shows "\<exists>pre post. sf_Grants doc' = pre @ g # post \<and> sf_SessionID doc' = sid \<and> sid \<noteq> [] \<and> sf_Version doc' = sf_Version doc \<and>
    claimed_by reqID g \<and> live now g \<and> usable E L host command stdin [] (unclaimed g) \<and>
    (\<forall>y \<in> set pre. \<not> usable E L host command stdin [] y) \<and> (\<forall>y \<in> set pre \<union> set post. live now y \<and> \<not> claimed_by reqID y)"
proof -
  let ?live = "filterLiveGrants (sf_Grants doc) now"
  let ?r = "matchLoop E L now host command stdin reqID ?live ([], length ?live \<noteq> length (sf_Grants doc), None)"
  obtain g0 where f: "find (usable E L host command stdin reqID) ?live = Some g0" and g: "g = claim_grant now reqID g0"
    using match_doc_SomeD [OF assms(1)] by blast
  obtain pre post where l: "?live = pre @ g0 # post" "\<forall>y \<in> set pre. \<not> usable E L host command stdin reqID y"
    and u: "usable E L host command stdin reqID g0" using find_split [OF f] by blast
  have mem: "x \<in> set (sf_Grants doc) \<and> live now x" if "x \<in> set pre \<union> set post \<union> {g0}" for x
  proof -
    have "x \<in> set ?live" using that l(1) by auto
    then show ?thesis by (simp add: filterLiveGrants_def)
  qed
  have g0: "g_ClaimReqID g0 \<noteq> reqID" "live now g0" "g_Scope g0 = ScopeOnce" using mem [of g0] assms(2,4) g by auto
  then have "claim_grant now reqID g0 \<noteq> g0" using assms(3) by (cases g0) (simp add: claim_grant_def)
  with matchLoop_split [OF l(2) u, of now post "[]"] obtain pre' post' where
    r: "fst ?r = pre' @ g # post'" "set pre' \<subseteq> set pre" "set post' \<subseteq> set post" "fst (snd ?r)"
    by (fastforce simp: l(1) g)
  then have "doc' = doc\<lparr>sf_Grants := pre' @ g # post', sf_Updated := format_time now\<rparr>" "sf_SessionID doc = sid" "sid \<noteq> []"
    using assms(1) by (auto simp: match_doc_def Let_def case_prod_beta split: if_splits)
  moreover have "usable E L host command stdin [] y \<Longrightarrow> usable E L host command stdin reqID y" for y
    by (auto simp: usable_def not_for_def)
  moreover have "claimed_by reqID g" "live now g" using g0 assms(3) by (simp_all add: g claim_grant_def claimed_by_def live_def)
  moreover have "usable E L host command stdin [] (unclaimed g)" using u g0
    by (auto simp: usable_def not_for_def malformed_def grant_matcher_def g unclaimed_def claim_grant_def)
  ultimately show ?thesis using l(2) r(2,3) mem assms(4)
    by (intro exI [of _ pre'] exI [of _ post']) (auto simp: claimed_by_def)
qed

lemma released_doc:
  assumes "sf_Grants doc = pre @ g # post" and "sf_SessionID doc = sid" and "sid \<noteq> []" and "claimed_by reqID g"
    and "\<forall>y \<in> set pre \<union> set post. \<not> claimed_by reqID y"
  shows "settle_doc now sid reqID False doc =
    Inr (doc\<lparr>sf_Grants := pre @ unclaimed g # post, sf_Updated := format_time now\<rparr>, ())"
proof -
  have "concat (map (\<lambda>g. if \<not> claimed_by reqID g then [g] else if False then [] else [g\<lparr>g_ClaimReqID := [], g_ClaimTS := []\<rparr>]) ys) = ys"
    if "\<forall>y \<in> set ys. \<not> claimed_by reqID y" for ys
    using that by (induction ys) auto
  then show ?thesis using assms by (simp add: settle_doc_def unclaimed_def)
qed

section \<open>A concrete session\<close>

definition ls_matcher :: Matcher where
  "ls_matcher = \<lparr>m_Kind = MatcherExact, m_Regex = exact_pattern ''ls'', m_Prefix = [], m_Promotable = True,
     m_SourceCmd = ''ls'', m_Task = None\<rparr>"

definition ls_grant :: "string \<Rightarrow> string \<Rightarrow> Grant" where
  "ls_grant claim ts = (new_grant 0 ''web'' ScopeOnce ls_matcher [] 0 ''a1'' ''r1'' (60 * second) ChannelCLI)
     \<lparr>g_ClaimReqID := claim, g_ClaimTS := ts\<rparr>"

definition ls_doc :: "Grant list \<Rightarrow> sessionFile" where
  "ls_doc gs = \<lparr>sf_Version = 2, sf_SessionID = ''s'', sf_Host = [], sf_Updated = format_time 0, sf_Grants = gs\<rparr>"

definition ls_store :: "Grant list \<Rightarrow> store" where
  "ls_store gs = [(''s.json'', Doc (ls_doc gs))]"

definition ls_path :: "string \<Rightarrow> string" where "ls_path sid = sid"
abbreviation ls_engine :: engine where "ls_engine \<equiv> go_engine no_engine"

lemma ls_file [simp]: "sessionPath ls_path ''s'' = ''s.json''"
  by (simp add: sessionPath_def ls_path_def)

lemma ls_path_read: "readSessionFile (ls_store gs) ''s.json'' = Inr (ls_doc gs)"
  by (simp add: readSessionFile_def ls_store_def)

lemma ls_upgrade: "upgrade E (ls_doc gs) = ls_doc gs"
  by (simp add: upgrade_def ls_doc_def sessionFileVersion_def)

lemma ls_locked: "withLockedSession E ls_path (ls_store gs) ''s'' fn =
   (case fn (ls_doc gs) of Inl e \<Rightarrow> (ls_store gs, Inl e)
    | Inr (doc', r) \<Rightarrow> (if doc' = ls_doc gs then ls_store gs else gput ''s.json'' (Doc doc') (ls_store gs), Inr r))"
  unfolding withLockedSession_def ls_file by (simp add: ls_path_read ls_upgrade)

lemma ls_put: "gput ''s.json'' (Doc (ls_doc gs')) (ls_store gs) = ls_store gs'"
  by (simp add: ls_store_def)

lemma ls_year: "time_year (0 + 60 * second) < 10000"
  by (simp add: time_year_def civil_year.simps year_days_def leap_year_def)

lemma ls_live: "live 0 (ls_grant c ts)"
proof -
  have p: "parse_time (format_time (0 + 60 * second)) = Some (int ((0 + 60 * second) div second) * int second)"
    using parse_format [OF ls_year] .
  then show ?thesis by (simp add: live_def ls_grant_def new_grant_def)
qed

lemma ls_match: "Matcher_Match ls_engine L (grant_matcher (ls_grant c ts)) ''ls'' = Inr True"
  using Matcher_Match_exact [of "grant_matcher (ls_grant c ts)" "''ls''" no_engine L "''ls''"]
  by (simp add: grant_matcher_def ls_grant_def new_grant_def ls_matcher_def valid_ascii ascii_def)

lemma ls_granted: "store_Grant ls_engine L ls_path 0 [] ''s'' ''web'' ScopeOnce ls_matcher [] 0 ''a1'' ''r1'' (60 * second) ChannelCLI =
   (ls_store [ls_grant [] []], Inr (ls_grant [] []))"
  by (simp add: store_Grant_def scopes matcher_kinds ls_matcher_def withLockedSession_def readSessionFile_def upgrade_def
      no_session_def insert_grant_def filterLiveGrants_def sessionFileVersion_def sessionPath_def ls_path_def ls_store_def ls_doc_def
      ls_grant_def new_grant_def)

lemma ls_usable: "c = [] \<or> c = claim \<Longrightarrow> \<not> malformed (ls_grant c ts) \<and> \<not> not_for ''web'' [] claim (ls_grant c ts)"
  by (auto simp: malformed_def not_for_def ls_grant_def new_grant_def ls_matcher_def scopes matcher_kinds)

lemma ls_claimed: "store_Claim ls_engine L ls_path 0 (ls_store [ls_grant [] []]) ''s'' ''web'' ''ls'' [] ''q1'' =
   (ls_store [ls_grant ''q1'' (format_time 0)], Inr (Some (ls_grant ''q1'' (format_time 0))))"
proof -
  have c: "claim_grant 0 ''q1'' (ls_grant [] []) = ls_grant ''q1'' (format_time 0)"
    by (simp add: claim_grant_def ls_grant_def new_grant_def)
  have ne: "ls_grant ''q1'' (format_time 0) \<noteq> ls_grant [] []" by (simp add: ls_grant_def new_grant_def)
  have "match_doc ls_engine L 0 ''s'' ''web'' ''ls'' [] ''q1'' (ls_doc [ls_grant [] []]) =
      Inr (ls_doc [ls_grant ''q1'' (format_time 0)], Some (ls_grant ''q1'' (format_time 0)))"
    using ls_usable [of "[]" "''q1''" "[]"] ls_live [of "[]" "[]"] ne
    by (simp add: match_doc_def filterLiveGrants_def ls_match c ls_doc_def Let_def)
  moreover have "ls_doc [ls_grant ''q1'' (format_time 0)] \<noteq> ls_doc [ls_grant [] []]" using ne by (simp add: ls_doc_def)
  ultimately show ?thesis by (simp add: store_Claim_def store_match_def ls_locked ls_put)
qed

lemma ls_committed: "store_Commit E ls_path 0 (ls_store [ls_grant ''q1'' ts]) ''s'' ''q1'' = (ls_store [], Inr ())"
proof -
  have "claimed_by ''q1'' (ls_grant ''q1'' ts)" by (simp add: claimed_by_def ls_grant_def new_grant_def)
  then have "settle_doc 0 ''s'' ''q1'' True (ls_doc [ls_grant ''q1'' ts]) = Inr (ls_doc [], ())"
    by (simp add: settle_doc_def ls_doc_def)
  moreover have "ls_doc [] \<noteq> ls_doc [ls_grant ''q1'' ts]" by (simp add: ls_doc_def)
  ultimately show ?thesis by (simp add: store_Commit_def settleClaims_def ls_locked ls_put)
qed

lemma ls_run_granted: "session_run ls_engine L ls_path ''s'' (ls_store [ls_grant [] []]) [''a1''] []"
  by (rule run_grant [OF run_start _ ls_granted]) (simp_all add: sessionPath_def ls_path_def)

lemma ls_run_claimed: "session_run ls_engine L ls_path ''s'' (ls_store [ls_grant ''q1'' (format_time 0)]) [''a1''] []"
  by (rule run_claim [OF ls_run_granted ls_claimed])

lemma ls_run_consumed: "session_run ls_engine L ls_path ''s'' (ls_store []) [''a1''] [''a1'']"
proof -
  have "claimed_ids ls_path (ls_store [ls_grant ''q1'' (format_time 0)]) ''s'' ''q1'' = [''a1'']"
    by (simp add: claimed_ids_def session_doc_def ls_path_read ls_doc_def claimed_by_def ls_grant_def new_grant_def)
  then show ?thesis using run_commit [OF ls_run_claimed _ ls_committed] by simp
qed

section \<open>Properties\<close>

text \<open>C7. Over any run of a session's operations, each once grant is consumed at most once, and an approval
  that has been consumed never authorises another command.\<close>

theorem once_grant_single_use:
  assumes "session_run E L H sid st issued consumed" and "sid \<noteq> []"
  shows "distinct consumed \<and> set consumed \<subseteq> set issued \<and>
    (\<forall>now host command stdin reqID st' g. store_Claim E L H now st sid host command stdin reqID = (st', Inr (Some g)) \<longrightarrow>
       g_ApprovalID g \<notin> set consumed)"
proof -
  note l = session_run_ledger [OF assms(2,1)]
  have "g_ApprovalID g \<notin> set consumed" if c: "store_Claim E L H now st sid host command stdin reqID = (st', Inr (Some g))"
    for now host command stdin reqID st' g
  proof -
    have "store_match E L H now st sid host command stdin reqID = (st', Inr (Some g))"
      using c by (auto simp: store_Claim_def split: if_splits)
    from store_match_SomeD [OF this] obtain doc' where d: "readSessionFile st' (sessionPath H sid) = Inr doc'" "g \<in> set (sf_Grants doc')" by blast
    have "ledger_ok H sid st' issued consumed"
      using ledger_match [OF l] c assms(2) by (auto simp: store_Claim_def split: if_splits)
    then show ?thesis using d by (auto simp: ledger_ok_def ids_def)
  qed
  then show ?thesis using l by (auto simp: ledger_ok_def)
qed

text \<open>C8. While one request holds a once grant, no other request can claim it.\<close>

theorem claim_exclusive:
  assumes "session_run E L H sid st issued consumed" and "sid \<noteq> []"
    and "g \<in> set (sf_Grants (session_doc H st sid))" and "claimed_by holder g" and "holder \<noteq> []" and "reqID \<noteq> holder"
  shows "case snd (store_Claim E L H now st sid host command stdin reqID) of
    Inr (Some g') \<Rightarrow> g_ApprovalID g' \<noteq> g_ApprovalID g | _ \<Rightarrow> True"
proof -
  have "g_ApprovalID g' \<noteq> g_ApprovalID g" if cl: "store_Claim E L H now st sid host command stdin reqID = (st', Inr (Some g'))" for st' g'
  proof
  assume same: "g_ApprovalID g' = g_ApprovalID g"
  obtain doc where d: "readSessionFile st (sessionPath H sid) = Inr doc" "doc_ok sid doc" "distinct (ids doc)"
    using session_run_ledger [OF assms(2,1)] by (auto simp: ledger_ok_def)
  have "store_match E L H now st sid host command stdin reqID = (st', Inr (Some g'))"
    using cl by (auto simp: store_Claim_def split: if_splits)
  from store_match_SomeD [OF this] d(1) doc_ok_upgrade [OF d(2), of E] obtain g0
    where f: "find (usable E L host command stdin reqID) (filterLiveGrants (sf_Grants doc) now) = Some g0" "g' = claim_grant now reqID g0"
    by auto
  have g0: "usable E L host command stdin reqID g0" "g0 \<in> set (sf_Grants doc)"
    using find_SomeD [OF f(1)] by (auto simp: filterLiveGrants_def)
  have "g \<in> set (sf_Grants doc)" using assms(3) by (simp add: session_doc_def d(1))
  then have "g0 = g" using d(3) g0(2) f(2) same by (auto simp: ids_def distinct_map inj_on_def)
  then show False using g0(1) assms(4-6) by (auto simp: usable_def not_for_def claimed_by_def)
  qed
  then show ?thesis by (cases "store_Claim E L H now st sid host command stdin reqID") (auto split: sum.split option.split)
qed

text \<open>A claim authorises a command only by a live, well-formed grant of this host and of this exact
  stdin whose matcher covers the command; a once grant is then recorded as held by the request.\<close>

theorem claim_sound:
  assumes "store_Claim E L H now st sid host command stdin reqID = (st', Inr (Some g))"
  shows "g_Host g = host \<and> g_StdinSHA256 g = stdin \<and> Matcher_Match E L (grant_matcher g) command = Inr True \<and>
    live now g \<and> \<not> malformed g \<and> g \<in> set (sf_Grants (session_doc H st' sid)) \<and>
    (g_Scope g = ScopeOnce \<longrightarrow> g_ClaimReqID g = reqID \<and> reqID \<noteq> [])"
proof -
  have r: "reqID \<noteq> []" and "store_match E L H now st sid host command stdin reqID = (st', Inr (Some g))"
    using assms by (auto simp: store_Claim_def split: if_splits)
  from store_match_SomeD [OF this(2)] obtain doc doc' g0
    where d: "readSessionFile st' (sessionPath H sid) = Inr doc'" "g \<in> set (sf_Grants doc')"
      and f: "find (usable E L host command stdin reqID) (filterLiveGrants (sf_Grants (upgrade E doc)) now) = Some g0"
      and g: "g = claim_grant now reqID g0" by blast
  have u: "usable E L host command stdin reqID g0" "live now g0" using find_SomeD [OF f] by (auto simp: filterLiveGrants_def)
  have "g_Scope g = ScopeOnce \<longrightarrow> g_ClaimReqID g = reqID" using u r by (auto simp: g claim_grant_def)
  then show ?thesis using u r d by (auto simp: g usable_def not_for_def session_doc_def)
qed

text \<open>The read-only preview answers exactly as the locked look-up does, also for documents of older
  versions.\<close>

theorem preview_is_peek:
  "store_Preview E L H now st sid host command stdin = snd (store_Peek E L H now st sid host command stdin)"
  by (rule preview_peek)

text \<open>A grant is live exactly until the whole second its time to live ends in, so never longer than
  the operator allowed.\<close>

theorem grant_lifetime:
  assumes "store_Grant E L H now st sid host scope m stdin sz aid reqID ttl channel = (st', Inr g)" and "time_year (now + ttl) < 10000"
  shows "live now' g \<longleftrightarrow> now' div second < (now + ttl) div second"
proof -
  have x: "g_ExpiresTS g = format_time (now + ttl)" by (simp add: store_Grant_value [OF assms(1)] new_grant_def)
  have p: "parse_time (format_time (now + ttl)) = Some (int ((now + ttl) div second) * int second)"
    using parse_format [OF assms(2)] .
  have "format_time (now + ttl) \<noteq> []" by (simp add: format_time_def Let_def case_prod_beta)
  then have "live now' g \<longleftrightarrow> int now' < int ((now + ttl) div second) * int second"
    using p by (simp add: live_def x)
  also have "\<dots> \<longleftrightarrow> now' < (now + ttl) div second * second"
    by (simp only: of_nat_less_iff flip: of_nat_mult)
  also have "\<dots> \<longleftrightarrow> now' div second < (now + ttl) div second"
    by (simp add: div_less_iff_less_mult)
  finally show ?thesis .
qed

text \<open>In a repaired document every exact grant with a source command covers, among valid texts, that
  command only.\<close>

theorem repaired_grants_exact:
  assumes "g \<in> set (sf_Grants (fst (normalizeGrants (go_engine other) doc)))" and "g_Kind g = MatcherExact" and "g_SourceCmd g \<noteq> []"
    and "valid_string t"
  shows "Matcher_Match (go_engine other) L (grant_matcher g) t = Inr (t = g_SourceCmd g)"
proof -
  obtain x where x: "g \<in> set (kept_grant (normalizeGrant (go_engine other) x))"
    using assms(1) by (auto simp: normalizeGrants_def Let_def)
  have "m_Kind m = MatcherExact \<and> m_Regex m = exact_pattern c \<and> valid_string c" if "Exact (go_engine other) c = Inr m" for c m
    using that by (auto simp: go.Exact_cases split: if_splits)
  then have "g_Regex g = exact_pattern (g_SourceCmd g) \<and> valid_string (g_SourceCmd g)"
    using x assms(2,3) by (auto simp: normalizeGrant_def split: if_splits sum.splits)
  then show ?thesis using Matcher_Match_exact [of "grant_matcher g" "g_SourceCmd g" other L t] assms(2) runes_inj [OF assms(4)]
    by (auto simp: grant_matcher_def)
qed


lemma ls_member: "ls_grant c ts \<in> set (sf_Grants (session_doc ls_path (ls_store [ls_grant c ts]) ''s''))"
  by (simp add: session_doc_def ls_path_read ls_doc_def)

theorem once_grant_single_use_witness: "distinct [''a1'']"
  using once_grant_single_use [OF ls_run_consumed [of no_libs]] by simp

theorem grant_lifetime_witness: "live 0 (ls_grant [] []) \<longleftrightarrow> (0::nat) div second < (0 + 60 * second) div second"
  by (rule grant_lifetime [OF ls_granted [of no_libs] ls_year])

theorem claim_sound_witness:
  "Matcher_Match ls_engine no_libs (grant_matcher (ls_grant ''q1'' (format_time 0))) ''ls'' = Inr True"
  using claim_sound [OF ls_claimed [of no_libs]] by blast

lemma ls_other_unusable: "c \<noteq> [] \<Longrightarrow> c \<noteq> claim \<Longrightarrow> not_for ''web'' [] claim (ls_grant c ts)"
  by (simp add: not_for_def ls_grant_def new_grant_def)

text \<open>Releasing a claim gives the approval back: the grant a request had claimed answers the next
  look-up again, unclaimed.\<close>

theorem release_restores:
  assumes "store_Claim E L H now st sid host command stdin reqID = (st1, Inr (Some g))" and "g_Scope g = ScopeOnce"
    and "\<forall>x \<in> set (sf_Grants (upgrade E (session_doc H st sid))). g_ClaimReqID x \<noteq> reqID"
    and "store_Release E H now st1 sid reqID = (st2, r)"
  shows "r = Inr () \<and> snd (store_Peek E L H now st2 sid host command stdin) = Inr (Some (g\<lparr>g_ClaimReqID := [], g_ClaimTS := []\<rparr>))"
proof -
  have rq: "reqID \<noteq> []" and "store_match E L H now st sid host command stdin reqID = (st1, Inr (Some g))"
    using assms(1) by (auto simp: store_Claim_def split: if_splits)
  from store_match_SomeD [OF this(2)] obtain doc doc1 where sid: "sid \<noteq> []" and d: "readSessionFile st (sessionPath H sid) = Inr doc"
    and d1: "readSessionFile st1 (sessionPath H sid) = Inr doc1"
    and m: "match_doc E L now sid host command stdin reqID (upgrade E doc) = Inr (doc1, Some g)" by blast
  have "\<forall>x \<in> set (sf_Grants (upgrade E doc)). g_ClaimReqID x \<noteq> reqID" using assms(3) by (simp add: session_doc_def d)
  from claimed_doc [OF m assms(2) rq this] obtain pre post where c: "sf_Grants doc1 = pre @ g # post" "sf_SessionID doc1 = sid"
    "sf_Version doc1 = sf_Version (upgrade E doc)" "claimed_by reqID g" "live now g" "usable E L host command stdin [] (unclaimed g)"
    "\<forall>y \<in> set pre. \<not> usable E L host command stdin [] y" "\<forall>y \<in> set pre \<union> set post. live now y \<and> \<not> claimed_by reqID y" by blast
  have "sf_SessionID (upgrade E doc) \<noteq> []" using m sid by (auto simp: match_doc_def)
  then have v: "sessionFileVersion \<le> sf_Version doc1" using upgrade_version c(3) by metis
  let ?doc2 = "doc1\<lparr>sf_Grants := pre @ unclaimed g # post, sf_Updated := format_time now\<rparr>"
  have s: "settle_doc now sid reqID False (upgrade E doc1) = Inr (?doc2, ())"
    using released_doc [OF c(1,2) sid c(4)] c(8) upgrade_current [OF v] by simp
  have "withLockedSession E H st1 sid (settle_doc now sid reqID False) = (st2, r)"
    using assms(4) sid rq by (simp add: store_Release_def settleClaims_def)
  from withLocked_Inr [OF this sid d1 s] have r: "r = Inr ()" and d2: "readSessionFile st2 (sessionPath H sid) = Inr ?doc2"
    by simp_all
  have "live now (unclaimed g)" using c(5) by (simp add: live_def unclaimed_def)
  then have "filterLiveGrants (sf_Grants ?doc2) now = pre @ unclaimed g # post"
    using c(8) by (auto simp: filterLiveGrants_def intro!: filter_True)
  moreover have "find (usable E L host command stdin []) (pre @ unclaimed g # post) = Some (unclaimed g)"
    by (rule find_skip [OF c(7,6)])
  ultimately have "store_Preview E L H now st2 sid host command stdin = Inr (Some (unclaimed g))"
    using sid v c(2) by (simp add: store_Preview_def d2 previewLoop_find)
  then show ?thesis using r by (simp add: preview_peek unclaimed_def)
qed

theorem release_restores_witness:
  "\<exists>st r. store_Release ls_engine ls_path 0 (ls_store [ls_grant ''q1'' (format_time 0)]) ''s'' ''q1'' = (st, r) \<and> r = Inr ()"
proof -
  obtain st r where rel: "store_Release ls_engine ls_path 0 (ls_store [ls_grant ''q1'' (format_time 0)]) ''s'' ''q1'' = (st, r)"
    by fastforce
  have "g_Scope (ls_grant ''q1'' (format_time 0)) = ScopeOnce" by (simp add: ls_grant_def new_grant_def)
  moreover have "\<forall>x \<in> set (sf_Grants (upgrade ls_engine (session_doc ls_path (ls_store [ls_grant [] []]) ''s''))). g_ClaimReqID x \<noteq> ''q1''"
    by (simp add: session_doc_def ls_path_read ls_upgrade) (simp add: ls_doc_def ls_grant_def)
  ultimately show ?thesis using release_restores [OF ls_claimed [of no_libs] _ _ rel] rel by blast
qed


theorem claim_exclusive_witness:
  "case snd (store_Claim ls_engine no_libs ls_path 0 (ls_store [ls_grant ''q1'' (format_time 0)]) ''s'' ''web'' ''ls'' [] ''q2'') of
    Inr (Some g') \<Rightarrow> g_ApprovalID g' \<noteq> g_ApprovalID (ls_grant ''q1'' (format_time 0)) | _ \<Rightarrow> True"
proof -
  have "claimed_by ''q1'' (ls_grant ''q1'' (format_time 0))" by (simp add: claimed_by_def ls_grant_def new_grant_def)
  then show ?thesis
    by (intro claim_exclusive [OF ls_run_claimed [of no_libs] _ ls_member, where holder = "''q1''"]) simp_all
qed

theorem repaired_grants_exact_witness:
  "\<exists>g. g \<in> set (sf_Grants (fst (normalizeGrants ls_engine (ls_doc [(ls_grant [] [])\<lparr>g_Regex := ''x''\<rparr>])))) \<and>
     Matcher_Match ls_engine no_libs (grant_matcher g) ''la'' = Inr False"
proof -
  let ?g = "(ls_grant [] [])\<lparr>g_Regex := ''x''\<rparr>"
  have v: "valid_string ''ls''" "valid_string ''la''" by (simp_all add: valid_ascii ascii_def)
  then have e: "Exact ls_engine ''ls'' = Inr \<lparr>m_Kind = MatcherExact, m_Regex = exact_pattern ''ls'', m_Prefix = [],
      m_Promotable = True, m_SourceCmd = ''ls'', m_Task = None\<rparr>" by (simp add: go.Exact_cases)
  have k: "g_Kind ?g = MatcherExact" "g_SourceCmd ?g = ''ls''" by (simp_all add: ls_grant_def new_grant_def ls_matcher_def)
  have "\<exists>g'. kept_grant (normalizeGrant ls_engine ?g) = [g'] \<and> g_Kind g' = MatcherExact \<and> g_SourceCmd g' = ''ls''"
    using k by (simp add: normalizeGrant_def e)
  then obtain g' where n: "kept_grant (normalizeGrant ls_engine ?g) = [g']" "g_Kind g' = MatcherExact" "g_SourceCmd g' = ''ls''" by blast
  have m: "g' \<in> set (sf_Grants (fst (normalizeGrants ls_engine (ls_doc [?g]))))"
    unfolding normalizeGrants_def using n(1) by (simp add: Let_def ls_doc_def)
  show ?thesis using repaired_grants_exact [OF m n(2) _ v(2), of no_libs] n(3) m by auto
qed

lemma endLoop_effect:
  "endLoop sid names st = (st', Inr ()) \<Longrightarrow> sid \<noteq> [] \<Longrightarrow> gget st' name =
     (if name \<in> set names \<and> has_suffix name ''.json'' then
        (case gget st name of Some (Doc d) \<Rightarrow> if ends_with_session sid d then None else Some (Doc d) | c \<Rightarrow> c)
      else gget st name)"
proof (induction names arbitrary: st)
  case (Cons n names)
  show ?case
  proof (cases "has_suffix n ''.json''")
    case False
    then show ?thesis using Cons by auto
  next
    case True
    then obtain doc where d: "readSessionFile st n = Inr doc"
      and e: "endLoop sid names (if ends_with_session sid doc then gdel n st else st) = (st', Inr ())"
      using Cons.prems(1) by (auto split: sum.splits)
    have n: "gget st n = Some (Doc doc) \<or> gget st n = None \<and> doc = no_session"
      using d by (auto simp: readSessionFile_def split: option.splits content.splits)
    have "\<not> ends_with_session sid no_session" using Cons.prems(2) by (auto simp: ends_with_session_def no_session_def has_prefix_def)
    then show ?thesis using Cons.IH [OF e Cons.prems(2)] n True by (auto split: option.split content.split if_splits)
  qed
qed simp

text \<open>Ending a session removes its document and those of its dependent sessions, and no other.\<close>

theorem end_removes:
  assumes "store_End H st sid = (st', Inr ())" and "sid \<noteq> []" and "has_suffix name ''.json''"
  shows "gget st' name = (if name = sessionPath H sid then None
    else case gget st name of Some (Doc d) \<Rightarrow> if ends_with_session sid d then None else Some (Doc d) | c \<Rightarrow> c)"
proof -
  let ?st = "gdel (sessionPath H sid) st"
  have "endLoop sid (sort (keys ?st)) ?st = (st', Inr ())" using assms(1,2) by (simp add: store_End_def Let_def)
  from endLoop_effect [OF this assms(2), of name] have e: "gget st' name =
      (if name \<in> set (keys ?st) then (case gget ?st name of Some (Doc d) \<Rightarrow> if ends_with_session sid d then None else Some (Doc d) | c \<Rightarrow> c)
       else gget ?st name)" using assms(3) by (simp only: set_sort simp_thms)
  show ?thesis
  proof (cases "name \<in> set (keys ?st)")
    case True
    then show ?thesis using e by simp
  next
    case False
    then have "gget ?st name = None" by (simp only: map_of_eq_None_iff list.set_map) auto
    then show ?thesis using e False by (auto split: if_splits)
  qed
qed

theorem end_removes_witness: "gget (fst (store_End ls_path (ls_store [ls_grant [] []]) ''s'')) ''s.json'' = None"
proof -
  have "gdel (sessionPath ls_path ''s'') (ls_store [ls_grant [] []]) = []" unfolding ls_file by (simp add: ls_store_def)
  then have "store_End ls_path (ls_store [ls_grant [] []]) ''s'' = ([], Inr ())" by (simp add: store_End_def)
  from end_removes [OF this, of "''s.json''"] show ?thesis
    using \<open>store_End ls_path (ls_store [ls_grant [] []]) ''s'' = ([], Inr ())\<close> by simp
qed

end
