(* ===== verification/Json.thy ===== *)
theory Json
  imports Utf8
begin

text \<open>
  What \<open>encoding/json\<close> writes for strings, numbers and flat structures, and what it gives back for a
  string: every byte that is not part of valid UTF-8 is written as the escape of U+FFFD and comes back
  as that character. Two lists of fields with the same text are equal, so a digest of the text covers
  every field of it. Also here: \<open>hex.EncodeToString\<close>.
\<close>

section \<open>Hexadecimal\<close>

definition nibble :: "nat \<Rightarrow> char" where
  "nibble n = char_of (if n < 10 then 48 + n else 87 + n)"

definition hex_string :: "string \<Rightarrow> string" where
  "hex_string bs = concat (map (\<lambda>c. [nibble (byte c div 16), nibble (byte c mod 16)]) bs)"

section \<open>Strings\<close>

abbreviation quote :: char where "quote \<equiv> CHR 0x22"

definition json_char :: "nat \<Rightarrow> string" where
  "json_char r =
     (if r = 34 then [bslash, quote]
      else if r = 92 then [bslash, bslash]
      else if r = 8 then [bslash, CHR ''b'']
      else if r = 12 then [bslash, CHR ''f'']
      else if r = 10 then [bslash, CHR ''n'']
      else if r = 13 then [bslash, CHR ''r'']
      else if r = 9 then [bslash, CHR ''t'']
      else if r < 32 \<or> r = 60 \<or> r = 62 \<or> r = 38 then [bslash, CHR ''u'', CHR ''0'', CHR ''0'', nibble (r div 16), nibble (r mod 16)]
      else if r = 8232 \<or> r = 8233 then [bslash, CHR ''u'', CHR ''2'', CHR ''0'', CHR ''2'', nibble (r mod 16)]
      else unbytes (encode_rune r))"

definition json_rune :: "nat \<times> bool \<times> nat \<Rightarrow> string" where
  "json_rune x = (if fst (snd x) then json_char (fst x) else [bslash, CHR ''u'', CHR ''f'', CHR ''f'', CHR ''f'', CHR ''d''])"

definition json_string :: "string \<Rightarrow> string" where
  "json_string s = quote # concat (map json_rune (rune_list (bytes s))) @ [quote]"

text \<open>What reading the text back gives.\<close>

definition json_clean :: "string \<Rightarrow> string" where
  "json_clean s = encode_runes (runes s)"

section \<open>Objects\<close>

definition json_bool :: "bool \<Rightarrow> string" where
  "json_bool b = (if b then ''true'' else ''false'')"

definition json_member :: "string \<times> string \<Rightarrow> string" where
  "json_member m = json_string (fst m) @ CHR '':'' # snd m"

definition json_members :: "(string \<times> string) list \<Rightarrow> string" where
  "json_members ms = CHR ''{'' # str_join (map json_member ms) '','' @ ''}''"

text \<open>The fields of a structure; \<open>None\<close> is a field left out by \<open>omitempty\<close>.\<close>

type_synonym fields = "(string \<times> string option) list"

definition present :: "fields \<Rightarrow> (string \<times> string) list" where
  "present fs = concat (map (\<lambda>(n, v). case v of None \<Rightarrow> [] | Some x \<Rightarrow> [(n, x)]) fs)"

definition json_object :: "fields \<Rightarrow> string" where
  "json_object fs = json_members (present fs)"

definition field :: "string \<Rightarrow> string \<Rightarrow> string \<times> string option" where
  "field n v = (n, Some v)"

definition field_opt :: "string \<Rightarrow> string \<Rightarrow> string \<times> string option" where
  "field_opt n s = (n, if s = [] then None else Some (json_string s))"

section \<open>Lemmas: strings\<close>

text \<open>The runes written plainly, and the others.\<close>

definition plain_rune :: "nat \<Rightarrow> bool" where
  "plain_rune r \<longleftrightarrow> \<not> (r < 32 \<or> r = 34 \<or> r = 92 \<or> r = 60 \<or> r = 62 \<or> r = 38 \<or> r = 8232 \<or> r = 8233)"

lemma json_char_plain: "plain_rune r \<Longrightarrow> json_char r = unbytes (encode_rune r)"
  by (auto simp: plain_rune_def json_char_def)

lemma json_char_escaped: "\<not> plain_rune r \<Longrightarrow> \<exists>c u. json_char r = bslash # c # u"
  by (auto simp: plain_rune_def json_char_def)

lemma encode_head: "scalar r \<Longrightarrow> r < 128 \<and> encode_rune r = [r] \<or> 128 \<le> r \<and> (\<exists>b bs. encode_rune r = b # bs \<and> 128 \<le> b \<and> b < 256)"
  by (auto simp: encode_rune_def scalar_def)

lemma unbytes_head: "b < 256 \<Longrightarrow> byte (hd (unbytes (b # bs))) = b"
  by (simp add: unbytes_def)

lemma plain_head: "scalar r \<Longrightarrow> plain_rune r \<Longrightarrow> json_char r \<noteq> [] \<and> hd (json_char r) \<noteq> bslash \<and> hd (json_char r) \<noteq> quote"
proof -
  assume s: "scalar r" and p: "plain_rune r"
  from encode_head [OF s] obtain b bs where e: "encode_rune r = b # bs" "b = r \<and> r < 128 \<or> 128 \<le> b" "b < 256" by auto
  then have "byte (hd (json_char r)) = b" using unbytes_head [of b bs] by (simp add: json_char_plain [OF p])
  moreover have "b \<noteq> 92" "b \<noteq> 34" using e(2) p by (auto simp: plain_rune_def)
  moreover have "json_char r \<noteq> []" by (simp add: json_char_plain [OF p] e(1) unbytes_def)
  ultimately show ?thesis by (auto simp: of_char_eq_iff)
qed

lemma json_char_not_quote: "scalar r \<Longrightarrow> json_char r \<noteq> [] \<and> hd (json_char r) \<noteq> quote"
  using plain_head [of r] json_char_escaped [of r] by (cases "plain_rune r") auto

definition nib :: "char \<Rightarrow> nat" where
  "nib c = (if byte c < 58 then byte c - 48 else byte c - 87)"

lemma nib_nibble [simp]: "n < 16 \<Longrightarrow> nib (nibble n) = n"
  by (simp add: nib_def nibble_def)

text \<open>The rune an escape stands for, and its length.\<close>

definition unescape :: "string \<Rightarrow> nat \<times> nat" where
  "unescape s = (let c = s ! 1 in
     if c = CHR ''u'' then (if s ! 2 = CHR ''2'' then 8224 + nib (s ! 5) else 16 * nib (s ! 4) + nib (s ! 5), 6)
     else (if c = CHR ''b'' then 8 else if c = CHR ''f'' then 12 else if c = CHR ''n'' then 10
           else if c = CHR ''r'' then 13 else if c = CHR ''t'' then 9 else byte c, 2))"

lemma unescape_char:
  assumes "\<not> plain_rune r"
  shows "unescape (json_char r @ t) = (r, length (json_char r))"
proof -
  consider "r = 34" | "r = 92" | "r = 8" | "r = 12" | "r = 10" | "r = 13" | "r = 9" | "r = 8232" | "r = 8233"
    | (u) "r \<notin> {34, 92, 8, 12, 10, 13, 9}" "r < 32 \<or> r = 60 \<or> r = 62 \<or> r = 38"
    using assms by (auto simp: plain_rune_def)
  then show ?thesis
  proof cases
    case u
    then have "r div 16 < 16" "r mod 16 < 16" "16 * (r div 16) + r mod 16 = r" by auto
    then show ?thesis using u by (auto simp: json_char_def unescape_def)
  qed (simp_all add: json_char_def unescape_def Let_def)
qed

lemma escaped_inj:
  assumes "\<not> plain_rune r" and "\<not> plain_rune r'" and "json_char r @ t = json_char r' @ t'"
  shows "r = r' \<and> t = t'"
  using unescape_char [OF assms(1), of t] unescape_char [OF assms(2), of t'] assms(3) by auto

lemma plain_inj:
  assumes "scalar r" and "scalar r'" and "unbytes (encode_rune r) @ t = unbytes (encode_rune r') @ t'"
  shows "r = r' \<and> t = t'"
proof -
  have b: "bytes (unbytes (encode_rune x)) = encode_rune x" for x
    by (rule bytes_unbytes) (use encode_rune_less in blast)
  have "encode_rune r @ bytes t = encode_rune r' @ bytes t'"
    using arg_cong [OF assms(3), of bytes] by (simp add: b)
  then have "next_rune (encode_rune r @ bytes t) = next_rune (encode_rune r' @ bytes t')" by simp
  then have "r = r'" using next_rune_encode [OF assms(1)] next_rune_encode [OF assms(2)] by simp
  then show ?thesis using assms(3) by simp
qed

lemma json_char_inj:
  assumes "scalar r" and "scalar r'" and "json_char r @ t = json_char r' @ t'"
  shows "r = r' \<and> t = t'"
proof (cases "plain_rune r"; cases "plain_rune r'")
  assume "plain_rune r" "plain_rune r'"
  then show ?thesis using plain_inj [OF assms(1,2)] assms(3) by (simp add: json_char_plain)
next
  assume p: "plain_rune r" "\<not> plain_rune r'"
  then obtain c u where "json_char r' = bslash # c # u" using json_char_escaped by blast
  then show ?thesis using plain_head [OF assms(1) p(1)] assms(3) by (cases "json_char r") auto
next
  assume p: "\<not> plain_rune r" "plain_rune r'"
  then obtain c u where "json_char r = bslash # c # u" using json_char_escaped by blast
  then show ?thesis using plain_head [OF assms(2) p(2)] assms(3) by (cases "json_char r'") auto
next
  assume "\<not> plain_rune r" "\<not> plain_rune r'"
  then show ?thesis using escaped_inj assms(3) by blast
qed

text \<open>A string ends at its closing quote, valid or not.\<close>

lemma json_rune_not_quote: "scalar (fst x) \<Longrightarrow> json_rune x \<noteq> [] \<and> hd (json_rune x) \<noteq> quote"
  using json_char_not_quote [of "fst x"] by (auto simp: json_rune_def)

lemma json_char_not_error: "scalar r \<Longrightarrow> json_char r @ t \<noteq> bslash # CHR ''u'' # CHR ''f'' # t'"
proof (cases "plain_rune r")
  case True
  assume "scalar r"
  then show ?thesis using plain_head [OF _ True] by (cases "json_char r") auto
next
  case False
  then show ?thesis by (auto simp: plain_rune_def json_char_def)
qed

lemma json_rune_inj:
  assumes "scalar (fst x)" and "scalar (fst y)" and "json_rune x @ t = json_rune y @ t'"
  shows "json_rune x = json_rune y \<and> t = t'"
proof (cases "fst (snd x)"; cases "fst (snd y)")
  assume a: "fst (snd x)" "fst (snd y)"
  then show ?thesis using json_char_inj [OF assms(1,2), of t t'] assms(3) by (simp add: json_rune_def)
next
  assume "fst (snd x)" "\<not> fst (snd y)"
  then show ?thesis using json_char_not_error [OF assms(1)] assms(3) by (simp add: json_rune_def)
next
  assume "\<not> fst (snd x)" "fst (snd y)"
  then show ?thesis using json_char_not_error [OF assms(2)] assms(3) [symmetric] by (simp add: json_rune_def)
qed (use assms(3) in \<open>simp add: json_rune_def\<close>)

lemma json_runes_inj:
  "\<forall>x \<in> set xs. scalar (fst x) \<Longrightarrow> \<forall>x \<in> set ys. scalar (fst x) \<Longrightarrow>
   concat (map json_rune xs) @ quote # t = concat (map json_rune ys) @ quote # t' \<Longrightarrow>
   concat (map json_rune xs) = concat (map json_rune ys) \<and> t = t'"
proof (induction xs arbitrary: ys)
  case Nil
  show ?case
  proof (cases ys)
    case (Cons y ys')
    then have "json_rune y \<noteq> [] \<and> hd (json_rune y) \<noteq> quote" using json_rune_not_quote Nil.prems(2) by simp
    then show ?thesis using Nil.prems(3) Cons by (cases "json_rune y") auto
  qed (use Nil.prems in simp)
next
  case (Cons x xs)
  show ?case
  proof (cases ys)
    case Nil
    then show ?thesis using Cons.prems json_rune_not_quote [of x] by (cases "json_rune x") auto
  next
    case (Cons y ys')
    then have "json_rune x = json_rune y \<and> concat (map json_rune xs) @ quote # t = concat (map json_rune ys') @ quote # t'"
      using Cons.prems by (intro json_rune_inj) auto
    then show ?thesis using Cons.IH [of ys'] Cons.prems Cons by auto
  qed
qed

lemma rune_list_scalar: "(r, ok, n) \<in> set (rune_list bs) \<Longrightarrow> scalar r \<and> (\<not> ok \<longrightarrow> r = RuneError)"
proof (induction bs rule: rune_list.induct)
  case (1 bs)
  show ?case
  proof (cases "bs = []")
    case False
    then have "(r, ok, n) = next_rune bs \<or> (r, ok, n) \<in> set (rune_list (drop (snd (snd (next_rune bs))) bs))"
      using "1.prems" by (subst (asm) rune_list.simps) auto
    then show ?thesis
    proof
      assume e: "(r, ok, n) = next_rune bs"
      show ?thesis
      proof (cases ok)
        case True
        then show ?thesis using next_rune_decode [of bs r n] e by simp
      next
        case False
        then have "r = RuneError" using next_rune_invalid [OF \<open>bs \<noteq> []\<close>, of r n] e by simp
        then show ?thesis by (simp add: RuneError_def scalar_def)
      qed
    qed (use "1.IH" [OF False] in blast)
  qed (use "1.prems" in simp)
qed

lemma runes_without_error: "RuneError \<notin> set (runes s) \<Longrightarrow> valid_string s"
proof -
  assume a: "RuneError \<notin> set (runes s)"
  have "ok" if "(r, ok, n) \<in> set (rune_list (bytes s))" for r ok n
    using rune_list_scalar [OF that] that a by (force simp: runes_def bytes_runes_def)
  then show ?thesis by (auto simp: valid_string_def bytes_valid_def list_all_iff)
qed

lemma json_string_delimited: "json_string s @ t = json_string s' @ t' \<Longrightarrow> json_string s = json_string s' \<and> t = t'"
proof -
  assume "json_string s @ t = json_string s' @ t'"
  then have "concat (map json_rune (rune_list (bytes s))) @ quote # t = concat (map json_rune (rune_list (bytes s'))) @ quote # t'"
    by (simp add: json_string_def)
  moreover have "\<forall>x \<in> set (rune_list (bytes u)). scalar (fst x)" for u using rune_list_scalar by auto
  ultimately have "concat (map json_rune (rune_list (bytes s))) = concat (map json_rune (rune_list (bytes s'))) \<and> t = t'"
    by (intro json_runes_inj)
  then show ?thesis by (simp add: json_string_def)
qed

lemma json_string_valid: "valid_string s \<Longrightarrow> json_string s = quote # concat (map json_char (runes s)) @ [quote]"
proof -
  assume "valid_string s"
  then have "map json_rune (rune_list (bytes s)) = map json_char (map fst (rune_list (bytes s)))"
    by (auto simp: valid_string_def bytes_valid_def list_all_iff json_rune_def)
  then show ?thesis by (simp only: json_string_def runes_def bytes_runes_def)
qed

lemma json_chars_inj: "\<forall>r \<in> set rs. scalar r \<Longrightarrow> \<forall>r \<in> set rs'. scalar r \<Longrightarrow>
   concat (map json_char rs) = concat (map json_char rs') \<Longrightarrow> rs = rs'"
proof (induction rs arbitrary: rs')
  case Nil
  then show ?case using json_char_not_quote by (cases rs') auto
next
  case (Cons r rs)
  show ?case
  proof (cases rs')
    case Nil
    then show ?thesis using Cons.prems json_char_not_quote [of r] by simp
  next
    case (Cons r' rs'')
    then have "r = r' \<and> concat (map json_char rs) = concat (map json_char rs'')"
      using Cons.prems by (intro json_char_inj) auto
    then show ?thesis using Cons.IH [of rs''] Cons.prems Cons by auto
  qed
qed

lemma json_string_eq: "valid_string a \<Longrightarrow> valid_string b \<Longrightarrow> json_string a = json_string b \<longleftrightarrow> a = b"
  using json_chars_inj [of "runes a" "runes b"] valid_string_scalar [of a] valid_string_scalar [of b] runes_inj [of a b]
  by (auto simp: json_string_valid)

text \<open>Reading back loses what was not valid, and then the text gets shorter.\<close>

lemma json_clean_valid: "valid_string s \<Longrightarrow> json_clean s = s"
  by (simp add: json_clean_def valid_string_encode)

lemma runes_scalar: "\<forall>r \<in> set (runes s). scalar r"
  using rune_list_scalar by (auto simp: runes_def bytes_runes_def)

lemma json_clean_runes: "runes (json_clean s) = runes s" "valid_string (json_clean s)"
  using runes_scalar [of s] by (simp_all add: json_clean_def runes_encode valid_encode_runes)

lemma json_clean_idem [simp]: "json_clean (json_clean s) = json_clean s"
  by (simp add: json_clean_runes json_clean_valid)

lemma json_clean_iff: "json_clean s = s \<longleftrightarrow> valid_string s"
  using json_clean_runes(2) [of s] json_clean_valid [of s] by auto

lemma length_json: "length (json_string s) = 2 + sum_list (map (\<lambda>x. length (json_rune x)) (rune_list (bytes s)))"
  by (simp add: json_string_def length_concat comp_def)

lemma length_clean: "length (json_string (json_clean s)) = 2 + sum_list (map (\<lambda>x. length (json_char (fst x))) (rune_list (bytes s)))"
proof -
  have "json_string (json_clean s) = quote # concat (map json_char (runes s)) @ [quote]"
    by (simp add: json_string_valid json_clean_runes)
  then show ?thesis by (simp add: length_concat comp_def runes_def bytes_runes_def)
qed

lemma json_rune_length: "x \<in> set (rune_list bs) \<Longrightarrow> length (json_char (fst x)) \<le> length (json_rune x) \<and>
   (\<not> fst (snd x) \<longrightarrow> length (json_char (fst x)) < length (json_rune x))"
proof -
  assume x: "x \<in> set (rune_list bs)"
  have e: "length (json_char RuneError) = 3" by (simp add: json_char_def RuneError_def encode_rune_def scalar_def unbytes_def)
  obtain r ok n where t: "x = (r, ok, n)" by (cases x) auto
  then have "\<not> ok \<longrightarrow> r = RuneError" using rune_list_scalar x by blast
  then show ?thesis using e t by (auto simp: json_rune_def)
qed

lemma json_clean_shorter: "length (json_string (json_clean s)) \<le> length (json_string s)"
  "\<not> valid_string s \<Longrightarrow> length (json_string (json_clean s)) < length (json_string s)"
proof -
  let ?xs = "rune_list (bytes s)"
  have le: "sum_list (map (\<lambda>x. length (json_char (fst x))) ys) \<le> sum_list (map (\<lambda>x. length (json_rune x)) ys)"
    if "set ys \<subseteq> set ?xs" for ys
    using that json_rune_length by (intro sum_list_mono) blast
  show "length (json_string (json_clean s)) \<le> length (json_string s)" using le [of ?xs] unfolding length_clean unfolding length_json by simp
  assume "\<not> valid_string s"
  then obtain x where x: "x \<in> set ?xs" "\<not> fst (snd x)" by (auto simp: valid_string_def bytes_valid_def list_all_iff)
  then obtain a b where ab: "?xs = a @ x # b" by (metis split_list)
  then have "set a \<subseteq> set ?xs" "set b \<subseteq> set ?xs" by auto
  from le [OF this(1)] le [OF this(2)] json_rune_length [OF x(1)] x(2)
  show "length (json_string (json_clean s)) < length (json_string s)" unfolding length_clean unfolding length_json ab by simp
qed

section \<open>Lemmas: objects\<close>

text \<open>A value that ends where the next comma or brace begins.\<close>

definition token :: "string \<Rightarrow> bool" where
  "token v \<longleftrightarrow> (\<exists>s. v = json_string s) \<or> (v \<noteq> [] \<and> hd v \<noteq> quote \<and> CHR '','' \<notin> set v \<and> CHR ''}'' \<notin> set v)"

definition stops :: "string \<Rightarrow> bool" where
  "stops t \<longleftrightarrow> t \<noteq> [] \<and> (hd t = CHR '','' \<or> hd t = CHR ''}'')"

lemma token_inj:
  assumes "token v" and "token v'" and "stops t" and "stops t'" and "v @ t = v' @ t'"
  shows "v = v' \<and> t = t'"
proof -
  have hdq: "hd (json_string s @ x) = quote" for s x by (simp add: json_string_def)
  have plain: "takeWhile (\<lambda>c. c \<noteq> CHR '','' \<and> c \<noteq> CHR ''}'') (w @ u) = w"
    if "CHR '','' \<notin> set w" "CHR ''}'' \<notin> set w" "stops u" for w u
  proof -
    have "takeWhile (\<lambda>c. c \<noteq> CHR '','' \<and> c \<noteq> CHR ''}'') u = []" using that(3) by (cases u) (auto simp: stops_def)
    moreover have "\<forall>c \<in> set w. c \<noteq> CHR '','' \<and> c \<noteq> CHR ''}''" using that by auto
    ultimately show ?thesis by (simp add: takeWhile_append2)
  qed
  from assms(1,2) consider (ss) s s' where "v = json_string s" "v' = json_string s'"
    | (sp) s where "v = json_string s" "v' \<noteq> []" "hd v' \<noteq> quote" | (ps) s where "v' = json_string s" "v \<noteq> []" "hd v \<noteq> quote"
    | (pp) "CHR '','' \<notin> set v" "CHR ''}'' \<notin> set v" "CHR '','' \<notin> set v'" "CHR ''}'' \<notin> set v'"
    unfolding token_def by blast
  then show ?thesis
  proof cases
    case ss
    then show ?thesis using json_string_delimited assms(5) by blast
  next
    case sp
    then have False using hdq [of s t] assms(5) hd_append2 [of v' t'] by simp
    then show ?thesis ..
  next
    case ps
    then have False using hdq [of s t'] assms(5) hd_append2 [of v t] by simp
    then show ?thesis ..
  next
    case pp
    then have "v = v'" using plain [of v t] plain [of v' t'] assms(3-5) by simp
    then show ?thesis using assms(5) by simp
  qed
qed

definition members_ok :: "(string \<times> string) list \<Rightarrow> bool" where
  "members_ok ms \<longleftrightarrow> (\<forall>(n, v) \<in> set ms. valid_string n \<and> token v)"

lemma members_inj: "members_ok ms \<Longrightarrow> members_ok ms' \<Longrightarrow>
   str_join (map json_member ms) '','' @ ''}'' = str_join (map json_member ms') '','' @ ''}'' \<Longrightarrow> ms = ms'"
proof (induction ms arbitrary: ms')
  case Nil
  then show ?case by (cases ms') (auto simp: str_join_Cons json_member_def json_string_def split: if_splits)
next
  case (Cons m ms)
  define rest where "rest ms = (if ms = [] then ''}'' else CHR '','' # str_join (map json_member ms) '','' @ ''}'')" for ms
  have r: "str_join (map json_member (m # ms)) '','' @ ''}'' = json_member m @ rest ms" for m ms
    by (simp add: rest_def str_join_Cons)
  have st: "stops (rest ms)" for ms by (simp add: rest_def stops_def)
  show ?case
  proof (cases ms')
    case Nil
    then show ?thesis using Cons.prems(3) by (auto simp: str_join_Cons json_member_def json_string_def split: if_splits)
  next
    case (Cons m' ms'')
    obtain n v n' v' where mv: "m = (n, v)" "m' = (n', v')" by (cases m, cases m') auto
    have ok: "valid_string n" "token v" "valid_string n'" "token v'" "members_ok ms" "members_ok ms''"
      using Cons.prems(1,2) Cons mv by (auto simp: members_ok_def)
    have "json_string n @ CHR '':'' # v @ rest ms = json_string n' @ CHR '':'' # v' @ rest ms''"
      using Cons.prems(3) unfolding Cons r by (simp add: json_member_def mv)
    from json_string_delimited [OF this] have n: "n = n'" and "v @ rest ms = v' @ rest ms''"
      using json_string_eq [OF ok(1,3)] by auto
    from token_inj [OF ok(2,4) st st this(2)] have v: "v = v'" and e: "rest ms = rest ms''" by auto
    have "str_join (map json_member ms) '','' @ ''}'' = str_join (map json_member ms'') '','' @ ''}''"
      using e by (auto simp: rest_def split: if_splits)
    from Cons.IH [OF ok(5,6) this] show ?thesis using n v mv Cons by simp
  qed
qed

lemma present_names: "(n, v) \<in> set (present fs) \<Longrightarrow> n \<in> set (map fst fs)"
  by (force simp: present_def split: option.splits)

lemma present_inj: "map fst fs = map fst fs' \<Longrightarrow> distinct (map fst fs) \<Longrightarrow> present fs = present fs' \<Longrightarrow> fs = fs'"
proof (induction fs arbitrary: fs')
  case (Cons f fs)
  obtain n v where f: "f = (n, v)" by (cases f)
  from Cons.prems(1) obtain v' fs1 where fs': "fs' = (n, v') # fs1" "map fst fs = map fst fs1" by (cases fs') (auto simp: f)
  have no: "(n, x) \<notin> set (present fs)" "(n, x) \<notin> set (present fs1)" for x
    using Cons.prems(2) present_names [of n x fs] present_names [of n x fs1] fs'(2) by (auto simp: f)
  have "present (f # fs) = (case v of None \<Rightarrow> [] | Some x \<Rightarrow> [(n, x)]) @ present fs"
    "present fs' = (case v' of None \<Rightarrow> [] | Some x \<Rightarrow> [(n, x)]) @ present fs1" by (simp_all add: present_def f fs')
  then have e: "(case v of None \<Rightarrow> [] | Some x \<Rightarrow> [(n, x)]) @ present fs = (case v' of None \<Rightarrow> [] | Some x \<Rightarrow> [(n, x)]) @ present fs1"
    using Cons.prems(3) by simp
  have "v = v' \<and> present fs = present fs1"
  proof (cases v; cases v')
    fix x assume "v = None" "v' = Some x"
    then have "(n, x) \<in> set (present fs)" using e by simp
    then show ?thesis using no by blast
  next
    fix x assume "v = Some x" "v' = None"
    then have "(n, x) \<in> set (present fs1)" using e [symmetric] by simp
    then show ?thesis using no by blast
  qed (use e in simp_all)
  then show ?case using Cons.IH [of fs1] Cons.prems(2) fs' f by simp
qed simp

definition fields_ok :: "fields \<Rightarrow> bool" where
  "fields_ok fs \<longleftrightarrow> distinct (map fst fs) \<and> list_all (\<lambda>(n, v). valid_string n \<and> (case v of None \<Rightarrow> True | Some x \<Rightarrow> token x)) fs"

lemma present_ok: "fields_ok fs \<Longrightarrow> members_ok (present fs)"
  by (auto simp: fields_ok_def members_ok_def present_def list_all_iff split: option.splits)

lemma json_object_inj:
  assumes "json_object fs = json_object fs'" and "fields_ok fs" and "fields_ok fs'" and "map fst fs = map fst fs'"
  shows "fs = fs'"
proof (rule present_inj [OF assms(4)])
  show "distinct (map fst fs)" using assms(2) by (simp add: fields_ok_def)
  show "present fs = present fs'"
    using members_inj [OF present_ok [OF assms(2)] present_ok [OF assms(3)]] assms(1)
    by (simp add: json_object_def json_members_def)
qed

section \<open>Lemmas: numbers\<close>

definition dec_value :: "string \<Rightarrow> nat" where
  "dec_value s = foldl (\<lambda>a c. 10 * a + (byte c - 48)) 0 s"

lemma nat_dec_value: "dec_value (nat_dec n) = n"
proof (induction n rule: nat_dec.induct)
  case (1 n)
  show ?case
  proof (cases "n < 10")
    case True
    then show ?thesis by (subst nat_dec.simps) (simp add: dec_value_def)
  next
    case False
    moreover have "n mod 10 < 10" by simp
    ultimately show ?thesis using "1.IH" by (subst nat_dec.simps) (simp add: dec_value_def)
  qed
qed

lemma nat_dec_inj [simp]: "nat_dec m = nat_dec n \<longleftrightarrow> m = n"
  by (metis nat_dec_value)

lemma nat_dec_chars: "nat_dec n \<noteq> [] \<and> (\<forall>c \<in> set (nat_dec n). 48 \<le> byte c \<and> byte c \<le> 57)"
proof (induction n rule: nat_dec.induct)
  case (1 n)
  show ?case
  proof (cases "n < 10")
    case True
    then show ?thesis by (subst (1 2) nat_dec.simps) simp
  next
    case False
    moreover have "n mod 10 < 10" by simp
    ultimately show ?thesis using "1.IH" by (subst (1 2) nat_dec.simps) auto
  qed
qed

lemma digits_token:
  assumes "w \<noteq> []" and "\<forall>c \<in> set w. 48 \<le> byte c \<and> byte c \<le> 57"
  shows "token w" "token (CHR ''-'' # w)"
proof -
  have x: "CHR '','' \<notin> set w" "CHR ''}'' \<notin> set w" "quote \<notin> set w" using assms(2) by auto
  then have "hd w \<noteq> quote" using assms(1) by (cases w) auto
  then show "token w" "token (CHR ''-'' # w)" using x assms(1) by (simp_all add: token_def)
qed

lemma token_nat [simp]: "token (nat_dec n)"
  using nat_dec_chars [of n] by (intro digits_token) auto

lemma token_int [simp]: "token (int_dec i)"
  using nat_dec_chars by (auto simp: int_dec_def intro: digits_token)

lemma int_dec_inj [simp]: "int_dec i = int_dec j \<longleftrightarrow> i = j"
proof -
  have "CHR ''-'' # w \<noteq> nat_dec n" for w n
    using nat_dec_chars [of n] by (cases "nat_dec n") auto
  then show ?thesis by (auto simp: int_dec_def eq_commute [of "nat_dec _" "_ # _"] nat_eq_iff2 split: if_splits)
qed

lemma token_bool [simp]: "token (json_bool b)"
  by (simp add: json_bool_def token_def)

lemma json_bool_inj [simp]: "json_bool a = json_bool b \<longleftrightarrow> a = b"
  by (simp add: json_bool_def)

lemma token_string [simp]: "token (json_string s)"
  by (auto simp: token_def)

lemma field_eq [simp]: "field n a = field n b \<longleftrightarrow> a = b"
  by (simp add: field_def)

lemma field_opt_eq: "valid_string a \<Longrightarrow> valid_string b \<Longrightarrow> field_opt n a = field_opt n b \<longleftrightarrow> a = b"
  by (simp add: field_opt_def json_string_eq)

end
