(* ===== verification/Request.thy ===== *)
theory Request
  imports SessionStore Json "HOL-Library.Product_Lexorder"
begin

text \<open>
  \<open>internal/approval/request.go\<close>: the requests awaiting an operator's decision and the decisions.
  The two directories are maps from file names to contents, \<open>None\<close> for a content that does not
  parse; JSON gives back what was written: a command that awaits approval is valid UTF-8, since no
  matcher is minted for another one. Failures of the file system are not modelled. A pending file carries its modification time. SHA-256 in hexadecimal is the argument \<open>H\<close>, the
  clock reading the argument \<open>now\<close>, the random bytes of a new identifier the argument \<open>rnd\<close>.
\<close>

section \<open>Documents\<close>

record PendingRequest =
  pr_Version :: int
  pr_ID :: string
  pr_ReqID :: string
  pr_SessionID :: string
  pr_Host :: string
  pr_Cmd :: string
  pr_CmdSHA256 :: string
  pr_Candidate :: Matcher
  pr_MatcherSHA256 :: string
  pr_Kind :: string
  pr_Promotable :: bool
  pr_TS :: string
  pr_ProposedScopes :: "string list"
  pr_StdinSHA256 :: string
  pr_StdinBytes :: int
  pr_PlanID :: string
  pr_PlanSeq :: int
  pr_PlanTotal :: int

record Resolution =
  rs_Version :: int
  rs_ID :: string
  rs_ReqDigest :: string
  rs_Verdict :: string
  rs_Scope :: string
  rs_TS :: string

record StatusResult =
  st_ID :: string
  st_Verdict :: string
  st_Scope :: string
  st_Status :: string
  st_Request :: "PendingRequest option"

record approvals =
  ap_Pending :: "(PendingRequest option \<times> instant) gomap"
  ap_Responses :: "Resolution option gomap"

definition ErrInvalidID :: error where "ErrInvalidID = Sentinel ''ErrInvalidID''"
definition ErrPendingNotFound :: error where "ErrPendingNotFound = Sentinel ''ErrPendingNotFound''"
definition ErrAlreadyResolved :: error where "ErrAlreadyResolved = Sentinel ''ErrAlreadyResolved''"
definition ErrCorruptResolution :: error where "ErrCorruptResolution = Sentinel ''ErrCorruptResolution''"
definition ErrTooManyPending :: error where "ErrTooManyPending = Sentinel ''ErrTooManyPending''"

lemmas request_errors = ErrInvalidID_def ErrPendingNotFound_def ErrAlreadyResolved_def ErrCorruptResolution_def ErrTooManyPending_def

text \<open>\<open>resolvedReapTTL\<close>, 24 hours in nanoseconds.\<close>

definition resolvedReapTTL :: nat where "resolvedReapTTL = 86400000000000"

section \<open>Identifiers and digests\<close>

definition newPrefixedID :: "string \<Rightarrow> string \<Rightarrow> string" where
  "newPrefixedID p rnd = p @ hex_string rnd"

definition NewID :: "string \<Rightarrow> string" where
  "NewID rnd = newPrefixedID ''ap_'' rnd"

definition id_char :: "char \<Rightarrow> bool" where
  "id_char c \<longleftrightarrow> 48 \<le> byte c \<and> byte c \<le> 57 \<or> 97 \<le> byte c \<and> byte c \<le> 102"

definition validPrefixedID :: "string \<Rightarrow> string \<Rightarrow> bool" where
  "validPrefixedID i p \<longleftrightarrow> has_prefix i p \<and> length p + 24 \<le> length i \<and> list_all id_char (drop (length p) i)"

definition validApprovalID :: "string \<Rightarrow> bool" where
  "validApprovalID i = validPrefixedID i ''ap_''"

definition pendingPath :: "string \<Rightarrow> string" where "pendingPath i = i @ ''.json''"
definition responsePath :: "string \<Rightarrow> string" where "responsePath i = i @ ''.json''"

definition proposedScopes :: "Matcher \<Rightarrow> string list" where
  "proposedScopes m = [ScopeOnce, ScopeSession] @ (if m_Promotable m then [ScopeHost] else [])"

definition digest_parts :: "PendingRequest \<Rightarrow> string \<Rightarrow> string list" where
  "digest_parts req scope =
     [pr_ID req, pr_ReqID req, pr_SessionID req, pr_Host req, pr_CmdSHA256 req, pr_MatcherSHA256 req, scope] @
     (if pr_StdinSHA256 req \<noteq> [] then [pr_StdinSHA256 req] else [])"

definition RequestDigest :: "(string \<Rightarrow> string) \<Rightarrow> PendingRequest \<Rightarrow> string \<Rightarrow> string" where
  "RequestDigest H req scope = H (str_join (digest_parts req scope) [CHR 0x00])"

section \<open>Reading\<close>

text \<open>The \<open>.json\<close> files of a directory, in the order of \<open>os.ReadDir\<close>, and their identifiers.\<close>

definition json_names :: "'a gomap \<Rightarrow> string list" where
  "json_names dir = filter (\<lambda>name. has_suffix name ''.json'') (sort (keys dir))"

definition file_id :: "string \<Rightarrow> string" where
  "file_id name = trim_suffix name ''.json''"

definition pending_Get :: "(string \<Rightarrow> string) \<Rightarrow> approvals \<Rightarrow> string \<Rightarrow> PendingRequest res" where
  "pending_Get H s i =
     (if \<not> validApprovalID i then Inl ErrInvalidID
      else case gget (ap_Pending s) (pendingPath i) of
        None \<Rightarrow> Inl ErrPendingNotFound
      | Some (None, _) \<Rightarrow> Inl (Errorf ''parse pending approval'' [i])
      | Some (Some req, _) \<Rightarrow>
          if pr_ID req \<noteq> i \<or> pr_MatcherSHA256 req \<noteq> matcher_SHA256 H (pr_Candidate req) \<or> pr_CmdSHA256 req \<noteq> H (pr_Cmd req)
          then Inl (Errorf ''pending approval digest mismatch'' [i]) else Inr req)"

definition readResolution :: "approvals \<Rightarrow> string \<Rightarrow> Resolution option res" where
  "readResolution s i = (case gget (ap_Responses s) (responsePath i) of
     None \<Rightarrow> Inr None
   | Some None \<Rightarrow> Inl (Wrapped i ErrCorruptResolution)
   | Some (Some r) \<Rightarrow> if rs_ID r \<noteq> i then Inl (Wrapped i ErrCorruptResolution) else Inr (Some r))"

definition pending_status :: "string \<Rightarrow> PendingRequest \<Rightarrow> StatusResult" where
  "pending_status i req = \<lparr>st_ID = i, st_Verdict = [], st_Scope = [], st_Status = ''pending'', st_Request = Some req\<rparr>"

definition pending_Status :: "(string \<Rightarrow> string) \<Rightarrow> approvals \<Rightarrow> string \<Rightarrow> StatusResult res" where
  "pending_Status H s i = rbind (pending_Get H s i) (\<lambda>req. rbind (readResolution s i) (\<lambda>found.
     Inr (case found of
       None \<Rightarrow> pending_status i req
     | Some r \<Rightarrow>
         if rs_ReqDigest r \<noteq> RequestDigest H req (rs_Scope r) then pending_status i req
         else if rs_Verdict r = VerdictApproved then
           \<lparr>st_ID = i, st_Verdict = rs_Verdict r, st_Scope = rs_Scope r, st_Status = ''approved'', st_Request = Some req\<rparr>
         else if rs_Verdict r = VerdictDenied then
           \<lparr>st_ID = i, st_Verdict = rs_Verdict r, st_Scope = rs_Scope r, st_Status = ''denied'', st_Request = Some req\<rparr>
         else pending_status i req)))"

definition Unresolved :: "approvals \<Rightarrow> nat" where
  "Unresolved s = length (filter (\<lambda>name. \<not> ghas (ap_Responses s) (responsePath (file_id name))) (json_names (ap_Pending s)))"

text \<open>The loop of \<open>findUnresolved\<close>; \<open>same\<close> compares session, host, command and stdin.\<close>

fun findLoop :: "(string \<Rightarrow> string) \<Rightarrow> approvals \<Rightarrow> (PendingRequest \<Rightarrow> bool) \<Rightarrow> string list \<Rightarrow> PendingRequest option" where
  "findLoop H s same [] = None"
| "findLoop H s same (name # names) =
     (case pending_Get H s (file_id name) of
        Inl _ \<Rightarrow> findLoop H s same names
      | Inr req \<Rightarrow>
          if \<not> same req then findLoop H s same names
          else if readResolution s (file_id name) = Inr None then Some req
          else findLoop H s same names)"

definition same_request :: "string \<Rightarrow> string \<Rightarrow> string \<Rightarrow> string \<Rightarrow> int \<Rightarrow> PendingRequest \<Rightarrow> bool" where
  "same_request sid host cmdSHA256 stdinSHA256 stdinBytes req \<longleftrightarrow>
     pr_SessionID req = sid \<and> pr_Host req = host \<and> pr_CmdSHA256 req = cmdSHA256 \<and>
     pr_StdinSHA256 req = stdinSHA256 \<and> pr_StdinBytes req = stdinBytes"

definition findUnresolved :: "(string \<Rightarrow> string) \<Rightarrow> approvals \<Rightarrow> string \<Rightarrow> string \<Rightarrow> string \<Rightarrow> string \<Rightarrow> int \<Rightarrow> PendingRequest option" where
  "findUnresolved H s sid host cmdSHA256 stdinSHA256 stdinBytes =
     findLoop H s (same_request sid host cmdSHA256 stdinSHA256 stdinBytes) (json_names (ap_Pending s))"

section \<open>Writing\<close>

text \<open>Old requests with a resolution are removed together with it.\<close>

definition reapable :: "instant \<Rightarrow> nat \<Rightarrow> approvals \<Rightarrow> string \<Rightarrow> bool" where
  "reapable now ttl s name \<longleftrightarrow>
     (case readResolution s (file_id name) of Inr (Some _) \<Rightarrow> True | _ \<Rightarrow> False) \<and>
     (case gget (ap_Pending s) (pendingPath (file_id name)) of
        None \<Rightarrow> False
      | Some (_, mtime) \<Rightarrow> \<not> (int now - int ttl < int mtime))"

definition reap_one :: "instant \<Rightarrow> nat \<Rightarrow> string \<Rightarrow> approvals \<Rightarrow> approvals" where
  "reap_one now ttl name s =
     (if reapable now ttl s name then
        \<lparr>ap_Pending = gdel (pendingPath (file_id name)) (ap_Pending s),
         ap_Responses = gdel (responsePath (file_id name)) (ap_Responses s)\<rparr>
      else s)"

definition reapResolved :: "instant \<Rightarrow> nat \<Rightarrow> approvals \<Rightarrow> approvals" where
  "reapResolved now ttl s = (if ttl = 0 then s else fold (reap_one now ttl) (json_names (ap_Pending s)) s)"

definition completed_request :: "libs \<Rightarrow> (string \<Rightarrow> string) \<Rightarrow> instant \<Rightarrow> PendingRequest \<Rightarrow> PendingRequest" where
  "completed_request L H now req = req\<lparr>
     pr_Version := 1,
     pr_CmdSHA256 := H (pr_Cmd req),
     pr_MatcherSHA256 := matcher_SHA256 H (pr_Candidate req),
     pr_Kind := m_Kind (pr_Candidate req),
     pr_Promotable := m_Promotable (pr_Candidate req),
     pr_TS := (if pr_TS req = [] then format_time now else pr_TS req),
     pr_ProposedScopes :=
       (if pr_ProposedScopes req = [] then proposedScopes (pr_Candidate req) @
          (if TaskCandidate L (pr_Cmd req) (pr_StdinSHA256 req) \<noteq> None then [ScopeTask] else [])
        else pr_ProposedScopes req)\<rparr>"

definition pending_Create :: "libs \<Rightarrow> (string \<Rightarrow> string) \<Rightarrow> instant \<Rightarrow> int \<Rightarrow> string \<Rightarrow> approvals \<Rightarrow> PendingRequest \<Rightarrow>
    approvals \<times> PendingRequest res" where
  "pending_Create L H now maxPending rnd s0 req0 =
     (let s = reapResolved now resolvedReapTTL s0 in
      case findUnresolved H s (pr_SessionID req0) (pr_Host req0) (H (pr_Cmd req0)) (pr_StdinSHA256 req0) (pr_StdinBytes req0) of
        Some existing \<Rightarrow> (s, Inr existing)
      | None \<Rightarrow>
          if 0 < maxPending \<and> maxPending \<le> int (Unresolved s) then (s, Inl ErrTooManyPending)
          else let req = (if pr_ID req0 = [] then req0\<lparr>pr_ID := NewID rnd\<rparr> else req0) in
            if \<not> validApprovalID (pr_ID req) then (s, Inl ErrInvalidID)
            else let req' = completed_request L H now req in
              if ghas (ap_Pending s) (pendingPath (pr_ID req)) then (s, Inl (Errorf ''approval id collision'' [pr_ID req]))
              else (s\<lparr>ap_Pending := gput (pendingPath (pr_ID req)) (Some req', now) (ap_Pending s)\<rparr>, Inr req'))"

definition pending_List :: "(string \<Rightarrow> string) \<Rightarrow> instant \<Rightarrow> approvals \<Rightarrow> approvals \<times> PendingRequest list" where
  "pending_List H now s0 =
     (let s = reapResolved now resolvedReapTTL s0;
          out = concat (map (\<lambda>name. case pending_Get H s (file_id name) of
              Inl _ \<Rightarrow> []
            | Inr req \<Rightarrow> (case pending_Status H s (file_id name) of
                Inr status \<Rightarrow> if st_Status status \<noteq> ''pending'' then [] else [req]
              | Inl _ \<Rightarrow> [req])) (json_names (ap_Pending s)))
      in (s, sort_key (\<lambda>req. (pr_TS req, pr_ID req)) out))"

definition new_resolution :: "(string \<Rightarrow> string) \<Rightarrow> instant \<Rightarrow> PendingRequest \<Rightarrow> string \<Rightarrow> string \<Rightarrow> Resolution" where
  "new_resolution H now req verdict scope = \<lparr>rs_Version = 1, rs_ID = pr_ID req, rs_ReqDigest = RequestDigest H req scope,
     rs_Verdict = verdict, rs_Scope = scope, rs_TS = format_time now\<rparr>"

definition pending_Resolve :: "(string \<Rightarrow> string) \<Rightarrow> instant \<Rightarrow> approvals \<Rightarrow> PendingRequest \<Rightarrow> string \<Rightarrow> string \<Rightarrow> approvals \<times> Resolution res" where
  "pending_Resolve H now s req verdict scope =
     (if \<not> validApprovalID (pr_ID req) then (s, Inl ErrInvalidID)
      else let r = new_resolution H now req verdict scope in
        if ghas (ap_Responses s) (responsePath (pr_ID req)) then (s, Inl ErrAlreadyResolved)
        else (s\<lparr>ap_Responses := gput (responsePath (pr_ID req)) (Some r) (ap_Responses s)\<rparr>, Inr r))"

section \<open>Waiting\<close>

text \<open>
  \<open>Wait\<close> polls. \<open>hist t\<close> are the directories at time \<open>t\<close>; a poll takes no time and a sleep exactly
  its length: 50, 100, 200, 400 and then 800 milliseconds.
\<close>

definition wait_sleep :: "nat \<Rightarrow> nat" where
  "wait_sleep k = 50000000 * 2 ^ min k 4"

lemma wait_sleep_bounds: "0 < wait_sleep k" "wait_sleep k \<le> 800000000"
proof -
  have "(2::nat) ^ min k 4 \<le> 2 ^ 4" by (rule power_increasing) simp_all
  then show "0 < wait_sleep k" "wait_sleep k \<le> 800000000" by (simp_all add: wait_sleep_def)
qed

lemma wait_sleep_step [simp]: "t < d \<Longrightarrow> d - (t + wait_sleep k) < d - t"
  using wait_sleep_bounds(1) [of k] by linarith

definition decided :: "StatusResult \<Rightarrow> bool" where
  "decided r \<longleftrightarrow> st_Status r = ''approved'' \<or> st_Status r = ''denied''"

function waitLoop :: "(string \<Rightarrow> string) \<Rightarrow> (instant \<Rightarrow> approvals) \<Rightarrow> string \<Rightarrow> instant \<Rightarrow> instant \<Rightarrow> nat \<Rightarrow> StatusResult res" where
  "waitLoop H hist i deadline t k =
     rbind (pending_Status H (hist t) i) (\<lambda>status.
       if decided status then Inr status
       else if \<not> t < deadline then Inr status
       else waitLoop H hist i deadline (t + wait_sleep k) (Suc k))"
  by pat_completeness auto
termination
  by (relation "measure (\<lambda>(H, hist, i, deadline, t, k). deadline - t)") auto

declare waitLoop.simps [simp del]

definition pending_Wait :: "(string \<Rightarrow> string) \<Rightarrow> (instant \<Rightarrow> approvals) \<Rightarrow> string \<Rightarrow> instant \<Rightarrow> nat \<Rightarrow> StatusResult res" where
  "pending_Wait H hist i start timeout = waitLoop H hist i (start + timeout) start 0"

section \<open>Lemmas: files\<close>

lemma file_path: "has_suffix name ''.json'' \<Longrightarrow> pendingPath (file_id name) = name \<and> responsePath (file_id name) = name"
  by (auto simp: pendingPath_def responsePath_def file_id_def trim_suffix_def has_suffix_def suffix_def)

lemma path_file [simp]: "file_id (pendingPath i) = i"
  by (simp add: file_id_def pendingPath_def trim_suffix_def suffix_def)

lemma path_inj [simp]: "pendingPath i = pendingPath j \<longleftrightarrow> i = j" "responsePath i = responsePath j \<longleftrightarrow> i = j"
  by (simp_all add: pendingPath_def responsePath_def)

lemma json_names_set: "name \<in> set (json_names m) \<longleftrightarrow> has_suffix name ''.json'' \<and> ghas m name"
  by (auto simp: json_names_def ghas_iff)

text \<open>The number of unresolved requests, whatever the order of the directory.\<close>

definition unresolved_name :: "approvals \<Rightarrow> string \<Rightarrow> bool" where
  "unresolved_name s name \<longleftrightarrow> has_suffix name ''.json'' \<and> \<not> ghas (ap_Responses s) name"

lemma Unresolved_keys: "Unresolved s = length (filter (unresolved_name s) (keys (ap_Pending s)))"
proof -
  have "Unresolved s = length (filter (unresolved_name s) (sort (keys (ap_Pending s))))"
    unfolding Unresolved_def json_names_def filter_filter unresolved_name_def
    by (intro arg_cong [of _ _ length] filter_cong) (auto simp: file_path)
  then show ?thesis by (metis mset_filter mset_sort size_mset)
qed

lemma keys_gdel: "keys (gdel k m) = filter (\<lambda>x. x \<noteq> k) (keys m)"
  by (induction m) auto

lemma ghas_gput [simp]: "ghas (gput k v m) k' \<longleftrightarrow> k' = k \<or> ghas m k'"
  by (simp add: ghas_def)

lemma ghas_gdel [simp]: "ghas (gdel k m) k' \<longleftrightarrow> k' \<noteq> k \<and> ghas m k'"
  by (simp add: ghas_def)

lemma length_filter_mono: "(\<And>x. x \<in> set xs \<Longrightarrow> P x \<Longrightarrow> Q x) \<Longrightarrow> length (filter P xs) \<le> length (filter Q xs)"
  by (induction xs) auto

section \<open>Lemmas: reaping\<close>

lemma reapable_resolved: "reapable now ttl s name \<Longrightarrow> \<exists>r. readResolution s (file_id name) = Inr (Some r)"
  by (auto simp: reapable_def split: sum.splits option.splits)

lemma reap_one_unresolved:
  assumes "has_suffix name ''.json''"
  shows "Unresolved (reap_one now ttl name s) = Unresolved s"
proof (cases "reapable now ttl s name")
  case True
  let ?s = "reap_one now ttl name s"
  have n: "pendingPath (file_id name) = name" "responsePath (file_id name) = name" using file_path [OF assms] by simp_all
  have s: "?s = \<lparr>ap_Pending = gdel name (ap_Pending s), ap_Responses = gdel name (ap_Responses s)\<rparr>"
    using True n by (simp add: reap_one_def)
  have "ghas (ap_Responses s) name"
    using reapable_resolved [OF True] n by (auto simp: readResolution_def ghas_def split: option.splits)
  then have "filter (unresolved_name ?s) (keys (ap_Pending ?s)) = filter (unresolved_name s) (keys (ap_Pending s))"
    unfolding s by (auto simp: keys_gdel filter_filter unresolved_name_def intro!: filter_cong)
  then show ?thesis by (simp add: Unresolved_keys)
qed (simp add: reap_one_def)

lemma reap_one_get: "gget (ap_Pending (reap_one now ttl name s)) n =
    (if reapable now ttl s name \<and> n = pendingPath (file_id name) then None else gget (ap_Pending s) n)"
  "gget (ap_Responses (reap_one now ttl name s)) n =
    (if reapable now ttl s name \<and> n = responsePath (file_id name) then None else gget (ap_Responses s) n)"
  by (simp_all add: reap_one_def)

lemma reap_unresolved: "Unresolved (reapResolved now ttl s) = Unresolved s"
proof -
  have "\<forall>n \<in> set names. has_suffix n ''.json'' \<Longrightarrow> Unresolved (fold (reap_one now ttl) names s) = Unresolved s" for names
    by (induction names arbitrary: s) (simp_all add: reap_one_unresolved)
  then show ?thesis by (simp add: reapResolved_def json_names_def)
qed

text \<open>Reaping keeps both files of a request, or removes both.\<close>

lemma reap_keeps: "gget (ap_Pending (reapResolved now ttl s)) (pendingPath i) = gget (ap_Pending s) (pendingPath i) \<and>
     gget (ap_Responses (reapResolved now ttl s)) (responsePath i) = gget (ap_Responses s) (responsePath i) \<or>
   gget (ap_Pending (reapResolved now ttl s)) (pendingPath i) = None"
proof -
  have p: "pendingPath i = responsePath i" for i by (simp add: pendingPath_def responsePath_def)
  have "gget (ap_Pending (fold (reap_one now ttl) names s)) (pendingPath i) = gget (ap_Pending s) (pendingPath i) \<and>
       gget (ap_Responses (fold (reap_one now ttl) names s)) (responsePath i) = gget (ap_Responses s) (responsePath i) \<or>
     gget (ap_Pending (fold (reap_one now ttl) names s)) (pendingPath i) = None" for names
  proof (induction names arbitrary: s)
    case (Cons n names)
    show ?case using Cons.IH [of "reap_one now ttl n s"] by (auto simp: reap_one_get p split: if_splits)
  qed simp
  then show ?thesis by (simp add: reapResolved_def)
qed

lemma reap_gone: "gget (ap_Pending s) n = None \<Longrightarrow> gget (ap_Pending (reapResolved now ttl s)) n = None"
proof -
  have "gget (ap_Pending s) n = None \<Longrightarrow> gget (ap_Pending (fold (reap_one now ttl) names s)) n = None" for names
    by (induction names arbitrary: s) (simp_all add: reap_one_get)
  then show "gget (ap_Pending s) n = None \<Longrightarrow> gget (ap_Pending (reapResolved now ttl s)) n = None" by (simp add: reapResolved_def)
qed

section \<open>Lemmas: operations\<close>

text \<open>What creating a request does to the directories after reaping: nothing, or one new pending file.\<close>

lemma Create_effect:
  assumes "pending_Create L H now maxPending rnd s0 req0 = (s', r)"
  shows "s' = reapResolved now resolvedReapTTL s0 \<or>
    (\<exists>req. (pr_ID req = (if pr_ID req0 = [] then NewID rnd else pr_ID req0)) \<and> r = Inr req \<and>
       \<not> ghas (ap_Pending (reapResolved now resolvedReapTTL s0)) (pendingPath (pr_ID req)) \<and>
       (0 < maxPending \<longrightarrow> int (Unresolved (reapResolved now resolvedReapTTL s0)) < maxPending) \<and>
       s' = (reapResolved now resolvedReapTTL s0)\<lparr>ap_Pending :=
         gput (pendingPath (pr_ID req)) (Some req, now) (ap_Pending (reapResolved now resolvedReapTTL s0))\<rparr>)"
  using assms by (auto simp: pending_Create_def Let_def completed_request_def split: option.splits if_splits)

lemma Create_unresolved:
  assumes "pending_Create L H now maxPending rnd s0 req0 = (s', r)" and "0 < maxPending" and "int (Unresolved s0) \<le> maxPending"
  shows "int (Unresolved s') \<le> maxPending"
proof -
  let ?s = "reapResolved now resolvedReapTTL s0"
  from Create_effect [OF assms(1)] consider "s' = ?s"
    | req where "\<not> ghas (ap_Pending ?s) (pendingPath (pr_ID req))" "int (Unresolved ?s) < maxPending"
      "s' = ?s\<lparr>ap_Pending := gput (pendingPath (pr_ID req)) (Some req, now) (ap_Pending ?s)\<rparr>" using assms(2) by auto
  then show ?thesis
  proof cases
    case 2
    then have "keys (ap_Pending s') = keys (ap_Pending ?s) @ [pendingPath (pr_ID req)]"
      by (simp add: update_keys ghas_iff)
    moreover have "unresolved_name s' = unresolved_name ?s" using 2(3) by (simp add: unresolved_name_def [abs_def])
    ultimately have "Unresolved s' \<le> Suc (Unresolved ?s)" by (simp add: Unresolved_keys)
    then show ?thesis using 2(2) by simp
  qed (use assms(3) in \<open>simp add: reap_unresolved\<close>)
qed

lemma Resolve_unresolved: "pending_Resolve H now s req verdict scope = (s', r) \<Longrightarrow> Unresolved s' \<le> Unresolved s"
  by (auto simp: pending_Resolve_def Let_def Unresolved_keys unresolved_name_def intro!: length_filter_mono split: if_splits)

text \<open>A status depends on the two files of its request only.\<close>

lemma Status_cong:
  assumes "gget (ap_Pending s') (pendingPath i) = gget (ap_Pending s) (pendingPath i)"
    and "gget (ap_Responses s') (responsePath i) = gget (ap_Responses s) (responsePath i)"
  shows "pending_Status H s' i = pending_Status H s i"
  using assms by (simp add: pending_Status_def pending_Get_def readResolution_def)

lemma Status_gone: "gget (ap_Pending s) (pendingPath i) = None \<Longrightarrow> pending_Status H s i =
   Inl (if validApprovalID i then ErrPendingNotFound else ErrInvalidID)"
  by (simp add: pending_Status_def pending_Get_def)

lemma decided_has_response: "pending_Status H s i = Inr r \<Longrightarrow> decided r \<Longrightarrow> ghas (ap_Responses s) (responsePath i)"
  by (auto simp: pending_Status_def rbind_iffs readResolution_def ghas_def pending_status_def decided_def split: option.splits)

section \<open>Runs\<close>

text \<open>Any sequence of operations by requesters and operators, in any order of their locked steps.\<close>

inductive approvals_run :: "libs \<Rightarrow> (string \<Rightarrow> string) \<Rightarrow> int \<Rightarrow> approvals \<Rightarrow> string set \<Rightarrow> approvals \<Rightarrow> bool"
  for L H maxPending s where
  ar_start: "approvals_run L H maxPending s {} s"
| ar_create: "approvals_run L H maxPending s made s1 \<Longrightarrow> pending_Create L H now maxPending rnd s1 req = (s2, r) \<Longrightarrow>
    approvals_run L H maxPending s (insert (if pr_ID req = [] then NewID rnd else pr_ID req) made) s2"
| ar_list: "approvals_run L H maxPending s made s1 \<Longrightarrow> pending_List H now s1 = (s2, reqs) \<Longrightarrow> approvals_run L H maxPending s made s2"
| ar_resolve: "approvals_run L H maxPending s made s1 \<Longrightarrow> pending_Resolve H now s1 req verdict scope = (s2, r) \<Longrightarrow>
    approvals_run L H maxPending s made s2"

lemma List_state: "fst (pending_List H now s) = reapResolved now resolvedReapTTL s"
  by (simp add: pending_List_def Let_def)

section \<open>Lemmas: digests and look-ups\<close>

lemma split_join: "ws \<noteq> [] \<Longrightarrow> \<forall>w \<in> set ws. c \<notin> set w \<Longrightarrow> split_on c (str_join ws [c]) = ws"
  by (induction ws rule: induct_list012) (simp_all add: split_on_no split_on_sep)

lemma join_inj: "str_join ws [c] = str_join vs [c] \<Longrightarrow> ws \<noteq> [] \<Longrightarrow> vs \<noteq> [] \<Longrightarrow>
   \<forall>w \<in> set ws. c \<notin> set w \<Longrightarrow> \<forall>w \<in> set vs. c \<notin> set w \<Longrightarrow> ws = vs"
  by (metis split_join)

text \<open>The texts a digest is made of can be told apart.\<close>

definition no_nul :: "PendingRequest \<Rightarrow> string \<Rightarrow> bool" where
  "no_nul req scope \<longleftrightarrow> (\<forall>w \<in> set (digest_parts req scope). CHR 0x00 \<notin> set w)"

lemma digest_parts_inj:
  assumes "str_join (digest_parts req scope) [CHR 0x00] = str_join (digest_parts req' scope') [CHR 0x00]"
    and "no_nul req scope" and "no_nul req' scope'"
  shows "scope = scope' \<and> pr_ID req = pr_ID req' \<and> pr_ReqID req = pr_ReqID req' \<and> pr_SessionID req = pr_SessionID req' \<and>
    pr_Host req = pr_Host req' \<and> pr_CmdSHA256 req = pr_CmdSHA256 req' \<and> pr_MatcherSHA256 req = pr_MatcherSHA256 req' \<and>
    pr_StdinSHA256 req = pr_StdinSHA256 req'"
proof -
  have "digest_parts req scope = digest_parts req' scope'"
    by (rule join_inj [OF assms(1)]) (use assms(2,3) in \<open>auto simp: no_nul_def digest_parts_def\<close>)
  then show ?thesis by (auto simp: digest_parts_def split: if_splits)
qed

lemma findLoop_Some: "findLoop H s same names = Some req \<Longrightarrow>
   same req \<and> pending_Get H s (pr_ID req) = Inr req \<and> readResolution s (pr_ID req) = Inr None"
proof (induction names)
  case (Cons n names)
  show ?case
  proof (cases "pending_Get H s (file_id n)")
    case (Inl e)
    then show ?thesis using Cons by simp
  next
    case (Inr r)
    then have "pr_ID r = file_id n" by (auto simp: pending_Get_def split: if_splits option.splits)
    then show ?thesis using Cons Inr by (auto split: if_splits)
  qed
qed simp

text \<open>What \<open>Wait\<close> returns is the status at some poll, and why it stopped there.\<close>

lemma waitLoop_result: "\<exists>t'. t \<le> t' \<and> (t' \<le> t \<or> t' < deadline + 800000000) \<and>
   waitLoop H hist i deadline t k = pending_Status H (hist t') i \<and>
   (deadline \<le> t' \<or> (case pending_Status H (hist t') i of Inl _ \<Rightarrow> True | Inr r \<Rightarrow> decided r))"
proof (induction H hist i deadline t k rule: waitLoop.induct)
  case (1 H hist i deadline t k)
  consider e where "pending_Status H (hist t) i = Inl e" | r where "pending_Status H (hist t) i = Inr r" "decided r \<or> deadline \<le> t"
    | r where "pending_Status H (hist t) i = Inr r" "\<not> decided r" "t < deadline"
    by (cases "pending_Status H (hist t) i") (blast, metis not_less)
  then show ?case
  proof cases
    case 1
    then show ?thesis by (intro exI [of _ t]) (simp add: waitLoop.simps)
  next
    case 2
    then show ?thesis by (intro exI [of _ t]) (auto simp: waitLoop.simps)
  next
    case 3
    have "waitLoop H hist i deadline t k = waitLoop H hist i deadline (t + wait_sleep k) (Suc k)"
      using 3 by (simp add: waitLoop.simps [of H hist i deadline t k])
    moreover have "t + wait_sleep k < deadline + 800000000" using 3(3) wait_sleep_bounds(2) [of k] by linarith
    moreover obtain t' where "t + wait_sleep k \<le> t'" "t' \<le> t + wait_sleep k \<or> t' < deadline + 800000000"
      "waitLoop H hist i deadline (t + wait_sleep k) (Suc k) = pending_Status H (hist t') i"
      "deadline \<le> t' \<or> (case pending_Status H (hist t') i of Inl _ \<Rightarrow> True | Inr r \<Rightarrow> decided r)"
      using "1.IH" [OF 3(2)] 3(3) by blast
    ultimately show ?thesis by (intro exI [of _ t']) auto
  qed
qed

section \<open>Properties\<close>

text \<open>C29. With a cap set, the requests awaiting a decision never exceed it, whatever requesters and operators do.\<close>

theorem pending_cap:
  assumes "approvals_run L H maxPending s made s'" and "0 < maxPending" and "int (Unresolved s) \<le> maxPending"
  shows "int (Unresolved s') \<le> maxPending"
  using assms(1)
proof (induction rule: approvals_run.induct)
  case (ar_create made s1 now rnd req s2 r)
  then show ?case using Create_unresolved assms(2) by blast
next
  case (ar_list made s1 now s2 reqs)
  then show ?case using List_state [of H now s1] by (simp add: reap_unresolved)
next
  case (ar_resolve made s1 now req verdict scope s2 r)
  then show ?case using Resolve_unresolved by fastforce
qed (use assms(3) in simp)

text \<open>A decision is final: whatever happens afterwards, the status of a decided request stays what it is
  until the request is reaped, unless its identifier is used again.\<close>

theorem decision_final:
  assumes "approvals_run L H maxPending s made s'" and "i \<notin> made" and "pending_Status H s i = Inr r" and "decided r"
  shows "pending_Status H s' i = Inr r \<or> pending_Status H s' i = Inl ErrPendingNotFound"
proof -
  have v: "validApprovalID i" using assms(3) by (auto simp: pending_Status_def pending_Get_def split: if_splits)
  have resp: "ghas (ap_Responses s) (responsePath i)" using decided_has_response [OF assms(3,4)] .
  have "gget (ap_Pending s') (pendingPath i) = gget (ap_Pending s) (pendingPath i) \<and>
      gget (ap_Responses s') (responsePath i) = gget (ap_Responses s) (responsePath i) \<or>
    gget (ap_Pending s') (pendingPath i) = None"
    using assms(1,2)
  proof (induction rule: approvals_run.induct)
    case (ar_create made s1 now rnd req s2 r)
    let ?s = "reapResolved now resolvedReapTTL s1"
    have "gget (ap_Pending s2) (pendingPath i) = gget (ap_Pending ?s) (pendingPath i) \<and> ap_Responses s2 = ap_Responses ?s"
      using Create_effect [OF ar_create.hyps(2)] ar_create.prems by auto
    then show ?case using ar_create.IH ar_create.prems reap_keeps [of now resolvedReapTTL s1 i] reap_gone [of s1 "pendingPath i"] by auto
  next
    case (ar_list made s1 now s2 reqs)
    then show ?case using List_state [of H now s1] reap_keeps [of now resolvedReapTTL s1 i] reap_gone [of s1 "pendingPath i"] by auto
  next
    case (ar_resolve made s1 now req verdict scope s2 r)
    then show ?case using resp by (auto simp: pending_Resolve_def Let_def ghas_def split: if_splits)
  qed simp
  then show ?thesis using Status_cong [of s' i s H] Status_gone [of s' i H] v assms(3) by auto
qed

text \<open>C28. A decision counts only for the request it was made on: unless SHA-256 collides on the two digest
  texts, the stored request has the identifiers, session, host, command, matcher and stdin digests and
  the scope the operator decided on.\<close>

theorem decision_binds_request:
  assumes "pending_Status H s i = Inr r" and "decided r"
    and "gget (ap_Responses s) (responsePath i) = Some (Some (new_resolution H now req0 verdict scope))"
    and "pending_Get H s i = Inr req" and "no_nul req0 scope" and "no_nul req scope"
    and "\<And>a b. a = str_join (digest_parts req0 scope) [CHR 0x00] \<Longrightarrow> b = str_join (digest_parts req scope) [CHR 0x00] \<Longrightarrow> H a = H b \<Longrightarrow> a = b"
  shows "st_Scope r = scope \<and> st_Verdict r = verdict \<and> pr_ID req = pr_ID req0 \<and> pr_ReqID req = pr_ReqID req0 \<and>
    pr_SessionID req = pr_SessionID req0 \<and> pr_Host req = pr_Host req0 \<and> pr_CmdSHA256 req0 = H (pr_Cmd req) \<and>
    pr_MatcherSHA256 req0 = matcher_SHA256 H (pr_Candidate req) \<and> pr_StdinSHA256 req = pr_StdinSHA256 req0"
proof -
  have res: "readResolution s i = Inr (Some (new_resolution H now req0 verdict scope))" "RequestDigest H req0 scope = RequestDigest H req scope"
    "st_Scope r = scope" "st_Verdict r = verdict"
    using assms(1-4) by (auto simp: pending_Status_def rbind_iffs pending_status_def decided_def readResolution_def new_resolution_def split: if_splits)
  then have "str_join (digest_parts req0 scope) [CHR 0x00] = str_join (digest_parts req scope) [CHR 0x00]"
    using assms(7) [OF refl refl] by (simp add: RequestDigest_def)
  from digest_parts_inj [OF this assms(5,6)] show ?thesis using res assms(4)
    by (auto simp: pending_Get_def split: if_splits option.splits)
qed

text \<open>The request a creation answers with, new or already waiting, is stored, reads back unchanged and is
  for the session, host, command and stdin asked for.\<close>

theorem created_request_stored:
  assumes "pending_Create L H now maxPending rnd s req0 = (s', Inr req)"
  shows "pending_Get H s' (pr_ID req) = Inr req \<and> pr_SessionID req = pr_SessionID req0 \<and> pr_Host req = pr_Host req0 \<and>
    pr_CmdSHA256 req = H (pr_Cmd req0) \<and> pr_StdinSHA256 req = pr_StdinSHA256 req0 \<and> pr_StdinBytes req = pr_StdinBytes req0"
proof -
  let ?s = "reapResolved now resolvedReapTTL s"
  consider (old) "findUnresolved H ?s (pr_SessionID req0) (pr_Host req0) (H (pr_Cmd req0)) (pr_StdinSHA256 req0) (pr_StdinBytes req0) = Some req" "s' = ?s"
    | (new) req1 where "req = completed_request L H now req1" "validApprovalID (pr_ID req1)" "req1 = req0\<lparr>pr_ID := pr_ID req1\<rparr>"
      "s' = ?s\<lparr>ap_Pending := gput (pendingPath (pr_ID req1)) (Some req, now) (ap_Pending ?s)\<rparr>"
    using assms by (auto simp: pending_Create_def Let_def split: option.splits if_splits)
  then show ?thesis
  proof cases
    case old
    from findLoop_Some [OF old(1) [unfolded findUnresolved_def]] show ?thesis
      by (simp add: old(2) same_request_def)
  next
    case new
    have "pr_SessionID req1 = pr_SessionID req0 \<and> pr_Host req1 = pr_Host req0 \<and> pr_Cmd req1 = pr_Cmd req0 \<and>
        pr_StdinSHA256 req1 = pr_StdinSHA256 req0 \<and> pr_StdinBytes req1 = pr_StdinBytes req0"
      by (subst (1 2 3 4 5) new(3)) simp
    then show ?thesis using new(1,2,4) by (simp add: pending_Get_def completed_request_def)
  qed
qed

text \<open>C38. Waiting ends, at most 800 milliseconds after the deadline, and it does not miss a decision: one that is
  there by the deadline and stays is what it returns.\<close>

theorem wait_returns_decision:
  assumes "\<forall>t \<ge> t0. pending_Status H (hist t) i = Inr r" and "decided r"
    and "\<forall>t < t0. \<exists>r'. pending_Status H (hist t) i = Inr r'" and "t0 \<le> start + timeout"
  shows "\<exists>r' t'. pending_Wait H hist i start timeout = Inr r' \<and> decided r' \<and> pending_Status H (hist t') i = Inr r' \<and>
    start \<le> t' \<and> (t' \<le> start \<or> t' < start + timeout + 800000000)"
proof -
  from waitLoop_result [of start "start + timeout" H hist i 0] obtain t' where t: "start \<le> t'" "t' \<le> start \<or> t' < start + timeout + 800000000"
    "pending_Wait H hist i start timeout = pending_Status H (hist t') i"
    "start + timeout \<le> t' \<or> (case pending_Status H (hist t') i of Inl _ \<Rightarrow> True | Inr r \<Rightarrow> decided r)"
    unfolding pending_Wait_def by blast
  show ?thesis
  proof (cases "t0 \<le> t'")
    case True
    then show ?thesis using t assms(1,2) by auto
  next
    case False
    then have r: "\<exists>r'. pending_Status H (hist t') i = Inr r'" "\<not> start + timeout \<le> t'" using assms(3,4) by simp_all
    then obtain r' where "pending_Status H (hist t') i = Inr r'" by blast
    then show ?thesis using t r(2) by (intro exI [of _ r'] exI [of _ t']) auto
  qed
qed

section \<open>A concrete request\<close>

definition one_digest :: "string \<Rightarrow> string" where "one_digest s = ''d''"

definition ls_id :: string where "ls_id = ''ap_aaaaaaaaaaaaaaaaaaaaaaaa''"

definition ls_request :: PendingRequest where
  "ls_request = \<lparr>pr_Version = 1, pr_ID = ls_id, pr_ReqID = ''q1'', pr_SessionID = ''s'', pr_Host = ''web'', pr_Cmd = ''ls'',
     pr_CmdSHA256 = ''d'', pr_Candidate = ls_matcher, pr_MatcherSHA256 = ''d'', pr_Kind = MatcherExact, pr_Promotable = True,
     pr_TS = format_time 0, pr_ProposedScopes = [ScopeOnce, ScopeSession, ScopeHost], pr_StdinSHA256 = [], pr_StdinBytes = 0,
     pr_PlanID = [], pr_PlanSeq = 0, pr_PlanTotal = 0\<rparr>"

definition ls_pending :: "Resolution option gomap \<Rightarrow> approvals" where
  "ls_pending rs = \<lparr>ap_Pending = [(pendingPath ls_id, (Some ls_request, 0))], ap_Responses = rs\<rparr>"

definition ls_decided :: approvals where
  "ls_decided = ls_pending [(responsePath ls_id, Some (new_resolution one_digest 0 ls_request VerdictApproved ScopeOnce))]"

definition ls_approved :: StatusResult where
  "ls_approved = \<lparr>st_ID = ls_id, st_Verdict = VerdictApproved, st_Scope = ScopeOnce, st_Status = ''approved'', st_Request = Some ls_request\<rparr>"

lemma ls_id_valid: "validApprovalID ls_id"
  by (simp add: validApprovalID_def validPrefixedID_def ls_id_def has_prefix_def id_char_def)

lemma ls_Get: "pending_Get one_digest (ls_pending rs) ls_id = Inr ls_request"
  by (simp add: pending_Get_def ls_id_valid ls_pending_def) (simp add: ls_request_def one_digest_def matcher_SHA256_def)

lemma ls_request_id: "pr_ID ls_request = ls_id"
  by (simp add: ls_request_def)

lemma ls_Get_decided: "pending_Get one_digest ls_decided ls_id = Inr ls_request"
  by (simp add: ls_decided_def ls_Get)

lemma ls_Status: "pending_Status one_digest ls_decided ls_id = Inr ls_approved"
  by (simp add: pending_Status_def ls_Get_decided)
    (simp add: readResolution_def ls_decided_def ls_pending_def new_resolution_def ls_request_id ls_approved_def)

lemma ls_approved_decided: "decided ls_approved"
  by (simp add: decided_def ls_approved_def)

lemma ls_no_nul: "no_nul ls_request ScopeOnce"
  by (simp add: no_nul_def digest_parts_def ls_request_def ls_id_def ScopeOnce_def)

definition no_approvals :: approvals where "no_approvals = \<lparr>ap_Pending = [], ap_Responses = []\<rparr>"

lemma ls_created: "\<exists>s' r. pending_Create no_libs one_digest 0 1 [] no_approvals ls_request = (s', Inr r)"
proof -
  have "reapResolved 0 resolvedReapTTL no_approvals = no_approvals"
    by (simp add: reapResolved_def no_approvals_def json_names_def)
  moreover have "findUnresolved H no_approvals a b c d e = None" for H a b c d e
    by (simp add: findUnresolved_def no_approvals_def json_names_def)
  moreover have "Unresolved no_approvals = 0" by (simp add: Unresolved_def no_approvals_def json_names_def)
  moreover have "pr_ID ls_request \<noteq> []" by (simp add: ls_request_id ls_id_def)
  ultimately show ?thesis
    by (simp add: pending_Create_def Let_def ls_request_id ls_id_valid) (simp add: no_approvals_def ghas_def)
qed

theorem pending_cap_witness: "int (Unresolved (fst (pending_Create no_libs one_digest 0 1 [] no_approvals ls_request))) \<le> 1"
proof -
  obtain s' r where c: "pending_Create no_libs one_digest 0 1 [] no_approvals ls_request = (s', r)" by fastforce
  have "int (Unresolved no_approvals) \<le> 1" by (simp add: Unresolved_def no_approvals_def json_names_def)
  from pending_cap [OF ar_create [OF ar_start c] _ this] show ?thesis by (simp add: c)
qed

theorem decision_final_witness:
  "pending_Status one_digest (fst (pending_Resolve one_digest 5 ls_decided ls_request VerdictDenied [])) ls_id = Inr ls_approved \<or>
   pending_Status one_digest (fst (pending_Resolve one_digest 5 ls_decided ls_request VerdictDenied [])) ls_id = Inl ErrPendingNotFound"
proof -
  obtain s' r where c: "pending_Resolve one_digest 5 ls_decided ls_request VerdictDenied [] = (s', r)" by fastforce
  from decision_final [OF ar_resolve [OF ar_start [of no_libs one_digest 0] c] _ ls_Status ls_approved_decided] show ?thesis by (simp add: c)
qed

theorem decision_binds_request_witness: "pr_MatcherSHA256 ls_request = matcher_SHA256 one_digest (pr_Candidate ls_request)"
proof -
  have "gget (ap_Responses ls_decided) (responsePath ls_id) = Some (Some (new_resolution one_digest 0 ls_request VerdictApproved ScopeOnce))"
    by (simp add: ls_decided_def ls_pending_def)
  from decision_binds_request [OF ls_Status ls_approved_decided this ls_Get_decided ls_no_nul ls_no_nul] show ?thesis by blast
qed

theorem created_request_stored_witness:
  "\<exists>s' r. pending_Create no_libs one_digest 0 1 [] no_approvals ls_request = (s', Inr r) \<and> pending_Get one_digest s' (pr_ID r) = Inr r"
  using ls_created created_request_stored by blast

theorem wait_returns_decision_witness:
  "\<exists>r'. pending_Wait one_digest (\<lambda>t. if t < 5 then ls_pending [] else ls_decided) ls_id 0 1000000000 = Inr r' \<and> decided r'"
proof -
  have "pending_Status one_digest (ls_pending []) ls_id = Inr (pending_status ls_id ls_request)"
    by (simp add: pending_Status_def ls_Get) (simp add: readResolution_def ls_pending_def)
  then show ?thesis
    using wait_returns_decision [of 5 one_digest "\<lambda>t. if t < 5 then ls_pending [] else ls_decided" ls_id ls_approved 0 1000000000]
      ls_Status ls_approved_decided by auto
qed

end
