(* ===== verification/ApprovalPlan.thy ===== *)
theory ApprovalPlan
  imports Request
begin

text \<open>
  \<open>internal/approval/plan.go\<close>: plans, the review units of several requests. The directory of plans is
  a map from file names to contents with their modification times, as for requests; a step or member
  list that is empty is the nil slice. The digest of a manifest is SHA-256 of its JSON text. A manifest
  is written as JSON and parsed when it is read: what is on disk is \<open>manifest_back\<close> of what was written,
  where bytes that are not UTF-8 have become replacement characters. The decision on a plan is in the
  theory of the decisions.
\<close>

section \<open>Documents\<close>

record PlanMetadata =
  md_Title :: string
  md_Version :: string
  md_Revision :: string
  md_Description :: string
  md_Impact :: string
  md_Recovery :: string

record PlanReviewStep =
  sp_Seq :: int
  sp_ID :: string
  sp_Name :: string
  sp_Phase :: string
  sp_OnFailure :: string
  sp_Cmd :: string
  sp_Status :: string
  sp_PolicyRule :: string
  sp_ApprovalID :: string
  sp_StdinSHA256 :: string
  sp_StdinBytes :: int
  sp_PayloadRef :: string
  sp_PayloadRetained :: bool
  sp_Task :: "TaskPermission option"
  sp_AlreadyAuthorized :: bool

record PlanReview =
  rv_Version :: int
  rv_PlanID :: string
  rv_ExecutionID :: string
  rv_SessionID :: string
  rv_Host :: string
  rv_Metadata :: PlanMetadata
  rv_Steps :: "PlanReviewStep list"

record PlanManifest =
  pm_Version :: int
  pm_ID :: string
  pm_SessionID :: string
  pm_Host :: string
  pm_TS :: string
  pm_ExecutionID :: string
  pm_Metadata :: PlanMetadata
  pm_Review :: "PlanReview option"
  pm_ReviewSHA256 :: string
  pm_MemberIDs :: "string list"

record PlanMember =
  mb_ApprovalID :: string
  mb_Status :: string
  mb_Scope :: string
  mb_Request :: "PendingRequest option"

record PlanStatus =
  ps_ID :: string
  ps_SessionID :: string
  ps_Host :: string
  ps_ExecutionID :: string
  ps_Metadata :: PlanMetadata
  ps_Review :: "PlanReview option"
  ps_ReviewSHA256 :: string
  ps_Status :: string
  ps_Pending :: nat
  ps_Approved :: nat
  ps_Denied :: nat
  ps_Expired :: nat
  ps_Members :: "PlanMember list"

text \<open>The directory of plans; an empty name is one that is not configured.\<close>

record plan_store =
  pl_Dir :: string
  pl_Files :: "(PlanManifest option \<times> instant) gomap"

definition ErrInvalidPlanID :: error where "ErrInvalidPlanID = Sentinel ''ErrInvalidPlanID''"
definition ErrPlanNotFound :: error where "ErrPlanNotFound = Sentinel ''ErrPlanNotFound''"
definition ErrPlanScope :: error where "ErrPlanScope = Sentinel ''ErrPlanScope''"
definition ErrPlanNoPending :: error where "ErrPlanNoPending = Sentinel ''ErrPlanNoPending''"
definition ErrPlansDirUnset :: error where "ErrPlansDirUnset = Sentinel ''ErrPlansDirUnset''"
definition ErrPlanDigest :: error where "ErrPlanDigest = Sentinel ''ErrPlanDigest''"

definition NewPlanID :: "string \<Rightarrow> string" where
  "NewPlanID rnd = newPrefixedID ''pl_'' rnd"

definition ValidPlanID :: "string \<Rightarrow> bool" where
  "ValidPlanID i = validPrefixedID i ''pl_''"

definition planPath :: "string \<Rightarrow> string" where "planPath i = i @ ''.json''"

definition no_metadata :: PlanMetadata where
  "no_metadata = \<lparr>md_Title = [], md_Version = [], md_Revision = [], md_Description = [], md_Impact = [], md_Recovery = []\<rparr>"

definition isZeroMetadata :: "PlanMetadata \<Rightarrow> bool" where
  "isZeroMetadata m \<longleftrightarrow> m = no_metadata"

section \<open>Digests\<close>

definition json_list :: "string list \<Rightarrow> string" where
  "json_list xs = (if xs = [] then ''null'' else ''['' @ str_join xs '','' @ '']'')"

definition list_opt :: "string \<Rightarrow> string list \<Rightarrow> string \<times> string option" where
  "list_opt n xs = (n, if xs = [] then None else Some (json_list (map json_string xs)))"

definition bool_opt :: "string \<Rightarrow> bool \<Rightarrow> string \<times> string option" where
  "bool_opt n b = (n, if b then Some (json_bool b) else None)"

definition int_opt :: "string \<Rightarrow> int \<Rightarrow> string \<times> string option" where
  "int_opt n i = (n, if i = 0 then None else Some (int_dec i))"

definition metadata_json :: "PlanMetadata \<Rightarrow> string" where
  "metadata_json m = json_object
     [field_opt ''title'' (md_Title m), field_opt ''version'' (md_Version m), field_opt ''revision'' (md_Revision m),
      field_opt ''description'' (md_Description m), field_opt ''impact'' (md_Impact m), field_opt ''recovery'' (md_Recovery m)]"

definition permission_json :: "TaskPermission \<Rightarrow> string" where
  "permission_json p = json_object
     [field ''version'' (int_dec (tp_Version p)), field ''profile'' (json_string (tp_Profile p)), field_opt ''cwd'' (tp_CWD p),
      list_opt ''launcher'' (tp_Launcher p), list_opt ''resources'' (tp_Resources p), list_opt ''compose'' (tp_Compose p)]"

definition step_json :: "PlanReviewStep \<Rightarrow> string" where
  "step_json s = json_object
     [field ''seq'' (int_dec (sp_Seq s)), field ''id'' (json_string (sp_ID s)), field_opt ''name'' (sp_Name s),
      field_opt ''phase'' (sp_Phase s), field_opt ''on_failure'' (sp_OnFailure s), field ''cmd'' (json_string (sp_Cmd s)),
      field ''status'' (json_string (sp_Status s)), field_opt ''policy_rule'' (sp_PolicyRule s),
      field_opt ''approval_id'' (sp_ApprovalID s), field_opt ''stdin_sha256'' (sp_StdinSHA256 s), int_opt ''stdin_bytes'' (sp_StdinBytes s),
      field_opt ''payload_ref'' (sp_PayloadRef s), bool_opt ''payload_retained'' (sp_PayloadRetained s),
      (''task_permission'', map_option permission_json (sp_Task s)), bool_opt ''already_authorized'' (sp_AlreadyAuthorized s)]"

definition review_json :: "PlanReview \<Rightarrow> string" where
  "review_json r = json_object
     [field ''version'' (int_dec (rv_Version r)), field_opt ''plan_id'' (rv_PlanID r), field_opt ''execution_id'' (rv_ExecutionID r),
      field ''session_id'' (json_string (rv_SessionID r)), field ''host'' (json_string (rv_Host r)),
      field ''metadata'' (metadata_json (rv_Metadata r)), field ''steps'' (json_list (map step_json (rv_Steps r)))]"

definition PlanReviewDigest :: "(string \<Rightarrow> string) \<Rightarrow> PlanReview \<Rightarrow> string" where
  "PlanReviewDigest H review = H (review_json (review\<lparr>rv_Version := 1\<rparr>))"

definition manifest_json :: "PlanManifest \<Rightarrow> string" where
  "manifest_json m = json_object
     [field ''id'' (json_string (pm_ID m)), field ''session_id'' (json_string (pm_SessionID m)), field ''host'' (json_string (pm_Host m)),
      field_opt ''execution_id'' (pm_ExecutionID m), field ''metadata'' (metadata_json (pm_Metadata m)),
      field ''member_ids'' (json_list (map json_string (pm_MemberIDs m))),
      field ''review'' (case pm_Review m of None \<Rightarrow> ''null'' | Some r \<Rightarrow> review_json r)]"

definition PlanManifestReviewDigest :: "(string \<Rightarrow> string) \<Rightarrow> PlanManifest \<Rightarrow> string" where
  "PlanManifestReviewDigest H m = H (manifest_json m)"

definition step_approvals :: "PlanReview \<Rightarrow> string list" where
  "step_approvals r = filter (\<lambda>i. i \<noteq> []) (map sp_ApprovalID (rv_Steps r))"

definition manifestReviewMatchesEnvelope :: "PlanManifest \<Rightarrow> bool" where
  "manifestReviewMatchesEnvelope m = (case pm_Review m of
     None \<Rightarrow> True
   | Some r \<Rightarrow> \<not> (rv_PlanID r \<noteq> pm_ID m \<or> rv_SessionID r \<noteq> pm_SessionID m \<or> rv_Host r \<noteq> pm_Host m) \<and>
       (isZeroMetadata (pm_Metadata m) \<or> rv_Metadata r = pm_Metadata m) \<and>
       set (pm_MemberIDs m) = set (step_approvals r))"

section \<open>What reads back\<close>

text \<open>The texts of each document, and the document as it is parsed from its JSON text.\<close>

definition metadata_texts :: "PlanMetadata \<Rightarrow> string list" where
  "metadata_texts m = [md_Title m, md_Version m, md_Revision m, md_Description m, md_Impact m, md_Recovery m]"

definition permission_texts :: "TaskPermission \<Rightarrow> string list" where
  "permission_texts p = tp_Profile p # tp_CWD p # tp_Launcher p @ tp_Resources p @ tp_Compose p"

definition step_texts :: "PlanReviewStep \<Rightarrow> string list" where
  "step_texts s = [sp_ID s, sp_Name s, sp_Phase s, sp_OnFailure s, sp_Cmd s, sp_Status s, sp_PolicyRule s, sp_ApprovalID s,
     sp_StdinSHA256 s, sp_PayloadRef s] @ (case sp_Task s of None \<Rightarrow> [] | Some p \<Rightarrow> permission_texts p)"

definition review_texts :: "PlanReview \<Rightarrow> string list" where
  "review_texts r = [rv_PlanID r, rv_ExecutionID r, rv_SessionID r, rv_Host r] @ metadata_texts (rv_Metadata r) @
     concat (map step_texts (rv_Steps r))"

definition manifest_texts :: "PlanManifest \<Rightarrow> string list" where
  "manifest_texts m = [pm_ID m, pm_SessionID m, pm_Host m, pm_TS m, pm_ExecutionID m, pm_ReviewSHA256 m] @ metadata_texts (pm_Metadata m) @
     pm_MemberIDs m @ (case pm_Review m of None \<Rightarrow> [] | Some r \<Rightarrow> review_texts r)"

definition metadata_back :: "PlanMetadata \<Rightarrow> PlanMetadata" where
  "metadata_back m = \<lparr>md_Title = json_clean (md_Title m), md_Version = json_clean (md_Version m), md_Revision = json_clean (md_Revision m),
     md_Description = json_clean (md_Description m), md_Impact = json_clean (md_Impact m), md_Recovery = json_clean (md_Recovery m)\<rparr>"

definition permission_back :: "TaskPermission \<Rightarrow> TaskPermission" where
  "permission_back p = p\<lparr>tp_Profile := json_clean (tp_Profile p), tp_CWD := json_clean (tp_CWD p),
     tp_Launcher := map json_clean (tp_Launcher p), tp_Resources := map json_clean (tp_Resources p),
     tp_Compose := map json_clean (tp_Compose p)\<rparr>"

definition step_back :: "PlanReviewStep \<Rightarrow> PlanReviewStep" where
  "step_back s = s\<lparr>sp_ID := json_clean (sp_ID s), sp_Name := json_clean (sp_Name s), sp_Phase := json_clean (sp_Phase s),
     sp_OnFailure := json_clean (sp_OnFailure s), sp_Cmd := json_clean (sp_Cmd s), sp_Status := json_clean (sp_Status s),
     sp_PolicyRule := json_clean (sp_PolicyRule s), sp_ApprovalID := json_clean (sp_ApprovalID s),
     sp_StdinSHA256 := json_clean (sp_StdinSHA256 s), sp_PayloadRef := json_clean (sp_PayloadRef s),
     sp_Task := map_option permission_back (sp_Task s)\<rparr>"

definition review_back :: "PlanReview \<Rightarrow> PlanReview" where
  "review_back r = r\<lparr>rv_PlanID := json_clean (rv_PlanID r), rv_ExecutionID := json_clean (rv_ExecutionID r),
     rv_SessionID := json_clean (rv_SessionID r), rv_Host := json_clean (rv_Host r), rv_Metadata := metadata_back (rv_Metadata r),
     rv_Steps := map step_back (rv_Steps r)\<rparr>"

definition manifest_back :: "PlanManifest \<Rightarrow> PlanManifest" where
  "manifest_back m = m\<lparr>pm_ID := json_clean (pm_ID m), pm_SessionID := json_clean (pm_SessionID m), pm_Host := json_clean (pm_Host m),
     pm_TS := json_clean (pm_TS m), pm_ExecutionID := json_clean (pm_ExecutionID m), pm_Metadata := metadata_back (pm_Metadata m),
     pm_Review := map_option review_back (pm_Review m), pm_ReviewSHA256 := json_clean (pm_ReviewSHA256 m),
     pm_MemberIDs := map json_clean (pm_MemberIDs m)\<rparr>"

definition valid_manifest :: "PlanManifest \<Rightarrow> bool" where
  "valid_manifest m \<longleftrightarrow> list_all valid_string (manifest_texts m)"

section \<open>Reading\<close>

definition GetPlan :: "(string \<Rightarrow> string) \<Rightarrow> plan_store \<Rightarrow> string \<Rightarrow> PlanManifest res" where
  "GetPlan H ps i =
     (if pl_Dir ps = [] then Inl ErrPlansDirUnset
      else if \<not> ValidPlanID i then Inl ErrInvalidPlanID
      else case gget (pl_Files ps) (planPath i) of
        None \<Rightarrow> Inl ErrPlanNotFound
      | Some (None, _) \<Rightarrow> Inl (Errorf ''parse plan manifest'' [i])
      | Some (Some m, _) \<Rightarrow>
          if pm_ID m \<noteq> i then Inl (Errorf ''plan manifest id mismatch'' [i])
          else if pm_Review m \<noteq> None \<and> (pm_ReviewSHA256 m = [] \<or> PlanManifestReviewDigest H m \<noteq> pm_ReviewSHA256 m \<or>
              \<not> manifestReviewMatchesEnvelope m) then Inl ErrPlanDigest
          else Inr m)"

definition plan_member :: "(string \<Rightarrow> string) \<Rightarrow> approvals \<Rightarrow> string \<Rightarrow> PlanMember" where
  "plan_member H s i = (case pending_Status H s i of
     Inl _ \<Rightarrow> \<lparr>mb_ApprovalID = i, mb_Status = ''expired'', mb_Scope = [], mb_Request = None\<rparr>
   | Inr st \<Rightarrow> \<lparr>mb_ApprovalID = i, mb_Status = st_Status st, mb_Scope = st_Scope st, mb_Request = st_Request st\<rparr>)"

definition with_status :: "string \<Rightarrow> PlanMember list \<Rightarrow> nat" where
  "with_status w ms = length (filter (\<lambda>m. mb_Status m = w) ms)"

definition plan_Status :: "(string \<Rightarrow> string) \<Rightarrow> approvals \<Rightarrow> plan_store \<Rightarrow> string \<Rightarrow> PlanStatus res" where
  "plan_Status H s ps i = rbind (GetPlan H ps i) (\<lambda>m.
     (let members = map (plan_member H s) (pm_MemberIDs m);
          approved = with_status ''approved'' members; denied = with_status ''denied'' members;
          expired = with_status ''expired'' members;
          pending = length (filter (\<lambda>b. mb_Status b \<noteq> ''approved'' \<and> mb_Status b \<noteq> ''denied'' \<and> mb_Status b \<noteq> ''expired'') members)
      in Inr \<lparr>ps_ID = pm_ID m, ps_SessionID = pm_SessionID m, ps_Host = pm_Host m, ps_ExecutionID = pm_ExecutionID m,
           ps_Metadata = pm_Metadata m, ps_Review = pm_Review m, ps_ReviewSHA256 = pm_ReviewSHA256 m,
           ps_Status = (if 0 < pending then ''pending'' else if 0 < denied then ''denied'' else if 0 < expired then ''expired'' else ''approved''),
           ps_Pending = pending, ps_Approved = approved, ps_Denied = denied, ps_Expired = expired, ps_Members = members\<rparr>))"

section \<open>Creating\<close>

text \<open>The loop of \<open>pendingPlans\<close>: the plans left and the number still waiting.\<close>

fun pendingPlansLoop :: "(string \<Rightarrow> string) \<Rightarrow> approvals \<Rightarrow> instant \<Rightarrow> string list \<Rightarrow> plan_store \<Rightarrow> nat \<Rightarrow> plan_store \<times> nat" where
  "pendingPlansLoop H s now [] ps n = (ps, n)"
| "pendingPlansLoop H s now (name # names) ps n =
     (if \<not> has_suffix name ''.json'' \<or> \<not> ValidPlanID (file_id name) then pendingPlansLoop H s now names ps n
      else if (case plan_Status H s ps (file_id name) of Inr st \<Rightarrow> 0 < ps_Pending st | Inl _ \<Rightarrow> False) then
        pendingPlansLoop H s now names ps (Suc n)
      else pendingPlansLoop H s now names
        (case gget (pl_Files ps) name of
           Some (_, mtime) \<Rightarrow> if int mtime < int now - int resolvedReapTTL
             then ps\<lparr>pl_Files := gdel (planPath (file_id name)) (pl_Files ps)\<rparr> else ps
         | None \<Rightarrow> ps) n)"

definition pendingPlans :: "(string \<Rightarrow> string) \<Rightarrow> approvals \<Rightarrow> instant \<Rightarrow> plan_store \<Rightarrow> plan_store \<times> nat" where
  "pendingPlans H s now ps = pendingPlansLoop H s now (sort (keys (pl_Files ps))) ps 0"

definition enveloped :: "PlanManifest \<Rightarrow> PlanReview \<Rightarrow> PlanReview" where
  "enveloped m r = r\<lparr>rv_Version := 1, rv_PlanID := pm_ID m, rv_SessionID := pm_SessionID m, rv_Host := pm_Host m,
     rv_ExecutionID := (if rv_ExecutionID r = [] then pm_ExecutionID m else rv_ExecutionID r),
     rv_Metadata := (if isZeroMetadata (rv_Metadata r) then pm_Metadata m else rv_Metadata r)\<rparr>"

definition sealed_manifest :: "(string \<Rightarrow> string) \<Rightarrow> instant \<Rightarrow> PlanManifest \<Rightarrow> PlanManifest" where
  "sealed_manifest H now m0 =
     (let m = m0\<lparr>pm_Version := 1, pm_TS := (if pm_TS m0 = [] then format_time now else pm_TS m0)\<rparr>
      in case pm_Review m of
        None \<Rightarrow> m
      | Some r \<Rightarrow> (let m' = m\<lparr>pm_Review := Some (enveloped m r)\<rparr> in m'\<lparr>pm_ReviewSHA256 := PlanManifestReviewDigest H m'\<rparr>))"

definition CreatePlan :: "(string \<Rightarrow> string) \<Rightarrow> instant \<Rightarrow> int \<Rightarrow> string \<Rightarrow> approvals \<Rightarrow> plan_store \<Rightarrow> PlanManifest \<Rightarrow>
    plan_store \<times> PlanManifest res" where
  "CreatePlan H now maxPending rnd s ps m0 =
     (if pl_Dir ps = [] then (ps, Inl ErrPlansDirUnset)
      else let m = (if pm_ID m0 = [] then m0\<lparr>pm_ID := NewPlanID rnd\<rparr> else m0) in
        if \<not> ValidPlanID (pm_ID m) then (ps, Inl ErrInvalidPlanID)
        else let (ps', waiting) = (if 0 < maxPending then pendingPlans H s now ps else (ps, 0)) in
          if 0 < maxPending \<and> maxPending \<le> int waiting then (ps', Inl ErrTooManyPending)
          else let m' = sealed_manifest H now m in
            if ghas (pl_Files ps') (planPath (pm_ID m)) then (ps', Inl (Errorf ''plan id collision'' [pm_ID m]))
            else (ps'\<lparr>pl_Files := gput (planPath (pm_ID m)) (Some (manifest_back m'), now) (pl_Files ps')\<rparr>, Inr m'))"

section \<open>Waiting\<close>

text \<open>As for a request: the directories are those at each time, a poll takes no time.\<close>

function waitPlanLoop :: "(string \<Rightarrow> string) \<Rightarrow> (instant \<Rightarrow> approvals \<times> plan_store) \<Rightarrow> string \<Rightarrow> instant \<Rightarrow> instant \<Rightarrow> nat \<Rightarrow> PlanStatus res" where
  "waitPlanLoop H hist i deadline t k =
     rbind (plan_Status H (fst (hist t)) (snd (hist t)) i) (\<lambda>status.
       if ps_Pending status = 0 then Inr status
       else if \<not> t < deadline then Inr status
       else waitPlanLoop H hist i deadline (t + wait_sleep k) (Suc k))"
  by pat_completeness auto
termination
  by (relation "measure (\<lambda>(H, hist, i, deadline, t, k). deadline - t)") auto

declare waitPlanLoop.simps [simp del]

definition WaitPlan :: "(string \<Rightarrow> string) \<Rightarrow> (instant \<Rightarrow> approvals \<times> plan_store) \<Rightarrow> string \<Rightarrow> instant \<Rightarrow> nat \<Rightarrow> PlanStatus res" where
  "WaitPlan H hist i start timeout = waitPlanLoop H hist i (start + timeout) start 0"

text \<open>The step of a review a request belongs to, if it is the only one.\<close>

fun stepIDLoop :: "string \<Rightarrow> PlanReviewStep list \<Rightarrow> string \<Rightarrow> string" where
  "stepIDLoop approvalID [] found = found"
| "stepIDLoop approvalID (st # sts) found =
     (if sp_ApprovalID st \<noteq> approvalID then stepIDLoop approvalID sts found
      else if found \<noteq> [] \<and> found \<noteq> sp_ID st then []
      else stepIDLoop approvalID sts (sp_ID st))"

definition unambiguousStepID :: "PlanReview option \<Rightarrow> string \<Rightarrow> string" where
  "unambiguousStepID review approvalID = (case review of
     None \<Rightarrow> []
   | Some r \<Rightarrow> if approvalID = [] then [] else stepIDLoop approvalID (rv_Steps r) [])"

section \<open>Lemmas\<close>

lemma member_approved: "mb_Status (plan_member H s a) = ''approved'' \<longleftrightarrow> (\<exists>r. pending_Status H s a = Inr r \<and> st_Status r = ''approved'')"
  by (simp add: plan_member_def split: sum.split)

lemma with_status_zero: "with_status w ms = 0 \<longleftrightarrow> (\<forall>b \<in> set ms. mb_Status b \<noteq> w)"
  by (auto simp: with_status_def filter_empty_conv)

lemma waiting_zero: "length (filter P ms) = 0 \<longleftrightarrow> (\<forall>b \<in> set ms. \<not> P b)"
  by (auto simp: filter_empty_conv)

lemma partition4:
  assumes "distinct [u, v, w]"
  shows "length (filter (\<lambda>b. f b \<noteq> u \<and> f b \<noteq> v \<and> f b \<noteq> w) ms) + length (filter (\<lambda>b. f b = u) ms) +
    length (filter (\<lambda>b. f b = v) ms) + length (filter (\<lambda>b. f b = w) ms) = length ms"
  using assms by (induction ms) auto

lemma pendingPlansLoop_dir: "pl_Dir (fst (pendingPlansLoop H s now names ps n)) = pl_Dir ps"
  by (induction names arbitrary: ps n) (simp_all split: option.split)

lemma sealed_id: "pm_ID (sealed_manifest H now m) = pm_ID m"
  by (simp add: sealed_manifest_def Let_def split: option.split)

lemma sealed_digest:
  assumes "pm_Review (sealed_manifest H now m0) \<noteq> None"
  shows "pm_ReviewSHA256 (sealed_manifest H now m0) = PlanManifestReviewDigest H (sealed_manifest H now m0)"
  using assms by (simp add: sealed_manifest_def Let_def PlanManifestReviewDigest_def manifest_json_def split: option.splits)

lemma CreatePlan_Inr:
  assumes "CreatePlan H now maxPending rnd s ps m0 = (ps', Inr m)"
  shows "m = sealed_manifest H now (if pm_ID m0 = [] then m0\<lparr>pm_ID := NewPlanID rnd\<rparr> else m0) \<and>
    ValidPlanID (pm_ID m) \<and> pl_Dir ps' \<noteq> [] \<and> gget (pl_Files ps') (planPath (pm_ID m)) = Some (Some (manifest_back m), now)"
proof -
  let ?m = "if pm_ID m0 = [] then m0\<lparr>pm_ID := NewPlanID rnd\<rparr> else m0"
  obtain ps1 k where q: "(if 0 < maxPending then pendingPlans H s now ps else (ps, 0)) = (ps1, k)" by fastforce
  then have d: "pl_Dir ps1 = pl_Dir ps"
    using pendingPlansLoop_dir [of H s now "sort (keys (pl_Files ps))" ps 0] by (auto simp: pendingPlans_def split: if_splits)
  have "m = sealed_manifest H now ?m \<and> ValidPlanID (pm_ID ?m) \<and> pl_Dir ps \<noteq> [] \<and>
      ps' = ps1\<lparr>pl_Files := gput (planPath (pm_ID ?m)) (Some (manifest_back m), now) (pl_Files ps1)\<rparr>"
    using assms unfolding CreatePlan_def Let_def q by (auto split: if_splits)
  then show ?thesis using d by (simp add: sealed_id)
qed

text \<open>Valid texts come back as they were; identifiers are such texts.\<close>

lemma ids_valid: "ValidPlanID i \<Longrightarrow> valid_string i" "validApprovalID i \<Longrightarrow> valid_string i"
proof -
  have "valid_string i" if v: "validPrefixedID i p" and p: "ascii p" for p
  proof -
    have "i = p @ drop (length p) i" using v by (auto simp: validPrefixedID_def has_prefix_def elim: prefixE)
    moreover have "ascii (drop (length p) i)" using v by (auto simp: validPrefixedID_def list_all_iff ascii_def id_char_def)
    ultimately have "ascii i" using p unfolding ascii_def by (metis list_all_append)
    then show ?thesis by (rule valid_ascii)
  qed
  note v = this
  show "ValidPlanID i \<Longrightarrow> valid_string i" using v [of "''pl_''"] by (simp add: ValidPlanID_def ascii_def)
  show "validApprovalID i \<Longrightarrow> valid_string i" using v [of "''ap_''"] by (simp add: validApprovalID_def ascii_def)
qed

lemma clean_all: "list_all valid_string xs \<Longrightarrow> map json_clean xs = xs"
  by (induction xs) (simp_all add: json_clean_valid)

lemma metadata_back_valid: "list_all valid_string (metadata_texts m) \<Longrightarrow> metadata_back m = m"
  by (simp add: metadata_texts_def metadata_back_def json_clean_valid)

lemma permission_back_valid: "list_all valid_string (permission_texts p) \<Longrightarrow> permission_back p = p"
  by (simp add: permission_texts_def permission_back_def json_clean_valid clean_all)

lemma step_back_valid: "list_all valid_string (step_texts s) \<Longrightarrow> step_back s = s"
  by (cases "sp_Task s") (simp_all add: step_texts_def step_back_def json_clean_valid permission_back_valid)

lemma steps_back_valid: "list_all valid_string (concat (map step_texts ss)) \<Longrightarrow> map step_back ss = ss"
  by (induction ss) (simp_all add: step_back_valid)

lemma review_back_valid: "list_all valid_string (review_texts r) \<Longrightarrow> review_back r = r"
  by (simp add: review_texts_def review_back_def json_clean_valid metadata_back_valid steps_back_valid)

lemma manifest_back_valid: "valid_manifest m \<Longrightarrow> manifest_back m = m"
  by (cases "pm_Review m")
    (simp_all add: valid_manifest_def manifest_texts_def manifest_back_def json_clean_valid metadata_back_valid review_back_valid clean_all)

section \<open>Lemmas: texts that are not valid\<close>

text \<open>What reads back is never longer, written again, and a text that is not valid UTF-8 makes it shorter.\<close>

definition weight :: "string \<times> string option \<Rightarrow> nat" where
  "weight f = (case snd f of None \<Rightarrow> 0 | Some x \<Rightarrow> Suc (length (json_member (fst f, x))))"

lemma length_join: "length (str_join ws '','') = sum_list (map (Suc \<circ> length) ws) - 1"
  by (induction ws) (auto simp: str_join_Cons neq_Nil_conv)

lemma length_object: "length (json_object fs) = 2 + (sum_list (map weight fs) - 1)"
proof -
  have "sum_list (map (Suc \<circ> length) (map json_member (present fs))) = sum_list (map weight fs)"
    by (induction fs) (auto simp: present_def weight_def split: option.split)
  then show ?thesis unfolding json_object_def json_members_def by (simp add: length_join)
qed

lemma weight_min: "0 < weight f \<Longrightarrow> 1 < weight f"
  by (auto simp: weight_def json_member_def split: option.splits)

lemma weights_le: "list_all2 (\<lambda>f g. weight f \<le> weight g) fs gs \<Longrightarrow> sum_list (map weight fs) \<le> sum_list (map weight gs)"
  by (induction rule: list_all2_induct) auto

lemma object_le: "list_all2 (\<lambda>f g. weight f \<le> weight g) fs gs \<Longrightarrow> length (json_object fs) \<le> length (json_object gs)"
  using weights_le [of fs gs] unfolding length_object by simp

lemma object_lt:
  assumes "list_all2 (\<lambda>f g. weight f \<le> weight g) fs gs" and "\<exists>(f, g) \<in> set (zip fs gs). weight f < weight g"
  shows "length (json_object fs) < length (json_object gs)"
proof -
  have "sum_list (map weight fs) < sum_list (map weight gs) \<and> 1 < sum_list (map weight gs)"
    using assms
  proof (induction rule: list_all2_induct)
    case (Cons f fs g gs)
    have le: "weight f + sum_list (map weight fs) \<le> weight g + sum_list (map weight gs)" using Cons.hyps weights_le by (simp add: add_mono)
    have "weight f < weight g \<or> (\<exists>(f, g) \<in> set (zip fs gs). weight f < weight g)" using Cons.prems by auto
    then show ?case
    proof
      assume "weight f < weight g"
      then show ?thesis using weights_le [OF Cons.hyps(2)] weight_min [of g] by simp
    next
      assume "\<exists>(f, g) \<in> set (zip fs gs). weight f < weight g"
      then show ?thesis using Cons.IH Cons.hyps(1) by simp
    qed
  qed simp
  then show ?thesis unfolding length_object by arith
qed

lemma weight_field [simp]:
  "weight (field n x) \<le> weight (field n y) \<longleftrightarrow> length x \<le> length y"
  "weight (field n x) < weight (field n y) \<longleftrightarrow> length x < length y"
  by (simp_all add: weight_def field_def json_member_def)

lemma weight_text [simp]: "weight (field_opt n (json_clean s)) \<le> weight (field_opt n s)"
  using json_clean_shorter(1) [of s] json_clean_valid [OF valid_ascii [of "[]"]]
  by (auto simp: weight_def field_opt_def json_member_def ascii_def)

lemma length_clean_le [simp]: "length (json_string (json_clean s)) \<le> length (json_string s)"
  by (rule json_clean_shorter(1))

lemma sums_le: "list_all2 (\<lambda>x y. length x \<le> length y) xs ys \<Longrightarrow> sum_list (map (Suc \<circ> length) xs) \<le> sum_list (map (Suc \<circ> length) ys)"
  by (induction rule: list_all2_induct) auto

lemma json_list_le:
  assumes "\<forall>x \<in> set xs. length (f x) \<le> length (g x)"
  shows "length (json_list (map f xs)) \<le> length (json_list (map g xs))"
proof -
  have "list_all2 (\<lambda>x y. length x \<le> length y) (map f xs) (map g xs)" using assms by (simp add: list_all2_conv_all_nth)
  then show ?thesis using sums_le [of "map f xs" "map g xs"] unfolding json_list_def by (auto simp: length_join)
qed

lemma json_list_lt:
  assumes "\<forall>x \<in> set xs. length (f x) \<le> length (g x)" and "\<exists>x \<in> set xs. length (f x) < length (g x)"
  shows "length (json_list (map f xs)) < length (json_list (map g xs))"
proof -
  have "sum_list (map (Suc \<circ> length) (map f xs)) < sum_list (map (Suc \<circ> length) (map g xs))"
    using assms
  proof (induction xs)
    case (Cons x xs)
    then show ?case using sums_le [of "map f xs" "map g xs"]
      by (auto simp: list_all2_conv_all_nth comp_def intro: add_less_le_mono add_le_less_mono)
  qed simp
  moreover have "0 < sum_list (map (Suc \<circ> length) (map f xs))" using assms(2) by (cases xs) auto
  ultimately show ?thesis using assms(2) unfolding json_list_def by (auto simp: length_join)
qed

lemma weight_list [simp]: "weight (list_opt n (map json_clean xs)) \<le> weight (list_opt n xs)"
  using json_list_le [of xs "json_string \<circ> json_clean" json_string]
  by (simp add: weight_def list_opt_def json_member_def)

lemma metadata_le [simp]: "length (metadata_json (metadata_back m)) \<le> length (metadata_json m)"
  unfolding metadata_json_def by (rule object_le) (simp add: metadata_back_def)

lemma permission_le [simp]: "length (permission_json (permission_back p)) \<le> length (permission_json p)"
  unfolding permission_json_def by (rule object_le) (simp add: permission_back_def)

lemma weight_task [simp]:
  "weight (n, map_option permission_json (map_option permission_back t)) \<le> weight (n, map_option permission_json t)"
  by (cases t) (simp_all add: weight_def json_member_def)

lemma step_le: "length (step_json (step_back s)) \<le> length (step_json s)"
  unfolding step_json_def by (rule object_le) (simp add: step_back_def)

lemma step_lt: "\<not> valid_string (sp_Cmd s) \<Longrightarrow> length (step_json (step_back s)) < length (step_json s)"
  unfolding step_json_def by (rule object_lt) (simp_all add: step_back_def json_clean_shorter(2))

lemma review_le_lt:
  "length (review_json (review_back r)) \<le> length (review_json r)"
  "s \<in> set (rv_Steps r) \<Longrightarrow> \<not> valid_string (sp_Cmd s) \<Longrightarrow> length (review_json (review_back r)) < length (review_json r)"
proof -
  have le: "length (json_list (map (step_json \<circ> step_back) (rv_Steps r))) \<le> length (json_list (map step_json (rv_Steps r)))"
    by (rule json_list_le) (simp add: step_le)
  show "length (review_json (review_back r)) \<le> length (review_json r)"
    unfolding review_json_def by (rule object_le) (simp add: review_back_def le)
  assume s: "s \<in> set (rv_Steps r)" "\<not> valid_string (sp_Cmd s)"
  have "length (json_list (map (step_json \<circ> step_back) (rv_Steps r))) < length (json_list (map step_json (rv_Steps r)))"
    by (rule json_list_lt) (use s step_lt in \<open>auto simp: step_le\<close>)
  then show "length (review_json (review_back r)) < length (review_json r)"
    unfolding review_json_def by (intro object_lt) (simp_all add: review_back_def le)
qed

lemma manifest_lt:
  assumes "pm_Review m = Some r" and "s \<in> set (rv_Steps r)" and "\<not> valid_string (sp_Cmd s)"
  shows "length (manifest_json (manifest_back m)) < length (manifest_json m)"
proof -
  have l: "length (json_list (map (json_string \<circ> json_clean) (pm_MemberIDs m))) \<le> length (json_list (map json_string (pm_MemberIDs m)))"
    by (rule json_list_le) simp
  show ?thesis unfolding manifest_json_def
    by (rule object_lt) (use review_le_lt(2) [OF assms(2,3)] assms(1) l in \<open>simp_all add: manifest_back_def less_imp_le\<close>)
qed

section \<open>Properties\<close>

text \<open>A plan counts as approved exactly when every one of its members has been approved: one member that is
  pending, denied, expired, missing or unreadable keeps it from being so. The four counts partition the
  members, which are those of the manifest, in its order.\<close>

theorem plan_approved_iff:
  assumes "GetPlan H ps i = Inr m" and "plan_Status H s ps i = Inr st"
  shows "(ps_Status st = ''approved'' \<longleftrightarrow> (\<forall>a \<in> set (pm_MemberIDs m). \<exists>r. pending_Status H s a = Inr r \<and> st_Status r = ''approved'')) \<and>
    map mb_ApprovalID (ps_Members st) = pm_MemberIDs m \<and>
    ps_Pending st + ps_Approved st + ps_Denied st + ps_Expired st = length (pm_MemberIDs m)"
proof -
  let ?ms = "map (plan_member H s) (pm_MemberIDs m)"
  have st: "ps_Members st = ?ms" "ps_Approved st = with_status ''approved'' ?ms" "ps_Denied st = with_status ''denied'' ?ms"
    "ps_Expired st = with_status ''expired'' ?ms"
    "ps_Pending st = length (filter (\<lambda>b. mb_Status b \<noteq> ''approved'' \<and> mb_Status b \<noteq> ''denied'' \<and> mb_Status b \<noteq> ''expired'') ?ms)"
    "ps_Status st = (if 0 < ps_Pending st then ''pending'' else if 0 < ps_Denied st then ''denied''
       else if 0 < ps_Expired st then ''expired'' else ''approved'')"
    using assms unfolding plan_Status_def Let_def by auto
  have "ps_Status st = ''approved'' \<longleftrightarrow> ps_Pending st = 0 \<and> ps_Denied st = 0 \<and> ps_Expired st = 0"
    unfolding st(6) by auto
  also have "\<dots> \<longleftrightarrow> (\<forall>b \<in> set ?ms. mb_Status b = ''approved'')"
    unfolding st(3-5) with_status_zero waiting_zero by auto
  also have "\<dots> \<longleftrightarrow> (\<forall>a \<in> set (pm_MemberIDs m). \<exists>r. pending_Status H s a = Inr r \<and> st_Status r = ''approved'')"
    by (auto simp: member_approved)
  finally have "ps_Status st = ''approved'' \<longleftrightarrow> (\<forall>a \<in> set (pm_MemberIDs m). \<exists>r. pending_Status H s a = Inr r \<and> st_Status r = ''approved'')" .
  moreover have "mb_ApprovalID (plan_member H s a) = a" for a by (simp add: plan_member_def split: sum.split)
  then have "map mb_ApprovalID ?ms = pm_MemberIDs m" by (simp add: comp_def)
  moreover have "ps_Pending st + ps_Approved st + ps_Denied st + ps_Expired st = length ?ms"
    unfolding st(2-5) with_status_def by (rule partition4) simp
  ultimately show ?thesis unfolding st(1) by simp
qed

text \<open>A plan of valid texts that was created reads back as the sealed manifest that was returned, unless its
  review does not belong to the manifest: then it is stored all the same, and every reading of it is
  refused.\<close>

theorem created_plan_reads_back:
  assumes "CreatePlan H now maxPending rnd s ps m0 = (ps', Inr m)" and "\<forall>x. H x \<noteq> []" and "valid_manifest m"
  shows "GetPlan H ps' (pm_ID m) = (if manifestReviewMatchesEnvelope m then Inr m else Inl ErrPlanDigest)"
proof -
  from CreatePlan_Inr [OF assms(1)] obtain m1 where
    c: "m = sealed_manifest H now m1" "ValidPlanID (pm_ID m)" "pl_Dir ps' \<noteq> []" "gget (pl_Files ps') (planPath (pm_ID m)) = Some (Some m, now)"
    unfolding manifest_back_valid [OF assms(3)] by blast
  have "PlanManifestReviewDigest H m \<noteq> []" using assms(2) unfolding PlanManifestReviewDigest_def by blast
  then have "pm_Review m = None \<or> pm_ReviewSHA256 m = PlanManifestReviewDigest H m \<and> pm_ReviewSHA256 m \<noteq> []"
    using sealed_digest [of H now m1] by (auto simp: c(1))
  moreover have "manifestReviewMatchesEnvelope m" if "pm_Review m = None"
    using that by (simp add: manifestReviewMatchesEnvelope_def)
  ultimately show ?thesis using c(2-4) by (auto simp: GetPlan_def)
qed

text \<open>The command of a step that is not valid UTF-8 is hashed as it is and read back with replacement
  characters: the plan is created, its members wait, and no reading of it is ever accepted.\<close>

lemma unreadable_plan:
  assumes "CreatePlan H now maxPending rnd s ps m0 = (ps', Inr m)" and "\<forall>x. valid_string (H x)"
    and "pm_Review m = Some r" and "st \<in> set (rv_Steps r)" and "\<not> valid_string (sp_Cmd st)"
    and "inj_on H {manifest_json m, manifest_json (manifest_back m)}"
  shows "GetPlan H ps' (pm_ID m) = Inl ErrPlanDigest"
proof -
  from CreatePlan_Inr [OF assms(1)] obtain m1 where
    c: "m = sealed_manifest H now m1" "ValidPlanID (pm_ID m)" "pl_Dir ps' \<noteq> []"
       "gget (pl_Files ps') (planPath (pm_ID m)) = Some (Some (manifest_back m), now)" by blast
  have "pm_ReviewSHA256 m = H (manifest_json m)"
    using sealed_digest [of H now m1] assms(3) by (simp add: c(1) PlanManifestReviewDigest_def)
  then have d: "pm_ReviewSHA256 (manifest_back m) = H (manifest_json m)" using assms(2) by (simp add: manifest_back_def json_clean_valid)
  have "manifest_json (manifest_back m) \<noteq> manifest_json m" using manifest_lt [OF assms(3-5)] by (metis less_irrefl)
  then have "H (manifest_json (manifest_back m)) \<noteq> H (manifest_json m)" using inj_onD [OF assms(6)] by blast
  moreover have "pm_ID (manifest_back m) = pm_ID m"
    using ids_valid(1) [OF c(2)] by (simp add: manifest_back_def json_clean_valid)
  moreover have "pm_Review (manifest_back m) \<noteq> None" by (simp add: manifest_back_def assms(3))
  ultimately show ?thesis using c(2-4) d by (simp add: GetPlan_def PlanManifestReviewDigest_def)
qed

section \<open>A concrete plan\<close>

definition ls_plan_id :: string where "ls_plan_id = ''pl_aaaaaaaaaaaaaaaaaaaaaaaa''"

definition ls_plan :: PlanManifest where
  "ls_plan = \<lparr>pm_Version = 1, pm_ID = ls_plan_id, pm_SessionID = ''s'', pm_Host = ''web'', pm_TS = ''t'', pm_ExecutionID = [],
     pm_Metadata = no_metadata, pm_Review = None, pm_ReviewSHA256 = [], pm_MemberIDs = [ls_id]\<rparr>"

definition no_plans :: plan_store where "no_plans = \<lparr>pl_Dir = ''p'', pl_Files = []\<rparr>"

definition one_plan :: plan_store where "one_plan = no_plans\<lparr>pl_Files := [(planPath ls_plan_id, (Some ls_plan, 0))]\<rparr>"

lemma ls_plan_id_valid: "ValidPlanID ls_plan_id"
  by (simp add: ValidPlanID_def validPrefixedID_def ls_plan_id_def has_prefix_def id_char_def)

lemma ls_plan_valid: "valid_manifest ls_plan"
  by (simp add: valid_manifest_def manifest_texts_def metadata_texts_def ls_plan_def ls_plan_id_def no_metadata_def ls_id_def valid_ascii ascii_def)

lemma ls_plan_created: "CreatePlan one_digest 0 0 [] ls_decided no_plans ls_plan = (one_plan, Inr ls_plan)"
proof -
  have "sealed_manifest one_digest 0 ls_plan = ls_plan" by (simp add: sealed_manifest_def ls_plan_def)
  moreover have "pm_ID ls_plan = ls_plan_id" "ls_plan_id \<noteq> []" by (simp_all add: ls_plan_def) (simp add: ls_plan_id_def)
  moreover have "manifest_back ls_plan = ls_plan" by (rule manifest_back_valid [OF ls_plan_valid])
  ultimately show ?thesis
    by (simp add: CreatePlan_def Let_def ls_plan_id_valid) (simp add: no_plans_def one_plan_def ghas_def)
qed

theorem created_plan_reads_back_witness: "GetPlan one_digest one_plan ls_plan_id = Inr ls_plan"
proof -
  have "\<forall>x. one_digest x \<noteq> []" by (simp add: one_digest_def)
  moreover have "manifestReviewMatchesEnvelope ls_plan" "pm_ID ls_plan = ls_plan_id"
    by (simp_all add: manifestReviewMatchesEnvelope_def ls_plan_def)
  ultimately show ?thesis using created_plan_reads_back [OF ls_plan_created _ ls_plan_valid] by simp
qed

theorem plan_approved_iff_witness: "\<exists>st. plan_Status one_digest ls_decided one_plan ls_plan_id = Inr st \<and> ps_Status st = ''approved''"
proof -
  have g: "GetPlan one_digest one_plan ls_plan_id = Inr ls_plan"
    by (simp add: GetPlan_def ls_plan_id_valid) (simp add: one_plan_def no_plans_def ls_plan_def)
  then obtain st where st: "plan_Status one_digest ls_decided one_plan ls_plan_id = Inr st" by (simp add: plan_Status_def Let_def)
  have "pm_MemberIDs ls_plan = [ls_id]" "st_Status ls_approved = ''approved''" by (simp_all add: ls_plan_def ls_approved_def)
  then show ?thesis using plan_approved_iff [OF g st] st ls_Status by simp
qed

end
