(* ===== verification/ApprovalConfig.thy ===== *)
theory ApprovalConfig
  imports Task Clock Policy
begin

text \<open>
  \<open>internal/approval/config.go\<close>: the approval settings of a policy and their defaults, with
  \<open>time.ParseDuration\<close>. A fraction is taken exactly and rounded down; the library computes it in
  floating point. The property: whatever settings are accepted, the times are positive and the
  mode is one of the three.
\<close>

section \<open>Durations\<close>

text \<open>The unit of a number, in nanoseconds; the two spellings of micro are UTF-8.\<close>

definition unit_ns :: "string \<Rightarrow> nat option" where
  "unit_ns u =
     (if u = ''ns'' then Some 1
      else if u = ''us'' \<or> u = [CHR 0xC2, CHR 0xB5, CHR ''s''] \<or> u = [CHR 0xCE, CHR 0xBC, CHR ''s''] then Some 1000
      else if u = ''ms'' then Some 1000000
      else if u = ''s'' then Some 1000000000
      else if u = ''m'' then Some 60000000000
      else if u = ''h'' then Some 3600000000000 else None)"

definition number_char :: "char \<Rightarrow> bool" where
  "number_char c \<longleftrightarrow> c = CHR ''.'' \<or> decimal_digit c"

text \<open>One number with its unit, and the rest.\<close>

definition duration_part :: "string \<Rightarrow> (nat \<times> string) option" where
  "duration_part s =
     (let whole = takeWhile decimal_digit s; s1 = dropWhile decimal_digit s;
          dot = prefix ''.'' s1;
          frac = (if dot then takeWhile decimal_digit (tl s1) else []);
          s2 = (if dot then dropWhile decimal_digit (tl s1) else s1);
          u = takeWhile (\<lambda>c. \<not> number_char c) s2; s3 = dropWhile (\<lambda>c. \<not> number_char c) s2;
          v = digits_value whole
      in if whole = [] \<and> frac = [] then None
         else case unit_ns u of
           None \<Rightarrow> None
         | Some n \<Rightarrow>
             (let d = v * n + digits_value frac * n div 10 ^ length frac in
              if 2 ^ 63 < v * n \<or> 2 ^ 63 < d then None else Some (d, s3)))"

lemma duration_part_shorter: "duration_part s = Some (d, t) \<Longrightarrow> length t < length s"
proof -
  let ?w = "takeWhile decimal_digit s" and ?s1 = "dropWhile decimal_digit s"
  let ?f = "if prefix ''.'' ?s1 then takeWhile decimal_digit (tl ?s1) else []"
  let ?s2 = "if prefix ''.'' ?s1 then dropWhile decimal_digit (tl ?s1) else ?s1"
  assume "duration_part s = Some (d, t)"
  then have t: "t = dropWhile (\<lambda>c. \<not> number_char c) ?s2" and ne: "?w \<noteq> [] \<or> ?f \<noteq> []"
    unfolding duration_part_def Let_def by (auto split: if_splits option.splits)
  have tw: "length (takeWhile P xs) + length (dropWhile P xs) = length xs" for P and xs :: string
    by (simp flip: length_append)
  have "length ?f + length ?s2 \<le> length ?s1"
  proof (cases "prefix ''.'' ?s1")
    case True
    then obtain r where "?s1 = CHR ''.'' # r" by (auto simp: prefix_def)
    then show ?thesis using tw [of decimal_digit r] by simp
  qed simp
  moreover have "length t \<le> length ?s2" unfolding t by (rule length_dropWhile_le)
  moreover have "0 < length ?w + length ?f" using ne by (auto simp del: length_0_conv simp: length_greater_0_conv)
  ultimately show ?thesis using tw [of decimal_digit s] by linarith
qed

function duration_sum :: "string \<Rightarrow> nat \<Rightarrow> nat option" where
  "duration_sum s d =
     (if s = [] then Some d
      else case duration_part s of
        None \<Rightarrow> None
      | Some (v, t) \<Rightarrow> if 2 ^ 63 < d + v then None else duration_sum t (d + v))"
  by pat_completeness auto
termination
  by (relation "measure (length \<circ> fst)") (auto dest: duration_part_shorter)

declare duration_sum.simps [simp del]

definition ParseDuration :: "string \<Rightarrow> int option" where
  "ParseDuration s =
     (let neg = prefix ''-'' s; body = (if prefix ''-'' s \<or> prefix ''+'' s then tl s else s)
      in if body = ''0'' then Some 0
         else if body = [] then None
         else case duration_sum body 0 of
           None \<Rightarrow> None
         | Some d \<Rightarrow> if neg then Some (- int d) else if 2 ^ 63 - 1 < d then None else Some (int d))"

section \<open>Settings\<close>

definition DefaultSessionTTL :: int where "DefaultSessionTTL = 43200000000000"
definition DefaultWaitTimeout :: int where "DefaultWaitTimeout = 600000000000"
definition DefaultTaskTTL :: int where "DefaultTaskTTL = 7200000000000"

record RuntimeConfig =
  rt_Enabled :: bool
  rt_HostGrantMode :: string
  rt_SessionTTL :: int
  rt_WaitTimeout :: int
  rt_TaskTTL :: int

definition parseBoolEnv :: "string \<Rightarrow> bool res" where
  "parseBoolEnv v = (let w = to_lower (trim_space v) in
     if w \<in> {''1'', ''true'', ''yes'', ''on'', ''enabled''} then Inr True
     else if w \<in> {''0'', ''false'', ''no'', ''off'', ''disabled''} then Inr False
     else Inl (Errorf ''invalid AGENTSSH_APPROVAL value'' [v]))"

text \<open>A duration setting: empty keeps the default, anything else must be positive.\<close>

definition duration_setting :: "string \<Rightarrow> string \<Rightarrow> int \<Rightarrow> int res" where
  "duration_setting name v dflt =
     (if v = [] then Inr dflt
      else case ParseDuration v of
        Some d \<Rightarrow> if d \<le> 0 then Inl (Errorf name [v]) else Inr d
      | None \<Rightarrow> Inl (Errorf name [v]))"

definition grant_mode_setting :: "string \<Rightarrow> string res" where
  "grant_mode_setting v =
     (if v = [] then Inr HostGrantSafePrefix
      else if v = HostGrantExact \<or> v = HostGrantSafePrefix \<or> v = HostGrantPrefix then Inr v
      else Inl (Errorf ''invalid approval.host_grant_mode'' [v]))"

definition RuntimeConfigFromPolicy :: "Approval \<Rightarrow> string \<Rightarrow> RuntimeConfig res" where
  "RuntimeConfigFromPolicy cfg envValue =
     rbind (grant_mode_setting (Approval_HostGrantMode cfg)) (\<lambda>mode.
     rbind (duration_setting ''invalid approval.session_ttl'' (Approval_SessionTTL cfg) DefaultSessionTTL) (\<lambda>session.
     rbind (duration_setting ''invalid approval.task_ttl'' (Approval_TaskTTL cfg) DefaultTaskTTL) (\<lambda>task.
     rbind (duration_setting ''invalid approval.wait_timeout'' (Approval_WaitTimeout cfg) DefaultWaitTimeout) (\<lambda>wait.
     rbind (if envValue = [] then Inr False else parseBoolEnv envValue) (\<lambda>enabled.
     Inr \<lparr>rt_Enabled = (Approval_Enabled cfg \<or> enabled), rt_HostGrantMode = mode, rt_SessionTTL = session,
          rt_WaitTimeout = wait, rt_TaskTTL = task\<rparr>)))))"

section \<open>Properties\<close>

lemma duration_setting_pos: "duration_setting name v dflt = Inr d \<Longrightarrow> 0 < dflt \<Longrightarrow> 0 < d"
  by (auto simp: duration_setting_def split: if_splits option.splits)

text \<open>Accepted approval settings always have positive times to live and a known grant mode, and the
  environment can switch approvals on but never off.\<close>

theorem runtime_config_sound:
  assumes "RuntimeConfigFromPolicy cfg env = Inr rt"
  shows "0 < rt_SessionTTL rt \<and> 0 < rt_TaskTTL rt \<and> 0 < rt_WaitTimeout rt \<and>
    rt_HostGrantMode rt \<in> {HostGrantExact, HostGrantSafePrefix, HostGrantPrefix} \<and>
    (Approval_Enabled cfg \<longrightarrow> rt_Enabled rt)"
  using assms duration_setting_pos [of _ _ DefaultSessionTTL] duration_setting_pos [of _ _ DefaultTaskTTL]
    duration_setting_pos [of _ _ DefaultWaitTimeout]
  by (auto simp: RuntimeConfigFromPolicy_def rbind_iffs grant_mode_setting_def DefaultSessionTTL_def DefaultTaskTTL_def
    DefaultWaitTimeout_def split: if_splits)

theorem runtime_config_sound_witness:
  "\<exists>rt. RuntimeConfigFromPolicy \<lparr>Approval_Enabled = True, Approval_HostGrantMode = ''exact'', Approval_SessionTTL = ''90m'',
     Approval_WaitTimeout = [], Approval_TaskTTL = ''1.5s''\<rparr> [] = Inr rt \<and> 0 < rt_SessionTTL rt \<and> rt_Enabled rt"
proof -
  have d: "ParseDuration ''90m'' = Some 5400000000000" "ParseDuration ''1.5s'' = Some 1500000000"
    by (simp_all add: ParseDuration_def duration_sum.simps duration_part_def decimal_digit_def number_char_def unit_ns_def digits_value_def)
  obtain rt where rt: "RuntimeConfigFromPolicy \<lparr>Approval_Enabled = True, Approval_HostGrantMode = ''exact'', Approval_SessionTTL = ''90m'',
     Approval_WaitTimeout = [], Approval_TaskTTL = ''1.5s''\<rparr> [] = Inr rt"
    by (simp add: RuntimeConfigFromPolicy_def duration_setting_def d grant_mode_setting_def grant_modes)
  from runtime_config_sound [OF rt] rt show ?thesis by simp
qed

end
