(* ===== verification/Authorize.thy ===== *)
theory Authorize
  imports SessionStore ApprovalConfig
begin

text \<open>
  \<open>internal/approval/authorize.go\<close>: the decision on one run request, from the policy without its
  generated approval rules, the grants of the session and those approval rules, in this order; and
  the candidate matcher of a request that still needs a decision. With a request identifier the
  grant is claimed, without one the decision only previews. The regular expressions of the policy
  engine are those of the engine \<open>E\<close>; \<open>H\<close> is SHA-256 in hexadecimal.
\<close>

section \<open>Approval rules of the policy\<close>

definition CheckHostGrantRule :: "engine \<Rightarrow> Rule \<Rightarrow> unit res" where
  "CheckHostGrantRule E rule =
     (if Rule_Group rule \<noteq> ApprovalGroup then Inl (Errorf ''rule is not an approval host rule'' [])
      else rbind (compileMatcher E (CmdRegex (Rule_Match rule))) (\<lambda>_.
        if looksLegacyEscaped (CmdRegex (Rule_Match rule)) then
          Inl (Errorf ''approval rule was generated by an older AgentSSH'' [Rule_Name rule])
        else Inr ()))"

definition own_rules :: "HostOverride \<Rightarrow> HostOverride" where
  "own_rules ov = ov\<lparr>Override_Rules := filter (\<lambda>rule. Rule_Group rule \<noteq> ApprovalGroup) (Override_Rules ov)\<rparr>"

definition host_matcher :: "Rule \<Rightarrow> Matcher" where
  "host_matcher rule = \<lparr>m_Kind = MatcherExact, m_Regex = CmdRegex (Rule_Match rule), m_Prefix = [], m_Promotable = True,
     m_SourceCmd = [], m_Task = None\<rparr>"

text \<open>The configuration is copied, so the given one keeps its rules; only the host's own entry gives matchers.\<close>

definition clean_policy :: "Config \<Rightarrow> Config" where
  "clean_policy cfg = upd (\<lambda>b. b\<lparr>HostOverrides := map (\<lambda>(key, ov). (key, if has_prefix key ''host:'' then own_rules ov else ov))
     (HostOverrides b)\<rparr>) cfg"

definition host_matchers :: "engine \<Rightarrow> Config \<Rightarrow> string \<Rightarrow> Matcher list" where
  "host_matchers E cfg host = (case gget (cOverrides cfg) (HostRulesKey host) of
     None \<Rightarrow> []
   | Some ov \<Rightarrow> map host_matcher (filter (\<lambda>rule. Rule_Group rule = ApprovalGroup \<and> CheckHostGrantRule E rule = Inr ())
       (Override_Rules ov)))"

definition splitPolicy :: "engine \<Rightarrow> Config \<Rightarrow> string \<Rightarrow> Config \<times> Matcher list" where
  "splitPolicy E cfg host = (clean_policy cfg, host_matchers E cfg host)"

section \<open>Authorizations\<close>

datatype AuthorizationStatus = AuthAllow | AuthAllowByGrant | AuthHardDeny | AuthNeedsApproval

definition no_matcher :: Matcher where
  "no_matcher = \<lparr>m_Kind = [], m_Regex = [], m_Prefix = [], m_Promotable = False, m_SourceCmd = [], m_Task = None\<rparr>"

record Authorization =
  au_Status :: AuthorizationStatus
  au_Decision :: Decision
  au_GrantScope :: string
  au_GrantMatcher :: string
  au_ApprovalMatcher :: Matcher
  au_GrantExpiresTS :: string
  au_Task :: "TaskPermission option"
  au_GrantStdinBytes :: int

definition plain_auth :: "AuthorizationStatus \<Rightarrow> Decision \<Rightarrow> Authorization" where
  "plain_auth s d = \<lparr>au_Status = s, au_Decision = d, au_GrantScope = [], au_GrantMatcher = [], au_ApprovalMatcher = no_matcher,
     au_GrantExpiresTS = [], au_Task = None, au_GrantStdinBytes = 0\<rparr>"

definition RuleStdinSizeMismatch :: string where
  "RuleStdinSizeMismatch = ''approval/stdin-size-mismatch''"

definition CheckGrantedStdin :: "Authorization \<Rightarrow> int \<Rightarrow> Authorization \<times> bool" where
  "CheckGrantedStdin auth stdinBytes =
     (if au_Status auth \<noteq> AuthAllowByGrant \<or> au_GrantStdinBytes auth = stdinBytes then (auth, True)
      else (plain_auth AuthHardDeny \<lparr>Dec_Action = ActionDeny, Dec_Rule = RuleStdinSizeMismatch\<rparr>, False))"

text \<open>A policy decision that settles the request: allowed, or denied by a rule of its own.\<close>

definition settled :: "Decision \<Rightarrow> Authorization option" where
  "settled d =
     (if Dec_Action d = ActionAllow then Some (plain_auth AuthAllow d)
      else if Dec_Rule d \<noteq> RuleDefaultDeny then Some (plain_auth AuthHardDeny d) else None)"

text \<open>The plain forms of a command a task grant matched, which no deny rule may name.\<close>

definition trim_tool :: "string \<Rightarrow> string" where
  "trim_tool arg = trim_prefix (trim_prefix arg ''/usr/bin/'') ''/bin/''"

definition bare_args :: "string list \<Rightarrow> string list" where
  "bare_args argv =
     (let tool = trim_tool (hd argv) in
      if tool = ''sudo'' \<or> tool = ''/usr/bin/sudo'' then tool # map trim_tool (take 2 (tl argv)) @ drop 2 (tl argv)
      else tool # tl argv)"

definition task_forms :: "string list \<Rightarrow> string \<Rightarrow> string list" where
  "task_forms argv cwd =
     (let plain = str_join argv '' ''; bare = bare_args argv in
      [plain] @ (if cwd \<noteq> [] then [''cd '' @ cwd @ '' && '' @ plain] else []) @ [str_join bare '' ''] @
      (if hd bare = ''sudo'' then
         (let rest = tl bare; rest' = (if rest \<noteq> [] \<and> (hd rest = ''-n'' \<or> hd rest = ''--non-interactive'') then tl rest else rest)
          in [str_join rest' '' ''])
       else []))"

definition explicit_deny :: "Decision \<Rightarrow> bool" where
  "explicit_deny d \<longleftrightarrow> Dec_Action d = ActionDeny \<and> Dec_Rule d \<noteq> RuleDefaultDeny"

definition denied_form :: "compiledEngine \<Rightarrow> string \<Rightarrow> string \<Rightarrow> Decision option" where
  "denied_form e host command = (case Parse command of
     Inl _ \<Rightarrow> None
   | Inr (argv, cwd) \<Rightarrow> find explicit_deny (map (Evaluate e host) (task_forms argv cwd)))"

definition grant_auth :: "compiledEngine \<Rightarrow> string \<Rightarrow> string \<Rightarrow> Grant \<Rightarrow> Authorization" where
  "grant_auth e host command g =
     (case (if g_Scope g = ScopeTask then denied_form e host command else None) of
        Some d \<Rightarrow> plain_auth AuthHardDeny d
      | None \<Rightarrow>
          \<lparr>au_Status = AuthAllowByGrant,
           au_Decision = \<lparr>Dec_Action = ActionAllow, Dec_Rule = ''approval/session/'' @ g_ApprovalID g\<rparr>,
           au_GrantScope = g_Scope g, au_GrantMatcher = g_Regex g, au_ApprovalMatcher = no_matcher,
           au_GrantExpiresTS = g_ExpiresTS g, au_Task = g_Task g, au_GrantStdinBytes = g_StdinBytes g\<rparr>)"

definition host_auth :: "(string \<Rightarrow> string) \<Rightarrow> Matcher \<Rightarrow> Authorization" where
  "host_auth H m = \<lparr>au_Status = AuthAllowByGrant,
     au_Decision = \<lparr>Dec_Action = ActionAllow, Dec_Rule = ''approval/host/'' @ matcherSHA12 H m\<rparr>,
     au_GrantScope = ScopeHost, au_GrantMatcher = m_Regex m, au_ApprovalMatcher = no_matcher,
     au_GrantExpiresTS = [], au_Task = None, au_GrantStdinBytes = 0\<rparr>"

fun first_host_matcher :: "engine \<Rightarrow> libs \<Rightarrow> Matcher list \<Rightarrow> string \<Rightarrow> Matcher option res" where
  "first_host_matcher E L [] command = Inr None"
| "first_host_matcher E L (m # ms) command = rbind (Matcher_Match E L m command) (\<lambda>matches.
     if matches then Inr (Some m) else first_host_matcher E L ms command)"

text \<open>The candidate of a request that needs a decision.\<close>

definition candidate_auth :: "engine \<Rightarrow> string \<Rightarrow> string \<Rightarrow> string \<Rightarrow> Decision \<Rightarrow> Authorization res" where
  "candidate_auth E mode command stdin d =
     (case Generalize E command mode of
        Inl e \<Rightarrow> if e = ErrNULCommand \<or> e = ErrInvalidUTF8Command then Inr (plain_auth AuthHardDeny d) else Inl e
      | Inr m \<Rightarrow>
          (if stdin = [] then Inr ((plain_auth AuthNeedsApproval d)\<lparr>au_ApprovalMatcher := m\<rparr>)
           else rbind (Exact E command) (\<lambda>x.
             Inr ((plain_auth AuthNeedsApproval d)\<lparr>au_ApprovalMatcher := x\<lparr>m_Promotable := False\<rparr>\<rparr>))))"

definition undecided_auth :: "engine \<Rightarrow> libs \<Rightarrow> (string \<Rightarrow> string) \<Rightarrow> Config \<Rightarrow> string \<Rightarrow> string \<Rightarrow> string \<Rightarrow> string \<Rightarrow> Decision \<Rightarrow> Authorization res" where
  "undecided_auth E L H cfg mode host command stdin d =
     rbind (if stdin = [] then first_host_matcher E L (snd (splitPolicy E cfg host)) command else Inr None) (\<lambda>found.
       case found of Some m \<Rightarrow> Inr (host_auth H m) | None \<Rightarrow> candidate_auth E mode command stdin d)"

definition authorize :: "engine \<Rightarrow> libs \<Rightarrow> (string \<Rightarrow> string) \<Rightarrow> instant \<Rightarrow> Config \<Rightarrow> Inventory \<Rightarrow> store \<Rightarrow> RuntimeConfig \<Rightarrow>
    string \<Rightarrow> string \<Rightarrow> string \<Rightarrow> string \<Rightarrow> string \<Rightarrow> store \<times> Authorization res" where
  "authorize E L H now cfg iv st rt sid host command stdin claimReqID =
     (if \<not> rt_Enabled rt then
        (st, rbind (NewEngine (eng_compile E) (if stdin \<noteq> [] then fst (splitPolicy E cfg host) else cfg) iv) (\<lambda>e.
           let d = Evaluate e host command in
           Inr (case settled d of Some a \<Rightarrow> a | None \<Rightarrow> plain_auth AuthNeedsApproval d)))
      else case NewEngine (eng_compile E) (fst (splitPolicy E cfg host)) iv of
        Inl err \<Rightarrow> (st, Inl err)
      | Inr e \<Rightarrow>
          (let d = Evaluate e host command in
           case settled d of
             Some a \<Rightarrow> (st, Inr a)
           | None \<Rightarrow>
               (let (st', r) = (if claimReqID \<noteq> [] then store_Claim E L H now st sid host command stdin claimReqID
                                else (st, store_Preview E L H now st sid host command stdin))
                in (st', rbind r (\<lambda>found. case found of
                      Some g \<Rightarrow> Inr (grant_auth e host command g)
                    | None \<Rightarrow> undecided_auth E L H cfg (rt_HostGrantMode rt) host command stdin d)))))"

definition Authorize :: "engine \<Rightarrow> libs \<Rightarrow> (string \<Rightarrow> string) \<Rightarrow> instant \<Rightarrow> Config \<Rightarrow> Inventory \<Rightarrow> store \<Rightarrow> RuntimeConfig \<Rightarrow>
    string \<Rightarrow> string \<Rightarrow> string \<Rightarrow> string \<Rightarrow> string \<Rightarrow> store \<times> Authorization res" where
  "Authorize E L H now cfg iv st rt sid host command stdin reqID =
     (if reqID = [] then (st, Inl (Errorf ''authorize requires a request id'' []))
      else authorize E L H now cfg iv st rt sid host command stdin reqID)"

definition PreflightAuthorize :: "engine \<Rightarrow> libs \<Rightarrow> (string \<Rightarrow> string) \<Rightarrow> instant \<Rightarrow> Config \<Rightarrow> Inventory \<Rightarrow> store \<Rightarrow> RuntimeConfig \<Rightarrow>
    string \<Rightarrow> string \<Rightarrow> string \<Rightarrow> string \<Rightarrow> Authorization res" where
  "PreflightAuthorize E L H now cfg iv st rt sid host command stdin =
     snd (authorize E L H now cfg iv st rt sid host command stdin [])"

section \<open>Lemmas: decisions\<close>

lemma settled_None: "settled d = None \<longleftrightarrow> Dec_Action d \<noteq> ActionAllow \<and> Dec_Rule d = RuleDefaultDeny"
  by (simp add: settled_def)

lemma plain_auth_sel [simp]: "au_Status (plain_auth s d) = s" "au_Decision (plain_auth s d) = d"
  by (simp_all add: plain_auth_def)

lemma settled_status: "settled d = Some a \<Longrightarrow> au_Status a = AuthAllow \<or> au_Status a = AuthHardDeny"
  by (auto simp: settled_def split: if_splits)

text \<open>The look-up of the grants: a claim under a request identifier, a preview without one.\<close>

definition grant_lookup :: "engine \<Rightarrow> libs \<Rightarrow> (string \<Rightarrow> string) \<Rightarrow> instant \<Rightarrow> store \<Rightarrow> string \<Rightarrow> string \<Rightarrow> string \<Rightarrow> string \<Rightarrow> string \<Rightarrow>
    store \<times> Grant option res" where
  "grant_lookup E L H now st sid host command stdin claimReqID =
     (if claimReqID \<noteq> [] then store_Claim E L H now st sid host command stdin claimReqID
      else (st, store_Preview E L H now st sid host command stdin))"

definition answer :: "engine \<Rightarrow> libs \<Rightarrow> (string \<Rightarrow> string) \<Rightarrow> Config \<Rightarrow> string \<Rightarrow> string \<Rightarrow> string \<Rightarrow> string \<Rightarrow> compiledEngine \<Rightarrow>
    Grant option \<Rightarrow> Authorization res" where
  "answer E L H cfg mode host command stdin e found = (case found of
     Some g \<Rightarrow> Inr (grant_auth e host command g)
   | None \<Rightarrow> undecided_auth E L H cfg mode host command stdin (Evaluate e host command))"

lemma authorize_undecided:
  assumes "rt_Enabled rt" and "NewEngine (eng_compile E) (clean_policy cfg) iv = Inr e" and "settled (Evaluate e host command) = None"
  shows "authorize E L H now cfg iv st rt sid host command stdin r =
    (fst (grant_lookup E L H now st sid host command stdin r),
     rbind (snd (grant_lookup E L H now st sid host command stdin r)) (answer E L H cfg (rt_HostGrantMode rt) host command stdin e))"
  using assms by (auto simp: authorize_def grant_lookup_def splitPolicy_def answer_def [abs_def] Let_def case_prod_beta)

lemma authorize_settled:
  assumes "rt_Enabled rt" and "NewEngine (eng_compile E) (clean_policy cfg) iv = Inr e" and "settled (Evaluate e host command) = Some a"
  shows "authorize E L H now cfg iv st rt sid host command stdin r = (st, Inr a)"
  using assms by (simp add: authorize_def splitPolicy_def Let_def)

lemma authorize_engine_error:
  assumes "rt_Enabled rt" and "NewEngine (eng_compile E) (clean_policy cfg) iv = Inl err"
  shows "authorize E L H now cfg iv st rt sid host command stdin r = (st, Inl err)"
  using assms by (simp add: authorize_def splitPolicy_def)

text \<open>A grant or a request for one can only come out of an undecided, enabled authorization.\<close>

lemma authorize_by_grant:
  assumes "authorize E L H now cfg iv st rt sid host command stdin r = (st', Inr a)"
    and "au_Status a = AuthAllowByGrant \<or> au_Status a = AuthNeedsApproval \<and> rt_Enabled rt"
  shows "\<exists>e found. rt_Enabled rt \<and> NewEngine (eng_compile E) (clean_policy cfg) iv = Inr e \<and> settled (Evaluate e host command) = None \<and>
    grant_lookup E L H now st sid host command stdin r = (st', Inr found) \<and>
    answer E L H cfg (rt_HostGrantMode rt) host command stdin e found = Inr a"
proof (cases "rt_Enabled rt")
  case False
  then show ?thesis using assms
    by (auto simp: authorize_def rbind_iffs Let_def settled_def split: option.splits if_splits)
next
  case True
  then obtain e where e: "NewEngine (eng_compile E) (clean_policy cfg) iv = Inr e"
    using assms(1) authorize_engine_error [OF True]
    by (cases "NewEngine (eng_compile E) (clean_policy cfg) iv") auto
  moreover have s: "settled (Evaluate e host command) = None"
    using authorize_settled [OF True e, of host command] assms settled_status by (cases "settled (Evaluate e host command)") fastforce+
  ultimately show ?thesis using assms(1) True authorize_undecided [OF True e s, of L H now st sid stdin r]
    by (cases "grant_lookup E L H now st sid host command stdin r") (auto simp: rbind_iffs)
qed

lemma first_host_matcher_Some: "first_host_matcher E L ms command = Inr (Some m) \<Longrightarrow> m \<in> set ms \<and> Matcher_Match E L m command = Inr True"
  by (induction ms) (auto simp: rbind_iffs split: if_splits)

lemma host_matchers_rule:
  assumes "m \<in> set (host_matchers E cfg host)"
  shows "\<exists>ov rule. gget (cOverrides cfg) (HostRulesKey host) = Some ov \<and> rule \<in> set (Override_Rules ov) \<and>
    Rule_Group rule = ApprovalGroup \<and> CheckHostGrantRule E rule = Inr () \<and> m = host_matcher rule"
  using assms by (cases "gget (cOverrides cfg) (HostRulesKey host)") (auto simp: host_matchers_def)

lemma candidate_status: "candidate_auth E mode command stdin d = Inr a \<Longrightarrow> au_Status a \<noteq> AuthAllowByGrant"
  by (auto simp: candidate_auth_def rbind_iffs split: sum.splits if_splits)

lemma undecided_by_rule:
  assumes "undecided_auth E L H cfg mode host command stdin d = Inr a" and "au_Status a = AuthAllowByGrant"
  shows "stdin = [] \<and> (\<exists>ov rule. gget (cOverrides cfg) (HostRulesKey host) = Some ov \<and> rule \<in> set (Override_Rules ov) \<and>
    Rule_Group rule = ApprovalGroup \<and> CheckHostGrantRule E rule = Inr () \<and>
    Matcher_Match E L (host_matcher rule) command = Inr True)"
proof -
  obtain m where "stdin = []" "first_host_matcher E L (host_matchers E cfg host) command = Inr (Some m)"
    using assms candidate_status by (fastforce simp: undecided_auth_def splitPolicy_def rbind_iffs split: if_splits option.splits)
  then show ?thesis using first_host_matcher_Some host_matchers_rule by blast
qed

lemma grant_auth_status: "au_Status (grant_auth e host command g) = AuthAllowByGrant \<longleftrightarrow>
   \<not> (g_Scope g = ScopeTask \<and> denied_form e host command \<noteq> None)"
  "au_Status (grant_auth e host command g) \<noteq> AuthNeedsApproval"
  by (auto simp: grant_auth_def split: option.splits)

text \<open>What a successful claim proves of its grant.\<close>

definition sound_grant :: "engine \<Rightarrow> libs \<Rightarrow> instant \<Rightarrow> string \<Rightarrow> string \<Rightarrow> string \<Rightarrow> string \<Rightarrow> Grant \<Rightarrow> bool" where
  "sound_grant E L now host command stdin reqID g \<longleftrightarrow> g_Host g = host \<and> g_StdinSHA256 g = stdin \<and> live now g \<and> \<not> malformed g \<and>
     Matcher_Match E L (grant_matcher g) command = Inr True \<and> (g_Scope g = ScopeOnce \<longrightarrow> g_ClaimReqID g = reqID)"

lemma claim_sound_grant:
  assumes "store_Claim E L H now st sid host command stdin reqID = (st', Inr (Some g))"
  shows "sound_grant E L now host command stdin reqID g \<and> g \<in> set (sf_Grants (session_doc H st' sid))"
proof -
  have r: "reqID \<noteq> []" and "store_match E L H now st sid host command stdin reqID = (st', Inr (Some g))"
    using assms by (auto simp: store_Claim_def split: if_splits)
  from store_match_SomeD [OF this(2)] obtain doc doc' g0
    where d: "readSessionFile st' (sessionPath H sid) = Inr doc'" "g \<in> set (sf_Grants doc')"
      and f: "find (usable E L host command stdin reqID) (filterLiveGrants (sf_Grants (upgrade E doc)) now) = Some g0"
      and g: "g = claim_grant now reqID g0" by blast
  have "usable E L host command stdin reqID g0" "live now g0" using find_SomeD [OF f] by (auto simp: filterLiveGrants_def)
  moreover have "g_Scope g = ScopeOnce \<longrightarrow> g_ClaimReqID g = reqID" using r by (auto simp: g claim_grant_def)
  ultimately show ?thesis using d by (auto simp: g usable_def not_for_def session_doc_def sound_grant_def)
qed

section \<open>Lemmas: the preview and the claim\<close>

text \<open>A document no grant of which the request already holds answers the claim and the preview alike.\<close>

lemma usable_fresh: "g_ClaimReqID g \<noteq> reqID \<Longrightarrow> usable E L host command stdin reqID g = usable E L host command stdin [] g"
  by (auto simp: usable_def not_for_def)

lemma find_cong_on: "(\<And>x. x \<in> set xs \<Longrightarrow> P x = Q x) \<Longrightarrow> find P xs = find Q xs"
  by (induction xs) auto

lemma grant_auth_claim: "grant_auth e host command (claim_grant now r g) = grant_auth e host command g"
  by (cases g) (simp add: grant_auth_def claim_grant_def split: option.split)

lemma match_doc_fresh:
  assumes "\<forall>g \<in> set (sf_Grants doc). g_ClaimReqID g \<noteq> reqID"
  shows "rbind (match_doc E L now sid host command stdin reqID doc) (\<lambda>(d, found). Inr found) =
    rbind (match_doc E L now sid host command stdin [] doc) (\<lambda>(d, found). Inr (map_option (claim_grant now reqID) found))"
proof -
  have "find (usable E L host command stdin reqID) (filterLiveGrants (sf_Grants doc) now) =
      find (usable E L host command stdin []) (filterLiveGrants (sf_Grants doc) now)"
    using assms by (intro find_cong_on usable_fresh) (auto simp: filterLiveGrants_def)
  then show ?thesis by (simp add: match_doc_def Let_def case_prod_beta matchLoop_matched)
qed

lemma withLocked_result: "snd (withLockedSession E H st sid fn) =
   (if sid = [] then Inl (Errorf ''approval session id is required'' [])
    else rbind (readSessionFile st (sessionPath H sid)) (\<lambda>doc. rbind (fn (upgrade E doc)) (\<lambda>(d, x). Inr x)))"
  by (auto simp: withLockedSession_def split: sum.splits)

lemma claim_fresh:
  assumes "reqID \<noteq> []" and "\<forall>g \<in> set (sf_Grants (upgrade E (session_doc H st sid))). g_ClaimReqID g \<noteq> reqID"
  shows "snd (store_Claim E L H now st sid host command stdin reqID) =
    rbind (store_Preview E L H now st sid host command stdin) (\<lambda>found. Inr (map_option (claim_grant now reqID) found))"
proof (cases "sid = []")
  case True
  then show ?thesis using assms(1) by (simp add: store_Claim_def store_match_def store_Preview_def)
next
  case False
  show ?thesis
  proof (cases "readSessionFile st (sessionPath H sid)")
    case (Inl e)
    then show ?thesis using False assms(1)
      by (simp add: preview_peek store_Peek_def store_Claim_def store_match_def withLocked_result)
  next
    case (Inr doc)
    then have "\<forall>g \<in> set (sf_Grants (upgrade E doc)). g_ClaimReqID g \<noteq> reqID" using assms(2) by (simp add: session_doc_def)
    from match_doc_fresh [OF this, of E L now sid host command stdin] show ?thesis using False Inr assms(1)
      by (cases "match_doc E L now sid host command stdin [] (upgrade E doc)")
        (auto simp: preview_peek store_Peek_def store_Claim_def store_match_def withLocked_result)
  qed
qed

lemma answer_claim: "answer E L H cfg mode host command stdin e (map_option (claim_grant now r) found) =
   answer E L H cfg mode host command stdin e found"
  by (cases found) (simp_all add: answer_def grant_auth_claim)

section \<open>Lemmas: approving a request\<close>

lemma live_mono: "live now' g \<Longrightarrow> now \<le> now' \<Longrightarrow> live now g"
  by (auto simp: live_def split: option.splits)

lemma claim_None:
  assumes "store_Claim E L H now st sid host command stdin r = (st', Inr None)" and "sid \<noteq> []"
    and "readSessionFile st (sessionPath H sid) = Inr doc" and "doc_ok sid doc"
  shows "\<exists>doc'. readSessionFile st' (sessionPath H sid) = Inr doc' \<and> doc_ok sid doc' \<and>
    (\<forall>x \<in> set (sf_Grants doc'). live now x \<longrightarrow> \<not> usable E L host command stdin r x)"
proof -
  let ?live = "filterLiveGrants (sf_Grants doc) now"
  let ?l = "matchLoop E L now host command stdin r ?live ([], length ?live \<noteq> length (sf_Grants doc), None)"
  have w: "withLockedSession E H st sid (match_doc E L now sid host command stdin r) = (st', Inr None)"
    using assms(1,2) by (auto simp: store_Claim_def store_match_def split: if_splits)
  from withLocked_cases [OF this assms(2)] assms(3) doc_ok_upgrade [OF assms(4), of E] obtain doc'
    where d: "match_doc E L now sid host command stdin r doc = Inr (doc', None)" "readSessionFile st' (sessionPath H sid) = Inr doc'" by auto
  have ok: "doc_ok sid doc'" using match_doc_ok [OF d(1) assms(4)] by blast
  have "\<not> usable E L host command stdin r x" if x: "x \<in> set (sf_Grants doc')" "live now x" for x
  proof (cases "sf_SessionID doc = []")
    case True
    then show ?thesis using d(1) assms(4) x(1) by (simp add: match_doc_def doc_ok_def no_session_def)
  next
    case False
    then have m: "snd (snd ?l) = None" and e: "doc' = (if fst (snd ?l) then doc\<lparr>sf_Grants := fst ?l, sf_Updated := format_time now\<rparr> else doc)"
      using d(1) by (auto simp: match_doc_def Let_def case_prod_beta split: if_splits)
    have n: "find (usable E L host command stdin r) ?live = None" using m by (simp add: matchLoop_matched)
    then have u: "\<not> usable E L host command stdin r y" if "y \<in> set ?live" for y using that by (auto simp: find_None_iff)
    have "x \<in> set ?live"
    proof (cases "fst (snd ?l)")
      case True
      then have "x \<in> set (fst ?l)" using x e by simp
      then show ?thesis using matchLoop_members [of x E L now host command stdin r ?live "[]"] u by auto
    qed (use x e in \<open>auto simp: filterLiveGrants_def\<close>)
    then show ?thesis by (rule u)
  qed
  then show ?thesis using d(2) ok by blast
qed

lemma grant_into:
  assumes "readSessionFile st (sessionPath H sid) = Inr doc" and "doc_ok sid doc" and "sid \<noteq> []"
    and "scope = ScopeOnce \<or> scope = ScopeSession" and "m_Kind m \<noteq> MatcherTask"
    and "store_Grant E L H now st sid host scope m stdin sz aid reqID ttl channel = (st', r)"
  shows "\<exists>doc' pre. readSessionFile st' (sessionPath H sid) = Inr doc' \<and> doc_ok sid doc' \<and> sf_SessionID doc' = sid \<and>
    sf_Grants doc' = pre @ [new_grant now host scope m stdin sz aid reqID ttl channel] \<and> set pre \<subseteq> set (sf_Grants doc)"
proof -
  let ?g = "new_grant now host scope m stdin sz aid reqID ttl channel"
  have w: "withLockedSession E H st sid (insert_grant now sid ?g) = (st', r)"
    using assms(4-6) by (auto simp: store_Grant_def scopes)
  obtain doc' x where i: "insert_grant now sid ?g doc = Inr (doc', x)"
    using assms(2,3) by (auto simp: insert_grant_def Let_def doc_ok_def no_session_def split: if_splits)
  have "readSessionFile st' (sessionPath H sid) = Inr doc'"
    using withLocked_Inr [OF w assms(3,1)] i doc_ok_upgrade [OF assms(2), of E] by simp
  moreover have "doc_ok sid doc'" using insert_grant_ok [OF i assms(2,3)] by blast
  ultimately show ?thesis using i by (auto simp: insert_grant_def Let_def filterLiveGrants_def split: if_splits)
qed

lemma claim_first:
  assumes "readSessionFile st (sessionPath H sid) = Inr doc" and "doc_ok sid doc" and "sf_SessionID doc = sid" and "sid \<noteq> []" and "r \<noteq> []"
    and "find (usable E L host command stdin r) (filterLiveGrants (sf_Grants doc) now) = Some g"
  shows "snd (store_Claim E L H now st sid host command stdin r) = Inr (Some (claim_grant now r g))"
  using assms doc_ok_upgrade [OF assms(2), of E]
  by (simp add: store_Claim_def store_match_def withLocked_result match_doc_def Let_def case_prod_beta matchLoop_matched)

text \<open>The candidate of a request covers its command.\<close>

lemma minted_kind: "minted m c \<Longrightarrow> m_Kind m \<noteq> MatcherTask"
  by (auto simp: minted_def matcher_kinds)

lemma Matcher_Match_same: "m_Kind m \<noteq> MatcherTask \<Longrightarrow> m_Kind m' = m_Kind m \<Longrightarrow> m_Regex m' = m_Regex m \<Longrightarrow>
   Matcher_Match E L m' c = Matcher_Match E L m c"
  by (simp add: Matcher_Match_def)

lemma candidate_minted:
  assumes "candidate_auth (go_engine other) mode command stdin d = Inr a" and "au_Status a = AuthNeedsApproval"
  shows "\<exists>m. minted m command \<and> (stdin = [] \<longrightarrow> au_ApprovalMatcher a = m) \<and>
    (stdin \<noteq> [] \<longrightarrow> m_Kind m = MatcherExact \<and> au_ApprovalMatcher a = m\<lparr>m_Promotable := False\<rparr>)"
proof -
  obtain m where m: "Generalize (go_engine other) command mode = Inr m"
    using assms by (auto simp: candidate_auth_def split: sum.splits if_splits)
  note g = Generalize_minted [OF m]
  then have v: "CHR 0x00 \<notin> set command" "valid_string command" by (auto simp: minted_def)
  show ?thesis
  proof (cases "stdin = []")
    case True
    then show ?thesis using assms m g by (auto simp: candidate_auth_def)
  next
    case False
    then obtain x where "Exact (go_engine other) command = Inr x" "au_ApprovalMatcher a = x\<lparr>m_Promotable := False\<rparr>"
      using assms(1) m by (auto simp: candidate_auth_def rbind_iffs)
    then show ?thesis using False v by (intro exI [of _ x]) (auto simp: go.Exact_cases minted_def)
  qed
qed

lemma undecided_candidate:
  assumes "undecided_auth E L H cfg mode host command stdin d = Inr a" and "au_Status a = AuthNeedsApproval"
  shows "candidate_auth E mode command stdin d = Inr a"
  using assms by (auto simp: undecided_auth_def rbind_iffs host_auth_def split: option.splits)

lemma needs_approval:
  assumes "Authorize E L H now cfg iv st rt sid host command stdin reqID = (st', Inr a)" and "au_Status a = AuthNeedsApproval" and "rt_Enabled rt"
  shows "reqID \<noteq> [] \<and> (\<exists>e. NewEngine (eng_compile E) (clean_policy cfg) iv = Inr e \<and> settled (Evaluate e host command) = None \<and>
    store_Claim E L H now st sid host command stdin reqID = (st', Inr None) \<and>
    candidate_auth E (rt_HostGrantMode rt) command stdin (Evaluate e host command) = Inr a)"
proof -
  have r: "reqID \<noteq> []" and "authorize E L H now cfg iv st rt sid host command stdin reqID = (st', Inr a)"
    using assms(1) by (auto simp: Authorize_def split: if_splits)
  from authorize_by_grant [OF this(2)] assms(2,3) obtain e found where e: "NewEngine (eng_compile E) (clean_policy cfg) iv = Inr e"
    "settled (Evaluate e host command) = None" "grant_lookup E L H now st sid host command stdin reqID = (st', Inr found)"
    "answer E L H cfg (rt_HostGrantMode rt) host command stdin e found = Inr a" by blast
  have "found = None" using e(4) assms(2) grant_auth_status(2) by (cases found) (auto simp: answer_def)
  then show ?thesis using e r undecided_candidate [OF _ assms(2)] by (auto simp: answer_def grant_lookup_def)
qed

text \<open>What authorises a run by a grant: a live grant of the session that covers the command, or an approval rule
  of the host.\<close>

definition granted :: "engine \<Rightarrow> libs \<Rightarrow> (string \<Rightarrow> string) \<Rightarrow> instant \<Rightarrow> Config \<Rightarrow> store \<Rightarrow> string \<Rightarrow> string \<Rightarrow> string \<Rightarrow> string \<Rightarrow> string \<Rightarrow>
    compiledEngine \<Rightarrow> bool" where
  "granted E L H now cfg st sid host command stdin reqID e \<longleftrightarrow>
     (\<exists>g \<in> set (sf_Grants (session_doc H st sid)). sound_grant E L now host command stdin reqID g \<and>
        (g_Scope g = ScopeTask \<longrightarrow> denied_form e host command = None)) \<or>
     stdin = [] \<and> (\<exists>ov rule. gget (cOverrides cfg) (HostRulesKey host) = Some ov \<and> rule \<in> set (Override_Rules ov) \<and>
        Rule_Group rule = ApprovalGroup \<and> CheckHostGrantRule E rule = Inr () \<and>
        Matcher_Match E L (host_matcher rule) command = Inr True)"

lemma authorize_granted:
  assumes "Authorize E L H now cfg iv st rt sid host command stdin reqID = (st', Inr a)" and "au_Status a = AuthAllowByGrant"
  shows "rt_Enabled rt \<and> (\<exists>e. NewEngine (eng_compile E) (clean_policy cfg) iv = Inr e \<and>
    Dec_Rule (Evaluate e host command) = RuleDefaultDeny \<and> granted E L H now cfg st' sid host command stdin reqID e)"
proof -
  have r: "reqID \<noteq> []" and "authorize E L H now cfg iv st rt sid host command stdin reqID = (st', Inr a)"
    using assms(1) by (auto simp: Authorize_def split: if_splits)
  from authorize_by_grant [OF this(2)] assms(2) obtain e found where e: "rt_Enabled rt" "NewEngine (eng_compile E) (clean_policy cfg) iv = Inr e"
    "settled (Evaluate e host command) = None" "grant_lookup E L H now st sid host command stdin reqID = (st', Inr found)"
    "answer E L H cfg (rt_HostGrantMode rt) host command stdin e found = Inr a" by blast
  have d: "Dec_Rule (Evaluate e host command) = RuleDefaultDeny" using e(3) by (simp add: settled_None)
  show ?thesis
  proof (cases found)
    case (Some g)
    then have "store_Claim E L H now st sid host command stdin reqID = (st', Inr (Some g))"
      using e(4) r by (simp add: grant_lookup_def)
    from claim_sound_grant [OF this] show ?thesis using e d assms(2) Some
      by (auto simp: answer_def grant_auth_status granted_def)
  next
    case None
    then show ?thesis using e d undecided_by_rule [OF _ assms(2)] by (auto simp: answer_def granted_def)
  qed
qed

lemma answer_not_allow: "answer E L H cfg mode host command stdin e found = Inr a \<Longrightarrow> au_Status a \<noteq> AuthAllow"
  by (auto simp: answer_def grant_auth_def undecided_auth_def candidate_auth_def host_auth_def rbind_iffs split: option.splits if_splits sum.splits)

text \<open>What authorises a run by the policy: an allow rule, of the operator's own when approvals are on.\<close>

lemma authorize_allowed:
  assumes "Authorize E L H now cfg iv st rt sid host command stdin reqID = (st', Inr a)" and "au_Status a = AuthAllow"
  shows "\<exists>e. NewEngine (eng_compile E) (if rt_Enabled rt \<or> stdin \<noteq> [] then clean_policy cfg else cfg) iv = Inr e \<and>
    Dec_Action (Evaluate e host command) = ActionAllow"
proof -
  have a: "authorize E L H now cfg iv st rt sid host command stdin reqID = (st', Inr a)"
    using assms(1) by (auto simp: Authorize_def split: if_splits)
  have s: "Dec_Action d = ActionAllow" if "settled d = Some x" "au_Status x = AuthAllow" for d x
    using that by (auto simp: settled_def split: if_splits)
  show ?thesis
  proof (cases "rt_Enabled rt")
    case False
    then show ?thesis using a s assms(2)
      by (auto simp: authorize_def rbind_iffs Let_def splitPolicy_def split: option.splits if_splits)
  next
    case True
    then obtain e where e: "NewEngine (eng_compile E) (clean_policy cfg) iv = Inr e"
      using a authorize_engine_error [OF True] by (cases "NewEngine (eng_compile E) (clean_policy cfg) iv") auto
    show ?thesis
    proof (cases "settled (Evaluate e host command)")
      case (Some x)
      then show ?thesis using a s e True assms(2) authorize_settled [OF True e Some] by auto
    next
      case None
      then obtain found where "answer E L H cfg (rt_HostGrantMode rt) host command stdin e found = Inr a"
        using a unfolding authorize_undecided [OF True e None] by (auto simp: rbind_iffs)
      from answer_not_allow [OF this] show ?thesis using assms(2) by simp
    qed
  qed
qed

section \<open>Properties\<close>

text \<open>C1. A run is authorised by a grant only when approvals are on, the operator's own rules do not decide the
  command, and either a live grant of the session for this host and this exact stdin covers it (held
  by this request if it is a once grant, and with no plain form of the command denied if it is a task
  grant), or, without stdin, an approval rule of this very host that passes its check covers it.\<close>

theorem authorize_grant_sound:
  assumes "Authorize E L H now cfg iv st rt sid host command stdin reqID = (st', Inr a)" and "au_Status a = AuthAllowByGrant"
  shows "rt_Enabled rt \<and> (\<exists>e. NewEngine (eng_compile E) (clean_policy cfg) iv = Inr e \<and>
    Dec_Rule (Evaluate e host command) = RuleDefaultDeny \<and>
    ((\<exists>g \<in> set (sf_Grants (session_doc H st' sid)). sound_grant E L now host command stdin reqID g \<and>
        (g_Scope g = ScopeTask \<longrightarrow> denied_form e host command = None)) \<or>
     stdin = [] \<and> (\<exists>ov rule. gget (cOverrides cfg) (HostRulesKey host) = Some ov \<and> rule \<in> set (Override_Rules ov) \<and>
        Rule_Group rule = ApprovalGroup \<and> CheckHostGrantRule E rule = Inr () \<and>
        Matcher_Match E L (host_matcher rule) command = Inr True)))"
  using authorize_granted [OF assms] unfolding granted_def .

text \<open>C2. What the operator's own rules deny stays denied, whatever has been approved: the stored grants are
  not even looked at.\<close>

theorem operator_deny_final:
  assumes "rt_Enabled rt" and "NewEngine (eng_compile E) (clean_policy cfg) iv = Inr e" and "explicit_deny (Evaluate e host command)"
    and "reqID \<noteq> []"
  shows "Authorize E L H now cfg iv st rt sid host command stdin reqID = (st, Inr (plain_auth AuthHardDeny (Evaluate e host command)))"
proof -
  have "settled (Evaluate e host command) = Some (plain_auth AuthHardDeny (Evaluate e host command))"
    using assms(3) by (simp add: explicit_deny_def settled_def ActionAllow_def ActionDeny_def)
  then show ?thesis using authorize_settled [OF assms(1,2)] assms(4) by (simp add: Authorize_def)
qed

text \<open>The preflight of a run answers exactly what its execution will be answered in the same state, for a
  request that holds no claim yet.\<close>

theorem preflight_agrees:
  assumes "reqID \<noteq> []" and "\<forall>g \<in> set (sf_Grants (upgrade E (session_doc H st sid))). g_ClaimReqID g \<noteq> reqID"
  shows "snd (Authorize E L H now cfg iv st rt sid host command stdin reqID) =
    PreflightAuthorize E L H now cfg iv st rt sid host command stdin"
proof -
  note c = claim_fresh [OF assms, of L now host command stdin]
  have "snd (authorize E L H now cfg iv st rt sid host command stdin reqID) = snd (authorize E L H now cfg iv st rt sid host command stdin [])"
  proof (cases "rt_Enabled rt")
    case True
    show ?thesis
    proof (cases "NewEngine (eng_compile E) (clean_policy cfg) iv")
      case (Inl err)
      then show ?thesis by (simp add: authorize_engine_error [OF True])
    next
      case (Inr e)
      show ?thesis
      proof (cases "settled (Evaluate e host command)")
        case None
        then show ?thesis using c assms(1) unfolding authorize_undecided [OF True Inr None] grant_lookup_def
          by (cases "store_Preview E L H now st sid host command stdin") (simp_all add: answer_claim)
      next
        case (Some a)
        then show ?thesis by (simp add: authorize_settled [OF True Inr])
      qed
    qed
  qed (simp add: authorize_def)
  then show ?thesis using assms(1) by (simp add: Authorize_def PreflightAuthorize_def)
qed

text \<open>The matcher a request offers for approval covers the command it was made for; with stdin it covers,
  among valid texts, no other command and can never become a rule of the host.\<close>

theorem candidate_covers_command:
  assumes "Authorize (go_engine other) L H now cfg iv st rt sid host command stdin reqID = (st', Inr a)"
    and "au_Status a = AuthNeedsApproval" and "rt_Enabled rt"
  shows "Matcher_Match (go_engine other) L (au_ApprovalMatcher a) command = Inr True \<and>
    (stdin \<noteq> [] \<longrightarrow> \<not> m_Promotable (au_ApprovalMatcher a) \<and>
       (\<forall>t. valid_string t \<longrightarrow> Matcher_Match (go_engine other) L (au_ApprovalMatcher a) t = Inr (t = command)))"
proof -
  from needs_approval [OF assms] candidate_minted [OF _ assms(2)] obtain m where m: "minted m command"
    "stdin = [] \<longrightarrow> au_ApprovalMatcher a = m" "stdin \<noteq> [] \<longrightarrow> m_Kind m = MatcherExact \<and> au_ApprovalMatcher a = m\<lparr>m_Promotable := False\<rparr>" by blast
  have p: "Matcher_Match E L (m\<lparr>m_Promotable := False\<rparr>) t = Matcher_Match E L m t" for E t
    by (rule Matcher_Match_same [OF minted_kind [OF m(1)]]) simp_all
  have c: "Matcher_Match (go_engine other) L (au_ApprovalMatcher a) command = Inr True"
    using m minted_Match [OF m(1), of other L] p by (cases "stdin = []") simp_all
  have "Matcher_Match (go_engine other) L (au_ApprovalMatcher a) t = Inr (t = command)" if "stdin \<noteq> []" "valid_string t" for t
  proof -
    have k: "m_Kind m = MatcherExact" "m_Regex m = exact_pattern command" "valid_string command"
      using m that by (auto simp: minted_def matcher_kinds)
    show ?thesis using Matcher_Match_exact [OF k, of other L t] runes_inj [OF that(2) k(3)] m(3) that p by auto
  qed
  then show ?thesis using c m(3) by auto
qed

text \<open>An approval takes effect: once the operator grants the candidate of a request, for once or for the
  session, the same command with the same stdin is authorised under any request identifier until the
  grant expires.\<close>

theorem approval_takes_effect:
  assumes "session_run (go_engine other) L H sid st issued consumed" and "sid \<noteq> []" and "rt_Enabled rt"
    and "Authorize (go_engine other) L H now cfg iv st rt sid host command stdin reqID = (st1, Inr a)" and "au_Status a = AuthNeedsApproval"
    and "scope = ScopeOnce \<or> scope = ScopeSession"
    and "store_Grant (go_engine other) L H now1 st1 sid host scope (au_ApprovalMatcher a) stdin sz aid reqID ttl channel = (st2, r)"
    and "now \<le> now1" and "now1 \<le> now2" and "live now2 (new_grant now1 host scope (au_ApprovalMatcher a) stdin sz aid reqID ttl channel)"
    and "reqID' \<noteq> []"
  shows "\<exists>a'. snd (Authorize (go_engine other) L H now2 cfg iv st2 rt sid host command stdin reqID') = Inr a' \<and>
    au_Status a' = AuthAllowByGrant"
proof -
  let ?E = "go_engine other"
  let ?g = "new_grant now1 host scope (au_ApprovalMatcher a) stdin sz aid reqID ttl channel"
  from needs_approval [OF assms(4,5,3)] obtain e where e: "NewEngine (eng_compile ?E) (clean_policy cfg) iv = Inr e"
    "settled (Evaluate e host command) = None" "store_Claim ?E L H now st sid host command stdin reqID = (st1, Inr None)"
    "candidate_auth ?E (rt_HostGrantMode rt) command stdin (Evaluate e host command) = Inr a" by blast
  from candidate_minted [OF e(4) assms(5)] obtain m where m: "minted m command"
    "stdin = [] \<longrightarrow> au_ApprovalMatcher a = m" "stdin \<noteq> [] \<longrightarrow> au_ApprovalMatcher a = m\<lparr>m_Promotable := False\<rparr>" by blast
  have k: "m_Kind (au_ApprovalMatcher a) \<noteq> MatcherTask" using m minted_kind [OF m(1)] by (cases "stdin = []") simp_all
  obtain doc where "readSessionFile st (sessionPath H sid) = Inr doc" "doc_ok sid doc"
    using session_run_ledger [OF assms(2,1)] by (auto simp: ledger_ok_def)
  from claim_None [OF e(3) assms(2) this] obtain doc1 where d1: "readSessionFile st1 (sessionPath H sid) = Inr doc1" "doc_ok sid doc1"
    "\<forall>x \<in> set (sf_Grants doc1). live now x \<longrightarrow> \<not> usable ?E L host command stdin reqID x" by blast
  from grant_into [OF d1(1,2) assms(2,6) k assms(7)] obtain doc2 pre where d2: "readSessionFile st2 (sessionPath H sid) = Inr doc2" "doc_ok sid doc2"
    "sf_SessionID doc2 = sid" "sf_Grants doc2 = pre @ [?g]" "set pre \<subseteq> set (sf_Grants doc1)" by blast
  have "Matcher_Match ?E L (grant_matcher ?g) command = Inr True"
    using m(2,3) minted_Match [OF m(1), of other L] Matcher_Match_same [OF minted_kind [OF m(1)], of "grant_matcher ?g" ?E L command]
    by (cases "stdin = []") (simp_all add: grant_matcher_def new_grant_def)
  then have u: "usable ?E L host command stdin reqID' ?g"
    using assms(6) k by (auto simp: usable_def not_for_def malformed_def new_grant_def scopes)
  then obtain x where x: "find (usable ?E L host command stdin reqID') (filterLiveGrants (sf_Grants doc2) now2) = Some x"
    using assms(10) d2(4) by (cases "find (usable ?E L host command stdin reqID') (filterLiveGrants (sf_Grants doc2) now2)")
      (auto simp: find_None_iff filterLiveGrants_def)
  have "g_Scope x \<noteq> ScopeTask"
  proof (cases "x = ?g")
    case True
    then show ?thesis using assms(6) by (auto simp: new_grant_def scopes)
  next
    case False
    have l: "live now2 x" "x \<in> set (sf_Grants doc2)" "usable ?E L host command stdin reqID' x"
      using find_SomeD [OF x] unfolding filterLiveGrants_def set_filter by blast+
    then have "x \<in> set (sf_Grants doc1)" "live now x"
      using False d2(4,5) live_mono [of now2 x now] assms(8,9) by auto
    then have "x \<in> set (sf_Grants doc1)" "live now x" "usable ?E L host command stdin reqID' x" using l by blast+
    then show ?thesis using d1(3) by (auto simp: usable_def not_for_def scopes)
  qed
  then have "au_Status (grant_auth e host command (claim_grant now2 reqID' x)) = AuthAllowByGrant"
    by (simp add: grant_auth_status)
  then show ?thesis using claim_first [OF d2(1-3) assms(2,11) x] assms(11)
    by (simp add: Authorize_def authorize_undecided [OF assms(3) e(1,2)] grant_lookup_def answer_def)
qed

section \<open>Concrete authorizations\<close>

definition no_policy :: Config where
  "no_policy = Config (witness_body [] []) None"

definition deny_ls :: Config where
  "deny_ls = Config (witness_body [witness_rule ''ls'' 0 ''deny''] []) None"

definition literal_only :: engine where
  "literal_only = \<lparr>eng_compile = literal_rx, eng_parse = (\<lambda>_. None)\<rparr>"

definition approvals_on :: RuntimeConfig where
  "approvals_on = \<lparr>rt_Enabled = True, rt_HostGrantMode = HostGrantExact, rt_SessionTTL = DefaultSessionTTL,
     rt_WaitTimeout = DefaultWaitTimeout, rt_TaskTTL = DefaultTaskTTL\<rparr>"

abbreviation no_hosts :: Inventory where "no_hosts \<equiv> witness_inv [] []"

lemma clean_policy_none: "clean_policy (Config (witness_body rules []) None) = Config (witness_body rules []) None"
  by (simp add: clean_policy_def upd_def witness_body_def)

lemma no_policy_engine: "NewEngine rx (clean_policy no_policy) no_hosts = Inr (baseEngine rx None no_policy no_hosts)"
  using NewEngine_None [of no_policy rx no_hosts] by (simp add: no_policy_def clean_policy_none config_ok_def)

lemma no_policy_decision: "Evaluate (baseEngine rx None no_policy no_hosts) host command = \<lparr>Dec_Action = ActionDeny, Dec_Rule = RuleDefaultDeny\<rparr>"
  by (simp add: Evaluate_base_None hostTier_none globalTier_def effRows.simps firstEffective_def decisionOf_def sortEffectiveRules_def no_policy_def)

lemma no_policy_undecided: "settled (Evaluate (baseEngine rx None no_policy no_hosts) host command) = None"
  by (simp add: no_policy_decision settled_None ActionAllow_def ActionDeny_def)

lemma ls_authorized: "Authorize ls_engine no_libs ls_path 0 no_policy no_hosts (ls_store [ls_grant [] []]) approvals_on ''s'' ''web'' ''ls'' [] ''q1'' =
   (ls_store [ls_grant ''q1'' (format_time 0)],
    Inr (grant_auth (baseEngine (eng_compile ls_engine) None no_policy no_hosts) ''web'' ''ls'' (ls_grant ''q1'' (format_time 0))))"
  using ls_claimed [of no_libs]
  by (simp add: Authorize_def authorize_undecided [OF _ no_policy_engine no_policy_undecided] approvals_on_def grant_lookup_def answer_def)

theorem authorize_grant_sound_witness: "rt_Enabled approvals_on"
proof -
  have "g_Scope (ls_grant ''q1'' (format_time 0)) = ScopeOnce" by (simp add: ls_grant_def new_grant_def)
  then show ?thesis using authorize_grant_sound [OF ls_authorized] by (simp add: grant_auth_status scopes)
qed

theorem operator_deny_final_witness:
  "Authorize literal_only no_libs ls_path 0 deny_ls no_hosts (ls_store [ls_grant [] []]) approvals_on ''s'' ''web'' ''ls'' [] ''q1'' =
   (ls_store [ls_grant [] []], Inr (plain_auth AuthHardDeny (Evaluate (baseEngine literal_rx None deny_ls no_hosts) ''web'' ''ls'')))"
proof -
  have n: "NewEngine (eng_compile literal_only) (clean_policy deny_ls) no_hosts = Inr (baseEngine literal_rx None deny_ls no_hosts)"
    using NewEngine_None [of deny_ls literal_rx no_hosts]
    by (simp add: deny_ls_def clean_policy_none literal_only_def config_ok_def ActionDeny_def)
  have "explicit_deny (Evaluate (baseEngine literal_rx None deny_ls no_hosts) ''web'' ''ls'')"
    by (simp add: explicit_deny_def Evaluate_base_None hostTier_none globalTier_def effRows.simps firstEffective_def decisionOf_def
      sortEffectiveRules_def deny_ls_def effSource_not_default effAction_def ActionDeny_def)
  from operator_deny_final [OF _ n this] show ?thesis by (simp add: approvals_on_def)
qed

theorem preflight_agrees_witness:
  "PreflightAuthorize ls_engine no_libs ls_path 0 no_policy no_hosts (ls_store [ls_grant [] []]) approvals_on ''s'' ''web'' ''ls'' [] =
   Inr (grant_auth (baseEngine (eng_compile ls_engine) None no_policy no_hosts) ''web'' ''ls'' (ls_grant ''q1'' (format_time 0)))"
proof -
  have "\<forall>g \<in> set (sf_Grants (upgrade ls_engine (session_doc ls_path (ls_store [ls_grant [] []]) ''s''))). g_ClaimReqID g \<noteq> ''q1''"
    by (simp add: session_doc_def ls_path_read ls_upgrade) (simp add: ls_doc_def ls_grant_def)
  from preflight_agrees [OF _ this, of no_libs 0 no_policy no_hosts approvals_on "''web''" "''ls''" "[]"] show ?thesis
    by (simp add: ls_authorized)
qed

lemma ls_requested:
  "\<exists>st1 a. Authorize ls_engine no_libs ls_path 0 no_policy no_hosts [] approvals_on ''s'' ''web'' ''ls'' [] ''q1'' = (st1, Inr a) \<and>
    au_Status a = AuthNeedsApproval"
proof -
  have v: "valid_string ''ls''" by (simp add: valid_ascii ascii_def)
  obtain m where "Generalize ls_engine ''ls'' HostGrantExact = Inr m" using Generalize_cases [OF _ v, of no_engine HostGrantExact] by auto
  moreover have "store_Claim ls_engine no_libs ls_path 0 [] ''s'' ''web'' ''ls'' [] ''q1'' = ([], Inr None)"
    by (simp add: store_Claim_def store_match_def withLockedSession_def readSessionFile_def upgrade_def no_session_def match_doc_def)
  moreover have "host_matchers ls_engine no_policy ''web'' = []" by (simp add: host_matchers_def no_policy_def)
  ultimately show ?thesis
    by (simp add: Authorize_def authorize_undecided [OF _ no_policy_engine no_policy_undecided] approvals_on_def grant_lookup_def answer_def
      undecided_auth_def splitPolicy_def candidate_auth_def)
qed

theorem candidate_covers_command_witness:
  "\<exists>st1 a. Authorize ls_engine no_libs ls_path 0 no_policy no_hosts [] approvals_on ''s'' ''web'' ''ls'' [] ''q1'' = (st1, Inr a) \<and>
    Matcher_Match ls_engine no_libs (au_ApprovalMatcher a) ''ls'' = Inr True"
proof -
  obtain st1 a where a: "Authorize ls_engine no_libs ls_path 0 no_policy no_hosts [] approvals_on ''s'' ''web'' ''ls'' [] ''q1'' = (st1, Inr a)"
    "au_Status a = AuthNeedsApproval" using ls_requested by blast
  from candidate_covers_command [OF a] a show ?thesis by (auto simp: approvals_on_def)
qed

theorem approval_takes_effect_witness:
  "\<exists>st2 a'. snd (Authorize ls_engine no_libs ls_path 0 no_policy no_hosts st2 approvals_on ''s'' ''web'' ''ls'' [] ''q2'') = Inr a' \<and>
    au_Status a' = AuthAllowByGrant"
proof -
  obtain st1 a where a: "Authorize ls_engine no_libs ls_path 0 no_policy no_hosts [] approvals_on ''s'' ''web'' ''ls'' [] ''q1'' = (st1, Inr a)"
    "au_Status a = AuthNeedsApproval" using ls_requested by blast
  obtain st2 r where g: "store_Grant ls_engine no_libs ls_path 0 st1 ''s'' ''web'' ScopeOnce (au_ApprovalMatcher a) [] 0 ''a1'' ''q1'' (60 * second) ChannelCLI = (st2, r)"
    by fastforce
  have run: "session_run ls_engine no_libs ls_path ''s'' [] [] []" by (rule run_start) simp
  have "live 0 (new_grant 0 ''web'' ScopeOnce (au_ApprovalMatcher a) [] 0 ''a1'' ''q1'' (60 * second) ChannelCLI)"
    using ls_live [of "[]" "[]"] by (simp add: live_def ls_grant_def new_grant_def)
  from approval_takes_effect [OF run _ _ a _ g _ _ this, of "''q2''"] show ?thesis by (auto simp: approvals_on_def)
qed

end
