(* ===== verification/AuditLog.thy ===== *)
theory AuditLog
  imports Json Clock Complex_Main "HOL-Library.Word"
begin

text \<open>
  \<open>internal/audit/record.go\<close>: the hash chain of audit records. A log is the list of its records as
  they read back, or \<open>None\<close> when it cannot be read; what is written is the JSON text of a record, and
  reading it back replaces invalid UTF-8. SHA-256 in hexadecimal is the argument \<open>H\<close>. Failures of the
  file system are not modelled; an operation holds the lock of the file.
\<close>

section \<open>Records\<close>

record auditRecord =
  a_Seq :: "64 word"
  a_TS :: string
  a_ReqID :: string
  a_SessionID :: string
  a_SessionLabel :: string
  a_Event :: string
  a_Host :: string
  a_Cmd :: string
  a_PolicyAction :: string
  a_PolicyRule :: string
  a_Error :: string
  a_ExitCode :: "int option"
  a_OutputSHA256 :: string
  a_OutputTruncated :: bool
  a_Redactions :: int
  a_DurationMS :: int
  a_PrevHash :: string
  a_Hash :: string
  a_ApprovalID :: string
  a_ApprovalScope :: string
  a_ApprovalMatcher :: string
  a_ApprovalChannel :: string
  a_StdinSHA256 :: string
  a_StdinBytes :: int
  a_PlanID :: string
  a_ExecutionID :: string
  a_StepID :: string
  a_ReviewSHA256 :: string
  a_RemoteSignID :: string
  a_DeviceID :: string
  a_Operator :: string
  a_ActiveUntil :: string
  a_Note :: string
  a_TokenID :: string
  a_GrantID :: string
  a_ClientID :: string
  a_EventID :: string

definition ZeroHash :: string where "ZeroHash = replicate 64 CHR ''0''"

definition maxAuditLineBytes :: nat where "maxAuditLineBytes = 8388608"

definition EventStarted :: string where "EventStarted = ''started''"
definition EventCompleted :: string where "EventCompleted = ''completed''"
definition EventFailed :: string where "EventFailed = ''failed''"
definition EventDenied :: string where "EventDenied = ''denied''"
definition EventApprovalRequested :: string where "EventApprovalRequested = ''approval_requested''"
definition EventApprovalGranted :: string where "EventApprovalGranted = ''approval_granted''"
definition EventApprovalDenied :: string where "EventApprovalDenied = ''approval_denied''"

definition NewReqID :: "string \<Rightarrow> string" where
  "NewReqID rnd = hex_string rnd"

section \<open>Texts and hashes\<close>

definition head_fields :: "auditRecord \<Rightarrow> fields" where
  "head_fields r =
     [field ''seq'' (nat_dec (unat (a_Seq r))),
      field ''ts'' (json_string (a_TS r)),
      field ''req_id'' (json_string (a_ReqID r)),
      field ''session_id'' (json_string (a_SessionID r)),
      field ''session_label'' (json_string (a_SessionLabel r)),
      field ''event'' (json_string (a_Event r)),
      field ''host'' (json_string (a_Host r)),
      field ''cmd'' (json_string (a_Cmd r)),
      field ''policy_action'' (json_string (a_PolicyAction r)),
      field ''policy_rule'' (json_string (a_PolicyRule r)),
      field_opt ''error'' (a_Error r),
      (''exit_code'', map_option int_dec (a_ExitCode r)),
      field ''output_sha256'' (json_string (a_OutputSHA256 r)),
      field ''output_truncated'' (json_bool (a_OutputTruncated r)),
      field ''redactions'' (int_dec (a_Redactions r)),
      field ''duration_ms'' (int_dec (a_DurationMS r)),
      field ''prev_hash'' (json_string (a_PrevHash r))]"

definition tail_fields :: "auditRecord \<Rightarrow> fields" where
  "tail_fields r =
     [field_opt ''approval_id'' (a_ApprovalID r),
      field_opt ''approval_scope'' (a_ApprovalScope r),
      field_opt ''approval_matcher'' (a_ApprovalMatcher r),
      field_opt ''approval_channel'' (a_ApprovalChannel r),
      field_opt ''stdin_sha256'' (a_StdinSHA256 r),
      (''stdin_bytes'', if a_StdinBytes r = 0 then None else Some (int_dec (a_StdinBytes r))),
      field_opt ''plan_id'' (a_PlanID r),
      field_opt ''execution_id'' (a_ExecutionID r),
      field_opt ''step_id'' (a_StepID r),
      field_opt ''review_sha256'' (a_ReviewSHA256 r),
      field_opt ''remote_sign_id'' (a_RemoteSignID r),
      field_opt ''device_id'' (a_DeviceID r),
      field_opt ''operator'' (a_Operator r),
      field_opt ''active_until'' (a_ActiveUntil r),
      field_opt ''note'' (a_Note r),
      field_opt ''token_id'' (a_TokenID r),
      field_opt ''grant_id'' (a_GrantID r),
      field_opt ''client_id'' (a_ClientID r)]"

text \<open>The whole record, and its canonical form without the hash (and without the event identifier).\<close>

definition recordJSON :: "auditRecord \<Rightarrow> string" where
  "recordJSON r = json_object (head_fields r @ [field ''hash'' (json_string (a_Hash r))] @ tail_fields r @ [field_opt ''event_id'' (a_EventID r)])"

definition canonicalJSON :: "auditRecord \<Rightarrow> string" where
  "canonicalJSON r = json_object (head_fields r @ tail_fields r)"

definition ComputeHash :: "(string \<Rightarrow> string) \<Rightarrow> auditRecord \<Rightarrow> string" where
  "ComputeHash H r = H (a_PrevHash r @ canonicalJSON r)"

definition ComputeOutputSHA256 :: "(string \<Rightarrow> string) \<Rightarrow> string \<Rightarrow> string \<Rightarrow> string" where
  "ComputeOutputSHA256 H out err = H (out @ err)"

section \<open>Reading\<close>

text \<open>A record as it reads back.\<close>

definition read_back :: "auditRecord \<Rightarrow> auditRecord" where
  "read_back r = r\<lparr>
     a_TS := json_clean (a_TS r), a_ReqID := json_clean (a_ReqID r), a_SessionID := json_clean (a_SessionID r),
     a_SessionLabel := json_clean (a_SessionLabel r), a_Event := json_clean (a_Event r), a_Host := json_clean (a_Host r),
     a_Cmd := json_clean (a_Cmd r), a_PolicyAction := json_clean (a_PolicyAction r), a_PolicyRule := json_clean (a_PolicyRule r),
     a_Error := json_clean (a_Error r), a_OutputSHA256 := json_clean (a_OutputSHA256 r), a_PrevHash := json_clean (a_PrevHash r),
     a_Hash := json_clean (a_Hash r), a_ApprovalID := json_clean (a_ApprovalID r), a_ApprovalScope := json_clean (a_ApprovalScope r),
     a_ApprovalMatcher := json_clean (a_ApprovalMatcher r), a_ApprovalChannel := json_clean (a_ApprovalChannel r),
     a_StdinSHA256 := json_clean (a_StdinSHA256 r), a_PlanID := json_clean (a_PlanID r), a_ExecutionID := json_clean (a_ExecutionID r),
     a_StepID := json_clean (a_StepID r), a_ReviewSHA256 := json_clean (a_ReviewSHA256 r), a_RemoteSignID := json_clean (a_RemoteSignID r),
     a_DeviceID := json_clean (a_DeviceID r), a_Operator := json_clean (a_Operator r), a_ActiveUntil := json_clean (a_ActiveUntil r),
     a_Note := json_clean (a_Note r), a_TokenID := json_clean (a_TokenID r), a_GrantID := json_clean (a_GrantID r),
     a_ClientID := json_clean (a_ClientID r), a_EventID := json_clean (a_EventID r)\<rparr>"

type_synonym log = "auditRecord list option"

text \<open>A line and its newline must fit the buffer of the reader.\<close>

definition fits :: "auditRecord \<Rightarrow> bool" where
  "fits r \<longleftrightarrow> length (recordJSON r) < maxAuditLineBytes"

definition write_records :: "log \<Rightarrow> auditRecord list \<Rightarrow> log" where
  "write_records l rs = (case l of
     None \<Rightarrow> None
   | Some old \<Rightarrow> if list_all fits rs then Some (old @ map read_back rs) else None)"

definition ReadAll :: "log \<Rightarrow> auditRecord list res" where
  "ReadAll l = (case l of None \<Rightarrow> Inl (Errorf ''parse audit log'' []) | Some rs \<Rightarrow> Inr rs)"

section \<open>Verification\<close>

record VerifyResult =
  v_OK :: bool
  v_Count :: nat
  v_BrokenSeq :: "64 word"
  v_BrokenIndex :: nat
  v_Reason :: string

definition verified :: "nat \<Rightarrow> VerifyResult" where
  "verified n = \<lparr>v_OK = True, v_Count = n, v_BrokenSeq = 0, v_BrokenIndex = 0, v_Reason = []\<rparr>"

definition broken :: "auditRecord \<Rightarrow> nat \<Rightarrow> string \<Rightarrow> VerifyResult" where
  "broken r i reason = \<lparr>v_OK = False, v_Count = 0, v_BrokenSeq = a_Seq r, v_BrokenIndex = i, v_Reason = reason\<rparr>"

fun verifyLoop :: "(string \<Rightarrow> string) \<Rightarrow> nat \<Rightarrow> string \<Rightarrow> auditRecord list \<Rightarrow> VerifyResult" where
  "verifyLoop H i prev [] = verified i"
| "verifyLoop H i prev (r # rs) =
     (if a_Seq r \<noteq> of_nat i then broken r i ''seq''
      else if a_PrevHash r \<noteq> prev then broken r i ''prev_hash''
      else if ComputeHash H r \<noteq> a_Hash r then broken r i ''hash''
      else verifyLoop H (Suc i) (a_Hash r) rs)"

definition verifyRecords :: "(string \<Rightarrow> string) \<Rightarrow> auditRecord list \<Rightarrow> VerifyResult" where
  "verifyRecords H rs = verifyLoop H 0 ZeroHash rs"

definition audit_Verify :: "(string \<Rightarrow> string) \<Rightarrow> log \<Rightarrow> VerifyResult res" where
  "audit_Verify H l = rbind (ReadAll l) (\<lambda>rs. Inr (verifyRecords H rs))"

section \<open>Appending\<close>

definition linked :: "instant \<Rightarrow> auditRecord list \<Rightarrow> auditRecord \<Rightarrow> auditRecord" where
  "linked now rs r0 =
     (let r1 = (if rs = [] then r0 else r0\<lparr>a_Seq := a_Seq (last rs) + 1\<rparr>)
      in r1\<lparr>a_PrevHash := (if rs = [] then ZeroHash else a_Hash (last rs)), a_Hash := [],
            a_TS := (if a_TS r1 = [] then format_time now else a_TS r1)\<rparr>)"

definition chained :: "(string \<Rightarrow> string) \<Rightarrow> instant \<Rightarrow> auditRecord list \<Rightarrow> auditRecord \<Rightarrow> auditRecord" where
  "chained H now rs r = (linked now rs r)\<lparr>a_Hash := ComputeHash H (linked now rs r)\<rparr>"

definition AppendUnless :: "(string \<Rightarrow> string) \<Rightarrow> instant \<Rightarrow> log \<Rightarrow> auditRecord \<Rightarrow> (auditRecord \<Rightarrow> bool) option \<Rightarrow>
    log \<times> (auditRecord \<times> bool) res" where
  "AppendUnless H now l r exists =
     (case ReadAll l of
        Inl e \<Rightarrow> (l, Inl e)
      | Inr rs \<Rightarrow>
          if \<not> v_OK (verifyRecords H rs) then (l, Inl (Errorf ''audit chain is corrupt'' [v_Reason (verifyRecords H rs)]))
          else case (case exists of None \<Rightarrow> None | Some p \<Rightarrow> find p rs) of
            Some existing \<Rightarrow> (l, Inr (existing, False))
          | None \<Rightarrow> let r' = chained H now rs r in (write_records l [r'], Inr (r', True)))"

definition audit_Append :: "(string \<Rightarrow> string) \<Rightarrow> instant \<Rightarrow> log \<Rightarrow> auditRecord \<Rightarrow> log \<times> auditRecord res" where
  "audit_Append H now l r =
     (let (l', x) = AppendUnless H now l r None in (l', rbind x (\<lambda>(r', _). Inr r')))"

section \<open>Repair and filters\<close>

record RepairResult =
  rp_Changed :: bool
  rp_Kept :: nat
  rp_Removed :: nat
  rp_BrokenSeq :: "64 word"
  rp_BrokenIndex :: nat
  rp_Reason :: string

text \<open>The second component is the backup that replaces an older one, if the log is changed.\<close>

definition TruncateBroken :: "(string \<Rightarrow> string) \<Rightarrow> log \<Rightarrow> log \<times> log option \<times> RepairResult res" where
  "TruncateBroken H l =
     (case ReadAll l of
        Inl e \<Rightarrow> (l, None, Inl e)
      | Inr rs \<Rightarrow>
          (let v = verifyRecords H rs in
           if v_OK v then (l, None, Inr \<lparr>rp_Changed = False, rp_Kept = length rs, rp_Removed = 0, rp_BrokenSeq = 0,
                rp_BrokenIndex = 0, rp_Reason = []\<rparr>)
           else let cut = min (v_BrokenIndex v) (length rs) in
             (write_records (Some []) (take cut rs), Some l,
              Inr \<lparr>rp_Changed = True, rp_Kept = cut, rp_Removed = length rs - cut, rp_BrokenSeq = v_BrokenSeq v,
                rp_BrokenIndex = v_BrokenIndex v, rp_Reason = v_Reason v\<rparr>)))"

record Filters =
  f_Host :: string
  f_SessionID :: string
  f_Event :: string
  f_ExecutionID :: string
  f_StepID :: string

definition sessionIDMatches :: "string \<Rightarrow> string \<Rightarrow> bool" where
  "sessionIDMatches recordID f \<longleftrightarrow> recordID = f \<or> has_prefix recordID (f @ ''@'')"

definition FilterRecords :: "auditRecord list \<Rightarrow> Filters \<Rightarrow> auditRecord list" where
  "FilterRecords rs f = filter (\<lambda>r.
     (f_Host f = [] \<or> a_Host r = f_Host f) \<and>
     (f_SessionID f = [] \<or> sessionIDMatches (a_SessionID r) (f_SessionID f)) \<and>
     (f_Event f = [] \<or> a_Event r = f_Event f) \<and>
     (f_ExecutionID f = [] \<or> a_ExecutionID r = f_ExecutionID f) \<and>
     (f_StepID f = [] \<or> a_StepID r = f_StepID f)) rs"

section \<open>Lemmas: canonical forms\<close>

definition canonical_names :: "string list" where
  "canonical_names = [''seq'', ''ts'', ''req_id'', ''session_id'', ''session_label'', ''event'', ''host'', ''cmd'', ''policy_action'',
     ''policy_rule'', ''error'', ''exit_code'', ''output_sha256'', ''output_truncated'', ''redactions'', ''duration_ms'', ''prev_hash'',
     ''approval_id'', ''approval_scope'', ''approval_matcher'', ''approval_channel'', ''stdin_sha256'', ''stdin_bytes'', ''plan_id'',
     ''execution_id'', ''step_id'', ''review_sha256'', ''remote_sign_id'', ''device_id'', ''operator'', ''active_until'', ''note'',
     ''token_id'', ''grant_id'', ''client_id'']"

lemma canonical_names: "map fst (head_fields r @ tail_fields r) = canonical_names"
  by (simp add: head_fields_def tail_fields_def field_def field_opt_def canonical_names_def)

lemma canonical_names_ok: "distinct canonical_names" "list_all ascii canonical_names"
  by (simp_all add: canonical_names_def ascii_def)

lemma field_token: "case snd (field_opt n s) of None \<Rightarrow> True | Some x \<Rightarrow> token x"
  by (simp add: field_opt_def)

lemma canonical_tokens: "list_all (\<lambda>f. case snd f of None \<Rightarrow> True | Some x \<Rightarrow> token x) (head_fields r @ tail_fields r)"
  by (simp add: head_fields_def tail_fields_def field_token) (simp add: field_def split: option.split)

lemma canonical_ok: "fields_ok (head_fields r @ tail_fields r)"
proof -
  have "\<forall>f \<in> set (head_fields r @ tail_fields r). valid_string (fst f)"
  proof
    fix f assume "f \<in> set (head_fields r @ tail_fields r)"
    then have "fst f \<in> set canonical_names" by (metis canonical_names image_eqI list.set_map)
    then show "valid_string (fst f)" using canonical_names_ok(2) valid_ascii by (auto simp: list_all_iff)
  qed
  then show ?thesis using canonical_tokens [of r] canonical_names_ok(1)
    unfolding fields_ok_def canonical_names list_all_iff by (auto simp: case_prod_beta)
qed

lemma canonical_fields: "canonicalJSON r = canonicalJSON r' \<Longrightarrow> head_fields r = head_fields r' \<and> tail_fields r = tail_fields r'"
proof -
  assume "canonicalJSON r = canonicalJSON r'"
  then have "head_fields r @ tail_fields r = head_fields r' @ tail_fields r'"
    unfolding canonicalJSON_def by (rule json_object_inj [OF _ canonical_ok canonical_ok]) (simp only: canonical_names)
  moreover have "length (head_fields r) = length (head_fields r')" by (simp add: head_fields_def)
  ultimately show ?thesis by simp
qed

text \<open>The texts of a record, and the records whose texts are valid.\<close>

definition texts :: "auditRecord \<Rightarrow> string list" where
  "texts r = [a_TS r, a_ReqID r, a_SessionID r, a_SessionLabel r, a_Event r, a_Host r, a_Cmd r, a_PolicyAction r, a_PolicyRule r,
     a_Error r, a_OutputSHA256 r, a_PrevHash r, a_Hash r, a_ApprovalID r, a_ApprovalScope r, a_ApprovalMatcher r, a_ApprovalChannel r,
     a_StdinSHA256 r, a_PlanID r, a_ExecutionID r, a_StepID r, a_ReviewSHA256 r, a_RemoteSignID r, a_DeviceID r, a_Operator r,
     a_ActiveUntil r, a_Note r, a_TokenID r, a_GrantID r, a_ClientID r, a_EventID r]"

definition valid_record :: "auditRecord \<Rightarrow> bool" where
  "valid_record r \<longleftrightarrow> list_all valid_string (texts r)"

lemma read_back_valid: "valid_record r \<Longrightarrow> read_back r = r"
  by (simp add: valid_record_def texts_def read_back_def json_clean_valid)

text \<open>What the chain covers of a record.\<close>

definition covered :: "auditRecord \<Rightarrow> auditRecord" where
  "covered r = r\<lparr>a_EventID := []\<rparr>"

lemma map_int_dec [simp]: "map_option int_dec a = map_option int_dec b \<longleftrightarrow> a = b"
  by (cases a; cases b) simp_all

lemma head_inj: "head_fields r = head_fields r' \<Longrightarrow> valid_record r \<Longrightarrow> valid_record r' \<Longrightarrow>
   a_Seq r = a_Seq r' \<and> a_TS r = a_TS r' \<and> a_ReqID r = a_ReqID r' \<and> a_SessionID r = a_SessionID r' \<and> a_SessionLabel r = a_SessionLabel r' \<and>
   a_Event r = a_Event r' \<and> a_Host r = a_Host r' \<and> a_Cmd r = a_Cmd r' \<and> a_PolicyAction r = a_PolicyAction r' \<and>
   a_PolicyRule r = a_PolicyRule r' \<and> a_Error r = a_Error r' \<and> a_ExitCode r = a_ExitCode r' \<and> a_OutputSHA256 r = a_OutputSHA256 r' \<and>
   a_OutputTruncated r = a_OutputTruncated r' \<and> a_Redactions r = a_Redactions r' \<and> a_DurationMS r = a_DurationMS r' \<and>
   a_PrevHash r = a_PrevHash r'"
  by (simp add: head_fields_def valid_record_def texts_def json_string_eq field_opt_eq word_unat_eq_iff)

lemma tail_inj: "tail_fields r = tail_fields r' \<Longrightarrow> valid_record r \<Longrightarrow> valid_record r' \<Longrightarrow>
   a_ApprovalID r = a_ApprovalID r' \<and> a_ApprovalScope r = a_ApprovalScope r' \<and> a_ApprovalMatcher r = a_ApprovalMatcher r' \<and>
   a_ApprovalChannel r = a_ApprovalChannel r' \<and> a_StdinSHA256 r = a_StdinSHA256 r' \<and> a_StdinBytes r = a_StdinBytes r' \<and>
   a_PlanID r = a_PlanID r' \<and> a_ExecutionID r = a_ExecutionID r' \<and> a_StepID r = a_StepID r' \<and> a_ReviewSHA256 r = a_ReviewSHA256 r' \<and>
   a_RemoteSignID r = a_RemoteSignID r' \<and> a_DeviceID r = a_DeviceID r' \<and> a_Operator r = a_Operator r' \<and>
   a_ActiveUntil r = a_ActiveUntil r' \<and> a_Note r = a_Note r' \<and> a_TokenID r = a_TokenID r' \<and> a_GrantID r = a_GrantID r' \<and>
   a_ClientID r = a_ClientID r'"
  by (simp add: tail_fields_def valid_record_def texts_def field_opt_eq split: if_splits)

lemma canonical_inj:
  assumes "canonicalJSON r = canonicalJSON r'" and "valid_record r" and "valid_record r'" and "a_Hash r = a_Hash r'"
  shows "covered r = covered r'"
  using canonical_fields [OF assms(1)] head_inj [OF _ assms(2,3)] tail_inj [OF _ assms(2,3)] assms(4)
  by (simp add: covered_def)

section \<open>Lemmas: the chain\<close>

definition last_hash :: "auditRecord list \<Rightarrow> string" where
  "last_hash rs = (if rs = [] then ZeroHash else a_Hash (last rs))"

lemma verifyLoop_append: "v_OK (verifyLoop H i prev (rs @ [r])) \<longleftrightarrow> v_OK (verifyLoop H i prev rs) \<and>
   a_Seq r = of_nat (i + length rs) \<and> a_PrevHash r = (if rs = [] then prev else a_Hash (last rs)) \<and> ComputeHash H r = a_Hash r"
  by (induction rs arbitrary: i prev) (auto simp: verified_def broken_def)

lemma verify_append: "v_OK (verifyRecords H (rs @ [r])) \<longleftrightarrow> v_OK (verifyRecords H rs) \<and>
   a_Seq r = of_nat (length rs) \<and> a_PrevHash r = last_hash rs \<and> ComputeHash H r = a_Hash r"
  by (simp add: verifyRecords_def verifyLoop_append last_hash_def)

lemma verify_Nil [simp]: "v_OK (verifyRecords H [])"
  by (simp add: verifyRecords_def verified_def)

lemma verifyLoop_count: "v_OK (verifyLoop H i prev rs) \<Longrightarrow> verifyLoop H i prev rs = verified (i + length rs)"
proof (induction rs arbitrary: i prev)
  case (Cons r rs)
  then show ?case using Cons.IH [of "Suc i" "a_Hash r"] by (auto simp: broken_def split: if_splits)
qed simp

lemma verify_prefix: "v_OK (verifyRecords H (xs @ ys)) \<Longrightarrow> v_OK (verifyRecords H xs)"
  by (induction ys rule: rev_induct) (simp_all add: verify_append flip: append_assoc)

lemma verify_seq: "v_OK (verifyRecords H rs) \<Longrightarrow> rs \<noteq> [] \<Longrightarrow> a_Seq (last rs) = of_nat (length rs - 1)"
  by (cases rs rule: rev_cases) (simp_all add: verify_append)

lemma verify_hash: "v_OK (verifyRecords H rs) \<Longrightarrow> rs \<noteq> [] \<Longrightarrow> a_Hash (last rs) = H (a_PrevHash (last rs) @ canonicalJSON (last rs))"
  by (cases rs rule: rev_cases) (auto simp: verify_append ComputeHash_def)

text \<open>The first broken record; the ones before it verify.\<close>

lemma verifyLoop_broken: "\<not> v_OK (verifyLoop H i prev rs) \<Longrightarrow>
   i \<le> v_BrokenIndex (verifyLoop H i prev rs) \<and> v_BrokenIndex (verifyLoop H i prev rs) < i + length rs \<and>
   v_OK (verifyLoop H i prev (take (v_BrokenIndex (verifyLoop H i prev rs) - i) rs)) \<and>
   \<not> v_OK (verifyLoop H i prev (take (Suc (v_BrokenIndex (verifyLoop H i prev rs) - i)) rs))"
proof (induction rs arbitrary: i prev)
  case (Cons r rs)
  show ?case
  proof (cases "a_Seq r = of_nat i \<and> a_PrevHash r = prev \<and> ComputeHash H r = a_Hash r")
    case True
    then have e: "verifyLoop H i prev (r # xs) = verifyLoop H (Suc i) (a_Hash r) xs" for xs by simp
    let ?b = "v_BrokenIndex (verifyLoop H (Suc i) (a_Hash r) rs)"
    have ih: "Suc i \<le> ?b \<and> ?b < Suc i + length rs \<and> v_OK (verifyLoop H (Suc i) (a_Hash r) (take (?b - Suc i) rs)) \<and>
        \<not> v_OK (verifyLoop H (Suc i) (a_Hash r) (take (Suc (?b - Suc i)) rs))"
      using Cons.IH [of "Suc i" "a_Hash r"] Cons.prems unfolding e by blast
    then obtain k where k: "?b = Suc i + k" using le_Suc_ex by blast
    then show ?thesis using ih True e [of "take k rs"] e [of "take (Suc k) rs"] unfolding e by simp
  qed (auto simp: broken_def verified_def)
qed (simp add: verified_def)

lemma verify_broken: "\<not> v_OK (verifyRecords H rs) \<Longrightarrow> v_BrokenIndex (verifyRecords H rs) < length rs \<and>
   v_OK (verifyRecords H (take (v_BrokenIndex (verifyRecords H rs)) rs)) \<and>
   \<not> v_OK (verifyRecords H (take (Suc (v_BrokenIndex (verifyRecords H rs))) rs))"
  using verifyLoop_broken [of H 0 ZeroHash rs] by (simp add: verifyRecords_def)

section \<open>Lemmas: appending\<close>

lemma ascii_append: "ascii (a @ b) \<longleftrightarrow> ascii a \<and> ascii b"
  by (simp add: ascii_def)

lemma ascii_digit: "n < 80 \<Longrightarrow> ascii [digit n]"
  by (simp add: ascii_def digit_def)

lemma ascii_nat_dec: "ascii (nat_dec n)"
  using nat_dec_chars [of n] by (auto simp: ascii_def list_all_iff)

lemma chained_sel:
  "a_Seq (chained H now rs r) = (if rs = [] then a_Seq r else a_Seq (last rs) + 1)"
  "a_PrevHash (chained H now rs r) = last_hash rs"
  "ComputeHash H (chained H now rs r) = a_Hash (chained H now rs r)"
proof -
  have "ComputeHash H (x\<lparr>a_Hash := h\<rparr>) = ComputeHash H x" for x h
    by (simp add: ComputeHash_def canonicalJSON_def head_fields_def tail_fields_def)
  then show "ComputeHash H (chained H now rs r) = a_Hash (chained H now rs r)" by (simp add: chained_def)
qed (simp_all add: chained_def linked_def Let_def last_hash_def)

lemma chained_verifies:
  assumes "v_OK (verifyRecords H rs)" and "rs = [] \<longrightarrow> a_Seq r = 0"
  shows "v_OK (verifyRecords H (rs @ [chained H now rs r]))"
proof -
  have "a_Seq (chained H now rs r) = of_nat (length rs)"
    using assms verify_seq [OF assms(1)] by (cases rs rule: rev_cases) (simp_all add: chained_sel)
  then show ?thesis using assms(1) by (simp add: verify_append chained_sel)
qed

lemma Append_cases:
  "audit_Append H now l r = (l', x) \<Longrightarrow>
   (\<exists>e. x = Inl e \<and> l' = l \<and> (l = None \<or> (\<exists>rs. l = Some rs \<and> \<not> v_OK (verifyRecords H rs)))) \<or>
   (\<exists>rs. l = Some rs \<and> v_OK (verifyRecords H rs) \<and> x = Inr (chained H now rs r) \<and> l' = write_records l [chained H now rs r])"
  by (auto simp: audit_Append_def AppendUnless_def ReadAll_def Let_def split: option.splits if_splits)

text \<open>What the library's SHA-256 in hexadecimal gives: 64 characters, all of them valid text.\<close>

definition hex_hash :: "(string \<Rightarrow> string) \<Rightarrow> bool" where
  "hex_hash H \<longleftrightarrow> (\<forall>x. length (H x) = 64 \<and> valid_string (H x))"

definition hashed :: "auditRecord \<Rightarrow> string" where
  "hashed r = a_PrevHash r @ canonicalJSON r"

lemma ZeroHash_valid: "valid_string ZeroHash" "length ZeroHash = 64"
  by (simp_all add: ZeroHash_def valid_ascii ascii_def list_all_iff)

lemma last_hash_valid: "\<forall>x \<in> set rs. valid_record x \<Longrightarrow> valid_string (last_hash rs)"
  using last_in_set [of rs] by (auto simp: last_hash_def ZeroHash_valid valid_record_def texts_def)

lemma last_hash_length: "v_OK (verifyRecords H rs) \<Longrightarrow> hex_hash H \<Longrightarrow> length (last_hash rs) = 64"
  using verify_hash [of H rs] by (auto simp: last_hash_def ZeroHash_valid hex_hash_def)

lemma format_time_valid: "valid_string (format_time t)"
proof -
  have p2: "ascii (pad2 n)" if "n < 100" for n proof -
    have "n div 10 < 80" "n mod 10 < 80" using that by (auto simp: less_mult_imp_div_less less_trans [of _ 10])
    then show ?thesis by (simp add: pad2_def ascii_def digit_def)
  qed
  have p4: "ascii (pad4 n)" for n
  proof (cases "n < 10000")
    case True
    then have "n div 1000 < 80" "n div 100 mod 10 < 80" "n div 10 mod 10 < 80" "n mod 10 < 80"
      by (auto simp: less_mult_imp_div_less less_trans [of _ 10])
    then show ?thesis using True by (simp add: pad4_def ascii_def digit_def)
  qed (simp add: pad4_def ascii_nat_dec)
  define s where "s = t div second"
  define r where "r = s mod 86400"
  obtain y yd m d where f: "civil_year 1970 (s div 86400) = (y, yd)" "civil_month 1 (month_days y) yd = (m, d)" by fastforce
  from civil_month_date [OF this] have "1 \<le> m" "m \<le> 12" "d < month_days y ! (m - 1)" by auto
  then have md: "m < 100" "Suc d < 100" using month_days_31 [of m y] by auto
  have "r < 86400" by (simp add: r_def)
  then have "r div 3600 < 100" by linarith
  moreover have "r div 60 mod 60 < 100" "r mod 60 < 100" by (simp_all add: less_trans [of _ 60])
  moreover have fmt: "format_time t = pad4 y @ ''-'' @ pad2 m @ ''-'' @ pad2 (Suc d) @ ''T'' @ pad2 (r div 3600) @ '':'' @
      pad2 (r div 60 mod 60) @ '':'' @ pad2 (r mod 60) @ ''Z''"
    using f by (simp add: format_time_def Let_def s_def r_def)
  moreover have "ascii ''-''" "ascii ''T''" "ascii '':''" "ascii ''Z''" by (simp_all add: ascii_def)
  ultimately have "ascii (format_time t)" unfolding fmt ascii_append using md p2 p4 by blast
  then show ?thesis by (rule valid_ascii)
qed

lemma linked_valid:
  assumes "valid_record r" and "\<forall>x \<in> set rs. valid_record x"
  shows "valid_record (linked now rs r)"
  using assms last_hash_valid [OF assms(2)] format_time_valid
  by (auto simp: valid_record_def texts_def linked_def Let_def last_hash_def)

lemma chained_valid:
  assumes "valid_record r" and "\<forall>x \<in> set rs. valid_record x" and "hex_hash H"
  shows "valid_record (chained H now rs r)"
  using linked_valid [OF assms(1,2), of now] assms(3)
  by (simp add: valid_record_def texts_def chained_def hex_hash_def ComputeHash_def)

section \<open>Properties\<close>

text \<open>C10. Appending a record of valid texts to a chain that verifies adds exactly this record, with the next
  sequence number and the hash of its predecessor, and the longer chain verifies. The records of the
  chain have valid texts too, and the very first record is given sequence number 0; a record that does not
  fit a line is written all the same and leaves a log that cannot be read.\<close>

theorem append_extends_chain:
  assumes "audit_Append H now (Some rs) r = (l', Inr r')" and "hex_hash H" and "valid_record r" and "\<forall>x \<in> set rs. valid_record x"
    and "rs = [] \<longrightarrow> a_Seq r = 0"
  shows "l' = (if fits r' then Some (rs @ [r']) else None) \<and> v_OK (verifyRecords H (rs @ [r'])) \<and> valid_record r' \<and>
    r' = r\<lparr>a_Seq := of_nat (length rs), a_TS := a_TS r', a_PrevHash := last_hash rs, a_Hash := a_Hash r'\<rparr>"
proof -
  have r': "r' = chained H now rs r" and ok: "v_OK (verifyRecords H rs)" and l': "l' = write_records (Some rs) [r']"
    using Append_cases [OF assms(1)] by auto
  have v: "valid_record r'" unfolding r' by (rule chained_valid [OF assms(3,4,2)])
  have ok': "v_OK (verifyRecords H (rs @ [r']))" unfolding r' by (rule chained_verifies [OF ok assms(5)])
  moreover have "l' = (if fits r' then Some (rs @ [r']) else None)" using l' read_back_valid [OF v] by (simp add: write_records_def)
  moreover have "r' = r\<lparr>a_Seq := a_Seq r', a_TS := a_TS r', a_PrevHash := a_PrevHash r', a_Hash := a_Hash r'\<rparr>"
    by (cases r) (simp add: r' chained_def linked_def Let_def)
  ultimately show ?thesis using v by (simp add: verify_append)
qed

text \<open>C9. The chain is tamper-evident: two logs of valid texts that both verify and end in the same hash hold
  the same records, up to the event identifiers, unless SHA-256 collides on the texts hashed.\<close>

theorem tamper_evident:
  assumes "v_OK (verifyRecords H rs)" and "v_OK (verifyRecords H rs')" and "last_hash rs = last_hash rs'"
    and "rs \<noteq> []" and "rs' \<noteq> []" and "length rs < 2 ^ 64" and "length rs' < 2 ^ 64"
    and "\<forall>x \<in> set rs \<union> set rs'. valid_record x" and "hex_hash H" and "inj_on H (hashed ` (set rs \<union> set rs'))"
  shows "map covered rs = map covered rs'"
  using assms
proof (induction rs arbitrary: rs' rule: rev_induct)
  case (snoc r xs)
  obtain ys r' where rs': "rs' = ys @ [r']" using snoc.prems(5) by (cases rs' rule: rev_cases) auto
  have ok: "v_OK (verifyRecords H xs)" "v_OK (verifyRecords H ys)" "a_Seq r = of_nat (length xs)" "a_Seq r' = of_nat (length ys)"
    "a_PrevHash r = last_hash xs" "a_PrevHash r' = last_hash ys" "a_Hash r = H (hashed r)" "a_Hash r' = H (hashed r')"
    using snoc.prems(1,2) by (auto simp: rs' verify_append hashed_def ComputeHash_def)
  have h: "a_Hash r = a_Hash r'" using snoc.prems(3) by (simp add: last_hash_def rs')
  then have "H (hashed r) = H (hashed r')" using ok(7,8) by simp
  then have "hashed r = hashed r'" by (rule inj_onD [OF snoc.prems(10)]) (simp_all add: rs')
  then have pc: "last_hash xs = last_hash ys" "canonicalJSON r = canonicalJSON r'"
    using last_hash_length [OF ok(1) snoc.prems(9)] last_hash_length [OF ok(2) snoc.prems(9)] by (auto simp: hashed_def ok(5,6))
  have v: "valid_record r" "valid_record r'" using snoc.prems(8) by (simp_all add: rs')
  have c: "covered r = covered r'" by (rule canonical_inj [OF pc(2) v h])
  have "a_Seq r = a_Seq r'" using head_inj [OF _ v] canonical_fields [OF pc(2)] by blast
  then have "(of_nat (length xs) :: 64 word) = of_nat (length ys)" using ok(3,4) by simp
  moreover have "unat (of_nat n :: 64 word) = n" if "n < 2 ^ 64" for n
    using that by (simp add: unsigned_of_nat take_bit_nat_eq_self)
  moreover have "length xs < 2 ^ 64" "length ys < 2 ^ 64" using snoc.prems(6,7) by (simp_all add: rs')
  ultimately have len: "length xs = length ys" by metis
  show ?case
  proof (cases "xs = []")
    case True
    then show ?thesis using len c by (simp add: rs')
  next
    case False
    have "map covered xs = map covered ys"
    proof (rule snoc.IH [OF ok(1,2) pc(1) False])
      show "inj_on H (hashed ` (set xs \<union> set ys))" using snoc.prems(10) by (rule inj_on_subset) (auto simp: rs')
    qed (use len False snoc.prems(6-9) in \<open>auto simp: rs'\<close>)
    then show ?thesis using c by (simp add: rs')
  qed
qed simp

text \<open>Repair keeps exactly the longest part of the log that verifies, and the log as it was in the backup.\<close>

theorem repair_keeps_verified_prefix:
  assumes "TruncateBroken H (Some rs) = (l', b, Inr res)" and "\<forall>x \<in> set rs. valid_record x"
  shows "l' = (if rp_Changed res \<and> \<not> list_all fits (take (rp_Kept res) rs) then None else Some (take (rp_Kept res) rs)) \<and> v_OK (verifyRecords H (take (rp_Kept res) rs)) \<and> rp_Kept res + rp_Removed res = length rs \<and>
    (rp_Changed res \<longleftrightarrow> rp_Kept res < length rs) \<and>
    (rp_Changed res \<longrightarrow> \<not> v_OK (verifyRecords H (take (Suc (rp_Kept res)) rs)) \<and> b = Some (Some rs))"
proof (cases "v_OK (verifyRecords H rs)")
  case True
  then show ?thesis using assms(1) by (auto simp: TruncateBroken_def ReadAll_def)
next
  case False
  let ?n = "v_BrokenIndex (verifyRecords H rs)"
  note v = verify_broken [OF False]
  have "map read_back (take ?n rs) = take ?n rs"
    by (rule map_idI) (use assms(2) in \<open>auto simp: read_back_valid dest: in_set_takeD\<close>)
  then have "l' = (if list_all fits (take ?n rs) then Some (take ?n rs) else None)" "rp_Kept res = ?n" "rp_Removed res = length rs - ?n" "rp_Changed res" "b = Some (Some rs)"
    using assms(1) False v by (auto simp: TruncateBroken_def ReadAll_def Let_def write_records_def)
  then show ?thesis using v by simp
qed

section \<open>A concrete log\<close>

definition zero_digest :: "string \<Rightarrow> string" where "zero_digest s = ZeroHash"

definition audit_ls :: auditRecord where
  "audit_ls = \<lparr>a_Seq = 0, a_TS = ''t'', a_ReqID = ''q1'', a_SessionID = ''s'', a_SessionLabel = [], a_Event = EventStarted,
     a_Host = ''web'', a_Cmd = ''ls'', a_PolicyAction = ''allow'', a_PolicyRule = ''r'', a_Error = [], a_ExitCode = None,
     a_OutputSHA256 = [], a_OutputTruncated = False, a_Redactions = 0, a_DurationMS = 0, a_PrevHash = [], a_Hash = [],
     a_ApprovalID = [], a_ApprovalScope = [], a_ApprovalMatcher = [], a_ApprovalChannel = [], a_StdinSHA256 = [], a_StdinBytes = 0,
     a_PlanID = [], a_ExecutionID = [], a_StepID = [], a_ReviewSHA256 = [], a_RemoteSignID = [], a_DeviceID = [], a_Operator = [],
     a_ActiveUntil = [], a_Note = [], a_TokenID = [], a_GrantID = [], a_ClientID = [], a_EventID = []\<rparr>"

definition audit_first :: auditRecord where
  "audit_first = audit_ls\<lparr>a_PrevHash := ZeroHash, a_Hash := ZeroHash\<rparr>"

lemma zero_hash: "hex_hash zero_digest"
  by (simp add: hex_hash_def zero_digest_def ZeroHash_valid)

lemma audit_ls_valid: "valid_record audit_ls" "valid_record audit_first"
proof -
  have "list_all ascii (texts audit_ls)" by (simp add: texts_def audit_ls_def ascii_def EventStarted_def)
  then show "valid_record audit_ls" by (auto simp: valid_record_def list_all_iff intro: valid_ascii)
  then show "valid_record audit_first" by (simp add: valid_record_def texts_def audit_first_def ZeroHash_valid)
qed

lemma audit_first_chained: "chained zero_digest 0 [] audit_ls = audit_first"
  by (simp add: chained_def linked_def audit_first_def ComputeHash_def zero_digest_def) (simp add: audit_ls_def)

lemma audit_first_appended: "audit_Append zero_digest 0 (Some []) audit_ls = (write_records (Some []) [audit_first], Inr audit_first)"
  by (simp add: audit_Append_def AppendUnless_def ReadAll_def audit_first_chained)

lemma audit_first_verifies: "v_OK (verifyRecords zero_digest [audit_first])"
  using chained_verifies [of zero_digest "[]" audit_ls 0] by (simp add: audit_first_chained) (simp add: audit_ls_def)

theorem append_extends_chain_witness: "v_OK (verifyRecords zero_digest ([] @ [audit_first]))"
proof -
  have "a_Seq audit_ls = 0" by (simp add: audit_ls_def)
  then show ?thesis using append_extends_chain [OF audit_first_appended zero_hash audit_ls_valid(1)] by simp
qed

theorem tamper_evident_witness: "map covered [audit_first] = map covered [audit_first]"
  by (rule tamper_evident [OF audit_first_verifies audit_first_verifies refl _ _ _ _ _ zero_hash]) (simp_all add: audit_ls_valid)

theorem repair_keeps_verified_prefix_witness:
  "\<exists>l' b res. TruncateBroken zero_digest (Some [audit_first, audit_first]) = (l', b, Inr res) \<and>
    v_OK (verifyRecords zero_digest (take (rp_Kept res) [audit_first, audit_first]))"
proof -
  obtain l' b res where t: "TruncateBroken zero_digest (Some [audit_first, audit_first]) = (l', b, Inr res)"
    by (cases "v_OK (verifyRecords zero_digest [audit_first, audit_first])") (simp_all add: TruncateBroken_def ReadAll_def Let_def)
  from repair_keeps_verified_prefix [OF this] audit_ls_valid(2) show ?thesis using t by auto
qed

section \<open>What the chain does not do\<close>

text \<open>The event identifier of a record is not covered: changing it goes unnoticed.\<close>

lemma ComputeHash_event: "ComputeHash H (r\<lparr>a_EventID := e\<rparr>) = ComputeHash H r"
  by (simp add: ComputeHash_def canonicalJSON_def head_fields_def tail_fields_def)

lemma event_id_not_covered: "verifyRecords H (map (\<lambda>r. r\<lparr>a_EventID := f r\<rparr>) rs) = verifyRecords H rs"
proof -
  have "verifyLoop H i prev (map (\<lambda>r. r\<lparr>a_EventID := f r\<rparr>) rs) = verifyLoop H i prev rs" for i prev
    by (induction rs arbitrary: i prev) (simp_all add: ComputeHash_event broken_def)
  then show ?thesis by (simp add: verifyRecords_def)
qed

text \<open>A command that is not valid UTF-8 is hashed as it is and written with replacement characters, so the
  record no longer has its hash when it is read: the chain is broken and every later record refused.\<close>

lemma invalid_command_breaks_chain:
  assumes "audit_Append H now (Some rs) r = (Some rs', Inr r')" and "\<not> valid_string (a_Cmd r)" and "hex_hash H"
    and "valid_string (last_hash rs)" and "inj_on H {hashed r', hashed (read_back r')}"
  shows "\<not> v_OK (verifyRecords H rs') \<and> (\<forall>now' r2. \<exists>e. audit_Append H now' (Some rs') r2 = (Some rs', Inl e))"
proof -
  have r': "r' = chained H now rs r" and "Some rs' = write_records (Some rs) [r']" using Append_cases [OF assms(1)] by auto
  then have rs': "rs' = rs @ [read_back r']" by (auto simp: write_records_def split: if_splits)
  have cmd: "a_Cmd r' = a_Cmd r" by (simp add: r' chained_def linked_def Let_def)
  have prev: "a_PrevHash (read_back r') = a_PrevHash r'" using assms(4) by (simp add: read_back_def r' chained_sel json_clean_valid)
  have hash: "a_Hash r' = H (hashed r')" using chained_sel(3) [of H now rs r] by (simp add: r' ComputeHash_def hashed_def)
  then have hb: "a_Hash (read_back r') = H (hashed r')" using assms(3) by (simp add: read_back_def hex_hash_def json_clean_valid)
  have "ComputeHash H (read_back r') \<noteq> a_Hash (read_back r')"
  proof
    assume "ComputeHash H (read_back r') = a_Hash (read_back r')"
    then have "H (hashed (read_back r')) = H (hashed r')" by (simp add: hb ComputeHash_def hashed_def)
    then have "hashed (read_back r') = hashed r'" by (rule inj_onD [OF assms(5)]) simp_all
    then have "canonicalJSON (read_back r') = canonicalJSON r'" by (simp add: hashed_def prev)
    then have "json_string (json_clean (a_Cmd r)) = json_string (a_Cmd r)"
      using canonical_fields [of "read_back r'" r'] by (simp add: head_fields_def read_back_def cmd)
    then show False using json_clean_shorter(2) [OF assms(2)] by simp
  qed
  then have "\<not> v_OK (verifyRecords H rs')" by (simp add: rs' verify_append)
  then show ?thesis by (simp add: audit_Append_def AppendUnless_def ReadAll_def)
qed

text \<open>The first record keeps the sequence number it is given; any but 0 breaks the chain at once.\<close>

lemma first_sequence_number: "a_Seq r \<noteq> 0 \<Longrightarrow> \<not> v_OK (verifyRecords H [chained H now [] r])"
  using verify_append [of H "[]" "chained H now [] r"] by (simp add: chained_sel)

end
