(* ===== verification/Adjudicate.thy ===== *)
theory Adjudicate
  imports ApprovalPlan Authorize AuditLog PolicyStore
begin

text \<open>
  \<open>internal/approval/adjudicate.go\<close> and \<open>ApplyPlanDecision\<close> of \<open>plan.go\<close>: an operator's decision on a
  request or a plan: the resolution is published, then the audit record is appended, and only then
  the grant or the policy rule is written. \<open>o_Managed\<close> tells whether the policy file lies in a home
  enrolled with a control plane (\<open>managedmode.Enrolled\<close>). The caller's function that saves the policy,
  if there is one, may fail; \<open>aj_Policy\<close> is the policy that was saved last.
\<close>

section \<open>State and options\<close>

record authority =
  aj_Approvals :: approvals
  aj_Plans :: plan_store
  aj_Sessions :: store
  aj_Audit :: log
  aj_Policy :: Config

record ApplyOptions =
  o_AuditPath :: string
  o_Bundle :: Bundle
  o_PolicyPath :: string
  o_Managed :: bool
  o_SessionTTL :: int
  o_TaskTTL :: int
  o_Channel :: string
  o_PlanID :: string
  o_ReviewSHA256 :: string
  o_ExecutionID :: string
  o_StepID :: string
  o_SavePolicy :: "(Config \<Rightarrow> error option) option"
  o_DeviceID :: string
  o_Operator :: string

record ApplyResult =
  ap_Request :: PendingRequest
  ap_Resolution :: Resolution
  ap_Grant :: "Grant option"
  ap_RuleName :: string

section \<open>Durations as text\<close>

text \<open>\<open>time.Duration.String\<close> of a positive duration in nanoseconds.\<close>

definition strip_zeros :: "string \<Rightarrow> string" where
  "strip_zeros s = rev (dropWhile (\<lambda>c. c = CHR ''0'') (rev s))"

definition duration_frac :: "nat \<Rightarrow> nat \<Rightarrow> string" where
  "duration_frac v prec =
     (let f = nat_dec (v mod 10 ^ prec); padded = replicate (prec - length f) CHR ''0'' @ f
      in if v mod 10 ^ prec = 0 then [] else CHR ''.'' # strip_zeros padded)"

definition micro_s :: string where "micro_s = [CHR 0xC2, CHR 0xB5, CHR ''s'']"

definition duration_String :: "nat \<Rightarrow> string" where
  "duration_String d =
     (if d = 0 then ''0s''
      else if d < 1000 then nat_dec d @ ''ns''
      else if d < 1000000 then nat_dec (d div 1000) @ duration_frac d 3 @ micro_s
      else if d < 1000000000 then nat_dec (d div 1000000) @ duration_frac d 6 @ ''ms''
      else let s = d div 1000000000; m = s div 60; h = m div 60 in
        (if 0 < h then nat_dec h @ ''h'' else []) @ (if 0 < m then nat_dec (m mod 60) @ ''m'' else []) @
        nat_dec (s mod 60) @ duration_frac d 9 @ ''s'')"

section \<open>Grants\<close>

definition validateHostCandidate :: "engine \<Rightarrow> PendingRequest \<Rightarrow> unit res" where
  "validateHostCandidate E req = rbind (compileMatcher E (m_Regex (pr_Candidate req))) (\<lambda>expr.
     if \<not> expr (pr_Cmd req) then Inl (Errorf ''approval carries a matcher that does not match its own command'' [pr_ID req])
     else if looksLegacyEscaped (m_Regex (pr_Candidate req)) then Inl (Errorf ''approval was created by an older AgentSSH'' [pr_ID req])
     else Inr ())"

text \<open>The time to live of a grant.\<close>

definition grant_ttl :: "ApplyOptions \<Rightarrow> string \<Rightarrow> nat" where
  "grant_ttl opts scope =
     (let ttl = (if scope = ScopeTask then (if o_TaskTTL opts \<le> 0 then DefaultTaskTTL else o_TaskTTL opts) else o_SessionTTL opts)
      in nat (if ttl \<le> 0 then DefaultSessionTTL else ttl))"

definition applySessionGrant :: "engine \<Rightarrow> libs \<Rightarrow> (string \<Rightarrow> string) \<Rightarrow> instant \<Rightarrow> ApplyOptions \<Rightarrow> store \<Rightarrow> PendingRequest \<Rightarrow> string \<Rightarrow>
    store \<times> Grant res" where
  "applySessionGrant E L H now opts st req scope =
     (case rbind (Exact E (pr_Cmd req)) (\<lambda>m. if scope = ScopeTask then taskMatcher E L (pr_Cmd req) else Inr m) of
        Inl e \<Rightarrow> (st, Inl e)
      | Inr m \<Rightarrow> store_Grant E L H now st (pr_SessionID req) (pr_Host req) scope m (pr_StdinSHA256 req) (pr_StdinBytes req)
          (pr_ID req) (pr_ReqID req) (grant_ttl opts scope) (o_Channel opts))"

definition host_rule :: "(string \<Rightarrow> string) \<Rightarrow> PendingRequest \<Rightarrow> Rule" where
  "host_rule H req = \<lparr>Rule_Name = ''approval/'' @ matcherSHA12 H (pr_Candidate req), Priority = 0,
     Rule_Match = \<lparr>CmdRegex = m_Regex (pr_Candidate req)\<rparr>, Rule_Action = ActionAllow, Rule_Group = ApprovalGroup\<rparr>"

definition same_host_rule :: "(string \<Rightarrow> string) \<Rightarrow> PendingRequest \<Rightarrow> Rule \<Rightarrow> bool" where
  "same_host_rule H req rule \<longleftrightarrow> Rule_Name rule = Rule_Name (host_rule H req) \<or> CmdRegex (Rule_Match rule) = m_Regex (pr_Candidate req)"

definition ErrManaged :: error where "ErrManaged = Sentinel ''ErrManaged''"

definition CheckWritable :: "bool \<Rightarrow> unit res" where
  "CheckWritable managed = (if managed then Inl ErrManaged else Inr ())"

definition policy_Save :: "bool \<Rightarrow> Config \<Rightarrow> Config res" where
  "policy_Save managed cfg = rbind (CheckWritable managed) (\<lambda>_. Inr (defaultVersion cfg))"

definition save_policy :: "ApplyOptions \<Rightarrow> Config \<Rightarrow> Config res" where
  "save_policy opts cfg = (case o_SavePolicy opts of
     Some save \<Rightarrow> (case save cfg of Some e \<Rightarrow> Inl e | None \<Rightarrow> Inr cfg)
   | None \<Rightarrow> if trim_space (o_PolicyPath opts) = [] then Inl (Errorf ''policy path is required for host approval'' [])
       else policy_Save (o_Managed opts) cfg)"

definition applyHostGrant :: "engine \<Rightarrow> (string \<Rightarrow> string) \<Rightarrow> ApplyOptions \<Rightarrow> Config \<Rightarrow> PendingRequest \<Rightarrow> Config \<times> string res" where
  "applyHostGrant E H opts saved req =
     (if \<not> m_Promotable (pr_Candidate req) then (saved, Inl (Errorf ''approval cannot be promoted to host scope'' [pr_ID req]))
      else case validateHostCandidate E req of
        Inl e \<Rightarrow> (saved, Inl e)
      | Inr _ \<Rightarrow>
          (let rules = (case gget (cOverrides (bPolicy (o_Bundle opts))) (HostRulesKey (pr_Host req)) of
              None \<Rightarrow> [] | Some ov \<Rightarrow> Override_Rules ov) in
           if list_ex (same_host_rule H req) rules then (saved, Inr (Rule_Name (host_rule H req)))
           else case rbind (AddHostRule (o_Bundle opts) (pr_Host req) (host_rule H req)) (\<lambda>b.
               rbind (NewEngine (eng_compile E) (bPolicy b) (bInventory b)) (\<lambda>_. Inr b)) of
             Inl e \<Rightarrow> (saved, Inl e)
           | Inr b \<Rightarrow> (case save_policy opts (bPolicy b) of
               Inl e \<Rightarrow> (saved, Inl e)
             | Inr saved' \<Rightarrow> (saved', Inr (Rule_Name (host_rule H req))))))"

section \<open>The audit record\<close>

definition no_record :: auditRecord where
  "no_record = \<lparr>a_Seq = 0, a_TS = [], a_ReqID = [], a_SessionID = [], a_SessionLabel = [], a_Event = [], a_Host = [], a_Cmd = [],
     a_PolicyAction = [], a_PolicyRule = [], a_Error = [], a_ExitCode = None, a_OutputSHA256 = [], a_OutputTruncated = False,
     a_Redactions = 0, a_DurationMS = 0, a_PrevHash = [], a_Hash = [], a_ApprovalID = [], a_ApprovalScope = [], a_ApprovalMatcher = [],
     a_ApprovalChannel = [], a_StdinSHA256 = [], a_StdinBytes = 0, a_PlanID = [], a_ExecutionID = [], a_StepID = [], a_ReviewSHA256 = [],
     a_RemoteSignID = [], a_DeviceID = [], a_Operator = [], a_ActiveUntil = [], a_Note = [], a_TokenID = [], a_GrantID = [],
     a_ClientID = [], a_EventID = []\<rparr>"

text \<open>Execution, step and review of the record: those of the options, or those of the request's plan.\<close>

definition decision_plan :: "(string \<Rightarrow> string) \<Rightarrow> ApplyOptions \<Rightarrow> plan_store \<Rightarrow> PendingRequest \<Rightarrow> string \<times> string \<times> string" where
  "decision_plan H opts ps req =
     (if o_ReviewSHA256 opts = [] \<and> pr_PlanID req \<noteq> [] then
        (case GetPlan H ps (pr_PlanID req) of
           Inr m \<Rightarrow> (pm_ReviewSHA256 m, pm_ExecutionID m, unambiguousStepID (pm_Review m) (pr_ID req))
         | Inl _ \<Rightarrow> (o_ReviewSHA256 opts, o_ExecutionID opts, o_StepID opts))
      else (o_ReviewSHA256 opts, o_ExecutionID opts, o_StepID opts))"

definition decision_record :: "libs \<Rightarrow> (string \<Rightarrow> string) \<Rightarrow> ApplyOptions \<Rightarrow> plan_store \<Rightarrow> PendingRequest \<Rightarrow> string \<Rightarrow> string \<Rightarrow> auditRecord" where
  "decision_record L H opts ps req verdict scope =
     (let (review, execution, step) = decision_plan H opts ps req in
      no_record\<lparr>
        a_ReqID := pr_ReqID req, a_SessionID := pr_SessionID req,
        a_Event := (if verdict = VerdictApproved then EventApprovalGranted else EventApprovalDenied),
        a_Host := pr_Host req, a_Cmd := pr_Cmd req,
        a_PolicyAction := (if verdict = VerdictApproved then ActionAllow else ActionDeny), a_PolicyRule := RuleDefaultDeny,
        a_ApprovalID := pr_ID req, a_ApprovalScope := scope,
        a_ApprovalMatcher := (if scope = ScopeTask then
           (case TaskCandidate L (pr_Cmd req) (pr_StdinSHA256 req) of
              Some p \<Rightarrow> permission_Summary p @ ''; ttl='' @ duration_String (grant_ttl opts ScopeTask)
            | None \<Rightarrow> m_Regex (pr_Candidate req)) else m_Regex (pr_Candidate req)),
        a_ApprovalChannel := o_Channel opts, a_StdinSHA256 := pr_StdinSHA256 req, a_StdinBytes := pr_StdinBytes req,
        a_PlanID := (if o_PlanID opts = [] then pr_PlanID req else o_PlanID opts),
        a_ExecutionID := execution, a_StepID := step, a_ReviewSHA256 := review,
        a_DeviceID := o_DeviceID opts, a_Operator := o_Operator opts\<rparr>)"

definition appendApprovalAudit :: "libs \<Rightarrow> (string \<Rightarrow> string) \<Rightarrow> instant \<Rightarrow> ApplyOptions \<Rightarrow> plan_store \<Rightarrow> log \<Rightarrow> PendingRequest \<Rightarrow>
    string \<Rightarrow> string \<Rightarrow> log \<times> unit res" where
  "appendApprovalAudit L H now opts ps l req verdict scope =
     (if o_AuditPath opts = [] then (l, Inr ())
      else let (l', x) = audit_Append H now l (decision_record L H opts ps req verdict scope) in (l', rbind x (\<lambda>_. Inr ())))"

section \<open>Decisions\<close>

text \<open>The checks of an approval, before anything is written.\<close>

definition check_approval :: "engine \<Rightarrow> libs \<Rightarrow> ApplyOptions \<Rightarrow> PendingRequest \<Rightarrow> string \<Rightarrow> unit res" where
  "check_approval E L opts req scope =
     (if scope \<noteq> ScopeOnce \<and> scope \<noteq> ScopeSession \<and> scope \<noteq> ScopeHost \<and> scope \<noteq> ScopeTask then
        Inl (Errorf ''approval grant scope is required'' [])
      else if scope = ScopeTask \<and> TaskCandidate L (pr_Cmd req) (pr_StdinSHA256 req) = None then
        Inl (Errorf ''approval has no bounded task profile'' [pr_ID req])
      else if scope = ScopeHost then
        (if \<not> m_Promotable (pr_Candidate req) then Inl (Errorf ''approval cannot be promoted to host scope'' [pr_ID req])
         else case (if o_PolicyPath opts \<noteq> [] then CheckWritable (o_Managed opts) else Inr ()) of
           Inl e \<Rightarrow> Inl (Wrapped ''host scope is unavailable'' e)
         | Inr _ \<Rightarrow> validateHostCandidate E req)
      else rbind (Exact E (pr_Cmd req)) (\<lambda>_. Inr ()))"

definition apply_grant :: "engine \<Rightarrow> libs \<Rightarrow> (string \<Rightarrow> string) \<Rightarrow> instant \<Rightarrow> ApplyOptions \<Rightarrow> authority \<Rightarrow> PendingRequest \<Rightarrow> Resolution \<Rightarrow>
    string \<Rightarrow> string \<Rightarrow> authority \<times> ApplyResult res" where
  "apply_grant E L H now opts s req resolution verdict scope =
     (if verdict \<noteq> VerdictApproved then
        (s, Inr \<lparr>ap_Request = req, ap_Resolution = resolution, ap_Grant = None, ap_RuleName = []\<rparr>)
      else if scope = ScopeHost then
        (let (saved, x) = applyHostGrant E H opts (aj_Policy s) req in
         (s\<lparr>aj_Policy := saved\<rparr>, rbind x (\<lambda>name.
            Inr \<lparr>ap_Request = req, ap_Resolution = resolution, ap_Grant = None, ap_RuleName = name\<rparr>)))
      else
        (let (st, x) = applySessionGrant E L H now opts (aj_Sessions s) req scope in
         (s\<lparr>aj_Sessions := st\<rparr>, rbind x (\<lambda>g.
            Inr \<lparr>ap_Request = req, ap_Resolution = resolution, ap_Grant = Some g, ap_RuleName = []\<rparr>))))"

definition with_channel :: "ApplyOptions \<Rightarrow> ApplyOptions" where
  "with_channel opts = (if o_Channel opts = [] then opts\<lparr>o_Channel := ChannelCLI\<rparr> else opts)"

definition ApplyDecision :: "engine \<Rightarrow> libs \<Rightarrow> (string \<Rightarrow> string) \<Rightarrow> instant \<Rightarrow> ApplyOptions \<Rightarrow> authority \<Rightarrow> string \<Rightarrow> string \<Rightarrow> string \<Rightarrow>
    authority \<times> ApplyResult res" where
  "ApplyDecision E L H now opts0 s i verdict scope0 =
     (let opts = with_channel opts0 in
      case pending_Get H (aj_Approvals s) i of
        Inl e \<Rightarrow> (s, Inl e)
      | Inr req \<Rightarrow>
          (case readResolution (aj_Approvals s) i of
             Inl e \<Rightarrow> (s, Inl e)
           | Inr (Some _) \<Rightarrow> (s, Inl ErrAlreadyResolved)
           | Inr None \<Rightarrow>
               if verdict \<noteq> VerdictApproved \<and> verdict \<noteq> VerdictDenied then (s, Inl (Errorf ''invalid approval verdict'' [verdict]))
               else let scope = (if verdict = VerdictDenied then [] else scope0) in
                 case (if verdict = VerdictApproved then check_approval E L opts req scope else Inr ()) of
                   Inl e \<Rightarrow> (s, Inl e)
                 | Inr _ \<Rightarrow>
                     (case pending_Resolve H now (aj_Approvals s) req verdict scope of
                        (a, Inl e) \<Rightarrow> (s\<lparr>aj_Approvals := a\<rparr>, Inl e)
                      | (a, Inr resolution) \<Rightarrow>
                          (case appendApprovalAudit L H now opts (aj_Plans s) (aj_Audit s) req verdict scope of
                             (l, Inl e) \<Rightarrow> (s\<lparr>aj_Approvals := a, aj_Audit := l\<rparr>, Inl e)
                           | (l, Inr _) \<Rightarrow> apply_grant E L H now opts (s\<lparr>aj_Approvals := a, aj_Audit := l\<rparr>) req resolution verdict scope))))"

section \<open>Decisions on plans\<close>

text \<open>One member: its scope and options.\<close>

definition member_scope :: "libs \<Rightarrow> PlanMember \<Rightarrow> string \<Rightarrow> string" where
  "member_scope L b scope = (case mb_Request b of
     Some req \<Rightarrow> if scope = ScopeTask \<and> TaskCandidate L (pr_Cmd req) (pr_StdinSHA256 req) = None then ScopeSession else scope
   | None \<Rightarrow> scope)"

definition member_opts :: "libs \<Rightarrow> ApplyOptions \<Rightarrow> PlanStatus \<Rightarrow> string \<Rightarrow> PlanMember \<Rightarrow> string \<Rightarrow> ApplyOptions" where
  "member_opts L opts st i b scope =
     (let o1 = opts\<lparr>o_PlanID := i, o_ReviewSHA256 := ps_ReviewSHA256 st, o_ExecutionID := ps_ExecutionID st\<rparr>;
          o2 = (case mb_Request b of Some req \<Rightarrow> o1\<lparr>o_StepID := unambiguousStepID (ps_Review st) (pr_ID req)\<rparr> | None \<Rightarrow> o1)
      in if member_scope L b scope \<noteq> scope
         then o2\<lparr>o_SessionTTL := (if o_TaskTTL opts \<le> 0 then DefaultTaskTTL else o_TaskTTL opts)\<rparr> else o2)"

fun planLoop :: "engine \<Rightarrow> libs \<Rightarrow> (string \<Rightarrow> string) \<Rightarrow> instant \<Rightarrow> ApplyOptions \<Rightarrow> PlanStatus \<Rightarrow> string \<Rightarrow> string \<Rightarrow> string \<Rightarrow>
    PlanMember list \<Rightarrow> authority \<Rightarrow> ApplyResult list \<Rightarrow> authority \<times> ApplyResult list res" where
  "planLoop E L H now opts st i verdict scope [] s results =
     (s, if results = [] then Inl ErrPlanNoPending else Inr results)"
| "planLoop E L H now opts st i verdict scope (b # bs) s results =
     (if mb_Status b \<noteq> ''pending'' then planLoop E L H now opts st i verdict scope bs s results
      else case ApplyDecision E L H now (member_opts L opts st i b scope) s (mb_ApprovalID b) verdict (member_scope L b scope) of
        (s', Inl e) \<Rightarrow> if e = ErrAlreadyResolved then planLoop E L H now opts st i verdict scope bs s' results else (s', Inl (Wrapped i e))
      | (s', Inr r) \<Rightarrow> planLoop E L H now opts st i verdict scope bs s' (results @ [r]))"

definition ApplyPlanDecision :: "engine \<Rightarrow> libs \<Rightarrow> (string \<Rightarrow> string) \<Rightarrow> instant \<Rightarrow> ApplyOptions \<Rightarrow> authority \<Rightarrow> string \<Rightarrow> string \<Rightarrow> string \<Rightarrow>
    authority \<times> ApplyResult list res" where
  "ApplyPlanDecision E L H now opts s i verdict scope =
     (if verdict = VerdictApproved \<and> scope \<noteq> ScopeOnce \<and> scope \<noteq> ScopeSession \<and> scope \<noteq> ScopeTask then (s, Inl ErrPlanScope)
      else case plan_Status H (aj_Approvals s) (aj_Plans s) i of
        Inl e \<Rightarrow> (s, Inl e)
      | Inr st \<Rightarrow> planLoop E L H now opts st i verdict scope (ps_Members st) s [])"

section \<open>Lemmas: the course of a decision\<close>

text \<open>A decision either fails before it grants anything, or has been resolved and recorded when it grants.\<close>

lemma ApplyDecision_cases:
  assumes "ApplyDecision E L H now opts s i verdict scope0 = (s', x)"
  shows "(\<exists>e. x = Inl e \<and> aj_Sessions s' = aj_Sessions s \<and> aj_Policy s' = aj_Policy s) \<or>
    (\<exists>req r a l scope. pending_Get H (aj_Approvals s) i = Inr req \<and> readResolution (aj_Approvals s) i = Inr None \<and>
       (verdict = VerdictApproved \<and> scope = scope0 \<and> check_approval E L (with_channel opts) req scope = Inr () \<or> verdict = VerdictDenied \<and> scope = []) \<and>
       pending_Resolve H now (aj_Approvals s) req verdict scope = (a, Inr r) \<and>
       appendApprovalAudit L H now (with_channel opts) (aj_Plans s) (aj_Audit s) req verdict scope = (l, Inr ()) \<and>
       apply_grant E L H now (with_channel opts) (s\<lparr>aj_Approvals := a, aj_Audit := l\<rparr>) req r verdict scope = (s', x))"
proof -
  have v: "VerdictApproved \<noteq> VerdictDenied" by (simp add: VerdictApproved_def VerdictDenied_def)
  show ?thesis using assms v unfolding ApplyDecision_def Let_def
    by (auto split: sum.splits option.splits if_splits prod.splits)
qed

lemma apply_grant_frame: "apply_grant E L H now opts s req r verdict scope = (s', x) \<Longrightarrow>
   aj_Approvals s' = aj_Approvals s \<and> aj_Audit s' = aj_Audit s \<and> aj_Plans s' = aj_Plans s \<and>
   (scope \<noteq> ScopeHost \<longrightarrow> aj_Policy s' = aj_Policy s) \<and> (scope = ScopeHost \<longrightarrow> aj_Sessions s' = aj_Sessions s) \<and>
   (verdict \<noteq> VerdictApproved \<longrightarrow> aj_Sessions s' = aj_Sessions s \<and> aj_Policy s' = aj_Policy s)"
  by (auto simp: apply_grant_def Let_def split: if_splits prod.splits)

lemma Get_id: "pending_Get H s i = Inr req \<Longrightarrow> pr_ID req = i \<and> validApprovalID i"
  by (auto simp: pending_Get_def split: if_splits option.splits)

lemma pending_Get_responses [simp]: "pending_Get H (s\<lparr>ap_Responses := rs\<rparr>) i = pending_Get H s i"
  by (simp add: pending_Get_def)

lemma Resolve_Inr: "pending_Resolve H now s req verdict scope = (a, Inr r) \<Longrightarrow> r = new_resolution H now req verdict scope \<and>
   a = s\<lparr>ap_Responses := gput (responsePath (pr_ID req)) (Some r) (ap_Responses s)\<rparr> \<and> \<not> ghas (ap_Responses s) (responsePath (pr_ID req))"
  by (auto simp: pending_Resolve_def Let_def split: if_splits)

lemma apply_grant_resolved:
  assumes "pending_Resolve H now (aj_Approvals s) req verdict scope = (a, Inr r)"
    and "apply_grant E L H now opts (s\<lparr>aj_Approvals := a, aj_Audit := l\<rparr>) req r verdict scope = (s', x)"
    and "pending_Get H (aj_Approvals s) i = Inr req"
  shows "pending_Get H (aj_Approvals s') i = Inr req \<and> readResolution (aj_Approvals s') i = Inr (Some (new_resolution H now req verdict scope))"
proof -
  have s': "aj_Approvals s' = a" using apply_grant_frame [OF assms(2)] by simp
  from Resolve_Inr [OF assms(1)] Get_id [OF assms(3)] assms(3) show ?thesis
    unfolding s' by (auto simp: readResolution_def new_resolution_def)
qed

lemma appendAudit_Inr: "appendApprovalAudit L H now opts ps l req verdict scope = (l', Inr ()) \<Longrightarrow> o_AuditPath opts \<noteq> [] \<Longrightarrow>
   \<exists>rs. l = Some rs \<and> v_OK (verifyRecords H rs) \<and>
     l' = write_records l [chained H now rs (decision_record L H opts ps req verdict scope)]"
proof -
  assume a: "appendApprovalAudit L H now opts ps l req verdict scope = (l', Inr ())" "o_AuditPath opts \<noteq> []"
  obtain l2 x where x: "audit_Append H now l (decision_record L H opts ps req verdict scope) = (l2, x)" by fastforce
  then have "l' = l2 \<and> (\<exists>r'. x = Inr r')" using a by (auto simp: appendApprovalAudit_def rbind_iffs)
  then show ?thesis using Append_cases [OF x] by auto
qed

lemma decision_record_sel:
  "a_Event (decision_record L H opts ps req verdict scope) = (if verdict = VerdictApproved then EventApprovalGranted else EventApprovalDenied)"
  "a_ApprovalID (decision_record L H opts ps req verdict scope) = pr_ID req" "a_Cmd (decision_record L H opts ps req verdict scope) = pr_Cmd req"
  "a_Host (decision_record L H opts ps req verdict scope) = pr_Host req" "a_SessionID (decision_record L H opts ps req verdict scope) = pr_SessionID req"
  "a_ApprovalScope (decision_record L H opts ps req verdict scope) = scope"
  by (simp_all add: decision_record_def case_prod_beta Let_def)

lemma chained_keeps:
  "a_Event (chained H now rs r) = a_Event r" "a_ApprovalID (chained H now rs r) = a_ApprovalID r" "a_Cmd (chained H now rs r) = a_Cmd r"
  "a_Host (chained H now rs r) = a_Host r" "a_SessionID (chained H now rs r) = a_SessionID r" "a_ApprovalScope (chained H now rs r) = a_ApprovalScope r"
  by (simp_all add: chained_def linked_def Let_def)

lemma with_channel_sel [simp]: "o_AuditPath (with_channel opts) = o_AuditPath opts"
  by (simp add: with_channel_def)

section \<open>Properties\<close>

text \<open>C5. No grant without an audit record: whatever a decision changes in the grants or in the policy, it first
  resolved the request as approved and appended its \<open>approval_granted\<close> record to a chain that verifies.\<close>

theorem grant_follows_audit:
  assumes "ApplyDecision E L H now opts s i verdict scope = (s', x)" and "o_AuditPath opts \<noteq> []"
    and "aj_Sessions s' \<noteq> aj_Sessions s \<or> aj_Policy s' \<noteq> aj_Policy s"
  shows "\<exists>req rs r. pending_Get H (aj_Approvals s) i = Inr req \<and> verdict = VerdictApproved \<and>
    aj_Audit s = Some rs \<and> v_OK (verifyRecords H rs) \<and> aj_Audit s' = write_records (Some rs) [chained H now rs r] \<and>
    a_Event r = EventApprovalGranted \<and> a_ApprovalID r = i \<and> a_Cmd r = pr_Cmd req \<and> a_Host r = pr_Host req \<and>
    a_SessionID r = pr_SessionID req \<and> a_ApprovalScope r = scope \<and>
    readResolution (aj_Approvals s') i = Inr (Some (new_resolution H now req VerdictApproved scope))"
proof -
  let ?o = "with_channel opts"
  from ApplyDecision_cases [OF assms(1)] assms(3) obtain req r a l scope1 where
    d: "pending_Get H (aj_Approvals s) i = Inr req" "verdict = VerdictApproved \<and> scope1 = scope \<or> verdict = VerdictDenied \<and> scope1 = []"
      "pending_Resolve H now (aj_Approvals s) req verdict scope1 = (a, Inr r)"
      "appendApprovalAudit L H now ?o (aj_Plans s) (aj_Audit s) req verdict scope1 = (l, Inr ())"
      "apply_grant E L H now ?o (s\<lparr>aj_Approvals := a, aj_Audit := l\<rparr>) req r verdict scope1 = (s', x)" by (elim disjE exE conjE) (blast | simp)+
  note f = apply_grant_frame [OF d(5)]
  have v: "verdict = VerdictApproved"
  proof (rule ccontr)
    assume "verdict \<noteq> VerdictApproved"
    with f show False using assms(3) by simp
  qed
  then have sc: "scope1 = scope" using d(2) by (simp add: VerdictApproved_def VerdictDenied_def)
  have i: "pr_ID req = i" using Get_id [OF d(1)] by simp
  obtain rs where rs: "aj_Audit s = Some rs" "v_OK (verifyRecords H rs)"
    "l = write_records (Some rs) [chained H now rs (decision_record L H ?o (aj_Plans s) req verdict scope1)]"
    using appendAudit_Inr [OF d(4)] assms(2) by auto
  have "readResolution (aj_Approvals s') i = Inr (Some (new_resolution H now req VerdictApproved scope))"
    using apply_grant_resolved [OF d(3) d(5) d(1)] v sc by simp
  moreover have "aj_Audit s' = l" using f by simp
  ultimately show ?thesis using d(1) rs v sc i
    by (intro exI [of _ req] exI [of _ rs] exI [of _ "decision_record L H ?o (aj_Plans s) req verdict scope1"]) (simp add: decision_record_sel)
qed

text \<open>A request is decided once: after a decision that succeeded, every further one is refused and changes
  nothing.\<close>

theorem decided_once:
  assumes "ApplyDecision E L H now opts s i verdict scope = (s', Inr res)"
  shows "ApplyDecision E L H now' opts' s' i verdict' scope' = (s', Inl ErrAlreadyResolved)"
proof -
  let ?o = "with_channel opts"
  from ApplyDecision_cases [OF assms] obtain req r a l scope1 where
    d: "pending_Get H (aj_Approvals s) i = Inr req" "pending_Resolve H now (aj_Approvals s) req verdict scope1 = (a, Inr r)"
      "apply_grant E L H now ?o (s\<lparr>aj_Approvals := a, aj_Audit := l\<rparr>) req r verdict scope1 = (s', Inr res)" by auto
  from apply_grant_resolved [OF d(2) d(3) d(1)] show ?thesis by (simp add: ApplyDecision_def)
qed

text \<open>C6. An approval for once or for the session grants exactly the command that was asked for: on its host,
  with its stdin, and among valid texts no other command, whatever the candidate matcher covered.\<close>

theorem approval_grants_command:
  assumes "ApplyDecision (go_engine other) L H now opts s i VerdictApproved scope = (s', Inr res)"
    and "scope = ScopeOnce \<or> scope = ScopeSession"
  shows "\<exists>req g. pending_Get H (aj_Approvals s) i = Inr req \<and> ap_Grant res = Some g \<and> g_Scope g = scope \<and> g_Host g = pr_Host req \<and>
    g_StdinSHA256 g = pr_StdinSHA256 req \<and> g_ApprovalID g = i \<and>
    (\<forall>t. valid_string t \<longrightarrow> Matcher_Match (go_engine other) L (grant_matcher g) t = Inr (t = pr_Cmd req))"
proof -
  let ?o = "with_channel opts"
  have sc: "scope \<noteq> ScopeHost" "scope \<noteq> ScopeTask" using assms(2) by (auto simp: scopes)
  from ApplyDecision_cases [OF assms(1)] obtain req r a l where
    d: "pending_Get H (aj_Approvals s) i = Inr req"
      "apply_grant (go_engine other) L H now ?o (s\<lparr>aj_Approvals := a, aj_Audit := l\<rparr>) req r VerdictApproved scope = (s', Inr res)"
    by (auto simp: VerdictApproved_def VerdictDenied_def)
  obtain st g where g: "applySessionGrant (go_engine other) L H now ?o (aj_Sessions s) req scope = (st, Inr g)" "ap_Grant res = Some g"
    using d(2) sc by (auto simp: apply_grant_def Let_def rbind_iffs split: prod.splits)
  obtain m where m: "Exact (go_engine other) (pr_Cmd req) = Inr m"
    using g(1) sc by (auto simp: applySessionGrant_def rbind_iffs split: sum.splits)
  then have "store_Grant (go_engine other) L H now (aj_Sessions s) (pr_SessionID req) (pr_Host req) scope m (pr_StdinSHA256 req) (pr_StdinBytes req)
      (pr_ID req) (pr_ReqID req) (grant_ttl ?o scope) (o_Channel ?o) = (st, Inr g)"
    using g(1) sc by (simp add: applySessionGrant_def)
  from store_Grant_value [OF this] have gv: "g = new_grant now (pr_Host req) scope m (pr_StdinSHA256 req) (pr_StdinBytes req)
      (pr_ID req) (pr_ReqID req) (grant_ttl ?o scope) (o_Channel ?o)" .
  have k: "m_Kind m = MatcherExact" "m_Regex m = exact_pattern (pr_Cmd req)" "valid_string (pr_Cmd req)"
    using m by (auto simp: go.Exact_cases split: if_splits)
  have "Matcher_Match (go_engine other) L (grant_matcher g) t = Inr (t = pr_Cmd req)" if "valid_string t" for t
    using Matcher_Match_exact [of "grant_matcher g" "pr_Cmd req" other L t] k runes_inj [OF that k(3)]
    by (simp add: gv grant_matcher_def new_grant_def)
  then show ?thesis using d(1) g(2) Get_id [OF d(1)] by (auto simp: gv new_grant_def)
qed

text \<open>A decision on a plan never touches the policy: no scope turns a plan into rules of the host.\<close>

theorem plan_keeps_policy:
  "aj_Policy (fst (ApplyPlanDecision E L H now opts s i verdict scope)) = aj_Policy s"
proof -
  have one: "aj_Policy s' = aj_Policy s" if "ApplyDecision E L H now o' s j verdict sc = (s', x)" "verdict = VerdictApproved \<longrightarrow> sc \<noteq> ScopeHost" for o' s j sc s' x
  proof -
    have "ScopeHost \<noteq> []" by (simp add: scopes)
    then show ?thesis using ApplyDecision_cases [OF that(1)] that(2) apply_grant_frame by fastforce
  qed
  have loop: "aj_Policy (fst (planLoop E L H now opts st i verdict scope bs s results)) = aj_Policy s"
    if "verdict = VerdictApproved \<longrightarrow> scope \<noteq> ScopeHost" for st bs s results
  proof (induction bs arbitrary: s results)
    case (Cons b bs)
    have sc: "verdict = VerdictApproved \<longrightarrow> member_scope L b scope \<noteq> ScopeHost"
      using that by (auto simp: member_scope_def scopes split: option.splits)
    obtain s1 x where a: "ApplyDecision E L H now (member_opts L opts st i b scope) s (mb_ApprovalID b) verdict (member_scope L b scope) = (s1, x)"
      by fastforce
    from one [OF a sc] Cons show ?case by (simp add: a split: sum.split)
  qed simp
  show ?thesis
    using loop by (auto simp: ApplyPlanDecision_def scopes split: sum.split)
qed

section \<open>A concrete decision\<close>

definition ls_authority :: authority where
  "ls_authority = \<lparr>aj_Approvals = ls_pending [], aj_Plans = \<lparr>pl_Dir = ''p'', pl_Files = []\<rparr>, aj_Sessions = [], aj_Audit = Some [],
     aj_Policy = no_policy\<rparr>"

definition ls_opts :: ApplyOptions where
  "ls_opts = \<lparr>o_AuditPath = ''a'', o_Bundle = \<lparr>bPolicy = no_policy, bInventory = no_hosts\<rparr>, o_PolicyPath = [], o_Managed = False,
     o_SessionTTL = 0, o_TaskTTL = 0, o_Channel = [], o_PlanID = [], o_ReviewSHA256 = [], o_ExecutionID = [], o_StepID = [],
     o_SavePolicy = None, o_DeviceID = [], o_Operator = []\<rparr>"

lemma granted_empty:
  "\<exists>st g. store_Grant E L one_digest now [] ''s'' host ScopeOnce (m\<lparr>m_Kind := MatcherExact\<rparr>) stdin sz aid reqID ttl channel = (st, Inr g) \<and> st \<noteq> []"
  by (simp add: store_Grant_def scopes matcher_kinds withLockedSession_def readSessionFile_def upgrade_def
      no_session_def insert_grant_def filterLiveGrants_def sessionFileVersion_def sessionPath_def one_digest_def new_grant_def)

lemma ls_applied:
  "\<exists>s' res. ApplyDecision ls_engine no_libs one_digest 0 ls_opts ls_authority ls_id VerdictApproved ScopeOnce = (s', Inr res) \<and>
     aj_Sessions s' \<noteq> aj_Sessions ls_authority"
proof -
  have e: "Exact ls_engine ''ls'' = Inr (ls_matcher\<lparr>m_Kind := MatcherExact\<rparr>)"
    using go.Exact_cases [of no_engine "''ls''"] by (simp add: ls_matcher_def valid_ascii ascii_def)
  obtain st g where g: "store_Grant ls_engine no_libs one_digest 0 [] ''s'' ''web'' ScopeOnce (ls_matcher\<lparr>m_Kind := MatcherExact\<rparr>) [] 0 ls_id ''q1''
      (grant_ttl (with_channel ls_opts) ScopeOnce) (o_Channel (with_channel ls_opts)) = (st, Inr g)" "st \<noteq> []"
    using granted_empty by blast
  have r: "pr_Cmd ls_request = ''ls''" "pr_SessionID ls_request = ''s''" "pr_Host ls_request = ''web''" "pr_StdinSHA256 ls_request = []"
    "pr_StdinBytes ls_request = 0" "pr_ReqID ls_request = ''q1''"
    by (simp_all add: ls_request_def)
  have a: "aj_Approvals ls_authority = ls_pending []" "aj_Sessions ls_authority = []" "aj_Audit ls_authority = Some []"
    by (simp_all add: ls_authority_def)
  have "readResolution (ls_pending []) ls_id = Inr None" by (simp add: readResolution_def ls_pending_def)
  moreover have "pending_Resolve one_digest 0 (ls_pending []) ls_request VerdictApproved ScopeOnce =
      (ls_decided, Inr (new_resolution one_digest 0 ls_request VerdictApproved ScopeOnce))"
    by (simp add: pending_Resolve_def ls_request_id ls_id_valid Let_def ls_decided_def)
      (simp add: ls_pending_def ghas_def VerdictApproved_def VerdictDenied_def scopes)
  moreover have "check_approval ls_engine no_libs (with_channel ls_opts) ls_request ScopeOnce = Inr ()"
    by (simp add: check_approval_def scopes r e)
  moreover have "\<exists>l. appendApprovalAudit no_libs one_digest 0 (with_channel ls_opts) (aj_Plans ls_authority) (Some []) ls_request VerdictApproved ScopeOnce = (l, Inr ())"
    by (simp add: appendApprovalAudit_def audit_Append_def AppendUnless_def ReadAll_def Let_def case_prod_beta)
  moreover have "applySessionGrant ls_engine no_libs one_digest 0 (with_channel ls_opts) [] ls_request ScopeOnce = (st, Inr g)"
    using g(1) by (simp add: applySessionGrant_def r e ls_request_id scopes)
  moreover have "VerdictApproved \<noteq> VerdictDenied" by (simp add: VerdictApproved_def VerdictDenied_def)
  ultimately show ?thesis using g(2)
    by (auto simp: ApplyDecision_def a ls_Get apply_grant_def Let_def scopes)
qed

theorem grant_follows_audit_witness:
  "\<exists>s' x. ApplyDecision ls_engine no_libs one_digest 0 ls_opts ls_authority ls_id VerdictApproved ScopeOnce = (s', x) \<and>
    readResolution (aj_Approvals s') ls_id = Inr (Some (new_resolution one_digest 0 ls_request VerdictApproved ScopeOnce))"
proof -
  from ls_applied obtain s' res where d: "ApplyDecision ls_engine no_libs one_digest 0 ls_opts ls_authority ls_id VerdictApproved ScopeOnce = (s', Inr res)"
    "aj_Sessions s' \<noteq> aj_Sessions ls_authority" by blast
  have "pending_Get one_digest (aj_Approvals ls_authority) ls_id = Inr ls_request" by (simp add: ls_authority_def ls_Get)
  moreover have "o_AuditPath ls_opts \<noteq> []" by (simp add: ls_opts_def)
  ultimately show ?thesis using grant_follows_audit [OF d(1)] d by auto
qed

theorem decided_once_witness:
  "\<exists>s' x. ApplyDecision ls_engine no_libs one_digest 0 ls_opts ls_authority ls_id VerdictApproved ScopeOnce = (s', Inr x) \<and>
    ApplyDecision ls_engine no_libs one_digest 5 ls_opts s' ls_id VerdictDenied [] = (s', Inl ErrAlreadyResolved)"
  using ls_applied decided_once by blast

theorem approval_grants_command_witness:
  "\<exists>s' res g. ApplyDecision ls_engine no_libs one_digest 0 ls_opts ls_authority ls_id VerdictApproved ScopeOnce = (s', Inr res) \<and>
    ap_Grant res = Some g \<and> g_Scope g = ScopeOnce"
  using ls_applied approval_grants_command [of no_engine no_libs one_digest 0 ls_opts ls_authority ls_id ScopeOnce] by blast

end
