(* ===== verification/Sessions.thy ===== *)
theory Sessions
  imports AuditLog
begin

text \<open>
  \<open>internal/session/session.go\<close>: the session a run belongs to, and the summaries of sessions that are
  computed from the audit log. The value of the environment variable \<open>AGENTSSH_SESSION\<close> is an argument,
  empty when it is not set. The set of request identifiers of a session is a list without repetitions.
\<close>

section \<open>The session of a run\<close>

record session_context =
  sc_ID :: string
  sc_Host :: string
  sc_Label :: string

definition ErrNoSession :: error where "ErrNoSession = Sentinel ''session.ErrNoSession''"

definition session_Resolve :: "string \<Rightarrow> string \<Rightarrow> string \<Rightarrow> string \<Rightarrow> session_context res" where
  "session_Resolve envID host explicitID label =
     (if explicitID \<noteq> [] then Inr \<lparr>sc_ID = explicitID, sc_Host = host, sc_Label = label\<rparr>
      else if envID \<noteq> [] then Inr \<lparr>sc_ID = envID, sc_Host = host, sc_Label = label\<rparr>
      else Inl ErrNoSession)"

definition session_NewID :: "string \<Rightarrow> string" where
  "session_NewID rnd = ''s_'' @ hex_string rnd"

section \<open>Summaries\<close>

record Summary =
  su_ID :: string
  su_Label :: string
  su_Host :: string
  su_Start :: string
  su_End :: string
  su_CommandCount :: nat
  su_Denied :: nat
  su_Failed :: nat

definition new_summary :: "auditRecord \<Rightarrow> Summary \<times> string list" where
  "new_summary r = (\<lparr>su_ID = a_SessionID r, su_Label = [], su_Host = [], su_Start = a_TS r, su_End = a_TS r,
     su_CommandCount = 0, su_Denied = 0, su_Failed = 0\<rparr>, [])"

definition summarize :: "auditRecord \<Rightarrow> Summary \<times> string list \<Rightarrow> Summary \<times> string list" where
  "summarize r entry = (case entry of (s, reqs) \<Rightarrow>
     (s\<lparr>su_Label := (if a_SessionLabel r \<noteq> [] then a_SessionLabel r else su_Label s),
        su_Host := (if a_Host r \<noteq> [] \<and> su_Host s = [] then a_Host r else su_Host s),
        su_Start := (if su_Start s = [] \<or> a_TS r < su_Start s then a_TS r else su_Start s),
        su_End := (if su_End s = [] \<or> su_End s < a_TS r then a_TS r else su_End s),
        su_Denied := su_Denied s + (if a_Event r = EventDenied then 1 else 0),
        su_Failed := su_Failed s + (if a_Event r = EventFailed then 1 else 0)\<rparr>,
      if a_ReqID r \<noteq> [] then List.insert (a_ReqID r) reqs else reqs))"

fun summaryLoop :: "auditRecord list \<Rightarrow> (Summary \<times> string list) gomap \<Rightarrow> (Summary \<times> string list) gomap" where
  "summaryLoop [] m = m"
| "summaryLoop (r # rs) m =
     (if a_SessionID r = [] then summaryLoop rs m
      else summaryLoop rs (gput (a_SessionID r)
        (summarize r (case gget m (a_SessionID r) of Some e \<Rightarrow> e | None \<Rightarrow> new_summary r)) m))"

text \<open>The last to end first, then by identifier.\<close>

definition latest_first :: "Summary list \<Rightarrow> Summary list" where
  "latest_first ss = rev (sort_key su_End (rev (sort_key su_ID ss)))"

definition Summaries :: "auditRecord list \<Rightarrow> Summary list" where
  "Summaries records = latest_first (map (\<lambda>(_, s, reqs). s\<lparr>su_CommandCount := length reqs\<rparr>) (summaryLoop records []))"

section \<open>Lemmas\<close>

text \<open>What the records of one session add up to.\<close>

definition of_session :: "string \<Rightarrow> auditRecord list \<Rightarrow> auditRecord list" where
  "of_session sid rs = filter (\<lambda>r. a_SessionID r = sid) rs"

definition req_ids :: "auditRecord list \<Rightarrow> string set" where
  "req_ids rs = {a_ReqID r | r. r \<in> set rs \<and> a_ReqID r \<noteq> []}"

definition entry_ok :: "string \<Rightarrow> auditRecord list \<Rightarrow> Summary \<times> string list \<Rightarrow> bool" where
  "entry_ok sid rs e \<longleftrightarrow> su_ID (fst e) = sid \<and> distinct (snd e) \<and> set (snd e) = req_ids (of_session sid rs) \<and>
     su_Denied (fst e) = length (filter (\<lambda>r. a_Event r = EventDenied) (of_session sid rs)) \<and>
     su_Failed (fst e) = length (filter (\<lambda>r. a_Event r = EventFailed) (of_session sid rs))"

definition entries_ok :: "auditRecord list \<Rightarrow> (Summary \<times> string list) gomap \<Rightarrow> bool" where
  "entries_ok rs m \<longleftrightarrow> distinct (keys m) \<and> set (keys m) = {a_SessionID r | r. r \<in> set rs \<and> a_SessionID r \<noteq> []} \<and>
     (\<forall>sid e. gget m sid = Some e \<longrightarrow> entry_ok sid rs e)"

lemma of_session_snoc: "of_session sid (rs @ [r]) = of_session sid rs @ (if a_SessionID r = sid then [r] else [])"
  by (simp add: of_session_def)

lemma of_session_none: "\<forall>r \<in> set rs. a_SessionID r \<noteq> sid \<Longrightarrow> of_session sid rs = []"
  by (simp add: of_session_def)

lemma req_ids_snoc: "req_ids (rs @ [r]) = (if a_ReqID r \<noteq> [] then insert (a_ReqID r) (req_ids rs) else req_ids rs)"
  by (auto simp: req_ids_def)

lemma entry_ok_summarize: "entry_ok sid rs e \<Longrightarrow> a_SessionID r = sid \<Longrightarrow> entry_ok sid (rs @ [r]) (summarize r e)"
  by (cases e) (simp add: entry_ok_def summarize_def of_session_snoc req_ids_snoc)

lemma entry_ok_new: "of_session (a_SessionID r) rs = [] \<Longrightarrow> entry_ok (a_SessionID r) rs (new_summary r)"
  by (simp add: entry_ok_def new_summary_def req_ids_def)

lemma entry_ok_other: "entry_ok sid rs e \<Longrightarrow> a_SessionID r \<noteq> sid \<Longrightarrow> entry_ok sid (rs @ [r]) e"
  by (simp add: entry_ok_def of_session_snoc)

lemma entries_ok_step:
  assumes "entries_ok rs m" and "a_SessionID r \<noteq> []"
  shows "entries_ok (rs @ [r]) (gput (a_SessionID r) (summarize r (case gget m (a_SessionID r) of Some e \<Rightarrow> e | None \<Rightarrow> new_summary r)) m)"
proof -
  let ?sid = "a_SessionID r"
  have "entry_ok ?sid rs (case gget m ?sid of Some e \<Rightarrow> e | None \<Rightarrow> new_summary r)"
  proof (cases "gget m ?sid")
    case None
    then have "?sid \<notin> set (keys m)" by (simp add: map_of_eq_None_iff)
    then have "\<forall>x \<in> set rs. a_SessionID x \<noteq> ?sid" using assms by (auto simp: entries_ok_def)
    then show ?thesis using None by (simp add: entry_ok_new of_session_none)
  next
    case (Some e)
    then have "entry_ok ?sid rs e" using assms(1) unfolding entries_ok_def by blast
    then show ?thesis using Some by simp
  qed
  then have n: "entry_ok ?sid (rs @ [r]) (summarize r (case gget m ?sid of Some e \<Rightarrow> e | None \<Rightarrow> new_summary r))"
    by (rule entry_ok_summarize) simp
  have o: "entry_ok sid (rs @ [r]) e" if "gget m sid = Some e" "sid \<noteq> ?sid" for sid e
  proof (rule entry_ok_other)
    show "entry_ok sid rs e" using that(1) assms(1) unfolding entries_ok_def by blast
  qed (use that(2) in simp)
  have "set (keys m) = {a_SessionID r | r. r \<in> set rs \<and> a_SessionID r \<noteq> []}" "distinct (keys m)"
    using assms(1) by (simp_all add: entries_ok_def)
  then show ?thesis using n o assms(2)
    unfolding entries_ok_def gget_gput by (auto simp: distinct_update dom_update simp del: fst_conv split: if_splits)
qed

lemma entries_ok_loop: "entries_ok rs m \<Longrightarrow> entries_ok (rs @ rs') (summaryLoop rs' m)"
proof (induction rs' arbitrary: rs m)
  case (Cons r rs')
  show ?case
  proof (cases "a_SessionID r = []")
    case True
    have "a_SessionID r \<noteq> sid" if "gget m sid = Some e" for sid e
    proof -
      have "sid \<in> set (keys m)" using that by (force dest: map_of_SomeD)
      then show ?thesis using Cons.prems True by (auto simp: entries_ok_def)
    qed
    then have "entries_ok (rs @ [r]) m" using Cons.prems True unfolding entries_ok_def by (auto simp: entry_ok_other)
    from Cons.IH [OF this] show ?thesis using True by simp
  next
    case False
    from Cons.IH [OF entries_ok_step [OF Cons.prems False]] show ?thesis using False by simp
  qed
qed simp

lemma insort_key_lex:
  "sorted_wrt (\<lambda>x y. f x < f y \<or> f x = f y \<and> R x y) ys \<Longrightarrow> \<forall>y \<in> set ys. R x y \<Longrightarrow>
   sorted_wrt (\<lambda>x y. f x < f y \<or> f x = f y \<and> R x y) (insort_key f x ys)"
  by (induction ys) (fastforce simp: set_insort_key)+

lemma sort_key_lex: "sorted_wrt R xs \<Longrightarrow> sorted_wrt (\<lambda>x y. f x < f y \<or> f x = f y \<and> R x y) (sort_key f xs)"
  by (induction xs) (simp_all add: insort_key_lex)

lemma latest_first_sorted:
  assumes "distinct (map su_ID ss)"
  shows "sorted_wrt (\<lambda>s t. su_End t < su_End s \<or> su_End s = su_End t \<and> su_ID s < su_ID t) (latest_first ss)"
proof -
  have "sorted (map su_ID (sort_key su_ID ss))" "distinct (map su_ID (sort_key su_ID ss))"
    using assms by (simp_all add: distinct_map)
  then have "sorted_wrt (\<lambda>s t. su_ID t < su_ID s) (rev (sort_key su_ID ss))"
    using strict_sorted_iff [of "map su_ID (sort_key su_ID ss)"] by (simp add: sorted_wrt_rev sorted_wrt_map)
  from sort_key_lex [OF this, of su_End] show ?thesis unfolding latest_first_def sorted_wrt_rev
    by (rule sorted_wrt_mono_rel [rotated]) auto
qed

lemma latest_first_set: "set (latest_first ss) = set ss" "distinct (map su_ID (latest_first ss)) = distinct (map su_ID ss)"
  by (auto simp: latest_first_def distinct_map)

section \<open>Properties\<close>

text \<open>The summaries show every session of the log once, the last to end first, and count its requests, its
  denials and its failures exactly.\<close>

theorem summaries_complete:
  "distinct (map su_ID (Summaries rs)) \<and> set (map su_ID (Summaries rs)) = {a_SessionID r | r. r \<in> set rs \<and> a_SessionID r \<noteq> []} \<and>
   sorted_wrt (\<lambda>s t. su_End t < su_End s \<or> su_End s = su_End t \<and> su_ID s < su_ID t) (Summaries rs) \<and>
   (\<forall>s \<in> set (Summaries rs). su_CommandCount s = card (req_ids (of_session (su_ID s) rs)) \<and>
      su_Denied s = length (filter (\<lambda>r. a_Event r = EventDenied) (of_session (su_ID s) rs)) \<and>
      su_Failed s = length (filter (\<lambda>r. a_Event r = EventFailed) (of_session (su_ID s) rs)))"
proof -
  let ?m = "summaryLoop rs []"
  let ?ss = "map (\<lambda>(_, s, reqs). s\<lparr>su_CommandCount := length reqs\<rparr>) ?m"
  have ok: "entries_ok rs ?m" using entries_ok_loop [of "[]" "[]" rs] by (simp add: entries_ok_def)
  have e: "entry_ok k rs (s, reqs)" if "(k, s, reqs) \<in> set ?m" for k s reqs
    using ok that by (auto simp: entries_ok_def)
  have ids: "map su_ID ?ss = keys ?m" using e by (auto simp: entry_ok_def)
  have d: "distinct (map su_ID ?ss)" unfolding ids using ok by (simp add: entries_ok_def)
  have c: "su_CommandCount s = card (req_ids (of_session (su_ID s) rs)) \<and>
      su_Denied s = length (filter (\<lambda>r. a_Event r = EventDenied) (of_session (su_ID s) rs)) \<and>
      su_Failed s = length (filter (\<lambda>r. a_Event r = EventFailed) (of_session (su_ID s) rs))" if "s \<in> set ?ss" for s
    using that e by (fastforce simp: entry_ok_def distinct_card [symmetric])
  have "set (map su_ID ?ss) = {a_SessionID r | r. r \<in> set rs \<and> a_SessionID r \<noteq> []}"
    unfolding ids using ok by (simp add: entries_ok_def)
  then show ?thesis using d c latest_first_sorted [OF d] latest_first_set [of ?ss] unfolding Summaries_def by (simp add: image_image)
qed

theorem summaries_complete_witness:
  "\<exists>s. s \<in> set (Summaries [audit_ls, audit_ls]) \<and> su_ID s = ''s'' \<and> su_CommandCount s = 1 \<and> su_Denied s = 0"
proof -
  have a: "a_SessionID audit_ls = ''s''" "a_ReqID audit_ls = ''q1''" "a_Event audit_ls \<noteq> EventDenied"
    by (simp_all add: audit_ls_def EventStarted_def EventDenied_def)
  note c = summaries_complete [of "[audit_ls, audit_ls]"]
  from c have "''s'' \<in> set (map su_ID (Summaries [audit_ls, audit_ls]))" using a by auto
  then obtain s where s: "s \<in> set (Summaries [audit_ls, audit_ls])" "su_ID s = ''s''" by auto
  have o: "of_session ''s'' [audit_ls, audit_ls] = [audit_ls, audit_ls]" using a(1) by (simp add: of_session_def)
  have "req_ids [audit_ls, audit_ls] = {''q1''}" using a(2) unfolding req_ids_def by auto
  then have "card (req_ids (of_session (su_ID s) [audit_ls, audit_ls])) = 1" unfolding s(2) o by simp
  moreover have "filter (\<lambda>r. a_Event r = EventDenied) (of_session (su_ID s) [audit_ls, audit_ls]) = []" unfolding s(2) o using a(3) by simp
  moreover have "su_CommandCount s = card (req_ids (of_session (su_ID s) [audit_ls, audit_ls]))"
    "su_Denied s = length (filter (\<lambda>r. a_Event r = EventDenied) (of_session (su_ID s) [audit_ls, audit_ls]))"
    using c s(1) by blast+
  ultimately show ?thesis using s by (intro exI [of _ s]) simp
qed

end
