(* ===== verification/JsonSize.thy ===== *)
theory JsonSize
  imports Json
begin

text \<open>
  How long the texts \<open>encoding/json\<close> writes can get: a string grows at most six-fold and by two quotes,
  a 64-bit number takes at most twenty characters, and an object is as long as its members. The bounds
  that reserve space for a frame or a line rest on these.
\<close>

lemma rune_list_length: "length (rune_list bs) \<le> length bs"
proof (induction bs rule: rune_list.induct)
  case (1 bs)
  show ?case
  proof (cases "bs = []")
    case False
    obtain r ok n where nr: "next_rune bs = (r, ok, n)" by (cases "next_rune bs") auto
    have "length (rune_list (drop n bs)) \<le> length bs - n" using 1 [OF False] nr by simp
    then show ?thesis using next_rune_size [OF False nr] False nr by (auto simp: rune_list.simps [of bs])
  qed simp
qed

lemma encode_rune_four: "length (encode_rune r) \<le> 4"
  by (simp add: encode_rune_def Let_def)

lemma json_rune_six: "length (json_rune x) \<le> 6"
  using encode_rune_four [of "fst x"] by (simp add: json_rune_def json_char_def unbytes_def)

lemma json_string_length: "length (json_string s) \<le> 6 * length s + 2"
proof -
  have "length (concat (map json_rune xs)) \<le> 6 * length xs" for xs
    using json_rune_six by (induction xs) (auto intro: add_mono)
  from this [of "rune_list (bytes s)"] show ?thesis
    using rune_list_length [of "bytes s"] by (simp add: json_string_def bytes_def)
qed

lemma nat_dec_length: "0 < k \<Longrightarrow> n < 10 ^ k \<Longrightarrow> length (nat_dec n) \<le> k"
proof (induction k arbitrary: n)
  case (Suc k)
  show ?case
  proof (cases "n < 10")
    case True
    then show ?thesis by (subst nat_dec.simps) simp
  next
    case False
    then have k: "0 < k" using Suc.prems by (cases k) auto
    have "n div 10 < 10 ^ k" using Suc.prems by (simp add: less_mult_imp_div_less mult.commute)
    from Suc.IH [OF k this] show ?thesis using False by (subst nat_dec.simps) simp
  qed
qed simp

lemma int_dec_length: "\<bar>i\<bar> < 10 ^ 19 \<Longrightarrow> length (int_dec i) \<le> 20"
proof -
  assume "\<bar>i\<bar> < 10 ^ 19"
  then have "length (nat_dec (nat \<bar>i\<bar>)) \<le> 19" by (intro nat_dec_length) (simp_all add: nat_less_iff)
  then show ?thesis by (cases "i < 0") (simp_all add: int_dec_def)
qed

lemma sum_list_bound: "list_all (\<lambda>x. f x \<le> k) xs \<Longrightarrow> sum_list (map f xs) \<le> length xs * (k::nat)"
  by (induction xs) auto

text \<open>An object: the braces, and each member with its name, a colon and a comma.\<close>

definition member_size :: "string \<times> string option \<Rightarrow> nat" where
  "member_size f = (case snd f of None \<Rightarrow> 0 | Some v \<Rightarrow> length (json_string (fst f)) + length v + 2)"

lemma str_join_length: "length (str_join ws [c]) \<le> sum_list (map (\<lambda>w. length w + 1) ws)"
  by (induction ws rule: induct_list012) auto

lemma json_object_length: "length (json_object fs) \<le> 2 + sum_list (map member_size fs)"
proof -
  have "sum_list (map (\<lambda>m. length (json_member m) + 1) (present fs)) = sum_list (map member_size fs)"
    by (induction fs) (auto simp: present_def member_size_def json_member_def split: option.splits)
  then show ?thesis using str_join_length [of "map json_member (present fs)" "CHR '',''"]
    by (simp add: json_object_def json_members_def comp_def)
qed

lemma member_size_field: "length v \<le> n \<Longrightarrow> member_size (field name v) \<le> 6 * length name + n + 4"
  using json_string_length [of name] by (simp add: member_size_def field_def)

lemma member_size_string: "member_size (field name (json_string s)) \<le> 6 * length name + 6 * length s + 6"
  using json_string_length [of name] json_string_length [of s] by (simp add: member_size_def field_def)

lemma member_size_opt: "member_size (field_opt name s) \<le> 6 * length name + 6 * length s + 6"
  using json_string_length [of name] json_string_length [of s] by (simp add: member_size_def field_opt_def)

lemma member_size_None [simp]: "member_size (name, None) = 0"
  by (simp add: member_size_def)

lemma member_size_opt_Nil [simp]: "member_size (field_opt name []) = 0"
  by (simp add: member_size_def field_opt_def)

end
