(* ===== verification/Runner.thy ===== *)
theory Runner
  imports Adjudicate Sessions Output JsonSize
begin

text \<open>
  \<open>internal/runner\<close>: the pipeline of a run. \<open>runner.go\<close> binds a session to every target, authorises,
  asks for approval, records, executes and filters; \<open>response.go\<close> finishes the responses; \<open>plan.go\<close>
  submits the commands of a plan.

  The files a run shares with other processes are one state, \<open>shared\<close>. Every operation on them takes
  one tick: before it, the other processes have changed the files by \<open>en_Others\<close> of that tick, any
  function at all, and it happens at the time \<open>en_Now\<close> of that tick. The executor is a function of the
  commands executed before; it returns a result and, when it streams, the chunks it writes to standard
  output and standard error. \<open>w_Ran\<close> lists the executions with the audit log as it stood when the
  executor was called.
\<close>

section \<open>Requests, results, responses\<close>

definition ExitOK :: int where "ExitOK = 0"
definition ExitRemoteFailed :: int where "ExitRemoteFailed = 1"
definition ExitUsage :: int where "ExitUsage = 2"
definition ExitPolicyDenied :: int where "ExitPolicyDenied = 6"
definition ExitApprovalRequired :: int where "ExitApprovalRequired = 7"
definition ExitSSHError :: int where "ExitSSHError = 9"

record Stdin =
  si_Data :: "string option"
  si_SHA256 :: string
  si_Bytes :: int

text \<open>The error of a result: an exit of the remote process (\<open>exec.ExitError\<close>), or anything else.\<close>

datatype exec_error = ProcessExit | TransportError

record Result =
  xr_Stdout :: string
  xr_Stderr :: string
  xr_ExitCode :: int
  xr_DurationMS :: int
  xr_Err :: "exec_error option"
  xr_Argv :: "string list"
  xr_OS :: string
  xr_RemoteSignID :: string

record Response =
  rsp_ExecutionState :: string
  rsp_NextAction :: string
  rsp_GrantScope :: string
  rsp_GrantExpiresTS :: string
  rsp_Task :: "TaskPermission option"
  rsp_ReqID :: string
  rsp_SessionID :: string
  rsp_Host :: string
  rsp_Cmd :: string
  rsp_CmdSHA256 :: string
  rsp_CmdTruncated :: bool
  rsp_StdinSHA256 :: string
  rsp_StdinBytes :: int
  rsp_Status :: string
  rsp_ExitCode :: int
  rsp_DurationMS :: int
  rsp_Stdout :: string
  rsp_Stderr :: string
  rsp_OutputTruncated :: bool
  rsp_Redactions :: int
  rsp_PolicyAction :: string
  rsp_PolicyRule :: string
  rsp_ApprovalID :: string
  rsp_ApprovalMatcher :: string
  rsp_ProposedScopes :: "string list"
  rsp_ApprovalReason :: string
  rsp_ExecutionID :: string
  rsp_StepID :: string
  rsp_ReviewSHA256 :: string

definition no_response :: Response where
  "no_response = \<lparr>rsp_ExecutionState = [], rsp_NextAction = [], rsp_GrantScope = [], rsp_GrantExpiresTS = [], rsp_Task = None,
     rsp_ReqID = [], rsp_SessionID = [], rsp_Host = [], rsp_Cmd = [], rsp_CmdSHA256 = [], rsp_CmdTruncated = False,
     rsp_StdinSHA256 = [], rsp_StdinBytes = 0, rsp_Status = [], rsp_ExitCode = 0, rsp_DurationMS = 0, rsp_Stdout = [], rsp_Stderr = [],
     rsp_OutputTruncated = False, rsp_Redactions = 0, rsp_PolicyAction = [], rsp_PolicyRule = [], rsp_ApprovalID = [],
     rsp_ApprovalMatcher = [], rsp_ProposedScopes = [], rsp_ApprovalReason = [], rsp_ExecutionID = [], rsp_StepID = [],
     rsp_ReviewSHA256 = []\<rparr>"

text \<open>What an observer is told.\<close>

datatype notice =
    Denied string string Decision
  | ApprovalPending string PendingRequest
  | NotRun string
  | Finished string Result FilterResult bool
  | Warning error

record Request =
  rq_Target :: ResolvedTarget
  rq_Command :: string
  rq_Stdin :: Stdin
  rq_Session :: string
  rq_SessionLabel :: string
  rq_ExecutionID :: string
  rq_StepID :: string
  rq_ReviewSHA256 :: string
  rq_Stream :: "(string \<Rightarrow> string \<Rightarrow> writer \<times> writer) option"

record Outcome =
  oc_Responses :: "Response list"
  oc_ExitCode :: int
  oc_StreamErr :: "error option"

section \<open>State and environment\<close>

record shared =
  sh_Sessions :: store
  sh_Pending :: approvals
  sh_Plans :: plan_store
  sh_Audit :: log

record execution =
  x_Target :: Target
  x_Command :: string
  x_Stdin :: "string option"
  x_Log :: log

record world =
  w_Shared :: shared
  w_Tick :: nat
  w_Ran :: "execution list"
  w_Notices :: "notice list"
  w_HostOS :: "(string \<times> string) list"

text \<open>Why a context ended: its deadline, or a cancellation with its cause, if one was given.\<close>

datatype ctx_end = DeadlineExceeded | Canceled "string option"

record Env =
  en_Policy :: Config
  en_Inventory :: Inventory
  en_Approval :: RuntimeConfig
  en_MaxPending :: int
  en_Output :: compiledFilter
  en_Engine :: engine
  en_Libs :: libs
  en_Hash :: "string \<Rightarrow> string"
  en_SessionVar :: string
  en_NewReqID :: "(nat \<Rightarrow> string res) option"
  en_Random :: "nat \<Rightarrow> string"
  en_Now :: "nat \<Rightarrow> instant"
  en_Others :: "nat \<Rightarrow> shared \<Rightarrow> shared"
  en_Ctx :: "nat \<Rightarrow> ctx_end option"
  en_Streaming :: bool
  en_Run :: "execution list \<Rightarrow> execution \<Rightarrow> Result \<times> string list \<times> string list"

text \<open>A step of the program: it may fail, and what it has done by then stays done.\<close>

type_synonym 'a run = "world \<Rightarrow> world \<times> 'a res"

definition done_with :: "'a \<Rightarrow> 'a run" where
  "done_with x w = (w, Inr x)"

definition fail_with :: "error \<Rightarrow> 'a run" where
  "fail_with e w = (w, Inl e)"

definition lift_res :: "'a res \<Rightarrow> 'a run" where
  "lift_res r w = (w, r)"

definition seq :: "'a run \<Rightarrow> ('a \<Rightarrow> 'b run) \<Rightarrow> 'b run" where
  "seq m f w = (case m w of (w', Inl e) \<Rightarrow> (w', Inl e) | (w', Inr x) \<Rightarrow> f x w')"

text \<open>An operation on the shared files, at the time and after the interference of its tick.\<close>

definition shared_op :: "Env \<Rightarrow> (instant \<Rightarrow> shared \<Rightarrow> shared \<times> 'a res) \<Rightarrow> 'a run" where
  "shared_op env f w =
     (let (s, r) = f (en_Now env (w_Tick w)) (en_Others env (w_Tick w) (w_Shared w))
      in (w\<lparr>w_Shared := s, w_Tick := Suc (w_Tick w)\<rparr>, r))"

text \<open>The same, with its error discarded.\<close>

definition attempt :: "'a run \<Rightarrow> unit run" where
  "attempt m w = (fst (m w), Inr ())"

definition tell :: "notice \<Rightarrow> unit run" where
  "tell n w = (w\<lparr>w_Notices := w_Notices w @ [n]\<rparr>, Inr ())"

definition run_append :: "Env \<Rightarrow> auditRecord \<Rightarrow> auditRecord run" where
  "run_append env r = shared_op env (\<lambda>now s. let (l, x) = audit_Append (en_Hash env) now (sh_Audit s) r in (s\<lparr>sh_Audit := l\<rparr>, x))"

definition run_authorize :: "Env \<Rightarrow> string \<Rightarrow> string \<Rightarrow> Request \<Rightarrow> string \<Rightarrow> Authorization run" where
  "run_authorize env sid host req reqID = shared_op env (\<lambda>now s.
     let (st, x) = Authorize (en_Engine env) (en_Libs env) (en_Hash env) now (en_Policy env) (en_Inventory env) (sh_Sessions s)
           (en_Approval env) sid host (rq_Command req) (si_SHA256 (rq_Stdin req)) reqID
     in (s\<lparr>sh_Sessions := st\<rparr>, x))"

definition run_preflight :: "Env \<Rightarrow> string \<Rightarrow> string \<Rightarrow> string \<Rightarrow> string \<Rightarrow> Authorization run" where
  "run_preflight env sid host command stdin = shared_op env (\<lambda>now s. (s,
     PreflightAuthorize (en_Engine env) (en_Libs env) (en_Hash env) now (en_Policy env) (en_Inventory env) (sh_Sessions s)
       (en_Approval env) sid host command stdin))"

definition run_release :: "Env \<Rightarrow> string \<Rightarrow> string \<Rightarrow> unit run" where
  "run_release env sid reqID = shared_op env (\<lambda>now s.
     let (st, x) = store_Release (en_Engine env) (en_Hash env) now (sh_Sessions s) sid reqID in (s\<lparr>sh_Sessions := st\<rparr>, x))"

definition run_commit :: "Env \<Rightarrow> string \<Rightarrow> string \<Rightarrow> unit run" where
  "run_commit env sid reqID = shared_op env (\<lambda>now s.
     let (st, x) = store_Commit (en_Engine env) (en_Hash env) now (sh_Sessions s) sid reqID in (s\<lparr>sh_Sessions := st\<rparr>, x))"

definition run_create :: "Env \<Rightarrow> PendingRequest \<Rightarrow> PendingRequest run" where
  "run_create env pr w = shared_op env (\<lambda>now s.
     let (a, x) = pending_Create (en_Libs env) (en_Hash env) now (en_MaxPending env) (en_Random env (w_Tick w)) (sh_Pending s) pr
     in (s\<lparr>sh_Pending := a\<rparr>, x)) w"

definition env_newReqID :: "Env \<Rightarrow> string run" where
  "env_newReqID env w = (w\<lparr>w_Tick := Suc (w_Tick w)\<rparr>,
     (case en_NewReqID env of Some f \<Rightarrow> f (w_Tick w) | None \<Rightarrow> Inr (NewReqID (en_Random env (w_Tick w)))))"

section \<open>Exit codes and texts\<close>

definition IsProcessExit :: "Result \<Rightarrow> bool" where
  "IsProcessExit r \<longleftrightarrow> xr_Err r = None \<or> xr_Err r = Some ProcessExit"

definition IsSSHErrorResult :: "Result \<Rightarrow> bool" where
  "IsSSHErrorResult r \<longleftrightarrow> xr_Err r \<noteq> None \<and> \<not> IsProcessExit r \<or>
     0 < length (xr_Argv r) \<and> hd (xr_Argv r) = ''ssh'' \<and> xr_ExitCode r = 255"

definition StatusForResult :: "Result \<Rightarrow> string" where
  "StatusForResult r = (if IsSSHErrorResult r then ''ssh_error'' else if xr_ExitCode r \<noteq> 0 then ''failed'' else ''completed'')"

definition ExitCodeForResult :: "Result \<Rightarrow> int" where
  "ExitCodeForResult r = (if IsSSHErrorResult r then ExitSSHError else if xr_ExitCode r \<noteq> 0 then ExitRemoteFailed else ExitOK)"

definition MergeExitCode :: "int \<Rightarrow> int \<Rightarrow> int" where
  "MergeExitCode current next =
     (if current = ExitPolicyDenied \<or> next = ExitPolicyDenied then ExitPolicyDenied
      else if current = ExitApprovalRequired \<or> next = ExitApprovalRequired then ExitApprovalRequired
      else if current = ExitSSHError \<or> next = ExitSSHError then ExitSSHError
      else if current = ExitRemoteFailed \<or> next = ExitRemoteFailed then ExitRemoteFailed
      else ExitOK)"

definition invalidPolicyError :: "error \<Rightarrow> error" where
  "invalidPolicyError e = Wrapped ''policy.yaml is invalid'' e"

definition run_ErrNoSession :: error where "run_ErrNoSession = Sentinel ''runner.ErrNoSession''"

definition ctx_error :: "ctx_end \<Rightarrow> error" where
  "ctx_error c = (case c of DeadlineExceeded \<Rightarrow> Sentinel ''context.DeadlineExceeded'' | Canceled _ \<Rightarrow> Sentinel ''context.Canceled'')"

definition interruption :: "ctx_end option \<Rightarrow> string" where
  "interruption c = (case c of
     None \<Rightarrow> []
   | Some DeadlineExceeded \<Rightarrow> ''timed out''
   | Some (Canceled (Some cause)) \<Rightarrow> ''cancelled: '' @ cause
   | Some (Canceled None) \<Rightarrow> ''cancelled'')"

definition SessionIDForTarget :: "string \<Rightarrow> string \<Rightarrow> bool \<Rightarrow> string" where
  "SessionIDForTarget baseID host multiTarget =
     (if \<not> multiTarget \<or> trim_space host = [] then baseID else baseID @ ''@'' @ trim_space host)"

definition AuthorizationReason :: "Authorization \<Rightarrow> string \<Rightarrow> string" where
  "AuthorizationReason auth stdinSHA256 = (case au_Status auth of
     AuthAllow \<Rightarrow> ''allowed by policy rule '' @ Dec_Rule (au_Decision auth)
   | AuthAllowByGrant \<Rightarrow>
       (let scope = (if au_GrantScope auth = [] then ''approval'' else au_GrantScope auth) in
        case au_Task auth of
          Some p \<Rightarrow> ''reused '' @ scope @ '' approval grant: '' @ permission_Summary p
        | None \<Rightarrow> ''reused '' @ scope @ '' approval grant'')
   | AuthNeedsApproval \<Rightarrow>
       (if stdinSHA256 \<noteq> [] then ''approval required: no reusable grant matched this command with stdin sha256 '' @ stdinSHA256
        else ''approval required: default deny and no reusable grant matched this session and host'')
   | AuthHardDeny \<Rightarrow> ''denied by policy rule '' @ Dec_Rule (au_Decision auth))"

section \<open>Records and responses\<close>

definition no_output :: FilterResult where
  "no_output = \<lparr>fr_Stdout = [], fr_Stderr = [], fr_OutputTruncated = False, fr_Redactions = 0\<rparr>"

definition baseRecord :: "string \<Rightarrow> session_context \<Rightarrow> string \<Rightarrow> string \<Rightarrow> string \<Rightarrow> Decision \<Rightarrow> int option \<Rightarrow> string \<Rightarrow> int \<Rightarrow>
    FilterResult \<Rightarrow> auditRecord" where
  "baseRecord reqID ctx event host command decision exitCode outputHash durationMS fr = no_record\<lparr>
     a_ReqID := reqID, a_SessionID := sc_ID ctx, a_SessionLabel := sc_Label ctx, a_Event := event, a_Host := host, a_Cmd := command,
     a_PolicyAction := Dec_Action decision, a_PolicyRule := Dec_Rule decision, a_ExitCode := exitCode, a_OutputSHA256 := outputHash,
     a_OutputTruncated := fr_OutputTruncated fr, a_Redactions := int (fr_Redactions fr), a_DurationMS := durationMS\<rparr>"

definition stampRun :: "auditRecord \<Rightarrow> Request \<Rightarrow> auditRecord" where
  "stampRun r req = r\<lparr>a_StdinSHA256 := si_SHA256 (rq_Stdin req), a_StdinBytes := si_Bytes (rq_Stdin req),
     a_ExecutionID := trim_space (rq_ExecutionID req), a_StepID := trim_space (rq_StepID req),
     a_ReviewSHA256 := trim_space (rq_ReviewSHA256 req)\<rparr>"

definition stampResponse :: "Response \<Rightarrow> Request \<Rightarrow> Response" where
  "stampResponse r req = r\<lparr>rsp_ExecutionID := trim_space (rq_ExecutionID req), rsp_StepID := trim_space (rq_StepID req),
     rsp_ReviewSHA256 := trim_space (rq_ReviewSHA256 req)\<rparr>"

definition CmdEchoMaxBytes :: nat where "CmdEchoMaxBytes = 2048"

text \<open>\<open>utf8.RuneStart\<close>, and the loop that moves the cut back to a start.\<close>

definition RuneStart :: "char \<Rightarrow> bool" where
  "RuneStart c \<longleftrightarrow> \<not> (0x80 \<le> byte c \<and> byte c < 0xC0)"

fun echo_cut :: "string \<Rightarrow> nat \<Rightarrow> nat" where
  "echo_cut cmd 0 = 0"
| "echo_cut cmd (Suc n) = (if RuneStart (cmd ! Suc n) then Suc n else echo_cut cmd n)"

definition finalize :: "(string \<Rightarrow> string) \<Rightarrow> Stdin \<Rightarrow> Response \<Rightarrow> Response" where
  "finalize H stdin r =
     (let status = rsp_Status r;
          r1 = r\<lparr>rsp_ExecutionState := (if status = ''completed'' \<or> status = ''failed'' then ''finished''
                   else if status = ''ssh_error'' then ''unknown'' else ''not_started''),
                 rsp_NextAction := (if status = ''denied'' then ''stop''
                   else if status = ''approval_pending'' then ''wait_for_approval''
                   else if status = ''ssh_error'' then ''inspect_before_retry'' else rsp_NextAction r),
                 rsp_StdinSHA256 := si_SHA256 stdin, rsp_StdinBytes := si_Bytes stdin\<rparr>;
          cmd = rsp_Cmd r
      in if cmd = [] then r1
         else if CmdEchoMaxBytes < length cmd then
           r1\<lparr>rsp_CmdSHA256 := H cmd, rsp_Cmd := take (echo_cut cmd CmdEchoMaxBytes) cmd, rsp_CmdTruncated := True\<rparr>
         else r1\<lparr>rsp_CmdSHA256 := H cmd\<rparr>)"

definition Finalize :: "(string \<Rightarrow> string) \<Rightarrow> Response list \<Rightarrow> Stdin \<Rightarrow> Response list" where
  "Finalize H responses stdin = map (finalize H stdin) responses"

text \<open>The latest record of a request, as \<open>status\<close> prints it.\<close>

definition RequestStatus :: "auditRecord list \<Rightarrow> string \<Rightarrow> Response option" where
  "RequestStatus records reqID = (case filter (\<lambda>r. a_ReqID r = reqID) records of
     [] \<Rightarrow> None
   | rs \<Rightarrow> let r = last rs in Some (no_response\<lparr>
       rsp_ReqID := a_ReqID r, rsp_SessionID := a_SessionID r, rsp_Host := a_Host r, rsp_Cmd := a_Cmd r, rsp_Status := a_Event r,
       rsp_ExitCode := (case a_ExitCode r of Some c \<Rightarrow> c | None \<Rightarrow> if a_Event r = EventDenied then ExitPolicyDenied else 0),
       rsp_DurationMS := a_DurationMS r, rsp_OutputTruncated := a_OutputTruncated r, rsp_Redactions := a_Redactions r,
       rsp_PolicyAction := a_PolicyAction r, rsp_PolicyRule := a_PolicyRule r, rsp_ExecutionID := a_ExecutionID r,
       rsp_StepID := a_StepID r, rsp_ReviewSHA256 := a_ReviewSHA256 r\<rparr>))"

section \<open>Denied and pending targets\<close>

record plan =
  pn_Target :: Target
  pn_ReqID :: string
  pn_Session :: session_context
  pn_Auth :: Authorization

abbreviation pn_Host :: "plan \<Rightarrow> string" where "pn_Host p \<equiv> Target_Name (pn_Target p)"

definition plan_record :: "Request \<Rightarrow> plan \<Rightarrow> string \<Rightarrow> int option \<Rightarrow> auditRecord" where
  "plan_record req p event exitCode = stampRun (baseRecord (pn_ReqID p) (pn_Session p) event (pn_Host p) (rq_Command req)
     (au_Decision (pn_Auth p)) exitCode [] 0 no_output) req"

definition plan_response :: "Request \<Rightarrow> plan \<Rightarrow> string \<Rightarrow> int \<Rightarrow> Response" where
  "plan_response req p status exitCode = stampResponse (no_response\<lparr>
     rsp_ReqID := pn_ReqID p, rsp_SessionID := sc_ID (pn_Session p), rsp_Host := pn_Host p, rsp_Cmd := rq_Command req,
     rsp_Status := status, rsp_ExitCode := exitCode, rsp_PolicyAction := Dec_Action (au_Decision (pn_Auth p)),
     rsp_PolicyRule := Dec_Rule (au_Decision (pn_Auth p)), rsp_ApprovalReason := AuthorizationReason (pn_Auth p) (si_SHA256 (rq_Stdin req))\<rparr>) req"

definition appendDenied :: "Env \<Rightarrow> Request \<Rightarrow> plan \<Rightarrow> Response run" where
  "appendDenied env req p = seq (run_append env (plan_record req p EventDenied None)) (\<lambda>_.
     seq (tell (Denied (pn_Host p) (rq_Command req) (au_Decision (pn_Auth p)))) (\<lambda>_.
       done_with (plan_response req p ''denied'' ExitPolicyDenied)))"

definition new_pending :: PendingRequest where
  "new_pending = \<lparr>pr_Version = 0, pr_ID = [], pr_ReqID = [], pr_SessionID = [], pr_Host = [], pr_Cmd = [], pr_CmdSHA256 = [],
     pr_Candidate = no_matcher, pr_MatcherSHA256 = [], pr_Kind = [], pr_Promotable = False, pr_TS = [], pr_ProposedScopes = [],
     pr_StdinSHA256 = [], pr_StdinBytes = 0, pr_PlanID = [], pr_PlanSeq = 0, pr_PlanTotal = 0\<rparr>"

definition plan_request :: "Request \<Rightarrow> plan \<Rightarrow> PendingRequest" where
  "plan_request req p = new_pending\<lparr>pr_ReqID := pn_ReqID p, pr_SessionID := sc_ID (pn_Session p), pr_Host := pn_Host p,
     pr_Cmd := rq_Command req, pr_Candidate := au_ApprovalMatcher (pn_Auth p), pr_StdinSHA256 := si_SHA256 (rq_Stdin req),
     pr_StdinBytes := si_Bytes (rq_Stdin req)\<rparr>"

definition appendPending :: "Env \<Rightarrow> Request \<Rightarrow> plan \<Rightarrow> Response run" where
  "appendPending env req p = seq (run_create env (plan_request req p)) (\<lambda>pending.
     seq (run_append env ((plan_record req p EventApprovalRequested (Some ExitApprovalRequired))\<lparr>a_ApprovalID := pr_ID pending,
       a_ApprovalMatcher := m_Regex (pr_Candidate pending), a_ApprovalChannel := ChannelExit\<rparr>)) (\<lambda>_.
     seq (tell (ApprovalPending (pn_Host p) pending)) (\<lambda>_.
       done_with ((plan_response req p ''approval_pending'' ExitApprovalRequired)\<lparr>rsp_ApprovalID := pr_ID pending,
         rsp_ApprovalMatcher := m_Regex (pr_Candidate pending), rsp_ProposedScopes := pr_ProposedScopes pending,
         rsp_Task := TaskCandidate (en_Libs env) (pr_Cmd pending) (pr_StdinSHA256 pending)\<rparr>))))"

section \<open>Executing\<close>

text \<open>A step whose failure is followed by another one; the failure stays.\<close>

definition on_failure :: "'a run \<Rightarrow> unit run \<Rightarrow> 'a run" where
  "on_failure m h w = (case m w of (w', Inl e) \<Rightarrow> (fst (h w'), Inl e) | (w', Inr x) \<Rightarrow> (w', Inr x))"

text \<open>A step whose failure is only a warning.\<close>

definition warning :: "unit run \<Rightarrow> unit run" where
  "warning m w = (case m w of (w', Inl e) \<Rightarrow> tell (Warning e) w' | (w', Inr _) \<Rightarrow> (w', Inr ()))"

definition held_once :: "Authorization \<Rightarrow> bool" where
  "held_once auth \<longleftrightarrow> au_Status auth = AuthAllowByGrant \<and> au_GrantScope auth = ScopeOnce"

definition settleOnceClaim :: "Env \<Rightarrow> string \<Rightarrow> string \<Rightarrow> Authorization \<Rightarrow> Result \<Rightarrow> unit run" where
  "settleOnceClaim env sid reqID auth r =
     (if \<not> held_once auth then done_with ()
      else if IsSSHErrorResult r then run_release env sid reqID
      else run_commit env sid reqID)"

text \<open>The call of the executor, buffered or streaming, and what remains of its output.\<close>

definition stream_output :: "compiledFilter \<Rightarrow> writer \<Rightarrow> string list \<Rightarrow> StreamWriter" where
  "stream_output f dst chunks = Flush dst (Writes dst chunks (newStreamWriter f (int DefaultMaxLineCap)))"

definition call_executor :: "Env \<Rightarrow> Request \<Rightarrow> plan \<Rightarrow> bool \<Rightarrow> (Result \<times> FilterResult \<times> error option \<times> bool) run" where
  "call_executor env req p single w =
     (let x = \<lparr>x_Target = pn_Target p, x_Command = rq_Command req, x_Stdin = si_Data (rq_Stdin req), x_Log = sh_Audit (w_Shared w)\<rparr>;
          (r, outs, errs) = en_Run env (w_Ran w) x
      in (w\<lparr>w_Ran := w_Ran w @ [x]\<rparr>, Inr (case (if en_Streaming env \<and> single then rq_Stream req else None) of
           Some stream \<Rightarrow>
             (let (od, ed) = stream (pn_Host p) (pn_ReqID p);
                  so = stream_output (en_Output env) od outs; se = stream_output (en_Output env) ed errs
              in (r, \<lparr>fr_Stdout = Emitted so, fr_Stderr = Emitted se, fr_OutputTruncated = (Truncated so \<or> Truncated se),
                    fr_Redactions = Redactions so + Redactions se\<rparr>, (if sw_err so = None then sw_err se else sw_err so), True))
         | None \<Rightarrow> (r, Apply (en_Output env) (xr_Stdout r) (xr_Stderr r), None, False))))"

text \<open>The record of an execution that ended; \<open>c\<close> is how its context ended.\<close>

definition result_record :: "Env \<Rightarrow> Request \<Rightarrow> plan \<Rightarrow> Result \<Rightarrow> FilterResult \<Rightarrow> ctx_end option \<Rightarrow> auditRecord" where
  "result_record env req p r fr c =
     (let event = (if StatusForResult r \<noteq> ''completed'' then EventFailed else EventCompleted);
          rec = stampRun (baseRecord (pn_ReqID p) (pn_Session p) event (pn_Host p) (rq_Command req) (au_Decision (pn_Auth p))
            (Some (xr_ExitCode r)) (ComputeOutputSHA256 (en_Hash env) (fr_Stdout fr) (fr_Stderr fr)) (xr_DurationMS r) fr) req
      in rec\<lparr>a_RemoteSignID := xr_RemoteSignID r, a_Error := (if event = EventFailed then interruption c else a_Error rec)\<rparr>)"

definition result_response :: "Request \<Rightarrow> plan \<Rightarrow> Result \<Rightarrow> FilterResult \<Rightarrow> Response" where
  "result_response req p r fr = (plan_response req p (StatusForResult r) (xr_ExitCode r))\<lparr>
     rsp_DurationMS := xr_DurationMS r, rsp_Stdout := fr_Stdout fr, rsp_Stderr := fr_Stderr fr,
     rsp_OutputTruncated := fr_OutputTruncated fr, rsp_Redactions := int (fr_Redactions fr),
     rsp_GrantScope := au_GrantScope (pn_Auth p), rsp_GrantExpiresTS := au_GrantExpiresTS (pn_Auth p)\<rparr>"

definition report_os :: "Env \<Rightarrow> plan \<Rightarrow> Result \<Rightarrow> unit run" where
  "report_os env p r w = (if IsSSHErrorResult r then (w, Inr ())
     else (w\<lparr>w_HostOS := w_HostOS w @ [(pn_Host p, xr_OS r)]\<rparr>, Inr ()))"

definition execute :: "Env \<Rightarrow> Request \<Rightarrow> plan \<Rightarrow> bool \<Rightarrow> (Response \<times> Result \<times> error option) run" where
  "execute env req p single =
     seq (on_failure (run_append env (plan_record req p EventStarted None))
            (if held_once (pn_Auth p) then attempt (run_release env (sc_ID (pn_Session p)) (pn_ReqID p)) else done_with ())) (\<lambda>_.
     seq (call_executor env req p single) (\<lambda>(r, fr, streamErr, streamed).
     seq (\<lambda>w. run_append env (result_record env req p r fr (en_Ctx env (w_Tick w))) w) (\<lambda>_.
     seq (warning (settleOnceClaim env (sc_ID (pn_Session p)) (pn_ReqID p) (pn_Auth p) r)) (\<lambda>_.
     seq (report_os env p r) (\<lambda>_.
     seq (tell (Finished (pn_Host p) r fr streamed)) (\<lambda>_.
       done_with (result_response req p r fr, r, streamErr)))))))"

section \<open>Running\<close>

text \<open>The stdin of a grant is checked again; a once grant that is refused for it is given back.\<close>

definition check_stdin :: "Env \<Rightarrow> Request \<Rightarrow> string \<Rightarrow> string \<Rightarrow> bool \<Rightarrow> Authorization \<Rightarrow> Authorization run" where
  "check_stdin env req sid reqID claimed auth =
     (let (checked, ok) = CheckGrantedStdin auth (si_Bytes (rq_Stdin req)) in
      if ok then done_with auth
      else seq (if claimed \<and> au_GrantScope auth = ScopeOnce then attempt (run_release env sid reqID) else done_with ()) (\<lambda>_.
        done_with checked))"

definition policy_checked :: "'a run \<Rightarrow> 'a run" where
  "policy_checked m w = (case m w of (w', Inl e) \<Rightarrow> (w', Inl (invalidPolicyError e)) | (w', Inr x) \<Rightarrow> (w', Inr x))"

definition buildPlan :: "Env \<Rightarrow> Request \<Rightarrow> Target \<Rightarrow> plan run" where
  "buildPlan env req t =
     seq (env_newReqID env) (\<lambda>reqID.
     seq (lift_res (case session_Resolve (en_SessionVar env) (Target_Name t) (rq_Session req) (rq_SessionLabel req) of
            Inl e \<Rightarrow> Inl (if e = ErrNoSession then run_ErrNoSession else Wrapped ''resolve session'' e)
          | Inr c \<Rightarrow> Inr (c\<lparr>sc_ID := SessionIDForTarget (sc_ID c) (Target_Name t) (1 < length (Targets (rq_Target req)))\<rparr>))) (\<lambda>c.
     seq (policy_checked (if rt_Enabled (en_Approval env)
            then run_preflight env (sc_ID c) (Target_Name t) (rq_Command req) (si_SHA256 (rq_Stdin req))
            else run_authorize env (sc_ID c) (Target_Name t) req reqID)) (\<lambda>auth.
     seq (check_stdin env req (sc_ID c) reqID (\<not> rt_Enabled (en_Approval env)) auth) (\<lambda>auth'.
       done_with \<lparr>pn_Target = t, pn_ReqID = reqID, pn_Session = c, pn_Auth = auth'\<rparr>))))"

fun each :: "('a \<Rightarrow> 'b run) \<Rightarrow> 'a list \<Rightarrow> 'b list run" where
  "each f [] = done_with []"
| "each f (x # xs) = seq (f x) (\<lambda>y. seq (each f xs) (\<lambda>ys. done_with (y # ys)))"

definition buildPlans :: "Env \<Rightarrow> Request \<Rightarrow> plan list run" where
  "buildPlans env req = each (buildPlan env req) (Targets (rq_Target req))"

definition anyNeedsApproval :: "plan list \<Rightarrow> bool" where
  "anyNeedsApproval ps \<longleftrightarrow> list_ex (\<lambda>p. au_Status (pn_Auth p) = AuthNeedsApproval) ps"

text \<open>A target of a run that is held back: its response and exit code.\<close>

definition blocked_target :: "Env \<Rightarrow> Request \<Rightarrow> plan \<Rightarrow> (Response \<times> int) run" where
  "blocked_target env req p = (case au_Status (pn_Auth p) of
     AuthHardDeny \<Rightarrow> seq (appendDenied env req p) (\<lambda>r. done_with (r, ExitPolicyDenied))
   | AuthNeedsApproval \<Rightarrow> seq (appendPending env req p) (\<lambda>r. done_with (r, ExitApprovalRequired))
   | _ \<Rightarrow> seq (run_append env (plan_record req p EventDenied (Some ExitApprovalRequired))) (\<lambda>_.
       seq (tell (NotRun (pn_Host p))) (\<lambda>_. done_with (plan_response req p ''not_run'' ExitApprovalRequired, ExitApprovalRequired))))"

definition preflightBlock :: "Env \<Rightarrow> Request \<Rightarrow> plan list \<Rightarrow> Outcome run" where
  "preflightBlock env req ps = seq (each (blocked_target env req) ps) (\<lambda>rs.
     done_with \<lparr>oc_Responses = Finalize (en_Hash env) (map fst rs) (rq_Stdin req), oc_ExitCode = foldl MergeExitCode ExitOK (map snd rs),
       oc_StreamErr = None\<rparr>)"

text \<open>One target: its response, its exit code, a stream error, and whether its command was executed.\<close>

definition run_target :: "Env \<Rightarrow> Request \<Rightarrow> bool \<Rightarrow> plan \<Rightarrow> (Response \<times> int \<times> error option \<times> bool) run" where
  "run_target env req single p0 =
     seq (policy_checked (run_authorize env (sc_ID (pn_Session p0)) (pn_Host p0) req (pn_ReqID p0))) (\<lambda>auth0.
     seq (check_stdin env req (sc_ID (pn_Session p0)) (pn_ReqID p0) True auth0) (\<lambda>auth.
       let p = p0\<lparr>pn_Auth := auth\<rparr> in
       case au_Status auth of
         AuthHardDeny \<Rightarrow> seq (appendDenied env req p) (\<lambda>r. done_with (r, ExitPolicyDenied, None, False))
       | AuthNeedsApproval \<Rightarrow>
           if \<not> rt_Enabled (en_Approval env) then seq (appendDenied env req p) (\<lambda>r. done_with (r, ExitPolicyDenied, None, False))
           else seq (appendPending env req p) (\<lambda>r. done_with (r, ExitApprovalRequired, None, False))
       | _ \<Rightarrow> seq (execute env req p single) (\<lambda>(r, result, streamErr). done_with (r, ExitCodeForResult result, streamErr, True))))"

fun runLoop :: "Env \<Rightarrow> Request \<Rightarrow> bool \<Rightarrow> plan list \<Rightarrow> Outcome \<Rightarrow> Outcome run" where
  "runLoop env req single [] oc = done_with oc"
| "runLoop env req single (p # ps) oc = (\<lambda>w. case en_Ctx env (w_Tick w) of
     Some c \<Rightarrow> (w, Inl (ctx_error c))
   | None \<Rightarrow> seq (run_target env req single p) (\<lambda>(r, code, streamErr, executed).
       let oc' = oc\<lparr>oc_Responses := oc_Responses oc @ [r], oc_ExitCode := MergeExitCode (oc_ExitCode oc) code,
             oc_StreamErr := (if oc_StreamErr oc = None then streamErr else oc_StreamErr oc)\<rparr>
       in (\<lambda>w'. if executed \<and> en_Ctx env (w_Tick w') \<noteq> None then (w', Inr oc') else runLoop env req single ps oc' w')) w)"

definition Run :: "Env \<Rightarrow> Request \<Rightarrow> Outcome run" where
  "Run env req = seq (buildPlans env req) (\<lambda>ps.
     if rt_Enabled (en_Approval env) \<and> anyNeedsApproval ps then preflightBlock env req ps
     else seq (runLoop env req (length ps = 1) ps \<lparr>oc_Responses = [], oc_ExitCode = ExitOK, oc_StreamErr = None\<rparr>) (\<lambda>oc.
       done_with (oc\<lparr>oc_Responses := Finalize (en_Hash env) (oc_Responses oc) (rq_Stdin req)\<rparr>)))"

section \<open>Lemmas: what a step executes\<close>

text \<open>From a state, a step only adds executions, each with a property.\<close>

definition adds :: "(execution \<Rightarrow> bool) \<Rightarrow> 'a run \<Rightarrow> world \<Rightarrow> bool" where
  "adds P m w \<longleftrightarrow> (\<exists>xs. w_Ran (fst (m w)) = w_Ran w @ xs \<and> (\<forall>x \<in> set xs. P x))"

abbreviation quiet :: "'a run \<Rightarrow> world \<Rightarrow> bool" where
  "quiet m w \<equiv> w_Ran (fst (m w)) = w_Ran w"

named_theorems quiet_intros \<open>steps that execute nothing\<close>

lemma quiet_adds: "quiet m w \<Longrightarrow> adds P m w"
  by (auto simp: adds_def)

lemma adds_seq:
  assumes "adds P m w" and "\<And>w' x. m w = (w', Inr x) \<Longrightarrow> adds P (f x) w'"
  shows "adds P (seq m f) w"
proof (cases "m w")
  case (Pair w' r)
  then obtain xs where xs: "w_Ran w' = w_Ran w @ xs" "\<forall>x \<in> set xs. P x" using assms(1) by (auto simp: adds_def)
  show ?thesis
  proof (cases r)
    case (Inl e)
    then show ?thesis using Pair xs by (auto simp: adds_def seq_def)
  next
    case (Inr x)
    then obtain ys where "w_Ran (fst (f x w')) = w_Ran w' @ ys" "\<forall>x \<in> set ys. P x" using assms(2) Pair by (auto simp: adds_def)
    then show ?thesis using Pair Inr xs by (auto simp: adds_def seq_def intro!: exI [of _ "xs @ ys"])
  qed
qed

lemma quiet_seq [quiet_intros]:
  "quiet m w \<Longrightarrow> (\<And>w' x. m w = (w', Inr x) \<Longrightarrow> quiet (f x) w') \<Longrightarrow> quiet (seq m f) w"
  by (cases "m w") (auto simp: seq_def split: sum.split)

lemma quiet_basic [quiet_intros]:
  "quiet (done_with x) w" "quiet (fail_with e) w" "quiet (lift_res r) w" "quiet (tell n) w" "quiet (shared_op env f) w"
  "quiet (env_newReqID env) w" "quiet (report_os env p result) w"
  by (simp_all add: done_with_def fail_with_def lift_res_def tell_def shared_op_def env_newReqID_def report_os_def Let_def case_prod_beta)

lemma quiet_attempt [quiet_intros]: "quiet m w \<Longrightarrow> quiet (attempt m) w"
  by (simp add: attempt_def)

lemma quiet_policy_checked [quiet_intros]: "quiet m w \<Longrightarrow> quiet (policy_checked m) w"
  by (auto simp: policy_checked_def split: sum.split prod.split)

lemma quiet_warning [quiet_intros]: "quiet m w \<Longrightarrow> quiet (warning m) w"
  by (auto simp: warning_def tell_def split: sum.split prod.split)

lemma quiet_if [quiet_intros]: "quiet m w \<Longrightarrow> quiet n w \<Longrightarrow> quiet (if c then m else n) w"
  by simp

lemma quiet_on_failure [quiet_intros]: "quiet m w \<Longrightarrow> (\<And>w'. quiet h w') \<Longrightarrow> quiet (on_failure m h) w"
  by (cases "m w") (auto simp: on_failure_def split: sum.split)

lemma quiet_ops [quiet_intros]:
  "quiet (run_append env r) w" "quiet (run_authorize env sid host req reqID) w" "quiet (run_preflight env sid host command stdin) w"
  "quiet (run_release env sid reqID) w" "quiet (run_commit env sid reqID) w" "quiet (run_create env pr) w"
  by (simp_all add: run_append_def run_authorize_def run_preflight_def run_release_def run_commit_def run_create_def quiet_basic)

lemma quiet_appendDenied [quiet_intros]: "quiet (appendDenied env req p) w"
  unfolding appendDenied_def by (intro quiet_intros)

lemma quiet_appendPending [quiet_intros]: "quiet (appendPending env req p) w"
  unfolding appendPending_def by (intro quiet_intros)

lemma quiet_check_stdin [quiet_intros]: "quiet (check_stdin env req sid reqID claimed auth) w"
  unfolding check_stdin_def Let_def by (auto intro!: quiet_intros split: prod.split)

lemma quiet_settle [quiet_intros]: "quiet (settleOnceClaim env sid reqID auth r) w"
  unfolding settleOnceClaim_def by (intro quiet_intros)

lemma quiet_each: "(\<And>x w. quiet (f x) w) \<Longrightarrow> quiet (each f xs) w"
  by (induction xs arbitrary: w) (auto intro!: quiet_intros)

lemma quiet_buildPlan: "quiet (buildPlan env req t) w"
  unfolding buildPlan_def by (intro quiet_intros)

lemma quiet_buildPlans: "quiet (buildPlans env req) w"
  unfolding buildPlans_def by (rule quiet_each) (rule quiet_buildPlan)

lemma quiet_blocked: "quiet (blocked_target env req p) w"
  unfolding blocked_target_def by (cases "au_Status (pn_Auth p)") (auto intro!: quiet_intros)

lemma quiet_preflightBlock: "quiet (preflightBlock env req ps) w"
  unfolding preflightBlock_def by (intro quiet_seq quiet_each quiet_blocked quiet_intros)

section \<open>Lemmas: executions are authorised and recorded\<close>

lemma run_append_Inr:
  assumes "run_append env r w = (w', Inr y)"
  shows "\<exists>rs. sh_Audit (en_Others env (w_Tick w) (w_Shared w)) = Some rs \<and> v_OK (verifyRecords (en_Hash env) rs) \<and>
    sh_Audit (w_Shared w') = write_records (Some rs) [chained (en_Hash env) (en_Now env (w_Tick w)) rs r]"
proof -
  let ?l = "sh_Audit (en_Others env (w_Tick w) (w_Shared w))"
  obtain l x where a: "audit_Append (en_Hash env) (en_Now env (w_Tick w)) ?l r = (l, x)" by fastforce
  then have "sh_Audit (w_Shared w') = l" "x = Inr y" using assms by (auto simp: run_append_def shared_op_def Let_def)
  then show ?thesis using Append_cases [OF a] by auto
qed

text \<open>The audit log an execution finds ends in the record of its start.\<close>

definition started_record :: "Env \<Rightarrow> Request \<Rightarrow> execution \<Rightarrow> auditRecord \<Rightarrow> bool" where
  "started_record env req x r \<longleftrightarrow> a_Event r = EventStarted \<and> a_Host r = Target_Name (x_Target x) \<and> a_Cmd r = x_Command x \<and>
     a_StdinSHA256 r = si_SHA256 (rq_Stdin req)"

definition recorded :: "Env \<Rightarrow> Request \<Rightarrow> execution \<Rightarrow> bool" where
  "recorded env req x \<longleftrightarrow> (\<exists>rs now r. v_OK (verifyRecords (en_Hash env) rs) \<and>
     x_Log x = write_records (Some rs) [chained (en_Hash env) now rs r] \<and> started_record env req x r)"

definition requested :: "Request \<Rightarrow> Target \<Rightarrow> execution \<Rightarrow> bool" where
  "requested req t x \<longleftrightarrow> x_Target x = t \<and> x_Command x = rq_Command req \<and> x_Stdin x = si_Data (rq_Stdin req)"

lemma on_failure_Inr: "on_failure m h w = (w', Inr x) \<longleftrightarrow> m w = (w', Inr x)"
  by (auto simp: on_failure_def split: prod.splits sum.splits)

lemma stampRun_sel [simp]: "a_Event (stampRun r req) = a_Event r" "a_Host (stampRun r req) = a_Host r" "a_Cmd (stampRun r req) = a_Cmd r"
  "a_StdinSHA256 (stampRun r req) = si_SHA256 (rq_Stdin req)" "a_OutputSHA256 (stampRun r req) = a_OutputSHA256 r"
  "a_ReqID (stampRun r req) = a_ReqID r" "a_ExitCode (stampRun r req) = a_ExitCode r"
  by (simp_all add: stampRun_def)

lemma baseRecord_sel [simp]: "a_Event (baseRecord q c ev h cmd d x out ms fr) = ev" "a_Host (baseRecord q c ev h cmd d x out ms fr) = h"
  "a_Cmd (baseRecord q c ev h cmd d x out ms fr) = cmd" "a_OutputSHA256 (baseRecord q c ev h cmd d x out ms fr) = out"
  "a_ReqID (baseRecord q c ev h cmd d x out ms fr) = q" "a_ExitCode (baseRecord q c ev h cmd d x out ms fr) = x"
  by (simp_all add: baseRecord_def)

lemma adds_call_executor:
  "(\<And>x. requested req (pn_Target p) x \<Longrightarrow> x_Log x = sh_Audit (w_Shared w) \<Longrightarrow> P x) \<Longrightarrow> adds P (call_executor env req p single) w"
  by (simp add: adds_def call_executor_def Let_def case_prod_beta requested_def)

lemma adds_execute: "adds (\<lambda>x. requested req (pn_Target p) x \<and> recorded env req x) (execute env req p single) w"
  unfolding execute_def
proof (rule adds_seq)
  let ?m = "on_failure (run_append env (plan_record req p EventStarted None))
    (if held_once (pn_Auth p) then attempt (run_release env (sc_ID (pn_Session p)) (pn_ReqID p)) else done_with ())"
  show "adds (\<lambda>x. requested req (pn_Target p) x \<and> recorded env req x) ?m w"
    by (rule quiet_adds) (intro quiet_intros)
  fix w1 y
  assume "?m w = (w1, Inr y)"
  then have "run_append env (plan_record req p EventStarted None) w = (w1, Inr y)" by (simp add: on_failure_Inr)
  from run_append_Inr [OF this] obtain rs where rs: "v_OK (verifyRecords (en_Hash env) rs)"
    "sh_Audit (w_Shared w1) = write_records (Some rs) [chained (en_Hash env) (en_Now env (w_Tick w)) rs (plan_record req p EventStarted None)]"
    by blast
  have x: "recorded env req x" if "requested req (pn_Target p) x" "x_Log x = sh_Audit (w_Shared w1)" for x
    unfolding recorded_def using rs that
    by (intro exI [of _ rs] exI [of _ "en_Now env (w_Tick w)"] exI [of _ "plan_record req p EventStarted None"])
      (simp add: started_record_def plan_record_def requested_def)
  show "adds (\<lambda>x. requested req (pn_Target p) x \<and> recorded env req x) (seq (call_executor env req p single) (\<lambda>(r, fr, streamErr, streamed).
     seq (\<lambda>w. run_append env (result_record env req p r fr (en_Ctx env (w_Tick w))) w) (\<lambda>_.
     seq (warning (settleOnceClaim env (sc_ID (pn_Session p)) (pn_ReqID p) (pn_Auth p) r)) (\<lambda>_.
     seq (report_os env p r) (\<lambda>_.
     seq (tell (Finished (pn_Host p) r fr streamed)) (\<lambda>_.
       done_with (result_response req p r fr, r, streamErr))))))) w1"
    by (rule adds_seq, rule adds_call_executor, simp add: x) (auto intro!: quiet_adds quiet_intros)
qed

text \<open>What the policy says of an execution.\<close>

definition permitted :: "Env \<Rightarrow> Request \<Rightarrow> Target \<Rightarrow> bool" where
  "permitted env req t \<longleftrightarrow> (\<exists>e. NewEngine (eng_compile (en_Engine env))
       (if rt_Enabled (en_Approval env) \<or> si_SHA256 (rq_Stdin req) \<noteq> [] then clean_policy (en_Policy env) else en_Policy env)
       (en_Inventory env) = Inr e \<and>
     (Dec_Action (Evaluate e (Target_Name t) (rq_Command req)) = ActionAllow \<or>
      rt_Enabled (en_Approval env) \<and> Dec_Rule (Evaluate e (Target_Name t) (rq_Command req)) = RuleDefaultDeny))"

lemma run_authorize_Inr:
  assumes "run_authorize env sid host req reqID w = (w', Inr a)"
  shows "Authorize (en_Engine env) (en_Libs env) (en_Hash env) (en_Now env (w_Tick w)) (en_Policy env) (en_Inventory env)
    (sh_Sessions (en_Others env (w_Tick w) (w_Shared w))) (en_Approval env) sid host (rq_Command req) (si_SHA256 (rq_Stdin req)) reqID =
    (sh_Sessions (w_Shared w'), Inr a)"
  using assms by (auto simp: run_authorize_def shared_op_def Let_def split: prod.splits)

lemma policy_checked_Inr: "policy_checked m w = (w', Inr x) \<longleftrightarrow> m w = (w', Inr x)"
  by (auto simp: policy_checked_def split: prod.splits sum.splits)

lemma check_stdin_Inr:
  assumes "check_stdin env req sid reqID claimed auth w = (w', Inr a)"
  shows "(a = auth \<and> w' = w \<and> (au_Status auth = AuthAllowByGrant \<longrightarrow> au_GrantStdinBytes auth = si_Bytes (rq_Stdin req))) \<or> au_Status a = AuthHardDeny"
  using assms by (auto simp: check_stdin_def CheckGrantedStdin_def Let_def seq_def done_with_def split: if_splits prod.splits sum.splits)

lemma authorised_permitted:
  assumes "run_authorize env sid (Target_Name t) req reqID w = (w', Inr a)" and "au_Status a = AuthAllow \<or> au_Status a = AuthAllowByGrant"
  shows "permitted env req t"
  using authorize_allowed [OF run_authorize_Inr [OF assms(1)]] authorize_granted [OF run_authorize_Inr [OF assms(1)]] assms(2)
  unfolding permitted_def by (auto split: if_splits)

definition lawful :: "Env \<Rightarrow> Request \<Rightarrow> Target \<Rightarrow> execution \<Rightarrow> bool" where
  "lawful env req t x \<longleftrightarrow> requested req t x \<and> recorded env req x \<and> permitted env req t"

lemma adds_run_target: "adds (lawful env req (pn_Target p0)) (run_target env req single p0) w"
  unfolding run_target_def
proof (rule adds_seq, rule quiet_adds, intro quiet_intros)
  fix w1 auth0
  assume "policy_checked (run_authorize env (sc_ID (pn_Session p0)) (pn_Host p0) req (pn_ReqID p0)) w = (w1, Inr auth0)"
  then have a0: "run_authorize env (sc_ID (pn_Session p0)) (pn_Host p0) req (pn_ReqID p0) w = (w1, Inr auth0)"
    by (simp add: policy_checked_Inr)
  let ?cont = "\<lambda>auth. let p = p0\<lparr>pn_Auth := auth\<rparr> in
       case au_Status auth of
         AuthHardDeny \<Rightarrow> seq (appendDenied env req p) (\<lambda>r. done_with (r, ExitPolicyDenied, None, False))
       | AuthNeedsApproval \<Rightarrow>
           if \<not> rt_Enabled (en_Approval env) then seq (appendDenied env req p) (\<lambda>r. done_with (r, ExitPolicyDenied, None, False))
           else seq (appendPending env req p) (\<lambda>r. done_with (r, ExitApprovalRequired, None, False))
       | _ \<Rightarrow> seq (execute env req p single) (\<lambda>(r, result, streamErr). done_with (r, ExitCodeForResult result, streamErr, True))"
  have c: "adds (lawful env req (pn_Target p0)) (?cont auth) w2"
    if "check_stdin env req (sc_ID (pn_Session p0)) (pn_ReqID p0) True auth0 w1 = (w2, Inr auth)" for auth w2
  proof (cases "au_Status auth = AuthAllow \<or> au_Status auth = AuthAllowByGrant")
    case True
    then have "auth = auth0" using check_stdin_Inr [OF that] by auto
    then have l: "permitted env req (pn_Target p0)" using authorised_permitted [OF a0] True by simp
    let ?p = "p0\<lparr>pn_Auth := auth\<rparr>"
    have "adds (lawful env req (pn_Target p0)) (execute env req ?p single) w2"
      using adds_execute [of req ?p env single w2] l by (auto simp: adds_def lawful_def)
    then have "adds (lawful env req (pn_Target p0)) (seq (execute env req ?p single)
        (\<lambda>(r, result, streamErr). done_with (r, ExitCodeForResult result, streamErr, True))) w2"
      by (rule adds_seq) (auto intro!: quiet_adds quiet_intros)
    then show ?thesis using True by (auto simp: Let_def)
  next
    case False
    have "quiet (?cont auth) w2" using False unfolding Let_def
      by (cases "au_Status auth") (auto intro!: quiet_intros)
    then show ?thesis by (rule quiet_adds)
  qed
  show "adds (lawful env req (pn_Target p0)) (seq (check_stdin env req (sc_ID (pn_Session p0)) (pn_ReqID p0) True auth0) ?cont) w1"
    by (rule adds_seq [OF quiet_adds [OF quiet_check_stdin] c])
qed

lemma adds_mono: "adds P m w \<Longrightarrow> (\<And>x. P x \<Longrightarrow> Q x) \<Longrightarrow> adds Q m w"
  by (auto simp: adds_def)

lemma adds_runLoop: "adds (\<lambda>x. \<exists>p \<in> set ps. lawful env req (pn_Target p) x) (runLoop env req single ps oc) w"
proof (induction ps arbitrary: oc w)
  case Nil
  show ?case by (auto intro: quiet_adds quiet_intros)
next
  case (Cons p ps oc w)
  let ?P = "\<lambda>x. \<exists>q \<in> set (p # ps). lawful env req (pn_Target q) x"
  show ?case
  proof (cases "en_Ctx env (w_Tick w)")
    case (Some c)
    then show ?thesis by (simp add: adds_def)
  next
    case None
    have "adds ?P (seq (run_target env req single p) (\<lambda>(r, code, streamErr, executed).
       let oc' = oc\<lparr>oc_Responses := oc_Responses oc @ [r], oc_ExitCode := MergeExitCode (oc_ExitCode oc) code,
             oc_StreamErr := (if oc_StreamErr oc = None then streamErr else oc_StreamErr oc)\<rparr>
       in (\<lambda>w'. if executed \<and> en_Ctx env (w_Tick w') \<noteq> None then (w', Inr oc') else runLoop env req single ps oc' w'))) w"
    proof (rule adds_seq)
      show "adds ?P (run_target env req single p) w" using adds_run_target by (rule adds_mono) auto
    next
      fix w1 y
      have l: "adds ?P (runLoop env req single ps oc1) w1" for oc1 using Cons.IH by (rule adds_mono) auto
      have q: "adds ?P (\<lambda>w'. if b \<and> en_Ctx env (w_Tick w') \<noteq> None then (w', Inr oc1) else runLoop env req single ps oc1 w') w1" for b oc1
        using l [of oc1] by (simp add: adds_def)
      show "adds ?P (case y of (r, code, streamErr, executed) \<Rightarrow>
         let oc' = oc\<lparr>oc_Responses := oc_Responses oc @ [r], oc_ExitCode := MergeExitCode (oc_ExitCode oc) code,
             oc_StreamErr := (if oc_StreamErr oc = None then streamErr else oc_StreamErr oc)\<rparr>
         in (\<lambda>w'. if executed \<and> en_Ctx env (w_Tick w') \<noteq> None then (w', Inr oc') else runLoop env req single ps oc' w')) w1"
        by (cases y) (simp only: Let_def prod.case q)
    qed
    then show ?thesis using None by (simp add: adds_def)
  qed
qed

lemma each_map:
  assumes "\<And>x w w' y. f x w = (w', Inr y) \<Longrightarrow> g y = x" and "each f xs w = (w', Inr ys)"
  shows "map g ys = xs"
  using assms(2)
proof (induction xs arbitrary: w ys)
  case (Cons x xs)
  then obtain w1 y zs where "f x w = (w1, Inr y)" "each f xs w1 = (w', Inr zs)" "ys = y # zs"
    by (auto simp: seq_def done_with_def split: prod.splits sum.splits)
  then show ?case using Cons.IH assms(1) by simp
qed (simp add: done_with_def)

lemma buildPlan_target: "buildPlan env req t w = (w', Inr p) \<Longrightarrow> pn_Target p = t"
  by (auto simp: buildPlan_def seq_def done_with_def split: prod.splits sum.splits)

lemma buildPlans_targets: "buildPlans env req w = (w', Inr ps) \<Longrightarrow> map pn_Target ps = Targets (rq_Target req)"
  unfolding buildPlans_def by (rule each_map [OF buildPlan_target])

lemma adds_Run: "adds (\<lambda>x. \<exists>t \<in> set (Targets (rq_Target req)). lawful env req t x) (Run env req) w"
  unfolding Run_def
proof (rule adds_seq [OF quiet_adds [OF quiet_buildPlans]])
  fix w1 ps
  assume "buildPlans env req w = (w1, Inr ps)"
  then have t: "set (Targets (rq_Target req)) = pn_Target ` set ps" using buildPlans_targets by (metis list.set_map)
  show "adds (\<lambda>x. \<exists>t \<in> set (Targets (rq_Target req)). lawful env req t x)
     (if rt_Enabled (en_Approval env) \<and> anyNeedsApproval ps then preflightBlock env req ps
     else seq (runLoop env req (length ps = 1) ps \<lparr>oc_Responses = [], oc_ExitCode = ExitOK, oc_StreamErr = None\<rparr>) (\<lambda>oc.
       done_with (oc\<lparr>oc_Responses := Finalize (en_Hash env) (oc_Responses oc) (rq_Stdin req)\<rparr>))) w1"
  proof (cases "rt_Enabled (en_Approval env) \<and> anyNeedsApproval ps")
    case True
    then show ?thesis by (simp add: quiet_adds quiet_preflightBlock)
  next
    case False
    have "adds (\<lambda>x. \<exists>t \<in> set (Targets (rq_Target req)). lawful env req t x)
        (runLoop env req (length ps = 1) ps \<lparr>oc_Responses = [], oc_ExitCode = ExitOK, oc_StreamErr = None\<rparr>) w1"
      using adds_runLoop by (rule adds_mono) (auto simp: t)
    from adds_seq [OF this quiet_adds [OF quiet_basic(1)]] False show ?thesis by auto
  qed
qed

section \<open>Lemmas: what a step answers\<close>

definition gives :: "('a \<Rightarrow> bool) \<Rightarrow> 'a run \<Rightarrow> world \<Rightarrow> bool" where
  "gives Q m w \<longleftrightarrow> (\<forall>w' y. m w = (w', Inr y) \<longrightarrow> Q y)"

lemma gives_seq: "(\<And>w' x. m w = (w', Inr x) \<Longrightarrow> gives Q (f x) w') \<Longrightarrow> gives Q (seq m f) w"
  by (auto simp: gives_def seq_def split: prod.splits sum.splits)

lemma gives_done [simp]: "gives Q (done_with y) w \<longleftrightarrow> Q y"
  by (simp add: gives_def done_with_def)

lemma giveD: "gives Q m w \<Longrightarrow> m w = (w', Inr y) \<Longrightarrow> Q y"
  by (simp add: gives_def)

definition status_exit :: "string \<Rightarrow> int" where
  "status_exit s =
     (if s = ''denied'' then ExitPolicyDenied
      else if s = ''approval_pending'' \<or> s = ''not_run'' then ExitApprovalRequired
      else if s = ''ssh_error'' then ExitSSHError
      else if s = ''failed'' then ExitRemoteFailed
      else ExitOK)"

lemma result_exit: "ExitCodeForResult r = status_exit (StatusForResult r)"
  by (simp add: ExitCodeForResult_def StatusForResult_def status_exit_def)

text \<open>The response of a target: its host, and no more output than the bound.\<close>

definition small :: "Env \<Rightarrow> string \<Rightarrow> bool" where
  "small env s \<longleftrightarrow> (0 < cf_maxBytes (en_Output env) \<longrightarrow> int (length s) \<le> cf_maxBytes (en_Output env))"

definition answers :: "Env \<Rightarrow> string \<Rightarrow> Response \<Rightarrow> bool" where
  "answers env host r \<longleftrightarrow> rsp_Host r = host \<and> small env (rsp_Stdout r) \<and> small env (rsp_Stderr r)"

lemma plan_response_sel [simp]:
  "rsp_Host (plan_response req p status code) = pn_Host p" "rsp_Status (plan_response req p status code) = status"
  "rsp_Stdout (plan_response req p status code) = []" "rsp_Stderr (plan_response req p status code) = []"
  by (simp_all add: plan_response_def stampResponse_def no_response_def)

lemma small_Nil [simp]: "small env []"
  by (simp add: small_def)

lemma small_Apply: "small env (fr_Stdout (Apply (en_Output env) a b))" "small env (fr_Stderr (Apply (en_Output env) a b))"
  unfolding small_def Apply_def Let_def
  using truncateUTF8_spec [of _ "cf_maxBytes (en_Output env)"] by (simp_all add: case_prod_beta)

lemma sw_reach_Writes: "sw_reach dst f cap w \<Longrightarrow> sw_reach dst f cap (Writes dst ps w)"
  by (induction ps arbitrary: w) (auto intro: sw_write)

lemma small_stream: "small env (Emitted (stream_output (en_Output env) dst chunks))"
proof -
  have "sw_reach dst (en_Output env) (int DefaultMaxLineCap) (stream_output (en_Output env) dst chunks)"
    unfolding stream_output_def by (intro sw_flush sw_reach_Writes sw_new)
  from sw_reach_inv [OF this] show ?thesis by (simp add: small_def sw_inv_def Emitted_def)
qed

lemma gives_appendDenied: "gives (\<lambda>r. answers env (pn_Host p) r \<and> rsp_Status r = ''denied'') (appendDenied env req p) w"
  unfolding appendDenied_def by (intro gives_seq) (simp add: answers_def)

lemma gives_appendPending: "gives (\<lambda>r. answers env (pn_Host p) r \<and> rsp_Status r = ''approval_pending'') (appendPending env req p) w"
  unfolding appendPending_def by (intro gives_seq) (simp add: answers_def)

lemma call_executor_small:
  assumes "call_executor env req p single w = (w', Inr (r, fr, e, b))"
  shows "small env (fr_Stdout fr) \<and> small env (fr_Stderr fr)"
  using assms by (auto simp: call_executor_def Let_def case_prod_beta small_Apply small_stream split: option.splits)

lemma gives_execute:
  "gives (\<lambda>(rsp, result, e). answers env (pn_Host p) rsp \<and> rsp_Status rsp = StatusForResult result) (execute env req p single) w"
  unfolding execute_def
proof (intro gives_seq)
  fix w1 :: world and w2 y
  assume "call_executor env req p single w1 = (w2, Inr y)"
  then have "small env (fr_Stdout (fst (snd y))) \<and> small env (fr_Stderr (fst (snd y)))"
    using call_executor_small by (cases y) fastforce
  then show "gives (\<lambda>(rsp, result, e). answers env (pn_Host p) rsp \<and> rsp_Status rsp = StatusForResult result)
     (case y of (r, fr, streamErr, streamed) \<Rightarrow>
        seq (\<lambda>w. run_append env (result_record env req p r fr (en_Ctx env (w_Tick w))) w) (\<lambda>_.
        seq (warning (settleOnceClaim env (sc_ID (pn_Session p)) (pn_ReqID p) (pn_Auth p) r)) (\<lambda>_.
        seq (report_os env p r) (\<lambda>_.
        seq (tell (Finished (pn_Host p) r fr streamed)) (\<lambda>_.
          done_with (result_response req p r fr, r, streamErr)))))) w2"
    by (cases y) (auto intro!: gives_seq simp: answers_def result_response_def)
qed

lemma gives_run_target:
  "gives (\<lambda>(r, code, e, b). answers env (pn_Host p) r \<and> code = status_exit (rsp_Status r)) (run_target env req single p) w"
  unfolding run_target_def Let_def
proof (intro gives_seq)
  fix w1 :: world and auth
  let ?p = "p\<lparr>pn_Auth := auth\<rparr>"
  let ?Q = "\<lambda>(r, code, e :: error option, b :: bool). answers env (pn_Host p) r \<and> code = status_exit (rsp_Status r)"
  have s: "status_exit ''denied'' = ExitPolicyDenied" "status_exit ''approval_pending'' = ExitApprovalRequired"
    by (simp_all add: status_exit_def)
  have d: "gives ?Q (seq (appendDenied env req ?p) (\<lambda>r. done_with (r, ExitPolicyDenied, None, False))) w1"
    by (rule gives_seq, drule giveD [OF gives_appendDenied]) (simp add: s)
  have n: "gives ?Q (seq (appendPending env req ?p) (\<lambda>r. done_with (r, ExitApprovalRequired, None, False))) w1"
    by (rule gives_seq, drule giveD [OF gives_appendPending]) (simp add: s)
  have e: "gives ?Q (seq (execute env req ?p single) (\<lambda>(r, result, streamErr). done_with (r, ExitCodeForResult result, streamErr, True))) w1"
    by (rule gives_seq, drule giveD [OF gives_execute]) (auto simp: result_exit)
  show "gives ?Q (case au_Status auth of
         AuthHardDeny \<Rightarrow> seq (appendDenied env req ?p) (\<lambda>r. done_with (r, ExitPolicyDenied, None, False))
       | AuthNeedsApproval \<Rightarrow>
           if \<not> rt_Enabled (en_Approval env) then seq (appendDenied env req ?p) (\<lambda>r. done_with (r, ExitPolicyDenied, None, False))
           else seq (appendPending env req ?p) (\<lambda>r. done_with (r, ExitApprovalRequired, None, False))
       | _ \<Rightarrow> seq (execute env req ?p single) (\<lambda>(r, result, streamErr). done_with (r, ExitCodeForResult result, streamErr, True))) w1"
    using d n e by (cases "au_Status auth") simp_all
qed

lemma gives_blocked:
  "gives (\<lambda>(r, code). answers env (pn_Host p) r \<and> code = status_exit (rsp_Status r)) (blocked_target env req p) w"
proof -
  let ?Q = "\<lambda>(r, code). answers env (pn_Host p) r \<and> code = status_exit (rsp_Status r)"
  have s: "status_exit ''denied'' = ExitPolicyDenied" "status_exit ''approval_pending'' = ExitApprovalRequired"
    "status_exit ''not_run'' = ExitApprovalRequired" by (simp_all add: status_exit_def)
  have d: "gives ?Q (seq (appendDenied env req p) (\<lambda>r. done_with (r, ExitPolicyDenied))) w"
    by (rule gives_seq, drule giveD [OF gives_appendDenied]) (simp add: s)
  have n: "gives ?Q (seq (appendPending env req p) (\<lambda>r. done_with (r, ExitApprovalRequired))) w"
    by (rule gives_seq, drule giveD [OF gives_appendPending]) (simp add: s)
  have o: "gives ?Q (seq (run_append env (plan_record req p EventDenied (Some ExitApprovalRequired))) (\<lambda>_.
       seq (tell (NotRun (pn_Host p))) (\<lambda>_. done_with (plan_response req p ''not_run'' ExitApprovalRequired, ExitApprovalRequired)))) w"
    by (intro gives_seq) (simp add: answers_def s)
  show ?thesis using d n o unfolding blocked_target_def by (cases "au_Status (pn_Auth p)") simp_all
qed

text \<open>The exit code of a run is the worst of its responses.\<close>

definition worst_exit :: "string list \<Rightarrow> int" where
  "worst_exit ss =
     (if ''denied'' \<in> set ss then ExitPolicyDenied
      else if ''approval_pending'' \<in> set ss \<or> ''not_run'' \<in> set ss then ExitApprovalRequired
      else if ''ssh_error'' \<in> set ss then ExitSSHError
      else if ''failed'' \<in> set ss then ExitRemoteFailed
      else ExitOK)"

lemmas exit_codes = ExitOK_def ExitRemoteFailed_def ExitPolicyDenied_def ExitApprovalRequired_def ExitSSHError_def

lemma worst_exit_snoc: "worst_exit (ss @ [s]) = MergeExitCode (worst_exit ss) (status_exit s)"
  by (simp add: worst_exit_def MergeExitCode_def status_exit_def exit_codes)

lemma finalize_sel [simp]: "rsp_Host (finalize H stdin r) = rsp_Host r" "rsp_Status (finalize H stdin r) = rsp_Status r"
  "rsp_Stdout (finalize H stdin r) = rsp_Stdout r" "rsp_Stderr (finalize H stdin r) = rsp_Stderr r"
  by (simp_all add: finalize_def Let_def)

lemma gives_runLoop:
  assumes "list_all2 (answers env) hosts (oc_Responses oc)" and "oc_ExitCode oc = worst_exit (map rsp_Status (oc_Responses oc))"
  shows "gives (\<lambda>oc'. (\<exists>done rest. map pn_Host ps = done @ rest \<and> list_all2 (answers env) (hosts @ done) (oc_Responses oc') \<and>
      ((\<forall>k. en_Ctx env k = None) \<longrightarrow> rest = [])) \<and> oc_ExitCode oc' = worst_exit (map rsp_Status (oc_Responses oc')))
    (runLoop env req single ps oc) w"
  using assms
proof (induction ps arbitrary: hosts oc w)
  case Nil
  then show ?case by simp
next
  case (Cons p ps hosts oc w)
  show ?case
    unfolding gives_def
  proof (intro allI impI)
    fix w' oc'
    assume r: "runLoop env req single (p # ps) oc w = (w', Inr oc')"
    then obtain w1 rsp code e b where t: "en_Ctx env (w_Tick w) = None" "run_target env req single p w = (w1, Inr (rsp, code, e, b))"
      by (auto simp: seq_def split: option.splits prod.splits sum.splits)
    define oc1 where "oc1 = oc\<lparr>oc_Responses := oc_Responses oc @ [rsp], oc_ExitCode := MergeExitCode (oc_ExitCode oc) code,
        oc_StreamErr := (if oc_StreamErr oc = None then e else oc_StreamErr oc)\<rparr>"
    have a: "answers env (pn_Host p) rsp" "code = status_exit (rsp_Status rsp)" using giveD [OF gives_run_target t(2)] by auto
    have 1: "list_all2 (answers env) (hosts @ [pn_Host p]) (oc_Responses oc1)"
      "oc_ExitCode oc1 = worst_exit (map rsp_Status (oc_Responses oc1))"
      using Cons.prems a by (simp_all add: oc1_def list_all2_appendI worst_exit_snoc)
    have "(if b \<and> en_Ctx env (w_Tick w1) \<noteq> None then (w1, Inr oc1) else runLoop env req single ps oc1 w1) = (w', Inr oc')"
      using r t unfolding oc1_def by (simp add: seq_def Let_def split del: if_split)
    then consider (stop) "oc' = oc1" "en_Ctx env (w_Tick w1) \<noteq> None" | (go) "runLoop env req single ps oc1 w1 = (w', Inr oc')"
      by (auto split: if_splits)
    then show "(\<exists>done rest. map pn_Host (p # ps) = done @ rest \<and> list_all2 (answers env) (hosts @ done) (oc_Responses oc') \<and>
        ((\<forall>k. en_Ctx env k = None) \<longrightarrow> rest = [])) \<and> oc_ExitCode oc' = worst_exit (map rsp_Status (oc_Responses oc'))"
    proof cases
      case stop
      then show ?thesis using 1 by (intro conjI exI [of _ "[pn_Host p]"] exI [of _ "map pn_Host ps"]) auto
    next
      case go
      from giveD [OF Cons.IH [OF 1] go] obtain hd_hosts rest where d: "map pn_Host ps = hd_hosts @ rest"
        "list_all2 (answers env) (hosts @ pn_Host p # hd_hosts) (oc_Responses oc')" "(\<forall>k. en_Ctx env k = None) \<longrightarrow> rest = []"
        "oc_ExitCode oc' = worst_exit (map rsp_Status (oc_Responses oc'))" by auto
      then show ?thesis by (intro conjI exI [of _ "pn_Host p # hd_hosts"] exI [of _ rest]) simp_all
    qed
  qed
qed

lemma gives_blocked_each:
  "gives (\<lambda>rs. list_all2 (answers env) (map pn_Host ps) (map fst rs) \<and> map snd rs = map (\<lambda>r. status_exit (rsp_Status (fst r))) rs)
    (each (blocked_target env req) ps) w"
proof (induction ps arbitrary: w)
  case (Cons p ps w)
  show ?case unfolding each.simps
  proof (intro gives_seq, goal_cases)
    case (1 w1 y w2 ys)
    then show ?case using giveD [OF gives_blocked 1(1)] giveD [OF Cons.IH 1(2)] by auto
  qed
qed simp

lemma merge_worst: "foldl MergeExitCode (worst_exit done) (map status_exit ss) = worst_exit (done @ ss)"
proof (induction ss arbitrary: "done")
  case (Cons s ss)
  show ?case using Cons.IH [of "done @ [s]"] by (simp add: worst_exit_snoc)
qed simp

lemma answers_finalize: "list_all2 (answers env) hs (map (finalize H stdin) rs) = list_all2 (answers env) hs rs"
  by (simp add: list_all2_map2 answers_def [abs_def])

lemma gives_preflightBlock:
  "gives (\<lambda>oc. list_all2 (answers env) (map pn_Host ps) (oc_Responses oc) \<and> oc_ExitCode oc = worst_exit (map rsp_Status (oc_Responses oc)))
    (preflightBlock env req ps) w"
  unfolding preflightBlock_def
proof (rule gives_seq)
  fix w1 rs
  assume "each (blocked_target env req) ps w = (w1, Inr rs)"
  from giveD [OF gives_blocked_each this] have r: "list_all2 (answers env) (map pn_Host ps) (map fst rs)"
    "map snd rs = map status_exit (map rsp_Status (map fst rs))" by (simp_all add: comp_def)
  have s: "map rsp_Status (Finalize H xs stdin) = map rsp_Status xs" for H xs stdin by (simp add: Finalize_def)
  show "gives (\<lambda>oc. list_all2 (answers env) (map pn_Host ps) (oc_Responses oc) \<and> oc_ExitCode oc = worst_exit (map rsp_Status (oc_Responses oc)))
     (done_with \<lparr>oc_Responses = Finalize (en_Hash env) (map fst rs) (rq_Stdin req), oc_ExitCode = foldl MergeExitCode ExitOK (map snd rs),
       oc_StreamErr = None\<rparr>) w1"
  proof -
    have "foldl MergeExitCode ExitOK (map snd rs) = worst_exit (map rsp_Status (map fst rs))"
      unfolding r(2) using merge_worst [of "[]" "map rsp_Status (map fst rs)"] by (simp only: worst_exit_def [of "[]"]) simp
    moreover have "list_all2 (answers env) (map pn_Host ps) (Finalize (en_Hash env) (map fst rs) (rq_Stdin req))"
      using r(1) by (simp only: Finalize_def answers_finalize)
    ultimately show ?thesis by (simp only: gives_done Outcome.select_convs s)
  qed
qed

section \<open>Lemmas: the course of an execution\<close>

lemma seq_Inr: "seq m f w = (w', Inr y) \<longleftrightarrow> (\<exists>w1 x. m w = (w1, Inr x) \<and> f x w1 = (w', Inr y))"
  by (auto simp: seq_def split: prod.splits sum.splits)

lemma execute_steps:
  assumes "execute env req p single w = (w', Inr (rsp, r, e))"
  shows "\<exists>w1 w2 w3 y1 fr b y3. run_append env (plan_record req p EventStarted None) w = (w1, Inr y1) \<and>
    call_executor env req p single w1 = (w2, Inr (r, fr, e, b)) \<and>
    run_append env (result_record env req p r fr (en_Ctx env (w_Tick w2))) w2 = (w3, Inr y3) \<and>
    w_Shared w' = w_Shared (fst (settleOnceClaim env (sc_ID (pn_Session p)) (pn_ReqID p) (pn_Auth p) r w3)) \<and>
    rsp = result_response req p r fr"
proof -
  from assms obtain w1 y1 w2 fr b w3 y3 w4 w5 w6 where a: "run_append env (plan_record req p EventStarted None) w = (w1, Inr y1)"
    "call_executor env req p single w1 = (w2, Inr (r, fr, e, b))"
    "run_append env (result_record env req p r fr (en_Ctx env (w_Tick w2))) w2 = (w3, Inr y3)"
    "warning (settleOnceClaim env (sc_ID (pn_Session p)) (pn_ReqID p) (pn_Auth p) r) w3 = (w4, Inr ())"
    "report_os env p r w4 = (w5, Inr ())" "tell (Finished (pn_Host p) r fr b) w5 = (w6, Inr ())" "w' = w6" "rsp = result_response req p r fr"
    unfolding execute_def by (auto simp: seq_Inr on_failure_Inr done_with_def)
  have "w_Shared w4 = w_Shared (fst (settleOnceClaim env (sc_ID (pn_Session p)) (pn_ReqID p) (pn_Auth p) r w3))"
    using a(4) by (auto simp: warning_def tell_def split: prod.splits sum.splits)
  moreover have "w_Shared w6 = w_Shared w4" using a(5,6) by (auto simp: report_os_def tell_def split: if_splits)
  ultimately have "w_Shared w' = w_Shared (fst (settleOnceClaim env (sc_ID (pn_Session p)) (pn_ReqID p) (pn_Auth p) r w3))"
    using a(7) by simp
  with a(1-3,8) show ?thesis by blast
qed

text \<open>A record with short texts fits a line of the log.\<close>

lemma record_fits:
  assumes "list_all (\<lambda>s. length s \<le> 10000) (texts r)" and "\<bar>a_Redactions r\<bar> < 10 ^ 19" and "\<bar>a_DurationMS r\<bar> < 10 ^ 19"
    and "\<bar>a_StdinBytes r\<bar> < 10 ^ 19" and "case a_ExitCode r of None \<Rightarrow> True | Some c \<Rightarrow> \<bar>c\<bar> < 10 ^ 19"
  shows "fits r"
proof -
  let ?fs = "head_fields r @ [field ''hash'' (json_string (a_Hash r))] @ tail_fields r @ [field_opt ''event_id'' (a_EventID r)]"
  have "(unat (a_Seq r)) < 2 ^ 64" using unsigned_less [of "a_Seq r"] by simp
  then have n: "length (nat_dec (unat (a_Seq r))) \<le> 20" by (intro nat_dec_length) simp_all
  have f: "member_size (field name v) \<le> 100000" if "length v \<le> 20" "length name \<le> 20" for name v
    using member_size_field [of v 20 name] that by simp
  have s: "member_size (field name (json_string v)) \<le> 100000" if "length v \<le> 10000" "length name \<le> 20" for name v
    using member_size_string [of name v] that by simp
  have o: "member_size (field_opt name v) \<le> 100000" if "length v \<le> 10000" "length name \<le> 20" for name v
    using member_size_opt [of name v] that by simp
  have e: "member_size (''exit_code'', map_option int_dec (a_ExitCode r)) \<le> 100000"
  proof (cases "a_ExitCode r")
    case (Some c)
    then have "length (int_dec c) \<le> 20" using assms(5) int_dec_length by simp
    then show ?thesis using f [of "int_dec c" "''exit_code''"] Some by (simp add: field_def)
  qed simp
  have z: "member_size (''stdin_bytes'', if a_StdinBytes r = 0 then None else Some (int_dec (a_StdinBytes r))) \<le> 100000"
    using f [of "int_dec (a_StdinBytes r)" "''stdin_bytes''"] int_dec_length [OF assms(4)] by (simp add: field_def)
  have b: "length (json_bool x) \<le> 20" for x by (simp add: json_bool_def)
  note d = int_dec_length [OF assms(2)] int_dec_length [OF assms(3)]
  have "list_all (\<lambda>f. member_size f \<le> 100000) ?fs"
    using assms(1) e z by (simp add: head_fields_def tail_fields_def texts_def f s o n b d)
  then have "sum_list (map member_size ?fs) \<le> length ?fs * 100000" by (rule sum_list_bound)
  moreover have "length ?fs \<le> 40" by (simp add: head_fields_def tail_fields_def)
  ultimately show ?thesis using json_object_length [of ?fs] by (simp add: fits_def maxAuditLineBytes_def recordJSON_def)
qed

text \<open>Settling a claim leaves no grant held by the request; a commit removes them, a release keeps them all.\<close>

lemma settled_doc:
  assumes "settle_doc now sid reqID consume doc = Inr (doc', x)" and "sf_SessionID doc \<noteq> [] \<or> sf_Grants doc = []" and "reqID \<noteq> []"
  shows "(\<forall>g \<in> set (sf_Grants doc'). \<not> claimed_by reqID g) \<and>
    (consume \<longrightarrow> sf_Grants doc' = filter (\<lambda>g. \<not> claimed_by reqID g) (sf_Grants doc)) \<and>
    (\<not> consume \<longrightarrow> map g_ApprovalID (sf_Grants doc') = map g_ApprovalID (sf_Grants doc))"
proof -
  let ?f = "\<lambda>g. if \<not> claimed_by reqID g then [g] else if consume then [] else [g\<lparr>g_ClaimReqID := [], g_ClaimTS := []\<rparr>]"
  have u: "\<not> claimed_by reqID (g\<lparr>g_ClaimReqID := [], g_ClaimTS := []\<rparr>)" for g using assms(3) by (simp add: claimed_by_def)
  have c: "consume \<Longrightarrow> concat (map ?f gs) = filter (\<lambda>g. \<not> claimed_by reqID g) gs" for gs
    by (induction gs) auto
  have m: "\<not> consume \<Longrightarrow> map g_ApprovalID (concat (map ?f gs)) = map g_ApprovalID gs" for gs
    by (induction gs) auto
  have n: "\<forall>g \<in> set (concat (map ?f gs)). \<not> claimed_by reqID g" for gs
    using u by (auto split: if_splits)
  show ?thesis
  proof (cases "list_ex (claimed_by reqID) (sf_Grants doc)")
    case True
    have "settle_doc now sid reqID consume doc = Inl (id_mismatch (sf_SessionID doc) sid) \<or>
        settle_doc now sid reqID consume doc = Inr (doc\<lparr>sf_Grants := concat (map ?f (sf_Grants doc)), sf_Updated := format_time now\<rparr>, ())"
    proof (cases "sf_SessionID doc = []")
      case True
      then show ?thesis using assms(2) \<open>list_ex (claimed_by reqID) (sf_Grants doc)\<close> by simp
    next
      case False
      then show ?thesis using True unfolding settle_doc_def by simp
    qed
    then have "Inr (doc\<lparr>sf_Grants := concat (map ?f (sf_Grants doc)), sf_Updated := format_time now\<rparr>, ()) = Inr (doc', x)"
      unfolding assms(1) by blast
    then have "doc\<lparr>sf_Grants := concat (map ?f (sf_Grants doc)), sf_Updated := format_time now\<rparr> = doc'"
      by (simp only: sum.inject prod.inject)
    then have g: "sf_Grants doc' = concat (map ?f (sf_Grants doc))" by (rule subst) simp
    show ?thesis unfolding g by (intro conjI impI n m c)
  next
    case False
    then have "doc' = doc" using assms(1) unfolding settle_doc_def by (simp split: if_splits)
    moreover have "\<forall>g \<in> set (sf_Grants doc). \<not> claimed_by reqID g" using False by (auto simp: list_ex_iff)
    ultimately show ?thesis by (simp add: filter_True)
  qed
qed

lemma settleClaims_settles:
  assumes "sid \<noteq> []" and "reqID \<noteq> []" and "readSessionFile st (sessionPath H sid) = Inr doc" and "doc_ok sid doc"
  shows "\<exists>st' doc'. settleClaims E H now st sid reqID consume = (st', Inr ()) \<and> readSessionFile st' (sessionPath H sid) = Inr doc' \<and>
    (\<forall>g \<in> set (sf_Grants doc'). \<not> claimed_by reqID g) \<and>
    (consume \<longrightarrow> sf_Grants doc' = filter (\<lambda>g. \<not> claimed_by reqID g) (sf_Grants doc)) \<and>
    (\<not> consume \<longrightarrow> map g_ApprovalID (sf_Grants doc') = map g_ApprovalID (sf_Grants doc))"
proof -
  have d: "sf_SessionID doc \<noteq> [] \<or> sf_Grants doc = []" "sf_SessionID doc = [] \<or> sf_SessionID doc = sid"
    using assms(4) by (auto simp: doc_ok_def no_session_def split: if_splits)
  have "\<exists>doc'. settle_doc now sid reqID consume doc = Inr (doc', ())"
  proof (cases "sf_SessionID doc = []")
    case True
    then show ?thesis by (simp add: settle_doc_def)
  next
    case False
    then have "sf_SessionID doc = sid" using d(2) by simp
    then show ?thesis using False unfolding settle_doc_def by (simp split: if_split)
  qed
  then obtain doc' where s: "settle_doc now sid reqID consume doc = Inr (doc', ())" by blast
  obtain st' r where w: "withLockedSession E H st sid (settle_doc now sid reqID consume) = (st', r)" by fastforce
  from withLocked_Inr [OF w assms(1,3)] s doc_ok_upgrade [OF assms(4)] have "r = Inr ()" "readSessionFile st' (sessionPath H sid) = Inr doc'"
    by auto
  moreover have "settleClaims E H now st sid reqID consume = (st', r)" using w assms(1,2) by (simp add: settleClaims_def)
  ultimately show ?thesis using settled_doc [OF s d(1) assms(2)] by blast
qed

text \<open>A run with no other process at work.\<close>

definition alone :: "Env \<Rightarrow> bool" where
  "alone env \<longleftrightarrow> (\<forall>k s. en_Others env k s = s)"

lemma run_append_sessions:
  "alone env \<Longrightarrow> run_append env r w = (w', x) \<Longrightarrow> sh_Sessions (w_Shared w') = sh_Sessions (w_Shared w)"
  by (auto simp: run_append_def shared_op_def alone_def Let_def split: prod.splits)

lemma call_executor_shared: "call_executor env req p single w = (w', x) \<Longrightarrow> w_Shared w' = w_Shared w"
  by (auto simp: call_executor_def Let_def case_prod_beta)

lemma settle_audit: "alone env \<Longrightarrow> sh_Audit (w_Shared (fst (settleOnceClaim env sid reqID auth r w))) = sh_Audit (w_Shared w)"
  by (auto simp: settleOnceClaim_def run_release_def run_commit_def shared_op_def alone_def done_with_def Let_def case_prod_beta)

lemma settle_sessions:
  "alone env \<Longrightarrow> held_once auth \<Longrightarrow> \<exists>now. sh_Sessions (w_Shared (fst (settleOnceClaim env sid reqID auth r w))) =
     fst (settleClaims (en_Engine env) (en_Hash env) now (sh_Sessions (w_Shared w)) sid reqID (\<not> IsSSHErrorResult r))"
  by (auto simp: settleOnceClaim_def run_release_def run_commit_def store_Release_def store_Commit_def shared_op_def alone_def Let_def case_prod_beta)

section \<open>Properties\<close>

text \<open>C3. Nothing runs unrecorded or against the policy: every command a run gives to the executor is the one
  requested, for one of its targets and with its stdin; it is preceded by its \<open>started\<close> record, appended
  to a chain that verifies; and the operator's rules allow it or, with approvals on, leave it open.
  This holds whatever other processes do to the shared files meanwhile.\<close>

theorem runs_lawfully:
  "\<exists>xs. w_Ran (fst (Run env req w)) = w_Ran w @ xs \<and> (\<forall>x \<in> set xs. \<exists>t \<in> set (Targets (rq_Target req)).
     x_Target x = t \<and> x_Command x = rq_Command req \<and> x_Stdin x = si_Data (rq_Stdin req) \<and> permitted env req t \<and>
     (\<exists>rs now r. v_OK (verifyRecords (en_Hash env) rs) \<and> x_Log x = write_records (Some rs) [chained (en_Hash env) now rs r] \<and>
        a_Event r = EventStarted \<and> a_Host r = Target_Name t \<and> a_Cmd r = rq_Command req \<and> a_StdinSHA256 r = si_SHA256 (rq_Stdin req)))"
proof -
  have l: "x_Target x = t \<and> x_Command x = rq_Command req \<and> x_Stdin x = si_Data (rq_Stdin req) \<and> permitted env req t \<and>
     (\<exists>rs now r. v_OK (verifyRecords (en_Hash env) rs) \<and> x_Log x = write_records (Some rs) [chained (en_Hash env) now rs r] \<and>
        a_Event r = EventStarted \<and> a_Host r = Target_Name t \<and> a_Cmd r = rq_Command req \<and> a_StdinSHA256 r = si_SHA256 (rq_Stdin req))"
    if "lawful env req t x" for t x
  proof -
    from that obtain rs now r where r: "v_OK (verifyRecords (en_Hash env) rs)"
      "x_Log x = write_records (Some rs) [chained (en_Hash env) now rs r]" "started_record env req x r"
      by (auto simp: lawful_def recorded_def)
    then show ?thesis using that
      by (intro conjI exI [of _ rs] exI [of _ now] exI [of _ r]) (auto simp: lawful_def requested_def started_record_def)
  qed
  obtain xs where xs: "w_Ran (fst (Run env req w)) = w_Ran w @ xs" "\<forall>x \<in> set xs. \<exists>t \<in> set (Targets (rq_Target req)). lawful env req t x"
    using adds_Run [of req env w] unfolding adds_def by blast
  show ?thesis
  proof (intro exI conjI ballI)
    show "w_Ran (fst (Run env req w)) = w_Ran w @ xs" by (rule xs(1))
    fix x
    assume "x \<in> set xs"
    then obtain t where t: "t \<in> set (Targets (rq_Target req))" "lawful env req t x" using xs(2) by blast
    show "\<exists>t \<in> set (Targets (rq_Target req)).
     x_Target x = t \<and> x_Command x = rq_Command req \<and> x_Stdin x = si_Data (rq_Stdin req) \<and> permitted env req t \<and>
     (\<exists>rs now r. v_OK (verifyRecords (en_Hash env) rs) \<and> x_Log x = write_records (Some rs) [chained (en_Hash env) now rs r] \<and>
        a_Event r = EventStarted \<and> a_Host r = Target_Name t \<and> a_Cmd r = rq_Command req \<and> a_StdinSHA256 r = si_SHA256 (rq_Stdin req))"
      by (rule bexI [where x = t]) (rule l [OF t(2)], rule t(1))
  qed
qed

text \<open>C4. A group is never half run: with approvals on, if any target of a run needs an approval when they are
  all looked at, none of them executes anything.\<close>

theorem blocked_group_runs_nothing:
  assumes "buildPlans env req w = (w1, Inr ps)" and "rt_Enabled (en_Approval env)" and "p \<in> set ps" and "au_Status (pn_Auth p) = AuthNeedsApproval"
  shows "w_Ran (fst (Run env req w)) = w_Ran w"
proof -
  have "anyNeedsApproval ps" using assms(3,4) by (auto simp: anyNeedsApproval_def list_ex_iff)
  then have "Run env req w = preflightBlock env req ps w1" using assms(1,2) by (simp add: Run_def seq_def)
  moreover have "w_Ran w1 = w_Ran w" using quiet_buildPlans [of env req w] assms(1) by simp
  ultimately show ?thesis using quiet_preflightBlock [of env req ps w1] by simp
qed

text \<open>A run that completes answers for its targets in their order, for all of them unless it was cancelled;
  its exit code is the worst of its responses (denied, then waiting for approval, then transport error,
  then failed); and no response carries more output than the filter's bound, streamed or not.\<close>

theorem run_reports_worst:
  assumes "Run env req w = (w', Inr oc)"
  shows "prefix (map rsp_Host (oc_Responses oc)) (map Target_Name (Targets (rq_Target req))) \<and>
    ((\<forall>k. en_Ctx env k = None) \<longrightarrow> map rsp_Host (oc_Responses oc) = map Target_Name (Targets (rq_Target req))) \<and>
    oc_ExitCode oc = worst_exit (map rsp_Status (oc_Responses oc)) \<and>
    (\<forall>r \<in> set (oc_Responses oc). 0 < cf_maxBytes (en_Output env) \<longrightarrow>
       int (length (rsp_Stdout r)) \<le> cf_maxBytes (en_Output env) \<and> int (length (rsp_Stderr r)) \<le> cf_maxBytes (en_Output env))"
proof -
  obtain w1 ps where b: "buildPlans env req w = (w1, Inr ps)" using assms by (auto simp: Run_def seq_def split: prod.splits sum.splits)
  have t: "map pn_Host ps = map Target_Name (Targets (rq_Target req))" 
    using arg_cong [OF buildPlans_targets [OF b], of "map Target_Name"] by (simp add: comp_def)
  have "\<exists>done rest. map pn_Host ps = done @ rest \<and> list_all2 (answers env) done (oc_Responses oc) \<and>
      ((\<forall>k. en_Ctx env k = None) \<longrightarrow> rest = []) \<and> oc_ExitCode oc = worst_exit (map rsp_Status (oc_Responses oc))"
  proof (cases "rt_Enabled (en_Approval env) \<and> anyNeedsApproval ps")
    case True
    then have "preflightBlock env req ps w1 = (w', Inr oc)" using assms b by (simp add: Run_def seq_def)
    from giveD [OF gives_preflightBlock this] show ?thesis by (intro exI [of _ "map pn_Host ps"] exI [of _ "[]"]) simp
  next
    case False
    then obtain oc1 where l: "runLoop env req (length ps = 1) ps \<lparr>oc_Responses = [], oc_ExitCode = ExitOK, oc_StreamErr = None\<rparr> w1 = (w', Inr oc1)"
      "oc = oc1\<lparr>oc_Responses := Finalize (en_Hash env) (oc_Responses oc1) (rq_Stdin req)\<rparr>"
      using assms b by (auto simp: Run_def seq_def done_with_def split: prod.splits sum.splits)
    have "map rsp_Status (oc_Responses oc) = map rsp_Status (oc_Responses oc1)" by (simp add: l(2) Finalize_def)
    moreover have "list_all2 (answers env) d (oc_Responses oc) = list_all2 (answers env) d (oc_Responses oc1)" for d
      by (simp add: l(2) Finalize_def answers_finalize)
    moreover have "oc_ExitCode oc = oc_ExitCode oc1" by (simp add: l(2))
    ultimately show ?thesis using giveD [OF gives_runLoop [of _ "[]"] l(1)] by (simp add: worst_exit_def [of "[]"])
  qed
  then obtain d rest where d: "map pn_Host ps = d @ rest" "list_all2 (answers env) d (oc_Responses oc)"
    "(\<forall>k. en_Ctx env k = None) \<longrightarrow> rest = []" "oc_ExitCode oc = worst_exit (map rsp_Status (oc_Responses oc))" by blast
  have h: "map rsp_Host (oc_Responses oc) = d" using d(2) by (induction rule: list_all2_induct) (auto simp: answers_def)
  have "small env (rsp_Stdout r) \<and> small env (rsp_Stderr r)" if "r \<in> set (oc_Responses oc)" for r
    using d(2) that by (induction rule: list_all2_induct) (auto simp: answers_def)
  then show ?thesis using d h unfolding t small_def by (auto simp: prefix_def)
qed

text \<open>C11. What is audited is what is returned: after an execution that no other process interferes with, the log
  ends in its start and its end, and the end carries the digest of exactly the output the response
  returns, its exit code and whether it completed.\<close>

theorem audit_covers_response:
  assumes "execute env req p single w = (w', Inr (rsp, r, e))" and "alone env"
  shows "\<exists>rs rs1 now1 now2 rec1 rec2. sh_Audit (w_Shared w) = Some rs \<and> v_OK (verifyRecords (en_Hash env) rs) \<and>
    write_records (Some rs) [chained (en_Hash env) now1 rs rec1] = Some rs1 \<and> v_OK (verifyRecords (en_Hash env) rs1) \<and>
    sh_Audit (w_Shared w') = write_records (Some rs1) [chained (en_Hash env) now2 rs1 rec2] \<and>
    a_Event rec1 = EventStarted \<and> a_ReqID rec1 = rsp_ReqID rsp \<and> a_ReqID rec2 = rsp_ReqID rsp \<and>
    a_Event rec2 = (if rsp_Status rsp = ''completed'' then EventCompleted else EventFailed) \<and>
    a_ExitCode rec2 = Some (rsp_ExitCode rsp) \<and>
    a_OutputSHA256 rec2 = ComputeOutputSHA256 (en_Hash env) (rsp_Stdout rsp) (rsp_Stderr rsp)"
proof -
  from execute_steps [OF assms(1)] obtain w1 w2 w3 y1 fr b y3 where
    x: "run_append env (plan_record req p EventStarted None) w = (w1, Inr y1)" "call_executor env req p single w1 = (w2, Inr (r, fr, e, b))"
      "run_append env (result_record env req p r fr (en_Ctx env (w_Tick w2))) w2 = (w3, Inr y3)"
      "w_Shared w' = w_Shared (fst (settleOnceClaim env (sc_ID (pn_Session p)) (pn_ReqID p) (pn_Auth p) r w3))"
      "rsp = result_response req p r fr" by blast
  have a: "en_Others env k s = s" for k s using assms(2) by (simp add: alone_def)
  from run_append_Inr [OF x(1)] obtain rs where rs: "sh_Audit (w_Shared w) = Some rs" "v_OK (verifyRecords (en_Hash env) rs)"
    "sh_Audit (w_Shared w1) = write_records (Some rs) [chained (en_Hash env) (en_Now env (w_Tick w)) rs (plan_record req p EventStarted None)]"
    by (auto simp: a)
  from run_append_Inr [OF x(3)] obtain rs1 where rs1: "sh_Audit (w_Shared w2) = Some rs1" "v_OK (verifyRecords (en_Hash env) rs1)"
    "sh_Audit (w_Shared w3) = write_records (Some rs1)
       [chained (en_Hash env) (en_Now env (w_Tick w2)) rs1 (result_record env req p r fr (en_Ctx env (w_Tick w2)))]"
    by (auto simp: a)
  let ?r1 = "plan_record req p EventStarted None" and ?r2 = "result_record env req p r fr (en_Ctx env (w_Tick w2))"
  have l1: "sh_Audit (w_Shared w1) = Some rs1" using rs1(1) call_executor_shared [OF x(2)] by simp
  have l2: "sh_Audit (w_Shared w') = sh_Audit (w_Shared w3)" using x(4) settle_audit [OF assms(2)] by simp
  have r2: "a_Event ?r2 = (if rsp_Status rsp = ''completed'' then EventCompleted else EventFailed)"
    "a_ReqID ?r2 = rsp_ReqID rsp" "a_ExitCode ?r2 = Some (rsp_ExitCode rsp)"
    "a_OutputSHA256 ?r2 = ComputeOutputSHA256 (en_Hash env) (rsp_Stdout rsp) (rsp_Stderr rsp)"
    by (simp_all add: x(5) result_record_def result_response_def plan_response_def stampResponse_def Let_def)
  have r1: "a_Event ?r1 = EventStarted" "a_ReqID ?r1 = rsp_ReqID rsp"
    by (simp_all add: x(5) plan_record_def result_response_def plan_response_def stampResponse_def)
  show ?thesis
    by (intro exI conjI, rule rs(1), rule rs(2), rule rs(3) [symmetric, unfolded l1], rule rs1(2), rule trans [OF l2 rs1(3)],
      rule r1(1), rule r1(2), rule r2(2), rule r2(1), rule r2(3), rule r2(4))
qed

text \<open>A once approval is settled by its run: after an execution under a once grant that no other process
  interferes with, the request holds no grant any more; if the remote side answered, its grant is gone
  and every other one is still there, and after a transport failure every approval is there again.\<close>

theorem once_grant_settled:
  assumes "execute env req p single w = (w', Inr (rsp, r, e))" and "alone env" and "held_once (pn_Auth p)"
    and "sc_ID (pn_Session p) \<noteq> []" and "pn_ReqID p \<noteq> []"
    and "readSessionFile (sh_Sessions (w_Shared w)) (sessionPath (en_Hash env) (sc_ID (pn_Session p))) = Inr doc" and "doc_ok (sc_ID (pn_Session p)) doc"
  shows "(\<forall>g \<in> set (sf_Grants (session_doc (en_Hash env) (sh_Sessions (w_Shared w')) (sc_ID (pn_Session p)))). \<not> claimed_by (pn_ReqID p) g) \<and>
    (\<not> IsSSHErrorResult r \<longrightarrow> sf_Grants (session_doc (en_Hash env) (sh_Sessions (w_Shared w')) (sc_ID (pn_Session p))) =
       filter (\<lambda>g. \<not> claimed_by (pn_ReqID p) g) (sf_Grants doc)) \<and>
    (IsSSHErrorResult r \<longrightarrow> map g_ApprovalID (sf_Grants (session_doc (en_Hash env) (sh_Sessions (w_Shared w')) (sc_ID (pn_Session p)))) =
       map g_ApprovalID (sf_Grants doc))"
proof -
  let ?sid = "sc_ID (pn_Session p)" and ?H = "en_Hash env"
  from execute_steps [OF assms(1)] obtain w1 w2 w3 y1 fr b y3 where
    x: "run_append env (plan_record req p EventStarted None) w = (w1, Inr y1)" "call_executor env req p single w1 = (w2, Inr (r, fr, e, b))"
      "run_append env (result_record env req p r fr (en_Ctx env (w_Tick w2))) w2 = (w3, Inr y3)"
      "w_Shared w' = w_Shared (fst (settleOnceClaim env ?sid (pn_ReqID p) (pn_Auth p) r w3))" by blast
  have s: "sh_Sessions (w_Shared w3) = sh_Sessions (w_Shared w)"
    using run_append_sessions [OF assms(2) x(1)] run_append_sessions [OF assms(2) x(3)] call_executor_shared [OF x(2)] by simp
  obtain now where n: "sh_Sessions (w_Shared w') = fst (settleClaims (en_Engine env) ?H now (sh_Sessions (w_Shared w)) ?sid (pn_ReqID p) (\<not> IsSSHErrorResult r))"
    using settle_sessions [OF assms(2,3), of ?sid "pn_ReqID p" r w3] x(4) s by auto
  obtain st' doc' where d: "settleClaims (en_Engine env) ?H now (sh_Sessions (w_Shared w)) ?sid (pn_ReqID p) (\<not> IsSSHErrorResult r) = (st', Inr ())"
    "readSessionFile st' (sessionPath ?H ?sid) = Inr doc'" "\<forall>g \<in> set (sf_Grants doc'). \<not> claimed_by (pn_ReqID p) g"
    "\<not> IsSSHErrorResult r \<longrightarrow> sf_Grants doc' = filter (\<lambda>g. \<not> claimed_by (pn_ReqID p) g) (sf_Grants doc)"
    "IsSSHErrorResult r \<longrightarrow> map g_ApprovalID (sf_Grants doc') = map g_ApprovalID (sf_Grants doc)"
    using settleClaims_settles [OF assms(4-7), of "en_Engine env" now "\<not> IsSSHErrorResult r"] by auto
  have "session_doc ?H (sh_Sessions (w_Shared w')) ?sid = doc'" using n d(1,2) by (simp add: session_doc_def)
  then show ?thesis using d(3-5) by blast
qed

section \<open>A concrete run\<close>

text \<open>One host, no policy, approvals on, and a once grant for the command.\<close>

definition one_path :: "string \<Rightarrow> string" where "one_path s = ''s''"

definition ls_env :: Env where
  "ls_env = \<lparr>en_Policy = no_policy, en_Inventory = no_hosts, en_Approval = approvals_on, en_MaxPending = 10,
     en_Output = witness_filter 3, en_Engine = ls_engine, en_Libs = no_libs, en_Hash = one_path, en_SessionVar = [],
     en_NewReqID = Some (\<lambda>k. Inr ''q1''), en_Random = (\<lambda>k. []), en_Now = (\<lambda>k. 0), en_Others = (\<lambda>k s. s), en_Ctx = (\<lambda>k. None),
     en_Streaming = False,
     en_Run = (\<lambda>ran x. (\<lparr>xr_Stdout = ''abcd'', xr_Stderr = [], xr_ExitCode = 0, xr_DurationMS = 5, xr_Err = None, xr_Argv = [],
       xr_OS = ''linux'', xr_RemoteSignID = []\<rparr>, [], []))\<rparr>"

definition ls_run :: Request where
  "ls_run = \<lparr>rq_Target = \<lparr>Kind = TargetKindHost, Targets = [\<lparr>Target_Name = ''web'', Target_Host = zeroHost\<rparr>]\<rparr>, rq_Command = ''ls'',
     rq_Stdin = \<lparr>si_Data = None, si_SHA256 = [], si_Bytes = 0\<rparr>, rq_Session = ''s'', rq_SessionLabel = [], rq_ExecutionID = [],
     rq_StepID = [], rq_ReviewSHA256 = [], rq_Stream = None\<rparr>"

definition ls_plan_of :: "Authorization \<Rightarrow> plan" where
  "ls_plan_of a = \<lparr>pn_Target = \<lparr>Target_Name = ''web'', Target_Host = zeroHost\<rparr>, pn_ReqID = ''q1'',
     pn_Session = \<lparr>sc_ID = ''s'', sc_Host = ''web'', sc_Label = []\<rparr>, pn_Auth = a\<rparr>"

abbreviation ls_auth :: Authorization where
  "ls_auth \<equiv> grant_auth (baseEngine (eng_compile ls_engine) None no_policy no_hosts) ''web'' ''ls'' (ls_grant ''q1'' (format_time 0))"


lemma one_path: "sessionPath one_path sid = ''s.json''" "one_path s = ''s''"
  by (simp_all add: sessionPath_def one_path_def)

lemma one_locked: "withLockedSession E one_path st ''s'' fn = withLockedSession E ls_path st ''s'' fn"
  unfolding withLockedSession_def one_path ls_file by (rule refl)

lemma one_authorized: "Authorize ls_engine no_libs one_path 0 no_policy no_hosts (ls_store [ls_grant [] []]) approvals_on ''s'' ''web'' ''ls'' [] ''q1'' =
   (ls_store [ls_grant ''q1'' (format_time 0)], Inr ls_auth)"
proof -
  have "store_Claim ls_engine no_libs one_path 0 (ls_store [ls_grant [] []]) ''s'' ''web'' ''ls'' [] ''q1'' =
     store_Claim ls_engine no_libs ls_path 0 (ls_store [ls_grant [] []]) ''s'' ''web'' ''ls'' [] ''q1''"
    by (simp add: store_Claim_def store_match_def one_locked)
  then show ?thesis using ls_claimed [of no_libs]
    by (simp add: Authorize_def authorize_undecided [OF _ no_policy_engine no_policy_undecided] approvals_on_def grant_lookup_def answer_def)
qed

lemma ls_env_sel [simp]: "en_Policy ls_env = no_policy" "en_Inventory ls_env = no_hosts" "en_Approval ls_env = approvals_on"
  "en_Output ls_env = witness_filter 3" "en_Engine ls_env = ls_engine" "en_Libs ls_env = no_libs" "en_Hash ls_env = one_path"
  "en_NewReqID ls_env = Some (\<lambda>k. Inr ''q1'')" "en_Now ls_env k = 0" "en_Others ls_env k s = s" "en_Ctx ls_env k = None" "en_Streaming ls_env = False"
  "en_Run ls_env done x = (\<lparr>xr_Stdout = ''abcd'', xr_Stderr = [], xr_ExitCode = 0, xr_DurationMS = 5, xr_Err = None, xr_Argv = [],
       xr_OS = ''linux'', xr_RemoteSignID = []\<rparr>, [], [])"
  by (simp_all add: ls_env_def)

lemma ls_auth_sel: "au_Status ls_auth = AuthAllowByGrant" "au_GrantScope ls_auth = ScopeOnce"
  "au_Decision ls_auth = \<lparr>Dec_Action = ''allow'', Dec_Rule = ''approval/session/a1''\<rparr>" "au_GrantStdinBytes ls_auth = 0"
  by (simp_all add: grant_auth_def ls_grant_def new_grant_def scopes ActionAllow_def)

lemma ls_run_sel [simp]: "rq_Target ls_run = \<lparr>Kind = TargetKindHost, Targets = [\<lparr>Target_Name = ''web'', Target_Host = zeroHost\<rparr>]\<rparr>"
  "rq_Command ls_run = ''ls''" "si_SHA256 (rq_Stdin ls_run) = []" "si_Bytes (rq_Stdin ls_run) = 0" "rq_Session ls_run = ''s''"
  by (simp_all add: ls_run_def)

definition ls_world :: "Grant list \<Rightarrow> world" where
  "ls_world gs = \<lparr>w_Shared = \<lparr>sh_Sessions = ls_store gs, sh_Pending = no_approvals, sh_Plans = no_plans, sh_Audit = Some []\<rparr>,
     w_Tick = 0, w_Ran = [], w_Notices = [], w_HostOS = []\<rparr>"

abbreviation ls_started :: auditRecord where "ls_started \<equiv> plan_record ls_run (ls_plan_of ls_auth) EventStarted None"

lemma ls_plan_sel [simp]: "pn_Host (ls_plan_of a) = ''web''" "pn_ReqID (ls_plan_of a) = ''q1''" "sc_ID (pn_Session (ls_plan_of a)) = ''s''"
   "pn_Auth (ls_plan_of a) = a" "sc_Label (pn_Session (ls_plan_of a)) = []"
  by (simp_all add: ls_plan_of_def)

lemma format_length: "length (format_time 0) \<le> 10000"
  by (simp add: format_time_def civil_year.simps civil_month.simps year_days_def leap_year_def month_days_def pad4_def pad2_def Let_def)

lemma trim_Nil: "trim_space [] = []"
  by (simp add: trim_space_def bytes_def rune_segs_def trim_ends_def unbytes_def)

lemma ls_started_texts: "texts (chained one_path 0 [] ls_started) =
   [format_time 0, ''q1'', ''s'', [], ''started'', ''web'', ''ls'', ''allow'', ''approval/session/a1'', [], [], ZeroHash, ''s'',
    [], [], [], [], [], [], [], [], [], [], [], [], [], [], [], [], [], []]"
  using ls_auth_sel by (simp add: texts_def chained_def linked_def plan_record_def stampRun_def baseRecord_def no_record_def
    EventStarted_def one_path ComputeHash_def Let_def) (simp add: ls_run_def trim_Nil)

lemma ls_fits: "fits (chained one_path 0 [] ls_started)"
proof (rule record_fits)
  show "list_all (\<lambda>s. length s \<le> 10000) (texts (chained one_path 0 [] ls_started))"
    unfolding ls_started_texts by (simp add: format_length ZeroHash_valid)
qed (simp_all add: chained_def linked_def plan_record_def stampRun_def baseRecord_def no_record_def Let_def no_output_def)

lemma ls_executes:
  assumes "w_Shared w = w_Shared (ls_world [ls_grant ''q1'' (format_time 0)])"
  shows "\<exists>w' rsp r x. execute ls_env ls_run (ls_plan_of ls_auth) True w = (w', Inr (rsp, r, None)) \<and>
    \<not> IsSSHErrorResult r \<and> w_Ran w' = w_Ran w @ [x]"
proof -
  let ?w0 = w
  let ?c = "chained one_path 0 [] ls_started"
  let ?p = "ls_plan_of ls_auth"
  have f: "list_all fits [?c]" using ls_fits by simp
  have v: "v_OK (verifyRecords one_path [read_back ?c])"
  proof -
    have "valid_record ?c" unfolding valid_record_def ls_started_texts by (simp add: format_time_valid ZeroHash_valid valid_ascii ascii_def)
    moreover have "a_Seq ls_started = 0" by (simp add: plan_record_def stampRun_def baseRecord_def no_record_def)
    ultimately show ?thesis using chained_verifies [of one_path "[]" ls_started 0] by (simp add: read_back_valid)
  qed
  define w1 where "w1 = ?w0\<lparr>w_Shared := (w_Shared ?w0)\<lparr>sh_Audit := Some [read_back ?c]\<rparr>, w_Tick := Suc (w_Tick w)\<rparr>"
  have a1: "run_append ls_env ls_started ?w0 = (w1, Inr ?c)"
    using f assms unfolding w1_def run_append_def shared_op_def by (simp add: audit_Append_def AppendUnless_def ReadAll_def write_records_def ls_world_def Let_def)
  obtain w2 r fr x where c: "call_executor ls_env ls_run ?p True w1 = (w2, Inr (r, fr, None, False))" "xr_Err r = None" "xr_Argv r = []"
      "w_Shared w2 = w_Shared w1" "w_Tick w2 = w_Tick w1" "w_Ran w2 = w_Ran w @ [x]"
    by (simp add: call_executor_def Let_def w1_def)
  obtain w3 y where a2: "run_append ls_env (result_record ls_env ls_run ?p r fr None) w2 = (w3, Inr y)" "w_Ran w3 = w_Ran w2"
    using v c(4,5) assms unfolding run_append_def shared_op_def
    by (simp add: audit_Append_def AppendUnless_def ReadAll_def w1_def ls_world_def case_prod_beta Let_def)
  have e: "\<not> IsSSHErrorResult r" using c(2,3) by (simp add: IsSSHErrorResult_def)
  have "quiet (warning (settleOnceClaim ls_env ''s'' ''q1'' ls_auth r)) w3" by (intro quiet_intros)
  then obtain w4 where s: "warning (settleOnceClaim ls_env ''s'' ''q1'' ls_auth r) w3 = (w4, Inr ())" "w_Ran w4 = w_Ran w3"
    by (cases "settleOnceClaim ls_env ''s'' ''q1'' ls_auth r w3") (auto simp: warning_def tell_def split: sum.splits)
  show ?thesis
    unfolding execute_def using a1 c a2 s e
    by (simp add: seq_def on_failure_def report_os_def tell_def done_with_def)
qed

lemma ls_alone: "alone ls_env"
  by (simp add: alone_def)

lemma ls_doc_ok: "doc_ok ''s'' (ls_doc gs)"
  by (simp add: doc_ok_def ls_doc_def sessionFileVersion_def)

lemma ls_preview:
  "PreflightAuthorize ls_engine no_libs one_path 0 no_policy no_hosts (ls_store [ls_grant [] []]) approvals_on ''s'' ''web'' ''ls'' [] = Inr ls_auth"
proof -
  have g: "grant_auth e host command (ls_grant [] []) = grant_auth e host command (ls_grant c ts)" for e host command c ts
    by (simp add: grant_auth_def ls_grant_def new_grant_def scopes)
  have "store_Preview ls_engine no_libs one_path 0 (ls_store [ls_grant [] []]) ''s'' ''web'' ''ls'' [] = Inr (Some (ls_grant [] []))"
    using ls_usable [of "[]" "[]" "[]"] ls_live [of "[]" "[]"] ls_match [of no_libs "[]" "[]"]
    unfolding store_Preview_def one_path ls_path_read
    by (simp add: ls_doc_def sessionFileVersion_def filterLiveGrants_def not_for_def)
  then show ?thesis
    by (simp add: PreflightAuthorize_def authorize_undecided [OF _ no_policy_engine no_policy_undecided] approvals_on_def grant_lookup_def answer_def
      g [of _ _ _ "''q1''" "format_time 0"])
qed

lemma ls_blocked:
  "\<exists>a. PreflightAuthorize ls_engine no_libs one_path 0 no_policy no_hosts (ls_store []) approvals_on ''s'' ''web'' ''ls'' [] = Inr a \<and>
    au_Status a = AuthNeedsApproval \<and> Dec_Rule (au_Decision a) = RuleDefaultDeny"
proof -
  have v: "valid_string ''ls''" by (simp add: valid_ascii ascii_def)
  obtain m where "Generalize ls_engine ''ls'' HostGrantExact = Inr m" using Generalize_cases [OF _ v, of no_engine HostGrantExact] by auto
  moreover have "store_Preview ls_engine no_libs one_path 0 (ls_store []) ''s'' ''web'' ''ls'' [] = Inr None"
    unfolding store_Preview_def one_path ls_path_read
    by (simp add: ls_doc_def sessionFileVersion_def filterLiveGrants_def)
  moreover have "host_matchers ls_engine no_policy ''web'' = []" by (simp add: host_matchers_def no_policy_def)
  ultimately show ?thesis
    by (simp add: PreflightAuthorize_def authorize_undecided [OF _ no_policy_engine no_policy_undecided] approvals_on_def grant_lookup_def answer_def
      undecided_auth_def splitPolicy_def candidate_auth_def no_policy_decision)
qed

lemma ls_build:
  assumes "PreflightAuthorize ls_engine no_libs one_path 0 no_policy no_hosts (ls_store gs) approvals_on ''s'' ''web'' ''ls'' [] = Inr a"
    and "CheckGrantedStdin a 0 = (a, True)"
  shows "buildPlans ls_env ls_run (ls_world gs) = (ls_world gs\<lparr>w_Tick := 2\<rparr>, Inr [ls_plan_of a])"
  using assms unfolding buildPlans_def buildPlan_def
  by (simp add: seq_def done_with_def env_newReqID_def lift_res_def session_Resolve_def policy_checked_def run_preflight_def shared_op_def
      check_stdin_def approvals_on_def ls_world_def SessionIDForTarget_def ls_plan_of_def ls_run_def)

theorem blocked_group_runs_nothing_witness:
  "w_Ran (fst (Run ls_env ls_run (ls_world []))) = []"
proof -
  obtain a where a: "PreflightAuthorize ls_engine no_libs one_path 0 no_policy no_hosts (ls_store []) approvals_on ''s'' ''web'' ''ls'' [] = Inr a"
    "au_Status a = AuthNeedsApproval" using ls_blocked by blast
  then have "CheckGrantedStdin a 0 = (a, True)" by (simp add: CheckGrantedStdin_def)
  from blocked_group_runs_nothing [OF ls_build [OF a(1) this], of "ls_plan_of a"] a(2) show ?thesis
    by (simp add: approvals_on_def ls_world_def)
qed

lemma ls_runs: "\<exists>w' oc. Run ls_env ls_run (ls_world [ls_grant [] []]) = (w', Inr oc) \<and> w_Ran w' \<noteq> []"
proof -
  let ?w = "ls_world [ls_grant [] []]\<lparr>w_Tick := 2\<rparr>"
  have c: "CheckGrantedStdin ls_auth 0 = (ls_auth, True)" by (simp add: CheckGrantedStdin_def ls_auth_sel)
  have b: "buildPlans ls_env ls_run (ls_world [ls_grant [] []]) = (?w, Inr [ls_plan_of ls_auth])" by (rule ls_build [OF ls_preview c])
  obtain w1 where a: "run_authorize ls_env ''s'' ''web'' ls_run ''q1'' ?w = (w1, Inr ls_auth)"
    "w_Shared w1 = w_Shared (ls_world [ls_grant ''q1'' (format_time 0)])"
    using one_authorized by (simp add: run_authorize_def shared_op_def ls_world_def)
  obtain w2 rsp r x where e: "execute ls_env ls_run (ls_plan_of ls_auth) True w1 = (w2, Inr (rsp, r, None))" "w_Ran w2 = w_Ran w1 @ [x]"
    using ls_executes [OF a(2)] by blast
  have "run_target ls_env ls_run True (ls_plan_of ls_auth) ?w = (w2, Inr (rsp, ExitCodeForResult r, None, True))"
    using a(1) c e(1) unfolding run_target_def ls_plan_sel
    by (simp add: seq_def policy_checked_def check_stdin_def done_with_def Let_def ls_auth_sel) (simp add: ls_plan_of_def done_with_def)
  then obtain oc where "runLoop ls_env ls_run True [ls_plan_of ls_auth] \<lparr>oc_Responses = [], oc_ExitCode = ExitOK, oc_StreamErr = None\<rparr> ?w = (w2, Inr oc)"
    by (simp add: seq_def done_with_def Let_def)
  moreover have "\<not> anyNeedsApproval [ls_plan_of ls_auth]" by (simp add: anyNeedsApproval_def ls_auth_sel)
  ultimately have "fst (Run ls_env ls_run (ls_world [ls_grant [] []])) = w2" "\<exists>oc. snd (Run ls_env ls_run (ls_world [ls_grant [] []])) = Inr oc"
    using b by (simp_all add: Run_def seq_def done_with_def)
  then show ?thesis using e(2) by (metis prod.collapse append_is_Nil_conv not_Cons_self2)
qed

theorem audit_covers_response_witness:
  "\<exists>w' rsp r rs1 now2 rec2. execute ls_env ls_run (ls_plan_of ls_auth) True (ls_world [ls_grant ''q1'' (format_time 0)]) = (w', Inr (rsp, r, None)) \<and>
     sh_Audit (w_Shared w') = write_records (Some rs1) [chained one_path now2 rs1 rec2] \<and>
     a_OutputSHA256 rec2 = ComputeOutputSHA256 one_path (rsp_Stdout rsp) (rsp_Stderr rsp)"
proof -
  obtain w' rsp r where e: "execute ls_env ls_run (ls_plan_of ls_auth) True (ls_world [ls_grant ''q1'' (format_time 0)]) = (w', Inr (rsp, r, None))"
    using ls_executes [OF refl] by blast
  from audit_covers_response [OF e ls_alone] e show ?thesis unfolding ls_env_sel by blast
qed

theorem once_grant_settled_witness:
  "\<exists>w' rsp r. execute ls_env ls_run (ls_plan_of ls_auth) True (ls_world [ls_grant ''q1'' (format_time 0)]) = (w', Inr (rsp, r, None)) \<and>
     sf_Grants (session_doc one_path (sh_Sessions (w_Shared w')) ''s'') = []"
proof -
  obtain w' rsp r where e: "execute ls_env ls_run (ls_plan_of ls_auth) True (ls_world [ls_grant ''q1'' (format_time 0)]) = (w', Inr (rsp, r, None))"
    "\<not> IsSSHErrorResult r" using ls_executes [OF refl] by blast
  have h: "held_once (pn_Auth (ls_plan_of ls_auth))" by (simp add: held_once_def ls_auth_sel)
  have g: "claimed_by ''q1'' (ls_grant ''q1'' (format_time 0))" by (simp add: claimed_by_def ls_grant_def new_grant_def)
  have d: "readSessionFile (sh_Sessions (w_Shared (ls_world [ls_grant ''q1'' (format_time 0)])))
      (sessionPath (en_Hash ls_env) (sc_ID (pn_Session (ls_plan_of ls_auth)))) = Inr (ls_doc [ls_grant ''q1'' (format_time 0)])"
    by (simp add: ls_world_def one_path ls_path_read)
  have "doc_ok (sc_ID (pn_Session (ls_plan_of ls_auth))) (ls_doc [ls_grant ''q1'' (format_time 0)])" by (simp add: ls_doc_ok)
  note s = once_grant_settled [OF e(1) ls_alone h _ _ d this, unfolded ls_plan_sel ls_env_sel]
  have "filter (\<lambda>g. \<not> claimed_by ''q1'' g) (sf_Grants (ls_doc [ls_grant ''q1'' (format_time 0)])) = []" using g by (simp add: ls_doc_def)
  then have "sf_Grants (session_doc one_path (sh_Sessions (w_Shared w')) ''s'') = []" using s e(2) by (metis list.distinct(1))
  then show ?thesis using e(1) by blast
qed

theorem runs_lawfully_witness:
  "\<exists>x xs. w_Ran (fst (Run ls_env ls_run (ls_world [ls_grant [] []]))) = x # xs \<and> Target_Name (x_Target x) = ''web'' \<and> x_Command x = ''ls''"
proof -
  obtain x xs where x: "w_Ran (fst (Run ls_env ls_run (ls_world [ls_grant [] []]))) = x # xs"
    using ls_runs by (metis fst_conv neq_Nil_conv)
  obtain ys where "w_Ran (fst (Run ls_env ls_run (ls_world [ls_grant [] []]))) = w_Ran (ls_world [ls_grant [] []]) @ ys"
    "\<forall>y \<in> set ys. \<exists>t \<in> set (Targets (rq_Target ls_run)). x_Target y = t \<and> x_Command y = rq_Command ls_run"
    using runs_lawfully [of ls_env ls_run "ls_world [ls_grant [] []]"] by blast
  then show ?thesis using x by (auto simp: ls_world_def)
qed

theorem run_reports_worst_witness:
  "\<exists>w' oc. Run ls_env ls_run (ls_world [ls_grant [] []]) = (w', Inr oc) \<and> map rsp_Host (oc_Responses oc) = [''web'']"
proof -
  obtain w' oc where r: "Run ls_env ls_run (ls_world [ls_grant [] []]) = (w', Inr oc)" using ls_runs by blast
  from run_reports_worst [OF r] r show ?thesis by auto
qed

end
