(* ===== verification/Submit.thy ===== *)
theory Submit
  imports Runner
begin

text \<open>
  \<open>internal/runner/plan.go\<close>: submitting the commands of a plan. Every command is looked at without
  executing it or claiming a grant; the ones the policy leaves open become pending requests, grouped
  under one manifest whose review shows every step. The counters of the response that only grow in
  the loop are part of its state, \<open>submission\<close>.
\<close>

section \<open>Messages\<close>

record PlanCommand =
  pc_ID :: string
  pc_Name :: string
  pc_Phase :: string
  pc_OnFailure :: string
  pc_Cmd :: string
  pc_Stdin :: Stdin
  pc_PayloadRef :: string

record PlanSubmitRequest =
  pq_PlanID :: string
  pq_Host :: string
  pq_Session :: session_context
  pq_Commands :: "PlanCommand list"
  pq_Review :: PlanReview

record PlanSubmitLine =
  ln_Seq :: int
  ln_Cmd :: string
  ln_Status :: string
  ln_PolicyRule :: string
  ln_ApprovalID :: string
  ln_StdinSHA256 :: string
  ln_StdinBytes :: int
  ln_Task :: "TaskPermission option"

record PlanSubmitResponse =
  pp_PlanID :: string
  pp_SessionID :: string
  pp_Host :: string
  pp_Metadata :: PlanMetadata
  pp_ReviewSHA256 :: string
  pp_Commands :: "PlanSubmitLine list"
  pp_Allowed :: nat
  pp_Denied :: nat
  pp_Pending :: nat

section \<open>Merging the steps\<close>

text \<open>The positions of the identifiers of the template; a later one replaces an earlier one.\<close>

fun step_index :: "PlanReviewStep list \<Rightarrow> nat \<Rightarrow> nat gomap \<Rightarrow> nat gomap" where
  "step_index [] i index = index"
| "step_index (s # ss) i index = step_index ss (Suc i) (if sp_ID s \<noteq> [] then gput (sp_ID s) i index else index)"

fun overlay_steps :: "nat gomap \<Rightarrow> PlanReviewStep list \<Rightarrow> PlanReviewStep list \<Rightarrow> PlanReviewStep list" where
  "overlay_steps index [] out = out"
| "overlay_steps index (s # ss) out = overlay_steps index ss (case gget index (sp_ID s) of Some i \<Rightarrow> out[i := s] | None \<Rightarrow> out @ [s])"

fun number_steps :: "nat \<Rightarrow> PlanReviewStep list \<Rightarrow> PlanReviewStep list" where
  "number_steps i [] = []"
| "number_steps i (s # ss) = (if sp_Seq s = 0 then s\<lparr>sp_Seq := int i + 1\<rparr> else s) # number_steps (Suc i) ss"

definition mergePlanReviewSteps :: "PlanReviewStep list \<Rightarrow> PlanReviewStep list \<Rightarrow> PlanReviewStep list" where
  "mergePlanReviewSteps template current =
     (if template = [] then current else number_steps 0 (overlay_steps (step_index template 0 []) current template))"

section \<open>Submitting\<close>

record submission =
  sm_Lines :: "PlanSubmitLine list"
  sm_Members :: "string list"
  sm_Records :: "auditRecord list"
  sm_Steps :: "PlanReviewStep list"
  sm_Exit :: int
  sm_Allowed :: nat
  sm_Denied :: nat

definition submit_line :: "Env \<Rightarrow> nat \<Rightarrow> PlanCommand \<Rightarrow> Authorization \<Rightarrow> string \<Rightarrow> string \<Rightarrow> PlanSubmitLine" where
  "submit_line env i c auth status aid = \<lparr>ln_Seq = int i + 1, ln_Cmd = pc_Cmd c, ln_Status = status,
     ln_PolicyRule = Dec_Rule (au_Decision auth), ln_ApprovalID = aid, ln_StdinSHA256 = si_SHA256 (pc_Stdin c),
     ln_StdinBytes = si_Bytes (pc_Stdin c), ln_Task = TaskCandidate (en_Libs env) (pc_Cmd c) (si_SHA256 (pc_Stdin c))\<rparr>"

definition submit_step :: "PlanCommand \<Rightarrow> PlanSubmitLine \<Rightarrow> PlanReviewStep" where
  "submit_step c l = \<lparr>sp_Seq = ln_Seq l, sp_ID = pc_ID c, sp_Name = pc_Name c, sp_Phase = pc_Phase c, sp_OnFailure = pc_OnFailure c,
     sp_Cmd = pc_Cmd c, sp_Status = ln_Status l, sp_PolicyRule = ln_PolicyRule l, sp_ApprovalID = ln_ApprovalID l,
     sp_StdinSHA256 = ln_StdinSHA256 l, sp_StdinBytes = ln_StdinBytes l, sp_PayloadRef = pc_PayloadRef c,
     sp_PayloadRetained = (pc_PayloadRef c \<noteq> []), sp_Task = ln_Task l, sp_AlreadyAuthorized = (ln_Status l = ''allowed'')\<rparr>"

definition add_line :: "PlanCommand \<Rightarrow> PlanSubmitLine \<Rightarrow> submission \<Rightarrow> submission" where
  "add_line c l sub = sub\<lparr>sm_Lines := sm_Lines sub @ [l], sm_Steps := sm_Steps sub @ [submit_step c l]\<rparr>"

definition submit_request :: "PlanSubmitRequest \<Rightarrow> nat \<Rightarrow> PlanCommand \<Rightarrow> Authorization \<Rightarrow> string \<Rightarrow> PendingRequest" where
  "submit_request req i c auth reqID = new_pending\<lparr>pr_ReqID := reqID, pr_SessionID := sc_ID (pq_Session req), pr_Host := pq_Host req,
     pr_Cmd := pc_Cmd c, pr_Candidate := au_ApprovalMatcher auth, pr_StdinSHA256 := si_SHA256 (pc_Stdin c),
     pr_StdinBytes := si_Bytes (pc_Stdin c), pr_PlanID := pq_PlanID req, pr_PlanSeq := int i + 1,
     pr_PlanTotal := int (length (pq_Commands req))\<rparr>"

definition submit_record :: "PlanSubmitRequest \<Rightarrow> PlanCommand \<Rightarrow> Authorization \<Rightarrow> string \<Rightarrow> PendingRequest \<Rightarrow> auditRecord" where
  "submit_record req c auth reqID pending = (baseRecord reqID (pq_Session req) EventApprovalRequested (pq_Host req) (pc_Cmd c)
     (au_Decision auth) (Some ExitApprovalRequired) [] 0 no_output)\<lparr>a_StdinSHA256 := si_SHA256 (pc_Stdin c),
       a_StdinBytes := si_Bytes (pc_Stdin c), a_ApprovalID := pr_ID pending, a_ApprovalMatcher := m_Regex (pr_Candidate pending),
       a_ApprovalChannel := ChannelPlan, a_PlanID := pq_PlanID req, a_ExecutionID := rv_ExecutionID (pq_Review req), a_StepID := pc_ID c\<rparr>"

definition submit_pending :: "Env \<Rightarrow> PlanSubmitRequest \<Rightarrow> nat \<Rightarrow> PlanCommand \<Rightarrow> Authorization \<Rightarrow> submission \<Rightarrow> submission run" where
  "submit_pending env req i c auth sub =
     seq (env_newReqID env) (\<lambda>reqID.
     seq (run_create env (submit_request req i c auth reqID)) (\<lambda>pending.
       done_with (add_line c (submit_line env i c auth ''approval_pending'' (pr_ID pending)) (sub\<lparr>
         sm_Members := (if pr_ID pending \<in> set (sm_Members sub) then sm_Members sub else sm_Members sub @ [pr_ID pending]),
         sm_Records := sm_Records sub @ [submit_record req c auth reqID pending],
         sm_Exit := MergeExitCode (sm_Exit sub) ExitApprovalRequired\<rparr>))))"

text \<open>One command under its authorisation.\<close>

definition submit_auth :: "Env \<Rightarrow> PlanSubmitRequest \<Rightarrow> nat \<Rightarrow> PlanCommand \<Rightarrow> submission \<Rightarrow> Authorization \<Rightarrow> submission run" where
  "submit_auth env req i c sub auth =
     (let allowed = add_line c (submit_line env i c auth ''allowed'' []) (sub\<lparr>sm_Allowed := Suc (sm_Allowed sub)\<rparr>);
          denied = add_line c (submit_line env i c auth ''denied'' [])
            (sub\<lparr>sm_Denied := Suc (sm_Denied sub), sm_Exit := MergeExitCode (sm_Exit sub) ExitPolicyDenied\<rparr>)
      in case au_Status auth of
        AuthAllow \<Rightarrow> done_with allowed
      | AuthAllowByGrant \<Rightarrow> done_with allowed
      | AuthHardDeny \<Rightarrow> done_with denied
      | AuthNeedsApproval \<Rightarrow> if \<not> rt_Enabled (en_Approval env) then done_with denied else submit_pending env req i c auth sub)"

definition submit_one :: "Env \<Rightarrow> PlanSubmitRequest \<Rightarrow> nat \<Rightarrow> PlanCommand \<Rightarrow> submission \<Rightarrow> submission run" where
  "submit_one env req i c sub =
     seq (policy_checked (run_preflight env (sc_ID (pq_Session req)) (pq_Host req) (pc_Cmd c) (si_SHA256 (pc_Stdin c)))) (\<lambda>auth.
       submit_auth env req i c sub (fst (CheckGrantedStdin auth (si_Bytes (pc_Stdin c)))))"

fun submitLoop :: "Env \<Rightarrow> PlanSubmitRequest \<Rightarrow> nat \<Rightarrow> PlanCommand list \<Rightarrow> submission \<Rightarrow> submission run" where
  "submitLoop env req i [] sub = done_with sub"
| "submitLoop env req i (c # cs) sub = seq (submit_one env req i c sub) (submitLoop env req (Suc i) cs)"

definition no_submission :: submission where
  "no_submission = \<lparr>sm_Lines = [], sm_Members = [], sm_Records = [], sm_Steps = [], sm_Exit = ExitOK, sm_Allowed = 0, sm_Denied = 0\<rparr>"

definition run_createPlan :: "Env \<Rightarrow> PlanManifest \<Rightarrow> PlanManifest run" where
  "run_createPlan env m w = shared_op env (\<lambda>now s.
     let (ps, x) = CreatePlan (en_Hash env) now (en_MaxPending env) (en_Random env (w_Tick w)) (sh_Pending s) (sh_Plans s) m
     in (s\<lparr>sh_Plans := ps\<rparr>, x)) w"

definition submit_review :: "PlanSubmitRequest \<Rightarrow> PlanReviewStep list \<Rightarrow> PlanReview" where
  "submit_review req steps = \<lparr>rv_Version = 1, rv_PlanID = pq_PlanID req, rv_ExecutionID = rv_ExecutionID (pq_Review req),
     rv_SessionID = sc_ID (pq_Session req), rv_Host = pq_Host req, rv_Metadata = rv_Metadata (pq_Review req),
     rv_Steps = mergePlanReviewSteps (rv_Steps (pq_Review req)) steps\<rparr>"

definition submit_manifest :: "PlanSubmitRequest \<Rightarrow> submission \<Rightarrow> PlanManifest" where
  "submit_manifest req sub = \<lparr>pm_Version = 0, pm_ID = pq_PlanID req, pm_SessionID = sc_ID (pq_Session req), pm_Host = pq_Host req,
     pm_TS = [], pm_ExecutionID = rv_ExecutionID (pq_Review req), pm_Metadata = rv_Metadata (pq_Review req),
     pm_Review = Some (submit_review req (sm_Steps sub)), pm_ReviewSHA256 = [], pm_MemberIDs = sm_Members sub\<rparr>"

definition submit_response :: "PlanSubmitRequest \<Rightarrow> submission \<Rightarrow> PlanSubmitResponse" where
  "submit_response req sub = \<lparr>pp_PlanID = [], pp_SessionID = sc_ID (pq_Session req), pp_Host = pq_Host req,
     pp_Metadata = rv_Metadata (pq_Review req), pp_ReviewSHA256 = [], pp_Commands = sm_Lines sub, pp_Allowed = sm_Allowed sub,
     pp_Denied = sm_Denied sub, pp_Pending = length (sm_Members sub)\<rparr>"

definition SubmitPlan :: "Env \<Rightarrow> PlanSubmitRequest \<Rightarrow> (PlanSubmitResponse \<times> int) run" where
  "SubmitPlan env req = seq (submitLoop env req 0 (pq_Commands req) no_submission) (\<lambda>sub.
     if sm_Members sub = [] then done_with (submit_response req sub, sm_Exit sub)
     else seq (run_createPlan env (submit_manifest req sub)) (\<lambda>manifest.
       seq (each (\<lambda>r. run_append env (r\<lparr>a_ReviewSHA256 := pm_ReviewSHA256 manifest\<rparr>)) (sm_Records sub)) (\<lambda>_.
         done_with ((submit_response req sub)\<lparr>pp_PlanID := pm_ID manifest, pp_ReviewSHA256 := pm_ReviewSHA256 manifest\<rparr>, sm_Exit sub))))"

section \<open>Lemmas: lines and steps\<close>

lemma Create_valid: "pending_Create L H now maxPending rnd s req0 = (s', Inr req) \<Longrightarrow> validApprovalID (pr_ID req)"
proof -
  have g: "pending_Get H s i = Inr r \<Longrightarrow> validApprovalID i" for s i r by (auto simp: pending_Get_def split: if_splits)
  assume "pending_Create L H now maxPending rnd s req0 = (s', Inr req)"
  then show ?thesis
    by (auto simp: pending_Create_def Let_def completed_request_def findUnresolved_def dest!: findLoop_Some g split: option.splits if_splits)
qed

lemma valid_not_empty: "validApprovalID i \<Longrightarrow> i \<noteq> []"
  by (auto simp: validApprovalID_def validPrefixedID_def has_prefix_def)

definition line_ok :: "PlanSubmitLine \<Rightarrow> bool" where
  "line_ok l \<longleftrightarrow> ln_Status l \<in> {''allowed'', ''denied'', ''approval_pending''} \<and> (ln_ApprovalID l \<noteq> [] \<longleftrightarrow> ln_Status l = ''approval_pending'') \<and>
     (ln_ApprovalID l \<noteq> [] \<longrightarrow> validApprovalID (ln_ApprovalID l))"

definition with_line_status :: "string \<Rightarrow> PlanSubmitLine list \<Rightarrow> nat" where
  "with_line_status s ls = length (filter (\<lambda>l. ln_Status l = s) ls)"

definition submit_exit :: "PlanSubmitLine list \<Rightarrow> int" where
  "submit_exit ls = (if list_ex (\<lambda>l. ln_Status l = ''denied'') ls then ExitPolicyDenied
     else if list_ex (\<lambda>l. ln_Status l = ''approval_pending'') ls then ExitApprovalRequired else ExitOK)"

text \<open>The state after the first commands.\<close>

definition submitted :: "PlanCommand list \<Rightarrow> submission \<Rightarrow> bool" where
  "submitted cs sub \<longleftrightarrow> list_all2 (\<lambda>(i, c) l. ln_Cmd l = pc_Cmd c \<and> ln_Seq l = int i + 1 \<and> ln_StdinSHA256 l = si_SHA256 (pc_Stdin c)) (enumerate 0 cs) (sm_Lines sub) \<and>
     sm_Steps sub = map2 submit_step cs (sm_Lines sub) \<and> list_all line_ok (sm_Lines sub) \<and>
     sm_Allowed sub = with_line_status ''allowed'' (sm_Lines sub) \<and> sm_Denied sub = with_line_status ''denied'' (sm_Lines sub) \<and>
     distinct (sm_Members sub) \<and> set (sm_Members sub) = {a \<in> ln_ApprovalID ` set (sm_Lines sub). a \<noteq> []} \<and>
     sm_Exit sub = submit_exit (sm_Lines sub)"

lemma submitted_Nil: "submitted [] no_submission"
  by (simp add: submitted_def no_submission_def with_line_status_def submit_exit_def)

text \<open>One more line.\<close>

definition extends :: "nat \<Rightarrow> PlanCommand \<Rightarrow> submission \<Rightarrow> submission \<Rightarrow> bool" where
  "extends i c sub sub' \<longleftrightarrow> (\<exists>l. ln_Cmd l = pc_Cmd c \<and> ln_Seq l = int i + 1 \<and> ln_StdinSHA256 l = si_SHA256 (pc_Stdin c) \<and> line_ok l \<and>
     sm_Lines sub' = sm_Lines sub @ [l] \<and> sm_Steps sub' = sm_Steps sub @ [submit_step c l] \<and>
     sm_Allowed sub' = sm_Allowed sub + (if ln_Status l = ''allowed'' then 1 else 0) \<and>
     sm_Denied sub' = sm_Denied sub + (if ln_Status l = ''denied'' then 1 else 0) \<and>
     sm_Members sub' = (if ln_ApprovalID l = [] \<or> ln_ApprovalID l \<in> set (sm_Members sub) then sm_Members sub
       else sm_Members sub @ [ln_ApprovalID l]) \<and>
     sm_Exit sub' = (if ln_Status l = ''allowed'' then sm_Exit sub
       else MergeExitCode (sm_Exit sub) (if ln_Status l = ''denied'' then ExitPolicyDenied else ExitApprovalRequired)))"

lemma extends_submitted: "submitted cs sub \<Longrightarrow> extends (length cs) c sub sub' \<Longrightarrow> submitted (cs @ [c]) sub'"
proof -
  assume s: "submitted cs sub" and e: "extends (length cs) c sub sub'"
  from e obtain l where l: "ln_Cmd l = pc_Cmd c" "ln_Seq l = int (length cs) + 1" "line_ok l"
    "ln_StdinSHA256 l = si_SHA256 (pc_Stdin c)"
    "sm_Lines sub' = sm_Lines sub @ [l]" "sm_Steps sub' = sm_Steps sub @ [submit_step c l]"
    "sm_Allowed sub' = sm_Allowed sub + (if ln_Status l = ''allowed'' then 1 else 0)"
    "sm_Denied sub' = sm_Denied sub + (if ln_Status l = ''denied'' then 1 else 0)"
    "sm_Members sub' = (if ln_ApprovalID l = [] \<or> ln_ApprovalID l \<in> set (sm_Members sub) then sm_Members sub
       else sm_Members sub @ [ln_ApprovalID l])"
    "sm_Exit sub' = (if ln_Status l = ''allowed'' then sm_Exit sub
       else MergeExitCode (sm_Exit sub) (if ln_Status l = ''denied'' then ExitPolicyDenied else ExitApprovalRequired))"
    unfolding extends_def by blast
  have n: "length cs = length (sm_Lines sub)" using s list_all2_lengthD by (fastforce simp: submitted_def)
  have x: "sm_Exit sub' = submit_exit (sm_Lines sub')"
    using s l(3) unfolding l(5,10) submitted_def
    by (auto simp: submit_exit_def line_ok_def MergeExitCode_def ExitOK_def ExitPolicyDenied_def ExitApprovalRequired_def)
  have m: "distinct (sm_Members sub') \<and> set (sm_Members sub') = {a \<in> ln_ApprovalID ` set (sm_Lines sub'). a \<noteq> []}"
    using s unfolding l(5,9) submitted_def by auto
  show ?thesis
    using s x m n l(1-4) unfolding submitted_def l(5-8)
    by (auto simp: enumerate_append_eq list_all2_append with_line_status_def)
qed

lemma gives_submit_pending: "gives (extends i c sub) (submit_pending env req i c auth sub) w"
  unfolding submit_pending_def
  apply (intro gives_seq)
  subgoal premises prems for w2 reqID w3 pending
  proof -
    have "validApprovalID (pr_ID pending)"
      using prems(2) Create_valid by (auto simp: run_create_def shared_op_def Let_def split: prod.splits)
    with valid_not_empty [OF this] show ?thesis by (simp add: extends_def add_line_def submit_line_def line_ok_def)
  qed
  done

lemma gives_submit_one: "gives (extends i c sub) (submit_one env req i c sub) w"
proof -
  have "gives (extends i c sub) (submit_auth env req i c sub auth) w" for auth w
    using gives_submit_pending
    by (cases "au_Status auth") (simp_all add: submit_auth_def extends_def add_line_def submit_line_def line_ok_def)
  then show ?thesis unfolding submit_one_def by (intro gives_seq)
qed

lemma gives_submitLoop: "submitted cs sub \<Longrightarrow> gives (submitted (cs @ ds)) (submitLoop env req (length cs) ds sub) w"
proof (induction ds arbitrary: cs sub w)
  case (Cons d ds cs sub w)
  have "gives (submitted (cs @ d # ds)) (submitLoop env req (Suc (length cs)) ds sub1) w1"
    if one: "submit_one env req (length cs) d sub w = (w1, Inr sub1)" for w1 sub1
  proof -
    from giveD [OF gives_submit_one one] have "submitted (cs @ [d]) sub1" by (rule extends_submitted [OF Cons.prems])
    from Cons.IH [OF this] show ?thesis by simp
  qed
  then show ?case by (simp add: gives_seq)
qed simp

text \<open>Nothing is executed, and no grant is touched.\<close>

lemma quiet_submit_one: "quiet (submit_one env req i c sub) w"
  unfolding submit_one_def submit_auth_def submit_pending_def Let_def
  by (intro quiet_intros) (auto intro!: quiet_intros split: AuthorizationStatus.split)

lemma quiet_submitLoop: "quiet (submitLoop env req i cs sub) w"
  by (induction cs arbitrary: i sub w) (auto intro!: quiet_intros quiet_submit_one)

lemma quiet_SubmitPlan: "quiet (SubmitPlan env req) w"
proof -
  have "quiet (run_createPlan env m) w" for m w by (simp add: run_createPlan_def quiet_basic)
  then show ?thesis unfolding SubmitPlan_def
    by (intro quiet_seq quiet_submitLoop) (auto intro!: quiet_intros quiet_each)
qed

text \<open>A step that leaves the grants of the sessions as they are.\<close>

definition spares :: "'a run \<Rightarrow> world \<Rightarrow> bool" where
  "spares m w \<longleftrightarrow> sh_Sessions (w_Shared (fst (m w))) = sh_Sessions (w_Shared w)"

lemma spares_seq: "spares m w \<Longrightarrow> (\<And>w' x. spares (f x) w') \<Longrightarrow> spares (seq m f) w"
  by (cases "m w") (auto simp: spares_def seq_def split: sum.split)

lemma spares_done: "spares (done_with x) w"
  by (simp add: spares_def done_with_def)

lemma spares_each: "(\<And>x w. spares (f x) w) \<Longrightarrow> spares (each f xs) w"
  by (induction xs arbitrary: w) (auto intro!: spares_seq spares_done)

lemma spares_ops: "alone env \<Longrightarrow> spares (run_append env r) w" "alone env \<Longrightarrow> spares (run_create env pr) w"
  "alone env \<Longrightarrow> spares (run_createPlan env m) w" "alone env \<Longrightarrow> spares (policy_checked (run_preflight env sid host cmd stdin)) w"
  "spares (env_newReqID env) w" "spares (done_with x) w"
  by (auto simp: spares_def run_append_def run_create_def run_createPlan_def run_preflight_def policy_checked_def shared_op_def alone_def
      env_newReqID_def done_with_def Let_def case_prod_beta split: sum.split)

lemma spares_submit_one: "alone env \<Longrightarrow> spares (submit_one env req i c sub) w"
  unfolding submit_one_def submit_auth_def submit_pending_def Let_def
  by (rule spares_seq) (auto intro!: spares_seq spares_ops split: AuthorizationStatus.split)

lemma spares_submitLoop: "alone env \<Longrightarrow> spares (submitLoop env req i cs sub) w"
  by (induction cs arbitrary: i sub w) (auto intro!: spares_seq spares_submit_one spares_ops)

lemma spares_SubmitPlan: "alone env \<Longrightarrow> spares (SubmitPlan env req) w"
  unfolding SubmitPlan_def
  by (intro spares_seq spares_submitLoop) (auto intro!: spares_seq spares_each spares_ops)

section \<open>Lemmas: the review\<close>

lemma step_index_position:
  "gget (step_index ss n m) k = Some j \<Longrightarrow> gget m k = Some j \<or> n \<le> j \<and> j < n + length ss \<and> sp_ID (ss ! (j - n)) = k \<and> k \<noteq> []"
proof (induction ss arbitrary: n m)
  case (Cons s ss)
  from Cons.IH [OF Cons.prems [unfolded step_index.simps]] show ?case
    by (auto simp: nth_Cons' split: if_splits)
qed simp

text \<open>Steps overlaid on others: their identifiers differ, and each has its own position.\<close>

definition placed :: "nat gomap \<Rightarrow> PlanReviewStep list \<Rightarrow> PlanReviewStep list \<Rightarrow> bool" where
  "placed index ss out \<longleftrightarrow> (\<forall>k i. gget index k = Some i \<longrightarrow> i < length out \<and> k \<noteq> []) \<and>
     (\<forall>k k' i. gget index k = Some i \<longrightarrow> gget index k' = Some i \<longrightarrow> k = k') \<and> distinct (filter (\<lambda>k. k \<noteq> []) (map sp_ID ss))"

lemma placed_template: "distinct (filter (\<lambda>k. k \<noteq> []) (map sp_ID ss)) \<Longrightarrow> placed (step_index template 0 []) ss template"
proof -
  have i: "gget (step_index template 0 []) k = Some j \<Longrightarrow> j < length template \<and> sp_ID (template ! j) = k \<and> k \<noteq> []" for k j
    using step_index_position [of template 0 "[]" k j] by simp
  assume "distinct (filter (\<lambda>k. k \<noteq> []) (map sp_ID ss))"
  then show ?thesis unfolding placed_def using i by blast
qed

lemma placed_step:
  assumes "placed index (s # ss) out"
  shows "placed index ss (case gget index (sp_ID s) of Some i \<Rightarrow> out[i := s] | None \<Rightarrow> out @ [s])"
    and "gget index (sp_ID s) = Some i \<Longrightarrow> s' \<in> set ss \<Longrightarrow> gget index (sp_ID s') \<noteq> Some i"
proof -
  have d: "distinct (filter (\<lambda>k. k \<noteq> []) (map sp_ID ss))" using assms by (simp add: placed_def split: if_splits)
  have i: "\<forall>k i. gget index k = Some i \<longrightarrow> i < length out \<and> k \<noteq> []" using assms unfolding placed_def by blast
  have j: "\<forall>k k' i. gget index k = Some i \<longrightarrow> gget index k' = Some i \<longrightarrow> k = k'" using assms unfolding placed_def by blast
  show "placed index ss (case gget index (sp_ID s) of Some i \<Rightarrow> out[i := s] | None \<Rightarrow> out @ [s])"
    unfolding placed_def using d i j by (auto split: option.split dest: less_SucI)
  assume g: "gget index (sp_ID s) = Some i" and s: "s' \<in> set ss"
  have "sp_ID s \<notin> sp_ID ` set ss" using i g assms by (auto simp: placed_def)
  then show "gget index (sp_ID s') \<noteq> Some i" using j g s by (metis image_eqI)
qed

lemma overlay_nth: "j < length out \<Longrightarrow> \<forall>s \<in> set ss. gget index (sp_ID s) \<noteq> Some j \<Longrightarrow>
   overlay_steps index ss out ! j = out ! j \<and> j < length (overlay_steps index ss out)"
  by (induction ss arbitrary: out) (auto simp: nth_append split: option.split)

lemma overlay_keeps: "placed index ss out \<Longrightarrow> s \<in> set ss \<Longrightarrow> s \<in> set (overlay_steps index ss out)"
proof (induction ss arbitrary: out)
  case (Cons s1 ss)
  note p = placed_step [OF Cons.prems(1)]
  show ?case
  proof (cases "s = s1")
    case True
    show ?thesis
    proof (cases "gget index (sp_ID s1)")
      case None
      have "\<forall>s' \<in> set ss. gget index (sp_ID s') \<noteq> Some (length out)" using Cons.prems(1) by (fastforce simp: placed_def)
      then show ?thesis using overlay_nth [of "length out" "out @ [s1]" ss index] None True by (auto simp: in_set_conv_nth)
    next
      case (Some i)
      then have "i < length out" using Cons.prems(1) by (simp add: placed_def)
      then show ?thesis using overlay_nth [of i "out[i := s1]" ss index] p(2) [OF Some] Some True by (auto simp: in_set_conv_nth)
    qed
  next
    case False
    then show ?thesis using Cons.IH [OF p(1)] Cons.prems(2) by simp
  qed
qed simp

lemma overlay_set: "set (overlay_steps index ss out) \<subseteq> set ss \<union> set out"
proof (induction ss arbitrary: out)
  case (Cons s ss)
  have "set (out[i := s]) \<subseteq> insert s (set out)" for i by (rule set_update_subset_insert)
  then show ?case using Cons.IH [of "out @ [s]"] Cons.IH [of "out[the (gget index (sp_ID s)) := s]"]
    by (cases "gget index (sp_ID s)") (simp_all, blast+)
qed simp

text \<open>Numbering changes nothing but the numbers that are missing.\<close>

lemma number_steps_map: "(\<And>s n. f (s\<lparr>sp_Seq := n\<rparr>) = f s) \<Longrightarrow> map f (number_steps i ss) = map f ss"
  by (induction ss arbitrary: i) auto

lemma number_steps_keeps: "s \<in> set ss \<Longrightarrow> sp_Seq s \<noteq> 0 \<Longrightarrow> s \<in> set (number_steps i ss)"
  by (induction ss arbitrary: i) auto

lemma merged_steps:
  assumes "distinct (filter (\<lambda>k. k \<noteq> []) (map sp_ID ss))" and "\<forall>s \<in> set ss. sp_Seq s \<noteq> 0"
  shows "set ss \<subseteq> set (mergePlanReviewSteps template ss)"
    and "(\<And>s n. f (s\<lparr>sp_Seq := n\<rparr>) = f s) \<Longrightarrow> f ` set (mergePlanReviewSteps template ss) \<subseteq> f ` set ss \<union> f ` set template"
proof -
  let ?o = "overlay_steps (step_index template 0 []) ss template"
  show "set ss \<subseteq> set (mergePlanReviewSteps template ss)"
    using overlay_keeps [OF placed_template [OF assms(1)]] assms(2) number_steps_keeps by (auto simp: mergePlanReviewSteps_def)
  assume f: "\<And>s n. f (s\<lparr>sp_Seq := n\<rparr>) = f s"
  have "f ` set (number_steps 0 ?o) = f ` set ?o" using arg_cong [OF number_steps_map [of f 0 ?o, OF f], of set] by simp
  then show "f ` set (mergePlanReviewSteps template ss) \<subseteq> f ` set ss \<union> f ` set template"
    using overlay_set [of "step_index template 0 []" ss template] by (auto simp: mergePlanReviewSteps_def)
qed

section \<open>Lemmas: submissions\<close>

lemma sealed_review:
  assumes "m = sealed_manifest H now m0" and "pm_Review m0 = Some r0"
  shows "\<exists>r. pm_Review m = Some r \<and> rv_Steps r = rv_Steps r0 \<and> rv_PlanID r = pm_ID m \<and> rv_SessionID r = pm_SessionID m \<and>
    rv_Host r = pm_Host m \<and> (rv_Metadata r0 = pm_Metadata m0 \<longrightarrow> rv_Metadata r = pm_Metadata m) \<and> pm_MemberIDs m = pm_MemberIDs m0"
  by (simp add: assms(1) sealed_manifest_def assms(2) enveloped_def Let_def)

lemma SubmitPlan_lines:
  assumes "SubmitPlan env req w = (w', Inr (resp, code))"
  shows "\<exists>sub. submitted (pq_Commands req) sub \<and> pp_Commands resp = sm_Lines sub \<and> pp_Allowed resp = sm_Allowed sub \<and>
    pp_Denied resp = sm_Denied sub \<and> pp_Pending resp = length (sm_Members sub) \<and> code = sm_Exit sub"
proof -
  obtain w1 sub where l: "submitLoop env req 0 (pq_Commands req) no_submission w = (w1, Inr sub)"
    using assms by (auto simp: SubmitPlan_def seq_Inr)
  have "submitted (pq_Commands req) sub"
    using giveD [OF gives_submitLoop [OF submitted_Nil, of "pq_Commands req" env req w]] l by simp
  then show ?thesis using assms l
    by (auto simp: SubmitPlan_def seq_Inr submit_response_def done_with_def split: if_splits)
qed

lemma SubmitPlan_plan:
  assumes "SubmitPlan env req w = (w', Inr (resp, code))" and "pp_Pending resp \<noteq> 0"
  shows "\<exists>sub wa wb m. submitted (pq_Commands req) sub \<and> pp_Commands resp = sm_Lines sub \<and>
    run_createPlan env (submit_manifest req sub) wa = (wb, Inr m) \<and>
    w' = fst (each (\<lambda>r. run_append env (r\<lparr>a_ReviewSHA256 := pm_ReviewSHA256 m\<rparr>)) (sm_Records sub) wb) \<and>
    pp_PlanID resp = pm_ID m \<and> pp_ReviewSHA256 resp = pm_ReviewSHA256 m"
proof -
  obtain w1 sub where l: "submitLoop env req 0 (pq_Commands req) no_submission w = (w1, Inr sub)"
    using assms by (auto simp: SubmitPlan_def seq_Inr)
  have s: "submitted (pq_Commands req) sub"
    using giveD [OF gives_submitLoop [OF submitted_Nil, of "pq_Commands req" env req w]] l by simp
  have "sm_Members sub \<noteq> []" using assms l
    by (auto simp: SubmitPlan_def seq_Inr submit_response_def done_with_def split: if_splits)
  then obtain wb m wc ys where "run_createPlan env (submit_manifest req sub) w1 = (wb, Inr m)"
    "each (\<lambda>r. run_append env (r\<lparr>a_ReviewSHA256 := pm_ReviewSHA256 m\<rparr>)) (sm_Records sub) wb = (wc, Inr ys)" "w' = wc"
    "resp = (submit_response req sub)\<lparr>pp_PlanID := pm_ID m, pp_ReviewSHA256 := pm_ReviewSHA256 m\<rparr>"
    using assms(1) l by (auto simp: SubmitPlan_def seq_Inr done_with_def split: if_splits)
  then show ?thesis using s
    by (intro exI [of _ sub] exI [of _ w1] exI [of _ wb] exI [of _ m]) (simp add: submit_response_def)
qed

lemma appends_keep_plans:
  "alone env \<Longrightarrow> sh_Plans (w_Shared (fst (each (\<lambda>r. run_append env (f r)) rs w))) = sh_Plans (w_Shared w)"
proof (induction rs arbitrary: w)
  case (Cons r rs w)
  obtain w1 x where a: "run_append env (f r) w = (w1, x)" by fastforce
  then have "sh_Plans (w_Shared w1) = sh_Plans (w_Shared w)"
    using Cons.prems by (auto simp: run_append_def shared_op_def alone_def Let_def split: prod.splits)
  then show ?case using Cons a by (auto simp: seq_def done_with_def split: sum.split prod.split) (metis fst_conv)+
qed (simp add: done_with_def)

lemma submitted_pairs:
  assumes "submitted cs sub"
  shows "length (sm_Lines sub) = length cs" and "k < length cs \<Longrightarrow> ln_Cmd (sm_Lines sub ! k) = pc_Cmd (cs ! k) \<and> ln_Seq (sm_Lines sub ! k) = int k + 1 \<and>
    ln_StdinSHA256 (sm_Lines sub ! k) = si_SHA256 (pc_Stdin (cs ! k))"
  using assms by (auto simp: submitted_def list_all2_conv_all_nth nth_enumerate_eq)

lemma submitted_steps:
  assumes "submitted cs sub" and "l \<in> set (sm_Lines sub)"
  shows "\<exists>x \<in> set (sm_Steps sub). sp_Cmd x = ln_Cmd l \<and> sp_Status x = ln_Status l \<and> sp_ApprovalID x = ln_ApprovalID l"
proof -
  from assms(2) obtain k where k: "k < length (sm_Lines sub)" "l = sm_Lines sub ! k" by (auto simp: in_set_conv_nth)
  then have "submit_step (cs ! k) l \<in> set (sm_Steps sub)" "ln_Cmd l = pc_Cmd (cs ! k)"
    using assms(1) submitted_pairs [OF assms(1)] by (auto simp: submitted_def set_zip image_iff)
  then show ?thesis by (intro bexI [of _ "submit_step (cs ! k) l"]) (simp_all add: submit_step_def)
qed

lemma submitted_numbers:
  assumes "submitted cs sub"
  shows "\<forall>x \<in> set (sm_Steps sub). sp_Seq x \<noteq> 0"
  using assms submitted_pairs [OF assms] by (auto simp: submitted_def set_zip submit_step_def)

text \<open>The texts that reach the manifest: those of the request, and of a line the rule and the task that were
  found for it.\<close>

definition command_texts :: "PlanCommand \<Rightarrow> string list" where
  "command_texts c = [pc_ID c, pc_Name c, pc_Phase c, pc_OnFailure c, pc_Cmd c, si_SHA256 (pc_Stdin c), pc_PayloadRef c]"

definition request_texts :: "PlanSubmitRequest \<Rightarrow> string list" where
  "request_texts req = [pq_PlanID req, pq_Host req, sc_ID (pq_Session req), rv_ExecutionID (pq_Review req)] @
     metadata_texts (rv_Metadata (pq_Review req)) @ concat (map step_texts (rv_Steps (pq_Review req))) @
     concat (map command_texts (pq_Commands req))"

definition line_texts :: "PlanSubmitLine \<Rightarrow> string list" where
  "line_texts l = ln_PolicyRule l # (case ln_Task l of None \<Rightarrow> [] | Some p \<Rightarrow> permission_texts p)"

lemma submitted_step_texts:
  assumes "submitted cs sub" and "\<forall>c \<in> set cs. list_all valid_string (command_texts c)"
    and "\<forall>l \<in> set (sm_Lines sub). list_all valid_string (line_texts l)" and "x \<in> set (sm_Steps sub)"
  shows "list_all valid_string (step_texts x)"
proof -
  obtain k where k: "k < length cs" "x = submit_step (cs ! k) (sm_Lines sub ! k)"
    using assms(1,4) by (auto simp: submitted_def set_zip)
  let ?l = "sm_Lines sub ! k"
  have l: "?l \<in> set (sm_Lines sub)" "cs ! k \<in> set cs" using k(1) submitted_pairs(1) [OF assms(1)] by auto
  then have ok: "line_ok ?l" using assms(1) by (auto simp: submitted_def list_all_iff)
  have "valid_string (ln_Status ?l)" using ok by (auto simp: line_ok_def valid_ascii ascii_def)
  moreover have "valid_string (ln_ApprovalID ?l)" using ok ids_valid(2) by (auto simp: line_ok_def valid_ascii ascii_def)
  moreover have "list_all valid_string (command_texts (cs ! k))" "list_all valid_string (line_texts ?l)" using assms(2,3) l by blast+
  ultimately show ?thesis using submitted_pairs(2) [OF assms(1) k(1)]
    by (simp add: k(2) submit_step_def step_texts_def command_texts_def line_texts_def)
qed

lemma merged_step_texts:
  assumes "list_all valid_string (concat (map step_texts template))" and "list_all valid_string (concat (map step_texts ss))"
    and "distinct (filter (\<lambda>k. k \<noteq> []) (map sp_ID ss))" and "\<forall>s \<in> set ss. sp_Seq s \<noteq> 0"
  shows "list_all valid_string (concat (map step_texts (mergePlanReviewSteps template ss)))"
proof -
  have "step_texts ` set (mergePlanReviewSteps template ss) \<subseteq> step_texts ` set ss \<union> step_texts ` set template"
    by (rule merged_steps(2) [OF assms(3,4)]) (simp add: step_texts_def)
  then show ?thesis using assms(1,2) by (fastforce simp: list_all_iff)
qed

lemma sealed_texts:
  assumes "m = sealed_manifest H now m0" and "pm_TS m0 = []" and "\<forall>x. valid_string (H x)"
    and "list_all valid_string ([pm_ID m0, pm_SessionID m0, pm_Host m0, pm_ExecutionID m0] @ metadata_texts (pm_Metadata m0) @ pm_MemberIDs m0)"
    and "pm_Review m0 = Some r" and "list_all valid_string (review_texts r)"
  shows "valid_manifest m"
  using assms(4,6) assms(3) format_time_valid [of now]
  by (auto simp: assms(1) sealed_manifest_def assms(2,5) Let_def valid_manifest_def manifest_texts_def enveloped_def review_texts_def
      PlanManifestReviewDigest_def)

lemma submitted_ids:
  assumes "submitted cs sub"
  shows "map sp_ID (sm_Steps sub) = map pc_ID cs" and "map sp_ApprovalID (sm_Steps sub) = map ln_ApprovalID (sm_Lines sub)"
proof -
  have st: "sm_Steps sub = map2 submit_step cs (sm_Lines sub)" using assms by (simp add: submitted_def)
  note n = submitted_pairs(1) [OF assms]
  show "map sp_ID (sm_Steps sub) = map pc_ID cs"
    unfolding st using n by (intro nth_equalityI) (simp_all add: submit_step_def)
  show "map sp_ApprovalID (sm_Steps sub) = map ln_ApprovalID (sm_Lines sub)"
    unfolding st using n by (intro nth_equalityI) (simp_all add: submit_step_def)
qed

lemma submitted_manifest_valid:
  assumes "CreatePlan H now maxPending rnd aps ps (submit_manifest req sub) = (ps', Inr m)" and "submitted (pq_Commands req) sub"
    and "\<forall>x. valid_string (H x)" and "list_all valid_string (request_texts req)"
    and "\<forall>l \<in> set (sm_Lines sub). list_all valid_string (line_texts l)"
    and "distinct (filter (\<lambda>k. k \<noteq> []) (map pc_ID (pq_Commands req)))"
  shows "valid_manifest m"
proof -
  let ?m0 = "if pm_ID (submit_manifest req sub) = [] then submit_manifest req sub\<lparr>pm_ID := NewPlanID rnd\<rparr> else submit_manifest req sub"
  have m0: "pm_Review ?m0 = Some (submit_review req (sm_Steps sub))" "pm_MemberIDs ?m0 = sm_Members sub"
    "pm_Metadata ?m0 = rv_Metadata (pq_Review req)" by (simp_all add: submit_manifest_def)
  have seq: "\<forall>x \<in> set (sm_Steps sub). sp_Seq x \<noteq> 0" using submitted_numbers [OF assms(2)] by simp
  show ?thesis
  proof (rule sealed_texts [OF conjunct1 [OF CreatePlan_Inr [OF assms(1)]] _ _ _ m0(1)])
    have "valid_string (pm_ID m)" using CreatePlan_Inr [OF assms(1)] ids_valid(1) by blast
    moreover have "pm_ID ?m0 = pm_ID m" using CreatePlan_Inr [OF assms(1)] sealed_id by metis
    moreover have "list_all valid_string (sm_Members sub)" using assms(2) ids_valid(2) by (fastforce simp: submitted_def list_all_iff line_ok_def)
    ultimately show "list_all valid_string ([pm_ID ?m0, pm_SessionID ?m0, pm_Host ?m0, pm_ExecutionID ?m0] @ metadata_texts (pm_Metadata ?m0) @ pm_MemberIDs ?m0)"
      using assms(4) by (simp add: m0(2,3)) (simp add: submit_manifest_def request_texts_def)
    have w: "list_all valid_string (concat (map step_texts (sm_Steps sub)))"
      using submitted_step_texts [OF assms(2) _ assms(5)] assms(4) by (auto simp: request_texts_def list_all_iff)
    have "list_all valid_string (concat (map step_texts (mergePlanReviewSteps (rv_Steps (pq_Review req)) (sm_Steps sub))))"
      by (rule merged_step_texts [OF _ w assms(6) [folded submitted_ids(1) [OF assms(2)]] seq]) (use assms(4) in \<open>simp add: request_texts_def\<close>)
    then show "list_all valid_string (review_texts (submit_review req (sm_Steps sub)))"
      using assms(4) by (simp add: review_texts_def submit_review_def request_texts_def)
  qed (use assms(3) in \<open>simp_all add: submit_manifest_def\<close>)
qed

section \<open>Properties\<close>

text \<open>Submitting a plan answers for every command, in order: it is allowed, denied or waiting, exactly the
  waiting ones carry an approval, the counts are those of the lines (a request shared by identical lines
  counts once), and the exit code is the worst.\<close>

theorem submit_answers_all:
  assumes "SubmitPlan env req w = (w', Inr (resp, code))"
  shows "map ln_Cmd (pp_Commands resp) = map pc_Cmd (pq_Commands req) \<and>
    map ln_Seq (pp_Commands resp) = map (\<lambda>i. int i + 1) [0..<length (pq_Commands req)] \<and>
    list_all line_ok (pp_Commands resp) \<and>
    pp_Allowed resp = with_line_status ''allowed'' (pp_Commands resp) \<and> pp_Denied resp = with_line_status ''denied'' (pp_Commands resp) \<and>
    pp_Pending resp = card {a \<in> ln_ApprovalID ` set (pp_Commands resp). a \<noteq> []} \<and> code = submit_exit (pp_Commands resp)"
proof -
  from SubmitPlan_lines [OF assms] obtain sub where s: "submitted (pq_Commands req) sub" "pp_Commands resp = sm_Lines sub"
    "pp_Allowed resp = sm_Allowed sub" "pp_Denied resp = sm_Denied sub" "pp_Pending resp = length (sm_Members sub)" "code = sm_Exit sub" by blast
  have l: "list_all2 (\<lambda>(i, c) l. ln_Cmd l = pc_Cmd c \<and> ln_Seq l = int i + 1 \<and> ln_StdinSHA256 l = si_SHA256 (pc_Stdin c)) (enumerate 0 (pq_Commands req)) (sm_Lines sub)"
    using s(1) by (simp add: submitted_def)
  have "map ln_Cmd (sm_Lines sub) = map (pc_Cmd \<circ> snd) (enumerate 0 (pq_Commands req)) \<and>
      map ln_Seq (sm_Lines sub) = map ((\<lambda>i. int i + 1) \<circ> fst) (enumerate 0 (pq_Commands req))"
    using l by (induction rule: list_all2_induct) auto
  then have "map ln_Cmd (sm_Lines sub) = map pc_Cmd (pq_Commands req) \<and>
      map ln_Seq (sm_Lines sub) = map (\<lambda>i. int i + 1) [0..<length (pq_Commands req)]"
    by (simp add: map_map [symmetric] del: map_map)
  moreover have "length (sm_Members sub) = card {a \<in> ln_ApprovalID ` set (sm_Lines sub). a \<noteq> []}"
    using s(1) distinct_card [of "sm_Members sub"] by (simp add: submitted_def)
  ultimately show ?thesis using s by (simp add: submitted_def)
qed

text \<open>Submitting executes nothing, and while no other process is at work it neither claims nor changes any
  grant, whatever its outcome.\<close>

theorem submit_spares_grants:
  "w_Ran (fst (SubmitPlan env req w)) = w_Ran w \<and>
   (alone env \<longrightarrow> sh_Sessions (w_Shared (fst (SubmitPlan env req w))) = sh_Sessions (w_Shared w))"
  using quiet_SubmitPlan spares_SubmitPlan by (auto simp: spares_def)

text \<open>C33. The operator sees the whole plan: when something waits for approval, the plan that was submitted
  reads back, its members are exactly the requests of the waiting lines, and its review has a step for
  every line with its command, status and approval. This holds while no other process touches the
  directories, for texts that are valid UTF-8, commands with different identifiers, and a template
  whose steps carry no approval of their own.\<close>

theorem submitted_plan_reviewable:
  assumes "SubmitPlan env req w = (w', Inr (resp, code))" and "alone env" and "pp_Pending resp \<noteq> 0"
    and "\<forall>x. en_Hash env x \<noteq> [] \<and> valid_string (en_Hash env x)"
    and "list_all valid_string (request_texts req)" and "\<forall>l \<in> set (pp_Commands resp). list_all valid_string (line_texts l)"
    and "\<forall>s \<in> set (rv_Steps (pq_Review req)). sp_ApprovalID s = []"
    and "distinct (filter (\<lambda>k. k \<noteq> []) (map pc_ID (pq_Commands req)))"
  shows "\<exists>m r. GetPlan (en_Hash env) (sh_Plans (w_Shared w')) (pp_PlanID resp) = Inr m \<and> pm_Review m = Some r \<and>
    pm_ReviewSHA256 m = pp_ReviewSHA256 resp \<and> set (pm_MemberIDs m) = {a \<in> ln_ApprovalID ` set (pp_Commands resp). a \<noteq> []} \<and>
    (\<forall>l \<in> set (pp_Commands resp). \<exists>s \<in> set (rv_Steps r). sp_Cmd s = ln_Cmd l \<and> sp_Status s = ln_Status l \<and> sp_ApprovalID s = ln_ApprovalID l)"
proof -
  from SubmitPlan_plan [OF assms(1,3)] obtain sub wa wb m where s: "submitted (pq_Commands req) sub" "pp_Commands resp = sm_Lines sub"
    "run_createPlan env (submit_manifest req sub) wa = (wb, Inr m)"
    "w' = fst (each (\<lambda>r. run_append env (r\<lparr>a_ReviewSHA256 := pm_ReviewSHA256 m\<rparr>)) (sm_Records sub) wb)"
    "pp_PlanID resp = pm_ID m" "pp_ReviewSHA256 resp = pm_ReviewSHA256 m" by blast
  let ?H = "en_Hash env"
  obtain ps where c: "CreatePlan ?H (en_Now env (w_Tick wa)) (en_MaxPending env) (en_Random env (w_Tick wa))
      (sh_Pending (w_Shared wa)) (sh_Plans (w_Shared wa)) (submit_manifest req sub) = (ps, Inr m)" and ps: "sh_Plans (w_Shared wb) = ps"
    using s(3) assms(2) by (auto simp: run_createPlan_def shared_op_def alone_def Let_def split: prod.splits)
  have pl: "sh_Plans (w_Shared w') = ps" 
    using appends_keep_plans [OF assms(2), of "\<lambda>r. r\<lparr>a_ReviewSHA256 := pm_ReviewSHA256 m\<rparr>" "sm_Records sub" wb] s(4) ps by simp
  let ?m0 = "if pm_ID (submit_manifest req sub) = [] then submit_manifest req sub\<lparr>pm_ID := NewPlanID (en_Random env (w_Tick wa))\<rparr>
    else submit_manifest req sub"
  have m0: "pm_Review ?m0 = Some (submit_review req (sm_Steps sub))" "pm_MemberIDs ?m0 = sm_Members sub" "pm_Metadata ?m0 = rv_Metadata (pq_Review req)"
    by (simp_all add: submit_manifest_def)
  obtain r where r: "pm_Review m = Some r" "rv_Steps r = mergePlanReviewSteps (rv_Steps (pq_Review req)) (sm_Steps sub)"
    "rv_PlanID r = pm_ID m" "rv_SessionID r = pm_SessionID m" "rv_Host r = pm_Host m" "rv_Metadata r = pm_Metadata m"
    and m: "pm_MemberIDs m = sm_Members sub"
    using sealed_review [OF conjunct1 [OF CreatePlan_Inr [OF c]] m0(1)] unfolding m0(2,3) by (auto simp: submit_review_def)
  have seq: "\<forall>x \<in> set (sm_Steps sub). sp_Seq x \<noteq> 0" using submitted_numbers [OF s(1)] by simp
  note mg = merged_steps [where template = "rv_Steps (pq_Review req)", OF assms(8) [folded submitted_ids(1) [OF s(1)]] seq]
  have steps: "\<exists>x \<in> set (sm_Steps sub). sp_Cmd x = ln_Cmd l \<and> sp_Status x = ln_Status l \<and> sp_ApprovalID x = ln_ApprovalID l"
    if "l \<in> set (sm_Lines sub)" for l using submitted_steps [OF s(1) that] .
  from arg_cong [OF submitted_ids(2) [OF s(1)], of set] have ap: "sp_ApprovalID ` set (sm_Steps sub) = ln_ApprovalID ` set (sm_Lines sub)" by simp
  have "sp_ApprovalID ` set (rv_Steps r) \<subseteq> ln_ApprovalID ` set (sm_Lines sub) \<union> {[]}"
    using mg(2) [of sp_ApprovalID] assms(7) unfolding r(2) ap by auto
  moreover have "ln_ApprovalID ` set (sm_Lines sub) \<subseteq> sp_ApprovalID ` set (rv_Steps r)"
    using mg(1) unfolding r(2) ap [symmetric] by auto
  ultimately have "set (step_approvals r) = {a \<in> ln_ApprovalID ` set (sm_Lines sub). a \<noteq> []}"
    unfolding step_approvals_def by auto
  moreover have mem: "set (sm_Members sub) = {a \<in> ln_ApprovalID ` set (sm_Lines sub). a \<noteq> []}" using s(1) by (simp add: submitted_def)
  ultimately have "manifestReviewMatchesEnvelope m" using r m by (simp add: manifestReviewMatchesEnvelope_def)
  moreover have "valid_manifest m"
    by (rule submitted_manifest_valid [OF c s(1)]) (use assms(4-6,8) s(2) in simp_all)
  ultimately have "GetPlan ?H ps (pm_ID m) = Inr m" using created_plan_reads_back [OF c] assms(4) by simp
  moreover have "\<exists>x \<in> set (rv_Steps r). sp_Cmd x = ln_Cmd l \<and> sp_Status x = ln_Status l \<and> sp_ApprovalID x = ln_ApprovalID l"
    if "l \<in> set (sm_Lines sub)" for l using steps [OF that] mg(1) unfolding r(2) by blast
  ultimately show ?thesis using r(1) m mem pl s(2,5,6) by auto
qed

text \<open>Two commands of one identifier: over a template that names it, the last takes the place of the first,
  and the review no longer shows the first one.\<close>

lemma duplicate_step_hidden:
  "sp_ID t = i \<Longrightarrow> sp_ID a = i \<Longrightarrow> sp_ID b = i \<Longrightarrow> i \<noteq> [] \<Longrightarrow> sp_Seq b \<noteq> 0 \<Longrightarrow> mergePlanReviewSteps [t] [a, b] = [b]"
  by (simp add: mergePlanReviewSteps_def)

section \<open>A concrete submission\<close>

definition sub_env :: Env where
  "sub_env = ls_env\<lparr>en_Random := (\<lambda>k. ''aaaaaaaaaaaa'')\<rparr>"

definition sub_cmd :: PlanCommand where
  "sub_cmd = \<lparr>pc_ID = ''list'', pc_Name = [], pc_Phase = [], pc_OnFailure = [], pc_Cmd = ''ls'',
     pc_Stdin = \<lparr>si_Data = None, si_SHA256 = [], si_Bytes = 0\<rparr>, pc_PayloadRef = []\<rparr>"

definition sub_req :: PlanSubmitRequest where
  "sub_req = \<lparr>pq_PlanID = ls_plan_id, pq_Host = ''web'', pq_Session = \<lparr>sc_ID = ''s'', sc_Host = ''web'', sc_Label = []\<rparr>,
     pq_Commands = [sub_cmd],
     pq_Review = \<lparr>rv_Version = 1, rv_PlanID = [], rv_ExecutionID = [], rv_SessionID = [], rv_Host = [], rv_Metadata = no_metadata, rv_Steps = []\<rparr>\<rparr>"

lemma sub_created:
  assumes "pr_ID pr = []"
  shows "\<exists>s' q. pending_Create no_libs H 0 10 ''aaaaaaaaaaaa'' no_approvals pr = (s', Inr q) \<and> pr_ID q \<noteq> []"
proof -
  have "reapResolved 0 resolvedReapTTL no_approvals = no_approvals"
    by (simp add: reapResolved_def no_approvals_def json_names_def)
  moreover have "findUnresolved H no_approvals a b c d e = None" for a b c d e
    by (simp add: findUnresolved_def no_approvals_def json_names_def)
  moreover have "Unresolved no_approvals = 0" by (simp add: Unresolved_def no_approvals_def json_names_def)
  moreover have "validApprovalID (NewID ''aaaaaaaaaaaa'')"
    by (simp add: NewID_def newPrefixedID_def hex_string_def nibble_def validApprovalID_def validPrefixedID_def has_prefix_def id_char_def)
  moreover from this have "NewID ''aaaaaaaaaaaa'' \<noteq> []" by (rule valid_not_empty)
  ultimately show ?thesis using assms
    by (simp add: pending_Create_def Let_def completed_request_def) (simp add: no_approvals_def ghas_def)
qed

lemma sub_plan_created:
  assumes "pm_ID m = ls_plan_id"
  shows "\<exists>ps q. CreatePlan H 0 10 rnd s no_plans m = (ps, Inr q)"
proof -
  have "pendingPlans H s 0 no_plans = (no_plans, 0)" by (simp add: pendingPlans_def no_plans_def)
  moreover have "ls_plan_id \<noteq> []" by (simp add: ls_plan_id_def)
  ultimately show ?thesis using assms ls_plan_id_valid
    by (simp add: CreatePlan_def Let_def) (simp add: no_plans_def ghas_def)
qed

lemma ls_no_task: "TaskCandidate L ''ls'' [] = None"
proof -
  have p: "Parse ''ls'' = Inr ([''ls''], [])"
    using Parse_plain_words [of "[''ls'']"] by (simp add: plain_word_def safe_rune_def)
  then show ?thesis by (simp add: TaskCandidate_def taskOperation_def args_operation_def split_launcher_def)
qed

lemma sub_submits: "\<exists>w' resp code. SubmitPlan sub_env sub_req (ls_world []) = (w', Inr (resp, code)) \<and> pp_Pending resp \<noteq> 0 \<and>
   (\<forall>l \<in> set (pp_Commands resp). list_all valid_string (line_texts l))"
proof -
  obtain a where a: "PreflightAuthorize ls_engine no_libs one_path 0 no_policy no_hosts (ls_store []) approvals_on ''s'' ''web'' ''ls'' [] = Inr a"
    "au_Status a = AuthNeedsApproval" "Dec_Rule (au_Decision a) = RuleDefaultDeny" using ls_blocked by blast
  let ?pr = "submit_request sub_req 0 sub_cmd a ''q1''"
  obtain s' q where q: "pending_Create no_libs one_path 0 10 ''aaaaaaaaaaaa'' no_approvals ?pr = (s', Inr q)" "pr_ID q \<noteq> []"
    using sub_created [of ?pr one_path] by (auto simp: submit_request_def new_pending_def)
  have c: "fst (CheckGrantedStdin a 0) = a" using a(2) by (simp add: CheckGrantedStdin_def)
  have e: "en_Policy sub_env = no_policy" "en_Inventory sub_env = no_hosts" "en_Approval sub_env = approvals_on" "en_Engine sub_env = ls_engine"
    "en_Libs sub_env = no_libs" "en_Hash sub_env = one_path" "en_NewReqID sub_env = Some (\<lambda>k. Inr ''q1'')" "en_Now sub_env k = 0"
    "en_Others sub_env k s = s" "en_MaxPending sub_env = 10" "en_Random sub_env k = ''aaaaaaaaaaaa''" for k s
    by (simp_all add: sub_env_def) (simp add: ls_env_def)
  have p: "pc_Cmd sub_cmd = ''ls''" "si_SHA256 (pc_Stdin sub_cmd) = []" "si_Bytes (pc_Stdin sub_cmd) = 0" "pq_Commands sub_req = [sub_cmd]" "pq_Host sub_req = ''web''"
    "sc_ID (pq_Session sub_req) = ''s''"
    by (simp_all add: sub_req_def sub_cmd_def)
  define w1 where "w1 = ls_world []\<lparr>w_Shared := (w_Shared (ls_world []))\<lparr>sh_Pending := s'\<rparr>, w_Tick := 3\<rparr>"
  obtain sub where s: "submit_one sub_env sub_req 0 sub_cmd no_submission (ls_world []) = (w1, Inr sub)" "sm_Members sub = [pr_ID q]"
      "\<exists>r. sm_Records sub = [r]" "sm_Lines sub = [submit_line sub_env 0 sub_cmd a ''approval_pending'' (pr_ID q)]"
    using a q(1) c unfolding submit_one_def run_preflight_def shared_op_def e p
    by (simp add: seq_def policy_checked_def submit_auth_def submit_pending_def env_newReqID_def run_create_def shared_op_def e p done_with_def
        approvals_on_def ls_world_def w1_def add_line_def no_submission_def Let_def)
  obtain ps m where m: "CreatePlan one_path 0 10 ''aaaaaaaaaaaa'' s' no_plans (submit_manifest sub_req sub) = (ps, Inr m)"
  proof -
    have "pm_ID (submit_manifest sub_req sub) = ls_plan_id" by (simp add: submit_manifest_def sub_req_def)
    from sub_plan_created [OF this] show ?thesis using that by blast
  qed
  define w2 where "w2 = w1\<lparr>w_Shared := (w_Shared w1)\<lparr>sh_Plans := ps\<rparr>, w_Tick := 4\<rparr>"
  have k: "run_createPlan sub_env (submit_manifest sub_req sub) w1 = (w2, Inr m)"
    using m by (simp add: run_createPlan_def shared_op_def e w1_def w2_def ls_world_def)
  obtain r where r: "sm_Records sub = [r]" using s(3) by blast
  have "sh_Audit (w_Shared w2) = Some []" by (simp add: w2_def w1_def ls_world_def)
  then obtain w3 x where x: "run_append sub_env (r\<lparr>a_ReviewSHA256 := pm_ReviewSHA256 m\<rparr>) w2 = (w3, Inr x)"
    by (simp add: run_append_def shared_op_def e audit_Append_def AppendUnless_def ReadAll_def Let_def case_prod_beta)
  have l: "submitLoop sub_env sub_req 0 (pq_Commands sub_req) no_submission (ls_world []) = (w1, Inr sub)"
    using s(1) by (simp add: p(4) seq_def done_with_def)
  have "SubmitPlan sub_env sub_req (ls_world []) =
      (w3, Inr ((submit_response sub_req sub)\<lparr>pp_PlanID := pm_ID m, pp_ReviewSHA256 := pm_ReviewSHA256 m\<rparr>, sm_Exit sub))"
    unfolding SubmitPlan_def using l k x s(2) r by (simp add: seq_def done_with_def)
  moreover have "list_all valid_string (line_texts (submit_line sub_env 0 sub_cmd a ''approval_pending'' (pr_ID q)))"
    by (simp add: line_texts_def submit_line_def a(3) p e ls_no_task RuleDefaultDeny_def valid_ascii ascii_def)
  ultimately show ?thesis using s(2,4) by (simp add: submit_response_def)
qed

theorem submit_answers_all_witness:
  "\<exists>w' resp code. SubmitPlan sub_env sub_req (ls_world []) = (w', Inr (resp, code)) \<and> map ln_Cmd (pp_Commands resp) = [''ls'']"
proof -
  obtain w' resp code where s: "SubmitPlan sub_env sub_req (ls_world []) = (w', Inr (resp, code))" using sub_submits by blast
  then show ?thesis using submit_answers_all [OF s] by (simp add: sub_req_def sub_cmd_def)
qed

theorem submit_spares_grants_witness:
  "sh_Sessions (w_Shared (fst (SubmitPlan sub_env sub_req (ls_world [])))) = ls_store []"
proof -
  have "alone sub_env" by (simp add: alone_def sub_env_def)
  then show ?thesis using submit_spares_grants [of sub_env sub_req "ls_world []"] by (simp add: ls_world_def)
qed

theorem submitted_plan_reviewable_witness:
  "\<exists>w' resp code m. SubmitPlan sub_env sub_req (ls_world []) = (w', Inr (resp, code)) \<and>
    GetPlan one_path (sh_Plans (w_Shared w')) (pp_PlanID resp) = Inr m"
proof -
  obtain w' resp code where s: "SubmitPlan sub_env sub_req (ls_world []) = (w', Inr (resp, code))" "pp_Pending resp \<noteq> 0"
    "\<forall>l \<in> set (pp_Commands resp). list_all valid_string (line_texts l)" using sub_submits by blast
  have "alone sub_env" "\<forall>x. en_Hash sub_env x \<noteq> [] \<and> valid_string (en_Hash sub_env x)" "list_all valid_string (request_texts sub_req)"
    by (simp_all add: alone_def sub_env_def one_path_def request_texts_def sub_req_def ls_plan_id_def metadata_texts_def no_metadata_def
        command_texts_def sub_cmd_def valid_ascii ascii_def)
  from submitted_plan_reviewable [OF s(1) this(1) s(2) this(2,3) s(3)] have
    "\<exists>m. GetPlan (en_Hash sub_env) (sh_Plans (w_Shared w')) (pp_PlanID resp) = Inr m"
    by (auto simp: sub_req_def sub_cmd_def)
  then show ?thesis using s(1) by (simp add: sub_env_def)
qed

end
