(* ===== verification/ClockNano.thy ===== *)
theory ClockNano
  imports Clock
begin

text \<open>
  \<open>FormatTime\<close> and \<open>ParseTime\<close> of \<open>internal/controlplane/store.go\<close>: RFC 3339 in UTC with as much of a
  fraction as there is, and its reading, in nanoseconds since the epoch. The zero time is the first
  instant of the year 1; it is what an empty or malformed text reads as.
\<close>

definition pad9 :: "nat \<Rightarrow> string" where
  "pad9 n = map (\<lambda>k. digit (n div 10 ^ k mod 10)) [8, 7, 6, 5, 4, 3, 2, 1, 0]"

definition trim_zeros :: "string \<Rightarrow> string" where
  "trim_zeros s = rev (dropWhile (\<lambda>c. c = CHR ''0'') (rev s))"

definition fraction :: "nat \<Rightarrow> string" where
  "fraction n = (if n = 0 then [] else CHR ''.'' # trim_zeros (pad9 n))"

definition FormatTime :: "instant \<Rightarrow> string" where
  "FormatTime t = butlast (format_time t) @ fraction (t mod second) @ ''Z''"

definition zero_time :: int where "zero_time = - 62135596800 * int second"

definition ParseTime :: "string \<Rightarrow> int" where
  "ParseTime s = (if s = [] then zero_time else case parse_time s of Some t \<Rightarrow> t | None \<Rightarrow> zero_time)"

section \<open>Reading back\<close>

lemma trim_zeros_pad: "s = trim_zeros s @ replicate (length s - length (trim_zeros s)) CHR ''0''"
proof -
  let ?r = "rev s"
  have "?r = takeWhile (\<lambda>c. c = CHR ''0'') ?r @ dropWhile (\<lambda>c. c = CHR ''0'') ?r" by simp
  moreover have "takeWhile (\<lambda>c. c = CHR ''0'') ?r = replicate (length (takeWhile (\<lambda>c. c = CHR ''0'') ?r)) CHR ''0''"
    by (rule replicate_eqI [symmetric, THEN sym]) (auto dest: set_takeWhileD)
  ultimately have "s = trim_zeros s @ replicate (length (takeWhile (\<lambda>c. c = CHR ''0'') ?r)) CHR ''0''"
    unfolding trim_zeros_def by (metis rev_append rev_replicate rev_rev_ident)
  moreover from this have "length s = length (trim_zeros s) + length (takeWhile (\<lambda>c. c = CHR ''0'') ?r)"
    by (metis length_append length_replicate)
  ultimately show ?thesis by simp
qed

lemma pad9_digits: "length (pad9 n) = 9" "list_all is_digit (pad9 n)"
  by (simp_all add: pad9_def is_digit_digit)

lemma nine_digits: "n < 10 ^ 9 \<Longrightarrow>
   10 * (10 * (10 * (10 * (10 * (10 * (10 * (10 * (n div 100000000 mod 10) + n div 10000000 mod 10) + n div 1000000 mod 10) +
     n div 100000 mod 10) + n div 10000 mod 10) + n div 1000 mod 10) + n div 100 mod 10) + n div 10 mod 10) + n mod 10 = (n::nat)"
proof -
  assume "n < 10 ^ 9"
  then have 8: "n div 100000000 mod 10 = n div 100000000" by simp
  have step: "10 * (n div m) + n div k mod 10 = n div k" if "m = k * 10" for m k
    using div_mult2_eq [of n k 10] that by simp
  have 0: "10 * (n div 10) + n mod 10 = n" by simp
  show ?thesis unfolding 8 using 0
    by (simp only: step [of 100000000 10000000, simplified] step [of 10000000 1000000, simplified]
      step [of 1000000 100000, simplified] step [of 100000 10000, simplified] step [of 10000 1000, simplified]
      step [of 1000 100, simplified] step [of 100 10, simplified])
qed

lemma num_pad9: "n < 10 ^ 9 \<Longrightarrow> num_of (pad9 n) = Some n"
  using nine_digits [of n] by (simp add: num_of_def pad9_def is_digit_digit byte_digit)

lemma trim_zeros_digits: "list_all is_digit s \<Longrightarrow> list_all is_digit (trim_zeros s)"
  by (subst (asm) trim_zeros_pad) simp

lemma pad9_nonzero: "0 < n \<Longrightarrow> n < 10 ^ 9 \<Longrightarrow> trim_zeros (pad9 n) \<noteq> []"
proof
  assume n: "0 < n" "n < 10 ^ 9" and "trim_zeros (pad9 n) = []"
  then have "pad9 n = replicate 9 CHR ''0''" using trim_zeros_pad [of "pad9 n"] by (simp add: pad9_digits)
  then have "num_of (pad9 n) = Some 0" by (simp add: num_of_def is_digit_def numeral_eq_Suc)
  then show False using num_pad9 n by simp
qed

lemma parse_fraction_written: "n < 10 ^ 9 \<Longrightarrow> parse_fraction (fraction n @ ''Z'') = Some (n, ''Z'')"
proof -
  assume n: "n < 10 ^ 9"
  show ?thesis
  proof (cases "n = 0")
    case False
    let ?t = "trim_zeros (pad9 n)"
    have z: "\<not> is_digit CHR ''Z''" by (simp add: is_digit_def)
    have d: "\<forall>c \<in> set ?t. is_digit c" using trim_zeros_digits [OF pad9_digits(2)] by (simp add: list_all_iff)
    have tw: "takeWhile is_digit (?t @ ''Z'') = ?t" "dropWhile is_digit (?t @ ''Z'') = ''Z''"
      using d z by (simp_all add: takeWhile_append2 dropWhile_append2)
    have "take 9 (?t @ replicate 9 CHR ''0'') = pad9 n"
    proof -
      have p: "pad9 n = ?t @ replicate (9 - length ?t) CHR ''0''" using trim_zeros_pad [of "pad9 n"] by (simp add: pad9_digits)
      then have "length ?t \<le> 9" using pad9_digits(1) [of n] by (metis le_add1 length_append)
      then show ?thesis using p by (simp add: min_def)
    qed
    then show ?thesis using False n pad9_nonzero [of n] by (simp add: fraction_def parse_fraction_def tw num_pad9 Let_def)
  qed (simp add: fraction_def parse_fraction_def)
qed

lemma parse_time_fraction:
  assumes "parse_time (p @ ''Z'') = Some x" and "length p = 19" and "n < 10 ^ 9"
  shows "parse_time (p @ fraction n @ ''Z'') = Some (x + int n)"
proof -
  have nth: "(p @ r) ! k = p ! k" if "k < 19" for r k using that assms(2) by (simp add: nth_append)
  have tk: "take k (drop j (p @ r)) = take k (drop j p)" if "j + k \<le> 19" for r j k using that assms(2) by simp
  have tk0: "take 4 (p @ r) = take 4 p" for r using assms(2) by simp
  have dr: "drop 19 (p @ r) = r" for r using assms(2) by simp
  have z: "parse_fraction ''Z'' = Some (0, ''Z'')" by (simp add: parse_fraction_def)
  have pz: "parse_zone ''Z'' = Some 0" by (simp add: parse_zone_def)
  have lens: "length (p @ ''Z'') = 20" "\<not> length (p @ fraction n @ ''Z'') < 20" using assms(2) by simp_all
  have fields: "(p @ r) ! 4 = p ! 4" "(p @ r) ! 7 = p ! 7" "(p @ r) ! 10 = p ! 10" "(p @ r) ! 13 = p ! 13" "(p @ r) ! 16 = p ! 16"
    "take 2 (drop 5 (p @ r)) = take 2 (drop 5 p)" "take 2 (drop 8 (p @ r)) = take 2 (drop 8 p)"
    "take 2 (drop 11 (p @ r)) = take 2 (drop 11 p)" "take 2 (drop 14 (p @ r)) = take 2 (drop 14 p)"
    "take 2 (drop 17 (p @ r)) = take 2 (drop 17 p)" for r by (simp_all only: nth) (simp_all only: tk)
  show ?thesis
    using assms(1) unfolding parse_time_def dr z lens fields tk0 parse_fraction_written [OF assms(3)]
    by (auto simp add: pz lens split: if_splits option.splits prod.splits simp del: length_append)
qed

lemma format_time_split:
  assumes "time_year t < 10000"
  shows "format_time t = butlast (format_time t) @ ''Z'' \<and> length (butlast (format_time t)) = 19"
proof -
  obtain y yd where y: "civil_year 1970 (t div second div 86400) = (y, yd)" by fastforce
  obtain m d where m: "civil_month 1 (month_days y) yd = (m, d)" by fastforce
  have "y < 10000" using assms y by (simp add: time_year_def)
  then show ?thesis using y m by (simp add: format_time_def Let_def butlast_append pad_lengths)
qed

text \<open>Every time of a four-digit year reads back to the nanosecond.\<close>

lemma ParseTime_FormatTime:
  assumes "time_year t < 10000"
  shows "ParseTime (FormatTime t) = int t"
proof -
  let ?p = "butlast (format_time t)"
  have s: "format_time t = ?p @ ''Z''" "length ?p = 19" using format_time_split [OF assms] by auto
  have "parse_time (?p @ ''Z'') = Some (int (t div second) * int second)" using parse_format [OF assms] s(1) by simp
  from parse_time_fraction [OF this s(2), of "t mod second"] have
    "parse_time (FormatTime t) = Some (int (t div second) * int second + int (t mod second))"
    by (simp add: FormatTime_def)
  moreover have "int (t div second) * int second + int (t mod second) = int t"
    by (metis div_mult_mod_eq of_nat_add of_nat_mult)
  moreover have "FormatTime t \<noteq> []" by (simp add: FormatTime_def)
  ultimately show ?thesis by (simp add: ParseTime_def)
qed


end
