(* ===== verification/JsonParse.thy ===== *)
theory JsonParse
  imports Clock JsonSize
begin

text \<open>
  \<open>json.Unmarshal\<close>: the grammar, the unquoting of strings (escapes, surrogate pairs, and U+FFFD for
  every byte that is not part of valid UTF-8), the nesting limit, and the reading of structures: a
  member goes to the field of its name, or of its name up to case; a later member overwrites an earlier
  one; \<open>null\<close> leaves a plain field alone; a value of another type is an error. What \<open>json_object\<close> writes
  reads back, text by text as \<open>json_clean\<close> of what was written.
\<close>

datatype json = JNull | JBool bool | JNum string | JStr string | JArr "json list" | JObj "(string \<times> json) list"

section \<open>Tokens\<close>

definition is_ws :: "char \<Rightarrow> bool" where
  "is_ws c \<longleftrightarrow> byte c = 32 \<or> byte c = 9 \<or> byte c = 10 \<or> byte c = 13"

definition skip_ws :: "string \<Rightarrow> string" where
  "skip_ws s = dropWhile is_ws s"

definition hex_value :: "char \<Rightarrow> nat option" where
  "hex_value c = (let b = byte c in
     if 48 \<le> b \<and> b \<le> 57 then Some (b - 48) else if 97 \<le> b \<and> b \<le> 102 then Some (b - 87)
     else if 65 \<le> b \<and> b \<le> 70 then Some (b - 55) else None)"

definition lex_hex4 :: "string \<Rightarrow> nat option" where
  "lex_hex4 s = (case s of
     a # b # c # d # _ \<Rightarrow>
       (case (hex_value a, hex_value b, hex_value c, hex_value d) of
          (Some i, Some j, Some k, Some l) \<Rightarrow> Some (((i * 16 + j) * 16 + k) * 16 + l)
        | _ \<Rightarrow> None)
   | _ \<Rightarrow> None)"

text \<open>An escape after its backslash: the rune it stands for and the bytes it takes.\<close>

definition lex_u4 :: "string \<Rightarrow> nat option" where
  "lex_u4 s = (case s of a # b # t \<Rightarrow> if a = bslash \<and> b = CHR ''u'' then lex_hex4 t else None | _ \<Rightarrow> None)"

definition lex_escape :: "string \<Rightarrow> (nat \<times> nat) option" where
  "lex_escape s = (case s of
     [] \<Rightarrow> None
   | e # t \<Rightarrow>
       if e = quote \<or> e = bslash \<or> e = CHR ''/'' then Some (byte e, 1)
       else if e = CHR ''b'' then Some (8, 1) else if e = CHR ''f'' then Some (12, 1)
       else if e = CHR ''n'' then Some (10, 1) else if e = CHR ''r'' then Some (13, 1)
       else if e = CHR ''t'' then Some (9, 1)
       else if e = CHR ''u'' then
         (case lex_hex4 t of
            None \<Rightarrow> None
          | Some r \<Rightarrow>
              if 0xD800 \<le> r \<and> r < 0xE000 then
                (case lex_u4 (drop 4 t) of
                   Some r2 \<Rightarrow> if r < 0xDC00 \<and> 0xDC00 \<le> r2 \<and> r2 < 0xE000
                     then Some ((r - 0xD800) * 1024 + (r2 - 0xDC00) + 0x10000, 11) else Some (RuneError, 5)
                 | None \<Rightarrow> Some (RuneError, 5))
              else Some (r, 5))
       else None)"

lemma next_rune_advances: "s \<noteq> [] \<Longrightarrow> 0 < snd (snd (next_rune (bytes s)))"
  using next_rune_size [of "bytes s"] by (cases "next_rune (bytes s)") (auto simp: bytes_def)

text \<open>A string after its opening quote: its contents and what follows it.\<close>

function lex_string :: "string \<Rightarrow> (string \<times> string) option" where
  "lex_string s = (case s of
     [] \<Rightarrow> None
   | c # t \<Rightarrow>
       if c = quote then Some ([], t)
       else if c = bslash then
         (case lex_escape t of
            None \<Rightarrow> None
          | Some (r, n) \<Rightarrow> map_option (\<lambda>(x, rest). (encode_runes [r] @ x, rest)) (lex_string (drop n t)))
       else if byte c < 32 then None
       else map_option (\<lambda>(x, rest). (encode_runes [fst (next_rune (bytes s))] @ x, rest))
              (lex_string (drop (snd (snd (next_rune (bytes s)))) s)))"
  by pat_completeness auto
termination
  using next_rune_advances by (relation "measure length") (auto intro!: diff_less)

declare lex_string.simps [simp del]

text \<open>A number: sign, integer part, fraction, exponent; each part is the text it takes.\<close>

definition sign_part :: "string \<Rightarrow> string" where
  "sign_part s = takeWhile (\<lambda>c. c = CHR ''-'') (take 1 s)"

definition integer_part :: "string \<Rightarrow> string" where
  "integer_part s = (case s of [] \<Rightarrow> [] | c # _ \<Rightarrow> if c = CHR ''0'' then [c] else takeWhile is_digit s)"

definition fraction_part :: "string \<Rightarrow> string" where
  "fraction_part s = (case s of [] \<Rightarrow> [] | c # t \<Rightarrow> if c = CHR ''.'' then c # takeWhile is_digit t else [])"

definition exponent_part :: "string \<Rightarrow> string \<times> string" where
  "exponent_part s =
     (let e = takeWhile (\<lambda>c. c = CHR ''e'' \<or> c = CHR ''E'') (take 1 s) in
      if e = [] then ([], []) else
      let g = takeWhile (\<lambda>c. c = CHR ''+'' \<or> c = CHR ''-'') (take 1 (tl s)) in
      (e @ g, takeWhile is_digit (drop (length g) (tl s))))"

definition lex_number :: "string \<Rightarrow> (string \<times> string) option" where
  "lex_number s =
     (let sg = sign_part s; s1 = drop (length sg) s; ip = integer_part s1; s2 = drop (length ip) s1;
          fp = fraction_part s2; s3 = drop (length fp) s2; (e, ed) = exponent_part s3 in
      if ip = [] \<or> length fp = 1 \<or> e \<noteq> [] \<and> ed = [] then None
      else Some (sg @ ip @ fp @ e @ ed, drop (length (e @ ed)) s3))"

section \<open>Values\<close>

text \<open>At most ten thousand values may be open at once. The fuel bounds the calls; twice the length is enough.\<close>

definition max_depth :: nat where "max_depth = 10000"

fun parse_value :: "nat \<Rightarrow> nat \<Rightarrow> string \<Rightarrow> (json \<times> string) option"
  and parse_elements :: "nat \<Rightarrow> nat \<Rightarrow> string \<Rightarrow> (json list \<times> string) option"
  and parse_members :: "nat \<Rightarrow> nat \<Rightarrow> string \<Rightarrow> ((string \<times> json) list \<times> string) option" where
  "parse_value 0 d s = None"
| "parse_value (Suc n) d s = (case skip_ws s of
     [] \<Rightarrow> None
   | c # t \<Rightarrow>
       if c = quote then map_option (\<lambda>(x, r). (JStr x, r)) (lex_string t)
       else if c = CHR ''{'' then
         (if max_depth \<le> d then None
          else if skip_ws t \<noteq> [] \<and> hd (skip_ws t) = CHR ''}'' then Some (JObj [], tl (skip_ws t))
          else map_option (\<lambda>(ms, r). (JObj ms, r)) (parse_members n (Suc d) t))
       else if c = CHR ''['' then
         (if max_depth \<le> d then None
          else if skip_ws t \<noteq> [] \<and> hd (skip_ws t) = CHR '']'' then Some (JArr [], tl (skip_ws t))
          else map_option (\<lambda>(vs, r). (JArr vs, r)) (parse_elements n (Suc d) t))
       else if prefix ''true'' (c # t) then Some (JBool True, drop 4 (c # t))
       else if prefix ''false'' (c # t) then Some (JBool False, drop 5 (c # t))
       else if prefix ''null'' (c # t) then Some (JNull, drop 4 (c # t))
       else map_option (\<lambda>(x, r). (JNum x, r)) (lex_number (c # t)))"
| "parse_elements 0 d s = None"
| "parse_elements (Suc n) d s =
     (case parse_value n d s of
        None \<Rightarrow> None
      | Some (v, r) \<Rightarrow>
          (case skip_ws r of
             [] \<Rightarrow> None
           | c # t \<Rightarrow>
               if c = CHR '']'' then Some ([v], t)
               else if c = CHR '','' then map_option (\<lambda>(vs, r). (v # vs, r)) (parse_elements n d t)
               else None))"
| "parse_members 0 d s = None"
| "parse_members (Suc n) d s = (case skip_ws s of
     [] \<Rightarrow> None
   | c # t \<Rightarrow>
       if c \<noteq> quote then None
       else (case lex_string t of
          None \<Rightarrow> None
        | Some (k, r) \<Rightarrow>
            (case skip_ws r of
               [] \<Rightarrow> None
             | c # t \<Rightarrow>
                 if c \<noteq> CHR '':'' then None
                 else (case parse_value n d t of
                    None \<Rightarrow> None
                  | Some (v, r) \<Rightarrow>
                      (case skip_ws r of
                         [] \<Rightarrow> None
                       | c # t \<Rightarrow>
                           if c = CHR ''}'' then Some ([(k, v)], t)
                           else if c = CHR '','' then map_option (\<lambda>(ms, r). ((k, v) # ms, r)) (parse_members n d t)
                           else None)))))"

definition json_text :: "string \<Rightarrow> json option" where
  "json_text s = (case parse_value (2 * length s + 2) 0 s of
     Some (v, r) \<Rightarrow> if skip_ws r = [] then Some v else None
   | None \<Rightarrow> None)"

section \<open>Structures\<close>

definition fold_key :: "string \<Rightarrow> nat list" where
  "fold_key k = map (\<lambda>r. if 65 \<le> r \<and> r \<le> 90 then r + 32 else if r = 0x212A then 107 else if r = 0x17F then 115 else r) (runes k)"

definition matches_key :: "string \<Rightarrow> string \<Rightarrow> bool" where
  "matches_key name k \<longleftrightarrow> k = name \<or> fold_key k = fold_key name"

fun get_member :: "(json \<Rightarrow> 'a \<Rightarrow> 'a option) \<Rightarrow> string \<Rightarrow> 'a \<Rightarrow> (string \<times> json) list \<Rightarrow> 'a option" where
  "get_member as_a name x [] = Some x"
| "get_member as_a name x ((k, v) # ms) =
     (if matches_key name k then (case as_a v x of None \<Rightarrow> None | Some y \<Rightarrow> get_member as_a name y ms)
      else get_member as_a name x ms)"

fun as_string :: "json \<Rightarrow> string \<Rightarrow> string option" where
  "as_string (JStr s) _ = Some s"
| "as_string JNull x = Some x"
| "as_string _ _ = None"

fun as_bool :: "json \<Rightarrow> bool \<Rightarrow> bool option" where
  "as_bool (JBool b) _ = Some b"
| "as_bool JNull x = Some x"
| "as_bool _ _ = None"

text \<open>A signed 64-bit number: no fraction, no exponent, in range.\<close>

definition int_text :: "string \<Rightarrow> int option" where
  "int_text t =
     (let neg = t \<noteq> [] \<and> hd t = CHR ''-''; ds = (if neg then tl t else t) in
      case num_of ds of
        None \<Rightarrow> None
      | Some n \<Rightarrow> let i = (if neg then - int n else int n) in if - (2 ^ 63) \<le> i \<and> i < 2 ^ 63 then Some i else None)"

fun as_int :: "json \<Rightarrow> int \<Rightarrow> int option" where
  "as_int (JNum t) _ = int_text t"
| "as_int JNull x = Some x"
| "as_int _ _ = None"

fun as_strings :: "json \<Rightarrow> string list \<Rightarrow> string list option" where
  "as_strings (JArr vs) _ = those (map (\<lambda>v. as_string v []) vs)"
| "as_strings JNull _ = Some []"
| "as_strings _ _ = None"

text \<open>The members a structure is read from; a \<open>null\<close> is a structure without members.\<close>

fun struct_members :: "json \<Rightarrow> (string \<times> json) list option" where
  "struct_members (JObj ms) = Some ms"
| "struct_members JNull = Some []"
| "struct_members _ = None"

definition unmarshal_struct :: "((string \<times> json) list \<Rightarrow> 'a option) \<Rightarrow> string \<Rightarrow> 'a option" where
  "unmarshal_struct read s = Option.bind (json_text s) (\<lambda>v. Option.bind (struct_members v) read)"

section \<open>Fuel\<close>

lemma lex_string_shrink: "lex_string s = Some (x, r) \<Longrightarrow> length r < length s"
proof (induction s arbitrary: x r rule: lex_string.induct)
  case (1 s)
  obtain c t where s: "s = c # t" using "1.prems" by (cases s) (simp_all add: lex_string.simps [of "[]"])
  consider (quoted) "c = quote" | (esc) "c \<noteq> quote" "c = bslash" | (plain) "c \<noteq> quote" "c \<noteq> bslash" by blast
  then show ?case
  proof cases
    case esc
    then obtain e n y where e: "lex_escape t = Some (e, n)" and l: "lex_string (drop n t) = Some (y, r)"
      using "1.prems" s by (subst (asm) lex_string.simps) (auto split: option.splits prod.splits)
    from "1.IH" (1) [OF s esc e refl l] show ?thesis using s by simp
  next
    case plain
    let ?d = "drop (snd (snd (next_rune (bytes s)))) s"
    from plain obtain y where l: "\<not> byte c < 32" "lex_string ?d = Some (y, r)"
      using "1.prems" s by (subst (asm) lex_string.simps) (auto split: if_splits prod.splits)
    from "1.IH" (2) [OF s plain l] show ?thesis by simp
  next
    case quoted
    then show ?thesis using "1.prems" s by (subst (asm) lex_string.simps) simp
  qed
qed

lemma lex_number_shrink: "lex_number s = Some (x, r) \<Longrightarrow> length r < length s"
proof -
  assume "lex_number s = Some (x, r)"
  moreover define s1 where "s1 = drop (length (sign_part s)) s"
  moreover define s2 where "s2 = drop (length (integer_part s1)) s1"
  ultimately have i: "integer_part s1 \<noteq> []" and r: "length r \<le> length s2"
    by (auto simp: lex_number_def Let_def split: if_splits prod.splits)
  have "length (integer_part s1) \<le> length s1"
    by (cases s1) (auto simp: integer_part_def intro: le_trans [OF length_takeWhile_le])
  then show ?thesis using i r by (cases "integer_part s1") (auto simp: s1_def s2_def)
qed

lemma skip_ws_length: "length (skip_ws s) \<le> length s"
  by (simp add: skip_ws_def length_dropWhile_le)

lemma skip_ws_step: "skip_ws s = c # t \<Longrightarrow> length t < length s"
  using skip_ws_length [of s] by simp

lemma parse_value_cases:
  assumes "parse_value (Suc n) d s = Some (v, r)"
  shows "\<exists>c t. skip_ws s = c # t \<and> ((\<exists>x. lex_string t = Some (x, r)) \<or> skip_ws t \<noteq> [] \<and> r = tl (skip_ws t) \<or>
     (\<exists>ms. parse_members n (Suc d) t = Some (ms, r)) \<or> (\<exists>vs. parse_elements n (Suc d) t = Some (vs, r)) \<or>
     r = drop 4 (c # t) \<or> r = drop 5 (c # t) \<or> (\<exists>x. lex_number (c # t) = Some (x, r)))"
proof -
  obtain c t where s: "skip_ws s = c # t" using assms by (cases "skip_ws s") simp_all
  show ?thesis using assms unfolding parse_value.simps s list.case
    by (simp only: list.inject ex_simps simp_thms) (auto split: if_splits)
qed

lemma parse_elements_cases:
  assumes "parse_elements (Suc n) d s = Some (vs, r)"
  shows "\<exists>v r1 c t. parse_value n d s = Some (v, r1) \<and> skip_ws r1 = c # t \<and> (r = t \<or> (\<exists>vs. parse_elements n d t = Some (vs, r)))"
  using assms by (auto split: option.splits prod.splits list.splits if_splits)

lemma parse_members_cases:
  assumes "parse_members (Suc n) d s = Some (ms, r)"
  shows "\<exists>c t k r1 c1 t1 v r2 c2 t2. skip_ws s = c # t \<and> lex_string t = Some (k, r1) \<and> skip_ws r1 = c1 # t1 \<and>
     parse_value n d t1 = Some (v, r2) \<and> skip_ws r2 = c2 # t2 \<and> (r = t2 \<or> (\<exists>ms. parse_members n d t2 = Some (ms, r)))"
  using assms by (auto split: option.splits prod.splits list.splits if_splits)

lemma parse_shrink:
  "(\<forall>d s v r. parse_value n d s = Some (v, r) \<longrightarrow> length r < length s) \<and>
   (\<forall>d s vs r. parse_elements n d s = Some (vs, r) \<longrightarrow> length r < length s) \<and>
   (\<forall>d s ms r. parse_members n d s = Some (ms, r) \<longrightarrow> length r < length s)"
proof (induction n)
  case (Suc n)
  then have IH: "parse_value n d s = Some (v, r) \<Longrightarrow> length r < length s" "parse_elements n d s = Some (vs, r) \<Longrightarrow> length r < length s"
    "parse_members n d s = Some (ms, r) \<Longrightarrow> length r < length s" for d s v vs ms r by blast+
  have "length r < length s" if "parse_value (Suc n) d s = Some (v, r)" for d s v r
  proof -
    from parse_value_cases [OF that] obtain c t where s: "skip_ws s = c # t" and
      c: "(\<exists>x. lex_string t = Some (x, r)) \<or> skip_ws t \<noteq> [] \<and> r = tl (skip_ws t) \<or>
        (\<exists>ms. parse_members n (Suc d) t = Some (ms, r)) \<or> (\<exists>vs. parse_elements n (Suc d) t = Some (vs, r)) \<or>
        r = drop 4 (c # t) \<or> r = drop 5 (c # t) \<or> (\<exists>x. lex_number (c # t) = Some (x, r))" by blast
    have "length r < Suc (length t)"
      using c skip_ws_length [of t] lex_string_shrink [of t] lex_number_shrink [of "c # t"] IH(2,3) [of "Suc d" t]
      by (auto intro: less_SucI)
    then show ?thesis using skip_ws_length [of s] s by simp
  qed
  moreover have "length r < length s" if "parse_elements (Suc n) d s = Some (vs, r)" for d s vs r
  proof -
    from parse_elements_cases [OF that] obtain v r1 c t where "parse_value n d s = Some (v, r1)" "skip_ws r1 = c # t"
      "r = t \<or> (\<exists>vs. parse_elements n d t = Some (vs, r))" by blast
    then show ?thesis using IH(1) [of d s v r1] IH(2) [of d t _ r] skip_ws_step [of r1 c t] by fastforce
  qed
  moreover have "length r < length s" if "parse_members (Suc n) d s = Some (ms, r)" for d s ms r
  proof -
    from parse_members_cases [OF that] obtain c t k r1 c1 t1 v r2 c2 t2 where 1: "skip_ws s = c # t" and 2: "lex_string t = Some (k, r1)"
      and 3: "skip_ws r1 = c1 # t1" and 4: "parse_value n d t1 = Some (v, r2)" and 5: "skip_ws r2 = c2 # t2" and
      r: "r = t2 \<or> (\<exists>ms. parse_members n d t2 = Some (ms, r))" by blast
    have "length t2 < length s"
      using skip_ws_step [OF 1] lex_string_shrink [OF 2] skip_ws_step [OF 3] IH(1) [OF 4] skip_ws_step [OF 5] by linarith
    then show ?thesis using r IH(3) [of d t2 _ r] by fastforce
  qed
  ultimately show ?case by blast
qed simp

lemma parse_fuel:
  "(\<forall>m d s. 2 * length s < n \<longrightarrow> 2 * length s < m \<longrightarrow> parse_value n d s = parse_value m d s) \<and>
   (\<forall>m d s. 2 * length s + 1 < n \<longrightarrow> 2 * length s + 1 < m \<longrightarrow> parse_elements n d s = parse_elements m d s) \<and>
   (\<forall>m d s. 2 * length s < n \<longrightarrow> 2 * length s < m \<longrightarrow> parse_members n d s = parse_members m d s)"
proof (induction n)
  case (Suc n)
  then have IH: "2 * length s < n \<Longrightarrow> 2 * length s < m \<Longrightarrow> parse_value n d s = parse_value m d s"
    "2 * length s + 1 < n \<Longrightarrow> 2 * length s + 1 < m \<Longrightarrow> parse_elements n d s = parse_elements m d s"
    "2 * length s < n \<Longrightarrow> 2 * length s < m \<Longrightarrow> parse_members n d s = parse_members m d s" for m d s by blast+
  note shrink = parse_shrink [THEN conjunct1, rule_format]
  have "parse_value (Suc n) d s = parse_value m d s" if l: "2 * length s < Suc n" "2 * length s < m" for m d s
  proof -
    obtain k where m: "m = Suc k" using l(2) by (cases m) auto
    have "parse_elements n (Suc d) t = parse_elements k (Suc d) t \<and> parse_members n (Suc d) t = parse_members k (Suc d) t"
      if "skip_ws s = c # t" for c t
      using IH(2,3) [of t k "Suc d"] skip_ws_step [OF that] l unfolding m by linarith
    then show ?thesis unfolding m by (simp split: list.split)
  qed
  moreover have "parse_elements (Suc n) d s = parse_elements m d s" if l: "2 * length s + 1 < Suc n" "2 * length s + 1 < m" for m d s
  proof -
    obtain k where m: "m = Suc k" using l(2) by (cases m) auto
    have v: "parse_value n d s = parse_value k d s" using IH(1) [of s k d] l unfolding m by linarith
    have e: "parse_elements n d t = parse_elements k d t" if "parse_value k d s = Some (x, r)" "skip_ws r = c # t" for x r c t
      using IH(2) [of t k d] shrink [OF that(1)] skip_ws_step [OF that(2)] l unfolding m by linarith
    show ?thesis unfolding m parse_elements.simps v using e by (auto split: option.split list.split)
  qed
  moreover have "parse_members (Suc n) d s = parse_members m d s" if l: "2 * length s < Suc n" "2 * length s < m" for m d s
  proof -
    obtain k where m: "m = Suc k" using l(2) by (cases m) auto
    have v: "parse_value n d t = parse_value k d t"
      if "skip_ws s = c0 # t0" "lex_string t0 = Some (x, r)" "skip_ws r = c # t" for c0 t0 x r c t
      using IH(1) [of t k d] skip_ws_step [OF that(1)] lex_string_shrink [OF that(2)] skip_ws_step [OF that(3)] l unfolding m by linarith
    have e: "parse_members n d t1 = parse_members k d t1"
      if "skip_ws s = c0 # t0" "lex_string t0 = Some (x, r)" "skip_ws r = c # t" "parse_value k d t = Some (y, r1)" "skip_ws r1 = c1 # t1"
      for c0 t0 x r c t y r1 c1 t1
      using IH(3) [of t1 k d] skip_ws_step [OF that(1)] lex_string_shrink [OF that(2)] skip_ws_step [OF that(3)]
        shrink [OF that(4)] skip_ws_step [OF that(5)] l unfolding m by linarith
    show ?thesis unfolding m parse_members.simps using v e by (auto split: option.split list.split)
  qed
  ultimately show ?case by blast
qed simp

text \<open>More fuel than \<open>json_text\<close> gives changes nothing.\<close>

lemma json_text_fuel: "2 * length s < n \<Longrightarrow> json_text s = (case parse_value n 0 s of
     Some (v, r) \<Rightarrow> if skip_ws r = [] then Some v else None | None \<Rightarrow> None)"
  using parse_fuel [of "2 * length s + 2", THEN conjunct1, rule_format, of s n 0] by (simp add: json_text_def)

section \<open>Reading strings\<close>

lemma hex_value_nibble [simp]: "n < 16 \<Longrightarrow> hex_value (nibble n) = Some n"
  by (auto simp: hex_value_def nibble_def)

lemma lex_string_quote [simp]: "lex_string (quote # t) = Some ([], t)"
  by (subst lex_string.simps) simp

lemma lex_string_escape: "lex_escape t = Some (r, n) \<Longrightarrow>
   lex_string (bslash # t) = map_option (\<lambda>(x, rest). (encode_runes [r] @ x, rest)) (lex_string (drop n t))"
  by (subst lex_string.simps) simp

lemma lex_string_plain:
  assumes "scalar r" and "plain_rune r"
  shows "lex_string (unbytes (encode_rune r) @ t) = map_option (\<lambda>(x, rest). (encode_runes [r] @ x, rest)) (lex_string t)"
proof -
  have b: "bytes (unbytes (encode_rune r) @ t) = encode_rune r @ bytes t"
    by (simp add: bytes_unbytes encode_rune_less)
  have n: "next_rune (bytes (unbytes (encode_rune r) @ t)) = (r, True, length (encode_rune r))"
    unfolding b by (rule next_rune_encode [OF assms(1)])
  have h: "json_char r = unbytes (encode_rune r)" by (rule json_char_plain [OF assms(2)])
  obtain c u where c: "unbytes (encode_rune r) @ t = c # u" "c = hd (json_char r)"
    using h by (cases "unbytes (encode_rune r)") (auto simp: unbytes_def)
  have "\<not> byte c < 32"
  proof -
    from encode_head [OF assms(1)] obtain b bs where e: "encode_rune r = b # bs" "b = r \<and> r < 128 \<or> 128 \<le> b" "b < 256" by auto
    then have "byte c = b" using unbytes_head [of b bs] by (simp add: c(2) h)
    then show ?thesis using e(2) assms(2) by (auto simp: plain_rune_def)
  qed
  moreover have "c \<noteq> quote" "c \<noteq> bslash" using plain_head [OF assms] c(2) by auto
  moreover have "length (unbytes (encode_rune r)) = length (encode_rune r)" by (simp add: unbytes_def)
  then have "drop (length (encode_rune r)) (unbytes (encode_rune r) @ t) = t" by simp
  ultimately show ?thesis using n unfolding c(1) by (subst lex_string.simps) simp
qed

lemma lex_string_rune:
  assumes "x \<in> set (rune_list bs)"
  shows "lex_string (json_rune x @ t) = map_option (\<lambda>(y, rest). (encode_runes [fst x] @ y, rest)) (lex_string t)"
proof -
  obtain r ok n where x: "x = (r, ok, n)" by (cases x) auto
  have r: "scalar r" "\<not> ok \<longrightarrow> r = RuneError" using rune_list_scalar assms x by blast+
  consider (bad) "\<not> ok" | (plain) "ok" "plain_rune r" | (esc) "ok" "\<not> plain_rune r" by blast
  then show ?thesis
  proof cases
    case bad
    have "lex_escape (CHR ''u'' # CHR ''f'' # CHR ''f'' # CHR ''f'' # CHR ''d'' # t) = Some (RuneError, 5)"
      by (simp add: lex_escape_def lex_hex4_def hex_value_def RuneError_def)
    from lex_string_escape [OF this] show ?thesis using bad r by (simp add: x json_rune_def)
  next
    case plain
    then show ?thesis using lex_string_plain [OF r(1)] by (simp add: x json_rune_def json_char_plain)
  next
    case esc
    consider "r = 34" | "r = 92" | "r = 8" | "r = 12" | "r = 10" | "r = 13" | "r = 9" | "r = 8232" | "r = 8233"
      | (u) "r \<notin> {34, 92, 8, 12, 10, 13, 9}" "r < 32 \<or> r = 60 \<or> r = 62 \<or> r = 38"
      using esc(2) by (auto simp: plain_rune_def)
    then show ?thesis
    proof cases
      case u
      then have q: "r div 16 < 16" "r mod 16 < 16" "r div 16 * 16 + r mod 16 = r" by auto
      have "json_char r = bslash # CHR ''u'' # CHR ''0'' # CHR ''0'' # nibble (r div 16) # [nibble (r mod 16)]"
        using u by (auto simp: json_char_def)
      moreover have "lex_hex4 (CHR ''0'' # CHR ''0'' # nibble (r div 16) # nibble (r mod 16) # t) = Some r"
        using q by (simp add: lex_hex4_def hex_value_def [of "CHR ''0''"])
      moreover have "r < 0xD800" using u(2) by auto
      ultimately have "json_char r = bslash # CHR ''u'' # CHR ''0'' # CHR ''0'' # nibble (r div 16) # [nibble (r mod 16)]"
        "lex_escape (CHR ''u'' # CHR ''0'' # CHR ''0'' # nibble (r div 16) # nibble (r mod 16) # t) = Some (r, 5)"
        by (simp_all add: lex_escape_def)
      then show ?thesis using lex_string_escape esc by (simp add: x json_rune_def)
    qed (simp_all add: x esc json_rune_def json_char_def lex_string_escape lex_escape_def lex_hex4_def hex_value_def nibble_def Let_def)
  qed
qed

lemma encode_runes_step: "encode_runes (r # rs) = encode_runes [r] @ encode_runes rs"
  using encode_runes_append [of "[r]" rs] by simp

lemma lex_json_string: "lex_string (concat (map json_rune (rune_list (bytes s))) @ quote # t) = Some (json_clean s, t)"
proof -
  have "lex_string (concat (map json_rune xs) @ quote # t) = Some (encode_runes (map fst xs), t)"
    if "set xs \<subseteq> set (rune_list (bytes s))" for xs using that
  proof (induction xs)
    case (Cons x xs)
    then have x: "x \<in> set (rune_list (bytes s))" by simp
    show ?case using Cons unfolding list.map concat.simps append_assoc lex_string_rune [OF x] encode_runes_step [of "fst x" "map fst xs"]
      by simp
  qed (simp add: encode_runes_def unbytes_def)
  from this [of "rune_list (bytes s)"] show ?thesis by (simp add: json_clean_def runes_def bytes_runes_def)
qed

section \<open>Reading values\<close>

definition ends_value :: "string \<Rightarrow> bool" where
  "ends_value t \<longleftrightarrow> t = [] \<or> hd t = CHR '','' \<or> hd t = CHR ''}'' \<or> hd t = CHR '']''"

text \<open>A text that reads as a value, within so many levels, wherever a value may end.\<close>

definition renders :: "nat \<Rightarrow> json \<Rightarrow> string \<Rightarrow> bool" where
  "renders h v t \<longleftrightarrow> t \<noteq> [] \<and> \<not> is_ws (hd t) \<and> hd t \<noteq> CHR '']'' \<and>
     (\<forall>n d rest. 2 * length t < n \<longrightarrow> d + h \<le> max_depth \<longrightarrow> ends_value rest \<longrightarrow> parse_value n d (t @ rest) = Some (v, rest))"

lemma skip_ws_Cons [simp]: "skip_ws (c # t) = (if is_ws c then skip_ws t else c # t)"
  by (simp add: skip_ws_def)

lemma skip_ws_Nil [simp]: "skip_ws [] = []"
  by (simp add: skip_ws_def)

lemma skip_ws_ends: "ends_value t \<Longrightarrow> skip_ws t = t"
  by (cases t) (auto simp: ends_value_def is_ws_def)

lemma skip_ws_head: "t \<noteq> [] \<Longrightarrow> \<not> is_ws (hd t) \<Longrightarrow> skip_ws (t @ r) = t @ r"
  by (cases t) auto

lemma renders_mono: "renders h v t \<Longrightarrow> h \<le> k \<Longrightarrow> renders k v t"
  by (auto simp: renders_def)

lemma renders_string: "renders 0 (JStr (json_clean s)) (json_string s)"
proof -
  have "parse_value n d (json_string s @ rest) = Some (JStr (json_clean s), rest)" if "0 < n" for n d rest
    using that by (cases n) (simp_all add: json_string_def lex_json_string is_ws_def)
  then show ?thesis by (auto simp: renders_def json_string_def is_ws_def)
qed

lemma renders_bool: "renders 0 (JBool b) (json_bool b)"
proof -
  have "parse_value n d (json_bool b @ rest) = Some (JBool b, rest)" if "0 < n" for n d rest
    using that by (cases n; cases b) (simp_all add: json_bool_def is_ws_def)
  then show ?thesis by (auto simp: renders_def json_bool_def is_ws_def)
qed

lemma nat_dec_head: "0 < n \<Longrightarrow> hd (nat_dec n) \<noteq> CHR ''0''"
proof (induction n rule: nat_dec.induct)
  case (1 n)
  show ?case
  proof (cases "n < 10")
    case True
    have "char_of (48 + n) \<noteq> CHR ''0''"
    proof
      assume "char_of (48 + n) = CHR ''0''"
      then have "byte (char_of (48 + n)) = byte CHR ''0''" by (rule arg_cong)
      then show False using True 1(2) by simp
    qed
    then show ?thesis using True by (subst nat_dec.simps) simp
  next
    case False
    then show ?thesis using 1(1) nat_dec_chars [of "n div 10"] by (subst nat_dec.simps) simp
  qed
qed

lemma nat_dec_digits: "list_all is_digit (nat_dec n)" "nat_dec n \<noteq> []"
  using nat_dec_chars [of n] by (auto simp: is_digit_def list_all_iff)

lemma num_of_nat_dec: "num_of (nat_dec n) = Some n"
  using nat_dec_value [of n] by (simp add: num_of_def nat_dec_digits dec_value_def)

lemma ends_not_digit: "ends_value t \<Longrightarrow> t = [] \<or> \<not> is_digit (hd t) \<and> hd t \<noteq> CHR ''.'' \<and> hd t \<noteq> CHR ''e'' \<and> hd t \<noteq> CHR ''E''"
  by (auto simp: ends_value_def is_digit_def)

lemma nat_dec_0 [simp]: "nat_dec 0 = ''0''"
  by (subst nat_dec.simps) (simp add: char_of_eq_iff)

lemma nat_dec_integer_part:
  assumes "ends_value rest"
  shows "integer_part (nat_dec n @ rest) = nat_dec n"
proof (cases "n = 0")
  case True
  then show ?thesis by (simp add: integer_part_def)
next
  case False
  have "takeWhile is_digit (nat_dec n @ rest) = nat_dec n"
    using nat_dec_digits [of n] ends_not_digit [OF assms] by (cases rest) (simp_all add: list_all_iff takeWhile_append2)
  then show ?thesis using nat_dec_head [of n] False nat_dec_digits(2) [of n] by (cases "nat_dec n") (auto simp: integer_part_def)
qed

lemma lex_number_dec:
  assumes "ends_value rest" and sg: "sg = [] \<or> sg = ''-''"
  shows "lex_number (sg @ nat_dec n @ rest) = Some (sg @ nat_dec n, rest)"
proof -
  obtain c u where c: "nat_dec n = c # u" "is_digit c" using nat_dec_digits [of n] by (cases "nat_dec n") auto
  then have m: "c \<noteq> CHR ''-''" by (auto simp: is_digit_def)
  have s: "sign_part (sg @ nat_dec n @ rest) = sg" using sg c m by (auto simp: sign_part_def)
  have f: "fraction_part rest = []" using ends_not_digit [OF assms(1)] by (cases rest) (auto simp: fraction_part_def)
  have e: "exponent_part rest = ([], [])" using ends_not_digit [OF assms(1)] by (cases rest) (auto simp: exponent_part_def)
  have d: "drop (length sg) (sg @ nat_dec n @ rest) = nat_dec n @ rest" "drop (length (nat_dec n)) (nat_dec n @ rest) = rest" by simp_all
  show ?thesis unfolding lex_number_def Let_def s d nat_dec_integer_part [OF assms(1)] f
    by (simp add: e nat_dec_digits)
qed

lemma int_dec_parts: "\<exists>sg n. int_dec i = sg @ nat_dec n \<and> (sg = [] \<or> sg = ''-'')"
proof (cases "i < 0")
  case True
  then have "int_dec i = ''-'' @ nat_dec (nat (- i))" by (simp add: int_dec_def)
  then show ?thesis by blast
next
  case False
  then have "int_dec i = [] @ nat_dec (nat i)" by (simp add: int_dec_def)
  then show ?thesis by blast
qed

lemma renders_int: "renders 0 (JNum (int_dec i)) (int_dec i)"
proof -
  obtain sg n where i: "int_dec i = sg @ nat_dec n" "sg = [] \<or> sg = ''-''" using int_dec_parts by blast
  obtain c u where c: "int_dec i = c # u" "is_digit c \<or> c = CHR ''-''"
    using i nat_dec_digits [of n] by (cases "nat_dec n") auto
  have h: "\<not> is_ws c" "c \<noteq> quote" "c \<noteq> CHR ''{''" "c \<noteq> CHR ''[''" "c \<noteq> CHR '']''" "c \<noteq> CHR ''t''" "c \<noteq> CHR ''f''" "c \<noteq> CHR ''n''"
    using c(2) by (auto simp: is_digit_def is_ws_def)
  have "parse_value k d (int_dec i @ rest) = Some (JNum (int_dec i), rest)" if "0 < k" "ends_value rest" for k d rest
  proof -
    have "lex_number ((sg @ nat_dec n) @ rest) = Some (sg @ nat_dec n, rest)" using lex_number_dec [OF that(2) i(2), of n] by simp
    then have l: "lex_number (c # u @ rest) = Some (int_dec i, rest)" unfolding i(1) [symmetric] by (simp add: c(1))
    show ?thesis using that(1) h l by (cases k) (simp_all add: c(1))
  qed
  then show ?thesis using h c(1) by (auto simp: renders_def)
qed

lemma int_text_dec: "- (2 ^ 63) \<le> i \<Longrightarrow> i < 2 ^ 63 \<Longrightarrow> int_text (int_dec i) = Some i"
proof -
  assume r: "- (2 ^ 63) \<le> i" "i < 2 ^ 63"
  have "hd (nat_dec n) \<noteq> CHR ''-''" for n using nat_dec_digits [of n] by (cases "nat_dec n") (auto simp: is_digit_def)
  then show ?thesis using r by (simp add: int_text_def int_dec_def num_of_nat_dec nat_dec_digits Let_def)
qed

section \<open>Reading objects\<close>

definition renders_member :: "nat \<Rightarrow> string \<times> string \<Rightarrow> string \<times> json \<Rightarrow> bool" where
  "renders_member h p m \<longleftrightarrow> fst m = json_clean (fst p) \<and> renders h (snd m) (snd p)"

lemma parse_members_rendered:
  assumes "list_all2 (renders_member h) ps ms" and "ps \<noteq> []" and "2 * length (str_join (map json_member ps) '','') < n" and "d + h \<le> max_depth"
  shows "parse_members n d (str_join (map json_member ps) '','' @ CHR ''}'' # rest) = Some (ms, rest)"
  using assms
proof (induction ps arbitrary: ms n)
  case (Cons p ps)
  obtain m ms' where ms: "ms = m # ms'" "renders_member h p m" "list_all2 (renders_member h) ps ms'"
    using Cons.prems(1) by (auto simp: list_all2_Cons1)
  obtain k v where m: "m = (k, v)" by (cases m)
  have k: "k = json_clean (fst p)" and v: "renders h v (snd p)" using ms(2) m by (simp_all add: renders_member_def)
  let ?tail = "if ps = [] then CHR ''}'' # rest else CHR '','' # str_join (map json_member ps) '','' @ CHR ''}'' # rest"
  have e: "ends_value ?tail" by (simp add: ends_value_def)
  have t: "str_join (map json_member (p # ps)) '','' @ CHR ''}'' # rest =
      quote # concat (map json_rune (rune_list (bytes (fst p)))) @ quote # CHR '':'' # snd p @ ?tail"
    by (simp add: str_join_Cons json_member_def json_string_def)
  obtain n' where n: "n = Suc n'" using Cons.prems(3) by (cases n) auto
  have len: "length (str_join (map json_member (p # ps)) '','') = length (json_string (fst p)) + 1 + length (snd p)
      + (if ps = [] then 0 else 1 + length (str_join (map json_member ps) '',''))"
    by (simp add: str_join_Cons json_member_def)
  have lv: "2 * length (snd p) < n'" using Cons.prems(3) unfolding len n by (simp add: json_string_def)
  have pv: "parse_value n' d (snd p @ ?tail) = Some (v, ?tail)"
    using v lv e Cons.prems(4) unfolding renders_def by blast
  have pm: "parse_members n' d (str_join (map json_member ps) '','' @ CHR ''}'' # rest) = Some (ms', rest)" if "ps \<noteq> []"
    using Cons.IH [OF ms(3) that _ Cons.prems(4)] Cons.prems(3) that unfolding len n by simp
  show ?case unfolding t n using pv pm ms(3)
    by (cases "ps = []") (simp_all add: lex_json_string is_ws_def ms(1) m k)
qed simp

lemma str_join_nonempty: "ws \<noteq> [] \<Longrightarrow> hd ws \<noteq> [] \<Longrightarrow> str_join ws sep \<noteq> [] \<and> hd (str_join ws sep) = hd (hd ws)"
  by (cases ws) (auto simp: str_join_Cons)

lemma renders_object:
  assumes "list_all2 (renders_member h) (present fs) ms"
  shows "renders (Suc h) (JObj ms) (json_object fs)"
proof -
  let ?ps = "present fs"
  have "parse_value n d (json_object fs @ rest) = Some (JObj ms, rest)"
    if n: "2 * length (json_object fs) < n" and d: "d + Suc h \<le> max_depth" for n d rest
  proof (cases "?ps = []")
    case True
    then have "ms = []" using assms by simp
    then show ?thesis using True n d by (cases n) (simp_all add: json_object_def json_members_def is_ws_def)
  next
    case False
    obtain n' where n': "n = Suc n'" using n by (cases n) auto
    let ?b = "str_join (map json_member ?ps) '',''"
    have b: "json_object fs @ rest = CHR ''{'' # ?b @ CHR ''}'' # rest" by (simp add: json_object_def json_members_def)
    have hd: "?b \<noteq> [] \<and> hd ?b = quote"
      using str_join_nonempty [of "map json_member ?ps" "'',''"] False
      by (cases ?ps) (simp_all add: json_member_def json_string_def)
    then have ws: "skip_ws (?b @ CHR ''}'' # rest) = ?b @ CHR ''}'' # rest" by (intro skip_ws_head) (simp_all add: is_ws_def)
    have "parse_members n' (Suc d) (?b @ CHR ''}'' # rest) = Some (ms, rest)"
      using n d by (intro parse_members_rendered [OF assms False]) (simp_all add: json_object_def json_members_def n')
    then show ?thesis unfolding b n' using d hd ws by (simp add: is_ws_def)
  qed
  then show ?thesis by (auto simp: renders_def json_object_def json_members_def is_ws_def)
qed

lemma json_text_renders: "renders h v t \<Longrightarrow> h \<le> max_depth \<Longrightarrow> json_text t = Some v"
proof -
  assume r: "renders h v t" "h \<le> max_depth"
  have "2 * length t < 2 * length t + 2" "0 + h \<le> max_depth" "ends_value []" using r(2) by (simp_all add: ends_value_def)
  then have "parse_value (2 * length t + 2) 0 (t @ []) = Some (v, [])" using r(1) unfolding renders_def by blast
  then show ?thesis by (simp add: json_text_def)
qed

lemma unmarshal_object:
  assumes "list_all2 (renders_member h) (present fs) ms" and "h < max_depth"
  shows "unmarshal_struct read (json_object fs) = read ms"
  using json_text_renders [OF renders_object [OF assms(1)]] assms(2) by (simp add: unmarshal_struct_def)

lemma parse_elements_rendered:
  assumes "list_all2 (\<lambda>t v. renders h v t) ts vs" and "ts \<noteq> []" and "2 * length (str_join ts '','') + 1 < n" and "d + h \<le> max_depth"
  shows "parse_elements n d (str_join ts '','' @ CHR '']'' # rest) = Some (vs, rest)"
  using assms
proof (induction ts arbitrary: vs n)
  case (Cons t ts)
  obtain v vs' where vs: "vs = v # vs'" "renders h v t" "list_all2 (\<lambda>t v. renders h v t) ts vs'"
    using Cons.prems(1) by (auto simp: list_all2_Cons1)
  let ?tail = "if ts = [] then CHR '']'' # rest else CHR '','' # str_join ts '','' @ CHR '']'' # rest"
  have e: "ends_value ?tail" by (simp add: ends_value_def)
  have t: "str_join (t # ts) '','' @ CHR '']'' # rest = t @ ?tail" by (simp add: str_join_Cons)
  obtain n' where n: "n = Suc n'" using Cons.prems(3) by (cases n) auto
  have len: "length (str_join (t # ts) '','') = length t + (if ts = [] then 0 else 1 + length (str_join ts '',''))"
    by (simp add: str_join_Cons)
  have "2 * length t < n'" using Cons.prems(3) unfolding len n by simp
  then have pv: "parse_value n' d (t @ ?tail) = Some (v, ?tail)"
    using vs(2) e Cons.prems(4) unfolding renders_def by blast
  have pe: "parse_elements n' d (str_join ts '','' @ CHR '']'' # rest) = Some (vs', rest)" if "ts \<noteq> []"
    using Cons.IH [OF vs(3) that _ Cons.prems(4)] Cons.prems(3) that unfolding len n by simp
  show ?case unfolding t n using pv pe vs(1,3) by (cases "ts = []") (simp_all add: is_ws_def)
qed simp

lemma renders_array:
  assumes "list_all2 (\<lambda>t v. renders h v t) ts vs" and "ts \<noteq> []"
  shows "renders (Suc h) (JArr vs) (CHR ''['' # str_join ts '','' @ '']'')"
proof -
  let ?b = "str_join ts '',''"
  have "hd ts \<noteq> [] \<and> \<not> is_ws (hd (hd ts)) \<and> hd (hd ts) \<noteq> CHR '']''"
    using assms by (cases ts) (auto simp: renders_def list_all2_Cons1)
  then have hd: "?b \<noteq> [] \<and> \<not> is_ws (hd ?b) \<and> hd ?b \<noteq> CHR '']''"
    using str_join_nonempty [of ts "'',''"] assms(2) by auto
  have "parse_value n d (CHR ''['' # ?b @ CHR '']'' # rest) = Some (JArr vs, rest)"
    if n: "2 * length (CHR ''['' # ?b @ '']'') < n" and d: "d + Suc h \<le> max_depth" for n d rest
  proof -
    obtain n' where n': "n = Suc n'" using n by (cases n) auto
    have ws: "skip_ws (?b @ CHR '']'' # rest) = ?b @ CHR '']'' # rest" using hd by (intro skip_ws_head) simp_all
    have "parse_elements n' (Suc d) (?b @ CHR '']'' # rest) = Some (vs, rest)"
      using n d by (intro parse_elements_rendered [OF assms]) (simp_all add: n')
    then show ?thesis unfolding n' using d hd ws by (simp add: is_ws_def)
  qed
  then show ?thesis by (auto simp: renders_def is_ws_def)
qed

section \<open>Fields\<close>

text \<open>The fields a structure is written with, as values; a name in lower case matches no other such name.\<close>

definition jpresent :: "(string \<times> json option) list \<Rightarrow> (string \<times> json) list" where
  "jpresent fs = concat (map (\<lambda>(n, v). case v of None \<Rightarrow> [] | Some x \<Rightarrow> [(n, x)]) fs)"

definition plain_name :: "string \<Rightarrow> bool" where
  "plain_name s \<longleftrightarrow> list_all (\<lambda>c. 97 \<le> byte c \<and> byte c \<le> 122 \<or> byte c = 95 \<or> is_digit c) s"

definition renders_fields :: "nat \<Rightarrow> fields \<Rightarrow> (string \<times> json option) list \<Rightarrow> bool" where
  "renders_fields h fs js \<longleftrightarrow> list_all2 (\<lambda>f j. fst f = fst j \<and> plain_name (fst f) \<and> rel_option (\<lambda>t v. renders h v t) (snd f) (snd j)) fs js"

lemma plain_name_runes: "plain_name s \<Longrightarrow> runes s = bytes s"
proof (induction s)
  case (Cons c s)
  then have "byte c < 128" by (auto simp: plain_name_def is_digit_def)
  then have "rune_list (bytes (c # s)) = (byte c, True, 1) # rune_list (bytes s)"
    by (subst rune_list.simps) (simp add: bytes_def)
  then show ?case using Cons by (simp add: runes_def bytes_runes_def plain_name_def bytes_def)
qed (simp add: runes_def bytes_runes_def bytes_def)

lemma plain_name_fold: "plain_name s \<Longrightarrow> fold_key s = bytes s"
  unfolding fold_key_def plain_name_runes by (rule map_idI) (auto simp: plain_name_def list_all_iff bytes_def is_digit_def)

lemma plain_name_clean: "plain_name s \<Longrightarrow> json_clean s = s"
proof -
  assume p: "plain_name s"
  then have "\<forall>b \<in> set (bytes s). b < 128" by (auto simp: plain_name_def list_all_iff bytes_def is_digit_def)
  then have "concat (map encode_rune (bytes s)) = bytes s" by (induction "bytes s" arbitrary: s) (auto simp: encode_rune_def scalar_def bytes_def)
  then show ?thesis by (simp add: json_clean_def plain_name_runes [OF p] encode_runes_def)
qed

lemma matches_plain: "plain_name a \<Longrightarrow> plain_name b \<Longrightarrow> matches_key a b \<longleftrightarrow> a = b"
  by (auto simp: matches_key_def plain_name_fold)

lemma renders_fields_present: "renders_fields h fs js \<Longrightarrow> list_all2 (renders_member h) (present fs) (jpresent js)"
  unfolding renders_fields_def
proof (induction rule: list_all2_induct)
  case (Cons f fs j js)
  then have "list_all2 (renders_member h) (present [f]) (jpresent [j])"
    by (cases f; cases j) (auto simp: present_def jpresent_def renders_member_def plain_name_clean elim!: option.rel_cases)
  moreover have "present (f # fs) = present [f] @ present fs" "jpresent (j # js) = jpresent [j] @ jpresent js"
    by (simp_all add: present_def jpresent_def)
  ultimately show ?case using Cons.IH by (simp add: list_all2_appendI)
qed (simp add: present_def jpresent_def)

lemma renders_fields_object: "renders_fields h fs js \<Longrightarrow> renders (Suc h) (JObj (jpresent js)) (json_object fs)"
  by (rule renders_object [OF renders_fields_present])

lemma unmarshal_fields: "renders_fields h fs js \<Longrightarrow> h < max_depth \<Longrightarrow> unmarshal_struct read (json_object fs) = read (jpresent js)"
  by (rule unmarshal_object [OF renders_fields_present])

definition absent :: "string \<Rightarrow> (string \<times> json option) list \<Rightarrow> bool" where
  "absent name js \<longleftrightarrow> list_all (\<lambda>j. \<not> matches_key name (fst j)) js"

lemma get_absent: "absent name js \<Longrightarrow> get_member as_a name x (jpresent js) = Some x"
  by (induction js) (auto simp: absent_def jpresent_def split: option.splits)

lemma get_here: "absent name js \<Longrightarrow> get_member as_a name x (jpresent ((name, Some v) # js)) = as_a v x"
  using get_absent [of name js as_a] by (auto simp: jpresent_def matches_key_def split: option.splits)

lemma get_here_None: "absent name js \<Longrightarrow> get_member as_a name x (jpresent ((name, None) # js)) = Some x"
  using get_absent [of name js as_a] by (simp add: jpresent_def)

lemma get_skip: "\<not> matches_key name n \<Longrightarrow> get_member as_a name x (jpresent ((n, v) # js)) = get_member as_a name x (jpresent js)"
  by (auto simp: jpresent_def split: option.splits)

end
