(* ===== verification/Wire.thy ===== *)
theory Wire
  imports Runner ClockNano JsonParse
begin

text \<open>
  The payloads of execution frames (\<open>internal/remote/exec.go\<close>, \<open>protocol.go\<close>, and \<open>Response\<close> of
  \<open>internal/runner/response.go\<close>): how they are written as JSON and read back, and the identifiers of
  runs. What is written reads back with every text cleaned to valid UTF-8.
\<close>

section \<open>Identifiers of runs\<close>

definition NewRunID :: "string \<Rightarrow> string" where
  "NewRunID rnd = ''rn_'' @ hex_string rnd"

definition run_id_char :: "nat \<Rightarrow> bool" where
  "run_id_char c \<longleftrightarrow> \<not> ((c < 48 \<or> 57 < c) \<and> (c < 97 \<or> 102 < c))"

definition ValidRunID :: "string \<Rightarrow> bool" where
  "ValidRunID i = (case cut_prefix i ''rn_'' of
     None \<Rightarrow> False
   | Some hexPart \<Rightarrow> length hexPart = 32 \<and> list_all run_id_char (runes hexPart))"

lemma hex_string_length: "length (hex_string s) = 2 * length s"
  by (induction s) (simp_all add: hex_string_def)

lemma hex_string_chars: "list_all (\<lambda>c. run_id_char (byte c) \<and> byte c < 128) (hex_string s)"
proof -
  have n: "run_id_char (byte (nibble k)) \<and> byte (nibble k) < 128" if "k < 16" for k
    using that by (auto simp: nibble_def run_id_char_def)
  show ?thesis
  proof (induction s)
    case (Cons c s)
    have "byte c div 16 < 16" "byte c mod 16 < 16" using byte_less_256 [of c] by (auto simp: less_mult_imp_div_less)
    then show ?case using Cons n by (simp add: hex_string_def)
  qed (simp add: hex_string_def)
qed

text \<open>A new identifier is valid.\<close>

lemma NewRunID_ValidRunID: "length rnd = 16 \<Longrightarrow> ValidRunID (NewRunID rnd)"
proof -
  assume l: "length rnd = 16"
  have "runes (hex_string rnd) = map byte (hex_string rnd)"
    by (rule runes_ascii) (use hex_string_chars [of rnd] in \<open>auto simp: ascii_def list_all_iff\<close>)
  then show ?thesis using l hex_string_chars [of rnd]
    by (simp add: ValidRunID_def NewRunID_def cut_prefix_def hex_string_length bytes_def list_all_iff)
qed

section \<open>Messages\<close>

record ExecRun =
  xn_RunID :: string
  xn_ReqID :: string

record ExecFinal =
  xf_ExitCode :: int
  xf_Truncated :: bool
  xf_TargetKind :: string

record ErrorResponse =
  er_Code :: string
  er_Error :: string

record ExecResult =
  xs_RunID :: string
  xs_ExitCode :: int
  xs_Truncated :: bool
  xs_TargetKind :: string
  xs_Responses :: "Response list"

definition exec_run_json :: "ExecRun \<Rightarrow> string" where
  "exec_run_json r = json_object [field ''run_id'' (json_string (xn_RunID r)), field_opt ''req_id'' (xn_ReqID r)]"

definition exec_final_json :: "ExecFinal \<Rightarrow> string" where
  "exec_final_json f = json_object
     [field ''exit_code'' (int_dec (xf_ExitCode f)), bool_opt ''truncated'' (xf_Truncated f), field_opt ''target_kind'' (xf_TargetKind f)]"

definition error_json :: "ErrorResponse \<Rightarrow> string" where
  "error_json e = json_object [field ''code'' (json_string (er_Code e)), field ''error'' (json_string (er_Error e))]"

definition response_json :: "Response \<Rightarrow> string" where
  "response_json r = json_object
     [field ''execution_state'' (json_string (rsp_ExecutionState r)), field_opt ''next_action'' (rsp_NextAction r),
      field_opt ''grant_scope'' (rsp_GrantScope r), field_opt ''grant_expires_ts'' (rsp_GrantExpiresTS r),
      (''task_permission'', map_option permission_json (rsp_Task r)),
      field ''req_id'' (json_string (rsp_ReqID r)), field ''session_id'' (json_string (rsp_SessionID r)),
      field ''host'' (json_string (rsp_Host r)), field_opt ''cmd'' (rsp_Cmd r), field_opt ''cmd_sha256'' (rsp_CmdSHA256 r),
      bool_opt ''cmd_truncated'' (rsp_CmdTruncated r), field_opt ''stdin_sha256'' (rsp_StdinSHA256 r),
      int_opt ''stdin_bytes'' (rsp_StdinBytes r), field ''status'' (json_string (rsp_Status r)),
      field ''exit_code'' (int_dec (rsp_ExitCode r)), field ''duration_ms'' (int_dec (rsp_DurationMS r)),
      field ''stdout'' (json_string (rsp_Stdout r)), field ''stderr'' (json_string (rsp_Stderr r)),
      field ''output_truncated'' (json_bool (rsp_OutputTruncated r)), field ''redactions'' (int_dec (rsp_Redactions r)),
      field_opt ''policy_action'' (rsp_PolicyAction r), field_opt ''policy_rule'' (rsp_PolicyRule r),
      field_opt ''approval_id'' (rsp_ApprovalID r), field_opt ''approval_matcher'' (rsp_ApprovalMatcher r),
      list_opt ''proposed_scope'' (rsp_ProposedScopes r), field_opt ''approval_reason'' (rsp_ApprovalReason r),
      field_opt ''execution_id'' (rsp_ExecutionID r), field_opt ''step_id'' (rsp_StepID r), field_opt ''review_sha256'' (rsp_ReviewSHA256 r)]"

text \<open>Reading: each field from the member of its name, or its zero value.\<close>

abbreviation gets :: "string \<Rightarrow> (string \<times> json) list \<Rightarrow> string option" where
  "gets n ms \<equiv> get_member as_string n [] ms"
abbreviation geti :: "string \<Rightarrow> (string \<times> json) list \<Rightarrow> int option" where
  "geti n ms \<equiv> get_member as_int n 0 ms"
abbreviation getb :: "string \<Rightarrow> (string \<times> json) list \<Rightarrow> bool option" where
  "getb n ms \<equiv> get_member as_bool n False ms"
abbreviation getl :: "string \<Rightarrow> (string \<times> json) list \<Rightarrow> string list option" where
  "getl n ms \<equiv> get_member as_strings n [] ms"

definition read_exec_run :: "(string \<times> json) list \<Rightarrow> ExecRun option" where
  "read_exec_run ms = Option.bind (gets ''run_id'' ms) (\<lambda>a. Option.bind (gets ''req_id'' ms) (\<lambda>b. Some \<lparr>xn_RunID = a, xn_ReqID = b\<rparr>))"

definition read_exec_final :: "(string \<times> json) list \<Rightarrow> ExecFinal option" where
  "read_exec_final ms = Option.bind (geti ''exit_code'' ms) (\<lambda>a. Option.bind (getb ''truncated'' ms) (\<lambda>b.
     Option.bind (gets ''target_kind'' ms) (\<lambda>c. Some \<lparr>xf_ExitCode = a, xf_Truncated = b, xf_TargetKind = c\<rparr>)))"

definition read_error :: "(string \<times> json) list \<Rightarrow> ErrorResponse option" where
  "read_error ms = Option.bind (gets ''code'' ms) (\<lambda>a. Option.bind (gets ''error'' ms) (\<lambda>b. Some \<lparr>er_Code = a, er_Error = b\<rparr>))"

definition read_permission :: "(string \<times> json) list \<Rightarrow> TaskPermission option" where
  "read_permission ms = Option.bind (geti ''version'' ms) (\<lambda>v. Option.bind (gets ''profile'' ms) (\<lambda>p. Option.bind (gets ''cwd'' ms) (\<lambda>c.
     Option.bind (getl ''launcher'' ms) (\<lambda>l. Option.bind (getl ''resources'' ms) (\<lambda>r. Option.bind (getl ''compose'' ms) (\<lambda>k.
       Some \<lparr>tp_Version = v, tp_Profile = p, tp_CWD = c, tp_Launcher = l, tp_Resources = r, tp_Compose = k\<rparr>))))))"

fun as_permission :: "json \<Rightarrow> TaskPermission option \<Rightarrow> TaskPermission option option" where
  "as_permission JNull _ = Some None"
| "as_permission v _ = Option.bind (struct_members v) (\<lambda>ms. map_option Some (read_permission ms))"

definition read_response :: "(string \<times> json) list \<Rightarrow> Response option" where
  "read_response ms =
     Option.bind (gets ''execution_state'' ms) (\<lambda>f1. Option.bind (gets ''next_action'' ms) (\<lambda>f2. Option.bind (gets ''grant_scope'' ms) (\<lambda>f3.
     Option.bind (gets ''grant_expires_ts'' ms) (\<lambda>f4. Option.bind (get_member as_permission ''task_permission'' None ms) (\<lambda>f5.
     Option.bind (gets ''req_id'' ms) (\<lambda>f6. Option.bind (gets ''session_id'' ms) (\<lambda>f7. Option.bind (gets ''host'' ms) (\<lambda>f8.
     Option.bind (gets ''cmd'' ms) (\<lambda>f9. Option.bind (gets ''cmd_sha256'' ms) (\<lambda>f10. Option.bind (getb ''cmd_truncated'' ms) (\<lambda>f11.
     Option.bind (gets ''stdin_sha256'' ms) (\<lambda>f12. Option.bind (geti ''stdin_bytes'' ms) (\<lambda>f13. Option.bind (gets ''status'' ms) (\<lambda>f14.
     Option.bind (geti ''exit_code'' ms) (\<lambda>f15. Option.bind (geti ''duration_ms'' ms) (\<lambda>f16. Option.bind (gets ''stdout'' ms) (\<lambda>f17.
     Option.bind (gets ''stderr'' ms) (\<lambda>f18. Option.bind (getb ''output_truncated'' ms) (\<lambda>f19. Option.bind (geti ''redactions'' ms) (\<lambda>f20.
     Option.bind (gets ''policy_action'' ms) (\<lambda>f21. Option.bind (gets ''policy_rule'' ms) (\<lambda>f22. Option.bind (gets ''approval_id'' ms) (\<lambda>f23.
     Option.bind (gets ''approval_matcher'' ms) (\<lambda>f24. Option.bind (getl ''proposed_scope'' ms) (\<lambda>f25. Option.bind (gets ''approval_reason'' ms) (\<lambda>f26.
     Option.bind (gets ''execution_id'' ms) (\<lambda>f27. Option.bind (gets ''step_id'' ms) (\<lambda>f28. Option.bind (gets ''review_sha256'' ms) (\<lambda>f29.
       Some \<lparr>rsp_ExecutionState = f1, rsp_NextAction = f2, rsp_GrantScope = f3, rsp_GrantExpiresTS = f4, rsp_Task = f5, rsp_ReqID = f6,
         rsp_SessionID = f7, rsp_Host = f8, rsp_Cmd = f9, rsp_CmdSHA256 = f10, rsp_CmdTruncated = f11, rsp_StdinSHA256 = f12,
         rsp_StdinBytes = f13, rsp_Status = f14, rsp_ExitCode = f15, rsp_DurationMS = f16, rsp_Stdout = f17, rsp_Stderr = f18,
         rsp_OutputTruncated = f19, rsp_Redactions = f20, rsp_PolicyAction = f21, rsp_PolicyRule = f22, rsp_ApprovalID = f23,
         rsp_ApprovalMatcher = f24, rsp_ProposedScopes = f25, rsp_ApprovalReason = f26, rsp_ExecutionID = f27, rsp_StepID = f28,
         rsp_ReviewSHA256 = f29\<rparr>)))))))))))))))))))))))))))))"

definition unmarshal_ExecRun :: "string \<Rightarrow> ExecRun option" where
  "unmarshal_ExecRun = unmarshal_struct read_exec_run"
definition unmarshal_ExecFinal :: "string \<Rightarrow> ExecFinal option" where
  "unmarshal_ExecFinal = unmarshal_struct read_exec_final"
definition unmarshal_ErrorResponse :: "string \<Rightarrow> ErrorResponse option" where
  "unmarshal_ErrorResponse = unmarshal_struct read_error"
definition unmarshal_Response :: "string \<Rightarrow> Response option" where
  "unmarshal_Response = unmarshal_struct read_response"

section \<open>Reading back\<close>

definition int64 :: "int \<Rightarrow> bool" where
  "int64 i \<longleftrightarrow> - (2 ^ 63) \<le> i \<and> i < 2 ^ 63"

text \<open>The value each way of writing a field stands for.\<close>

definition jstr :: "string \<Rightarrow> json option" where "jstr s = Some (JStr (json_clean s))"
definition jstr_opt :: "string \<Rightarrow> json option" where "jstr_opt s = (if s = [] then None else Some (JStr (json_clean s)))"
definition jint :: "int \<Rightarrow> json option" where "jint i = Some (JNum (int_dec i))"
definition jint_opt :: "int \<Rightarrow> json option" where "jint_opt i = (if i = 0 then None else Some (JNum (int_dec i)))"
definition jbool :: "bool \<Rightarrow> json option" where "jbool b = Some (JBool b)"
definition jbool_opt :: "bool \<Rightarrow> json option" where "jbool_opt b = (if b then Some (JBool b) else None)"
definition jlist_opt :: "string list \<Rightarrow> json option" where
  "jlist_opt xs = (if xs = [] then None else Some (JArr (map (\<lambda>s. JStr (json_clean s)) xs)))"

lemmas jfield_defs = jstr_def jstr_opt_def jint_def jint_opt_def jbool_def jbool_opt_def jlist_opt_def

text \<open>One rule per way of writing a field.\<close>

lemma renders_fields_Nil: "renders_fields h [] []"
  by (simp add: renders_fields_def)

lemma renders_fields_string: "plain_name n \<Longrightarrow> renders_fields h fs js \<Longrightarrow>
   renders_fields h (field n (json_string s) # fs) ((n, jstr s) # js)"
  using renders_mono [OF renders_string] by (simp add: renders_fields_def jfield_defs field_def)

lemma renders_fields_opt: "plain_name n \<Longrightarrow> renders_fields h fs js \<Longrightarrow>
   renders_fields h (field_opt n s # fs) ((n, jstr_opt s) # js)"
  using renders_mono [OF renders_string] by (simp add: renders_fields_def jfield_defs field_opt_def)

lemma renders_fields_int: "plain_name n \<Longrightarrow> renders_fields h fs js \<Longrightarrow>
   renders_fields h (field n (int_dec i) # fs) ((n, jint i) # js)"
  using renders_mono [OF renders_int] by (simp add: renders_fields_def jfield_defs field_def)

lemma renders_fields_int_opt: "plain_name n \<Longrightarrow> renders_fields h fs js \<Longrightarrow>
   renders_fields h (int_opt n i # fs) ((n, jint_opt i) # js)"
  using renders_mono [OF renders_int] by (simp add: renders_fields_def jfield_defs int_opt_def)

lemma renders_fields_bool: "plain_name n \<Longrightarrow> renders_fields h fs js \<Longrightarrow>
   renders_fields h (field n (json_bool b) # fs) ((n, jbool b) # js)"
  using renders_mono [OF renders_bool] by (simp add: renders_fields_def jfield_defs field_def)

lemma renders_fields_bool_opt: "plain_name n \<Longrightarrow> renders_fields h fs js \<Longrightarrow>
   renders_fields h (bool_opt n b # fs) ((n, jbool_opt b) # js)"
  using renders_mono [OF renders_bool] by (simp add: renders_fields_def jfield_defs bool_opt_def)

lemma renders_list: "xs \<noteq> [] \<Longrightarrow> 0 < h \<Longrightarrow> renders h (JArr (map (\<lambda>s. JStr (json_clean s)) xs)) (json_list (map json_string xs))"
proof -
  assume x: "xs \<noteq> []" "0 < h"
  have "list_all2 (\<lambda>t v. renders 0 v t) (map json_string xs) (map (\<lambda>s. JStr (json_clean s)) xs)"
    by (simp add: list_all2_conv_all_nth renders_string)
  from renders_array [OF this] show ?thesis using x by (auto simp: json_list_def intro: renders_mono)
qed

lemma renders_fields_list: "plain_name n \<Longrightarrow> renders_fields h fs js \<Longrightarrow> 0 < h \<Longrightarrow>
   renders_fields h (list_opt n xs # fs) ((n, jlist_opt xs) # js)"
  using renders_list [of xs h] by (simp add: renders_fields_def jfield_defs list_opt_def)

lemma renders_fields_nested: "plain_name n \<Longrightarrow> renders_fields h fs js \<Longrightarrow> rel_option (\<lambda>t v. renders h v t) x v \<Longrightarrow>
   renders_fields h ((n, x) # fs) ((n, v) # js)"
  by (simp add: renders_fields_def)

lemmas renders_rules = renders_fields_Nil renders_fields_string renders_fields_opt renders_fields_int renders_fields_int_opt
  renders_fields_bool renders_fields_bool_opt renders_fields_list renders_fields_nested

text \<open>And per way of reading one.\<close>

lemma json_clean_Nil [simp]: "json_clean [] = []"
  by (simp add: json_clean_def runes_def bytes_runes_def bytes_def encode_runes_def unbytes_def)

lemma gets_str: "absent n js \<Longrightarrow> gets n (jpresent ((n, jstr s) # js)) = Some (json_clean s)"
  by (simp add: get_here jfield_defs)

lemma gets_opt: "absent n js \<Longrightarrow> gets n (jpresent ((n, jstr_opt s) # js)) = Some (json_clean s)"
  by (simp add: get_here get_here_None jfield_defs)

lemma geti_int: "absent n js \<Longrightarrow> int64 i \<Longrightarrow> geti n (jpresent ((n, jint i) # js)) = Some i"
  by (simp add: get_here int_text_dec jfield_defs int64_def)

lemma geti_opt: "absent n js \<Longrightarrow> int64 i \<Longrightarrow> geti n (jpresent ((n, jint_opt i) # js)) = Some i"
  by (simp add: get_here get_here_None int_text_dec jfield_defs int64_def)

lemma getb_bool: "absent n js \<Longrightarrow> getb n (jpresent ((n, jbool b) # js)) = Some b"
  by (simp add: get_here jfield_defs)

lemma getb_opt: "absent n js \<Longrightarrow> getb n (jpresent ((n, jbool_opt b) # js)) = Some b"
  by (simp add: get_here get_here_None jfield_defs)

lemma those_map_Some: "those (map (\<lambda>x. Some (f x)) xs) = Some (map f xs)"
  by (induction xs) auto

lemma getl_opt: "absent n js \<Longrightarrow> getl n (jpresent ((n, jlist_opt xs) # js)) = Some (map json_clean xs)"
  by (simp add: get_here get_here_None comp_def those_map_Some jfield_defs)

lemma plain_names:
    "plain_name ''run_id''" "plain_name ''req_id''" "plain_name ''exit_code''" "plain_name ''truncated''" "plain_name ''target_kind''"
    "plain_name ''code''" "plain_name ''error''" "plain_name ''version''" "plain_name ''profile''" "plain_name ''cwd''" "plain_name ''launcher''" "plain_name ''resources''" "plain_name ''compose''" "plain_name ''execution_state''" "plain_name ''next_action''"
    "plain_name ''grant_scope''" "plain_name ''grant_expires_ts''" "plain_name ''task_permission''" "plain_name ''session_id''"
    "plain_name ''host''" "plain_name ''cmd''" "plain_name ''cmd_sha256''" "plain_name ''cmd_truncated''" "plain_name ''stdin_sha256''" "plain_name ''stdin_bytes''" "plain_name ''status''" "plain_name ''duration_ms''" "plain_name ''stdout''"
    "plain_name ''stderr''" "plain_name ''output_truncated''" "plain_name ''redactions''" "plain_name ''policy_action''" "plain_name ''policy_rule''" "plain_name ''approval_id''" "plain_name ''approval_matcher''" "plain_name ''proposed_scope''" "plain_name ''approval_reason''" "plain_name ''execution_id''" "plain_name ''step_id''" "plain_name ''review_sha256''"
  by (simp_all add: plain_name_def is_digit_def)

lemmas read_rules = gets_str gets_opt geti_int geti_opt getb_bool getb_opt getl_opt get_skip absent_def matches_plain plain_names

lemma exec_run_roundtrip: "unmarshal_ExecRun (exec_run_json r) = Some \<lparr>xn_RunID = json_clean (xn_RunID r), xn_ReqID = json_clean (xn_ReqID r)\<rparr>"
proof -
  have "renders_fields 0 [field ''run_id'' (json_string (xn_RunID r)), field_opt ''req_id'' (xn_ReqID r)]
     [(''run_id'', jstr (xn_RunID r)), (''req_id'', jstr_opt (xn_ReqID r))]"
    by (intro renders_rules plain_names)
  from unmarshal_fields [OF this, of read_exec_run] show ?thesis
    by (simp add: max_depth_def unmarshal_ExecRun_def exec_run_json_def read_exec_run_def read_rules)
qed

lemma exec_final_roundtrip:
  assumes "int64 (xf_ExitCode f)"
  shows "unmarshal_ExecFinal (exec_final_json f) = Some (f\<lparr>xf_TargetKind := json_clean (xf_TargetKind f)\<rparr>)"
proof -
  have "renders_fields 0 [field ''exit_code'' (int_dec (xf_ExitCode f)), bool_opt ''truncated'' (xf_Truncated f), field_opt ''target_kind'' (xf_TargetKind f)]
     [(''exit_code'', jint (xf_ExitCode f)), (''truncated'', jbool_opt (xf_Truncated f)), (''target_kind'', jstr_opt (xf_TargetKind f))]"
    by (intro renders_rules plain_names)
  from unmarshal_fields [OF this, of read_exec_final] show ?thesis using assms
    by (simp add: max_depth_def unmarshal_ExecFinal_def exec_final_json_def read_exec_final_def read_rules)
qed

lemma error_roundtrip: "unmarshal_ErrorResponse (error_json e) = Some \<lparr>er_Code = json_clean (er_Code e), er_Error = json_clean (er_Error e)\<rparr>"
proof -
  have "renders_fields 0 [field ''code'' (json_string (er_Code e)), field ''error'' (json_string (er_Error e))]
     [(''code'', jstr (er_Code e)), (''error'', jstr (er_Error e))]"
    by (intro renders_rules plain_names)
  from unmarshal_fields [OF this, of read_error] show ?thesis
    by (simp add: max_depth_def unmarshal_ErrorResponse_def error_json_def read_error_def read_rules)
qed

definition clean_permission :: "TaskPermission \<Rightarrow> TaskPermission" where
  "clean_permission p = p\<lparr>tp_Profile := json_clean (tp_Profile p), tp_CWD := json_clean (tp_CWD p), tp_Launcher := map json_clean (tp_Launcher p),
     tp_Resources := map json_clean (tp_Resources p), tp_Compose := map json_clean (tp_Compose p)\<rparr>"

definition jpermission :: "TaskPermission \<Rightarrow> (string \<times> json option) list" where
  "jpermission p = [(''version'', jint (tp_Version p)), (''profile'', jstr (tp_Profile p)), (''cwd'', jstr_opt (tp_CWD p)),
     (''launcher'', jlist_opt (tp_Launcher p)), (''resources'', jlist_opt (tp_Resources p)), (''compose'', jlist_opt (tp_Compose p))]"

lemma renders_permission: "renders 2 (JObj (jpresent (jpermission p))) (permission_json p)"
proof -
  have "renders_fields (Suc 0) [field ''version'' (int_dec (tp_Version p)), field ''profile'' (json_string (tp_Profile p)), field_opt ''cwd'' (tp_CWD p),
      list_opt ''launcher'' (tp_Launcher p), list_opt ''resources'' (tp_Resources p), list_opt ''compose'' (tp_Compose p)] (jpermission p)"
    unfolding jpermission_def by (intro renders_rules plain_names zero_less_Suc)
  from renders_fields_object [OF this] show ?thesis by (simp add: permission_json_def numeral_2_eq_2)
qed

lemma read_permission: "int64 (tp_Version p) \<Longrightarrow> read_permission (jpresent (jpermission p)) = Some (clean_permission p)"
  by (simp add: read_permission_def jpermission_def read_rules clean_permission_def)

definition clean_response :: "Response \<Rightarrow> Response" where
  "clean_response r = r\<lparr>rsp_ExecutionState := json_clean (rsp_ExecutionState r), rsp_NextAction := json_clean (rsp_NextAction r),
     rsp_GrantScope := json_clean (rsp_GrantScope r), rsp_GrantExpiresTS := json_clean (rsp_GrantExpiresTS r),
     rsp_Task := map_option clean_permission (rsp_Task r), rsp_ReqID := json_clean (rsp_ReqID r),
     rsp_SessionID := json_clean (rsp_SessionID r), rsp_Host := json_clean (rsp_Host r), rsp_Cmd := json_clean (rsp_Cmd r),
     rsp_CmdSHA256 := json_clean (rsp_CmdSHA256 r), rsp_StdinSHA256 := json_clean (rsp_StdinSHA256 r),
     rsp_Status := json_clean (rsp_Status r), rsp_Stdout := json_clean (rsp_Stdout r), rsp_Stderr := json_clean (rsp_Stderr r),
     rsp_PolicyAction := json_clean (rsp_PolicyAction r), rsp_PolicyRule := json_clean (rsp_PolicyRule r),
     rsp_ApprovalID := json_clean (rsp_ApprovalID r), rsp_ApprovalMatcher := json_clean (rsp_ApprovalMatcher r),
     rsp_ProposedScopes := map json_clean (rsp_ProposedScopes r), rsp_ApprovalReason := json_clean (rsp_ApprovalReason r),
     rsp_ExecutionID := json_clean (rsp_ExecutionID r), rsp_StepID := json_clean (rsp_StepID r),
     rsp_ReviewSHA256 := json_clean (rsp_ReviewSHA256 r)\<rparr>"

definition jresponse :: "Response \<Rightarrow> (string \<times> json option) list" where
  "jresponse r = [(''execution_state'', jstr (rsp_ExecutionState r)), (''next_action'', jstr_opt (rsp_NextAction r)),
     (''grant_scope'', jstr_opt (rsp_GrantScope r)), (''grant_expires_ts'', jstr_opt (rsp_GrantExpiresTS r)),
     (''task_permission'', map_option (\<lambda>p. JObj (jpresent (jpermission p))) (rsp_Task r)),
     (''req_id'', jstr (rsp_ReqID r)), (''session_id'', jstr (rsp_SessionID r)), (''host'', jstr (rsp_Host r)),
     (''cmd'', jstr_opt (rsp_Cmd r)), (''cmd_sha256'', jstr_opt (rsp_CmdSHA256 r)),
     (''cmd_truncated'', jbool_opt (rsp_CmdTruncated r)), (''stdin_sha256'', jstr_opt (rsp_StdinSHA256 r)),
     (''stdin_bytes'', jint_opt (rsp_StdinBytes r)), (''status'', jstr (rsp_Status r)), (''exit_code'', jint (rsp_ExitCode r)),
     (''duration_ms'', jint (rsp_DurationMS r)), (''stdout'', jstr (rsp_Stdout r)), (''stderr'', jstr (rsp_Stderr r)),
     (''output_truncated'', jbool (rsp_OutputTruncated r)), (''redactions'', jint (rsp_Redactions r)),
     (''policy_action'', jstr_opt (rsp_PolicyAction r)), (''policy_rule'', jstr_opt (rsp_PolicyRule r)),
     (''approval_id'', jstr_opt (rsp_ApprovalID r)), (''approval_matcher'', jstr_opt (rsp_ApprovalMatcher r)),
     (''proposed_scope'', jlist_opt (rsp_ProposedScopes r)), (''approval_reason'', jstr_opt (rsp_ApprovalReason r)),
     (''execution_id'', jstr_opt (rsp_ExecutionID r)), (''step_id'', jstr_opt (rsp_StepID r)),
     (''review_sha256'', jstr_opt (rsp_ReviewSHA256 r))]"

text \<open>The numbers of a response are 64-bit integers.\<close>

definition response_ints :: "Response \<Rightarrow> bool" where
  "response_ints r \<longleftrightarrow> int64 (rsp_StdinBytes r) \<and> int64 (rsp_ExitCode r) \<and> int64 (rsp_DurationMS r) \<and> int64 (rsp_Redactions r) \<and>
     (case rsp_Task r of None \<Rightarrow> True | Some p \<Rightarrow> int64 (tp_Version p))"

lemma renders_response: "renders 3 (JObj (jpresent (jresponse r))) (response_json r)"
proof -
  have t: "rel_option (\<lambda>t v. renders 2 v t) (map_option permission_json (rsp_Task r)) (map_option (\<lambda>p. JObj (jpresent (jpermission p))) (rsp_Task r))"
    using renders_permission by (cases "rsp_Task r") simp_all
  have "renders_fields 2
     [field ''execution_state'' (json_string (rsp_ExecutionState r)), field_opt ''next_action'' (rsp_NextAction r),
      field_opt ''grant_scope'' (rsp_GrantScope r), field_opt ''grant_expires_ts'' (rsp_GrantExpiresTS r),
      (''task_permission'', map_option permission_json (rsp_Task r)),
      field ''req_id'' (json_string (rsp_ReqID r)), field ''session_id'' (json_string (rsp_SessionID r)),
      field ''host'' (json_string (rsp_Host r)), field_opt ''cmd'' (rsp_Cmd r), field_opt ''cmd_sha256'' (rsp_CmdSHA256 r),
      bool_opt ''cmd_truncated'' (rsp_CmdTruncated r), field_opt ''stdin_sha256'' (rsp_StdinSHA256 r),
      int_opt ''stdin_bytes'' (rsp_StdinBytes r), field ''status'' (json_string (rsp_Status r)),
      field ''exit_code'' (int_dec (rsp_ExitCode r)), field ''duration_ms'' (int_dec (rsp_DurationMS r)),
      field ''stdout'' (json_string (rsp_Stdout r)), field ''stderr'' (json_string (rsp_Stderr r)),
      field ''output_truncated'' (json_bool (rsp_OutputTruncated r)), field ''redactions'' (int_dec (rsp_Redactions r)),
      field_opt ''policy_action'' (rsp_PolicyAction r), field_opt ''policy_rule'' (rsp_PolicyRule r),
      field_opt ''approval_id'' (rsp_ApprovalID r), field_opt ''approval_matcher'' (rsp_ApprovalMatcher r),
      list_opt ''proposed_scope'' (rsp_ProposedScopes r), field_opt ''approval_reason'' (rsp_ApprovalReason r),
      field_opt ''execution_id'' (rsp_ExecutionID r), field_opt ''step_id'' (rsp_StepID r), field_opt ''review_sha256'' (rsp_ReviewSHA256 r)] (jresponse r)"
    unfolding jresponse_def by (intro renders_rules plain_names t) simp_all
  from renders_fields_object [OF this] show ?thesis by (simp add: response_json_def numeral_3_eq_3 numeral_2_eq_2)
qed

lemma get_task: "absent n js \<Longrightarrow> case t of None \<Rightarrow> True | Some p \<Rightarrow> int64 (tp_Version p) \<Longrightarrow>
   get_member as_permission n None (jpresent ((n, map_option (\<lambda>p. JObj (jpresent (jpermission p))) t) # js)) = Some (map_option clean_permission t)"
  by (cases t) (simp_all add: get_here get_here_None read_permission)

lemma read_response:
  assumes "response_ints r"
  shows "read_response (jpresent (jresponse r)) = Some (clean_response r)"
  using assms by (simp add: read_response_def jresponse_def response_ints_def read_rules get_task clean_response_def)

lemma response_roundtrip:
  assumes "response_ints r"
  shows "unmarshal_Response (response_json r) = Some (clean_response r)"
  using json_text_renders [OF renders_response [of r]] read_response [OF assms]
  by (simp add: unmarshal_Response_def unmarshal_struct_def max_depth_def)

end
