(* ===== verification/Frames.thy ===== *)
theory Frames
  imports Wire "HOL-Library.Word"
begin

text \<open>
  The frames of \<open>internal/remote/exec.go\<close>: a type byte, the length of the payload as four big-endian
  bytes, the payload. \<open>WriteFrame\<close> splits output into frames of bounded size, \<open>ReadFrame\<close> enforces the
  bound of each type. A byte stream is what still arrives of it and how it ends; a writer is what it
  took so far and what it may still take.
\<close>

unbundle bit_operations_syntax

section \<open>Types\<close>

definition FrameStdout :: char where "FrameStdout = CHR 0x01"
definition FrameStderr :: char where "FrameStderr = CHR 0x02"
definition FrameResult :: char where "FrameResult = CHR 0x03"
definition FrameError :: char where "FrameError = CHR 0x04"
definition FrameResponse :: char where "FrameResponse = CHR 0x05"
definition FrameRun :: char where "FrameRun = CHR 0x06"

lemmas frame_kinds = FrameStdout_def FrameStderr_def FrameResult_def FrameError_def FrameResponse_def FrameRun_def

definition frameHeaderBytes :: nat where "frameHeaderBytes = 5"
definition MaxDataFrameBytes :: nat where "MaxDataFrameBytes = 65536"
definition MaxMessageFrameBytes :: nat where "MaxMessageFrameBytes = 16777216"

datatype frame_error =
    EOF
  | UnexpectedEOF
  | Transport string
  | ErrFrameTooLarge
  | ErrUnknownFrame char

definition data_frame :: "char \<Rightarrow> bool" where
  "data_frame kind \<longleftrightarrow> kind = FrameStdout \<or> kind = FrameStderr"

definition message_frame :: "char \<Rightarrow> bool" where
  "message_frame kind \<longleftrightarrow> kind = FrameResult \<or> kind = FrameError \<or> kind = FrameResponse \<or> kind = FrameRun"

section \<open>Writing\<close>

text \<open>\<open>binary.BigEndian\<close>.\<close>

definition PutUint32 :: "32 word \<Rightarrow> string" where
  "PutUint32 v = map (\<lambda>k. char_of (unat (drop_bit k v))) [24, 16, 8, 0]"

definition Uint32 :: "string \<Rightarrow> 32 word" where
  "Uint32 b = word_of_nat (byte (b ! 3)) OR push_bit 8 (word_of_nat (byte (b ! 2))) OR
     push_bit 16 (word_of_nat (byte (b ! 1))) OR push_bit 24 (word_of_nat (byte (b ! 0)))"

text \<open>A writer that fails takes what still fits.\<close>

record writer =
  wr_Out :: string
  wr_Room :: "nat option"

definition write_bytes :: "string \<Rightarrow> writer \<Rightarrow> writer \<times> bool" where
  "write_bytes p w = (case wr_Room w of
     None \<Rightarrow> (w\<lparr>wr_Out := wr_Out w @ p\<rparr>, True)
   | Some n \<Rightarrow> (w\<lparr>wr_Out := wr_Out w @ take n p, wr_Room := Some (n - length p)\<rparr>, length p \<le> n))"

definition frame_header :: "char \<Rightarrow> string \<Rightarrow> string" where
  "frame_header kind payload = kind # PutUint32 (word_of_nat (length payload))"

definition writeFrame :: "char \<Rightarrow> string \<Rightarrow> writer \<Rightarrow> writer \<times> frame_error option" where
  "writeFrame kind payload w =
     (let (w1, ok) = write_bytes (frame_header kind payload) w in
      if \<not> ok then (w1, Some (Transport ''write''))
      else let (w2, ok) = write_bytes payload w1 in (w2, if ok then None else Some (Transport ''write'')))"

text \<open>Output above the limit goes out in frames of the limit; the rest is left for the last frame.\<close>

function writeSplit :: "char \<Rightarrow> string \<Rightarrow> writer \<Rightarrow> writer \<times> (frame_error + string)" where
  "writeSplit kind payload w =
     (if MaxDataFrameBytes < length payload then
        (let (w1, e) = writeFrame kind (take MaxDataFrameBytes payload) w in
         case e of
           Some x \<Rightarrow> (w1, Inl x)
         | None \<Rightarrow> writeSplit kind (drop MaxDataFrameBytes payload) w1)
      else (w, Inr payload))"
  by pat_completeness auto
termination
  by (relation "measure (\<lambda>(kind, payload, w). length payload)") (auto simp: MaxDataFrameBytes_def)

declare writeSplit.simps [simp del]

definition WriteFrame :: "char \<Rightarrow> string \<Rightarrow> writer \<Rightarrow> writer \<times> frame_error option" where
  "WriteFrame kind payload w =
     (if data_frame kind then
        (case writeSplit kind payload w of
           (w1, Inl e) \<Rightarrow> (w1, Some e)
         | (w1, Inr rest) \<Rightarrow> if MaxDataFrameBytes < length rest then (w1, Some ErrFrameTooLarge) else writeFrame kind rest w1)
      else if \<not> message_frame kind then (w, Some (ErrUnknownFrame kind))
      else if MaxMessageFrameBytes < length payload then (w, Some ErrFrameTooLarge)
      else writeFrame kind payload w)"

definition FrameSize :: "nat \<Rightarrow> nat" where
  "FrameSize payload = frameHeaderBytes + payload"

section \<open>Reading\<close>

text \<open>A stream ends cleanly, or with an error of the transport after its last byte.\<close>

record reader =
  rd_Data :: string
  rd_End :: "string option"

definition ReadFull :: "nat \<Rightarrow> reader \<Rightarrow> (frame_error + string) \<times> reader" where
  "ReadFull n r = (let d = rd_Data r; r' = r\<lparr>rd_Data := drop n d\<rparr> in
     if n \<le> length d then (Inr (take n d), r')
     else (Inl (case rd_End r of Some e \<Rightarrow> Transport e | None \<Rightarrow> if d = [] then EOF else UnexpectedEOF), r'))"

text \<open>\<open>io.ReadAll\<close> over \<open>io.LimitReader\<close>: the end of the stream is no error.\<close>

definition ReadLimited :: "nat \<Rightarrow> reader \<Rightarrow> (frame_error + string) \<times> reader" where
  "ReadLimited n r = (let d = rd_Data r; r' = r\<lparr>rd_Data := drop n d\<rparr> in
     if length d < n then (case rd_End r of Some e \<Rightarrow> (Inl (Transport e), r') | None \<Rightarrow> (Inr d, r'))
     else (Inr (take n d), r'))"

definition ReadFrame :: "reader \<Rightarrow> (frame_error + char \<times> string) \<times> reader" where
  "ReadFrame r =
     (case ReadFull frameHeaderBytes r of
        (Inl e, r1) \<Rightarrow> (Inl e, r1)
      | (Inr header, r1) \<Rightarrow>
          (let kind = hd header; size = unat (Uint32 (tl header)) in
           if data_frame kind \<and> MaxDataFrameBytes < size then (Inl ErrFrameTooLarge, r1)
           else if message_frame kind \<and> MaxMessageFrameBytes < size then (Inl ErrFrameTooLarge, r1)
           else if \<not> data_frame kind \<and> \<not> message_frame kind then (Inl (ErrUnknownFrame kind), r1)
           else (case ReadLimited size r1 of
              (Inl e, r2) \<Rightarrow> (Inl e, r2)
            | (Inr payload, r2) \<Rightarrow> if length payload \<noteq> size then (Inl UnexpectedEOF, r2) else (Inr (kind, payload), r2))))"

section \<open>Frames\<close>

type_synonym frame = "char \<times> string"

definition frame_limit :: "char \<Rightarrow> nat" where
  "frame_limit kind = (if data_frame kind then MaxDataFrameBytes else MaxMessageFrameBytes)"

definition frame_ok :: "frame \<Rightarrow> bool" where
  "frame_ok f \<longleftrightarrow> (data_frame (fst f) \<or> message_frame (fst f)) \<and> length (snd f) \<le> frame_limit (fst f)"

definition frame_bytes :: "frame \<Rightarrow> string" where
  "frame_bytes f = frame_header (fst f) (snd f) @ snd f"

definition spool_bytes :: "frame list \<Rightarrow> string" where
  "spool_bytes fs = concat (map frame_bytes fs)"

lemma Uint32_PutUint32: "Uint32 (PutUint32 v) = v"
proof -
  have w: "(word_of_nat (unat w mod 256) :: 32 word) = take_bit 8 w" for w :: "32 word"
    using take_bit_of_nat [of 8 "unat w", where 'a = "32 word"] by (simp add: take_bit_eq_mod)
  have "Uint32 (PutUint32 v) = take_bit 8 v OR push_bit 8 (take_bit 8 (drop_bit 8 v)) OR
      push_bit 16 (take_bit 8 (drop_bit 16 v)) OR push_bit 24 (take_bit 8 (drop_bit 24 v))"
    unfolding w [symmetric] by (simp add: Uint32_def PutUint32_def)
  also have "\<dots> = v"
  proof (rule bit_eqI)
    fix n
    assume "possible_bit TYPE(32 word) n"
    then consider "n < 8" | "8 \<le> n" "n < 16" | "16 \<le> n" "n < 24" | "24 \<le> n" "n < 32" by fastforce
    then show "bit (take_bit 8 v OR push_bit 8 (take_bit 8 (drop_bit 8 v)) OR push_bit 16 (take_bit 8 (drop_bit 16 v)) OR
        push_bit 24 (take_bit 8 (drop_bit 24 v))) n = bit v n"
      by cases (auto simp: bit_simps)
  qed
  finally show ?thesis .
qed

lemma kinds_disjoint: "\<not> (data_frame k \<and> message_frame k)"
  by (auto simp: data_frame_def message_frame_def frame_kinds)

lemma header_length [simp]: "length (frame_header k p) = 5"
  by (simp add: frame_header_def PutUint32_def)

lemma frame_bytes_length [simp]: "length (frame_bytes f) = FrameSize (length (snd f))"
  by (simp add: frame_bytes_def FrameSize_def frameHeaderBytes_def)

lemma frame_limits: "frame_limit k < 2 ^ 32"
  by (simp add: frame_limit_def MaxDataFrameBytes_def MaxMessageFrameBytes_def)

lemma ReadFull_append: "length a = n \<Longrightarrow> ReadFull n \<lparr>rd_Data = a @ b, rd_End = e\<rparr> = (Inr a, \<lparr>rd_Data = b, rd_End = e\<rparr>)"
  by (simp add: ReadFull_def)

text \<open>A whole frame is read, whatever follows it.\<close>

lemma ReadFrame_frame:
  assumes "frame_ok f"
  shows "ReadFrame \<lparr>rd_Data = frame_bytes f @ rest, rd_End = e\<rparr> = (Inr f, \<lparr>rd_Data = rest, rd_End = e\<rparr>)"
proof -
  obtain k p where f: "f = (k, p)" by (cases f)
  have k: "data_frame k \<or> message_frame k" and l: "length p \<le> frame_limit k" using assms by (simp_all add: f frame_ok_def)
  have "unat (word_of_nat (length p) :: 32 word) = length p"
    using l frame_limits [of k] by (simp add: unat_of_nat)
  then have s: "unat (Uint32 (tl (frame_header k p))) = length p" "hd (frame_header k p) = k"
    by (simp_all add: frame_header_def Uint32_PutUint32)
  have d: "frame_bytes (k, p) @ rest = frame_header k p @ p @ rest" by (simp add: frame_bytes_def)
  note r = ReadFull_append [OF header_length, of k p "p @ rest" e]
  have "\<not> (data_frame k \<and> MaxDataFrameBytes < length p)" "\<not> (message_frame k \<and> MaxMessageFrameBytes < length p)"
    using l kinds_disjoint [of k] by (auto simp: frame_limit_def)
  then show ?thesis using k unfolding ReadFrame_def frameHeaderBytes_def f d r
    by (simp add: s Let_def ReadLimited_def)
qed

text \<open>A frame that arrives in part is no frame, and no violation of the protocol either.\<close>

definition cut_error :: "frame_error \<Rightarrow> bool" where
  "cut_error e \<longleftrightarrow> e = EOF \<or> e = UnexpectedEOF \<or> (\<exists>x. e = Transport x)"

lemma ReadFull_short: "length d < n \<Longrightarrow> \<exists>x. ReadFull n \<lparr>rd_Data = d, rd_End = e\<rparr> = (Inl x, \<lparr>rd_Data = [], rd_End = e\<rparr>) \<and> cut_error x"
  by (cases e) (auto simp: ReadFull_def Let_def cut_error_def)

lemma ReadFrame_cut:
  assumes "frame_ok f" and "n < length (frame_bytes f)"
  shows "\<exists>x r. ReadFrame \<lparr>rd_Data = take n (frame_bytes f), rd_End = e\<rparr> = (Inl x, r) \<and> cut_error x"
proof -
  obtain k p where f: "f = (k, p)" by (cases f)
  have k: "data_frame k \<or> message_frame k" and l: "length p \<le> frame_limit k" using assms by (simp_all add: f frame_ok_def)
  show ?thesis
  proof (cases "n < 5")
    case True
    then have "length (take n (frame_bytes f)) < 5" by simp
    from ReadFull_short [OF this, of e] show ?thesis unfolding ReadFrame_def frameHeaderBytes_def by auto
  next
    case False
    have "unat (word_of_nat (length p) :: 32 word) = length p"
      using l frame_limits [of k] by (simp add: unat_of_nat)
    then have s: "unat (Uint32 (tl (frame_header k p))) = length p" "hd (frame_header k p) = k"
      by (simp_all add: frame_header_def Uint32_PutUint32)
    let ?d = "take (n - 5) p"
    have d: "take n (frame_bytes (k, p)) = frame_header k p @ ?d" using False by (simp add: frame_bytes_def)
    note r = ReadFull_append [OF header_length, of k p ?d e]
    have short: "length ?d < length p" using assms(2) False by (simp add: f FrameSize_def frameHeaderBytes_def)
    have "\<not> (data_frame k \<and> MaxDataFrameBytes < length p)" "\<not> (message_frame k \<and> MaxMessageFrameBytes < length p)"
      using l kinds_disjoint [of k] by (auto simp: frame_limit_def)
    then show ?thesis using k short unfolding ReadFrame_def frameHeaderBytes_def f d r
      by (auto simp add: s Let_def ReadLimited_def cut_error_def split: option.split)
  qed
qed

lemma ReadFrame_end: "\<exists>x. ReadFrame \<lparr>rd_Data = [], rd_End = e\<rparr> = (Inl x, \<lparr>rd_Data = [], rd_End = e\<rparr>) \<and> cut_error x"
  by (auto simp: ReadFrame_def ReadFull_def frameHeaderBytes_def cut_error_def split: option.splits)

end
