(* ===== verification/ExecStream.thy ===== *)
theory ExecStream
  imports Frames
begin

text \<open>
  The client's side of a run: \<open>ExecStream.Read\<close> of \<open>internal/remote/exec.go\<close>, and \<open>Exec\<close>,
  \<open>Attach\<close>, \<open>follow\<close> and \<open>openStream\<close> of \<open>internal/remoteclient/client.go\<close>, which start a run, read
  it, and reattach from the offset of the frames already consumed when a connection breaks. The network
  is an argument: for each attempt, what it answers to the request made then.
\<close>

section \<open>Reading a stream\<close>

record ExecStream =
  st_RunID :: string
  st_ReqID :: string
  st_Started :: bool
  st_Offset :: nat
  st_Responses :: "Response list"

text \<open>Where the output goes, and the run frames the caller was told of.\<close>

record sink =
  sk_Stdout :: writer
  sk_Stderr :: writer
  sk_Runs :: "ExecRun list"

datatype stream_error =
    ErrNoResult "string option"
  | FrameViolation frame_error
  | Violation string
  | MalformedPayload string
  | WriteFailed
  | APIError int string string

definition cut_off :: "frame_error \<Rightarrow> stream_error" where
  "cut_off e = (case e of
     ErrFrameTooLarge \<Rightarrow> FrameViolation e
   | ErrUnknownFrame _ \<Rightarrow> FrameViolation e
   | Transport x \<Rightarrow> ErrNoResult (Some x)
   | _ \<Rightarrow> ErrNoResult None)"

definition put_output :: "char \<Rightarrow> string \<Rightarrow> sink \<Rightarrow> sink \<times> bool" where
  "put_output kind p o' =
     (if kind = FrameStderr then (let (w, ok) = write_bytes p (sk_Stderr o') in (o'\<lparr>sk_Stderr := w\<rparr>, ok))
      else (let (w, ok) = write_bytes p (sk_Stdout o') in (o'\<lparr>sk_Stdout := w\<rparr>, ok)))"

definition advance :: "ExecStream \<Rightarrow> string \<Rightarrow> ExecStream" where
  "advance s p = s\<lparr>st_Offset := st_Offset s + FrameSize (length p)\<rparr>"

text \<open>The final frame: nothing well formed may follow it; a stream that merely breaks after it loses nothing.\<close>

definition read_final :: "char \<Rightarrow> string \<Rightarrow> reader \<Rightarrow> ExecStream \<Rightarrow> (stream_error + ExecResult) \<times> ExecStream" where
  "read_final kind payload r s =
     (case fst (ReadFrame r) of
        Inr _ \<Rightarrow> (Inl (Violation ''continues''), s)
      | Inl e \<Rightarrow>
          if e = ErrFrameTooLarge \<or> (\<exists>k. e = ErrUnknownFrame k) then (Inl (Violation ''continues''), s)
          else (let s' = advance s payload in
            if kind = FrameError then
              (case unmarshal_ErrorResponse payload of
                 None \<Rightarrow> (Inl (MalformedPayload ''error''), s')
               | Some x \<Rightarrow> if er_Code x = [] then (Inl (MalformedPayload ''error''), s')
                   else (Inl (APIError 0 (er_Code x) (er_Error x)), s'))
            else (case unmarshal_ExecFinal payload of
                 None \<Rightarrow> (Inl (MalformedPayload ''result''), s')
               | Some f \<Rightarrow> (Inr \<lparr>xs_RunID = st_RunID s', xs_ExitCode = xf_ExitCode f, xs_Truncated = xf_Truncated f,
                   xs_TargetKind = xf_TargetKind f, xs_Responses = st_Responses s'\<rparr>, s'))))"

lemma ReadFrame_consumes: "ReadFrame r = (Inr f, r') \<Longrightarrow> length (rd_Data r') < length (rd_Data r)"
  by (auto simp: ReadFrame_def ReadFull_def ReadLimited_def frameHeaderBytes_def Let_def split: if_splits sum.splits prod.splits option.splits)

function readLoop :: "reader \<Rightarrow> ExecStream \<Rightarrow> sink \<Rightarrow> (stream_error + ExecResult) \<times> ExecStream \<times> sink" where
  "readLoop r s k =
     (case ReadFrame r of
        (Inl e, _) \<Rightarrow> (Inl (cut_off e), s, k)
      | (Inr (kind, payload), r') \<Rightarrow>
          if data_frame kind then
            (if st_Responses s \<noteq> [] then (Inl (Violation ''output after a response''), s, k)
             else let (k', ok) = put_output kind payload k in
               if \<not> ok then (Inl WriteFailed, s, k') else readLoop r' (advance s payload) k')
          else if kind = FrameResponse then
            (case unmarshal_Response payload of
               None \<Rightarrow> (Inl (MalformedPayload ''response''), s, k)
             | Some x \<Rightarrow> readLoop r' (advance (s\<lparr>st_Responses := st_Responses s @ [x]\<rparr>) payload) k)
          else if kind = FrameResult \<or> kind = FrameError then
            (let (res, s') = read_final kind payload r' s in (res, s', k))
          else (Inl (Violation ''unexpected run frame''), s, k))"
  by pat_completeness auto
termination
  by (relation "measure (\<lambda>(r, s, k). length (rd_Data r))") (auto dest: ReadFrame_consumes [OF sym])

declare readLoop.simps [simp del]

definition stream_Read :: "reader \<Rightarrow> ExecStream \<Rightarrow> sink \<Rightarrow> (stream_error + ExecResult) \<times> ExecStream \<times> sink" where
  "stream_Read r s k =
     (case ReadFrame r of
        (Inl e, _) \<Rightarrow> (Inl (cut_off e), s, k)
      | (Inr (kind, payload), r') \<Rightarrow>
          (case (if kind = FrameRun then unmarshal_ExecRun payload else None) of
             None \<Rightarrow> (Inl (Violation ''no run frame''), s, k)
           | Some run \<Rightarrow>
               if \<not> ValidRunID (xn_RunID run) then (Inl (Violation ''no run frame''), s, k)
               else if st_RunID s \<noteq> [] \<and> st_RunID s \<noteq> xn_RunID run then (Inl (Violation ''another run''), s, k)
               else readLoop r' (s\<lparr>st_RunID := xn_RunID run, st_ReqID := xn_ReqID run, st_Started := True\<rparr>)
                 (k\<lparr>sk_Runs := sk_Runs k @ [run]\<rparr>)))"

section \<open>Requests\<close>

text \<open>What a request meets: no connection, an answer that is not 2xx, or a body with its content type.\<close>

datatype request = ExecRequest | AttachRequest string nat

datatype reply =
    NoAnswer string
  | Refusal int string string
  | Mismatch string
  | StatusAnswer int string "string option"
  | Body string reader

datatype client_error =
    StreamFailed stream_error
  | UnreachableError string
  | ModeMismatch string
  | WrongContentType string
  | LostRun string client_error
  | CancelledRun string bool

definition ingressFailure :: "int \<Rightarrow> bool" where
  "ingressFailure status \<longleftrightarrow> status = 502 \<or> status = 503 \<or> status = 504"

definition CodeInternal :: string where "CodeInternal = ''internal''"

definition statusError :: "int \<Rightarrow> string \<Rightarrow> client_error" where
  "statusError status data =
     (case unmarshal_ErrorResponse data of
        Some e \<Rightarrow>
          if er_Code e = [] \<or> er_Error e = [] then
            (if ingressFailure status then UnreachableError ''ingress'' else StreamFailed (APIError status CodeInternal ''HTTP''))
          else StreamFailed (APIError status (er_Code e) (er_Error e))
      | None \<Rightarrow> if ingressFailure status then UnreachableError ''ingress'' else StreamFailed (APIError status CodeInternal ''HTTP''))"

definition transportError :: "reply \<Rightarrow> client_error option" where
  "transportError a = (case a of
     NoAnswer x \<Rightarrow> Some (UnreachableError x)
   | Refusal status code message \<Rightarrow> Some (StreamFailed (APIError status code message))
   | Mismatch m \<Rightarrow> Some (ModeMismatch m)
   | _ \<Rightarrow> None)"

definition ExecContentType :: string where
  "ExecContentType = ''application/vnd.agentssh.exec-frames''"

definition map_result :: "(stream_error + ExecResult) \<times> ExecStream \<times> sink \<Rightarrow> (client_error + ExecResult) \<times> ExecStream \<times> sink" where
  "map_result x = (map_sum StreamFailed (\<lambda>y. y) (fst x), snd x)"

definition openStream :: "reply \<Rightarrow> ExecStream \<Rightarrow> sink \<Rightarrow> (client_error + ExecResult) \<times> ExecStream \<times> sink" where
  "openStream a s k = (case transportError a of
     Some e \<Rightarrow> (Inl e, s, k)
   | None \<Rightarrow>
       (case a of
          StatusAnswer status data (Some e) \<Rightarrow> (Inl (UnreachableError e), s, k)
        | StatusAnswer status data None \<Rightarrow> (Inl (statusError status data), s, k)
        | Body ct r \<Rightarrow> if ct \<noteq> ExecContentType then (Inl (WrongContentType ct), s, k) else map_result (stream_Read r s k)
        | _ \<Rightarrow> (Inl (UnreachableError []), s, k)))"

section \<open>Following a run\<close>

definition ReattachTimeout :: int where "ReattachTimeout = 120 * int second"
definition first_backoff :: int where "first_backoff = 200000000"
definition max_backoff :: int where "max_backoff = 5 * int second"

text \<open>One round of the loop: whether the context has ended, when it is, and what its request meets.\<close>

record round =
  rn_Cancelled :: bool
  rn_Now :: int
  rn_WaitCancelled :: bool
  rn_CancelFails :: bool
  rn_Answer :: "request \<Rightarrow> reply"

definition may_retry :: "client_error \<Rightarrow> bool" where
  "may_retry e = (case e of
     StreamFailed (ErrNoResult _) \<Rightarrow> True
   | UnreachableError _ \<Rightarrow> True
   | _ \<Rightarrow> False)"

definition next_request :: "request \<Rightarrow> ExecStream \<Rightarrow> request" where
  "next_request start s = (if st_Started s then AttachRequest (st_RunID s) (st_Offset s) else start)"

text \<open>The patience of the loop: the offset at the last progress, the backoff, and the deadline.\<close>

record patience =
  pt_Offset :: nat
  pt_Backoff :: int
  pt_Deadline :: int

definition renew :: "round \<Rightarrow> ExecStream \<Rightarrow> patience \<Rightarrow> patience" where
  "renew rd s p =
     (if st_Offset s \<noteq> pt_Offset p then \<lparr>pt_Offset = st_Offset s, pt_Backoff = first_backoff, pt_Deadline = rn_Now rd + ReattachTimeout\<rparr> else p)"

text \<open>\<open>None\<close>: the rounds given ran out before the loop ended.\<close>

fun follow :: "request \<Rightarrow> round list \<Rightarrow> patience \<Rightarrow> (client_error + ExecResult) \<times> ExecStream \<times> sink \<Rightarrow>
    ((client_error + ExecResult) \<times> ExecStream \<times> sink) option" where
  "follow start rds p (Inr res, s, k) = Some (Inr res, s, k)"
| "follow start [] p (Inl e, s, k) = None"
| "follow start (rd # rds) p (Inl e, s, k) =
     (if rn_Cancelled rd then Some (Inl (CancelledRun (st_RunID s) (rn_CancelFails rd)), s, k)
      else if \<not> may_retry e then Some (Inl e, s, k)
      else let p1 = renew rd s p in
        if pt_Deadline p1 < rn_Now rd then Some (Inl (LostRun (st_RunID s) e), s, k)
        else if rn_WaitCancelled rd then Some (Inl (CancelledRun (st_RunID s) (rn_CancelFails rd)), s, k)
        else follow start rds (p1\<lparr>pt_Backoff := min (2 * pt_Backoff p1) max_backoff\<rparr>)
          (openStream (rn_Answer rd (next_request start s)) s k))"

definition new_stream :: "string \<Rightarrow> ExecStream" where
  "new_stream i = \<lparr>st_RunID = i, st_ReqID = [], st_Started = False, st_Offset = 0, st_Responses = []\<rparr>"

definition client_run :: "request \<Rightarrow> string \<Rightarrow> reply \<Rightarrow> int \<Rightarrow> round list \<Rightarrow> sink \<Rightarrow> ((client_error + ExecResult) \<times> ExecStream \<times> sink) option" where
  "client_run start i a now rds k =
     (let (res, s, k') = openStream a (new_stream i) k in
      follow start rds \<lparr>pt_Offset = st_Offset s, pt_Backoff = first_backoff, pt_Deadline = now + ReattachTimeout\<rparr> (res, s, k'))"

definition client_Exec :: "string \<Rightarrow> string \<Rightarrow> (request \<Rightarrow> reply) \<Rightarrow> int \<Rightarrow> round list \<Rightarrow> sink \<Rightarrow> ((client_error + ExecResult) \<times> ExecStream \<times> sink) option" where
  "client_Exec rnd runID net now rds k =
     client_run ExecRequest (if runID = [] then NewRunID rnd else runID) (net ExecRequest) now rds k"

definition client_Attach :: "string \<Rightarrow> (request \<Rightarrow> reply) \<Rightarrow> int \<Rightarrow> round list \<Rightarrow> sink \<Rightarrow> ((client_error + ExecResult) \<times> ExecStream \<times> sink) option" where
  "client_Attach runID net now rds k =
     client_run (AttachRequest runID 0) runID (net (AttachRequest runID 0)) now rds k"

section \<open>Reading a spool cut anywhere\<close>

text \<open>How many frames of a spool are whole within its first bytes.\<close>

fun whole :: "nat \<Rightarrow> frame list \<Rightarrow> nat" where
  "whole n [] = 0"
| "whole n (f # fs) = (if FrameSize (length (snd f)) \<le> n then Suc (whole (n - FrameSize (length (snd f))) fs) else 0)"

definition output_of :: "char \<Rightarrow> frame list \<Rightarrow> string" where
  "output_of kind fs = concat (map snd (filter (\<lambda>f. fst f = kind) fs))"

definition responses_of :: "frame list \<Rightarrow> Response list" where
  "responses_of fs = map (\<lambda>f. the (unmarshal_Response (snd f))) (filter (\<lambda>f. fst f = FrameResponse) fs)"

text \<open>The spool of a finished run: output, then responses that read, then the final frame.\<close>

definition response_frame :: "frame \<Rightarrow> bool" where
  "response_frame f \<longleftrightarrow> fst f = FrameResponse \<and> unmarshal_Response (snd f) \<noteq> None"

definition final_frame :: "frame \<Rightarrow> bool" where
  "final_frame f \<longleftrightarrow> fst f = FrameResult \<and> unmarshal_ExecFinal (snd f) \<noteq> None \<or>
     fst f = FrameError \<and> (\<exists>x. unmarshal_ErrorResponse (snd f) = Some x \<and> er_Code x \<noteq> [])"

fun spool_ok :: "bool \<Rightarrow> frame list \<Rightarrow> bool" where
  "spool_ok answered [] \<longleftrightarrow> False"
| "spool_ok answered [f] \<longleftrightarrow> frame_ok f \<and> final_frame f"
| "spool_ok answered (f # fs) \<longleftrightarrow> frame_ok f \<and>
     (data_frame (fst f) \<and> \<not> answered \<and> spool_ok False fs \<or> response_frame f \<and> spool_ok True fs)"

text \<open>A client that has consumed the first frames of a spool.\<close>

definition unbounded :: "writer \<Rightarrow> bool" where "unbounded w \<longleftrightarrow> wr_Room w = None"

definition consumed :: "frame list \<Rightarrow> nat \<Rightarrow> ExecStream \<Rightarrow> sink \<Rightarrow> ExecStream \<Rightarrow> sink \<Rightarrow> bool" where
  "consumed fs n s0 k0 s k \<longleftrightarrow>
     st_Offset s = st_Offset s0 + length (spool_bytes (take n fs)) \<and>
     st_Responses s = st_Responses s0 @ responses_of (take n fs) \<and>
     sk_Stdout k = (sk_Stdout k0)\<lparr>wr_Out := wr_Out (sk_Stdout k0) @ output_of FrameStdout (take n fs)\<rparr> \<and>
     sk_Stderr k = (sk_Stderr k0)\<lparr>wr_Out := wr_Out (sk_Stderr k0) @ output_of FrameStderr (take n fs)\<rparr> \<and>
     sk_Runs k = sk_Runs k0 \<and> st_RunID s = st_RunID s0 \<and> st_ReqID s = st_ReqID s0 \<and> st_Started s = st_Started s0"

text \<open>What the final frame makes of the read.\<close>

definition outcome_of :: "frame \<Rightarrow> ExecStream \<Rightarrow> stream_error + ExecResult" where
  "outcome_of f s =
     (if fst f = FrameError then (let x = the (unmarshal_ErrorResponse (snd f)) in Inl (APIError 0 (er_Code x) (er_Error x)))
      else (let x = the (unmarshal_ExecFinal (snd f)) in
        Inr \<lparr>xs_RunID = st_RunID s, xs_ExitCode = xf_ExitCode x, xs_Truncated = xf_Truncated x, xs_TargetKind = xf_TargetKind x,
          xs_Responses = st_Responses s\<rparr>))"

definition no_result :: "stream_error + ExecResult \<Rightarrow> bool" where
  "no_result r \<longleftrightarrow> (\<exists>x. r = Inl (ErrNoResult x))"

lemma broken_cut: "cut_error e \<Longrightarrow> no_result (Inl (cut_off e))"
  by (auto simp: cut_error_def cut_off_def no_result_def)

lemma readLoop_data:
  assumes "ReadFrame r = (Inr (kind, payload), r')" and "data_frame kind" and "st_Responses s = []"
    and "unbounded (sk_Stdout k)" and "unbounded (sk_Stderr k)"
  shows "\<exists>k'. readLoop r s k = readLoop r' (advance s payload) k' \<and> consumed [(kind, payload)] 1 s k (advance s payload) k'
    \<and> unbounded (sk_Stdout k') \<and> unbounded (sk_Stderr k')"
  using assms
  by (subst readLoop.simps)
     (auto simp: put_output_def write_bytes_def unbounded_def consumed_def advance_def output_of_def responses_of_def spool_bytes_def
       FrameSize_def frameHeaderBytes_def data_frame_def frame_kinds split: option.splits)

lemma readLoop_response:
  assumes "ReadFrame r = (Inr (FrameResponse, payload), r')" and "unmarshal_Response payload = Some x"
  shows "readLoop r s k = readLoop r' (advance (s\<lparr>st_Responses := st_Responses s @ [x]\<rparr>) payload) k"
  using assms by (subst readLoop.simps) (simp add: data_frame_def frame_kinds)

lemma consumed_response:
  assumes "unmarshal_Response payload = Some x"
  shows "consumed [(FrameResponse, payload)] 1 s k (advance (s\<lparr>st_Responses := st_Responses s @ [x]\<rparr>) payload) k"
  using assms by (simp add: consumed_def advance_def output_of_def responses_of_def spool_bytes_def frame_kinds)

lemma readLoop_final:
  assumes "ReadFrame r = (Inr f, r')" and "final_frame f" and "\<exists>x. fst (ReadFrame r') = Inl x \<and> cut_error x"
  shows "readLoop r s k = (outcome_of f (advance s (snd f)), advance s (snd f), k)"
    and "consumed [f] 1 s k (advance s (snd f)) k"
proof -
  obtain kind payload where f: "f = (kind, payload)" by (cases f)
  obtain x where x: "fst (ReadFrame r') = Inl x" "x \<noteq> ErrFrameTooLarge" "\<forall>c. x \<noteq> ErrUnknownFrame c"
    using assms(3) by (auto simp: cut_error_def)
  have k: "\<not> data_frame kind" "kind \<noteq> FrameResponse" "kind = FrameResult \<or> kind = FrameError" "kind = FrameResult \<Longrightarrow> kind \<noteq> FrameError"
    "kind \<noteq> FrameStdout" "kind \<noteq> FrameStderr"
    using assms(2) by (auto simp: f final_frame_def data_frame_def frame_kinds)
  have "read_final kind payload r' s = (outcome_of f (advance s payload), advance s payload)"
    using assms(2) x k by (auto simp: f read_final_def final_frame_def outcome_of_def frame_kinds Let_def)
  then show "readLoop r s k = (outcome_of f (advance s (snd f)), advance s (snd f), k)"
    using assms(1) k by (subst readLoop.simps) (simp add: f)
  show "consumed [f] 1 s k (advance s (snd f)) k"
    using k by (simp add: consumed_def f advance_def output_of_def responses_of_def spool_bytes_def)
qed

lemma readLoop_cut:
  assumes "frame_ok f" and "n < FrameSize (length (snd f))"
  shows "\<exists>x. readLoop \<lparr>rd_Data = take n (spool_bytes (f # fs)), rd_End = e\<rparr> s k = (Inl x, s, k) \<and> no_result (Inl x)"
proof -
  have t: "take n (spool_bytes (f # fs)) = take n (frame_bytes f)" using assms(2) by (simp add: spool_bytes_def)
  from ReadFrame_cut [OF assms(1), of n e] assms(2) obtain x r where "ReadFrame \<lparr>rd_Data = take n (frame_bytes f), rd_End = e\<rparr> = (Inl x, r)" "cut_error x" by auto
  then show ?thesis unfolding t by (subst readLoop.simps) (simp add: broken_cut)
qed

lemma consumed_0: "consumed fs 0 s k s k"
  by (simp add: consumed_def spool_bytes_def output_of_def responses_of_def)

lemma consumed_Suc: "consumed [f] 1 s k s1 k1 \<Longrightarrow> consumed fs n s1 k1 s2 k2 \<Longrightarrow> consumed (f # fs) (Suc n) s k s2 k2"
  by (auto simp: consumed_def spool_bytes_def output_of_def responses_of_def)

lemma readLoop_spool:
  assumes "spool_ok answered fs" and "answered \<or> st_Responses s = []" and "unbounded (sk_Stdout k)" and "unbounded (sk_Stderr k)"
  shows "\<exists>res s' k'. readLoop \<lparr>rd_Data = take n (spool_bytes fs), rd_End = e\<rparr> s k = (res, s', k') \<and> consumed fs (whole n fs) s k s' k' \<and>
    unbounded (sk_Stdout k') \<and> unbounded (sk_Stderr k') \<and>
    (if whole n fs = length fs then res = outcome_of (last fs) s' else no_result res)"
  using assms
proof (induction answered fs arbitrary: n s k rule: spool_ok.induct)
  case (1 answered)
  then show ?case by simp
next
  case (2 answered f)
  have ok: "frame_ok f" "final_frame f" using "2.prems"(1) by simp_all
  show ?case
  proof (cases "FrameSize (length (snd f)) \<le> n")
    case True
    then have t: "take n (spool_bytes [f]) = frame_bytes f @ []" by (simp add: spool_bytes_def)
    have "\<exists>x. fst (ReadFrame \<lparr>rd_Data = [], rd_End = e\<rparr>) = Inl x \<and> cut_error x" using ReadFrame_end [of e] by auto
    from readLoop_final [OF ReadFrame_frame [OF ok(1)] ok(2) this] show ?thesis
      using "2.prems"(3,4) True unfolding t by simp
  next
    case False
    then obtain x where "readLoop \<lparr>rd_Data = take n (spool_bytes [f]), rd_End = e\<rparr> s k = (Inl x, s, k)" "no_result (Inl x)"
      using readLoop_cut [OF ok(1), of n "[]" e s k] by (auto simp: not_le)
    then show ?thesis using "2.prems"(3,4) False consumed_0 by simp
  qed
next
  case (3 answered f g fs)
  let ?fs = "g # fs"
  have ok: "frame_ok f" using "3.prems"(1) by simp
  show ?case
  proof (cases "FrameSize (length (snd f)) \<le> n")
    case True
    let ?m = "n - FrameSize (length (snd f))"
    let ?r = "\<lparr>rd_Data = take ?m (spool_bytes ?fs), rd_End = e\<rparr>"
    have t: "take n (spool_bytes (f # ?fs)) = frame_bytes f @ take ?m (spool_bytes ?fs)" using True by (simp add: spool_bytes_def)
    have rf: "ReadFrame \<lparr>rd_Data = take n (spool_bytes (f # ?fs)), rd_End = e\<rparr> = (Inr f, ?r)"
      unfolding t by (rule ReadFrame_frame [OF ok])
    obtain s1 k1 b where step: "readLoop \<lparr>rd_Data = take n (spool_bytes (f # ?fs)), rd_End = e\<rparr> s k = readLoop ?r s1 k1"
      and c: "consumed [f] 1 s k s1 k1" and u: "unbounded (sk_Stdout k1)" "unbounded (sk_Stderr k1)"
      and ih: "\<exists>res s' k'. readLoop ?r s1 k1 = (res, s', k') \<and> consumed ?fs (whole ?m ?fs) s1 k1 s' k' \<and>
        unbounded (sk_Stdout k') \<and> unbounded (sk_Stderr k') \<and>
        (if whole ?m ?fs = length ?fs then res = outcome_of (last ?fs) s' else no_result res)"
    proof (cases "data_frame (fst f)")
      case True
      then have "\<not> answered \<and> spool_ok False ?fs" using "3.prems"(1) by (auto simp: response_frame_def data_frame_def frame_kinds)
      then have sr: "st_Responses s = []" "spool_ok False ?fs" using "3.prems"(2) by auto
      have rf': "ReadFrame \<lparr>rd_Data = take n (spool_bytes (f # ?fs)), rd_End = e\<rparr> = (Inr (fst f, snd f), ?r)" using rf by simp
      from readLoop_data [OF rf' True sr(1) "3.prems"(3,4)] obtain k1 where
        k1: "readLoop \<lparr>rd_Data = take n (spool_bytes (f # ?fs)), rd_End = e\<rparr> s k = readLoop ?r (advance s (snd f)) k1"
        "consumed [f] 1 s k (advance s (snd f)) k1" "unbounded (sk_Stdout k1)" "unbounded (sk_Stderr k1)" by auto
      have "st_Responses (advance s (snd f)) = []" using sr(1) by (simp add: advance_def)
      from that [OF k1 "3.IH"(1) [OF sr(2) disjI2 [OF this] k1(3,4)]] show thesis .
    next
      case False
      then have r: "response_frame f" "spool_ok True ?fs" using "3.prems"(1) by auto
      then obtain x where x: "unmarshal_Response (snd f) = Some x" "f = (FrameResponse, snd f)" by (cases f) (auto simp: response_frame_def)
      have rf': "ReadFrame \<lparr>rd_Data = take n (spool_bytes (f # ?fs)), rd_End = e\<rparr> = (Inr (FrameResponse, snd f), ?r)" using rf x(2) by simp
      have c: "consumed [f] 1 s k (advance (s\<lparr>st_Responses := st_Responses s @ [x]\<rparr>) (snd f)) k" using consumed_response [OF x(1)] x(2) by metis
      show thesis by (rule that [OF readLoop_response [OF rf' x(1)] c "3.prems"(3,4) "3.IH"(2) [OF r(2) disjI1 [OF TrueI] "3.prems"(3,4)]])
    qed
    from ih obtain res s' k' where i: "readLoop ?r s1 k1 = (res, s', k')" "consumed ?fs (whole ?m ?fs) s1 k1 s' k'"
        "unbounded (sk_Stdout k')" "unbounded (sk_Stderr k')"
        "if whole ?m ?fs = length ?fs then res = outcome_of (last ?fs) s' else no_result res" by blast
    have w: "whole n (f # ?fs) = Suc (whole ?m ?fs)" using True by simp
    show ?thesis using i consumed_Suc [OF c i(2)] unfolding step w by (simp split: if_splits)
  next
    case False
    then obtain x where "readLoop \<lparr>rd_Data = take n (spool_bytes (f # ?fs)), rd_End = e\<rparr> s k = (Inl x, s, k)" "no_result (Inl x)"
      using readLoop_cut [OF ok, of n "g # fs" e s k] by (auto simp: not_le)
    then show ?thesis using "3.prems"(3,4) False consumed_0 by simp
  qed
qed

section \<open>Resuming\<close>

text \<open>
  A network that answers honestly: not at all, or with the run frame and the spool from the offset
  requested, cut anywhere and ending in any way.
\<close>

definition asked_from :: "request \<Rightarrow> nat" where
  "asked_from rq = (case rq of ExecRequest \<Rightarrow> 0 | AttachRequest i n \<Rightarrow> n)"

definition stream_bytes :: "ExecRun \<Rightarrow> frame list \<Rightarrow> nat \<Rightarrow> string" where
  "stream_bytes run fs n = frame_bytes (FrameRun, exec_run_json run) @ drop n (spool_bytes fs)"

definition honest_reply :: "ExecRun \<Rightarrow> frame list \<Rightarrow> nat \<Rightarrow> reply \<Rightarrow> bool" where
  "honest_reply run fs n a \<longleftrightarrow> (\<exists>x. a = NoAnswer x) \<or>
     (\<exists>m e. a = Body ExecContentType \<lparr>rd_Data = take m (stream_bytes run fs n), rd_End = e\<rparr>)"

definition honest :: "ExecRun \<Rightarrow> frame list \<Rightarrow> (request \<Rightarrow> reply) \<Rightarrow> bool" where
  "honest run fs net \<longleftrightarrow> (\<forall>rq. honest_reply run fs (asked_from rq) (net rq))"

definition run_ok :: "ExecRun \<Rightarrow> bool" where
  "run_ok run \<longleftrightarrow> ValidRunID (xn_RunID run) \<and> valid_string (xn_ReqID run) \<and> length (xn_ReqID run) \<le> 256"

definition progress :: "ExecRun \<Rightarrow> frame list \<Rightarrow> sink \<Rightarrow> nat \<Rightarrow> ExecStream \<Rightarrow> sink \<Rightarrow> bool" where
  "progress run fs k0 m s k \<longleftrightarrow>
     m \<le> length fs \<and> st_Offset s = length (spool_bytes (take m fs)) \<and> st_Responses s = responses_of (take m fs) \<and>
     sk_Stdout k = (sk_Stdout k0)\<lparr>wr_Out := wr_Out (sk_Stdout k0) @ output_of FrameStdout (take m fs)\<rparr> \<and>
     sk_Stderr k = (sk_Stderr k0)\<lparr>wr_Out := wr_Out (sk_Stderr k0) @ output_of FrameStderr (take m fs)\<rparr> \<and>
     st_RunID s = xn_RunID run \<and> (\<not> st_Started s \<longrightarrow> m = 0)"

lemma spool_bytes_append: "spool_bytes (a @ b) = spool_bytes a @ spool_bytes b"
  by (simp add: spool_bytes_def)

lemma spool_bytes_drop: "drop (length (spool_bytes (take m fs))) (spool_bytes fs) = spool_bytes (drop m fs)"
proof -
  have "spool_bytes fs = spool_bytes (take m fs) @ spool_bytes (drop m fs)" by (metis append_take_drop_id spool_bytes_append)
  then show ?thesis by (metis append_eq_conv_conj)
qed

lemma output_of_append: "output_of c (a @ b) = output_of c a @ output_of c b"
  by (simp add: output_of_def)

lemma responses_of_append: "responses_of (a @ b) = responses_of a @ responses_of b"
  by (simp add: responses_of_def)

lemma spool_ok_drop: "spool_ok answered fs \<Longrightarrow> m < length fs \<Longrightarrow> \<exists>a. spool_ok a (drop m fs) \<and> (a \<or> \<not> answered \<and> responses_of (take m fs) = [])"
proof (induction answered fs arbitrary: m rule: spool_ok.induct)
  case (2 answered f)
  then show ?case by (auto simp: responses_of_def intro: exI [of _ answered])
next
  case (3 answered f g fs)
  show ?case
  proof (cases m)
    case 0
    then show ?thesis using "3.prems"(1) by (auto simp: responses_of_def)
  next
    case (Suc j)
    from "3.prems"(1) consider (data) "data_frame (fst f)" "\<not> answered" "spool_ok False (g # fs)" | (resp) "response_frame f" "spool_ok True (g # fs)" by auto
    then show ?thesis
    proof cases
      case data
      then have "fst f \<noteq> FrameResponse" by (auto simp: data_frame_def frame_kinds)
      then show ?thesis using "3.IH"(1) [OF data(3), of j] Suc "3.prems"(2) data(2) by (auto simp: responses_of_def)
    next
      case resp
      then show ?thesis using "3.IH"(2) [OF resp(2), of j] Suc "3.prems"(2) by (auto simp: responses_of_def)
    qed
  qed
qed simp

lemma whole_le: "whole n fs \<le> length fs"
  by (induction n fs rule: whole.induct) auto

lemma whole_all: "length (spool_bytes fs) \<le> n \<Longrightarrow> whole n fs = length fs"
  by (induction n fs rule: whole.induct) (auto simp: spool_bytes_def)

lemma progress_consumed:
  assumes "progress run fs k0 m s k" and "consumed (drop m fs) j s k s' k'" and "m + j \<le> length fs" and "st_Started s"
  shows "progress run fs k0 (m + j) s' k'"
  using assms unfolding progress_def consumed_def
  by (simp add: take_add spool_bytes_append output_of_append responses_of_append)

text \<open>A run identifier is plain, so it reads back as itself.\<close>

lemma run_runes_valid: "list_all run_id_char (runes s) \<Longrightarrow> valid_string s"
proof -
  assume a: "list_all run_id_char (runes s)"
  have "ok" if "(r, ok, n) \<in> set (rune_list (bytes s))" for r ok n
  proof (rule ccontr)
    assume "\<not> ok"
    then have "r = RuneError" using rune_list_scalar [OF that] by simp
    moreover have "r \<in> set (runes s)" using that by (force simp: runes_def bytes_runes_def)
    ultimately show False using a by (auto simp: list_all_iff run_id_char_def RuneError_def)
  qed
  then show ?thesis by (auto simp: valid_string_def bytes_valid_def list_all_iff)
qed

lemma ValidRunID_valid: "ValidRunID i \<Longrightarrow> valid_string i \<and> length i = 35 \<and> i \<noteq> []"
proof -
  assume "ValidRunID i"
  then obtain h where h: "i = ''rn_'' @ h" "length h = 32" "list_all run_id_char (runes h)"
    by (auto simp: ValidRunID_def cut_prefix_def prefix_def split: if_splits)
  have "valid_string ''rn_''" by (rule valid_ascii) (simp add: ascii_def)
  from valid_string_append [OF this run_runes_valid [OF h(3)]] show ?thesis using h by simp
qed

lemma run_frame_ok: "run_ok run \<Longrightarrow> frame_ok (FrameRun, exec_run_json run)"
proof -
  assume "run_ok run"
  then have l: "length (xn_RunID run) = 35" "length (xn_ReqID run) \<le> 256" using ValidRunID_valid by (auto simp: run_ok_def)
  have "length (exec_run_json run) \<le> 10000"
    using json_object_length [of "[field ''run_id'' (json_string (xn_RunID run)), field_opt ''req_id'' (xn_ReqID run)]"]
      member_size_string [of "''run_id''" "xn_RunID run"] member_size_opt [of "''req_id''" "xn_ReqID run"] l
    by (simp add: exec_run_json_def)
  then show ?thesis
    by (simp add: frame_ok_def message_frame_def frame_limit_def data_frame_def frame_kinds MaxMessageFrameBytes_def)
qed

lemma run_frame_reads: "run_ok run \<Longrightarrow> unmarshal_ExecRun (exec_run_json run) = Some run"
  using exec_run_roundtrip [of run] ValidRunID_valid [of "xn_RunID run"]
  by (simp add: run_ok_def json_clean_valid)

text \<open>One honest reply takes the client forward, to the end or to where the stream broke.\<close>

definition step_result :: "frame list \<Rightarrow> nat \<Rightarrow> client_error + ExecResult \<Rightarrow> ExecStream \<Rightarrow> bool" where
  "step_result fs m res s \<longleftrightarrow>
     (if m = length fs then res = map_sum StreamFailed (\<lambda>x. x) (outcome_of (last fs) s) else \<exists>e. res = Inl e \<and> may_retry e)"

definition open_sink :: "sink \<Rightarrow> bool" where
  "open_sink k \<longleftrightarrow> unbounded (sk_Stdout k) \<and> unbounded (sk_Stderr k)"

lemma may_retry_no_result: "no_result r \<Longrightarrow> \<exists>e. map_sum StreamFailed (\<lambda>x. x) r = Inl e \<and> may_retry e"
  by (auto simp: no_result_def may_retry_def)

lemma progress_sink: "progress run fs k0 m s k \<Longrightarrow> open_sink k0 \<Longrightarrow> open_sink k"
  by (simp add: progress_def open_sink_def unbounded_def)

lemma stream_Read_honest:
  assumes p: "progress run fs k0 m s k" and m: "m < length fs" and fs: "spool_ok False fs" and run: "run_ok run" and k: "open_sink k"
  shows "\<exists>j res s' k'. stream_Read \<lparr>rd_Data = take n (stream_bytes run fs (st_Offset s)), rd_End = e\<rparr> s k = (res, s', k') \<and>
    progress run fs k0 (m + j) s' k' \<and> step_result fs (m + j) (map_sum StreamFailed (\<lambda>x. x) res) s' \<and>
    (length (stream_bytes run fs (st_Offset s)) \<le> n \<longrightarrow> m + j = length fs)"
proof -
  let ?f = "(FrameRun, exec_run_json run)"
  let ?rest = "drop m fs"
  have off: "st_Offset s = length (spool_bytes (take m fs))" and rid: "st_RunID s = xn_RunID run" using p by (simp_all add: progress_def)
  have b: "stream_bytes run fs (st_Offset s) = frame_bytes ?f @ spool_bytes ?rest" unfolding stream_bytes_def off spool_bytes_drop ..
  have fok: "frame_ok ?f" by (rule run_frame_ok [OF run])
  show ?thesis
  proof (cases "length (frame_bytes ?f) \<le> n")
    case False
    then have t: "take n (stream_bytes run fs (st_Offset s)) = take n (frame_bytes ?f)" unfolding b by simp
    obtain x r where x: "ReadFrame \<lparr>rd_Data = take n (frame_bytes ?f), rd_End = e\<rparr> = (Inl x, r)" "cut_error x"
      using ReadFrame_cut [OF fok, of n e] False by auto
    have rd: "stream_Read \<lparr>rd_Data = take n (stream_bytes run fs (st_Offset s)), rd_End = e\<rparr> s k = (Inl (cut_off x), s, k)"
      unfolding t stream_Read_def x by simp
    have "step_result fs m (map_sum StreamFailed (\<lambda>x. x) (Inl (cut_off x))) s"
      using m may_retry_no_result [OF broken_cut [OF x(2)]] by (simp add: step_result_def)
    moreover have "\<not> length (stream_bytes run fs (st_Offset s)) \<le> n" using False unfolding b by simp
    ultimately show ?thesis using rd p by (intro exI [of _ 0]) simp
  next
    case True
    let ?q = "n - length (frame_bytes ?f)"
    let ?s = "s\<lparr>st_RunID := xn_RunID run, st_ReqID := xn_ReqID run, st_Started := True\<rparr>"
    let ?k = "k\<lparr>sk_Runs := sk_Runs k @ [run]\<rparr>"
    let ?r = "\<lparr>rd_Data = take ?q (spool_bytes ?rest), rd_End = e\<rparr>"
    have t: "take n (stream_bytes run fs (st_Offset s)) = frame_bytes ?f @ take ?q (spool_bytes ?rest)" using True unfolding b by simp
    have v: "ValidRunID (xn_RunID run)" using run by (simp add: run_ok_def)
    have rd: "stream_Read \<lparr>rd_Data = take n (stream_bytes run fs (st_Offset s)), rd_End = e\<rparr> s k = readLoop ?r ?s ?k"
      unfolding stream_Read_def t ReadFrame_frame [OF fok] using v rid by (simp add: run_frame_reads [OF run])
    have p1: "progress run fs k0 m ?s ?k" using p by (simp add: progress_def)
    obtain a where a: "spool_ok a ?rest" "a \<or> responses_of (take m fs) = []" using spool_ok_drop [OF fs m] by blast
    have sr: "a \<or> st_Responses ?s = []" using a(2) p by (auto simp: progress_def)
    have u: "unbounded (sk_Stdout ?k)" "unbounded (sk_Stderr ?k)" using k by (simp_all add: open_sink_def)
    obtain res s' k' where l: "readLoop ?r ?s ?k = (res, s', k')" "consumed ?rest (whole ?q ?rest) ?s ?k s' k'"
        "if whole ?q ?rest = length ?rest then res = outcome_of (last ?rest) s' else no_result res"
      using readLoop_spool [OF a(1) sr u, of ?q e] by blast
    let ?j = "whole ?q ?rest"
    have j: "m + ?j \<le> length fs" using whole_le [of ?q ?rest] m by simp
    have "progress run fs k0 (m + ?j) s' k'" by (rule progress_consumed [OF p1 l(2) j]) simp
    moreover have "step_result fs (m + ?j) (map_sum StreamFailed (\<lambda>x. x) res) s'"
      using l(3) m j may_retry_no_result by (auto simp: step_result_def split: if_splits)
    moreover have "length (stream_bytes run fs (st_Offset s)) \<le> n \<longrightarrow> m + ?j = length fs"
    proof
      assume "length (stream_bytes run fs (st_Offset s)) \<le> n"
      then have "length (spool_bytes ?rest) \<le> ?q" unfolding b by simp
      then have "?j = length ?rest"
        by (rule whole_all)
      then show "m + ?j = length fs" using m by simp
    qed
    ultimately show ?thesis unfolding rd l(1) by blast
  qed
qed

lemma openStream_honest:
  assumes p: "progress run fs k0 m s k" and m: "m < length fs" and fs: "spool_ok False fs" and run: "run_ok run" and k: "open_sink k"
    and a: "honest_reply run fs (st_Offset s) a"
  shows "\<exists>j res s' k'. openStream a s k = (res, s', k') \<and> progress run fs k0 (m + j) s' k' \<and> step_result fs (m + j) res s'"
proof -
  from a consider x where "a = NoAnswer x"
    | n e where "a = Body ExecContentType \<lparr>rd_Data = take n (stream_bytes run fs (st_Offset s)), rd_End = e\<rparr>"
    unfolding honest_reply_def by blast
  then show ?thesis
  proof cases
    case 1
    then have "openStream a s k = (Inl (UnreachableError x), s, k)" by (simp add: openStream_def transportError_def)
    moreover have "step_result fs m (Inl (UnreachableError x)) s" using m by (simp add: step_result_def may_retry_def)
    ultimately show ?thesis using p by (intro exI [of _ 0]) simp
  next
    case 2
    from stream_Read_honest [OF p m fs run k, of n e] obtain j res s' k' where
      r: "stream_Read \<lparr>rd_Data = take n (stream_bytes run fs (st_Offset s)), rd_End = e\<rparr> s k = (res, s', k')"
      "progress run fs k0 (m + j) s' k'" "step_result fs (m + j) (map_sum StreamFailed (\<lambda>x. x) res) s'" by blast
    have "openStream a s k = (map_sum StreamFailed (\<lambda>x. x) res, s', k')"
      unfolding 2 by (simp add: openStream_def transportError_def map_result_def r(1))
    then show ?thesis using r(2,3) by blast
  qed
qed

lemma next_request_from: "progress run fs k0 m s k \<Longrightarrow> asked_from start = 0 \<Longrightarrow> asked_from (next_request start s) = st_Offset s"
  by (auto simp: next_request_def asked_from_def progress_def spool_bytes_def)

text \<open>What a client that stopped has received: some first frames, each once; all of them when it has the outcome.\<close>

definition received :: "ExecRun \<Rightarrow> frame list \<Rightarrow> sink \<Rightarrow> client_error + ExecResult \<Rightarrow> ExecStream \<Rightarrow> sink \<Rightarrow> bool" where
  "received run fs k0 res s k \<longleftrightarrow>
     (\<exists>m. progress run fs k0 m s k \<and>
       (m = length fs \<and> res = map_sum StreamFailed (\<lambda>x. x) (outcome_of (last fs) s) \<or>
        (\<exists>x. res = Inl (CancelledRun (xn_RunID run) x)) \<or> m < length fs \<and> (\<exists>x. res = Inl (LostRun (xn_RunID run) x))))"

lemma outcome_not_retried: "map_sum StreamFailed (\<lambda>x. x) (outcome_of f s) = Inl e \<Longrightarrow> \<not> may_retry e"
  by (auto simp: outcome_of_def Let_def may_retry_def split: if_splits)

lemma follow_received:
  assumes "follow start rds pt (res, s, k) = Some (res', s', k')" and "progress run fs k0 m s k" and "step_result fs m res s"
    and "spool_ok False fs" and "run_ok run" and "open_sink k0" and "list_all (\<lambda>rd. honest run fs (rn_Answer rd)) rds" and "asked_from start = 0"
  shows "received run fs k0 res' s' k'"
  using assms(1-3,7,8)
proof (induction start rds pt "(res, s, k)" arbitrary: res s k m rule: follow.induct)
  case (1 start rds p x s k)
  then have r: "res' = Inr x" "s' = s" "k' = k" and m: "m = length fs" "Inr x = map_sum StreamFailed (\<lambda>x. x) (outcome_of (last fs) s)"
    by (auto simp: step_result_def split: if_splits)
  then show ?case using "1.prems"(2) unfolding received_def by blast
next
  case (2 start p e s k)
  then show ?case by simp
next
  case (3 start rd rds p e s k)
  have pr: "progress run fs k0 m s k" and sr: "step_result fs m (Inl e) s" using "3.prems" by simp_all
  have rid: "st_RunID s = xn_RunID run" using pr by (simp add: progress_def)
  show ?case
  proof (cases "m = length fs")
    case True
    then have o: "Inl e = map_sum StreamFailed (\<lambda>x. x) (outcome_of (last fs) s)" using sr by (simp add: step_result_def)
    then have "\<not> may_retry e" using outcome_not_retried [of "last fs" s e] by simp
    then have "s' = s \<and> k' = k \<and> (res' = Inl (CancelledRun (xn_RunID run) (rn_CancelFails rd)) \<or> res' = Inl e)"
      using "3.prems"(1) rid by (auto split: if_splits)
    then show ?thesis using pr True o unfolding received_def by blast
  next
    case False
    then have m: "m < length fs" using pr by (simp add: progress_def)
    have mr: "may_retry e" using sr False by (auto simp: step_result_def)
    let ?p = "renew rd s p"
    consider (cancelled) "rn_Cancelled rd \<or> \<not> pt_Deadline ?p < rn_Now rd \<and> rn_WaitCancelled rd"
      | (lost) "\<not> rn_Cancelled rd" "pt_Deadline ?p < rn_Now rd"
      | (on) "\<not> rn_Cancelled rd" "\<not> pt_Deadline ?p < rn_Now rd" "\<not> rn_WaitCancelled rd" by blast
    then show ?thesis
    proof cases
      case cancelled
      then have "s' = s \<and> k' = k \<and> res' = Inl (CancelledRun (xn_RunID run) (rn_CancelFails rd))"
        using "3.prems"(1) rid mr by (auto simp: Let_def split: if_splits)
      then show ?thesis using pr unfolding received_def by blast
    next
      case lost
      then have "s' = s \<and> k' = k \<and> res' = Inl (LostRun (xn_RunID run) e)"
        using "3.prems"(1) rid mr by (auto simp: Let_def)
      then show ?thesis using pr m unfolding received_def by blast
    next
      case on
      let ?a = "rn_Answer rd (next_request start s)"
      have "honest_reply run fs (asked_from (next_request start s)) ?a" using "3.prems"(4) by (simp add: honest_def)
      then have h: "honest_reply run fs (st_Offset s) ?a" using next_request_from [OF pr "3.prems"(5)] by simp
      obtain j r1 s1 k1 where o: "openStream ?a s k = (r1, s1, k1)" "progress run fs k0 (m + j) s1 k1" "step_result fs (m + j) r1 s1"
        using openStream_honest [OF pr m assms(4,5) progress_sink [OF pr assms(6)] h] by blast
      have f: "follow start rds (?p\<lparr>pt_Backoff := min (2 * pt_Backoff ?p) max_backoff\<rparr>) (r1, s1, k1) = Some (res', s', k')"
        using "3.prems"(1) on mr by (simp add: Let_def o(1))
      have hr: "list_all (\<lambda>rd. honest run fs (rn_Answer rd)) rds" using "3.prems"(4) by simp
      have mr': "\<not> \<not> may_retry e" using mr by simp
      show ?thesis by (rule "3.hyps" [OF on(1) mr' refl on(2,3) o(1) f o(2,3) hr "3.prems"(5)])
    qed
  qed
qed

lemma spool_final: "spool_ok a fs \<Longrightarrow> final_frame (last fs)"
  by (induction a fs rule: spool_ok.induct) (auto split: if_splits)

lemma client_Exec_received:
  assumes "spool_ok False fs" and "run_ok run" and "open_sink k0" and "honest run fs net" and "list_all (\<lambda>rd. honest run fs (rn_Answer rd)) rds"
    and "client_Exec rnd (xn_RunID run) net now rds k0 = Some (res, s, k)"
  shows "received run fs k0 res s k"
proof -
  have rid: "xn_RunID run \<noteq> []" using assms(2) ValidRunID_valid by (simp add: run_ok_def)
  have m: "0 < length fs" using assms(1) by (cases fs) auto
  let ?s = "new_stream (xn_RunID run)"
  have p: "progress run fs k0 0 ?s k0" by (simp add: progress_def new_stream_def spool_bytes_def responses_of_def output_of_def)
  have h: "honest_reply run fs (st_Offset ?s) (net ExecRequest)"
    using assms(4) [unfolded honest_def, rule_format, of ExecRequest] by (simp add: asked_from_def new_stream_def)
  obtain j r1 s1 k1 where o: "openStream (net ExecRequest) ?s k0 = (r1, s1, k1)" "progress run fs k0 (0 + j) s1 k1" "step_result fs (0 + j) r1 s1"
    using openStream_honest [OF p m assms(1,2,3) h] by blast
  have f: "follow ExecRequest rds \<lparr>pt_Offset = st_Offset s1, pt_Backoff = first_backoff, pt_Deadline = now + ReattachTimeout\<rparr> (r1, s1, k1) = Some (res, s, k)"
    using assms(6) rid by (simp add: client_Exec_def client_run_def o(1))
  show ?thesis by (rule follow_received [OF f o(2,3) assms(1,2,3,5)]) (simp add: asked_from_def)
qed

text \<open>A round in which the gateway delivers all there is.\<close>

definition delivers :: "ExecRun \<Rightarrow> frame list \<Rightarrow> (request \<Rightarrow> reply) \<Rightarrow> bool" where
  "delivers run fs net \<longleftrightarrow> (\<forall>rq. \<exists>e. net rq = Body ExecContentType \<lparr>rd_Data = stream_bytes run fs (asked_from rq), rd_End = e\<rparr>)"

definition patient_round :: "int \<Rightarrow> round \<Rightarrow> bool" where
  "patient_round now rd \<longleftrightarrow> \<not> rn_Cancelled rd \<and> \<not> rn_WaitCancelled rd \<and> now \<le> rn_Now rd \<and> rn_Now rd \<le> now + ReattachTimeout"

lemma openStream_delivers:
  assumes p: "progress run fs k0 m s k" and m: "m < length fs" and fs: "spool_ok False fs" and run: "run_ok run" and k: "open_sink k"
  shows "\<exists>res s' k'. openStream (Body ExecContentType \<lparr>rd_Data = stream_bytes run fs (st_Offset s), rd_End = e\<rparr>) s k = (res, s', k') \<and>
    progress run fs k0 (length fs) s' k' \<and> step_result fs (length fs) res s'"
proof -
  let ?d = "stream_bytes run fs (st_Offset s)"
  from stream_Read_honest [OF p m fs run k, of "length ?d" e] obtain res s' k' where
    r: "stream_Read \<lparr>rd_Data = take (length ?d) ?d, rd_End = e\<rparr> s k = (res, s', k')"
    "progress run fs k0 (length fs) s' k'" "step_result fs (length fs) (map_sum StreamFailed (\<lambda>x. x) res) s'" by auto
  have "openStream (Body ExecContentType \<lparr>rd_Data = ?d, rd_End = e\<rparr>) s k = (map_sum StreamFailed (\<lambda>x. x) res, s', k')"
    using r(1) by (simp add: openStream_def transportError_def map_result_def)
  then show ?thesis using r(2,3) by blast
qed

lemma follow_finishes:
  assumes "spool_ok False fs" and "fst (last fs) = FrameResult" and "run_ok run" and "open_sink k0"
    and "list_all (\<lambda>rd. honest run fs (rn_Answer rd) \<and> patient_round now rd) rds"
    and "progress run fs k0 m s k" and "step_result fs m res s" and "asked_from start = 0" and "now + ReattachTimeout \<le> pt_Deadline p"
    and "m = length fs \<or> list_ex (\<lambda>rd. delivers run fs (rn_Answer rd)) rds"
  shows "\<exists>x s' k'. follow start rds p (res, s, k) = Some (Inr x, s', k')"
  using assms(5-)
proof (induction rds arbitrary: p m s k res)
  case (Cons rd rds)
  show ?case
  proof (cases "m = length fs")
    case True
    then show ?thesis using Cons.prems(3) assms(2) by (simp add: step_result_def outcome_of_def frame_kinds Let_def)
  next
    case False
    then have m: "m < length fs" using Cons.prems(2) by (simp add: progress_def)
    obtain e where e: "res = Inl e" "may_retry e" using Cons.prems(3) False by (auto simp: step_result_def)
    let ?p = "renew rd s p"
    let ?a = "rn_Answer rd (next_request start s)"
    have pr: "patient_round now rd" and hn: "honest run fs (rn_Answer rd)" using Cons.prems(1) by simp_all
    have d: "now + ReattachTimeout \<le> pt_Deadline ?p" using Cons.prems(5) pr by (simp add: renew_def patient_round_def)
    then have nl: "\<not> pt_Deadline ?p < rn_Now rd" using pr by (simp add: patient_round_def)
    have step: "follow start (rd # rds) p (res, s, k) = follow start rds (?p\<lparr>pt_Backoff := min (2 * pt_Backoff ?p) max_backoff\<rparr>) (openStream ?a s k)"
      using pr nl e by (simp add: Let_def patient_round_def)
    have k: "open_sink k" by (rule progress_sink [OF Cons.prems(2) assms(4)])
    have rest: "list_all (\<lambda>rd. honest run fs (rn_Answer rd) \<and> patient_round now rd) rds" using Cons.prems(1) by simp
    have d': "now + ReattachTimeout \<le> pt_Deadline (?p\<lparr>pt_Backoff := min (2 * pt_Backoff ?p) max_backoff\<rparr>)" using d by simp
    show ?thesis
    proof (cases "delivers run fs (rn_Answer rd)")
      case True
      then obtain x where "?a = Body ExecContentType \<lparr>rd_Data = stream_bytes run fs (asked_from (next_request start s)), rd_End = x\<rparr>"
        unfolding delivers_def by blast
      then have a: "?a = Body ExecContentType \<lparr>rd_Data = stream_bytes run fs (st_Offset s), rd_End = x\<rparr>"
        unfolding next_request_from [OF Cons.prems(2,4)] .
      obtain r1 s1 k1 where o: "openStream ?a s k = (r1, s1, k1)" "progress run fs k0 (length fs) s1 k1" "step_result fs (length fs) r1 s1"
        using openStream_delivers [OF Cons.prems(2) m assms(1,3) k, of x] unfolding a by blast
      show ?thesis unfolding step o(1) by (rule Cons.IH [OF rest o(2,3) Cons.prems(4) d']) simp
    next
      case False
      then have ex: "list_ex (\<lambda>rd. delivers run fs (rn_Answer rd)) rds" using Cons.prems(6) m by simp
      have "honest_reply run fs (asked_from (next_request start s)) ?a" using hn by (simp add: honest_def)
      then have h: "honest_reply run fs (st_Offset s) ?a" unfolding next_request_from [OF Cons.prems(2,4)] .
      obtain j r1 s1 k1 where o: "openStream ?a s k = (r1, s1, k1)" "progress run fs k0 (m + j) s1 k1" "step_result fs (m + j) r1 s1"
        using openStream_honest [OF Cons.prems(2) m assms(1,3) k h] by blast
      show ?thesis unfolding step o(1) by (rule Cons.IH [OF rest o(2,3) Cons.prems(4) d']) (use ex in simp)
    qed
  qed
next
  case Nil
  then show ?case using assms(2) by (simp add: step_result_def outcome_of_def frame_kinds Let_def)
qed

lemma client_Exec_finishes:
  assumes "spool_ok False fs" and "fst (last fs) = FrameResult" and "run_ok run" and "open_sink k0" and "honest run fs net"
    and "list_all (\<lambda>rd. honest run fs (rn_Answer rd) \<and> patient_round now rd) rds" and "list_ex (\<lambda>rd. delivers run fs (rn_Answer rd)) rds"
  shows "\<exists>x s k. client_Exec rnd (xn_RunID run) net now rds k0 = Some (Inr x, s, k)"
proof -
  have rid: "xn_RunID run \<noteq> []" using assms(3) ValidRunID_valid by (simp add: run_ok_def)
  have m: "0 < length fs" using assms(1) by (cases fs) auto
  let ?s = "new_stream (xn_RunID run)"
  have p: "progress run fs k0 0 ?s k0" by (simp add: progress_def new_stream_def spool_bytes_def responses_of_def output_of_def)
  have h: "honest_reply run fs (st_Offset ?s) (net ExecRequest)"
    using assms(5) [unfolded honest_def, rule_format, of ExecRequest] by (simp add: asked_from_def new_stream_def)
  obtain j r1 s1 k1 where o: "openStream (net ExecRequest) ?s k0 = (r1, s1, k1)" "progress run fs k0 (0 + j) s1 k1" "step_result fs (0 + j) r1 s1"
    using openStream_honest [OF p m assms(1,3,4) h] by blast
  let ?p = "\<lparr>pt_Offset = st_Offset s1, pt_Backoff = first_backoff, pt_Deadline = now + ReattachTimeout\<rparr>"
  from follow_finishes [OF assms(1-4,6) o(2,3), of ExecRequest ?p] assms(7) obtain x s k where
    f: "follow ExecRequest rds ?p (r1, s1, k1) = Some (Inr x, s, k)" by (auto simp: asked_from_def)
  then show ?thesis using rid by (simp add: client_Exec_def client_run_def o(1))
qed

section \<open>Properties\<close>

text \<open>
  C17. However often and wherever the connections of a run break, a client that stops has passed on the
  output of some first frames of its spool, in order and each exactly once, and stands at their end; it
  has the result only with the whole spool, and then with every response.
\<close>

theorem stream_resumes:
  assumes "spool_ok False fs" and "run_ok run" and "open_sink k0" and "honest run fs net" and "list_all (\<lambda>rd. honest run fs (rn_Answer rd)) rds"
    and "client_Exec rnd (xn_RunID run) net now rds k0 = Some (res, s, k)"
  shows "\<exists>m. m \<le> length fs \<and> st_Offset s = length (spool_bytes (take m fs)) \<and> st_Responses s = responses_of (take m fs) \<and>
    wr_Out (sk_Stdout k) = wr_Out (sk_Stdout k0) @ output_of FrameStdout (take m fs) \<and>
    wr_Out (sk_Stderr k) = wr_Out (sk_Stderr k0) @ output_of FrameStderr (take m fs) \<and>
    (case res of
       Inr x \<Rightarrow> m = length fs \<and> xs_RunID x = xn_RunID run \<and> xs_Responses x = responses_of fs \<and>
         (\<exists>f. unmarshal_ExecFinal (snd (last fs)) = Some f \<and> xs_ExitCode x = xf_ExitCode f \<and> xs_Truncated x = xf_Truncated f)
     | Inl (StreamFailed e) \<Rightarrow> m = length fs \<and> (\<exists>x. e = APIError 0 (er_Code x) (er_Error x) \<and> unmarshal_ErrorResponse (snd (last fs)) = Some x)
     | Inl e \<Rightarrow> (\<exists>x. e = CancelledRun (xn_RunID run) x) \<or> m < length fs \<and> (\<exists>x. e = LostRun (xn_RunID run) x))"
proof -
  from client_Exec_received [OF assms] obtain m where p: "progress run fs k0 m s k"
    and r: "m = length fs \<and> res = map_sum StreamFailed (\<lambda>x. x) (outcome_of (last fs) s) \<or>
      (\<exists>x. res = Inl (CancelledRun (xn_RunID run) x)) \<or> m < length fs \<and> (\<exists>x. res = Inl (LostRun (xn_RunID run) x))"
    unfolding received_def by blast
  have f: "final_frame (last fs)" by (rule spool_final [OF assms(1)])
  show ?thesis
    using p r f by (intro exI [of _ m]) (auto simp: progress_def outcome_of_def final_frame_def frame_kinds Let_def)
qed

text \<open>
  C27. A client whose gateway keeps answering honestly within its patience and once delivers all there
  is ends with the result, and with every byte of output and every response.
\<close>

theorem patient_client_finishes:
  assumes "spool_ok False fs" and "fst (last fs) = FrameResult" and "run_ok run" and "open_sink k0" and "honest run fs net"
    and "list_all (\<lambda>rd. honest run fs (rn_Answer rd) \<and> patient_round now rd) rds" and "list_ex (\<lambda>rd. delivers run fs (rn_Answer rd)) rds"
  shows "\<exists>x s k. client_Exec rnd (xn_RunID run) net now rds k0 = Some (Inr x, s, k) \<and> xs_Responses x = responses_of fs \<and>
    wr_Out (sk_Stdout k) = wr_Out (sk_Stdout k0) @ output_of FrameStdout fs \<and>
    wr_Out (sk_Stderr k) = wr_Out (sk_Stderr k0) @ output_of FrameStderr fs"
proof -
  obtain x s k where e: "client_Exec rnd (xn_RunID run) net now rds k0 = Some (Inr x, s, k)"
    using client_Exec_finishes [OF assms] by blast
  have hs: "list_all (\<lambda>rd. honest run fs (rn_Answer rd)) rds" using assms(6) by (auto simp: list_all_iff)
  from client_Exec_received [OF assms(1,3,4,5) hs e] obtain m where
    "progress run fs k0 m s k" "m = length fs" "Inr x = map_sum StreamFailed (\<lambda>x. x) (outcome_of (last fs) s)"
    unfolding received_def by auto
  then show ?thesis using e assms(2) by (auto simp: progress_def outcome_of_def frame_kinds Let_def)
qed

section \<open>Witnesses\<close>

definition one_run :: ExecRun where
  "one_run = \<lparr>xn_RunID = NewRunID (replicate 16 CHR ''a''), xn_ReqID = ''r''\<rparr>"

definition one_final :: ExecFinal where
  "one_final = \<lparr>xf_ExitCode = 0, xf_Truncated = False, xf_TargetKind = ''host''\<rparr>"

definition one_spool :: "frame list" where
  "one_spool = [(FrameStdout, ''hi''), (FrameStderr, ''!''), (FrameResult, exec_final_json one_final)]"

definition one_sink :: sink where
  "one_sink = \<lparr>sk_Stdout = \<lparr>wr_Out = [], wr_Room = None\<rparr>, sk_Stderr = \<lparr>wr_Out = [], wr_Room = None\<rparr>, sk_Runs = []\<rparr>"

text \<open>The first connection breaks within the first frame of output; the second delivers the rest.\<close>

definition broken_net :: "request \<Rightarrow> reply" where
  "broken_net rq = Body ExecContentType \<lparr>rd_Data = take 75 (stream_bytes one_run one_spool (asked_from rq)), rd_End = Some ''reset''\<rparr>"

definition whole_net :: "request \<Rightarrow> reply" where
  "whole_net rq = Body ExecContentType \<lparr>rd_Data = stream_bytes one_run one_spool (asked_from rq), rd_End = None\<rparr>"

definition one_round :: round where
  "one_round = \<lparr>rn_Cancelled = False, rn_Now = 1, rn_WaitCancelled = False, rn_CancelFails = False, rn_Answer = whole_net\<rparr>"

lemma one_final_reads: "unmarshal_ExecFinal (exec_final_json one_final) = Some one_final"
proof -
  have "valid_string ''host''" by (rule valid_ascii) (simp add: ascii_def)
  then show ?thesis using exec_final_roundtrip [of one_final] by (simp add: one_final_def int64_def json_clean_valid)
qed

lemma one_spool_ok: "spool_ok False one_spool"
proof -
  have "length (exec_final_json one_final) \<le> 10000"
    using json_object_length [of "[field ''exit_code'' (int_dec 0), bool_opt ''truncated'' False, field_opt ''target_kind'' ''host'']"]
      member_size_field [of "int_dec 0" 20 "''exit_code''"] int_dec_length [of 0] member_size_opt [of "''target_kind''" "''host''"]
    by (simp add: exec_final_json_def one_final_def bool_opt_def)
  then show ?thesis using one_final_reads
    by (simp add: one_spool_def frame_ok_def data_frame_def message_frame_def frame_limit_def frame_kinds MaxDataFrameBytes_def
      MaxMessageFrameBytes_def final_frame_def)
qed

lemma one_run_ok: "run_ok one_run"
proof -
  have "valid_string ''r''" by (rule valid_ascii) (simp add: ascii_def)
  then show ?thesis by (simp add: run_ok_def one_run_def NewRunID_ValidRunID)
qed

lemma one_honest: "honest one_run one_spool broken_net" "honest one_run one_spool whole_net"
proof -
  show "honest one_run one_spool broken_net" by (auto simp: honest_def honest_reply_def broken_net_def)
  have "\<exists>m. d = take m d" for d :: string by (rule exI [of _ "length d"]) simp
  then show "honest one_run one_spool whole_net" by (simp add: honest_def honest_reply_def whole_net_def)
qed

lemma one_patient: "list_all (\<lambda>rd. honest one_run one_spool (rn_Answer rd) \<and> patient_round 0 rd) [one_round]"
  using one_honest by (simp add: one_round_def patient_round_def ReattachTimeout_def)

lemma one_delivers: "list_ex (\<lambda>rd. delivers one_run one_spool (rn_Answer rd)) [one_round]"
  by (simp add: delivers_def one_round_def whole_net_def)

lemma one_setup: "fst (last one_spool) = FrameResult" "open_sink one_sink"
  by (simp_all add: one_spool_def open_sink_def unbounded_def one_sink_def)

theorem stream_resumes_witness:
  "\<exists>x s k. client_Exec [] (xn_RunID one_run) broken_net 0 [one_round] one_sink = Some (Inr x, s, k) \<and>
     st_Offset s = length (spool_bytes one_spool) \<and> xs_ExitCode x = 0"
proof -
  obtain x s k where e: "client_Exec [] (xn_RunID one_run) broken_net 0 [one_round] one_sink = Some (Inr x, s, k)"
    using client_Exec_finishes [OF one_spool_ok one_setup(1) one_run_ok one_setup(2) one_honest(1) one_patient one_delivers] by blast
  have h: "list_all (\<lambda>rd. honest one_run one_spool (rn_Answer rd)) [one_round]" using one_patient by simp
  have z: "xf_ExitCode one_final = 0" by (simp add: one_final_def)
  from stream_resumes [OF one_spool_ok one_run_ok one_setup(2) one_honest(1) h e] show ?thesis
    using e one_final_reads z by (auto simp: one_spool_def)
qed

theorem patient_client_finishes_witness:
  "\<exists>x s k. client_Exec [] (xn_RunID one_run) broken_net 0 [one_round] one_sink = Some (Inr x, s, k) \<and> wr_Out (sk_Stdout k) = ''hi''"
proof -
  have "output_of FrameStdout one_spool = ''hi''" by (simp add: output_of_def one_spool_def frame_kinds)
  then show ?thesis
    using patient_client_finishes [OF one_spool_ok one_setup(1) one_run_ok one_setup(2) one_honest(1) one_patient one_delivers, of "[]"]
    by (auto simp: one_sink_def)
qed

end
