(* ===== verification/RunSpool.thy ===== *)
theory RunSpool
  imports ExecStream
begin

text \<open>
  One run of the gateway (\<open>internal/gateway/runstore.go\<close>, \<open>exec.go\<close>, \<open>standing.go\<close>): the frames it
  writes to its spool under a hard cap, with space held back for the smallest form of every response and
  for the final frame. The spool is a writer that fails once the disk is full. The main results: the cap
  is never exceeded, the result always fits, and what a finished run leaves is a spool a client reads.
\<close>

section \<open>Records and runs\<close>

definition stateRunning :: string where "stateRunning = ''running''"
definition stateFinished :: string where "stateFinished = ''finished''"
definition stateCancelled :: string where "stateCancelled = ''cancelled''"
definition stateEvicted :: string where "stateEvicted = ''evicted''"

lemmas run_states = stateRunning_def stateFinished_def stateCancelled_def stateEvicted_def

record runRecord =
  rr_RunID :: string
  rr_DeviceID :: string
  rr_State :: string
  rr_CreatedAt :: string
  rr_FinishedAt :: string
  rr_EvictedAt :: string
  rr_RequestSHA256 :: string
  rr_ReqID :: string
  rr_Frames :: string
  rr_Broken :: bool
  rr_CancelReason :: string

text \<open>Why a device may no longer act; without a reason it may.\<close>

record lostStanding =
  lo_Code :: string
  lo_Reason :: string

definition no_loss :: lostStanding where "no_loss = \<lparr>lo_Code = [], lo_Reason = []\<rparr>"

text \<open>\<open>ru_Wakes\<close> counts how often waiting readers were woken, \<open>ru_Cancelled\<close> the causes the run was cancelled with.\<close>

record gw_run =
  ru_ID :: string
  ru_DeviceID :: string
  ru_RequestSHA256 :: string
  ru_ReqID :: string
  ru_Limit :: int
  ru_Identities :: "string list"
  ru_Record :: runRecord
  ru_File :: writer
  ru_Size :: int
  ru_Pending :: int
  ru_Truncated :: bool
  ru_Done :: bool
  ru_Err :: "error option"
  ru_Wakes :: nat
  ru_Cancel :: bool
  ru_Cancelled :: "string list"
  ru_Stopped :: lostStanding

definition responseReserveBytes :: int where "responseReserveBytes = 32768"
definition finalReserveBytes :: int where "finalReserveBytes = 1024"
definition minimalFieldBytes :: nat where "minimalFieldBytes = 256"

lemmas reserves = responseReserveBytes_def finalReserveBytes_def

section \<open>Writing the spool\<close>

definition roomLocked :: "gw_run \<Rightarrow> int" where
  "roomLocked r = ru_Limit r - ru_Size r - ru_Pending r * responseReserveBytes - finalReserveBytes"

definition buffer :: writer where "buffer = \<lparr>wr_Out = [], wr_Room = None\<rparr>"

definition appendLocked :: "char \<Rightarrow> string \<Rightarrow> gw_run \<Rightarrow> gw_run \<times> bool" where
  "appendLocked kind payload r =
     (if ru_Err r \<noteq> None then (r, False)
      else case WriteFrame kind payload buffer of
        (_, Some e) \<Rightarrow> (r\<lparr>ru_Err := Some (Sentinel ''frame'')\<rparr>, False)
      | (b, None) \<Rightarrow>
          let frame = wr_Out b in
          if ru_Limit r < ru_Size r + int (length frame) then (r, False)
          else let (f, ok) = write_bytes frame (ru_File r) in
            if \<not> ok then (r\<lparr>ru_File := f, ru_Err := Some (Sentinel ''write'')\<rparr>, False)
            else (r\<lparr>ru_File := f, ru_Size := ru_Size r + int (length frame), ru_Wakes := Suc (ru_Wakes r)\<rparr>, True))"

function data :: "char \<Rightarrow> string \<Rightarrow> gw_run \<Rightarrow> gw_run" where
  "data kind p r =
     (if p = [] then r
      else let chunk = take MaxDataFrameBytes p in
        if ru_Truncated r \<or> roomLocked r < int (FrameSize (length chunk)) then r\<lparr>ru_Truncated := True\<rparr>
        else data kind (drop (length chunk) p) (fst (appendLocked kind chunk r)))"
  by pat_completeness auto
termination
  by (relation "measure (\<lambda>(kind, p, r). length p)") (auto simp: MaxDataFrameBytes_def)

declare data.simps [simp del]

definition clip :: "string \<Rightarrow> string" where
  "clip s = (if length s \<le> minimalFieldBytes then s else take minimalFieldBytes s)"

definition minimalResponse :: "Response \<Rightarrow> Response" where
  "minimalResponse r = no_response\<lparr>rsp_ExecutionState := clip (rsp_ExecutionState r), rsp_NextAction := clip (rsp_NextAction r),
     rsp_ReqID := clip (rsp_ReqID r), rsp_SessionID := clip (rsp_SessionID r), rsp_Host := clip (rsp_Host r),
     rsp_CmdSHA256 := clip (rsp_CmdSHA256 r), rsp_Status := clip (rsp_Status r), rsp_ExitCode := rsp_ExitCode r,
     rsp_DurationMS := rsp_DurationMS r, rsp_OutputTruncated := True, rsp_PolicyAction := clip (rsp_PolicyAction r),
     rsp_PolicyRule := clip (rsp_PolicyRule r), rsp_ApprovalID := clip (rsp_ApprovalID r)\<rparr>"

definition stripped :: "Response \<Rightarrow> Response" where
  "stripped r = r\<lparr>rsp_Stdout := [], rsp_Stderr := [], rsp_OutputTruncated := True\<rparr>"

definition response_fits :: "gw_run \<Rightarrow> string \<Rightarrow> bool" where
  "response_fits r payload \<longleftrightarrow> length payload \<le> MaxMessageFrameBytes \<and> int (FrameSize (length payload)) \<le> roomLocked r"

definition put_response :: "Response \<Rightarrow> gw_run \<Rightarrow> gw_run" where
  "put_response response r0 =
     (let r = (if 0 < ru_Pending r0 then r0\<lparr>ru_Pending := ru_Pending r0 - 1\<rparr> else r0) in
      if \<not> ru_Truncated r \<and> response_fits r (response_json response) then fst (appendLocked FrameResponse (response_json response) r)
      else let r1 = r\<lparr>ru_Truncated := True\<rparr> in
        if response_fits r1 (response_json (stripped response)) then fst (appendLocked FrameResponse (response_json (stripped response)) r1)
        else let (r2, ok) = appendLocked FrameResponse (response_json (minimalResponse response)) r1 in
          if ok then r2 else r2\<lparr>ru_Err := Some (Sentinel ''minimal'')\<rparr>)"

text \<open>Closing the file may fail, and so may the write of the record: then the result is \<open>None\<close> beside the run.\<close>

definition finish :: "char \<Rightarrow> string \<Rightarrow> instant \<Rightarrow> bool \<Rightarrow> bool \<Rightarrow> gw_run \<Rightarrow> gw_run \<times> runRecord option" where
  "finish kind payload now close_fails write_fails r0 =
     (let (r, ok) = appendLocked kind payload r0;
          e1 = (if \<not> ok \<and> ru_Err r = None then Some (Sentinel ''final'') else ru_Err r);
          e2 = (if close_fails \<and> e1 = None then Some (Sentinel ''close'') else e1);
          rec' = (ru_Record r)\<lparr>rr_State := stateFinished, rr_FinishedAt := FormatTime now, rr_Broken := (e2 \<noteq> None)\<rparr> in
      (r\<lparr>ru_Err := e2, ru_Record := rec', ru_Done := True, ru_Wakes := Suc (ru_Wakes r)\<rparr>, if write_fails then None else Some rec'))"

definition snapshot :: "gw_run \<Rightarrow> int \<times> bool \<times> bool \<times> nat" where
  "snapshot r = (ru_Size r, ru_Done r, ru_Err r \<noteq> None, ru_Wakes r)"

section \<open>Stopping and executing\<close>

definition stop_run :: "lostStanding \<Rightarrow> gw_run \<Rightarrow> gw_run \<times> bool" where
  "stop_run lost r =
     (if ru_Done r \<or> \<not> ru_Cancel r then (r, False)
      else let r1 = (if lo_Reason (ru_Stopped r) = [] then
             r\<lparr>ru_Stopped := lost, ru_Record := (ru_Record r)\<lparr>rr_CancelReason := lo_Reason lost\<rparr>\<rparr> else r) in
        (r1\<lparr>ru_Cancelled := ru_Cancelled r1 @ [lo_Reason lost]\<rparr>, True))"

text \<open>
  How a run of the pipeline ends for the device: an error it names (a usage error, or too many pending
  requests), one it does not, or an outcome. The texts of errors are given.
\<close>

datatype pipeline_end =
    UsageError string
  | TooManyPending string
  | OtherError
  | Ended Outcome

definition CodeUsage :: string where "CodeUsage = ''usage''"
definition CodeBusy :: string where "CodeBusy = ''busy''"

definition final_of :: "Outcome \<Rightarrow> string \<Rightarrow> gw_run \<Rightarrow> ExecFinal" where
  "final_of out kind r = \<lparr>xf_ExitCode = (if ru_Truncated r then MergeExitCode (oc_ExitCode out) ExitRemoteFailed else oc_ExitCode out),
     xf_Truncated = ru_Truncated r, xf_TargetKind = kind\<rparr>"

definition conclude :: "pipeline_end \<Rightarrow> string \<Rightarrow> instant \<Rightarrow> bool \<Rightarrow> bool \<Rightarrow> gw_run \<Rightarrow> gw_run \<times> runRecord option" where
  "conclude e kind now close_fails write_fails r =
     (if lo_Reason (ru_Stopped r) \<noteq> [] then
        finish FrameError (error_json \<lparr>er_Code = lo_Code (ru_Stopped r), er_Error = ''the gateway stopped this command: '' @ lo_Reason (ru_Stopped r)\<rparr>)
          now close_fails write_fails r
      else case e of
        UsageError m \<Rightarrow> finish FrameError (error_json \<lparr>er_Code = CodeUsage, er_Error = m\<rparr>) now close_fails write_fails r
      | TooManyPending m \<Rightarrow> finish FrameError (error_json \<lparr>er_Code = CodeBusy, er_Error = m\<rparr>) now close_fails write_fails r
      | OtherError \<Rightarrow> finish FrameError (error_json \<lparr>er_Code = CodeInternal, er_Error = ''execution failed''\<rparr>) now close_fails write_fails r
      | Ended out \<Rightarrow>
          let r1 = fold put_response (oc_Responses out) r in
          finish FrameResult (exec_final_json (final_of out kind r1)) now close_fails write_fails r1)"

section \<open>The cap\<close>

text \<open>What the file holds never exceeds the limit, whatever the disk does.\<close>

definition capped :: "gw_run \<Rightarrow> bool" where
  "capped r \<longleftrightarrow> int (length (wr_Out (ru_File r))) \<le> ru_Limit r \<and> (ru_Err r = None \<longrightarrow> ru_Size r = int (length (wr_Out (ru_File r))))"

lemma write_bytes_length: "write_bytes p w = (w', ok) \<Longrightarrow> length (wr_Out w') \<le> length (wr_Out w) + length p \<and>
   (ok \<longrightarrow> wr_Out w' = wr_Out w @ p)"
  by (auto simp: write_bytes_def split: option.splits)

lemma appendLocked_capped: "capped r \<Longrightarrow> appendLocked k p r = (r', ok) \<Longrightarrow> capped r' \<and> ru_Limit r' = ru_Limit r"
  unfolding appendLocked_def
  by (auto simp: capped_def Let_def split: if_splits prod.splits option.splits dest!: write_bytes_length)

lemma capped_fields: "capped r \<Longrightarrow> capped (r\<lparr>ru_Truncated := b\<rparr>)" "capped r \<Longrightarrow> capped (r\<lparr>ru_Pending := n\<rparr>)"
  "capped r \<Longrightarrow> capped (r\<lparr>ru_Err := Some e\<rparr>)"
  by (simp_all add: capped_def)

lemma appendLocked_fst: "capped r \<Longrightarrow> capped (fst (appendLocked k p r)) \<and> ru_Limit (fst (appendLocked k p r)) = ru_Limit r"
  using appendLocked_capped [of r k p] by (cases "appendLocked k p r") auto

lemma data_capped: "capped r \<Longrightarrow> capped (data k p r) \<and> ru_Limit (data k p r) = ru_Limit r"
proof (induction k p r rule: data.induct)
  case (1 k p r)
  show ?case
  proof (cases "p = [] \<or> ru_Truncated r \<or> roomLocked r < int (FrameSize (length (take MaxDataFrameBytes p)))")
    case True
    then show ?thesis using 1(2) capped_fields by (subst (1 2) data.simps) (auto simp: Let_def)
  next
    case False
    then show ?thesis using 1(1) [OF _ refl] appendLocked_fst [OF 1(2), of k "take MaxDataFrameBytes p"]
      by (subst (1 2) data.simps) (simp add: Let_def)
  qed
qed

lemma put_response_capped: "capped r \<Longrightarrow> capped (put_response x r) \<and> ru_Limit (put_response x r) = ru_Limit r"
proof -
  assume c: "capped r"
  define r1 where "r1 = (if 0 < ru_Pending r then r\<lparr>ru_Pending := ru_Pending r - 1\<rparr> else r)"
  have c1: "capped r1" "ru_Limit r1 = ru_Limit r" using c capped_fields by (auto simp: r1_def)
  have c2: "capped (r1\<lparr>ru_Truncated := True\<rparr>)" using c1 capped_fields by blast
  obtain r2 ok where m: "appendLocked FrameResponse (response_json (minimalResponse x)) (r1\<lparr>ru_Truncated := True\<rparr>) = (r2, ok)" by fastforce
  show ?thesis
    using appendLocked_fst [OF c1(1)] appendLocked_fst [OF c2] appendLocked_capped [OF c2 m] c1(2)
    unfolding put_response_def r1_def [symmetric] by (auto simp: Let_def m capped_fields)
qed

lemma finish_capped: "capped r \<Longrightarrow> capped (fst (finish k p now cf wr r)) \<and> ru_Limit (fst (finish k p now cf wr r)) = ru_Limit r"
  using appendLocked_fst [of r k p] by (auto simp: finish_def Let_def capped_def split: prod.splits)

lemma stop_run_capped: "capped r \<Longrightarrow> capped (fst (stop_run l r)) \<and> ru_Limit (fst (stop_run l r)) = ru_Limit r"
  by (auto simp: stop_run_def capped_def Let_def)

text \<open>Everything that happens to a run.\<close>

datatype run_op =
    OpData char string
  | OpStop lostStanding
  | OpConclude pipeline_end string instant bool bool

fun run_step :: "run_op \<Rightarrow> gw_run \<Rightarrow> gw_run" where
  "run_step (OpData k p) r = data k p r"
| "run_step (OpStop l) r = fst (stop_run l r)"
| "run_step (OpConclude e kind now cf wr) r = fst (conclude e kind now cf wr r)"

lemma fold_responses_capped: "capped r \<Longrightarrow> capped (fold put_response xs r) \<and> ru_Limit (fold put_response xs r) = ru_Limit r"
  by (induction xs arbitrary: r) (auto simp: put_response_capped)

lemma run_step_capped: "capped r \<Longrightarrow> capped (run_step op r) \<and> ru_Limit (run_step op r) = ru_Limit r"
  by (cases op) (auto simp: data_capped stop_run_capped conclude_def finish_capped fold_responses_capped Let_def split: pipeline_end.split)

definition fresh :: "nat \<Rightarrow> gw_run \<Rightarrow> bool" where
  "fresh n r \<longleftrightarrow> ru_Err r = None \<and> wr_Out (ru_File r) = [] \<and> ru_Size r = 0 \<and> ru_Pending r = int n \<and> \<not> ru_Truncated r \<and> \<not> ru_Done r \<and> 0 \<le> ru_Limit r"

text \<open>
  C26. Whatever a run writes and whatever the disk does, its spool never takes more than the limit of
  the run.
\<close>

theorem spool_capped:
  assumes "fresh n r"
  shows "int (length (wr_Out (ru_File (fold run_step ops r)))) \<le> ru_Limit r"
proof -
  have "capped (fold run_step ops r) \<and> ru_Limit (fold run_step ops r) = ru_Limit r" if "capped r" for r
    using that by (induction ops arbitrary: r) (auto simp: run_step_capped)
  moreover have "capped r" using assms by (simp add: fresh_def capped_def)
  ultimately show ?thesis unfolding capped_def by metis
qed

section \<open>The minimal response\<close>

lemma clip_length: "length (clip s) \<le> 256"
  by (simp add: clip_def minimalFieldBytes_def)

lemma minimal_fits:
  assumes "int64 (rsp_ExitCode r)" and "int64 (rsp_DurationMS r)"
  shows "length (response_json (minimalResponse r)) \<le> 20000"
proof -
  have i: "\<bar>rsp_ExitCode r\<bar> < 10 ^ 19" "\<bar>rsp_DurationMS r\<bar> < 10 ^ 19" using assms by (auto simp: int64_def)
  have b: "length (json_bool True) \<le> 20" by (simp add: json_bool_def)
  have z: "length (int_dec 0) \<le> 20" by (rule int_dec_length) simp
  have s: "member_size (field n (json_string (clip s))) \<le> 6 * length n + 1542" for n s
    using member_size_string [of n "clip s"] clip_length [of s] by linarith
  have e: "member_size (field n (json_string [])) \<le> 6 * length n + 1542" for n
    using member_size_string [of n "[]"] by simp
  have o: "member_size (field_opt n (clip s)) \<le> 6 * length n + 1542" for n s
    using member_size_opt [of n "clip s"] clip_length [of s] by linarith
  have f: "member_size (field n v) \<le> 6 * length n + 24" if "length v \<le> 20" for n v using member_size_field [OF that, of n] by simp
  note d = f [OF int_dec_length [OF i(1)]] f [OF int_dec_length [OF i(2)]] f [OF b] f [OF z]
  show ?thesis
    unfolding response_json_def
    by (rule order_trans [OF json_object_length])
       (use s [of "''execution_state''" "rsp_ExecutionState r"] o [of "''next_action''" "rsp_NextAction r"] s [of "''req_id''" "rsp_ReqID r"]
          s [of "''session_id''" "rsp_SessionID r"] s [of "''host''" "rsp_Host r"] o [of "''cmd_sha256''" "rsp_CmdSHA256 r"]
          s [of "''status''" "rsp_Status r"] d(1) [of "''exit_code''"] d(2) [of "''duration_ms''"] e [of "''stdout''"] e [of "''stderr''"]
          d(3) [of "''output_truncated''"] d(4) [of "''redactions''"] o [of "''policy_action''" "rsp_PolicyAction r"]
          o [of "''policy_rule''" "rsp_PolicyRule r"] o [of "''approval_id''" "rsp_ApprovalID r"] in
        \<open>simp add: minimalResponse_def no_response_def int_opt_def bool_opt_def list_opt_def\<close>)
qed

section \<open>The spool a run leaves\<close>

lemma WriteFrame_ok: "frame_ok (k, p) \<Longrightarrow> WriteFrame k p buffer = (\<lparr>wr_Out = frame_bytes (k, p), wr_Room = None\<rparr>, None)"
proof -
  assume ok: "frame_ok (k, p)"
  have w: "writeFrame k p buffer = (\<lparr>wr_Out = frame_bytes (k, p), wr_Room = None\<rparr>, None)"
    by (simp add: writeFrame_def write_bytes_def buffer_def frame_bytes_def)
  have "writeSplit k p buffer = (buffer, Inr p)" if "length p \<le> MaxDataFrameBytes" using that by (subst writeSplit.simps) simp
  then show ?thesis using ok by (auto simp: WriteFrame_def frame_ok_def frame_limit_def w split: if_splits)
qed

text \<open>A run on a healthy disk that has written these frames and still holds its reserves.\<close>

definition holds :: "gw_run \<Rightarrow> frame list \<Rightarrow> bool" where
  "holds r fs \<longleftrightarrow> ru_Err r = None \<and> wr_Room (ru_File r) = None \<and> wr_Out (ru_File r) = spool_bytes fs \<and>
     ru_Size r = int (length (spool_bytes fs)) \<and> 0 \<le> ru_Pending r \<and> 0 \<le> roomLocked r"

lemma appendLocked_ok:
  assumes "ru_Err r = None" and "wr_Room (ru_File r) = None" and "wr_Out (ru_File r) = spool_bytes fs" and "ru_Size r = int (length (spool_bytes fs))"
    and "frame_ok (k, p)" and "ru_Size r + int (FrameSize (length p)) \<le> ru_Limit r"
  shows "appendLocked k p r = (r\<lparr>ru_File := \<lparr>wr_Out = spool_bytes (fs @ [(k, p)]), wr_Room = None\<rparr>,
    ru_Size := int (length (spool_bytes (fs @ [(k, p)]))), ru_Wakes := Suc (ru_Wakes r)\<rparr>, True)"
proof -
  have f: "ru_File r = \<lparr>wr_Out = spool_bytes fs, wr_Room = None\<rparr>" using assms(2,3) by (cases "ru_File r") simp
  have s: "spool_bytes (fs @ [(k, p)]) = spool_bytes fs @ frame_bytes (k, p)" by (simp add: spool_bytes_def)
  show ?thesis using assms(1,4,6) unfolding appendLocked_def WriteFrame_ok [OF assms(5)]
    by (simp add: write_bytes_def f s)
qed

lemma append_room:
  assumes "holds r fs" and "frame_ok (k, p)" and "int (FrameSize (length p)) \<le> roomLocked r"
  shows "\<exists>r'. appendLocked k p r = (r', True) \<and> holds r' (fs @ [(k, p)]) \<and> ru_Pending r' = ru_Pending r \<and> ru_Limit r' = ru_Limit r \<and>
    ru_Truncated r' = ru_Truncated r \<and> ru_Record r' = ru_Record r \<and> ru_Stopped r' = ru_Stopped r"
proof -
  have p: "0 \<le> ru_Pending r * responseReserveBytes" using assms(1) by (simp add: holds_def reserves)
  have l: "ru_Size r + int (FrameSize (length p)) \<le> ru_Limit r" using assms(3) p by (simp add: roomLocked_def reserves)
  have s: "int (length (spool_bytes (fs @ [(k, p)]))) = ru_Size r + int (FrameSize (length p))" using assms(1) by (simp add: holds_def spool_bytes_def)
  show ?thesis
    using appendLocked_ok [of r fs k p] assms(1,2) l assms(3) s by (auto simp: holds_def roomLocked_def)
qed

lemma data_holds:
  assumes "holds r fs" and "data_frame k"
  shows "\<exists>new. holds (data k p r) (fs @ new) \<and> list_all (\<lambda>f. fst f = k \<and> frame_ok f) new \<and>
    (if ru_Truncated (data k p r) then prefix (concat (map snd new)) p else concat (map snd new) = p) \<and>
    (ru_Truncated r \<longrightarrow> new = [] \<and> ru_Truncated (data k p r)) \<and>
    ru_Pending (data k p r) = ru_Pending r \<and> ru_Limit (data k p r) = ru_Limit r \<and> ru_Record (data k p r) = ru_Record r \<and> ru_Stopped (data k p r) = ru_Stopped r"
  using assms
proof (induction k p r arbitrary: fs rule: data.induct)
  case (1 k p r)
  let ?c = "take MaxDataFrameBytes p"
  consider (empty) "p = []" | (full) "p \<noteq> []" "ru_Truncated r \<or> roomLocked r < int (FrameSize (length ?c))"
    | (fits) "p \<noteq> []" "\<not> (ru_Truncated r \<or> roomLocked r < int (FrameSize (length ?c)))" by blast
  then show ?case
  proof cases
    case empty
    then have "data k p r = r" by (subst data.simps) simp
    then show ?thesis using 1(2) empty by (intro exI [of _ "[]"]) simp
  next
    case full
    then have d: "data k p r = r\<lparr>ru_Truncated := True\<rparr>" by (subst data.simps) (simp add: Let_def)
    show ?thesis unfolding d using 1(2) by (intro exI [of _ "[]"]) (simp add: holds_def roomLocked_def)
  next
    case fits
    then have d: "data k p r = data k (drop (length ?c) p) (fst (appendLocked k ?c r))" by (subst data.simps) (simp add: Let_def)
    have ok: "frame_ok (k, ?c)" using 1(3) by (simp add: frame_ok_def frame_limit_def)
    from append_room [OF 1(2) ok] fits(2) obtain r' where r': "appendLocked k ?c r = (r', True)" "holds r' (fs @ [(k, ?c)])"
      "ru_Pending r' = ru_Pending r" "ru_Limit r' = ru_Limit r" "ru_Truncated r' = ru_Truncated r" "ru_Record r' = ru_Record r" "ru_Stopped r' = ru_Stopped r" by auto
    have f: "fst (appendLocked k ?c r) = r'" using r'(1) by simp
    define q where "q = drop (length ?c) p"
    have cp: "p = ?c @ q" by (simp add: q_def min_def)
    obtain new where n: "holds (data k q r') ((fs @ [(k, ?c)]) @ new)" "list_all (\<lambda>f. fst f = k \<and> frame_ok f) new"
      "if ru_Truncated (data k q r') then prefix (concat (map snd new)) q else concat (map snd new) = q"
      "ru_Pending (data k q r') = ru_Pending r'" "ru_Limit (data k q r') = ru_Limit r'"
      "ru_Record (data k q r') = ru_Record r'" "ru_Stopped (data k q r') = ru_Stopped r'"
      using 1(1) [OF fits(1) refl fits(2), of "fs @ [(k, ?c)]"] r'(2) 1(3) unfolding f q_def by blast
    have "if ru_Truncated (data k q r') then prefix (?c @ concat (map snd new)) p else ?c @ concat (map snd new) = p"
      using n(3) cp by (metis same_prefix_prefix)
    then show ?thesis unfolding d f q_def [symmetric] using n r' ok fits(2) cp [symmetric] by (intro exI [of _ "(k, ?c) # new"]) simp
  qed
qed

lemma response_variants: "response_ints x \<Longrightarrow> response_ints (stripped x) \<and> response_ints (minimalResponse x)"
  by (simp add: response_ints_def stripped_def minimalResponse_def no_response_def int64_def)

lemma minimal_frame:
  assumes "response_ints x"
  shows "int (FrameSize (length (response_json (minimalResponse x)))) \<le> responseReserveBytes"
  using minimal_fits [of x] assms by (simp add: response_ints_def FrameSize_def frameHeaderBytes_def reserves)

lemma response_frame_ok: "length p \<le> MaxMessageFrameBytes \<Longrightarrow> frame_ok (FrameResponse, p)"
  by (simp add: frame_ok_def message_frame_def frame_limit_def data_frame_def frame_kinds)

lemma put_response_holds:
  assumes h: "holds r fs" and p: "0 < ru_Pending r" and x: "response_ints x"
  shows "\<exists>y. holds (put_response x r) (fs @ [(FrameResponse, response_json y)]) \<and> y \<in> {x, stripped x, minimalResponse x} \<and>
    frame_ok (FrameResponse, response_json y) \<and> ru_Pending (put_response x r) = ru_Pending r - 1 \<and> ru_Limit (put_response x r) = ru_Limit r \<and>
    ru_Record (put_response x r) = ru_Record r \<and> ru_Stopped (put_response x r) = ru_Stopped r \<and>
    (ru_Truncated r \<longrightarrow> ru_Truncated (put_response x r)) \<and> (\<not> ru_Truncated (put_response x r) \<longrightarrow> y = x)"
proof -
  define r1 where "r1 = r\<lparr>ru_Pending := ru_Pending r - 1\<rparr>"
  define r2 where "r2 = r1\<lparr>ru_Truncated := True\<rparr>"
  have h1: "holds r1 fs" "responseReserveBytes \<le> roomLocked r1"
    using h p by (auto simp: holds_def r1_def roomLocked_def reserves algebra_simps)
  have h2: "holds r2 fs" "roomLocked r2 = roomLocked r1" using h1 by (simp_all add: r2_def holds_def roomLocked_def)
  have f1: "ru_Pending r1 = ru_Pending r - 1" "ru_Limit r1 = ru_Limit r" "ru_Record r1 = ru_Record r" "ru_Stopped r1 = ru_Stopped r" "ru_Truncated r1 = ru_Truncated r"
    by (simp_all add: r1_def)
  have f2: "ru_Pending r2 = ru_Pending r - 1" "ru_Limit r2 = ru_Limit r" "ru_Record r2 = ru_Record r" "ru_Stopped r2 = ru_Stopped r" "ru_Truncated r2"
    by (simp_all add: r2_def r1_def)
  have unf: "put_response x r = (if \<not> ru_Truncated r1 \<and> response_fits r1 (response_json x) then fst (appendLocked FrameResponse (response_json x) r1)
      else if response_fits r2 (response_json (stripped x)) then fst (appendLocked FrameResponse (response_json (stripped x)) r2)
      else let (r', ok) = appendLocked FrameResponse (response_json (minimalResponse x)) r2 in
        if ok then r' else r'\<lparr>ru_Err := Some (Sentinel ''minimal'')\<rparr>)"
    using p by (simp add: put_response_def r1_def [symmetric] r2_def [symmetric] Let_def)
  consider (whole) "\<not> ru_Truncated r1 \<and> response_fits r1 (response_json x)"
    | (strip) "\<not> (\<not> ru_Truncated r1 \<and> response_fits r1 (response_json x))" "response_fits r2 (response_json (stripped x))"
    | (min) "\<not> (\<not> ru_Truncated r1 \<and> response_fits r1 (response_json x))" "\<not> response_fits r2 (response_json (stripped x))" by blast
  then show ?thesis
  proof cases
    case whole
    then have ok: "frame_ok (FrameResponse, response_json x)" "int (FrameSize (length (response_json x))) \<le> roomLocked r1"
      by (simp_all add: response_fits_def response_frame_ok)
    from append_room [OF h1(1) ok] show ?thesis using whole f1 ok(1) unfolding unf by (intro exI [of _ x]) auto
  next
    case strip
    then have ok: "frame_ok (FrameResponse, response_json (stripped x))" "int (FrameSize (length (response_json (stripped x)))) \<le> roomLocked r2"
      by (simp_all add: response_fits_def response_frame_ok)
    from append_room [OF h2(1) ok] show ?thesis using strip f2 ok(1) unfolding unf by (intro exI [of _ "stripped x"]) auto
  next
    case min
    have l: "length (response_json (minimalResponse x)) \<le> MaxMessageFrameBytes"
      using minimal_fits [of x] x by (simp add: response_ints_def MaxMessageFrameBytes_def)
    have ok: "frame_ok (FrameResponse, response_json (minimalResponse x))" "int (FrameSize (length (response_json (minimalResponse x)))) \<le> roomLocked r2"
      using response_frame_ok [OF l] minimal_frame [OF x] h1(2) h2(2) by simp_all
    from append_room [OF h2(1) ok] show ?thesis using min f2 ok(1) unfolding unf by (intro exI [of _ "minimalResponse x"]) auto
  qed
qed

text \<open>A response frame carries one of the three forms of its response.\<close>

definition answers_with :: "Response \<Rightarrow> frame \<Rightarrow> bool" where
  "answers_with x f \<longleftrightarrow> frame_ok f \<and> (\<exists>y \<in> {x, stripped x, minimalResponse x}. f = (FrameResponse, response_json y))"

lemma answers_response: "answers_with x f \<Longrightarrow> response_ints x \<Longrightarrow> response_frame f \<and> (\<exists>y \<in> {x, stripped x, minimalResponse x}. unmarshal_Response (snd f) = Some (clean_response y))"
  using response_variants [of x] response_roundtrip by (fastforce simp: answers_with_def response_frame_def)

lemma fold_put_response_holds:
  assumes "holds r fs" and "int (length xs) \<le> ru_Pending r" and "list_all response_ints xs"
  shows "\<exists>rs. holds (fold put_response xs r) (fs @ rs) \<and> list_all2 answers_with xs rs \<and>
    ru_Stopped (fold put_response xs r) = ru_Stopped r \<and> ru_Record (fold put_response xs r) = ru_Record r \<and>
    (ru_Truncated r \<longrightarrow> ru_Truncated (fold put_response xs r)) \<and>
    (\<not> ru_Truncated (fold put_response xs r) \<longrightarrow> rs = map (\<lambda>x. (FrameResponse, response_json x)) xs)"
  using assms
proof (induction xs arbitrary: r fs)
  case (Cons x xs)
  have "0 < ru_Pending r" "response_ints x" using Cons.prems by simp_all
  from put_response_holds [OF Cons.prems(1) this] obtain y where y:
    "holds (put_response x r) (fs @ [(FrameResponse, response_json y)])" "y \<in> {x, stripped x, minimalResponse x}" "frame_ok (FrameResponse, response_json y)"
    "ru_Pending (put_response x r) = ru_Pending r - 1" "ru_Record (put_response x r) = ru_Record r" "ru_Stopped (put_response x r) = ru_Stopped r"
    "ru_Truncated r \<longrightarrow> ru_Truncated (put_response x r)" "\<not> ru_Truncated (put_response x r) \<longrightarrow> y = x" by blast
  have "int (length xs) \<le> ru_Pending (put_response x r)" "list_all response_ints xs" using Cons.prems y(4) by simp_all
  from Cons.IH [OF y(1) this] obtain rs where rs: "holds (fold put_response xs (put_response x r)) ((fs @ [(FrameResponse, response_json y)]) @ rs)"
    "list_all2 answers_with xs rs" "ru_Stopped (fold put_response xs (put_response x r)) = ru_Stopped (put_response x r)"
    "ru_Record (fold put_response xs (put_response x r)) = ru_Record (put_response x r)"
    "ru_Truncated (put_response x r) \<longrightarrow> ru_Truncated (fold put_response xs (put_response x r))"
    "\<not> ru_Truncated (fold put_response xs (put_response x r)) \<longrightarrow> rs = map (\<lambda>x. (FrameResponse, response_json x)) xs" by blast
  have a: "answers_with x (FrameResponse, response_json y)" unfolding answers_with_def using y(2,3) by blast
  show ?case
    using rs y a by (intro exI [of _ "(FrameResponse, response_json y) # rs"]) auto
qed (auto intro: exI [of _ "[]"])

definition put_all :: "(char \<times> string) list \<Rightarrow> gw_run \<Rightarrow> gw_run" where
  "put_all ds r = fold (\<lambda>(k, p). data k p) ds r"

lemma output_of_new: "list_all (\<lambda>f. fst f = k \<and> frame_ok f) new \<Longrightarrow> output_of c new = (if c = k then concat (map snd new) else [])"
  by (induction new) (auto simp: output_of_def)

lemma put_all_holds:
  assumes "holds r fs" and "list_all (\<lambda>d. data_frame (fst d)) ds"
  shows "\<exists>new. holds (put_all ds r) (fs @ new) \<and> list_all (\<lambda>f. data_frame (fst f) \<and> frame_ok f) new \<and>
    (\<forall>c. if ru_Truncated (put_all ds r) then prefix (output_of c new) (output_of c ds) else output_of c new = output_of c ds) \<and>
    (ru_Truncated r \<longrightarrow> new = [] \<and> ru_Truncated (put_all ds r)) \<and>
    ru_Pending (put_all ds r) = ru_Pending r \<and> ru_Record (put_all ds r) = ru_Record r \<and> ru_Stopped (put_all ds r) = ru_Stopped r"
  using assms
proof (induction ds arbitrary: r fs)
  case (Cons d ds)
  obtain k p where d: "d = (k, p)" by (cases d)
  have k: "data_frame k" and ds: "list_all (\<lambda>d. data_frame (fst d)) ds" using Cons.prems(2) d by simp_all
  let ?r = "data k p r"
  obtain n1 where n1: "holds ?r (fs @ n1)" "list_all (\<lambda>f. fst f = k \<and> frame_ok f) n1"
    "if ru_Truncated ?r then prefix (concat (map snd n1)) p else concat (map snd n1) = p" "ru_Truncated r \<longrightarrow> n1 = [] \<and> ru_Truncated ?r"
    "ru_Pending ?r = ru_Pending r" "ru_Record ?r = ru_Record r" "ru_Stopped ?r = ru_Stopped r"
    using data_holds [OF Cons.prems(1) k, of p] by blast
  obtain n2 where n2: "holds (put_all ds ?r) ((fs @ n1) @ n2)" "list_all (\<lambda>f. data_frame (fst f) \<and> frame_ok f) n2"
    "\<forall>c. if ru_Truncated (put_all ds ?r) then prefix (output_of c n2) (output_of c ds) else output_of c n2 = output_of c ds"
    "ru_Truncated ?r \<longrightarrow> n2 = [] \<and> ru_Truncated (put_all ds ?r)"
    "ru_Pending (put_all ds ?r) = ru_Pending ?r" "ru_Record (put_all ds ?r) = ru_Record ?r" "ru_Stopped (put_all ds ?r) = ru_Stopped ?r"
    using Cons.IH [OF n1(1) ds] by blast
  have pa: "put_all (d # ds) r = put_all ds ?r" by (simp add: put_all_def d)
  have dn: "list_all (\<lambda>f. data_frame (fst f) \<and> frame_ok f) n1" using n1(2) k by (auto simp: list_all_iff)
  have o: "output_of c (n1 @ n2) = (if c = k then concat (map snd n1) else []) @ output_of c n2" for c
    by (simp add: output_of_append output_of_new [OF n1(2)])
  have g: "output_of c (d # ds) = (if c = k then p else []) @ output_of c ds" for c by (simp add: output_of_def d)
  have "if ru_Truncated (put_all ds ?r) then prefix (output_of c (n1 @ n2)) (output_of c (d # ds)) else output_of c (n1 @ n2) = output_of c (d # ds)" for c
  proof (cases "ru_Truncated ?r")
    case True
    then have "n2 = []" "ru_Truncated (put_all ds ?r)" "prefix (concat (map snd n1)) p" using n2(4) n1(3) by auto
    then show ?thesis unfolding o g by (auto simp: output_of_def intro: prefix_prefix)
  next
    case False
    then have "concat (map snd n1) = p" using n1(3) by simp
    then show ?thesis using n2(3) unfolding o g by simp
  qed
  then show ?case unfolding pa using n1 n2 dn by (intro exI [of _ "n1 @ n2"]) auto
qed (auto simp: put_all_def intro: exI [of _ "[]"])

lemma spool_ok_parts:
  assumes "list_all (\<lambda>f. data_frame (fst f) \<and> frame_ok f) ds" and "list_all (\<lambda>f. response_frame f \<and> frame_ok f) rs" and "frame_ok f" and "final_frame f"
  shows "spool_ok False (ds @ rs @ [f])"
proof -
  have step: "spool_ok a (g # gs) \<longleftrightarrow> frame_ok g \<and> (data_frame (fst g) \<and> \<not> a \<and> spool_ok False gs \<or> response_frame g \<and> spool_ok True gs)"
    if "gs \<noteq> []" for a g gs using that by (cases gs) auto
  have "spool_ok a (rs @ [f])" for a using assms(2-4) by (induction rs arbitrary: a) (simp_all add: step)
  then show ?thesis using assms(1) by (induction ds) (simp_all add: step)
qed

lemma final_json_short: "int64 (xf_ExitCode f) \<Longrightarrow> length (xf_TargetKind f) \<le> 64 \<Longrightarrow> length (exec_final_json f) \<le> 1000"
proof -
  assume "int64 (xf_ExitCode f)" and k: "length (xf_TargetKind f) \<le> 64"
  then have i: "length (int_dec (xf_ExitCode f)) \<le> 20" by (intro int_dec_length) (auto simp: int64_def)
  have b: "member_size (bool_opt ''truncated'' (xf_Truncated f)) \<le> 100"
    using member_size_field [of "json_bool True" 20 "''truncated''"] by (cases "xf_Truncated f") (simp_all add: bool_opt_def field_def json_bool_def)
  show ?thesis
    unfolding exec_final_json_def
    by (rule order_trans [OF json_object_length])
      (use member_size_field [OF i, of "''exit_code''"] b member_size_opt [of "''target_kind''" "xf_TargetKind f"] k in simp)
qed

lemma finish_holds:
  assumes h: "holds r fs" and f: "frame_ok (k, p)" and l: "length p \<le> 1000"
  shows "\<exists>r'. finish k p now False write_fails r = (r', if write_fails then None else Some (ru_Record r')) \<and> ru_Err r' = None \<and>
    wr_Out (ru_File r') = spool_bytes (fs @ [(k, p)]) \<and> ru_Done r' \<and> ru_Truncated r' = ru_Truncated r \<and>
    ru_Record r' = (ru_Record r)\<lparr>rr_State := stateFinished, rr_FinishedAt := FormatTime now, rr_Broken := False\<rparr>"
proof -
  have p: "0 \<le> ru_Pending r * responseReserveBytes" using h by (simp add: holds_def reserves)
  have "ru_Size r + int (FrameSize (length p)) \<le> ru_Limit r"
    using h l p by (simp add: holds_def roomLocked_def FrameSize_def frameHeaderBytes_def reserves)
  then show ?thesis using h appendLocked_ok [of r fs k p] f by (auto simp: holds_def finish_def Let_def)
qed

text \<open>What a client reads of a response.\<close>

definition reported :: "Response \<Rightarrow> Response \<Rightarrow> bool" where
  "reported x y \<longleftrightarrow> y = clean_response x \<or> y = clean_response (stripped x) \<or> y = clean_response (minimalResponse x)"

lemma output_of_none: "list_all (\<lambda>f. fst f \<noteq> c) fs \<Longrightarrow> output_of c fs = []"
  by (induction fs) (auto simp: output_of_def)

lemma responses_of_data: "list_all (\<lambda>f. data_frame (fst f) \<and> frame_ok f) ds \<Longrightarrow> responses_of ds = []"
  by (induction ds) (auto simp: responses_of_def data_frame_def frame_kinds)

lemma responses_of_answers: "list_all2 answers_with xs rs \<Longrightarrow> list_all response_ints xs \<Longrightarrow>
   list_all (\<lambda>f. response_frame f \<and> frame_ok f) rs \<and> length (responses_of rs) = length xs \<and>
   list_all2 reported xs (responses_of rs)"
proof (induction rule: list_all2_induct)
  case (Cons x xs f rs)
  have x: "response_ints x" using Cons.prems by simp
  from answers_response [OF Cons.hyps(1) x] obtain y where y: "response_frame f" "y \<in> {x, stripped x, minimalResponse x}"
    "unmarshal_Response (snd f) = Some (clean_response y)" by blast
  then have "responses_of (f # rs) = clean_response y # responses_of rs" by (simp add: responses_of_def response_frame_def)
  moreover have "reported x (clean_response y)" using y(2) by (auto simp: reported_def)
  ultimately show ?case using Cons y(1) by (simp add: answers_with_def)
qed (simp add: responses_of_def)

lemma merged_exit: "int64 (MergeExitCode a b)" "MergeExitCode a ExitRemoteFailed \<noteq> 0"
  by (simp_all add: MergeExitCode_def exit_codes int64_def)

text \<open>
  C23. On a healthy disk a run admitted with room for its targets, that was not stopped and whose pipeline
  returned an outcome, ends in a spool that a client reads: with a response for each of the outcome's and the
  result; unless the result says it is truncated, with all of the output, every response whole and the exit
  code of the outcome; a truncated result never passes for success.
\<close>

theorem spool_complete:
  assumes "fresh n r" and "wr_Room (ru_File r) = None" and "lo_Reason (ru_Stopped r) = []"
    and "int n * responseReserveBytes + finalReserveBytes \<le> ru_Limit r" and "list_all (\<lambda>d. data_frame (fst d)) ds"
    and "length (oc_Responses out) \<le> n" and "list_all response_ints (oc_Responses out)" and "int64 (oc_ExitCode out)" and "length kind \<le> 64"
  shows "\<exists>r' rec fs f. conclude (Ended out) kind now False False (put_all ds r) = (r', Some rec) \<and>
    rr_State rec = stateFinished \<and> \<not> rr_Broken rec \<and> wr_Out (ru_File r') = spool_bytes fs \<and> spool_ok False fs \<and>
    unmarshal_ExecFinal (snd (last fs)) = Some f \<and> fst (last fs) = FrameResult \<and>
    list_all2 reported (oc_Responses out) (responses_of fs) \<and>
    prefix (output_of FrameStdout fs) (output_of FrameStdout ds) \<and> prefix (output_of FrameStderr fs) (output_of FrameStderr ds) \<and>
    (if xf_Truncated f then xf_ExitCode f \<noteq> 0
     else xf_ExitCode f = oc_ExitCode out \<and> output_of FrameStdout fs = output_of FrameStdout ds \<and>
       output_of FrameStderr fs = output_of FrameStderr ds \<and> responses_of fs = map clean_response (oc_Responses out))"
proof -
  let ?r1 = "put_all ds r"
  let ?r2 = "fold put_response (oc_Responses out) ?r1"
  let ?f = "final_of out kind ?r2"
  let ?last = "(FrameResult, exec_final_json ?f)"
  have h: "holds r []" using assms(1,2,4) by (simp add: holds_def fresh_def spool_bytes_def roomLocked_def)
  obtain new where new: "holds ?r1 new" "list_all (\<lambda>f. data_frame (fst f) \<and> frame_ok f) new"
    "\<forall>c. if ru_Truncated ?r1 then prefix (output_of c new) (output_of c ds) else output_of c new = output_of c ds"
    "ru_Pending ?r1 = ru_Pending r" "ru_Stopped ?r1 = ru_Stopped r"
    using put_all_holds [OF h assms(5)] by auto
  have pend: "int (length (oc_Responses out)) \<le> ru_Pending ?r1" using assms(1,6) new(4) by (simp add: fresh_def)
  obtain rs where rs: "holds ?r2 (new @ rs)" "list_all2 answers_with (oc_Responses out) rs" "ru_Truncated ?r1 \<longrightarrow> ru_Truncated ?r2"
    "\<not> ru_Truncated ?r2 \<longrightarrow> rs = map (\<lambda>x. (FrameResponse, response_json x)) (oc_Responses out)"
    using fold_put_response_holds [OF new(1) pend assms(7)] by blast
  have i: "int64 (xf_ExitCode ?f)" using assms(8) merged_exit by (simp add: final_of_def)
  have k: "length (xf_TargetKind ?f) \<le> 64" using assms(9) by (simp add: final_of_def)
  have short: "length (exec_final_json ?f) \<le> 1000" by (rule final_json_short [OF i k])
  then have fok: "frame_ok ?last" by (simp add: frame_ok_def message_frame_def data_frame_def frame_limit_def frame_kinds MaxMessageFrameBytes_def)
  have final: "final_frame ?last" using exec_final_roundtrip [OF i] by (simp add: final_frame_def)
  obtain r' where r': "finish FrameResult (exec_final_json ?f) now False False ?r2 = (r', Some (ru_Record r'))"
    "wr_Out (ru_File r') = spool_bytes ((new @ rs) @ [?last])"
    "ru_Record r' = (ru_Record ?r2)\<lparr>rr_State := stateFinished, rr_FinishedAt := FormatTime now, rr_Broken := False\<rparr>"
    using finish_holds [OF rs(1) fok short, of now False] by auto
  let ?fs = "new @ rs @ [?last]"
  have c: "conclude (Ended out) kind now False False ?r1 = (r', Some (ru_Record r'))"
    using r'(1) assms(3) new(5) by (simp add: conclude_def Let_def)
  have resp: "list_all (\<lambda>f. response_frame f \<and> frame_ok f) rs" "list_all2 reported (oc_Responses out) (responses_of rs)"
    using responses_of_answers [OF rs(2) assms(7)] by blast+
  have ok: "spool_ok False ?fs" by (rule spool_ok_parts [OF new(2) resp(1) fok final])
  have rf: "responses_of ?fs = responses_of rs" using responses_of_data [OF new(2)] by (simp add: responses_of_append) (simp add: responses_of_def frame_kinds)
  have of: "output_of c ?fs = output_of c new" if "data_frame c" for c
  proof -
    have "list_all (\<lambda>f. fst f \<noteq> c) rs" using resp(1) that by (auto simp: list_all_iff response_frame_def data_frame_def frame_kinds)
    moreover have "c \<noteq> FrameResult" using that by (auto simp: data_frame_def frame_kinds)
    ultimately show ?thesis by (simp add: output_of_append output_of_none)
  qed
  have o: "output_of FrameStdout ?fs = output_of FrameStdout new" "output_of FrameStderr ?fs = output_of FrameStderr new"
    by (rule of, simp add: data_frame_def)+
  let ?x = "?f\<lparr>xf_TargetKind := json_clean (xf_TargetKind ?f)\<rparr>"
  have fin: "unmarshal_ExecFinal (snd (last ?fs)) = Some ?x" using exec_final_roundtrip [OF i] by simp
  have t: "xf_Truncated ?x = ru_Truncated ?r2" by (simp add: final_of_def)
  have pre: "prefix (output_of c new) (output_of c ds)" for c using new(3) by (metis prefix_order.order_refl)
  have "if xf_Truncated ?x then xf_ExitCode ?x \<noteq> 0 else xf_ExitCode ?x = oc_ExitCode out \<and> output_of FrameStdout ?fs = output_of FrameStdout ds \<and>
       output_of FrameStderr ?fs = output_of FrameStderr ds \<and> responses_of ?fs = map clean_response (oc_Responses out)"
  proof (cases "ru_Truncated ?r2")
    case True
    then show ?thesis using merged_exit(2) by (simp add: final_of_def)
  next
    case False
    then have "\<not> ru_Truncated ?r1" using rs(3) by blast
    moreover have "responses_of rs = map clean_response (oc_Responses out)"
      using rs(4) False assms(7) by (auto simp: responses_of_def list_all_iff comp_def response_roundtrip)
    ultimately show ?thesis using False new(3) unfolding o rf by (simp add: final_of_def)
  qed
  moreover have "rr_State (ru_Record r') = stateFinished" "\<not> rr_Broken (ru_Record r')" "wr_Out (ru_File r') = spool_bytes ?fs" "fst (last ?fs) = FrameResult"
    using r'(2,3) by simp_all
  moreover have "prefix (output_of FrameStdout ?fs) (output_of FrameStdout ds)" "prefix (output_of FrameStderr ?fs) (output_of FrameStderr ds)"
    "list_all2 reported (oc_Responses out) (responses_of ?fs)" using pre resp(2) unfolding o rf by blast+
  ultimately show ?thesis using c ok fin by blast
qed

section \<open>Witnesses\<close>

definition one_record :: runRecord where
  "one_record = \<lparr>rr_RunID = NewRunID (replicate 16 CHR ''a''), rr_DeviceID = ''dv_1'', rr_State = stateRunning, rr_CreatedAt = [], rr_FinishedAt = [],
     rr_EvictedAt = [], rr_RequestSHA256 = ''aa'', rr_ReqID = ''r'', rr_Frames = ''f'', rr_Broken = False, rr_CancelReason = []\<rparr>"

definition one_gw :: gw_run where
  "one_gw = \<lparr>ru_ID = NewRunID (replicate 16 CHR ''a''), ru_DeviceID = ''dv_1'', ru_RequestSHA256 = ''aa'', ru_ReqID = ''r'', ru_Limit = 40000,
     ru_Identities = [], ru_Record = one_record, ru_File = \<lparr>wr_Out = [], wr_Room = None\<rparr>, ru_Size = 0, ru_Pending = 1, ru_Truncated = False,
     ru_Done = False, ru_Err = None, ru_Wakes = 0, ru_Cancel = True, ru_Cancelled = [], ru_Stopped = no_loss\<rparr>"

definition one_outcome :: Outcome where
  "one_outcome = \<lparr>oc_Responses = [no_response], oc_ExitCode = 0, oc_StreamErr = None\<rparr>"

lemma one_gw_fresh: "fresh 1 one_gw"
  by (simp add: fresh_def one_gw_def)

theorem spool_capped_witness:
  "int (length (wr_Out (ru_File (fold run_step [OpData FrameStdout ''hi''] one_gw)))) \<le> 40000"
  using spool_capped [OF one_gw_fresh, of "[OpData FrameStdout ''hi'']"] by (simp add: one_gw_def)

theorem spool_complete_witness:
  "\<exists>r' rec fs. conclude (Ended one_outcome) ''host'' 5 False False (put_all [(FrameStdout, ''hi'')] one_gw) = (r', Some rec) \<and>
     wr_Out (ru_File r') = spool_bytes fs \<and> spool_ok False fs \<and> length (responses_of fs) = 1"
proof -
  have "wr_Room (ru_File one_gw) = None" "lo_Reason (ru_Stopped one_gw) = []" "int 1 * responseReserveBytes + finalReserveBytes \<le> ru_Limit one_gw"
    by (simp_all add: one_gw_def no_loss_def reserves)
  moreover have "list_all (\<lambda>d. data_frame (fst d)) [(FrameStdout, ''hi'')]" by (simp add: data_frame_def)
  moreover have "length (oc_Responses one_outcome) \<le> 1" "list_all response_ints (oc_Responses one_outcome)" "int64 (oc_ExitCode one_outcome)"
    by (simp_all add: one_outcome_def response_ints_def no_response_def int64_def)
  moreover have "length ''host'' \<le> 64" by simp
  ultimately obtain r' rec fs f where
    "conclude (Ended one_outcome) ''host'' 5 False False (put_all [(FrameStdout, ''hi'')] one_gw) = (r', Some rec)"
    "wr_Out (ru_File r') = spool_bytes fs" "spool_ok False fs" "list_all2 reported (oc_Responses one_outcome) (responses_of fs)"
    using spool_complete [OF one_gw_fresh, of "[(FrameStdout, ''hi'')]" one_outcome "''host''" 5] by blast
  moreover from this(4) have "length (responses_of fs) = 1" by (simp add: one_outcome_def list_all2_lengthD [symmetric])
  ultimately show ?thesis by blast
qed

end
