(* ===== verification/RunStore.thy ===== *)
theory RunStore
  imports RunSpool
begin

text \<open>
  The gateway's store of runs (\<open>internal/gateway/runstore.go\<close> and the parts of \<open>runs.go\<close>, \<open>exec.go\<close>,
  \<open>standing.go\<close> that use it). One record per run identifier of a device, published exclusively, is the
  claim of the identifier; its spool is a second file. The memory caches live runs. Every operation is
  a step under the server's lock, with the time and the file operations that fail as arguments. Files
  are maps by device and name; a record is its contents, or corrupt.
\<close>

section \<open>State\<close>

datatype record_file = Record runRecord | Corrupt

record gw_server =
  sv_Devices :: "string list"
  sv_Records :: "((string \<times> string) \<times> record_file) list"
  sv_Spools :: "((string \<times> string) \<times> (string \<times> int)) list"
  sv_Runs :: "(string \<times> gw_run) list"
  sv_Running :: "string \<Rightarrow> int"
  sv_DeviceRecords :: "string \<Rightarrow> int option"
  sv_DeviceSweeps :: "string \<Rightarrow> int"
  sv_NextSweep :: int

text \<open>The configuration; a value that is not positive stands for its default.\<close>

record gw_config =
  gc_RunRetention :: int
  gc_RunMaxBytes :: int
  gc_RunRecords :: int
  gc_RunQuotaBytes :: int
  gc_ExecTimeout :: int
  gc_MaxConcurrent :: int

datatype io =
    RemoveSpool string string
  | RemoveRecord string string
  | WriteRecord string string
  | ClaimRecord string string
  | StatRecord string string
  | OpenSpool string string
  | MakeDir string
  | ReadRunsDir

text \<open>A step: when it happens, which file operations fail, and what room the disk has for a new spool.\<close>

record gw_env =
  ge_Now :: instant
  ge_Fails :: "io \<Rightarrow> bool"
  ge_Room :: "nat option"

definition minute :: int where "minute = 60 * int second"
definition hour :: int where "hour = 60 * minute"

definition DefaultRunRetention :: int where "DefaultRunRetention = 24 * hour"
definition DefaultRunMaxBytes :: int where "DefaultRunMaxBytes = 67108864"
definition DefaultRunQuotaBytes :: int where "DefaultRunQuotaBytes = 536870912"
definition DefaultRunRecords :: int where "DefaultRunRecords = 10000"
definition DefaultExecTimeout :: int where "DefaultExecTimeout = 30 * minute"
definition DefaultMaxConcurrent :: int where "DefaultMaxConcurrent = 4"
definition orphanAge :: int where "orphanAge = hour"
definition runSweepEvery :: int where "runSweepEvery = minute"
definition cancelTombstoneTTL :: int where "cancelTombstoneTTL = 10 * minute"
definition idempotencyWindow :: int where "idempotencyWindow = hour"

definition runRetention :: "gw_config \<Rightarrow> int" where
  "runRetention c = (if 0 < gc_RunRetention c then gc_RunRetention c else DefaultRunRetention)"
definition runMaxBytes :: "gw_config \<Rightarrow> int" where
  "runMaxBytes c = (if 0 < gc_RunMaxBytes c then gc_RunMaxBytes c else DefaultRunMaxBytes)"
definition runRecords :: "gw_config \<Rightarrow> int" where
  "runRecords c = (if 0 < gc_RunRecords c then gc_RunRecords c else DefaultRunRecords)"
definition runQuotaBytes :: "gw_config \<Rightarrow> int" where
  "runQuotaBytes c = (if 0 < gc_RunQuotaBytes c then gc_RunQuotaBytes c else DefaultRunQuotaBytes)"
definition execTimeout :: "gw_config \<Rightarrow> int" where
  "execTimeout c = (if 0 < gc_ExecTimeout c then gc_ExecTimeout c else DefaultExecTimeout)"
definition maxConcurrent :: "gw_config \<Rightarrow> int" where
  "maxConcurrent c = (if 0 < gc_MaxConcurrent c then gc_MaxConcurrent c else DefaultMaxConcurrent)"

text \<open>Below the reserve the quotient is not positive, rounded either way.\<close>

definition maxRunTargets :: "gw_config \<Rightarrow> int" where
  "maxRunTargets c = max 0 ((runMaxBytes c - finalReserveBytes) div responseReserveBytes)"

definition errRunNotFound :: error where "errRunNotFound = Sentinel ''errRunNotFound''"
definition errRunInterrupted :: error where "errRunInterrupted = Sentinel ''errRunInterrupted''"
definition errRunBroken :: error where "errRunBroken = Sentinel ''errRunBroken''"
definition errRunExists :: error where "errRunExists = Sentinel ''errRunExists''"
definition errRunExpired :: error where "errRunExpired = Sentinel ''errRunExpired''"
definition errRunCancelled :: error where "errRunCancelled = Sentinel ''errRunCancelled''"
definition errRunConflict :: error where "errRunConflict = Sentinel ''errRunConflict''"
definition errRunTooLarge :: error where "errRunTooLarge = Sentinel ''errRunTooLarge''"
definition errTooManyRecords :: error where "errTooManyRecords = Sentinel ''errTooManyRecords''"
definition errTooManyConcurrent :: error where "errTooManyConcurrent = Sentinel ''errTooManyConcurrent''"
definition errIO :: error where "errIO = Errorf ''io'' []"

lemmas run_errors = errRunNotFound_def errRunInterrupted_def errRunBroken_def errRunExists_def errRunExpired_def errRunCancelled_def
  errRunConflict_def errRunTooLarge_def errTooManyRecords_def errTooManyConcurrent_def errIO_def

definition runKey :: "string \<Rightarrow> string \<Rightarrow> string" where
  "runKey deviceID i = deviceID @ ''/'' @ i"

definition live_run :: "gw_server \<Rightarrow> string \<Rightarrow> string \<Rightarrow> gw_run option" where
  "live_run s d i = map_of (sv_Runs s) (runKey d i)"

section \<open>Files\<close>

definition record_at :: "gw_server \<Rightarrow> string \<Rightarrow> string \<Rightarrow> record_file option" where
  "record_at s d i = map_of (sv_Records s) (d, i)"

definition readRecord :: "gw_server \<Rightarrow> string \<Rightarrow> string \<Rightarrow> (error + runRecord) option" where
  "readRecord s d i = (case record_at s d i of
     None \<Rightarrow> None
   | Some Corrupt \<Rightarrow> Some (Inl errRunBroken)
   | Some (Record r) \<Rightarrow> Some (Inr r))"

definition writeRecord :: "gw_env \<Rightarrow> string \<Rightarrow> string \<Rightarrow> runRecord \<Rightarrow> gw_server \<Rightarrow> gw_server" where
  "writeRecord e d i r s = (if ge_Fails e (WriteRecord d i) then s else s\<lparr>sv_Records := AList.update (d, i) (Record r) (sv_Records s)\<rparr>)"

text \<open>Publishing a record: \<open>Inr False\<close> when the identifier is claimed already.\<close>

definition claimRecord :: "gw_env \<Rightarrow> string \<Rightarrow> string \<Rightarrow> runRecord \<Rightarrow> gw_server \<Rightarrow> (error + bool) \<times> gw_server" where
  "claimRecord e d i r s =
     (if record_at s d i \<noteq> None then (Inr False, s)
      else if ge_Fails e (ClaimRecord d i) then (Inl errIO, s)
      else (Inr True, s\<lparr>sv_Records := AList.update (d, i) (Record r) (sv_Records s)\<rparr>))"

definition remove_spool :: "gw_env \<Rightarrow> string \<Rightarrow> string \<Rightarrow> gw_server \<Rightarrow> gw_server" where
  "remove_spool e d f s = (if ge_Fails e (RemoveSpool d f) then s else s\<lparr>sv_Spools := AList.delete (d, f) (sv_Spools s)\<rparr>)"

definition remove_record :: "gw_env \<Rightarrow> string \<Rightarrow> string \<Rightarrow> gw_server \<Rightarrow> gw_server \<times> bool" where
  "remove_record e d i s = (if ge_Fails e (RemoveRecord d i) then (s, False) else (s\<lparr>sv_Records := AList.delete (d, i) (sv_Records s)\<rparr>, True))"

definition make_dir :: "gw_env \<Rightarrow> string \<Rightarrow> gw_server \<Rightarrow> gw_server \<times> bool" where
  "make_dir e d s = (if ge_Fails e (MakeDir d) then (s, False) else (s\<lparr>sv_Devices := (if d \<in> set (sv_Devices s) then sv_Devices s else d # sv_Devices s)\<rparr>, True))"

definition created_at :: "runRecord \<Rightarrow> int" where "created_at r = ParseTime (rr_CreatedAt r)"
definition finished_at :: "runRecord \<Rightarrow> int" where "finished_at r = ParseTime (rr_FinishedAt r)"

section \<open>Stored runs\<close>

record storedRun =
  so_ID :: string
  so_Rec :: runRecord
  so_Bytes :: int

definition spool_size :: "gw_server \<Rightarrow> string \<Rightarrow> string \<Rightarrow> int" where
  "spool_size s d f = (case map_of (sv_Spools s) (d, f) of None \<Rightarrow> 0 | Some (content, _) \<Rightarrow> int (length content))"

definition stored_run :: "gw_server \<Rightarrow> string \<Rightarrow> string \<times> runRecord \<Rightarrow> storedRun" where
  "stored_run s d x = \<lparr>so_ID = fst x, so_Rec = snd x,
     so_Bytes = (if rr_State (snd x) = stateFinished \<and> rr_Frames (snd x) \<noteq> [] then spool_size s d (rr_Frames (snd x)) else 0)\<rparr>"

definition storedRunsLocked :: "gw_server \<Rightarrow> string \<Rightarrow> storedRun list" where
  "storedRunsLocked s d =
     map (stored_run s d)
       (concat (map (\<lambda>((d', i), f). case f of
            Corrupt \<Rightarrow> []
          | Record r \<Rightarrow> if d' = d \<and> ValidRunID i \<and> live_run s d i = None then [(i, r)] else [])
        (sort_key (snd \<circ> fst) (sv_Records s))))"

definition evictLocked :: "gw_env \<Rightarrow> string \<Rightarrow> string \<Rightarrow> runRecord \<Rightarrow> gw_server \<Rightarrow> gw_server" where
  "evictLocked e d i r s =
     (if rr_Frames r \<noteq> [] \<and> ge_Fails e (RemoveSpool d (rr_Frames r)) \<and> map_of (sv_Spools s) (d, rr_Frames r) \<noteq> None then s
      else writeRecord e d i (r\<lparr>rr_State := stateEvicted, rr_Frames := [], rr_EvictedAt := FormatTime (ge_Now e)\<rparr>)
        (if rr_Frames r \<noteq> [] then s\<lparr>sv_Spools := AList.delete (d, rr_Frames r) (sv_Spools s)\<rparr> else s))"

definition device_records :: "gw_server \<Rightarrow> string \<Rightarrow> int" where
  "device_records s d = (case sv_DeviceRecords s d of None \<Rightarrow> 0 | Some n \<Rightarrow> n)"

definition count_record :: "string \<Rightarrow> int \<Rightarrow> gw_server \<Rightarrow> gw_server" where
  "count_record d n s = s\<lparr>sv_DeviceRecords := (sv_DeviceRecords s)(d := Some (device_records s d + n))\<rparr>"

definition deleteRecordLocked :: "gw_env \<Rightarrow> string \<Rightarrow> storedRun \<Rightarrow> gw_server \<Rightarrow> gw_server" where
  "deleteRecordLocked e d run s =
     (let s1 = (if rr_Frames (so_Rec run) \<noteq> [] then remove_spool e d (rr_Frames (so_Rec run)) s else s);
          (s2, ok) = remove_record e d (so_ID run) s1 in
      if ok then count_record d (-1) s2 else s2)"

fun evict_until :: "gw_config \<Rightarrow> gw_env \<Rightarrow> string \<Rightarrow> int \<Rightarrow> int \<Rightarrow> storedRun list \<Rightarrow> gw_server \<Rightarrow> gw_server" where
  "evict_until c e d reserve tot [] s = s"
| "evict_until c e d reserve tot (run # runs) s =
     (if tot + reserve \<le> runQuotaBytes c then s
      else if so_Bytes run = 0 then evict_until c e d reserve tot runs s
      else evict_until c e d reserve (tot - so_Bytes run) runs (evictLocked e d (so_ID run) (so_Rec run) s))"

definition makeRoomLocked :: "gw_config \<Rightarrow> gw_env \<Rightarrow> string \<Rightarrow> int \<Rightarrow> gw_server \<Rightarrow> gw_server" where
  "makeRoomLocked c e d reserve s =
     (let runs = storedRunsLocked s d in
      evict_until c e d reserve (sum_list (map so_Bytes runs)) (sort_key (finished_at \<circ> so_Rec) runs) s)"

section \<open>Ageing\<close>

text \<open>A record that is deleted, and one whose output is.\<close>

definition overdue :: "gw_config \<Rightarrow> int \<Rightarrow> runRecord \<Rightarrow> bool" where
  "overdue c now r \<longleftrightarrow>
     rr_State r = stateEvicted \<and> created_at r + idempotencyWindow < now \<or>
     rr_State r = stateCancelled \<and> created_at r + cancelTombstoneTTL < now \<or>
     rr_State r = stateRunning \<and> created_at r + (runRetention c + execTimeout c) < now"

definition outlived :: "gw_config \<Rightarrow> int \<Rightarrow> runRecord \<Rightarrow> bool" where
  "outlived c now r \<longleftrightarrow> rr_State r = stateFinished \<and> finished_at r + runRetention c < now"

text \<open>One stored run of the sweep, with the spools still referenced and the records counted.\<close>

definition sweep_run :: "gw_config \<Rightarrow> gw_env \<Rightarrow> string \<Rightarrow> storedRun \<Rightarrow> gw_server \<times> string list \<times> int \<Rightarrow> gw_server \<times> string list \<times> int" where
  "sweep_run c e d run x = (case x of (s, referenced, n) \<Rightarrow>
     (let r = so_Rec run; now = int (ge_Now e) in
      if overdue c now r then
        (let s1 = (if rr_Frames r \<noteq> [] then remove_spool e d (rr_Frames r) s else s);
             (s2, ok) = remove_record e d (so_ID run) s1 in (s2, referenced, if ok then n else n + 1))
      else if outlived c now r then (evictLocked e d (so_ID run) r s, referenced, n + 1)
      else (s, rr_Frames r # referenced, n + 1)))"

definition live_of :: "gw_server \<Rightarrow> string \<Rightarrow> gw_run list" where
  "live_of s d = map snd (filter (\<lambda>x. has_prefix (fst x) (d @ ''/'')) (sv_Runs s))"

definition remove_orphans :: "gw_env \<Rightarrow> string \<Rightarrow> string list \<Rightarrow> gw_server \<Rightarrow> gw_server" where
  "remove_orphans e d referenced s = s\<lparr>sv_Spools := filter (\<lambda>((d', f), (_, mtime)).
     \<not> (d' = d \<and> has_suffix f ''.frames'' \<and> f \<notin> set referenced \<and> orphanAge < int (ge_Now e) - mtime \<and> \<not> ge_Fails e (RemoveSpool d f)))
     (sv_Spools s)\<rparr>"

definition sweepDeviceLocked :: "gw_config \<Rightarrow> gw_env \<Rightarrow> string \<Rightarrow> gw_server \<Rightarrow> gw_server" where
  "sweepDeviceLocked c e d s =
     (let runs = live_of s d;
          (s1, referenced, n) = fold (sweep_run c e d) (storedRunsLocked s d) (s, map (rr_Frames \<circ> ru_Record) runs, int (length runs));
          s2 = remove_orphans e d referenced s1 in
      s2\<lparr>sv_DeviceRecords := (sv_DeviceRecords s2)(d := Some n), sv_DeviceSweeps := (sv_DeviceSweeps s2)(d := int (ge_Now e) + runSweepEvery)\<rparr>)"

definition sweepRuns :: "gw_config \<Rightarrow> gw_env \<Rightarrow> gw_server \<Rightarrow> gw_server" where
  "sweepRuns c e s =
     (if int (ge_Now e) < sv_NextSweep s then s
      else let s1 = s\<lparr>sv_NextSweep := int (ge_Now e) + runSweepEvery\<rparr> in
        if ge_Fails e ReadRunsDir then s1 else fold (sweepDeviceLocked c e) (sort (sv_Devices s1)) s1)"

section \<open>Admission\<close>

definition reclaimable :: "gw_env \<Rightarrow> storedRun \<Rightarrow> bool" where
  "reclaimable e run \<longleftrightarrow> (rr_State (so_Rec run) = stateFinished \<or> rr_State (so_Rec run) = stateEvicted) \<and>
     created_at (so_Rec run) + idempotencyWindow < int (ge_Now e)"

fun reclaim :: "gw_config \<Rightarrow> gw_env \<Rightarrow> string \<Rightarrow> storedRun list \<Rightarrow> gw_server \<Rightarrow> gw_server" where
  "reclaim c e d [] s = s"
| "reclaim c e d (run # runs) s =
     (if device_records s d < runRecords c then s else reclaim c e d runs (deleteRecordLocked e d run s))"

definition admitLocked :: "gw_config \<Rightarrow> gw_env \<Rightarrow> string \<Rightarrow> gw_server \<Rightarrow> error option \<times> gw_server" where
  "admitLocked c e d s =
     (let s1 = (if sv_DeviceRecords s d = None \<or> \<not> int (ge_Now e) < sv_DeviceSweeps s d then sweepDeviceLocked c e d s else s) in
      if device_records s1 d < runRecords c then (None, s1)
      else let s2 = reclaim c e d (sort_key (created_at \<circ> so_Rec) (filter (reclaimable e) (storedRunsLocked s1 d))) s1 in
        if runRecords c \<le> device_records s2 d then (Some errTooManyRecords, s2) else (None, s2))"

section \<open>Starting, ending, looking up, cancelling\<close>

record runStart =
  rs_DeviceID :: string
  rs_ID :: string
  rs_RequestSHA256 :: string
  rs_ReqID :: string
  rs_Targets :: int
  rs_Identities :: "string list"

definition new_record :: "runStart \<Rightarrow> string \<Rightarrow> instant \<Rightarrow> runRecord" where
  "new_record st frames now = \<lparr>rr_RunID = rs_ID st, rr_DeviceID = rs_DeviceID st, rr_State = stateRunning, rr_CreatedAt = FormatTime now,
     rr_FinishedAt = [], rr_EvictedAt = [], rr_RequestSHA256 = rs_RequestSHA256 st, rr_ReqID = rs_ReqID st, rr_Frames = frames,
     rr_Broken = False, rr_CancelReason = []\<rparr>"

definition new_run :: "gw_config \<Rightarrow> gw_env \<Rightarrow> runStart \<Rightarrow> runRecord \<Rightarrow> gw_run" where
  "new_run c e st r = \<lparr>ru_ID = rs_ID st, ru_DeviceID = rs_DeviceID st, ru_RequestSHA256 = rs_RequestSHA256 st, ru_ReqID = rs_ReqID st,
     ru_Limit = runMaxBytes c, ru_Identities = rs_Identities st, ru_Record = r, ru_File = \<lparr>wr_Out = [], wr_Room = ge_Room e\<rparr>, ru_Size = 0,
     ru_Pending = rs_Targets st, ru_Truncated = False, ru_Done = False, ru_Err = None, ru_Wakes = 0, ru_Cancel = True, ru_Cancelled = [],
     ru_Stopped = no_loss\<rparr>"

definition startRun :: "gw_config \<Rightarrow> gw_env \<Rightarrow> string \<Rightarrow> runStart \<Rightarrow> gw_server \<Rightarrow> (error + gw_run) \<times> gw_server" where
  "startRun c e rnd st s0 =
     (let d = rs_DeviceID st; i = rs_ID st in
      if maxRunTargets c < rs_Targets st then (Inl errRunTooLarge, s0)
      else let s = sweepRuns c e s0 in
      if live_run s d i \<noteq> None then (Inl errRunExists, s)
      else if ge_Fails e (StatRecord d i) then (Inl errIO, s)
      else if record_at s d i \<noteq> None then (Inl errRunExists, s)
      else if maxConcurrent c \<le> sv_Running s d then (Inl errTooManyConcurrent, s)
      else case admitLocked c e d s of
        (Some x, s1) \<Rightarrow> (Inl x, s1)
      | (None, s1) \<Rightarrow>
        (case make_dir e d s1 of
          (s2, False) \<Rightarrow> (Inl errIO, s2)
        | (s2, True) \<Rightarrow>
          (let frames = i @ ''.'' @ hex_string rnd @ ''.frames'' in
           if ge_Fails e (OpenSpool d frames) \<or> map_of (sv_Spools s2) (d, frames) \<noteq> None then (Inl errIO, s2)
           else let s3 = s2\<lparr>sv_Spools := AList.update (d, frames) ([], int (ge_Now e)) (sv_Spools s2)\<rparr>;
                    r = new_record st frames (ge_Now e); rn = new_run c e st r in
             (case claimRecord e d i r s3 of
               (Inl x, s4) \<Rightarrow> (Inl x, remove_spool e d frames s4)
             | (Inr False, s4) \<Rightarrow> (Inl errRunExists, remove_spool e d frames s4)
             | (Inr True, s4) \<Rightarrow>
                 (Inr rn, makeRoomLocked c e d (runMaxBytes c) (count_record d 1
                   (s4\<lparr>sv_Runs := AList.update (runKey d i) rn (sv_Runs s4), sv_Running := (sv_Running s4)(d := sv_Running s4 d + 1)\<rparr>)))))))"

definition endRun :: "gw_config \<Rightarrow> gw_env \<Rightarrow> string \<Rightarrow> string \<Rightarrow> gw_server \<Rightarrow> gw_server" where
  "endRun c e d i s =
     (if live_run s d i = None then s
      else let n = sv_Running s d - 1 in
        makeRoomLocked c e d 0 (s\<lparr>sv_Runs := AList.delete (runKey d i) (sv_Runs s), sv_Running := (sv_Running s)(d := if n \<le> 0 then 0 else n)\<rparr>))"

definition stored_as_run :: "gw_server \<Rightarrow> string \<Rightarrow> string \<Rightarrow> runRecord \<Rightarrow> string \<Rightarrow> gw_run" where
  "stored_as_run s d i r content = \<lparr>ru_ID = i, ru_DeviceID = d, ru_RequestSHA256 = rr_RequestSHA256 r, ru_ReqID = rr_ReqID r,
     ru_Limit = 0, ru_Identities = [], ru_Record = r, ru_File = \<lparr>wr_Out = content, wr_Room = None\<rparr>, ru_Size = int (length content),
     ru_Pending = 0, ru_Truncated = False, ru_Done = True, ru_Err = None, ru_Wakes = 0, ru_Cancel = False, ru_Cancelled = [], ru_Stopped = no_loss\<rparr>"

definition lookupRun :: "gw_config \<Rightarrow> gw_env \<Rightarrow> string \<Rightarrow> string \<Rightarrow> gw_server \<Rightarrow> (error + gw_run) \<times> gw_server" where
  "lookupRun c e d i s =
     (if \<not> ValidRunID i then (Inl errRunNotFound, s)
      else case live_run s d i of
        Some rn \<Rightarrow> (Inr rn, s)
      | None \<Rightarrow>
        (case readRecord s d i of
          None \<Rightarrow> (Inl errRunNotFound, s)
        | Some (Inl x) \<Rightarrow> (Inl x, s)
        | Some (Inr r) \<Rightarrow>
            if rr_RunID r \<noteq> i \<or> rr_DeviceID r \<noteq> d then (Inl errRunBroken, s)
            else if rr_State r = stateCancelled then (Inl errRunCancelled, s)
            else if rr_State r = stateEvicted then (Inl errRunExpired, s)
            else if rr_State r = stateRunning then (Inl errRunInterrupted, s)
            else if rr_State r \<noteq> stateFinished then (Inl errRunBroken, s)
            else if outlived c (int (ge_Now e)) r then (Inl errRunExpired, evictLocked e d i r s)
            else if rr_Broken r then (Inl errRunBroken, s)
            else (case map_of (sv_Spools s) (d, rr_Frames r) of
                None \<Rightarrow> (Inl errRunBroken, s)
              | Some (content, _) \<Rightarrow> (Inr (stored_as_run s d i r content), s))))"

definition cancelRun :: "gw_config \<Rightarrow> gw_env \<Rightarrow> string \<Rightarrow> string \<Rightarrow> gw_server \<Rightarrow> (error + bool) \<times> gw_server" where
  "cancelRun c e d i s =
     (case live_run s d i of
        Some rn \<Rightarrow>
          (Inr (\<not> ru_Done rn), if \<not> ru_Done rn \<and> ru_Cancel rn
             then s\<lparr>sv_Runs := AList.update (runKey d i) (rn\<lparr>ru_Cancelled := ru_Cancelled rn @ [[]]\<rparr>) (sv_Runs s)\<rparr> else s)
      | None \<Rightarrow>
          if record_at s d i \<noteq> None \<and> \<not> ge_Fails e (StatRecord d i) then (Inr False, s)
          else case admitLocked c e d s of
            (Some x, s1) \<Rightarrow> (Inl x, s1)
          | (None, s1) \<Rightarrow>
            (case make_dir e d s1 of
              (s2, False) \<Rightarrow> (Inl errIO, s2)
            | (s2, True) \<Rightarrow>
              (case claimRecord e d i
                  \<lparr>rr_RunID = i, rr_DeviceID = d, rr_State = stateCancelled, rr_CreatedAt = FormatTime (ge_Now e), rr_FinishedAt = [],
                    rr_EvictedAt = [], rr_RequestSHA256 = [], rr_ReqID = [], rr_Frames = [], rr_Broken = False, rr_CancelReason = []\<rparr> s2 of
                (Inl x, s3) \<Rightarrow> (Inl x, s3)
              | (Inr True, s3) \<Rightarrow> (Inr False, count_record d 1 s3)
              | (Inr False, s3) \<Rightarrow> (Inr False, s3))))"

text \<open>\<open>None\<close>: the identifier was never claimed, so the caller starts the run.\<close>

definition serveExisting :: "gw_config \<Rightarrow> gw_env \<Rightarrow> string \<Rightarrow> string \<Rightarrow> string \<Rightarrow> gw_server \<Rightarrow> (error + gw_run) option \<times> gw_server" where
  "serveExisting c e d i requestSHA256 s =
     (case lookupRun c e d i s of
        (Inl x, s1) \<Rightarrow> if x = errRunNotFound then (None, s1) else (Some (Inl x), s1)
      | (Inr rn, s1) \<Rightarrow> if ru_RequestSHA256 rn \<noteq> requestSHA256 then (Some (Inl errRunConflict), s1) else (Some (Inr rn), s1))"

section \<open>Steps of a live run\<close>

text \<open>What the pipeline does to its run, with the spool on disk; a finished run's record is written.\<close>

definition update_live :: "string \<Rightarrow> string \<Rightarrow> gw_run \<Rightarrow> int \<Rightarrow> gw_server \<Rightarrow> gw_server" where
  "update_live d i rn mtime s = s\<lparr>sv_Runs := AList.update (runKey d i) rn (sv_Runs s),
     sv_Spools := AList.update (d, rr_Frames (ru_Record rn)) (wr_Out (ru_File rn), mtime) (sv_Spools s)\<rparr>"

definition live_data :: "gw_env \<Rightarrow> string \<Rightarrow> string \<Rightarrow> char \<Rightarrow> string \<Rightarrow> gw_server \<Rightarrow> gw_server" where
  "live_data e d i k p s = (case live_run s d i of None \<Rightarrow> s | Some rn \<Rightarrow> update_live d i (data k p rn) (int (ge_Now e)) s)"

definition live_stop :: "gw_env \<Rightarrow> string \<Rightarrow> string \<Rightarrow> lostStanding \<Rightarrow> gw_server \<Rightarrow> gw_server" where
  "live_stop e d i l s = (case live_run s d i of None \<Rightarrow> s
     | Some rn \<Rightarrow> s\<lparr>sv_Runs := AList.update (runKey d i) (fst (stop_run l rn)) (sv_Runs s)\<rparr>)"

text \<open>\<open>execute\<close> after its pipeline: the spool is concluded, the record written, then the run ends.\<close>

definition live_conclude :: "gw_config \<Rightarrow> gw_env \<Rightarrow> string \<Rightarrow> string \<Rightarrow> pipeline_end \<Rightarrow> string \<Rightarrow> bool \<Rightarrow> gw_server \<Rightarrow> gw_server" where
  "live_conclude c e d i p kind close_fails s = (case live_run s d i of None \<Rightarrow> s
     | Some rn \<Rightarrow>
         (let (rn', r) = conclude p kind (ge_Now e) close_fails (ge_Fails e (WriteRecord d i)) rn;
              s1 = update_live d i rn' (int (ge_Now e)) s;
              s2 = (case r of None \<Rightarrow> s1 | Some x \<Rightarrow> s1\<lparr>sv_Records := AList.update (d, i) (Record x) (sv_Records s1)\<rparr>) in
          endRun c e d i s2))"

text \<open>A restart keeps the files.\<close>

definition restart :: "gw_server \<Rightarrow> gw_server" where
  "restart s = s\<lparr>sv_Runs := [], sv_Running := \<lambda>_. 0, sv_DeviceRecords := \<lambda>_. None, sv_DeviceSweeps := \<lambda>_. zero_time, sv_NextSweep := zero_time\<rparr>"

section \<open>Steps\<close>

datatype gw_action =
    GStart string runStart
  | GCancel string string
  | GLookup string string
  | GSweep
  | GData string string char string
  | GStop string string lostStanding
  | GConclude string string pipeline_end string bool
  | GRestart

fun gw_step :: "gw_config \<Rightarrow> gw_env \<times> gw_action \<Rightarrow> gw_server \<Rightarrow> gw_server" where
  "gw_step c (e, GStart rnd st) s = snd (startRun c e rnd st s)"
| "gw_step c (e, GCancel d i) s = snd (cancelRun c e d i s)"
| "gw_step c (e, GLookup d i) s = snd (lookupRun c e d i s)"
| "gw_step c (e, GSweep) s = sweepRuns c e s"
| "gw_step c (e, GData d i k p) s = live_data e d i k p s"
| "gw_step c (e, GStop d i l) s = live_stop e d i l s"
| "gw_step c (e, GConclude d i p kind cf) s = live_conclude c e d i p kind cf s"
| "gw_step c (e, GRestart) s = restart s"

text \<open>The identifiers a handler passes on are valid: \<open>validateExec\<close> and \<open>handleCancel\<close> refuse others.\<close>

fun valid_action :: "gw_action \<Rightarrow> bool" where
  "valid_action (GStart rnd st) \<longleftrightarrow> ValidRunID (rs_ID st)"
| "valid_action (GCancel d i) \<longleftrightarrow> ValidRunID i"
| "valid_action (GData d i k p) \<longleftrightarrow> ValidRunID i"
| "valid_action (GStop d i l) \<longleftrightarrow> ValidRunID i"
| "valid_action (GConclude d i p kind cf) \<longleftrightarrow> ValidRunID i"
| "valid_action _ \<longleftrightarrow> True"

text \<open>The live runs of a device, and the account kept of them.\<close>

definition runs_of :: "gw_server \<Rightarrow> string \<Rightarrow> gw_run list" where
  "runs_of s d = map snd (filter (\<lambda>x. ru_DeviceID (snd x) = d) (sv_Runs s))"

fun slot_ok :: "gw_config \<Rightarrow> string \<times> gw_run \<Rightarrow> bool" where
  "slot_ok c (k, rn) \<longleftrightarrow> k = runKey (ru_DeviceID rn) (ru_ID rn) \<and> ValidRunID (ru_ID rn) \<and> capped rn \<and> ru_Limit rn = runMaxBytes c"

definition slots_ok :: "gw_config \<Rightarrow> gw_server \<Rightarrow> bool" where
  "slots_ok c s \<longleftrightarrow> distinct (map fst (sv_Runs s)) \<and>
     list_all (slot_ok c) (sv_Runs s) \<and>
     (\<forall>d. sv_Running s d = int (length (runs_of s d)) \<and> sv_Running s d \<le> maxConcurrent c)"

section \<open>What each operation leaves alone\<close>

lemma runKey_inj: "ValidRunID i \<Longrightarrow> ValidRunID j \<Longrightarrow> runKey d i = runKey d' j \<longleftrightarrow> d = d' \<and> i = j"
proof -
  assume "ValidRunID i" "ValidRunID j"
  then have "length i = length j" using ValidRunID_valid by metis
  then show ?thesis by (auto simp: runKey_def)
qed

lemma writeRecord_keeps [simp]: "sv_Runs (writeRecord e d i r s) = sv_Runs s" "sv_Running (writeRecord e d i r s) = sv_Running s"
  "sv_DeviceRecords (writeRecord e d i r s) = sv_DeviceRecords s" "sv_Spools (writeRecord e d i r s) = sv_Spools s"
  by (simp_all add: writeRecord_def)

lemma remove_spool_keeps [simp]: "sv_Runs (remove_spool e d f s) = sv_Runs s" "sv_Running (remove_spool e d f s) = sv_Running s"
  "sv_Records (remove_spool e d f s) = sv_Records s" "sv_DeviceRecords (remove_spool e d f s) = sv_DeviceRecords s"
  "record_at (remove_spool e d f s) = record_at s"
  by (simp_all add: remove_spool_def record_at_def fun_eq_iff)

lemma evictLocked_keeps [simp]: "sv_Runs (evictLocked e d i r s) = sv_Runs s" "sv_Running (evictLocked e d i r s) = sv_Running s"
  "sv_DeviceRecords (evictLocked e d i r s) = sv_DeviceRecords s"
  by (simp_all add: evictLocked_def)

lemma count_record_keeps [simp]: "sv_Runs (count_record d n s) = sv_Runs s" "sv_Running (count_record d n s) = sv_Running s"
  "sv_Records (count_record d n s) = sv_Records s" "sv_Spools (count_record d n s) = sv_Spools s" "record_at (count_record d n s) = record_at s"
  by (simp_all add: count_record_def record_at_def fun_eq_iff)

lemma make_dir_keeps: "make_dir e d s = (s', ok) \<Longrightarrow> sv_Runs s' = sv_Runs s \<and> sv_Running s' = sv_Running s \<and> sv_Records s' = sv_Records s \<and>
    sv_DeviceRecords s' = sv_DeviceRecords s \<and> sv_Spools s' = sv_Spools s"
  by (auto simp: make_dir_def split: if_splits)

lemma remove_record_keeps: "remove_record e d i s = (s', ok) \<Longrightarrow> sv_Runs s' = sv_Runs s \<and> sv_Running s' = sv_Running s \<and> sv_Spools s' = sv_Spools s \<and>
    sv_DeviceRecords s' = sv_DeviceRecords s"
  by (auto simp: remove_record_def split: if_splits)

lemma claimRecord_keeps: "claimRecord e d i r s = (x, s') \<Longrightarrow> sv_Runs s' = sv_Runs s \<and> sv_Running s' = sv_Running s \<and> sv_Spools s' = sv_Spools s \<and>
    sv_DeviceRecords s' = sv_DeviceRecords s"
  by (auto simp: claimRecord_def split: if_splits)

lemma deleteRecordLocked_keeps [simp]: "sv_Runs (deleteRecordLocked e d run s) = sv_Runs s" "sv_Running (deleteRecordLocked e d run s) = sv_Running s"
  by (auto simp: deleteRecordLocked_def Let_def split: prod.split dest!: remove_record_keeps)

lemma evict_until_keeps [simp]: "sv_Runs (evict_until c e d reserve tot runs s) = sv_Runs s" "sv_Running (evict_until c e d reserve tot runs s) = sv_Running s"
  "sv_DeviceRecords (evict_until c e d reserve tot runs s) = sv_DeviceRecords s"
  by (induction runs arbitrary: tot s) simp_all

lemma makeRoomLocked_keeps [simp]: "sv_Runs (makeRoomLocked c e d reserve s) = sv_Runs s" "sv_Running (makeRoomLocked c e d reserve s) = sv_Running s"
  "sv_DeviceRecords (makeRoomLocked c e d reserve s) = sv_DeviceRecords s"
  by (simp_all add: makeRoomLocked_def Let_def)

lemma sweep_run_keeps: "sv_Runs (fst (sweep_run c e d run x)) = sv_Runs (fst x) \<and> sv_Running (fst (sweep_run c e d run x)) = sv_Running (fst x)"
  by (auto simp: sweep_run_def Let_def split: prod.split dest!: remove_record_keeps)

lemma fold_sweep_keeps: "sv_Runs (fst (fold (sweep_run c e d) runs x)) = sv_Runs (fst x) \<and> sv_Running (fst (fold (sweep_run c e d) runs x)) = sv_Running (fst x)"
  by (induction runs arbitrary: x) (simp_all add: sweep_run_keeps)

lemma sweepDeviceLocked_keeps [simp]: "sv_Runs (sweepDeviceLocked c e d s) = sv_Runs s" "sv_Running (sweepDeviceLocked c e d s) = sv_Running s"
proof -
  obtain s1 referenced n where f: "fold (sweep_run c e d) (storedRunsLocked s d) (s, map (rr_Frames \<circ> ru_Record) (live_of s d), int (length (live_of s d))) = (s1, referenced, n)"
    by (metis prod_cases3)
  have "sv_Runs s1 = sv_Runs s \<and> sv_Running s1 = sv_Running s"
    using fold_sweep_keeps [of c e d "storedRunsLocked s d" "(s, map (rr_Frames \<circ> ru_Record) (live_of s d), int (length (live_of s d)))"] by (simp add: f)
  then show "sv_Runs (sweepDeviceLocked c e d s) = sv_Runs s" "sv_Running (sweepDeviceLocked c e d s) = sv_Running s"
    by (simp_all add: sweepDeviceLocked_def Let_def f remove_orphans_def)
qed

lemma fold_devices_keeps: "sv_Runs (fold (sweepDeviceLocked c e) ds s) = sv_Runs s \<and> sv_Running (fold (sweepDeviceLocked c e) ds s) = sv_Running s"
  by (induction ds arbitrary: s) simp_all

lemma sweepRuns_keeps [simp]: "sv_Runs (sweepRuns c e s) = sv_Runs s" "sv_Running (sweepRuns c e s) = sv_Running s"
  using fold_devices_keeps by (simp_all add: sweepRuns_def Let_def)

lemma reclaim_keeps [simp]: "sv_Runs (reclaim c e d runs s) = sv_Runs s" "sv_Running (reclaim c e d runs s) = sv_Running s"
  by (induction runs arbitrary: s) simp_all

lemma admitLocked_keeps: "admitLocked c e d s = (x, s') \<Longrightarrow> sv_Runs s' = sv_Runs s \<and> sv_Running s' = sv_Running s"
  by (auto simp: admitLocked_def Let_def split: if_splits)

lemma live_run_cong: "sv_Runs s' = sv_Runs s \<Longrightarrow> live_run s' d i = live_run s d i"
  by (simp add: live_run_def)

section \<open>Ageing, once for every invariant\<close>

definition recs_ok :: "gw_server \<Rightarrow> bool" where
  "recs_ok s \<longleftrightarrow> distinct (map fst (sv_Records s))"

text \<open>Stored runs still to be handled: their records are as listed.\<close>

definition listed :: "gw_server \<Rightarrow> string \<Rightarrow> storedRun list \<Rightarrow> bool" where
  "listed s d runs \<longleftrightarrow> distinct (map so_ID runs) \<and>
     list_all (\<lambda>run. record_at s d (so_ID run) = Some (Record (so_Rec run)) \<and> live_run s d (so_ID run) = None \<and>
       (so_Bytes run \<noteq> 0 \<longrightarrow> rr_State (so_Rec run) = stateFinished)) runs"

lemma distinct_concat_keys:
  assumes "distinct (map fst xs)"
  shows "distinct (map fst (concat (map (\<lambda>((d', i), f). case f of Corrupt \<Rightarrow> [] | Record r \<Rightarrow> if d' = d \<and> P i then [(i, r)] else []) xs)))"
  using assms
proof (induction xs)
  case (Cons x xs)
  obtain d' i f where x: "x = ((d', i), f)" by (metis prod.collapse)
  have "i \<notin> fst ` set (concat (map (\<lambda>((d', i), f). case f of Corrupt \<Rightarrow> [] | Record r \<Rightarrow> if d' = d \<and> P i then [(i, r)] else []) xs))" if "d' = d"
    using Cons.prems that by (force simp: x split: record_file.splits if_splits)
  then show ?case using Cons by (auto simp: x split: record_file.split)
qed simp

lemma storedRunsLocked_listed: "recs_ok s \<Longrightarrow> listed s d (storedRunsLocked s d)"
proof -
  assume ok: "recs_ok s"
  let ?xs = "sort_key (snd \<circ> fst) (sv_Records s)"
  have d: "distinct (map fst ?xs)"
  proof -
    have "distinct ?xs" "inj_on fst (set ?xs)" using ok by (auto simp: recs_ok_def distinct_map)
    then show ?thesis by (simp add: distinct_map)
  qed
  have "distinct (map so_ID (storedRunsLocked s d))"
    using distinct_concat_keys [OF d, of d "\<lambda>i. ValidRunID i \<and> live_run s d i = None"]
    by (simp add: storedRunsLocked_def comp_def stored_run_def)
  moreover have "record_at s d i = Some (Record r)" if "((d, i), Record r) \<in> set (sv_Records s)" for i r
    using that ok by (simp add: record_at_def recs_ok_def)
  ultimately show ?thesis
    by (auto simp: listed_def list_all_iff storedRunsLocked_def stored_run_def split: record_file.splits if_splits)
qed

lemma listed_sort: "listed s d runs \<Longrightarrow> listed s d (sort_key f runs)"
proof -
  assume l: "listed s d runs"
  then have "distinct runs" "inj_on so_ID (set runs)" by (auto simp: listed_def distinct_map)
  then have "distinct (map so_ID (sort_key f runs))" by (simp add: distinct_map)
  then show ?thesis using l by (simp add: listed_def list_all_iff)
qed

lemma listed_filter: "listed s d runs \<Longrightarrow> listed s d (filter P runs)"
  by (auto simp: listed_def list_all_iff distinct_map_filter)

lemma listed_Cons: "listed s d (run # runs) \<Longrightarrow> record_at s d (so_ID run) = Some (Record (so_Rec run)) \<and> live_run s d (so_ID run) = None \<and>
   (so_Bytes run \<noteq> 0 \<longrightarrow> rr_State (so_Rec run) = stateFinished)"
  by (simp add: listed_def)

lemma listed_tl: "listed s d (run # runs) \<Longrightarrow> (\<And>i. i \<noteq> so_ID run \<Longrightarrow> record_at s' d i = record_at s d i) \<Longrightarrow> sv_Runs s' = sv_Runs s \<Longrightarrow> listed s' d runs"
proof -
  assume l: "listed s d (run # runs)" and o: "\<And>i. i \<noteq> so_ID run \<Longrightarrow> record_at s' d i = record_at s d i" and r: "sv_Runs s' = sv_Runs s"
  have "record_at s' d (so_ID x) = record_at s d (so_ID x) \<and> live_run s' d (so_ID x) = live_run s d (so_ID x)" if "x \<in> set runs" for x
  proof -
    have "so_ID x \<noteq> so_ID run" using l imageI [OF that, of so_ID] by (auto simp: listed_def)
    then show ?thesis using o r by (simp add: live_run_def)
  qed
  then show ?thesis using l by (simp add: listed_def list_all_iff)
qed

definition evicted_record :: "gw_env \<Rightarrow> runRecord \<Rightarrow> runRecord" where
  "evicted_record e r = r\<lparr>rr_State := stateEvicted, rr_Frames := [], rr_EvictedAt := FormatTime (ge_Now e)\<rparr>"

lemma record_at_update: "record_at (s\<lparr>sv_Records := AList.update (d, i) f (sv_Records s)\<rparr>) d' j = (if d' = d \<and> j = i then Some f else record_at s d' j)"
  by (auto simp: record_at_def update_conv')

lemma record_at_delete: "record_at (s\<lparr>sv_Records := AList.delete (d, i) (sv_Records s)\<rparr>) d' j = (if d' = d \<and> j = i then None else record_at s d' j)"
  by (auto simp: record_at_def delete_conv')

lemma remove_record_other: "remove_record e d i s = (s', ok) \<Longrightarrow> j \<noteq> i \<or> d' \<noteq> d \<Longrightarrow> record_at s' d' j = record_at s d' j"
  by (auto simp: remove_record_def record_at_delete split: if_splits)

lemma evictLocked_cases: "sv_Records (evictLocked e d i r s) = sv_Records s \<or>
   sv_Records (evictLocked e d i r s) = AList.update (d, i) (Record (evicted_record e r)) (sv_Records s)"
  by (simp add: evictLocked_def writeRecord_def evicted_record_def)

lemma evictLocked_other: "j \<noteq> i \<or> d' \<noteq> d \<Longrightarrow> record_at (evictLocked e d i r s) d' j = record_at s d' j"
  using evictLocked_cases [of e d i r s] by (auto simp: record_at_def update_conv')

locale ageing =
  fixes c :: gw_config and e :: gw_env and J :: "gw_server \<Rightarrow> bool"
  assumes recs: "J s \<Longrightarrow> recs_ok s"
    and other: "J s \<Longrightarrow> sv_Records s' = sv_Records s \<Longrightarrow> sv_Runs s' = sv_Runs s \<Longrightarrow> J s'"
    and evict: "J s \<Longrightarrow> record_at s d i = Some (Record r) \<Longrightarrow> live_run s d i = None \<Longrightarrow> rr_State r = stateFinished \<Longrightarrow>
      J (s\<lparr>sv_Records := AList.update (d, i) (Record (evicted_record e r)) (sv_Records s)\<rparr>)"
    and delete: "J s \<Longrightarrow> record_at s d i = Some (Record r) \<Longrightarrow> live_run s d i = None \<Longrightarrow> overdue c (int (ge_Now e)) r \<or> reclaimable e \<lparr>so_ID = i, so_Rec = r, so_Bytes = n\<rparr> \<Longrightarrow>
      J (s\<lparr>sv_Records := AList.delete (d, i) (sv_Records s)\<rparr>)"
begin

lemma evictLocked_J:
  assumes "J s" and "record_at s d i = Some (Record r)" and "live_run s d i = None" and "rr_State r = stateFinished"
  shows "J (evictLocked e d i r s)"
  using evictLocked_cases [of e d i r s] other [OF assms(1)] other [OF evict [OF assms]] by (elim disjE) simp_all

lemma remove_record_J:
  assumes "J s" and "record_at s d (so_ID run) = Some (Record (so_Rec run))" and "live_run s d (so_ID run) = None"
    and "overdue c (int (ge_Now e)) (so_Rec run) \<or> reclaimable e run" and "remove_record e d (so_ID run) s = (s', ok)"
  shows "J s'"
proof -
  have "overdue c (int (ge_Now e)) (so_Rec run) \<or> reclaimable e \<lparr>so_ID = so_ID run, so_Rec = so_Rec run, so_Bytes = 0\<rparr>"
    using assms(4) by (simp add: reclaimable_def)
  from delete [OF assms(1-3) this] show ?thesis using assms(1,5) by (auto simp: remove_record_def split: if_splits)
qed

lemma evict_until_J:
  "J s \<Longrightarrow> listed s d runs \<Longrightarrow> J (evict_until c e d reserve tot runs s)"
proof (induction runs arbitrary: tot s)
  case (Cons run runs)
  note l = listed_Cons [OF Cons.prems(2)]
  consider (stop) "tot + reserve \<le> runQuotaBytes c" | (skip) "\<not> tot + reserve \<le> runQuotaBytes c" "so_Bytes run = 0"
    | (go) "\<not> tot + reserve \<le> runQuotaBytes c" "so_Bytes run \<noteq> 0" by blast
  then show ?case
  proof cases
    case stop
    then show ?thesis using Cons.prems(1) by simp
  next
    case skip
    then show ?thesis using Cons.IH [OF Cons.prems(1)] listed_tl [OF Cons.prems(2)] by simp
  next
    case go
    have "J (evictLocked e d (so_ID run) (so_Rec run) s)" using l go Cons.prems(1) by (intro evictLocked_J) auto
    moreover have "listed (evictLocked e d (so_ID run) (so_Rec run) s) d runs"
      by (rule listed_tl [OF Cons.prems(2)]) (simp_all add: evictLocked_other)
    ultimately show ?thesis using Cons.IH go by simp
  qed
qed simp

lemma makeRoomLocked_J: "J s \<Longrightarrow> J (makeRoomLocked c e d reserve s)"
  unfolding makeRoomLocked_def Let_def by (intro evict_until_J listed_sort storedRunsLocked_listed recs)

lemma sweep_run_J:
  assumes "J s" and "listed s d (run # runs)"
  shows "J (fst (sweep_run c e d run (s, referenced, n))) \<and> listed (fst (sweep_run c e d run (s, referenced, n))) d runs"
proof -
  note l = listed_Cons [OF assms(2)]
  let ?r = "so_Rec run"
  consider (del) "overdue c (int (ge_Now e)) ?r" | (evi) "\<not> overdue c (int (ge_Now e)) ?r" "outlived c (int (ge_Now e)) ?r"
    | (keep) "\<not> overdue c (int (ge_Now e)) ?r" "\<not> outlived c (int (ge_Now e)) ?r" by blast
  then show ?thesis
  proof cases
    case del
    let ?s1 = "if rr_Frames ?r \<noteq> [] then remove_spool e d (rr_Frames ?r) s else s"
    obtain s2 ok where r: "remove_record e d (so_ID run) ?s1 = (s2, ok)" by fastforce
    have s1: "J ?s1" "record_at ?s1 d (so_ID run) = Some (Record ?r)" "live_run ?s1 d (so_ID run) = None"
      using other [OF assms(1)] l by (simp_all add: live_run_def)
    have "J s2" by (rule remove_record_J [OF s1 disjI1 [OF del] r])
    moreover have "record_at s2 d i = record_at s d i" if "i \<noteq> so_ID run" for i
      using remove_record_other [OF r, of i d] that by auto
    moreover have "sv_Runs s2 = sv_Runs s" using remove_record_keeps [OF r] by simp
    ultimately show ?thesis using listed_tl [OF assms(2)] del r by (simp add: sweep_run_def Let_def)
  next
    case evi
    then have f: "rr_State ?r = stateFinished" by (simp add: outlived_def)
    have "J (evictLocked e d (so_ID run) ?r s)" using evictLocked_J [OF assms(1)] l f by blast
    moreover have "listed (evictLocked e d (so_ID run) ?r s) d runs" by (rule listed_tl [OF assms(2)]) (simp_all add: evictLocked_other)
    ultimately show ?thesis using evi by (simp add: sweep_run_def Let_def)
  next
    case keep
    then show ?thesis using assms(1) listed_tl [OF assms(2)] by (simp add: sweep_run_def Let_def)
  qed
qed

lemma fold_sweep_J: "J s \<Longrightarrow> listed s d runs \<Longrightarrow> J (fst (fold (sweep_run c e d) runs (s, referenced, n)))"
proof (induction runs arbitrary: s referenced n)
  case (Cons run runs)
  obtain s1 ref1 n1 where x: "sweep_run c e d run (s, referenced, n) = (s1, ref1, n1)" by (metis prod_cases3)
  show ?case using sweep_run_J [OF Cons.prems, of referenced n] Cons.IH [of s1 ref1 n1] by (simp add: x)
qed simp

lemma sweepDeviceLocked_J: "J s \<Longrightarrow> J (sweepDeviceLocked c e d s)"
proof -
  assume j: "J s"
  obtain s1 referenced n where f: "fold (sweep_run c e d) (storedRunsLocked s d) (s, map (rr_Frames \<circ> ru_Record) (live_of s d), int (length (live_of s d))) = (s1, referenced, n)"
    by (metis prod_cases3)
  have "J s1" using fold_sweep_J [OF j storedRunsLocked_listed [OF recs [OF j]], of d "map (rr_Frames \<circ> ru_Record) (live_of s d)" "int (length (live_of s d))"]
    by (simp add: f)
  from other [OF this] show ?thesis by (simp add: sweepDeviceLocked_def Let_def f remove_orphans_def)
qed

lemma sweepRuns_J: "J s \<Longrightarrow> J (sweepRuns c e s)"
proof -
  assume j: "J s"
  have "J (fold (sweepDeviceLocked c e) ds s)" if "J s" for ds s using that by (induction ds arbitrary: s) (simp_all add: sweepDeviceLocked_J)
  then show ?thesis using j other [OF j] by (simp add: sweepRuns_def Let_def)
qed

lemma deleteRecordLocked_J:
  assumes "J s" and "listed s d (run # runs)" and "reclaimable e run"
  shows "J (deleteRecordLocked e d run s) \<and> listed (deleteRecordLocked e d run s) d runs"
proof -
  note l = listed_Cons [OF assms(2)]
  let ?s1 = "if rr_Frames (so_Rec run) \<noteq> [] then remove_spool e d (rr_Frames (so_Rec run)) s else s"
  obtain s2 ok where r: "remove_record e d (so_ID run) ?s1 = (s2, ok)" by fastforce
  have s1: "J ?s1" "record_at ?s1 d (so_ID run) = Some (Record (so_Rec run))" "live_run ?s1 d (so_ID run) = None"
    using other [OF assms(1)] l by (simp_all add: live_run_def)
  have j: "J s2" by (rule remove_record_J [OF s1 disjI2 [OF assms(3)] r])
  have "record_at s2 d i = record_at s d i" if "i \<noteq> so_ID run" for i
    using remove_record_other [OF r, of i d] that by auto
  moreover have "sv_Runs s2 = sv_Runs s" using remove_record_keeps [OF r] by simp
  ultimately show ?thesis using j other [OF j] listed_tl [OF assms(2)] r by (simp add: deleteRecordLocked_def Let_def)
qed

lemma reclaim_J: "J s \<Longrightarrow> listed s d runs \<Longrightarrow> list_all (reclaimable e) runs \<Longrightarrow> J (reclaim c e d runs s)"
proof (induction runs arbitrary: s)
  case (Cons run runs)
  then have "reclaimable e run" "list_all (reclaimable e) runs" by simp_all
  from deleteRecordLocked_J [OF Cons.prems(1,2) this(1)] Cons.IH this(2) Cons.prems(1) show ?case by simp
qed simp

lemma admitLocked_J: "J s \<Longrightarrow> admitLocked c e d s = (x, s') \<Longrightarrow> J s'"
proof -
  assume j: "J s" and a: "admitLocked c e d s = (x, s')"
  define s1 where "s1 = (if sv_DeviceRecords s d = None \<or> \<not> int (ge_Now e) < sv_DeviceSweeps s d then sweepDeviceLocked c e d s else s)"
  have j1: "J s1" using j sweepDeviceLocked_J by (simp add: s1_def)
  let ?runs = "sort_key (created_at \<circ> so_Rec) (filter (reclaimable e) (storedRunsLocked s1 d))"
  have "J (reclaim c e d ?runs s1)"
    by (rule reclaim_J [OF j1]) (simp_all add: listed_sort listed_filter storedRunsLocked_listed recs [OF j1] list_all_iff)
  then show ?thesis using a j1 unfolding admitLocked_def s1_def [symmetric] Let_def by (auto split: if_splits)
qed

lemma lookupRun_J:
  assumes "J s"
  shows "J (snd (lookupRun c e d i s))"
proof -
  have "J (evictLocked e d i r s)" if "readRecord s d i = Some (Inr r)" "outlived c (int (ge_Now e)) r" "live_run s d i = None" for r
    using that evictLocked_J [OF assms] by (auto simp: readRecord_def outlived_def split: option.splits record_file.splits)
  then show ?thesis using assms
    by (auto simp: lookupRun_def split: option.split sum.split)
qed

end

section \<open>What a run keeps of itself\<close>

definition same_run :: "gw_run \<Rightarrow> gw_run \<Rightarrow> bool" where
  "same_run r r' \<longleftrightarrow> ru_ID r' = ru_ID r \<and> ru_DeviceID r' = ru_DeviceID r \<and>
     rr_CreatedAt (ru_Record r') = rr_CreatedAt (ru_Record r) \<and> rr_RunID (ru_Record r') = rr_RunID (ru_Record r) \<and>
     rr_DeviceID (ru_Record r') = rr_DeviceID (ru_Record r)"

lemma same_run_refl [simp]: "same_run r r" by (simp add: same_run_def)

lemma same_run_trans: "same_run a b \<Longrightarrow> same_run b c \<Longrightarrow> same_run a c" by (simp add: same_run_def)

lemma appendLocked_same: "same_run r (fst (appendLocked k p r))"
  by (auto simp: same_run_def appendLocked_def Let_def split: prod.split option.split)

lemma data_same: "same_run r (data k p r)"
proof (induction k p r rule: data.induct)
  case (1 k p r)
  show ?case
  proof (cases "p = [] \<or> ru_Truncated r \<or> roomLocked r < int (FrameSize (length (take MaxDataFrameBytes p)))")
    case True
    then show ?thesis by (subst data.simps) (auto simp: Let_def same_run_def)
  next
    case False
    then show ?thesis using 1 [OF _ refl] same_run_trans [OF appendLocked_same [of r k "take MaxDataFrameBytes p"]]
      by (subst data.simps) (simp add: Let_def)
  qed
qed

lemma put_response_same: "same_run r (put_response x r)"
proof -
  define r1 where "r1 = (if 0 < ru_Pending r then r\<lparr>ru_Pending := ru_Pending r - 1\<rparr> else r)"
  have r1: "same_run r r1" "same_run r (r1\<lparr>ru_Truncated := True\<rparr>)" by (auto simp: r1_def same_run_def)
  have a: "same_run r (fst (appendLocked k p r1))" "same_run r (fst (appendLocked k p (r1\<lparr>ru_Truncated := True\<rparr>)))" for k p
    using same_run_trans [OF r1(1) appendLocked_same] same_run_trans [OF r1(2) appendLocked_same] by blast+
  have e: "same_run r s \<Longrightarrow> same_run r (s\<lparr>ru_Err := y\<rparr>)" for s y by (simp add: same_run_def)
  obtain r2 ok where m: "appendLocked FrameResponse (response_json (minimalResponse x)) (r1\<lparr>ru_Truncated := True\<rparr>) = (r2, ok)" by fastforce
  have "same_run r r2" using a(2) [of FrameResponse "response_json (minimalResponse x)"] by (simp add: m)
  then show ?thesis using a e unfolding put_response_def r1_def [symmetric] by (simp add: Let_def m)
qed

lemma fold_response_same: "same_run r (fold put_response xs r)"
proof (induction xs arbitrary: r)
  case (Cons x xs)
  show ?case using same_run_trans [OF put_response_same Cons.IH] by simp
qed simp

lemma finish_same:
  assumes "finish k p now cf wr r = (r', x)"
  shows "same_run r r' \<and> (x = None \<or> x = Some (ru_Record r') \<and> rr_State (ru_Record r') = stateFinished)"
proof -
  obtain r1 ok where a: "appendLocked k p r = (r1, ok)" by fastforce
  have "same_run r r1" using appendLocked_same [of r k p] by (simp add: a)
  then show ?thesis using assms by (auto simp: finish_def a Let_def same_run_def split: if_splits)
qed

lemma stop_run_same: "same_run r (fst (stop_run l r))"
  by (simp add: stop_run_def Let_def same_run_def)

lemma conclude_same:
  assumes "conclude p kind now cf wr r = (r', x)"
  shows "same_run r r' \<and> (x = None \<or> x = Some (ru_Record r') \<and> rr_State (ru_Record r') = stateFinished)"
proof (cases "lo_Reason (ru_Stopped r) = []")
  case True
  show ?thesis
  proof (cases p)
    case (Ended out)
    then show ?thesis using assms True finish_same same_run_trans [OF fold_response_same] by (simp add: conclude_def Let_def) blast
  qed (use assms True finish_same in \<open>simp_all add: conclude_def\<close>)
next
  case False
  then show ?thesis using assms finish_same by (simp add: conclude_def)
qed

section \<open>Every step, once for every invariant\<close>

text \<open>An invariant of the records and of the live runs that also holds when runs begin, change and end.\<close>

locale serving = ageing +
  assumes publish: "J s \<Longrightarrow> ValidRunID i \<Longrightarrow> record_at s d i = Some (Record (ru_Record rn)) \<Longrightarrow> rr_State (ru_Record rn) = stateRunning \<Longrightarrow>
      J (s\<lparr>sv_Runs := AList.update (runKey d i) rn (sv_Runs s)\<rparr>)"
    and change: "J s \<Longrightarrow> ValidRunID i \<Longrightarrow> live_run s d i = Some rn \<Longrightarrow> same_run rn rn' \<Longrightarrow> J (s\<lparr>sv_Runs := AList.update (runKey d i) rn' (sv_Runs s)\<rparr>)"
    and complete: "J s \<Longrightarrow> ValidRunID i \<Longrightarrow> live_run s d i = Some rn \<Longrightarrow> rr_State (ru_Record rn) = stateFinished \<Longrightarrow>
      J (s\<lparr>sv_Records := AList.update (d, i) (Record (ru_Record rn)) (sv_Records s)\<rparr>)"
    and claim: "J s \<Longrightarrow> record_at s d i = None \<Longrightarrow> J (s\<lparr>sv_Records := AList.update (d, i) (Record r) (sv_Records s)\<rparr>)"
    and drop: "J s \<Longrightarrow> (\<And>k rn. map_of rs k = Some rn \<Longrightarrow> map_of (sv_Runs s) k = Some rn) \<Longrightarrow> J (s\<lparr>sv_Runs := rs\<rparr>)"
begin

lemma claimRecord_J: "J s \<Longrightarrow> claimRecord e d i r s = (x, s') \<Longrightarrow> J s'"
  using claim by (auto simp: claimRecord_def split: if_splits)

lemma startRun_J:
  assumes "J s" and "ValidRunID (rs_ID st)"
  shows "J (snd (startRun c e rnd st s))"
proof -
  define s0 where "s0 = sweepRuns c e s"
  have j0: "J s0" using sweepRuns_J assms(1) by (simp add: s0_def)
  obtain x s1 where a: "admitLocked c e (rs_DeviceID st) s0 = (x, s1)" by fastforce
  have j1: "J s1" using admitLocked_J [OF j0 a] .
  obtain s2 ok where m: "make_dir e (rs_DeviceID st) s1 = (s2, ok)" by fastforce
  have j2: "J s2" using other [OF j1] make_dir_keeps [OF m] by blast
  define frames where "frames = rs_ID st @ ''.'' @ hex_string rnd @ ''.frames''"
  define s3 where "s3 = s2\<lparr>sv_Spools := AList.update (rs_DeviceID st, frames) ([], int (ge_Now e)) (sv_Spools s2)\<rparr>"
  have j3: "J s3" by (rule other [OF j2]) (simp_all add: s3_def)
  let ?r = "new_record st frames (ge_Now e)"
  let ?rn = "new_run c e st ?r"
  obtain y s4 where cl: "claimRecord e (rs_DeviceID st) (rs_ID st) ?r s3 = (y, s4)" by fastforce
  have j4: "J s4" using claimRecord_J [OF j3 cl] .
  have fail: "J (remove_spool e (rs_DeviceID st) frames s4)" by (rule other [OF j4]) simp_all
  have succ: "J (makeRoomLocked c e (rs_DeviceID st) (runMaxBytes c) (count_record (rs_DeviceID st) 1
     (s4\<lparr>sv_Runs := AList.update (runKey (rs_DeviceID st) (rs_ID st)) ?rn (sv_Runs s4), sv_Running := (sv_Running s4)(rs_DeviceID st := sv_Running s4 (rs_DeviceID st) + 1)\<rparr>)))"
    if "y = Inr True"
  proof -
    have "record_at s4 (rs_DeviceID st) (rs_ID st) = Some (Record ?r)" using cl that by (auto simp: claimRecord_def record_at_update split: if_splits)
    then have "J (s4\<lparr>sv_Runs := AList.update (runKey (rs_DeviceID st) (rs_ID st)) ?rn (sv_Runs s4)\<rparr>)"
      using publish [OF j4 assms(2), of "rs_DeviceID st" ?rn] by (simp add: new_run_def new_record_def)
    from makeRoomLocked_J [OF other [OF this]] show ?thesis by simp
  qed
  show ?thesis
    unfolding startRun_def Let_def s0_def [symmetric] frames_def [symmetric]
    using assms(1) j0 j1 j2 fail succ
    by (auto simp: a m cl s3_def [symmetric] split: option.split bool.split sum.split)
qed

lemma cancelRun_J:
  assumes "J s" and "ValidRunID i"
  shows "J (snd (cancelRun c e d i s))"
proof -
  obtain x s1 where a: "admitLocked c e d s = (x, s1)" by fastforce
  have j1: "J s1" using admitLocked_J [OF assms(1) a] .
  obtain s2 ok where m: "make_dir e d s1 = (s2, ok)" by fastforce
  have j2: "J s2" using other [OF j1] make_dir_keeps [OF m] by blast
  have j3: "J s3" if "claimRecord e d i r s2 = (y, s3)" for y r s3 using claimRecord_J [OF j2 that] .
  have j4: "J (count_record d 1 s3)" if "J s3" for s3 by (rule other [OF that]) simp_all
  have ch: "J (s\<lparr>sv_Runs := AList.update (runKey d i) (rn\<lparr>ru_Cancelled := z\<rparr>) (sv_Runs s)\<rparr>)" if "live_run s d i = Some rn" for rn z
    by (rule change [OF assms that]) (simp add: same_run_def)
  show ?thesis
    unfolding cancelRun_def using assms(1) j1 j2 ch
    by (auto simp: a m split: option.split bool.split prod.split sum.split dest: j3 intro: j4)
qed

lemma update_live_J: "J s \<Longrightarrow> ValidRunID i \<Longrightarrow> live_run s d i = Some rn \<Longrightarrow> same_run rn rn' \<Longrightarrow> J (update_live d i rn' mt s)"
  by (rule other [OF change [of s i d rn rn']]) (simp_all add: update_live_def)

lemma endRun_J: "J s \<Longrightarrow> J (endRun c e d i s)"
proof -
  assume j: "J s"
  let ?rs = "AList.delete (runKey d i) (sv_Runs s)"
  have "J (s\<lparr>sv_Runs := ?rs\<rparr>)" by (rule drop [OF j]) (simp add: delete_conv' split: if_splits)
  then have "J (s\<lparr>sv_Runs := ?rs, sv_Running := f\<rparr>)" for f by (rule other) simp_all
  from makeRoomLocked_J [OF this] j show ?thesis by (simp add: endRun_def Let_def)
qed

lemma live_conclude_J:
  assumes "J s" and "ValidRunID i"
  shows "J (live_conclude c e d i p kind cf s)"
proof (cases "live_run s d i")
  case None
  then show ?thesis using assms(1) by (simp add: live_conclude_def)
next
  case (Some rn)
  obtain rn' x where r: "conclude p kind (ge_Now e) cf (ge_Fails e (WriteRecord d i)) rn = (rn', x)" by fastforce
  have "same_run rn rn'" and x: "x = None \<or> x = Some (ru_Record rn') \<and> rr_State (ru_Record rn') = stateFinished"
    using conclude_same [OF r] by blast+
  then have j1: "J (update_live d i rn' (int (ge_Now e)) s)" using update_live_J [OF assms Some] by blast
  have l: "live_run (update_live d i rn' (int (ge_Now e)) s) d i = Some rn'" by (simp add: live_run_def update_live_def update_conv')
  from x show ?thesis
  proof
    assume "x = None"
    then show ?thesis using endRun_J [OF j1] by (simp add: live_conclude_def Some r)
  next
    assume y: "x = Some (ru_Record rn') \<and> rr_State (ru_Record rn') = stateFinished"
    then show ?thesis using endRun_J [OF complete [OF j1 assms(2) l]] by (simp add: live_conclude_def Some r Let_def)
  qed
qed

lemma restart_J: "J s \<Longrightarrow> J (restart s)"
  by (rule other [OF drop [of s "[]"]]) (simp_all add: restart_def)

lemma gw_step_J:
  assumes "J s" and "valid_action a"
  shows "J (gw_step c (e, a) s)"
proof (cases a)
  case (GData d i k p)
  then show ?thesis using assms update_live_J [OF assms(1)] data_same by (auto simp: live_data_def split: option.split)
next
  case (GStop d i l)
  then show ?thesis using assms change [OF assms(1)] stop_run_same by (auto simp: live_stop_def split: option.split)
qed (use assms startRun_J cancelRun_J lookupRun_J sweepRuns_J live_conclude_J restart_J in auto)

end

section \<open>A claimed identifier stays claimed\<close>

text \<open>
  The claim of run \<open>i\<close> of device \<open>d\<close> made at \<open>t0\<close>: by a start, or by a cancel that came first. It guards the
  identifier while no rule that deletes its record can apply.
\<close>

definition made_for :: "int \<Rightarrow> string \<Rightarrow> string \<Rightarrow> runRecord \<Rightarrow> bool" where
  "made_for t0 d i r \<longleftrightarrow> created_at r = t0 \<and> rr_RunID r = i \<and> rr_DeviceID r = d"

definition claim_kept :: "bool \<Rightarrow> int \<Rightarrow> string \<Rightarrow> string \<Rightarrow> gw_server \<Rightarrow> bool" where
  "claim_kept cancelled t0 d i s \<longleftrightarrow>
     (\<exists>r. record_at s d i = Some (Record r) \<and> made_for t0 d i r \<and>
        rr_State r \<in> (if cancelled then {stateCancelled} else {stateRunning, stateFinished, stateEvicted})) \<and>
     (\<forall>rn. live_run s d i = Some rn \<longrightarrow> \<not> cancelled \<and> made_for t0 d i (ru_Record rn))"

definition guarding :: "gw_config \<Rightarrow> int \<Rightarrow> bool \<Rightarrow> int \<Rightarrow> bool" where
  "guarding c now cancelled t0 \<longleftrightarrow>
     (if cancelled then now \<le> t0 + cancelTombstoneTTL
      else now \<le> t0 + idempotencyWindow \<and> idempotencyWindow \<le> runRetention c + execTimeout c)"

definition claim_inv :: "gw_config \<Rightarrow> gw_env \<Rightarrow> bool \<Rightarrow> int \<Rightarrow> string \<Rightarrow> string \<Rightarrow> gw_server \<Rightarrow> bool" where
  "claim_inv c e cancelled t0 d i s \<longleftrightarrow>
     recs_ok s \<and> (ValidRunID i \<and> guarding c (int (ge_Now e)) cancelled t0 \<longrightarrow> claim_kept cancelled t0 d i s)"

lemma states_differ: "stateCancelled \<noteq> stateRunning" "stateCancelled \<noteq> stateFinished" "stateCancelled \<noteq> stateEvicted"
  "stateRunning \<noteq> stateFinished" "stateRunning \<noteq> stateEvicted" "stateFinished \<noteq> stateEvicted"
  by (simp_all add: run_states)

lemma guarding_kept:
  assumes "guarding c (int (ge_Now e)) cancelled (created_at r)"
    and "rr_State r \<in> (if cancelled then {stateCancelled} else {stateRunning, stateFinished, stateEvicted})"
  shows "\<not> overdue c (int (ge_Now e)) r \<and> \<not> reclaimable e \<lparr>so_ID = i, so_Rec = r, so_Bytes = n\<rparr>"
  using assms states_differ by (cases cancelled) (auto simp: guarding_def overdue_def reclaimable_def)

lemma records_cong: "sv_Records s' = sv_Records s \<Longrightarrow> sv_Runs s' = sv_Runs s \<Longrightarrow>
   record_at s' = record_at s \<and> live_run s' = live_run s \<and> recs_ok s' = recs_ok s"
  by (simp add: record_at_def live_run_def recs_ok_def fun_eq_iff)

lemma recs_ok_update: "recs_ok s \<Longrightarrow> recs_ok (s\<lparr>sv_Records := AList.update k f (sv_Records s)\<rparr>)"
  by (simp add: recs_ok_def distinct_update)

lemma recs_ok_delete: "recs_ok s \<Longrightarrow> recs_ok (s\<lparr>sv_Records := AList.delete k (sv_Records s)\<rparr>)"
  by (simp add: recs_ok_def distinct_delete)

lemma live_run_records [simp]: "live_run (s\<lparr>sv_Records := x\<rparr>) d i = live_run s d i" "record_at (s\<lparr>sv_Runs := y\<rparr>) d i = record_at s d i"
  by (simp_all add: live_run_def record_at_def)

lemma live_run_update: "ValidRunID i \<Longrightarrow> ValidRunID j \<Longrightarrow> live_run (s\<lparr>sv_Runs := AList.update (runKey d i) rn (sv_Runs s)\<rparr>) d' j =
   (if d' = d \<and> j = i then Some rn else live_run s d' j)"
  using runKey_inj [of j i d' d] by (simp add: live_run_def update_conv')

interpretation records: ageing c e recs_ok for c e
  by unfold_locales (simp_all add: recs_ok_update recs_ok_delete, simp add: recs_ok_def)

text \<open>Ageing claims nothing.\<close>

interpretation unclaimed: ageing c e "\<lambda>s. recs_ok s \<and> record_at s d0 i0 = None" for c e d0 i0
  by unfold_locales (auto simp: recs_ok_update recs_ok_delete record_at_update record_at_delete dest: records_cong)

interpretation claims: serving c e "claim_inv c e cancelled t0 d0 i0" for c e cancelled t0 d0 i0
proof unfold_locales
  let ?J = "claim_inv c e cancelled t0 d0 i0"
  fix s s' d i r rn rn' n rs
  show "?J s \<Longrightarrow> recs_ok s" by (simp add: claim_inv_def)
  show "?J s \<Longrightarrow> sv_Records s' = sv_Records s \<Longrightarrow> sv_Runs s' = sv_Runs s \<Longrightarrow> ?J s'"
    using records_cong [of s' s] by (simp add: claim_inv_def claim_kept_def) blast
  show "?J s \<Longrightarrow> record_at s d i = Some (Record r) \<Longrightarrow> live_run s d i = None \<Longrightarrow> rr_State r = stateFinished \<Longrightarrow>
      ?J (s\<lparr>sv_Records := AList.update (d, i) (Record (evicted_record e r)) (sv_Records s)\<rparr>)"
    using states_differ by (auto simp: claim_inv_def recs_ok_update claim_kept_def record_at_update evicted_record_def made_for_def created_at_def split: if_splits)
  show "?J s \<Longrightarrow> record_at s d i = Some (Record r) \<Longrightarrow> live_run s d i = None \<Longrightarrow>
      overdue c (int (ge_Now e)) r \<or> reclaimable e \<lparr>so_ID = i, so_Rec = r, so_Bytes = n\<rparr> \<Longrightarrow>
      ?J (s\<lparr>sv_Records := AList.delete (d, i) (sv_Records s)\<rparr>)"
    using guarding_kept [of c e cancelled r i n] by (auto simp: claim_inv_def recs_ok_delete claim_kept_def record_at_delete made_for_def)
  show "?J s \<Longrightarrow> record_at s d i = None \<Longrightarrow> ?J (s\<lparr>sv_Records := AList.update (d, i) (Record r) (sv_Records s)\<rparr>)"
    by (auto simp: claim_inv_def recs_ok_update claim_kept_def record_at_update)
  show "?J s \<Longrightarrow> ValidRunID i \<Longrightarrow> record_at s d i = Some (Record (ru_Record rn)) \<Longrightarrow> rr_State (ru_Record rn) = stateRunning \<Longrightarrow>
      ?J (s\<lparr>sv_Runs := AList.update (runKey d i) rn (sv_Runs s)\<rparr>)"
    using states_differ by (auto simp: claim_inv_def recs_ok_def claim_kept_def live_run_update split: if_splits)
  show "?J s \<Longrightarrow> ValidRunID i \<Longrightarrow> live_run s d i = Some rn \<Longrightarrow> same_run rn rn' \<Longrightarrow> ?J (s\<lparr>sv_Runs := AList.update (runKey d i) rn' (sv_Runs s)\<rparr>)"
    by (auto simp: claim_inv_def recs_ok_def claim_kept_def live_run_update same_run_def made_for_def created_at_def split: if_splits)
  show "?J s \<Longrightarrow> ValidRunID i \<Longrightarrow> live_run s d i = Some rn \<Longrightarrow> rr_State (ru_Record rn) = stateFinished \<Longrightarrow>
      ?J (s\<lparr>sv_Records := AList.update (d, i) (Record (ru_Record rn)) (sv_Records s)\<rparr>)"
    by (auto simp: claim_inv_def recs_ok_update claim_kept_def record_at_update)
  show "?J s \<Longrightarrow> (\<And>k rn. map_of rs k = Some rn \<Longrightarrow> map_of (sv_Runs s) k = Some rn) \<Longrightarrow> ?J (s\<lparr>sv_Runs := rs\<rparr>)"
    by (auto simp: claim_inv_def recs_ok_def claim_kept_def live_run_def)
qed

lemma claim_steps:
  assumes "recs_ok s" and "claim_kept cancelled t0 d i s" and "ValidRunID i"
    and "list_all (\<lambda>(e, a). valid_action a \<and> guarding c (int (ge_Now e)) cancelled t0) steps"
  shows "recs_ok (fold (gw_step c) steps s) \<and> claim_kept cancelled t0 d i (fold (gw_step c) steps s)"
  using assms(1,2,4)
proof (induction steps arbitrary: s)
  case (Cons x steps)
  obtain e a where x: "x = (e, a)" by fastforce
  have "claim_inv c e cancelled t0 d i s" using Cons.prems by (simp add: claim_inv_def)
  then have "claim_inv c e cancelled t0 d i (gw_step c x s)" using claims.gw_step_J Cons.prems(3) by (simp add: x)
  then have "recs_ok (gw_step c x s)" "claim_kept cancelled t0 d i (gw_step c x s)" using Cons.prems(3) assms(3) by (auto simp: claim_inv_def x)
  from Cons.IH [OF this] show ?case using Cons.prems(3) by simp
qed simp

lemma claim_refuses:
  assumes "recs_ok s" and "claim_kept cancelled t0 d i s" and "ValidRunID i" and "guarding c (int (ge_Now e)) cancelled t0"
    and "rs_DeviceID st = d" and "rs_ID st = i"
  shows "\<exists>x. fst (startRun c e rnd st s) = Inl x"
proof -
  have "claim_inv c e cancelled t0 d i s" using assms(1,2) by (simp add: claim_inv_def)
  then have "claim_inv c e cancelled t0 d i (sweepRuns c e s)" by (rule claims.sweepRuns_J)
  then have "record_at (sweepRuns c e s) d i \<noteq> None" using assms(3,4) by (auto simp: claim_inv_def claim_kept_def)
  then show ?thesis using assms(5,6) by (auto simp: startRun_def Let_def)
qed

lemma claim_served:
  assumes "claim_kept cancelled t0 d i s" and "ValidRunID i"
  shows "fst (serveExisting c e d i h s) \<noteq> None"
proof -
  obtain r where r: "record_at s d i = Some (Record r)" using assms(1) by (auto simp: claim_kept_def)
  have "fst (lookupRun c e d i s) \<noteq> Inl errRunNotFound"
    using r assms(2) by (simp add: lookupRun_def readRecord_def run_errors split: option.split)
  then show ?thesis by (auto simp: serveExisting_def split: prod.split sum.split)
qed

lemma startRun_claims:
  assumes "startRun c e rnd st s = (Inr rn, s1)" and "recs_ok s" and "ValidRunID (rs_ID st)" and "time_year (ge_Now e) < 10000"
    and "idempotencyWindow \<le> runRetention c + execTimeout c"
  shows "recs_ok s1 \<and> claim_kept False (int (ge_Now e)) (rs_DeviceID st) (rs_ID st) s1"
proof -
  let ?d = "rs_DeviceID st" and ?i = "rs_ID st" and ?t = "int (ge_Now e)"
  define s0 where "s0 = sweepRuns c e s"
  define frames where "frames = rs_ID st @ ''.'' @ hex_string rnd @ ''.frames''"
  let ?r = "new_record st frames (ge_Now e)"
  let ?rn = "new_run c e st ?r"
  obtain x sa where a: "admitLocked c e ?d s0 = (x, sa)" by fastforce
  obtain sb ok where m: "make_dir e ?d sa = (sb, ok)" by fastforce
  define sc where "sc = sb\<lparr>sv_Spools := AList.update (?d, frames) ([], ?t) (sv_Spools sb)\<rparr>"
  obtain y sd where cl: "claimRecord e ?d ?i ?r sc = (y, sd)" by fastforce
  define se where "se = sd\<lparr>sv_Runs := AList.update (runKey ?d ?i) ?rn (sv_Runs sd)\<rparr>"
  define sf where "sf = se\<lparr>sv_Running := (sv_Running sd)(?d := sv_Running sd ?d + 1)\<rparr>"
  have ok0: "recs_ok s0" using records.sweepRuns_J [OF assms(2)] by (simp add: s0_def)
  have oka: "recs_ok sa" by (rule records.admitLocked_J [OF ok0 a])
  have okc: "recs_ok sc" using oka make_dir_keeps [OF m] by (simp add: recs_ok_def sc_def)
  have okd: "recs_ok sd" using cl okc by (auto simp: claimRecord_def recs_ok_update split: if_splits)
  have won: "y = Inr True" "s1 = makeRoomLocked c e ?d (runMaxBytes c) (count_record ?d 1 sf)"
    using assms(1) unfolding startRun_def Let_def s0_def [symmetric] frames_def [symmetric]
    by (auto simp: a m cl sc_def [symmetric] se_def sf_def split: if_splits option.splits bool.splits sum.splits)
  have at: "record_at sd ?d ?i = Some (Record ?r)" using cl won(1) by (auto simp: claimRecord_def record_at_update split: if_splits)
  have t: "made_for ?t ?d ?i ?r" by (simp add: made_for_def created_at_def new_record_def ParseTime_FormatTime [OF assms(4)])
  have l: "live_run se ?d ?i = Some ?rn" by (simp add: se_def live_run_update assms(3))
  have "claim_kept False ?t ?d ?i se" using at l t
    by (auto simp: claim_kept_def se_def new_run_def) (simp add: new_record_def)
  then have "claim_inv c e False ?t ?d ?i se" using okd by (simp add: claim_inv_def se_def recs_ok_def)
  then have "claim_inv c e False ?t ?d ?i (count_record ?d 1 sf)" by (rule claims.other) (simp_all add: sf_def)
  then have "claim_inv c e False ?t ?d ?i s1" unfolding won(2) by (rule claims.makeRoomLocked_J)
  then show ?thesis using assms(3,5) by (simp add: claim_inv_def guarding_def idempotencyWindow_def hour_def minute_def)
qed

lemma cancelRun_claims:
  assumes "cancelRun c e d i s = (Inr b, s1)" and "recs_ok s" and "time_year (ge_Now e) < 10000"
    and "live_run s d i = None" and "record_at s d i = None"
  shows "recs_ok s1 \<and> claim_kept True (int (ge_Now e)) d i s1"
proof -
  let ?r = "\<lparr>rr_RunID = i, rr_DeviceID = d, rr_State = stateCancelled, rr_CreatedAt = FormatTime (ge_Now e), rr_FinishedAt = [],
    rr_EvictedAt = [], rr_RequestSHA256 = [], rr_ReqID = [], rr_Frames = [], rr_Broken = False, rr_CancelReason = []\<rparr>"
  obtain x sa where a: "admitLocked c e d s = (x, sa)" by fastforce
  obtain sb ok where m: "make_dir e d sa = (sb, ok)" by fastforce
  obtain y sc where cl: "claimRecord e d i ?r sb = (y, sc)" by fastforce
  have "recs_ok sa \<and> record_at sa d i = None" using unclaimed.admitLocked_J [OF _ a, of d i] assms(2,5) by simp
  then have sb: "recs_ok sb" "record_at sb d i = None" using make_dir_keeps [OF m] by (simp_all add: recs_ok_def record_at_def)
  have "y = Inr True \<and> s1 = count_record d 1 sc"
    using assms(1,4,5) sb cl by (auto simp: cancelRun_def a m claimRecord_def split: option.splits bool.splits sum.splits if_splits)
  moreover have "recs_ok sc \<and> record_at sc d i = Some (Record ?r)" if "y = Inr True"
    using cl sb that by (auto simp: claimRecord_def recs_ok_update record_at_update split: if_splits)
  moreover have "live_run sc d i = live_run s d i"
    using admitLocked_keeps [OF a] make_dir_keeps [OF m] claimRecord_keeps [OF cl] by (simp add: live_run_def)
  ultimately show ?thesis using assms(4) records_cong [of s1 sc]
    by (simp add: claim_kept_def made_for_def created_at_def ParseTime_FormatTime [OF assms(3)])
qed

text \<open>
  C16. A started run's identifier is never started again: for an hour after a start, whatever steps happen
  in between (a restart, sweeps, evictions, other devices' runs, failing files), another start of the
  identifier is refused and a repeat of its request joins or is refused, as long as the retention and the
  execution timeout together cover the hour (and the identifier is a valid one, and the year has four digits).
\<close>

theorem started_once:
  assumes "startRun c e rnd st s = (Inr rn, s1)" and "recs_ok s" and "ValidRunID (rs_ID st)" and "time_year (ge_Now e) < 10000"
    and "idempotencyWindow \<le> runRetention c + execTimeout c"
    and "list_all (\<lambda>(e', a). valid_action a \<and> int (ge_Now e') \<le> int (ge_Now e) + idempotencyWindow) steps"
    and "int (ge_Now e2) \<le> int (ge_Now e) + idempotencyWindow" and "rs_DeviceID st2 = rs_DeviceID st" and "rs_ID st2 = rs_ID st"
  shows "(\<exists>x. fst (startRun c e2 rnd2 st2 (fold (gw_step c) steps s1)) = Inl x) \<and>
     fst (serveExisting c e2 (rs_DeviceID st) (rs_ID st) h (fold (gw_step c) steps s1)) \<noteq> None"
proof -
  have "list_all (\<lambda>(e', a). valid_action a \<and> guarding c (int (ge_Now e')) False (int (ge_Now e))) steps"
    using assms(5,6) by (auto simp: list_all_iff guarding_def)
  with startRun_claims [OF assms(1-5)] claim_steps assms(3)
  have k: "recs_ok (fold (gw_step c) steps s1)" "claim_kept False (int (ge_Now e)) (rs_DeviceID st) (rs_ID st) (fold (gw_step c) steps s1)"
    by blast+
  have g: "guarding c (int (ge_Now e2)) False (int (ge_Now e))" using assms(5,7) by (simp add: guarding_def)
  show ?thesis using claim_refuses [OF k assms(3) g assms(8,9)] claim_served [OF k(2) assms(3)] by blast
qed

text \<open>
  C24. A cancel that overtakes its request stops it: for ten minutes after the cancel claimed the
  identifier, whatever happens in between, the run cannot start and a lookup says that it was cancelled.
\<close>

theorem cancelled_never_starts:
  assumes "cancelRun c e d i s = (Inr b, s1)" and "recs_ok s" and "ValidRunID i" and "time_year (ge_Now e) < 10000"
    and "live_run s d i = None" and "record_at s d i = None"
    and "list_all (\<lambda>(e', a). valid_action a \<and> int (ge_Now e') \<le> int (ge_Now e) + cancelTombstoneTTL) steps"
    and "int (ge_Now e2) \<le> int (ge_Now e) + cancelTombstoneTTL" and "rs_DeviceID st = d" and "rs_ID st = i"
  shows "(\<exists>x. fst (startRun c e2 rnd st (fold (gw_step c) steps s1)) = Inl x) \<and>
     fst (lookupRun c e2 d i (fold (gw_step c) steps s1)) = Inl errRunCancelled"
proof -
  have "list_all (\<lambda>(e', a). valid_action a \<and> guarding c (int (ge_Now e')) True (int (ge_Now e))) steps"
    using assms(7) by (auto simp: list_all_iff guarding_def)
  with cancelRun_claims [OF assms(1,2,4-6)] claim_steps assms(3)
  have k: "recs_ok (fold (gw_step c) steps s1)" "claim_kept True (int (ge_Now e)) d i (fold (gw_step c) steps s1)" by blast+
  have g: "guarding c (int (ge_Now e2)) True (int (ge_Now e))" using assms(8) by (simp add: guarding_def)
  obtain r where "record_at (fold (gw_step c) steps s1) d i = Some (Record r)" "rr_State r = stateCancelled" "rr_RunID r = i" "rr_DeviceID r = d" "live_run (fold (gw_step c) steps s1) d i = None"
    using k(2) by (cases "live_run (fold (gw_step c) steps s1) d i") (auto simp: claim_kept_def made_for_def)
  then show ?thesis using claim_refuses [OF k assms(3) g assms(9,10)] assms(3) by (simp add: lookupRun_def readRecord_def)
qed

section \<open>The slots of a device\<close>

lemma filter_update_same: "map_of xs k = Some v0 \<Longrightarrow> P (k, v) = P (k, v0) \<Longrightarrow> length (filter P (AList.update k v xs)) = length (filter P xs)"
  by (induction xs) (auto split: if_splits)

lemma filter_delete_key: "distinct (map fst xs) \<Longrightarrow> map_of xs k = Some v \<Longrightarrow>
   length (filter P xs) = length (filter P (AList.delete k xs)) + (if P (k, v) then 1 else 0)"
  by (induction xs) (auto split: if_splits)

lemma update_fresh: "map_of xs k = None \<Longrightarrow> AList.update k v xs = xs @ [(k, v)]"
  by (induction xs) (auto split: if_splits)

lemma slots_cong: "sv_Runs s' = sv_Runs s \<Longrightarrow> sv_Running s' = sv_Running s \<Longrightarrow> slots_ok c s' = slots_ok c s"
  by (simp add: slots_ok_def runs_of_def)

lemma slots_counted: "slots_ok c s \<Longrightarrow> sv_Running s d = int (length (runs_of s d)) \<and> sv_Running s d \<le> maxConcurrent c"
  unfolding slots_ok_def by blast

lemma slots_okI: "distinct (map fst (sv_Runs s)) \<Longrightarrow> list_all (slot_ok c) (sv_Runs s) \<Longrightarrow>
    (\<And>d. sv_Running s d = int (length (runs_of s d)) \<and> sv_Running s d \<le> maxConcurrent c) \<Longrightarrow> slots_ok c s"
  unfolding slots_ok_def by blast

lemma slots_live: "slots_ok c s \<Longrightarrow> ValidRunID i \<Longrightarrow> live_run s d i = Some rn \<Longrightarrow>
   ru_DeviceID rn = d \<and> ru_ID rn = i \<and> capped rn \<and> ru_Limit rn = runMaxBytes c"
  using runKey_inj [of i "ru_ID rn" d "ru_DeviceID rn"]
  by (fastforce simp: slots_ok_def live_run_def list_all_iff dest!: map_of_SomeD)

lemma slots_change:
  assumes "slots_ok c s" and "ValidRunID i" and "live_run s d i = Some rn" and "same_run rn rn'" and "capped rn'" and "ru_Limit rn' = ru_Limit rn"
    and "sv_Runs s' = AList.update (runKey d i) rn' (sv_Runs s)" and "sv_Running s' = sv_Running s"
  shows "slots_ok c s'"
proof -
  note l = slots_live [OF assms(1-3)]
  have n: "length (runs_of s' x) = length (runs_of s x)" for x
    using filter_update_same [of "sv_Runs s" "runKey d i" rn "\<lambda>y. ru_DeviceID (snd y) = x" rn'] assms(3,4)
    by (simp add: runs_of_def assms(7) live_run_def same_run_def)
  have "distinct (map fst (sv_Runs s'))" using assms(1) by (simp add: assms(7) slots_ok_def distinct_update)
  moreover have "list_all (slot_ok c) (sv_Runs s')"
    using assms(1,2,4,5,6) l set_update_subset [of "runKey d i" rn' "sv_Runs s"]
    by (auto simp: assms(7) slots_ok_def list_all_iff same_run_def)
  moreover have "sv_Running s' x = int (length (runs_of s' x)) \<and> sv_Running s' x \<le> maxConcurrent c" for x
    using slots_counted [OF assms(1), of x] n [of x] unfolding assms(8) by metis
  ultimately show ?thesis by (intro slots_okI)
qed

lemma slots_publish:
  assumes "slots_ok c s" and "ValidRunID i" and "live_run s d i = None" and "ru_DeviceID rn = d" and "ru_ID rn = i" and "capped rn"
    and "ru_Limit rn = runMaxBytes c" and "sv_Running s d < maxConcurrent c"
    and "sv_Runs s' = AList.update (runKey d i) rn (sv_Runs s)" and "sv_Running s' = (sv_Running s)(d := sv_Running s d + 1)"
  shows "slots_ok c s'"
proof -
  have u: "sv_Runs s' = sv_Runs s @ [(runKey d i, rn)]" using assms(3) by (simp add: assms(9) live_run_def update_fresh)
  have fr: "runKey d i \<notin> fst ` set (sv_Runs s)" using assms(3) by (simp add: live_run_def map_of_eq_None_iff)
  have "sv_Running s' x = int (length (runs_of s' x)) \<and> sv_Running s' x \<le> maxConcurrent c" for x
    using slots_counted [OF assms(1), of x] slots_counted [OF assms(1), of d] assms(4,8) by (auto simp: assms(10) u runs_of_def)
  moreover have "distinct (map fst (sv_Runs s'))" "list_all (slot_ok c) (sv_Runs s')"
    using assms(1,2,4-7) fr by (auto simp: slots_ok_def u)
  ultimately show ?thesis by (intro slots_okI)
qed

lemma slots_end: "slots_ok c s \<Longrightarrow> ValidRunID i \<Longrightarrow> slots_ok c (endRun c e d i s)"
proof (cases "live_run s d i")
  case (Some rn)
  assume s: "slots_ok c s" and i: "ValidRunID i"
  note l = slots_live [OF s i Some]
  let ?s = "s\<lparr>sv_Runs := AList.delete (runKey d i) (sv_Runs s), sv_Running := (sv_Running s)(d := if sv_Running s d - 1 \<le> 0 then 0 else sv_Running s d - 1)\<rparr>"
  have n: "length (runs_of s x) = length (runs_of ?s x) + (if x = d then 1 else 0)" for x
    using filter_delete_key [of "sv_Runs s" "runKey d i" rn "\<lambda>y. ru_DeviceID (snd y) = x"] s l Some
    by (auto simp: slots_ok_def runs_of_def live_run_def)
  have "sv_Running ?s x = int (length (runs_of ?s x)) \<and> sv_Running ?s x \<le> maxConcurrent c" for x
    using slots_counted [OF s, of x] slots_counted [OF s, of d] n [of x] by auto
  moreover have "distinct (map fst (sv_Runs ?s))" using s by (simp add: slots_ok_def distinct_delete)
  moreover have "list_all (slot_ok c) (sv_Runs ?s)"
    using s by (auto simp: slots_ok_def list_all_iff AList.delete_eq)
  ultimately have "slots_ok c ?s" by (intro slots_okI)
  moreover have "endRun c e d i s = makeRoomLocked c e d 0 ?s" by (simp add: endRun_def Let_def Some)
  ultimately show ?thesis using slots_cong [of "makeRoomLocked c e d 0 ?s" ?s] by simp
qed (simp add: endRun_def)

lemma startRun_cases:
  assumes "startRun c e rnd st s = (x, s1)"
  shows "sv_Runs s1 = sv_Runs s \<and> sv_Running s1 = sv_Running s \<or>
    (\<exists>frames. live_run s (rs_DeviceID st) (rs_ID st) = None \<and> sv_Running s (rs_DeviceID st) < maxConcurrent c \<and>
      sv_Runs s1 = AList.update (runKey (rs_DeviceID st) (rs_ID st)) (new_run c e st (new_record st frames (ge_Now e))) (sv_Runs s) \<and>
      sv_Running s1 = (sv_Running s)(rs_DeviceID st := sv_Running s (rs_DeviceID st) + 1))"
proof -
  let ?d = "rs_DeviceID st" and ?i = "rs_ID st"
  define s0 where "s0 = sweepRuns c e s"
  define frames where "frames = rs_ID st @ ''.'' @ hex_string rnd @ ''.frames''"
  let ?r = "new_record st frames (ge_Now e)"
  let ?rn = "new_run c e st ?r"
  have k0: "sv_Runs s0 = sv_Runs s" "sv_Running s0 = sv_Running s" by (simp_all add: s0_def)
  obtain y sa where a: "admitLocked c e ?d s0 = (y, sa)" by fastforce
  have ka: "sv_Runs sa = sv_Runs s0" "sv_Running sa = sv_Running s0" using admitLocked_keeps [OF a] by simp_all
  obtain sb ok where m: "make_dir e ?d sa = (sb, ok)" by fastforce
  have kb: "sv_Runs sb = sv_Runs sa" "sv_Running sb = sv_Running sa" using make_dir_keeps [OF m] by simp_all
  define sc where "sc = sb\<lparr>sv_Spools := AList.update (?d, frames) ([], int (ge_Now e)) (sv_Spools sb)\<rparr>"
  have kc: "sv_Runs sc = sv_Runs sb" "sv_Running sc = sv_Running sb" by (simp_all add: sc_def)
  obtain z sd where cl: "claimRecord e ?d ?i ?r sc = (z, sd)" by fastforce
  have kd: "sv_Runs sd = sv_Runs sc" "sv_Running sd = sv_Running sc" using claimRecord_keeps [OF cl] by simp_all
  have l: "live_run s0 ?d ?i = live_run s ?d ?i" by (simp add: live_run_def k0)
  show ?thesis
  proof (cases "x = Inr ?rn")
    case False
    then have "sv_Runs s1 = sv_Runs s \<and> sv_Running s1 = sv_Running s"
      using assms k0 ka kb kc kd unfolding startRun_def Let_def s0_def [symmetric] frames_def [symmetric]
      by (auto simp: a m cl sc_def [symmetric] split: if_splits option.splits bool.splits sum.splits)
    then show ?thesis by blast
  next
    case True
    then have "live_run s0 ?d ?i = None \<and> sv_Running s0 ?d < maxConcurrent c \<and>
       sv_Runs s1 = AList.update (runKey ?d ?i) ?rn (sv_Runs sd) \<and> sv_Running s1 = (sv_Running sd)(?d := sv_Running sd ?d + 1)"
      using assms unfolding startRun_def Let_def s0_def [symmetric] frames_def [symmetric]
      by (auto simp: a m cl sc_def [symmetric] split: if_splits option.splits bool.splits sum.splits)
    then show ?thesis using k0 ka kb kc kd l by auto
  qed
qed

lemma cancelRun_cases:
  assumes "cancelRun c e d i s = (x, s1)"
  shows "sv_Runs s1 = sv_Runs s \<and> sv_Running s1 = sv_Running s \<or>
    (\<exists>rn z. live_run s d i = Some rn \<and> sv_Runs s1 = AList.update (runKey d i) (rn\<lparr>ru_Cancelled := z\<rparr>) (sv_Runs s) \<and> sv_Running s1 = sv_Running s)"
proof (cases "live_run s d i")
  case None
  obtain y sa where a: "admitLocked c e d s = (y, sa)" by fastforce
  obtain sb ok where m: "make_dir e d sa = (sb, ok)" by fastforce
  have "sv_Runs s1 = sv_Runs s \<and> sv_Running s1 = sv_Running s"
    using assms admitLocked_keeps [OF a] make_dir_keeps [OF m]
    by (auto simp: cancelRun_def None a m dest!: claimRecord_keeps split: if_splits option.splits bool.splits sum.splits prod.splits)
  then show ?thesis by blast
next
  case (Some rn)
  then show ?thesis using assms by (auto simp: cancelRun_def split: if_splits)
qed

lemma lookupRun_keeps: "sv_Runs (snd (lookupRun c e d i s)) = sv_Runs s \<and> sv_Running (snd (lookupRun c e d i s)) = sv_Running s"
  by (simp add: lookupRun_def split: option.split sum.split)

lemma maxConcurrent_pos: "0 < maxConcurrent c" and runMaxBytes_pos: "0 < runMaxBytes c"
  by (simp_all add: maxConcurrent_def DefaultMaxConcurrent_def runMaxBytes_def DefaultRunMaxBytes_def)

lemma conclude_capped: "capped r \<Longrightarrow> conclude p kind now cf wr r = (r', x) \<Longrightarrow> capped r' \<and> ru_Limit r' = ru_Limit r"
  using run_step_capped [of r "OpConclude p kind now cf wr"] by simp

lemma slots_step:
  assumes "slots_ok c s" and "valid_action a"
  shows "slots_ok c (gw_step c (e, a) s)"
proof (cases a)
  case (GStart rnd st)
  obtain x s1 where r: "startRun c e rnd st s = (x, s1)" by fastforce
  have i: "ValidRunID (rs_ID st)" using assms(2) by (simp add: GStart)
  have cap: "capped (new_run c e st rc)" for rc using runMaxBytes_pos [of c] by (simp add: capped_def new_run_def)
  from startRun_cases [OF r] show ?thesis
  proof (elim disjE exE conjE)
    fix frames
    let ?rn = "new_run c e st (new_record st frames (ge_Now e))"
    assume l: "live_run s (rs_DeviceID st) (rs_ID st) = None" and n: "sv_Running s (rs_DeviceID st) < maxConcurrent c"
      and u: "sv_Runs s1 = AList.update (runKey (rs_DeviceID st) (rs_ID st)) ?rn (sv_Runs s)"
        "sv_Running s1 = (sv_Running s)(rs_DeviceID st := sv_Running s (rs_DeviceID st) + 1)"
    have "ru_DeviceID ?rn = rs_DeviceID st" "ru_ID ?rn = rs_ID st" "ru_Limit ?rn = runMaxBytes c" by (simp_all add: new_run_def)
    from slots_publish [OF assms(1) i l this(1,2) cap this(3) n u] show ?thesis by (simp add: GStart r)
  qed (use slots_cong [of s1 s c] assms(1) in \<open>simp add: GStart r\<close>)
next
  case (GCancel d i)
  obtain x s1 where r: "cancelRun c e d i s = (x, s1)" by fastforce
  have i: "ValidRunID i" using assms(2) by (simp add: GCancel)
  from cancelRun_cases [OF r] show ?thesis
  proof (elim disjE exE conjE)
    fix rn z
    assume l: "live_run s d i = Some rn" and u: "sv_Runs s1 = AList.update (runKey d i) (rn\<lparr>ru_Cancelled := z\<rparr>) (sv_Runs s)" "sv_Running s1 = sv_Running s"
    have "slots_ok c s1" by (rule slots_change [OF assms(1) i l _ _ _ u]) (use slots_live [OF assms(1) i l] in \<open>simp_all add: same_run_def capped_def\<close>)
    then show ?thesis by (simp add: GCancel r)
  qed (use slots_cong [of s1 s c] assms(1) in \<open>simp add: GCancel r\<close>)
next
  case (GLookup d i)
  then show ?thesis using lookupRun_keeps [of c e d i s] slots_cong [of "snd (lookupRun c e d i s)" s c] assms(1) by simp
next
  case GSweep
  then show ?thesis using slots_cong [of "sweepRuns c e s" s c] assms(1) by simp
next
  case (GData d i k p)
  have i: "ValidRunID i" using assms(2) by (simp add: GData)
  show ?thesis
  proof (cases "live_run s d i")
    case (Some rn)
    note l = slots_live [OF assms(1) i Some]
    have "slots_ok c (update_live d i (data k p rn) (int (ge_Now e)) s)"
      by (rule slots_change [OF assms(1) i Some data_same]) (use data_capped l in \<open>simp_all add: update_live_def\<close>)
    then show ?thesis by (simp add: GData live_data_def Some)
  qed (use assms(1) in \<open>simp add: GData live_data_def\<close>)
next
  case (GStop d i lo)
  have i: "ValidRunID i" using assms(2) by (simp add: GStop)
  show ?thesis
  proof (cases "live_run s d i")
    case (Some rn)
    note l = slots_live [OF assms(1) i Some]
    have "slots_ok c (s\<lparr>sv_Runs := AList.update (runKey d i) (fst (stop_run lo rn)) (sv_Runs s)\<rparr>)"
      by (rule slots_change [OF assms(1) i Some stop_run_same]) (use stop_run_capped l in simp_all)
    then show ?thesis by (simp add: GStop live_stop_def Some)
  qed (use assms(1) in \<open>simp add: GStop live_stop_def\<close>)
next
  case (GConclude d i p kind cf)
  have i: "ValidRunID i" using assms(2) by (simp add: GConclude)
  show ?thesis
  proof (cases "live_run s d i")
    case (Some rn)
    note l = slots_live [OF assms(1) i Some]
    obtain rn' x where r: "conclude p kind (ge_Now e) cf (ge_Fails e (WriteRecord d i)) rn = (rn', x)" by fastforce
    have u: "slots_ok c (update_live d i rn' (int (ge_Now e)) s)"
      by (rule slots_change [OF assms(1) i Some]) (use conclude_same [OF r] conclude_capped [OF _ r] l in \<open>simp_all add: update_live_def\<close>)
    have "slots_ok c (endRun c e d i s2)" if "sv_Runs s2 = sv_Runs (update_live d i rn' (int (ge_Now e)) s)"
      "sv_Running s2 = sv_Running (update_live d i rn' (int (ge_Now e)) s)" for s2
      using slots_end [OF _ i] slots_cong [OF that] u by blast
    then show ?thesis by (simp add: GConclude live_conclude_def Some r Let_def split: option.split)
  qed (use assms(1) in \<open>simp add: GConclude live_conclude_def\<close>)
next
  case GRestart
  then show ?thesis using maxConcurrent_pos [of c] by (simp add: slots_ok_def restart_def runs_of_def)
qed

text \<open>What a device's live runs hold on disk.\<close>

definition live_bytes :: "gw_server \<Rightarrow> string \<Rightarrow> int" where
  "live_bytes s d = sum_list (map (\<lambda>rn. int (length (wr_Out (ru_File rn)))) (runs_of s d))"

lemma held_bytes_bound: "list_all (\<lambda>x. f x \<le> m) xs \<Longrightarrow> sum_list (map f xs) \<le> int (length xs) * m"
  by (induction xs) (auto simp: algebra_simps)

lemma slots_bytes: "slots_ok c s \<Longrightarrow> live_bytes s d \<le> maxConcurrent c * runMaxBytes c"
proof -
  assume s: "slots_ok c s"
  then have "list_all (\<lambda>rn. int (length (wr_Out (ru_File rn))) \<le> runMaxBytes c) (runs_of s d)"
    by (fastforce simp: slots_ok_def runs_of_def list_all_iff capped_def)
  then have "live_bytes s d \<le> int (length (runs_of s d)) * runMaxBytes c" unfolding live_bytes_def by (rule held_bytes_bound)
  also have "\<dots> \<le> maxConcurrent c * runMaxBytes c" using slots_counted [OF s, of d] runMaxBytes_pos [of c] by (intro mult_right_mono) auto
  finally show ?thesis .
qed

text \<open>
  C25. Whatever steps a gateway takes, the executions it counts for a device are exactly the device's live
  runs, never more than its limit, and together they hold at most that many times the cap of one run.
\<close>

theorem slots_bound:
  assumes "slots_ok c s" and "list_all (\<lambda>(e, a). valid_action a) steps"
  shows "sv_Running (fold (gw_step c) steps s) d = int (length (runs_of (fold (gw_step c) steps s) d)) \<and>
     sv_Running (fold (gw_step c) steps s) d \<le> maxConcurrent c \<and>
     live_bytes (fold (gw_step c) steps s) d \<le> maxConcurrent c * runMaxBytes c"
proof -
  have "slots_ok c (fold (gw_step c) steps s)" using assms
  proof (induction steps arbitrary: s)
    case (Cons x steps)
    obtain e a where x: "x = (e, a)" by fastforce
    from Cons show ?case using slots_step [of c s a e] by (simp add: x)
  qed simp
  then show ?thesis using slots_counted slots_bytes by blast
qed

text \<open>
  Nothing ties the deletion of an interrupted run's record to the idempotency window: with a retention and
  an execution timeout shorter than an hour together, the record goes within the hour the identifier is
  meant to be guarded.
\<close>

lemma interrupted_claim_expires:
  assumes "ValidRunID i" and "rr_State r = stateRunning" and "rr_Frames r = []" and "created_at r + (runRetention c + execTimeout c) < int (ge_Now e)"
    and "sv_Records s = [((d, i), Record r)]" and "sv_Runs s = []" and "\<not> ge_Fails e (RemoveRecord d i)"
  shows "record_at (sweepDeviceLocked c e d s) d i = None"
proof -
  have "storedRunsLocked s d = [\<lparr>so_ID = i, so_Rec = r, so_Bytes = 0\<rparr>]"
    using assms(1,2,5,6) states_differ by (simp add: storedRunsLocked_def live_run_def stored_run_def)
  then show ?thesis using assms
    by (simp add: sweepDeviceLocked_def Let_def live_of_def sweep_run_def overdue_def remove_record_def remove_orphans_def record_at_def)
qed

section \<open>Witnesses\<close>

definition no_server :: gw_server where
  "no_server = \<lparr>sv_Devices = [], sv_Records = [], sv_Spools = [], sv_Runs = [], sv_Running = \<lambda>_. 0, sv_DeviceRecords = \<lambda>_. None,
     sv_DeviceSweeps = \<lambda>_. zero_time, sv_NextSweep = zero_time\<rparr>"

definition default_config :: gw_config where
  "default_config = \<lparr>gc_RunRetention = 0, gc_RunMaxBytes = 0, gc_RunRecords = 0, gc_RunQuotaBytes = 0, gc_ExecTimeout = 0, gc_MaxConcurrent = 0\<rparr>"

definition calm :: "instant \<Rightarrow> gw_env" where "calm t = \<lparr>ge_Now = t, ge_Fails = \<lambda>_. False, ge_Room = None\<rparr>"

lemma calm_sel [simp]: "ge_Now (calm t) = t" "ge_Fails (calm t) x = False" "ge_Room (calm t) = None"
  by (simp_all add: calm_def)

lemma no_server_sel: "sv_Runs no_server = []" "sv_Records no_server = []" "sv_Spools no_server = []" "sv_Running no_server d = 0"
  by (simp_all add: no_server_def)

definition some_id :: string where "some_id = NewRunID (replicate 16 CHR ''a'')"

definition some_start :: runStart where
  "some_start = \<lparr>rs_DeviceID = ''dv_1'', rs_ID = some_id, rs_RequestSHA256 = ''aa'', rs_ReqID = ''r'', rs_Targets = 1, rs_Identities = []\<rparr>"

lemma some_id_valid: "ValidRunID some_id" by (simp add: some_id_def NewRunID_ValidRunID)

lemma default_values: "runRetention default_config = DefaultRunRetention" "execTimeout default_config = DefaultExecTimeout"
  "maxConcurrent default_config = 4" "runRecords default_config = 10000" "runMaxBytes default_config = 67108864" "maxRunTargets default_config = 2047"
  by (simp_all add: default_config_def runRetention_def execTimeout_def maxConcurrent_def DefaultMaxConcurrent_def runRecords_def DefaultRunRecords_def
    runMaxBytes_def DefaultRunMaxBytes_def maxRunTargets_def reserves)

lemma default_window: "idempotencyWindow \<le> runRetention default_config + execTimeout default_config"
  by (simp add: default_values idempotencyWindow_def DefaultRunRetention_def DefaultExecTimeout_def hour_def minute_def)

lemma empty_admits: "\<exists>s1. admitLocked default_config (calm t) d (no_server\<lparr>sv_NextSweep := n\<rparr>) = (None, s1) \<and> sv_Records s1 = [] \<and> sv_Spools s1 = []"
  by (simp add: admitLocked_def no_server_def sweepDeviceLocked_def Let_def storedRunsLocked_def live_of_def remove_orphans_def device_records_def default_values)

lemma empty_sweep: "\<exists>n. sweepRuns c e no_server = no_server\<lparr>sv_NextSweep := n\<rparr>"
  by (auto simp: sweepRuns_def Let_def no_server_def)

lemma some_started: "\<exists>rn s1. startRun default_config (calm t) ''x'' some_start no_server = (Inr rn, s1)"
proof -
  obtain n where n: "sweepRuns default_config (calm t) no_server = no_server\<lparr>sv_NextSweep := n\<rparr>" using empty_sweep by blast
  obtain s1 where s1: "admitLocked default_config (calm t) ''dv_1'' (no_server\<lparr>sv_NextSweep := n\<rparr>) = (None, s1)" "sv_Records s1 = []" "sv_Spools s1 = []"
    using empty_admits by blast
  show ?thesis
    by (simp add: startRun_def Let_def n s1 some_start_def default_values live_run_def no_server_sel record_at_def make_dir_def claimRecord_def)
qed

lemma some_cancelled: "\<exists>b s1. cancelRun default_config (calm t) ''dv_1'' some_id no_server = (Inr b, s1)"
proof -
  have "no_server = no_server\<lparr>sv_NextSweep := zero_time\<rparr>" by (simp add: no_server_def)
  then obtain s1 where s1: "admitLocked default_config (calm t) ''dv_1'' no_server = (None, s1)" "sv_Records s1 = []"
    using empty_admits [of t "''dv_1''" zero_time] by auto
  have "live_run no_server ''dv_1'' some_id = None" "record_at no_server ''dv_1'' some_id = None" by (simp_all add: live_run_def record_at_def no_server_def)
  then show ?thesis by (simp add: cancelRun_def s1 make_dir_def claimRecord_def record_at_def) blast
qed

lemma early: "time_year 0 < 10000" by (simp add: time_year_def) (subst civil_year.simps, simp add: year_days_def)

theorem started_once_witness:
  "\<exists>rn s1. startRun default_config (calm 0) ''x'' some_start no_server = (Inr rn, s1) \<and>
     (\<exists>x. fst (startRun default_config (calm 9) ''y'' some_start (fold (gw_step default_config) [(calm 5, GRestart), (calm 7, GSweep)] s1)) = Inl x)"
proof -
  obtain rn s1 where s: "startRun default_config (calm 0) ''x'' some_start no_server = (Inr rn, s1)" using some_started by blast
  have "recs_ok no_server" by (simp add: recs_ok_def no_server_def)
  moreover have "ValidRunID (rs_ID some_start)" by (simp add: some_start_def some_id_valid)
  moreover have "time_year (ge_Now (calm 0)) < 10000" using early by (simp add: calm_def)
  moreover have "list_all (\<lambda>(e', a). valid_action a \<and> int (ge_Now e') \<le> int (ge_Now (calm 0)) + idempotencyWindow) [(calm 5, GRestart), (calm 7, GSweep)]"
    "int (ge_Now (calm 9)) \<le> int (ge_Now (calm 0)) + idempotencyWindow"
    by (simp_all add: calm_def idempotencyWindow_def hour_def minute_def)
  ultimately show ?thesis using started_once [OF s _ _ _ default_window, of _ "calm 9" some_start] s by blast
qed

theorem cancelled_never_starts_witness:
  "\<exists>b s1. cancelRun default_config (calm 0) ''dv_1'' some_id no_server = (Inr b, s1) \<and>
     fst (lookupRun default_config (calm 9) ''dv_1'' some_id (fold (gw_step default_config) [(calm 5, GRestart)] s1)) = Inl errRunCancelled"
proof -
  obtain b s1 where s: "cancelRun default_config (calm 0) ''dv_1'' some_id no_server = (Inr b, s1)" using some_cancelled by blast
  have "recs_ok no_server" "live_run no_server ''dv_1'' some_id = None" "record_at no_server ''dv_1'' some_id = None"
    by (simp_all add: recs_ok_def no_server_def live_run_def record_at_def)
  moreover have "time_year (ge_Now (calm 0)) < 10000" using early by (simp add: calm_def)
  moreover have "list_all (\<lambda>(e', a). valid_action a \<and> int (ge_Now e') \<le> int (ge_Now (calm 0)) + cancelTombstoneTTL) [(calm 5, GRestart)]"
    "int (ge_Now (calm 9)) \<le> int (ge_Now (calm 0)) + cancelTombstoneTTL"
    by (simp_all add: calm_def cancelTombstoneTTL_def minute_def)
  moreover have "rs_DeviceID some_start = ''dv_1''" "rs_ID some_start = some_id" by (simp_all add: some_start_def)
  ultimately show ?thesis using cancelled_never_starts [OF s _ some_id_valid, of _ "calm 9" some_start] s by blast
qed

theorem slots_bound_witness:
  "live_bytes (fold (gw_step default_config) [(calm 5, GStart ''x'' some_start), (calm 6, GRestart)] no_server) ''dv_1'' \<le> maxConcurrent default_config * runMaxBytes default_config"
proof -
  have "slots_ok default_config no_server" by (simp add: slots_ok_def no_server_def runs_of_def default_values)
  moreover have "list_all (\<lambda>(e, a). valid_action a) [(calm 5, GStart ''x'' some_start), (calm 6, GRestart)]"
    by (simp add: some_start_def some_id_valid)
  ultimately show ?thesis using slots_bound by blast
qed

end
