(* ===== verification/Payload.thy ===== *)
theory Payload
  imports Commandline Clock Json
begin

text \<open>
  The payload store (\<open>internal/payload/store.go\<close>): contents staged for the standard input of commands,
  addressed by their SHA-256, with their metadata and the owners that pin them. Operations are steps
  under the store's lock; writing files does not fail. SHA-256 is a function \<open>H\<close> to its hexadecimal text.
\<close>

section \<open>References\<close>

definition MaxItemBytes :: int where "MaxItemBytes = 33554432"
definition DefaultTotalBytes :: int where "DefaultTotalBytes = 268435456"
definition PreviewBytes :: int where "PreviewBytes = 65536"
definition DiffBytes :: nat where "DiffBytes = 131072"

definition ErrInvalidRef :: error where "ErrInvalidRef = Sentinel ''ErrInvalidRef''"
definition payload_ErrTooLarge :: error where "payload_ErrTooLarge = Sentinel ''payload.ErrTooLarge''"
definition ErrTotalTooLarge :: error where "ErrTotalTooLarge = Sentinel ''ErrTotalTooLarge''"
definition ErrCorrupt :: error where "ErrCorrupt = Sentinel ''ErrCorrupt''"
definition ErrActiveRef :: error where "ErrActiveRef = Sentinel ''ErrActiveRef''"
definition ErrUnretained :: error where "ErrUnretained = Sentinel ''ErrUnretained''"
definition errPinOwner :: error where "errPinOwner = Errorf ''invalid payload pin owner'' []"

lemmas payload_errors = ErrInvalidRef_def payload_ErrTooLarge_def ErrTotalTooLarge_def ErrCorrupt_def ErrActiveRef_def ErrUnretained_def errPinOwner_def

record Ref =
  rf_SHA256 :: string
  rf_Bytes :: int

definition hex_rune :: "nat \<Rightarrow> bool" where
  "hex_rune c \<longleftrightarrow> \<not> ((c < 48 \<or> 57 < c) \<and> (c < 97 \<or> 102 < c))"

definition ref_Valid :: "Ref \<Rightarrow> bool" where
  "ref_Valid r \<longleftrightarrow> \<not> (length (rf_SHA256 r) \<noteq> 64 \<or> rf_Bytes r < 0 \<or> MaxItemBytes < rf_Bytes r) \<and> list_all hex_rune (runes (rf_SHA256 r))"

definition ref_String :: "Ref \<Rightarrow> string" where
  "ref_String r = (if rf_SHA256 r = [] then [] else ''sha256:'' @ rf_SHA256 r @ '':'' @ int_dec (rf_Bytes r))"

fun digits_loop :: "int \<Rightarrow> nat list \<Rightarrow> int option" where
  "digits_loop out [] = Some out"
| "digits_loop out (r # rs) =
     (if r < 48 \<or> 57 < r then None
      else let out' = out * 10 + int (r - 48) in if MaxItemBytes < out' then None else digits_loop out' rs)"

definition parseInt64 :: "string \<Rightarrow> int option" where
  "parseInt64 value = digits_loop 0 (runes value)"

definition ParseRef :: "string \<Rightarrow> int option \<Rightarrow> Ref res" where
  "ParseRef value sz =
     (let value = trim_prefix value ''sha256:''; parts = split_on CHR '':'' value; given = (case sz of Some n \<Rightarrow> n | None \<Rightarrow> -1) in
      case (if length parts = 2 then map_option (\<lambda>n. (parts ! 0, n)) (parseInt64 (parts ! 1)) else Some (value, given)) of
        None \<Rightarrow> Inl ErrInvalidRef
      | Some (sha, n) \<Rightarrow> if ref_Valid \<lparr>rf_SHA256 = sha, rf_Bytes = n\<rparr> then Inr \<lparr>rf_SHA256 = sha, rf_Bytes = n\<rparr> else Inl ErrInvalidRef)"

section \<open>The store\<close>

text \<open>A metadata file that does not parse is \<open>None\<close>.\<close>

record Meta =
  mt_SHA256 :: string
  mt_Bytes :: int
  mt_Name :: string
  mt_StoredAt :: string
  mt_ExpireAt :: string

record payload_store =
  py_Objects :: "string gomap"
  py_Meta :: "Meta option gomap"
  py_Pins :: "((string \<times> string) \<times> string) list"

record PutOptions =
  po_Name :: string
  po_ExpireAt :: "instant option"
  po_RetainFor :: int
  po_PinOwner :: string

record Item =
  it_Ref :: Ref
  it_Name :: string
  it_StoredAt :: "int option"
  it_ExpireAt :: "int option"
  it_Retained :: bool
  it_Pins :: "string list"

definition getLocked :: "(string \<Rightarrow> string) \<Rightarrow> payload_store \<Rightarrow> Ref \<Rightarrow> string res" where
  "getLocked H s r =
     (if \<not> ref_Valid r then Inl ErrInvalidRef
      else case gget (py_Objects s) (rf_SHA256 r) of
        None \<Rightarrow> Inl ErrUnretained
      | Some file \<Rightarrow>
          let content = take (nat (rf_Bytes r + 1)) file in
          if int (length content) \<noteq> rf_Bytes r \<or> H content \<noteq> rf_SHA256 r then Inl ErrCorrupt else Inr content)"

definition total_bytes :: "payload_store \<Rightarrow> int" where
  "total_bytes s = sum_list (map (int \<circ> length \<circ> snd) (py_Objects s))"

definition total_limit :: "int \<Rightarrow> int" where
  "total_limit m = (if m \<le> 0 then DefaultTotalBytes else m)"

definition checkTotal :: "int \<Rightarrow> payload_store \<Rightarrow> string \<Rightarrow> int \<Rightarrow> error option" where
  "checkTotal m s newSHA newBytes =
     (if total_limit m < total_bytes s + (if gget (py_Objects s) newSHA = None then newBytes else 0) then Some ErrTotalTooLarge else None)"

text \<open>
  A pin is a file named after its owner in the directory of the hash. \<open>Pin\<close> and \<open>Unpin\<close> refuse an owner
  with a slash; the options of a put are not checked, and there such an owner names a file in a
  subdirectory, which the listing of the pins does not see: nothing is pinned. (With a \<open>..\<close> in it the
  file would be elsewhere; no caller passes such a name, and where it would go is not modelled.)
\<close>

definition pinLocked :: "(string \<Rightarrow> string) \<Rightarrow> instant \<Rightarrow> payload_store \<Rightarrow> Ref \<Rightarrow> string \<Rightarrow> error option \<times> payload_store" where
  "pinLocked H now s r owner = (case getLocked H s r of
     Inl e \<Rightarrow> (Some e, s)
   | Inr _ \<Rightarrow> if CHR ''/'' \<in> set owner then (None, s)
       else (None, s\<lparr>py_Pins := AList.update (rf_SHA256 r, owner) (format_time now) (py_Pins s)\<rparr>))"

definition put_meta :: "instant \<Rightarrow> PutOptions \<Rightarrow> Ref \<Rightarrow> Meta" where
  "put_meta now opts r =
     (let expire = (if 0 < po_RetainFor opts then Some (nat (int now + po_RetainFor opts)) else po_ExpireAt opts) in
      \<lparr>mt_SHA256 = rf_SHA256 r, mt_Bytes = rf_Bytes r, mt_Name = po_Name opts, mt_StoredAt = format_time now,
       mt_ExpireAt = (case expire of None \<Rightarrow> [] | Some t \<Rightarrow> format_time t)\<rparr>)"

definition ref_of :: "(string \<Rightarrow> string) \<Rightarrow> string \<Rightarrow> Ref" where
  "ref_of H content = \<lparr>rf_SHA256 = H content, rf_Bytes = int (length content)\<rparr>"

text \<open>The content as it will be: kept when it is there intact, written when it is missing or corrupt.\<close>

definition put_object :: "(string \<Rightarrow> string) \<Rightarrow> string \<Rightarrow> payload_store \<Rightarrow> payload_store res" where
  "put_object H content s = (case getLocked H s (ref_of H content) of
     Inr existing \<Rightarrow> if existing \<noteq> content then Inl ErrCorrupt else Inr s
   | Inl e \<Rightarrow> if e = ErrUnretained \<or> e = ErrCorrupt then Inr (s\<lparr>py_Objects := gput (H content) content (py_Objects s)\<rparr>) else Inl e)"

definition putLocked :: "(string \<Rightarrow> string) \<Rightarrow> int \<Rightarrow> instant \<Rightarrow> string \<Rightarrow> PutOptions \<Rightarrow> payload_store \<Rightarrow> Ref res \<times> payload_store" where
  "putLocked H m now content opts s =
     (if MaxItemBytes < int (length content) then (Inl payload_ErrTooLarge, s)
      else let r = ref_of H content in
      case checkTotal m s (rf_SHA256 r) (rf_Bytes r) of
        Some e \<Rightarrow> (Inl e, s)
      | None \<Rightarrow>
        (case put_object H content s of
          Inl e \<Rightarrow> (Inl e, s)
        | Inr s1 \<Rightarrow>
            let s2 = s1\<lparr>py_Meta := gput (rf_SHA256 r) (Some (put_meta now opts r)) (py_Meta s1)\<rparr> in
            if po_PinOwner opts \<noteq> [] then
              (case pinLocked H now s2 r (po_PinOwner opts) of (Some e, s3) \<Rightarrow> (Inl e, s3) | (None, s3) \<Rightarrow> (Inr r, s3))
            else (Inr r, s2)))"

definition valid_owner :: "string \<Rightarrow> bool" where
  "valid_owner owner \<longleftrightarrow> \<not> (owner = [] \<or> CHR ''/'' \<in> set owner \<or> bslash \<in> set owner)"

definition payload_Pin :: "(string \<Rightarrow> string) \<Rightarrow> instant \<Rightarrow> Ref \<Rightarrow> string \<Rightarrow> payload_store \<Rightarrow> error option \<times> payload_store" where
  "payload_Pin H now r owner s =
     (if \<not> ref_Valid r then (Some ErrInvalidRef, s)
      else if \<not> valid_owner owner then (Some errPinOwner, s)
      else pinLocked H now s r owner)"

definition payload_Unpin :: "Ref \<Rightarrow> string \<Rightarrow> payload_store \<Rightarrow> error option \<times> payload_store" where
  "payload_Unpin r owner s =
     (if \<not> ref_Valid r then (Some ErrInvalidRef, s)
      else if \<not> valid_owner owner then (Some errPinOwner, s)
      else (None, s\<lparr>py_Pins := AList.delete (rf_SHA256 r, owner) (py_Pins s)\<rparr>))"

definition pins :: "payload_store \<Rightarrow> string \<Rightarrow> string list" where
  "pins s sha = sort (map (snd \<circ> fst) (filter (\<lambda>x. fst (fst x) = sha) (py_Pins s)))"

definition removeLocked :: "Ref \<Rightarrow> bool \<Rightarrow> payload_store \<Rightarrow> error option \<times> payload_store" where
  "removeLocked r force s =
     (if \<not> ref_Valid r then (Some ErrInvalidRef, s)
      else if pins s (rf_SHA256 r) \<noteq> [] \<and> \<not> force then (Some ErrActiveRef, s)
      else let s1 = s\<lparr>py_Objects := gdel (rf_SHA256 r) (py_Objects s), py_Meta := gdel (rf_SHA256 r) (py_Meta s)\<rparr> in
        (None, if force then s1\<lparr>py_Pins := filter (\<lambda>x. fst (fst x) \<noteq> rf_SHA256 r) (py_Pins s1)\<rparr> else s1))"

definition readMeta :: "payload_store \<Rightarrow> string \<Rightarrow> Meta option" where
  "readMeta s sha = (case gget (py_Meta s) sha of
     Some (Some m) \<Rightarrow> if mt_SHA256 m \<noteq> sha \<or> length (mt_SHA256 m) \<noteq> 64 \<or> mt_Bytes m < 0 then None else Some m
   | _ \<Rightarrow> None)"

definition item_of :: "payload_store \<Rightarrow> string \<Rightarrow> Meta \<Rightarrow> Item" where
  "item_of s i m = \<lparr>it_Ref = \<lparr>rf_SHA256 = mt_SHA256 m, rf_Bytes = mt_Bytes m\<rparr>, it_Name = mt_Name m, it_StoredAt = parse_time (mt_StoredAt m),
     it_ExpireAt = (if mt_ExpireAt m = [] then None else parse_time (mt_ExpireAt m)),
     it_Retained = (gget (py_Objects s) i \<noteq> None), it_Pins = pins s i\<rparr>"

definition payload_List :: "payload_store \<Rightarrow> Item list" where
  "payload_List s = sort_key (rf_SHA256 \<circ> it_Ref)
     (concat (map (\<lambda>i. case readMeta s i of None \<Rightarrow> [] | Some m \<Rightarrow> [item_of s i m]) (sort (keys (py_Meta s)))))"

definition collectable :: "instant \<Rightarrow> Item \<Rightarrow> bool" where
  "collectable now it \<longleftrightarrow> (case it_ExpireAt it of None \<Rightarrow> False | Some t \<Rightarrow> \<not> int now < t) \<and> it_Pins it = []"

fun gcLoop :: "instant \<Rightarrow> Item list \<Rightarrow> Ref list \<Rightarrow> payload_store \<Rightarrow> (Ref list \<times> error option) \<times> payload_store" where
  "gcLoop now [] removed s = ((removed, None), s)"
| "gcLoop now (it # items) removed s =
     (if \<not> collectable now it then gcLoop now items removed s
      else case removeLocked (it_Ref it) False s of
        (Some e, s1) \<Rightarrow> ((removed, Some e), s1)
      | (None, s1) \<Rightarrow> gcLoop now items (removed @ [it_Ref it]) s1)"

definition payload_GC :: "instant \<Rightarrow> payload_store \<Rightarrow> (Ref list \<times> error option) \<times> payload_store" where
  "payload_GC now s = gcLoop now (payload_List s) [] s"

section \<open>Showing contents\<close>

definition isText :: "string \<Rightarrow> bool" where
  "isText b \<longleftrightarrow> b = [] \<or> valid_string b \<and> CHR 0x00 \<notin> set b"

definition shown_rune :: "nat \<Rightarrow> bool" where
  "shown_rune r \<longleftrightarrow> r = 10 \<or> r = 9 \<or> r = 13 \<or> 0x20 \<le> r \<and> r \<noteq> 0x7f"

definition sanitizeText :: "string \<Rightarrow> string" where
  "sanitizeText s = encode_runes (filter shown_rune (runes s))"

text \<open>The members of a zip or tar archive are given by a function of the content.\<close>

record 'a ShowResult =
  sh_Ref :: Ref
  sh_Text :: string
  sh_Truncated :: bool
  sh_Binary :: bool
  sh_Archives :: "'a list"

definition show_limit :: "int \<Rightarrow> nat" where
  "show_limit n = nat (if n \<le> 0 \<or> PreviewBytes < n then PreviewBytes else n)"

definition payload_Show :: "(string \<Rightarrow> string) \<Rightarrow> (string \<Rightarrow> 'a list) \<Rightarrow> payload_store \<Rightarrow> Ref \<Rightarrow> int \<Rightarrow> 'a ShowResult res" where
  "payload_Show H archives s r n = rbind (getLocked H s r) (\<lambda>content.
     let preview = take (show_limit n) content; txt = isText preview in
     Inr \<lparr>sh_Ref = r, sh_Text = (if txt then sanitizeText preview else []), sh_Truncated = show_limit n < length content,
       sh_Binary = (\<not> txt), sh_Archives = archives content\<rparr>)"

text \<open>The lines that differ, until the text is longer than its limit.\<close>

fun diffLoop :: "string list \<Rightarrow> string list \<Rightarrow> string \<Rightarrow> string" where
  "diffLoop [] [] out = out"
| "diffLoop as bs out =
     (let av = (case as of [] \<Rightarrow> [] | a # _ \<Rightarrow> a); bv = (case bs of [] \<Rightarrow> [] | b # _ \<Rightarrow> b) in
      if av = bv then diffLoop (tl as) (tl bs) out
      else let out1 = (if as \<noteq> [] then out @ ''- '' @ av @ [newline] else out);
               out2 = (if bs \<noteq> [] then out1 @ ''+ '' @ bv @ [newline] else out1) in
        if DiffBytes < length out2 then take DiffBytes out2 else diffLoop (tl as) (tl bs) out2)"

definition simpleDiff :: "string \<Rightarrow> string \<Rightarrow> string" where
  "simpleDiff a b = diffLoop (split_on newline a) (split_on newline b) []"

record DiffResult =
  df_Changed :: bool
  df_Text :: string
  df_Truncated :: bool
  df_Binary :: bool

definition payload_Diff :: "(string \<Rightarrow> string) \<Rightarrow> payload_store \<Rightarrow> Ref \<Rightarrow> Ref \<Rightarrow> DiffResult res" where
  "payload_Diff H s from to = rbind (getLocked H s from) (\<lambda>a. rbind (getLocked H s to) (\<lambda>b.
     if \<not> isText a \<or> \<not> isText b then Inr \<lparr>df_Changed = (a \<noteq> b), df_Text = [], df_Truncated = False, df_Binary = True\<rparr>
     else Inr \<lparr>df_Changed = (a \<noteq> b), df_Text = sanitizeText (simpleDiff (take DiffBytes a) (take DiffBytes b)),
       df_Truncated = (DiffBytes < length a \<or> DiffBytes < length b), df_Binary = False\<rparr>))"

section \<open>Putting and getting\<close>

lemma gget_objects_update [simp]: "getLocked H (s\<lparr>py_Meta := x\<rparr>) r = getLocked H s r" "getLocked H (s\<lparr>py_Pins := y\<rparr>) r = getLocked H s r"
  by (simp_all add: getLocked_def)

lemma getLocked_cong: "py_Objects s' = py_Objects s \<Longrightarrow> getLocked H s' r = getLocked H s r"
  by (simp add: getLocked_def)

lemma getLocked_stored:
  assumes "ref_Valid (ref_of H content)" and "gget (py_Objects s) (H content) = Some content"
  shows "getLocked H s (ref_of H content) = Inr content"
  using assms by (simp add: getLocked_def ref_of_def)

lemma getLocked_sound: "getLocked H s r = Inr content \<Longrightarrow> ref_Valid r \<and> H content = rf_SHA256 r \<and> int (length content) = rf_Bytes r"
  by (auto simp: getLocked_def Let_def split: if_splits option.splits)

lemma getLocked_errors: "getLocked H s r = Inl e \<Longrightarrow> e = ErrInvalidRef \<or> e = ErrUnretained \<or> e = ErrCorrupt"
  by (auto simp: getLocked_def Let_def split: if_splits option.splits)

lemma ref_of_sel [simp]: "rf_SHA256 (ref_of H content) = H content" "rf_Bytes (ref_of H content) = int (length content)"
  by (simp_all add: ref_of_def)

lemma put_object_effect:
  assumes "put_object H content s = Inr s1"
  shows "ref_Valid (ref_of H content) \<and> getLocked H s1 (ref_of H content) = Inr content \<and>
    (s1 = s \<or> s1 = s\<lparr>py_Objects := gput (H content) content (py_Objects s)\<rparr> \<and> getLocked H s (ref_of H content) \<in> {Inl ErrUnretained, Inl ErrCorrupt})"
proof (cases "getLocked H s (ref_of H content)")
  case (Inl e)
  then have e: "e = ErrUnretained \<or> e = ErrCorrupt" and s1: "s1 = s\<lparr>py_Objects := gput (H content) content (py_Objects s)\<rparr>"
    using assms by (auto simp: put_object_def split: if_splits)
  have v: "ref_Valid (ref_of H content)" using Inl e by (auto simp: getLocked_def payload_errors split: if_splits)
  then have "getLocked H s1 (ref_of H content) = Inr content" by (rule getLocked_stored) (simp add: s1)
  then show ?thesis using v e s1 Inl by blast
next
  case (Inr existing)
  then show ?thesis using assms getLocked_sound [OF Inr] by (auto simp: put_object_def split: if_splits)
qed

text \<open>A put changes nothing, or leaves the content under its hash, its metadata and its pin.\<close>

lemma putLocked_effect:
  assumes "putLocked H m now content opts s = (x, s')"
  shows "s' = s \<and> (\<exists>e. x = Inl e) \<or>
    (\<exists>s1. put_object H content s = Inr s1 \<and> checkTotal m s (H content) (int (length content)) = None \<and>
     s' = s1\<lparr>py_Meta := gput (H content) (Some (put_meta now opts (ref_of H content))) (py_Meta s),
       py_Pins := (if po_PinOwner opts = [] \<or> CHR ''/'' \<in> set (po_PinOwner opts) then py_Pins s else AList.update (H content, po_PinOwner opts) (format_time now) (py_Pins s))\<rparr> \<and>
     x = Inr (ref_of H content))"
proof -
  consider (large) "MaxItemBytes < int (length content)"
    | (full) e where "\<not> MaxItemBytes < int (length content)" "checkTotal m s (H content) (int (length content)) = Some e"
    | (fits) "\<not> MaxItemBytes < int (length content)" "checkTotal m s (H content) (int (length content)) = None" by fastforce
  then show ?thesis
  proof cases
    case large
    then show ?thesis using assms unfolding putLocked_def by (intro disjI1) auto
  next
    case full
    then show ?thesis using assms unfolding putLocked_def by (intro disjI1) (auto simp: Let_def)
  next
    case fits
    show ?thesis
    proof (cases "put_object H content s")
      case (Inl e)
      then show ?thesis using assms fits unfolding putLocked_def by (intro disjI1) (auto simp: Let_def)
    next
      case (Inr s1)
      then have "py_Meta s1 = py_Meta s" "py_Pins s1 = py_Pins s" "getLocked H s1 (ref_of H content) = Inr content"
        using put_object_effect [OF Inr] by auto
      then show ?thesis using assms fits Inr unfolding putLocked_def by (auto simp: Let_def pinLocked_def split: if_splits)
    qed
  qed
qed

lemma putLocked_changes:
  assumes "putLocked H m now content opts s = (x, s')"
  obtains "s' = s"
  | s1 where "put_object H content s = Inr s1" "checkTotal m s (H content) (int (length content)) = None" "py_Objects s' = py_Objects s1"
      "py_Pins s' = py_Pins s \<or> py_Pins s' = AList.update (H content, po_PinOwner opts) (format_time now) (py_Pins s)"
proof -
  from putLocked_effect [OF assms] have thesis
  proof (elim disjE exE conjE)
    fix s1
    assume "put_object H content s = Inr s1" "checkTotal m s (H content) (int (length content)) = None"
      and "s' = s1\<lparr>py_Meta := gput (H content) (Some (put_meta now opts (ref_of H content))) (py_Meta s),
         py_Pins := (if po_PinOwner opts = [] \<or> CHR ''/'' \<in> set (po_PinOwner opts) then py_Pins s else AList.update (H content, po_PinOwner opts) (format_time now) (py_Pins s))\<rparr>"
    then show thesis by (intro that(2)) simp_all
  qed (rule that(1))
  then show thesis .
qed

text \<open>
  What a put stores can be read back under the reference it returns, which names its hash and size;
  it is never larger than an item may be, and it is listed with its owner's pin (when the owner can name
  a file).
\<close>

theorem put_get:
  assumes "putLocked H m now content opts s = (Inr r, s')"
  shows "r = ref_of H content \<and> getLocked H s' r = Inr content \<and> int (length content) \<le> MaxItemBytes \<and>
    readMeta s' (rf_SHA256 r) = Some (put_meta now opts r) \<and> (po_PinOwner opts \<noteq> [] \<and> CHR ''/'' \<notin> set (po_PinOwner opts) \<longrightarrow> po_PinOwner opts \<in> set (pins s' (rf_SHA256 r)))"
proof -
  obtain s1 where p: "put_object H content s = Inr s1" and r: "r = ref_of H content"
    and s': "s' = s1\<lparr>py_Meta := gput (H content) (Some (put_meta now opts (ref_of H content))) (py_Meta s),
       py_Pins := (if po_PinOwner opts = [] \<or> CHR ''/'' \<in> set (po_PinOwner opts) then py_Pins s else AList.update (H content, po_PinOwner opts) (format_time now) (py_Pins s))\<rparr>"
    using putLocked_effect [OF assms] by auto
  note e = put_object_effect [OF p]
  have "((H content, po_PinOwner opts), format_time now) \<in> set (AList.update (H content, po_PinOwner opts) (format_time now) (py_Pins s))"
    by (rule map_of_SomeD) (simp add: update_conv')
  then have "po_PinOwner opts \<in> set (pins s' (H content))" if "po_PinOwner opts \<noteq> [] \<and> CHR ''/'' \<notin> set (po_PinOwner opts)"
    using that by (force simp: pins_def s')
  moreover have "readMeta s' (H content) = Some (put_meta now opts r)" using e by (auto simp: readMeta_def s' put_meta_def Let_def ref_Valid_def r)
  ultimately show ?thesis using e by (auto simp: r s' ref_Valid_def)
qed

section \<open>Steps\<close>

datatype payload_op =
    PPut instant string PutOptions
  | PPin instant Ref string
  | PUnpin Ref string
  | PRemove Ref bool
  | PGC instant

fun payload_step :: "(string \<Rightarrow> string) \<Rightarrow> int \<Rightarrow> payload_op \<Rightarrow> payload_store \<Rightarrow> payload_store" where
  "payload_step H m (PPut now content opts) s = snd (putLocked H m now content opts s)"
| "payload_step H m (PPin now r owner) s = snd (payload_Pin H now r owner s)"
| "payload_step H m (PUnpin r owner) s = snd (payload_Unpin r owner s)"
| "payload_step H m (PRemove r force) s = snd (removeLocked r force s)"
| "payload_step H m (PGC now) s = snd (payload_GC now s)"

text \<open>What a plain removal keeps, collection keeps.\<close>

locale collected =
  fixes J :: "payload_store \<Rightarrow> bool"
  assumes removal: "J s \<Longrightarrow> J (snd (removeLocked r False s))"
begin

lemma gcLoop_J: "J s \<Longrightarrow> J (snd (gcLoop now items removed s))"
proof (induction items arbitrary: removed s)
  case (Cons it items)
  obtain e s1 where r: "removeLocked (it_Ref it) False s = (e, s1)" by fastforce
  have "J s1" using removal [OF Cons.prems, of "it_Ref it"] by (simp add: r)
  then show ?case using Cons by (simp add: r split: option.split)
qed simp

lemma payload_GC_J: "J s \<Longrightarrow> J (snd (payload_GC now s))"
  unfolding payload_GC_def by (rule gcLoop_J)

end

lemma payload_Pin_cases: "snd (payload_Pin H now r owner s) = s \<or>
   snd (payload_Pin H now r owner s) = s\<lparr>py_Pins := AList.update (rf_SHA256 r, owner) (format_time now) (py_Pins s)\<rparr>"
  by (simp add: payload_Pin_def pinLocked_def split: sum.split)

section \<open>Intact contents, within the limit\<close>

definition store_sound :: "(string \<Rightarrow> string) \<Rightarrow> int \<Rightarrow> string set \<Rightarrow> payload_store \<Rightarrow> bool" where
  "store_sound H m D s \<longleftrightarrow> wf_map (py_Objects s) \<and> list_all (\<lambda>(k, c). c \<in> D \<and> H c = k) (py_Objects s) \<and> total_bytes s \<le> total_limit m"

lemma total_gput: "gget (py_Objects s) k = None \<Longrightarrow> total_bytes (s\<lparr>py_Objects := gput k c (py_Objects s)\<rparr>) = total_bytes s + int (length c)"
proof -
  have "gget xs k = None \<Longrightarrow> sum_list (map (int \<circ> length \<circ> snd) (gput k c xs)) = sum_list (map (int \<circ> length \<circ> snd) xs) + int (length c)" for xs
    by (induction xs) (auto split: if_splits)
  then show "gget (py_Objects s) k = None \<Longrightarrow> ?thesis" by (simp add: total_bytes_def)
qed

lemma total_gdel: "sum_list (map (int \<circ> length \<circ> snd) (gdel k xs)) \<le> sum_list (map (int \<circ> length \<circ> snd) xs)"
  by (induction xs) auto

lemma sound_cong: "py_Objects s' = py_Objects s \<Longrightarrow> store_sound H m D s' = store_sound H m D s"
  by (simp add: store_sound_def total_bytes_def)

lemma sound_remove: "store_sound H m D s \<Longrightarrow> store_sound H m D (snd (removeLocked r force s))"
proof -
  assume s: "store_sound H m D s"
  have "store_sound H m D (s\<lparr>py_Objects := gdel k (py_Objects s)\<rparr>)" for k
    using s total_gdel [of k "py_Objects s"] wf_map_gdel delete_set_subset [of k "py_Objects s"]
    by (auto simp: store_sound_def total_bytes_def list_all_iff)
  then have "py_Objects s' = gdel k (py_Objects s) \<Longrightarrow> store_sound H m D s'" for s' k
    using sound_cong [of s' "s\<lparr>py_Objects := gdel k (py_Objects s)\<rparr>"] by simp
  then show ?thesis using s by (simp add: removeLocked_def Let_def)
qed

interpretation sound: collected "store_sound H m D" for H m D
  by unfold_locales (rule sound_remove)

lemma sound_put:
  assumes "store_sound H m D s" and "inj_on H D" and "content \<in> D"
  shows "store_sound H m D (snd (putLocked H m now content opts s))"
proof -
  obtain x s' where p: "putLocked H m now content opts s = (x, s')" by fastforce
  have "store_sound H m D s1" if o: "put_object H content s = Inr s1" and t: "checkTotal m s (H content) (int (length content)) = None" for s1
  proof (cases "s1 = s")
    case False
    then have s1: "s1 = s\<lparr>py_Objects := gput (H content) content (py_Objects s)\<rparr>" and e: "getLocked H s (ref_of H content) \<noteq> Inr content"
      and v: "ref_Valid (ref_of H content)" using put_object_effect [OF o] by auto
    have n: "gget (py_Objects s) (H content) = None"
    proof (rule ccontr)
      assume "gget (py_Objects s) (H content) \<noteq> None"
      then obtain c where c: "gget (py_Objects s) (H content) = Some c" by blast
      then have "c \<in> D" "H c = H content" using assms(1) by (fastforce simp: store_sound_def list_all_iff dest!: map_of_SomeD)+
      then have "c = content" using assms(2,3) by (auto dest: inj_onD)
      then show False using getLocked_stored [OF v] c e by simp
    qed
    have "set (gput (H content) content (py_Objects s)) \<subseteq> insert (H content, content) (set (py_Objects s))"
      by (rule set_update_subset)
    moreover have "total_bytes s1 \<le> total_limit m" using t n total_gput [OF n] by (simp add: s1 checkTotal_def split: if_splits)
    ultimately show ?thesis using assms(1,3) wf_map_gput by (fastforce simp: store_sound_def s1 list_all_iff)
  qed (use assms(1) in simp)
  note obj = this
  from p show ?thesis
  proof (cases rule: putLocked_changes)
    case (2 s1)
    then show ?thesis using obj [OF 2(1,2)] sound_cong [OF 2(3)] by (simp add: p)
  qed (use assms(1) in \<open>simp add: p\<close>)
qed

definition ops_put :: "payload_op list \<Rightarrow> string set" where
  "ops_put ops = {content. \<exists>now opts. PPut now content opts \<in> set ops}"

lemma sound_step:
  assumes "store_sound H m D s" and "inj_on H D" and "\<forall>now content opts. op = PPut now content opts \<longrightarrow> content \<in> D"
  shows "store_sound H m D (payload_step H m op s)"
proof (cases op)
  case (PPut now content opts)
  then show ?thesis using sound_put assms by simp
next
  case (PPin now r owner)
  then show ?thesis using payload_Pin_cases [of H now r owner s] sound_cong [of "snd (payload_Pin H now r owner s)" s] assms(1) by auto
next
  case (PUnpin r owner)
  then show ?thesis using sound_cong [of "snd (payload_Unpin r owner s)" s] assms(1) by (simp add: payload_Unpin_def)
next
  case (PRemove r force)
  then show ?thesis using sound_remove assms(1) by simp
next
  case (PGC now)
  then show ?thesis using sound.payload_GC_J assms(1) by simp
qed

definition empty_store :: payload_store where "empty_store = \<lparr>py_Objects = [], py_Meta = [], py_Pins = []\<rparr>"

text \<open>
  C36. However the store is used, every content it keeps is one that was put, filed under its hash, and
  together they never exceed the limit (for contents whose hashes differ).
\<close>

theorem payloads_bounded:
  assumes "inj_on H (ops_put ops)"
  shows "total_bytes (fold (payload_step H m) ops empty_store) \<le> total_limit m \<and>
    list_all (\<lambda>(k, c). c \<in> ops_put ops \<and> H c = k) (py_Objects (fold (payload_step H m) ops empty_store))"
proof -
  have "store_sound H m (ops_put ops) (fold (payload_step H m) ops' s)"
    if "store_sound H m (ops_put ops) s" "set ops' \<subseteq> set ops" for ops' s
    using that
  proof (induction ops' arbitrary: s)
    case (Cons op ops')
    have "store_sound H m (ops_put ops) (payload_step H m op s)"
      by (rule sound_step [OF Cons.prems(1) assms]) (use Cons.prems(2) in \<open>auto simp: ops_put_def\<close>)
    then show ?case using Cons by simp
  qed simp
  from this [of empty_store ops] have "store_sound H m (ops_put ops) (fold (payload_step H m) ops empty_store)"
    by (simp add: store_sound_def empty_store_def total_bytes_def total_limit_def DefaultTotalBytes_def)
  then show ?thesis by (simp add: store_sound_def)
qed

section \<open>Pinned contents stay\<close>

definition pinned :: "(string \<Rightarrow> string) \<Rightarrow> Ref \<Rightarrow> string \<Rightarrow> string \<Rightarrow> payload_store \<Rightarrow> bool" where
  "pinned H r owner content s \<longleftrightarrow> getLocked H s r = Inr content \<and> owner \<in> set (pins s (rf_SHA256 r))"

lemma pins_mem: "owner \<in> set (pins s sha) \<longleftrightarrow> (sha, owner) \<in> fst ` set (py_Pins s)"
  by (force simp: pins_def)

lemma pins_update: "py_Pins s' = AList.update (sha', owner') v (py_Pins s) \<Longrightarrow> owner \<in> set (pins s sha) \<Longrightarrow> owner \<in> set (pins s' sha)"
  by (simp add: pins_mem dom_update)

lemma pins_delete: "py_Pins s' = AList.delete (rf_SHA256 r', owner') (py_Pins s) \<Longrightarrow> sha \<noteq> rf_SHA256 r' \<or> owner \<noteq> owner' \<Longrightarrow>
   owner \<in> set (pins s sha) \<Longrightarrow> owner \<in> set (pins s' sha)"
  by (force simp: pins_mem AList.delete_eq)

lemma pins_same: "py_Pins s' = py_Pins s \<Longrightarrow> pins s' sha = pins s sha"
  by (simp add: pins_def)

lemma getLocked_other: "k \<noteq> rf_SHA256 r \<Longrightarrow> getLocked H (s\<lparr>py_Objects := gdel k (py_Objects s)\<rparr>) r = getLocked H s r"
  "k \<noteq> rf_SHA256 r \<Longrightarrow> getLocked H (s\<lparr>py_Objects := gput k c (py_Objects s)\<rparr>) r = getLocked H s r"
  by (auto simp: getLocked_def)

lemma pinned_remove: "pinned H r owner content s \<Longrightarrow> \<not> force \<or> rf_SHA256 r' \<noteq> rf_SHA256 r \<Longrightarrow> pinned H r owner content (snd (removeLocked r' force s))"
proof -
  assume p: "pinned H r owner content s" and f: "\<not> force \<or> rf_SHA256 r' \<noteq> rf_SHA256 r"
  show ?thesis
  proof (cases "rf_SHA256 r' = rf_SHA256 r")
    case True
    then have "pins s (rf_SHA256 r') \<noteq> []" using p by (auto simp: pinned_def)
    then show ?thesis using p f True by (simp add: removeLocked_def)
  next
    case False
    then have g: "getLocked H s' r = Inr content" if "py_Objects s' = gdel (rf_SHA256 r') (py_Objects s)" for s'
      using p getLocked_other(1) [OF False, of H s] getLocked_cong [of s' "s\<lparr>py_Objects := gdel (rf_SHA256 r') (py_Objects s)\<rparr>" H r] that
      by (simp add: pinned_def)
    show ?thesis using p False g by (auto simp: removeLocked_def Let_def pinned_def pins_mem)
  qed
qed

interpretation pinned: collected "pinned H r owner content" for H r owner content
  by unfold_locales (simp add: pinned_remove)

lemma pinned_put:
  assumes "pinned H r owner content s" and "H d = rf_SHA256 r \<longrightarrow> d = content"
  shows "pinned H r owner content (snd (putLocked H m now d opts s))"
proof -
  obtain x s' where p: "putLocked H m now d opts s = (x, s')" by fastforce
  have g: "getLocked H s r = Inr content" using assms(1) by (simp add: pinned_def)
  have r: "r = ref_of H content" using getLocked_sound [OF g] by (simp add: ref_of_def)
  have "getLocked H s1 r = Inr content" if o: "put_object H d s = Inr s1" for s1
  proof (cases "H d = rf_SHA256 r")
    case True
    then have "d = content" using assms(2) by blast
    then show ?thesis using put_object_effect [OF o] unfolding r by blast
  next
    case False
    then show ?thesis using put_object_effect [OF o] g getLocked_other(2) [OF False] by auto
  qed
  note obj = this
  have o: "owner \<in> set (pins s (rf_SHA256 r))" using assms(1) by (simp add: pinned_def)
  from p show ?thesis
  proof (cases rule: putLocked_changes)
    case (2 s1)
    have "getLocked H s' r = Inr content" using obj [OF 2(1)] getLocked_cong [OF 2(3)] by simp
    moreover have "owner \<in> set (pins s' (rf_SHA256 r))" using 2(4)
    proof
      assume "py_Pins s' = py_Pins s"
      then show ?thesis using o pins_same [of s' s] by simp
    qed (rule pins_update [OF _ o])
    ultimately show ?thesis by (simp add: pinned_def p)
  qed (use assms(1) in \<open>simp add: p\<close>)
qed

text \<open>Operations that respect a pin: they neither take it away nor remove its content by force.\<close>

fun honours :: "(string \<Rightarrow> string) \<Rightarrow> Ref \<Rightarrow> string \<Rightarrow> string \<Rightarrow> payload_op \<Rightarrow> bool" where
  "honours H r owner content (PPut now d opts) \<longleftrightarrow> (H d = rf_SHA256 r \<longrightarrow> d = content)"
| "honours H r owner content (PUnpin r' owner') \<longleftrightarrow> rf_SHA256 r' \<noteq> rf_SHA256 r \<or> owner' \<noteq> owner"
| "honours H r owner content (PRemove r' force) \<longleftrightarrow> \<not> force \<or> rf_SHA256 r' \<noteq> rf_SHA256 r"
| "honours H r owner content _ \<longleftrightarrow> True"

lemma pinned_step: "pinned H r owner content s \<Longrightarrow> honours H r owner content op \<Longrightarrow> pinned H r owner content (payload_step H m op s)"
proof (cases op)
  case (PPin now r' owner')
  assume "pinned H r owner content s"
  then show ?thesis using payload_Pin_cases [of H now r' owner' s] pins_update [where s' = "snd (payload_Pin H now r' owner' s)" and s = s]
    unfolding PPin pinned_def by (elim disjE conjE) simp_all
next
  case (PUnpin r' owner')
  assume "pinned H r owner content s" "honours H r owner content op"
  then show ?thesis using pins_delete [of _ r' owner' s] by (auto simp: PUnpin payload_Unpin_def pinned_def)
qed (use pinned_put pinned_remove pinned.payload_GC_J in auto)

text \<open>
  C21. A pinned content can be read back after any use of the store that neither unpins it nor removes it
  by force: no collection, expiry or later put takes it away.
\<close>

theorem pinned_stays:
  assumes "getLocked H s r = Inr content" and "owner \<in> set (pins s (rf_SHA256 r))" and "list_all (honours H r owner content) ops"
  shows "getLocked H (fold (payload_step H m) ops s) r = Inr content"
proof -
  have "pinned H r owner content (fold (payload_step H m) ops s)"
    if "pinned H r owner content s" "list_all (honours H r owner content) ops" for s ops
    using that by (induction ops arbitrary: s) (auto intro: pinned_step)
  then show ?thesis using assms by (simp add: pinned_def)
qed

section \<open>Collection\<close>

lemma List_mem: "it \<in> set (payload_List s) \<longleftrightarrow> (\<exists>i m. readMeta s i = Some m \<and> it = item_of s i m)"
proof -
  have "i \<in> set (keys (py_Meta s))" if "readMeta s i = Some m" for i m
    using that by (auto simp: readMeta_def split: option.splits dest!: map_of_SomeD intro: rev_image_eqI)
  then have "it \<in> set (payload_List s)" if "readMeta s i = Some m" "it = item_of s i m" for i m
  proof -
    have "i \<in> set (keys (py_Meta s))" using that(1) \<open>\<And>i m. readMeta s i = Some m \<Longrightarrow> i \<in> set (keys (py_Meta s))\<close> by blast
    then have "it \<in> set (concat (map (\<lambda>i. case readMeta s i of None \<Rightarrow> [] | Some m \<Rightarrow> [item_of s i m]) (sort (keys (py_Meta s)))))"
      using that unfolding set_concat set_map set_sort by (intro UnionI [OF imageI]) auto
    then show ?thesis by (simp add: payload_List_def)
  qed
  moreover have "\<exists>i m. readMeta s i = Some m \<and> it = item_of s i m" if "it \<in> set (payload_List s)"
    using that by (auto simp: payload_List_def split: option.splits) (metis)
  ultimately show ?thesis by blast
qed

lemma removeLocked_meta: "removeLocked r False s = (None, s') \<Longrightarrow> py_Meta s' = gdel (rf_SHA256 r) (py_Meta s) \<and> py_Pins s' = py_Pins s"
  by (auto simp: removeLocked_def Let_def split: if_splits)

lemma gcLoop_removed:
  assumes "gcLoop now items removed s = ((rs, None), s')"
  shows "py_Pins s' = py_Pins s \<and> (\<forall>i. gget (py_Meta s') i = (if \<exists>it \<in> set items. collectable now it \<and> rf_SHA256 (it_Ref it) = i then None else gget (py_Meta s) i)) \<and>
    rs = removed @ map it_Ref (filter (collectable now) items)"
  using assms
proof (induction items arbitrary: removed s)
  case (Cons it items)
  show ?case
  proof (cases "collectable now it")
    case False
    then show ?thesis using Cons by simp
  next
    case True
    then obtain s1 where r: "removeLocked (it_Ref it) False s = (None, s1)" and g: "gcLoop now items (removed @ [it_Ref it]) s1 = ((rs, None), s')"
      using Cons.prems by (auto split: prod.splits option.splits)
    show ?thesis using Cons.IH [OF g] removeLocked_meta [OF r] True by auto
  qed
qed simp

text \<open>
  A collection that reports no error removes exactly the listed contents that have expired and are
  not pinned, and leaves none of them.
\<close>

theorem gc_collects:
  assumes "payload_GC now s = ((removed, None), s')"
  shows "removed = map it_Ref (filter (collectable now) (payload_List s)) \<and>
    (\<forall>it. it \<in> set (payload_List s') \<longrightarrow> \<not> collectable now it) \<and>
    (\<forall>i m. readMeta s i = Some m \<and> \<not> collectable now (item_of s i m) \<longrightarrow> readMeta s' i = Some m)"
proof -
  note g = gcLoop_removed [OF assms [unfolded payload_GC_def]]
  have id: "rf_SHA256 (it_Ref (item_of s i m)) = i" if "readMeta s i = Some m" for i m
    using that by (auto simp: item_of_def readMeta_def split: option.splits if_splits)
  have same: "readMeta s i = Some m \<and> collectable now (item_of s' i m) = collectable now (item_of s i m) \<and> \<not> collectable now (item_of s i m)"
    if m: "readMeta s' i = Some m" for i m
  proof -
    have n: "gget (py_Meta s') i = gget (py_Meta s) i" "\<not> (\<exists>it \<in> set (payload_List s). collectable now it \<and> rf_SHA256 (it_Ref it) = i)"
      using m g by (auto simp: readMeta_def split: option.splits if_splits)
    then have r: "readMeta s i = Some m" using m by (simp add: readMeta_def)
    have "pins s' i = pins s i" using g by (simp add: pins_def)
    then have "collectable now (item_of s' i m) = collectable now (item_of s i m)" by (simp add: collectable_def item_of_def)
    moreover have "item_of s i m \<in> set (payload_List s)" using r List_mem by blast
    ultimately show ?thesis using n(2) r id [OF r] by blast
  qed
  have "readMeta s' i = Some m" if r: "readMeta s i = Some m" and c: "\<not> collectable now (item_of s i m)" for i m
  proof -
    have "\<not> (\<exists>it \<in> set (payload_List s). collectable now it \<and> rf_SHA256 (it_Ref it) = i)"
      using c r id by (auto simp: List_mem)
    then have "gget (py_Meta s') i = gget (py_Meta s) i" using g by (metis (no_types, lifting))
    then show ?thesis using r by (simp add: readMeta_def)
  qed
  moreover have "\<not> collectable now it" if "it \<in> set (payload_List s')" for it
    using that same by (auto simp: List_mem)
  ultimately show ?thesis using g by simp
qed

section \<open>References as texts\<close>

lemma hex_runes_colon: "list_all hex_rune (runes s) \<Longrightarrow> CHR '':'' \<notin> set s"
proof -
  assume h: "list_all hex_rune (runes s)"
  then have "valid_string s" by (intro runes_without_error) (auto simp: list_all_iff hex_rune_def RuneError_def)
  then have "encode_runes (runes s) = s" by (rule valid_string_encode)
  moreover have "byte CHR '':'' \<notin> set (runes s)" using h by (auto simp: list_all_iff hex_rune_def)
  ultimately show ?thesis using ascii_in_encodes [of "CHR '':''" "runes s"] by simp
qed

lemma digits_grow: "0 \<le> out \<Longrightarrow> out \<le> foldl (\<lambda>a c. 10 * a + int (byte c - 48)) out ds"
proof (induction ds arbitrary: out)
  case (Cons c ds)
  have "out \<le> 10 * out + int (byte c - 48)" using Cons.prems by simp
  also have "\<dots> \<le> foldl (\<lambda>a c. 10 * a + int (byte c - 48)) (10 * out + int (byte c - 48)) ds" using Cons by simp
  finally show ?case by simp
qed simp

lemma digits_loop_value:
  "\<forall>c \<in> set ds. 48 \<le> byte c \<and> byte c \<le> 57 \<Longrightarrow> 0 \<le> out \<Longrightarrow> foldl (\<lambda>a c. 10 * a + int (byte c - 48)) out ds \<le> MaxItemBytes \<Longrightarrow>
   digits_loop out (map byte ds) = Some (foldl (\<lambda>a c. 10 * a + int (byte c - 48)) out ds)"
proof (induction ds arbitrary: out)
  case (Cons c ds)
  have "10 * out + int (byte c - 48) \<le> MaxItemBytes"
    using Cons.prems digits_grow [of "10 * out + int (byte c - 48)" ds] by simp
  then show ?case using Cons by (simp add: mult.commute)
qed simp

lemma parseInt64_dec: "0 \<le> n \<Longrightarrow> n \<le> MaxItemBytes \<Longrightarrow> parseInt64 (int_dec n) = Some n"
proof -
  assume n: "0 \<le> n" "n \<le> MaxItemBytes"
  let ?d = "nat_dec (nat n)"
  have c: "\<forall>c \<in> set ?d. 48 \<le> byte c \<and> byte c \<le> 57" using nat_dec_chars by blast
  then have "runes ?d = map byte ?d" by (intro runes_ascii) (auto simp: ascii_def list_all_iff)
  moreover have "foldl (\<lambda>a c. 10 * a + int (byte c - 48)) (int k) ds = int (foldl (\<lambda>a c. 10 * a + (byte c - 48)) k ds)" for k ds
  proof (induction ds arbitrary: k)
    case (Cons c ds)
    have e: "10 * int k + int (byte c - 48) = int (10 * k + (byte c - 48))" by simp
    show ?case unfolding foldl_Cons e by (rule Cons)
  qed simp
  from this [of 0 ?d] have "foldl (\<lambda>a c. 10 * a + int (byte c - 48)) 0 ?d = n"
    using nat_dec_value [of "nat n"] n by (simp add: dec_value_def)
  ultimately show ?thesis using digits_loop_value [OF c, of 0] n by (simp add: parseInt64_def int_dec_def)
qed

text \<open>
  The text of a reference reads back as that reference, whatever size the reader assumes.
\<close>

theorem ref_roundtrip:
  assumes "ref_Valid r"
  shows "ParseRef (ref_String r) sz = Inr r"
proof -
  let ?v = "rf_SHA256 r @ CHR '':'' # int_dec (rf_Bytes r)"
  have v: "CHR '':'' \<notin> set (rf_SHA256 r)" "rf_SHA256 r \<noteq> []" "0 \<le> rf_Bytes r" "rf_Bytes r \<le> MaxItemBytes"
    using assms hex_runes_colon by (auto simp: ref_Valid_def)
  have "CHR '':'' \<notin> set (int_dec (rf_Bytes r))" using v(3) nat_dec_chars [of "nat (rf_Bytes r)"] by (fastforce simp: int_dec_def)
  then have "split_on CHR '':'' ?v = [rf_SHA256 r, int_dec (rf_Bytes r)]" using v(1) by (simp add: split_on_sep split_on_no)
  moreover have "trim_prefix (ref_String r) ''sha256:'' = ?v" using v(2) by (simp add: ref_String_def trim_prefix_def has_prefix_def)
  moreover have "ref_Valid \<lparr>rf_SHA256 = rf_SHA256 r, rf_Bytes = rf_Bytes r\<rparr>" using assms by (cases r) simp
  ultimately show ?thesis using parseInt64_dec [OF v(3,4)] by (simp add: ParseRef_def)
qed

section \<open>What a reviewer is shown\<close>

text \<open>Text is shown without control characters but tabs and line ends.\<close>

lemma sanitizeText_plain: "list_all shown_rune (runes (sanitizeText s))"
  using runes_scalar [of s] by (simp add: sanitizeText_def runes_encode list_all_iff)

text \<open>
  A preview is cut at a byte: a text cut inside a character is shown as binary. Here the two bytes of a
  Latin letter with an accent, previewed at one byte.
\<close>

lemma preview_splits_character:
  assumes "ref_Valid (ref_of H content)" and "content = [CHR 0xC3, CHR 0xA9]" and "gget (py_Objects s) (H content) = Some content"
  shows "isText content" and "\<exists>res. payload_Show H (\<lambda>_. []) s (ref_of H content) 1 = Inr res \<and> sh_Binary res \<and> sh_Text res = []"
proof -
  have "bytes content = [0xC3, 0xA9]" by (simp add: assms(2) bytes_def)
  then show t: "isText content" by (simp add: isText_def valid_string_def bytes_valid_def rune_list.simps cont_def assms(2))
  have "bytes [CHR 0xC3] = [0xC3]" by (simp add: bytes_def)
  then have "\<not> isText [CHR 0xC3]" by (simp add: isText_def valid_string_def bytes_valid_def rune_list.simps)
  moreover have "getLocked H s (ref_of H content) = Inr content" by (rule getLocked_stored [OF assms(1,3)])
  ultimately show "\<exists>res. payload_Show H (\<lambda>_. []) s (ref_of H content) 1 = Inr res \<and> sh_Binary res \<and> sh_Text res = []"
    by (simp add: payload_Show_def show_limit_def PreviewBytes_def assms(2) Let_def)
qed

text \<open>A difference longer than its limit is cut without a mark: neither content has to be.\<close>

lemma diff_cut_unmarked:
  assumes "n = 100000" and "getLocked H s r1 = Inr (replicate n CHR ''a'')" and "getLocked H s r2 = Inr (replicate n CHR ''b'')"
  shows "\<exists>res. payload_Diff H s r1 r2 = Inr res \<and> \<not> df_Truncated res \<and>
    df_Text res = sanitizeText (take DiffBytes (''- '' @ replicate n CHR ''a'' @ [newline] @ ''+ '' @ replicate n CHR ''b'' @ [newline]))"
proof -
  let ?a = "replicate n CHR ''a''" and ?b = "replicate n CHR ''b''"
  have t: "isText (replicate n c)" if "byte c < 128" "c \<noteq> CHR 0x00" for c
    using that valid_ascii [of "replicate n c"] by (auto simp: isText_def ascii_def list_all_iff)
  have "newline \<notin> set ?a" "newline \<notin> set ?b" by auto
  then have sp: "split_on newline ?a = [?a]" "split_on newline ?b = [?b]" by (simp_all add: split_on_no)
  have n: "0 < n" "n \<le> DiffBytes" "DiffBytes < n + n" using assms(1) by (simp_all add: DiffBytes_def)
  have ne: "?a \<noteq> ?b"
  proof
    assume "?a = ?b"
    then have "?a ! 0 = ?b ! 0" by simp
    then show False using n(1) by simp
  qed
  have len: "DiffBytes < length (''- '' @ ?a @ [newline] @ ''+ '' @ ?b @ [newline])" using n(3) by simp
  have "simpleDiff ?a ?b = take DiffBytes (''- '' @ ?a @ [newline] @ ''+ '' @ ?b @ [newline])"
    using ne len unfolding simpleDiff_def sp by (simp only: diffLoop.simps list.case Let_def if_False list.distinct not_False_eq_True if_True append_Nil append_assoc)
  moreover have "take DiffBytes ?a = ?a" "take DiffBytes ?b = ?b" using n(2) by simp_all
  moreover have "isText ?a" "isText ?b" using t [of "CHR ''a''"] t [of "CHR ''b''"] by simp_all
  ultimately show ?thesis using n(2) by (simp add: payload_Diff_def assms(2,3))
qed

section \<open>Witnesses\<close>

definition sha_a :: string where "sha_a = replicate 64 CHR ''a''"

definition no_options :: PutOptions where "no_options = \<lparr>po_Name = [], po_ExpireAt = None, po_RetainFor = 0, po_PinOwner = ''plan''\<rparr>"

lemma sha_a_valid: "ref_Valid (ref_of (\<lambda>_. sha_a) ''hi'')"
proof -
  have "runes sha_a = map byte sha_a" by (rule runes_ascii) (simp add: sha_a_def ascii_def list_all_iff)
  then show ?thesis by (simp add: ref_Valid_def sha_a_def hex_rune_def MaxItemBytes_def list_all_iff)
qed

definition hi_ref :: Ref where "hi_ref = ref_of (\<lambda>_. sha_a) ''hi''"

lemma put_hi: "\<exists>s'. putLocked (\<lambda>_. sha_a) 0 0 ''hi'' no_options empty_store = (Inr hi_ref, s')"
proof -
  have v: "ref_Valid (ref_of (\<lambda>_. sha_a) ''hi'')" by (rule sha_a_valid)
  then have "getLocked (\<lambda>_. sha_a) empty_store (ref_of (\<lambda>_. sha_a) ''hi'') = Inl ErrUnretained" by (simp add: getLocked_def empty_store_def)
  then have o: "put_object (\<lambda>_. sha_a) ''hi'' empty_store = Inr (empty_store\<lparr>py_Objects := gput sha_a ''hi'' []\<rparr>)"
    by (simp add: put_object_def empty_store_def)
  have "checkTotal 0 empty_store sha_a 2 = None"
    by (simp add: checkTotal_def total_bytes_def empty_store_def total_limit_def DefaultTotalBytes_def)
  moreover have "getLocked (\<lambda>_. sha_a) (empty_store\<lparr>py_Objects := [(sha_a, ''hi'')]\<rparr>) (ref_of (\<lambda>_. sha_a) ''hi'') = Inr ''hi''"
    by (rule getLocked_stored [OF v]) simp
  ultimately show ?thesis by (simp add: putLocked_def o Let_def MaxItemBytes_def no_options_def pinLocked_def hi_ref_def)
qed

text \<open>
  A put that repairs a corrupt content is counted by the size of the corrupt file: here a content of two
  bytes goes into a store limited to one.
\<close>

lemma repair_exceeds_limit:
  "\<exists>s'. putLocked (\<lambda>_. sha_a) 1 0 ''hi'' no_options (empty_store\<lparr>py_Objects := [(sha_a, [])]\<rparr>) = (Inr hi_ref, s') \<and> total_limit 1 < total_bytes s'"
proof -
  let ?s = "empty_store\<lparr>py_Objects := [(sha_a, [])]\<rparr>"
  have v: "ref_Valid (ref_of (\<lambda>_. sha_a) ''hi'')" by (rule sha_a_valid)
  then have "getLocked (\<lambda>_. sha_a) ?s (ref_of (\<lambda>_. sha_a) ''hi'') = Inl ErrCorrupt" by (simp add: getLocked_def)
  then have o: "put_object (\<lambda>_. sha_a) ''hi'' ?s = Inr (empty_store\<lparr>py_Objects := [(sha_a, ''hi'')]\<rparr>)" by (simp add: put_object_def)
  have "getLocked (\<lambda>_. sha_a) (empty_store\<lparr>py_Objects := [(sha_a, ''hi'')]\<rparr>) (ref_of (\<lambda>_. sha_a) ''hi'') = Inr ''hi''"
    by (rule getLocked_stored [OF v]) simp
  moreover have "checkTotal 1 ?s sha_a 2 = None" by (simp add: checkTotal_def total_bytes_def total_limit_def)
  ultimately show ?thesis
    by (simp add: putLocked_def o Let_def MaxItemBytes_def no_options_def pinLocked_def hi_ref_def total_bytes_def total_limit_def)
qed

theorem put_get_witness:
  "\<exists>s'. putLocked (\<lambda>_. sha_a) 0 0 ''hi'' no_options empty_store = (Inr hi_ref, s') \<and> getLocked (\<lambda>_. sha_a) s' hi_ref = Inr ''hi''"
  using put_hi put_get [of "\<lambda>_. sha_a" 0 0 "''hi''" no_options empty_store hi_ref] by blast

theorem payloads_bounded_witness:
  "total_bytes (fold (payload_step (\<lambda>_. sha_a) 0) [PPut 0 ''hi'' no_options, PGC 5] empty_store) \<le> total_limit 0"
proof -
  have "inj_on (\<lambda>_. sha_a) (ops_put [PPut 0 ''hi'' no_options, PGC 5])" by (auto simp: inj_on_def ops_put_def)
  then show ?thesis using payloads_bounded by blast
qed

definition hi_store :: payload_store where
  "hi_store = \<lparr>py_Objects = [(sha_a, ''hi'')], py_Meta = [], py_Pins = [((sha_a, ''plan''), [])]\<rparr>"

lemma hi_stored: "getLocked (\<lambda>_. sha_a) hi_store hi_ref = Inr ''hi''"
  unfolding hi_ref_def by (rule getLocked_stored [OF sha_a_valid]) (simp add: hi_store_def)

theorem pinned_stays_witness:
  "getLocked (\<lambda>_. sha_a) (fold (payload_step (\<lambda>_. sha_a) 0) [PRemove hi_ref False, PGC 5] hi_store) hi_ref = Inr ''hi''"
proof -
  have "''plan'' \<in> set (pins hi_store (rf_SHA256 hi_ref))" by (simp add: hi_ref_def pins_def hi_store_def)
  then show ?thesis using pinned_stays [OF hi_stored, of "''plan''" "[PRemove hi_ref False, PGC 5]"] by simp
qed

theorem gc_collects_witness:
  "payload_GC 5 hi_store = (([], None), hi_store) \<and> [] = map it_Ref (filter (collectable 5) (payload_List hi_store))"
proof -
  have "payload_GC 5 hi_store = (([], None), hi_store)" by (simp add: payload_GC_def payload_List_def hi_store_def)
  then show ?thesis using gc_collects by blast
qed

theorem ref_roundtrip_witness: "ParseRef (ref_String hi_ref) None = Inr hi_ref"
  using ref_roundtrip [of hi_ref None] sha_a_valid by (simp add: hi_ref_def)

end
