(* ===== verification/Base64.thy ===== *)
theory Base64
  imports Utf8
begin

text \<open>
  \<open>encoding/base64\<close> of the standard library as the program uses it: the standard encoding with padding and
  the URL encoding without, and strict decoding, which refuses unused bits that are not zero but ignores
  carriage returns and line feeds anywhere.
\<close>

definition b64_alphabet :: "bool \<Rightarrow> string" where
  "b64_alphabet url = ''ABCDEFGHIJKLMNOPQRSTUVWXYZabcdefghijklmnopqrstuvwxyz0123456789'' @ (if url then ''-_'' else ''+/'')"

definition b64_char :: "bool \<Rightarrow> nat \<Rightarrow> char" where
  "b64_char url n = b64_alphabet url ! n"

definition b64_value :: "bool \<Rightarrow> char \<Rightarrow> nat option" where
  "b64_value url c = index_byte (b64_alphabet url) c"

fun b64_encode :: "bool \<Rightarrow> string \<Rightarrow> string" where
  "b64_encode url [] = []"
| "b64_encode url [a] =
     [b64_char url (byte a div 4), b64_char url (byte a mod 4 * 16)] @ (if url then [] else ''=='')"
| "b64_encode url [a, b] =
     [b64_char url (byte a div 4), b64_char url (byte a mod 4 * 16 + byte b div 16), b64_char url (byte b mod 16 * 4)] @ (if url then [] else ''='')"
| "b64_encode url (a # b # c # r) =
     [b64_char url (byte a div 4), b64_char url (byte a mod 4 * 16 + byte b div 16),
      b64_char url (byte b mod 16 * 4 + byte c div 64), b64_char url (byte c mod 64)] @ b64_encode url r"

fun b64_values :: "nat list \<Rightarrow> string option" where
  "b64_values [] = Some []"
| "b64_values [x] = None"
| "b64_values [x, y] = (if y mod 16 = 0 then Some [char_of (x * 4 + y div 16)] else None)"
| "b64_values [x, y, z] = (if z mod 4 = 0 then Some [char_of (x * 4 + y div 16), char_of (y mod 16 * 16 + z div 4)] else None)"
| "b64_values (x # y # z # w # r) =
     map_option (\<lambda>t. [char_of (x * 4 + y div 16), char_of (y mod 16 * 16 + z div 4), char_of (z mod 4 * 64 + w)] @ t) (b64_values r)"

fun digit_values :: "bool \<Rightarrow> string \<Rightarrow> nat list option" where
  "digit_values url [] = Some []"
| "digit_values url (c # s) = (case b64_value url c of None \<Rightarrow> None | Some v \<Rightarrow> map_option ((#) v) (digit_values url s))"

definition line_break :: "char \<Rightarrow> bool" where
  "line_break c \<longleftrightarrow> c = CHR 0x0D \<or> c = newline"

definition b64_pad :: "nat \<Rightarrow> nat" where
  "b64_pad n = (if n mod 4 = 2 then 2 else if n mod 4 = 3 then 1 else 0)"

text \<open>The standard encoding ends in its padding, the URL encoding in its last digit.\<close>

definition b64_decode :: "bool \<Rightarrow> string \<Rightarrow> string option" where
  "b64_decode url s =
     (let t = filter (\<lambda>c. \<not> line_break c) s; body = (if url then t else takeWhile (\<lambda>c. c \<noteq> CHR ''='') t) in
      if \<not> url \<and> drop (length body) t \<noteq> replicate (b64_pad (length body)) CHR ''='' then None
      else Option.bind (digit_values url body) b64_values)"

section \<open>Decoding what was encoded\<close>

lemma b64_digits: "n < 64 \<Longrightarrow> b64_value url (b64_char url n) = Some n \<and> b64_char url n \<noteq> CHR ''='' \<and> \<not> line_break (b64_char url n)"
proof -
  have "list_all (\<lambda>n. b64_value u (b64_char u n) = Some n \<and> b64_char u n \<noteq> CHR ''='' \<and> \<not> line_break (b64_char u n)) [0..<64]" for u
    by (cases u) (simp_all only:, code_simp+)
  then show "n < 64 \<Longrightarrow> ?thesis" by (simp add: list_all_iff)
qed

text \<open>The digits of an encoding, without its padding.\<close>

fun b64_nums :: "string \<Rightarrow> nat list" where
  "b64_nums [] = []"
| "b64_nums [a] = [byte a div 4, byte a mod 4 * 16]"
| "b64_nums [a, b] = [byte a div 4, byte a mod 4 * 16 + byte b div 16, byte b mod 16 * 4]"
| "b64_nums (a # b # c # r) =
     [byte a div 4, byte a mod 4 * 16 + byte b div 16, byte b mod 16 * 4 + byte c div 64, byte c mod 64] @ b64_nums r"

lemma b64_digit_bounds: "byte a div 4 < 64" "byte a mod 4 * 16 < 64" "byte a mod 4 * 16 + byte b div 16 < 64" "byte b mod 16 * 4 < 64" "byte b mod 16 * 4 + byte c div 64 < 64"
proof -
  have a: "byte x div 4 < 64" "byte x div 16 < 16" "byte x div 64 < 4" "byte x mod 4 < 4" "byte x mod 16 < 16" for x
    using byte_less_256 [of x] by (simp_all add: less_mult_imp_div_less)
  show "byte a div 4 < 64" "byte a mod 4 * 16 < 64" "byte b mod 16 * 4 < 64" using a(1,4) [of a] a(5) [of b] by linarith+
  show "byte a mod 4 * 16 + byte b div 16 < 64" using a(4) [of a] a(2) [of b] by linarith
  show "byte b mod 16 * 4 + byte c div 64 < 64" using a(5) [of b] a(3) [of c] by linarith
qed

lemma b64_nums_less: "list_all (\<lambda>n. n < 64) (b64_nums s)"
  by (induction s rule: b64_nums.induct) (simp_all add: b64_digit_bounds)

lemma b64_encode_nums: "b64_encode url s = map (b64_char url) (b64_nums s) @ (if url then [] else replicate (b64_pad (length (b64_nums s))) CHR ''='')"
proof (induction s rule: b64_nums.induct)
  case (4 a b c r)
  have "b64_pad (Suc (Suc (Suc (Suc n)))) = b64_pad n" for n by (simp add: b64_pad_def)
  then show ?case using 4 by simp
qed (simp_all add: b64_pad_def numeral_2_eq_2)

lemma split_byte: "char_of (byte a div 4 * 4 + (byte a mod 4 * 16 + x) div 16) = a" if "x < 16"
proof -
  have "(byte a mod 4 * 16 + x) div 16 = byte a mod 4" using that by simp
  then show ?thesis by simp
qed

lemma b64_values_nums: "b64_values (b64_nums s) = Some s"
proof (induction s rule: b64_nums.induct)
  case (4 a b c r)
  have "byte b div 16 < 16" "byte c div 64 < 4" using byte_less_256 [of b] byte_less_256 [of c] by (simp_all add: less_mult_imp_div_less)
  then have "(byte a mod 4 * 16 + byte b div 16) mod 16 = byte b div 16" "(byte b mod 16 * 4 + byte c div 64) div 4 = byte b mod 16"
    "(byte b mod 16 * 4 + byte c div 64) mod 4 = byte c div 64" by simp_all
  then show ?case using 4 split_byte [OF \<open>byte b div 16 < 16\<close>, of a] by simp
next
  case (3 a b)
  have "byte b div 16 < 16" using byte_less_256 [of b] by (simp add: less_mult_imp_div_less)
  then have "(byte a mod 4 * 16 + byte b div 16) mod 16 = byte b div 16" by simp
  then show ?case using split_byte [OF \<open>byte b div 16 < 16\<close>, of a] by simp
next
  case (2 a)
  then show ?case using split_byte [of 0 a] by simp
qed simp

lemma digit_values_map: "list_all (\<lambda>n. n < 64) ns \<Longrightarrow> digit_values url (map (b64_char url) ns) = Some ns"
  by (induction ns) (simp_all add: b64_digits)

lemma b64_digits_plain: "list_all (\<lambda>n. n < 64) ns \<Longrightarrow> list_all (\<lambda>c. c \<noteq> CHR ''='' \<and> \<not> line_break c) (map (b64_char url) ns)"
  by (induction ns) (simp_all add: b64_digits)

theorem b64_decode_encode: "b64_decode url (b64_encode url s) = Some s"
proof -
  let ?ds = "map (b64_char url) (b64_nums s)"
  let ?pad = "if url then [] else replicate (b64_pad (length (b64_nums s))) CHR ''=''"
  note p = b64_digits_plain [OF b64_nums_less, of url s]
  have "filter (\<lambda>c. \<not> line_break c) (?ds @ ?pad) = ?ds @ ?pad"
    using p by (auto simp: filter_id_conv list_all_iff line_break_def)
  moreover have "takeWhile (\<lambda>c. c \<noteq> CHR ''='') (?ds @ ?pad) = ?ds" if "\<not> url"
  proof -
    have "takeWhile (\<lambda>c. c \<noteq> CHR ''='') (?ds @ ?pad) = ?ds @ takeWhile (\<lambda>c. c \<noteq> CHR ''='') ?pad"
      using p by (intro takeWhile_append2) (auto simp: list_all_iff)
    then show ?thesis using that by simp
  qed
  ultimately show ?thesis using digit_values_map [OF b64_nums_less, of url s] b64_values_nums [of s]
    unfolding b64_decode_def b64_encode_nums by (cases url) (simp_all add: Let_def)
qed

end
