(* ===== verification/Signed.thy ===== *)
theory Signed
  imports Base64 JsonSize Task Clock
begin

text \<open>
  \<open>internal/remote/request_signature.go\<close>: the narrow profile of HTTP message signatures by which a device
  authenticates a request. A request is its method, its target and its header fields, each with the list of
  its values. SHA-256 is the function \<open>sha\<close> to its 32 bytes; Ed25519 is \<open>sign\<close> and \<open>verify\<close>; \<open>random\<close>
  is what the random reader gave, \<open>None\<close> where it failed. The clock reads nanoseconds since the epoch.
  The regular expression of \<open>Signature-Input\<close> is written out as the parser it is: every class it repeats
  excludes the character that follows, so the longest run is the only match.
\<close>

section \<open>Constants and requests\<close>

definition RequestLifetime :: nat where "RequestLifetime = 60 * second"
definition RequestClockSkew :: nat where "RequestClockSkew = 30 * second"
definition DeviceSignatureTag :: string where "DeviceSignatureTag = ''agentssh-device''"
definition EnrollSignatureTag :: string where "EnrollSignatureTag = ''agentssh-enroll''"

definition ErrRequestTime :: error where "ErrRequestTime = Sentinel ''ErrRequestTime''"
definition bad_signature :: error where "bad_signature = Errorf ''invalid or expired request signature'' []"

definition coveredComponents :: string where
  "coveredComponents = ''(\"@method\" \"@target-uri\" \"content-digest\")''"

record RequestProof =
  rp_KeyID :: string
  rp_Nonce :: string
  rp_Expires :: int

record http_request =
  hr_Method :: string
  hr_Target :: string
  hr_Header :: "string list gomap"

definition header_values :: "http_request \<Rightarrow> string \<Rightarrow> string list" where
  "header_values req name = (case map_of (hr_Header req) name of Some vs \<Rightarrow> vs | None \<Rightarrow> [])"

definition header_get :: "http_request \<Rightarrow> string \<Rightarrow> string" where
  "header_get req name = (case header_values req name of [] \<Rightarrow> [] | v # _ \<Rightarrow> v)"

definition header_set :: "string \<Rightarrow> string \<Rightarrow> http_request \<Rightarrow> http_request" where
  "header_set name v req = req\<lparr>hr_Header := AList.update name [v] (hr_Header req)\<rparr>"

abbreviation unix :: "instant \<Rightarrow> nat" where "unix now \<equiv> now div second"

section \<open>What is signed\<close>

definition key_char :: "nat \<Rightarrow> bool" where
  "key_char r \<longleftrightarrow> 65 \<le> r \<and> r \<le> 90 \<or> 97 \<le> r \<and> r \<le> 122 \<or> 48 \<le> r \<and> r \<le> 57 \<or> r = 95 \<or> r = 45"

definition validKeyID :: "string \<Rightarrow> bool" where
  "validKeyID v \<longleftrightarrow> 1 \<le> length v \<and> length v \<le> 80 \<and> list_all key_char (runes v)"

definition contentDigest :: "(string \<Rightarrow> string) \<Rightarrow> string \<Rightarrow> string" where
  "contentDigest sha body = ''sha-256=:'' @ b64_encode False (sha body) @ '':''"

definition signatureBase :: "string \<Rightarrow> string \<Rightarrow> string \<Rightarrow> string \<Rightarrow> string" where
  "signatureBase meth target digest params =
     ''\"@method\": '' @ meth @ newline # ''\"@target-uri\": '' @ target @ newline # ''\"content-digest\": '' @ digest @
     newline # ''\"@signature-params\": '' @ params"

definition signature_params :: "string \<Rightarrow> string \<Rightarrow> string \<Rightarrow> string \<Rightarrow> string \<Rightarrow> string" where
  "signature_params created expires nonce keyID tag =
     coveredComponents @ '';created='' @ created @ '';expires='' @ expires @ '';nonce=\"'' @ nonce @ ''\";keyid=\"'' @ keyID @
     ''\";alg=\"ed25519\";tag=\"'' @ tag @ ''\"''"

definition SignHTTPRequest ::
  "(string \<Rightarrow> string) \<Rightarrow> (string \<Rightarrow> string \<Rightarrow> string) \<Rightarrow> http_request \<Rightarrow> string \<Rightarrow> string \<Rightarrow> string \<Rightarrow> string \<Rightarrow> instant \<Rightarrow> string option \<Rightarrow> http_request res" where
  "SignHTTPRequest sha sign req body keyID tag key now random =
     (if \<not> validKeyID keyID \<or> length key \<noteq> 64 \<or> (tag \<noteq> DeviceSignatureTag \<and> tag \<noteq> EnrollSignatureTag)
      then Inl (Errorf ''invalid request signing parameters'' [])
      else case random of
        None \<Rightarrow> Inl (Errorf ''random'' [])
      | Some r \<Rightarrow>
          let nonce = b64_encode True r;
              params = signature_params (int_dec (int (unix now))) (int_dec (int (unix (now + RequestLifetime)))) nonce keyID tag;
              digest = contentDigest sha body;
              sig = sign key (signatureBase (hr_Method req) (hr_Target req) digest params)
          in Inr (header_set ''Signature'' (''agentssh=:'' @ b64_encode False sig @ '':'')
               (header_set ''Signature-Input'' (''agentssh='' @ params) (header_set ''Content-Digest'' digest req))))"

section \<open>Reading a signature\<close>

text \<open>A run of between \<open>lo\<close> and \<open>hi\<close> characters of a class.\<close>

definition read_run :: "(char \<Rightarrow> bool) \<Rightarrow> nat \<Rightarrow> nat \<Rightarrow> string \<Rightarrow> (string \<times> string) option" where
  "read_run P lo hi s =
     (let w = takeWhile P s in if lo \<le> length w \<and> length w \<le> hi then Some (w, dropWhile P s) else None)"

abbreviation word_char :: "char \<Rightarrow> bool" where "word_char c \<equiv> key_char (byte c)"

type_synonym signature_input = "string \<times> string \<times> string \<times> string \<times> string"

definition signatureInputPattern :: "string \<Rightarrow> signature_input option" where
  "signatureInputPattern input =
     Option.bind (cut_prefix input (''agentssh='' @ coveredComponents @ '';created='')) (\<lambda>s.
     Option.bind (read_run decimal_digit 1 12 s) (\<lambda>(created, s).
     Option.bind (cut_prefix s '';expires='') (\<lambda>s.
     Option.bind (read_run decimal_digit 1 12 s) (\<lambda>(expires, s).
     Option.bind (cut_prefix s '';nonce=\"'') (\<lambda>s.
     Option.bind (read_run word_char 43 43 s) (\<lambda>(nonce, s).
     Option.bind (cut_prefix s ''\";keyid=\"'') (\<lambda>s.
     Option.bind (read_run word_char 1 80 s) (\<lambda>(keyid, s).
     Option.bind (cut_prefix s ''\";alg=\"ed25519\";tag=\"'') (\<lambda>s.
     if s = DeviceSignatureTag @ ''\"'' then Some (created, expires, nonce, keyid, DeviceSignatureTag)
     else if s = EnrollSignatureTag @ ''\"'' then Some (created, expires, nonce, keyid, EnrollSignatureTag)
     else None)))))))))"

definition RequestKeyID :: "http_request \<Rightarrow> string" where
  "RequestKeyID req = (case signatureInputPattern (header_get req ''Signature-Input'') of
     None \<Rightarrow> [] | Some (_, _, _, keyid, _) \<Rightarrow> keyid)"

definition ContentDigestMatches :: "(string \<Rightarrow> string) \<Rightarrow> http_request \<Rightarrow> string \<Rightarrow> bool" where
  "ContentDigestMatches sha req body \<longleftrightarrow>
     length (header_values req ''Content-Digest'') = 1 \<and> header_get req ''Content-Digest'' = contentDigest sha body"

definition signature_of :: "string \<Rightarrow> string option" where
  "signature_of raw =
     (if \<not> has_prefix raw ''agentssh=:'' \<or> \<not> has_suffix raw '':'' then None
      else b64_decode False (trim_suffix (trim_prefix raw ''agentssh=:'') '':''))"

definition VerifyHTTPRequestHeaders ::
  "(string \<Rightarrow> string \<Rightarrow> string \<Rightarrow> bool) \<Rightarrow> http_request \<Rightarrow> string \<Rightarrow> string \<Rightarrow> string \<Rightarrow> string \<Rightarrow> instant \<Rightarrow> RequestProof res" where
  "VerifyHTTPRequestHeaders verify req target keyID tag key now =
     (if length key \<noteq> 32 then Inl bad_signature
      else if list_ex (\<lambda>h. length (header_values req h) \<noteq> 1) [''Content-Digest'', ''Signature-Input'', ''Signature''] then Inl bad_signature
      else let input = header_get req ''Signature-Input'' in
        case signatureInputPattern input of
          None \<Rightarrow> Inl bad_signature
        | Some (created_text, expires_text, nonce_text, key_text, tag_text) \<Rightarrow>
            if key_text \<noteq> keyID \<or> tag_text \<noteq> tag then Inl bad_signature
            else let created = int (digits_value created_text); expires = int (digits_value expires_text) in
              if expires \<le> created \<or> expires - created > int (RequestLifetime div second) then Inl bad_signature
              else case b64_decode True nonce_text of
                None \<Rightarrow> Inl bad_signature
              | Some nonce \<Rightarrow>
                  if length nonce \<noteq> 32 then Inl bad_signature
                  else case signature_of (header_get req ''Signature'') of
                    None \<Rightarrow> Inl bad_signature
                  | Some sig \<Rightarrow>
                      if \<not> verify key (signatureBase (hr_Method req) target (header_get req ''Content-Digest'') (trim_prefix input ''agentssh='')) sig
                      then Inl bad_signature
                      else if int (unix now) \<ge> expires \<or> created > int (unix (now + RequestClockSkew)) then Inl ErrRequestTime
                      else Inr \<lparr>rp_KeyID = keyID, rp_Nonce = nonce_text, rp_Expires = expires\<rparr>)"

definition VerifyHTTPRequest ::
  "(string \<Rightarrow> string) \<Rightarrow> (string \<Rightarrow> string \<Rightarrow> string \<Rightarrow> bool) \<Rightarrow> http_request \<Rightarrow> string \<Rightarrow> string \<Rightarrow> string \<Rightarrow> string \<Rightarrow> string \<Rightarrow> instant \<Rightarrow> RequestProof res" where
  "VerifyHTTPRequest sha verify req body target keyID tag key now =
     (if \<not> ContentDigestMatches sha req body then Inl bad_signature
      else VerifyHTTPRequestHeaders verify req target keyID tag key now)"

section \<open>The parser reads exactly what the signer writes\<close>

lemma read_run_Some: "read_run P lo hi s = Some (w, r) \<Longrightarrow> s = w @ r \<and> list_all P w \<and> lo \<le> length w \<and> length w \<le> hi"
  by (auto simp: read_run_def Let_def list_all_iff dest: set_takeWhileD split: if_splits)

lemma read_run_append: "list_all P w \<Longrightarrow> lo \<le> length w \<Longrightarrow> length w \<le> hi \<Longrightarrow> \<not> P c \<Longrightarrow> read_run P lo hi (w @ c # r) = Some (w, c # r)"
  by (simp add: read_run_def list_all_iff)

definition input_ok :: "signature_input \<Rightarrow> bool" where
  "input_ok = (\<lambda>(created, expires, nonce, keyid, tag).
     list_all decimal_digit created \<and> 1 \<le> length created \<and> length created \<le> 12 \<and>
     list_all decimal_digit expires \<and> 1 \<le> length expires \<and> length expires \<le> 12 \<and>
     list_all word_char nonce \<and> length nonce = 43 \<and>
     list_all word_char keyid \<and> 1 \<le> length keyid \<and> length keyid \<le> 80 \<and>
     (tag = DeviceSignatureTag \<or> tag = EnrollSignatureTag))"

lemma pattern_sound: "signatureInputPattern input = Some (c, e, n, k, t) \<Longrightarrow>
   input = ''agentssh='' @ signature_params c e n k t \<and> input_ok (c, e, n, k, t)"
  unfolding signatureInputPattern_def signature_params_def input_ok_def
  by (auto simp: bind_eq_Some_conv cut_prefix_iff DeviceSignatureTag_def EnrollSignatureTag_def dest!: read_run_Some split: if_splits)

lemma pattern_complete:
  assumes "input_ok (c, e, n, k, t)"
  shows "signatureInputPattern (''agentssh='' @ signature_params c e n k t) = Some (c, e, n, k, t)"
proof -
  have stops: "\<not> decimal_digit CHR '';''" "\<not> key_char (byte CHR 0x22)" by (simp_all add: decimal_digit_def key_char_def)
  have 1: "read_run decimal_digit 1 12 (c @ '';expires='' @ r) = Some (c, '';expires='' @ r)" for r
    using assms stops by (auto simp: input_ok_def intro!: read_run_append)
  have 2: "read_run decimal_digit 1 12 (e @ '';nonce=\"'' @ r) = Some (e, '';nonce=\"'' @ r)" for r
    using assms stops by (auto simp: input_ok_def intro!: read_run_append)
  have 3: "read_run word_char 43 43 (n @ ''\";keyid=\"'' @ r) = Some (n, ''\";keyid=\"'' @ r)" for r
    using assms stops by (auto simp: input_ok_def intro!: read_run_append)
  have 4: "read_run word_char 1 80 (k @ ''\";alg=\"ed25519\";tag=\"'' @ r) = Some (k, ''\";alg=\"ed25519\";tag=\"'' @ r)" for r
    using assms stops by (auto simp: input_ok_def intro!: read_run_append)
  have t: "t = DeviceSignatureTag \<or> t = EnrollSignatureTag" "DeviceSignatureTag \<noteq> EnrollSignatureTag"
    using assms by (auto simp: input_ok_def DeviceSignatureTag_def EnrollSignatureTag_def)
  have 0: "''agentssh='' @ signature_params c e n k t = (''agentssh='' @ coveredComponents @ '';created='') @ c @ '';expires='' @ e @ '';nonce=\"'' @ n @
     ''\";keyid=\"'' @ k @ ''\";alg=\"ed25519\";tag=\"'' @ t @ ''\"''"
    unfolding signature_params_def append_assoc ..
  show ?thesis unfolding 0 signatureInputPattern_def
    by (simp only: cut_prefix_append 1 2 3 4 Option.bind.simps prod.case) (use t in auto)
qed

definition render_params :: "signature_input \<Rightarrow> string" where
  "render_params = (\<lambda>(c, e, n, k, t). signature_params c e n k t)"

lemma pattern_render: "input_ok i \<Longrightarrow> signatureInputPattern (''agentssh='' @ render_params i) = Some i"
  by (cases i) (simp only: render_params_def pattern_complete prod.case)

lemma render_inj: "input_ok i \<Longrightarrow> input_ok j \<Longrightarrow> render_params i = render_params j \<Longrightarrow> i = j"
  by (metis pattern_render option.inject)

lemma base_inj:
  assumes "newline \<notin> set m" "newline \<notin> set m'" "newline \<notin> set t" "newline \<notin> set t'" "newline \<notin> set d" "newline \<notin> set d'"
    and e: "signatureBase m t d p = signatureBase m' t' d' p'"
  shows "m = m' \<and> t = t' \<and> d = d' \<and> p = p'"
proof -
  have "m @ newline # ''\"@target-uri\": '' @ t @ newline # ''\"content-digest\": '' @ d @ newline # ''\"@signature-params\": '' @ p
     = m' @ newline # ''\"@target-uri\": '' @ t' @ newline # ''\"content-digest\": '' @ d' @ newline # ''\"@signature-params\": '' @ p'"
    using e by (simp only: signatureBase_def same_append_eq)
  note 1 = append_at_first [OF assms(1,2) this, unfolded same_append_eq]
  note 2 = append_at_first [OF assms(3,4) conjunct2 [OF 1], unfolded same_append_eq]
  note 3 = append_at_first [OF assms(5,6) conjunct2 [OF 2], unfolded same_append_eq]
  show ?thesis using 1 2 3 by blast
qed

section \<open>What the signer writes\<close>

lemma b64_alphabet_plain: "c \<in> set (b64_alphabet url) \<Longrightarrow> c \<noteq> CHR '':'' \<and> c \<noteq> newline" "c \<in> set (b64_alphabet True) \<Longrightarrow> word_char c"
proof -
  have "list_all (\<lambda>c. c \<noteq> CHR '':'' \<and> c \<noteq> newline) (b64_alphabet u)" for u by (cases u) (simp_all add: b64_alphabet_def)
  then show "c \<in> set (b64_alphabet url) \<Longrightarrow> c \<noteq> CHR '':'' \<and> c \<noteq> newline" unfolding list_all_iff by blast
  have "list_all word_char (b64_alphabet True)" by (simp add: b64_alphabet_def key_char_def)
  then show "c \<in> set (b64_alphabet True) \<Longrightarrow> word_char c" unfolding list_all_iff by blast
qed

lemma b64_char_mem: "n < 64 \<Longrightarrow> b64_char url n \<in> set (b64_alphabet url)"
proof -
  have "length (b64_alphabet url) = 64" by (simp add: b64_alphabet_def)
  then show "n < 64 \<Longrightarrow> ?thesis" unfolding b64_char_def by simp
qed

lemma b64_digit_mem: "c \<in> set (map (b64_char url) (b64_nums s)) \<Longrightarrow> c \<in> set (b64_alphabet url)"
  using b64_nums_less [of s] b64_char_mem by (auto simp: list_all_iff)

lemma b64_chars: "list_all (\<lambda>c. c \<noteq> CHR '':'' \<and> c \<noteq> newline) (b64_encode url s)" "list_all word_char (b64_encode True s)"
proof -
  have "list_all (\<lambda>c. c \<noteq> CHR '':'' \<and> c \<noteq> newline) (map (b64_char url) (b64_nums s))"
    unfolding list_all_iff by (intro ballI b64_alphabet_plain(1) b64_digit_mem)
  then show "list_all (\<lambda>c. c \<noteq> CHR '':'' \<and> c \<noteq> newline) (b64_encode url s)"
    unfolding b64_encode_nums list_all_append by (simp add: list_all_iff [of _ "replicate _ _"])
  have "list_all word_char (map (b64_char True) (b64_nums s))"
    unfolding list_all_iff by (intro ballI b64_alphabet_plain(2) b64_digit_mem)
  then show "list_all word_char (b64_encode True s)" by (simp add: b64_encode_nums)
qed

lemma b64_inj: "b64_encode url a = b64_encode url b \<longleftrightarrow> a = b"
  by (metis b64_decode_encode option.inject)

lemma length_b64_nums: "length (b64_nums s) = (4 * length s + 2) div 3"
  by (induction s rule: b64_nums.induct) simp_all

lemma nonce_length: "length r = 32 \<Longrightarrow> length (b64_encode True r) = 43"
  by (simp add: b64_encode_nums length_b64_nums)

lemma digest_no_newline: "newline \<notin> set (contentDigest sha body)"
  using b64_chars(1) [of False "sha body"] by (auto simp: contentDigest_def list_all_iff)

lemma digest_inj: "contentDigest sha a = contentDigest sha b \<longleftrightarrow> sha a = sha b"
  by (simp add: contentDigest_def b64_inj)

lemma signature_of_sign: "signature_of (''agentssh=:'' @ b64_encode False sig @ '':'') = Some sig"
  by (simp add: signature_of_def has_prefix_def has_suffix_def trim_prefix_def trim_suffix_def b64_decode_encode suffix_def)

lemma key_char_ascii: "key_char r \<Longrightarrow> r < 128" by (auto simp: key_char_def)

lemma validKeyID_chars: "validKeyID v \<longleftrightarrow> 1 \<le> length v \<and> length v \<le> 80 \<and> list_all word_char v"
proof -
  have "list_all word_char v" if "list_all key_char (runes v)"
  proof -
    have "valid_string v" using that by (intro runes_without_error) (auto simp: list_all_iff key_char_def RuneError_def)
    then have "v = encode_runes (runes v)" by (rule valid_string_encode [symmetric])
    moreover have "list_all word_char (encode_runes rs)" if "list_all key_char rs" for rs
      using that
    proof (induction rs)
      case (Cons r rs)
      then have "r < 128" using key_char_ascii by simp
      then show ?case using Cons by (simp add: encode_runes_Cons encode_ascii unbytes_def)
    qed simp
    ultimately show ?thesis using that by metis
  qed
  moreover have "list_all key_char (runes v)" if "list_all word_char v"
    using that key_char_ascii by (subst runes_ascii) (auto simp: ascii_def list_all_iff)
  ultimately show ?thesis by (auto simp: validKeyID_def)
qed

lemma nat_dec_time: "n < 10 ^ 12 \<Longrightarrow> list_all decimal_digit (nat_dec n) \<and> 1 \<le> length (nat_dec n) \<and> length (nat_dec n) \<le> 12"
  using nat_dec_chars [of n] nat_dec_length [of 12 n] by (auto simp: list_all_iff decimal_digit_def Suc_le_eq)

lemma digits_value_dec: "digits_value (nat_dec n) = n"
  using nat_dec_value [of n] by (simp add: digits_value_def dec_value_def)

lemma decimal_time: "int_dec (int n) = nat_dec n" by (simp add: int_dec_def)

section \<open>Signing and verifying\<close>

text \<open>Everything a device has ever signed: each entry is one call that succeeded.\<close>

record signing =
  sg_Request :: http_request
  sg_Body :: string
  sg_KeyID :: string
  sg_Tag :: string
  sg_Now :: instant
  sg_Random :: string

definition signing_ok :: "signing \<Rightarrow> bool" where
  "signing_ok S \<longleftrightarrow> validKeyID (sg_KeyID S) \<and> (sg_Tag S = DeviceSignatureTag \<or> sg_Tag S = EnrollSignatureTag) \<and>
     length (sg_Random S) = 32 \<and> unix (sg_Now S + RequestLifetime) < 10 ^ 12 \<and>
     newline \<notin> set (hr_Method (sg_Request S)) \<and> newline \<notin> set (hr_Target (sg_Request S))"

definition signing_input :: "signing \<Rightarrow> signature_input" where
  "signing_input S = (nat_dec (unix (sg_Now S)), nat_dec (unix (sg_Now S + RequestLifetime)), b64_encode True (sg_Random S), sg_KeyID S, sg_Tag S)"

definition signed_text :: "(string \<Rightarrow> string) \<Rightarrow> signing \<Rightarrow> string" where
  "signed_text sha S = signatureBase (hr_Method (sg_Request S)) (hr_Target (sg_Request S)) (contentDigest sha (sg_Body S)) (render_params (signing_input S))"

lemma signing_input_ok: "signing_ok S \<Longrightarrow> input_ok (signing_input S)"
proof -
  assume s: "signing_ok S"
  have "unix (sg_Now S) < 10 ^ 12" using s div_le_mono [of "sg_Now S" "sg_Now S + RequestLifetime" second] unfolding signing_ok_def by linarith
  then show ?thesis
    using s nat_dec_time [of "unix (sg_Now S)"] nat_dec_time [of "unix (sg_Now S + RequestLifetime)"] nonce_length b64_chars(2)
    by (simp add: signing_ok_def signing_input_def input_ok_def validKeyID_chars)
qed

lemma SignHTTPRequest_eq:
  assumes "signing_ok S" "length priv = 64"
  shows "\<exists>req. SignHTTPRequest sha sign (sg_Request S) (sg_Body S) (sg_KeyID S) (sg_Tag S) priv (sg_Now S) (Some (sg_Random S)) = Inr req \<and>
    hr_Method req = hr_Method (sg_Request S) \<and> hr_Target req = hr_Target (sg_Request S) \<and>
    header_values req ''Content-Digest'' = [contentDigest sha (sg_Body S)] \<and>
    header_values req ''Signature-Input'' = [''agentssh='' @ render_params (signing_input S)] \<and>
    header_values req ''Signature'' = [''agentssh=:'' @ b64_encode False (sign priv (signed_text sha S)) @ '':'']"
  using assms by (auto simp: SignHTTPRequest_def signing_ok_def Let_def header_values_def header_set_def decimal_time signed_text_def
    render_params_def signing_input_def)

text \<open>What acceptance checks, the body's digest included.\<close>

definition accepts :: "(string \<Rightarrow> string) \<Rightarrow> (string \<Rightarrow> string \<Rightarrow> string \<Rightarrow> bool) \<Rightarrow> http_request \<Rightarrow> string \<Rightarrow> string \<Rightarrow> string \<Rightarrow> string \<Rightarrow> string \<Rightarrow> instant \<Rightarrow> signature_input \<Rightarrow> bool" where
  "accepts sha verify req body target keyID tag key now i \<longleftrightarrow>
     (\<exists>c e n sig. i = (c, e, n, keyID, tag) \<and> input_ok i \<and>
        header_values req ''Content-Digest'' = [contentDigest sha body] \<and>
        header_values req ''Signature-Input'' = [''agentssh='' @ render_params i] \<and>
        digits_value c < digits_value e \<and> digits_value e \<le> digits_value c + 60 \<and>
        (\<exists>r. b64_decode True n = Some r \<and> length r = 32) \<and>
        verify key (signatureBase (hr_Method req) target (contentDigest sha body) (render_params i)) sig \<and>
        unix now < digits_value e \<and> digits_value c \<le> unix (now + RequestClockSkew))"

lemma single_value: "length (header_values req h) = Suc 0 \<longleftrightarrow> header_values req h = [header_get req h]"
  by (auto simp: header_get_def length_Suc_conv split: list.splits)

lemma VerifyHTTPRequest_accepts:
  assumes "VerifyHTTPRequest sha verify req body target keyID tag key now = Inr p"
  obtains i where "accepts sha verify req body target keyID tag key now i"
    "p = \<lparr>rp_KeyID = keyID, rp_Nonce = fst (snd (snd i)), rp_Expires = int (digits_value (fst (snd i)))\<rparr>"
proof -
  have d: "header_values req ''Content-Digest'' = [contentDigest sha body]" "header_get req ''Content-Digest'' = contentDigest sha body"
    and v: "VerifyHTTPRequestHeaders verify req target keyID tag key now = Inr p"
    using assms by (auto simp: VerifyHTTPRequest_def ContentDigestMatches_def single_value split: if_splits)
  have l: "header_values req ''Signature-Input'' = [header_get req ''Signature-Input'']"
    using v by (auto simp: VerifyHTTPRequestHeaders_def single_value split: if_splits)
  obtain c e n k t where i: "signatureInputPattern (header_get req ''Signature-Input'') = Some (c, e, n, k, t)"
    using v by (auto simp: VerifyHTTPRequestHeaders_def Let_def split: if_splits option.splits)
  note io = pattern_sound [OF i]
  have strip: "trim_prefix (''agentssh='' @ x) ''agentssh='' = x" for x :: string by (simp add: trim_prefix_def)
  have "accepts sha verify req body target keyID tag key now (c, e, n, k, t)"
    unfolding accepts_def using v d l io strip i
    by (auto simp: VerifyHTTPRequestHeaders_def Let_def render_params_def RequestLifetime_def split: if_splits option.splits)
  moreover have "p = \<lparr>rp_KeyID = keyID, rp_Nonce = n, rp_Expires = int (digits_value e)\<rparr>"
    using v i by (auto simp: VerifyHTTPRequestHeaders_def Let_def split: if_splits option.splits)
  ultimately show ?thesis by (intro that [of "(c, e, n, k, t)"]) simp_all
qed

lemma signed_accepted:
  assumes "signing_ok S" "length priv = 64" "length pub = 32" "verify pub (signed_text sha S) (sign priv (signed_text sha S))"
    and signed: "SignHTTPRequest sha sign (sg_Request S) (sg_Body S) (sg_KeyID S) (sg_Tag S) priv (sg_Now S) (Some (sg_Random S)) = Inr req"
    and clock: "unix (sg_Now S) \<le> unix now + 30" "unix now < unix (sg_Now S) + 60"
  shows "VerifyHTTPRequest sha verify req (sg_Body S) (hr_Target (sg_Request S)) (sg_KeyID S) (sg_Tag S) pub now =
    Inr \<lparr>rp_KeyID = sg_KeyID S, rp_Nonce = b64_encode True (sg_Random S), rp_Expires = int (unix (sg_Now S)) + 60\<rparr>"
proof -
  let ?i = "signing_input S"
  obtain c e n where i: "?i = (c, e, n, sg_KeyID S, sg_Tag S)" "digits_value c = unix (sg_Now S)"
    "digits_value e = unix (sg_Now S + RequestLifetime)" "n = b64_encode True (sg_Random S)" by (simp add: signing_input_def digits_value_dec)
  obtain input sig where w: "input = ''agentssh='' @ render_params ?i" "sig = ''agentssh=:'' @ b64_encode False (sign priv (signed_text sha S)) @ '':''" by simp
  have h: "hr_Method req = hr_Method (sg_Request S)" "header_values req ''Content-Digest'' = [contentDigest sha (sg_Body S)]"
    "header_values req ''Signature-Input'' = [input]" "header_values req ''Signature'' = [sig]"
    using SignHTTPRequest_eq [OF assms(1,2), of sha sign] signed unfolding w by auto
  have "signatureInputPattern input = Some ?i"
    unfolding w by (rule pattern_render [OF signing_input_ok [OF assms(1)]])
  moreover have "trim_prefix input ''agentssh='' = render_params ?i" unfolding w by (simp add: trim_prefix_def)
  moreover have "signature_of sig = Some (sign priv (signed_text sha S))" unfolding w by (rule signature_of_sign)
  moreover have l: "unix (sg_Now S + RequestLifetime) = unix (sg_Now S) + 60" "unix (now + RequestClockSkew) = unix now + 30" "RequestLifetime div second = 60"
    by (simp_all add: RequestLifetime_def RequestClockSkew_def)
  moreover have "header_get req x = v" if "header_values req x = [v]" for x v using that by (simp add: header_get_def)
  moreover have "length (sg_Random S) = 32" using assms(1) by (simp add: signing_ok_def)
  ultimately show ?thesis
    using assms(3,4) h i clock by (simp add: VerifyHTTPRequest_def ContentDigestMatches_def VerifyHTTPRequestHeaders_def b64_decode_encode signed_text_def)
qed

text \<open>
  C37. A request that a device signs is accepted by a verifier that knows its public key, whatever the
  verifier's clock reads between thirty seconds before the signing and the end of the request's lifetime:
  the proof names the key, the nonce drawn and the expiry.
\<close>

theorem signed_is_accepted:
  assumes "signing_ok S" "length priv = 64" "length pub = 32" "\<And>m. verify pub m (sign priv m)"
    and signed: "SignHTTPRequest sha sign (sg_Request S) (sg_Body S) (sg_KeyID S) (sg_Tag S) priv (sg_Now S) (Some (sg_Random S)) = Inr req"
    and clock: "unix (sg_Now S) \<le> unix now + 30" "unix now < unix (sg_Now S) + 60"
  shows "VerifyHTTPRequest sha verify req (sg_Body S) (hr_Target (sg_Request S)) (sg_KeyID S) (sg_Tag S) pub now =
    Inr \<lparr>rp_KeyID = sg_KeyID S, rp_Nonce = b64_encode True (sg_Random S), rp_Expires = int (unix (sg_Now S)) + 60\<rparr>"
  using assms by (intro signed_accepted [of S priv]) simp_all

definition sample_signing :: signing where
  "sample_signing = \<lparr>sg_Request = \<lparr>hr_Method = ''GET'', hr_Target = ''https://gw/v1/status'', hr_Header = []\<rparr>, sg_Body = [],
     sg_KeyID = ''dev_1'', sg_Tag = DeviceSignatureTag, sg_Now = 1000 * second, sg_Random = replicate 32 CHR ''r''\<rparr>"

lemma sample_signing_ok: "signing_ok sample_signing"
  by (simp add: sample_signing_def signing_ok_def validKeyID_chars key_char_def RequestLifetime_def)

lemma sample_request:
  obtains req where "SignHTTPRequest (\<lambda>b. b) (\<lambda>k m. m) (sg_Request sample_signing) (sg_Body sample_signing) (sg_KeyID sample_signing)
      (sg_Tag sample_signing) (replicate 64 CHR ''p'') (sg_Now sample_signing) (Some (sg_Random sample_signing)) = Inr req" "hr_Method req = ''GET''"
  using SignHTTPRequest_eq [OF sample_signing_ok, of "replicate 64 CHR ''p''"] by (auto simp: sample_signing_def)

theorem signed_is_accepted_witness:
  "\<exists>req. SignHTTPRequest (\<lambda>b. b) (\<lambda>k m. m) (sg_Request sample_signing) [] ''dev_1'' DeviceSignatureTag (replicate 64 CHR ''p'')
       (1000 * second) (Some (replicate 32 CHR ''r'')) = Inr req \<and>
     VerifyHTTPRequest (\<lambda>b. b) (\<lambda>k m s. m = s) req [] ''https://gw/v1/status'' ''dev_1'' DeviceSignatureTag (replicate 32 CHR ''q'') (1059 * second) =
     Inr \<lparr>rp_KeyID = ''dev_1'', rp_Nonce = b64_encode True (replicate 32 CHR ''r''), rp_Expires = 1060\<rparr>"
proof -
  have s: "sg_Body sample_signing = []" "sg_KeyID sample_signing = ''dev_1''" "sg_Tag sample_signing = DeviceSignatureTag"
    "sg_Now sample_signing = 1000 * second" "sg_Random sample_signing = replicate 32 CHR ''r''" "hr_Target (sg_Request sample_signing) = ''https://gw/v1/status''"
    by (simp_all add: sample_signing_def)
  obtain req where r: "SignHTTPRequest (\<lambda>b. b) (\<lambda>k m. m) (sg_Request sample_signing) (sg_Body sample_signing) (sg_KeyID sample_signing)
      (sg_Tag sample_signing) (replicate 64 CHR ''p'') (sg_Now sample_signing) (Some (sg_Random sample_signing)) = Inr req" by (rule sample_request)
  from signed_is_accepted [OF sample_signing_ok _ _ _ r, of "replicate 32 CHR ''q''" "\<lambda>k m s. m = s" "1059 * second"]
  have "VerifyHTTPRequest (\<lambda>b. b) (\<lambda>k m s. m = s) req [] ''https://gw/v1/status'' ''dev_1'' DeviceSignatureTag (replicate 32 CHR ''q'') (1059 * second) =
     Inr \<lparr>rp_KeyID = ''dev_1'', rp_Nonce = b64_encode True (replicate 32 CHR ''r''), rp_Expires = 1060\<rparr>"
    unfolding s by simp
  then show ?thesis using r unfolding s by blast
qed

lemma accepted_signed:
  assumes acc: "VerifyHTTPRequest sha verify req body target keyID tag pub now = Inr p"
    and unforged: "\<And>m sig. verify pub m sig \<Longrightarrow> \<exists>S \<in> Signings. signing_ok S \<and> m = signed_text sha S"
    and plain: "newline \<notin> set (hr_Method req)" "newline \<notin> set target"
  shows "\<exists>S \<in> Signings. hr_Method (sg_Request S) = hr_Method req \<and> hr_Target (sg_Request S) = target \<and> sha (sg_Body S) = sha body \<and>
     sg_KeyID S = keyID \<and> sg_Tag S = tag \<and> rp_Nonce p = b64_encode True (sg_Random S) \<and> rp_Expires p = int (unix (sg_Now S)) + 60 \<and>
     unix now < unix (sg_Now S) + 60 \<and> unix (sg_Now S) \<le> unix now + 30"
proof -
  obtain i where a: "accepts sha verify req body target keyID tag pub now i"
    and p: "p = \<lparr>rp_KeyID = keyID, rp_Nonce = fst (snd (snd i)), rp_Expires = int (digits_value (fst (snd i)))\<rparr>"
    by (rule VerifyHTTPRequest_accepts [OF acc])
  from a obtain c e n sig where i: "i = (c, e, n, keyID, tag)" "input_ok i"
    "verify pub (signatureBase (hr_Method req) target (contentDigest sha body) (render_params i)) sig"
    "unix now < digits_value e" "digits_value c \<le> unix (now + RequestClockSkew)" unfolding accepts_def by blast
  from unforged [OF i(3)] obtain S where S: "S \<in> Signings" "signing_ok S"
    "signatureBase (hr_Method req) target (contentDigest sha body) (render_params i) = signed_text sha S" by blast
  have b: "hr_Method req = hr_Method (sg_Request S) \<and> target = hr_Target (sg_Request S) \<and>
      contentDigest sha body = contentDigest sha (sg_Body S) \<and> render_params i = render_params (signing_input S)"
    using S(2,3) plain digest_no_newline unfolding signed_text_def signing_ok_def by (intro base_inj) blast+
  moreover have "i = signing_input S"
    by (rule render_inj [OF i(2) signing_input_ok [OF S(2)] conjunct2 [OF conjunct2 [OF conjunct2 [OF b]]]])
  ultimately show ?thesis using S(1) i(1,4,5) p
    by (intro bexI [of _ S]) (auto simp: digest_inj signing_input_def digits_value_dec RequestLifetime_def RequestClockSkew_def)
qed

text \<open>
  No request is accepted that the device did not sign. If whatever verifies under a device's public
  key is the text of one of its signings, an accepted request has the method, target and body (up to
  SHA-256) of a signing made for the same key and purpose; the proof's nonce and expiry are that signing's,
  and the verifier's clock is within thirty seconds before and sixty seconds after it.
\<close>

theorem accepted_was_signed:
  assumes acc: "VerifyHTTPRequest sha verify req body target keyID tag pub now = Inr p"
    and unforged: "\<And>m sig. verify pub m sig \<Longrightarrow> \<exists>S \<in> Signings. signing_ok S \<and> m = signed_text sha S"
    and plain: "newline \<notin> set (hr_Method req)" "newline \<notin> set target"
  shows "\<exists>S \<in> Signings. hr_Method (sg_Request S) = hr_Method req \<and> hr_Target (sg_Request S) = target \<and> sha (sg_Body S) = sha body \<and>
     sg_KeyID S = keyID \<and> sg_Tag S = tag \<and> rp_Nonce p = b64_encode True (sg_Random S) \<and> rp_Expires p = int (unix (sg_Now S)) + 60 \<and>
     unix now < unix (sg_Now S) + 60 \<and> unix (sg_Now S) \<le> unix now + 30"
  using assms by (rule accepted_signed)

theorem accepted_was_signed_witness:
  "\<exists>req p. VerifyHTTPRequest (\<lambda>b. b) (\<lambda>k m s. m = signed_text (\<lambda>b. b) sample_signing) req [] ''https://gw/v1/status'' ''dev_1'' DeviceSignatureTag
      (replicate 32 CHR ''q'') (1010 * second) = Inr p \<and>
    (\<exists>S \<in> {sample_signing}. hr_Method (sg_Request S) = hr_Method req \<and> rp_Nonce p = b64_encode True (sg_Random S) \<and> rp_Expires p = int (unix (sg_Now S)) + 60)"
proof -
  let ?v = "\<lambda>(k::string) m (s::string). m = signed_text (\<lambda>b. b) sample_signing"
  have s: "sg_Body sample_signing = []" "sg_KeyID sample_signing = ''dev_1''" "sg_Tag sample_signing = DeviceSignatureTag"
    "sg_Now sample_signing = 1000 * second" "hr_Target (sg_Request sample_signing) = ''https://gw/v1/status''"
    by (simp_all add: sample_signing_def)
  obtain req where r: "SignHTTPRequest (\<lambda>b. b) (\<lambda>k m. m) (sg_Request sample_signing) (sg_Body sample_signing) (sg_KeyID sample_signing)
      (sg_Tag sample_signing) (replicate 64 CHR ''p'') (sg_Now sample_signing) (Some (sg_Random sample_signing)) = Inr req" "hr_Method req = ''GET''"
    by (rule sample_request)
  have p: "\<exists>p. VerifyHTTPRequest (\<lambda>b. b) ?v req [] ''https://gw/v1/status'' ''dev_1'' DeviceSignatureTag (replicate 32 CHR ''q'') (1010 * second) = Inr p"
    using signed_accepted [OF sample_signing_ok _ _ _ r(1), of "replicate 32 CHR ''q''" ?v "1010 * second"] unfolding s by simp
  then obtain p where p: "VerifyHTTPRequest (\<lambda>b. b) ?v req [] ''https://gw/v1/status'' ''dev_1'' DeviceSignatureTag (replicate 32 CHR ''q'') (1010 * second) = Inr p" ..
  show ?thesis
    using accepted_was_signed [OF p, of "{sample_signing}"] p r(2) sample_signing_ok by (intro exI [of _ req] exI [of _ p]) auto
qed

text \<open>
  A proof is accepted only before it expires, and it expires ninety seconds later at most.
\<close>

lemma proof_expires_soon: "VerifyHTTPRequest sha verify req body target keyID tag key now = Inr p \<Longrightarrow>
   int (unix now) < rp_Expires p \<and> rp_Expires p \<le> int (unix now) + 90"
  by (erule VerifyHTTPRequest_accepts) (auto simp: accepts_def RequestClockSkew_def)

end
