(* ===== verification/Enroll.thy ===== *)
theory Enroll
  imports Signed Wire Commandline
begin

text \<open>
  \<open>internal/remote/enrollment.go\<close>: the canonical base of a control plane and the enrolment token that carries
  it. \<open>url.Parse\<close> is the argument \<open>parse\<close>, to the parts the program looks at, and \<open>URL.String\<close> the argument
  \<open>show_url\<close>.
\<close>

record web_url =
  wu_Scheme :: string
  wu_Hostname :: string
  wu_User :: bool
  wu_RawQuery :: string
  wu_ForceQuery :: bool
  wu_Fragment :: string
  wu_Opaque :: string
  wu_RawPath :: string
  wu_Path :: string

definition path_char :: "nat \<Rightarrow> bool" where
  "path_char r \<longleftrightarrow> 65 \<le> r \<and> r \<le> 90 \<or> 97 \<le> r \<and> r \<le> 122 \<or> 48 \<le> r \<and> r \<le> 57 \<or> r \<in> set (map byte ''/._~-'')"

definition trim_right :: "char \<Rightarrow> string \<Rightarrow> string" where
  "trim_right c s = rev (dropWhile (\<lambda>x. x = c) (rev s))"

definition HTTPSBaseURL :: "(string \<Rightarrow> web_url option) \<Rightarrow> (web_url \<Rightarrow> string) \<Rightarrow> string \<Rightarrow> string res" where
  "HTTPSBaseURL parse show_url v = (case parse v of
     None \<Rightarrow> Inl (Errorf ''control plane base'' [])
   | Some u \<Rightarrow>
       if wu_Scheme u \<noteq> ''https'' \<or> wu_Hostname u = [] \<or> wu_User u \<or> wu_RawQuery u \<noteq> [] \<or> wu_ForceQuery u \<or>
          wu_Fragment u \<noteq> [] \<or> wu_Opaque u \<noteq> [] \<or> wu_RawPath u \<noteq> [] \<or>
          list_ex (\<lambda>c. c \<in> {bslash, CHR 0x0D, newline, CHR 0x09, CHR '' ''}) (wu_Path u)
       then Inl (Errorf ''control plane base'' [])
       else if list_ex (\<lambda>seg. seg = ''.'' \<or> seg = ''..'') (split_on CHR ''/'' (wu_Path u)) then Inl (Errorf ''dot path segments'' [])
       else if \<not> list_all path_char (runes (wu_Path u)) then Inl (Errorf ''control plane path'' [])
       else let p = trim_right CHR ''/'' (wu_Path u) in
         if str_contains p ''//'' then Inl (Errorf ''empty path segments'' []) else Inr (show_url (u\<lparr>wu_Path := p\<rparr>)))"

definition PublicKeyFingerprint :: "(string \<Rightarrow> string) \<Rightarrow> string \<Rightarrow> string" where
  "PublicKeyFingerprint sha key = hex_string (sha key)"

record EnrollToken =
  et_ID :: string
  et_Secret :: string
  et_Fingerprint :: string
  et_ServerURL :: string

definition tokenPrefix :: string where "tokenPrefix = ''agentssh-enroll.''"

definition token_String :: "EnrollToken \<Rightarrow> string" where
  "token_String t = tokenPrefix @ str_join [et_ID t, et_Secret t, et_Fingerprint t, b64_encode True (et_ServerURL t)] ''.''"

text \<open>\<open>hex.DecodeString\<close>\<close>

fun hex_decode :: "string \<Rightarrow> string option" where
  "hex_decode [] = Some []"
| "hex_decode [c] = None"
| "hex_decode (a # b # s) = (case (hex_value a, hex_value b) of
     (Some i, Some j) \<Rightarrow> map_option ((#) (char_of (16 * i + j))) (hex_decode s)
   | _ \<Rightarrow> None)"

definition ParseEnrollToken :: "(string \<Rightarrow> web_url option) \<Rightarrow> (web_url \<Rightarrow> string) \<Rightarrow> string \<Rightarrow> EnrollToken res" where
  "ParseEnrollToken parse show_url v =
     (let t = trim_space v; rest = trim_prefix t tokenPrefix; parts = split_on CHR ''.'' rest in
      if \<not> has_prefix t tokenPrefix \<or> length parts \<noteq> 4 \<or> \<not> validKeyID (parts ! 0) then Inl (Errorf ''invalid HTTPS enrollment token'' [])
      else case b64_decode True (parts ! 1) of
        None \<Rightarrow> Inl (Errorf ''invalid HTTPS enrollment token secret'' [])
      | Some secret \<Rightarrow>
          if length secret \<noteq> 32 \<or> b64_encode True secret \<noteq> parts ! 1 then Inl (Errorf ''invalid HTTPS enrollment token secret'' [])
          else case hex_decode (parts ! 2) of
            None \<Rightarrow> Inl (Errorf ''invalid bundle public-key fingerprint'' [])
          | Some fp \<Rightarrow>
              if length fp \<noteq> 32 \<or> to_lower (parts ! 2) \<noteq> parts ! 2 then Inl (Errorf ''invalid bundle public-key fingerprint'' [])
              else case b64_decode True (parts ! 3) of
                None \<Rightarrow> Inl (Errorf ''invalid HTTPS enrollment URL'' [])
              | Some rawURL \<Rightarrow>
                  if b64_encode True rawURL \<noteq> parts ! 3 then Inl (Errorf ''invalid HTTPS enrollment URL'' [])
                  else case HTTPSBaseURL parse show_url rawURL of
                    Inl _ \<Rightarrow> Inl (Errorf ''invalid HTTPS enrollment URL'' [])
                  | Inr base \<Rightarrow> if base \<noteq> rawURL then Inl (Errorf ''invalid HTTPS enrollment URL'' [])
                      else Inr \<lparr>et_ID = parts ! 0, et_Secret = parts ! 1, et_Fingerprint = parts ! 2, et_ServerURL = base\<rparr>)"

definition DecodePublicKey :: "string \<Rightarrow> string res" where
  "DecodePublicKey v = (case b64_decode False v of
     None \<Rightarrow> Inl (Errorf ''invalid Ed25519 public key'' [])
   | Some key \<Rightarrow> if length key \<noteq> 32 \<or> b64_encode False key \<noteq> v then Inl (Errorf ''invalid Ed25519 public key'' []) else Inr key)"

section \<open>Reading a token back\<close>

lemma hex_decode_string: "hex_decode (hex_string s) = Some s"
proof (induction s)
  case (Cons c s)
  have "byte c div 16 < 16" "byte c mod 16 < 16" using byte_less_256 [of c] by (auto simp: less_mult_imp_div_less)
  then show ?case using Cons by (simp add: hex_string_def)
qed (simp add: hex_string_def)

lemma hex_string_lower: "ascii (hex_string s)" "to_lower (hex_string s) = hex_string s"
proof -
  have c: "list_all (\<lambda>c. run_id_char (byte c) \<and> byte c < 128) (hex_string s)" by (rule hex_string_chars)
  then show a: "ascii (hex_string s)" by (auto simp: ascii_def list_all_iff)
  have "map lower_rune (runes (hex_string s)) = runes (hex_string s)"
    using c by (subst (1 2) runes_ascii [OF a]) (auto simp: list_all_iff lower_rune_def run_id_char_def)
  then show "to_lower (hex_string s) = hex_string s"
    using valid_string_encode [OF valid_ascii [OF a]] by (simp add: to_lower_def)
qed

definition enroll_token_ok :: "(string \<Rightarrow> web_url option) \<Rightarrow> (web_url \<Rightarrow> string) \<Rightarrow> EnrollToken \<Rightarrow> bool" where
  "enroll_token_ok parse show_url t \<longleftrightarrow> validKeyID (et_ID t) \<and>
     (\<exists>r. length r = 32 \<and> et_Secret t = b64_encode True r) \<and> (\<exists>f. length f = 32 \<and> et_Fingerprint t = hex_string f) \<and>
     HTTPSBaseURL parse show_url (et_ServerURL t) = Inr (et_ServerURL t)"

lemma word_char_plain: "word_char c \<Longrightarrow> c \<noteq> CHR ''.'' \<and> byte c < 128 \<and> \<not> is_space (byte c)"
  by (auto simp: key_char_def is_space_def)

lemma run_id_word: "run_id_char r \<Longrightarrow> key_char r"
  by (auto simp: run_id_char_def key_char_def)

lemma token_parts:
  assumes "enroll_token_ok parse show_url t"
  shows "list_all word_char (et_ID t)" "et_ID t \<noteq> []" "list_all word_char (et_Secret t)" "list_all word_char (et_Fingerprint t)"
    "list_all word_char (b64_encode True (et_ServerURL t))"
  using assms b64_chars(2) hex_string_chars run_id_word by (auto simp: enroll_token_ok_def validKeyID_chars list_all_iff)

lemma token_split:
  assumes "enroll_token_ok parse show_url t"
  shows "split_on CHR ''.'' (str_join [et_ID t, et_Secret t, et_Fingerprint t, b64_encode True (et_ServerURL t)] ''.'') =
    [et_ID t, et_Secret t, et_Fingerprint t, b64_encode True (et_ServerURL t)]"
proof -
  have n: "CHR ''.'' \<notin> set w" if "list_all word_char w" for w using that word_char_plain by (auto simp: list_all_iff)
  show ?thesis using token_parts [OF assms] n by (simp add: split_on_sep split_on_no)
qed

lemma token_trimmed: "enroll_token_ok parse show_url t \<Longrightarrow> trim_space (token_String t) = token_String t"
proof -
  assume ok: "enroll_token_ok parse show_url t"
  let ?ps = "[et_ID t, et_Secret t, et_Fingerprint t, b64_encode True (et_ServerURL t)]"
  have c: "byte c < 128 \<and> \<not> is_space (byte c)" if "c \<in> set (str_join ?ps ''.'')" for c
    using that token_parts [OF ok] word_char_plain by (auto simp: list_all_iff is_space_def)
  have p: "list_all (\<lambda>c. byte c < 128 \<and> \<not> is_space (byte c)) tokenPrefix" by (simp add: tokenPrefix_def is_space_def)
  have all: "\<forall>c \<in> set (token_String t). byte c < 128 \<and> \<not> is_space (byte c)"
    using c p unfolding token_String_def list_all_iff set_append by blast
  moreover have "token_String t \<noteq> []" by (simp add: token_String_def tokenPrefix_def)
  ultimately show ?thesis by (intro trim_space_ascii) (auto simp: ascii_def list_all_iff)
qed

text \<open>
  An enrolment token pasted as the text it is issued as reads back as that token.
\<close>

theorem enroll_token_roundtrip:
  assumes "enroll_token_ok parse show_url t"
  shows "ParseEnrollToken parse show_url (token_String t) = Inr t"
proof -
  obtain r f where w: "length r = 32" "et_Secret t = b64_encode True r" "length f = 32" "et_Fingerprint t = hex_string f"
    "validKeyID (et_ID t)" "HTTPSBaseURL parse show_url (et_ServerURL t) = Inr (et_ServerURL t)"
    using assms by (auto simp: enroll_token_ok_def)
  have p: "has_prefix (token_String t) tokenPrefix" by (simp add: token_String_def has_prefix_def)
  have rest: "trim_prefix (token_String t) tokenPrefix = str_join [et_ID t, et_Secret t, et_Fingerprint t, b64_encode True (et_ServerURL t)] ''.''"
    by (simp add: token_String_def trim_prefix_def)
  show ?thesis
    unfolding ParseEnrollToken_def Let_def token_trimmed [OF assms] rest token_split [OF assms]
    using p w by (simp add: b64_decode_encode hex_decode_string hex_string_lower)
qed

definition sample_url :: web_url where
  "sample_url = \<lparr>wu_Scheme = ''https'', wu_Hostname = ''gw'', wu_User = False, wu_RawQuery = [], wu_ForceQuery = False, wu_Fragment = [],
     wu_Opaque = [], wu_RawPath = [], wu_Path = ''/ssh''\<rparr>"

theorem enroll_token_roundtrip_witness:
  "ParseEnrollToken (\<lambda>_. Some sample_url) (\<lambda>u. ''https://gw'' @ wu_Path u)
     (token_String \<lparr>et_ID = ''et_1'', et_Secret = b64_encode True (replicate 32 CHR ''s''), et_Fingerprint = hex_string (replicate 32 CHR ''f''),
       et_ServerURL = ''https://gw/ssh''\<rparr>) =
   Inr \<lparr>et_ID = ''et_1'', et_Secret = b64_encode True (replicate 32 CHR ''s''), et_Fingerprint = hex_string (replicate 32 CHR ''f''),
     et_ServerURL = ''https://gw/ssh''\<rparr>"
proof (rule enroll_token_roundtrip)
  have "runes ''/ssh'' = map byte ''/ssh''" by (rule runes_ascii) (simp add: ascii_def)
  then have "HTTPSBaseURL (\<lambda>_. Some sample_url) (\<lambda>u. ''https://gw'' @ wu_Path u) ''https://gw/ssh'' = Inr ''https://gw/ssh''"
    by (simp add: HTTPSBaseURL_def sample_url_def path_char_def trim_right_def str_contains_def sublist_Cons_right)
  then show "enroll_token_ok (\<lambda>_. Some sample_url) (\<lambda>u. ''https://gw'' @ wu_Path u)
    \<lparr>et_ID = ''et_1'', et_Secret = b64_encode True (replicate 32 CHR ''s''), et_Fingerprint = hex_string (replicate 32 CHR ''f''), et_ServerURL = ''https://gw/ssh''\<rparr>"
    by (auto simp: enroll_token_ok_def validKeyID_chars key_char_def intro: exI [of _ "replicate 32 CHR ''s''"] exI [of _ "replicate 32 CHR ''f''"])
qed

end
