(* ===== verification/ControlStore.thy ===== *)
theory ControlStore
  imports Enroll ClockNano "HOL-Library.Product_Lexorder"
begin

text \<open>
  \<open>internal/controlplane\<close>: the tables of \<open>store.go\<close> and \<open>enrollment_store.go\<close> and the operations on them,
  the enrolment and device handlers of \<open>handler.go\<close>, and \<open>config.go\<close>. A table is a map from its primary key to
  its row, and an operation is one transaction: SQLite's writer lock is taken before anything is read, so
  operations follow one another. Failures of the database itself are not modelled. SHA-256 in hexadecimal is
  the function \<open>H\<close>; random identifiers are arguments; \<open>validManaged\<close> stands for \<open>remote.ParseManaged\<close>, given
  which identities exist.
\<close>

section \<open>Tables\<close>

definition DeviceActive :: string where "DeviceActive = ''active''"
definition DeviceRevoked :: string where "DeviceRevoked = ''revoked''"
definition IdentityActive :: string where "IdentityActive = ''active''"
definition IdentityDisabled :: string where "IdentityDisabled = ''disabled''"

definition ErrNotFound :: error where "ErrNotFound = Sentinel ''ErrNotFound''"
definition ErrTokenInvalid :: error where "ErrTokenInvalid = Sentinel ''ErrTokenInvalid''"
definition ErrExists :: error where "ErrExists = Sentinel ''ErrExists''"
definition ErrDeviceRevoked :: error where "ErrDeviceRevoked = Sentinel ''ErrDeviceRevoked''"
definition ErrRequestReplayed :: error where "ErrRequestReplayed = Sentinel ''ErrRequestReplayed''"
definition ErrConfigChanged :: error where "ErrConfigChanged = Sentinel ''ErrConfigChanged''"
definition ErrNoRows :: error where "ErrNoRows = Sentinel ''sql.ErrNoRows''"
definition ErrUnique :: error where "ErrUnique = Errorf ''UNIQUE constraint failed'' []"

record device_row =
  dr_Name :: string
  dr_PublicKey :: string
  dr_Status :: string
  dr_CreatedAt :: string
  dr_RevokedAt :: string

record token_row =
  tr_Name :: string
  tr_Secret :: string
  tr_URL :: string
  tr_ExpiresAt :: string
  tr_UsedAt :: string

record identity_row =
  ir_PublicKey :: string
  ir_PrivateKey :: string
  ir_Status :: string
  ir_CreatedAt :: string
  ir_DisabledAt :: string

record config_row =
  cr_Version :: int
  cr_Inventory :: string
  cr_Policy :: string
  cr_UpdatedAt :: string

record control_store =
  cs_Devices :: "device_row gomap"
  cs_Tokens :: "token_row gomap"
  cs_Identities :: "identity_row gomap"
  cs_Configs :: "config_row gomap"
  cs_Nonces :: "((string \<times> string) \<times> int) list"
  cs_NextPrune :: int

definition empty_control :: control_store where
  "empty_control = \<lparr>cs_Devices = [], cs_Tokens = [], cs_Identities = [], cs_Configs = [], cs_Nonces = [], cs_NextPrune = 0\<rparr>"

record Device =
  dv_ID :: string
  dv_Name :: string
  dv_PublicKey :: string
  dv_Status :: string
  dv_CreatedAt :: int
  dv_RevokedAt :: int

record Identity =
  id_Name :: string
  id_PublicKey :: string
  id_PrivateKey :: string
  id_Status :: string
  id_CreatedAt :: int

record DeviceConfig =
  dc_DeviceID :: string
  dc_Version :: int
  dc_Inventory :: string
  dc_Policy :: string
  dc_UpdatedAt :: int

section \<open>Devices and identities\<close>

definition device_of_row :: "string \<Rightarrow> device_row \<Rightarrow> Device" where
  "device_of_row i r = \<lparr>dv_ID = i, dv_Name = dr_Name r, dv_PublicKey = dr_PublicKey r, dv_Status = dr_Status r,
     dv_CreatedAt = ParseTime (dr_CreatedAt r), dv_RevokedAt = ParseTime (dr_RevokedAt r)\<rparr>"

definition store_Device :: "control_store \<Rightarrow> string \<Rightarrow> Device res" where
  "store_Device s i = (case gget (cs_Devices s) i of None \<Rightarrow> Inl ErrNotFound | Some r \<Rightarrow> Inr (device_of_row i r))"

text \<open>\<open>ORDER BY created_at, id\<close> compares the texts.\<close>

definition Devices :: "control_store \<Rightarrow> Device list" where
  "Devices s = map (\<lambda>(i, r). device_of_row i r) (sort_key (\<lambda>(i, r). (dr_CreatedAt r, i)) (cs_Devices s))"

definition RevokeDevice :: "string \<Rightarrow> instant \<Rightarrow> control_store \<Rightarrow> control_store \<times> error option" where
  "RevokeDevice i now s = (case gget (cs_Devices s) i of
     None \<Rightarrow> (s, Some ErrNotFound)
   | Some r \<Rightarrow> (s\<lparr>cs_Devices := gput i (r\<lparr>dr_Status := DeviceRevoked,
       dr_RevokedAt := (if dr_RevokedAt r = [] then FormatTime now else dr_RevokedAt r)\<rparr>) (cs_Devices s)\<rparr>, None))"

definition CreateIdentity :: "string \<Rightarrow> string \<Rightarrow> string \<Rightarrow> instant \<Rightarrow> control_store \<Rightarrow> control_store \<times> error option" where
  "CreateIdentity name pub priv created s =
     (if ghas (cs_Identities s) name then (s, Some ErrExists)
      else (s\<lparr>cs_Identities := gput name \<lparr>ir_PublicKey = pub, ir_PrivateKey = priv, ir_Status = IdentityActive,
              ir_CreatedAt = FormatTime created, ir_DisabledAt = []\<rparr> (cs_Identities s)\<rparr>, None))"

definition store_Identity :: "control_store \<Rightarrow> string \<Rightarrow> Identity res" where
  "store_Identity s name = (case gget (cs_Identities s) name of
     None \<Rightarrow> Inl ErrNotFound
   | Some r \<Rightarrow> Inr \<lparr>id_Name = name, id_PublicKey = ir_PublicKey r, id_PrivateKey = ir_PrivateKey r, id_Status = ir_Status r,
       id_CreatedAt = ParseTime (ir_CreatedAt r)\<rparr>)"

definition Identities :: "control_store \<Rightarrow> Identity list" where
  "Identities s = map (\<lambda>(name, r). \<lparr>id_Name = name, id_PublicKey = ir_PublicKey r, id_PrivateKey = [], id_Status = ir_Status r,
     id_CreatedAt = ParseTime (ir_CreatedAt r)\<rparr>) (sort_key fst (cs_Identities s))"

definition DisableIdentity :: "string \<Rightarrow> instant \<Rightarrow> control_store \<Rightarrow> control_store \<times> error option" where
  "DisableIdentity name now s = (case gget (cs_Identities s) name of
     None \<Rightarrow> (s, Some ErrNotFound)
   | Some r \<Rightarrow> (s\<lparr>cs_Identities := gput name (r\<lparr>ir_Status := IdentityDisabled,
       ir_DisabledAt := (if ir_DisabledAt r = [] then FormatTime now else ir_DisabledAt r)\<rparr>) (cs_Identities s)\<rparr>, None))"

section \<open>Configurations\<close>

text \<open>Without a row, \<open>Scan\<close> leaves the version at 0.\<close>

definition config_version :: "control_store \<Rightarrow> string \<Rightarrow> int" where
  "config_version s i = (case gget (cs_Configs s) i of None \<Rightarrow> 0 | Some r \<Rightarrow> cr_Version r)"

definition putConfig :: "string \<Rightarrow> int \<Rightarrow> string \<Rightarrow> string \<Rightarrow> instant \<Rightarrow> control_store \<Rightarrow> control_store \<times> int res" where
  "putConfig i from_v iy py now s =
     (let version = config_version s i in
      if from_v \<ge> 0 \<and> version \<noteq> from_v then (s, Inl ErrConfigChanged)
      else (s\<lparr>cs_Configs := gput i \<lparr>cr_Version = version + 1, cr_Inventory = iy, cr_Policy = py, cr_UpdatedAt = FormatTime now\<rparr> (cs_Configs s)\<rparr>,
            Inr (version + 1)))"

definition PutConfig :: "string \<Rightarrow> string \<Rightarrow> string \<Rightarrow> instant \<Rightarrow> control_store \<Rightarrow> control_store \<times> int res" where
  "PutConfig i iy py now s = putConfig i (- 1) iy py now s"

definition store_Config :: "control_store \<Rightarrow> string \<Rightarrow> DeviceConfig res" where
  "store_Config s i = (case gget (cs_Configs s) i of
     None \<Rightarrow> Inl ErrNotFound
   | Some r \<Rightarrow> Inr \<lparr>dc_DeviceID = i, dc_Version = cr_Version r, dc_Inventory = cr_Inventory r, dc_Policy = cr_Policy r,
       dc_UpdatedAt = ParseTime (cr_UpdatedAt r)\<rparr>)"

definition identityExists :: "control_store \<Rightarrow> string \<Rightarrow> bool" where
  "identityExists s name \<longleftrightarrow> (case store_Identity s name of Inr _ \<Rightarrow> True | Inl _ \<Rightarrow> False)"

definition pushConfig :: "(string \<Rightarrow> string \<Rightarrow> (string \<Rightarrow> bool) \<Rightarrow> error option) \<Rightarrow> string \<Rightarrow> int \<Rightarrow> string \<Rightarrow> string \<Rightarrow> instant \<Rightarrow>
    control_store \<Rightarrow> control_store \<times> int res" where
  "pushConfig validManaged i from_v iy py now s = (case store_Device s i of
     Inl e \<Rightarrow> (s, Inl (if e = ErrNotFound then Errorf ''unknown device'' [i] else e))
   | Inr _ \<Rightarrow> (case validManaged iy py (identityExists s) of
       Some e \<Rightarrow> (s, Inl e)
     | None \<Rightarrow> putConfig i from_v iy py now s))"

section \<open>Enrolment tokens\<close>

definition CreateEnrollToken :: "(string \<Rightarrow> web_url option) \<Rightarrow> (web_url \<Rightarrow> string) \<Rightarrow> (string \<Rightarrow> string) \<Rightarrow> string \<Rightarrow> string option \<Rightarrow> string \<Rightarrow>
    string \<Rightarrow> string \<Rightarrow> nat \<Rightarrow> instant \<Rightarrow> control_store \<Rightarrow> control_store \<times> EnrollToken res" where
  "CreateEnrollToken parse show_url H random_id random name publicURL fingerprint ttl now s =
     (case HTTPSBaseURL parse show_url publicURL of
        Inl e \<Rightarrow> (s, Inl e)
      | Inr base \<Rightarrow> (case random of
          None \<Rightarrow> (s, Inl (Errorf ''random'' []))
        | Some secret \<Rightarrow>
            let token = \<lparr>et_ID = ''et_'' @ hex_string random_id, et_Secret = b64_encode True secret, et_Fingerprint = fingerprint, et_ServerURL = base\<rparr> in
            case ParseEnrollToken parse show_url (token_String token) of
              Inl e \<Rightarrow> (s, Inl e)
            | Inr _ \<Rightarrow>
                if ghas (cs_Tokens s) (et_ID token) then (s, Inl ErrUnique)
                else (s\<lparr>cs_Tokens := gput (et_ID token) \<lparr>tr_Name = name, tr_Secret = H (et_Secret token), tr_URL = base,
                        tr_ExpiresAt = FormatTime (now + ttl), tr_UsedAt = []\<rparr> (cs_Tokens s)\<rparr>, Inr token)))"

definition RedeemEnrollToken :: "(string \<Rightarrow> string) \<Rightarrow> string \<Rightarrow> string \<Rightarrow> string \<Rightarrow> string \<Rightarrow> instant \<Rightarrow> string \<Rightarrow> control_store \<Rightarrow>
    control_store \<times> Device res" where
  "RedeemEnrollToken H i secret base pub now random s = (case DecodePublicKey pub of
     Inl e \<Rightarrow> (s, Inl e)
   | Inr _ \<Rightarrow> (case gget (cs_Tokens s) i of
       None \<Rightarrow> (s, Inl ErrTokenInvalid)
     | Some t \<Rightarrow>
         if tr_UsedAt t \<noteq> [] \<or> ParseTime (tr_ExpiresAt t) \<le> int now \<or> tr_URL t \<noteq> base \<or> tr_Secret t \<noteq> H secret
         then (s, Inl ErrTokenInvalid)
         else let d = ''dev_'' @ hex_string random in
           if ghas (cs_Devices s) d then (s, Inl ErrUnique)
           else (s\<lparr>cs_Tokens := gput i (t\<lparr>tr_UsedAt := FormatTime now\<rparr>) (cs_Tokens s),
                   cs_Devices := gput d \<lparr>dr_Name = tr_Name t, dr_PublicKey = pub, dr_Status = DeviceActive,
                     dr_CreatedAt = FormatTime now, dr_RevokedAt = []\<rparr> (cs_Devices s)\<rparr>,
                 Inr \<lparr>dv_ID = d, dv_Name = tr_Name t, dv_PublicKey = pub, dv_Status = DeviceActive, dv_CreatedAt = int now, dv_RevokedAt = zero_time\<rparr>)))"

section \<open>Replay protection\<close>

text \<open>
  A refusal rolls the transaction back; only the time of the next pruning stays, because it is not in the
  database.
\<close>

definition consumeNonce :: "string \<Rightarrow> string \<Rightarrow> int \<Rightarrow> instant \<Rightarrow> control_store \<Rightarrow> control_store \<times> error option" where
  "consumeNonce dev nonce expires clock s = (case gget (cs_Devices s) dev of
     None \<Rightarrow> (s, Some ErrNoRows)
   | Some r \<Rightarrow>
       if dr_Status r \<noteq> DeviceActive then (s, Some ErrDeviceRevoked)
       else let now = int (unix clock) in
         if expires \<le> now then (s, Some ErrRequestTime)
         else let prune = now \<ge> cs_NextPrune s;
                  nonces = (if prune then filter (\<lambda>(_, e). \<not> e \<le> now) (cs_Nonces s) else cs_Nonces s);
                  s' = (if prune then s\<lparr>cs_NextPrune := now + 60\<rparr> else s)
              in if map_of nonces (dev, nonce) \<noteq> None then (s', Some ErrRequestReplayed)
                 else (s'\<lparr>cs_Nonces := ((dev, nonce), expires) # nonces\<rparr>, None))"

section \<open>Handlers\<close>

definition CodeBadRequest :: string where "CodeBadRequest = ''bad_request''"
definition CodeUnauthenticated :: string where "CodeUnauthenticated = ''unauthenticated''"
definition CodeClockSkew :: string where "CodeClockSkew = ''clock_skew''"
definition CodeDeviceRevoked :: string where "CodeDeviceRevoked = ''device_revoked''"
definition CodeTokenInvalid :: string where "CodeTokenInvalid = ''token_invalid''"
definition Code_Internal :: string where "Code_Internal = ''internal''"
definition PathEnroll :: string where "PathEnroll = ''/enroll''"

definition maxRequestBytes :: nat where "maxRequestBytes = 65536"

text \<open>What a deployment of the control plane has: its libraries, and the base of its public URL.\<close>

record deployment =
  dp_sha :: "string \<Rightarrow> string"
  dp_H :: "string \<Rightarrow> string"
  dp_verify :: "string \<Rightarrow> string \<Rightarrow> string \<Rightarrow> bool"
  dp_parse :: "string \<Rightarrow> web_url option"
  dp_show :: "web_url \<Rightarrow> string"
  dp_managed :: "string \<Rightarrow> string \<Rightarrow> (string \<Rightarrow> bool) \<Rightarrow> error option"
  dp_Base :: string

text \<open>An answer: a refusal with its status and code, an enrolled device, or a request handed to its route.\<close>

datatype ctl_reply = Refused nat string | EnrolledAs string | Served Device string

definition canonical_target :: "string \<Rightarrow> bool \<Rightarrow> string \<Rightarrow> string \<Rightarrow> bool" where
  "canonical_target rawQuery forceQuery escaped path \<longleftrightarrow>
     \<not> (rawQuery \<noteq> [] \<or> forceQuery \<or> escaped \<noteq> path \<or> str_contains path ''//'' \<or> path_Clean path \<noteq> path)"

text \<open>A body as its reader gives it, \<open>None\<close> where reading fails.\<close>

definition requestBytesLimit :: "string option \<Rightarrow> nat \<Rightarrow> string res" where
  "requestBytesLimit data limit = (case data of
     None \<Rightarrow> Inl (Errorf ''read body'' [])
   | Some b \<Rightarrow> if length b > limit then Inl (Errorf ''request body too large'' []) else Inr b)"

text \<open>\<open>DecodeBody\<close>: one value, with no member that the structure does not have.\<close>

definition DecodeBody :: "string list \<Rightarrow> ((string \<times> json) list \<Rightarrow> 'a option) \<Rightarrow> string \<Rightarrow> 'a option" where
  "DecodeBody names read data = Option.bind (json_text data) (\<lambda>v. Option.bind (struct_members v) (\<lambda>ms.
     if list_all (\<lambda>(k, _). list_ex (\<lambda>n. matches_key n k) names) ms then read ms else None))"

record EnrollRequest =
  er_TokenID :: string
  er_TokenSecret :: string
  er_PublicKey :: string

definition read_enroll :: "(string \<times> json) list \<Rightarrow> EnrollRequest option" where
  "read_enroll ms = Option.bind (gets ''token_id'' ms) (\<lambda>a. Option.bind (gets ''token_secret'' ms) (\<lambda>b. Option.bind (gets ''public_key'' ms) (\<lambda>c.
     Some \<lparr>er_TokenID = a, er_TokenSecret = b, er_PublicKey = c\<rparr>)))"

definition proof_error :: "error \<Rightarrow> ctl_reply" where
  "proof_error e = (if e = ErrRequestTime then Refused 401 CodeClockSkew else Refused 401 CodeUnauthenticated)"

definition handleEnroll :: "deployment \<Rightarrow> http_request \<Rightarrow> string option \<Rightarrow> instant \<Rightarrow> instant \<Rightarrow> string \<Rightarrow> control_store \<Rightarrow> control_store \<times> ctl_reply" where
  "handleEnroll D req input now clock random s = (case requestBytesLimit input maxRequestBytes of
     Inl _ \<Rightarrow> (s, Refused 400 CodeBadRequest)
   | Inr data \<Rightarrow> (case DecodeBody [''token_id'', ''token_secret'', ''public_key''] read_enroll data of
       None \<Rightarrow> (s, Refused 400 CodeBadRequest)
     | Some r \<Rightarrow> (case DecodePublicKey (er_PublicKey r) of
         Inl _ \<Rightarrow> (s, Refused 400 CodeBadRequest)
       | Inr key \<Rightarrow> (case VerifyHTTPRequest (dp_sha D) (dp_verify D) req data (dp_Base D @ PathEnroll) (er_TokenID r) EnrollSignatureTag key now of
           Inl e \<Rightarrow> (s, proof_error e)
         | Inr _ \<Rightarrow> (case RedeemEnrollToken (dp_H D) (er_TokenID r) (er_TokenSecret r) (dp_Base D) (er_PublicKey r) clock random s of
             (s', Inl e) \<Rightarrow> (s', if e = ErrTokenInvalid then Refused 403 CodeTokenInvalid else Refused 500 Code_Internal)
           | (s', Inr d) \<Rightarrow> (s', EnrolledAs (dv_ID d)))))))"

text \<open>
  The device handler up to the replay check, for a route at \<open>path\<close> that admits bodies of up to \<open>maxBody\<close>
  bytes; \<open>declared\<close> is the content length. What it passes on is a flight: the request, now authenticated,
  on its way to the replay check.
\<close>

record flight =
  fl_ID :: string
  fl_Device :: Device
  fl_Request :: http_request
  fl_Target :: string
  fl_Body :: string
  fl_Proof :: RequestProof

definition device_lookup :: "control_store \<Rightarrow> string \<Rightarrow> ctl_reply + Device \<times> string" where
  "device_lookup s i = (case store_Device s i of
     Inl e \<Rightarrow> Inl (if e = ErrNotFound then Refused 401 CodeUnauthenticated else Refused 500 Code_Internal)
   | Inr d \<Rightarrow> if dv_PublicKey d = [] then Inl (Refused 401 CodeUnauthenticated)
       else (case DecodePublicKey (dv_PublicKey d) of Inl _ \<Rightarrow> Inl (Refused 500 Code_Internal) | Inr key \<Rightarrow> Inr (d, key)))"

definition device_authenticate :: "deployment \<Rightarrow> string \<Rightarrow> int \<Rightarrow> http_request \<Rightarrow> int \<Rightarrow> string option \<Rightarrow> instant \<Rightarrow> control_store \<Rightarrow> ctl_reply + flight" where
  "device_authenticate D path maxBody req declared input now s =
     (let limit = (if maxBody \<le> 0 then maxRequestBytes else nat maxBody); large = limit > maxRequestBytes; i = RequestKeyID req; target = dp_Base D @ path;
          flight = (\<lambda>d data p. \<lparr>fl_ID = i, fl_Device = d, fl_Request = req, fl_Target = target, fl_Body = data, fl_Proof = p\<rparr>)
      in if large then
           (if declared > int limit then Inl (Refused 413 CodeBadRequest)
            else rbind (device_lookup s i) (\<lambda>(d, key).
              case VerifyHTTPRequestHeaders (dp_verify D) req target i DeviceSignatureTag key now of
                Inl e \<Rightarrow> Inl (proof_error e)
              | Inr p \<Rightarrow> (case requestBytesLimit input limit of
                  Inl _ \<Rightarrow> Inl (Refused 400 CodeBadRequest)
                | Inr data \<Rightarrow> if \<not> ContentDigestMatches (dp_sha D) req data then Inl (proof_error (Errorf ''content digest mismatch'' []))
                    else Inr (flight d data p))))
         else (case requestBytesLimit input limit of
             Inl _ \<Rightarrow> Inl (Refused 400 CodeBadRequest)
           | Inr data \<Rightarrow> rbind (device_lookup s i) (\<lambda>(d, key).
               case VerifyHTTPRequest (dp_sha D) (dp_verify D) req data target i DeviceSignatureTag key now of
                 Inl e \<Rightarrow> Inl (proof_error e)
               | Inr p \<Rightarrow> Inr (flight d data p))))"

text \<open>The rest of it: \<open>revoked\<close> is what the route does for a revoked device, an error or not.\<close>

definition device_admit :: "(string \<Rightarrow> string \<Rightarrow> error option) option \<Rightarrow> flight \<Rightarrow> instant \<Rightarrow> control_store \<Rightarrow> control_store \<times> ctl_reply" where
  "device_admit revoked f clock s = (case consumeNonce (fl_ID f) (rp_Nonce (fl_Proof f)) (rp_Expires (fl_Proof f)) clock s of
     (s', None) \<Rightarrow> (s', Served (fl_Device f) (fl_Body f))
   | (s', Some e) \<Rightarrow> (s',
       if e = ErrDeviceRevoked then
         (case revoked of
            Some g \<Rightarrow> (case g (fl_ID f) (fl_Body f) of Some _ \<Rightarrow> Refused 500 Code_Internal | None \<Rightarrow> Refused 403 CodeDeviceRevoked)
          | None \<Rightarrow> Refused 403 CodeDeviceRevoked)
       else if e = ErrRequestReplayed then Refused 403 CodeUnauthenticated
       else if e = ErrRequestTime then proof_error e
       else Refused 500 Code_Internal))"

end
