(* ===== verification/OneShot.thy ===== *)
theory OneShot
  imports Prelude
begin

text \<open>
  What a credential that works once promises, as the stores of the control plane provide it: whatever is
  admitted was not spent before and is spent then, and nothing spent is ever unspent. It follows that the
  log of what was admitted repeats nothing.
\<close>

locale one_shot =
  fixes step :: "'s \<Rightarrow> 's \<Rightarrow> bool" and log :: "'s \<Rightarrow> 'k list" and spent :: "'s \<Rightarrow> 'k \<Rightarrow> bool"
  assumes admits: "step s s' \<Longrightarrow> log s' = log s \<or> (\<exists>k. log s' = k # log s \<and> \<not> spent s k \<and> spent s' k)"
    and stays: "step s s' \<Longrightarrow> spent s k \<Longrightarrow> spent s' k"
begin

definition all_spent :: "'s \<Rightarrow> bool" where
  "all_spent s \<longleftrightarrow> distinct (log s) \<and> (\<forall>k \<in> set (log s). spent s k)"

lemma all_spent_step: "all_spent s \<Longrightarrow> step s s' \<Longrightarrow> all_spent s'"
proof -
  assume s: "all_spent s" "step s s'"
  from admits [OF s(2)] show "all_spent s'"
  proof
    assume "log s' = log s"
    then show ?thesis using s stays unfolding all_spent_def by metis
  next
    assume "\<exists>k. log s' = k # log s \<and> \<not> spent s k \<and> spent s' k"
    then obtain k where "log s' = k # log s" "\<not> spent s k" "spent s' k" by blast
    then show ?thesis using s stays [OF s(2)] unfolding all_spent_def by auto
  qed
qed

lemma all_spent_steps: "step\<^sup>*\<^sup>* s s' \<Longrightarrow> all_spent s \<Longrightarrow> all_spent s'"
  by (induction rule: rtranclp_induct) (use all_spent_step in blast)+

lemma all_spent_Nil: "log s = [] \<Longrightarrow> all_spent s"
  by (simp add: all_spent_def)

lemma once: "log s = [] \<Longrightarrow> step\<^sup>*\<^sup>* s s' \<Longrightarrow> distinct (log s')"
  using all_spent_steps all_spent_Nil unfolding all_spent_def by blast

lemma spent_steps: "step\<^sup>*\<^sup>* s s' \<Longrightarrow> spent s k \<Longrightarrow> spent s' k"
  by (induction rule: rtranclp_induct) (use stays in blast)+

lemma never_again: "step\<^sup>*\<^sup>* s s' \<Longrightarrow> spent s k \<Longrightarrow> k \<notin> set (log s) \<Longrightarrow> k \<notin> set (log s')"
proof (induction rule: rtranclp_induct)
  case (step t u)
  then have "spent t k" "k \<notin> set (log t)" using spent_steps by blast+
  then show ?case using admits [OF step(2)] by auto
qed simp

end

end
