(* ===== verification/Standing.thy ===== *)
theory Standing
  imports ControlStore AuditLog OneShot
begin

text \<open>
  The standing of a gateway's devices: \<open>internal/gateway/activation.go\<close>, \<open>revocation.go\<close>,
  \<open>security_audit.go\<close> and \<open>deviceStanding\<close> of \<open>standing.go\<close>. The database is the control plane's with the
  tables of activations, revocations, OAuth clients and grants, and pending audit facts beside it; the audit log is that of \<open>AuditLog\<close>.
  A transaction is one step; \<open>ActivateDevice\<close>, which writes the audit log between reading the window and
  replacing it, is two. Whether a record can be written to the audit file is the argument \<open>io\<close>.
\<close>

section \<open>Tables\<close>

record activation_row =
  aw_Until :: string
  aw_SetBy :: string
  aw_Note :: string
  aw_SetAt :: string
  aw_Recorded :: bool
  aw_ClosedBy :: string

record revocation_row =
  rw_At :: string
  rw_By :: string
  rw_Audited :: bool

record event_row =
  ev_Record :: auditRecord
  ev_Audited :: bool

record grant_row =
  gr_ClientID :: string
  gr_DeviceID :: string
  gr_Scope :: string
  gr_CreatedAt :: string
  gr_CreatedBy :: string
  gr_RevokedAt :: string
  gr_RevokedBy :: string

text \<open>The events stand in the order of their sequence numbers.\<close>

record gateway_db =
  gd_Control :: control_store
  gd_Activations :: "activation_row gomap"
  gd_Revocations :: "revocation_row gomap"
  gd_Clients :: "string gomap"
  gd_Grants :: "grant_row gomap"
  gd_Events :: "event_row gomap"
  gd_Log :: log

record Activation =
  ac_DeviceID :: string
  ac_Until :: int
  ac_SetBy :: string
  ac_Note :: string
  ac_SetAt :: int
  ac_ClosedBy :: string

definition EventDeviceActivated :: string where "EventDeviceActivated = ''device_activated''"
definition EventDeviceDeactivated :: string where "EventDeviceDeactivated = ''device_deactivated''"
definition EventDeviceActivationEnded :: string where "EventDeviceActivationEnded = ''device_activation_expired''"
definition EventDeviceRevoked :: string where "EventDeviceRevoked = ''device_revoked''"

definition blank_record :: auditRecord where
  "blank_record = \<lparr>a_Seq = 0, a_TS = [], a_ReqID = [], a_SessionID = [], a_SessionLabel = [], a_Event = [], a_Host = [], a_Cmd = [],
     a_PolicyAction = [], a_PolicyRule = [], a_Error = [], a_ExitCode = None, a_OutputSHA256 = [], a_OutputTruncated = False,
     a_Redactions = 0, a_DurationMS = 0, a_PrevHash = [], a_Hash = [], a_ApprovalID = [], a_ApprovalScope = [], a_ApprovalMatcher = [],
     a_ApprovalChannel = [], a_StdinSHA256 = [], a_StdinBytes = 0, a_PlanID = [], a_ExecutionID = [], a_StepID = [], a_ReviewSHA256 = [],
     a_RemoteSignID = [], a_DeviceID = [], a_Operator = [], a_ActiveUntil = [], a_Note = [], a_TokenID = [], a_GrantID = [], a_ClientID = [],
     a_EventID = []\<rparr>"

section \<open>Pending audit facts\<close>

definition pendingAudit :: "string \<Rightarrow> error option \<Rightarrow> error option" where
  "pendingAudit action e = map_option (Wrapped action) e"

text \<open>\<open>securityEventID\<close> is SHA-256 in hexadecimal, the argument \<open>H\<close>.\<close>

definition enqueueSecurityAudit :: "(string \<Rightarrow> string) \<Rightarrow> string \<Rightarrow> auditRecord \<Rightarrow> gateway_db \<Rightarrow> gateway_db" where
  "enqueueSecurityAudit H key r db =
     (let i = H key in if ghas (gd_Events db) i then db
      else db\<lparr>gd_Events := gput i \<lparr>ev_Record = read_back (r\<lparr>a_EventID := i\<rparr>), ev_Audited = False\<rparr> (gd_Events db)\<rparr>)"

definition same_fact :: "auditRecord \<Rightarrow> auditRecord \<Rightarrow> bool" where
  "same_fact r old \<longleftrightarrow> a_EventID r \<noteq> [] \<and> a_EventID old = a_EventID r \<or>
     a_EventID r \<noteq> [] \<and> a_EventID old = [] \<and> a_Event r = EventDeviceActivationEnded \<and> a_Event old = a_Event r \<and>
     a_DeviceID old = a_DeviceID r \<and> a_ActiveUntil old = a_ActiveUntil r"

definition appendSecurityRecord :: "(string \<Rightarrow> string) \<Rightarrow> instant \<Rightarrow> (auditRecord \<Rightarrow> bool) \<Rightarrow> auditRecord \<Rightarrow> gateway_db \<Rightarrow> gateway_db \<times> error option" where
  "appendSecurityRecord H now io r db =
     (if \<not> io r then (db, Some (Errorf ''write audit'' []))
      else case AppendUnless H now (gd_Log db) r (Some (same_fact r)) of
        (l, Inl e) \<Rightarrow> (db\<lparr>gd_Log := l\<rparr>, Some e)
      | (l, Inr _) \<Rightarrow> (db\<lparr>gd_Log := l\<rparr>, None))"

definition publishSecurityRecord :: "(string \<Rightarrow> string) \<Rightarrow> instant \<Rightarrow> (auditRecord \<Rightarrow> bool) \<Rightarrow> auditRecord \<Rightarrow> gateway_db \<Rightarrow> gateway_db \<times> error option" where
  "publishSecurityRecord H now io r db = (case appendSecurityRecord H now io r db of
     (db', Some e) \<Rightarrow> (db', Some e)
   | (db', None) \<Rightarrow> (case gget (gd_Events db') (a_EventID r) of
       None \<Rightarrow> (db', None)
     | Some ev \<Rightarrow> (db'\<lparr>gd_Events := gput (a_EventID r) (ev\<lparr>ev_Audited := True\<rparr>) (gd_Events db')\<rparr>, None)))"

definition publishSecurityAudit :: "(string \<Rightarrow> string) \<Rightarrow> instant \<Rightarrow> (auditRecord \<Rightarrow> bool) \<Rightarrow> string \<Rightarrow> gateway_db \<Rightarrow> gateway_db \<times> error option" where
  "publishSecurityAudit H now io key db = (case gget (gd_Events db) (H key) of
     None \<Rightarrow> (db, None)
   | Some ev \<Rightarrow> if ev_Audited ev then (db, None) else publishSecurityRecord H now io (ev_Record ev) db)"

text \<open>Every pending fact is tried; the first failure stands for their joined errors.\<close>

fun publish_all :: "(string \<Rightarrow> string) \<Rightarrow> instant \<Rightarrow> (auditRecord \<Rightarrow> bool) \<Rightarrow> auditRecord list \<Rightarrow> gateway_db \<Rightarrow> gateway_db \<times> error option" where
  "publish_all H now io [] db = (db, None)"
| "publish_all H now io (r # rs) db =
     (let (db', e) = publishSecurityRecord H now io r db; (db'', e') = publish_all H now io rs db'
      in (db'', if e = None then e' else e))"

definition RecordPendingAudits :: "(string \<Rightarrow> string) \<Rightarrow> instant \<Rightarrow> (auditRecord \<Rightarrow> bool) \<Rightarrow> gateway_db \<Rightarrow> gateway_db \<times> error option" where
  "RecordPendingAudits H now io db =
     publish_all H now io (map (ev_Record \<circ> snd) (filter (\<lambda>(_, ev). \<not> ev_Audited ev) (gd_Events db))) db"

section \<open>Activation windows\<close>

definition MinActivation :: nat where "MinActivation = 60 * second"
definition MaxActivation :: nat where "MaxActivation = 86400 * second"
definition ErrActivationDuration :: error where "ErrActivationDuration = Sentinel ''ErrActivationDuration''"

definition Active :: "Activation \<Rightarrow> instant \<Rightarrow> bool" where
  "Active a now \<longleftrightarrow> ac_Until a \<noteq> zero_time \<and> int now < ac_Until a"

text \<open>The window and whether its end is recorded.\<close>

definition loadActivation :: "gateway_db \<Rightarrow> string \<Rightarrow> Activation \<times> bool" where
  "loadActivation db d = (case gget (gd_Activations db) d of
     None \<Rightarrow> (\<lparr>ac_DeviceID = d, ac_Until = zero_time, ac_SetBy = [], ac_Note = [], ac_SetAt = zero_time, ac_ClosedBy = []\<rparr>, True)
   | Some r \<Rightarrow> (\<lparr>ac_DeviceID = d, ac_Until = ParseTime (aw_Until r), ac_SetBy = aw_SetBy r, ac_Note = aw_Note r,
       ac_SetAt = ParseTime (aw_SetAt r), ac_ClosedBy = aw_ClosedBy r\<rparr>, aw_Recorded r))"

abbreviation stored :: "int \<Rightarrow> string" where "stored t \<equiv> FormatTime (nat t)"

definition activationEndKey :: "Activation \<Rightarrow> string" where
  "activationEndKey a = ''expiry/'' @ ac_DeviceID a @ ''/'' @ stored (ac_SetAt a) @ ''/'' @ stored (ac_Until a)"

definition deactivationKey :: "Activation \<Rightarrow> int \<Rightarrow> string" where
  "deactivationKey a closedAt = ''deactivation/'' @ ac_DeviceID a @ ''/'' @ stored (ac_SetAt a) @ ''/'' @ stored closedAt"

definition collectActivationEnd :: "(string \<Rightarrow> string) \<Rightarrow> Activation \<Rightarrow> instant \<Rightarrow> gateway_db \<Rightarrow> gateway_db" where
  "collectActivationEnd H a now db =
     (let db' = enqueueSecurityAudit H (activationEndKey a) (blank_record\<lparr>a_TS := format_time now, a_Event := EventDeviceActivationEnded,
            a_DeviceID := ac_DeviceID a, a_Operator := ac_SetBy a, a_ActiveUntil := format_time (nat (ac_Until a)), a_Note := ac_Note a\<rparr>) db
      in case gget (gd_Activations db') (ac_DeviceID a) of
        None \<Rightarrow> db'
      | Some r \<Rightarrow> if aw_Until r = stored (ac_Until a) \<and> aw_SetAt r = stored (ac_SetAt a)
          then db'\<lparr>gd_Activations := gput (ac_DeviceID a) (r\<lparr>aw_Recorded := True\<rparr>) (gd_Activations db')\<rparr> else db')"

definition recordActivationEnd :: "(string \<Rightarrow> string) \<Rightarrow> (auditRecord \<Rightarrow> bool) \<Rightarrow> Activation \<Rightarrow> instant \<Rightarrow> gateway_db \<Rightarrow> gateway_db \<times> error option" where
  "recordActivationEnd H io a now db =
     (let (db', e) = publishSecurityAudit H now io (activationEndKey a) (collectActivationEnd H a now db)
      in (db', pendingAudit ''the activation ended'' e))"

record pending_activation =
  pa_Previous :: Activation
  pa_Expired :: bool
  pa_Window :: Activation
  pa_Now :: instant

definition ActivateDevice_begin :: "(string \<Rightarrow> string) \<Rightarrow> (auditRecord \<Rightarrow> bool) \<Rightarrow> string \<Rightarrow> int \<Rightarrow> string \<Rightarrow> string \<Rightarrow> instant \<Rightarrow> gateway_db \<Rightarrow>
    gateway_db \<times> pending_activation res" where
  "ActivateDevice_begin H io d window operator note now db =
     (if window < int MinActivation \<or> window > int MaxActivation then (db, Inl ErrActivationDuration)
      else case store_Device (gd_Control db) d of
        Inl e \<Rightarrow> (db, Inl e)
      | Inr dev \<Rightarrow>
          if dv_Status dev = DeviceRevoked then (db, Inl ErrDeviceRevoked)
          else let previous = fst (loadActivation db d);
                   expired = (ac_Until previous \<noteq> zero_time \<and> \<not> Active previous now \<and> ac_ClosedBy previous = []);
                   (db1, e1) = (if expired then recordActivationEnd H io previous now db else (db, None));
                   until = int now + window
               in case e1 of
                 Some e \<Rightarrow> (db1, Inl (Wrapped ''record the end of the previous window'' e))
               | None \<Rightarrow> (case appendSecurityRecord H now io (blank_record\<lparr>a_TS := format_time now, a_Event := EventDeviceActivated, a_DeviceID := d,
                     a_Operator := operator, a_ActiveUntil := format_time (nat until), a_Note := note\<rparr>) db1 of
                   (db2, Some e) \<Rightarrow> (db2, Inl (Wrapped ''audit the activation'' e))
                 | (db2, None) \<Rightarrow> (db2, Inr \<lparr>pa_Previous = previous, pa_Expired = expired,
                     pa_Window = \<lparr>ac_DeviceID = d, ac_Until = until, ac_SetBy = operator, ac_Note = note, ac_SetAt = int now, ac_ClosedBy = []\<rparr>,
                     pa_Now = now\<rparr>)))"

definition ActivateDevice_commit :: "(string \<Rightarrow> string) \<Rightarrow> pending_activation \<Rightarrow> gateway_db \<Rightarrow> gateway_db \<times> Activation res" where
  "ActivateDevice_commit H p db =
     (let a = pa_Window p; d = ac_DeviceID a in
      case gget (cs_Devices (gd_Control db)) d of
        None \<Rightarrow> (db, Inl ErrNoRows)
      | Some row \<Rightarrow>
          if dr_Status row = DeviceRevoked then (db, Inl ErrDeviceRevoked)
          else if fst (loadActivation db d) \<noteq> pa_Previous p then (db, Inl (Errorf ''activation changed'' []))
          else let db1 = (if pa_Expired p then collectActivationEnd H (pa_Previous p) (pa_Now p) db else db)
               in (db1\<lparr>gd_Activations := gput d \<lparr>aw_Until = stored (ac_Until a), aw_SetBy = ac_SetBy a, aw_Note = ac_Note a,
                         aw_SetAt = FormatTime (pa_Now p), aw_Recorded = False, aw_ClosedBy = []\<rparr> (gd_Activations db1)\<rparr>, Inr a))"

definition DeactivateDevice :: "(string \<Rightarrow> string) \<Rightarrow> (auditRecord \<Rightarrow> bool) \<Rightarrow> string \<Rightarrow> string \<Rightarrow> instant \<Rightarrow> gateway_db \<Rightarrow> gateway_db \<times> bool \<times> error option" where
  "DeactivateDevice H io d operator now db =
     (if \<not> ghas (cs_Devices (gd_Control db)) d then (db, False, Some ErrNotFound)
      else let a = fst (loadActivation db d) in
        if \<not> Active a now then
          (if ac_ClosedBy a \<noteq> [] then
             (let (db', e) = publishSecurityAudit H now io (deactivationKey a (ac_Until a)) db in (db', False, pendingAudit ''the device is inactive'' e))
           else (db, False, None))
        else let key = deactivationKey a (int now);
                 db1 = (case gget (gd_Activations db) d of
                   None \<Rightarrow> db
                 | Some r \<Rightarrow> db\<lparr>gd_Activations := gput d (r\<lparr>aw_Until := FormatTime now, aw_Recorded := True, aw_ClosedBy := operator\<rparr>) (gd_Activations db)\<rparr>);
                 db2 = enqueueSecurityAudit H key (blank_record\<lparr>a_TS := format_time now, a_Event := EventDeviceDeactivated, a_DeviceID := d,
                   a_Operator := operator, a_ActiveUntil := format_time (nat (ac_Until a))\<rparr>) db1;
                 (db3, e) = publishSecurityAudit H now io key db2
             in (db3, True, pendingAudit ''the device is inactive'' e))"

definition deviceActive :: "gateway_db \<Rightarrow> string \<Rightarrow> instant \<Rightarrow> Activation \<times> bool" where
  "deviceActive db d now = (let a = fst (loadActivation db d) in (a, Active a now))"

definition checkActivation :: "(string \<Rightarrow> string) \<Rightarrow> string \<Rightarrow> instant \<Rightarrow> gateway_db \<Rightarrow> gateway_db \<times> Activation \<times> bool" where
  "checkActivation H d now db =
     (let (a, collected) = loadActivation db d; active = Active a now
      in (if \<not> collected \<and> \<not> active \<and> ac_Until a \<noteq> zero_time \<and> ac_ClosedBy a = [] then collectActivationEnd H a now db else db, a, active))"

fun record_ends :: "(string \<Rightarrow> string) \<Rightarrow> (auditRecord \<Rightarrow> bool) \<Rightarrow> instant \<Rightarrow> string list \<Rightarrow> gateway_db \<Rightarrow> gateway_db \<times> error option" where
  "record_ends H io now [] db = (db, None)"
| "record_ends H io now (d # ds) db =
     (let (a, active) = deviceActive db d now;
          (db', e) = (if \<not> active \<and> ac_Until a \<noteq> zero_time \<and> ac_ClosedBy a = [] then recordActivationEnd H io a now db else (db, None));
          (db'', e') = record_ends H io now ds db'
      in (db'', if e = None then e' else map_option (Wrapped ''device'') e))"

definition RecordEndedActivations :: "(string \<Rightarrow> string) \<Rightarrow> (auditRecord \<Rightarrow> bool) \<Rightarrow> instant \<Rightarrow> gateway_db \<Rightarrow> gateway_db \<times> error option" where
  "RecordEndedActivations H io now db =
     (let (db1, e1) = record_ends H io now (map fst (filter (\<lambda>(_, r). \<not> aw_Recorded r) (gd_Activations db))) db;
          (db2, e2) = RecordPendingAudits H now io db1
      in (db2, if e1 = None then e2 else e1))"

section \<open>Revocation\<close>

definition revocation_record :: "string \<Rightarrow> revocation_row \<Rightarrow> auditRecord" where
  "revocation_record d r = blank_record\<lparr>a_TS := rw_At r, a_Event := EventDeviceRevoked, a_DeviceID := d, a_Operator := rw_By r\<rparr>"

definition recordDeviceRevocation :: "(string \<Rightarrow> string) \<Rightarrow> (auditRecord \<Rightarrow> bool) \<Rightarrow> instant \<Rightarrow> string \<Rightarrow> gateway_db \<Rightarrow> gateway_db \<times> error option" where
  "recordDeviceRevocation H io now d db = (case gget (gd_Revocations db) d of
     None \<Rightarrow> (db, None)
   | Some r \<Rightarrow>
       if rw_Audited r then (db, None)
       else let rec = revocation_record d r in
         if \<not> io rec then (db, Some (Wrapped ''the device is revoked, but its audit record failed'' (Errorf ''write audit'' [])))
         else case AppendUnless H now (gd_Log db) rec (Some (\<lambda>old. a_Event old = EventDeviceRevoked \<and> a_DeviceID old = d)) of
           (l, Inl e) \<Rightarrow> (db\<lparr>gd_Log := l\<rparr>, Some (Wrapped ''the device is revoked, but its audit record failed'' e))
         | (l, Inr _) \<Rightarrow> (db\<lparr>gd_Log := l, gd_Revocations := gput d (r\<lparr>rw_Audited := True\<rparr>) (gd_Revocations db)\<rparr>, None))"

definition gateway_RevokeDevice :: "(string \<Rightarrow> string) \<Rightarrow> (auditRecord \<Rightarrow> bool) \<Rightarrow> string \<Rightarrow> string \<Rightarrow> instant \<Rightarrow> gateway_db \<Rightarrow> gateway_db \<times> error option" where
  "gateway_RevokeDevice H io d operator now db = (case gget (cs_Devices (gd_Control db)) d of
     None \<Rightarrow> (db, Some ErrNotFound)
   | Some row \<Rightarrow>
       if dr_Status row \<noteq> DeviceRevoked then
         (if ghas (gd_Revocations db) d then (db, Some ErrUnique)
          else recordDeviceRevocation H io now d (db\<lparr>gd_Control := (gd_Control db)\<lparr>cs_Devices := gput d (row\<lparr>dr_Status := DeviceRevoked,
                   dr_RevokedAt := FormatTime now\<rparr>) (cs_Devices (gd_Control db))\<rparr>,
                 gd_Revocations := gput d \<lparr>rw_At = FormatTime now, rw_By = operator, rw_Audited = False\<rparr> (gd_Revocations db)\<rparr>))
       else recordDeviceRevocation H io now d db)"

fun record_revocations :: "(string \<Rightarrow> string) \<Rightarrow> (auditRecord \<Rightarrow> bool) \<Rightarrow> instant \<Rightarrow> string list \<Rightarrow> gateway_db \<Rightarrow> gateway_db \<times> error option" where
  "record_revocations H io now [] db = (db, None)"
| "record_revocations H io now (d # ds) db = (case recordDeviceRevocation H io now d db of
     (db', Some e) \<Rightarrow> (db', Some e)
   | (db', None) \<Rightarrow> record_revocations H io now ds db')"

definition RecordDeviceRevocations :: "(string \<Rightarrow> string) \<Rightarrow> (auditRecord \<Rightarrow> bool) \<Rightarrow> instant \<Rightarrow> gateway_db \<Rightarrow> gateway_db \<times> error option" where
  "RecordDeviceRevocations H io now db =
     record_revocations H io now (sort (map fst (filter (\<lambda>(_, r). \<not> rw_Audited r) (gd_Revocations db)))) db"

section \<open>Standing\<close>

definition CodeDeviceInactive :: string where "CodeDeviceInactive = ''device_inactive''"

text \<open>Why a device may no longer act: a code and a reason, both empty where it may.\<close>

definition deviceStanding :: "gateway_db \<Rightarrow> string \<Rightarrow> instant \<Rightarrow> string \<times> string" where
  "deviceStanding db d now = (case store_Device (gd_Control db) d of
     Inl _ \<Rightarrow> (CodeDeviceRevoked, ''the device no longer exists'')
   | Inr dev \<Rightarrow>
       if dv_Status dev = DeviceRevoked then (CodeDeviceRevoked, ''the device was revoked'')
       else let (a, active) = deviceActive db d now in
         if active then ([], [])
         else if ac_ClosedBy a \<noteq> [] then (CodeDeviceInactive, ''the device was deactivated'')
         else (CodeDeviceInactive, ''the device's activation ended''))"

end
