(* ===== verification/OAuthGrants.thy ===== *)
theory OAuthGrants
  imports Standing
begin

text \<open>
  The grants of the gateway's OAuth server that a revocation ends: \<open>loadGrant\<close>, \<open>RevokeGrant\<close> and
  \<open>revokeGrant\<close> of \<open>internal/gateway/oauth.go\<close>. The tables of clients and grants are part of the
  gateway's database; of a client only the name is kept. A revocation commits the change and its audit
  facts in one transaction and publishes them after it, as a deactivation does.
\<close>

record oauth_grant =
  gt_ID :: string
  gt_ClientID :: string
  gt_ClientName :: string
  gt_DeviceID :: string
  gt_Scope :: string
  gt_CreatedAt :: int
  gt_CreatedBy :: string
  gt_RevokedAt :: int
  gt_RevokedBy :: string

definition EventOAuthRefreshRefused :: string where "EventOAuthRefreshRefused = ''oauth_refresh_refused''"
definition EventOAuthGrantRevoked :: string where "EventOAuthGrantRevoked = ''oauth_grant_revoked''"

text \<open>A time with all nine digits of its fraction, so that the stored times compare as strings.\<close>

definition oauthTime :: "instant \<Rightarrow> string" where
  "oauthTime t = butlast (format_time t) @ ''.'' @ pad9 (t mod second) @ ''Z''"

definition loadGrant :: "gateway_db \<Rightarrow> string \<Rightarrow> oauth_grant res" where
  "loadGrant db i = (case gget (gd_Grants db) i of
     None \<Rightarrow> Inl ErrNotFound
   | Some r \<Rightarrow> (case gget (gd_Clients db) (gr_ClientID r) of
       None \<Rightarrow> Inl ErrNotFound
     | Some name \<Rightarrow> Inr \<lparr>gt_ID = i, gt_ClientID = gr_ClientID r, gt_ClientName = name, gt_DeviceID = gr_DeviceID r,
         gt_Scope = gr_Scope r, gt_CreatedAt = ParseTime (gr_CreatedAt r), gt_CreatedBy = gr_CreatedBy r,
         gt_RevokedAt = ParseTime (gr_RevokedAt r), gt_RevokedBy = gr_RevokedBy r\<rparr>))"

definition refusalKey :: "string \<Rightarrow> string" where "refusalKey refreshID = ''refresh-replay/'' @ refreshID"
definition grantKey :: "oauth_grant \<Rightarrow> string" where "grantKey g = ''grant-revocation/'' @ gt_ID g"

text \<open>The update: whether a row was changed, one that is not yet revoked.\<close>

definition mark_revoked :: "string \<Rightarrow> string \<Rightarrow> instant \<Rightarrow> gateway_db \<Rightarrow> gateway_db \<times> bool" where
  "mark_revoked i operator now db = (case gget (gd_Grants db) i of
     None \<Rightarrow> (db, False)
   | Some r \<Rightarrow> if gr_RevokedAt r \<noteq> [] then (db, False)
       else (db\<lparr>gd_Grants := gput i (r\<lparr>gr_RevokedAt := oauthTime now, gr_RevokedBy := operator\<rparr>) (gd_Grants db)\<rparr>, True))"

definition revocation_tx :: "(string \<Rightarrow> string) \<Rightarrow> oauth_grant \<Rightarrow> string \<Rightarrow> string \<Rightarrow> instant \<Rightarrow> string \<Rightarrow> gateway_db \<Rightarrow> gateway_db \<times> bool" where
  "revocation_tx H g operator remark now refreshID db =
     (let (db1, n) = mark_revoked (gt_ID g) operator now db;
          db2 = (if refreshID \<noteq> [] then enqueueSecurityAudit H (refusalKey refreshID) (blank_record\<lparr>a_TS := format_time now,
                   a_Event := EventOAuthRefreshRefused, a_DeviceID := gt_DeviceID g, a_GrantID := gt_ID g, a_ClientID := gt_ClientID g,
                   a_Note := remark\<rparr>) db1 else db1);
          db3 = (if n then enqueueSecurityAudit H (grantKey g) (blank_record\<lparr>a_TS := format_time now,
                   a_Event := EventOAuthGrantRevoked, a_DeviceID := gt_DeviceID g, a_GrantID := gt_ID g, a_ClientID := gt_ClientID g,
                   a_Operator := operator, a_Note := remark\<rparr>) db2 else db2)
      in (db3, n))"

text \<open>Both publications are tried; the first failure stands for the joined errors.\<close>

definition revokeGrant :: "(string \<Rightarrow> string) \<Rightarrow> (auditRecord \<Rightarrow> bool) \<Rightarrow> oauth_grant \<Rightarrow> string \<Rightarrow> string \<Rightarrow> instant \<Rightarrow> string \<Rightarrow> gateway_db \<Rightarrow>
    gateway_db \<times> bool \<times> error option" where
  "revokeGrant H io g operator remark now refreshID db =
     (let (db1, n) = revocation_tx H g operator remark now refreshID db;
          (db2, e1) = (if refreshID \<noteq> [] then publishSecurityAudit H now io (refusalKey refreshID) db1 else (db1, None));
          (db3, e2) = publishSecurityAudit H now io (grantKey g) db2
      in (db3, n, pendingAudit ''the grant is revoked'' (if e1 = None then e2 else e1)))"

definition RevokeGrant :: "(string \<Rightarrow> string) \<Rightarrow> (auditRecord \<Rightarrow> bool) \<Rightarrow> string \<Rightarrow> string \<Rightarrow> instant \<Rightarrow> gateway_db \<Rightarrow> gateway_db \<times> bool \<times> error option" where
  "RevokeGrant H io grantID operator now db = (case loadGrant db grantID of
     Inl e \<Rightarrow> (db, False, Some e)
   | Inr g \<Rightarrow> revokeGrant H io g operator [] now [] db)"

section \<open>What a revocation changes\<close>

text \<open>Facts are queued and published beside the grants.\<close>

lemma enqueue_grants [simp]:
  "gd_Grants (enqueueSecurityAudit H key r db) = gd_Grants db" "gd_Clients (enqueueSecurityAudit H key r db) = gd_Clients db"
  by (simp_all add: enqueueSecurityAudit_def Let_def)

lemma enqueue_has: "ghas (gd_Events (enqueueSecurityAudit H key r db)) (H key)"
  "ghas (gd_Events db) i \<Longrightarrow> ghas (gd_Events (enqueueSecurityAudit H key r db)) i"
  by (auto simp: enqueueSecurityAudit_def Let_def ghas_def)

lemma append_only_log: "appendSecurityRecord H now io r db = (db', e) \<Longrightarrow> \<exists>l. db' = db\<lparr>gd_Log := l\<rparr>"
  unfolding appendSecurityRecord_def by (auto split: if_splits prod.splits sum.splits intro: exI [of _ "gd_Log db"])

lemma publish_grants:
  assumes "publishSecurityAudit H now io key db = (db', e)"
  shows "gd_Grants db' = gd_Grants db \<and> gd_Clients db' = gd_Clients db \<and> (\<forall>i. ghas (gd_Events db) i \<longrightarrow> ghas (gd_Events db') i)"
proof (cases "\<exists>ev. gget (gd_Events db) (H key) = Some ev \<and> \<not> ev_Audited ev")
  case True
  then obtain ev where ev: "gget (gd_Events db) (H key) = Some ev" "\<not> ev_Audited ev" by blast
  then have p: "publishSecurityRecord H now io (ev_Record ev) db = (db', e)" using assms by (simp add: publishSecurityAudit_def)
  obtain db1 e1 where a: "appendSecurityRecord H now io (ev_Record ev) db = (db1, e1)" by fastforce
  from append_only_log [OF a] obtain l where "db1 = db\<lparr>gd_Log := l\<rparr>" ..
  then show ?thesis using p a by (auto simp: publishSecurityRecord_def ghas_def split: option.splits)
next
  case False
  then have "db' = db" using assms by (auto simp: publishSecurityAudit_def split: option.splits if_splits)
  then show ?thesis by simp
qed

lemma revocation_tx_grants:
  assumes "revocation_tx H g operator remark now refreshID db = (db', n)"
  shows "gd_Grants db' = gd_Grants (fst (mark_revoked (gt_ID g) operator now db)) \<and> n = snd (mark_revoked (gt_ID g) operator now db) \<and>
    (n \<longrightarrow> ghas (gd_Events db') (H (grantKey g))) \<and> (refreshID \<noteq> [] \<longrightarrow> ghas (gd_Events db') (H (refusalKey refreshID)))"
  using assms unfolding revocation_tx_def Let_def
  by (cases "mark_revoked (gt_ID g) operator now db") (auto simp: enqueue_has split: if_splits)

lemma revokeGrant_grants:
  assumes "revokeGrant H io g operator remark now refreshID db = (db', n, e)"
  shows "gd_Grants db' = gd_Grants (fst (mark_revoked (gt_ID g) operator now db)) \<and> n = snd (mark_revoked (gt_ID g) operator now db) \<and>
    (n \<longrightarrow> ghas (gd_Events db') (H (grantKey g))) \<and> (refreshID \<noteq> [] \<longrightarrow> ghas (gd_Events db') (H (refusalKey refreshID))) \<and>
    (e = None \<or> (\<exists>e1. e = Some (Wrapped ''the grant is revoked'' e1)))"
proof -
  obtain db1 m where 1: "revocation_tx H g operator remark now refreshID db = (db1, m)" by fastforce
  obtain db2 e1 where 2: "(if refreshID \<noteq> [] then publishSecurityAudit H now io (refusalKey refreshID) db1 else (db1, None)) = (db2, e1)" by fastforce
  obtain db3 e2 where 3: "publishSecurityAudit H now io (grantKey g) db2 = (db3, e2)" by fastforce
  have "gd_Grants db2 = gd_Grants db1 \<and> (\<forall>i. ghas (gd_Events db1) i \<longrightarrow> ghas (gd_Events db2) i)"
    using 2 publish_grants by (auto split: if_splits)
  moreover have "db' = db3" "n = m" "e = None \<or> (\<exists>e1. e = Some (Wrapped ''the grant is revoked'' e1))"
    using assms unfolding revokeGrant_def 1 Let_def prod.case 2 3 by (auto simp: pendingAudit_def)
  ultimately show ?thesis using revocation_tx_grants [OF 1] publish_grants [OF 3] by auto
qed

lemma oauthTime_not_empty: "oauthTime t \<noteq> []"
  by (simp add: oauthTime_def)

text \<open>
  Revoking a grant that exists leaves it revoked, whatever becomes of its audit records: the first
  revocation writes its time and its operator and queues its fact, a later one changes nothing and says so,
  and the only error left is that a fact is still to be published.
\<close>

theorem grant_revocation_holds:
  assumes "RevokeGrant H io i operator now db = (db', n, e)" and "e \<noteq> Some ErrNotFound" and "gget (gd_Grants db) i = Some r"
  shows "(if gr_RevokedAt r = [] then n \<and> gget (gd_Grants db') i = Some (r\<lparr>gr_RevokedAt := oauthTime now, gr_RevokedBy := operator\<rparr>) \<and>
         ghas (gd_Events db') (H (''grant-revocation/'' @ i))
       else \<not> n \<and> gget (gd_Grants db') i = Some r) \<and>
    (\<exists>r'. gget (gd_Grants db') i = Some r' \<and> gr_RevokedAt r' \<noteq> []) \<and>
    (e = None \<or> (\<exists>e1. e = Some (Wrapped ''the grant is revoked'' e1)))"
proof -
  obtain g where g: "gt_ID g = i" "revokeGrant H io g operator [] now [] db = (db', n, e)"
  proof (cases "loadGrant db i")
    case (Inr g)
    then have "gt_ID g = i" by (auto simp: loadGrant_def split: option.splits)
    then show ?thesis using assms(1) Inr by (intro that [of g]) (simp_all add: RevokeGrant_def)
  qed (use assms in \<open>auto simp: RevokeGrant_def loadGrant_def split: option.splits\<close>)
  from revokeGrant_grants [OF g(2)] show ?thesis
    using assms(3) oauthTime_not_empty [of now] by (auto simp: g(1) mark_revoked_def grantKey_def)
qed

definition sample_grant_row :: grant_row where
  "sample_grant_row = \<lparr>gr_ClientID = ''oc_1'', gr_DeviceID = ''dev_1'', gr_Scope = ''exec'', gr_CreatedAt = oauthTime 0, gr_CreatedBy = ''web:op'',
     gr_RevokedAt = [], gr_RevokedBy = []\<rparr>"

theorem grant_revocation_holds_witness:
  "\<exists>db n e. RevokeGrant (\<lambda>k. k) (\<lambda>_. False) ''og_1'' ''web:op'' 0 (\<lparr>gd_Control = empty_control, gd_Activations = [], gd_Revocations = [],
     gd_Clients = [(''oc_1'', ''client'')], gd_Grants = [(''og_1'', sample_grant_row)], gd_Events = [], gd_Log = Some []\<rparr>) = (db, n, e) \<and> n"
proof -
  let ?db = "\<lparr>gd_Control = empty_control, gd_Activations = [], gd_Revocations = [],
     gd_Clients = [(''oc_1'', ''client'')], gd_Grants = [(''og_1'', sample_grant_row)], gd_Events = [], gd_Log = Some []\<rparr>"
  obtain db n e where r: "RevokeGrant (\<lambda>k. k) (\<lambda>_. False) ''og_1'' ''web:op'' 0 ?db = (db, n, e)" by (cases "RevokeGrant (\<lambda>k. k) (\<lambda>_. False) ''og_1'' ''web:op'' 0 ?db")
  moreover obtain g where "loadGrant ?db ''og_1'' = Inr g" by (simp add: loadGrant_def sample_grant_row_def)
  then have "e \<noteq> Some ErrNotFound"
    using r by (auto simp: RevokeGrant_def revokeGrant_def pendingAudit_def ErrNotFound_def split: prod.splits)
  moreover have "gget (gd_Grants ?db) ''og_1'' = Some sample_grant_row" by simp
  ultimately show ?thesis using grant_revocation_holds [of "\<lambda>k. k" "\<lambda>_. False" "''og_1''" "''web:op''" 0 ?db db n e sample_grant_row]
    by (auto simp: sample_grant_row_def)
qed

end
