(* ===== verification/ControlPlane.thy ===== *)
theory ControlPlane
  imports ControlStore OneShot
begin

text \<open>
  The control plane as a system: devices enrol, sign and are admitted while operators issue tokens, revoke
  devices and push configurations, in any order. What holds of every run: a proof and a token work once, a
  revoked device stays out, what is served was signed, and no push is lost.
\<close>

section \<open>The control plane at work\<close>

text \<open>
  Requests of devices authenticate and are admitted in separate steps, so that anything may come between;
  every other operation is one step. The clock never goes back. \<open>sy_Admitted\<close> and \<open>sy_Enrolled\<close> record what
  was served: the flights handed to their route, and the token by which each device was enrolled.
\<close>

record control_sys =
  sy_Store :: control_store
  sy_Now :: instant
  sy_Flights :: "flight list"
  sy_Admitted :: "flight list"
  sy_Enrolled :: "(string \<times> string) list"

definition control_start :: "instant \<Rightarrow> control_sys" where
  "control_start now = \<lparr>sy_Store = empty_control, sy_Now = now, sy_Flights = [], sy_Admitted = [], sy_Enrolled = []\<rparr>"

definition enrolled_by :: "deployment \<Rightarrow> string option \<Rightarrow> string" where
  "enrolled_by D input = (case input of None \<Rightarrow> [] | Some data \<Rightarrow>
     (case DecodeBody [''token_id'', ''token_secret'', ''public_key''] read_enroll data of None \<Rightarrow> [] | Some r \<Rightarrow> er_TokenID r))"

text \<open>The operators' operations, and the devices without a key that the gateway adds.\<close>

inductive store_step :: "deployment \<Rightarrow> instant \<Rightarrow> control_store \<Rightarrow> control_store \<Rightarrow> bool" for D now where
  issue_token: "CreateEnrollToken (dp_parse D) (dp_show D) (dp_H D) rid random name url fp ttl now s = (s', r) \<Longrightarrow> store_step D now s s'"
| revoke_device: "RevokeDevice i now s = (s', r) \<Longrightarrow> store_step D now s s'"
| create_identity: "CreateIdentity name pub priv created s = (s', r) \<Longrightarrow> store_step D now s s'"
| disable_identity: "DisableIdentity name now s = (s', r) \<Longrightarrow> store_step D now s s'"
| push_config: "pushConfig (dp_managed D) i v iy py now s = (s', r) \<Longrightarrow> store_step D now s s'"
| keyless_device: "gget (cs_Devices s) i = None \<Longrightarrow> dr_PublicKey row = [] \<Longrightarrow>
    store_step D now s (s\<lparr>cs_Devices := gput i row (cs_Devices s)\<rparr>)"

inductive control_step :: "deployment \<Rightarrow> control_sys \<Rightarrow> control_sys \<Rightarrow> bool" for D where
  tick: "sy_Now s \<le> t \<Longrightarrow> control_step D s (s\<lparr>sy_Now := t\<rparr>)"
| operate: "store_step D (sy_Now s) (sy_Store s) st \<Longrightarrow> control_step D s (s\<lparr>sy_Store := st\<rparr>)"
| enroll: "handleEnroll D req input now (sy_Now s) random (sy_Store s) = (st, r) \<Longrightarrow> now \<le> sy_Now s \<Longrightarrow>
    control_step D s (s\<lparr>sy_Store := st, sy_Enrolled := (case r of EnrolledAs d \<Rightarrow> (enrolled_by D input, d) # sy_Enrolled s | _ \<Rightarrow> sy_Enrolled s)\<rparr>)"
| authenticate: "device_authenticate D path maxBody req declared input (sy_Now s) (sy_Store s) = Inr f \<Longrightarrow>
    control_step D s (s\<lparr>sy_Flights := f # sy_Flights s\<rparr>)"
| admit: "f \<in> set (sy_Flights s) \<Longrightarrow> device_admit revoked f (sy_Now s) (sy_Store s) = (st, r) \<Longrightarrow>
    control_step D s (s\<lparr>sy_Store := st, sy_Flights := remove1 f (sy_Flights s),
      sy_Admitted := (case r of Served _ _ \<Rightarrow> f # sy_Admitted s | _ \<Rightarrow> sy_Admitted s)\<rparr>)"

section \<open>What an operation changes\<close>

lemma FormatTime_nonempty [simp]: "FormatTime t \<noteq> []" by (simp add: FormatTime_def)

lemma consumeNonce_cases:
  assumes "consumeNonce d n e clock s = (s', r)"
  obtains "s' = s \<or> s' = s\<lparr>cs_NextPrune := int (unix clock) + 60\<rparr>" "r \<noteq> None"
  | row nonces where "r = None" "gget (cs_Devices s) d = Some row" "dr_Status row = DeviceActive" "int (unix clock) < e"
      "nonces = cs_Nonces s \<or> nonces = filter (\<lambda>(_, e). \<not> e \<le> int (unix clock)) (cs_Nonces s)" "map_of nonces (d, n) = None"
      "cs_Nonces s' = ((d, n), e) # nonces" "cs_Devices s' = cs_Devices s" "cs_Tokens s' = cs_Tokens s" "cs_Configs s' = cs_Configs s"
      "cs_Identities s' = cs_Identities s"
  using assms by (auto simp: consumeNonce_def Let_def split: option.splits if_splits)

lemma device_admit_cases:
  assumes "device_admit revoked f clock s = (s', r)"
  obtains e where "consumeNonce (fl_ID f) (rp_Nonce (fl_Proof f)) (rp_Expires (fl_Proof f)) clock s = (s', Some e)" "\<And>d b. r \<noteq> Served d b"
  | "consumeNonce (fl_ID f) (rp_Nonce (fl_Proof f)) (rp_Expires (fl_Proof f)) clock s = (s', None)" "r = Served (fl_Device f) (fl_Body f)"
  using assms by (auto simp: device_admit_def proof_error_def split: prod.splits option.splits if_splits)

lemma RedeemEnrollToken_cases:
  assumes "RedeemEnrollToken H i secret base pub now random s = (s', r)"
  obtains e where "s' = s" "r = Inl e"
  | t d where "gget (cs_Tokens s) i = Some t" "tr_UsedAt t = []" "tr_Secret t = H secret" "int now < ParseTime (tr_ExpiresAt t)" "tr_URL t = base"
      "gget (cs_Devices s) d = None" "r = Inr \<lparr>dv_ID = d, dv_Name = tr_Name t, dv_PublicKey = pub, dv_Status = DeviceActive, dv_CreatedAt = int now, dv_RevokedAt = zero_time\<rparr>"
      "s' = s\<lparr>cs_Tokens := gput i (t\<lparr>tr_UsedAt := FormatTime now\<rparr>) (cs_Tokens s),
         cs_Devices := gput d \<lparr>dr_Name = tr_Name t, dr_PublicKey = pub, dr_Status = DeviceActive, dr_CreatedAt = FormatTime now, dr_RevokedAt = []\<rparr> (cs_Devices s)\<rparr>"
      "\<exists>key. DecodePublicKey pub = Inr key"
proof (cases "\<exists>e. r = Inl e")
  case True
  then have "s' = s" using assms by (auto simp: RedeemEnrollToken_def Let_def split: sum.splits option.splits if_splits)
  then show ?thesis using that(1) True by blast
next
  case False
  obtain key where k: "DecodePublicKey pub = Inr key" using assms False by (auto simp: RedeemEnrollToken_def split: sum.splits)
  obtain t where t: "gget (cs_Tokens s) i = Some t" using assms False k by (auto simp: RedeemEnrollToken_def split: option.splits)
  note u = assms [unfolded RedeemEnrollToken_def k t sum.case option.case Let_def]
  have c: "\<not> (tr_UsedAt t \<noteq> [] \<or> ParseTime (tr_ExpiresAt t) \<le> int now \<or> tr_URL t \<noteq> base \<or> tr_Secret t \<noteq> H secret)"
    using u False by (intro notI) (simp only: if_True, blast)
  have g: "\<not> ghas (cs_Devices s) (''dev_'' @ hex_string random)"
    using u False unfolding if_not_P [OF c] by (intro notI) (simp only: if_True, blast)
  show ?thesis using that(2) [OF t] u k c g unfolding if_not_P [OF c] if_not_P [OF g] by (simp add: ghas_def)
qed

lemma handleEnroll_cases:
  assumes "handleEnroll D req input now clock random s = (s', r)"
  obtains "s' = s" "\<And>d. r \<noteq> EnrolledAs d"
  | data q d key p where "input = Some data" "DecodeBody [''token_id'', ''token_secret'', ''public_key''] read_enroll data = Some q"
      "DecodePublicKey (er_PublicKey q) = Inr key"
      "VerifyHTTPRequest (dp_sha D) (dp_verify D) req data (dp_Base D @ PathEnroll) (er_TokenID q) EnrollSignatureTag key now = Inr p"
      "RedeemEnrollToken (dp_H D) (er_TokenID q) (er_TokenSecret q) (dp_Base D) (er_PublicKey q) clock random s = (s', Inr d)" "r = EnrolledAs (dv_ID d)"
proof (cases "\<exists>d. r = EnrolledAs d")
  case True
  then show ?thesis using assms that(2)
    by (auto simp: handleEnroll_def requestBytesLimit_def proof_error_def split: sum.splits option.splits prod.splits if_splits)
next
  case False
  have "s' = s" using assms False
    by (auto simp: handleEnroll_def split: sum.splits option.splits prod.splits if_splits elim: RedeemEnrollToken_cases)
  then show ?thesis using that(1) False by blast
qed

section \<open>Each proof and each token works once\<close>

abbreviation proof_key :: "flight \<Rightarrow> string \<times> string \<times> int" where
  "proof_key f \<equiv> (fl_ID f, rp_Nonce (fl_Proof f), rp_Expires (fl_Proof f))"

definition proof_spent :: "control_sys \<Rightarrow> string \<times> string \<times> int \<Rightarrow> bool" where
  "proof_spent s = (\<lambda>(d, n, e). e \<le> int (unix (sy_Now s)) \<or> map_of (cs_Nonces (sy_Store s)) (d, n) = Some e)"

definition token_spent :: "control_sys \<Rightarrow> string \<Rightarrow> bool" where
  "token_spent s i \<longleftrightarrow> (\<exists>t. gget (cs_Tokens (sy_Store s)) i = Some t \<and> tr_UsedAt t \<noteq> [])"

lemma map_of_filter_keep: "map_of xs k = Some v \<Longrightarrow> P (k, v) \<Longrightarrow> map_of (filter P xs) k = Some v"
  by (induction xs) (auto split: if_splits)

lemma store_step_keeps:
  assumes "store_step D now s s'"
  shows "cs_Nonces s' = cs_Nonces s" "gget (cs_Tokens s) i = Some t \<Longrightarrow> gget (cs_Tokens s') i = Some t"
  using assms
  by (induction; auto simp: CreateEnrollToken_def RevokeDevice_def CreateIdentity_def DisableIdentity_def pushConfig_def putConfig_def
    ghas_def Let_def split: sum.splits option.splits if_splits)+

lemma nonces_keep:
  assumes "consumeNonce d n e clock s = (s', r)" "e' \<le> int (unix clock) \<or> map_of (cs_Nonces s) k = Some e'"
  shows "e' \<le> int (unix clock) \<or> map_of (cs_Nonces s') k = Some e'"
  using assms(1)
proof (cases rule: consumeNonce_cases)
  case 1
  then show ?thesis using assms(2) by auto
next
  case (2 row nonces)
  have "e' \<le> int (unix clock) \<or> map_of nonces k = Some e'"
    using 2(5) assms(2) map_of_filter_keep [of "cs_Nonces s" k e' "\<lambda>(_, e). \<not> e \<le> int (unix clock)"] by auto
  then show ?thesis using 2(6,7) by auto
qed

lemma consumed_unspent:
  assumes "consumeNonce d n e clock s = (s', None)"
  shows "\<not> e \<le> int (unix clock)" "map_of (cs_Nonces s) (d, n) \<noteq> Some e" "map_of (cs_Nonces s') (d, n) = Some e"
  using assms map_of_filter_keep [of "cs_Nonces s" "(d, n)" e "\<lambda>(_, e). \<not> e \<le> int (unix clock)"]
  by (auto elim!: consumeNonce_cases)

interpretation proofs: one_shot "control_step D" "\<lambda>s. map proof_key (sy_Admitted s)" proof_spent for D
proof
  fix s s' assume "control_step D s s'"
  then show "map proof_key (sy_Admitted s') = map proof_key (sy_Admitted s) \<or>
    (\<exists>k. map proof_key (sy_Admitted s') = k # map proof_key (sy_Admitted s) \<and> \<not> proof_spent s k \<and> proof_spent s' k)"
  proof cases
    case (admit f revoked st r)
    from admit(3) show ?thesis
      by (cases rule: device_admit_cases) (use admit(1) consumed_unspent in \<open>auto simp: proof_spent_def split: ctl_reply.splits\<close>)
  qed simp_all
next
  fix s s' k assume st: "control_step D s s'" and k: "proof_spent s k"
  obtain d n e where [simp]: "k = (d, n, e)" by (cases k)
  from st show "proof_spent s' k"
  proof cases
    case (tick t)
    then show ?thesis using k div_le_mono [of "sy_Now s" t second] by (auto simp: proof_spent_def)
  next
    case (operate st)
    then show ?thesis using k store_step_keeps(1) by (auto simp: proof_spent_def)
  next
    case (enroll req input now random st r)
    from enroll(2) show ?thesis
      by (cases rule: handleEnroll_cases) (use k enroll(1) in \<open>auto simp: proof_spent_def elim!: RedeemEnrollToken_cases\<close>)
  next
    case (authenticate path maxBody req declared input f)
    then show ?thesis using k by (simp add: proof_spent_def)
  next
    case (admit f revoked st r)
    obtain r' where "consumeNonce (fl_ID f) (rp_Nonce (fl_Proof f)) (rp_Expires (fl_Proof f)) (sy_Now s) (sy_Store s) = (st, r')"
      using admit(3) by (cases rule: device_admit_cases) blast+
    from nonces_keep [OF this, of e "(d, n)"] show ?thesis using k admit(1) by (simp add: proof_spent_def)
  qed
qed

lemma redeemed:
  assumes "RedeemEnrollToken H i secret base pub now random s = (s', Inr d)"
  shows "\<exists>t. gget (cs_Tokens s) i = Some t \<and> tr_UsedAt t = []" "\<exists>t. gget (cs_Tokens s') i = Some t \<and> tr_UsedAt t \<noteq> []"
  using assms by (auto elim!: RedeemEnrollToken_cases)

lemma tokens_keep:
  assumes "RedeemEnrollToken H i secret base pub now random s = (s', r)" "gget (cs_Tokens s) k = Some t" "tr_UsedAt t \<noteq> []"
  shows "\<exists>t. gget (cs_Tokens s') k = Some t \<and> tr_UsedAt t \<noteq> []"
  using assms(1) by (cases rule: RedeemEnrollToken_cases) (use assms in auto)

lemma admit_keeps:
  assumes "device_admit revoked f clock s = (s', r)"
  shows "cs_Tokens s' = cs_Tokens s" "cs_Devices s' = cs_Devices s" "cs_Configs s' = cs_Configs s"
proof -
  obtain r' where "consumeNonce (fl_ID f) (rp_Nonce (fl_Proof f)) (rp_Expires (fl_Proof f)) clock s = (s', r')"
    using assms by (cases rule: device_admit_cases) blast+
  then have "cs_Tokens s' = cs_Tokens s \<and> cs_Devices s' = cs_Devices s \<and> cs_Configs s' = cs_Configs s"
    by (cases rule: consumeNonce_cases) auto
  then show "cs_Tokens s' = cs_Tokens s" "cs_Devices s' = cs_Devices s" "cs_Configs s' = cs_Configs s" by blast+
qed

interpretation tokens: one_shot "control_step D" "\<lambda>s. map fst (sy_Enrolled s)" token_spent for D
proof
  fix s s' assume "control_step D s s'"
  then show "map fst (sy_Enrolled s') = map fst (sy_Enrolled s) \<or>
    (\<exists>k. map fst (sy_Enrolled s') = k # map fst (sy_Enrolled s) \<and> \<not> token_spent s k \<and> token_spent s' k)"
  proof cases
    case (enroll req input now random st r)
    from enroll(2) show ?thesis
    proof (cases rule: handleEnroll_cases)
      case 1
      then show ?thesis using enroll(1) by (auto split: ctl_reply.splits)
    next
      case (2 data q d key p)
      then show ?thesis using enroll(1) redeemed [OF 2(5)] by (auto simp: token_spent_def enrolled_by_def)
    qed
  qed simp_all
next
  fix s s' k assume st: "control_step D s s'" and k: "token_spent s k"
  from st show "token_spent s' k"
  proof cases
    case (operate st)
    then show ?thesis using k store_step_keeps(2) unfolding token_spent_def by fastforce
  next
    case (enroll req input now random st r)
    from enroll(2) show ?thesis
    proof (cases rule: handleEnroll_cases)
      case (2 data q d key p)
      then show ?thesis using k enroll(1) tokens_keep [OF 2(5)] by (auto simp: token_spent_def)
    qed (use k enroll(1) in \<open>simp add: token_spent_def\<close>)
  next
    case (admit f revoked st r)
    then show ?thesis using k admit_keeps(1) by (simp add: token_spent_def)
  qed (use k in \<open>simp_all add: token_spent_def\<close>)
qed

text \<open>
  C12. A signed request is served at most once: whatever operations, clock readings and other requests come
  between, no two requests handed to their routes carry the same device, nonce and expiry.
\<close>

theorem request_served_once:
  assumes "sy_Admitted s = []" "(control_step D)\<^sup>*\<^sup>* s s'"
  shows "distinct (map proof_key (sy_Admitted s'))"
  using assms by (intro proofs.once [of s]) simp_all

definition sample_device :: device_row where
  "sample_device = \<lparr>dr_Name = ''laptop'', dr_PublicKey = ''k'', dr_Status = DeviceActive, dr_CreatedAt = [], dr_RevokedAt = []\<rparr>"

definition sample_flight :: flight where
  "sample_flight = \<lparr>fl_ID = ''dev_1'', fl_Device = device_of_row ''dev_1'' sample_device, fl_Request = \<lparr>hr_Method = ''GET'', hr_Target = [], hr_Header = []\<rparr>,
     fl_Target = [], fl_Body = [], fl_Proof = \<lparr>rp_KeyID = ''dev_1'', rp_Nonce = ''n'', rp_Expires = 60\<rparr>\<rparr>"

definition sample_system :: control_sys where
  "sample_system = \<lparr>sy_Store = empty_control\<lparr>cs_Devices := [(''dev_1'', sample_device)]\<rparr>, sy_Now = 0, sy_Flights = [sample_flight, sample_flight],
     sy_Admitted = [], sy_Enrolled = []\<rparr>"

lemma sample_replay:
  "\<exists>s' s''. control_step D sample_system s' \<and> control_step D s' s'' \<and> sy_Admitted s' = [sample_flight] \<and> sy_Admitted s'' = [sample_flight] \<and>
     sy_Flights s'' = [] \<and> sy_Store s'' = sy_Store s'"
proof -
  let ?st = "(sy_Store sample_system)\<lparr>cs_NextPrune := 60, cs_Nonces := [((''dev_1'', ''n''), 60)]\<rparr>"
  have a: "device_admit None sample_flight 0 (sy_Store sample_system) = (?st, Served (fl_Device sample_flight) [])"
    by (simp add: device_admit_def consumeNonce_def sample_flight_def sample_system_def sample_device_def empty_control_def)
  have b: "device_admit None sample_flight 0 ?st = (?st, Refused 403 CodeUnauthenticated)"
    by (simp add: device_admit_def consumeNonce_def sample_flight_def sample_system_def sample_device_def empty_control_def
      ErrRequestReplayed_def ErrDeviceRevoked_def)
  let ?s1 = "sample_system\<lparr>sy_Store := ?st, sy_Flights := [sample_flight], sy_Admitted := [sample_flight]\<rparr>"
  let ?s2 = "sample_system\<lparr>sy_Store := ?st, sy_Flights := [], sy_Admitted := [sample_flight]\<rparr>"
  have n: "sy_Now sample_system = 0" "sy_Flights sample_system = [sample_flight, sample_flight]" "sy_Admitted sample_system = []"
    by (simp_all add: sample_system_def)
  have "control_step D sample_system ?s1" using control_step.admit [of sample_flight sample_system None ?st "Served (fl_Device sample_flight) []" D] a n by simp
  moreover have "control_step D ?s1 ?s2" using control_step.admit [of sample_flight ?s1 None ?st "Refused 403 CodeUnauthenticated" D] b n by simp
  ultimately show ?thesis by (intro exI [of _ ?s1] exI [of _ ?s2]) simp
qed

definition sample_deployment :: deployment where
  "sample_deployment = \<lparr>dp_sha = (\<lambda>b. b), dp_H = (\<lambda>b. b), dp_verify = (\<lambda>k m s. m = s), dp_parse = (\<lambda>_. None), dp_show = (\<lambda>_. []),
     dp_managed = (\<lambda>_ _ _. None), dp_Base = []\<rparr>"

theorem request_served_once_witness:
  "\<exists>s' s''. control_step sample_deployment sample_system s' \<and> control_step sample_deployment s' s'' \<and>
     sy_Admitted s'' = [sample_flight] \<and> distinct (map proof_key (sy_Admitted s''))"
proof -
  obtain s' s'' where s: "control_step sample_deployment sample_system s'" "control_step sample_deployment s' s''" "sy_Admitted s'' = [sample_flight]"
    using sample_replay by blast
  then have "(control_step sample_deployment)\<^sup>*\<^sup>* sample_system s''" by (meson r_into_rtranclp rtranclp_trans)
  then have "distinct (map proof_key (sy_Admitted s''))" by (rule request_served_once [rotated]) (simp add: sample_system_def)
  then show ?thesis using s by blast
qed

text \<open>
  C15. An enrolment token enrols at most one device, whatever requests race for it.
\<close>

theorem token_enrols_once:
  assumes "sy_Enrolled s = []" "(control_step D)\<^sup>*\<^sup>* s s'"
  shows "distinct (map fst (sy_Enrolled s'))"
  using assms by (intro tokens.once [of s]) simp_all

definition enroll_request_json :: "EnrollRequest \<Rightarrow> string" where
  "enroll_request_json r = json_object [field ''token_id'' (json_string (er_TokenID r)), field ''token_secret'' (json_string (er_TokenSecret r)),
     field ''public_key'' (json_string (er_PublicKey r))]"

lemma decode_enroll: "DecodeBody [''token_id'', ''token_secret'', ''public_key''] read_enroll (enroll_request_json r) =
   Some \<lparr>er_TokenID = json_clean (er_TokenID r), er_TokenSecret = json_clean (er_TokenSecret r), er_PublicKey = json_clean (er_PublicKey r)\<rparr>"
proof -
  let ?js = "[(''token_id'', jstr (er_TokenID r)), (''token_secret'', jstr (er_TokenSecret r)), (''public_key'', jstr (er_PublicKey r))]"
  have p: "plain_name ''token_id''" "plain_name ''token_secret''" "plain_name ''public_key''" by (simp_all add: plain_name_def)
  have "renders_fields 0 [field ''token_id'' (json_string (er_TokenID r)), field ''token_secret'' (json_string (er_TokenSecret r)),
     field ''public_key'' (json_string (er_PublicKey r))] ?js" by (intro renders_rules p)
  from json_text_renders [OF renders_fields_object [OF this]]
  have "json_text (enroll_request_json r) = Some (JObj (jpresent ?js))" by (simp add: enroll_request_json_def max_depth_def)
  then show ?thesis
    using p by (simp add: DecodeBody_def read_enroll_def read_rules) (simp add: jpresent_def jstr_def matches_plain)
qed

section \<open>What an operation leaves of a device\<close>

lemma DeviceRevoked_inactive: "DeviceRevoked \<noteq> DeviceActive"
  by (simp add: DeviceRevoked_def DeviceActive_def)

lemma store_step_row:
  assumes "store_step D now s s'" "gget (cs_Devices s) d = Some row"
  shows "\<exists>row'. gget (cs_Devices s') d = Some row' \<and> dr_PublicKey row' = dr_PublicKey row \<and> (dr_Status row' = dr_Status row \<or> dr_Status row' = DeviceRevoked)"
  using assms
  by (induction; auto simp: CreateEnrollToken_def RevokeDevice_def CreateIdentity_def DisableIdentity_def pushConfig_def putConfig_def
    ghas_def Let_def DeviceActive_def DeviceRevoked_def split: sum.splits option.splits if_splits)

lemma step_row:
  assumes "control_step D s s'" "gget (cs_Devices (sy_Store s)) d = Some row"
  shows "\<exists>row'. gget (cs_Devices (sy_Store s')) d = Some row' \<and> dr_PublicKey row' = dr_PublicKey row \<and> (dr_Status row' = dr_Status row \<or> dr_Status row' = DeviceRevoked)"
  using assms(1)
proof cases
  case (operate st)
  then show ?thesis using store_step_row assms(2) by simp
next
  case (enroll req input now random st r)
  from enroll(2) show ?thesis
  proof (cases rule: handleEnroll_cases)
    case (2 data q d key p)
    from 2(5) show ?thesis by (cases rule: RedeemEnrollToken_cases) (use assms(2) enroll(1) in auto)
  qed (use assms(2) enroll(1) in simp)
next
  case (admit f revoked st r)
  then show ?thesis using assms(2) admit_keeps(2) by simp
qed (use assms(2) in simp_all)

lemma steps_row:
  assumes "(control_step D)\<^sup>*\<^sup>* s s'" "gget (cs_Devices (sy_Store s)) d = Some row"
  shows "\<exists>row'. gget (cs_Devices (sy_Store s')) d = Some row' \<and> dr_PublicKey row' = dr_PublicKey row \<and> (dr_Status row' = dr_Status row \<or> dr_Status row' = DeviceRevoked)"
  using assms by (induction rule: rtranclp_induct) (use step_row in fastforce)+

lemma step_admitted:
  assumes "control_step D s s'"
  shows "sy_Admitted s' = sy_Admitted s \<or> (\<exists>f row. f \<in> set (sy_Flights s) \<and> sy_Admitted s' = f # sy_Admitted s \<and>
     gget (cs_Devices (sy_Store s)) (fl_ID f) = Some row \<and> dr_Status row = DeviceActive)"
  using assms
proof cases
  case (admit f revoked st r)
  from admit(3) show ?thesis
    by (cases rule: device_admit_cases) (use admit(1,2) in \<open>auto split: ctl_reply.splits elim!: consumeNonce_cases\<close>)
qed simp_all

text \<open>
  C14. A revoked device is shut out for good: from the moment its row says so, no request of it is served,
  not even one that had authenticated before, and no operation makes it active again.
\<close>

theorem revoked_shut_out:
  assumes "RevokeDevice d now (sy_Store s) = (st, None)" "(control_step D)\<^sup>*\<^sup>* (s\<lparr>sy_Store := st\<rparr>) s'"
  shows "filter (\<lambda>f. fl_ID f = d) (sy_Admitted s') = filter (\<lambda>f. fl_ID f = d) (sy_Admitted s) \<and>
    (\<exists>row. gget (cs_Devices (sy_Store s')) d = Some row \<and> dr_Status row \<noteq> DeviceActive)"
proof -
  let ?shut = "\<lambda>s. \<exists>row. gget (cs_Devices (sy_Store s)) d = Some row \<and> dr_Status row \<noteq> DeviceActive"
  have "?shut (s\<lparr>sy_Store := st\<rparr>)"
    using assms(1) by (auto simp: RevokeDevice_def DeviceActive_def DeviceRevoked_def split: option.splits)
  with assms(2) show ?thesis
  proof (induction rule: rtranclp_induct)
    case (step t u)
    then have t: "filter (\<lambda>f. fl_ID f = d) (sy_Admitted t) = filter (\<lambda>f. fl_ID f = d) (sy_Admitted s)" "?shut t" by auto
    have "filter (\<lambda>f. fl_ID f = d) (sy_Admitted u) = filter (\<lambda>f. fl_ID f = d) (sy_Admitted t)"
      using step_admitted [OF step(2)] t(2) by fastforce
    moreover have "?shut u" using step_row [OF step(2)] t(2) DeviceRevoked_inactive by metis
    ultimately show ?case using t(1) by simp
  qed simp
qed

theorem revoked_shut_out_witness:
  "\<exists>st s'. RevokeDevice ''dev_1'' 0 (sy_Store sample_system) = (st, None) \<and> control_step sample_deployment (sample_system\<lparr>sy_Store := st\<rparr>) s' \<and>
     sy_Flights s' = [sample_flight] \<and> filter (\<lambda>f. fl_ID f = ''dev_1'') (sy_Admitted s') = []"
proof -
  obtain st where st: "RevokeDevice ''dev_1'' 0 (sy_Store sample_system) = (st, None)" "\<exists>r. gget (cs_Devices st) ''dev_1'' = Some r \<and> dr_Status r = DeviceRevoked"
    by (auto simp: RevokeDevice_def sample_system_def split: option.splits)
  let ?s = "sample_system\<lparr>sy_Store := st\<rparr>"
  have "device_admit None sample_flight 0 st = (st, Refused 403 CodeDeviceRevoked)"
    using st(2) by (auto simp: device_admit_def consumeNonce_def sample_flight_def DeviceRevoked_def DeviceActive_def)
  then have a: "control_step sample_deployment ?s (sample_system\<lparr>sy_Store := st, sy_Flights := [sample_flight], sy_Admitted := []\<rparr>)"
    using control_step.admit [of sample_flight ?s None st "Refused 403 CodeDeviceRevoked" sample_deployment] by (simp add: sample_system_def)
  from revoked_shut_out [OF st(1) r_into_rtranclp [of "control_step sample_deployment", OF a]] show ?thesis
    using st(1) a by (intro exI [of _ st] exI [of _ "sample_system\<lparr>sy_Store := st, sy_Flights := [sample_flight], sy_Admitted := []\<rparr>"]) simp
qed

section \<open>Who was served\<close>

definition flight_signed :: "deployment \<Rightarrow> control_store \<Rightarrow> flight \<Rightarrow> bool" where
  "flight_signed D s f \<longleftrightarrow> (\<exists>row key now. gget (cs_Devices s) (fl_ID f) = Some row \<and> DecodePublicKey (dr_PublicKey row) = Inr key \<and>
     VerifyHTTPRequest (dp_sha D) (dp_verify D) (fl_Request f) (fl_Body f) (fl_Target f) (fl_ID f) DeviceSignatureTag key now = Inr (fl_Proof f))"

lemma device_lookup_Inr: "device_lookup s i = Inr (d, key) \<Longrightarrow>
   \<exists>row. gget (cs_Devices s) i = Some row \<and> DecodePublicKey (dr_PublicKey row) = Inr key"
  by (auto simp: device_lookup_def store_Device_def device_of_row_def split: option.splits sum.splits if_splits)

lemma case_sum_Inr: "(case r of Inl e \<Rightarrow> Inl (g e) | Inr x \<Rightarrow> h x) = Inr y \<longleftrightarrow> (\<exists>x. r = Inr x \<and> h x = Inr y)"
  by (cases r) auto

lemma authenticated_signed:
  assumes "device_authenticate D path maxBody req declared input now s = Inr f"
  shows "flight_signed D s f"
  using assms by (auto simp: device_authenticate_def Let_def flight_signed_def rbind_iffs case_sum_Inr VerifyHTTPRequest_def dest!: device_lookup_Inr
    split: if_splits)

lemma signed_step:
  assumes "control_step D s s'" "\<forall>f \<in> set (sy_Flights s) \<union> set (sy_Admitted s). flight_signed D (sy_Store s) f"
  shows "\<forall>f \<in> set (sy_Flights s') \<union> set (sy_Admitted s'). flight_signed D (sy_Store s') f"
proof
  fix f assume f: "f \<in> set (sy_Flights s') \<union> set (sy_Admitted s')"
  have keep: "flight_signed D (sy_Store s) f \<Longrightarrow> flight_signed D (sy_Store s') f"
    using step_row [OF assms(1), of "fl_ID f"] unfolding flight_signed_def by metis
  from assms(1) show "flight_signed D (sy_Store s') f"
  proof cases
    case (authenticate path maxBody req declared input g)
    then show ?thesis using f keep assms(2) authenticated_signed by auto
  next
    case (admit g revoked st r)
    then have "f \<in> set (sy_Flights s) \<union> set (sy_Admitted s)" using f set_remove1_subset by (fastforce split: ctl_reply.splits)
    then show ?thesis using keep assms(2) by blast
  qed (use f keep assms(2) in auto)
qed

text \<open>
  C13. Whatever is served was signed: if the public key of a device verifies only what its holder signed,
  every request handed to a route carries the method, target and body (up to SHA-256) that the holder of the
  key of that device signed for it, under the nonce and expiry of the proof.
\<close>

theorem served_was_signed:
  assumes "sy_Flights s = []" "sy_Admitted s = []" "(control_step D)\<^sup>*\<^sup>* s s'" "f \<in> set (sy_Admitted s')"
    and unforged: "\<And>key m sig. dp_verify D key m sig \<Longrightarrow> \<exists>S \<in> Signings key. signing_ok S \<and> m = signed_text (dp_sha D) S"
    and plain: "newline \<notin> set (hr_Method (fl_Request f))" "newline \<notin> set (fl_Target f)"
  shows "\<exists>row key S. gget (cs_Devices (sy_Store s')) (fl_ID f) = Some row \<and> DecodePublicKey (dr_PublicKey row) = Inr key \<and> S \<in> Signings key \<and>
    sg_KeyID S = fl_ID f \<and> sg_Tag S = DeviceSignatureTag \<and> hr_Method (sg_Request S) = hr_Method (fl_Request f) \<and> hr_Target (sg_Request S) = fl_Target f \<and>
    dp_sha D (sg_Body S) = dp_sha D (fl_Body f) \<and> rp_Nonce (fl_Proof f) = b64_encode True (sg_Random S) \<and> rp_Expires (fl_Proof f) = int (unix (sg_Now S)) + 60"
proof -
  have "\<forall>f \<in> set (sy_Flights s') \<union> set (sy_Admitted s'). flight_signed D (sy_Store s') f"
    using assms(3)
  proof (induction rule: rtranclp_induct)
    case (step t u)
    then show ?case using signed_step by blast
  qed (simp add: assms(1,2))
  then obtain row key now where r: "gget (cs_Devices (sy_Store s')) (fl_ID f) = Some row" "DecodePublicKey (dr_PublicKey row) = Inr key"
    "VerifyHTTPRequest (dp_sha D) (dp_verify D) (fl_Request f) (fl_Body f) (fl_Target f) (fl_ID f) DeviceSignatureTag key now = Inr (fl_Proof f)"
    using assms(4) unfolding flight_signed_def by blast
  have "\<exists>S \<in> Signings key. hr_Method (sg_Request S) = hr_Method (fl_Request f) \<and> hr_Target (sg_Request S) = fl_Target f \<and>
     dp_sha D (sg_Body S) = dp_sha D (fl_Body f) \<and> sg_KeyID S = fl_ID f \<and> sg_Tag S = DeviceSignatureTag \<and>
     rp_Nonce (fl_Proof f) = b64_encode True (sg_Random S) \<and> rp_Expires (fl_Proof f) = int (unix (sg_Now S)) + 60 \<and>
     unix now < unix (sg_Now S) + 60 \<and> unix (sg_Now S) \<le> unix now + 30"
    by (rule accepted_signed [OF r(3) _ plain]) (rule unforged)
  then show ?thesis using r(1,2) by blast
qed

section \<open>Configurations\<close>

lemma putConfig_cases:
  assumes "putConfig i v iy py now s = (s', r)"
  obtains "s' = s" "r = Inl ErrConfigChanged"
  | "r = Inr (config_version s i + 1)" "v < 0 \<or> v = config_version s i" "config_version s' i = config_version s i + 1"
      "\<And>j. j \<noteq> i \<Longrightarrow> config_version s' j = config_version s j"
  using assms by (auto simp: putConfig_def Let_def config_version_def split: if_splits)

lemma version_step:
  assumes "control_step D s s'"
  shows "config_version (sy_Store s) i \<le> config_version (sy_Store s') i"
proof -
  have put: "config_version s i \<le> config_version s' i" if "putConfig j v iy py now s = (s', r)" for s s' j v iy py now r
    using that by (cases rule: putConfig_cases) (cases "i = j"; simp)+
  have op: "config_version a i \<le> config_version b i" if "store_step D now a b" for now a b
    using that
  proof cases
    case (push_config i v iy py r)
    then show ?thesis using put by (fastforce simp: pushConfig_def split: sum.splits option.splits)
  qed (auto simp: CreateEnrollToken_def RevokeDevice_def CreateIdentity_def DisableIdentity_def config_version_def Let_def
      split: sum.splits option.splits if_splits)
  from assms show ?thesis
  proof cases
    case (enroll req input now random st r)
    from enroll(2) have "cs_Configs st = cs_Configs (sy_Store s)"
      by (cases rule: handleEnroll_cases) (auto elim!: RedeemEnrollToken_cases)
    then show ?thesis using enroll(1) by (simp add: config_version_def)
  next
    case (admit f revoked st r)
    then show ?thesis using admit_keeps(3) by (simp add: config_version_def)
  qed (use op in simp_all)
qed

text \<open>
  C22. A change made from a version of a device's configuration never overwrites a newer push: once any
  push to the device has gone through, replacing the version it found is refused, whatever happens between.
\<close>

theorem no_lost_push:
  assumes "putConfig i v iy py now (sy_Store s) = (st, Inr n)" "(control_step D)\<^sup>*\<^sup>* (s\<lparr>sy_Store := st\<rparr>) s'" "0 \<le> config_version (sy_Store s) i"
  shows "n = config_version (sy_Store s) i + 1 \<and>
    putConfig i (config_version (sy_Store s) i) iy' py' now' (sy_Store s') = (sy_Store s', Inl ErrConfigChanged)"
proof -
  have n: "n = config_version (sy_Store s) i + 1" "config_version st i = config_version (sy_Store s) i + 1"
    using assms(1) by (auto elim!: putConfig_cases)
  have "config_version st i \<le> config_version (sy_Store s') i"
    using assms(2) by (induction rule: rtranclp_induct) (use version_step order_trans in \<open>simp, blast\<close>)
  then show ?thesis using n assms(3) by (simp add: putConfig_def)
qed

theorem no_lost_push_witness:
  "\<exists>st. putConfig ''d'' (- 1) ''a'' ''b'' 0 (sy_Store sample_system) = (st, Inr 1) \<and> putConfig ''d'' 0 ''x'' ''y'' 9 st = (st, Inl ErrConfigChanged)"
proof -
  have v: "config_version (sy_Store sample_system) ''d'' = 0" by (simp add: config_version_def sample_system_def empty_control_def)
  obtain st where st: "putConfig ''d'' (- 1) ''a'' ''b'' 0 (sy_Store sample_system) = (st, Inr 1)" using v by (simp add: putConfig_def)
  from no_lost_push [OF st rtranclp.rtrancl_refl [of "control_step sample_deployment"], of "''x''" "''y''" 9] v st show ?thesis by simp
qed

section \<open>A device enrols and is served\<close>

lemma year_1970: "t < 86400 * second \<Longrightarrow> time_year t < 10000"
proof -
  assume "t < 86400 * second"
  then have "t div second div 86400 = 0" by (simp add: div_mult2_eq [symmetric])
  then show ?thesis by (simp add: time_year_def civil_year.simps year_days_def)
qed

definition sample_pub :: string where
  "sample_pub = b64_encode False (replicate 32 CHR ''q'')"

lemma sample_pub_text: "sample_pub = concat (replicate 10 ''cXFx'') @ ''cXE=''"
  unfolding sample_pub_def by code_simp

lemma sample_pub_valid: "valid_string sample_pub" "length sample_pub = 44"
proof -
  show "length sample_pub = 44" by (simp add: sample_pub_text numeral_eq_Suc)
  show "valid_string sample_pub" unfolding sample_pub_text by (rule valid_ascii) (simp add: ascii_def numeral_eq_Suc)
qed

lemma sample_pub_key: "DecodePublicKey sample_pub = Inr (replicate 32 CHR ''q'')"
  by (simp add: DecodePublicKey_def sample_pub_def b64_decode_encode)

lemma signing_headers:
  assumes "signing_ok S"
  obtains req where "SignHTTPRequest sha sign (sg_Request S) (sg_Body S) (sg_KeyID S) (sg_Tag S) (replicate 64 CHR ''p'') (sg_Now S) (Some (sg_Random S)) = Inr req"
    "RequestKeyID req = sg_KeyID S" "hr_Method req = hr_Method (sg_Request S)"
proof -
  obtain req where r: "SignHTTPRequest sha sign (sg_Request S) (sg_Body S) (sg_KeyID S) (sg_Tag S) (replicate 64 CHR ''p'') (sg_Now S) (Some (sg_Random S)) = Inr req"
    "header_values req ''Signature-Input'' = [''agentssh='' @ render_params (signing_input S)]" "hr_Method req = hr_Method (sg_Request S)"
    using SignHTTPRequest_eq [OF assms, of "replicate 64 CHR ''p''" sha sign] by auto
  have "header_get req ''Signature-Input'' = ''agentssh='' @ render_params (signing_input S)" unfolding header_get_def r(2) by simp
  then have "signatureInputPattern (header_get req ''Signature-Input'') = Some (signing_input S)" using pattern_render [OF signing_input_ok [OF assms]] by (simp only:)
  then have "RequestKeyID req = sg_KeyID S" by (simp add: RequestKeyID_def signing_input_def)
  then show ?thesis using that r(1,3) by blast
qed

definition sound_deployment :: deployment where
  "sound_deployment = sample_deployment\<lparr>dp_verify := (\<lambda>k m s. m = signed_text (\<lambda>b. b) sample_signing), dp_Base := ''https://gw/v1''\<rparr>"

definition keyed_system :: control_sys where
  "keyed_system = \<lparr>sy_Store = empty_control\<lparr>cs_Devices := [(''dev_1'', sample_device\<lparr>dr_PublicKey := sample_pub\<rparr>)]\<rparr>, sy_Now = 1000 * second,
     sy_Flights = [], sy_Admitted = [], sy_Enrolled = []\<rparr>"

lemma sample_served:
  "\<exists>f s. (control_step sound_deployment)\<^sup>*\<^sup>* keyed_system s \<and> sy_Admitted s = [f] \<and> hr_Method (fl_Request f) = ''GET'' \<and> fl_Target f = ''https://gw/v1/status''"
proof -
  let ?S = sample_signing and ?key = "replicate 32 CHR ''q''" and ?v = "dp_verify sound_deployment"
  have h: "dp_sha sound_deployment = (\<lambda>b. b)" "dp_Base sound_deployment = ''https://gw/v1''" "dp_verify sound_deployment k (signed_text (\<lambda>b. b) ?S) g" for k g
    by (simp_all add: sound_deployment_def sample_deployment_def)
  have S: "sg_Body ?S = []" "sg_KeyID ?S = ''dev_1''" "sg_Tag ?S = DeviceSignatureTag" "sg_Now ?S = 1000 * second" "hr_Target (sg_Request ?S) = ''https://gw/v1/status''"
    "hr_Method (sg_Request ?S) = ''GET''" by (simp_all add: sample_signing_def)
  obtain req where r: "SignHTTPRequest (\<lambda>b. b) (\<lambda>k m. m) (sg_Request ?S) (sg_Body ?S) (sg_KeyID ?S) (sg_Tag ?S) (replicate 64 CHR ''p'') (sg_Now ?S)
      (Some (sg_Random ?S)) = Inr req" "RequestKeyID req = sg_KeyID ?S" "hr_Method req = hr_Method (sg_Request ?S)"
    using signing_headers [OF sample_signing_ok] by blast
  have "VerifyHTTPRequest (\<lambda>b. b) ?v req (sg_Body ?S) (hr_Target (sg_Request ?S)) (sg_KeyID ?S) (sg_Tag ?S) ?key (1000 * second) =
      Inr \<lparr>rp_KeyID = sg_KeyID ?S, rp_Nonce = b64_encode True (sg_Random ?S), rp_Expires = int (unix (sg_Now ?S)) + 60\<rparr>"
    using signed_accepted [of sample_signing "replicate 64 CHR ''p''" ?key ?v "\<lambda>b. b" "\<lambda>k m. m" req "1000 * second"] sample_signing_ok h(3) r(1)
    by (simp add: S(4))
  then have v: "VerifyHTTPRequest (\<lambda>b. b) ?v req [] ''https://gw/v1/status'' ''dev_1'' DeviceSignatureTag ?key (1000 * second) =
      Inr \<lparr>rp_KeyID = ''dev_1'', rp_Nonce = b64_encode True (sg_Random ?S), rp_Expires = 1060\<rparr>" unfolding S by simp
  let ?d = "device_of_row ''dev_1'' (sample_device\<lparr>dr_PublicKey := sample_pub\<rparr>)"
  let ?f = "\<lparr>fl_ID = ''dev_1'', fl_Device = ?d, fl_Request = req, fl_Target = ''https://gw/v1/status'', fl_Body = [],
    fl_Proof = \<lparr>rp_KeyID = ''dev_1'', rp_Nonce = b64_encode True (sg_Random ?S), rp_Expires = 1060\<rparr>\<rparr>"
  have ne: "sample_pub \<noteq> []" by (simp add: sample_pub_text)
  have l: "device_lookup (sy_Store keyed_system) ''dev_1'' = Inr (?d, ?key)"
    using sample_pub_key ne by (simp add: device_lookup_def store_Device_def keyed_system_def device_of_row_def)
  have a: "device_authenticate sound_deployment ''/status'' 0 req 0 (Some []) (1000 * second) (sy_Store keyed_system) = Inr ?f"
    using v l h(1,2) r(2) S(2) by (simp add: device_authenticate_def requestBytesLimit_def maxRequestBytes_def Let_def)
  let ?s1 = "keyed_system\<lparr>sy_Flights := [?f]\<rparr>"
  have 1: "control_step sound_deployment keyed_system ?s1"
    using control_step.authenticate [of sound_deployment "''/status''" 0 req 0 "Some []" keyed_system ?f] a by (simp add: keyed_system_def)
  obtain st where c: "device_admit None ?f (1000 * second) (sy_Store keyed_system) = (st, Served ?d [])"
    by (auto simp: device_admit_def consumeNonce_def keyed_system_def empty_control_def sample_device_def)
  have 2: "control_step sound_deployment ?s1 (?s1\<lparr>sy_Store := st, sy_Flights := [], sy_Admitted := [?f]\<rparr>)"
    using control_step.admit [of ?f ?s1 None st "Served ?d []" sound_deployment] c by (simp add: keyed_system_def)
  let ?s2 = "?s1\<lparr>sy_Store := st, sy_Flights := [], sy_Admitted := [?f]\<rparr>"
  have "(control_step sound_deployment)\<^sup>*\<^sup>* keyed_system ?s2" using 1 2 by (meson r_into_rtranclp rtranclp_trans)
  then show ?thesis using r(3) S(6) by (intro exI [of _ ?f] exI [of _ ?s2]) simp
qed

theorem served_was_signed_witness:
  "\<exists>s f key S. (control_step sound_deployment)\<^sup>*\<^sup>* keyed_system s \<and> sy_Admitted s = [f] \<and> S = sample_signing \<and> sg_KeyID S = fl_ID f \<and>
     hr_Target (sg_Request S) = fl_Target f \<and> DecodePublicKey sample_pub = Inr key"
proof -
  obtain f s where s: "(control_step sound_deployment)\<^sup>*\<^sup>* keyed_system s" "sy_Admitted s = [f]" "hr_Method (fl_Request f) = ''GET''" "fl_Target f = ''https://gw/v1/status''"
    using sample_served by blast
  have n: "newline \<notin> set ''GET''" "newline \<notin> set ''https://gw/v1/status''" by simp_all
  have u: "\<exists>S \<in> {sample_signing}. signing_ok S \<and> m = signed_text (dp_sha sound_deployment) S" if "dp_verify sound_deployment key m sig" for key m sig
    using that sample_signing_ok by (simp add: sound_deployment_def sample_deployment_def)
  have "\<exists>row key S. gget (cs_Devices (sy_Store s)) (fl_ID f) = Some row \<and> DecodePublicKey (dr_PublicKey row) = Inr key \<and> S \<in> {sample_signing} \<and>
    sg_KeyID S = fl_ID f \<and> sg_Tag S = DeviceSignatureTag \<and> hr_Method (sg_Request S) = hr_Method (fl_Request f) \<and> hr_Target (sg_Request S) = fl_Target f \<and>
    dp_sha sound_deployment (sg_Body S) = dp_sha sound_deployment (fl_Body f) \<and> rp_Nonce (fl_Proof f) = b64_encode True (sg_Random S) \<and> rp_Expires (fl_Proof f) = int (unix (sg_Now S)) + 60"
    by (rule served_was_signed [of keyed_system sound_deployment s f "\<lambda>_. {sample_signing}"])
      (use s n u in \<open>simp_all add: keyed_system_def\<close>)
  then have "sg_KeyID sample_signing = fl_ID f \<and> hr_Target (sg_Request sample_signing) = fl_Target f" by auto
  then show ?thesis using s(1,2) sample_pub_key by blast
qed

definition sample_enroll :: EnrollRequest where
  "sample_enroll = \<lparr>er_TokenID = ''et_1'', er_TokenSecret = ''s'', er_PublicKey = sample_pub\<rparr>"

definition enroll_signing :: signing where
  "enroll_signing = \<lparr>sg_Request = \<lparr>hr_Method = ''POST'', hr_Target = ''https://gw/v1/enroll'', hr_Header = []\<rparr>,
     sg_Body = enroll_request_json sample_enroll, sg_KeyID = ''et_1'', sg_Tag = EnrollSignatureTag, sg_Now = 1000 * second,
     sg_Random = replicate 32 CHR ''r''\<rparr>"

lemma enroll_signing_ok: "signing_ok enroll_signing"
  by (simp add: enroll_signing_def signing_ok_def validKeyID_chars key_char_def RequestLifetime_def)

lemma enroll_body: "length (enroll_request_json sample_enroll) \<le> maxRequestBytes"
  "DecodeBody [''token_id'', ''token_secret'', ''public_key''] read_enroll (enroll_request_json sample_enroll) = Some sample_enroll"
proof -
  have "length (json_string sample_pub) \<le> 300" using json_string_length [of sample_pub] sample_pub_valid(2) by simp
  moreover have "length (json_string ''et_1'') \<le> 30" "length (json_string ''s'') \<le> 30"
    using json_string_length [of "''et_1''"] json_string_length [of "''s''"] by simp_all
  moreover have "length (json_string ''token_id'') \<le> 80" "length (json_string ''token_secret'') \<le> 80" "length (json_string ''public_key'') \<le> 80"
    using json_string_length [of "''token_id''"] json_string_length [of "''token_secret''"] json_string_length [of "''public_key''"] by simp_all
  ultimately show "length (enroll_request_json sample_enroll) \<le> maxRequestBytes"
    by (simp add: enroll_request_json_def sample_enroll_def json_object_def field_def json_members_def json_member_def present_def maxRequestBytes_def)
  show "DecodeBody [''token_id'', ''token_secret'', ''public_key''] read_enroll (enroll_request_json sample_enroll) = Some sample_enroll"
    unfolding decode_enroll by (simp add: sample_enroll_def json_clean_valid sample_pub_valid(1) valid_ascii ascii_def)
qed

definition token_system :: control_sys where
  "token_system = \<lparr>sy_Store = empty_control\<lparr>cs_Tokens := [(''et_1'', \<lparr>tr_Name = ''laptop'', tr_Secret = ''s'', tr_URL = ''https://gw/v1'',
     tr_ExpiresAt = FormatTime (1100 * second), tr_UsedAt = []\<rparr>)]\<rparr>, sy_Now = 1000 * second, sy_Flights = [], sy_Admitted = [], sy_Enrolled = []\<rparr>"

definition trusting :: deployment where
  "trusting = sample_deployment\<lparr>dp_verify := (\<lambda>k m s. True), dp_Base := ''https://gw/v1''\<rparr>"

lemma sample_enrolled: "\<exists>s. control_step trusting token_system s \<and> sy_Enrolled s = [(''et_1'', ''dev_'')]"
proof -
  let ?S = enroll_signing and ?key = "replicate 32 CHR ''q''" and ?v = "dp_verify trusting"
  have h: "dp_sha trusting = (\<lambda>b. b)" "dp_H trusting = (\<lambda>b. b)" "dp_Base trusting = ''https://gw/v1''" "?v k m g" for k m g
    by (simp_all add: trusting_def sample_deployment_def)
  have S: "sg_Body ?S = enroll_request_json sample_enroll" "sg_KeyID ?S = ''et_1''" "sg_Tag ?S = EnrollSignatureTag" "sg_Now ?S = 1000 * second"
    "hr_Target (sg_Request ?S) = ''https://gw/v1/enroll''" by (simp_all add: enroll_signing_def)
  have q: "er_TokenID sample_enroll = ''et_1''" "er_TokenSecret sample_enroll = ''s''" "er_PublicKey sample_enroll = sample_pub"
    by (simp_all add: sample_enroll_def)
  obtain req where r: "SignHTTPRequest (\<lambda>b. b) (\<lambda>k m. m) (sg_Request ?S) (sg_Body ?S) (sg_KeyID ?S) (sg_Tag ?S) (replicate 64 CHR ''p'') (sg_Now ?S)
      (Some (sg_Random ?S)) = Inr req"
    using signing_headers [OF enroll_signing_ok] by blast
  obtain p where v: "VerifyHTTPRequest (\<lambda>b. b) ?v req (enroll_request_json sample_enroll) ''https://gw/v1/enroll'' ''et_1'' EnrollSignatureTag ?key (1000 * second) = Inr p"
    using signed_accepted [of ?S "replicate 64 CHR ''p''" ?key ?v "\<lambda>b. b" "\<lambda>k m. m" req "1000 * second"] enroll_signing_ok h(4) r by (simp add: S)
  have t: "ParseTime (FormatTime (1100 * second)) = int (1100 * second)" by (rule ParseTime_FormatTime [OF year_1970]) simp
  obtain st d where rd: "RedeemEnrollToken (\<lambda>b. b) ''et_1'' ''s'' ''https://gw/v1'' sample_pub (1000 * second) [] (sy_Store token_system) = (st, Inr d)" "dv_ID d = ''dev_''"
    using sample_pub_key t by (simp add: RedeemEnrollToken_def token_system_def empty_control_def ghas_def Let_def hex_string_def)
  have n: "sy_Now token_system = 1000 * second" by (simp add: token_system_def)
  have "handleEnroll trusting req (Some (enroll_request_json sample_enroll)) (1000 * second) (sy_Now token_system) [] (sy_Store token_system) = (st, EnrolledAs ''dev_'')"
    using enroll_body v rd sample_pub_key by (simp add: handleEnroll_def requestBytesLimit_def h q PathEnroll_def n)
  from control_step.enroll [OF this] have "control_step trusting token_system
      (token_system\<lparr>sy_Store := st, sy_Enrolled := [(enrolled_by trusting (Some (enroll_request_json sample_enroll)), ''dev_'')]\<rparr>)"
    by (simp add: n) (simp add: token_system_def)
  moreover have "enrolled_by trusting (Some (enroll_request_json sample_enroll)) = ''et_1''" by (simp add: enrolled_by_def enroll_body(2) q)
  ultimately show ?thesis
    by (intro exI [of _ "token_system\<lparr>sy_Store := st, sy_Enrolled := [(''et_1'', ''dev_'')]\<rparr>"] conjI) (simp_all add: token_system_def)
qed

theorem token_enrols_once_witness:
  "\<exists>s. (control_step trusting)\<^sup>*\<^sup>* token_system s \<and> sy_Enrolled s = [(''et_1'', ''dev_'')] \<and> distinct (map fst (sy_Enrolled s))"
proof -
  obtain s where s: "control_step trusting token_system s" "sy_Enrolled s = [(''et_1'', ''dev_'')]" using sample_enrolled by blast
  have "distinct (map fst (sy_Enrolled s))"
    by (rule token_enrols_once [of token_system trusting s]) (use s(1) in \<open>auto simp: token_system_def\<close>)
  then show ?thesis using s by blast
qed

section \<open>The list of devices\<close>

text \<open>
  The texts of two times of the same second do not sort like the times: the fraction is left out when it
  is zero, and a point sorts before a \<open>Z\<close>. So the list of the devices is not oldest first.
\<close>

lemma less_after_prefix: "xs < ys \<Longrightarrow> p @ xs < p @ (ys :: string)" by (induction p) auto

lemma format_time_second: "t div second = u div second \<Longrightarrow> format_time t = format_time u" by (simp add: format_time_def)

lemma fraction_sorts_first:
  assumes "0 < n" "n < second"
  shows "FormatTime (k * second + n) < FormatTime (k * second)"
proof -
  have "(k * second + n) div second = k * second div second" using assms(2) by simp
  then have f: "format_time (k * second + n) = format_time (k * second)" by (rule format_time_second)
  have "fraction n @ ''Z'' < ''Z''" using assms(1) by (simp add: fraction_def less_char_def)
  then show ?thesis using assms(2) less_after_prefix by (simp add: FormatTime_def f fraction_def)
qed

definition two_devices :: control_store where
  "two_devices = empty_control\<lparr>cs_Devices := [(''dev_a'', sample_device\<lparr>dr_CreatedAt := FormatTime 0\<rparr>),
     (''dev_b'', sample_device\<lparr>dr_CreatedAt := FormatTime 500000000\<rparr>)]\<rparr>"

lemma devices_not_oldest_first: "map dv_ID (Devices two_devices) = [''dev_b'', ''dev_a''] \<and> map dv_CreatedAt (Devices two_devices) = [500000000, 0]"
proof -
  have t: "ParseTime (FormatTime 0) = 0" "ParseTime (FormatTime 500000000) = 500000000"
    using ParseTime_FormatTime [OF year_1970, of 0] ParseTime_FormatTime [OF year_1970, of 500000000] by simp_all
  have l: "FormatTime 500000000 < FormatTime 0" using fraction_sorts_first [of 500000000 0] by simp
  then have "Devices two_devices = [device_of_row ''dev_b'' (sample_device\<lparr>dr_CreatedAt := FormatTime 500000000\<rparr>),
      device_of_row ''dev_a'' (sample_device\<lparr>dr_CreatedAt := FormatTime 0\<rparr>)]"
    by (auto simp: Devices_def two_devices_def empty_control_def)
  then show ?thesis using t by (simp add: device_of_row_def)
qed

end
