(* ===== verification/GatewayStanding.thy ===== *)
theory GatewayStanding
  imports OAuthGrants ControlPlane
begin

text \<open>
  What the gateway's standing rules promise over any run: a window opens only once its activation is in the
  audit log, each security fact is published once, a deactivation holds whether or not it could be published,
  and a revoked device stays inactive.
\<close>

section \<open>How the audit log grows\<close>

inductive log_grows :: "(string \<Rightarrow> string) \<Rightarrow> log \<Rightarrow> log \<Rightarrow> bool" for H l where
  same: "log_grows H l l"
| plain: "log_grows H l l1 \<Longrightarrow> a_EventID r = [] \<Longrightarrow> AppendUnless H now l1 r ex = (l2, x) \<Longrightarrow> log_grows H l l2"
| fact: "log_grows H l l1 \<Longrightarrow> valid_string (a_EventID r) \<Longrightarrow> AppendUnless H now l1 r (Some (same_fact r)) = (l2, x) \<Longrightarrow> log_grows H l l2"

lemma AppendUnless_cases:
  assumes "AppendUnless H now l r ex = (l', x)"
  obtains "l' = l"
  | rs where "l = Some rs" "l' = write_records l [chained H now rs r]" "\<forall>p. ex = Some p \<longrightarrow> (\<forall>old \<in> set rs. \<not> p old)"
      "x = Inr (chained H now rs r, True)"
proof -
  note a = assms [unfolded AppendUnless_def ReadAll_def]
  show ?thesis
  proof (cases l)
    case (Some rs)
    show ?thesis
    proof (cases "v_OK (verifyRecords H rs) \<and> (case ex of None \<Rightarrow> True | Some p \<Rightarrow> find p rs = None)")
      case True
      then have "\<forall>p. ex = Some p \<longrightarrow> (\<forall>old \<in> set rs. \<not> p old)" by (auto simp: find_None_iff split: option.splits)
      then show ?thesis using that(2) [OF Some] a True Some by (auto simp: Let_def split: option.splits)
    next
      case False
      then show ?thesis using that(1) a Some by (auto split: option.splits if_splits)
    qed
  qed (use a that(1) in simp)
qed

lemma grows_trans: "log_grows H l' l'' \<Longrightarrow> log_grows H l l' \<Longrightarrow> log_grows H l l''"
  by (induction rule: log_grows.induct) (auto intro: log_grows.intros)

lemma append_extends: "AppendUnless H now l r ex = (l', x) \<Longrightarrow> l' = Some rs' \<Longrightarrow> \<exists>rs xs. l = Some rs \<and> rs' = rs @ xs"
  by (erule AppendUnless_cases) (auto simp: write_records_def split: option.splits if_splits)

lemma grows_extends: "log_grows H l l' \<Longrightarrow> l' = Some rs' \<Longrightarrow> \<exists>rs xs. l = Some rs \<and> rs' = rs @ xs"
proof (induction arbitrary: rs' rule: log_grows.induct)
  case (plain l1 r now ex l2 x)
  from append_extends [OF plain(3,5)] plain(4) show ?case by fastforce
next
  case (fact l1 r now l2 x)
  from append_extends [OF fact(3,5)] fact(4) show ?case by fastforce
qed simp


lemma chained_event: "a_EventID (chained H now rs r) = a_EventID r" "a_Event (chained H now rs r) = a_Event r"
    "a_DeviceID (chained H now rs r) = a_DeviceID r" "a_ActiveUntil (chained H now rs r) = a_ActiveUntil r"
  by (simp_all add: chained_def linked_def Let_def)

lemma read_back_event: "valid_string (a_EventID r) \<Longrightarrow> a_EventID (read_back r) = a_EventID r"
  by (simp add: read_back_def json_clean_valid)



section \<open>Every operation lets it grow\<close>

definition events_ok :: "gateway_db \<Rightarrow> bool" where
  "events_ok db \<longleftrightarrow> wf_map (gd_Events db) \<and> (\<forall>i ev. gget (gd_Events db) i = Some ev \<longrightarrow> a_EventID (ev_Record ev) = i \<and> valid_string i)"

definition same_tables :: "gateway_db \<Rightarrow> gateway_db \<Rightarrow> bool" where
  "same_tables db db' \<longleftrightarrow> gd_Control db' = gd_Control db \<and> gd_Activations db' = gd_Activations db \<and> gd_Revocations db' = gd_Revocations db"

text \<open>What publication may do: append to the log and mark events.\<close>

definition publishes :: "(string \<Rightarrow> string) \<Rightarrow> gateway_db \<Rightarrow> gateway_db \<Rightarrow> bool" where
  "publishes H db db' \<longleftrightarrow> events_ok db \<longrightarrow> events_ok db' \<and> log_grows H (gd_Log db) (gd_Log db') \<and>
     (\<forall>i ev. gget (gd_Events db) i = Some ev \<longrightarrow> (\<exists>ev'. gget (gd_Events db') i = Some ev' \<and> ev_Record ev' = ev_Record ev \<and> (ev_Audited ev \<longrightarrow> ev_Audited ev')))"

lemma publishes_refl: "publishes H db db"
  by (simp add: publishes_def log_grows.same)

lemma publishes_tables: "publishes H db db1 \<Longrightarrow> gd_Events db' = gd_Events db1 \<Longrightarrow> gd_Log db' = gd_Log db1 \<Longrightarrow> publishes H db db'"
proof -
  assume p: "publishes H db db1" and e: "gd_Events db' = gd_Events db1" "gd_Log db' = gd_Log db1"
  have ok: "events_ok db' = events_ok db1" unfolding events_ok_def e ..
  show ?thesis using p unfolding publishes_def ok e .
qed

lemma publishes_trans: "publishes H db db' \<Longrightarrow> publishes H db' db'' \<Longrightarrow> publishes H db db''"
proof -
  assume a: "publishes H db db'" "publishes H db' db''"
  show ?thesis unfolding publishes_def
  proof (intro impI conjI allI)
    assume ok: "events_ok db"
    then have ok': "events_ok db'" using a(1) by (simp add: publishes_def)
    then show "events_ok db''" using a(2) by (simp add: publishes_def)
    show "log_grows H (gd_Log db) (gd_Log db'')" using a ok ok' grows_trans by (fastforce simp: publishes_def)
    fix i ev assume "gget (gd_Events db) i = Some ev"
    then obtain ev' where "gget (gd_Events db') i = Some ev'" "ev_Record ev' = ev_Record ev" "ev_Audited ev \<longrightarrow> ev_Audited ev'"
      using a(1) ok unfolding publishes_def by blast
    then show "\<exists>ev''. gget (gd_Events db'') i = Some ev'' \<and> ev_Record ev'' = ev_Record ev \<and> (ev_Audited ev \<longrightarrow> ev_Audited ev'')"
      using a(2) ok' unfolding publishes_def by metis
  qed
qed

lemma append_publishes:
  assumes "appendSecurityRecord H now io r db = (db', e)" "valid_string (a_EventID r)"
  shows "publishes H db db' \<and> same_tables db db' \<and> gd_Events db' = gd_Events db"
  using assms log_grows.fact [OF log_grows.same, of r H now "gd_Log db"]
  by (auto simp: appendSecurityRecord_def publishes_def events_ok_def same_tables_def intro: log_grows.same split: prod.splits sum.splits if_splits)

lemma record_publishes:
  assumes "publishSecurityRecord H now io r db = (db', e)" "valid_string (a_EventID r)"
  shows "publishes H db db' \<and> same_tables db db'"
proof -
  obtain db1 e1 where a: "appendSecurityRecord H now io r db = (db1, e1)" by (cases "appendSecurityRecord H now io r db")
  note p = append_publishes [OF a assms(2)]
  have "publishes H db1 db' \<and> same_tables db1 db'"
    using assms(1) a by (auto simp: publishSecurityRecord_def publishes_def events_ok_def same_tables_def intro: log_grows.same split: option.splits if_splits)
  then show ?thesis using p publishes_trans by (auto simp: same_tables_def)
qed

lemma audit_publishes:
  assumes "publishSecurityAudit H now io key db = (db', e)" "events_ok db"
  shows "publishes H db db' \<and> same_tables db db'"
proof (cases "\<exists>ev. gget (gd_Events db) (H key) = Some ev \<and> \<not> ev_Audited ev")
  case True
  then obtain ev where ev: "gget (gd_Events db) (H key) = Some ev" "\<not> ev_Audited ev" by blast
  then have "publishSecurityRecord H now io (ev_Record ev) db = (db', e)" using assms(1) by (simp add: publishSecurityAudit_def)
  moreover have "valid_string (a_EventID (ev_Record ev))" using assms(2) ev(1) unfolding events_ok_def by metis
  ultimately show ?thesis by (rule record_publishes)
next
  case False
  then have "db' = db" using assms(1) by (auto simp: publishSecurityAudit_def split: option.splits if_splits)
  then show ?thesis by (simp add: publishes_refl same_tables_def)
qed

lemma hash_text: "hex_hash H \<Longrightarrow> valid_string (H k) \<and> H k \<noteq> []"
  unfolding hex_hash_def by (metis length_0_conv numeral_eq_iff verit_eq_simplify(8) zero_neq_numeral)

lemma enqueue_publishes: "hex_hash H \<Longrightarrow> publishes H db (enqueueSecurityAudit H key r db) \<and> same_tables db (enqueueSecurityAudit H key r db)"
  using hash_text [of H key] read_back_event [of "r\<lparr>a_EventID := H key\<rparr>"]
  by (auto simp: enqueueSecurityAudit_def publishes_def events_ok_def same_tables_def Let_def ghas_def intro: log_grows.same)

text \<open>What closing keeps of the windows: when each ends, and who closed it.\<close>

abbreviation window_of :: "gateway_db \<Rightarrow> string \<Rightarrow> (string \<times> string) option" where
  "window_of db d \<equiv> map_option (\<lambda>r. (aw_Until r, aw_ClosedBy r)) (gget (gd_Activations db) d)"

definition keeps :: "(string \<Rightarrow> string) \<Rightarrow> gateway_db \<Rightarrow> gateway_db \<Rightarrow> bool" where
  "keeps H db db' \<longleftrightarrow> publishes H db db' \<and> gd_Control db' = gd_Control db \<and> (\<forall>d. window_of db' d = window_of db d)"

lemma keeps_refl: "keeps H db db" by (simp add: keeps_def publishes_refl)

lemma keeps_trans: "keeps H db db' \<Longrightarrow> keeps H db' db'' \<Longrightarrow> keeps H db db''"
  using publishes_trans by (auto simp: keeps_def)

lemma keeps_events: "keeps H db db' \<Longrightarrow> events_ok db \<Longrightarrow> events_ok db'"
  by (simp add: keeps_def publishes_def)

lemma same_keeps: "publishes H db db' \<and> same_tables db db' \<Longrightarrow> keeps H db db'"
  by (simp add: keeps_def same_tables_def)

lemma collect_keeps: "hex_hash H \<Longrightarrow> keeps H db (collectActivationEnd H a now db)"
proof -
  assume h: "hex_hash H"
  obtain db1 where e: "keeps H db db1" and c: "collectActivationEnd H a now db = (case gget (gd_Activations db1) (ac_DeviceID a) of None \<Rightarrow> db1
      | Some r \<Rightarrow> if aw_Until r = stored (ac_Until a) \<and> aw_SetAt r = stored (ac_SetAt a)
          then db1\<lparr>gd_Activations := gput (ac_DeviceID a) (r\<lparr>aw_Recorded := True\<rparr>) (gd_Activations db1)\<rparr> else db1)"
    by (rule that [OF same_keeps [OF enqueue_publishes [OF h]]]) (unfold collectActivationEnd_def Let_def, rule refl)
  have "keeps H db1 (collectActivationEnd H a now db)"
    unfolding c by (auto simp: keeps_def publishes_def events_ok_def intro: log_grows.same split: option.splits)
  then show ?thesis using e keeps_trans by blast
qed

lemma record_end_keeps:
  assumes "recordActivationEnd H io a now db = (db', e)" "hex_hash H" "events_ok db"
  shows "keeps H db db'"
proof -
  note c = collect_keeps [OF assms(2), of db a now]
  obtain e1 where "publishSecurityAudit H now io (activationEndKey a) (collectActivationEnd H a now db) = (db', e1)"
    using assms(1) by (auto simp: recordActivationEnd_def split: prod.splits)
  from same_keeps [OF audit_publishes [OF this keeps_events [OF c assms(3)]]] show ?thesis using c keeps_trans by blast
qed

lemma publish_all_keeps:
  assumes "publish_all H now io rs db = (db', e)" "\<forall>r \<in> set rs. valid_string (a_EventID r)"
  shows "keeps H db db'"
  using assms
proof (induction rs arbitrary: db e)
  case (Cons r rs)
  obtain db1 e1 where r: "publishSecurityRecord H now io r db = (db1, e1)" by (cases "publishSecurityRecord H now io r db")
  obtain e2 where rs: "publish_all H now io rs db1 = (db', e2)" using Cons.prems(1) r by (auto split: prod.splits)
  have "keeps H db db1" using same_keeps [OF record_publishes [OF r]] Cons.prems(2) by simp
  moreover have "keeps H db1 db'" using Cons.IH [OF rs] Cons.prems(2) by simp
  ultimately show ?case by (rule keeps_trans)
qed (simp add: keeps_refl)

lemma pending_texts: "events_ok db \<Longrightarrow> \<forall>r \<in> set (map (ev_Record \<circ> snd) (filter P (gd_Events db))). valid_string (a_EventID r)"
  by (fastforce simp: events_ok_def wf_map_mem)

lemma record_ends_keeps:
  assumes "record_ends H io now ds db = (db', e)" "hex_hash H" "events_ok db"
  shows "keeps H db db'"
  using assms
proof (induction ds arbitrary: db e)
  case (Cons d ds)
  obtain a active where a: "deviceActive db d now = (a, active)" by (cases "deviceActive db d now")
  obtain db1 e1 where 1: "(if \<not> active \<and> ac_Until a \<noteq> zero_time \<and> ac_ClosedBy a = [] then recordActivationEnd H io a now db else (db, None)) = (db1, e1)"
    by (cases "if \<not> active \<and> ac_Until a \<noteq> zero_time \<and> ac_ClosedBy a = [] then recordActivationEnd H io a now db else (db, None)")
  have k: "keeps H db db1" using 1 record_end_keeps Cons.prems keeps_refl by (fastforce split: if_splits)
  obtain e2 where "record_ends H io now ds db1 = (db', e2)" using Cons.prems(1) a 1 by (auto split: prod.splits)
  from Cons.IH [OF this Cons.prems(2) keeps_events [OF k Cons.prems(3)]] show ?case using k keeps_trans by blast
qed (simp add: keeps_refl)

lemma pending_keeps: "RecordPendingAudits H now io db = (db', e) \<Longrightarrow> events_ok db \<Longrightarrow> keeps H db db'"
  unfolding RecordPendingAudits_def by (erule publish_all_keeps) (rule pending_texts)

lemma sweep_keeps:
  assumes "RecordEndedActivations H io now db = (db', e)" "hex_hash H" "events_ok db"
  shows "keeps H db db'"
proof -
  obtain ds where ds: "ds = map fst (filter (\<lambda>(_, r). \<not> aw_Recorded r) (gd_Activations db))" by blast
  obtain db1 e1 where 1: "record_ends H io now ds db = (db1, e1)" by (cases "record_ends H io now ds db")
  have k: "keeps H db db1" by (rule record_ends_keeps [OF 1 assms(2,3)])
  obtain e2 where "RecordPendingAudits H now io db1 = (db', e2)"
    using assms(1) 1 unfolding RecordEndedActivations_def ds [symmetric] by (auto split: prod.splits)
  from pending_keeps [OF this keeps_events [OF k assms(3)]] show ?thesis using k keeps_trans by blast
qed

lemma check_keeps: "checkActivation H d now db = (db', x) \<Longrightarrow> hex_hash H \<Longrightarrow> keeps H db db'"
  using collect_keeps keeps_refl by (fastforce simp: checkActivation_def Let_def split: prod.splits if_splits)

lemma plain_record_grows: "AppendUnless H now l r ex = (l', x) \<Longrightarrow> a_EventID r = [] \<Longrightarrow> log_grows H l l'"
  by (rule log_grows.plain [OF log_grows.same])

lemma revocation_event: "a_EventID (revocation_record d r) = []" by (simp add: revocation_record_def blank_record_def)

lemma revocation_record_keeps: "recordDeviceRevocation H io now d db = (db', e) \<Longrightarrow> keeps H db db'"
  using plain_record_grows [OF _ revocation_event]
  by (fastforce simp: recordDeviceRevocation_def keeps_def publishes_def events_ok_def Let_def intro: log_grows.same
    split: option.splits if_splits prod.splits sum.splits)

lemma revocations_keep: "record_revocations H io now ds db = (db', e) \<Longrightarrow> keeps H db db'"
proof (induction ds arbitrary: db)
  case (Cons d ds)
  obtain db1 e1 where 1: "recordDeviceRevocation H io now d db = (db1, e1)" by (cases "recordDeviceRevocation H io now d db")
  note k = revocation_record_keeps [OF 1]
  show ?case
  proof (cases e1)
    case None
    then have "keeps H db1 db'" using Cons 1 by simp
    then show ?thesis using k keeps_trans by blast
  qed (use Cons.prems 1 k in simp)
qed (simp add: keeps_refl)

text \<open>A revocation of a grant changes no window and no device.\<close>

lemma mark_keeps: "mark_revoked i operator now db = (db', n) \<Longrightarrow> keeps H db db'"
  by (auto simp: mark_revoked_def keeps_def publishes_def events_ok_def intro: log_grows.same split: option.splits if_splits)

lemma enqueue_keeps: "hex_hash H \<Longrightarrow> keeps H db (if c then enqueueSecurityAudit H key r db else db)"
  using same_keeps [OF enqueue_publishes] keeps_refl by simp

lemma audit_keeps:
  assumes "(if c then publishSecurityAudit H now io key db else (db, None)) = (db', e)" "events_ok db"
  shows "keeps H db db'"
  using assms same_keeps [OF audit_publishes] keeps_refl by (auto split: if_splits)

lemma revocation_tx_keeps:
  assumes "revocation_tx H g operator remark now refreshID db = (db', n)" "hex_hash H"
  shows "keeps H db db'"
proof -
  obtain db1 n1 where 1: "mark_revoked (gt_ID g) operator now db = (db1, n1)" by fastforce
  have "keeps H db1 (if c2 then enqueueSecurityAudit H k2 r2 (if c1 then enqueueSecurityAudit H k1 r1 db1 else db1)
      else (if c1 then enqueueSecurityAudit H k1 r1 db1 else db1))" for c1 c2 k1 k2 r1 r2
    by (rule keeps_trans [OF enqueue_keeps [OF assms(2)] enqueue_keeps [OF assms(2)]])
  then have "keeps H db1 db'" using assms(1) unfolding revocation_tx_def 1 Let_def prod.case by (metis prod.inject)
  then show ?thesis by (rule keeps_trans [OF mark_keeps [OF 1]])
qed

lemma revokeGrant_keeps:
  assumes "revokeGrant H io g operator remark now refreshID db = (db', n, e)" "hex_hash H" "events_ok db"
  shows "keeps H db db'"
proof -
  obtain db1 n1 where 1: "revocation_tx H g operator remark now refreshID db = (db1, n1)" by fastforce
  obtain db2 e1 where 2: "(if refreshID \<noteq> [] then publishSecurityAudit H now io (refusalKey refreshID) db1 else (db1, None)) = (db2, e1)" by fastforce
  obtain db3 e2 where 3: "publishSecurityAudit H now io (grantKey g) db2 = (db3, e2)" by fastforce
  note k1 = revocation_tx_keeps [OF 1 assms(2)]
  note k2 = audit_keeps [OF 2 keeps_events [OF k1 assms(3)]]
  note k3 = audit_keeps [where c = True, simplified, OF 3 keeps_events [OF k2 keeps_events [OF k1 assms(3)]]]
  have "db' = db3" using assms(1) unfolding revokeGrant_def 1 Let_def prod.case 2 3 by simp
  then show ?thesis using keeps_trans [OF k1 keeps_trans [OF k2 k3]] by simp
qed

section \<open>Opening and closing windows\<close>

definition activated :: "string \<Rightarrow> instant \<Rightarrow> auditRecord list \<Rightarrow> bool" where
  "activated d u rs \<longleftrightarrow> (\<exists>x \<in> set rs. a_Event x = EventDeviceActivated \<and> a_DeviceID x = json_clean d \<and> a_ActiveUntil x = format_time u)"

lemma activated_append: "activated d u rs \<Longrightarrow> activated d u (rs @ xs)"
  by (auto simp: activated_def)

lemma append_new:
  assumes "AppendUnless H now l r (Some p) = (l', Inr y)" "\<And>old. \<not> p old"
  shows "\<exists>rs. l = Some rs \<and> l' = write_records l [chained H now rs r]"
proof -
  have "find p rs = None" for rs using assms(2) by (simp add: find_None_iff)
  then show ?thesis using assms(1) by (auto simp: AppendUnless_def ReadAll_def Let_def split: option.splits if_splits)
qed

lemma begin_activated:
  assumes "appendSecurityRecord H now io r db = (db', None)" "a_EventID r = []" "a_Event r = EventDeviceActivated" "a_DeviceID r = d"
    "a_ActiveUntil r = format_time u" "gd_Log db' = Some rs'"
  shows "activated d u rs'"
proof -
  obtain y where "AppendUnless H now (gd_Log db) r (Some (same_fact r)) = (gd_Log db', Inr y)"
    using assms(1) by (auto simp: appendSecurityRecord_def split: if_splits prod.splits sum.splits)
  moreover have "\<not> same_fact r old" for old using assms(2) by (simp add: same_fact_def)
  ultimately obtain rs where "gd_Log db = Some rs" "gd_Log db' = write_records (gd_Log db) [chained H now rs r]" using append_new by blast
  then have "read_back (chained H now rs r) \<in> set rs'" using assms(6) by (auto simp: write_records_def split: if_splits)
  moreover have "json_clean EventDeviceActivated = EventDeviceActivated"
    by (simp add: EventDeviceActivated_def json_clean_valid valid_ascii ascii_def)
  moreover have "json_clean (format_time u) = format_time u" by (rule json_clean_valid [OF format_time_valid])
  ultimately show ?thesis using assms(3-5) unfolding activated_def
    by (intro bexI [of _ "read_back (chained H now rs r)"]) (simp_all add: read_back_def chained_event)
qed

lemma begin_cases:
  assumes "ActivateDevice_begin H io d w operator note now db = (db', r)" "hex_hash H" "events_ok db"
  shows "keeps H db db'" and "r = Inr p \<Longrightarrow> gd_Log db' = Some rs \<Longrightarrow> activated (ac_DeviceID (pa_Window p)) (nat (ac_Until (pa_Window p))) rs"
    and "r = Inr p \<Longrightarrow> ac_DeviceID (pa_Window p) = d \<and> ac_ClosedBy (pa_Window p) = [] \<and> int MinActivation \<le> w \<and> w \<le> int MaxActivation \<and>
      ac_Until (pa_Window p) = int now + w \<and> pa_Now p = now"
proof -
  define previous where "previous = fst (loadActivation db d)"
  define expired where "expired \<longleftrightarrow> ac_Until previous \<noteq> zero_time \<and> \<not> Active previous now \<and> ac_ClosedBy previous = []"
  define rec where "rec = blank_record\<lparr>a_TS := format_time now, a_Event := EventDeviceActivated, a_DeviceID := d,
      a_Operator := operator, a_ActiveUntil := format_time (nat (int now + w)), a_Note := note\<rparr>"
  obtain db1 e1 where 1: "(if expired then recordActivationEnd H io previous now db else (db, None)) = (db1, e1)"
    by (cases "if expired then recordActivationEnd H io previous now db else (db, None)")
  have k: "keeps H db db1" using 1 record_end_keeps [OF _ assms(2,3)] keeps_refl by (auto split: if_splits)
  obtain db2 e2 where 2: "appendSecurityRecord H now io rec db1 = (db2, e2)" by (cases "appendSecurityRecord H now io rec db1")
  have ev: "a_EventID rec = []" by (simp add: rec_def blank_record_def)
  have k2: "keeps H db1 db2" using append_publishes [OF 2] ev by (intro same_keeps) simp
  have u: "db' = db \<and> (\<exists>e. r = Inl e) \<or> db' = db1 \<and> (\<exists>e. r = Inl e) \<or> db' = db2 \<and> (case e2 of Some e \<Rightarrow> \<exists>e. r = Inl e | None \<Rightarrow>
      int MinActivation \<le> w \<and> w \<le> int MaxActivation \<and>
      r = Inr \<lparr>pa_Previous = previous, pa_Expired = expired, pa_Window = \<lparr>ac_DeviceID = d, ac_Until = int now + w, ac_SetBy = operator, ac_Note = note,
        ac_SetAt = int now, ac_ClosedBy = []\<rparr>, pa_Now = now\<rparr>)"
    using assms(1) 1 2 unfolding ActivateDevice_begin_def Let_def previous_def [symmetric] expired_def [symmetric] rec_def [symmetric]
    by (auto split: sum.splits if_splits prod.splits option.splits)
  show "keeps H db db'" using u k k2 keeps_refl keeps_trans by blast
  show "r = Inr p \<Longrightarrow> ac_DeviceID (pa_Window p) = d \<and> ac_ClosedBy (pa_Window p) = [] \<and> int MinActivation \<le> w \<and> w \<le> int MaxActivation \<and>
      ac_Until (pa_Window p) = int now + w \<and> pa_Now p = now" using u by (auto split: option.splits)
  assume p: "r = Inr p" "gd_Log db' = Some rs"
  then have "e2 = None" "db' = db2" "pa_Window p = \<lparr>ac_DeviceID = d, ac_Until = int now + w, ac_SetBy = operator, ac_Note = note, ac_SetAt = int now, ac_ClosedBy = []\<rparr>"
    using u by (auto split: option.splits)
  then show "activated (ac_DeviceID (pa_Window p)) (nat (ac_Until (pa_Window p))) rs"
    using begin_activated [OF 2 [unfolded \<open>e2 = None\<close>] ev, of d "nat (int now + w)" rs] p(2) by (simp add: rec_def)
qed

lemma commit_cases:
  assumes "ActivateDevice_commit H p db = (db', r)" "hex_hash H"
  shows "(db' = db \<and> (\<exists>e. r = Inl e)) \<or>
    (r = Inr (pa_Window p) \<and> publishes H db db' \<and> gd_Control db' = gd_Control db \<and>
     (\<exists>row. gget (cs_Devices (gd_Control db)) (ac_DeviceID (pa_Window p)) = Some row \<and> dr_Status row \<noteq> DeviceRevoked) \<and>
     (\<forall>d. window_of db' d = (if d = ac_DeviceID (pa_Window p) then Some (stored (ac_Until (pa_Window p)), []) else window_of db d)))"
proof (cases "\<exists>e. r = Inl e")
  case True
  then show ?thesis using assms(1) by (auto simp: ActivateDevice_commit_def Let_def split: option.splits if_splits)
next
  case False
  define db1 where "db1 = (if pa_Expired p then collectActivationEnd H (pa_Previous p) (pa_Now p) db else db)"
  have k: "keeps H db db1" unfolding db1_def using collect_keeps [OF assms(2)] keeps_refl by simp
  let ?d = "ac_DeviceID (pa_Window p)"
  note u = assms(1) [unfolded ActivateDevice_commit_def Let_def, folded db1_def]
  obtain row where 1: "gget (cs_Devices (gd_Control db)) ?d = Some row" using u False by (cases "gget (cs_Devices (gd_Control db)) ?d") auto
  note u = u [unfolded 1 option.case]
  have 2: "\<not> dr_Status row = DeviceRevoked" using u False if_P by fastforce
  note u = u [unfolded if_not_P [OF 2]]
  have 3: "\<not> fst (loadActivation db ?d) \<noteq> pa_Previous p" using u False if_P by fastforce
  note u = u [unfolded if_not_P [OF 3]]
  have row: "gget (cs_Devices (gd_Control db)) ?d = Some row" "dr_Status row \<noteq> DeviceRevoked" "r = Inr (pa_Window p)"
    "db' = db1\<lparr>gd_Activations := gput ?d \<lparr>aw_Until = stored (ac_Until (pa_Window p)), aw_SetBy = ac_SetBy (pa_Window p),
       aw_Note = ac_Note (pa_Window p), aw_SetAt = FormatTime (pa_Now p), aw_Recorded = False, aw_ClosedBy = []\<rparr> (gd_Activations db1)\<rparr>"
    using u 1 2 by simp_all
  have "publishes H db db'" by (rule publishes_tables [of H db db1]) (use k in \<open>simp_all add: keeps_def row(4)\<close>)
  moreover have "window_of db' i = (if i = ?d then Some (stored (ac_Until (pa_Window p)), []) else window_of db i)" for i
    using k unfolding keeps_def row(4) by simp
  moreover have "gd_Control db' = gd_Control db" using k unfolding keeps_def row(4) by simp
  ultimately show ?thesis using row(1-3) by blast
qed

lemma deactivate_cases:
  assumes "DeactivateDevice H io d operator now db = (db', shut, e)" "hex_hash H" "events_ok db"
  shows "(\<not> shut \<and> keeps H db db') \<or> (shut \<and> publishes H db db' \<and> gd_Control db' = gd_Control db \<and>
    (\<forall>i. window_of db' i = (if i = d then Some (FormatTime now, operator) else window_of db i)) \<and>
    ghas (gd_Events db') (H (deactivationKey (fst (loadActivation db d)) (int now))) \<and> (e = None \<or> (\<exists>e1. e = Some (Wrapped ''the device is inactive'' e1))))"
proof (cases "Active (fst (loadActivation db d)) now \<and> ghas (cs_Devices (gd_Control db)) d")
  case False
  have "\<not> shut \<and> (db' = db \<or> (\<exists>e1. publishSecurityAudit H now io (deactivationKey (fst (loadActivation db d)) (ac_Until (fst (loadActivation db d)))) db = (db', e1)))"
    using assms(1) False by (auto simp: DeactivateDevice_def Let_def split: if_splits prod.splits)
  then show ?thesis using audit_publishes [OF _ assms(3)] same_keeps keeps_refl by blast
next
  case True
  define a where "a = fst (loadActivation db d)"
  define key where "key = deactivationKey a (int now)"
  obtain r where r: "gget (gd_Activations db) d = Some r"
    using True by (auto simp: loadActivation_def Active_def split: option.splits)
  define db1 where "db1 = db\<lparr>gd_Activations := gput d (r\<lparr>aw_Until := FormatTime now, aw_Recorded := True, aw_ClosedBy := operator\<rparr>) (gd_Activations db)\<rparr>"
  obtain db2 where k2: "keeps H db1 db2" and has: "ghas (gd_Events db2) (H key)"
    and db2: "db2 = enqueueSecurityAudit H key (blank_record\<lparr>a_TS := format_time now, a_Event := EventDeviceDeactivated, a_DeviceID := d,
         a_Operator := operator, a_ActiveUntil := format_time (nat (ac_Until a))\<rparr>) db1"
    using same_keeps [OF enqueue_publishes [OF assms(2)]] by (auto simp: enqueueSecurityAudit_def Let_def ghas_def)
  obtain e1 where p: "publishSecurityAudit H now io key db2 = (db', e1)" "e = pendingAudit ''the device is inactive'' e1" "shut"
    using assms(1) True r unfolding DeactivateDevice_def Let_def a_def [symmetric] key_def [symmetric] db2 db1_def
    by (auto simp: a_def split: prod.splits)
  have p1: "publishes H db db1" by (simp add: db1_def publishes_def events_ok_def log_grows.same)
  have ok2: "events_ok db2" using p1 k2 assms(3) by (simp add: publishes_def keeps_def)
  note k3 = same_keeps [OF audit_publishes [OF p(1) ok2]]
  have "ghas (gd_Events db') (H key)" using k3 ok2 has unfolding keeps_def publishes_def ghas_def by blast
  moreover have "publishes H db db'" using p1 k2 k3 publishes_trans unfolding keeps_def by blast
  moreover have "window_of db' i = (if i = d then Some (FormatTime now, operator) else window_of db i)" for i
    using k2 k3 by (simp add: keeps_def db1_def)
  moreover have "gd_Control db' = gd_Control db" using k2 k3 by (simp add: keeps_def db1_def)
  ultimately show ?thesis using p(2,3) by (auto simp: key_def a_def pendingAudit_def)
qed

section \<open>The gateway at work\<close>

text \<open>
  An activation begins and commits in separate steps. Operators have labels (\<open>web:\<close> or \<open>local:\<close> and a name).
  A grant of the OAuth server is revoked by an operator or for a credential that came back, with any note;
  its row is made by an operator's consent, under an identifier not used before, and clients come and go.
  The other writers of the audit log (runs, approvals, tokens, the consent itself, refused refresh tokens)
  append records without an event identifier; the control plane's own operations are those of
  \<open>ControlPlane\<close>, but for the revocation, which is the gateway's.
\<close>

record gateway_sys =
  gy_DB :: gateway_db
  gy_Now :: instant
  gy_Pending :: "pending_activation list"

inductive gateway_step :: "deployment \<Rightarrow> gateway_sys \<Rightarrow> gateway_sys \<Rightarrow> bool" for D where
  tick: "gy_Now s \<le> t \<Longrightarrow> gateway_step D s (s\<lparr>gy_Now := t\<rparr>)"
| begin_activation: "ActivateDevice_begin (dp_H D) io d w operator remark (gy_Now s) (gy_DB s) = (db, r) \<Longrightarrow>
    gateway_step D s (s\<lparr>gy_DB := db, gy_Pending := (case r of Inr p \<Rightarrow> p # gy_Pending s | Inl _ \<Rightarrow> gy_Pending s)\<rparr>)"
| commit_activation: "p \<in> set (gy_Pending s) \<Longrightarrow> ActivateDevice_commit (dp_H D) p (gy_DB s) = (db, r) \<Longrightarrow>
    gateway_step D s (s\<lparr>gy_DB := db, gy_Pending := remove1 p (gy_Pending s)\<rparr>)"
| deactivate: "operator \<noteq> [] \<Longrightarrow> DeactivateDevice (dp_H D) io d operator (gy_Now s) (gy_DB s) = (db, shut, e) \<Longrightarrow> gateway_step D s (s\<lparr>gy_DB := db\<rparr>)"
| check: "checkActivation (dp_H D) d (gy_Now s) (gy_DB s) = (db, x) \<Longrightarrow> gateway_step D s (s\<lparr>gy_DB := db\<rparr>)"
| sweep: "RecordEndedActivations (dp_H D) io (gy_Now s) (gy_DB s) = (db, e) \<Longrightarrow> gateway_step D s (s\<lparr>gy_DB := db\<rparr>)"
| revoke: "gateway_RevokeDevice (dp_H D) io d operator (gy_Now s) (gy_DB s) = (db, e) \<Longrightarrow> gateway_step D s (s\<lparr>gy_DB := db\<rparr>)"
| sweep_revocations: "RecordDeviceRevocations (dp_H D) io (gy_Now s) (gy_DB s) = (db, e) \<Longrightarrow> gateway_step D s (s\<lparr>gy_DB := db\<rparr>)"
| revoke_grant: "revokeGrant (dp_H D) io g operator remark (gy_Now s) refreshID (gy_DB s) = (db, n, e) \<Longrightarrow> gateway_step D s (s\<lparr>gy_DB := db\<rparr>)"
| consent: "\<not> ghas (gd_Grants (gy_DB s)) i \<Longrightarrow> gr_RevokedAt row = [] \<Longrightarrow>
    gateway_step D s (s\<lparr>gy_DB := (gy_DB s)\<lparr>gd_Grants := gput i row (gd_Grants (gy_DB s))\<rparr>\<rparr>)"
| clients: "gateway_step D s (s\<lparr>gy_DB := (gy_DB s)\<lparr>gd_Clients := cs\<rparr>\<rparr>)"
| audit_run: "a_EventID r = [] \<Longrightarrow> AppendUnless (dp_H D) (gy_Now s) (gd_Log (gy_DB s)) r ex = (l, x) \<Longrightarrow>
    gateway_step D s (s\<lparr>gy_DB := (gy_DB s)\<lparr>gd_Log := l\<rparr>\<rparr>)"
| control: "control_step D \<lparr>sy_Store = gd_Control (gy_DB s), sy_Now = gy_Now s, sy_Flights = fs, sy_Admitted = as, sy_Enrolled = es\<rparr> c \<Longrightarrow>
    gateway_step D s (s\<lparr>gy_DB := (gy_DB s)\<lparr>gd_Control := sy_Store c\<rparr>\<rparr>)"

definition gateway_ok :: "gateway_sys \<Rightarrow> bool" where
  "gateway_ok s \<longleftrightarrow> events_ok (gy_DB s) \<and> (\<forall>rs. gd_Log (gy_DB s) = Some rs \<longrightarrow>
     (\<forall>p \<in> set (gy_Pending s). activated (ac_DeviceID (pa_Window p)) (nat (ac_Until (pa_Window p))) rs) \<and>
     (\<forall>d u. window_of (gy_DB s) d = Some (u, []) \<longrightarrow> (\<exists>t. u = FormatTime t \<and> activated d t rs)))"

lemma revoke_cases:
  assumes "gateway_RevokeDevice H io d operator now db = (db', e)"
  shows "publishes H db db' \<and> (\<forall>i. window_of db' i = window_of db i) \<and>
    (e = Some ErrNotFound \<and> db' = db \<or> e = Some ErrUnique \<and> db' = db \<or>
     (\<exists>row. gget (cs_Devices (gd_Control db')) d = Some row \<and> dr_Status row = DeviceRevoked)) \<and>
    (\<forall>i row. gget (cs_Devices (gd_Control db)) i = Some row \<longrightarrow> dr_Status row = DeviceRevoked \<longrightarrow>
       (\<exists>row'. gget (cs_Devices (gd_Control db')) i = Some row' \<and> dr_Status row' = DeviceRevoked))"
proof (cases "gget (cs_Devices (gd_Control db)) d")
  case None
  then show ?thesis using assms publishes_refl by (simp add: gateway_RevokeDevice_def)
next
  case (Some row)
  show ?thesis
  proof (cases "dr_Status row \<noteq> DeviceRevoked \<and> ghas (gd_Revocations db) d")
    case True
    then show ?thesis using assms Some publishes_refl by (simp add: gateway_RevokeDevice_def)
  next
    case False
    define db1 where "db1 = (if dr_Status row \<noteq> DeviceRevoked then db\<lparr>gd_Control := (gd_Control db)\<lparr>cs_Devices := gput d (row\<lparr>dr_Status := DeviceRevoked,
        dr_RevokedAt := FormatTime now\<rparr>) (cs_Devices (gd_Control db))\<rparr>,
      gd_Revocations := gput d \<lparr>rw_At = FormatTime now, rw_By = operator, rw_Audited = False\<rparr> (gd_Revocations db)\<rparr> else db)"
    have r: "recordDeviceRevocation H io now d db1 = (db', e)"
      using assms Some False by (auto simp: gateway_RevokeDevice_def db1_def)
    note k = revocation_record_keeps [OF r]
    have "publishes H db db1" by (rule publishes_tables [OF publishes_refl]) (simp_all add: db1_def)
    moreover have "window_of db1 i = window_of db i" for i by (simp add: db1_def)
    moreover have "\<exists>row. gget (cs_Devices (gd_Control db1)) d = Some row \<and> dr_Status row = DeviceRevoked" using Some by (simp add: db1_def)
    moreover have "\<exists>row'. gget (cs_Devices (gd_Control db1)) i = Some row' \<and> dr_Status row' = DeviceRevoked"
      if "gget (cs_Devices (gd_Control db)) i = Some row1" "dr_Status row1 = DeviceRevoked" for i row1 using that by (simp add: db1_def)
    moreover have "gd_Control db' = gd_Control db1" "window_of db' i = window_of db1 i" "publishes H db1 db'" for i using k by (simp_all add: keeps_def)
    ultimately show ?thesis using publishes_trans [of H db db1 db'] by simp
  qed
qed

lemma gateway_publishes:
  assumes "gateway_step D s s'" "hex_hash (dp_H D)" "events_ok (gy_DB s)"
  shows "publishes (dp_H D) (gy_DB s) (gy_DB s')"
  using assms(1)
proof cases
  case (begin_activation io d w operator remark db r)
  then show ?thesis using begin_cases(1) [OF _ assms(2,3)] by (auto simp: keeps_def)
next
  case (commit_activation p db r)
  then show ?thesis using commit_cases [OF _ assms(2)] publishes_refl by fastforce
next
  case (deactivate operator io d db shut e)
  then show ?thesis using deactivate_cases [OF _ assms(2,3)] by (fastforce simp: keeps_def)
next
  case (check d db x)
  then show ?thesis using check_keeps [OF _ assms(2)] by (auto simp: keeps_def)
next
  case (sweep io db e)
  then show ?thesis using sweep_keeps [OF _ assms(2,3)] by (auto simp: keeps_def)
next
  case (revoke io d operator db e)
  then show ?thesis using revoke_cases by fastforce
next
  case (sweep_revocations io db e)
  then show ?thesis using revocations_keep by (fastforce simp: RecordDeviceRevocations_def keeps_def)
next
  case (revoke_grant io g operator remark refreshID db n e)
  then show ?thesis using revokeGrant_keeps [OF _ assms(2,3)] by (auto simp: keeps_def)
next
  case (consent i row)
  then show ?thesis by (intro publishes_tables [OF publishes_refl]) simp_all
next
  case (clients cs)
  then show ?thesis by (intro publishes_tables [OF publishes_refl]) simp_all
next
  case (audit_run r ex l x)
  then show ?thesis using plain_record_grows by (simp add: publishes_def events_ok_def)
next
  case (control fs as es c)
  then show ?thesis by (intro publishes_tables [OF publishes_refl]) simp_all
qed (simp add: publishes_refl)

lemma gateway_ok_keep:
  assumes "gateway_ok s" "publishes H (gy_DB s) (gy_DB s')" "set (gy_Pending s') \<subseteq> set (gy_Pending s)"
    "\<And>d u. window_of (gy_DB s') d = Some (u, []) \<Longrightarrow> window_of (gy_DB s) d = Some (u, [])"
  shows "gateway_ok s'"
  unfolding gateway_ok_def
proof (intro conjI allI impI ballI)
  have ok: "events_ok (gy_DB s)" using assms(1) by (simp add: gateway_ok_def)
  then show "events_ok (gy_DB s')" using assms(2) by (simp add: publishes_def)
  fix rs' assume l: "gd_Log (gy_DB s') = Some rs'"
  obtain rs xs where rs: "gd_Log (gy_DB s) = Some rs" "rs' = rs @ xs"
    using grows_extends [of H "gd_Log (gy_DB s)", OF _ l] assms(2) ok by (auto simp: publishes_def)
  show "activated (ac_DeviceID (pa_Window p)) (nat (ac_Until (pa_Window p))) rs'" if "p \<in> set (gy_Pending s')" for p
    using that assms(1,3) rs activated_append by (auto simp: gateway_ok_def)
  show "\<exists>t. u = FormatTime t \<and> activated d t rs'" if "window_of (gy_DB s') d = Some (u, [])" for d u
    using assms(4) [OF that] assms(1) rs activated_append unfolding gateway_ok_def by blast
qed

lemma gateway_ok_step:
  assumes "gateway_step D s s'" "hex_hash (dp_H D)" "gateway_ok s"
  shows "gateway_ok s'"
proof -
  have ok: "events_ok (gy_DB s)" using assms(3) by (simp add: gateway_ok_def)
  note p = gateway_publishes [OF assms(1,2) ok]
  note keep = gateway_ok_keep [OF assms(3) p]
  from assms(1) show ?thesis
  proof cases
    case (begin_activation io d w operator remark db r)
    note b = begin_cases [OF begin_activation(2) assms(2) ok]
    show ?thesis
    proof (cases r)
      case (Inl e)
      then show ?thesis using b(1) begin_activation(1) by (intro keep) (simp_all add: keeps_def)
    next
      case (Inr q)
      have "gateway_ok (s\<lparr>gy_DB := db\<rparr>)" using b(1) p begin_activation(1) by (intro gateway_ok_keep [OF assms(3), of "dp_H D"]) (simp_all add: keeps_def)
      then show ?thesis using b(2) Inr begin_activation(1) by (auto simp: gateway_ok_def)
    qed
  next
    case (commit_activation q db r)
    note c = commit_cases [OF commit_activation(3) assms(2)]
    have sub: "set (gy_Pending s') \<subseteq> set (gy_Pending s)" using commit_activation(1) set_remove1_subset by fastforce
    show ?thesis
    proof (cases "db = gy_DB s")
      case False
      let ?d = "ac_DeviceID (pa_Window q)" and ?t = "nat (ac_Until (pa_Window q))"
      have w: "window_of db i = (if i = ?d then Some (FormatTime ?t, []) else window_of (gy_DB s) i)" for i using c False by blast
      show ?thesis unfolding gateway_ok_def
      proof (intro conjI allI impI ballI)
        show "events_ok (gy_DB s')" using p ok by (simp add: publishes_def)
        fix rs' assume l: "gd_Log (gy_DB s') = Some rs'"
        obtain rs xs where rs: "gd_Log (gy_DB s) = Some rs" "rs' = rs @ xs"
          using grows_extends [of "dp_H D" "gd_Log (gy_DB s)", OF _ l] p ok by (auto simp: publishes_def)
        have a: "activated (ac_DeviceID (pa_Window x)) (nat (ac_Until (pa_Window x))) rs'" if "x \<in> set (gy_Pending s)" for x
          using that assms(3) rs activated_append by (auto simp: gateway_ok_def)
        then show "activated (ac_DeviceID (pa_Window x)) (nat (ac_Until (pa_Window x))) rs'" if "x \<in> set (gy_Pending s')" for x
          using that sub by blast
        show "\<exists>t. u = FormatTime t \<and> activated d t rs'" if win: "window_of (gy_DB s') d = Some (u, [])" for d u
        proof (cases "d = ?d")
          case True
          then show ?thesis using win w commit_activation(1) a [OF commit_activation(2)] by auto
        next
          case False
          then have "window_of (gy_DB s) d = Some (u, [])" using win w commit_activation(1) by simp
          then show ?thesis using assms(3) rs activated_append unfolding gateway_ok_def by blast
        qed
      qed
    qed (use keep sub commit_activation(1) in simp)
  next
    case (deactivate operator io d db shut e)
    note c = deactivate_cases [OF deactivate(3) assms(2) ok]
    have db: "gy_DB s' = db" "gy_Pending s' = gy_Pending s" using deactivate(1) by simp_all
    show ?thesis
    proof (rule keep)
      fix i u assume a: "window_of (gy_DB s') i = Some (u, [])"
      have "window_of db i = window_of (gy_DB s) i \<or> window_of db i = Some (FormatTime (gy_Now s), operator)"
        using c
      proof
        assume "\<not> shut \<and> keeps (dp_H D) (gy_DB s) db"
        then show ?thesis unfolding keeps_def by blast
      next
        assume "shut \<and> publishes (dp_H D) (gy_DB s) db \<and> gd_Control db = gd_Control (gy_DB s) \<and>
          (\<forall>i. window_of db i = (if i = d then Some (FormatTime (gy_Now s), operator) else window_of (gy_DB s) i)) \<and>
          ghas (gd_Events db) (dp_H D (deactivationKey (fst (loadActivation (gy_DB s) d)) (int (gy_Now s)))) \<and>
          (e = None \<or> (\<exists>e1. e = Some (Wrapped ''the device is inactive'' e1)))"
        then have "window_of db i = (if i = d then Some (FormatTime (gy_Now s), operator) else window_of (gy_DB s) i)" by blast
        then show ?thesis by (cases "i = d") (simp_all only: if_True if_False simp_thms)
      qed
      then show "window_of (gy_DB s) i = Some (u, [])"
      proof
        assume "window_of db i = window_of (gy_DB s) i"
        then show ?thesis using a unfolding db by (rule trans [OF sym])
      next
        assume "window_of db i = Some (FormatTime (gy_Now s), operator)"
        from this [symmetric] show ?thesis using a deactivate(2) unfolding db by simp
      qed
    qed (use db in simp)
  next
    case (check d db x)
    then show ?thesis using check_keeps [OF _ assms(2)] by (intro keep) (auto simp: keeps_def)
  next
    case (sweep io db e)
    then show ?thesis using sweep_keeps [OF _ assms(2) ok] by (intro keep) (auto simp: keeps_def)
  next
    case (revoke io d operator db e)
    then show ?thesis using revoke_cases [OF revoke(2)] by (intro keep) auto
  next
    case (sweep_revocations io db e)
    note k = revocations_keep [OF sweep_revocations(2) [unfolded RecordDeviceRevocations_def]]
    show ?thesis using k sweep_revocations(1) by (intro keep) (simp_all add: keeps_def)
  next
    case (revoke_grant io g operator remark refreshID db n e)
    then show ?thesis using revokeGrant_keeps [OF _ assms(2) ok] by (intro keep) (auto simp: keeps_def)
  qed (use keep in simp_all)
qed

lemma gateway_ok_steps: "(gateway_step D)\<^sup>*\<^sup>* s s' \<Longrightarrow> hex_hash (dp_H D) \<Longrightarrow> gateway_ok s \<Longrightarrow> gateway_ok s'"
  by (induction rule: rtranclp_induct) (use gateway_ok_step in blast)+

definition gateway_fresh :: "gateway_sys \<Rightarrow> bool" where
  "gateway_fresh s \<longleftrightarrow> gd_Activations (gy_DB s) = [] \<and> gd_Events (gy_DB s) = [] \<and> gy_Pending s = []"

lemma fresh_ok: "gateway_fresh s \<Longrightarrow> gateway_ok s"
  by (simp add: gateway_fresh_def gateway_ok_def events_ok_def)

text \<open>
  C18. A device's window opens only once its activation is on record: in every state the gateway reaches, a
  window that no operator has closed has in the audit log the activation that announces its end, whatever
  crashed, failed or ran between the two halves of activating.
\<close>

theorem window_opens_audited:
  assumes "gateway_fresh s" "hex_hash (dp_H D)" "(gateway_step D)\<^sup>*\<^sup>* s s'" "gd_Log (gy_DB s') = Some rs"
    and "gget (gd_Activations (gy_DB s')) d = Some r" "aw_ClosedBy r = []"
  shows "\<exists>t. aw_Until r = FormatTime t \<and> activated d t rs"
  using gateway_ok_steps [OF assms(3,2) fresh_ok [OF assms(1)]] assms(4-6) by (simp add: gateway_ok_def)


text \<open>
  C35. A deactivation holds whatever becomes of its audit record: once it has taken effect the device is
  inactive at every later time, its audit fact is durable, and the only error left is that the fact is
  still to be published.
\<close>

theorem deactivation_holds:
  assumes "DeactivateDevice H io d operator now db = (db', True, e)" "hex_hash H" "events_ok db" "time_year now < 10000" "now \<le> t"
  shows "\<not> snd (deviceActive db' d t) \<and> deviceStanding db' d t \<noteq> ([], []) \<and>
    ghas (gd_Events db') (H (deactivationKey (fst (loadActivation db d)) (int now))) \<and>
    (e = None \<or> (\<exists>e1. e = Some (Wrapped ''the device is inactive'' e1)))"
proof -
  note c = deactivate_cases [OF assms(1-3)]
  then have "window_of db' d = Some (FormatTime now, operator)" by simp
  then obtain r where "gget (gd_Activations db') d = Some r" "aw_Until r = FormatTime now" by auto
  then have "ac_Until (fst (loadActivation db' d)) = int now"
    using ParseTime_FormatTime [OF assms(4)] by (simp add: loadActivation_def)
  then have i: "\<not> snd (deviceActive db' d t)" using assms(5) by (simp add: deviceActive_def Let_def Active_def)
  then have "deviceStanding db' d t \<noteq> ([], [])"
    by (auto simp: deviceStanding_def CodeDeviceRevoked_def CodeDeviceInactive_def split: sum.splits prod.splits)
  then show ?thesis using c i by simp
qed

lemma revoked_step:
  assumes "gateway_step D s s'" "hex_hash (dp_H D)" "events_ok (gy_DB s)"
    and "gget (cs_Devices (gd_Control (gy_DB s))) d = Some row" "dr_Status row = DeviceRevoked"
  shows "\<exists>row. gget (cs_Devices (gd_Control (gy_DB s'))) d = Some row \<and> dr_Status row = DeviceRevoked"
  using assms(1)
proof cases
  case (begin_activation io d' w operator remark db r)
  then show ?thesis using begin_cases(1) [OF _ assms(2,3)] assms(4,5) by (auto simp: keeps_def)
next
  case (commit_activation p db r)
  then show ?thesis using commit_cases [OF _ assms(2)] assms(4,5) by fastforce
next
  case (deactivate operator io d' db shut e)
  then show ?thesis using deactivate_cases [OF _ assms(2,3)] assms(4,5) by (fastforce simp: keeps_def)
next
  case (check d' db x)
  then show ?thesis using check_keeps [OF _ assms(2)] assms(4,5) by (auto simp: keeps_def)
next
  case (sweep io db e)
  then show ?thesis using sweep_keeps [OF _ assms(2,3)] assms(4,5) by (auto simp: keeps_def)
next
  case (revoke io d' operator db e)
  then show ?thesis using revoke_cases [OF revoke(2)] assms(4,5) by simp
next
  case (sweep_revocations io db e)
  then show ?thesis using revocations_keep assms(4,5) by (fastforce simp: RecordDeviceRevocations_def keeps_def)
next
  case (revoke_grant io g operator remark refreshID db n e)
  then show ?thesis using revokeGrant_keeps [OF _ assms(2,3)] assms(4,5) by (auto simp: keeps_def)
next
  case (control fs as es c)
  then show ?thesis using step_row [OF control(2), of d row] assms(4,5) by auto
qed (use assms(4,5) in simp_all)

text \<open>
  C19. A revocation is terminal: after it no activation of the device goes through, not even one that had
  begun before, and its standing is that of a revoked device for good.
\<close>

theorem revocation_is_terminal:
  assumes "gateway_RevokeDevice (dp_H D) io d operator now (gy_DB s) = (db, e)" "e \<noteq> Some ErrNotFound" "e \<noteq> Some ErrUnique"
    and "hex_hash (dp_H D)" "events_ok (gy_DB s)" "(gateway_step D)\<^sup>*\<^sup>* (s\<lparr>gy_DB := db\<rparr>) s'"
  shows "deviceStanding (gy_DB s') d t = (CodeDeviceRevoked, ''the device was revoked'') \<and>
    (ac_DeviceID (pa_Window p) = d \<longrightarrow> ActivateDevice_commit (dp_H D) p (gy_DB s') = (gy_DB s', Inl ErrDeviceRevoked))"
proof -
  note c = revoke_cases [OF assms(1)]
  have "events_ok (gy_DB s') \<and> (\<exists>row. gget (cs_Devices (gd_Control (gy_DB s'))) d = Some row \<and> dr_Status row = DeviceRevoked)" using assms(6)
  proof (induction rule: rtranclp_induct)
    case base
    then show ?case using c assms(2,3,5) by (auto simp: publishes_def)
  next
    case (step u v)
    then show ?case using revoked_step [OF step(2) assms(4)] gateway_publishes [OF step(2) assms(4)] unfolding publishes_def by blast
  qed
  then show ?thesis by (auto simp: deviceStanding_def store_Device_def device_of_row_def ActivateDevice_commit_def Let_def)
qed

section \<open>A window, opened and closed\<close>

text \<open>A record of short texts fits its line.\<close>

lemma small_string: "length s \<le> 100 \<Longrightarrow> length name \<le> 30 \<Longrightarrow> member_size (field name (json_string s)) \<le> 1000"
  using member_size_string [of name s] by linarith

lemma small_opt: "length s \<le> 100 \<Longrightarrow> length name \<le> 30 \<Longrightarrow> member_size (field_opt name s) \<le> 1000"
  using member_size_opt [of name s] by linarith

lemma small_plain: "length v \<le> 100 \<Longrightarrow> length name \<le> 30 \<Longrightarrow> member_size (field name v) \<le> 1000"
  using member_size_field [of v 100 name] by linarith

lemma small_fits:
  assumes "list_all (\<lambda>s. length s \<le> 100) (texts r)" "a_ExitCode r = None" "a_StdinBytes r = 0" "\<bar>a_Redactions r\<bar> < 10 ^ 19" "\<bar>a_DurationMS r\<bar> < 10 ^ 19"
  shows "fits r"
proof -
  let ?fs = "head_fields r @ [field ''hash'' (json_string (a_Hash r))] @ tail_fields r @ [field_opt ''event_id'' (a_EventID r)]"
  have n: "length (nat_dec (unat (a_Seq r))) \<le> 100"
    using nat_dec_length [of 20 "unat (a_Seq r)"] unsigned_less [of "a_Seq r", where ?'a = nat] by simp
  have i: "length (int_dec (a_Redactions r)) \<le> 100" "length (int_dec (a_DurationMS r)) \<le> 100" "length (json_bool b) \<le> 100" for b
    using int_dec_length [OF assms(4)] int_dec_length [OF assms(5)] by (simp_all add: json_bool_def)
  have "list_all (\<lambda>f. member_size f \<le> 1000) ?fs"
    using assms(1-3) n i unfolding head_fields_def tail_fields_def texts_def
    by (simp add: small_string small_opt small_plain)
  then have "sum_list (map member_size ?fs) \<le> length ?fs * 1000" by (rule sum_list_bound)
  also have "length ?fs = 37" by (simp add: head_fields_def tail_fields_def)
  finally show ?thesis using json_object_length [of ?fs] by (simp add: fits_def recordJSON_def maxAuditLineBytes_def)
qed

definition hash_deployment :: deployment where
  "hash_deployment = sample_deployment\<lparr>dp_H := zero_digest\<rparr>"

definition sample_gateway :: gateway_sys where
  "sample_gateway = \<lparr>gy_DB = \<lparr>gd_Control = sy_Store sample_system, gd_Activations = [], gd_Revocations = [], gd_Clients = [], gd_Grants = [], gd_Events = [], gd_Log = Some []\<rparr>,
     gy_Now = 0, gy_Pending = []\<rparr>"

definition opened :: auditRecord where
  "opened = blank_record\<lparr>a_TS := format_time 0, a_Event := EventDeviceActivated, a_DeviceID := ''dev_1'', a_Operator := ''web:op'',
     a_ActiveUntil := format_time (60 * second), a_Note := []\<rparr>"

lemma opened_texts: "list_all (\<lambda>s. length s \<le> 100) (texts (chained zero_digest 0 [] opened))"
proof -
  have "length (format_time t) = 20" if "t < 86400 * second" for t
  proof -
    have "length (butlast (format_time t)) = 19" using format_time_split [OF year_1970 [OF that]] by blast
    then show ?thesis unfolding length_butlast by linarith
  qed
  then have "length (format_time 0) = 20" "length (format_time (60 * second)) = 20" by simp_all
  then show ?thesis by (simp add: texts_def chained_def linked_def Let_def opened_def blank_record_def EventDeviceActivated_def zero_digest_def ComputeHash_def ZeroHash_def)
qed

lemma opened_fits: "fits (chained zero_digest 0 [] opened)"
  by (rule small_fits [OF opened_texts]) (simp_all add: chained_def linked_def Let_def opened_def blank_record_def)

lemma sample_opening:
  "\<exists>s1 s2 rs r. gateway_step hash_deployment sample_gateway s1 \<and> gateway_step hash_deployment s1 s2 \<and> gd_Log (gy_DB s2) = Some rs \<and> rs \<noteq> [] \<and>
     gget (gd_Activations (gy_DB s2)) ''dev_1'' = Some r \<and> aw_ClosedBy r = []"
proof -
  let ?io = "\<lambda>_. True" and ?rs = "[read_back (chained zero_digest 0 [] opened)]"
  let ?db1 = "(gy_DB sample_gateway)\<lparr>gd_Log := Some ?rs\<rparr>"
  let ?p = "\<lparr>pa_Previous = fst (loadActivation (gy_DB sample_gateway) ''dev_1''), pa_Expired = False,
    pa_Window = \<lparr>ac_DeviceID = ''dev_1'', ac_Until = int (60 * second), ac_SetBy = ''web:op'', ac_Note = [], ac_SetAt = 0, ac_ClosedBy = []\<rparr>, pa_Now = 0\<rparr>"
  have H: "dp_H hash_deployment = zero_digest" by (simp add: hash_deployment_def)
  have a: "appendSecurityRecord zero_digest 0 ?io opened (gy_DB sample_gateway) = (?db1, None)"
    using opened_fits by (simp add: appendSecurityRecord_def AppendUnless_def ReadAll_def write_records_def sample_gateway_def Let_def)
  have d: "store_Device (gd_Control (gy_DB sample_gateway)) ''dev_1'' = Inr (device_of_row ''dev_1'' sample_device)"
    by (simp add: store_Device_def sample_gateway_def sample_system_def empty_control_def)
  have st: "dr_Status sample_device \<noteq> DeviceRevoked" by (simp add: sample_device_def DeviceActive_def DeviceRevoked_def)
  have l: "gd_Activations (gy_DB sample_gateway) = []" by (simp add: sample_gateway_def)
  have b: "ActivateDevice_begin zero_digest ?io ''dev_1'' (int (60 * second)) ''web:op'' [] 0 (gy_DB sample_gateway) = (?db1, Inr ?p)"
    using a d st unfolding opened_def ActivateDevice_begin_def
    by (simp add: device_of_row_def MinActivation_def MaxActivation_def loadActivation_def l)
  let ?s1 = "sample_gateway\<lparr>gy_DB := ?db1, gy_Pending := [?p]\<rparr>"
  have n: "gy_Now sample_gateway = 0" "gy_Pending sample_gateway = []" by (simp_all add: sample_gateway_def)
  have 1: "gateway_step hash_deployment sample_gateway ?s1"
    using gateway_step.begin_activation [of hash_deployment ?io "''dev_1''" "int (60 * second)" "''web:op''" "[]" sample_gateway ?db1 "Inr ?p"] b H n by simp
  obtain db2 r where c: "ActivateDevice_commit zero_digest ?p ?db1 = (db2, r)" by (cases "ActivateDevice_commit zero_digest ?p ?db1")
  have "gget (cs_Devices (gd_Control ?db1)) ''dev_1'' = Some sample_device" by (simp add: sample_gateway_def sample_system_def empty_control_def)
  then have c2: "gd_Log db2 = Some ?rs \<and> (\<exists>r. gget (gd_Activations db2) ''dev_1'' = Some r \<and> aw_ClosedBy r = [])"
    using c st by (auto simp: ActivateDevice_commit_def Let_def loadActivation_def l)
  have 2: "gateway_step hash_deployment ?s1 (?s1\<lparr>gy_DB := db2, gy_Pending := remove1 ?p [?p]\<rparr>)"
    using gateway_step.commit_activation [of ?p ?s1 hash_deployment db2 r] c H by simp
  from 1 2 c2 show ?thesis by fastforce
qed

lemma hash_deployment_ok: "hex_hash (dp_H hash_deployment)" "gateway_fresh sample_gateway" "gd_Log (gy_DB sample_gateway) = Some []" "events_ok (gy_DB sample_gateway)"
  using zero_hash by (simp_all add: hash_deployment_def gateway_fresh_def sample_gateway_def events_ok_def)

theorem window_opens_audited_witness:
  "\<exists>s rs r. (gateway_step hash_deployment)\<^sup>*\<^sup>* sample_gateway s \<and> gd_Log (gy_DB s) = Some rs \<and> gget (gd_Activations (gy_DB s)) ''dev_1'' = Some r \<and>
     (\<exists>t. aw_Until r = FormatTime t \<and> activated ''dev_1'' t rs)"
proof -
  obtain s1 s2 rs r where s: "gateway_step hash_deployment sample_gateway s1" "gateway_step hash_deployment s1 s2" "gd_Log (gy_DB s2) = Some rs"
    "gget (gd_Activations (gy_DB s2)) ''dev_1'' = Some r" "aw_ClosedBy r = []" using sample_opening by blast
  from s(1,2) have t: "(gateway_step hash_deployment)\<^sup>*\<^sup>* sample_gateway s2" by (meson r_into_rtranclp rtranclp_trans)
  from window_opens_audited [OF hash_deployment_ok(2,1) t s(3-5)] show ?thesis using t s by blast
qed


definition open_window :: activation_row where
  "open_window = \<lparr>aw_Until = FormatTime (60 * second), aw_SetBy = ''web:op'', aw_Note = [], aw_SetAt = FormatTime 0, aw_Recorded = False, aw_ClosedBy = []\<rparr>"

theorem deactivation_holds_witness:
  "\<exists>db e. DeactivateDevice zero_digest (\<lambda>_. False) ''dev_1'' ''web:op'' 0 ((gy_DB sample_gateway)\<lparr>gd_Activations := [(''dev_1'', open_window)]\<rparr>) =
     (db, True, Some (Wrapped ''the device is inactive'' e)) \<and> \<not> snd (deviceActive db ''dev_1'' (5 * second))"
proof -
  let ?db = "(gy_DB sample_gateway)\<lparr>gd_Activations := [(''dev_1'', open_window)]\<rparr>"
  have "ac_Until (fst (loadActivation ?db ''dev_1'')) = int (60 * second)"
    using ParseTime_FormatTime [OF year_1970, of "60 * second"] by (simp add: loadActivation_def open_window_def)
  then have a: "Active (fst (loadActivation ?db ''dev_1'')) 0" by (simp add: Active_def zero_time_def)
  have g: "ghas (cs_Devices (gd_Control ?db)) ''dev_1''" by (simp add: sample_gateway_def sample_system_def empty_control_def ghas_def)
  obtain db e where d: "DeactivateDevice zero_digest (\<lambda>_. False) ''dev_1'' ''web:op'' 0 ?db = (db, True, Some (Wrapped ''the device is inactive'' e))"
    using a g by (auto simp: DeactivateDevice_def Let_def publishSecurityAudit_def enqueueSecurityAudit_def publishSecurityRecord_def
      appendSecurityRecord_def sample_gateway_def ghas_def pendingAudit_def)
  have ok: "events_ok ?db" by (simp add: events_ok_def sample_gateway_def)
  from deactivation_holds [OF d zero_hash ok year_1970, of "5 * second"] show ?thesis using d by auto
qed

theorem revocation_is_terminal_witness:
  "\<exists>db e. gateway_RevokeDevice zero_digest (\<lambda>_. False) ''dev_1'' ''web:op'' 0 (gy_DB sample_gateway) = (db, Some e) \<and>
     deviceStanding db ''dev_1'' (5 * second) = (CodeDeviceRevoked, ''the device was revoked'')"
proof -
  obtain db e where d: "gateway_RevokeDevice zero_digest (\<lambda>_. False) ''dev_1'' ''web:op'' 0 (gy_DB sample_gateway) = (db, Some e)"
    "Some e \<noteq> Some ErrNotFound" "Some e \<noteq> Some ErrUnique"
    by (auto simp: gateway_RevokeDevice_def recordDeviceRevocation_def sample_gateway_def sample_system_def empty_control_def sample_device_def
      DeviceActive_def DeviceRevoked_def ghas_def ErrNotFound_def ErrUnique_def)
  have H: "dp_H hash_deployment = zero_digest" by (simp add: hash_deployment_def)
  from revocation_is_terminal [of hash_deployment "\<lambda>_. False" "''dev_1''" "''web:op''" 0 sample_gateway db "Some e", unfolded H,
    OF d zero_hash hash_deployment_ok(4) rtranclp.rtrancl_refl]
  show ?thesis using d(1) by auto
qed

end
