(* ===== verification/Spec2Isabelle.thy ===== *)
theory Spec2Isabelle
  imports PolicyStore Commandline Output Submit RunStore Payload GatewayStanding
begin

text \<open>
  AgentSSH lets an agent run commands on hosts it has no credentials for. A command is checked against
  a policy of ordered rules; what the policy leaves undecided needs the approval of an operator; an
  approval becomes a grant of a session or a rule of a host; everything is recorded in a hash-chained
  audit log; the output goes back redacted and bounded. This development models the decision core of
  the program, the code under \<open>src/internal\<close> that answers whether a command may run, under what
  approval, and what is recorded and shown.

  Parts and theories.

  \<^item> \<open>Prelude\<close>: results (\<open>error + 'a\<close>, \<open>rbind\<close>), Go maps as association lists in visiting order
    (\<open>gget\<close>, \<open>gput\<close>, \<open>gdel\<close>), the shared lemma collections. \<open>Utf8\<close>: Go strings as lists of bytes, their
    runes, spaces and validity. \<open>Json\<close>: the text \<open>encoding/json\<close> writes for the records that are hashed,
    and that this text determines its fields. \<open>Clock\<close>: RFC 3339 times in UTC and their comparison.
  \<^item> \<open>Inventory\<close> (\<open>inventory/inventory.go\<close>): hosts, tags and groups, \<open>Resolve\<close>, and the public projection.
  \<^item> \<open>Policy\<close> (\<open>policy/policy.go\<close>): rules, group policies, host overrides; \<open>NewEngine\<close>, \<open>Evaluate\<close>,
    \<open>EffectiveRules\<close>, the deny-only overlay. \<open>PolicyStore\<close> (\<open>policy/store.go\<close>): the edits of the document.
  \<^item> \<open>Commandline\<close> (\<open>commandline/command.go\<close>): \<open>Render\<close> and \<open>Parse\<close> of the direct command notation.
  \<^item> \<open>Output\<close> (\<open>output/output.go\<close>): filters, \<open>Apply\<close>, and the stream writer as a state machine.
  \<^item> \<open>Regex\<close>, \<open>Generalize\<close>, \<open>Matching\<close>, \<open>Task\<close> (\<open>approval/matcher.go\<close>, \<open>generalize.go\<close>, \<open>task.go\<close>): the
    expressions the program writes for approvals, the matchers minted for a command, what they cover,
    and the permissions for bounded tasks.
  \<^item> \<open>SessionStore\<close> (\<open>approval/session_store.go\<close>): the grants of sessions, as steps under the store's lock.
  \<^item> \<open>ApprovalConfig\<close>, \<open>Authorize\<close> (\<open>approval/config.go\<close>, \<open>authorize.go\<close>): the settings, and the decision over
    policy, grants and host rules.
  \<^item> \<open>Request\<close> (\<open>approval/request.go\<close>): pending requests, resolutions, waiting. \<open>ApprovalPlan\<close>
    (\<open>approval/plan.go\<close>): plans of several requests. \<open>Adjudicate\<close> (\<open>approval/adjudicate.go\<close>, and
    \<open>ApplyPlanDecision\<close>): an operator's decision, from the request to the audit record and the grant.
  \<^item> \<open>AuditLog\<close> (\<open>audit/record.go\<close>): records, their canonical text, the chain, appending, verifying, repair.
    \<open>Sessions\<close> (\<open>session/session.go\<close>): naming sessions, and the summaries of the log.
  \<^item> \<open>Runner\<close> (\<open>runner/runner.go\<close>, \<open>response.go\<close>): the pipeline of a run, from the session of each target over
    the authorisation, the approval requests and the records to the executor, the settling of once grants
    and the responses. \<open>Submit\<close> (\<open>runner/plan.go\<close>): submitting the commands of a plan. \<open>JsonSize\<close>: how long
    JSON texts get.
  \<^item> \<open>JsonParse\<close>: \<open>json.Unmarshal\<close> as a parser. \<open>ClockNano\<close> (\<open>controlplane/store.go\<close>): the times of records.
    \<open>Wire\<close>, \<open>Frames\<close> (\<open>remote/exec.go\<close>): run identifiers, the messages of a run, and their frames.
    \<open>ExecStream\<close> (\<open>remote/exec.go\<close>, \<open>remoteclient/client.go\<close>): the client, which starts a run and reattaches to
    it over a failing network.
  \<^item> \<open>RunSpool\<close>, \<open>RunStore\<close> (\<open>gateway/runstore.go\<close>, \<open>exec.go\<close>, \<open>standing.go\<close>): the spool of a run and its cap;
    the records that claim identifiers, starting, ending, looking up and cancelling runs, eviction and
    ageing, as steps of a server under its lock, with a restart as a step.

  \<^item> \<open>Payload\<close> (\<open>payload/store.go\<close>): the contents staged for commands, addressed by their digest, with the
    owners that pin them, the limits, and the collection of what has expired.
  \<^item> \<open>Base64\<close>, \<open>Signed\<close> (\<open>remote/request_signature.go\<close>): strict base64, and the signatures of requests with
    their parser. \<open>Enroll\<close> (\<open>remote/enrollment.go\<close>): base URLs, enrolment tokens, public keys.
  \<^item> \<open>ControlStore\<close> (\<open>controlplane/store.go\<close>, \<open>enrollment_store.go\<close>, \<open>config.go\<close>, \<open>handler.go\<close>): the tables of
    the control plane with an operation per transaction, and the handlers of enrolment and of signed requests.
    \<open>ControlPlane\<close>: all of them as the steps of a system. \<open>OneShot\<close>: the contract of a credential that works
    once (locale \<open>one_shot\<close>), which proofs and tokens meet.
  \<^item> \<open>Standing\<close> (\<open>gateway/activation.go\<close>, \<open>revocation.go\<close>, \<open>security_audit.go\<close>, \<open>standing.go\<close>): the windows in
    which a device of the gateway may act, its revocation, and the audit facts that are committed first and
    published later. \<open>OAuthGrants\<close> (\<open>gateway/oauth.go\<close>): the revocation of a grant, which queues and
    publishes facts too. \<open>GatewayStanding\<close>: these as steps beside those of the control plane.

  State. A Go struct is a record with the fields' names (prefixed where several structs share one), a
  directory of JSON files is a map from file names to contents, \<open>None\<close> for a file that does not parse,
  with its modification time where the code reads it. A function that changes files takes the state and
  returns it with its result. Errors are values: a sentinel is \<open>Sentinel\<close>, a formatted error \<open>Errorf\<close>
  with its kind and arguments (not its exact text), a wrapped one \<open>Wrapped\<close>. Times are natural numbers
  of nanoseconds. Sequence numbers of audit records are 64-bit words and wrap. A run shares its files with
  other processes: each of its operations on them happens at a tick, before which the others have changed
  the files by an arbitrary function of that tick.

  Parameters. SHA-256 in hexadecimal is a function \<open>H\<close>; where collision freedom matters the property
  says so of the very two texts. Ed25519 is a pair \<open>sign\<close>, \<open>verify\<close>, and \<open>url.Parse\<close> in \<open>Enroll\<close> an
  argument. Go's \<open>regexp\<close> is an \<open>engine\<close>: \<open>go_engine\<close> is modelled exactly on the expressions the program
  itself writes and is an arbitrary function on all others (the locale \<open>regex_engine\<close> states what the
  matchers rely on, and is interpreted on \<open>go_engine\<close>). \<open>libs\<close> holds \<open>url.Parse\<close> and
  \<open>strconv.ParseFloat\<close> for the task recogniser. Random bytes are arguments.

  What the lemmas show. The policy engine decides like the list of effective rules it displays, whatever
  order maps are visited in, and an overlay only tightens it. Matchers cover the command they were made
  for; exact ones cover nothing else, prefix ones only plain tails, task ones only the pinned objects. A
  once grant is claimed by one request at a time and consumed once over any run of the store. A command
  runs under a grant only when the operator's rules leave it open and a live grant of its host and stdin
  or a checked host rule covers it; explicit denials are final. A decision binds the request it was made
  on, is final, is published once, and no grant is written before its audit record. The audit log extends
  by verified appends only, two verified logs with the same head agree on everything covered, and repair
  keeps the verified prefix. A run hands a command to the executor only after recording its start and only
  as the policy allows, a group with an open approval runs nothing, the log's last record carries the
  digest of the output returned, and a once grant is consumed or given back. A submitted plan of valid texts
  shows every command to its reviewer; one with a command that is not valid UTF-8 never reads back. Parse and Render are inverse; the stream writer emits the redacted text, up
  to its bound, however the output is cut.

  Remote runs. A client that gets a result has written the run's output exactly once, however often its
  connection broke, and gets one once the network answers within its patience. A run's spool never
  exceeds its cap, and with a working disk the spool of a run that came to its end holds an answer for every
  target. An identifier is started at most once within the hour the code promises, if the retention of
  runs and their timeout cover it, and a cancel that comes first keeps its run from starting:
  both are invariants of every step (locales \<open>ageing\<close>, \<open>serving\<close>, interpreted on the claims of the store),
  as are the slots of a device and the space its live runs take.

  Devices. A signed request is served at most once, and only if its device signed it; a token enrols one
  device; a revoked device is served nothing more, even what had authenticated before, and no activation
  begun before opens its window. Signatures are assumed unforgeable there: whatever verifies under a key is
  the text of a signing. A window opens only after its audit record, and each security fact is published
  once over any failures and repairs; the revocation of a grant holds whatever becomes of its facts. A push is never overwritten by a replacement of the version before it.
  A pinned content stays readable over any use that neither unpins nor forces it out.

  Bounds and termination. Loops are structural, or have a measure (parsing: the rest of the text; waiting:
  the time to the deadline, a sleep being at least 50 milliseconds). The JSON parser takes fuel, the length
  of its text, which \<open>json_text_fuel\<close> shows to be enough. A client follows a run over a list of rounds of
  the network; a list that is too short is the result \<open>None\<close>.

  Not modelled. File and lock failures (but for the run store and the audit file of the gateway), yaml (a
  file holds its document or does not parse), the executors, the HTTP transport, failures of the databases,
  OAuth beyond the revocation of grants, tokens, operators and the web pages of the gateway, bundles, the
  command line interface, the terminal console, discovery, secrets.
\<close>

end
